(* ===== verification/Prelude.thy ===== *)
theory Prelude
  imports Main "HOL-Library.Multiset"
begin

text \<open>
  Shared vocabulary of the development: C++ exceptions as values, the result of an operation that
  may throw after it has changed its object, the integer ranges of the target, the list idioms of
  the standard library that the sources use (\<open>find\<close> then \<open>erase\<close>, the erase--remove idiom, the last
  match of a reverse iteration), and the theorem collections that carry the component proofs.

  Signed C++ arithmetic that overflows has no defined result.  Signed quantities are therefore
  modelled by \<open>int\<close> without wrap-around, and where a component computes with them there are lemmas
  that the values it produces stay inside \<open>fits_int\<close> or \<open>fits_long_long\<close> for inputs in a stated
  range.  Unsigned quantities, whose arithmetic does wrap, are words.
\<close>

named_theorems geom_simps \<open>coordinates of the results of geometry operations\<close>
named_theorems inv_intros \<open>invariant preservation, one rule per operation\<close>

section \<open>Exceptions and results\<close>

datatype exn =
    Logic_error string
  | Runtime_error string
  | Invalid_argument string
  | Out_of_range string

text \<open>A throwing operation keeps the state changes it made before the throw.\<close>

type_synonym ('s, 'a) outcome = "(exn + 'a) \<times> 's"

definition ret :: "'a \<Rightarrow> 's \<Rightarrow> ('s, 'a) outcome" where
  "ret a s = (Inr a, s)"

definition throw :: "exn \<Rightarrow> 's \<Rightarrow> ('s, 'a) outcome" where
  "throw e s = (Inl e, s)"

definition state_of :: "('s, 'a) outcome \<Rightarrow> 's" where
  "state_of r = snd r"

definition result_of :: "('s, 'a) outcome \<Rightarrow> exn + 'a" where
  "result_of r = fst r"

lemma outcome_sel [simp]:
  "state_of (ret a s) = s" "state_of (throw e s) = s"
  "result_of (ret a s) = Inr a" "result_of (throw e s) = Inl e"
  by (simp_all add: state_of_def result_of_def ret_def throw_def)

lemma ret_throw_eq [simp]:
  "(ret a s = ret b t) = (a = b \<and> s = t)" "(throw e s = throw f t) = (e = f \<and> s = t)"
  "ret a s \<noteq> throw e t" "throw e t \<noteq> ret a s"
  by (auto simp: ret_def throw_def)

text \<open>Sequencing: an exception skips the rest of the function body.\<close>

definition and_then :: "('s, 'a) outcome \<Rightarrow> ('a \<Rightarrow> 's \<Rightarrow> ('t, 'b) outcome) \<Rightarrow> ('s \<Rightarrow> 't) \<Rightarrow> ('t, 'b) outcome" where
  "and_then m f g = (case m of (Inl e, s) \<Rightarrow> (Inl e, g s) | (Inr a, s) \<Rightarrow> f a s)"

lemma and_then_simps [simp]:
  "and_then (ret a s) f g = f a s" "and_then (throw e s) f g = throw e (g s)"
  by (simp_all add: and_then_def ret_def throw_def)

section \<open>Ranges of the integer types\<close>

abbreviation int_max :: int where "int_max \<equiv> 2147483647"
abbreviation int_min :: int where "int_min \<equiv> -2147483648"

definition fits_int :: "int \<Rightarrow> bool" where
  "fits_int n \<longleftrightarrow> int_min \<le> n \<and> n \<le> int_max"

definition fits_long_long :: "int \<Rightarrow> bool" where
  "fits_long_long n \<longleftrightarrow> -9223372036854775808 \<le> n \<and> n \<le> 9223372036854775807"

text \<open>C++ integer division and remainder truncate towards zero.\<close>

definition trunc_div :: "int \<Rightarrow> int \<Rightarrow> int" where
  "trunc_div a b = sgn a * sgn b * (\<bar>a\<bar> div \<bar>b\<bar>)"

definition trunc_mod :: "int \<Rightarrow> int \<Rightarrow> int" where
  "trunc_mod a b = a - b * trunc_div a b"

lemma trunc_div_nonneg: "0 \<le> a \<Longrightarrow> 0 < b \<Longrightarrow> trunc_div a b = a div b"
  by (cases "a = 0") (auto simp: trunc_div_def)

lemma trunc_mod_nonneg: "0 \<le> a \<Longrightarrow> 0 < b \<Longrightarrow> trunc_mod a b = a mod b"
  by (simp add: trunc_mod_def trunc_div_nonneg minus_mult_div_eq_mod)

section \<open>List idioms of the standard library\<close>

text \<open>\<open>v.erase(remove(begin(v), end(v), x), end(v))\<close> is \<^const>\<open>removeAll\<close>, and \<open>find\<close>
  followed by \<open>erase\<close> of the position found is \<^const>\<open>remove1\<close>.\<close>

definition find_last :: "('a \<Rightarrow> bool) \<Rightarrow> 'a list \<Rightarrow> 'a option" where
  "find_last P xs = List.find P (rev xs)"

lemma find_last_Some_iff:
  "find_last P xs = Some x \<longleftrightarrow> (\<exists>ys zs. xs = ys @ x # zs \<and> P x \<and> (\<forall>z\<in>set zs. \<not> P z))"
proof
  assume "find_last P xs = Some x"
  then obtain i where i: "i < length xs" "P x" "rev xs ! i = x" "\<forall>j<i. \<not> P (rev xs ! j)"
    by (auto simp: find_last_def find_Some_iff)
  have "rev xs = take i (rev xs) @ x # drop (Suc i) (rev xs)"
    using i by (metis id_take_nth_drop length_rev)
  then have "xs = rev (drop (Suc i) (rev xs)) @ x # rev (take i (rev xs))"
    by (metis append.assoc append_Cons append_Nil rev.simps(2) rev_append rev_rev_ident)
  moreover have "\<forall>z\<in>set (rev (take i (rev xs))). \<not> P z"
    using i by (auto simp: in_set_conv_nth)
  ultimately show "\<exists>ys zs. xs = ys @ x # zs \<and> P x \<and> (\<forall>z\<in>set zs. \<not> P z)"
    using i(2) by blast
next
  assume "\<exists>ys zs. xs = ys @ x # zs \<and> P x \<and> (\<forall>z\<in>set zs. \<not> P z)"
  then obtain ys zs where "xs = ys @ x # zs" "P x" "\<forall>z\<in>set zs. \<not> P z" by blast
  moreover have "List.find P (us @ x # vs) = Some x" if "\<forall>z\<in>set us. \<not> P z" "P x" for us vs
    using that by (induction us) auto
  ultimately show "find_last P xs = Some x"
    by (simp add: find_last_def)
qed

lemma find_last_None_iff: "find_last P xs = None \<longleftrightarrow> (\<forall>x\<in>set xs. \<not> P x)"
  by (auto simp: find_last_def find_None_iff)

lemma find_last_in_set: "find_last P xs = Some x \<Longrightarrow> x \<in> set xs \<and> P x"
  by (auto simp: find_last_Some_iff)

lemma mset_remove1_snoc: "x \<in> set xs \<Longrightarrow> mset (remove1 x xs @ [x]) = mset xs"
  by simp

lemma removeAll_snoc_distinct: "distinct xs \<Longrightarrow> distinct (removeAll x xs @ [x])"
  by (auto simp: distinct_removeAll)

lemma removeAll_absent [simp]: "x \<notin> set xs \<Longrightarrow> removeAll x xs = xs"
  by (induction xs) auto

section \<open>Enumerations shared by the scene and the window manager\<close>

datatype depth_layer =
    Layer_background
  | Layer_below
  | Layer_application
  | Layer_always_on_top
  | Layer_above
  | Layer_overlay

end
