(* ===== verification/Loops.thy ===== *)
theory Loops
  imports Prelude
begin

text \<open>
  Control structures for code that may run forever: a computation is a result with a state as in the
  prelude, or \<open>None\<close> if it does not end.  Recursive functions of the sources that follow links between
  objects are \<open>partial_function\<close>s over this type, so that they exist whether or not the links form a
  cycle, and that they return is a theorem where it holds.
\<close>

type_synonym ('s, 'a) run = "('s, 'a) outcome option"

definition go_on :: "('s, 'a) run \<Rightarrow> ('a \<Rightarrow> 's \<Rightarrow> ('s, 'b) run) \<Rightarrow> ('s, 'b) run" where
  "go_on m f = (case m of None \<Rightarrow> None | Some r \<Rightarrow> (case r of (Inl e, s) \<Rightarrow> Some (Inl e, s) | (Inr a, s) \<Rightarrow> f a s))"

lemma go_on_simps [simp]:
  "go_on None f = None" "go_on (Some (ret a s)) f = f a s" "go_on (Some (throw e s)) f = Some (throw e s)"
  by (simp_all add: go_on_def ret_def throw_def)

lemma go_on_ret_iff: "go_on m f = Some (ret b t) \<longleftrightarrow> (\<exists>a s. m = Some (ret a s) \<and> f a s = Some (ret b t))"
  by (auto simp: go_on_def ret_def split: option.split sum.split)

lemma go_on_assoc: "go_on (go_on m f) g = go_on m (\<lambda>a s. go_on (f a s) g)"
  by (auto simp: go_on_def split: option.split sum.split)

text \<open>A loop that calls \<open>f\<close> on each item, and one that ends when a call gives a result.\<close>

fun run_each :: "('x \<Rightarrow> 's \<Rightarrow> ('s, unit) run) \<Rightarrow> 'x list \<Rightarrow> 's \<Rightarrow> ('s, unit) run" where
  "run_each f [] s = Some (ret () s)"
| "run_each f (x # xs) s = go_on (f x s) (\<lambda>_ s. run_each f xs s)"

fun run_until :: "('x \<Rightarrow> 's \<Rightarrow> ('s, 'r option) run) \<Rightarrow> 'x list \<Rightarrow> 's \<Rightarrow> ('s, 'r option) run" where
  "run_until f [] s = Some (ret None s)"
| "run_until f (x # xs) s = go_on (f x s) (\<lambda>r s. if r = None then run_until f xs s else Some (ret r s))"

section \<open>Monotonicity\<close>

lemma go_on_mono [partial_function_mono]:
  fixes B :: "('x \<Rightarrow> 'y option) \<Rightarrow> ('s, 'a) run"
  assumes "mono_option B" "\<And>a s. mono_option (\<lambda>f. C a s f)"
  shows "mono_option (\<lambda>f. go_on (B f) (\<lambda>a s. C a s f))"
proof (rule monotoneI)
  fix f g :: "'x \<Rightarrow> 'y option"
  assume fg: "fun_ord option_ord f g"
  have B: "option_ord (B f) (B g)" using assms(1) fg by (rule monotoneD [of _ _ _ f g])
  have C: "option_ord (C a s f) (C a s g)" for a s using assms(2) fg by (rule monotoneD [of _ _ _ f g])
  show "option_ord (go_on (B f) (\<lambda>a s. C a s f)) (go_on (B g) (\<lambda>a s. C a s g))"
  proof (cases "B f")
    case (Some r)
    then have "B g = Some r" using B by (auto simp: flat_ord_def)
    with Some show ?thesis using C by (cases r; cases "fst r") (auto simp: go_on_def flat_ord_def)
  qed (simp add: flat_ord_def)
qed

lemma run_each_mono [partial_function_mono]:
  assumes "\<And>x s. mono_option (\<lambda>f. B x s f)"
  shows "mono_option (\<lambda>f. run_each (\<lambda>x s. B x s f) xs t)"
proof (induction xs arbitrary: t)
  case (Cons x xs)
  show ?case unfolding run_each.simps by (intro go_on_mono assms Cons)
qed (simp add: option.const_mono)

section \<open>Loops that return\<close>

lemma run_each_invariant:
  assumes "\<And>x s. x \<in> set xs \<Longrightarrow> I s \<Longrightarrow> \<exists>s'. f x s = Some (ret () s') \<and> I s'" "I s"
  shows "\<exists>s'. run_each f xs s = Some (ret () s') \<and> I s'"
  using assms
proof (induction xs arbitrary: s)
  case (Cons x xs)
  then obtain s' where s': "f x s = Some (ret () s')" "I s'" by (metis list.set_intros(1))
  with Cons.IH [of s'] Cons.prems(1) show ?case by simp
qed simp

lemma run_until_invariant:
  assumes "\<And>x s. x \<in> set xs \<Longrightarrow> I s \<Longrightarrow> \<exists>r s'. f x s = Some (ret r s') \<and> I s' \<and> (\<forall>y. r = Some y \<longrightarrow> Q y s')"
    and "I s"
  shows "\<exists>r s'. run_until f xs s = Some (ret r s') \<and> I s' \<and> (\<forall>y. r = Some y \<longrightarrow> Q y s')"
  using assms
proof (induction xs arbitrary: s)
  case (Cons x xs)
  have "\<exists>r s'. f x s = Some (ret r s') \<and> I s' \<and> (\<forall>y. r = Some y \<longrightarrow> Q y s')"
    by (rule Cons.prems(1) [OF _ Cons.prems(2)]) simp
  then obtain r s' where s': "f x s = Some (ret r s')" "I s'" "\<forall>y. r = Some y \<longrightarrow> Q y s'" by blast
  then show ?case using Cons.IH [of s'] Cons.prems(1) by (cases r) auto
qed simp

section \<open>Following links\<close>

text \<open>The items met by following \<open>next\<close> from a start, in order.\<close>

partial_function (option) chain :: "('a \<Rightarrow> 'a option) \<Rightarrow> 'a option \<Rightarrow> 'a list option" where
  "chain next item = (case item of None \<Rightarrow> Some []
     | Some x \<Rightarrow> Option.bind (chain next (next x)) (\<lambda>xs. Some (x # xs)))"

definition links :: "('a \<Rightarrow> 'a option) \<Rightarrow> ('a \<times> 'a) set" where
  "links next = {(y, x). next x = Some y}"

lemma chain_simps [simp]:
  "chain next None = Some []"
  "chain next (Some x) = Option.bind (chain next (next x)) (\<lambda>xs. Some (x # xs))"
  by (subst chain.simps, simp)+

lemma chain_ends:
  assumes "wf (links next)"
  shows "\<exists>xs. chain next item = Some xs \<and> set xs = {y. \<exists>x. item = Some x \<and> (y, x) \<in> (links next)\<^sup>*} \<and> distinct xs"
proof (cases item)
  case (Some x)
  have "\<exists>xs. chain next (Some x) = Some xs \<and> set xs = {y. (y, x) \<in> (links next)\<^sup>*} \<and> distinct xs" for x
  proof (induction x rule: wf_induct_rule [OF assms])
    case (1 x)
    show ?case
    proof (cases "next x")
      case None
      then have "{y. (y, x) \<in> (links next)\<^sup>*} = {x}" by (auto simp: links_def elim: rtranclE)
      with None show ?thesis by simp
    next
      case (Some p)
      with 1 obtain xs where xs: "chain next (Some p) = Some xs" "set xs = {y. (y, p) \<in> (links next)\<^sup>*}" "distinct xs"
        by (auto simp: links_def simp del: chain_simps)
      have "{y. (y, x) \<in> (links next)\<^sup>*} = insert x {y. (y, p) \<in> (links next)\<^sup>*}"
        using Some by (auto simp: links_def elim: rtranclE intro: rtrancl_into_rtrancl)
      moreover have "(x, p) \<notin> (links next)\<^sup>*"
        using Some assms by (metis (mono_tags, lifting) CollectI case_prodI links_def rtrancl_into_trancl1 wf_not_refl wf_trancl)
      ultimately show ?thesis using xs Some by (simp del: chain_simps(1) add: chain_simps(2) [of _ x])
    qed
  qed
  with Some show ?thesis by simp
qed simp

section \<open>Walking a tree\<close>

text \<open>Sequencing of queries that may fail and may not end.\<close>

definition and_so :: "(exn + 'a) option \<Rightarrow> ('a \<Rightarrow> (exn + 'b) option) \<Rightarrow> (exn + 'b) option" where
  "and_so m f = Option.bind m (\<lambda>r. case r of Inl e \<Rightarrow> Some (Inl e) | Inr a \<Rightarrow> f a)"

lemma and_so_simps [simp]: "and_so (Some (Inr a)) f = f a" "and_so (Some (Inl e)) f = Some (Inl e)" "and_so None f = None"
  by (simp_all add: and_so_def)

lemma and_so_mono [partial_function_mono]:
  assumes B: "mono_option B" and C: "\<And>a. mono_option (\<lambda>f. C a f)"
  shows "mono_option (\<lambda>f. and_so (B f) (\<lambda>a. C a f))"
  unfolding and_so_def
proof (rule bind_mono [OF B])
  show "mono_option (\<lambda>f. case y of Inl e \<Rightarrow> Some (Inl e) | Inr a \<Rightarrow> C a f)" for y
    using C by (cases y) (simp_all add: option.const_mono)
qed

text \<open>The items of the trees below a list of roots, each before its children; looking up the children of an
  unknown item throws.\<close>

partial_function (option) preorder :: "('a \<Rightarrow> 'a list option) \<Rightarrow> 'a list \<Rightarrow> (exn + 'a list) option" where
  "preorder children ws = (case ws of [] \<Rightarrow> Some (Inr [])
     | w # rest \<Rightarrow> (case children w of
         None \<Rightarrow> Some (Inl (Out_of_range ''map::at''))
       | Some cs \<Rightarrow> and_so (preorder children cs) (\<lambda>ds. and_so (preorder children rest) (\<lambda>es. Some (Inr (w # ds @ es))))))"

lemma preorder_simps [simp]:
  "preorder children [] = Some (Inr [])"
  "preorder children (w # rest) = (case children w of
       None \<Rightarrow> Some (Inl (Out_of_range ''map::at''))
     | Some cs \<Rightarrow> and_so (preorder children cs) (\<lambda>ds. and_so (preorder children rest) (\<lambda>es. Some (Inr (w # ds @ es)))))"
  by (subst preorder.simps, simp)+

definition below :: "('a \<Rightarrow> 'a list option) \<Rightarrow> ('a \<times> 'a) set" where
  "below children = {(c, w). \<exists>cs. children w = Some cs \<and> c \<in> set cs}"

lemma preorder_ends:
  assumes "wf (below children)" "\<And>w cs c. children w = Some cs \<Longrightarrow> c \<in> set cs \<Longrightarrow> children c \<noteq> None"
    and "\<forall>w\<in>set ws. children w \<noteq> None"
  shows "\<exists>xs. preorder children ws = Some (Inr xs) \<and> set xs = {y. \<exists>w\<in>set ws. (y, w) \<in> (below children)\<^sup>*}"
proof -
  have one: "\<exists>cs xs. children w = Some cs \<and> preorder children cs = Some (Inr xs) \<and> set xs = {y. (y, w) \<in> (below children)\<^sup>+}"
    if "children w \<noteq> None" for w
    using that
  proof (induction w rule: wf_induct_rule [OF assms(1)])
    case (1 w)
    then obtain cs where cs: "children w = Some cs" by auto
    have "\<exists>xs. preorder children vs = Some (Inr xs) \<and> set xs = {y. \<exists>c\<in>set vs. (y, c) \<in> (below children)\<^sup>*}"
      if "set vs \<subseteq> set cs" for vs
      using that
    proof (induction vs)
      case (Cons c vs)
      then have "(c, w) \<in> below children" "children c \<noteq> None" using cs assms(2) by (auto simp: below_def)
      with 1 obtain cs' xs where "children c = Some cs'" "preorder children cs' = Some (Inr xs)"
        "set xs = {y. (y, c) \<in> (below children)\<^sup>+}" by blast
      moreover obtain ys where "preorder children vs = Some (Inr ys)" "set ys = {y. \<exists>c\<in>set vs. (y, c) \<in> (below children)\<^sup>*}"
        using Cons by auto
      ultimately show ?case by (auto simp: rtrancl_eq_or_trancl)
    qed simp
    from this [OF subset_refl] obtain xs where "preorder children cs = Some (Inr xs)"
      "set xs = {y. \<exists>c\<in>set cs. (y, c) \<in> (below children)\<^sup>*}" by blast
    moreover have "{y. \<exists>c\<in>set cs. (y, c) \<in> (below children)\<^sup>*} = {y. (y, w) \<in> (below children)\<^sup>+}"
    proof -
      have "(c, w) \<in> below children \<longleftrightarrow> c \<in> set cs" for c using cs by (simp add: below_def)
      then show ?thesis by (auto simp: trancl_unfold_right [of "below children"])
    qed
    ultimately show ?case using cs by auto
  qed
  show ?thesis using assms(3)
  proof (induction ws)
    case (Cons w ws)
    with one [of w] obtain cs xs ys where "children w = Some cs" "preorder children cs = Some (Inr xs)"
      "set xs = {y. (y, w) \<in> (below children)\<^sup>+}" "preorder children ws = Some (Inr ys)"
      "set ys = {y. \<exists>w\<in>set ws. (y, w) \<in> (below children)\<^sup>*}" by auto
    then show ?case by (auto simp: rtrancl_eq_or_trancl)
  qed simp
qed

end
