(* ===== verification/Geometry.thy ===== *)
theory Geometry
  imports Prelude
begin

text \<open>
  The geometry types of \<open>include/core/mir/geometry\<close> with the operations of \<open>rectangle.cpp\<close> and
  \<open>rectangles.cpp\<close>.  Every dimension type of \<open>dimensions.h\<close> wraps one \<open>int\<close>; the tag that keeps
  them apart in C++ has no run-time content.  A rectangle stands for the half-open set of points
  \<open>pixels\<close>, and the lemmas relate each operation to that set.
\<close>

section \<open>Points, displacements, sizes, rectangles\<close>

record point =
  px :: int
  py :: int

record displacement =
  dx :: int
  dy :: int

record extent =
  width :: int
  height :: int

record rectangle =
  top_left :: point
  rsize :: extent

abbreviation Point :: "int \<Rightarrow> int \<Rightarrow> point" where
  "Point a b \<equiv> \<lparr>px = a, py = b\<rparr>"
abbreviation Displacement :: "int \<Rightarrow> int \<Rightarrow> displacement" where
  "Displacement a b \<equiv> \<lparr>dx = a, dy = b\<rparr>"
abbreviation Size :: "int \<Rightarrow> int \<Rightarrow> extent" where
  "Size a b \<equiv> \<lparr>width = a, height = b\<rparr>"
abbreviation Rectangle :: "point \<Rightarrow> extent \<Rightarrow> rectangle" where
  "Rectangle p s \<equiv> \<lparr>top_left = p, rsize = s\<rparr>"

text \<open>The default constructors zero every member.\<close>

definition empty_rectangle :: rectangle where
  "empty_rectangle = Rectangle (Point 0 0) (Size 0 0)"

definition length_squared :: "displacement \<Rightarrow> int" where
  "length_squared d = dx d * dx d + dy d * dy d"

definition displacement_less :: "displacement \<Rightarrow> displacement \<Rightarrow> bool" where
  "displacement_less l r \<longleftrightarrow> length_squared l < length_squared r"

definition displacement_plus :: "displacement \<Rightarrow> displacement \<Rightarrow> displacement" where
  "displacement_plus l r = Displacement (dx l + dx r) (dy l + dy r)"

definition displacement_minus :: "displacement \<Rightarrow> displacement \<Rightarrow> displacement" where
  "displacement_minus l r = Displacement (dx l - dx r) (dy l - dy r)"

definition point_plus :: "point \<Rightarrow> displacement \<Rightarrow> point" where
  "point_plus p d = Point (px p + dx d) (py p + dy d)"

definition point_minus :: "point \<Rightarrow> displacement \<Rightarrow> point" where
  "point_minus p d = Point (px p - dx d) (py p - dy d)"

definition point_diff :: "point \<Rightarrow> point \<Rightarrow> displacement" where
  "point_diff l r = Displacement (px l - px r) (py l - py r)"

definition as_displacement :: "extent \<Rightarrow> displacement" where
  "as_displacement s = Displacement (width s) (height s)"

definition as_size :: "displacement \<Rightarrow> extent" where
  "as_size d = Size (dx d) (dy d)"

definition bottom_right :: "rectangle \<Rightarrow> point" where
  "bottom_right r = point_plus (top_left r) (as_displacement (rsize r))"

definition top_right :: "rectangle \<Rightarrow> point" where
  "top_right r = Point (px (top_left r) + width (rsize r)) (py (top_left r))"

definition bottom_left :: "rectangle \<Rightarrow> point" where
  "bottom_left r = Point (px (top_left r)) (py (top_left r) + height (rsize r))"

definition left :: "rectangle \<Rightarrow> int" where "left r = px (top_left r)"
definition right :: "rectangle \<Rightarrow> int" where "right r = px (bottom_right r)"
definition top_y :: "rectangle \<Rightarrow> int" where "top_y r = py (top_left r)"
definition bottom :: "rectangle \<Rightarrow> int" where "bottom r = py (bottom_right r)"

definition contains_rect :: "rectangle \<Rightarrow> rectangle \<Rightarrow> bool" where
  "contains_rect self r \<longleftrightarrow>
     left r \<ge> left self \<and>
     left r + width (rsize r) \<le> left self + width (rsize self) \<and>
     top_y r \<ge> top_y self \<and>
     top_y r + height (rsize r) \<le> top_y self + height (rsize self)"

definition contains_point :: "rectangle \<Rightarrow> point \<Rightarrow> bool" where
  "contains_point self p =
     (if width (rsize self) = 0 \<or> height (rsize self) = 0 then False
      else let br = bottom_right self in
        px p \<ge> left self \<and> px p < px br \<and> py p \<ge> top_y self \<and> py p < py br)"

definition overlaps :: "rectangle \<Rightarrow> rectangle \<Rightarrow> bool" where
  "overlaps self r \<longleftrightarrow>
     \<not> (left r \<ge> right self \<or> right r \<le> left self \<or> top_y r \<ge> bottom self \<or> bottom r \<le> top_y self
        \<or> width (rsize self) = 0 \<or> height (rsize self) = 0
        \<or> width (rsize r) = 0 \<or> height (rsize r) = 0)"

definition intersection_with :: "rectangle \<Rightarrow> rectangle \<Rightarrow> rectangle" where
  "intersection_with self r =
     (let max_left = max (left self) (left r);
          min_right = min (right self) (right r);
          max_top = max (top_y self) (top_y r);
          min_bottom = min (bottom self) (bottom r)
      in if max_left < min_right \<and> max_top < min_bottom
         then Rectangle (Point max_left max_top) (Size (min_right - max_left) (min_bottom - max_top))
         else empty_rectangle)"

section \<open>Collections of rectangles\<close>

type_synonym rectangles = "rectangle list"

definition rectangles_add :: "rectangles \<Rightarrow> rectangle \<Rightarrow> rectangles" where
  "rectangles_add rs r = rs @ [r]"

definition rectangles_remove :: "rectangles \<Rightarrow> rectangle \<Rightarrow> rectangles" where
  "rectangles_remove rs r = remove1 r rs"

definition rectangles_clear :: "rectangles \<Rightarrow> rectangles" where
  "rectangles_clear rs = []"

definition clamp :: "int \<Rightarrow> int \<Rightarrow> int \<Rightarrow> int" where
  "clamp v mn mx = min (max v mn) mx"

definition rect_from_points :: "point \<Rightarrow> point \<Rightarrow> rectangle" where
  "rect_from_points tlp brp = Rectangle tlp (as_size (point_diff brp tlp))"

definition confined_to :: "rectangle \<Rightarrow> point \<Rightarrow> point" where
  "confined_to rect p =
     (let br = bottom_right rect;
          min_x = px (top_left rect); max_x = px br - 1;
          min_y = py (top_left rect); max_y = py br - 1
      in Point (clamp (px p) min_x max_x) (clamp (py p) min_y max_y))"

text \<open>The loop of \<open>Rectangles::confine\<close>: \<open>ret_point\<close> and \<open>min_dp\<close> are its variables, and a rectangle
  that contains the point ends it.\<close>

fun confine_loop :: "point \<Rightarrow> rectangles \<Rightarrow> point \<Rightarrow> displacement \<Rightarrow> point" where
  "confine_loop p [] ret_point min_dp = ret_point"
| "confine_loop p (rect # rects) ret_point min_dp =
     (if contains_point rect p then p
      else if width (rsize rect) > 0 \<and> height (rsize rect) > 0
      then let confined_point = confined_to rect p;
               dp = point_diff confined_point p
           in if displacement_less dp min_dp
              then confine_loop p rects confined_point dp
              else confine_loop p rects ret_point min_dp
      else confine_loop p rects ret_point min_dp)"

definition confine :: "rectangles \<Rightarrow> point \<Rightarrow> point" where
  "confine rs p = confine_loop p rs p (Displacement int_max int_max)"

fun bounding_loop :: "rectangles \<Rightarrow> (point \<times> point) option \<Rightarrow> point \<times> point" where
  "bounding_loop [] acc = (case acc of None \<Rightarrow> (Point 0 0, Point 0 0) | Some a \<Rightarrow> a)"
| "bounding_loop (rect # rects) acc =
     (let rtl = top_left rect; rbr = bottom_right rect in
      bounding_loop rects
        (case acc of
           None \<Rightarrow> Some (rtl, rbr)
         | Some (tlp, brp) \<Rightarrow>
             Some (Point (min (px rtl) (px tlp)) (min (py rtl) (py tlp)),
                   Point (max (px rbr) (px brp)) (max (py rbr) (py brp)))))"

definition bounding_rectangle :: "rectangles \<Rightarrow> rectangle" where
  "bounding_rectangle rs =
     (if rs = [] then empty_rectangle
      else let (tlp, brp) = bounding_loop rs None in rect_from_points tlp brp)"

text \<open>\<open>Rectangles::operator==\<close> marks the elements of the other vector that it has matched.\<close>

fun claim_element :: "rectangle \<Rightarrow> (rectangle \<times> bool) list \<Rightarrow> (rectangle \<times> bool) list option" where
  "claim_element rect [] = None"
| "claim_element rect ((r, used) # rest) =
     (if \<not> used \<and> r = rect then Some ((r, True) # rest)
      else map_option (Cons (r, used)) (claim_element rect rest))"

fun rectangles_eq_loop :: "rectangles \<Rightarrow> (rectangle \<times> bool) list \<Rightarrow> bool" where
  "rectangles_eq_loop [] other = True"
| "rectangles_eq_loop (rect # rects) other =
     (case claim_element rect other of None \<Rightarrow> False | Some other' \<Rightarrow> rectangles_eq_loop rects other')"

definition rectangles_eq :: "rectangles \<Rightarrow> rectangles \<Rightarrow> bool" where
  "rectangles_eq xs ys =
     (if length xs \<noteq> length ys then False
      else rectangles_eq_loop xs (map (\<lambda>r. (r, False)) ys))"

section \<open>The set of points of a rectangle\<close>

definition pixels :: "rectangle \<Rightarrow> point set" where
  "pixels r = {p. left r \<le> px p \<and> px p < right r \<and> top_y r \<le> py p \<and> py p < bottom r}"

definition region :: "rectangles \<Rightarrow> point set" where
  "region rs = (\<Union>r\<in>set rs. pixels r)"

definition has_area :: "rectangle \<Rightarrow> bool" where
  "has_area r \<longleftrightarrow> 0 < width (rsize r) \<and> 0 < height (rsize r)"

definition nonneg_size :: "rectangle \<Rightarrow> bool" where
  "nonneg_size r \<longleftrightarrow> 0 \<le> width (rsize r) \<and> 0 \<le> height (rsize r)"

lemma edges [geom_simps]:
  "left r = px (top_left r)" "right r = px (top_left r) + width (rsize r)"
  "top_y r = py (top_left r)" "bottom r = py (top_left r) + height (rsize r)"
  by (simp_all add: left_def right_def top_y_def bottom_def bottom_right_def point_plus_def
      as_displacement_def)

lemma bottom_right_coords [geom_simps]:
  "px (bottom_right r) = right r" "py (bottom_right r) = bottom r"
  by (simp_all add: right_def bottom_def)

lemma empty_rectangle_coords [simp]:
  "top_left empty_rectangle = Point 0 0" "rsize empty_rectangle = Size 0 0"
  by (simp_all add: empty_rectangle_def)

lemma mem_pixels:
  "p \<in> pixels r \<longleftrightarrow> left r \<le> px p \<and> px p < right r \<and> top_y r \<le> py p \<and> py p < bottom r"
  by (simp add: pixels_def)

lemma contains_point_pixels: "contains_point r p \<longleftrightarrow> p \<in> pixels r"
  by (auto simp: contains_point_def mem_pixels geom_simps Let_def)

lemma pixels_empty_iff: "pixels r = {} \<longleftrightarrow> \<not> has_area r"
proof
  assume "pixels r = {}"
  then have "top_left r \<notin> pixels r" by simp
  then show "\<not> has_area r" by (auto simp: mem_pixels geom_simps has_area_def)
qed (auto simp: pixels_def geom_simps has_area_def)

lemma pixels_intersection_with: "pixels (intersection_with r s) = pixels r \<inter> pixels s"
  by (auto simp: pixels_def intersection_with_def geom_simps Let_def empty_rectangle_def)

lemma intersection_with_commute: "intersection_with r s = intersection_with s r"
  by (simp add: intersection_with_def Let_def max.commute min.commute)

lemma intersection_with_empty_iff:
  "intersection_with r s = empty_rectangle \<longleftrightarrow> pixels r \<inter> pixels s = {}"
proof -
  have "has_area (intersection_with r s) \<or> intersection_with r s = empty_rectangle"
    by (auto simp: intersection_with_def has_area_def Let_def)
  moreover have "\<not> has_area empty_rectangle" by (simp add: has_area_def)
  ultimately show ?thesis
    by (metis pixels_intersection_with pixels_empty_iff)
qed

lemma overlaps_iff_pixels:
  assumes "nonneg_size r" "nonneg_size s"
  shows "overlaps r s \<longleftrightarrow> pixels r \<inter> pixels s \<noteq> {}"
proof
  assume "overlaps r s"
  then have "Point (max (left r) (left s)) (max (top_y r) (top_y s)) \<in> pixels r \<inter> pixels s"
    using assms by (auto simp: overlaps_def mem_pixels geom_simps nonneg_size_def)
  then show "pixels r \<inter> pixels s \<noteq> {}" by blast
next
  assume "pixels r \<inter> pixels s \<noteq> {}"
  then show "overlaps r s" using assms
    by (auto simp: overlaps_def pixels_def geom_simps nonneg_size_def)
qed

lemma contains_rect_pixels: "contains_rect r s \<Longrightarrow> pixels s \<subseteq> pixels r"
  by (auto simp: contains_rect_def pixels_def geom_simps)

lemma pixels_contains_rect:
  assumes "has_area s" "pixels s \<subseteq> pixels r"
  shows "contains_rect r s"
proof -
  have "top_left s \<in> pixels s" "Point (right s - 1) (bottom s - 1) \<in> pixels s"
    using assms(1) by (auto simp: mem_pixels geom_simps has_area_def)
  then have "top_left s \<in> pixels r" "Point (right s - 1) (bottom s - 1) \<in> pixels r"
    using assms(2) by auto
  then show ?thesis by (auto simp: contains_rect_def mem_pixels geom_simps)
qed


section \<open>Confining a point to a region\<close>

abbreviation dist2 :: "point \<Rightarrow> point \<Rightarrow> int" where
  "dist2 q p \<equiv> length_squared (point_diff q p)"

lemma clamp_nearest:
  fixes v :: int
  assumes "mn \<le> q" "q \<le> mx"
  shows "(clamp v mn mx - v) * (clamp v mn mx - v) \<le> (q - v) * (q - v)"
proof -
  have "\<bar>clamp v mn mx - v\<bar> \<le> \<bar>q - v\<bar>"
    using assms by (auto simp: clamp_def)
  then show ?thesis by (simp add: abs_le_square_iff power2_eq_square)
qed

lemma confined_to_coords [geom_simps]:
  "px (confined_to r p) = clamp (px p) (left r) (right r - 1)"
  "py (confined_to r p) = clamp (py p) (top_y r) (bottom r - 1)"
  by (simp_all add: confined_to_def geom_simps Let_def)

lemma confined_to_in: "has_area r \<Longrightarrow> confined_to r p \<in> pixels r"
  by (auto simp: mem_pixels geom_simps has_area_def clamp_def)

lemma confined_to_nearest:
  assumes "q \<in> pixels r"
  shows "dist2 (confined_to r p) p \<le> dist2 q p"
proof -
  have "left r \<le> px q" "px q \<le> right r - 1" "top_y r \<le> py q" "py q \<le> bottom r - 1"
    using assms by (auto simp: mem_pixels)
  then show ?thesis
    using clamp_nearest [of "left r" "px q" "right r - 1" "px p"]
      clamp_nearest [of "top_y r" "py q" "bottom r - 1" "py p"]
    by (simp add: length_squared_def point_diff_def confined_to_coords)
qed

lemma region_simps [simp]: "region [] = {}" "region (r # rs) = pixels r \<union> region rs"
  by (auto simp: region_def)

text \<open>What one run of the loop establishes about its two variables.\<close>

lemma confine_loop_spec:
  "(p \<in> region rs \<and> confine_loop p rs ret_point min_dp = p) \<or>
   (p \<notin> region rs \<and>
     ((confine_loop p rs ret_point min_dp = ret_point \<and>
        (\<forall>q\<in>region rs. length_squared min_dp \<le> dist2 q p)) \<or>
      (confine_loop p rs ret_point min_dp \<in> region rs \<and>
        dist2 (confine_loop p rs ret_point min_dp) p < length_squared min_dp \<and>
        (\<forall>q\<in>region rs. dist2 (confine_loop p rs ret_point min_dp) p \<le> dist2 q p))))"
proof (induction rs arbitrary: ret_point min_dp)
  case Nil
  then show ?case by simp
next
  case (Cons r rs)
  consider (inside) "p \<in> pixels r"
    | (flat) "p \<notin> pixels r" "\<not> has_area r"
    | (worse) "p \<notin> pixels r" "has_area r" "\<not> dist2 (confined_to r p) p < length_squared min_dp"
    | (better) "p \<notin> pixels r" "has_area r" "dist2 (confined_to r p) p < length_squared min_dp"
    by blast
  then show ?case
  proof cases
    case inside
    then show ?thesis by (simp add: contains_point_pixels)
  next
    case flat
    then have "confine_loop p (r # rs) ret_point min_dp = confine_loop p rs ret_point min_dp"
      by (auto simp: contains_point_pixels has_area_def)
    moreover have "pixels r = {}" using flat by (simp add: pixels_empty_iff)
    ultimately show ?thesis using Cons.IH [of ret_point min_dp] by simp
  next
    case worse
    then have "\<forall>q\<in>pixels r. length_squared min_dp \<le> dist2 q p"
      using confined_to_nearest by (metis not_less order_trans)
    with worse Cons.IH [of ret_point min_dp] show ?thesis
      by (auto simp: contains_point_pixels has_area_def displacement_less_def Let_def)
  next
    case better
    let ?c = "confined_to r p"
    have c: "?c \<in> pixels r" "\<forall>q\<in>pixels r. dist2 ?c p \<le> dist2 q p"
      using better confined_to_in confined_to_nearest by auto
    have "confine_loop p (r # rs) ret_point min_dp = confine_loop p rs ?c (point_diff ?c p)"
      using better by (simp add: contains_point_pixels has_area_def displacement_less_def Let_def)
    with better c Cons.IH [of ?c "point_diff ?c p"] show ?thesis
      by (auto intro: order_trans less_imp_le)
  qed
qed

definition point_in_range :: "point \<Rightarrow> bool" where
  "point_in_range p \<longleftrightarrow> \<bar>px p\<bar> \<le> 2 ^ 29 \<and> \<bar>py p\<bar> \<le> 2 ^ 29"

definition rect_in_range :: "rectangle \<Rightarrow> bool" where
  "rect_in_range r \<longleftrightarrow> point_in_range (top_left r) \<and>
     0 \<le> width (rsize r) \<and> width (rsize r) \<le> 2 ^ 29 \<and>
     0 \<le> height (rsize r) \<and> height (rsize r) \<le> 2 ^ 29"

lemma square_bound:
  fixes a b :: int
  assumes "\<bar>a\<bar> \<le> b"
  shows "a * a \<le> b * b"
proof -
  have "\<bar>a\<bar> \<le> \<bar>b\<bar>" using assms by simp
  then show ?thesis by (simp add: abs_le_square_iff power2_eq_square)
qed

lemma dist2_in_range:
  assumes "point_in_range p" "rect_in_range r" "q \<in> pixels r"
  shows "dist2 q p < length_squared (Displacement int_max int_max)"
proof -
  have "\<bar>px q - px p\<bar> \<le> 2 ^ 31 - 2" "\<bar>py q - py p\<bar> \<le> 2 ^ 31 - 2"
    using assms by (auto simp: point_in_range_def rect_in_range_def mem_pixels geom_simps)
  then have "(px q - px p) * (px q - px p) \<le> (2 ^ 31 - 2) * (2 ^ 31 - 2)"
    and "(py q - py p) * (py q - py p) \<le> (2 ^ 31 - 2) * (2 ^ 31 - 2)"
    using square_bound by blast+
  then show ?thesis by (simp add: length_squared_def point_diff_def)
qed

lemma confine_inside: "p \<in> region rs \<Longrightarrow> confine rs p = p"
  using confine_loop_spec [of p rs p "Displacement int_max int_max"] by (auto simp: confine_def)

lemma confine_no_area: "region rs = {} \<Longrightarrow> confine rs p = p"
  using confine_loop_spec [of p rs p "Displacement int_max int_max"] by (auto simp: confine_def)

lemma confine_nearest:
  assumes "point_in_range p" "\<forall>r\<in>set rs. rect_in_range r" "region rs \<noteq> {}"
  shows "confine rs p \<in> region rs \<and> (\<forall>q\<in>region rs. dist2 (confine rs p) p \<le> dist2 q p)"
proof (cases "p \<in> region rs")
  case True
  then show ?thesis
    by (simp add: confine_inside) (simp add: length_squared_def point_diff_def)
next
  case False
  obtain q where q: "q \<in> region rs" using assms(3) by blast
  then have "dist2 q p < length_squared (Displacement int_max int_max)"
    using assms(1,2) dist2_in_range by (auto simp: region_def)
  with False q confine_loop_spec [of p rs p "Displacement int_max int_max"] show ?thesis
    by (auto simp: confine_def)
qed

lemma confine_idem:
  assumes "point_in_range p" "\<forall>r\<in>set rs. rect_in_range r"
  shows "confine rs (confine rs p) = confine rs p"
  using confine_nearest [OF assms] confine_inside confine_no_area by metis

section \<open>The bounding rectangle\<close>


text \<open>Each edge of the result is characterised by the numbers beyond it, which turns the loop's
  \<open>min\<close> and \<open>max\<close> into conjunctions.\<close>

lemma bounding_loop_edges:
  "(z \<le> px (fst (bounding_loop rs (Some (a, b))))) = (z \<le> px a \<and> (\<forall>r\<in>set rs. z \<le> left r))"
  "(z \<le> py (fst (bounding_loop rs (Some (a, b))))) = (z \<le> py a \<and> (\<forall>r\<in>set rs. z \<le> top_y r))"
  "(px (snd (bounding_loop rs (Some (a, b)))) \<le> z) = (px b \<le> z \<and> (\<forall>r\<in>set rs. right r \<le> z))"
  "(py (snd (bounding_loop rs (Some (a, b)))) \<le> z) = (py b \<le> z \<and> (\<forall>r\<in>set rs. bottom r \<le> z))"
  by (induction rs arbitrary: a b) (auto simp: left_def top_y_def right_def bottom_def Let_def)

lemma bounding_rectangle_edges:
  assumes "rs \<noteq> []"
  shows "(z \<le> left (bounding_rectangle rs)) = (\<forall>r\<in>set rs. z \<le> left r)"
    and "(z \<le> top_y (bounding_rectangle rs)) = (\<forall>r\<in>set rs. z \<le> top_y r)"
    and "(right (bounding_rectangle rs) \<le> z) = (\<forall>r\<in>set rs. right r \<le> z)"
    and "(bottom (bounding_rectangle rs) \<le> z) = (\<forall>r\<in>set rs. bottom r \<le> z)"
proof -
  obtain r rs' where rs: "rs = r # rs'" using assms by (cases rs) auto
  let ?b = "bounding_loop rs' (Some (top_left r, bottom_right r))"
  have e: "left (bounding_rectangle rs) = px (fst ?b)" "top_y (bounding_rectangle rs) = py (fst ?b)"
    "right (bounding_rectangle rs) = px (snd ?b)" "bottom (bounding_rectangle rs) = py (snd ?b)"
    by (simp_all add: rs bounding_rectangle_def rect_from_points_def as_size_def point_diff_def
        edges split_def Let_def)
  show "(z \<le> left (bounding_rectangle rs)) = (\<forall>r\<in>set rs. z \<le> left r)"
    "(z \<le> top_y (bounding_rectangle rs)) = (\<forall>r\<in>set rs. z \<le> top_y r)"
    "(right (bounding_rectangle rs) \<le> z) = (\<forall>r\<in>set rs. right r \<le> z)"
    "(bottom (bounding_rectangle rs) \<le> z) = (\<forall>r\<in>set rs. bottom r \<le> z)"
    unfolding e bounding_loop_edges by (simp_all add: rs left_def top_y_def right_def bottom_def)
qed

lemma contains_rect_edges:
  "contains_rect R r \<longleftrightarrow> left R \<le> left r \<and> right r \<le> right R \<and> top_y R \<le> top_y r \<and> bottom r \<le> bottom R"
  by (auto simp: contains_rect_def edges)

lemma contains_bounding_rectangle:
  assumes "rs \<noteq> []"
  shows "contains_rect R (bounding_rectangle rs) \<longleftrightarrow> (\<forall>r\<in>set rs. contains_rect R r)"
  using bounding_rectangle_edges [OF assms] by (auto simp: contains_rect_edges)

lemma contains_rect_refl: "contains_rect r r"
  by (simp add: contains_rect_def)

lemma bounding_rectangle_covers:
  assumes "r \<in> set rs"
  shows "contains_rect (bounding_rectangle rs) r"
proof -
  have "rs \<noteq> []" using assms by auto
  from contains_bounding_rectangle [OF this, of "bounding_rectangle rs"] assms contains_rect_refl
  show ?thesis by simp
qed

section \<open>Equality of collections\<close>

definition unused :: "(rectangle \<times> bool) list \<Rightarrow> rectangles" where
  "unused other = map fst (filter (Not \<circ> snd) other)"

lemma claim_element_None: "claim_element r other = None \<longleftrightarrow> r \<notin> set (unused other)"
  by (induction r other rule: claim_element.induct) (auto simp: unused_def)

lemma claim_element_Some:
  "claim_element r other = Some other' \<Longrightarrow> mset (unused other) = add_mset r (mset (unused other'))"
  by (induction r other arbitrary: other' rule: claim_element.induct)
    (auto simp: unused_def split: if_splits)

lemma rectangles_eq_loop_subset: "rectangles_eq_loop xs other \<longleftrightarrow> mset xs \<subseteq># mset (unused other)"
proof (induction xs other rule: rectangles_eq_loop.induct)
  case (2 rect rects other)
  show ?case
  proof (cases "claim_element rect other")
    case None
    then have "rect \<notin># mset (unused other)" by (simp add: claim_element_None)
    then have "\<not> add_mset rect (mset rects) \<subseteq># mset (unused other)"
      by (meson insert_subset_eq_iff)
    with None show ?thesis by simp
  next
    case (Some other')
    with 2 claim_element_Some [OF Some] show ?thesis by simp
  qed
qed simp

lemma rectangles_eq_mset: "rectangles_eq xs ys \<longleftrightarrow> mset xs = mset ys"
proof -
  have "mset (unused (map (\<lambda>r. (r, False)) ys)) = mset ys"
    by (simp add: unused_def comp_def)
  then show ?thesis
    by (auto simp: rectangles_eq_def rectangles_eq_loop_subset intro: mset_eq_length
        dest: subset_mset.antisym mset_subset_eqD)
      (metis mset_subset_size size_mset subset_mset.order_iff_strict less_irrefl)
qed

section \<open>No overflow on realistic coordinates\<close>

lemma rect_in_range_intersection:
  "rect_in_range r \<Longrightarrow> rect_in_range s \<Longrightarrow> rect_in_range (intersection_with r s)"
  by (auto simp: rect_in_range_def point_in_range_def intersection_with_def edges Let_def)

lemma rect_in_range_corners:
  assumes "rect_in_range r"
  shows "fits_int (left r)" "fits_int (right r)" "fits_int (top_y r)" "fits_int (bottom r)"
  using assms by (auto simp: rect_in_range_def point_in_range_def edges fits_int_def)

lemma confine_arithmetic_fits:
  assumes "point_in_range p" "rect_in_range r" "has_area r"
  shows "fits_int (dx (point_diff (confined_to r p) p))"
    and "fits_int (dy (point_diff (confined_to r p) p))"
    and "fits_long_long (dist2 (confined_to r p) p)"
proof -
  let ?c = "confined_to r p"
  have c: "?c \<in> pixels r" using assms(3) by (rule confined_to_in)
  then show "fits_int (dx (point_diff ?c p))" "fits_int (dy (point_diff ?c p))"
    using assms by (auto simp: point_diff_def fits_int_def mem_pixels edges rect_in_range_def
        point_in_range_def)
  have "0 \<le> dist2 ?c p" by (simp add: length_squared_def)
  moreover have "length_squared (Displacement int_max int_max) = 9223372028264841218"
    by (simp add: length_squared_def)
  ultimately show "fits_long_long (dist2 ?c p)"
    using dist2_in_range [OF assms(1,2) c] by (simp add: fits_long_long_def)
qed

section \<open>Properties\<close>

text \<open>Confining a point to a collection of rectangles gives a point of the collection that is
  nearest to the original one (so a point already inside stays), and leaves the point alone when
  the collection covers nothing.  The bound on the coordinates is the range in which the initial
  distance of the loop, \<open>Displacement{INT_MAX, INT_MAX}\<close>, exceeds every real distance.\<close>
theorem confine_to_nearest:
  assumes "point_in_range p" "\<forall>r\<in>set rs. rect_in_range r"
  shows "if region rs = {} then confine rs p = p
    else confine rs p \<in> region rs \<and> (\<forall>q\<in>region rs. dist2 (confine rs p) p \<le> dist2 q p)"
  using confine_nearest [OF assms] confine_no_area by simp

theorem confine_to_nearest_witness:
  "confine [Rectangle (Point 0 0) (Size 10 10), Rectangle (Point 10 0) (Size 5 5)] (Point 12 9) = Point 9 9 \<and>
   confine [Rectangle (Point 0 0) (Size 10 10), Rectangle (Point 10 0) (Size 5 5)] (Point 12 9) \<in>
     region [Rectangle (Point 0 0) (Size 10 10), Rectangle (Point 10 0) (Size 5 5)]"
proof -
  let ?rs = "[Rectangle (Point 0 0) (Size 10 10), Rectangle (Point 10 0) (Size 5 5)]"
  have "region ?rs \<noteq> {}"
    using pixels_empty_iff [of "Rectangle (Point 0 0) (Size 10 10)"] by (simp add: has_area_def)
  moreover have "confine ?rs (Point 12 9) = Point 9 9" by code_simp
  ultimately show ?thesis
    using confine_to_nearest [of "Point 12 9" ?rs]
    by (simp add: point_in_range_def rect_in_range_def del: region_simps)
qed

text \<open>The rectangle predicates mean what their names say of the pixels of a rectangle: a point
  is contained when it is one of the pixels, the intersection has exactly the common pixels,
  rectangles of non-negative size overlap when they share a pixel, and one rectangle contains
  another one with area when it has all its pixels.\<close>
theorem rectangle_predicates_pixels:
  assumes "nonneg_size r" "has_area s"
  shows "(contains_point r p \<longleftrightarrow> p \<in> pixels r) \<and>
    pixels (intersection_with r s) = pixels r \<inter> pixels s \<and>
    (overlaps r s \<longleftrightarrow> pixels r \<inter> pixels s \<noteq> {}) \<and>
    (contains_rect r s \<longleftrightarrow> pixels s \<subseteq> pixels r)"
proof -
  have "nonneg_size s" using assms(2) by (simp add: nonneg_size_def has_area_def)
  then show ?thesis
    using contains_point_pixels [of r p] pixels_intersection_with [of r s]
      overlaps_iff_pixels [OF assms(1)] contains_rect_pixels [of r s] pixels_contains_rect [OF assms(2)]
    by (intro conjI iffI) simp_all
qed

theorem rectangle_predicates_pixels_witness:
  "pixels (Rectangle (Point 0 0) (Size 4 4)) \<inter> pixels (Rectangle (Point 4 0) (Size 4 4)) = {} \<and>
   pixels (Rectangle (Point 1 1) (Size 2 2)) \<subseteq> pixels (Rectangle (Point 0 0) (Size 4 4))"
proof -
  let ?r = "Rectangle (Point 0 0) (Size 4 4)"
  let ?s = "Rectangle (Point 4 0) (Size 4 4)" and ?t = "Rectangle (Point 1 1) (Size 2 2)"
  have "nonneg_size ?r" "has_area ?s" "has_area ?t" by (simp_all add: nonneg_size_def has_area_def)
  moreover have "\<not> overlaps ?r ?s" "contains_rect ?r ?t" by code_simp+
  ultimately show ?thesis
    using rectangle_predicates_pixels [of ?r ?s] rectangle_predicates_pixels [of ?r ?t] by blast
qed

text \<open>The bounding rectangle of a collection is the least rectangle around it: a rectangle
  contains the bounding rectangle exactly when it contains every member, and the bounding rectangle
  itself contains every member.\<close>
theorem bounding_rectangle_least:
  assumes "rs \<noteq> []"
  shows "(contains_rect R (bounding_rectangle rs) \<longleftrightarrow> (\<forall>r\<in>set rs. contains_rect R r)) \<and>
    (\<forall>r\<in>set rs. contains_rect (bounding_rectangle rs) r)"
  using contains_bounding_rectangle [OF assms] bounding_rectangle_covers by blast

theorem bounding_rectangle_least_witness:
  "bounding_rectangle [Rectangle (Point 0 0) (Size 2 2), Rectangle (Point 5 (-3)) (Size 1 1)] =
     Rectangle (Point 0 (-3)) (Size 6 5) \<and>
   contains_rect (bounding_rectangle [Rectangle (Point 0 0) (Size 2 2), Rectangle (Point 5 (-3)) (Size 1 1)])
     (Rectangle (Point 5 (-3)) (Size 1 1))"
  using bounding_rectangle_least [of "[Rectangle (Point 0 0) (Size 2 2), Rectangle (Point 5 (-3)) (Size 1 1)]"]
  by simp code_simp

text \<open>Two collections of rectangles compare equal when they hold the same rectangles with the
  same multiplicities, in whatever order; the marking loop of \<open>operator==\<close> decides exactly that.\<close>
theorem rectangles_equality_is_multiset_equality:
  "rectangles_eq xs ys \<longleftrightarrow> mset xs = mset ys"
  by (rule rectangles_eq_mset)

text \<open>On coordinates up to \<open>2 ^ 29\<close> in absolute value and sizes up to \<open>2 ^ 29\<close> nothing overflows:
  the edges of a rectangle and the displacements of the confinement fit in \<open>int\<close>, the squared
  distance fits in \<open>long long\<close>, and intersections stay in the range.\<close>
theorem geometry_no_overflow:
  assumes "point_in_range p" "rect_in_range r" "has_area r" "rect_in_range s"
  shows "fits_int (right r) \<and> fits_int (bottom r) \<and>
    fits_int (dx (point_diff (confined_to r p) p)) \<and> fits_int (dy (point_diff (confined_to r p) p)) \<and>
    fits_long_long (length_squared (point_diff (confined_to r p) p)) \<and>
    rect_in_range (intersection_with r s)"
  using rect_in_range_corners [OF assms(2)] confine_arithmetic_fits [OF assms(1-3)]
    rect_in_range_intersection [OF assms(2,4)] by (intro conjI)

theorem geometry_no_overflow_witness:
  "fits_long_long (length_squared (point_diff
     (confined_to (Rectangle (Point 0 0) (Size 536870912 1)) (Point 536870912 (-536870912))) (Point 536870912 (-536870912))))"
proof -
  have "point_in_range (Point 536870912 (-536870912))"
    "rect_in_range (Rectangle (Point 0 0) (Size 536870912 1))"
    "has_area (Rectangle (Point 0 0) (Size 536870912 1))"
    by (simp_all add: point_in_range_def rect_in_range_def has_area_def)
  from geometry_no_overflow [OF this this(2)] show ?thesis by (elim conjE)
qed

end
