(* ===== verification/Window_Info.thy ===== *)
theory Window_Info
  imports Geometry
begin

text \<open>
  \<open>miral::WindowInfo\<close> (\<open>src/miral/window_info.cpp\<close>): what the window manager knows about a window, the
  rules on window types, and \<open>constrain_resize\<close>, which fits a requested position and size to the
  window's limits; and \<open>miral::MRUWindowList\<close>, the windows in the order of their last use.  A division
  by zero in \<open>constrain_resize\<close> and an overflow where it rounds to an increment are the result \<open>None\<close>.
\<close>

section \<open>Window information\<close>

datatype window_type =
    Type_normal | Type_utility | Type_dialog | Type_gloss | Type_freestyle | Type_menu
  | Type_inputmethod | Type_satellite | Type_tip | Type_decoration

datatype window_state =
    State_unknown | State_restored | State_minimized | State_maximized | State_vertmaximized
  | State_fullscreen | State_horizmaximized | State_hidden | State_attached

record aspect_ratio =
  ar_width :: nat
  ar_height :: nat

abbreviation "uint_max \<equiv> 4294967295 :: nat"
abbreviation "long_max \<equiv> 9223372036854775807 :: nat"

type_synonym bits = nat

datatype shell_chrome_style = Shell_chrome_normal | Shell_chrome_low
datatype pointer_confinement = Pointer_unconfined | Pointer_confined_to_window
abbreviation orientation_mode_any :: bits where "orientation_mode_any \<equiv> 15"
abbreviation placement_gravity_center :: bits where "placement_gravity_center \<equiv> 0"

record ('w, 'u) window_info =
  window_top_left :: point
  window_size :: extent
  wi_name :: string
  wi_type :: window_type
  wi_state :: window_state
  restore_rect :: rectangle
  wi_parent :: "'w option"
  wi_children :: "'w list"
  min_width :: int
  min_height :: int
  max_width :: int
  max_height :: int
  preferred_orientation :: bits
  confine_pointer :: pointer_confinement
  width_inc :: int
  height_inc :: int
  min_aspect :: aspect_ratio
  max_aspect :: aspect_ratio
  wi_output_id :: "int option"
  wi_shell_chrome :: shell_chrome_style
  wi_depth_layer :: depth_layer
  attached_edges :: bits
  exclusive_rect :: "rectangle option"
  userdata :: "'u option"

text \<open>The fields of \<open>WindowSpecification\<close> that the constructor reads; unset is \<open>None\<close>.\<close>

record 'u window_specification =
  sp_name :: "string option"
  sp_type :: "window_type option"
  sp_state :: "window_state option"
  sp_top_left :: "point option"
  sp_size :: "extent option"
  sp_min_width :: "int option"
  sp_min_height :: "int option"
  sp_max_width :: "int option"
  sp_max_height :: "int option"
  sp_preferred_orientation :: "bits option"
  sp_confine_pointer :: "pointer_confinement option"
  sp_width_inc :: "int option"
  sp_height_inc :: "int option"
  sp_min_aspect :: "aspect_ratio option"
  sp_max_aspect :: "aspect_ratio option"
  sp_output_id :: "int option"
  sp_shell_chrome :: "shell_chrome_style option"
  sp_depth_layer :: "depth_layer option"
  sp_attached_edges :: "bits option"
  sp_exclusive_rect :: "rectangle option"
  sp_userdata :: "'u option"

definition clamp_dim :: "nat \<Rightarrow> nat" where
  "clamp_dim dim = min long_max dim"

definition clamp_aspect :: "aspect_ratio \<Rightarrow> aspect_ratio" where
  "clamp_aspect source = \<lparr>ar_width = clamp_dim (ar_width source), ar_height = clamp_dim (ar_height source)\<rparr>"

abbreviation "default_min_extent \<equiv> 0 :: int"
abbreviation "default_max_extent \<equiv> int_max"

definition default_min_aspect_ratio :: aspect_ratio where
  "default_min_aspect_ratio = clamp_aspect \<lparr>ar_width = 0, ar_height = uint_max\<rparr>"

definition default_max_aspect_ratio :: aspect_ratio where
  "default_max_aspect_ratio = clamp_aspect \<lparr>ar_width = uint_max, ar_height = 0\<rparr>"

definition optional_value_or_default :: "'a option \<Rightarrow> 'a \<Rightarrow> 'a" where
  "optional_value_or_default v d = (case v of Some x \<Rightarrow> x | None \<Rightarrow> d)"

text \<open>
  The constructor for a window at the given position and of the given size.  It reads the name, the
  position and the size of the specification with \<open>value()\<close>, which ends the server when one of them
  is unset (\<open>None\<close>).  The limits are taken as they are; only the setters below clamp.
\<close>

definition make_window_info :: "point \<Rightarrow> extent \<Rightarrow> 'u window_specification \<Rightarrow> ('w, 'u) window_info option" where
  "make_window_info pos sz params =
     Option.bind (sp_name params) (\<lambda>nm. Option.bind (sp_top_left params) (\<lambda>tl. Option.bind (sp_size params) (\<lambda>ss.
     Some \<lparr>window_top_left = pos, window_size = sz, wi_name = nm,
       wi_type = optional_value_or_default (sp_type params) Type_normal,
       wi_state = optional_value_or_default (sp_state params) State_restored,
       restore_rect = Rectangle tl ss, wi_parent = None, wi_children = [],
       min_width = optional_value_or_default (sp_min_width params) default_min_extent,
       min_height = optional_value_or_default (sp_min_height params) default_min_extent,
       max_width = optional_value_or_default (sp_max_width params) default_max_extent,
       max_height = optional_value_or_default (sp_max_height params) default_max_extent,
       preferred_orientation = optional_value_or_default (sp_preferred_orientation params) orientation_mode_any,
       confine_pointer = optional_value_or_default (sp_confine_pointer params) Pointer_unconfined,
       width_inc = optional_value_or_default (sp_width_inc params) 1,
       height_inc = optional_value_or_default (sp_height_inc params) 1,
       min_aspect = optional_value_or_default (sp_min_aspect params) default_min_aspect_ratio,
       max_aspect = optional_value_or_default (sp_max_aspect params) default_max_aspect_ratio,
       wi_output_id = sp_output_id params,
       wi_shell_chrome = optional_value_or_default (sp_shell_chrome params) Shell_chrome_normal,
       wi_depth_layer = optional_value_or_default (sp_depth_layer params) Layer_application,
       attached_edges = optional_value_or_default (sp_attached_edges params) placement_gravity_center,
       exclusive_rect = sp_exclusive_rect params,
       userdata = sp_userdata params\<rparr>)))"

definition clamp_extent :: "int \<Rightarrow> int" where
  "clamp_extent source = min default_max_extent (max default_min_extent source)"

definition set_min_width :: "int \<Rightarrow> ('w, 'u) window_info \<Rightarrow> ('w, 'u) window_info" where
  "set_min_width v wi = wi\<lparr>min_width := clamp_extent v\<rparr>"
definition set_min_height :: "int \<Rightarrow> ('w, 'u) window_info \<Rightarrow> ('w, 'u) window_info" where
  "set_min_height v wi = wi\<lparr>min_height := clamp_extent v\<rparr>"
definition set_max_width :: "int \<Rightarrow> ('w, 'u) window_info \<Rightarrow> ('w, 'u) window_info" where
  "set_max_width v wi = wi\<lparr>max_width := clamp_extent v\<rparr>"
definition set_max_height :: "int \<Rightarrow> ('w, 'u) window_info \<Rightarrow> ('w, 'u) window_info" where
  "set_max_height v wi = wi\<lparr>max_height := clamp_extent v\<rparr>"
definition set_min_aspect :: "aspect_ratio \<Rightarrow> ('w, 'u) window_info \<Rightarrow> ('w, 'u) window_info" where
  "set_min_aspect v wi = wi\<lparr>min_aspect := clamp_aspect v\<rparr>"
definition set_max_aspect :: "aspect_ratio \<Rightarrow> ('w, 'u) window_info \<Rightarrow> ('w, 'u) window_info" where
  "set_max_aspect v wi = wi\<lparr>max_aspect := clamp_aspect v\<rparr>"

definition add_child :: "'w \<Rightarrow> ('w, 'u) window_info \<Rightarrow> ('w, 'u) window_info" where
  "add_child c wi = wi\<lparr>wi_children := wi_children wi @ [c]\<rparr>"
definition remove_child :: "'w \<Rightarrow> ('w, 'u) window_info \<Rightarrow> ('w, 'u) window_info" where
  "remove_child c wi = wi\<lparr>wi_children := remove1 c (wi_children wi)\<rparr>"

section \<open>Rules on window types\<close>

definition can_be_active :: "window_type \<Rightarrow> bool" where
  "can_be_active ty \<longleftrightarrow> ty \<in> {Type_normal, Type_utility, Type_dialog, Type_freestyle, Type_menu}"

definition must_have_parent :: "window_type \<Rightarrow> bool" where
  "must_have_parent ty \<longleftrightarrow> ty \<in> {Type_gloss, Type_inputmethod, Type_satellite, Type_tip}"

definition can_morph_to :: "window_type \<Rightarrow> window_type \<Rightarrow> bool" where
  "can_morph_to ty new_type \<longleftrightarrow>
     (if new_type \<in> {Type_normal, Type_utility, Type_satellite}
      then ty \<in> {Type_normal, Type_utility, Type_dialog, Type_satellite}
      else if new_type = Type_dialog
      then ty \<in> {Type_normal, Type_utility, Type_dialog, Type_menu, Type_satellite}
      else False)"

definition must_not_have_parent :: "window_type \<Rightarrow> bool" where
  "must_not_have_parent ty \<longleftrightarrow> ty \<in> {Type_normal, Type_utility}"

definition needs_titlebar :: "window_type \<Rightarrow> bool" where
  "needs_titlebar ty \<longleftrightarrow>
     ty \<notin> {Type_freestyle, Type_menu, Type_inputmethod, Type_gloss, Type_tip, Type_decoration}"

text \<open>The surface of the window, if it still exists, answers whether it is visible.\<close>

definition is_visible :: "bool option \<Rightarrow> window_state \<Rightarrow> bool" where
  "is_visible surface_visible st \<longleftrightarrow>
     (if st \<in> {State_hidden, State_minimized} then False else surface_visible = Some True)"

section \<open>Constraining a resize\<close>

definition limit_extent :: "int \<Rightarrow> int \<Rightarrow> int \<Rightarrow> int" where
  "limit_extent mn mx v = (let v1 = (if mn > v then mn else v) in if mx < v1 then mx else v1)"

text \<open>
  Differences and sums of widths are of type \<open>int\<close>; the rounded difference is computed as a \<open>long\<close> and converted to \<open>int\<close>, which keeps its low 32 bits.
\<close>

definition in_int :: "int \<Rightarrow> bool" where
  "in_int x \<longleftrightarrow> - 2147483648 \<le> x \<and> x \<le> int_max"

definition to_int :: "int \<Rightarrow> int" where
  "to_int x = (x + 2147483648) mod 4294967296 - 2147483648"

definition round_to_increment :: "int \<Rightarrow> int \<Rightarrow> int \<Rightarrow> int option" where
  "round_to_increment mn inc v =
     (let d = v - mn in
      if inc = 0 \<or> \<not> in_int d then None
      else if trunc_mod d inc \<noteq> 0
      then let w = mn + to_int (inc * trunc_div (trunc_div (2 * d + inc) 2) inc) in if in_int w then Some w else None
      else Some v)"

definition fit_min_aspect :: "aspect_ratio \<Rightarrow> int \<times> int \<Rightarrow> (int \<times> int) option" where
  "fit_min_aspect ar wh = (case wh of (w, h) \<Rightarrow>
     let arw = int (ar_width ar); arh = int (ar_height ar); err = h * arw - w * arh in
     if err > 0 then
       if arh = 0 \<or> arw = 0 then None
       else let width_correction = trunc_div (err + (arh - 1)) arh;
                height_correction = trunc_div (err + (arw - 1)) arw
            in if width_correction < height_correction then Some (w + width_correction, h)
               else Some (w, h - height_correction)
     else Some (w, h))"

definition fit_max_aspect :: "aspect_ratio \<Rightarrow> int \<times> int \<Rightarrow> (int \<times> int) option" where
  "fit_max_aspect ar wh = (case wh of (w, h) \<Rightarrow>
     let arw = int (ar_width ar); arh = int (ar_height ar); err = w * arh - h * arw in
     if err > 0 then
       if arw = 0 \<or> arh = 0 then None
       else let height_correction = trunc_div (err + (arw - 1)) arw;
                width_correction = trunc_div (err + (arh - 1)) arh
            in if width_correction < height_correction then Some (w - width_correction, h)
               else Some (w, h + height_correction)
     else Some (w, h))"

definition limited_size :: "('w, 'u) window_info \<Rightarrow> extent \<Rightarrow> (int \<times> int) option" where
  "limited_size wi requested =
     Option.bind (round_to_increment (min_width wi) (width_inc wi)
                   (limit_extent (min_width wi) (max_width wi) (width requested))) (\<lambda>w.
     Option.bind (round_to_increment (min_height wi) (height_inc wi)
                   (limit_extent (min_height wi) (max_height wi) (height requested))) (\<lambda>h.
     Option.bind (fit_min_aspect (min_aspect wi) (w, h)) (fit_max_aspect (max_aspect wi))))"

text \<open>The final switch on the window's state.\<close>

definition anchor_maximized :: "('w, 'u) window_info \<Rightarrow> point \<times> extent \<Rightarrow> point \<times> extent" where
  "anchor_maximized wi r = (case r of (pos, sz) \<Rightarrow>
     if wi_state wi \<in> {State_restored, State_attached} then (pos, sz)
     else if wi_state wi = State_vertmaximized
     then (pos\<lparr>py := py (window_top_left wi)\<rparr>, sz\<lparr>height := height (window_size wi)\<rparr>)
     else if wi_state wi = State_horizmaximized
     then (pos\<lparr>px := px (window_top_left wi)\<rparr>, sz\<lparr>width := width (window_size wi)\<rparr>)
     else (window_top_left wi, window_size wi))"

definition constrain_resize :: "('w, 'u) window_info \<Rightarrow> point \<Rightarrow> extent \<Rightarrow> (point \<times> extent) option" where
  "constrain_resize wi requested_pos requested_size =
     map_option (\<lambda>(w, h).
       let left_resize = (px requested_pos \<noteq> px (window_top_left wi));
           top_resize = (py requested_pos \<noteq> py (window_top_left wi));
           x = (if left_resize then px requested_pos - (w - width requested_size) else px requested_pos);
           y = (if top_resize then py requested_pos - (h - height requested_size) else py requested_pos)
       in anchor_maximized wi (Point x y, Size w h))
     (limited_size wi requested_size)"

section \<open>Limits, increments and aspect ratios\<close>

lemma limit_extent_bounds: "mn \<le> mx \<Longrightarrow> mn \<le> limit_extent mn mx v \<and> limit_extent mn mx v \<le> mx"
  by (auto simp: limit_extent_def Let_def)

lemma limit_extent_id: "mn \<le> v \<Longrightarrow> v \<le> mx \<Longrightarrow> limit_extent mn mx v = v"
  by (auto simp: limit_extent_def Let_def)

lemma to_int_id: "in_int x \<Longrightarrow> to_int x = x"
  unfolding in_int_def to_int_def by (subst mod_pos_pos_trivial) simp_all

text \<open>The limits and the increment leave room to round up.\<close>

definition room_to_round :: "int \<Rightarrow> int \<Rightarrow> int \<Rightarrow> bool" where
  "room_to_round mn mx inc \<longleftrightarrow> 0 < inc \<and> 0 \<le> mn \<and> mn \<le> mx \<and> mx \<le> int_max \<and> (inc = 1 \<or> mx + inc \<le> int_max)"

lemma round_to_increment_spec:
  assumes "0 < inc" "mn \<le> v" "0 \<le> mn" "v \<le> int_max" "inc = 1 \<or> v + inc \<le> int_max"
  shows "\<exists>k\<ge>0. round_to_increment mn inc v = Some (mn + inc * k) \<and> 2 * \<bar>mn + inc * k - v\<bar> \<le> inc"
proof -
  let ?d = "v - mn"
  have int: "in_int ?d" using assms by (simp add: in_int_def)
  show ?thesis
  proof (cases "?d mod inc = 0")
    case True
    then have "v = mn + inc * (?d div inc)" by (metis add.commute diff_add_cancel mult_div_mod_eq add.right_neutral)
    moreover have "0 \<le> ?d div inc" using assms by (simp add: pos_imp_zdiv_nonneg_iff)
    moreover have "round_to_increment mn inc v = Some v"
      using True assms int by (simp add: round_to_increment_def Let_def trunc_mod_nonneg)
    ultimately show ?thesis using assms(1) by (intro exI [of _ "?d div inc"]) (metis abs_zero diff_self mult_zero_right less_imp_le)
  next
    case False
    define e where "e = (2 * ?d + inc) div 2"
    define k where "k = e div inc"
    have e0: "0 \<le> e" using assms by (simp add: e_def)
    have e2: "trunc_div (2 * ?d + inc) 2 = e" using assms by (simp add: e_def trunc_div_nonneg)
    have "inc * k \<le> e" "e < inc * k + inc"
      using assms(1) unfolding k_def
      by (metis mult_div_mod_eq pos_mod_sign le_add_same_cancel1, metis mult_div_mod_eq pos_mod_bound add_strict_left_mono)
    moreover have "2 * e \<le> 2 * ?d + inc" "2 * ?d + inc < 2 * e + 2" unfolding e_def by linarith+
    moreover define p where "p = inc * k"
    ultimately have "p \<le> e" "e + 1 \<le> p + inc" "2 * e \<le> 2 * ?d + inc" "2 * ?d + inc < 2 * e + 2" by simp_all
    then have p: "2 * (mn + p - v) \<le> inc \<and> - inc \<le> 2 * (mn + p - v)" by (simp add: algebra_simps)
    then have near: "2 * \<bar>mn + inc * k - v\<bar> \<le> inc" unfolding p_def by linarith
    have k: "0 \<le> k" using assms(1) e0 by (simp add: k_def pos_imp_zdiv_nonneg_iff)
    have "inc \<noteq> 1" using False by auto
    then have "v + inc \<le> int_max" using assms(5) by simp
    moreover have "0 \<le> inc * k" using k assms(1) by simp
    moreover have "mn + inc * k \<le> v + inc" using conjunct1 [OF p] assms(1) unfolding p_def [symmetric] by presburger
    ultimately have "in_int (inc * k)" "in_int (mn + inc * k)" using assms(3) by (auto simp: in_int_def)
    then have "round_to_increment mn inc v = Some (mn + inc * k)"
      using False assms e0 e2 int by (simp add: round_to_increment_def Let_def trunc_mod_nonneg trunc_div_nonneg k_def to_int_id)
    with near k show ?thesis by blast
  qed
qed

lemma round_limited:
  assumes "room_to_round mn mx inc"
  shows "\<exists>k\<ge>0. round_to_increment mn inc (limit_extent mn mx v) = Some (mn + inc * k) \<and> 2 * \<bar>mn + inc * k - limit_extent mn mx v\<bar> \<le> inc"
  using assms limit_extent_bounds [of mn mx v] by (intro round_to_increment_spec) (auto simp: room_to_round_def)

lemma ceiling_div:
  fixes a b :: int
  assumes "0 < a" "0 < b"
  shows "a \<le> trunc_div (a + (b - 1)) b * b" "0 \<le> trunc_div (a + (b - 1)) b"
proof -
  have eq: "trunc_div (a + (b - 1)) b = (a + (b - 1)) div b" using assms by (simp add: trunc_div_nonneg)
  have "(a + (b - 1)) mod b < b" using assms(2) by (rule pos_mod_bound)
  moreover have "(a + (b - 1)) div b * b + (a + (b - 1)) mod b = a + (b - 1)" by (rule div_mult_mod_eq)
  ultimately show "a \<le> trunc_div (a + (b - 1)) b * b" unfolding eq by linarith
  show "0 \<le> trunc_div (a + (b - 1)) b" using assms by (simp add: eq pos_imp_zdiv_nonneg_iff)
qed

text \<open>The correction is large enough whichever of the two dimensions it is applied to.\<close>

lemma correct_by:
  fixes a b c e x y :: int
  assumes "e = y * a - x * b" "e \<le> c * b"
  shows "y * a \<le> (x + c) * b"
  using assms by (simp add: algebra_simps)

lemma correct_by_minus:
  fixes a b c e x y :: int
  assumes "e = y * a - x * b" "e \<le> c * a"
  shows "(y - c) * a \<le> x * b"
  using assms by (simp add: algebra_simps)

lemma fit_min_aspect_ok:
  assumes "fit_min_aspect ar (w, h) = Some (w', h')"
  shows "h' * int (ar_width ar) \<le> w' * int (ar_height ar) \<and> w \<le> w' \<and> h' \<le> h"
proof (cases "h * int (ar_width ar) - w * int (ar_height ar) > 0")
  case True
  define e where "e = h * int (ar_width ar) - w * int (ar_height ar)"
  define cw where "cw = trunc_div (e + (int (ar_height ar) - 1)) (int (ar_height ar))"
  define ch where "ch = trunc_div (e + (int (ar_width ar) - 1)) (int (ar_width ar))"
  have pos: "0 < int (ar_height ar)" "0 < int (ar_width ar)" "0 < e"
    using assms True by (auto simp: fit_min_aspect_def Let_def e_def split: if_splits)
  have r: "(w', h') = (if cw < ch then (w + cw, h) else (w, h - ch))"
    using assms pos unfolding cw_def ch_def e_def fit_min_aspect_def Let_def by auto
  have "e \<le> cw * int (ar_height ar)" "e \<le> ch * int (ar_width ar)" "0 \<le> cw" "0 \<le> ch"
    unfolding cw_def ch_def using ceiling_div pos by blast+
  then show ?thesis using r correct_by [OF e_def] correct_by_minus [OF e_def] by (simp split: if_splits)
qed (use assms in \<open>auto simp: fit_min_aspect_def Let_def\<close>)

lemma fit_max_aspect_ok:
  assumes "fit_max_aspect ar (w, h) = Some (w', h')"
  shows "w' * int (ar_height ar) \<le> h' * int (ar_width ar) \<and> w' \<le> w \<and> h \<le> h'"
proof (cases "w * int (ar_height ar) - h * int (ar_width ar) > 0")
  case True
  define e where "e = w * int (ar_height ar) - h * int (ar_width ar)"
  define cw where "cw = trunc_div (e + (int (ar_height ar) - 1)) (int (ar_height ar))"
  define ch where "ch = trunc_div (e + (int (ar_width ar) - 1)) (int (ar_width ar))"
  have pos: "0 < int (ar_height ar)" "0 < int (ar_width ar)" "0 < e"
    using assms True by (auto simp: fit_max_aspect_def Let_def e_def split: if_splits)
  have r: "(w', h') = (if cw < ch then (w - cw, h) else (w, h + ch))"
    using assms pos unfolding cw_def ch_def e_def fit_max_aspect_def Let_def by auto
  have "e \<le> cw * int (ar_height ar)" "e \<le> ch * int (ar_width ar)" "0 \<le> cw" "0 \<le> ch"
    unfolding cw_def ch_def using ceiling_div pos by blast+
  then show ?thesis using r correct_by [OF e_def] correct_by_minus [OF e_def] by (simp split: if_splits)
qed (use assms in \<open>auto simp: fit_max_aspect_def Let_def\<close>)

lemma default_aspects_fit:
  assumes "0 \<le> w" "0 \<le> h"
  shows "fit_min_aspect default_min_aspect_ratio (w, h) = Some (w, h)"
    and "fit_max_aspect default_max_aspect_ratio (w, h) = Some (w, h)"
  using assms by (simp_all add: fit_min_aspect_def fit_max_aspect_def default_min_aspect_ratio_def
      default_max_aspect_ratio_def clamp_aspect_def clamp_dim_def Let_def)

section \<open>The most recently used windows\<close>

type_synonym 'w mru_window_list = "'w list"

definition mru_push :: "'w \<Rightarrow> 'w mru_window_list \<Rightarrow> 'w mru_window_list" where
  "mru_push w windows = removeAll w windows @ [w]"

definition mru_erase :: "'w \<Rightarrow> 'w mru_window_list \<Rightarrow> 'w mru_window_list" where
  "mru_erase w windows = removeAll w windows"

text \<open>A window is visible here when the state of its surface is not hidden.\<close>

definition mru_top :: "('w \<Rightarrow> window_state) \<Rightarrow> 'w mru_window_list \<Rightarrow> 'w option" where
  "mru_top state_of_surface windows = find_last (\<lambda>w. state_of_surface w \<noteq> State_hidden) windows"

fun enumerate_visible :: "('w \<Rightarrow> window_state) \<Rightarrow> ('w \<Rightarrow> bool) \<Rightarrow> 'w list \<Rightarrow> 'w list" where
  "enumerate_visible state_of_surface enumerator [] = []"
| "enumerate_visible state_of_surface enumerator (w # ws) =
     (if state_of_surface w \<noteq> State_hidden
      then w # (if \<not> enumerator w then [] else enumerate_visible state_of_surface enumerator ws)
      else enumerate_visible state_of_surface enumerator ws)"

text \<open>The windows that the enumerator is called with; it answers whether to go on.\<close>

definition mru_enumerate :: "('w \<Rightarrow> window_state) \<Rightarrow> ('w \<Rightarrow> bool) \<Rightarrow> 'w mru_window_list \<Rightarrow> 'w list" where
  "mru_enumerate state_of_surface enumerator windows = enumerate_visible state_of_surface enumerator (rev windows)"

lemma enumerate_visible_all:
  "(\<forall>w\<in>set ws. f w) \<Longrightarrow> enumerate_visible st f ws = filter (\<lambda>w. st w \<noteq> State_hidden) ws"
  by (induction ws) auto

datatype 'w mru_op = Push 'w | Erase 'w

fun mru_step :: "'w mru_window_list \<Rightarrow> 'w mru_op \<Rightarrow> 'w mru_window_list" where
  "mru_step windows (Push w) = mru_push w windows"
| "mru_step windows (Erase w) = mru_erase w windows"

lemma mru_steps_distinct: "distinct (foldl mru_step [] ops)"
proof (induction ops rule: rev_induct)
  case (snoc op ops)
  then show ?case by (cases op) (auto simp: mru_push_def mru_erase_def distinct_removeAll)
qed simp

section \<open>The limited size\<close>

lemma fit_aspect_total:
  assumes "0 < ar_width ar" "0 < ar_height ar"
  shows "\<exists>r. fit_min_aspect ar wh = Some r" and "\<exists>r. fit_max_aspect ar wh = Some r"
  using assms by (cases wh; simp add: fit_min_aspect_def fit_max_aspect_def Let_def)+

lemma limited_size_total:
  assumes "room_to_round (min_width wi) (max_width wi) (width_inc wi)" "room_to_round (min_height wi) (max_height wi) (height_inc wi)"
    and "0 < ar_width (min_aspect wi)" "0 < ar_height (min_aspect wi)"
    and "0 < ar_width (max_aspect wi)" "0 < ar_height (max_aspect wi)"
  shows "\<exists>w h. limited_size wi sz = Some (w, h) \<and>
           w * int (ar_height (max_aspect wi)) \<le> h * int (ar_width (max_aspect wi))"
proof -
  obtain w where w: "round_to_increment (min_width wi) (width_inc wi)
      (limit_extent (min_width wi) (max_width wi) (width sz)) = Some w"
    using round_limited [OF assms(1)] by blast
  obtain h where h: "round_to_increment (min_height wi) (height_inc wi)
      (limit_extent (min_height wi) (max_height wi) (height sz)) = Some h"
    using round_limited [OF assms(2)] by blast
  obtain w' h' where m: "fit_min_aspect (min_aspect wi) (w, h) = Some (w', h')"
    using fit_aspect_total(1) [OF assms(3,4), of "(w, h)"] by auto
  obtain w'' h'' where x: "fit_max_aspect (max_aspect wi) (w', h') = Some (w'', h'')"
    using fit_aspect_total(2) [OF assms(5,6), of "(w', h')"] by auto
  show ?thesis using w h m x fit_max_aspect_ok [OF x] by (simp add: limited_size_def)
qed

lemma limited_size_default:
  assumes "room_to_round (min_width wi) (max_width wi) (width_inc wi)" "room_to_round (min_height wi) (max_height wi) (height_inc wi)"
    and "min_aspect wi = default_min_aspect_ratio" "max_aspect wi = default_max_aspect_ratio"
  shows "\<exists>j\<ge>0. \<exists>k\<ge>0. limited_size wi sz = Some (min_width wi + width_inc wi * j, min_height wi + height_inc wi * k) \<and>
    2 * \<bar>min_width wi + width_inc wi * j - limit_extent (min_width wi) (max_width wi) (width sz)\<bar> \<le> width_inc wi \<and>
    2 * \<bar>min_height wi + height_inc wi * k - limit_extent (min_height wi) (max_height wi) (height sz)\<bar> \<le> height_inc wi"
proof -
  obtain j where j: "0 \<le> j" "round_to_increment (min_width wi) (width_inc wi)
      (limit_extent (min_width wi) (max_width wi) (width sz)) = Some (min_width wi + width_inc wi * j)"
    "2 * \<bar>min_width wi + width_inc wi * j - limit_extent (min_width wi) (max_width wi) (width sz)\<bar> \<le> width_inc wi"
    using round_limited [OF assms(1)] by blast
  obtain k where k: "0 \<le> k" "round_to_increment (min_height wi) (height_inc wi)
      (limit_extent (min_height wi) (max_height wi) (height sz)) = Some (min_height wi + height_inc wi * k)"
    "2 * \<bar>min_height wi + height_inc wi * k - limit_extent (min_height wi) (max_height wi) (height sz)\<bar> \<le> height_inc wi"
    using round_limited [OF assms(2)] by blast
  have "0 \<le> min_width wi + width_inc wi * j" "0 \<le> min_height wi + height_inc wi * k" using j k assms(1,2) by (simp_all add: room_to_round_def)
  then have "limited_size wi sz = Some (min_width wi + width_inc wi * j, min_height wi + height_inc wi * k)"
    using j k by (simp add: limited_size_def assms(3,4) default_aspects_fit)
  then show ?thesis using j k by blast
qed

text \<open>Windows for the examples: one with aspect ratios between 1:2 and 2:1, one without.\<close>

definition empty_specification :: "unit window_specification" where
  "empty_specification = \<lparr>sp_name = Some ''w'', sp_type = None, sp_state = None, sp_top_left = Some (Point 0 0),
     sp_size = Some (Size 10 10), sp_min_width = None, sp_min_height = None, sp_max_width = None,
     sp_max_height = None, sp_preferred_orientation = None, sp_confine_pointer = None, sp_width_inc = None,
     sp_height_inc = None, sp_min_aspect = None, sp_max_aspect = None, sp_output_id = None,
     sp_shell_chrome = None, sp_depth_layer = None, sp_attached_edges = None, sp_exclusive_rect = None,
     sp_userdata = None\<rparr>"

definition sample_window :: "(nat, unit) window_info" where
  "sample_window = the (make_window_info (Point 0 0) (Size 10 10)
     (empty_specification\<lparr>sp_min_aspect := Some \<lparr>ar_width = 1, ar_height = 2\<rparr>,
        sp_max_aspect := Some \<lparr>ar_width = 2, ar_height = 1\<rparr>\<rparr>))"

definition plain_window :: "(nat, unit) window_info" where
  "plain_window = the (make_window_info (Point 0 0) (Size 10 10) (empty_specification\<lparr>sp_width_inc := Some 10, sp_max_width := Some 1000\<rparr>))"

lemmas window_samples = sample_window_def plain_window_def empty_specification_def make_window_info_def
  optional_value_or_default_def

section \<open>Properties\<close>

text \<open>
  For positive increments and aspect ratios, minimum sizes that are not negative and at most the maximum sizes, and maximum sizes that leave room to round up,
  \<open>constrain_resize\<close> of a restored or attached window returns (no division by zero); the size it
  returns keeps the maximum aspect ratio; and the edge opposite to the one being dragged stays: a
  request that moves the left (top) edge keeps the right (bottom) edge of the request, any other
  keeps its left (top) edge.
\<close>

theorem constrain_resize_keeps_opposite_edges:
  assumes "wi_state wi = State_restored \<or> wi_state wi = State_attached"
    and "room_to_round (min_width wi) (max_width wi) (width_inc wi)" "room_to_round (min_height wi) (max_height wi) (height_inc wi)"
    and "0 < ar_width (min_aspect wi)" "0 < ar_height (min_aspect wi)"
    and "0 < ar_width (max_aspect wi)" "0 < ar_height (max_aspect wi)"
  shows "\<exists>p s. constrain_resize wi pos sz = Some (p, s) \<and>
     width s * int (ar_height (max_aspect wi)) \<le> height s * int (ar_width (max_aspect wi)) \<and>
     (if px pos \<noteq> px (window_top_left wi) then px p + width s = px pos + width sz else px p = px pos) \<and>
     (if py pos \<noteq> py (window_top_left wi) then py p + height s = py pos + height sz else py p = py pos)"
proof -
  obtain w h where "limited_size wi sz = Some (w, h)" and "w * int (ar_height (max_aspect wi)) \<le> h * int (ar_width (max_aspect wi))"
    using limited_size_total [OF assms(2-)] by blast
  then show ?thesis using assms(1) by (auto simp: constrain_resize_def anchor_maximized_def Let_def)
qed

theorem constrain_resize_keeps_opposite_edges_witness:
  "\<exists>p s. constrain_resize sample_window (Point 5 0) (Size 100 50) = Some (p, s) \<and> px p + width s = 105 \<and> py p = 0"
  using constrain_resize_keeps_opposite_edges [of sample_window "Point 5 0" "Size 100 50"]
  by (auto simp: window_samples room_to_round_def)

text \<open>
  C39: With the default aspect ratios, positive increments, minimum sizes that are not negative and at most the maximum sizes, and, unless the increment is one,
  maximum sizes that are at least an increment below the largest \<open>int\<close>, the constrained size of a restored
  window is the minimum plus a whole number of increments, and differs by at most half an increment
  from the request clamped to the limits; with increments of one it is exactly the clamped request.
  A maximised window keeps its size in the maximised direction, and every other state keeps its size
  and position.
\<close>

theorem constrain_resize_size:
  assumes "0 < width_inc wi" "0 \<le> min_width wi" "min_width wi \<le> max_width wi" "max_width wi \<le> int_max"
    and "width_inc wi = 1 \<or> max_width wi + width_inc wi \<le> int_max"
    and "0 < height_inc wi" "0 \<le> min_height wi" "min_height wi \<le> max_height wi" "max_height wi \<le> int_max"
    and "height_inc wi = 1 \<or> max_height wi + height_inc wi \<le> int_max"
    and "min_aspect wi = default_min_aspect_ratio" "max_aspect wi = default_max_aspect_ratio"
  shows "\<exists>p s j k. constrain_resize wi pos sz = Some (p, s) \<and> 0 \<le> j \<and> 0 \<le> k \<and>
     (if wi_state wi \<in> {State_restored, State_attached, State_vertmaximized}
      then width s = min_width wi + width_inc wi * j \<and>
           2 * \<bar>width s - limit_extent (min_width wi) (max_width wi) (width sz)\<bar> \<le> width_inc wi
      else width s = width (window_size wi) \<and> px p = px (window_top_left wi)) \<and>
     (if wi_state wi \<in> {State_restored, State_attached, State_horizmaximized}
      then height s = min_height wi + height_inc wi * k \<and>
           2 * \<bar>height s - limit_extent (min_height wi) (max_height wi) (height sz)\<bar> \<le> height_inc wi
      else height s = height (window_size wi) \<and> py p = py (window_top_left wi))"
proof -
  have room: "room_to_round (min_width wi) (max_width wi) (width_inc wi)" "room_to_round (min_height wi) (max_height wi) (height_inc wi)"
    using assms(1-10) by (simp_all add: room_to_round_def)
  obtain j k where "0 \<le> j" "0 \<le> k"
    "limited_size wi sz = Some (min_width wi + width_inc wi * j, min_height wi + height_inc wi * k)"
    "2 * \<bar>min_width wi + width_inc wi * j - limit_extent (min_width wi) (max_width wi) (width sz)\<bar> \<le> width_inc wi"
    "2 * \<bar>min_height wi + height_inc wi * k - limit_extent (min_height wi) (max_height wi) (height sz)\<bar> \<le> height_inc wi"
    using limited_size_default [OF room assms(11,12)] by blast
  then show ?thesis
    by (intro exI [of _ "fst (the (constrain_resize wi pos sz))"] exI [of _ "snd (the (constrain_resize wi pos sz))"]
          exI [of _ j] exI [of _ k]) (auto simp: constrain_resize_def anchor_maximized_def Let_def)
qed

theorem constrain_resize_size_witness:
  "\<exists>p s j. constrain_resize plain_window (Point 0 0) (Size 101 50) = Some (p, s) \<and>
     width s = 10 * j \<and> 2 * \<bar>width s - 101\<bar> \<le> 10"
  using constrain_resize_size [of plain_window "Point 0 0" "Size 101 50"]
  by (auto simp: window_samples limit_extent_def)

text \<open>
  The width is rounded to the increment after it has been limited to the maximum, so it may end up
  above it: when the distance from the minimum to the maximum is not a whole number of increments and leaves at
  least half of one, every request of the maximum width or more is rounded up beyond the maximum.
\<close>

theorem increment_rounding_exceeds_maximum:
  assumes "0 < inc" "mn \<le> mx" "(mx - mn) mod inc \<noteq> 0" "inc \<le> 2 * ((mx - mn) mod inc)" "mx \<le> v" "0 \<le> mn" "mx + inc \<le> int_max"
  shows "\<exists>w. round_to_increment mn inc (limit_extent mn mx v) = Some w \<and> mx < w"
proof -
  define q where "q = (mx - mn) div inc"
  define r where "r = (mx - mn) mod inc"
  have d: "mx - mn = inc * q + r" unfolding q_def r_def by simp
  have r: "0 \<le> r" "r < inc" "inc \<le> 2 * r" using assms by (simp_all add: r_def)
  have e: "(2 * (mx - mn) + inc) div 2 div inc = q + 1"
  proof -
    have "(2 * (mx - mn) + inc) div 2 = inc * (q + 1) + (r + inc div 2 - inc)"
      using d by (simp add: algebra_simps)
    moreover have "0 \<le> r + inc div 2 - inc" "r + inc div 2 - inc < inc" using r by linarith+
    ultimately show ?thesis using assms(1) by simp
  qed
  have "limit_extent mn mx v = mx" using assms by (auto simp: limit_extent_def Let_def)
  moreover have "round_to_increment mn inc mx = Some (mn + inc * (q + 1))"
  proof -
    have "inc * (q + 1) = mx - mn + (inc - r)" using d by (simp add: algebra_simps)
    then have "in_int (inc * (q + 1))" "in_int (mn + inc * (q + 1))" using r assms(1,2,6,7) by (auto simp: in_int_def)
    moreover have "in_int (mx - mn)" using assms(1,2,6,7) by (simp add: in_int_def)
    ultimately show ?thesis using assms e by (simp add: round_to_increment_def Let_def trunc_mod_nonneg trunc_div_nonneg to_int_id)
  qed
  moreover have "mx < mn + inc * (q + 1)" using d r by (simp add: algebra_simps)
  ultimately show ?thesis by simp
qed

theorem increment_rounding_exceeds_maximum_witness:
  "\<exists>w. round_to_increment 0 6 (limit_extent 0 10 50) = Some w \<and> 10 < w"
  by (rule increment_rounding_exceeds_maximum) simp_all

text \<open>
  Without room to round up the conversion to \<open>int\<close> overflows: with the default limits and an increment of ten the largest width is rounded to a negative one.
\<close>

lemma increment_rounding_overflows: "round_to_increment 0 10 (limit_extent 0 int_max int_max) = Some (- 2147483646)"
  by (simp add: round_to_increment_def limit_extent_def in_int_def to_int_def trunc_mod_nonneg trunc_div_nonneg)

text \<open>
  After any sequence of pushes and erasures the list of recently used windows has no window
  twice; the top is the visible window pushed last, and an enumeration that is not stopped visits
  exactly the visible windows, most recently used first.
\<close>

theorem mru_order:
  assumes "\<forall>w. go_on w"
  shows "distinct (foldl mru_step [] ops) \<and>
     mru_enumerate st go_on (foldl mru_step [] ops) = filter (\<lambda>w. st w \<noteq> State_hidden) (rev (foldl mru_step [] ops)) \<and>
     (st x \<noteq> State_hidden \<longrightarrow> mru_top st (mru_push x (foldl mru_step [] ops)) = Some x) \<and>
     (st x = State_hidden \<longrightarrow>
        mru_top st (mru_push x (foldl mru_step [] ops)) = mru_top st (mru_erase x (foldl mru_step [] ops)))"
  using assms by (auto simp: mru_steps_distinct mru_enumerate_def enumerate_visible_all mru_top_def
      mru_push_def mru_erase_def find_last_def)

theorem mru_order_witness:
  "mru_enumerate (\<lambda>w. if w = (2::nat) then State_hidden else State_restored) (\<lambda>_. True)
     (foldl mru_step [] [Push 1, Push 2, Push 3, Push 1]) = [1, 3]"
  using mru_order [of "\<lambda>_. True" "[Push (1::nat), Push 2, Push 3, Push 1]"
      "\<lambda>w. if w = 2 then State_hidden else State_restored" 7]
  by (simp add: mru_push_def)

end
