(* ===== verification/Window_Placement.thy ===== *)
theory Window_Placement
  imports Window_Info
begin

text \<open>
  The placement computations of \<open>miral::BasicWindowManager\<close> (\<open>src/miral/basic_window_manager.cpp\<close>):
  placing a window relative to a rectangle of its parent (\<open>place_relative\<close> with the gravities and
  hints of the request), attaching a window to the edges of an application zone, reducing the zone by
  the exclusive rectangle of an attached window, placing a window for a new state, and the movement a
  user's drag may make.  The active output, the zones and the policy's \<open>confirm_placement_on_display\<close>
  are arguments.  Gravities and hints are bit sets: bits 0 to 3 of a gravity are west, east, north and
  south.  Multiplying a delta by 0.5 gives a double that is truncated to an integer again.
\<close>

section \<open>Gravities\<close>

abbreviation gravity_west :: bits where "gravity_west \<equiv> 1"
abbreviation gravity_east :: bits where "gravity_east \<equiv> 2"
abbreviation gravity_north :: bits where "gravity_north \<equiv> 4"
abbreviation gravity_south :: bits where "gravity_south \<equiv> 8"
abbreviation gravity_northwest :: bits where "gravity_northwest \<equiv> 5"
abbreviation gravity_northeast :: bits where "gravity_northeast \<equiv> 6"
abbreviation gravity_southwest :: bits where "gravity_southwest \<equiv> 9"
abbreviation gravity_southeast :: bits where "gravity_southeast \<equiv> 10"

abbreviation has_west :: "bits \<Rightarrow> bool" where "has_west edges \<equiv> bit edges 0"
abbreviation has_east :: "bits \<Rightarrow> bool" where "has_east edges \<equiv> bit edges 1"
abbreviation has_north :: "bits \<Rightarrow> bool" where "has_north edges \<equiv> bit edges 2"
abbreviation has_south :: "bits \<Rightarrow> bool" where "has_south edges \<equiv> bit edges 3"

abbreviation hint_flip_x :: "bits \<Rightarrow> bool" where "hint_flip_x hints \<equiv> bit hints 0"
abbreviation hint_flip_y :: "bits \<Rightarrow> bool" where "hint_flip_y hints \<equiv> bit hints 1"
abbreviation hint_slide_x :: "bits \<Rightarrow> bool" where "hint_slide_x hints \<equiv> bit hints 2"
abbreviation hint_slide_y :: "bits \<Rightarrow> bool" where "hint_slide_y hints \<equiv> bit hints 3"
abbreviation hint_resize_x :: "bits \<Rightarrow> bool" where "hint_resize_x hints \<equiv> bit hints 4"
abbreviation hint_resize_y :: "bits \<Rightarrow> bool" where "hint_resize_y hints \<equiv> bit hints 5"
abbreviation hint_antipodes :: "bits \<Rightarrow> bool" where "hint_antipodes hints \<equiv> bit hints 6"

definition flip_x :: "bits \<Rightarrow> bits" where
  "flip_x g =
     (if g = gravity_northwest then gravity_northeast
      else if g = gravity_northeast then gravity_northwest
      else if g = gravity_west then gravity_east
      else if g = gravity_east then gravity_west
      else if g = gravity_southwest then gravity_southeast
      else if g = gravity_southeast then gravity_southwest
      else g)"

definition flip_y :: "bits \<Rightarrow> bits" where
  "flip_y g =
     (if g = gravity_northwest then gravity_southwest
      else if g = gravity_north then gravity_south
      else if g = gravity_northeast then gravity_southeast
      else if g = gravity_southwest then gravity_northwest
      else if g = gravity_south then gravity_north
      else if g = gravity_southeast then gravity_northeast
      else g)"

definition flip_x_displacement :: "displacement \<Rightarrow> displacement" where
  "flip_x_displacement d = Displacement (-1 * dx d) (dy d)"

definition flip_y_displacement :: "displacement \<Rightarrow> displacement" where
  "flip_y_displacement d = Displacement (dx d) (-1 * dy d)"

definition antipodes :: "bits \<Rightarrow> bits" where
  "antipodes g =
     (if g = gravity_northwest then gravity_southeast
      else if g = gravity_north then gravity_south
      else if g = gravity_northeast then gravity_southwest
      else if g = gravity_west then gravity_east
      else if g = gravity_east then gravity_west
      else if g = gravity_southwest then gravity_northeast
      else if g = gravity_south then gravity_north
      else if g = gravity_southeast then gravity_northwest
      else g)"

definition constrain_to :: "rectangle \<Rightarrow> point \<Rightarrow> point" where
  "constrain_to rect p0 =
     (let p1 = (if px p0 < px (top_left rect) then p0\<lparr>px := px (top_left rect)\<rparr> else p0);
          p2 = (if py p1 < py (top_left rect) then p1\<lparr>py := py (top_left rect)\<rparr> else p1);
          p3 = (if px p2 > px (bottom_right rect) then p2\<lparr>px := px (bottom_right rect)\<rparr> else p2);
          p4 = (if py p3 > py (bottom_right rect) then p3\<lparr>py := py (bottom_right rect)\<rparr> else p3)
      in p4)"

text \<open>A delta times 0.5, converted to an integer.\<close>

definition half :: "int \<Rightarrow> int" where
  "half n = trunc_div n 2"

definition bad_gravity :: exn where
  "bad_gravity = Runtime_error ''bad placement gravity''"

definition anchor_for :: "rectangle \<Rightarrow> bits \<Rightarrow> exn + point" where
  "anchor_for aux_rect g =
     (let w2 = half (width (rsize aux_rect)); h2 = half (height (rsize aux_rect)) in
      if g = gravity_northwest then Inr (top_left aux_rect)
      else if g = gravity_north then Inr (point_plus (top_left aux_rect) (Displacement w2 0))
      else if g = gravity_northeast then Inr (top_right aux_rect)
      else if g = gravity_west then Inr (point_plus (top_left aux_rect) (Displacement 0 h2))
      else if g = placement_gravity_center then Inr (point_plus (top_left aux_rect) (Displacement w2 h2))
      else if g = gravity_east then Inr (point_plus (top_right aux_rect) (Displacement 0 h2))
      else if g = gravity_southwest then Inr (bottom_left aux_rect)
      else if g = gravity_south then Inr (point_plus (bottom_left aux_rect) (Displacement w2 0))
      else if g = gravity_southeast then Inr (bottom_right aux_rect)
      else Inl bad_gravity)"

definition offset_for :: "extent \<Rightarrow> bits \<Rightarrow> exn + displacement" where
  "offset_for sz g =
     (let w = width sz; h = height sz in
      if g = gravity_northwest then Inr (Displacement 0 0)
      else if g = gravity_north then Inr (Displacement (half (- w)) 0)
      else if g = gravity_northeast then Inr (Displacement (-1 * w) 0)
      else if g = gravity_west then Inr (Displacement 0 (half (- h)))
      else if g = placement_gravity_center then Inr (Displacement (half (- w)) (half (- h)))
      else if g = gravity_east then Inr (Displacement (-1 * w) (half (- h)))
      else if g = gravity_southwest then Inr (Displacement 0 (-1 * h))
      else if g = gravity_south then Inr (Displacement (half (- w)) (-1 * h))
      else if g = gravity_southeast then Inr (Displacement (-1 * w) (-1 * h))
      else Inl bad_gravity)"

section \<open>Placing a window relative to its parent\<close>

text \<open>
  The fields of the specification that \<open>place_relative\<close> reads; the ones it reads with \<open>value()\<close> are
  set whenever it is called.
\<close>

record relative_placement =
  placement_hints :: bits
  window_placement_gravity :: bits
  placement_size :: "extent option"
  aux_rect_placement_offset :: "displacement option"
  aux_rect :: rectangle
  aux_rect_placement_gravity :: bits

definition candidate :: "rectangle \<Rightarrow> rectangle \<Rightarrow> displacement \<Rightarrow> extent \<Rightarrow> bits \<Rightarrow> bits \<Rightarrow> exn + point" where
  "candidate parent aux offset sz rect_gravity win_gravity =
     (case anchor_for aux rect_gravity of Inl e \<Rightarrow> Inl e
      | Inr anchor \<Rightarrow> case offset_for sz win_gravity of Inl e \<Rightarrow> Inl e
      | Inr d \<Rightarrow> Inr (point_plus (constrain_to parent (point_plus anchor offset)) d))"

text \<open>The first position at which the window is inside the output; a throw ends the search.\<close>

fun first_fit :: "rectangle \<Rightarrow> extent \<Rightarrow> (exn + point) list \<Rightarrow> exn + rectangle option" where
  "first_fit area sz [] = Inr None"
| "first_fit area sz (Inl e # ps) = Inl e"
| "first_fit area sz (Inr p # ps) =
     (if contains_rect area (Rectangle p sz) then Inr (Some (Rectangle p sz)) else first_fit area sz ps)"

definition flipped_candidates ::
  "rectangle \<Rightarrow> rectangle \<Rightarrow> displacement \<Rightarrow> extent \<Rightarrow> bits \<Rightarrow> bits \<Rightarrow> bits \<Rightarrow> (exn + point) list" where
  "flipped_candidates parent aux offset sz hints win_gravity rect_gravity =
     [candidate parent aux offset sz rect_gravity win_gravity] @
     (if hint_flip_x hints
      then [candidate parent aux (flip_x_displacement offset) sz (flip_x rect_gravity) (flip_x win_gravity)] else []) @
     (if hint_flip_y hints
      then [candidate parent aux (flip_y_displacement offset) sz (flip_y rect_gravity) (flip_y win_gravity)] else []) @
     (if hint_flip_x hints \<and> hint_flip_y hints
      then [candidate parent aux (flip_x_displacement (flip_y_displacement offset)) sz
              (flip_x (flip_y rect_gravity)) (flip_x (flip_y win_gravity))] else [])"

definition slide :: "rectangle \<Rightarrow> extent \<Rightarrow> bits \<Rightarrow> point \<Rightarrow> point" where
  "slide area sz hints p =
     (let p1 = (if hint_slide_x hints then
            let left_overhang = px p - px (top_left area);
                right_overhang = px p + width sz - px (top_right area)
            in if left_overhang < 0 then p\<lparr>px := px p - left_overhang\<rparr>
               else if right_overhang > 0 then p\<lparr>px := px p - right_overhang\<rparr> else p
          else p)
      in if hint_slide_y hints then
            let top_overhang = py p1 - py (top_left area);
                bot_overhang = py p1 + height sz - py (bottom_left area)
            in if top_overhang < 0 then p1\<lparr>py := py p1 - top_overhang\<rparr>
               else if bot_overhang > 0 then p1\<lparr>py := py p1 - bot_overhang\<rparr> else p1
          else p1)"

definition shrink :: "rectangle \<Rightarrow> bits \<Rightarrow> point \<times> extent \<Rightarrow> point \<times> extent" where
  "shrink area hints ps =
     (let (p, sz) = ps;
          (p1, s1) = (if hint_resize_x hints then
            let left_overhang = px p - px (top_left area);
                right_overhang = px p + width sz - px (top_right area);
                (q, t) = (if left_overhang < 0
                          then (p\<lparr>px := px p - left_overhang\<rparr>, Size (width sz + left_overhang) (height sz)) else (p, sz))
            in if right_overhang > 0 then (q, Size (width t - right_overhang) (height t)) else (q, t)
          else (p, sz))
      in if hint_resize_y hints then
            let top_overhang = py p1 - py (top_left area);
                bot_overhang = py p1 + height s1 - py (bottom_left area);
                (q, t) = (if top_overhang < 0
                          then (p1\<lparr>py := py p1 - top_overhang\<rparr>, Size (width s1) (height s1 + top_overhang)) else (p1, s1))
            in if bot_overhang > 0 then (q, Size (width t) (height t - bot_overhang)) else (q, t)
          else (p1, s1))"

text \<open>The third loop keeps the size it has shrunk for the next gravity.\<close>

fun resize_loop ::
  "rectangle \<Rightarrow> rectangle \<Rightarrow> rectangle \<Rightarrow> displacement \<Rightarrow> bits \<Rightarrow> bits \<Rightarrow> bits list \<Rightarrow> extent \<Rightarrow> exn + rectangle option" where
  "resize_loop area parent aux offset hints win_gravity [] sz = Inr None"
| "resize_loop area parent aux offset hints win_gravity (g # gs) sz =
     (case candidate parent aux offset sz g win_gravity of Inl e \<Rightarrow> Inl e
      | Inr p \<Rightarrow> (case shrink area hints (p, sz) of (q, t) \<Rightarrow>
          if contains_rect area (Rectangle q t) then Inr (Some (Rectangle q t))
          else resize_loop area parent aux offset hints win_gravity gs t))"

definition requested_size :: "relative_placement \<Rightarrow> extent \<Rightarrow> extent" where
  "requested_size params sz = (case placement_size params of Some s \<Rightarrow> s | None \<Rightarrow> sz)"

definition requested_offset :: "relative_placement \<Rightarrow> displacement" where
  "requested_offset params = (case aux_rect_placement_offset params of Some d \<Rightarrow> d | None \<Rightarrow> Displacement 0 0)"

definition absolute_aux :: "rectangle \<Rightarrow> relative_placement \<Rightarrow> rectangle" where
  "absolute_aux parent params =
     (aux_rect params)\<lparr>top_left := point_plus (top_left (aux_rect params)) (point_diff (top_left parent) (Point 0 0))\<rparr>"

definition rect_gravities :: "relative_placement \<Rightarrow> bits list" where
  "rect_gravities params = aux_rect_placement_gravity params #
     (if hint_antipodes (placement_hints params) then [antipodes (aux_rect_placement_gravity params)] else [])"

text \<open>The preferred position, with the gravities as requested: \<open>default_result\<close>.\<close>

definition preferred :: "rectangle \<Rightarrow> relative_placement \<Rightarrow> extent \<Rightarrow> exn + point" where
  "preferred parent params size0 =
     candidate parent (absolute_aux parent params) (requested_offset params) (requested_size params size0)
       (aux_rect_placement_gravity params) (window_placement_gravity params)"

text \<open>The three loops.\<close>

definition flip_phase :: "rectangle \<Rightarrow> rectangle \<Rightarrow> relative_placement \<Rightarrow> extent \<Rightarrow> exn + rectangle option" where
  "flip_phase area parent params size0 =
     first_fit area (requested_size params size0)
       (concat (map (flipped_candidates parent (absolute_aux parent params) (requested_offset params)
          (requested_size params size0) (placement_hints params) (window_placement_gravity params))
        (rect_gravities params)))"

definition slide_phase :: "rectangle \<Rightarrow> rectangle \<Rightarrow> relative_placement \<Rightarrow> extent \<Rightarrow> exn + rectangle option" where
  "slide_phase area parent params size0 =
     first_fit area (requested_size params size0)
       (map (\<lambda>g. map_sum id (slide area (requested_size params size0) (placement_hints params))
          (candidate parent (absolute_aux parent params) (requested_offset params) (requested_size params size0) g
             (window_placement_gravity params)))
        (rect_gravities params))"

definition resize_phase :: "rectangle \<Rightarrow> rectangle \<Rightarrow> relative_placement \<Rightarrow> extent \<Rightarrow> exn + rectangle option" where
  "resize_phase area parent params size0 =
     resize_loop area parent (absolute_aux parent params) (requested_offset params) (placement_hints params)
       (window_placement_gravity params) (rect_gravities params) (requested_size params size0)"

definition place_relative :: "rectangle \<Rightarrow> rectangle \<Rightarrow> relative_placement \<Rightarrow> extent \<Rightarrow> exn + rectangle option" where
  "place_relative active_output_area parent params size0 =
     (case flip_phase active_output_area parent params size0 of
        Inl e \<Rightarrow> Inl e
      | Inr (Some r) \<Rightarrow> Inr (Some r)
      | Inr None \<Rightarrow>
     (case slide_phase active_output_area parent params size0 of
        Inl e \<Rightarrow> Inl e
      | Inr (Some r) \<Rightarrow> Inr (Some r)
      | Inr None \<Rightarrow>
     (case resize_phase active_output_area parent params size0 of
        Inl e \<Rightarrow> Inl e
      | Inr (Some r) \<Rightarrow> Inr (Some r)
      | Inr None \<Rightarrow>
     (case preferred parent params size0 of
        Inl e \<Rightarrow> Inl e
      | Inr p \<Rightarrow> Inr (Some (Rectangle p (requested_size params size0)))))))"

section \<open>Attached windows and application zones\<close>

text \<open>
  The rectangle that \<open>place_attached_to_zone\<close> asks the policy to confirm, from the window's state,
  attached edges, position and size; \<open>None\<close> is the fatal error for any other state.
\<close>

definition attached_placement :: "('w, 'u) window_info \<Rightarrow> rectangle \<Rightarrow> rectangle \<Rightarrow> rectangle option" where
  "attached_placement info application_zone output_area =
     (let tl = window_top_left info; sz = window_size info; edges = attached_edges info in
      case wi_state info of
        State_maximized \<Rightarrow> Some (Rectangle (top_left application_zone) (rsize application_zone))
      | State_horizmaximized \<Rightarrow>
          Some (Rectangle (tl\<lparr>px := px (top_left application_zone)\<rparr>) (sz\<lparr>width := width (rsize application_zone)\<rparr>))
      | State_vertmaximized \<Rightarrow>
          Some (Rectangle (tl\<lparr>py := py (top_left application_zone)\<rparr>) (sz\<lparr>height := height (rsize application_zone)\<rparr>))
      | State_attached \<Rightarrow>
          (let span_x = (has_west edges \<and> has_east edges);
               span_y = (has_north edges \<and> has_south edges);
               zone_left = (if span_x then left output_area else left application_zone);
               zone_width = (if span_x then width (rsize output_area) else width (rsize application_zone));
               w = (if span_x then zone_width else width sz);
               zone_top = (if span_y then top_y output_area else top_y application_zone);
               zone_height = (if span_y then height (rsize output_area) else height (rsize application_zone));
               h = (if span_y then zone_height else height sz);
               x = (if has_west edges then zone_left
                    else if has_east edges then zone_left + zone_width - (w - 0)
                    else zone_left + half (zone_width - w));
               y = (if has_north edges then zone_top
                    else if has_south edges then zone_top + zone_height - (h - 0)
                    else zone_top + half (zone_height - h))
           in Some (Rectangle (Point x y) (Size w h)))
      | _ \<Rightarrow> None)"

definition without_opposites :: "bits \<Rightarrow> bits" where
  "without_opposites edges =
     (let e1 = (if has_west edges \<and> has_east edges then unset_bit 1 (unset_bit 0 edges) else edges)
      in if has_north e1 \<and> has_south e1 then unset_bit 3 (unset_bit 2 e1) else e1)"

definition apply_exclusive_rect_to_application_zone :: "rectangle \<Rightarrow> rectangle \<Rightarrow> bits \<Rightarrow> rectangle" where
  "apply_exclusive_rect_to_application_zone zone exclusive edges0 =
     (let edges = without_opposites edges0 in
      if edges = gravity_west then
        Rectangle (Point (right exclusive) (top_y zone)) (Size (right zone - right exclusive) (height (rsize zone)))
      else if edges = gravity_east then
        Rectangle (top_left zone) (Size (left exclusive - left zone) (height (rsize zone)))
      else if edges = gravity_north then
        Rectangle (Point (left zone) (bottom exclusive)) (Size (width (rsize zone)) (bottom zone - bottom exclusive))
      else if edges = gravity_south then
        Rectangle (top_left zone) (Size (width (rsize zone)) (top_y exclusive - top_y zone))
      else zone)"

section \<open>Placement for a new state, and dragging\<close>

text \<open>The rectangle a window would be restored to, given its current position.\<close>

definition current_restore_rect :: "('w, 'u) window_info \<Rightarrow> rectangle" where
  "current_restore_rect info =
     (let r = restore_rect info; tl = window_top_left info; sz = window_size info in
      case wi_state info of
        State_restored \<Rightarrow> Rectangle tl sz
      | State_hidden \<Rightarrow> Rectangle tl sz
      | State_vertmaximized \<Rightarrow> Rectangle ((top_left r)\<lparr>px := px tl\<rparr>) ((rsize r)\<lparr>width := width sz\<rparr>)
      | State_horizmaximized \<Rightarrow> Rectangle ((top_left r)\<lparr>py := py tl\<rparr>) ((rsize r)\<lparr>height := height sz\<rparr>)
      | _ \<Rightarrow> r)"

text \<open>
  The position and size written into the modifications; \<open>None\<close> when they are left as they are.
  \<open>zone\<close> and \<open>area\<close> are the application zone and the area of the window's display area, and
  \<open>confirm\<close> is the policy's \<open>confirm_placement_on_display\<close> for this window.
\<close>

definition place_and_size_for_state ::
  "(window_state \<Rightarrow> rectangle \<Rightarrow> rectangle) \<Rightarrow> rectangle \<Rightarrow> rectangle \<Rightarrow> 'v window_specification
     \<Rightarrow> ('w, 'u) window_info \<Rightarrow> rectangle option" where
  "place_and_size_for_state confirm zone area mods info =
     (case sp_state mods of None \<Rightarrow> None
      | Some new_state \<Rightarrow>
        let other_output = (new_state = State_fullscreen \<and> sp_output_id mods \<noteq> None \<and>
              (wi_output_id info = None \<or> sp_output_id mods \<noteq> wi_output_id info))
        in if \<not> other_output \<and> new_state = wi_state info then None
        else
          let r0 = current_restore_rect info;
              restore = Rectangle (case sp_top_left mods of Some p \<Rightarrow> p | None \<Rightarrow> top_left r0)
                          (case sp_size mods of Some s \<Rightarrow> s | None \<Rightarrow> rsize r0)
          in case new_state of
               State_restored \<Rightarrow> Some restore
             | State_maximized \<Rightarrow> Some (confirm new_state zone)
             | State_horizmaximized \<Rightarrow> Some (confirm new_state
                 (Rectangle (Point (left zone) (top_y restore)) (Size (width (rsize zone)) (height (rsize restore)))))
             | State_vertmaximized \<Rightarrow> Some (confirm new_state
                 (Rectangle (Point (left restore) (top_y zone)) (Size (width (rsize restore)) (height (rsize zone)))))
             | State_fullscreen \<Rightarrow> Some (confirm new_state area)
             | _ \<Rightarrow> None)"

text \<open>The movement \<open>drag_window\<close> passes to \<open>move_tree\<close>; \<open>None\<close> when it returns without moving.\<close>

definition drag_movement :: "window_type \<Rightarrow> window_state \<Rightarrow> displacement \<Rightarrow> displacement option" where
  "drag_movement ty st movement =
     (if ty \<in> {Type_normal, Type_utility, Type_dialog, Type_satellite, Type_freestyle} then
        (case st of
           State_restored \<Rightarrow> Some movement
         | State_vertmaximized \<Rightarrow> Some (movement\<lparr>dy := 0\<rparr>)
         | State_horizmaximized \<Rightarrow> Some (movement\<lparr>dx := 0\<rparr>)
         | _ \<Rightarrow> None)
      else None)"

section \<open>Gravities mirror\<close>

definition good_gravity :: "bits \<Rightarrow> bool" where
  "good_gravity g \<longleftrightarrow> g \<in> {0, 1, 2, 4, 5, 6, 8, 9, 10}"

lemma good_gravity_iff:
  "anchor_for r g = Inl e \<longleftrightarrow> \<not> good_gravity g \<and> e = bad_gravity"
  "offset_for sz g = Inl e \<longleftrightarrow> \<not> good_gravity g \<and> e = bad_gravity"
  by (auto simp: anchor_for_def offset_for_def good_gravity_def Let_def)

lemma good_gravity_Inr:
  "anchor_for r g = Inr p \<Longrightarrow> good_gravity g" "offset_for sz g = Inr d \<Longrightarrow> good_gravity g"
  by (metis good_gravity_iff(1) sum.distinct(1), metis good_gravity_iff(2) sum.distinct(1))

lemma good_gravity_flip [simp]:
  "good_gravity (flip_x g) = good_gravity g" "good_gravity (flip_y g) = good_gravity g"
  "good_gravity (antipodes g) = good_gravity g"
  by (auto simp: good_gravity_def flip_x_def flip_y_def antipodes_def)

lemma flip_involution: "flip_x (flip_x g) = g" "flip_y (flip_y g) = g" "antipodes (antipodes g) = g"
  by (auto simp: flip_x_def flip_y_def antipodes_def)

lemma antipodes_flips: "antipodes g = flip_x (flip_y g)"
  by (auto simp: flip_x_def flip_y_def antipodes_def)

lemma candidate_Inl:
  "candidate parent aux offset sz rg wg = Inl e \<longleftrightarrow> (\<not> good_gravity rg \<or> \<not> good_gravity wg) \<and> e = bad_gravity"
  by (auto simp: candidate_def good_gravity_iff good_gravity_Inr split: sum.splits)

lemma candidate_Inr:
  "good_gravity rg \<Longrightarrow> good_gravity wg \<Longrightarrow> \<exists>p. candidate parent aux offset sz rg wg = Inr p"
  by (metis candidate_Inl sum.exhaust)

section \<open>The search for a position\<close>

lemma first_fit_no_throw:
  "(\<And>q. q \<in> set ps \<Longrightarrow> \<exists>p. q = Inr p) \<Longrightarrow> \<exists>r. first_fit area sz ps = Inr r"
proof (induction ps)
  case (Cons q ps)
  then obtain p where "q = Inr p" by auto
  with Cons show ?case by auto
qed simp

lemma first_fit_Some:
  "first_fit area sz ps = Inr (Some r) \<Longrightarrow> contains_rect area r \<and> rsize r = sz"
  by (induction area sz ps rule: first_fit.induct) (auto split: if_splits)

lemma first_fit_None:
  "first_fit area sz ps = Inr None \<Longrightarrow> Inr p \<in> set ps \<Longrightarrow> \<not> contains_rect area (Rectangle p sz)"
  by (induction area sz ps rule: first_fit.induct) (auto split: if_splits)

lemma resize_loop_Some:
  "resize_loop area parent aux offset hints wg gs sz = Inr (Some r) \<Longrightarrow> contains_rect area r"
  by (induction area parent aux offset hints wg gs sz rule: resize_loop.induct)
    (auto split: if_splits sum.splits prod.splits)

lemma resize_loop_no_throw:
  "\<forall>g\<in>set gs. good_gravity g \<Longrightarrow> good_gravity wg \<Longrightarrow> \<exists>r. resize_loop area parent aux offset hints wg gs sz = Inr r"
  by (induction area parent aux offset hints wg gs sz rule: resize_loop.induct)
    (auto simp: candidate_Inl split: sum.splits prod.splits)

lemma shrink_keeps:
  "\<not> hint_resize_x hints \<Longrightarrow> \<not> hint_resize_y hints \<Longrightarrow> shrink area hints ps = ps"
  by (simp add: shrink_def split: prod.splits)

lemma resize_loop_keeps_size:
  "\<not> hint_resize_x hints \<Longrightarrow> \<not> hint_resize_y hints \<Longrightarrow>
   resize_loop area parent aux offset hints wg gs sz = Inr (Some r) \<Longrightarrow> rsize r = sz"
  by (induction area parent aux offset hints wg gs sz rule: resize_loop.induct)
    (auto simp: shrink_keeps split: if_splits sum.splits)

lemma slide_onto:
  assumes "hint_slide_x hints" "hint_slide_y hints" "width sz \<le> width (rsize area)" "height sz \<le> height (rsize area)"
  shows "contains_rect area (Rectangle (slide area sz hints p) sz)"
  using assms by (auto simp: slide_def contains_rect_def left_def top_y_def top_right_def bottom_left_def Let_def)

lemma rect_gravities_good:
  "good_gravity (aux_rect_placement_gravity params) \<Longrightarrow> g \<in> set (rect_gravities params) \<Longrightarrow> good_gravity g"
  by (auto simp: rect_gravities_def split: if_splits)

lemma flipped_candidates_Inr:
  assumes "good_gravity g" "good_gravity wg" "q \<in> set (flipped_candidates parent aux offset sz hints wg g)"
  shows "\<exists>p. q = Inr p"
  using assms by (auto simp: flipped_candidates_def candidate_Inr split: if_splits)

lemma flipped_candidates_head:
  "\<exists>ps. flipped_candidates parent aux offset sz hints wg g = candidate parent aux offset sz g wg # ps"
  by (simp add: flipped_candidates_def)

lemma flip_phase_head:
  "\<exists>ps. flip_phase area parent params size0 =
     first_fit area (requested_size params size0) (preferred parent params size0 # ps)"
proof -
  obtain ps where "flipped_candidates parent (absolute_aux parent params) (requested_offset params)
      (requested_size params size0) (placement_hints params) (window_placement_gravity params)
      (aux_rect_placement_gravity params) = preferred parent params size0 # ps"
    using flipped_candidates_head unfolding preferred_def by blast
  then show ?thesis by (simp add: flip_phase_def rect_gravities_def) blast
qed

text \<open>With usable gravities no phase throws.\<close>

lemma phases_return:
  assumes "good_gravity (aux_rect_placement_gravity params)" "good_gravity (window_placement_gravity params)"
  shows "\<exists>a. flip_phase area parent params size0 = Inr a"
    and "\<exists>b. slide_phase area parent params size0 = Inr b"
    and "\<exists>c. resize_phase area parent params size0 = Inr c"
    and "\<exists>p. preferred parent params size0 = Inr p"
proof -
  show "\<exists>a. flip_phase area parent params size0 = Inr a"
    unfolding flip_phase_def
  proof (intro first_fit_no_throw)
    fix q
    assume "q \<in> set (concat (map (flipped_candidates parent (absolute_aux parent params) (requested_offset params)
      (requested_size params size0) (placement_hints params) (window_placement_gravity params)) (rect_gravities params)))"
    then obtain g where g: "g \<in> set (rect_gravities params)"
      and q: "q \<in> set (flipped_candidates parent (absolute_aux parent params) (requested_offset params)
        (requested_size params size0) (placement_hints params) (window_placement_gravity params) g)" by auto
    show "\<exists>p. q = Inr p" by (rule flipped_candidates_Inr [OF rect_gravities_good [OF assms(1) g] assms(2) q])
  qed
  show "\<exists>b. slide_phase area parent params size0 = Inr b"
    unfolding slide_phase_def
  proof (intro first_fit_no_throw)
    fix q
    assume "q \<in> set (map (\<lambda>g. map_sum id (slide area (requested_size params size0) (placement_hints params))
          (candidate parent (absolute_aux parent params) (requested_offset params) (requested_size params size0) g
             (window_placement_gravity params))) (rect_gravities params))"
    then obtain g where g: "g \<in> set (rect_gravities params)"
      and q: "q = map_sum id (slide area (requested_size params size0) (placement_hints params))
        (candidate parent (absolute_aux parent params) (requested_offset params) (requested_size params size0) g
          (window_placement_gravity params))" by auto
    obtain p where "candidate parent (absolute_aux parent params) (requested_offset params) (requested_size params size0) g
          (window_placement_gravity params) = Inr p"
      using candidate_Inr [OF rect_gravities_good [OF assms(1) g] assms(2)] by blast
    then show "\<exists>p. q = Inr p" using q by simp
  qed
  show "\<exists>c. resize_phase area parent params size0 = Inr c"
    unfolding resize_phase_def using assms rect_gravities_good by (intro resize_loop_no_throw) blast+
  show "\<exists>p. preferred parent params size0 = Inr p"
    unfolding preferred_def by (rule candidate_Inr [OF assms])
qed

text \<open>What each phase may return.\<close>

lemma phase_results:
  "flip_phase area parent params size0 = Inr (Some r) \<Longrightarrow> contains_rect area r \<and> rsize r = requested_size params size0"
  "slide_phase area parent params size0 = Inr (Some r) \<Longrightarrow> contains_rect area r \<and> rsize r = requested_size params size0"
  "resize_phase area parent params size0 = Inr (Some r) \<Longrightarrow> contains_rect area r"
  "\<not> hint_resize_x (placement_hints params) \<Longrightarrow> \<not> hint_resize_y (placement_hints params) \<Longrightarrow>
   resize_phase area parent params size0 = Inr (Some r) \<Longrightarrow> rsize r = requested_size params size0"
  unfolding flip_phase_def slide_phase_def resize_phase_def
  by (simp_all add: first_fit_Some resize_loop_Some resize_loop_keeps_size)

lemma place_relative_cases:
  assumes "good_gravity (aux_rect_placement_gravity params)" "good_gravity (window_placement_gravity params)"
  obtains (flip) r where "place_relative area parent params size0 = Inr (Some r)"
      "flip_phase area parent params size0 = Inr (Some r)"
  | (slide) r where "place_relative area parent params size0 = Inr (Some r)"
      "flip_phase area parent params size0 = Inr None" "slide_phase area parent params size0 = Inr (Some r)"
  | (resize) r where "place_relative area parent params size0 = Inr (Some r)"
      "flip_phase area parent params size0 = Inr None" "slide_phase area parent params size0 = Inr None"
      "resize_phase area parent params size0 = Inr (Some r)"
  | (default) p where "place_relative area parent params size0 = Inr (Some (Rectangle p (requested_size params size0)))"
      "flip_phase area parent params size0 = Inr None" "slide_phase area parent params size0 = Inr None"
      "preferred parent params size0 = Inr p"
proof -
  obtain a where a: "flip_phase area parent params size0 = Inr a" using phases_return(1) [OF assms] by blast
  obtain b where b: "slide_phase area parent params size0 = Inr b" using phases_return(2) [OF assms] by blast
  obtain c where c: "resize_phase area parent params size0 = Inr c" using phases_return(3) [OF assms] by blast
  obtain p where p: "preferred parent params size0 = Inr p" using phases_return(4) [OF assms] by blast
  show ?thesis
    using a b c p that by (cases a; cases b; cases c) (simp_all add: place_relative_def)
qed

lemma half_between: "0 \<le> n \<Longrightarrow> 0 \<le> half n \<and> half n \<le> n"
  by (auto simp: half_def trunc_div_nonneg)

lemma exclusive_zone_edges:
  assumes "without_opposites edges \<in> {gravity_west, gravity_east, gravity_north, gravity_south}"
  shows "pixels (apply_exclusive_rect_to_application_zone zone exclusive edges) \<inter> pixels exclusive = {}"
  using assms by (auto simp: apply_exclusive_rect_to_application_zone_def Let_def mem_pixels geom_simps)

lemma exclusive_zone_inside:
  assumes "contains_rect zone exclusive" "0 \<le> width (rsize exclusive)" "0 \<le> height (rsize exclusive)"
  shows "contains_rect zone (apply_exclusive_rect_to_application_zone zone exclusive edges)"
  using assms by (auto simp: apply_exclusive_rect_to_application_zone_def Let_def contains_rect_def geom_simps)

text \<open>
  A window whose preferred position lies wholly beyond the output is shrunk to a negative width that
  still passes the test for being inside the output.
\<close>

lemma resize_hint_gives_negative_width:
  "place_relative (Rectangle (Point 0 0) (Size 100 100)) (Rectangle (Point 200 0) (Size 50 50))
     \<lparr>placement_hints = 16, window_placement_gravity = gravity_northwest, placement_size = None,
       aux_rect_placement_offset = None, aux_rect = Rectangle (Point 0 0) (Size 10 10),
       aux_rect_placement_gravity = gravity_northwest\<rparr> (Size 20 20)
   = Inr (Some (Rectangle (Point 200 0) (Size (- 100) 20)))"
  by code_simp

definition sample_placement :: relative_placement where
  "sample_placement = \<lparr>placement_hints = 12, window_placement_gravity = gravity_northwest, placement_size = None,
     aux_rect_placement_offset = None, aux_rect = Rectangle (Point 0 0) (Size 10 10),
     aux_rect_placement_gravity = gravity_southeast\<rparr>"

lemma sample_bits: "bit (Suc 0) 0"
  by code_simp

lemma without_opposites_north: "without_opposites 7 = gravity_north"
  by code_simp

section \<open>Properties\<close>

text \<open>
  With usable gravities \<open>place_relative\<close> always finds a rectangle.  It is inside the active output,
  or else it is the preferred rectangle (the one of the requested gravities and offset, with the
  requested size); it is the preferred rectangle whenever that is inside the output; and without a
  resize hint it has the requested size.
\<close>

theorem place_relative_result:
  assumes "good_gravity (aux_rect_placement_gravity params)" "good_gravity (window_placement_gravity params)"
  shows "\<exists>p r. preferred parent params size0 = Inr p \<and> place_relative area parent params size0 = Inr (Some r) \<and>
     (contains_rect area r \<or> r = Rectangle p (requested_size params size0)) \<and>
     (contains_rect area (Rectangle p (requested_size params size0)) \<longrightarrow> r = Rectangle p (requested_size params size0)) \<and>
     (\<not> hint_resize_x (placement_hints params) \<and> \<not> hint_resize_y (placement_hints params) \<longrightarrow>
        rsize r = requested_size params size0)"
proof -
  obtain p where p: "preferred parent params size0 = Inr p" using phases_return(4) [OF assms] by blast
  obtain ps where f: "flip_phase area parent params size0 =
      first_fit area (requested_size params size0) (Inr p # ps)" using flip_phase_head p by metis
  from assms show ?thesis
  proof (cases rule: place_relative_cases [of params area parent size0])
    case (flip r)
    then show ?thesis using p f phase_results(1) by (fastforce split: if_splits)
  next
    case (slide r)
    then show ?thesis using p f phase_results(2) by (fastforce split: if_splits)
  next
    case (resize r)
    then show ?thesis using p f phase_results(3,4) by (fastforce split: if_splits)
  next
    case (default q)
    then show ?thesis using p by auto
  qed
qed

theorem place_relative_result_witness:
  "\<exists>p r. preferred (Rectangle (Point 50 50) (Size 40 40)) sample_placement (Size 20 20) = Inr p \<and>
     place_relative (Rectangle (Point 0 0) (Size 100 100)) (Rectangle (Point 50 50) (Size 40 40)) sample_placement (Size 20 20)
       = Inr (Some r) \<and> rsize r = Size 20 20"
  using place_relative_result [of sample_placement "Rectangle (Point 50 50) (Size 40 40)" "Size 20 20" "Rectangle (Point 0 0) (Size 100 100)"]
  by (auto simp: sample_placement_def good_gravity_def requested_size_def)

text \<open>
  A window that is not larger than the active output and asks to be slid in both directions is
  always placed inside the output, wherever its parent is; and a gravity that is no combination of
  one horizontal and one vertical edge is refused with an exception, before any placement.
\<close>

theorem place_relative_slides_onto_output:
  assumes "hint_slide_x (placement_hints params)" "hint_slide_y (placement_hints params)"
    and "width (requested_size params size0) \<le> width (rsize area)"
    and "height (requested_size params size0) \<le> height (rsize area)"
  shows "if good_gravity (aux_rect_placement_gravity params) \<and> good_gravity (window_placement_gravity params)
     then \<exists>r. place_relative area parent params size0 = Inr (Some r) \<and> contains_rect area r \<and>
            rsize r = requested_size params size0
     else place_relative area parent params size0 = Inl bad_gravity"
proof (cases "good_gravity (aux_rect_placement_gravity params) \<and> good_gravity (window_placement_gravity params)")
  case True
  then have g: "good_gravity (aux_rect_placement_gravity params)" "good_gravity (window_placement_gravity params)" by auto
  obtain p where p: "preferred parent params size0 = Inr p" using phases_return(4) [OF g] by blast
  have "slide_phase area parent params size0 \<noteq> Inr None"
  proof
    assume n: "slide_phase area parent params size0 = Inr None"
    have "Inr (slide area (requested_size params size0) (placement_hints params) p) \<in>
        set (map (\<lambda>g. map_sum id (slide area (requested_size params size0) (placement_hints params))
          (candidate parent (absolute_aux parent params) (requested_offset params) (requested_size params size0) g
             (window_placement_gravity params))) (rect_gravities params))"
      using p by (simp add: rect_gravities_def preferred_def)
    then show False
      using first_fit_None [OF n [unfolded slide_phase_def]] slide_onto [OF assms, of p] by blast
  qed
  then have "\<exists>r. place_relative area parent params size0 = Inr (Some r) \<and> contains_rect area r \<and> rsize r = requested_size params size0"
    using phase_results(1,2) by (cases rule: place_relative_cases [OF g, of area parent size0]) auto
  with True show ?thesis by simp
next
  case False
  then have "preferred parent params size0 = Inl bad_gravity" unfolding preferred_def candidate_Inl by simp
  then have "flip_phase area parent params size0 = Inl bad_gravity"
    using flip_phase_head [of area parent params size0] by auto
  with False show ?thesis by (simp add: place_relative_def)
qed

theorem place_relative_slides_onto_output_witness:
  "\<exists>r. place_relative (Rectangle (Point 0 0) (Size 100 100)) (Rectangle (Point 500 50) (Size 40 40)) sample_placement (Size 20 20)
       = Inr (Some r) \<and> contains_rect (Rectangle (Point 0 0) (Size 100 100)) r"
  using place_relative_slides_onto_output [of sample_placement "Size 20 20" "Rectangle (Point 0 0) (Size 100 100)"
      "Rectangle (Point 500 50) (Size 40 40)"]
  by (auto simp: sample_placement_def good_gravity_def requested_size_def sample_bits)

text \<open>
  Applying an exclusive rectangle to an application zone keeps the zone clear of it: for a window
  attached to one edge (opposite edges cancel out), the new zone shares no pixel with the exclusive
  rectangle, and if that was inside the zone the new zone is inside the old one.  A window attached to
  no edge, to a corner or only to opposite edges leaves the zone as it is.
\<close>

theorem exclusive_zone_is_kept_clear:
  assumes "contains_rect zone exclusive" "0 \<le> width (rsize exclusive)" "0 \<le> height (rsize exclusive)"
  shows "contains_rect zone (apply_exclusive_rect_to_application_zone zone exclusive edges) \<and>
     (if without_opposites edges \<in> {gravity_west, gravity_east, gravity_north, gravity_south}
      then pixels (apply_exclusive_rect_to_application_zone zone exclusive edges) \<inter> pixels exclusive = {}
      else apply_exclusive_rect_to_application_zone zone exclusive edges = zone)"
  using exclusive_zone_inside [OF assms] exclusive_zone_edges [of edges zone exclusive]
  by (auto simp: apply_exclusive_rect_to_application_zone_def Let_def)

theorem exclusive_zone_is_kept_clear_witness:
  "pixels (apply_exclusive_rect_to_application_zone (Rectangle (Point 0 0) (Size 100 100))
     (Rectangle (Point 0 0) (Size 100 10)) 7) \<inter> pixels (Rectangle (Point 0 0) (Size 100 10)) = {}"
  using exclusive_zone_is_kept_clear [of "Rectangle (Point 0 0) (Size 100 100)" "Rectangle (Point 0 0) (Size 100 10)" 7]
  by (simp add: contains_rect_def geom_simps without_opposites_north)

text \<open>
  A window attached to edges of a zone, and not larger than the zone, is placed inside it and
  touches the edges it is attached to; attached to both opposite edges it takes the whole extent of
  the output in that direction instead.  Maximised windows take the extent of the zone.
\<close>

theorem attached_window_touches_its_edges:
  assumes "wi_state info = State_attached" "contains_rect output zone"
    and "0 \<le> width (window_size info)" "width (window_size info) \<le> width (rsize zone)"
    and "0 \<le> height (window_size info)" "height (window_size info) \<le> height (rsize zone)"
  shows "\<exists>r. attached_placement info zone output = Some r \<and> contains_rect output r \<and>
     (if has_west (attached_edges info) \<and> has_east (attached_edges info)
      then left r = left output \<and> right r = right output
      else left zone \<le> left r \<and> right r \<le> right zone \<and> width (rsize r) = width (window_size info) \<and>
        (has_west (attached_edges info) \<longrightarrow> left r = left zone) \<and> (has_east (attached_edges info) \<longrightarrow> right r = right zone)) \<and>
     (if has_north (attached_edges info) \<and> has_south (attached_edges info)
      then top_y r = top_y output \<and> bottom r = bottom output
      else top_y zone \<le> top_y r \<and> bottom r \<le> bottom zone \<and> height (rsize r) = height (window_size info) \<and>
        (has_north (attached_edges info) \<longrightarrow> top_y r = top_y zone) \<and> (has_south (attached_edges info) \<longrightarrow> bottom r = bottom zone))"
proof -
  have "0 \<le> half (width (rsize zone) - width (window_size info))"
    "half (width (rsize zone) - width (window_size info)) \<le> width (rsize zone) - width (window_size info)"
    "0 \<le> half (height (rsize zone) - height (window_size info))"
    "half (height (rsize zone) - height (window_size info)) \<le> height (rsize zone) - height (window_size info)"
    using half_between assms by simp_all
  then show ?thesis
    using assms by (auto simp: attached_placement_def Let_def contains_rect_def geom_simps)
qed

theorem attached_window_touches_its_edges_witness:
  "\<exists>r. attached_placement (plain_window\<lparr>wi_state := State_attached, attached_edges := gravity_south\<rparr>)
     (Rectangle (Point 0 10) (Size 100 90)) (Rectangle (Point 0 0) (Size 100 100)) = Some r \<and> bottom r = 100"
  using attached_window_touches_its_edges [of "plain_window\<lparr>wi_state := State_attached, attached_edges := gravity_south\<rparr>"
      "Rectangle (Point 0 0) (Size 100 100)" "Rectangle (Point 0 10) (Size 100 90)"]
  by (auto simp: window_samples contains_rect_def geom_simps sample_bits)

end
