(* ===== verification/Window_Trees.thy ===== *)
theory Window_Trees
  imports Loops Window_Placement
begin

text \<open>
  The state of \<open>miral::BasicWindowManager\<close> (\<open>src/miral/basic_window_manager.cpp\<close>) and its operations on trees of
  windows: raising, moving and layering a window with its children, and \<open>select_active_window\<close>, which
  decides where the focus goes.

  Windows, applications and workspaces are numbers, in the order of the pointers that the code's maps and
  sets are sorted by.  What the window manager reads back from the surface of a window (its position and
  size, in the window's information; its state attribute, whether it is hidden, whether it has
  content, its depth layer) is part of the state.  The calls on the policy, on the focus controller and on
  surfaces whose results are not used are recorded in order.  Links between windows may form cycles, so the
  functions that follow them are partial; looking up an unknown window throws.
\<close>

section \<open>State\<close>

type_synonym window = nat
type_synonym application = nat
type_synonym workspace = nat
type_synonym 'u info = "(window, 'u) window_info"

record miral_output =
  output_card :: int
  output_id :: int
  output_extents :: rectangle

record display_area =
  area_rect :: rectangle
  application_zone :: rectangle
  area_output :: "miral_output option"
  attached_windows :: "window list"

datatype wm_call =
    Advise_new_app application | Advise_delete_app application
  | Advise_new_window window | Advise_delete_window window
  | Advise_focus_lost window | Advise_focus_gained window
  | Advise_state_change window window_state
  | Advise_move_to window point | Advise_resize window extent
  | Advise_raise "window list" | Raise "window list"
  | Advise_adding_to_workspace workspace "window list" | Advise_removing_from_workspace workspace "window list"
  | Advise_application_zone_create rectangle | Advise_application_zone_update rectangle rectangle
  | Advise_application_zone_delete rectangle
  | Advise_output_create miral_output | Advise_output_update miral_output miral_output | Advise_output_delete miral_output
  | Set_focus_to "application option" "window option"
  | Destroy_surface window | Rename window string | Set_input_region window "rectangle list"
  | Configure_type window window_type | Set_application_id window string | Placed_relative_to_parent window rectangle | Confine_pointer window pointer_confinement

record 'u window_manager =
  app_info :: "application \<Rightarrow> window list option"
  window_info :: "window \<Rightarrow> 'u info option"
  window_application :: "window \<Rightarrow> application"
  surface_state :: "window \<Rightarrow> window_state"
  surface_hidden :: "window \<Rightarrow> bool"
  surface_posted :: "window \<Rightarrow> bool"
  surface_layer :: "window \<Rightarrow> depth_layer"
  mru_active_windows :: "window list"
  allow_active_window :: bool
  fullscreen_surfaces :: "window list"
  display_areas :: "display_area list"
  outputs :: "rectangle list"
  workspaces_to_windows :: "(workspace \<times> window) list"
  dead_workspaces :: "workspace list"
  wm_cursor :: point
  last_input_event_timestamp :: nat
  last_input_event :: bool
  focused_session :: "application option"
  focused_surface :: "window option"
  calls :: "wm_call list"

type_synonym ('u, 'a) wm_run = "('u window_manager, 'a) run"

definition call :: "wm_call \<Rightarrow> 'u window_manager \<Rightarrow> 'u window_manager" where
  "call c wm = wm\<lparr>calls := calls wm @ [c]\<rparr>"

text \<open>The focus controller is told where the focus goes, and answers what it was told last.\<close>

definition focus_on :: "application option \<Rightarrow> window option \<Rightarrow> 'u window_manager \<Rightarrow> 'u window_manager" where
  "focus_on s w wm = call (Set_focus_to s w) (wm\<lparr>focused_session := s, focused_surface := w\<rparr>)"

definition unknown_key :: exn where
  "unknown_key = Out_of_range ''map::at''"

definition info_for :: "window \<Rightarrow> 'u window_manager \<Rightarrow> ('u, 'u info) wm_run" where
  "info_for w wm = (case window_info wm w of Some i \<Rightarrow> Some (ret i wm) | None \<Rightarrow> Some (throw unknown_key wm))"

definition put_info :: "window \<Rightarrow> 'u info \<Rightarrow> 'u window_manager \<Rightarrow> 'u window_manager" where
  "put_info w i wm = wm\<lparr>window_info := (window_info wm)(w := Some i)\<rparr>"

definition children_of :: "'u window_manager \<Rightarrow> window \<Rightarrow> window list option" where
  "children_of wm w = map_option wi_children (window_info wm w)"

definition parent_window :: "'u window_manager \<Rightarrow> window \<Rightarrow> window option" where
  "parent_window wm w = Option.bind (window_info wm w) wi_parent"

definition window_visible :: "'u window_manager \<Rightarrow> window \<Rightarrow> 'u info \<Rightarrow> bool" where
  "window_visible wm w info = is_visible (Some (\<not> surface_hidden wm w \<and> surface_posted wm w)) (wi_state info)"

definition active_window :: "'u window_manager \<Rightarrow> window option" where
  "active_window wm = (if allow_active_window wm then mru_top (surface_state wm) (mru_active_windows wm) else None)"

section \<open>Raising, moving and layering a tree\<close>

text \<open>A query on the links between the windows leaves the state as it is.\<close>

definition ask :: "(exn + 'a) option \<Rightarrow> 's \<Rightarrow> ('s, 'a) run" where
  "ask q s = map_option (\<lambda>r. (r, s)) q"

partial_function (option) raise_tree :: "window \<Rightarrow> 'u window_manager \<Rightarrow> ('u, unit) wm_run" where
  "raise_tree root wm = go_on (info_for root wm) (\<lambda>info wm.
     go_on (case wi_parent info of Some p \<Rightarrow> raise_tree p wm | None \<Rightarrow> Some (ret () wm)) (\<lambda>_ wm.
     go_on (ask (preorder (children_of wm) (wi_children info)) wm) (\<lambda>ds wm.
     Some (ret () (call (Raise (root # ds)) (call (Advise_raise (root # ds)) wm))))))"

definition resize_window :: "window \<Rightarrow> extent \<Rightarrow> 'u info \<Rightarrow> 'u window_manager \<Rightarrow> 'u window_manager" where
  "resize_window w new_size info wm =
     (if window_size info \<noteq> new_size
      then put_info w (info\<lparr>window_size := Size (if width new_size \<le> 0 then 1 else width new_size)
                                              (if height new_size \<le> 0 then 1 else height new_size)\<rparr>)
             (call (Advise_resize w new_size) wm)
      else wm)"

text \<open>\<open>confirm\<close> is the policy's \<open>confirm_inherited_move\<close>.\<close>

partial_function (option) move_tree ::
  "(window \<Rightarrow> 'u info \<Rightarrow> displacement \<Rightarrow> rectangle) \<Rightarrow> window \<Rightarrow> displacement \<Rightarrow> 'u window_manager \<Rightarrow> ('u, unit) wm_run" where
  "move_tree confirm root movement wm =
     (if movement = Displacement 0 0 then Some (ret () wm)
      else go_on (info_for root wm) (\<lambda>info wm.
        let tl = point_plus (window_top_left info) movement;
            wm1 = put_info root (info\<lparr>window_top_left := tl\<rparr>) (call (Advise_move_to root tl) wm)
        in run_each (\<lambda>child wm. go_on (info_for child wm) (\<lambda>ci wm.
             let pos = confirm child ci movement
             in move_tree confirm child (point_diff (top_left pos) (window_top_left ci)) (resize_window child (rsize pos) ci wm)))
           (wi_children info) wm1))"

definition place_and_size ::
  "(window \<Rightarrow> 'u info \<Rightarrow> displacement \<Rightarrow> rectangle) \<Rightarrow> window \<Rightarrow> point \<Rightarrow> extent \<Rightarrow> 'u window_manager \<Rightarrow> ('u, unit) wm_run" where
  "place_and_size confirm root new_pos new_size wm = go_on (info_for root wm) (\<lambda>info wm.
     move_tree confirm root (point_diff new_pos (window_top_left info)) (resize_window root new_size info wm))"

partial_function (option) set_tree_depth_layer :: "depth_layer \<Rightarrow> window \<Rightarrow> 'u window_manager \<Rightarrow> ('u, unit) wm_run" where
  "set_tree_depth_layer new_layer root wm = go_on (info_for root wm) (\<lambda>info wm.
     if surface_layer wm root \<noteq> new_layer \<or> wi_depth_layer info \<noteq> new_layer
     then run_each (\<lambda>child wm. set_tree_depth_layer new_layer child wm) (wi_children info)
            (put_info root (info\<lparr>wi_depth_layer := new_layer\<rparr>) (wm\<lparr>surface_layer := (surface_layer wm)(root := new_layer)\<rparr>))
     else Some (ret () wm))"

section \<open>The active window\<close>

text \<open>The first child that is a visible dialog.\<close>

fun visible_dialog :: "'u window_manager \<Rightarrow> window list \<Rightarrow> exn + window option" where
  "visible_dialog wm [] = Inr None"
| "visible_dialog wm (c # cs) = (case window_info wm c of
     None \<Rightarrow> Inl unknown_key
   | Some ci \<Rightarrow> if wi_type ci = Type_dialog \<and> window_visible wm c ci then Inr (Some c) else visible_dialog wm cs)"

text \<open>The branch in which the window itself becomes active; \<open>prev\<close> is the window that was active.\<close>

definition show_restored :: "window \<Rightarrow> 'u info \<Rightarrow> 'u window_manager \<Rightarrow> 'u window_manager" where
  "show_restored w info wm =
     (if \<not> window_visible wm w info
      then (put_info w (info\<lparr>wi_state := State_restored\<rparr>) (call (Advise_state_change w State_restored) wm))
             \<lparr>surface_state := (surface_state wm)(w := State_restored), surface_hidden := (surface_hidden wm)(w := False)\<rparr>
      else wm)"

definition activate :: "window option \<Rightarrow> window \<Rightarrow> 'u info \<Rightarrow> 'u window_manager \<Rightarrow> ('u, window option) wm_run" where
  "activate prev w info wm =
     (let wm1 = show_restored w info wm;
          wm2 = focus_on (Some (window_application wm1 w)) (Some w)
                  (wm1\<lparr>mru_active_windows := mru_push w (mru_active_windows wm1)\<rparr>)
      in go_on (case prev of
                  Some pw \<Rightarrow> if pw \<noteq> w then go_on (info_for pw wm2) (\<lambda>_ wm. Some (ret () (call (Advise_focus_lost pw) wm))) else Some (ret () wm2)
                | None \<Rightarrow> Some (ret () wm2))
           (\<lambda>_ wm. Some (ret (Some w) (call (Advise_focus_gained w) wm))))"

partial_function (option) select_active_window :: "window option \<Rightarrow> 'u window_manager \<Rightarrow> ('u, window option) wm_run" where
  "select_active_window hint wm =
     (let prev = active_window wm;
          wm = wm\<lparr>allow_active_window := (hint \<noteq> None)\<rparr>
      in case hint of
        None \<Rightarrow>
          (case prev of
             Some pw \<Rightarrow> go_on (info_for pw (focus_on None None wm)) (\<lambda>_ wm. Some (ret None (call (Advise_focus_lost pw) wm)))
           | None \<Rightarrow> Some (ret None wm))
      | Some w \<Rightarrow> go_on (info_for w wm) (\<lambda>info wm.
          (case visible_dialog wm (wi_children info) of
             Inl e \<Rightarrow> Some (throw e wm)
           | Inr (Some c) \<Rightarrow> select_active_window (Some c) wm
           | Inr None \<Rightarrow>
               if can_be_active (wi_type info) \<and> wi_state info \<noteq> State_hidden then activate prev w info wm
               else (case wi_parent info of
                       Some p \<Rightarrow> select_active_window (Some p) wm
                     | None \<Rightarrow> Some (ret None wm)))))"

section \<open>Forests of windows\<close>

definition forest :: "'u window_manager \<Rightarrow> bool" where
  "forest wm \<longleftrightarrow> finite (dom (window_info wm)) \<and> acyclic (below (children_of wm)) \<and>
     (\<forall>w i. window_info wm w = Some i \<longrightarrow> distinct (wi_children i) \<and>
        (\<forall>c\<in>set (wi_children i). \<exists>ci. window_info wm c = Some ci \<and> wi_parent ci = Some w) \<and>
        (\<forall>p. wi_parent i = Some p \<longrightarrow> (\<exists>pi. window_info wm p = Some pi \<and> w \<in> set (wi_children pi))))"

lemma forest_child:
  "forest wm \<Longrightarrow> window_info wm w = Some i \<Longrightarrow> c \<in> set (wi_children i) \<Longrightarrow> \<exists>ci. window_info wm c = Some ci \<and> wi_parent ci = Some w"
  by (simp add: forest_def)

lemma forest_parent:
  "forest wm \<Longrightarrow> window_info wm w = Some i \<Longrightarrow> wi_parent i = Some p \<Longrightarrow> \<exists>pi. window_info wm p = Some pi \<and> w \<in> set (wi_children pi)"
  by (simp add: forest_def)

lemma below_children: "(c, w) \<in> below (children_of wm) \<longleftrightarrow> (\<exists>i. window_info wm w = Some i \<and> c \<in> set (wi_children i))"
  by (auto simp: below_def children_of_def)

lemma finite_below: "forest wm \<Longrightarrow> finite (below (children_of wm))"
proof -
  assume f: "forest wm"
  have "below (children_of wm) \<subseteq> dom (window_info wm) \<times> dom (window_info wm)"
    using forest_child [OF f] by (fastforce simp: below_children)
  moreover have "finite (dom (window_info wm) \<times> dom (window_info wm))" using f by (simp add: forest_def)
  ultimately show ?thesis by (rule finite_subset)
qed

lemma forest_wf_below: "forest wm \<Longrightarrow> wf (below (children_of wm))"
  using finite_below finite_acyclic_wf by (auto simp: forest_def)

lemma links_parents: "forest wm \<Longrightarrow> links (parent_window wm) = (below (children_of wm))\<inverse>"
  using forest_child forest_parent
  by (fastforce simp: links_def below_children parent_window_def bind_eq_Some_conv)

lemma forest_wf_parents: "forest wm \<Longrightarrow> wf (links (parent_window wm))"
  using finite_below finite_acyclic_wf_converse by (auto simp: links_parents forest_def)

text \<open>Trees depend on the information about windows only.\<close>

lemma children_of_same: "window_info wm' = window_info wm \<Longrightarrow> children_of wm' = children_of wm"
  by (simp add: children_of_def fun_eq_iff)

lemma forest_same_windows: "window_info wm' = window_info wm \<Longrightarrow> forest wm' = forest wm"
  by (simp add: forest_def children_of_same [of wm' wm])

lemma children_of_update [simp]:
  "children_of (call c wm) = children_of wm" "children_of (wm\<lparr>allow_active_window := b\<rparr>) = children_of wm"
  by (simp_all add: children_of_def call_def fun_eq_iff)

lemma call_sel [simp]:
  "window_info (call c wm) = window_info wm" "mru_active_windows (call c wm) = mru_active_windows wm"
  "allow_active_window (call c wm) = allow_active_window wm" "surface_state (call c wm) = surface_state wm"
  "surface_hidden (call c wm) = surface_hidden wm" "surface_posted (call c wm) = surface_posted wm"
  "surface_layer (call c wm) = surface_layer wm" "window_application (call c wm) = window_application wm"
  "calls (call c wm) = calls wm @ [c]" "display_areas (call c wm) = display_areas wm"
  "fullscreen_surfaces (call c wm) = fullscreen_surfaces wm" "app_info (call c wm) = app_info wm"
  "workspaces_to_windows (call c wm) = workspaces_to_windows wm" "dead_workspaces (call c wm) = dead_workspaces wm"
  by (simp_all add: call_def)

lemma focus_on_sel [simp]:
  "window_info (focus_on s w wm) = window_info wm" "mru_active_windows (focus_on s w wm) = mru_active_windows wm"
  "allow_active_window (focus_on s w wm) = allow_active_window wm" "surface_state (focus_on s w wm) = surface_state wm"
  "surface_hidden (focus_on s w wm) = surface_hidden wm" "surface_posted (focus_on s w wm) = surface_posted wm"
  "surface_layer (focus_on s w wm) = surface_layer wm" "window_application (focus_on s w wm) = window_application wm"
  "calls (focus_on s w wm) = calls wm @ [Set_focus_to s w]" "display_areas (focus_on s w wm) = display_areas wm"
  "fullscreen_surfaces (focus_on s w wm) = fullscreen_surfaces wm" "app_info (focus_on s w wm) = app_info wm"
  "workspaces_to_windows (focus_on s w wm) = workspaces_to_windows wm" "dead_workspaces (focus_on s w wm) = dead_workspaces wm"
  "focused_surface (focus_on s w wm) = w" "focused_session (focus_on s w wm) = s"
  by (simp_all add: focus_on_def call_def)

lemma put_info_sel [simp]:
  "window_info (put_info w i wm) = (window_info wm)(w := Some i)" "mru_active_windows (put_info w i wm) = mru_active_windows wm"
  "allow_active_window (put_info w i wm) = allow_active_window wm" "surface_state (put_info w i wm) = surface_state wm"
  "surface_hidden (put_info w i wm) = surface_hidden wm" "surface_posted (put_info w i wm) = surface_posted wm"
  "surface_layer (put_info w i wm) = surface_layer wm" "window_application (put_info w i wm) = window_application wm"
  "calls (put_info w i wm) = calls wm" "display_areas (put_info w i wm) = display_areas wm"
  "fullscreen_surfaces (put_info w i wm) = fullscreen_surfaces wm" "app_info (put_info w i wm) = app_info wm"
  "workspaces_to_windows (put_info w i wm) = workspaces_to_windows wm" "dead_workspaces (put_info w i wm) = dead_workspaces wm"
  by (simp_all add: put_info_def)

lemma info_for_known [simp]: "window_info wm w = Some i \<Longrightarrow> info_for w wm = Some (ret i wm)"
  by (simp add: info_for_def)

section \<open>Selecting the active window\<close>

definition eligible :: "'u info \<Rightarrow> bool" where
  "eligible i \<longleftrightarrow> can_be_active (wi_type i) \<and> wi_state i \<noteq> State_hidden"

definition synced :: "'u window_manager \<Rightarrow> bool" where
  "synced wm \<longleftrightarrow> (\<forall>w i. window_info wm w = Some i \<and> surface_state wm w = State_hidden \<longrightarrow> wi_state i = State_hidden)"

text \<open>A window becomes active: the state that \<open>activate\<close> ends in when the previous window is known.\<close>

definition activated :: "window option \<Rightarrow> window \<Rightarrow> 'u info \<Rightarrow> 'u window_manager \<Rightarrow> 'u window_manager" where
  "activated prev w info wm =
     (let wm1 = show_restored w info wm;
          wm2 = focus_on (Some (window_application wm1 w)) (Some w)
                  (wm1\<lparr>mru_active_windows := mru_push w (mru_active_windows wm1)\<rparr>)
      in call (Advise_focus_gained w)
           (case prev of Some pw \<Rightarrow> if pw \<noteq> w then call (Advise_focus_lost pw) wm2 else wm2 | None \<Rightarrow> wm2))"

lemma show_restored_sel [simp]:
  "mru_active_windows (show_restored w i wm) = mru_active_windows wm"
  "allow_active_window (show_restored w i wm) = allow_active_window wm"
  "window_application (show_restored w i wm) = window_application wm"
  "surface_posted (show_restored w i wm) = surface_posted wm"
  by (simp_all add: show_restored_def)

lemma show_restored_dom: "window_info wm w = Some i \<Longrightarrow> dom (window_info (show_restored w i wm)) = dom (window_info wm)"
  by (auto simp: show_restored_def)

lemma activate_returns:
  assumes "window_info wm w = Some i" "\<forall>pw. prev = Some pw \<longrightarrow> pw \<in> dom (window_info wm)"
  shows "activate prev w i wm = Some (ret (Some w) (activated prev w i wm))"
proof -
  have "pw \<in> dom (window_info (show_restored w i wm))" if "prev = Some pw" for pw
    using assms(2) that by (simp add: show_restored_dom [OF assms(1)])
  then show ?thesis
    by (auto simp: activate_def activated_def Let_def info_for_def split: option.split)
qed

lemma activated_active:
  assumes "window_info wm w = Some i" "synced wm" "wi_state i \<noteq> State_hidden" "allow_active_window wm"
  shows "active_window (activated prev w i wm) = Some w"
proof -
  have "surface_state (show_restored w i wm) w \<noteq> State_hidden"
    using assms by (auto simp: show_restored_def synced_def)
  then show ?thesis
    using assms(4)
    by (auto simp: active_window_def activated_def Let_def mru_top_def mru_push_def find_last_def split: option.split)
qed

lemma activated_calls:
  "\<exists>new. calls (activated prev w i wm) = calls wm @ new @ [Advise_focus_gained w] \<and>
     Set_focus_to (Some (window_application wm w)) (Some w) \<in> set new"
  by (auto simp: activated_def show_restored_def Let_def split: option.split)

lemma active_window_known:
  "set (mru_active_windows wm) \<subseteq> dom (window_info wm) \<Longrightarrow> active_window wm = Some pw \<Longrightarrow> pw \<in> dom (window_info wm)"
  using find_last_in_set by (fastforce simp: active_window_def mru_top_def split: if_splits)

lemma visible_dialog_cases:
  assumes "\<forall>c\<in>set cs. c \<in> dom (window_info wm)"
  shows "visible_dialog wm cs = Inr None \<or>
    (\<exists>c\<in>set cs. \<exists>ci. visible_dialog wm cs = Inr (Some c) \<and> window_info wm c = Some ci \<and> wi_type ci = Type_dialog \<and> window_visible wm c ci)"
  using assms by (induction cs) (auto split: option.split)

lemma visible_dialog_cong:
  assumes "window_info wm' = window_info wm" "surface_hidden wm' = surface_hidden wm" "surface_posted wm' = surface_posted wm"
  shows "visible_dialog wm' cs = visible_dialog wm cs"
  using assms by (induction cs) (auto simp: window_visible_def split: option.split)

lemma visible_dialog_allow [simp]: "visible_dialog (wm\<lparr>allow_active_window := b\<rparr>) cs = visible_dialog wm cs"
  by (rule visible_dialog_cong) simp_all

lemma select_active_window_Some:
  assumes "window_info wm w = Some i"
  shows "select_active_window (Some w) wm = (let wm1 = wm\<lparr>allow_active_window := True\<rparr> in
    case visible_dialog wm (wi_children i) of
      Inl e \<Rightarrow> Some (throw e wm1)
    | Inr (Some c) \<Rightarrow> select_active_window (Some c) wm1
    | Inr None \<Rightarrow> if eligible i then activate (active_window wm) w i wm1
        else (case wi_parent i of Some p \<Rightarrow> select_active_window (Some p) wm1 | None \<Rightarrow> Some (ret None wm1)))"
  using assms by (subst select_active_window.simps) (auto simp: Let_def eligible_def split: sum.split option.split)

definition stays :: "'u window_manager \<Rightarrow> bool" where
  "stays wm \<longleftrightarrow> forest wm \<and> set (mru_active_windows wm) \<subseteq> dom (window_info wm)"

lemma stays_allow [simp]: "stays (wm\<lparr>allow_active_window := b\<rparr>) = stays wm"
  by (simp add: stays_def forest_same_windows [of "wm\<lparr>allow_active_window := b\<rparr>" wm])

text \<open>What a selection ends in when it finds a window: that window is activated in the state at the call.\<close>

definition selects :: "window \<Rightarrow> 'u window_manager \<Rightarrow> ('u, window option) wm_run \<Rightarrow> bool" where
  "selects w wm r \<longleftrightarrow> (\<exists>i prev. window_info wm w = Some i \<and> eligible i \<and> visible_dialog wm (wi_children i) = Inr None \<and>
     r = Some (ret (Some w) (activated prev w i (wm\<lparr>allow_active_window := True\<rparr>))))"

lemma selects_allow: "selects w (wm\<lparr>allow_active_window := b\<rparr>) r = selects w wm r"
  by (simp add: selects_def)

lemma select_here:
  assumes "stays wm" "window_info wm w = Some i" "eligible i" "visible_dialog wm (wi_children i) = Inr None"
  shows "selects w wm (select_active_window (Some w) wm)"
proof -
  have "\<forall>pw. active_window wm = Some pw \<longrightarrow> pw \<in> dom (window_info wm)"
    using assms(1) active_window_known [of wm] by (auto simp: stays_def)
  then show ?thesis
    using assms by (auto simp: selects_def select_active_window_Some Let_def activate_returns)
qed

text \<open>From a window that is visible and can be active the selection goes down to a dialog that has none.\<close>

lemma select_down_in:
  assumes "wf R"
  shows "below (children_of wm) = R \<Longrightarrow> stays wm \<Longrightarrow> window_info wm w = Some i \<Longrightarrow> can_be_active (wi_type i) \<Longrightarrow>
    window_visible wm w i \<Longrightarrow> \<exists>v. (v, w) \<in> R\<^sup>* \<and> selects v wm (select_active_window (Some w) wm)"
proof (induction w arbitrary: wm i rule: wf_induct_rule [OF assms])
  case (1 w)
  note R = 1(2) and stays = 1(3) and i = 1(4)
  have known: "\<forall>c\<in>set (wi_children i). c \<in> dom (window_info wm)"
    using stays i forest_child by (fastforce simp: stays_def)
  from visible_dialog_cases [OF known] show ?case
  proof
    assume none: "visible_dialog wm (wi_children i) = Inr None"
    have "eligible i" using 1(5,6) by (auto simp: eligible_def window_visible_def is_visible_def split: if_splits)
    with select_here [OF stays i _ none] show ?thesis by blast
  next
    assume "\<exists>c\<in>set (wi_children i). \<exists>ci. visible_dialog wm (wi_children i) = Inr (Some c) \<and> window_info wm c = Some ci \<and>
      wi_type ci = Type_dialog \<and> window_visible wm c ci"
    then obtain c ci where c: "c \<in> set (wi_children i)" "visible_dialog wm (wi_children i) = Inr (Some c)"
      "window_info wm c = Some ci" "wi_type ci = Type_dialog" "window_visible wm c ci" by blast
    let ?wm = "wm\<lparr>allow_active_window := True\<rparr>"
    have cw: "(c, w) \<in> R" using c(1) i R by (auto simp: below_children)
    obtain v where v: "(v, c) \<in> R\<^sup>*" "selects v wm (select_active_window (Some c) ?wm)"
      using 1(1) [OF cw, of ?wm ci] stays c R by (auto simp: can_be_active_def window_visible_def selects_allow)
    then have "selects v wm (select_active_window (Some w) wm)"
      using c(2) by (simp add: select_active_window_Some [OF i] Let_def)
    with v(1) cw show ?thesis by (meson rtrancl.rtrancl_into_rtrancl)
  qed
qed

lemma select_down:
  assumes "stays wm" "window_info wm w = Some i" "can_be_active (wi_type i)" "window_visible wm w i"
  shows "\<exists>v. (v, w) \<in> (below (children_of wm))\<^sup>* \<and> selects v wm (select_active_window (Some w) wm)"
  using assms by (intro select_down_in) (auto simp: stays_def forest_wf_below)

text \<open>From any window it looks there, then at its parent, and so on.\<close>

definition selects_or_not :: "window \<Rightarrow> 'u window_manager \<Rightarrow> ('u, window option) wm_run \<Rightarrow> bool" where
  "selects_or_not w wm r \<longleftrightarrow>
     (\<exists>a v. (a, w) \<in> (links (parent_window wm))\<^sup>* \<and> (v, a) \<in> (below (children_of wm))\<^sup>* \<and> selects v wm r) \<or>
     (r = Some (ret None (wm\<lparr>allow_active_window := True\<rparr>)) \<and>
      (\<forall>a i. (a, w) \<in> (links (parent_window wm))\<^sup>* \<and> window_info wm a = Some i \<longrightarrow>
         \<not> eligible i \<and> visible_dialog wm (wi_children i) = Inr None))"

lemma parent_window_allow [simp]: "parent_window (wm\<lparr>allow_active_window := b\<rparr>) = parent_window wm"
  by (simp add: parent_window_def fun_eq_iff)

lemma selects_or_not_allow: "selects_or_not w (wm\<lparr>allow_active_window := b\<rparr>) r = selects_or_not w wm r"
  by (simp add: selects_or_not_def selects_allow)

lemma select_up_in:
  assumes "wf P"
  shows "links (parent_window wm) = P \<Longrightarrow> stays wm \<Longrightarrow> window_info wm w = Some i \<Longrightarrow>
    selects_or_not w wm (select_active_window (Some w) wm)"
proof (induction w arbitrary: wm i rule: wf_induct_rule [OF assms])
  case (1 w)
  note P = 1(2) and stays = 1(3) and i = 1(4)
  have known: "\<forall>c\<in>set (wi_children i). c \<in> dom (window_info wm)"
    using stays i forest_child by (fastforce simp: stays_def)
  let ?wm = "wm\<lparr>allow_active_window := True\<rparr>"
  from visible_dialog_cases [OF known] show ?case
  proof
    assume none: "visible_dialog wm (wi_children i) = Inr None"
    consider "eligible i" | "\<not> eligible i" "wi_parent i = None" | p where "\<not> eligible i" "wi_parent i = Some p" by blast
    then show ?thesis
    proof cases
      case 1
      with select_here [OF stays i _ none] show ?thesis by (auto simp: selects_or_not_def)
    next
      case 2
      have "a = w" if "(a, w) \<in> (links (parent_window wm))\<^sup>*" for a
        using that 2 i by (auto simp: links_def parent_window_def elim: rtranclE)
      then have "\<not> eligible j \<and> visible_dialog wm (wi_children j) = Inr None"
        if "(a, w) \<in> (links (parent_window wm))\<^sup>*" "window_info wm a = Some j" for a j
        using that 2(1) i none by (metis option.inject)
      moreover have "select_active_window (Some w) wm = Some (ret None ?wm)"
        using 2 none by (simp add: select_active_window_Some [OF i] Let_def)
      ultimately show ?thesis unfolding selects_or_not_def by blast
    next
      case (3 p)
      have pw: "(p, w) \<in> P" using 3(2) i P by (auto simp: links_def parent_window_def)
      obtain pi where pi: "window_info wm p = Some pi" using forest_parent [OF _ i 3(2)] stays by (auto simp: stays_def)
      have "selects_or_not p wm (select_active_window (Some p) ?wm)"
        using 1(1) [OF pw, of ?wm pi] stays pi P by (simp add: selects_or_not_allow)
      moreover have "select_active_window (Some w) wm = select_active_window (Some p) ?wm"
        using 3 none by (simp add: select_active_window_Some [OF i] Let_def)
      moreover have "(a, w) \<in> P\<^sup>* \<longleftrightarrow> a = w \<or> (a, p) \<in> P\<^sup>*" for a
        using pw 3(2) i unfolding P [symmetric]
        by (auto simp: links_def parent_window_def elim: rtranclE intro: rtrancl_into_rtrancl)
      ultimately show ?thesis using 3(1) i none unfolding selects_or_not_def P by fastforce
    qed
  next
    assume "\<exists>c\<in>set (wi_children i). \<exists>ci. visible_dialog wm (wi_children i) = Inr (Some c) \<and> window_info wm c = Some ci \<and>
      wi_type ci = Type_dialog \<and> window_visible wm c ci"
    then obtain c ci where c: "c \<in> set (wi_children i)" "visible_dialog wm (wi_children i) = Inr (Some c)"
      "window_info wm c = Some ci" "wi_type ci = Type_dialog" "window_visible wm c ci" by blast
    obtain v where v: "(v, c) \<in> (below (children_of wm))\<^sup>*" "selects v wm (select_active_window (Some c) ?wm)"
      using select_down [of ?wm c ci] stays c by (auto simp: can_be_active_def window_visible_def selects_allow)
    moreover have "select_active_window (Some w) wm = select_active_window (Some c) ?wm"
      using c(2) by (simp add: select_active_window_Some [OF i] Let_def)
    moreover have "(c, w) \<in> below (children_of wm)" using c(1) i by (auto simp: below_children)
    ultimately show ?thesis unfolding selects_or_not_def by (metis rtrancl.rtrancl_into_rtrancl rtrancl.rtrancl_refl)
  qed
qed

lemma select_active_window_ends:
  assumes "stays wm" "window_info wm w = Some i"
  shows "selects_or_not w wm (select_active_window (Some w) wm)"
  using assms by (intro select_up_in) (auto simp: stays_def forest_wf_parents)

section \<open>Subtrees\<close>

definition tree :: "'u window_manager \<Rightarrow> window \<Rightarrow> window set" where
  "tree wm w = {v. (v, w) \<in> (below (children_of wm))\<^sup>*}"

lemma root_in_tree [simp]: "w \<in> tree wm w"
  by (simp add: tree_def)

lemma tree_unfold:
  assumes "window_info wm w = Some i"
  shows "tree wm w = insert w (\<Union>c\<in>set (wi_children i). tree wm c)"
proof -
  have "(c, w) \<in> below (children_of wm) \<longleftrightarrow> c \<in> set (wi_children i)" for c using assms by (simp add: below_children)
  then show ?thesis by (auto simp: tree_def elim: rtranclE intro: rtrancl_into_rtrancl)
qed

lemma tree_child_excludes_root:
  assumes "forest wm" "window_info wm w = Some i" "c \<in> set (wi_children i)"
  shows "w \<notin> tree wm c"
proof
  assume "w \<in> tree wm c"
  moreover have "(c, w) \<in> below (children_of wm)" using assms(2,3) by (auto simp: below_children)
  ultimately have "(w, w) \<in> (below (children_of wm))\<^sup>+" by (auto simp: tree_def)
  then show False using assms(1) by (auto simp: forest_def acyclic_def)
qed

text \<open>Going up from a window there is only one way.\<close>

lemma ancestors_linear:
  assumes "forest wm" "(v, a) \<in> (below (children_of wm))\<^sup>*" "(v, b) \<in> (below (children_of wm))\<^sup>*"
  shows "(a, b) \<in> (below (children_of wm))\<^sup>* \<or> (b, a) \<in> (below (children_of wm))\<^sup>*"
  using assms(2,3)
proof (induction arbitrary: b rule: converse_rtrancl_induct)
  case (step v u)
  have one: "u' = u" if "(v, u') \<in> below (children_of wm)" for u'
    using that step.hyps(1) forest_child [OF assms(1)] by (metis below_children option.inject)
  from step.prems show ?case
  proof (cases rule: converse_rtranclE)
    case base
    then show ?thesis using step.hyps by (meson converse_rtrancl_into_rtrancl)
  next
    case (step u')
    then show ?thesis using one step.IH by blast
  qed
qed simp

lemma tree_children_disjoint:
  assumes "forest wm" "window_info wm w = Some i" "c \<in> set (wi_children i)" "d \<in> set (wi_children i)" "c \<noteq> d"
  shows "tree wm c \<inter> tree wm d = {}"
proof -
  have no: "(x, y) \<notin> (below (children_of wm))\<^sup>*" if xy: "x \<in> set (wi_children i)" "y \<in> set (wi_children i)" "x \<noteq> y" for x y
  proof
    assume "(x, y) \<in> (below (children_of wm))\<^sup>*"
    then obtain u where u: "(x, u) \<in> below (children_of wm)" "(u, y) \<in> (below (children_of wm))\<^sup>*"
      using xy(3) by (meson converse_rtranclE)
    have "u = w" using u(1) xy(1) assms(2) forest_child [OF assms(1)] by (metis below_children option.inject)
    then show False using u(2) tree_child_excludes_root [OF assms(1,2) xy(2)] by (simp add: tree_def)
  qed
  show ?thesis using ancestors_linear [OF assms(1)] no assms(3-5) by (auto simp: tree_def) blast
qed

section \<open>Changes to one subtree after the other\<close>

text \<open>
  An operation on a tree changes its windows only, and what it needs of a tree is not disturbed by a
  change elsewhere.  Then the loop over the children changes the union of their trees.
\<close>

locale local_change =
  fixes change :: "'w set \<Rightarrow> 's \<Rightarrow> 's \<Rightarrow> bool" and ready :: "'w set \<Rightarrow> 's \<Rightarrow> bool"
  assumes change_nothing: "change {} s s"
    and change_both: "change A s t \<Longrightarrow> change B t u \<Longrightarrow> A \<inter> B = {} \<Longrightarrow> change (A \<union> B) s u"
    and ready_elsewhere: "change A s t \<Longrightarrow> ready B s \<Longrightarrow> A \<inter> B = {} \<Longrightarrow> ready B t"
begin

lemma run_each_changes:
  assumes "\<And>c s. c \<in> set cs \<Longrightarrow> ready (T c) s \<Longrightarrow> \<exists>s'. f c s = Some (ret () s') \<and> change (T c) s s'"
    and "distinct cs" "\<And>c d. c \<in> set cs \<Longrightarrow> d \<in> set cs \<Longrightarrow> c \<noteq> d \<Longrightarrow> T c \<inter> T d = {}"
    and "\<And>c. c \<in> set cs \<Longrightarrow> ready (T c) s"
  shows "\<exists>s'. run_each f cs s = Some (ret () s') \<and> change (\<Union>c\<in>set cs. T c) s s'"
  using assms
proof (induction cs arbitrary: s)
  case Nil
  then show ?case using change_nothing by simp
next
  case (Cons c cs)
  obtain s1 where s1: "f c s = Some (ret () s1)" "change (T c) s s1" using Cons.prems(1,4) by (metis list.set_intros(1))
  have disj: "T c \<inter> T d = {}" if "d \<in> set cs" for d using Cons.prems(2,3) that by auto
  have "ready (T d) s1" if "d \<in> set cs" for d using ready_elsewhere [OF s1(2) _ disj [OF that]] Cons.prems(4) that by simp
  then obtain s2 where s2: "run_each f cs s1 = Some (ret () s2)" "change (\<Union>c\<in>set cs. T c) s1 s2"
    using Cons.IH [of s1] Cons.prems(1-3) by (metis distinct.simps(2) list.set_intros(2))
  have "change (T c \<union> (\<Union>c\<in>set cs. T c)) s s2" using change_both [OF s1(2) s2(2)] disj by blast
  then show ?case using s1(1) s2(1) by simp
qed

end

text \<open>Moving: the windows of the set have moved by \<open>d\<close>.\<close>

definition moved :: "displacement \<Rightarrow> window set \<Rightarrow> 'u window_manager \<Rightarrow> 'u window_manager \<Rightarrow> bool" where
  "moved d T wm wm' \<longleftrightarrow> wm'\<lparr>window_info := window_info wm, calls := calls wm\<rparr> = wm \<and>
     (\<forall>v. window_info wm' v = (if v \<in> T
        then map_option (\<lambda>i. i\<lparr>window_top_left := point_plus (window_top_left i) d\<rparr>) (window_info wm v) else window_info wm v))"

text \<open>Layering: the windows of the set, and their surfaces, are in the layer; before, none was.\<close>

definition layered :: "depth_layer \<Rightarrow> window set \<Rightarrow> 'u window_manager \<Rightarrow> 'u window_manager \<Rightarrow> bool" where
  "layered l T wm wm' \<longleftrightarrow>
     wm'\<lparr>window_info := window_info wm, surface_layer := surface_layer wm\<rparr> = wm \<and>
     (\<forall>v. window_info wm' v = (if v \<in> T then map_option (\<lambda>i. i\<lparr>wi_depth_layer := l\<rparr>) (window_info wm v) else window_info wm v)) \<and>
     (\<forall>v. surface_layer wm' v = (if v \<in> T then l else surface_layer wm v))"

definition below_is :: "(window \<times> window) set \<Rightarrow> 'u window_manager \<Rightarrow> bool" where
  "below_is R wm \<longleftrightarrow> forest wm \<and> below (children_of wm) = R"

definition not_in_layer :: "(window \<times> window) set \<Rightarrow> depth_layer \<Rightarrow> window set \<Rightarrow> 'u window_manager \<Rightarrow> bool" where
  "not_in_layer R l T wm \<longleftrightarrow> below_is R wm \<and>
     (\<forall>v\<in>T. surface_layer wm v \<noteq> l \<or> (\<exists>i. window_info wm v = Some i \<and> wi_depth_layer i \<noteq> l))"

text \<open>An update of the windows' information that keeps the links keeps the forest.\<close>

definition same_links :: "'u window_manager \<Rightarrow> 'u window_manager \<Rightarrow> bool" where
  "same_links wm wm' \<longleftrightarrow> (\<forall>v. map_option (\<lambda>i. (wi_parent i, wi_children i)) (window_info wm' v) =
     map_option (\<lambda>i. (wi_parent i, wi_children i)) (window_info wm v))"

lemma same_links_info:
  assumes "same_links wm wm'" "window_info wm' w = Some i"
  shows "\<exists>j. window_info wm w = Some j \<and> wi_parent j = wi_parent i \<and> wi_children j = wi_children i"
  using assms(1) [unfolded same_links_def, rule_format, of w] assms(2) by (cases "window_info wm w") auto

lemma same_links_sym: "same_links wm wm' \<Longrightarrow> same_links wm' wm"
  by (simp add: same_links_def)

lemma same_links_trans: "same_links a b \<Longrightarrow> same_links b c \<Longrightarrow> same_links a c"
  by (simp add: same_links_def)

lemma same_links_children: "same_links wm wm' \<Longrightarrow> children_of wm' = children_of wm"
proof
  fix w assume "same_links wm wm'"
  then have "map_option (\<lambda>i. (wi_parent i, wi_children i)) (window_info wm' w) =
    map_option (\<lambda>i. (wi_parent i, wi_children i)) (window_info wm w)" by (simp add: same_links_def)
  then show "children_of wm' w = children_of wm w"
    by (cases "window_info wm w"; cases "window_info wm' w") (auto simp: children_of_def)
qed

lemma same_links_dom: "same_links wm wm' \<Longrightarrow> dom (window_info wm') = dom (window_info wm)"
  unfolding same_links_def by (metis (mono_tags, lifting) domIff option.map_disc_iff set_eqI)

lemma same_links_forest:
  assumes "same_links wm wm'" "forest wm"
  shows "forest wm'"
  unfolding forest_def
proof (intro conjI allI impI)
  show "finite (dom (window_info wm'))" "acyclic (below (children_of wm'))"
    using assms by (simp_all add: same_links_dom same_links_children forest_def)
next
  fix w i assume i: "window_info wm' w = Some i"
  obtain j where j: "window_info wm w = Some j" "wi_parent j = wi_parent i" "wi_children j = wi_children i"
    using same_links_info [OF assms(1) i] by blast
  then show "distinct (wi_children i)" using assms(2) by (metis forest_def)
  show "\<forall>c\<in>set (wi_children i). \<exists>ci. window_info wm' c = Some ci \<and> wi_parent ci = Some w"
    using forest_child [OF assms(2) j(1)] same_links_info [OF same_links_sym [OF assms(1)]] j(3) by metis
  show "\<exists>pi. window_info wm' p = Some pi \<and> w \<in> set (wi_children pi)" if "wi_parent i = Some p" for p
    using forest_parent [OF assms(2) j(1)] same_links_info [OF same_links_sym [OF assms(1)]] j(2) that by metis
qed

lemma below_is_same_links: "below_is R wm \<Longrightarrow> same_links wm wm' \<Longrightarrow> below_is R wm'"
  by (simp add: below_is_def same_links_forest same_links_children)

lemma moved_links: "moved d T wm wm' \<Longrightarrow> same_links wm wm'"
  by (auto simp: moved_def same_links_def option.map_comp comp_def)

lemma layered_links: "layered l T wm wm' \<Longrightarrow> same_links wm wm'"
  by (auto simp: layered_def same_links_def option.map_comp comp_def)

interpretation moving: local_change "moved d" "\<lambda>_. below_is R"
proof
  show "moved d {} wm wm" for wm :: "'a window_manager" by (simp add: moved_def)
next
  fix A B and wm wm1 wm2 :: "'a window_manager"
  assume m: "moved d A wm wm1" "moved d B wm1 wm2" "A \<inter> B = {}"
  have "wm2\<lparr>window_info := window_info wm, calls := calls wm\<rparr> =
      (wm2\<lparr>window_info := window_info wm1, calls := calls wm1\<rparr>)\<lparr>window_info := window_info wm, calls := calls wm\<rparr>" by simp
  also have "\<dots> = wm" using m(1,2) by (simp add: moved_def)
  finally show "moved d (A \<union> B) wm wm2" using m by (auto simp: moved_def)
next
  show "below_is R wm'" if "moved d A wm wm'" "below_is R wm" for A and wm wm' :: "'a window_manager"
    using that by (meson below_is_same_links moved_links)
qed

interpretation layering: local_change "layered l" "not_in_layer R l"
proof
  show "layered l {} wm wm" for wm :: "'a window_manager" by (simp add: layered_def)
next
  fix A B and wm wm1 wm2 :: "'a window_manager"
  assume m: "layered l A wm wm1" "layered l B wm1 wm2" "A \<inter> B = {}"
  have "wm2\<lparr>window_info := window_info wm, surface_layer := surface_layer wm\<rparr> =
      (wm2\<lparr>window_info := window_info wm1, surface_layer := surface_layer wm1\<rparr>)
        \<lparr>window_info := window_info wm, surface_layer := surface_layer wm\<rparr>" by simp
  also have "\<dots> = wm" using m(1,2) by (simp add: layered_def)
  finally show "layered l (A \<union> B) wm wm2" using m by (auto simp: layered_def)
next
  fix A B and wm wm' :: "'a window_manager"
  assume m: "layered l A wm wm'" "not_in_layer R l B wm" "A \<inter> B = {}"
  then have "below_is R wm'" by (meson below_is_same_links layered_links not_in_layer_def)
  moreover have "surface_layer wm' v = surface_layer wm v" "window_info wm' v = window_info wm v" if "v \<in> B" for v
    using m(1,3) that by (auto simp: layered_def)
  ultimately show "not_in_layer R l B wm'" using m(2) by (auto simp: not_in_layer_def)
qed

text \<open>The policy of \<open>CanonicalWindowManagerPolicy\<close> lets children move with their parent.\<close>

definition inherit_move :: "window \<Rightarrow> 'u info \<Rightarrow> displacement \<Rightarrow> rectangle" where
  "inherit_move w info movement = Rectangle (point_plus (window_top_left info) movement) (window_size info)"

lemma point_plus_diff [simp]: "point_diff (point_plus p d) p = d"
  by (simp add: point_diff_def point_plus_def)

lemma move_tree_in:
  fixes wm :: "'u window_manager"
  assumes "wf R" "d \<noteq> Displacement 0 0"
  shows "below_is R wm \<Longrightarrow> w \<in> dom (window_info wm) \<Longrightarrow>
    \<exists>wm'. move_tree inherit_move w d wm = Some (ret () wm') \<and> moved d {v. (v, w) \<in> R\<^sup>*} wm wm'"
proof (induction w arbitrary: wm rule: wf_induct_rule [OF assms(1)])
  case (1 w)
  then obtain i where i: "window_info wm w = Some i" by auto
  have f: "forest wm" and R: "below (children_of wm) = R" using 1(2) by (simp_all add: below_is_def)
  let ?tl = "point_plus (window_top_left i) d"
  define wm1 where "wm1 = put_info w (i\<lparr>window_top_left := ?tl\<rparr>) (call (Advise_move_to w ?tl) wm)"
  define g where "g = (\<lambda>child (wm :: 'u window_manager). go_on (info_for child wm) (\<lambda>ci wm. let pos = inherit_move child ci d
     in move_tree inherit_move child (point_diff (top_left pos) (window_top_left ci)) (resize_window child (rsize pos) ci wm)))"
  have here: "moved d {w} wm wm1" using i by (auto simp: moved_def wm1_def put_info_def call_def)
  have R1: "below_is R wm1" by (rule below_is_same_links [OF 1(2) moved_links [OF here]])
  have tree: "tree wm v = {u. (u, v) \<in> R\<^sup>*}" for v by (simp add: tree_def R)
  have "\<exists>s'. g c s = Some (ret () s') \<and> moved d (tree wm c) s s'" if c: "c \<in> set (wi_children i)" "below_is R s" for c and s :: "'u window_manager"
  proof -
    have cw: "(c, w) \<in> R" using c(1) i R by (auto simp: below_children)
    then obtain ci where ci: "window_info s c = Some ci"
      using c(2) forest_child by (metis below_children below_is_def)
    have "g c s = move_tree inherit_move c d s"
      by (simp add: g_def ci inherit_move_def resize_window_def)
    then show ?thesis using 1(1) [OF cw c(2)] ci by (auto simp: tree)
  qed
  then have "\<exists>wm'. run_each g (wi_children i) wm1 = Some (ret () wm') \<and> moved d (\<Union>c\<in>set (wi_children i). tree wm c) wm1 wm'"
    using f i R1 tree_children_disjoint [OF f i] by (intro moving.run_each_changes [where R = R]) (auto simp: forest_def)
  then obtain wm' where wm': "run_each g (wi_children i) wm1 = Some (ret () wm')"
    "moved d (\<Union>c\<in>set (wi_children i). tree wm c) wm1 wm'" by blast
  have "moved d ({w} \<union> (\<Union>c\<in>set (wi_children i). tree wm c)) wm wm'"
    using moving.change_both [OF here wm'(2)] tree_child_excludes_root [OF f i] by auto
  then have "moved d (tree wm w) wm wm'" using tree_unfold [OF i] by simp
  moreover have "move_tree inherit_move w d wm = Some (ret () wm')"
    using assms(2) wm'(1) i by (subst move_tree.simps) (simp add: g_def wm1_def Let_def)
  ultimately show ?case by (simp add: tree)
qed

lemma set_tree_depth_layer_in:
  fixes wm :: "'u window_manager"
  assumes "wf R"
  shows "not_in_layer R l {v. (v, w) \<in> R\<^sup>*} wm \<Longrightarrow> w \<in> dom (window_info wm) \<Longrightarrow>
    \<exists>wm'. set_tree_depth_layer l w wm = Some (ret () wm') \<and> layered l {v. (v, w) \<in> R\<^sup>*} wm wm'"
proof (induction w arbitrary: wm rule: wf_induct_rule [OF assms(1)])
  case (1 w)
  then obtain i where i: "window_info wm w = Some i" by auto
  have f: "forest wm" and R: "below (children_of wm) = R" using 1(2) by (simp_all add: below_is_def not_in_layer_def)
  define wm1 where "wm1 = put_info w (i\<lparr>wi_depth_layer := l\<rparr>) (wm\<lparr>surface_layer := (surface_layer wm)(w := l)\<rparr>)"
  have here: "layered l {w} wm wm1" using i by (auto simp: layered_def wm1_def put_info_def)
  have tree: "tree wm v = {u. (u, v) \<in> R\<^sup>*}" for v by (simp add: tree_def R)
  have sub: "tree wm c \<subseteq> tree wm w" if "c \<in> set (wi_children i)" for c using that tree_unfold [OF i] by auto
  have ready: "not_in_layer R l (tree wm c) wm1" if c: "c \<in> set (wi_children i)" for c
  proof (rule layering.ready_elsewhere [OF here])
    show "not_in_layer R l (tree wm c) wm" using 1(2) sub [OF c] by (auto simp: not_in_layer_def tree)
    show "{w} \<inter> tree wm c = {}" using tree_child_excludes_root [OF f i c] by simp
  qed
  have "\<exists>s'. set_tree_depth_layer l c s = Some (ret () s') \<and> layered l (tree wm c) s s'"
    if c: "c \<in> set (wi_children i)" "not_in_layer R l (tree wm c) s" for c and s :: "'u window_manager"
  proof -
    have cw: "(c, w) \<in> R" using c(1) i R by (auto simp: below_children)
    then have "c \<in> dom (window_info s)" using c(2) forest_child by (metis below_children below_is_def domI not_in_layer_def)
    then show ?thesis using 1(1) [OF cw, of s] c(2) by (simp add: tree)
  qed
  then have "\<exists>wm'. run_each (\<lambda>c s. set_tree_depth_layer l c s) (wi_children i) wm1 = Some (ret () wm') \<and>
      layered l (\<Union>c\<in>set (wi_children i). tree wm c) wm1 wm'"
    using f i ready tree_children_disjoint [OF f i]
    by (intro layering.run_each_changes [where R = R]) (auto simp: forest_def)
  then obtain wm' where wm': "run_each (\<lambda>c s. set_tree_depth_layer l c s) (wi_children i) wm1 = Some (ret () wm')"
    "layered l (\<Union>c\<in>set (wi_children i). tree wm c) wm1 wm'" by blast
  have "layered l ({w} \<union> (\<Union>c\<in>set (wi_children i). tree wm c)) wm wm'"
    using layering.change_both [OF here wm'(2)] tree_child_excludes_root [OF f i] by auto
  then have "layered l (tree wm w) wm wm'" using tree_unfold [OF i] by simp
  moreover have "surface_layer wm w \<noteq> l \<or> wi_depth_layer i \<noteq> l" using 1(2) i by (auto simp: not_in_layer_def)
  ultimately show ?case
    using wm'(1) i by (subst set_tree_depth_layer.simps) (auto simp: wm1_def tree)
qed

section \<open>Raising\<close>

definition tree_order :: "'u window_manager \<Rightarrow> window \<Rightarrow> window list" where
  "tree_order wm w = (case preorder (children_of wm) [w] of Some (Inr ws) \<Rightarrow> ws | _ \<Rightarrow> [])"

definition raise_calls :: "'u window_manager \<Rightarrow> window \<Rightarrow> wm_call list" where
  "raise_calls wm w = [Advise_raise (tree_order wm w), Raise (tree_order wm w)]"

lemma preorder_children_end:
  assumes "forest wm" "window_info wm w = Some i"
  shows "\<exists>ds. preorder (children_of wm) (wi_children i) = Some (Inr ds) \<and> tree_order wm w = w # ds"
proof -
  have "children_of wm c \<noteq> None" if "children_of wm v = Some cs" "c \<in> set cs" for v cs c
    using that forest_child [OF assms(1)] by (fastforce simp: children_of_def)
  moreover have "\<forall>c\<in>set (wi_children i). children_of wm c \<noteq> None"
    using forest_child [OF assms] by (fastforce simp: children_of_def)
  ultimately obtain ds where "preorder (children_of wm) (wi_children i) = Some (Inr ds)"
    using preorder_ends [OF forest_wf_below [OF assms(1)], of "wi_children i"] by blast
  then show ?thesis using assms(2) by (simp add: tree_order_def children_of_def)
qed

lemma tree_order_set:
  assumes "forest wm" "w \<in> dom (window_info wm)"
  shows "set (tree_order wm w) = tree wm w"
proof -
  have "children_of wm c \<noteq> None" if "children_of wm v = Some cs" "c \<in> set cs" for v cs c
    using that forest_child [OF assms(1)] by (fastforce simp: children_of_def)
  moreover have "\<forall>c\<in>set [w]. children_of wm c \<noteq> None" using assms(2) by (auto simp: children_of_def)
  ultimately obtain xs where "preorder (children_of wm) [w] = Some (Inr xs)" "set xs = {y. \<exists>w\<in>set [w]. (y, w) \<in> (below (children_of wm))\<^sup>*}"
    using preorder_ends [OF forest_wf_below [OF assms(1)], of "[w]"] by blast
  then show ?thesis by (simp add: tree_order_def tree_def)
qed

lemma preorder_concat:
  assumes "forest wm" "set ws \<subseteq> dom (window_info wm)"
  shows "preorder (children_of wm) ws = Some (Inr (concat (map (tree_order wm) ws)))"
  using assms(2)
proof (induction ws)
  case (Cons w ws)
  then obtain i where i: "window_info wm w = Some i" by auto
  then have "children_of wm w = Some (wi_children i)" by (simp add: children_of_def)
  with preorder_children_end [OF assms(1) i] Cons show ?case by auto
qed simp

lemma tree_order_unfold:
  assumes "forest wm" "window_info wm w = Some i"
  shows "tree_order wm w = w # concat (map (tree_order wm) (wi_children i))"
proof -
  have "set (wi_children i) \<subseteq> dom (window_info wm)" using forest_child [OF assms] by auto
  then show ?thesis using preorder_children_end [OF assms] preorder_concat [OF assms(1)] by auto
qed

lemma tree_order_distinct:
  assumes "forest wm"
  shows "w \<in> dom (window_info wm) \<Longrightarrow> distinct (tree_order wm w)"
proof (induction w rule: wf_induct_rule [OF forest_wf_below [OF assms]])
  case (1 w)
  then obtain i where i: "window_info wm w = Some i" by auto
  let ?cs = "wi_children i"
  have known: "c \<in> dom (window_info wm)" if "c \<in> set ?cs" for c using that forest_child [OF assms i] by auto
  have d: "distinct (tree_order wm c)" if "c \<in> set ?cs" for c
    using 1(1) [of c] that i known by (auto simp: below_children)
  have disj: "set (tree_order wm c) \<inter> set (tree_order wm c') = {}" if "c \<in> set ?cs" "c' \<in> set ?cs" "c \<noteq> c'" for c c'
    using tree_children_disjoint [OF assms i that] that known by (simp add: tree_order_set [OF assms])
  have inj: "inj_on (tree_order wm) (set ?cs)"
  proof (rule inj_onI)
    fix c c' assume c: "c \<in> set ?cs" "c' \<in> set ?cs" "tree_order wm c = tree_order wm c'"
    have "c \<in> set (tree_order wm c)" using c(1) known by (simp add: tree_order_set [OF assms])
    then have "c \<in> set (tree_order wm c) \<inter> set (tree_order wm c')" using c(3) by simp
    then show "c = c'" using disj [OF c(1,2)] by blast
  qed
  have "distinct (concat (map (tree_order wm) ?cs))"
    using d disj inj assms i by (intro distinct_concat) (auto simp: distinct_map forest_def)
  moreover have "w \<notin> set (concat (map (tree_order wm) ?cs))"
    using tree_child_excludes_root [OF assms i] known by (auto simp: tree_order_set [OF assms])
  ultimately show ?case by (simp add: tree_order_unfold [OF assms i])
qed

lemma raise_tree_in:
  assumes "wf P"
  shows "links (parent_window wm) = P \<Longrightarrow> forest wm \<Longrightarrow> w \<in> dom (window_info wm) \<Longrightarrow>
    \<exists>up. chain (parent_window wm) (Some w) = Some up \<and>
      raise_tree w wm = Some (ret () (wm\<lparr>calls := calls wm @ concat (map (raise_calls wm) (rev up))\<rparr>))"
proof (induction w rule: wf_induct_rule [OF assms])
  case (1 w)
  then obtain i where i: "window_info wm w = Some i" by auto
  obtain ds where ds: "preorder (children_of wm) (wi_children i) = Some (Inr ds)" "tree_order wm w = w # ds"
    using preorder_children_end [OF 1(3) i] by blast
  have ds': "preorder (children_of wm') (wi_children i) = Some (Inr ds)" if "window_info wm' = window_info wm" for wm' :: "'a window_manager"
    using ds(1) children_of_same [OF that] by simp
  show ?case
  proof (cases "wi_parent i")
    case None
    then show ?thesis
      using i ds by (subst raise_tree.simps) (simp add: parent_window_def ask_def raise_calls_def call_def ret_def go_on_def)
  next
    case (Some p)
    have pw: "(p, w) \<in> P" using Some i 1(2) by (auto simp: links_def parent_window_def)
    have "p \<in> dom (window_info wm)" using forest_parent [OF 1(3) i Some] by auto
    then obtain up where up: "chain (parent_window wm) (Some p) = Some up"
      "raise_tree p wm = Some (ret () (wm\<lparr>calls := calls wm @ concat (map (raise_calls wm) (rev up))\<rparr>))"
      using 1(1) [OF pw 1(2,3)] by blast
    have "parent_window wm w = Some p" using Some i by (simp add: parent_window_def)
    then have "chain (parent_window wm) (Some w) = Some (w # up)"
      using up(1) by (subst chain_simps(2)) (simp del: chain_simps)
    moreover have "raise_tree w wm = Some (ret () (wm\<lparr>calls := calls wm @ concat (map (raise_calls wm) (rev (w # up)))\<rparr>))"
      using i Some up(2) ds(2)
      by (subst raise_tree.simps) (simp add: ds' ask_def raise_calls_def call_def, simp add: ret_def go_on_def)
    ultimately show ?thesis by blast
  qed
qed

text \<open>On links that go round in a circle it never returns.\<close>

lemma raise_tree_in_a_circle:
  assumes "\<forall>w\<in>C. \<exists>i p. window_info wm w = Some i \<and> wi_parent i = Some p \<and> p \<in> C" "w \<in> C"
  shows "raise_tree w wm = None"
proof (rule ccontr)
  let ?circle = "\<lambda>wm. \<forall>w\<in>C. \<exists>i p. window_info wm w = Some i \<and> wi_parent i = Some p \<and> p \<in> C"
  assume "raise_tree w wm \<noteq> None"
  then obtain r where r: "raise_tree w wm = Some r" by auto
  have "?circle wm \<longrightarrow> w \<notin> C"
  proof (rule raise_tree.raw_induct [OF _ r], intro impI notI)
    fix f root and wm :: "'a window_manager" and r
    assume IH: "\<And>root wm r. f root wm = Some r \<Longrightarrow> ?circle wm \<longrightarrow> root \<notin> C"
      and e: "go_on (info_for root wm) (\<lambda>info wm. go_on (case wi_parent info of Some p \<Rightarrow> f p wm | None \<Rightarrow> Some (ret () wm)) (\<lambda>_ wm.
        go_on (ask (preorder (children_of wm) (wi_children info)) wm) (\<lambda>ds wm.
        Some (ret () (call (Raise (root # ds)) (call (Advise_raise (root # ds)) wm)))))) = Some r"
      and C: "?circle wm" "root \<in> C"
    then obtain i p where i: "window_info wm root = Some i" "wi_parent i = Some p" "p \<in> C" by blast
    with e obtain r' where "f p wm = Some r'" by (cases "f p wm") auto
    then show False using IH C(1) i(3) by blast
  qed
  then show False using assms by blast
qed

section \<open>Properties\<close>

definition sample_wm :: "unit window_manager" where
  "sample_wm = \<lparr>app_info = [7 \<mapsto> [1, 2]],
     window_info = [1 \<mapsto> plain_window\<lparr>wi_children := [2]\<rparr>, 2 \<mapsto> plain_window\<lparr>wi_type := Type_dialog, wi_parent := Some 1\<rparr>],
     window_application = (\<lambda>w. 7), surface_state = (\<lambda>w. State_restored), surface_hidden = (\<lambda>w. False),
     surface_posted = (\<lambda>w. True), surface_layer = (\<lambda>w. Layer_application), mru_active_windows = [1, 2],
     allow_active_window = True, fullscreen_surfaces = [], display_areas = [], outputs = [], workspaces_to_windows = [],
     dead_workspaces = [], wm_cursor = Point 0 0, last_input_event_timestamp = 0, last_input_event = False,
     focused_session = Some 7, focused_surface = Some 2, calls = []\<rparr>"

lemma sample_wm_forest: "forest sample_wm"
proof -
  have "below (children_of sample_wm) \<subseteq> {(x, y). x < y}\<inverse>"
    by (auto simp: below_children sample_wm_def window_samples split: if_splits)
  moreover have "acyclic ({(x :: nat, y). x < y}\<inverse>)"
    using wf_acyclic [OF wf_less] by simp
  ultimately have "acyclic (below (children_of sample_wm))" by (rule acyclic_subset [rotated])
  then show ?thesis
    by (auto simp: forest_def) (auto simp: sample_wm_def window_samples split: if_splits)
qed



text \<open>
  Moving a window moves its whole tree, rigidly: under a policy that lets children move with their parent,
  moving always ends, every window of the tree ends displaced by the movement from where it was, with its
  size and everything else about it unchanged, and no other window moves.
\<close>

theorem move_tree_is_rigid:
  assumes "forest wm" "w \<in> dom (window_info wm)"
  shows "\<exists>wm'. move_tree inherit_move w d wm = Some (ret () wm') \<and>
    (\<forall>v. window_info wm' v = (if v \<in> tree wm w
       then map_option (\<lambda>i. i\<lparr>window_top_left := point_plus (window_top_left i) d\<rparr>) (window_info wm v) else window_info wm v))"
proof (cases "d = Displacement 0 0")
  case True
  then have "move_tree inherit_move w d wm = Some (ret () wm)" by (subst move_tree.simps) simp
  moreover have "map_option (\<lambda>i. i\<lparr>window_top_left := point_plus (window_top_left i) d\<rparr>) x = x" for x :: "'a info option"
    using True by (cases x) (simp_all add: point_plus_def)
  ultimately show ?thesis by simp
next
  case False
  then show ?thesis
    using move_tree_in [OF forest_wf_below [OF assms(1)] False _ assms(2)] assms(1)
    by (auto simp: below_is_def moved_def tree_def)
qed

theorem move_tree_is_rigid_witness:
  "\<exists>wm'. move_tree inherit_move 1 (Displacement 3 4) sample_wm = Some (ret () wm') \<and>
     map_option window_top_left (window_info wm' 2) = Some (point_plus (window_top_left plain_window) (Displacement 3 4))"
proof -
  have "1 \<in> dom (window_info sample_wm)" by (simp add: sample_wm_def)
  moreover have "window_info sample_wm 1 = Some (plain_window\<lparr>wi_children := [2]\<rparr>)" by (simp add: sample_wm_def)
  from tree_unfold [OF this] have "2 \<in> tree sample_wm 1" by simp
  ultimately show ?thesis using move_tree_is_rigid [OF sample_wm_forest, of 1 "Displacement 3 4"]
    by (auto simp: sample_wm_def)
qed

end
