(* ===== verification/Workspaces.thy ===== *)
theory Workspaces
  imports Window_Trees
begin

text \<open>
  The workspaces of \<open>miral::BasicWindowManager\<close>: a relation between workspaces and windows, kept in the order
  of insertion as the code's bidirectional multimap keeps it.  A workspace that has been dropped stays in
  the relation until the next time the window manager is locked.
\<close>

section \<open>Operations\<close>

definition locker :: "'u window_manager \<Rightarrow> 'u window_manager" where
  "locker wm = wm\<lparr>workspaces_to_windows := filter (\<lambda>p. fst p \<notin> set (dead_workspaces wm)) (workspaces_to_windows wm),
     dead_workspaces := []\<rparr>"

definition drop_workspace :: "workspace \<Rightarrow> 'u window_manager \<Rightarrow> 'u window_manager" where
  "drop_workspace ws wm = wm\<lparr>dead_workspaces := dead_workspaces wm @ [ws]\<rparr>"

definition workspaces_containing :: "window \<Rightarrow> 'u window_manager \<Rightarrow> workspace list" where
  "workspaces_containing w wm =
     filter (\<lambda>ws. ws \<notin> set (dead_workspaces wm)) (map fst (filter (\<lambda>p. snd p = w) (workspaces_to_windows wm)))"

definition windows_in_workspace :: "workspace \<Rightarrow> 'u window_manager \<Rightarrow> window list" where
  "windows_in_workspace ws wm = map snd (filter (\<lambda>p. fst p = ws) (workspaces_to_windows wm))"

text \<open>The loop from a window up to the root of its tree.\<close>

partial_function (option) tree_root :: "(window \<Rightarrow> 'u info option) \<Rightarrow> window \<Rightarrow> (exn + window) option" where
  "tree_root infos w = (case infos w of
     None \<Rightarrow> Some (Inl unknown_key)
   | Some i \<Rightarrow> (case wi_parent i of None \<Rightarrow> Some (Inr w) | Some p \<Rightarrow> tree_root infos p))"

definition whole_tree :: "'u window_manager \<Rightarrow> window \<Rightarrow> (exn + window list) option" where
  "whole_tree wm w = and_so (tree_root (window_info wm) w) (\<lambda>root. preorder (children_of wm) [root])"

text \<open>
  The loop that inserts the windows that are not there yet.  It looks for them between two iterators taken before:
  when the workspace had windows, what it inserts comes between them, when it had none it does not.
\<close>

fun insert_absent ::
  "bool \<Rightarrow> workspace \<Rightarrow> window list \<Rightarrow> (workspace \<times> window) list \<Rightarrow> (workspace \<times> window) list \<times> window list" where
  "insert_absent populated ws [] rel = (rel, [])"
| "insert_absent populated ws (w # rest) rel =
     (if populated \<and> (ws, w) \<in> set rel then insert_absent populated ws rest rel
      else (let (rel', added) = insert_absent populated ws rest (rel @ [(ws, w)]) in (rel', w # added)))"

definition add_windows :: "workspace \<Rightarrow> window list \<Rightarrow> 'u window_manager \<Rightarrow> 'u window_manager" where
  "add_windows ws windows wm =
     (let (rel, added) = insert_absent (windows_in_workspace ws wm \<noteq> []) ws windows (workspaces_to_windows wm);
          wm1 = wm\<lparr>workspaces_to_windows := rel\<rparr>
      in if added \<noteq> [] then call (Advise_adding_to_workspace ws added) wm1 else wm1)"

definition add_tree_to_workspace :: "window option \<Rightarrow> workspace \<Rightarrow> 'u window_manager \<Rightarrow> ('u, unit) wm_run" where
  "add_tree_to_workspace window ws wm = (case window of
     None \<Rightarrow> Some (ret () wm)
   | Some w \<Rightarrow> go_on (ask (whole_tree wm w) wm) (\<lambda>windows wm. Some (ret () (add_windows ws windows wm))))"

definition remove_windows :: "workspace \<Rightarrow> (window \<Rightarrow> bool) \<Rightarrow> 'u window_manager \<Rightarrow> window list \<times> 'u window_manager" where
  "remove_windows ws P wm =
     (let removed = filter P (windows_in_workspace ws wm);
          wm1 = wm\<lparr>workspaces_to_windows := filter (\<lambda>p. \<not> (fst p = ws \<and> P (snd p))) (workspaces_to_windows wm)\<rparr>
      in (removed, if removed \<noteq> [] then call (Advise_removing_from_workspace ws removed) wm1 else wm1))"

definition remove_tree_from_workspace :: "window option \<Rightarrow> workspace \<Rightarrow> 'u window_manager \<Rightarrow> ('u, unit) wm_run" where
  "remove_tree_from_workspace window ws wm = (case window of
     None \<Rightarrow> Some (ret () wm)
   | Some w \<Rightarrow> go_on (ask (whole_tree wm w) wm) (\<lambda>windows wm. Some (ret () (snd (remove_windows ws (\<lambda>v. v \<in> set windows) wm)))))"

definition move_workspace_content_to_workspace :: "workspace \<Rightarrow> workspace \<Rightarrow> 'u window_manager \<Rightarrow> 'u window_manager" where
  "move_workspace_content_to_workspace to_ws from_ws wm =
     (let (removed, wm1) = remove_windows from_ws (\<lambda>v. True) wm in add_windows to_ws removed wm1)"

section \<open>The relation\<close>

text \<open>No window is twice in a workspace, and the windows are known.\<close>

definition workspaces_ok :: "'u window_manager \<Rightarrow> bool" where
  "workspaces_ok wm \<longleftrightarrow> distinct (workspaces_to_windows wm) \<and> snd ` set (workspaces_to_windows wm) \<subseteq> dom (window_info wm)"

lemma in_windows_in_workspace: "v \<in> set (windows_in_workspace ws wm) \<longleftrightarrow> (ws, v) \<in> set (workspaces_to_windows wm)"
  by (force simp: windows_in_workspace_def)

lemma insert_absent_spec:
  assumes "insert_absent populated ws windows rel = (rel', added)" "distinct windows" "distinct rel"
    and "\<not> populated \<Longrightarrow> \<forall>v\<in>set windows. (ws, v) \<notin> set rel"
  shows "added = filter (\<lambda>v. (ws, v) \<notin> set rel) windows \<and> rel' = rel @ map (Pair ws) added \<and> distinct rel'"
  using assms
proof (induction populated ws windows rel arbitrary: rel' added rule: insert_absent.induct)
  case (2 populated ws w rest rel)
  show ?case
  proof (cases "populated \<and> (ws, w) \<in> set rel")
    case True
    then show ?thesis using 2(1) [OF True, of rel' added] 2(3-) by (simp (no_asm_simp)) auto
  next
    case False
    then have nin: "(ws, w) \<notin> set rel" using 2(6) by auto
    obtain r a where ra: "insert_absent populated ws rest (rel @ [(ws, w)]) = (r, a)" by fastforce
    have "filter (\<lambda>v. (ws, v) \<notin> set (rel @ [(ws, w)])) rest = filter (\<lambda>v. (ws, v) \<notin> set rel) rest"
      using 2(4) by (intro filter_cong) auto
    moreover have "\<not> populated \<Longrightarrow> \<forall>v\<in>set rest. (ws, v) \<notin> set (rel @ [(ws, w)])" using 2(4,6) by auto
    ultimately show ?thesis using 2(2) [OF False ra] 2(3-5) nin False ra by auto
  qed
qed simp

lemma add_windows_spec:
  assumes "distinct windows" "distinct (workspaces_to_windows wm)"
  shows "workspaces_to_windows (add_windows ws windows wm) =
      workspaces_to_windows wm @ map (Pair ws) (filter (\<lambda>v. (ws, v) \<notin> set (workspaces_to_windows wm)) windows) \<and>
    distinct (workspaces_to_windows (add_windows ws windows wm)) \<and> window_info (add_windows ws windows wm) = window_info wm"
proof -
  obtain r a where ra: "insert_absent (windows_in_workspace ws wm \<noteq> []) ws windows (workspaces_to_windows wm) = (r, a)" by fastforce
  have "\<not> windows_in_workspace ws wm \<noteq> [] \<Longrightarrow> \<forall>v\<in>set windows. (ws, v) \<notin> set (workspaces_to_windows wm)"
    by (metis empty_iff empty_set in_windows_in_workspace)
  from insert_absent_spec [OF ra assms this] show ?thesis by (auto simp: add_windows_def ra Let_def)
qed

lemma remove_windows_spec:
  "fst (remove_windows ws P wm) = filter P (windows_in_workspace ws wm)"
  "workspaces_to_windows (snd (remove_windows ws P wm)) = filter (\<lambda>p. \<not> (fst p = ws \<and> P (snd p))) (workspaces_to_windows wm)"
  "window_info (snd (remove_windows ws P wm)) = window_info wm"
  by (simp_all add: remove_windows_def Let_def)

lemma distinct_windows_in_workspace: "distinct (workspaces_to_windows wm) \<Longrightarrow> distinct (windows_in_workspace ws wm)"
  by (auto simp: windows_in_workspace_def distinct_map inj_on_def)

section \<open>Whole trees\<close>

lemma tree_root_in:
  assumes "wf P"
  shows "links (parent_window wm) = P \<Longrightarrow> forest wm \<Longrightarrow> w \<in> dom (window_info wm) \<Longrightarrow>
    \<exists>r i. tree_root (window_info wm) w = Some (Inr r) \<and> window_info wm r = Some i \<and> wi_parent i = None \<and> w \<in> tree wm r"
proof (induction w rule: wf_induct_rule [OF assms])
  case (1 w)
  then obtain i where i: "window_info wm w = Some i" by auto
  show ?case
  proof (cases "wi_parent i")
    case None
    then show ?thesis using i by (subst tree_root.simps) auto
  next
    case (Some p)
    have "(p, w) \<in> P" using Some i 1(2) by (auto simp: links_def parent_window_def)
    moreover obtain pi where pi: "window_info wm p = Some pi" "w \<in> set (wi_children pi)" using forest_parent [OF 1(3) i Some] by auto
    ultimately obtain r j where r: "tree_root (window_info wm) p = Some (Inr r)" "window_info wm r = Some j" "wi_parent j = None" "p \<in> tree wm r"
      using 1(1) [OF _ 1(2,3), of p] by auto
    have "(w, p) \<in> below (children_of wm)" using pi by (auto simp: below_children)
    with r(4) have "w \<in> tree wm r" by (auto simp: tree_def intro: converse_rtrancl_into_rtrancl)
    moreover have "tree_root (window_info wm) w = Some (Inr r)" using i Some r(1) by (subst tree_root.simps) simp
    ultimately show ?thesis using r by blast
  qed
qed

lemma whole_tree_spec:
  assumes "forest wm" "w \<in> dom (window_info wm)"
  shows "\<exists>r i. whole_tree wm w = Some (Inr (tree_order wm r)) \<and> window_info wm r = Some i \<and> wi_parent i = None \<and> w \<in> tree wm r \<and>
    set (tree_order wm r) = tree wm r \<and> distinct (tree_order wm r)"
proof -
  obtain r i where r: "tree_root (window_info wm) w = Some (Inr r)" "window_info wm r = Some i" "wi_parent i = None" "w \<in> tree wm r"
    using tree_root_in [OF forest_wf_parents [OF assms(1)] refl assms] by blast
  then show ?thesis
    using preorder_concat [OF assms(1), of "[r]"] tree_order_set [OF assms(1), of r] tree_order_distinct [OF assms(1), of r]
    by (auto simp: whole_tree_def simp del: preorder_simps)
qed

lemma tree_known:
  assumes "forest wm" "r \<in> dom (window_info wm)"
  shows "tree wm r \<subseteq> dom (window_info wm)"
proof
  fix v assume "v \<in> tree wm r"
  then have "(v, r) \<in> (below (children_of wm))\<^sup>*" by (simp add: tree_def)
  then show "v \<in> dom (window_info wm)"
  proof (cases rule: converse_rtranclE)
    case (step y)
    then show ?thesis using forest_child [OF assms(1)] by (fastforce simp: below_children)
  qed (use assms(2) in simp)
qed

lemma filter_map_Pair:
  "filter (\<lambda>p. \<not> (fst p = ws \<and> snd p \<in> T)) (map (Pair ws) xs) = map (Pair ws) (filter (\<lambda>v. v \<notin> T) xs)"
  by (induction xs) auto

lemma ask_Some [simp]: "ask (Some (Inr a)) s = Some (ret a s)"
  by (simp add: ask_def ret_def)

section \<open>Properties\<close>

text \<open>
  C34: Windows enter and leave a workspace as whole trees.  From any window of a forest, adding always ends; afterwards the workspace has
  its windows from before and all windows of the tree that the window belongs to, from its root down, each
  once, and no other workspace changes.  Removing the tree again gives back exactly the relation from before, if
  none of its windows was in the workspace.
\<close>

theorem tree_enters_and_leaves_workspace:
  assumes "forest wm" "workspaces_ok wm" "w \<in> dom (window_info wm)"
  shows "\<exists>root wm1. w \<in> tree wm root \<and> parent_window wm root = None \<and>
    add_tree_to_workspace (Some w) ws wm = Some (ret () wm1) \<and> workspaces_ok wm1 \<and>
    (\<forall>v. (ws, v) \<in> set (workspaces_to_windows wm1) \<longleftrightarrow> (ws, v) \<in> set (workspaces_to_windows wm) \<or> v \<in> tree wm root) \<and>
    (\<forall>ws'. ws' \<noteq> ws \<longrightarrow> windows_in_workspace ws' wm1 = windows_in_workspace ws' wm) \<and>
    ((\<forall>v\<in>tree wm root. (ws, v) \<notin> set (workspaces_to_windows wm)) \<longrightarrow>
      (\<exists>wm2. remove_tree_from_workspace (Some w) ws wm1 = Some (ret () wm2) \<and>
         workspaces_to_windows wm2 = workspaces_to_windows wm))"
proof -
  obtain r i where r: "whole_tree wm w = Some (Inr (tree_order wm r))" "window_info wm r = Some i" "wi_parent i = None" "w \<in> tree wm r"
    "set (tree_order wm r) = tree wm r" "distinct (tree_order wm r)"
    using whole_tree_spec [OF assms(1,3)] by blast
  define wm1 where "wm1 = add_windows ws (tree_order wm r) wm"
  have a: "add_tree_to_workspace (Some w) ws wm = Some (ret () wm1)" by (simp add: add_tree_to_workspace_def r(1) wm1_def)
  have rel: "workspaces_to_windows wm1 =
      workspaces_to_windows wm @ map (Pair ws) (filter (\<lambda>v. (ws, v) \<notin> set (workspaces_to_windows wm)) (tree_order wm r))"
    "distinct (workspaces_to_windows wm1)" "window_info wm1 = window_info wm"
    using add_windows_spec [OF r(6), of wm ws] assms(2) unfolding workspaces_ok_def wm1_def [symmetric] by blast+
  have "tree wm r \<subseteq> dom (window_info wm)" by (rule tree_known [OF assms(1)]) (use r(2) in auto)
  then have ok: "workspaces_ok wm1" using assms(2) rel r(5) by (auto simp: workspaces_ok_def)
  have other: "windows_in_workspace ws' wm1 = windows_in_workspace ws' wm" if "ws' \<noteq> ws" for ws'
    using that rel(1) by (simp add: windows_in_workspace_def filter_map comp_def)
  have "\<exists>wm2. remove_tree_from_workspace (Some w) ws wm1 = Some (ret () wm2) \<and> workspaces_to_windows wm2 = workspaces_to_windows wm"
    if fresh: "\<forall>v\<in>tree wm r. (ws, v) \<notin> set (workspaces_to_windows wm)"
  proof -
    have "whole_tree wm1 w = Some (Inr (tree_order wm r))"
      using r(1) by (simp add: whole_tree_def rel(3) children_of_same [OF rel(3)])
    moreover have "filter (\<lambda>p. \<not> (fst p = ws \<and> snd p \<in> tree wm r)) (workspaces_to_windows wm1) = workspaces_to_windows wm"
    proof -
      have "filter (\<lambda>p. \<not> (fst p = ws \<and> snd p \<in> tree wm r)) (workspaces_to_windows wm) = workspaces_to_windows wm"
        using fresh by (auto simp: filter_id_conv)
      moreover have "filter (\<lambda>v. v \<notin> tree wm r) (filter P (tree_order wm r)) = []" for P using r(5) by (auto simp: filter_empty_conv)
      ultimately show ?thesis unfolding rel(1) filter_append filter_map_Pair by simp
    qed
    ultimately show ?thesis
      by (simp add: remove_tree_from_workspace_def remove_windows_spec r(5))
  qed
  then show ?thesis using a ok other r rel(1) by (auto simp: parent_window_def)
qed

theorem tree_enters_and_leaves_workspace_witness:
  "\<exists>wm1 wm2. add_tree_to_workspace (Some 2) 5 sample_wm = Some (ret () wm1) \<and> (5, 1) \<in> set (workspaces_to_windows wm1) \<and>
     remove_tree_from_workspace (Some 2) 5 wm1 = Some (ret () wm2) \<and> workspaces_to_windows wm2 = []"
proof -
  have ok: "workspaces_ok sample_wm" "2 \<in> dom (window_info sample_wm)" and rel: "workspaces_to_windows sample_wm = []"
    by (auto simp: workspaces_ok_def sample_wm_def)
  from tree_enters_and_leaves_workspace [OF sample_wm_forest ok, of 5] obtain root wm1 wm2 where
    r: "2 \<in> tree sample_wm root" "parent_window sample_wm root = None" "add_tree_to_workspace (Some 2) 5 sample_wm = Some (ret () wm1)"
    "\<forall>v. (5, v) \<in> set (workspaces_to_windows wm1) \<longleftrightarrow> (5, v) \<in> set (workspaces_to_windows sample_wm) \<or> v \<in> tree sample_wm root"
    "remove_tree_from_workspace (Some 2) 5 wm1 = Some (ret () wm2)" "workspaces_to_windows wm2 = []"
    unfolding rel by auto
  have "1 \<in> tree sample_wm root"
  proof -
    have "(2, root) \<in> (below (children_of sample_wm))\<^sup>*" using r(1) by (simp add: tree_def)
    then show ?thesis
    proof (cases rule: converse_rtranclE)
      case base
      then show ?thesis using r(2) by (simp add: parent_window_def sample_wm_def)
    next
      case (step y)
      then have "y = 1" by (auto simp: below_children sample_wm_def window_samples split: if_splits)
      then show ?thesis using step by (simp add: tree_def)
    qed
  qed
  then show ?thesis using r by auto
qed

text \<open>
  Moving the content of a workspace to another one empties the first and adds what it had to the
  second in the same order, leaving out windows that are there already; other workspaces do not change.
\<close>

theorem workspace_content_moves:
  assumes "workspaces_ok wm" "to_ws \<noteq> from_ws"
  shows "let wm' = move_workspace_content_to_workspace to_ws from_ws wm in
    windows_in_workspace from_ws wm' = [] \<and>
    windows_in_workspace to_ws wm' = windows_in_workspace to_ws wm @
      filter (\<lambda>v. v \<notin> set (windows_in_workspace to_ws wm)) (windows_in_workspace from_ws wm) \<and>
    (\<forall>ws. ws \<noteq> to_ws \<and> ws \<noteq> from_ws \<longrightarrow> windows_in_workspace ws wm' = windows_in_workspace ws wm) \<and> workspaces_ok wm'"
proof -
  let ?rel = "workspaces_to_windows wm" and ?from = "windows_in_workspace from_ws wm"
  define wm1 where "wm1 = snd (remove_windows from_ws (\<lambda>v. True) wm)"
  have m: "move_workspace_content_to_workspace to_ws from_ws wm = add_windows to_ws ?from wm1"
    by (simp add: move_workspace_content_to_workspace_def wm1_def case_prod_unfold Let_def remove_windows_spec)
  have rel1: "workspaces_to_windows wm1 = filter (\<lambda>p. fst p \<noteq> from_ws) ?rel" "window_info wm1 = window_info wm"
    by (simp_all add: wm1_def remove_windows_spec)
  have d: "distinct ?from" "distinct (workspaces_to_windows wm1)"
    using assms(1) by (simp_all add: workspaces_ok_def distinct_windows_in_workspace rel1)
  note rel2 = add_windows_spec [OF d, of to_ws]
  have new: "filter (\<lambda>v. (to_ws, v) \<notin> set (workspaces_to_windows wm1)) ?from =
      filter (\<lambda>v. v \<notin> set (windows_in_workspace to_ws wm)) ?from"
    using assms(2) by (intro filter_cong) (auto simp: rel1 in_windows_in_workspace)
  have "windows_in_workspace ws wm1 = (if ws = from_ws then [] else windows_in_workspace ws wm)" for ws
    by (auto simp: windows_in_workspace_def rel1 intro!: arg_cong [where f = "map snd"] filter_cong)
  then have "windows_in_workspace ws (add_windows to_ws ?from wm1) = (if ws = from_ws then [] else windows_in_workspace ws wm) @
      (if ws = to_ws then filter (\<lambda>v. v \<notin> set (windows_in_workspace to_ws wm)) ?from else [])" for ws
    using rel2 new by (simp add: windows_in_workspace_def filter_map comp_def)
  moreover have "workspaces_ok (add_windows to_ws ?from wm1)"
    using rel2 assms(1) by (auto simp: workspaces_ok_def rel1 in_windows_in_workspace)
  ultimately show ?thesis using assms(2) by (simp add: m Let_def)
qed

theorem workspace_content_moves_witness:
  "windows_in_workspace 5 (move_workspace_content_to_workspace 5 4
     (sample_wm\<lparr>workspaces_to_windows := [(4, 1), (5, 2), (4, 2)]\<rparr>)) = [2, 1]"
  using workspace_content_moves [of "sample_wm\<lparr>workspaces_to_windows := [(4, 1), (5, 2), (4, 2)]\<rparr>" 5 4]
  by (simp add: workspaces_ok_def sample_wm_def windows_in_workspace_def Let_def)

end
