(* ===== verification/Window_Manager.thy ===== *)
theory Window_Manager
  imports Workspaces
begin

text \<open>
  The operations of \<open>miral::BasicWindowManager\<close> that combine its parts: the display areas and the sets of
  windows attached to them, changes of a window's state, where the focus goes when a window is hidden or
  removed, adding, changing and removing windows, and changes of the outputs.
\<close>

section \<open>Display areas\<close>

text \<open>A display area is known by its position in the list; \<open>None\<close> is a temporary area that no window can stay attached to.\<close>

fun first_index :: "('a \<Rightarrow> bool) \<Rightarrow> 'a list \<Rightarrow> nat option" where
  "first_index P [] = None"
| "first_index P (x # xs) = (if P x then Some 0 else map_option Suc (first_index P xs))"

definition overlap_area :: "rectangle \<Rightarrow> rectangle \<Rightarrow> int" where
  "overlap_area r s = (let i = rsize (intersection_with r s) in width i * height i)"

definition separation :: "rectangle \<Rightarrow> rectangle \<Rightarrow> int" where
  "separation r s = max (max (left r - right s) (left s - right r)) (max (top_y r - bottom s) (top_y s - bottom r))"

fun best_area :: "rectangle \<Rightarrow> nat \<Rightarrow> rectangle list \<Rightarrow> int \<Rightarrow> int \<Rightarrow> nat option \<Rightarrow> nat option" where
  "best_area window_rect i [] max_overlap_area min_distance best = best"
| "best_area window_rect i (area # areas) max_overlap_area min_distance best =
     (let intersection_area = overlap_area window_rect area in
      if intersection_area > max_overlap_area
      then best_area window_rect (Suc i) areas intersection_area min_distance (Some i)
      else if max_overlap_area = 0 \<and> separation window_rect area < min_distance
      then best_area window_rect (Suc i) areas max_overlap_area (separation window_rect area) (Some i)
      else best_area window_rect (Suc i) areas max_overlap_area min_distance best)"

definition has_output :: "int \<Rightarrow> display_area \<Rightarrow> bool" where
  "has_output oid area = (case area_output area of Some out \<Rightarrow> output_id out = oid | None \<Rightarrow> False)"

definition window_rect :: "'u info \<Rightarrow> rectangle" where
  "window_rect info = Rectangle (window_top_left info) (window_size info)"

definition display_area_for :: "window \<Rightarrow> 'u info \<Rightarrow> 'u window_manager \<Rightarrow> nat option" where
  "display_area_for w info wm =
     (let areas = display_areas wm;
          by_output = Option.bind (wi_output_id info) (\<lambda>oid. first_index (has_output oid) areas);
          by_attachment = first_index (\<lambda>a. w \<in> set (attached_windows a)) areas
      in case by_output of Some n \<Rightarrow> Some n
         | None \<Rightarrow> (case by_attachment of Some n \<Rightarrow> Some n
            | None \<Rightarrow> best_area (window_rect info) 0 (map area_rect areas) 0 int_max None))"

text \<open>The area and the zone behind such a position; \<open>r\<close> is the area of the temporary one.\<close>

definition area_at :: "'u window_manager \<Rightarrow> rectangle \<Rightarrow> nat option \<Rightarrow> rectangle" where
  "area_at wm r n = (case n of Some k \<Rightarrow> area_rect (display_areas wm ! k) | None \<Rightarrow> r)"

definition zone_at :: "'u window_manager \<Rightarrow> rectangle \<Rightarrow> nat option \<Rightarrow> rectangle" where
  "zone_at wm r n = (case n of Some k \<Rightarrow> application_zone (display_areas wm ! k) | None \<Rightarrow> r)"

definition active_display_area :: "'u window_manager \<Rightarrow> ('u, nat option \<times> rectangle) wm_run" where
  "active_display_area wm = (case focused_surface wm of
     Some w \<Rightarrow> go_on (info_for w wm) (\<lambda>info wm. Some (ret (display_area_for w info wm, window_rect info) wm))
   | None \<Rightarrow>
       (case first_index (\<lambda>a. contains_point (area_rect a) (wm_cursor wm)) (display_areas wm) of
          Some n \<Rightarrow> Some (ret (Some n, empty_rectangle) wm)
        | None \<Rightarrow> if display_areas wm \<noteq> [] then Some (ret (Some 0, empty_rectangle) wm)
                  else Some (ret (None, Rectangle (Point 0 0) (Size 100 100)) wm)))"

definition attaching :: "window_state \<Rightarrow> bool" where
  "attaching s \<longleftrightarrow> s \<in> {State_maximized, State_vertmaximized, State_horizmaximized, State_attached}"

definition detach_window :: "window \<Rightarrow> 'u window_manager \<Rightarrow> 'u window_manager" where
  "detach_window w wm = wm\<lparr>fullscreen_surfaces := remove1 w (fullscreen_surfaces wm),
     display_areas := map (\<lambda>a. a\<lparr>attached_windows := remove1 w (attached_windows a)\<rparr>) (display_areas wm)\<rparr>"

definition update_attached_and_fullscreen_sets :: "window \<Rightarrow> 'u info \<Rightarrow> window_state \<Rightarrow> 'u window_manager \<Rightarrow> 'u window_manager" where
  "update_attached_and_fullscreen_sets w info st wm =
     (let wm1 = detach_window w wm in
      if st = State_fullscreen then wm1\<lparr>fullscreen_surfaces := insort_insert w (fullscreen_surfaces wm1)\<rparr>
      else if attaching st
      then (case display_area_for w info wm1 of
              Some n \<Rightarrow> wm1\<lparr>display_areas := (display_areas wm1)[n := (display_areas wm1 ! n)
                          \<lparr>attached_windows := insort_insert w (attached_windows (display_areas wm1 ! n))\<rparr>]\<rparr>
            | None \<Rightarrow> wm1)
      else wm1)"

section \<open>The environment\<close>

text \<open>
  What the window manager asks of its policy and of surfaces: where a child may move with its parent, where a
  window may be placed, and the content area of a surface as a function of the window's position and size.
\<close>

record 'u wm_env =
  confirm_inherited_move :: "window \<Rightarrow> 'u info \<Rightarrow> displacement \<Rightarrow> rectangle"
  confirm_placement_on_display :: "window \<Rightarrow> 'u info \<Rightarrow> window_state \<Rightarrow> rectangle \<Rightarrow> rectangle"
  content_area :: "window \<Rightarrow> 'u info \<Rightarrow> rectangle"

section \<open>Windows for the outputs\<close>

text \<open>Placing a window whose state has no place in a zone is a fatal error: it does not return.\<close>

definition place_attached_to_zone ::
  "'u wm_env \<Rightarrow> window \<Rightarrow> rectangle \<Rightarrow> rectangle \<Rightarrow> 'u window_manager \<Rightarrow> ('u, unit) wm_run" where
  "place_attached_to_zone env w zone output_area wm = go_on (info_for w wm) (\<lambda>info wm.
     case attached_placement info zone output_area of
       None \<Rightarrow> None
     | Some r \<Rightarrow> let p = confirm_placement_on_display env w info (wi_state info) r
                 in place_and_size (confirm_inherited_move env) w (top_left p) (rsize p) wm)"

definition exclusive_attached :: "'u window_manager \<Rightarrow> window \<Rightarrow> bool" where
  "exclusive_attached wm w = (case window_info wm w of
     Some i \<Rightarrow> wi_state i = State_attached \<and> exclusive_rect i \<noteq> None | None \<Rightarrow> False)"

text \<open>The first pass over a display area: each window takes its exclusive rectangle out of the zone.\<close>

fun exclusive_pass ::
  "'u wm_env \<Rightarrow> rectangle \<Rightarrow> window list \<Rightarrow> rectangle \<Rightarrow> 'u window_manager \<Rightarrow> ('u, rectangle) wm_run" where
  "exclusive_pass env area [] zone wm = Some (ret zone wm)"
| "exclusive_pass env area (w # ws) zone wm =
     go_on (place_attached_to_zone env w zone area wm) (\<lambda>_ wm.
     go_on (info_for w wm) (\<lambda>info wm.
       exclusive_pass env area ws
         (case exclusive_rect info of
            Some r \<Rightarrow> if wi_state info = State_attached
              then apply_exclusive_rect_to_application_zone zone
                     (Rectangle (point_plus (top_left r) (Displacement (px (window_top_left info)) (py (window_top_left info)))) (rsize r))
                     (attached_edges info)
              else zone
          | None \<Rightarrow> zone) wm))"

definition update_area :: "'u wm_env \<Rightarrow> nat \<Rightarrow> 'u window_manager \<Rightarrow> ('u, unit) wm_run" where
  "update_area env n wm =
     (let area = display_areas wm ! n;
          first_pass = filter (exclusive_attached wm) (attached_windows area);
          second_pass = filter (\<lambda>w. \<not> exclusive_attached wm w) (attached_windows area)
      in go_on (run_each (\<lambda>w wm. go_on (info_for w wm) (\<lambda>_ wm. Some (ret () wm))) (attached_windows area) wm) (\<lambda>_ wm.
         go_on (exclusive_pass env (area_rect area) first_pass (area_rect area) wm) (\<lambda>zone wm.
         go_on (run_each (\<lambda>w. place_attached_to_zone env w zone (area_rect area)) second_pass wm) (\<lambda>_ wm.
         Some (ret () (if zone \<noteq> application_zone (display_areas wm ! n)
           then (call (Advise_application_zone_update zone (application_zone (display_areas wm ! n))) wm)
                  \<lparr>display_areas := (display_areas wm)[n := (display_areas wm ! n)\<lparr>application_zone := zone\<rparr>]\<rparr>
           else wm))))))"

definition update_windows_for_outputs :: "'u wm_env \<Rightarrow> 'u window_manager \<Rightarrow> ('u, unit) wm_run" where
  "update_windows_for_outputs env wm =
     go_on (run_each (\<lambda>w wm. go_on (info_for w wm) (\<lambda>info wm.
              let r = confirm_placement_on_display env w info State_fullscreen
                        (area_at wm (window_rect info) (display_area_for w info wm))
              in place_and_size (confirm_inherited_move env) w (top_left r) (rsize r) wm)) (fullscreen_surfaces wm) wm)
       (\<lambda>_ wm. run_each (update_area env) [0 ..< length (display_areas wm)] wm)"

section \<open>Outputs come and go\<close>

definition same_output :: "miral_output \<Rightarrow> miral_output \<Rightarrow> bool" where
  "same_output a b \<longleftrightarrow> output_card a = output_card b \<and> output_id a = output_id b"

definition advise_output_create :: "'u wm_env \<Rightarrow> miral_output \<Rightarrow> 'u window_manager \<Rightarrow> ('u, unit) wm_run" where
  "advise_output_create env out wm0 =
     (let wm = locker wm0;
          wm1 = wm\<lparr>outputs := rectangles_add (outputs wm) (output_extents out), display_areas := display_areas wm @
                   [\<lparr>area_rect = output_extents out, application_zone = output_extents out, area_output = Some out, attached_windows = []\<rparr>]\<rparr>
      in go_on (update_windows_for_outputs env wm1) (\<lambda>_ wm.
         Some (ret () (call (Advise_application_zone_create (application_zone (last (display_areas wm)))) (call (Advise_output_create out) wm)))))"

definition advise_output_update :: "'u wm_env \<Rightarrow> miral_output \<Rightarrow> miral_output \<Rightarrow> 'u window_manager \<Rightarrow> ('u, unit) wm_run" where
  "advise_output_update env updated original wm0 =
     (let wm = locker wm0;
          wm1 = wm\<lparr>outputs := rectangles_add (rectangles_remove (outputs wm) (output_extents original)) (output_extents updated),
                   display_areas := map (\<lambda>a. case area_output a of
                       Some out \<Rightarrow> if same_output out original then a\<lparr>area_output := Some updated, area_rect := output_extents updated\<rparr> else a
                     | None \<Rightarrow> a) (display_areas wm)\<rparr>
      in go_on (update_windows_for_outputs env wm1) (\<lambda>_ wm. Some (ret () (call (Advise_output_update updated original) wm))))"

definition advise_output_delete :: "'u wm_env \<Rightarrow> miral_output \<Rightarrow> 'u window_manager \<Rightarrow> ('u, unit) wm_run" where
  "advise_output_delete env out wm0 =
     (let wm = locker wm0;
          gone = (\<lambda>a. case area_output a of Some o' \<Rightarrow> same_output o' out | None \<Rightarrow> False);
          removed_areas = filter gone (display_areas wm);
          wm1 = wm\<lparr>display_areas := filter (\<lambda>a. \<not> gone a) (display_areas wm), outputs := rectangles_remove (outputs wm) (output_extents out)\<rparr>
      in go_on (run_each (\<lambda>w wm. go_on (info_for w wm) (\<lambda>info wm.
                  Some (ret () (update_attached_and_fullscreen_sets w info (wi_state info) wm))))
                (concat (map attached_windows removed_areas)) wm1) (\<lambda>_ wm.
         go_on (update_windows_for_outputs env wm) (\<lambda>_ wm.
         Some (ret () (call (Advise_output_delete out)
           (fold (\<lambda>a. call (Advise_application_zone_delete (application_zone a))) removed_areas wm))))))"

section \<open>Where the focus goes\<close>

text \<open>The enumeration of the recently used windows, most recent first, until a window has become active.\<close>

definition try_recent ::
  "(window \<Rightarrow> 'u window_manager \<Rightarrow> bool) \<Rightarrow> 'u window_manager \<Rightarrow> ('u, window option) wm_run" where
  "try_recent wanted wm =
     run_until (\<lambda>w wm. if surface_state wm w \<noteq> State_hidden \<and> wanted w wm then select_active_window (Some w) wm else Some (ret None wm))
       (rev (mru_active_windows wm)) wm"

definition shares_workspace :: "workspace list \<Rightarrow> window \<Rightarrow> 'u window_manager \<Rightarrow> bool" where
  "shares_workspace wss w wm \<longleftrightarrow> (\<exists>ws\<in>set (workspaces_containing w wm). ws \<in> set wss)"

definition can_activate_window_for_session :: "application \<Rightarrow> 'u window_manager \<Rightarrow> ('u, window option) wm_run" where
  "can_activate_window_for_session app wm = try_recent (\<lambda>w wm. window_application wm w = app) wm"

definition can_activate_window_for_session_in_workspace ::
  "application \<Rightarrow> workspace list \<Rightarrow> 'u window_manager \<Rightarrow> ('u, window option) wm_run" where
  "can_activate_window_for_session_in_workspace app wss wm =
     try_recent (\<lambda>w wm. window_application wm w = app \<and> shares_workspace wss w wm) wm"

text \<open>
  \<open>focus_next_application\<close> and \<open>focus_prev_application\<close>; \<open>next\<close> is the session and surface that the focus controller
  moves the focus to from the focused session.  Going round all sessions ends at the application of the
  window that was active.
\<close>

partial_function (option) cycle_applications ::
  "(application option \<Rightarrow> application option \<times> window option) \<Rightarrow>
   (application option \<Rightarrow> 'u window_manager \<Rightarrow> ('u, window option) wm_run) \<Rightarrow> application \<Rightarrow>
   'u window_manager \<Rightarrow> ('u, window option) wm_run" where
  "cycle_applications next try stop wm =
     (let (s, w) = next (focused_session wm); wm1 = wm\<lparr>focused_session := s, focused_surface := w\<rparr>
      in go_on (try s wm1) (\<lambda>r wm.
         if r \<noteq> None then Some (ret r wm)
         else if focused_session wm \<noteq> Some stop then cycle_applications next try stop wm
         else Some (ret None wm)))"

definition try_application ::
  "(application \<Rightarrow> 'u window_manager \<Rightarrow> ('u, window option) wm_run) \<Rightarrow> application option \<Rightarrow> 'u window_manager \<Rightarrow> ('u, window option) wm_run" where
  "try_application f app wm = (case app of Some a \<Rightarrow> f a wm | None \<Rightarrow> Some (ret None wm))"

definition focus_other_application ::
  "(application option \<Rightarrow> application option \<times> window option) \<Rightarrow> 'u window_manager \<Rightarrow> ('u, unit) wm_run" where
  "focus_other_application next wm =
     go_on (case active_window wm of
              Some prev \<Rightarrow>
                (let wss = workspaces_containing prev wm
                 in cycle_applications next
                      (try_application (if wss \<noteq> [] then (\<lambda>a. can_activate_window_for_session_in_workspace a wss)
                                        else can_activate_window_for_session))
                      (window_application wm prev) wm)
            | None \<Rightarrow>
                (let (s, w) = next (focused_session wm)
                 in try_application can_activate_window_for_session s (wm\<lparr>focused_session := s, focused_surface := w\<rparr>)))
       (\<lambda>r wm. if r \<noteq> None then Some (ret () wm)
          else go_on (case focused_surface wm of
                        Some w \<Rightarrow> go_on (info_for w wm) (\<lambda>_ wm. select_active_window (Some w) wm)
                      | None \<Rightarrow> select_active_window None wm) (\<lambda>_ wm. Some (ret () wm)))"

definition refocus ::
  "(application option \<Rightarrow> application option \<times> window option) \<Rightarrow> application \<Rightarrow> window option \<Rightarrow> workspace list \<Rightarrow>
   'u window_manager \<Rightarrow> ('u, unit) wm_run" where
  "refocus next app parent wss wm =
     go_on (case parent of Some p \<Rightarrow> select_active_window (Some p) wm | None \<Rightarrow> Some (ret None wm)) (\<lambda>r wm.
     if r \<noteq> None then Some (ret () wm)
     else go_on (can_activate_window_for_session_in_workspace app wss wm) (\<lambda>r wm.
     if r \<noteq> None then Some (ret () wm)
     else go_on (try_recent (shares_workspace wss) wm) (\<lambda>r wm.
     if r \<noteq> None then Some (ret () wm)
     else go_on (can_activate_window_for_session app wm) (\<lambda>r wm.
     if r \<noteq> None then Some (ret () wm)
     else go_on (try_recent (\<lambda>_ _. True) wm) (\<lambda>r wm.
     if r \<noteq> None then Some (ret () wm)
     else focus_other_application next wm)))))"

section \<open>The state of a window\<close>

definition put_state :: "window \<Rightarrow> window_state \<Rightarrow> 'u window_manager \<Rightarrow> 'u window_manager" where
  "put_state w st wm = wm\<lparr>window_info := (window_info wm)(w := map_option (\<lambda>i. i\<lparr>wi_state := st\<rparr>) (window_info wm w))\<rparr>"

definition not_active_or_none :: "window \<Rightarrow> 'u window_manager \<Rightarrow> bool" where
  "not_active_or_none w wm \<longleftrightarrow> active_window wm = Some w \<or> active_window wm = None"

text \<open>Giving away the focus of a window that is about to be hidden.\<close>

definition yield_focus :: "window \<Rightarrow> 'u window_manager \<Rightarrow> ('u, unit) wm_run" where
  "yield_focus w wm =
     go_on (select_active_window (Some w) wm) (\<lambda>_ wm.
     go_on (if not_active_or_none w wm
            then let wss = workspaces_containing w wm in try_recent (\<lambda>c wm. c \<noteq> w \<and> shares_workspace wss c wm) wm
            else Some (ret None wm)) (\<lambda>_ wm.
     go_on (if not_active_or_none w wm then try_recent (\<lambda>c wm. c \<noteq> w) wm else Some (ret None wm)) (\<lambda>_ wm.
     if active_window wm = Some w then go_on (select_active_window None wm) (\<lambda>_ wm. Some (ret () wm))
     else Some (ret () wm))))"

definition set_state :: "window \<Rightarrow> window_state \<Rightarrow> 'u window_manager \<Rightarrow> ('u, unit) wm_run" where
  "set_state w st wm = go_on (info_for w wm) (\<lambda>info wm.
     let wm1 = update_attached_and_fullscreen_sets w info st wm in
     if wi_state info = st then Some (ret () wm1)
     else
       let was_hidden = (wi_state info = State_hidden \<or> wi_state info = State_minimized);
           wm2 = call (Advise_state_change w st) wm1
       in if st = State_hidden \<or> st = State_minimized
          then let wm3 = put_state w State_hidden wm2 in
            go_on (if active_window wm3 = Some w then yield_focus w wm3 else Some (ret () wm3)) (\<lambda>_ wm.
            Some (ret () ((put_state w st wm)\<lparr>surface_state := (surface_state wm)(w := st), surface_hidden := (surface_hidden wm)(w := True)\<rparr>)))
          else
            let none_active = (active_window wm2 = None);
                wm3 = (put_state w st wm2)\<lparr>surface_state := (surface_state wm2)(w := st), surface_hidden := (surface_hidden wm2)(w := False)\<rparr>
            in if was_hidden \<and> none_active then go_on (select_active_window (Some w) wm3) (\<lambda>_ wm. Some (ret () wm))
               else Some (ret () wm3))"

section \<open>Sessions, windows removed\<close>

definition add_session :: "application \<Rightarrow> 'u window_manager \<Rightarrow> 'u window_manager" where
  "add_session app wm0 = (let wm = locker wm0 in call (Advise_new_app app) (wm\<lparr>app_info := (app_info wm)(app := Some [])\<rparr>))"

definition remove_session :: "application \<Rightarrow> 'u window_manager \<Rightarrow> 'u window_manager" where
  "remove_session app wm0 = (let wm = locker wm0 in
     if app_info wm app = None then wm
     else (call (Advise_delete_app app) wm)\<lparr>app_info := (app_info wm)(app := None)\<rparr>)"

definition remove_from_app :: "application \<Rightarrow> window \<Rightarrow> 'u window_manager \<Rightarrow> ('u, unit) wm_run" where
  "remove_from_app app w wm = (case app_info wm app of
     None \<Rightarrow> Some (throw unknown_key wm)
   | Some ws \<Rightarrow> Some (ret () (wm\<lparr>app_info := (app_info wm)(app := Some (remove1 w ws))\<rparr>)))"

definition erase_window :: "window \<Rightarrow> 'u info \<Rightarrow> 'u window_manager \<Rightarrow> ('u, unit) wm_run" where
  "erase_window w info wm =
     go_on (case wi_parent info of
              Some p \<Rightarrow> go_on (info_for p wm) (\<lambda>pi wm. Some (ret () (put_info p (remove_child w pi) wm)))
            | None \<Rightarrow> Some (ret () wm)) (\<lambda>_ wm.
     go_on (run_each (\<lambda>c wm. go_on (info_for c wm) (\<lambda>ci wm. Some (ret () (put_info c (ci\<lparr>wi_parent := None\<rparr>) wm))))
             (wi_children info) wm) (\<lambda>_ wm.
     Some (ret () (wm\<lparr>window_info := (window_info wm)(w := None)\<rparr>))))"

definition remove_window ::
  "'u wm_env \<Rightarrow> (application option \<Rightarrow> application option \<times> window option) \<Rightarrow> application \<Rightarrow> window \<Rightarrow> 'u info \<Rightarrow>
   'u window_manager \<Rightarrow> ('u, unit) wm_run" where
  "remove_window env next app w info wm =
     (let is_active_window = (active_window wm = Some w);
          wss = workspaces_containing w wm;
          wm1 = fold (\<lambda>ws. call (Advise_removing_from_workspace ws [w])) wss wm;
          wm2 = call (Advise_delete_window w) (wm1\<lparr>workspaces_to_windows := filter (\<lambda>p. snd p \<noteq> w) (workspaces_to_windows wm1)\<rparr>)
      in go_on (remove_from_app app w wm2) (\<lambda>_ wm.
         let wm3 = detach_window w (wm\<lparr>mru_active_windows := mru_erase w (mru_active_windows wm)\<rparr>)
         in go_on (if wi_state info = State_attached \<and> exclusive_rect info \<noteq> None then update_windows_for_outputs env wm3
                   else Some (ret () wm3)) (\<lambda>_ wm.
            go_on (erase_window w info (call (Destroy_surface w) wm)) (\<lambda>_ wm.
            if is_active_window then refocus next app (wi_parent info) wss wm else Some (ret () wm)))))"

definition remove_surface ::
  "'u wm_env \<Rightarrow> (application option \<Rightarrow> application option \<times> window option) \<Rightarrow> application \<Rightarrow> window \<Rightarrow>
   'u window_manager \<Rightarrow> ('u, unit) wm_run" where
  "remove_surface env next app w wm0 =
     (let wm = locker wm0 in
      if app_info wm app = None then Some (ret () wm)
      else (case window_info wm w of None \<Rightarrow> Some (ret () wm) | Some info \<Rightarrow> remove_window env next app w info wm))"

section \<open>Changing a window\<close>

text \<open>
  The fields of \<open>WindowSpecification\<close> that a modification has beside the ones in \<open>window_specification\<close>.  An exclusive
  rectangle may be set to none; a parent is the outcome of locking the weak pointer.
\<close>

record 'u modification = "'u window_specification" +
  sp_exclusive_rect_is_set :: bool
  sp_parent :: "window option option"
  sp_input_shape :: "rectangle list option"
  sp_application_id :: "string option"
  sp_placement :: "relative_placement option"

definition can_retype :: "window_type \<Rightarrow> window_type \<Rightarrow> bool" where
  "can_retype original target \<longleftrightarrow>
     (if original \<in> {Type_normal, Type_utility, Type_dialog, Type_satellite}
      then target \<in> {Type_normal, Type_utility, Type_dialog, Type_satellite} \<and>
           target \<in> {Type_menu, Type_satellite} \<and> target = original
      else if original = Type_menu then target \<in> {Type_menu, Type_satellite} \<and> target = original
      else target = original)"

definition validate_modification_request :: "'u modification \<Rightarrow> 'u info \<Rightarrow> exn option" where
  "validate_modification_request mods info =
     (let target_type = (case sp_type mods of Some t \<Rightarrow> t | None \<Rightarrow> wi_type info);
          has_parent = (case sp_parent mods of Some p \<Rightarrow> p \<noteq> None | None \<Rightarrow> wi_parent info \<noteq> None)
      in if sp_type mods \<noteq> None \<and> \<not> can_retype (wi_type info) target_type then Some (Runtime_error ''Invalid surface type change'')
      else if target_type \<in> {Type_normal, Type_utility} \<and> has_parent then Some (Runtime_error ''Window type must not have a parent'')
      else if target_type \<in> {Type_satellite, Type_gloss, Type_tip} \<and> \<not> has_parent then Some (Runtime_error ''Window type must have a parent'')
      else (case sp_size mods of
              Some sz \<Rightarrow> if width sz \<le> 0 then Some (Runtime_error ''width must be positive'')
                         else if height sz \<le> 0 then Some (Runtime_error ''height must be positive'') else None
            | None \<Rightarrow> None))"

definition if_set :: "'a option \<Rightarrow> ('a \<Rightarrow> 'b \<Rightarrow> 'b) \<Rightarrow> 'b \<Rightarrow> 'b" where
  "if_set v f x = (case v of Some a \<Rightarrow> f a x | None \<Rightarrow> x)"

text \<open>The copies into the temporary information.\<close>

definition modified_info :: "'u modification \<Rightarrow> 'u info \<Rightarrow> 'u info" where
  "modified_info mods =
     if_set (sp_userdata mods) (\<lambda>v i. i\<lparr>userdata := Some v\<rparr>) \<circ> if_set (sp_shell_chrome mods) (\<lambda>v i. i\<lparr>wi_shell_chrome := v\<rparr>) \<circ>
     if_set (sp_depth_layer mods) (\<lambda>v i. i\<lparr>wi_depth_layer := v\<rparr>) \<circ> if_set (sp_attached_edges mods) (\<lambda>v i. i\<lparr>attached_edges := v\<rparr>) \<circ>
     (if sp_exclusive_rect_is_set mods then (\<lambda>i. i\<lparr>exclusive_rect := sp_exclusive_rect mods\<rparr>) else id) \<circ>
     if_set (sp_confine_pointer mods) (\<lambda>v i. i\<lparr>confine_pointer := v\<rparr>) \<circ>
     if_set (sp_preferred_orientation mods) (\<lambda>v i. i\<lparr>preferred_orientation := v\<rparr>) \<circ>
     if_set (sp_output_id mods) (\<lambda>v i. i\<lparr>wi_output_id := Some v\<rparr>) \<circ>
     if_set (sp_max_aspect mods) set_max_aspect \<circ> if_set (sp_min_aspect mods) set_min_aspect \<circ>
     if_set (sp_height_inc mods) (\<lambda>v i. i\<lparr>height_inc := v\<rparr>) \<circ> if_set (sp_width_inc mods) (\<lambda>v i. i\<lparr>width_inc := v\<rparr>) \<circ>
     if_set (sp_max_height mods) set_max_height \<circ> if_set (sp_max_width mods) set_max_width \<circ>
     if_set (sp_min_height mods) set_min_height \<circ> if_set (sp_min_width mods) set_min_width \<circ>
     if_set (sp_type mods) (\<lambda>v i. i\<lparr>wi_type := v\<rparr>) \<circ> if_set (sp_name mods) (\<lambda>v i. i\<lparr>wi_name := v\<rparr>)"

text \<open>The new parent, checked to be known; and the checks on a change of type.\<close>

definition reparented_info :: "'u modification \<Rightarrow> 'u info \<Rightarrow> 'u window_manager \<Rightarrow> ('u, 'u info) wm_run" where
  "reparented_info mods tmp wm = (case sp_parent mods of
     None \<Rightarrow> Some (ret tmp wm)
   | Some None \<Rightarrow> Some (ret (tmp\<lparr>wi_parent := None\<rparr>) wm)
   | Some (Some p) \<Rightarrow> go_on (info_for p wm) (\<lambda>_ wm. Some (ret (tmp\<lparr>wi_parent := Some p\<rparr>) wm)))"

definition retyped_info :: "'u modification \<Rightarrow> 'u info \<Rightarrow> 'u info \<Rightarrow> exn + 'u info" where
  "retyped_info mods old tmp =
     (if wi_type old \<noteq> wi_type tmp then
        if \<not> can_morph_to (wi_type old) (wi_type tmp) then Inl (Runtime_error ''Unsupported window type change'')
        else if must_not_have_parent (wi_type tmp) then
          if sp_parent mods \<noteq> None then Inl (Runtime_error ''Target window type does not support parent'')
          else Inr (tmp\<lparr>wi_parent := None\<rparr>)
        else if must_have_parent (wi_type tmp) \<and> wi_parent tmp = None then Inl (Runtime_error ''Target window type requires parent'')
        else Inr tmp
      else Inr tmp)"

definition relink :: "window \<Rightarrow> window option \<Rightarrow> window option \<Rightarrow> 'u window_manager \<Rightarrow> ('u, unit) wm_run" where
  "relink w old_parent new_parent wm =
     (if new_parent = old_parent then Some (ret () wm)
      else go_on (case old_parent of
                    Some p \<Rightarrow> go_on (info_for p wm) (\<lambda>pi wm. Some (ret () (put_info p (remove_child w pi) wm)))
                  | None \<Rightarrow> Some (ret () wm)) (\<lambda>_ wm.
           (case new_parent of
              Some p \<Rightarrow> go_on (info_for p wm) (\<lambda>pi wm. Some (ret () (put_info p (add_child w pi) wm)))
            | None \<Rightarrow> Some (ret () wm))))"

definition limits_set :: "'u modification \<Rightarrow> bool" where
  "limits_set mods \<longleftrightarrow> sp_min_width mods \<noteq> None \<or> sp_min_height mods \<noteq> None \<or> sp_max_width mods \<noteq> None \<or>
     sp_max_height mods \<noteq> None \<or> sp_width_inc mods \<noteq> None \<or> sp_height_inc mods \<noteq> None"

text \<open>The position and size asked for; a division by zero in \<open>constrain_resize\<close> does not return.\<close>

definition apply_geometry :: "'u wm_env \<Rightarrow> window \<Rightarrow> 'u modification \<Rightarrow> 'u window_manager \<Rightarrow> ('u, unit) wm_run" where
  "apply_geometry env w mods wm = go_on (info_for w wm) (\<lambda>info wm.
     let new_pos = (case sp_top_left mods of Some p \<Rightarrow> p | None \<Rightarrow> window_top_left info);
         place = place_and_size (confirm_inherited_move env) w
     in case sp_size mods of
          Some sz \<Rightarrow> place new_pos sz wm
        | None \<Rightarrow>
            if limits_set mods then (case constrain_resize info new_pos (window_size info) of
                None \<Rightarrow> None | Some (pos, sz) \<Rightarrow> place pos sz wm)
            else if sp_top_left mods \<noteq> None then place new_pos (window_size info) wm
            else Some (ret () wm))"

definition apply_placement :: "'u wm_env \<Rightarrow> window \<Rightarrow> 'u modification \<Rightarrow> 'u window_manager \<Rightarrow> ('u, unit) wm_run" where
  "apply_placement env w mods wm = (case sp_placement mods of
     None \<Rightarrow> Some (ret () wm)
   | Some params \<Rightarrow> go_on (info_for w wm) (\<lambda>info wm. (case wi_parent info of
       None \<Rightarrow> Some (ret () wm)
     | Some p \<Rightarrow> go_on (info_for p wm) (\<lambda>pi wm. go_on (active_display_area wm) (\<lambda>(n, r) wm.
         let parent_area = content_area env p pi in
         (case place_relative (area_at wm r n) parent_area params (window_size info) of
            Inl e \<Rightarrow> Some (throw e wm)
          | Inr new_pos \<Rightarrow>
              go_on (case new_pos of
                       Some r \<Rightarrow> place_and_size (confirm_inherited_move env) w (top_left r) (rsize r) wm
                     | None \<Rightarrow> Some (ret () wm)) (\<lambda>_ wm.
              go_on (info_for w wm) (\<lambda>info wm.
              Some (ret () (call (Placed_relative_to_parent w
                (Rectangle (point_plus (window_top_left info) (Displacement (- px (top_left parent_area)) (- py (top_left parent_area))))
                   (rsize (content_area env w info)))) wm)))))))))) "

definition modify_window :: "'u wm_env \<Rightarrow> window \<Rightarrow> 'u modification \<Rightarrow> 'u window_manager \<Rightarrow> ('u, unit) wm_run" where
  "modify_window env w mods wm = go_on (info_for w wm) (\<lambda>old wm.
     let wm = if_set (sp_application_id mods) (\<lambda>a. call (Set_application_id w a)) wm in
     go_on (reparented_info mods (modified_info mods old) wm) (\<lambda>tmp wm.
     case retyped_info mods old tmp of
       Inl e \<Rightarrow> Some (throw e wm)
     | Inr new \<Rightarrow>
       let zones_need_update = (wi_state old = State_attached \<or> sp_state mods = Some State_attached) \<and>
             (sp_state mods \<noteq> None \<or> sp_size mods \<noteq> None \<or> sp_attached_edges mods \<noteq> None \<or> sp_exclusive_rect_is_set mods);
           wm = put_info w new wm
       in go_on (case sp_depth_layer mods of Some l \<Rightarrow> set_tree_depth_layer l w wm | None \<Rightarrow> Some (ret () wm)) (\<lambda>_ wm.
          let wm = (if wi_type new \<noteq> wi_type old then call (Configure_type w (wi_type new)) wm else wm) in
          go_on (relink w (wi_parent old) (wi_parent new) wm) (\<lambda>_ wm.
          let wm = if_set (sp_name mods) (\<lambda>n. call (Rename w n)) wm;
              wm = if_set (sp_input_shape mods) (\<lambda>rs. call (Set_input_region w rs)) wm in
          go_on (info_for w wm) (\<lambda>info wm.
          let wm = (if sp_state mods \<noteq> None \<and> sp_state mods \<noteq> Some (wi_state info)
                    then put_info w (info\<lparr>restore_rect := current_restore_rect info\<rparr>) wm else wm) in
          go_on (apply_geometry env w mods wm) (\<lambda>_ wm.
          go_on (apply_placement env w mods wm) (\<lambda>_ wm.
          go_on (case sp_state mods of
                   Some st \<Rightarrow> go_on (set_state w st wm) (\<lambda>_ wm. Some (ret zones_need_update wm))
                 | None \<Rightarrow> if sp_output_id mods \<noteq> None
                    then go_on (info_for w wm) (\<lambda>info wm.
                      Some (ret True (update_attached_and_fullscreen_sets w info (wi_state info) wm)))
                    else Some (ret zones_need_update wm)) (\<lambda>zones_need_update wm.
          go_on (if zones_need_update then update_windows_for_outputs env wm else Some (ret () wm)) (\<lambda>_ wm.
          Some (ret () (if_set (sp_confine_pointer mods) (\<lambda>c. call (Confine_pointer w c)) wm)))))))))))"

text \<open>
  The request of a client, as the policy that only passes it on to the tools handles it.
\<close>

definition modify_surface :: "'u wm_env \<Rightarrow> window \<Rightarrow> 'u modification \<Rightarrow> 'u window_manager \<Rightarrow> ('u, unit) wm_run" where
  "modify_surface env w mods wm0 =
     (let wm = locker wm0 in case window_info wm w of
        None \<Rightarrow> Some (ret () wm)
      | Some info \<Rightarrow> (case validate_modification_request mods info of
          Some e \<Rightarrow> Some (throw e wm)
        | None \<Rightarrow>
            let n = display_area_for w info wm;
                r = place_and_size_for_state (confirm_placement_on_display env w info) (zone_at wm (window_rect info) n)
                      (area_at wm (window_rect info) n) (window_specification.truncate mods) info
            in modify_window env w (case r of Some q \<Rightarrow> mods\<lparr>sp_top_left := Some (top_left q), sp_size := Some (rsize q)\<rparr> | None \<Rightarrow> mods) wm))"

section \<open>New windows\<close>

definition optically_centred :: "rectangle \<Rightarrow> extent \<Rightarrow> point" where
  "optically_centred r sz = Point (px (top_left r) + half (width (rsize r) - width sz))
     (py (top_left r) + half (height (rsize r) - height sz) - trunc_div (height (rsize r) - height sz) 6)"

definition place_for_new_state :: "rectangle \<Rightarrow> rectangle \<Rightarrow> window_state \<Rightarrow> extent \<Rightarrow> rectangle" where
  "place_for_new_state zone area st sz =
     (let centred = optically_centred zone sz in case st of
        State_fullscreen \<Rightarrow> area
      | State_maximized \<Rightarrow> zone
      | State_vertmaximized \<Rightarrow> Rectangle (centred\<lparr>py := py (top_left zone)\<rparr>) (sz\<lparr>height := height (rsize zone)\<rparr>)
      | State_horizmaximized \<Rightarrow> Rectangle (centred\<lparr>px := px (top_left zone)\<rparr>) (sz\<lparr>width := width (rsize zone)\<rparr>)
      | _ \<Rightarrow> Rectangle centred sz)"

definition put_rect :: "rectangle \<Rightarrow> 'u modification \<Rightarrow> 'u modification" where
  "put_rect r params = params\<lparr>sp_top_left := Some (top_left r), sp_size := Some (rsize r)\<rparr>"

definition place_new_surface :: "'u wm_env \<Rightarrow> 'u modification \<Rightarrow> 'u window_manager \<Rightarrow> ('u, 'u modification) wm_run" where
  "place_new_surface env params0 wm =
     (let params = params0\<lparr>sp_type := Some (optional_value_or_default (sp_type params0) Type_normal),
                           sp_state := Some (optional_value_or_default (sp_state params0) State_restored)\<rparr>;
          by_output = Option.bind (sp_output_id params) (\<lambda>oid. first_index (has_output oid) (display_areas wm))
      in go_on (case by_output of Some n \<Rightarrow> Some (ret (Some n, empty_rectangle) wm) | None \<Rightarrow> active_display_area wm) (\<lambda>(n, r) wm.
         case sp_size params of None \<Rightarrow> None
         | Some sz \<Rightarrow>
           go_on (case sp_parent params of
                    Some (Some p) \<Rightarrow> go_on (info_for p wm) (\<lambda>pi wm.
                      (case sp_placement params of
                         Some placement \<Rightarrow> go_on (active_display_area wm) (\<lambda>(m, q) wm.
                           (case place_relative (area_at wm q m) (content_area env p pi) placement sz of
                              Inl e \<Rightarrow> Some (throw e wm) | Inr pos \<Rightarrow> Some (ret pos wm)))
                       | None \<Rightarrow> Some (ret (Some (Rectangle (optically_centred (window_rect pi) sz) sz)) wm)))
                  | _ \<Rightarrow> Some (ret None wm)) (\<lambda>pos wm.
           case pos of
             Some q \<Rightarrow> Some (ret (put_rect q params) wm)
           | None \<Rightarrow>
               let q = place_for_new_state (zone_at wm r n) (area_at wm r n) (the (sp_state params)) sz;
                   top = py (top_left (bounding_rectangle (outputs wm)))
               in Some (ret (put_rect (if py (top_left q) < top then Rectangle (Point (px (top_left q)) top) (rsize q) else q) params) wm))))"

text \<open>
  \<open>place_policy\<close> is the policy's \<open>place_new_window\<close>, and \<open>w\<close> the window of the surface that \<open>build\<close> creates, at the
  position and of the size that the policy decides; a specification without name, position or size ends
  the server.
\<close>

definition add_surface ::
  "'u wm_env \<Rightarrow> ('u modification \<Rightarrow> 'u modification) \<Rightarrow> application \<Rightarrow> window \<Rightarrow> 'u modification \<Rightarrow>
   'u window_manager \<Rightarrow> ('u, unit) wm_run" where
  "add_surface env place_policy app w params wm0 =
     (let wm = locker wm0 in case app_info wm app of
        None \<Rightarrow> Some (throw unknown_key wm)
      | Some _ \<Rightarrow> go_on (place_new_surface env params wm) (\<lambda>placed wm.
        let spec0 = place_policy placed;
            spec = (case (sp_depth_layer spec0, sp_parent spec0) of
                      (None, Some (Some p)) \<Rightarrow> spec0\<lparr>sp_depth_layer := Some (surface_layer wm p)\<rparr> | _ \<Rightarrow> spec0)
        in case (sp_top_left spec, sp_size spec) of
             (Some pos, Some sz) \<Rightarrow> (case make_window_info pos sz (window_specification.truncate spec) of
               None \<Rightarrow> None
             | Some info0 \<Rightarrow>
               go_on (case sp_parent spec of
                        Some (Some p) \<Rightarrow> go_on (info_for p wm) (\<lambda>_ wm. Some (ret (info0\<lparr>wi_parent := Some p\<rparr>) wm))
                      | _ \<Rightarrow> Some (ret info0 wm)) (\<lambda>info wm.
               let wm = (put_info w info wm)\<lparr>window_application := (window_application wm)(w := app),
                          surface_state := (surface_state wm)(w := wi_state info), surface_hidden := (surface_hidden wm)(w := False),
                          surface_posted := (surface_posted wm)(w := False), surface_layer := (surface_layer wm)(w := wi_depth_layer info)\<rparr>;
                   wm = wm\<lparr>app_info := (app_info wm)(app := map_option (\<lambda>ws. ws @ [w]) (app_info wm app))\<rparr>
               in go_on (case wi_parent info of
                           Some p \<Rightarrow> go_on (info_for p wm) (\<lambda>pi wm. Some (ret () (put_info p (add_child w pi) wm)))
                         | None \<Rightarrow> Some (ret () wm)) (\<lambda>_ wm.
                  go_on (run_each (add_tree_to_workspace (Some w))
                           (case wi_parent info of Some p \<Rightarrow> workspaces_containing p wm | None \<Rightarrow> []) wm) (\<lambda>_ wm.
                  go_on (info_for w wm) (\<lambda>info wm.
                  let wm = update_attached_and_fullscreen_sets w info (wi_state info) wm in
                  go_on (if wi_state info = State_attached then update_windows_for_outputs env wm else Some (ret () wm)) (\<lambda>_ wm.
                  let wm = call (Advise_new_window w) wm in
                  case (wi_parent info, sp_placement spec) of
                    (Some p, Some _) \<Rightarrow> go_on (info_for w wm) (\<lambda>info wm. go_on (info_for p wm) (\<lambda>pi wm.
                      Some (ret () (call (Placed_relative_to_parent w (Rectangle (point_plus (window_top_left info)
                        (Displacement (- px (window_top_left pi)) (- py (window_top_left pi)))) (window_size info))) wm))))
                  | _ \<Rightarrow> Some (ret () wm)))))))
           | _ \<Rightarrow> None))"

section \<open>Requests and their timestamps\<close>

datatype pointer_kind = Button_up | Button_down | Other_pointer_action
datatype touch_kind = Touch_goes_up | Touch_goes_down | Touch_moves

definition record_event :: "nat \<Rightarrow> 'u window_manager \<Rightarrow> 'u window_manager" where
  "record_event time wm = wm\<lparr>last_input_event_timestamp := time, last_input_event := True\<rparr>"

definition update_timestamp_pointer :: "pointer_kind \<Rightarrow> nat \<Rightarrow> 'u window_manager \<Rightarrow> 'u window_manager" where
  "update_timestamp_pointer action time wm = (if action \<in> {Button_up, Button_down} then record_event time wm else wm)"

definition update_timestamp_touch :: "touch_kind list \<Rightarrow> nat \<Rightarrow> 'u window_manager \<Rightarrow> 'u window_manager" where
  "update_timestamp_touch actions time wm =
     (if list_ex (\<lambda>a. a \<in> {Touch_goes_up, Touch_goes_down}) actions then record_event time wm else wm)"

definition handle_keyboard_event :: "nat \<Rightarrow> 'u window_manager \<Rightarrow> 'u window_manager" where
  "handle_keyboard_event time wm = record_event time (locker wm)"

definition handle_pointer_event :: "pointer_kind \<Rightarrow> nat \<Rightarrow> point \<Rightarrow> 'u window_manager \<Rightarrow> 'u window_manager" where
  "handle_pointer_event action time pos wm = (update_timestamp_pointer action time (locker wm))\<lparr>wm_cursor := pos\<rparr>"

definition handle_touch_event :: "touch_kind list \<Rightarrow> nat \<Rightarrow> 'u window_manager \<Rightarrow> 'u window_manager" where
  "handle_touch_event actions time wm = update_timestamp_touch actions time (locker wm)"

text \<open>Whether the policy is asked to raise, drag, move or resize the window.\<close>

definition handle_raise_surface :: "window \<Rightarrow> nat \<Rightarrow> 'u window_manager \<Rightarrow> bool \<times> 'u window_manager" where
  "handle_raise_surface w timestamp wm0 = (let wm = locker wm0 in
     (window_info wm w \<noteq> None \<and> timestamp \<ge> last_input_event_timestamp wm, wm))"

definition handle_request_move :: "window \<Rightarrow> nat \<Rightarrow> 'u window_manager \<Rightarrow> bool" where
  "handle_request_move w timestamp wm \<longleftrightarrow>
     window_info wm w \<noteq> None \<and> timestamp \<ge> last_input_event_timestamp wm \<and> last_input_event wm"

section \<open>Moving the focus within an application\<close>

definition select_unless :: "window \<Rightarrow> window \<Rightarrow> 'u window_manager \<Rightarrow> ('u, unit option) wm_run" where
  "select_unless prev w wm = go_on (select_active_window (Some w) wm) (\<lambda>r wm. Some (ret (if r \<noteq> Some prev then Some () else None) wm))"

definition select_sharing :: "window \<Rightarrow> workspace list \<Rightarrow> window \<Rightarrow> 'u window_manager \<Rightarrow> ('u, unit option) wm_run" where
  "select_sharing prev wss w wm = run_until (\<lambda>_. select_unless prev w)
     (concat (map (\<lambda>ws. filter (\<lambda>v. v = ws) wss) (workspaces_containing w wm))) wm"

text \<open>The four loops over the windows of the application, given in the direction of the search.\<close>

definition focus_within :: "window \<Rightarrow> workspace list \<Rightarrow> window list \<Rightarrow> 'u window_manager \<Rightarrow> ('u, unit) wm_run" where
  "focus_within prev wss siblings wm =
     (let before = takeWhile (\<lambda>w. w \<noteq> prev) siblings; after = tl (dropWhile (\<lambda>w. w \<noteq> prev) siblings) in
      go_on (run_until (select_sharing prev wss) (after @ before) wm) (\<lambda>r wm.
      if r \<noteq> None then Some (ret () wm)
      else go_on (run_until (select_unless prev) (after @ before) wm) (\<lambda>_ wm. Some (ret () wm))))"

definition focus_within_application :: "bool \<Rightarrow> 'u window_manager \<Rightarrow> ('u, unit) wm_run" where
  "focus_within_application forward wm = (case active_window wm of
     None \<Rightarrow> Some (ret () wm)
   | Some prev \<Rightarrow>
       (case app_info wm (window_application wm prev) of
          None \<Rightarrow> Some (throw unknown_key wm)
        | Some siblings \<Rightarrow>
            if prev \<in> set siblings
            then focus_within prev (workspaces_containing prev wm) (if forward then siblings else rev siblings) wm
            else None))"

section \<open>Dragging and closing\<close>

definition drag_window :: "'u wm_env \<Rightarrow> window option \<Rightarrow> displacement \<Rightarrow> 'u window_manager \<Rightarrow> ('u, unit) wm_run" where
  "drag_window env window movement wm = (case window of
     None \<Rightarrow> Some (ret () wm)
   | Some w \<Rightarrow> go_on (info_for w wm) (\<lambda>info wm. (case drag_movement (wi_type info) (wi_state info) movement of
       None \<Rightarrow> Some (ret () wm)
     | Some m \<Rightarrow> move_tree (confirm_inherited_move env) w m wm)))"

definition drag_active_window :: "'u wm_env \<Rightarrow> displacement \<Rightarrow> 'u window_manager \<Rightarrow> ('u, unit) wm_run" where
  "drag_active_window env movement wm = drag_window env (active_window wm) movement wm"

text \<open>The window given to \<open>force_close\<close> has an application unless it is the null window.\<close>

definition force_close ::
  "'u wm_env \<Rightarrow> (application option \<Rightarrow> application option \<times> window option) \<Rightarrow> window option \<Rightarrow> 'u window_manager \<Rightarrow> ('u, unit) wm_run" where
  "force_close env next window wm = (case window of
     None \<Rightarrow> Some (ret () wm)
   | Some w \<Rightarrow> go_on (info_for w wm) (\<lambda>info wm. remove_window env next (window_application wm w) w info wm))"

section \<open>Placing windows ends and changes positions and sizes only\<close>

definition unplaced :: "'u info \<Rightarrow> 'u info" where
  "unplaced i = i\<lparr>window_top_left := Point 0 0, window_size := Size 0 0\<rparr>"

definition geometry_only :: "'u window_manager \<Rightarrow> 'u window_manager \<Rightarrow> bool" where
  "geometry_only wm wm' \<longleftrightarrow> wm'\<lparr>window_info := window_info wm, calls := calls wm\<rparr> = wm \<and>
     (\<forall>v. map_option unplaced (window_info wm' v) = map_option unplaced (window_info wm v))"

lemma geometry_only_refl [simp]: "geometry_only wm wm"
  by (simp add: geometry_only_def)

lemma geometry_only_trans:
  assumes "geometry_only a b" "geometry_only b c"
  shows "geometry_only a c"
proof -
  have "c\<lparr>window_info := window_info a, calls := calls a\<rparr> =
      (c\<lparr>window_info := window_info b, calls := calls b\<rparr>)\<lparr>window_info := window_info a, calls := calls a\<rparr>" by simp
  also have "\<dots> = a" using assms by (simp add: geometry_only_def)
  finally show ?thesis using assms by (simp add: geometry_only_def)
qed

lemma geometry_only_call [simp]: "geometry_only wm (call c wm)"
  by (simp add: geometry_only_def call_def)

lemma geometry_only_put:
  "window_info wm w = Some i \<Longrightarrow> unplaced j = unplaced i \<Longrightarrow> geometry_only wm (put_info w j wm)"
  by (simp add: geometry_only_def put_info_def)

lemma geometry_only_info:
  assumes "geometry_only wm wm'" "window_info wm v = Some i"
  shows "\<exists>j. window_info wm' v = Some j \<and> unplaced j = unplaced i"
proof -
  have "map_option unplaced (window_info wm' v) = Some (unplaced i)" using assms by (simp add: geometry_only_def)
  then show ?thesis by auto
qed

lemma unplaced_fields:
  assumes "unplaced j = unplaced i"
  shows "wi_parent j = wi_parent i" "wi_children j = wi_children i" "wi_state j = wi_state i" "wi_type j = wi_type i"
    "exclusive_rect j = exclusive_rect i" "attached_edges j = attached_edges i" "wi_output_id j = wi_output_id i"
  using arg_cong [OF assms, of wi_parent] arg_cong [OF assms, of wi_children] arg_cong [OF assms, of wi_state]
    arg_cong [OF assms, of wi_type] arg_cong [OF assms, of exclusive_rect] arg_cong [OF assms, of attached_edges]
    arg_cong [OF assms, of wi_output_id]
  by (simp_all add: unplaced_def)

lemma geometry_only_fields:
  assumes "geometry_only wm wm'"
  shows "mru_active_windows wm' = mru_active_windows wm" "display_areas wm' = display_areas wm"
    "fullscreen_surfaces wm' = fullscreen_surfaces wm" "surface_state wm' = surface_state wm" "app_info wm' = app_info wm"
    "workspaces_to_windows wm' = workspaces_to_windows wm" "dead_workspaces wm' = dead_workspaces wm"
    "allow_active_window wm' = allow_active_window wm" "focused_session wm' = focused_session wm"
    "window_application wm' = window_application wm" "surface_hidden wm' = surface_hidden wm" "surface_posted wm' = surface_posted wm"
    "focused_surface wm' = focused_surface wm"
proof -
  have wm: "wm'\<lparr>window_info := window_info wm, calls := calls wm\<rparr> = wm" using assms by (simp add: geometry_only_def)
  show "mru_active_windows wm' = mru_active_windows wm" "display_areas wm' = display_areas wm"
    "fullscreen_surfaces wm' = fullscreen_surfaces wm" "surface_state wm' = surface_state wm" "app_info wm' = app_info wm"
    "workspaces_to_windows wm' = workspaces_to_windows wm" "dead_workspaces wm' = dead_workspaces wm"
    "allow_active_window wm' = allow_active_window wm" "focused_session wm' = focused_session wm"
    "window_application wm' = window_application wm" "surface_hidden wm' = surface_hidden wm" "surface_posted wm' = surface_posted wm"
    "focused_surface wm' = focused_surface wm"
    by (use wm in \<open>cases wm; cases wm'; simp\<close>)+
qed

lemma geometry_only_links: "geometry_only wm wm' \<Longrightarrow> same_links wm wm'"
proof -
  assume g: "geometry_only wm wm'"
  have "map_option (\<lambda>i. (wi_parent i, wi_children i)) x = map_option (\<lambda>i. (wi_parent i, wi_children i)) (map_option unplaced x)"
    for x :: "'a info option" by (cases x) (simp_all add: unplaced_def)
  then show ?thesis using g unfolding geometry_only_def same_links_def by metis
qed

lemma resize_window_geometry: "window_info wm w = Some i \<Longrightarrow> geometry_only wm (resize_window w sz i wm)"
  by (auto simp: resize_window_def unplaced_def geometry_only_def put_info_def call_def)

lemma move_tree_ends:
  fixes wm :: "'u window_manager"
  assumes "wf R"
  shows "below_is R wm \<Longrightarrow> w \<in> dom (window_info wm) \<Longrightarrow>
    \<exists>wm'. move_tree confirm w d wm = Some (ret () wm') \<and> geometry_only wm wm'"
proof (induction w arbitrary: wm d rule: wf_induct_rule [OF assms])
  case (1 w)
  then obtain i where i: "window_info wm w = Some i" by auto
  show ?case
  proof (cases "d = Displacement 0 0")
    case True
    then show ?thesis by (subst move_tree.simps) simp
  next
    case False
    let ?tl = "point_plus (window_top_left i) d"
    define wm1 where "wm1 = put_info w (i\<lparr>window_top_left := ?tl\<rparr>) (call (Advise_move_to w ?tl) wm)"
    define g where "g = (\<lambda>child (wm :: 'u window_manager). go_on (info_for child wm) (\<lambda>ci wm. let pos = confirm child ci d
       in move_tree confirm child (point_diff (top_left pos) (window_top_left ci)) (resize_window child (rsize pos) ci wm)))"
    have here: "geometry_only wm wm1" using i by (auto simp: geometry_only_def wm1_def put_info_def call_def unplaced_def)
    have "\<exists>s'. g c s = Some (ret () s') \<and> geometry_only wm s'" if c: "c \<in> set (wi_children i)" "geometry_only wm s" for c s
    proof -
      have R: "below_is R s" by (rule below_is_same_links [OF 1(2) geometry_only_links [OF c(2)]])
      have cw: "(c, w) \<in> R" using c(1) i 1(2) by (auto simp: below_is_def below_children)
      then obtain ci where ci: "window_info s c = Some ci"
        using R forest_child by (metis below_children below_is_def)
      let ?s = "resize_window c (rsize (confirm c ci d)) ci s"
      have rs: "geometry_only s ?s" by (rule resize_window_geometry [OF ci])
      then have "below_is R ?s" "c \<in> dom (window_info ?s)"
        using R below_is_same_links geometry_only_links geometry_only_info [OF rs ci] by blast+
      then obtain s' where "move_tree confirm c (point_diff (top_left (confirm c ci d)) (window_top_left ci)) ?s = Some (ret () s')"
        "geometry_only ?s s'" using 1(1) [OF cw] by blast
      then show ?thesis using c(2) rs by (auto simp: g_def ci Let_def intro: geometry_only_trans)
    qed
    then have "\<exists>wm'. run_each g (wi_children i) wm1 = Some (ret () wm') \<and> geometry_only wm wm'"
      using here by (intro run_each_invariant) auto
    then show ?thesis using False i by (subst move_tree.simps) (simp add: g_def wm1_def Let_def)
  qed
qed

lemma place_and_size_ends:
  assumes "forest wm" "w \<in> dom (window_info wm)"
  shows "\<exists>wm'. place_and_size confirm w pos sz wm = Some (ret () wm') \<and> geometry_only wm wm'"
proof -
  obtain i where i: "window_info wm w = Some i" using assms(2) by auto
  let ?wm = "resize_window w sz i wm"
  have rs: "geometry_only wm ?wm" by (rule resize_window_geometry [OF i])
  have "below_is (below (children_of wm)) ?wm" "w \<in> dom (window_info ?wm)"
    using assms(1) below_is_same_links [OF _ geometry_only_links [OF rs]] geometry_only_info [OF rs i]
    by (auto simp: below_is_def)
  from move_tree_ends [OF forest_wf_below [OF assms(1)] this, of confirm "point_diff pos (window_top_left i)"]
  show ?thesis using rs by (auto simp: place_and_size_def i intro: geometry_only_trans)
qed

section \<open>Adapting to the outputs ends\<close>

definition attached_ok :: "'u window_manager \<Rightarrow> bool" where
  "attached_ok wm \<longleftrightarrow> set (fullscreen_surfaces wm) \<subseteq> dom (window_info wm) \<and>
     (\<forall>a\<in>set (display_areas wm). \<forall>w\<in>set (attached_windows a). \<exists>i. window_info wm w = Some i \<and> attaching (wi_state i))"

definition layout_only :: "'u window_manager \<Rightarrow> 'u window_manager \<Rightarrow> bool" where
  "layout_only wm wm' \<longleftrightarrow> geometry_only wm (wm'\<lparr>display_areas := display_areas wm\<rparr>) \<and>
     map (\<lambda>a. a\<lparr>application_zone := empty_rectangle\<rparr>) (display_areas wm') =
     map (\<lambda>a. a\<lparr>application_zone := empty_rectangle\<rparr>) (display_areas wm)"

lemma layout_only_geometry: "geometry_only wm wm' \<Longrightarrow> layout_only wm wm'"
proof -
  assume g: "geometry_only wm wm'"
  then have a: "display_areas wm = display_areas wm'" using geometry_only_fields(2) [of wm wm'] by simp
  then have "wm'\<lparr>display_areas := display_areas wm\<rparr> = wm'" by (cases wm') simp
  then show ?thesis using g a by (simp add: layout_only_def)
qed

lemma layout_only_refl [simp]: "layout_only wm wm"
  by (simp add: layout_only_geometry)

lemma geometry_only_areas: "geometry_only a b \<Longrightarrow> geometry_only (a\<lparr>display_areas := x\<rparr>) (b\<lparr>display_areas := x\<rparr>)"
  unfolding geometry_only_def by (cases a; cases b) simp

lemma layout_only_trans:
  assumes "layout_only a b" "layout_only b c"
  shows "layout_only a c"
proof -
  have "geometry_only (b\<lparr>display_areas := display_areas a\<rparr>) (c\<lparr>display_areas := display_areas a\<rparr>)"
    using geometry_only_areas [of b "c\<lparr>display_areas := display_areas b\<rparr>" "display_areas a"] assms(2) by (simp add: layout_only_def)
  then show ?thesis using assms geometry_only_trans by (auto simp: layout_only_def)
qed

lemma layout_only_info:
  assumes "layout_only wm wm'" "window_info wm v = Some i"
  shows "\<exists>j. window_info wm' v = Some j \<and> unplaced j = unplaced i"
  using geometry_only_info [of wm "wm'\<lparr>display_areas := display_areas wm\<rparr>" v i] assms by (simp add: layout_only_def)

lemma layout_only_links: "layout_only wm wm' \<Longrightarrow> same_links wm wm'"
  using geometry_only_links [of wm "wm'\<lparr>display_areas := display_areas wm\<rparr>"] by (simp add: layout_only_def same_links_def)

lemma layout_only_fields:
  assumes "layout_only wm wm'"
  shows "mru_active_windows wm' = mru_active_windows wm" "map attached_windows (display_areas wm') = map attached_windows (display_areas wm)"
    "fullscreen_surfaces wm' = fullscreen_surfaces wm" "surface_state wm' = surface_state wm" "app_info wm' = app_info wm"
    "workspaces_to_windows wm' = workspaces_to_windows wm" "dead_workspaces wm' = dead_workspaces wm"
    "allow_active_window wm' = allow_active_window wm" "focused_session wm' = focused_session wm"
    "window_application wm' = window_application wm" "length (display_areas wm') = length (display_areas wm)"
proof -
  have "map attached_windows (map (\<lambda>a. a\<lparr>application_zone := empty_rectangle\<rparr>) (display_areas wm')) =
    map attached_windows (map (\<lambda>a. a\<lparr>application_zone := empty_rectangle\<rparr>) (display_areas wm))"
    using assms by (simp add: layout_only_def)
  then show "map attached_windows (display_areas wm') = map attached_windows (display_areas wm)" by (simp add: comp_def)
  then show "length (display_areas wm') = length (display_areas wm)" using map_eq_imp_length_eq by blast
qed (use geometry_only_fields [of wm "wm'\<lparr>display_areas := display_areas wm\<rparr>"] assms in \<open>simp_all add: layout_only_def\<close>)

lemma attached_ok_alt:
  "attached_ok wm \<longleftrightarrow> set (fullscreen_surfaces wm) \<subseteq> dom (window_info wm) \<and>
     (\<forall>ws\<in>set (map attached_windows (display_areas wm)). \<forall>w\<in>set ws. \<exists>i. window_info wm w = Some i \<and> attaching (wi_state i))"
  by (simp add: attached_ok_def)

lemma layout_only_attached: "layout_only wm wm' \<Longrightarrow> attached_ok wm \<Longrightarrow> attached_ok wm'"
proof -
  assume l: "layout_only wm wm'" and a: "attached_ok wm"
  have "\<exists>j. window_info wm' w = Some j \<and> attaching (wi_state j)" if "window_info wm w = Some i" "attaching (wi_state i)" for w i
    using layout_only_info [OF l that(1)] that(2) by (auto dest: unplaced_fields(3))
  then show ?thesis
    using a layout_only_fields(2,3) [OF l] same_links_dom [OF layout_only_links [OF l]] unfolding attached_ok_alt by metis
qed

lemma place_attached_ends:
  assumes "forest wm" "window_info wm w = Some i" "attaching (wi_state i)"
  shows "\<exists>wm'. place_attached_to_zone env w zone area wm = Some (ret () wm') \<and> geometry_only wm wm'"
proof -
  obtain r where "attached_placement i zone area = Some r"
    using assms(3) by (auto simp: attached_placement_def attaching_def Let_def)
  moreover have "w \<in> dom (window_info wm)" using assms(2) by blast
  ultimately show ?thesis
    using place_and_size_ends [OF assms(1), of w] assms(2) by (simp add: place_attached_to_zone_def Let_def)
qed

definition all_attaching :: "window list \<Rightarrow> 'u window_manager \<Rightarrow> bool" where
  "all_attaching ws wm \<longleftrightarrow> forest wm \<and> (\<forall>w\<in>set ws. \<exists>i. window_info wm w = Some i \<and> attaching (wi_state i))"

lemma all_attaching_geometry: "geometry_only wm wm' \<Longrightarrow> all_attaching ws wm \<Longrightarrow> all_attaching ws wm'"
  unfolding all_attaching_def using geometry_only_info geometry_only_links same_links_forest
  by (metis unplaced_fields(3))

lemma exclusive_pass_ends:
  "all_attaching ws wm \<Longrightarrow> \<exists>z wm'. exclusive_pass env area ws zone wm = Some (ret z wm') \<and> geometry_only wm wm'"
proof (induction ws arbitrary: zone wm)
  case (Cons w ws)
  then obtain i where i: "window_info wm w = Some i" "attaching (wi_state i)" by (auto simp: all_attaching_def)
  obtain wm1 where wm1: "place_attached_to_zone env w zone area wm = Some (ret () wm1)" "geometry_only wm wm1"
    using place_attached_ends [OF _ i, of env zone area] Cons.prems unfolding all_attaching_def by blast
  obtain j where j: "window_info wm1 w = Some j" using geometry_only_info [OF wm1(2) i(1)] by auto
  have "all_attaching ws wm" using Cons.prems by (simp add: all_attaching_def)
  then have "all_attaching ws wm1" by (rule all_attaching_geometry [OF wm1(2)])
  moreover obtain zone' where "exclusive_pass env area (w # ws) zone wm = exclusive_pass env area ws zone' wm1"
    using wm1(1) j by simp
  ultimately show ?case using Cons.IH [of wm1 zone'] geometry_only_trans [OF wm1(2)] by metis
qed simp

lemma area_kept:
  assumes "geometry_only wm wm'"
  shows "layout_only wm (wm'\<lparr>display_areas := (display_areas wm')[n := (display_areas wm' ! n)\<lparr>application_zone := zone\<rparr>]\<rparr>)"
proof -
  have "map (\<lambda>a. a\<lparr>application_zone := empty_rectangle\<rparr>) ((display_areas wm)[n := (display_areas wm ! n)\<lparr>application_zone := zone\<rparr>]) =
    map (\<lambda>a. a\<lparr>application_zone := empty_rectangle\<rparr>) (display_areas wm)"
  proof (rule nth_equalityI)
    fix k assume "k < length (map (\<lambda>a. a\<lparr>application_zone := empty_rectangle\<rparr>) ((display_areas wm)[n := (display_areas wm ! n)\<lparr>application_zone := zone\<rparr>]))"
    then show "map (\<lambda>a. a\<lparr>application_zone := empty_rectangle\<rparr>) ((display_areas wm)[n := (display_areas wm ! n)\<lparr>application_zone := zone\<rparr>]) ! k =
      map (\<lambda>a. a\<lparr>application_zone := empty_rectangle\<rparr>) (display_areas wm) ! k"
      by (cases "k = n") simp_all
  qed simp
  moreover have "wm'\<lparr>display_areas := display_areas wm\<rparr> = wm'"
    using geometry_only_fields(2) [OF assms] by (cases wm') simp
  then have "geometry_only wm (wm'\<lparr>display_areas := display_areas wm\<rparr>)" using assms by simp
  ultimately show ?thesis using assms geometry_only_fields(2) [OF assms] by (simp add: layout_only_def)
qed

lemma update_area_ends:
  assumes "forest wm" "attached_ok wm" "n < length (display_areas wm)"
  shows "\<exists>wm'. update_area env n wm = Some (ret () wm') \<and> layout_only wm wm'"
proof -
  let ?area = "display_areas wm ! n" and ?check = "\<lambda>w wm. go_on (info_for w wm) (\<lambda>_ wm. Some (ret () wm))"
  define first where "first = filter (exclusive_attached wm) (attached_windows ?area)"
  define second where "second = filter (\<lambda>w. \<not> exclusive_attached wm w) (attached_windows ?area)"
  have all: "all_attaching (attached_windows ?area) wm"
    using assms nth_mem [OF assms(3)] by (auto simp: attached_ok_def all_attaching_def)
  then have some: "all_attaching first wm" "all_attaching second wm" by (simp_all add: all_attaching_def first_def second_def)
  have check: "run_each ?check (attached_windows ?area) wm = Some (ret () wm)"
  proof -
    have "\<exists>s'. run_each ?check (attached_windows ?area) wm = Some (ret () s') \<and> s' = wm"
      using all by (intro run_each_invariant) (auto simp: all_attaching_def)
    then show ?thesis by blast
  qed
  obtain zone wm1 where wm1: "exclusive_pass env (area_rect ?area) first (area_rect ?area) wm = Some (ret zone wm1)" "geometry_only wm wm1"
    using exclusive_pass_ends [OF some(1)] by blast
  have "\<exists>s'. run_each (\<lambda>w. place_attached_to_zone env w zone (area_rect ?area)) second wm1 = Some (ret () s') \<and> geometry_only wm s'"
  proof (rule run_each_invariant [where I = "geometry_only wm", OF _ wm1(2)])
    fix w s assume w: "w \<in> set second" "geometry_only wm s"
    then have "all_attaching second s" using all_attaching_geometry some(2) by blast
    then obtain i where "forest s" "window_info s w = Some i" "attaching (wi_state i)" using w(1) by (auto simp: all_attaching_def)
    from place_attached_ends [OF this] show "\<exists>s'. place_attached_to_zone env w zone (area_rect ?area) s = Some (ret () s') \<and> geometry_only wm s'"
      using geometry_only_trans [OF w(2)] by blast
  qed
  then obtain wm2 where wm2: "run_each (\<lambda>w. place_attached_to_zone env w zone (area_rect ?area)) second wm1 = Some (ret () wm2)"
    "geometry_only wm wm2" by blast
  let ?final = "if zone \<noteq> application_zone (display_areas wm2 ! n)
     then (call (Advise_application_zone_update zone (application_zone (display_areas wm2 ! n))) wm2)
            \<lparr>display_areas := (display_areas wm2)[n := (display_areas wm2 ! n)\<lparr>application_zone := zone\<rparr>]\<rparr> else wm2"
  have "update_area env n wm = Some (ret () ?final)"
    unfolding update_area_def Let_def first_def [symmetric] second_def [symmetric] by (simp add: check wm1(1) wm2(1))
  moreover have "layout_only wm ?final"
    using area_kept [OF geometry_only_trans [OF wm2(2) geometry_only_call]] layout_only_geometry [OF wm2(2)] by simp
  ultimately show ?thesis by blast
qed

lemma update_windows_for_outputs_ends:
  assumes "forest wm" "attached_ok wm"
  shows "\<exists>wm'. update_windows_for_outputs env wm = Some (ret () wm') \<and> layout_only wm wm'"
proof -
  let ?full = "\<lambda>w wm. go_on (info_for w wm) (\<lambda>info wm.
     let r = confirm_placement_on_display env w info State_fullscreen (area_at wm (window_rect info) (display_area_for w info wm))
     in place_and_size (confirm_inherited_move env) w (top_left r) (rsize r) wm)"
  have "\<exists>s'. run_each ?full (fullscreen_surfaces wm) wm = Some (ret () s') \<and> geometry_only wm s'"
  proof (rule run_each_invariant)
    fix w s assume w: "w \<in> set (fullscreen_surfaces wm)" "geometry_only wm s"
    then obtain i where "window_info wm w = Some i" using assms(2) by (auto simp: attached_ok_def)
    then obtain j where j: "window_info s w = Some j" using geometry_only_info [OF w(2)] by blast
    have "forest s" using assms(1) geometry_only_links [OF w(2)] same_links_forest by blast
    from place_and_size_ends [OF this, of w] j show "\<exists>s'. ?full w s = Some (ret () s') \<and> geometry_only wm s'"
      using geometry_only_trans [OF w(2)] by (simp add: Let_def) (metis domI)
  qed simp
  then obtain wm1 where wm1: "run_each ?full (fullscreen_surfaces wm) wm = Some (ret () wm1)" "geometry_only wm wm1" by blast
  have "\<exists>s'. run_each (update_area env) [0 ..< length (display_areas wm1)] wm1 = Some (ret () s') \<and> layout_only wm s'"
  proof (rule run_each_invariant [where I = "layout_only wm", OF _ layout_only_geometry [OF wm1(2)]])
    fix n s assume n: "n \<in> set [0 ..< length (display_areas wm1)]" "layout_only wm s"
    have "forest s" using assms(1) layout_only_links [OF n(2)] same_links_forest by blast
    moreover have "n < length (display_areas s)"
      using n layout_only_fields(11) [OF n(2)] geometry_only_fields(2) [OF wm1(2)] by simp
    ultimately obtain s' where "update_area env n s = Some (ret () s')" "layout_only s s'"
      using update_area_ends layout_only_attached [OF n(2) assms(2)] by blast
    then show "\<exists>s'. update_area env n s = Some (ret () s') \<and> layout_only wm s'" using layout_only_trans [OF n(2)] by blast
  qed
  then show ?thesis unfolding update_windows_for_outputs_def using wm1(1) by simp
qed

section \<open>Properties\<close>

definition sample_env :: "'u wm_env" where
  "sample_env = \<lparr>confirm_inherited_move = inherit_move, confirm_placement_on_display = (\<lambda>w i st r. r),
     content_area = (\<lambda>w i. window_rect i)\<rparr>"

lemma best_area_step:
  "\<exists>md' best'. best_area r i (a # areas) mo md best = best_area r (Suc i) areas (max mo (overlap_area r a)) md' best'"
  by (cases "overlap_area r a > mo"; cases "mo = 0 \<and> separation r a < md") (auto simp: Let_def max_def not_less)

lemma best_area_keeps: "\<forall>a\<in>set areas. overlap_area r a \<le> mo \<Longrightarrow> 0 < mo \<Longrightarrow> best_area r i areas mo md best = best"
  by (induction areas arbitrary: i) (auto simp: Let_def not_less)

lemma best_area_maximal:
  assumes "\<exists>a\<in>set areas. overlap_area r a > mo" "0 \<le> mo"
  shows "\<exists>k<length areas. best_area r i areas mo md best = Some (i + k) \<and>
    (\<forall>a\<in>set areas. overlap_area r a \<le> overlap_area r (areas ! k)) \<and> overlap_area r (areas ! k) > mo"
  using assms
proof (induction areas arbitrary: i mo md best)
  case (Cons a areas)
  show ?case
  proof (cases "\<exists>b\<in>set areas. overlap_area r b > max mo (overlap_area r a)")
    case True
    obtain md' best' where step: "best_area r i (a # areas) mo md best = best_area r (Suc i) areas (max mo (overlap_area r a)) md' best'"
      using best_area_step by blast
    have "0 \<le> max mo (overlap_area r a)" using Cons.prems(2) by simp
    from Cons.IH [OF True this, of "Suc i" md' best'] obtain k where "k < length areas"
      "best_area r (Suc i) areas (max mo (overlap_area r a)) md' best' = Some (Suc i + k)"
      "overlap_area r (areas ! k) > max mo (overlap_area r a)" "\<forall>b\<in>set areas. overlap_area r b \<le> overlap_area r (areas ! k)" by blast
    then show ?thesis unfolding step by (intro exI [of _ "Suc k"]) auto
  next
    case False
    then have "overlap_area r a > mo" "\<forall>b\<in>set areas. overlap_area r b \<le> overlap_area r a"
      using Cons.prems by (auto simp: max_def not_less split: if_splits)
    then show ?thesis using best_area_keeps [of areas r "overlap_area r a"] Cons.prems(2)
      by (intro exI [of _ 0]) (simp add: Let_def)
  qed
qed simp

lemma best_area_nearest:
  assumes "\<forall>a\<in>set areas. overlap_area r a \<le> 0"
  shows "best_area r i areas 0 md best = best \<and> (\<forall>a\<in>set areas. md \<le> separation r a) \<or>
    (\<exists>k<length areas. best_area r i areas 0 md best = Some (i + k) \<and> separation r (areas ! k) < md \<and>
       (\<forall>a\<in>set areas. separation r (areas ! k) \<le> separation r a))"
  using assms
proof (induction areas arbitrary: i md best)
  case (Cons a areas)
  let ?near = "separation r a < md"
  have step: "best_area r i (a # areas) 0 md best =
      best_area r (Suc i) areas 0 (if ?near then separation r a else md) (if ?near then Some i else best)"
    using Cons.prems by (auto simp: Let_def)
  have "\<forall>a\<in>set areas. overlap_area r a \<le> 0" using Cons.prems by simp
  from Cons.IH [OF this, of "Suc i" "if ?near then separation r a else md" "if ?near then Some i else best"]
  show ?case
  proof
    assume "best_area r (Suc i) areas 0 (if ?near then separation r a else md) (if ?near then Some i else best) = (if ?near then Some i else best) \<and>
      (\<forall>b\<in>set areas. (if ?near then separation r a else md) \<le> separation r b)"
    then show ?thesis unfolding step by (cases ?near) (auto intro: exI [of _ 0])
  next
    assume "\<exists>k<length areas. best_area r (Suc i) areas 0 (if ?near then separation r a else md) (if ?near then Some i else best) = Some (Suc i + k) \<and>
      separation r (areas ! k) < (if ?near then separation r a else md) \<and> (\<forall>b\<in>set areas. separation r (areas ! k) \<le> separation r b)"
    then obtain k where "k < length areas" "separation r (areas ! k) < (if ?near then separation r a else md)"
      "best_area r (Suc i) areas 0 (if ?near then separation r a else md) (if ?near then Some i else best) = Some (Suc i + k)"
      "\<forall>b\<in>set areas. separation r (areas ! k) \<le> separation r b" by blast
    then show ?thesis unfolding step by (intro disjI2 exI [of _ "Suc k"]) (auto split: if_splits)
  qed
qed simp

lemma first_index_None: "first_index P xs = None \<longleftrightarrow> (\<forall>x\<in>set xs. \<not> P x)"
  by (induction xs) auto

lemma first_index_Some: "first_index P xs = Some n \<longleftrightarrow> n < length xs \<and> P (xs ! n) \<and> (\<forall>k<n. \<not> P (xs ! k))"
proof (induction xs arbitrary: n)
  case (Cons x xs)
  then show ?case by (cases n) (auto simp: less_Suc_eq_0_disj)
qed simp

lemma first_index_Some': "x \<in> set xs \<Longrightarrow> P x \<Longrightarrow> \<exists>n<length xs. first_index P xs = Some n"
  using first_index_None [of P xs] first_index_Some [of P xs] by (cases "first_index P xs") auto

text \<open>
  Every window belongs to a display as long as there is one.  A window that asks for an output that exists is on it;
  otherwise an attached window is where it is attached; otherwise a window is on a display that it covers
  most of, and if it is outside all displays, on a nearest one.
\<close>

theorem window_is_on_the_display_it_covers_most:
  assumes "display_areas wm \<noteq> []" "\<forall>a\<in>set (display_areas wm). separation (window_rect i) (area_rect a) < int_max"
  shows "\<exists>n<length (display_areas wm). display_area_for w i wm = Some n \<and> (let area = display_areas wm ! n in
    if \<exists>oid a. wi_output_id i = Some oid \<and> a \<in> set (display_areas wm) \<and> has_output oid a
    then \<exists>oid. wi_output_id i = Some oid \<and> has_output oid area
    else if \<exists>a\<in>set (display_areas wm). w \<in> set (attached_windows a) then w \<in> set (attached_windows area)
    else if \<exists>a\<in>set (display_areas wm). overlap_area (window_rect i) (area_rect a) > 0
    then \<forall>a\<in>set (display_areas wm). overlap_area (window_rect i) (area_rect a) \<le> overlap_area (window_rect i) (area_rect area)
    else \<forall>a\<in>set (display_areas wm). separation (window_rect i) (area_rect area) \<le> separation (window_rect i) (area_rect a))"
proof -
  let ?as = "display_areas wm" and ?r = "window_rect i"
  consider oid n where "wi_output_id i = Some oid" "first_index (has_output oid) ?as = Some n"
    | n where "Option.bind (wi_output_id i) (\<lambda>oid. first_index (has_output oid) ?as) = None"
        "first_index (\<lambda>a. w \<in> set (attached_windows a)) ?as = Some n"
    | "Option.bind (wi_output_id i) (\<lambda>oid. first_index (has_output oid) ?as) = None"
        "first_index (\<lambda>a. w \<in> set (attached_windows a)) ?as = None"
    by (cases "wi_output_id i") (auto, metis not_None_eq)+
  then show ?thesis
  proof cases
    case 1
    then have "n < length ?as" "has_output oid (?as ! n)" by (auto simp: first_index_Some)
    with 1 show ?thesis by (auto simp: display_area_for_def Let_def)
  next
    case 2
    then have "n < length ?as" "w \<in> set (attached_windows (?as ! n))" by (auto simp: first_index_Some)
    moreover have "\<not> has_output oid a" if "wi_output_id i = Some oid" "a \<in> set ?as" for oid a
      using 2(1) that by (auto simp: first_index_None)
    ultimately show ?thesis using 2 by (auto simp: display_area_for_def Let_def intro!: exI [of _ n])
  next
    case 3
    have no: "\<not> (\<exists>oid a. wi_output_id i = Some oid \<and> a \<in> set ?as \<and> has_output oid a)" "\<not> (\<exists>a\<in>set ?as. w \<in> set (attached_windows a))"
      using 3 by (auto simp: first_index_None)
    have f: "display_area_for w i wm = best_area ?r 0 (map area_rect ?as) 0 int_max None"
      using 3 by (simp add: display_area_for_def Let_def)
    show ?thesis
    proof (cases "\<exists>a\<in>set ?as. overlap_area ?r (area_rect a) > 0")
      case True
      then show ?thesis
        using best_area_maximal [where areas = "map area_rect ?as" and r = ?r and mo = 0 and i = 0 and md = int_max and best = None] no unfolding f by (auto simp: Let_def)
    next
      case False
      then have "\<forall>a\<in>set (map area_rect ?as). overlap_area ?r a \<le> 0" by (auto simp: not_less)
      moreover have "\<not> (\<forall>a\<in>set (map area_rect ?as). int_max \<le> separation ?r a)"
        using assms(2) hd_in_set [OF assms(1)] by (auto simp: not_le)
      ultimately obtain k where "k < length ?as"
        "best_area ?r 0 (map area_rect ?as) 0 int_max None = Some k" "\<forall>a\<in>set ?as. separation ?r (area_rect (?as ! k)) \<le> separation ?r (area_rect a)"
        using best_area_nearest [of "map area_rect ?as" ?r 0 int_max None] by auto
      then show ?thesis using False no unfolding f by (auto simp: Let_def)
    qed
  qed
qed

definition two_displays :: "unit window_manager" where
  "two_displays = sample_wm\<lparr>display_areas := map (\<lambda>n. let r = Rectangle (Point (1000 * n) 0) (Size 1000 800) in
     \<lparr>area_rect = r, application_zone = r, area_output = Some \<lparr>output_card = 0, output_id = n, output_extents = r\<rparr>, attached_windows = []\<rparr>) [0, 1]\<rparr>"

theorem window_is_on_the_display_it_covers_most_witness:
  "display_area_for 1 (plain_window\<lparr>window_top_left := Point 900 10, window_size := Size 300 200\<rparr>) two_displays = Some 1"
proof -
  let ?i = "plain_window\<lparr>window_top_left := Point 900 10, window_size := Size 300 200\<rparr>"
  have "display_areas two_displays \<noteq> []" by (simp add: two_displays_def)
  moreover have "\<forall>a\<in>set (display_areas two_displays). separation (window_rect ?i) (area_rect a) < int_max"
    by (simp add: two_displays_def separation_def window_rect_def geom_simps Let_def)
  moreover have o: "overlap_area (window_rect ?i) (area_rect (display_areas two_displays ! 0)) = 20000"
    "overlap_area (window_rect ?i) (area_rect (display_areas two_displays ! 1)) = 40000" "length (display_areas two_displays) = 2"
    by (simp_all add: two_displays_def overlap_area_def window_rect_def intersection_with_def geom_simps Let_def)
  moreover have "wi_output_id ?i = None" "\<not> (\<exists>a\<in>set (display_areas two_displays). 1 \<in> set (attached_windows a))"
    by (simp_all add: two_displays_def window_samples Let_def)
  moreover have in1: "display_areas two_displays ! 1 \<in> set (display_areas two_displays)" using o(3) by simp
  moreover from in1 o(2) have "\<exists>a\<in>set (display_areas two_displays). overlap_area (window_rect ?i) (area_rect a) > 0" by force
  ultimately obtain n where n: "n < 2" "display_area_for 1 ?i two_displays = Some n"
    "\<forall>a\<in>set (display_areas two_displays). overlap_area (window_rect ?i) (area_rect a) \<le>
       overlap_area (window_rect ?i) (area_rect (display_areas two_displays ! n))"
    using window_is_on_the_display_it_covers_most [of two_displays ?i 1] by (simp add: Let_def split: if_splits) blast
  have "n \<noteq> 0"
  proof
    assume "n = 0"
    with bspec [OF n(3) in1] o(1,2) show False by simp
  qed
  with n show ?thesis by (cases n) auto
qed

text \<open>
  The sets of fullscreen and attached windows follow a window's state.  After an update for a state a window
  is among the fullscreen windows exactly if that state is fullscreen, and attached to a display exactly if
  the state is a maximized or attached one and the display is the window's; so it is attached to one display
  at most.  The sets' other members, the displays' areas and zones and their order do not change.
\<close>

theorem attachment_follows_state:
  assumes "distinct (fullscreen_surfaces wm)" "\<forall>a\<in>set (display_areas wm). distinct (attached_windows a)"
    and "wm' = update_attached_and_fullscreen_sets w i st wm"
  shows "(w \<in> set (fullscreen_surfaces wm') \<longleftrightarrow> st = State_fullscreen) \<and>
    length (display_areas wm') = length (display_areas wm) \<and>
    (\<forall>n<length (display_areas wm).
       (w \<in> set (attached_windows (display_areas wm' ! n)) \<longleftrightarrow> attaching st \<and> display_area_for w i (detach_window w wm) = Some n) \<and>
       set (attached_windows (display_areas wm' ! n)) - {w} = set (attached_windows (display_areas wm ! n)) - {w} \<and>
       (display_areas wm' ! n)\<lparr>attached_windows := []\<rparr> = (display_areas wm ! n)\<lparr>attached_windows := []\<rparr>) \<and>
    set (fullscreen_surfaces wm') - {w} = set (fullscreen_surfaces wm) - {w} \<and>
    wm'\<lparr>fullscreen_surfaces := fullscreen_surfaces wm, display_areas := display_areas wm\<rparr> = wm"
proof -
  let ?d = "detach_window w wm"
  have d: "set (fullscreen_surfaces ?d) = set (fullscreen_surfaces wm) - {w}" "length (display_areas ?d) = length (display_areas wm)"
    "?d\<lparr>fullscreen_surfaces := fullscreen_surfaces wm, display_areas := display_areas wm\<rparr> = wm"
    using assms(1) by (simp_all add: detach_window_def)
  have a: "(display_areas ?d ! n)\<lparr>attached_windows := []\<rparr> = (display_areas wm ! n)\<lparr>attached_windows := []\<rparr> \<and>
      set (attached_windows (display_areas ?d ! n)) = set (attached_windows (display_areas wm ! n)) - {w}"
    if "n < length (display_areas wm)" for n
    using that assms(2) nth_mem [OF that] by (simp add: detach_window_def)
  have st: "\<not> (attaching st \<and> st = State_fullscreen)" by (auto simp: attaching_def)
  have put: "wm'\<lparr>fullscreen_surfaces := fullscreen_surfaces wm, display_areas := display_areas wm\<rparr> =
      ?d\<lparr>fullscreen_surfaces := fullscreen_surfaces wm, display_areas := display_areas wm\<rparr>"
    unfolding assms(3) update_attached_and_fullscreen_sets_def Let_def by (simp split: option.split)
  consider "st = State_fullscreen" | n where "attaching st" "display_area_for w i ?d = Some n"
    | "st \<noteq> State_fullscreen" "\<not> attaching st \<or> display_area_for w i ?d = None" by (cases "display_area_for w i ?d") auto
  then show ?thesis
  proof cases
    case 1
    then have "wm' = ?d\<lparr>fullscreen_surfaces := insort_insert w (fullscreen_surfaces ?d)\<rparr>"
      by (simp add: assms(3) update_attached_and_fullscreen_sets_def Let_def)
    with 1 d a st put show ?thesis by (auto simp: set_insort_insert)
  next
    case (2 n)
    then have wm': "wm' = ?d\<lparr>display_areas := (display_areas ?d)[n := (display_areas ?d ! n)
        \<lparr>attached_windows := insort_insert w (attached_windows (display_areas ?d ! n))\<rparr>]\<rparr>"
      using st by (auto simp: assms(3) update_attached_and_fullscreen_sets_def Let_def)
    have "display_areas wm' ! k = (if k = n then (display_areas ?d ! n)\<lparr>attached_windows := insort_insert w (attached_windows (display_areas ?d ! n))\<rparr>
        else display_areas ?d ! k)" if "k < length (display_areas wm)" for k
      using that d(2) by (simp add: wm')
    moreover have "length (display_areas wm') = length (display_areas wm)" "fullscreen_surfaces wm' = fullscreen_surfaces ?d"
      using d(2) by (simp_all add: wm')
    ultimately show ?thesis using 2 d a st put by (auto simp: set_insort_insert)
  next
    case 3
    then have "wm' = ?d" by (auto simp: assms(3) update_attached_and_fullscreen_sets_def Let_def)
    with 3 d a show ?thesis by auto
  qed
qed

theorem attachment_follows_state_witness:
  "map attached_windows (display_areas (update_attached_and_fullscreen_sets 1 (plain_window\<lparr>wi_output_id := Some 1\<rparr>) State_maximized two_displays)) =
     [[], [1]]"
proof -
  let ?i = "plain_window\<lparr>wi_output_id := Some 1\<rparr>"
  let ?wm = "update_attached_and_fullscreen_sets 1 ?i State_maximized two_displays"
  have "distinct (fullscreen_surfaces two_displays)" "\<forall>a\<in>set (display_areas two_displays). distinct (attached_windows a)"
    "length (display_areas two_displays) = 2"
    by (simp_all add: two_displays_def sample_wm_def Let_def)
  with attachment_follows_state [OF this(1,2) refl, of 1 ?i State_maximized] have "length (display_areas ?wm) = 2"
    "1 \<notin> set (attached_windows (display_areas ?wm ! 0))" "1 \<in> set (attached_windows (display_areas ?wm ! 1))"
    by (auto simp: two_displays_def Let_def display_area_for_def has_output_def attaching_def detach_window_def)
  then show ?thesis
    by (simp add: update_attached_and_fullscreen_sets_def display_area_for_def has_output_def attaching_def detach_window_def
        two_displays_def sample_wm_def Let_def insort_insert_key_def)
qed
lemma in_set_updateD: "a \<in> set (xs[n := y]) \<Longrightarrow> a \<in> set xs \<or> n < length xs \<and> a = y"
  using set_update_subset_insert [of xs n y] by (cases "n < length xs") (auto simp: not_less list_update_beyond)

lemma update_sets_attached_ok:
  assumes "attached_ok wm" "window_info wm w = Some i"
  shows "attached_ok (update_attached_and_fullscreen_sets w i (wi_state i) wm)"
proof -
  have d: "attached_ok (detach_window w wm)" using assms(1)
    by (auto simp: attached_ok_def detach_window_def dest!: subsetD [OF set_remove1_subset])
  have w: "window_info (detach_window w wm) w = Some i" using assms(2) by (simp add: detach_window_def)
  show ?thesis
    using d w unfolding update_attached_and_fullscreen_sets_def Let_def attached_ok_def
    by (auto simp: set_insort_insert split: option.split dest!: in_set_updateD) (use nth_mem in blast)
qed

lemma attached_ok_fewer:
  assumes "attached_ok wm" "window_info wm' = window_info wm" "fullscreen_surfaces wm' = fullscreen_surfaces wm"
    and "\<forall>a\<in>set (display_areas wm'). attached_windows a = [] \<or> (\<exists>b\<in>set (display_areas wm). attached_windows a = attached_windows b)"
  shows "attached_ok wm'"
  using assms unfolding attached_ok_def by fastforce

definition steady :: "'u window_manager \<Rightarrow> bool" where
  "steady wm \<longleftrightarrow> forest wm \<and> attached_ok wm"

lemma update_windows_steady:
  assumes "steady wm"
  shows "\<exists>wm'. update_windows_for_outputs env wm = Some (ret () wm') \<and> steady wm' \<and> layout_only wm wm'"
  using update_windows_for_outputs_ends [of wm env] assms layout_only_attached layout_only_links same_links_forest
  unfolding steady_def by blast

lemma steady_same: "window_info wm' = window_info wm \<Longrightarrow> attached_ok wm' \<Longrightarrow> steady wm \<Longrightarrow> steady wm'"
  using forest_same_windows [of wm' wm] by (simp add: steady_def)

lemma steady_call [simp]: "steady (call c wm) = steady wm"
  using forest_same_windows [of "call c wm" wm] by (simp add: steady_def attached_ok_def)

text \<open>
  C25: Windows in order survive any number of changes of the outputs.  In order means that the windows form a forest, that the fullscreen and
  attached windows are known, and that every window attached to a display area has a state that can be placed; giving the
  focus to an attached window that has no content yet breaks this, because \<open>select_active_window\<close> restores it but leaves it attached.  Then, when an output is created,
  changed or deleted, with any policy for placing windows, the window manager adapts the windows without a fatal error and without
  running forever, and the windows are in order again, so that the next change is survived too.
\<close>

theorem output_changes_are_survived:
  assumes "forest wm" "attached_ok wm"
  shows "(\<exists>wm'. advise_output_create env out wm = Some (ret () wm') \<and> forest wm' \<and> attached_ok wm') \<and>
    (\<exists>wm'. advise_output_update env updated out wm = Some (ret () wm') \<and> forest wm' \<and> attached_ok wm') \<and>
    (\<exists>wm'. advise_output_delete env out wm = Some (ret () wm') \<and> forest wm' \<and> attached_ok wm')"
proof -
  have steady: "steady wm" using assms by (simp add: steady_def)
  let ?l = "locker wm"
  have l: "window_info ?l = window_info wm" "fullscreen_surfaces ?l = fullscreen_surfaces wm" "display_areas ?l = display_areas wm"
    by (simp_all add: locker_def)
  have "\<exists>wm'. advise_output_create env out wm = Some (ret () wm') \<and> steady wm'"
  proof -
    let ?s = "?l\<lparr>outputs := rectangles_add (outputs ?l) (output_extents out), display_areas := display_areas ?l @
      [\<lparr>area_rect = output_extents out, application_zone = output_extents out, area_output = Some out, attached_windows = []\<rparr>]\<rparr>"
    have "attached_ok ?s" by (rule attached_ok_fewer [OF assms(2)]) (auto simp: l)
    then have "steady ?s" by (rule steady_same [rotated, OF _ steady]) (simp add: l)
    from update_windows_steady [OF this, of env] show ?thesis by (auto simp: advise_output_create_def Let_def)
  qed
  moreover have "\<exists>wm'. advise_output_update env updated out wm = Some (ret () wm') \<and> steady wm'"
  proof -
    let ?s = "?l\<lparr>outputs := rectangles_add (rectangles_remove (outputs ?l) (output_extents out)) (output_extents updated),
      display_areas := map (\<lambda>a. case area_output a of
          Some o' \<Rightarrow> if same_output o' out then a\<lparr>area_output := Some updated, area_rect := output_extents updated\<rparr> else a
        | None \<Rightarrow> a) (display_areas ?l)\<rparr>"
    have "attached_ok ?s" by (rule attached_ok_fewer [OF assms(2)]) (auto simp: l split: option.split)
    then have "steady ?s" by (rule steady_same [rotated, OF _ steady]) (simp add: l)
    from update_windows_steady [OF this, of env] show ?thesis by (auto simp: advise_output_update_def Let_def)
  qed
  moreover have "\<exists>wm'. advise_output_delete env out wm = Some (ret () wm') \<and> steady wm'"
  proof -
    let ?gone = "\<lambda>a. case area_output a of Some o' \<Rightarrow> same_output o' out | None \<Rightarrow> False"
    let ?ws = "concat (map attached_windows (filter ?gone (display_areas ?l)))"
    let ?s = "?l\<lparr>display_areas := filter (\<lambda>a. \<not> ?gone a) (display_areas ?l), outputs := rectangles_remove (outputs ?l) (output_extents out)\<rparr>"
    let ?move = "\<lambda>w wm. go_on (info_for w wm) (\<lambda>info wm. Some (ret () (update_attached_and_fullscreen_sets w info (wi_state info) wm)))"
    have "attached_ok ?s" by (rule attached_ok_fewer [OF assms(2)]) (auto simp: l)
    then have "\<exists>s'. run_each ?move ?ws ?s = Some (ret () s') \<and> (window_info s' = window_info wm \<and> attached_ok s')"
    proof (intro run_each_invariant)
      fix w s assume w: "w \<in> set ?ws" "window_info s = window_info wm \<and> attached_ok s"
      then obtain a where "a \<in> set (display_areas wm)" "w \<in> set (attached_windows a)" by (auto simp: l)
      then obtain i where "window_info wm w = Some i" using assms(2) unfolding attached_ok_def by blast
      with w(2) show "\<exists>s'. ?move w s = Some (ret () s') \<and> (window_info s' = window_info wm \<and> attached_ok s')"
        using update_sets_attached_ok [of s w i]
        by (auto simp: update_attached_and_fullscreen_sets_def detach_window_def Let_def split: option.split)
    qed (simp add: l)
    then obtain s' where s': "run_each ?move ?ws ?s = Some (ret () s')" "window_info s' = window_info wm" "attached_ok s'" by blast
    from update_windows_steady [OF steady_same [OF s'(2,3) steady], of env] obtain t where
      t: "update_windows_for_outputs env s' = Some (ret () t)" "steady t" by blast
    have "steady (fold (\<lambda>a. call (f a)) as t)" for f :: "display_area \<Rightarrow> wm_call" and as
      using t(2) by (induction as arbitrary: t) simp_all
    then show ?thesis using s'(1) t(1) by (simp add: advise_output_delete_def Let_def)
  qed
  ultimately show ?thesis unfolding steady_def by blast
qed

theorem output_changes_are_survived_witness:
  "\<exists>wm'. advise_output_delete sample_env \<lparr>output_card = 0, output_id = 1, output_extents = Rectangle (Point 1000 0) (Size 1000 800)\<rparr>
      two_displays = Some (ret () wm') \<and> attached_ok wm'"
proof -
  have "forest two_displays" using sample_wm_forest forest_same_windows [of two_displays sample_wm] by (simp add: two_displays_def)
  moreover have "attached_ok two_displays" by (simp add: attached_ok_def two_displays_def sample_wm_def Let_def)
  ultimately show ?thesis using output_changes_are_survived by blast
qed

text \<open>A request that sets the parent and nothing else.\<close>

definition parent_request :: "window \<Rightarrow> unit modification" where
  "parent_request p = window_specification.extend (empty_specification\<lparr>sp_name := None, sp_top_left := None, sp_size := None\<rparr>)
     (modification.fields False (Some (Some p)) None None None)"

lemma parent_request_sel:
  "sp_name (parent_request p) = None" "sp_type (parent_request p) = None" "sp_state (parent_request p) = None"
  "sp_top_left (parent_request p) = None" "sp_size (parent_request p) = None" "sp_output_id (parent_request p) = None"
  "sp_depth_layer (parent_request p) = None" "sp_confine_pointer (parent_request p) = None" "sp_application_id (parent_request p) = None"
  "sp_input_shape (parent_request p) = None" "sp_placement (parent_request p) = None" "sp_parent (parent_request p) = Some (Some p)"
  "sp_attached_edges (parent_request p) = None" "\<not> sp_exclusive_rect_is_set (parent_request p)"
  "sp_state (window_specification.truncate (parent_request p)) = None" "\<not> limits_set (parent_request p)"
  by (simp_all add: parent_request_def empty_specification_def window_specification.defs modification.defs limits_set_def)

lemma parent_request_info: "modified_info (parent_request p) i = i"
  by (simp add: modified_info_def if_set_def parent_request_def empty_specification_def window_specification.defs modification.defs)

lemma own_parent:
  assumes "window_info wm w = Some i" "wi_type i = Type_dialog" "wi_parent i = Some q" "window_info wm q = Some qi" "q \<noteq> w"
  shows "\<exists>wm' j. modify_surface env w (parent_request w) wm = Some (ret () wm') \<and>
    window_info wm' w = Some j \<and> wi_parent j = Some w"
proof -
  let ?l = "locker wm"
  have l: "window_info ?l = window_info wm" by (simp add: locker_def)
  have "modify_surface env w (parent_request w) wm = modify_window env w (parent_request w) ?l"
    using assms(1,2) by (simp add: modify_surface_def l validate_modification_request_def parent_request_sel place_and_size_for_state_def Let_def)
  also have "\<exists>wm' j. \<dots> = Some (ret () wm') \<and> window_info wm' w = Some j \<and> wi_parent j = Some w"
    using assms by (auto simp: modify_window_def l parent_request_sel parent_request_info if_set_def reparented_info_def retyped_info_def
        relink_def apply_geometry_def apply_placement_def add_child_def Let_def)
  finally show ?thesis .
qed

text \<open>
  C40: A dialog may ask to be its own parent and the request is carried out; raising that window then never
  returns.
\<close>

theorem window_can_become_its_own_parent:
  assumes "window_info wm w = Some i" "wi_type i = Type_dialog" "wi_parent i = Some q" "window_info wm q = Some qi" "q \<noteq> w"
  shows "\<exists>wm'. modify_surface env w (parent_request w) wm = Some (ret () wm') \<and> raise_tree w wm' = None"
proof -
  obtain wm' j where "modify_surface env w (parent_request w) wm = Some (ret () wm')" "window_info wm' w = Some j" "wi_parent j = Some w"
    using own_parent [OF assms] by blast
  then show ?thesis using raise_tree_in_a_circle [of "{w}" wm' w] by auto
qed

theorem window_can_become_its_own_parent_witness:
  "\<exists>wm'. modify_surface sample_env 2 (parent_request 2) sample_wm = Some (ret () wm') \<and> raise_tree 2 wm' = None"
proof -
  let ?i = "plain_window\<lparr>wi_type := Type_dialog, wi_parent := Some 1\<rparr>"
  have "window_info sample_wm 2 = Some ?i" "wi_type ?i = Type_dialog" "wi_parent ?i = Some 1"
    "window_info sample_wm 1 = Some (plain_window\<lparr>wi_children := [2]\<rparr>)" by (simp_all add: sample_wm_def)
  from window_can_become_its_own_parent [OF this] show ?thesis by simp
qed

lemma can_retype_iff: "can_retype a b \<longleftrightarrow> a = b \<and> a \<notin> {Type_normal, Type_utility, Type_dialog}"
  by (cases a; cases b) (simp_all add: can_retype_def)

text \<open>
  A request that sets a window's type is refused, with nothing changed, unless it sets the type the window has
  already; for normal, utility and dialog windows it is refused even then.
\<close>

theorem type_changes_are_refused:
  assumes "window_info wm w = Some i" "sp_type mods = Some t" "t \<noteq> wi_type i \<or> t \<in> {Type_normal, Type_utility, Type_dialog}"
  shows "modify_surface env w mods wm = Some (throw (Runtime_error ''Invalid surface type change'') (locker wm))"
  using assms by (auto simp: modify_surface_def locker_def validate_modification_request_def can_retype_iff Let_def)

theorem type_changes_are_refused_witness:
  "can_morph_to Type_dialog Type_satellite \<and> modify_surface sample_env 2 ((parent_request 1)\<lparr>sp_type := Some Type_satellite\<rparr>) sample_wm =
     Some (throw (Runtime_error ''Invalid surface type change'') (locker sample_wm))"
proof -
  have "window_info sample_wm 2 = Some (plain_window\<lparr>wi_type := Type_dialog, wi_parent := Some 1\<rparr>)" by (simp add: sample_wm_def)
  from type_changes_are_refused [OF this, of "(parent_request 1)\<lparr>sp_type := Some Type_satellite\<rparr>" Type_satellite sample_env]
  show ?thesis by (simp add: can_morph_to_def window_samples)
qed

end
