(* ===== verification/Window_Focus.thy ===== *)
theory Window_Focus
  imports Window_Manager
begin

text \<open>
  What the window manager's handling of the focus leaves alone, and that it ends: the searches through the
  recently used windows and through the applications, hiding a window (\<open>set_state\<close>) and removing one
  (\<open>remove_surface\<close>).
\<close>

section \<open>Moving the focus changes little\<close>

definition refocused :: "'u window_manager \<Rightarrow> 'u window_manager \<Rightarrow> bool" where
  "refocused wm wm' \<longleftrightarrow>
     wm'\<lparr>window_info := window_info wm, surface_state := surface_state wm, surface_hidden := surface_hidden wm,
         mru_active_windows := mru_active_windows wm, allow_active_window := allow_active_window wm,
         focused_session := focused_session wm, focused_surface := focused_surface wm, calls := calls wm\<rparr> = wm \<and>
     (\<forall>v. window_info wm' v = window_info wm v \<or> (\<exists>i. window_info wm v = Some i \<and> wi_state i \<noteq> State_hidden \<and>
        window_info wm' v = Some (i\<lparr>wi_state := State_restored\<rparr>))) \<and>
     (\<forall>v i. window_info wm v = Some i \<and> wi_state i = State_hidden \<longrightarrow> surface_state wm' v = surface_state wm v) \<and>
     set (mru_active_windows wm') \<subseteq> set (mru_active_windows wm) \<union> dom (window_info wm)"

lemma refocused_refl [simp]: "refocused wm wm"
  by (simp add: refocused_def)

lemma refocused_info: "refocused wm wm' \<Longrightarrow> window_info wm' v = window_info wm v \<or> (\<exists>i. window_info wm v = Some i \<and>
    wi_state i \<noteq> State_hidden \<and> window_info wm' v = Some (i\<lparr>wi_state := State_restored\<rparr>))"
  by (simp add: refocused_def)

lemma refocused_hidden: "refocused wm wm' \<Longrightarrow> window_info wm v = Some i \<Longrightarrow> wi_state i = State_hidden \<Longrightarrow>
    window_info wm' v = Some i \<and> surface_state wm' v = surface_state wm v"
  using refocused_info [of wm wm' v] by (auto simp: refocused_def)

lemma refocused_links: "refocused wm wm' \<Longrightarrow> same_links wm wm'"
  unfolding same_links_def
proof
  fix v assume "refocused wm wm'"
  from refocused_info [OF this, of v]
  show "map_option (\<lambda>i. (wi_parent i, wi_children i)) (window_info wm' v) = map_option (\<lambda>i. (wi_parent i, wi_children i)) (window_info wm v)"
    by auto
qed

lemma refocused_dom: "refocused wm wm' \<Longrightarrow> dom (window_info wm') = dom (window_info wm)"
  by (simp add: refocused_links same_links_dom)

lemma refocused_trans:
  assumes "refocused a b" "refocused b c"
  shows "refocused a c"
proof -
  let ?put = "\<lambda>x y. x\<lparr>window_info := window_info y, surface_state := surface_state y, surface_hidden := surface_hidden y,
         mru_active_windows := mru_active_windows y, allow_active_window := allow_active_window y,
         focused_session := focused_session y, focused_surface := focused_surface y, calls := calls y\<rparr>"
  have "?put c a = ?put (?put c b) a" by simp
  also have "\<dots> = a" using assms by (simp add: refocused_def)
  finally have "?put c a = a" .
  moreover have "window_info c v = window_info a v \<or> (\<exists>i. window_info a v = Some i \<and> wi_state i \<noteq> State_hidden \<and>
      window_info c v = Some (i\<lparr>wi_state := State_restored\<rparr>))" for v
    using refocused_info [OF assms(1), of v] refocused_info [OF assms(2), of v] by (cases "window_info a v") auto
  moreover have "surface_state c v = surface_state a v" if "window_info a v = Some i" "wi_state i = State_hidden" for v i
    using refocused_hidden [OF assms(1) that] refocused_hidden [OF assms(2)] that by auto
  moreover have "set (mru_active_windows c) \<subseteq> set (mru_active_windows a) \<union> dom (window_info a)"
    using assms refocused_dom [OF assms(1)] by (auto simp: refocused_def)
  ultimately show ?thesis unfolding refocused_def by blast
qed

lemma refocused_fields:
  assumes "refocused wm wm'"
  shows "app_info wm' = app_info wm" "display_areas wm' = display_areas wm" "fullscreen_surfaces wm' = fullscreen_surfaces wm"
    "workspaces_to_windows wm' = workspaces_to_windows wm" "dead_workspaces wm' = dead_workspaces wm"
    "window_application wm' = window_application wm" "surface_posted wm' = surface_posted wm"
proof -
  have wm: "wm'\<lparr>window_info := window_info wm, surface_state := surface_state wm, surface_hidden := surface_hidden wm,
         mru_active_windows := mru_active_windows wm, allow_active_window := allow_active_window wm,
         focused_session := focused_session wm, focused_surface := focused_surface wm, calls := calls wm\<rparr> = wm"
    using assms by (simp add: refocused_def)
  show "app_info wm' = app_info wm" "display_areas wm' = display_areas wm" "fullscreen_surfaces wm' = fullscreen_surfaces wm"
    "workspaces_to_windows wm' = workspaces_to_windows wm" "dead_workspaces wm' = dead_workspaces wm"
    "window_application wm' = window_application wm" "surface_posted wm' = surface_posted wm"
    by (use wm in \<open>cases wm; cases wm'; simp\<close>)+
qed

lemma refocused_stays: "refocused wm wm' \<Longrightarrow> stays wm \<Longrightarrow> stays wm'"
proof -
  assume r: "refocused wm wm'" and s: "stays wm"
  have "set (mru_active_windows wm') \<subseteq> dom (window_info wm')"
    using r s refocused_dom [OF r] by (auto simp: refocused_def stays_def)
  then show ?thesis using s same_links_forest [OF refocused_links [OF r]] by (simp add: stays_def)
qed

lemma refocused_call [simp]: "refocused wm (call c wm)"
  by (simp add: refocused_def call_def)

lemma refocused_focus [simp]:
  "refocused wm (focus_on s w wm)" "refocused wm (wm\<lparr>allow_active_window := b\<rparr>)"
  "refocused wm (wm\<lparr>focused_session := s, focused_surface := w\<rparr>)"
  by (simp_all add: refocused_def focus_on_def call_def)

lemma refocused_push: "w \<in> dom (window_info wm) \<Longrightarrow> refocused wm (wm\<lparr>mru_active_windows := mru_push w (mru_active_windows wm)\<rparr>)"
  by (auto simp: refocused_def mru_push_def)

lemma refocused_show: "window_info wm w = Some i \<Longrightarrow> wi_state i \<noteq> State_hidden \<Longrightarrow> refocused wm (show_restored w i wm)"
  by (auto simp: refocused_def show_restored_def put_info_def call_def)

lemma refocused_activated:
  assumes "window_info wm w = Some i" "wi_state i \<noteq> State_hidden"
  shows "refocused wm (activated prev w i wm)"
proof -
  let ?s1 = "show_restored w i wm"
  let ?s2 = "?s1\<lparr>mru_active_windows := mru_push w (mru_active_windows ?s1)\<rparr>"
  let ?s3 = "focus_on (Some (window_application ?s1 w)) (Some w) ?s2"
  have 1: "refocused wm ?s1" by (rule refocused_show [OF assms])
  have "w \<in> dom (window_info ?s1)" using refocused_dom [OF 1] assms(1) by auto
  then have 3: "refocused wm ?s3" using 1 refocused_push refocused_focus(1) refocused_trans by blast
  have "refocused wm (case prev of Some pw \<Rightarrow> if pw \<noteq> w then call (Advise_focus_lost pw) ?s3 else ?s3 | None \<Rightarrow> ?s3)"
    using 3 refocused_trans [OF 3 refocused_call] by (auto split: option.split)
  then show ?thesis unfolding activated_def Let_def using refocused_trans refocused_call by blast
qed

lemma select_refocuses:
  assumes "stays wm" "w \<in> dom (window_info wm)"
  shows "\<exists>r wm'. select_active_window (Some w) wm = Some (ret r wm') \<and> refocused wm wm' \<and>
    (r = None \<longrightarrow> wm' = wm\<lparr>allow_active_window := True\<rparr>)"
proof -
  obtain i where "window_info wm w = Some i" using assms(2) by auto
  from select_active_window_ends [OF assms(1) this] show ?thesis
    unfolding selects_or_not_def
  proof
    assume "\<exists>a v. (a, w) \<in> (links (parent_window wm))\<^sup>* \<and> (v, a) \<in> (below (children_of wm))\<^sup>* \<and>
      selects v wm (select_active_window (Some w) wm)"
    then obtain v j prev where v: "window_info wm v = Some j" "eligible j"
      "select_active_window (Some w) wm = Some (ret (Some v) (activated prev v j (wm\<lparr>allow_active_window := True\<rparr>)))"
      by (auto simp: selects_def)
    have "refocused (wm\<lparr>allow_active_window := True\<rparr>) (activated prev v j (wm\<lparr>allow_active_window := True\<rparr>))"
      using v(1,2) by (intro refocused_activated) (auto simp: eligible_def)
    with v(3) show ?thesis using refocused_trans [OF refocused_focus(2)] by blast
  qed auto
qed

lemma select_none_refocuses:
  assumes "stays wm"
  shows "\<exists>wm'. select_active_window None wm = Some (ret None wm') \<and> refocused wm wm' \<and> active_window wm' = None"
proof (cases "active_window wm")
  case None
  then have "select_active_window None wm = Some (ret None (wm\<lparr>allow_active_window := False\<rparr>))"
    by (subst select_active_window.simps) simp
  then show ?thesis by (simp add: active_window_def)
next
  case (Some pw)
  let ?s = "focus_on None None (wm\<lparr>allow_active_window := False\<rparr>)"
  have "pw \<in> dom (window_info wm)" using active_window_known [OF _ Some] assms by (simp add: stays_def)
  then have "select_active_window None wm = Some (ret None (call (Advise_focus_lost pw) ?s))"
    using Some by (subst select_active_window.simps) (auto simp: info_for_def)
  moreover have "refocused wm (call (Advise_focus_lost pw) ?s)"
    using refocused_trans [OF refocused_trans [OF refocused_focus(2) refocused_focus(1)] refocused_call] .
  ultimately show ?thesis by (auto simp: active_window_def)
qed

section \<open>The searches end\<close>

abbreviation same_focus :: "'u window_manager \<Rightarrow> 'u window_manager \<Rightarrow> bool" where
  "same_focus wm wm' \<equiv> focused_session wm' = focused_session wm \<and> focused_surface wm' = focused_surface wm"

text \<open>A search that does not find a window leaves the focus where it was.\<close>

definition searches :: "'u window_manager \<Rightarrow> ('u, 'a option) wm_run \<Rightarrow> bool" where
  "searches wm m \<longleftrightarrow> (\<exists>r wm'. m = Some (ret r wm') \<and> refocused wm wm' \<and> (r = None \<longrightarrow> same_focus wm wm'))"

lemma select_searches: "stays wm \<Longrightarrow> w \<in> dom (window_info wm) \<Longrightarrow> searches wm (select_active_window (Some w) wm)"
  using select_refocuses [of wm w] by (auto simp: searches_def)

lemma nothing_searches [simp]: "searches wm (Some (ret None wm))"
  by (simp add: searches_def)

lemma searches_elsewhere:
  assumes "refocused wm wm1" "same_focus wm wm1" "searches wm1 m"
  shows "searches wm m"
  using assms refocused_trans unfolding searches_def by fastforce

lemma run_until_searches:
  assumes "\<And>x s. x \<in> set xs \<Longrightarrow> refocused wm s \<Longrightarrow> searches s (f x s)"
  shows "refocused wm s \<Longrightarrow> searches s (run_until f xs s)"
  using assms
proof (induction xs arbitrary: s)
  case (Cons x xs)
  from Cons.prems(2) [OF _ Cons.prems(1), of x] obtain r s' where
    s': "f x s = Some (ret r s')" "refocused s s'" "r = None \<longrightarrow> same_focus s s'"
    by (auto simp: searches_def)
  have "searches s' (run_until f xs s')"
    using Cons.IH [OF refocused_trans [OF Cons.prems(1) s'(2)]] Cons.prems(2) by simp
  then have "r = None \<longrightarrow> searches s (run_until f xs s')" using s'(3) searches_elsewhere [OF s'(2)] by blast
  then show ?case using s'(1,2) by (cases r) (auto simp: searches_def [of s "Some _"])
qed simp

lemma try_recent_searches:
  assumes "stays wm"
  shows "searches wm (try_recent wanted wm)"
  unfolding try_recent_def
proof (rule run_until_searches [OF _ refocused_refl])
  fix w s assume w: "w \<in> set (rev (mru_active_windows wm))" "refocused wm s"
  then have "stays s" "w \<in> dom (window_info s)"
    using refocused_stays [OF w(2) assms] refocused_dom [OF w(2)] assms by (auto simp: stays_def)
  then show "searches s (if surface_state s w \<noteq> State_hidden \<and> wanted w s then select_active_window (Some w) s else Some (ret None s))"
    using select_searches by auto
qed

lemma session_searches:
  assumes "stays wm"
  shows "searches wm (can_activate_window_for_session app wm)"
    and "searches wm (can_activate_window_for_session_in_workspace app wss wm)"
  using try_recent_searches [OF assms]
  by (simp_all add: can_activate_window_for_session_def can_activate_window_for_session_in_workspace_def)

lemma cycle_applications_step:
  assumes tries: "\<And>a s. stays s \<Longrightarrow> searches s (try a s)" and "stays wm"
  obtains r wm2 where "refocused wm wm2"
    "r = None \<longrightarrow> focused_session wm2 = fst (next (focused_session wm)) \<and> focused_surface wm2 = snd (next (focused_session wm))"
    "cycle_applications next try stop wm =
      (if r \<noteq> None then Some (ret r wm2) else if focused_session wm2 \<noteq> Some stop then cycle_applications next try stop wm2
       else Some (ret None wm2))"
proof -
  let ?wm1 = "wm\<lparr>focused_session := fst (next (focused_session wm)), focused_surface := snd (next (focused_session wm))\<rparr>"
  have "stays ?wm1" using refocused_stays [OF refocused_focus(3) assms(2)] .
  from tries [OF this, of "fst (next (focused_session wm))"] obtain r wm2 where
    wm2: "try (fst (next (focused_session wm))) ?wm1 = Some (ret r wm2)" "refocused ?wm1 wm2" "r = None \<longrightarrow> same_focus ?wm1 wm2"
    unfolding searches_def by blast
  show ?thesis
  proof (rule that)
    show "refocused wm wm2" using refocused_trans [OF refocused_focus(3) wm2(2)] .
    show "cycle_applications next try stop wm =
      (if r \<noteq> None then Some (ret r wm2) else if focused_session wm2 \<noteq> Some stop then cycle_applications next try stop wm2
       else Some (ret None wm2))"
      by (subst cycle_applications.simps) (simp add: wm2(1) split_beta Let_def)
  qed (use wm2(3) in simp)
qed

lemma cycle_applications_ends:
  assumes tries: "\<And>a s. stays s \<Longrightarrow> searches s (try a s)"
    and closed: "\<forall>s\<in>S. fst (next s) \<in> S"
  shows "stays wm \<Longrightarrow> focused_session wm \<in> S \<Longrightarrow> ((\<lambda>s. fst (next s)) ^^ Suc n) (focused_session wm) = Some stop \<Longrightarrow>
    \<exists>r wm'. cycle_applications next try stop wm = Some (ret r wm') \<and> refocused wm wm' \<and>
      (r = None \<longrightarrow> (\<exists>s\<in>S. focused_surface wm' = snd (next s)))"
proof (induction n arbitrary: wm)
  case (Suc n)
  obtain r wm2 where here: "refocused wm wm2"
    "r = None \<longrightarrow> focused_session wm2 = fst (next (focused_session wm)) \<and> focused_surface wm2 = snd (next (focused_session wm))"
    and step: "cycle_applications next try stop wm =
      (if r \<noteq> None then Some (ret r wm2) else if focused_session wm2 \<noteq> Some stop then cycle_applications next try stop wm2
       else Some (ret None wm2))"
    by (rule cycle_applications_step [OF tries Suc.prems(1)])
  show ?case
  proof (cases "r = None \<and> focused_session wm2 \<noteq> Some stop")
    case True
    then have "((\<lambda>s. fst (next s)) ^^ Suc n) (focused_session wm2) = Some stop"
      using here(2) Suc.prems(3) by (simp only: funpow_Suc_right comp_def)
    moreover have "focused_session wm2 \<in> S" using here(2) True closed Suc.prems(2) by simp
    ultimately have "\<exists>r' wm'. cycle_applications next try stop wm2 = Some (ret r' wm') \<and> refocused wm2 wm' \<and>
        (r' = None \<longrightarrow> (\<exists>s\<in>S. focused_surface wm' = snd (next s)))"
      by (intro Suc.IH refocused_stays [OF here(1) Suc.prems(1)])
    then obtain r' wm' where
      "cycle_applications next try stop wm2 = Some (ret r' wm')" "refocused wm2 wm'"
      "r' = None \<longrightarrow> (\<exists>s\<in>S. focused_surface wm' = snd (next s))" by blast
    moreover have "cycle_applications next try stop wm = cycle_applications next try stop wm2" using True step by simp
    ultimately show ?thesis using refocused_trans [OF here(1)] by metis
  next
    case False
    then have "cycle_applications next try stop wm = Some (ret r wm2)" using step by (cases r) simp_all
    then show ?thesis using here Suc.prems(2) by blast
  qed
next
  case 0
  obtain r wm2 where "refocused wm wm2"
    "r = None \<longrightarrow> focused_session wm2 = fst (next (focused_session wm)) \<and> focused_surface wm2 = snd (next (focused_session wm))"
    "cycle_applications next try stop wm =
      (if r \<noteq> None then Some (ret r wm2) else if focused_session wm2 \<noteq> Some stop then cycle_applications next try stop wm2
       else Some (ret None wm2))"
    by (rule cycle_applications_step [OF tries 0(1)])
  moreover from this(2,3) have "cycle_applications next try stop wm = Some (ret r wm2)" using 0(3) by (cases r) simp_all
  ultimately show ?case using 0(2) by blast
qed

lemma searches_return:
  assumes "searches wm m" "\<And>r wm'. refocused wm wm' \<Longrightarrow> \<exists>t. f r wm' = Some (ret () t) \<and> refocused wm' t"
  shows "\<exists>t. go_on m f = Some (ret () t) \<and> refocused wm t"
  using assms refocused_trans unfolding searches_def by fastforce

text \<open>
  What is asked of the focus controller: when a session of \<open>S\<close> has the focus, the next one is in \<open>S\<close> too, going on
  comes round to every application of \<open>A\<close>, and the surfaces that are answered are in \<open>W\<close>.
\<close>

definition next_cycles ::
  "(application option \<Rightarrow> application option \<times> window option) \<Rightarrow> application option set \<Rightarrow> application set \<Rightarrow> window set \<Rightarrow> bool" where
  "next_cycles next S A W \<longleftrightarrow> (\<forall>s\<in>S. fst (next s) \<in> S) \<and> (\<forall>s\<in>S. \<forall>a\<in>A. \<exists>n. ((\<lambda>s. fst (next s)) ^^ Suc n) s = Some a) \<and>
     (\<forall>s\<in>S. \<forall>w. snd (next s) = Some w \<longrightarrow> w \<in> W)"

definition can_cycle ::
  "(application option \<Rightarrow> application option \<times> window option) \<Rightarrow> application option set \<Rightarrow> 'u window_manager \<Rightarrow> bool" where
  "can_cycle next S wm \<longleftrightarrow> focused_session wm \<in> S \<and>
     next_cycles next S (window_application wm ` dom (window_info wm)) (dom (window_info wm))"

lemma can_cycle_refocused: "refocused wm wm' \<Longrightarrow> same_focus wm wm' \<Longrightarrow> can_cycle next S wm' = can_cycle next S wm"
  by (simp add: can_cycle_def refocused_dom refocused_fields(6))

lemma try_application_searches:
  assumes "\<And>a. searches wm (f a wm)"
  shows "searches wm (try_application f app wm)"
  using assms by (cases app) (simp_all add: try_application_def)

lemma focus_other_application_ends:
  assumes "stays wm" "can_cycle next S wm"
  shows "\<exists>wm'. focus_other_application next wm = Some (ret () wm') \<and> refocused wm wm'"
proof -
  have S: "focused_session wm \<in> S" "\<forall>s\<in>S. fst (next s) \<in> S" using assms(2) by (simp_all add: can_cycle_def next_cycles_def)
  let ?first = "case active_window wm of
      Some prev \<Rightarrow> (let wss = workspaces_containing prev wm
         in cycle_applications next
              (try_application (if wss \<noteq> [] then (\<lambda>a. can_activate_window_for_session_in_workspace a wss) else can_activate_window_for_session))
              (window_application wm prev) wm)
    | None \<Rightarrow> (let (s, w) = next (focused_session wm)
         in try_application can_activate_window_for_session s (wm\<lparr>focused_session := s, focused_surface := w\<rparr>))"
  have "\<exists>r wm1. ?first = Some (ret r wm1) \<and> refocused wm wm1 \<and> (r = None \<longrightarrow> (\<exists>s\<in>S. focused_surface wm1 = snd (next s)))"
  proof (cases "active_window wm")
    case None
    let ?s = "wm\<lparr>focused_session := fst (next (focused_session wm)), focused_surface := snd (next (focused_session wm))\<rparr>"
    have "searches ?s (try_application can_activate_window_for_session (fst (next (focused_session wm))) ?s)"
      using refocused_stays [OF refocused_focus(3) assms(1)] by (intro try_application_searches session_searches)
    then obtain r t where "try_application can_activate_window_for_session (fst (next (focused_session wm))) ?s = Some (ret r t)"
      "refocused ?s t" "r = None \<longrightarrow> same_focus ?s t" unfolding searches_def by blast
    moreover from this(3) have "r = None \<longrightarrow> (\<exists>s\<in>S. focused_surface t = snd (next s))" using S(1) by auto
    ultimately show ?thesis using None refocused_trans [OF refocused_focus(3)] by (simp add: split_beta) blast
  next
    case (Some prev)
    let ?wss = "workspaces_containing prev wm"
    let ?attempt = "try_application (if ?wss \<noteq> [] then (\<lambda>a. can_activate_window_for_session_in_workspace a ?wss) else can_activate_window_for_session)"
    have "prev \<in> dom (window_info wm)" using active_window_known [OF _ Some] assms(1) by (simp add: stays_def)
    then obtain n where "((\<lambda>s. fst (next s)) ^^ Suc n) (focused_session wm) = Some (window_application wm prev)"
      using assms(2) unfolding can_cycle_def next_cycles_def by blast
    moreover have "searches s (?attempt a s)" if "stays s" for a s
      using session_searches [OF that] by (intro try_application_searches) simp
    ultimately have "\<exists>r wm1. cycle_applications next ?attempt (window_application wm prev) wm = Some (ret r wm1) \<and> refocused wm wm1 \<and>
        (r = None \<longrightarrow> (\<exists>s\<in>S. focused_surface wm1 = snd (next s)))"
      using assms(1) S by (intro cycle_applications_ends)
    then show ?thesis unfolding Some by (simp only: option.case Let_def)
  qed
  then obtain r wm1 where wm1: "?first = Some (ret r wm1)" "refocused wm wm1" "r = None \<longrightarrow> (\<exists>s\<in>S. focused_surface wm1 = snd (next s))"
    by blast
  show ?thesis
  proof (cases "r = None")
    case False
    then show ?thesis using wm1(1,2) by (simp add: focus_other_application_def)
  next
    case True
    have st: "stays wm1" by (rule refocused_stays [OF wm1(2) assms(1)])
    show ?thesis
    proof (cases "focused_surface wm1")
      case None
      with select_none_refocuses [OF st] refocused_trans [OF wm1(2)] wm1(1) True show ?thesis
        by (auto simp: focus_other_application_def)
    next
      case (Some w)
      then have "w \<in> dom (window_info wm1)"
        using wm1(3) True assms(2) refocused_dom [OF wm1(2)] unfolding can_cycle_def next_cycles_def by metis
      with select_refocuses [OF st this] refocused_trans [OF wm1(2)] wm1(1) True Some show ?thesis
        by (auto simp: focus_other_application_def)
    qed
  qed
qed

lemma search_or:
  assumes "searches wm m" "\<And>wm'. refocused wm wm' \<Longrightarrow> same_focus wm wm' \<Longrightarrow> \<exists>t. f wm' = Some (ret () t) \<and> refocused wm' t"
  shows "\<exists>t. go_on m (\<lambda>r wm. if r \<noteq> None then Some (ret () wm) else f wm) = Some (ret () t) \<and> refocused wm t"
proof -
  obtain r wm' where m: "m = Some (ret r wm')" "refocused wm wm'" "r = None \<longrightarrow> same_focus wm wm'"
    using assms(1) unfolding searches_def by blast
  show ?thesis
  proof (cases "r = None")
    case True
    then obtain t where "f wm' = Some (ret () t)" "refocused wm' t" using assms(2) [OF m(2)] m(3) by blast
    then show ?thesis using m(1) True refocused_trans [OF m(2)] by simp
  qed (use m(1,2) in simp)
qed

lemma refocus_ends:
  assumes "stays wm" "can_cycle next S wm" "\<forall>p. parent = Some p \<longrightarrow> p \<in> dom (window_info wm)"
  shows "\<exists>wm'. refocus next app parent wss wm = Some (ret () wm') \<and> refocused wm wm'"
proof -
  have "searches wm (case parent of Some p \<Rightarrow> select_active_window (Some p) wm | None \<Rightarrow> Some (ret None wm))"
    using select_searches [OF assms(1)] assms(3) by (auto split: option.split)
  then show ?thesis unfolding refocus_def
    by (intro search_or session_searches try_recent_searches focus_other_application_ends)
      (use assms in \<open>(blast intro: refocused_stays | auto simp: can_cycle_refocused)+\<close>)
qed

section \<open>Changing the state of a window\<close>

lemma yield_focus_ends:
  assumes "stays wm" "w \<in> dom (window_info wm)"
  shows "\<exists>wm'. yield_focus w wm = Some (ret () wm') \<and> refocused wm wm' \<and> active_window wm' \<noteq> Some w"
proof -
  obtain r1 s1 where s1: "select_active_window (Some w) wm = Some (ret r1 s1)" "refocused wm s1"
    using select_refocuses [OF assms] by blast
  let ?second = "if not_active_or_none w s1
     then let wss = workspaces_containing w s1 in try_recent (\<lambda>c wm. c \<noteq> w \<and> shares_workspace wss c wm) s1 else Some (ret None s1)"
  have "searches s1 ?second"
    using try_recent_searches [OF refocused_stays [OF s1(2) assms(1)]] by (simp add: Let_def)
  then obtain r2 s2 where s2: "?second = Some (ret r2 s2)" "refocused s1 s2" unfolding searches_def by blast
  let ?third = "if not_active_or_none w s2 then try_recent (\<lambda>c wm. c \<noteq> w) s2 else Some (ret None s2)"
  have 2: "refocused wm s2" by (rule refocused_trans [OF s1(2) s2(2)])
  have "searches s2 ?third" using try_recent_searches [OF refocused_stays [OF 2 assms(1)]] by simp
  then obtain r3 s3 where s3: "?third = Some (ret r3 s3)" "refocused s2 s3" unfolding searches_def by blast
  have 3: "refocused wm s3" by (rule refocused_trans [OF 2 s3(2)])
  have step: "yield_focus w wm = (if active_window s3 = Some w then go_on (select_active_window None s3) (\<lambda>_ wm. Some (ret () wm)) else Some (ret () s3))"
    unfolding yield_focus_def s1(1) go_on_simps s2(1) s3(1) ..
  show ?thesis
  proof (cases "active_window s3 = Some w")
    case True
    then show ?thesis using select_none_refocuses [OF refocused_stays [OF 3 assms(1)]] refocused_trans [OF 3] step by auto
  next
    case False
    then show ?thesis using 3 step by simp
  qed
qed

lemma update_sets_sel [simp]:
  "window_info (update_attached_and_fullscreen_sets w i st wm) = window_info wm"
  "mru_active_windows (update_attached_and_fullscreen_sets w i st wm) = mru_active_windows wm"
  "allow_active_window (update_attached_and_fullscreen_sets w i st wm) = allow_active_window wm"
  "surface_state (update_attached_and_fullscreen_sets w i st wm) = surface_state wm"
  "surface_posted (update_attached_and_fullscreen_sets w i st wm) = surface_posted wm"
  by (simp_all add: update_attached_and_fullscreen_sets_def detach_window_def Let_def split: option.split)

lemma put_state_sel [simp]:
  "mru_active_windows (put_state w st wm) = mru_active_windows wm" "allow_active_window (put_state w st wm) = allow_active_window wm"
  "surface_state (put_state w st wm) = surface_state wm" "surface_posted (put_state w st wm) = surface_posted wm"
  by (simp_all add: put_state_def)

lemma put_state_links [simp]: "same_links wm (put_state w st wm)"
  by (simp add: same_links_def put_state_def) (simp add: option.map_comp comp_def)

lemma put_state_info: "window_info wm w = Some i \<Longrightarrow> window_info (put_state w st wm) w = Some (i\<lparr>wi_state := st\<rparr>)"
  by (simp add: put_state_def)

lemma stays_links:
  assumes "stays wm" "same_links wm wm'" "mru_active_windows wm' = mru_active_windows wm"
  shows "stays wm'"
  using assms(1,3) same_links_forest [OF assms(2)] same_links_dom [OF assms(2)] by (simp add: stays_def)

lemma same_links_windows: "window_info wm' = window_info wm \<Longrightarrow> same_links wm wm'"
  by (simp add: same_links_def)

lemma select_keeps_visible:
  assumes "stays wm" "v \<in> dom (window_info wm)" "window_info wm w = Some i" "window_visible wm w i"
  shows "\<exists>r wm'. select_active_window (Some v) wm = Some (ret r wm') \<and> window_info wm' w = Some i \<and>
    surface_state wm' w = surface_state wm w \<and> surface_hidden wm' w = surface_hidden wm w"
proof -
  obtain j where "window_info wm v = Some j" using assms(2) by auto
  from select_active_window_ends [OF assms(1) this]
  consider u k prev where "window_info wm u = Some k"
      "select_active_window (Some v) wm = Some (ret (Some u) (activated prev u k (wm\<lparr>allow_active_window := True\<rparr>)))"
    | "select_active_window (Some v) wm = Some (ret None (wm\<lparr>allow_active_window := True\<rparr>))"
    by (auto simp: selects_or_not_def selects_def)
  then show ?thesis
  proof cases
    case (1 u k prev)
    then show ?thesis using assms(3,4)
      by (auto simp: activated_def show_restored_def Let_def window_visible_def split: option.split)
  qed (use assms(3) in simp)
qed

lemma active_after_hiding:
  assumes "active_window wm \<noteq> Some w" "st = State_hidden \<or> st \<noteq> State_hidden \<and> surface_state wm w \<noteq> State_hidden"
  shows "active_window (wm\<lparr>surface_state := (surface_state wm)(w := st), surface_hidden := h\<rparr>) \<noteq> Some w"
proof (cases "st = State_hidden")
  case True
  have "find_last (\<lambda>v. ((surface_state wm)(w := st)) v \<noteq> State_hidden) ws \<noteq> Some w" for ws
    using find_last_in_set [of _ ws w] True by (auto dest: find_last_in_set)
  then show ?thesis by (simp add: active_window_def mru_top_def)
next
  case False
  then have "(\<lambda>v. ((surface_state wm)(w := st)) v \<noteq> State_hidden) = (\<lambda>v. surface_state wm v \<noteq> State_hidden)"
    using assms(2) by (auto simp: fun_eq_iff)
  then have "mru_top ((surface_state wm)(w := st)) ws = mru_top (surface_state wm) ws" for ws by (simp only: mru_top_def)
  then show ?thesis using assms(1) by (simp add: active_window_def split: if_splits)
qed

lemma set_state_hides:
  assumes "stays wm" "window_info wm w = Some i" "wi_state i \<noteq> st" "st = State_hidden \<or> st = State_minimized"
  shows "\<exists>wm'. set_state w st wm = Some (ret () wm') \<and> window_info wm' w = Some (i\<lparr>wi_state := st\<rparr>) \<and>
    surface_state wm' w = st \<and> surface_hidden wm' w \<and>
    (st = State_hidden \<or> surface_state wm w \<noteq> State_hidden \<longrightarrow> active_window wm' \<noteq> Some w)"
proof -
  define wm3 where "wm3 = put_state w State_hidden (call (Advise_state_change w st) (update_attached_and_fullscreen_sets w i st wm))"
  have info: "window_info wm3 w = Some (i\<lparr>wi_state := State_hidden\<rparr>)" using assms(2) by (simp add: wm3_def put_state_info)
  have "same_links wm wm3" unfolding wm3_def
    by (rule same_links_trans [OF same_links_windows put_state_links]) simp
  then have st: "stays wm3" by (rule stays_links [OF assms(1)]) (simp add: wm3_def)
  have "\<exists>s. (if active_window wm3 = Some w then yield_focus w wm3 else Some (ret () wm3)) = Some (ret () s) \<and>
      refocused wm3 s \<and> active_window s \<noteq> Some w"
    using yield_focus_ends [OF st, of w] info by auto
  then obtain s where s: "(if active_window wm3 = Some w then yield_focus w wm3 else Some (ret () wm3)) = Some (ret () s)"
    "refocused wm3 s" "active_window s \<noteq> Some w" by blast
  have hidden: "window_info s w = Some (i\<lparr>wi_state := State_hidden\<rparr>)" "surface_state s w = surface_state wm w"
    using refocused_hidden [OF s(2) info] by (simp_all add: wm3_def)
  let ?final = "(put_state w st s)\<lparr>surface_state := (surface_state s)(w := st), surface_hidden := (surface_hidden s)(w := True)\<rparr>"
  have "set_state w st wm = go_on (if active_window wm3 = Some w then yield_focus w wm3 else Some (ret () wm3)) (\<lambda>_ wm.
      Some (ret () ((put_state w st wm)\<lparr>surface_state := (surface_state wm)(w := st), surface_hidden := (surface_hidden wm)(w := True)\<rparr>)))"
    using assms(2-4) by (simp add: set_state_def Let_def wm3_def)
  then have "set_state w st wm = Some (ret () ?final)" unfolding s(1) by simp
  moreover have "active_window ?final \<noteq> Some w" if "st = State_hidden \<or> surface_state wm w \<noteq> State_hidden"
    using active_after_hiding [of "put_state w st s" w st "(surface_hidden s)(w := True)"] s(3) hidden(2) that
    by (auto simp: active_window_def)
  ultimately show ?thesis using hidden(1) by (auto simp: put_state_info)
qed

lemma set_state_shows:
  assumes "stays wm" "window_info wm w = Some i" "wi_state i \<noteq> st" "\<not> (st = State_hidden \<or> st = State_minimized)"
  shows "\<exists>wm'. set_state w st wm = Some (ret () wm') \<and> (surface_posted wm w \<longrightarrow>
    window_info wm' w = Some (i\<lparr>wi_state := st\<rparr>) \<and> surface_state wm' w = st \<and> \<not> surface_hidden wm' w)"
proof -
  define wm2 where "wm2 = call (Advise_state_change w st) (update_attached_and_fullscreen_sets w i st wm)"
  define wm3 where "wm3 = (put_state w st wm2)\<lparr>surface_state := (surface_state wm2)(w := st), surface_hidden := (surface_hidden wm2)(w := False)\<rparr>"
  have info: "window_info wm3 w = Some (i\<lparr>wi_state := st\<rparr>)" "surface_posted wm3 = surface_posted wm"
    using assms(2) by (simp_all add: wm3_def wm2_def put_state_info)
  have "same_links wm2 (put_state w st wm2)" by simp
  then have "same_links wm wm3" by (simp add: wm3_def same_links_def wm2_def)
  then have st: "stays wm3" by (rule stays_links [OF assms(1)]) (simp add: wm3_def wm2_def)
  have step: "set_state w st wm = (if (wi_state i = State_hidden \<or> wi_state i = State_minimized) \<and> active_window wm2 = None
      then go_on (select_active_window (Some w) wm3) (\<lambda>_ wm. Some (ret () wm)) else Some (ret () wm3))"
    using assms(2-4) by (simp add: set_state_def Let_def wm3_def wm2_def)
  show ?thesis
  proof (cases "surface_posted wm w")
    case True
    then have "window_visible wm3 w (i\<lparr>wi_state := st\<rparr>)"
      using assms(4) info(2) by (auto simp: window_visible_def is_visible_def wm3_def)
    then obtain r s where "select_active_window (Some w) wm3 = Some (ret r s)" "window_info s w = Some (i\<lparr>wi_state := st\<rparr>)"
      "surface_state s w = surface_state wm3 w" "surface_hidden s w = surface_hidden wm3 w"
      using select_keeps_visible [OF st _ info(1), of w] info(1) by blast
    moreover have "surface_state wm3 w = st" "\<not> surface_hidden wm3 w" by (simp_all add: wm3_def)
    ultimately show ?thesis unfolding step using info(1) by simp
  next
    case False
    obtain r s where "select_active_window (Some w) wm3 = Some (ret r s)" using select_refocuses [OF st, of w] info(1) by blast
    with False show ?thesis unfolding step by simp
  qed
qed

section \<open>Removing a window\<close>

text \<open>The windows without one of them: its children are orphans and it is no child any more.\<close>

definition without :: "window \<Rightarrow> (window \<Rightarrow> 'u info option) \<Rightarrow> window \<Rightarrow> 'u info option" where
  "without w infos v = (if v = w then None else map_option (\<lambda>i. i\<lparr>wi_parent := (if wi_parent i = Some w then None else wi_parent i),
     wi_children := remove1 w (wi_children i)\<rparr>) (infos v))"

lemma orphan_all:
  assumes "set cs \<subseteq> dom (window_info wm)"
  shows "run_each (\<lambda>c wm. go_on (info_for c wm) (\<lambda>ci wm. Some (ret () (put_info c (ci\<lparr>wi_parent := None\<rparr>) wm)))) cs wm =
    Some (ret () (wm\<lparr>window_info := (\<lambda>v. if v \<in> set cs then map_option (\<lambda>i. i\<lparr>wi_parent := None\<rparr>) (window_info wm v) else window_info wm v)\<rparr>))"
  using assms
proof (induction cs arbitrary: wm)
  case (Cons c cs)
  then obtain ci where ci: "window_info wm c = Some ci" by auto
  let ?wm = "put_info c (ci\<lparr>wi_parent := None\<rparr>) wm"
  have "set cs \<subseteq> dom (window_info ?wm)" using Cons.prems by auto
  from Cons.IH [OF this] ci show ?case by (auto simp: put_info_def fun_eq_iff)
qed simp

lemma forest_no_self_parent: "forest wm \<Longrightarrow> window_info wm w = Some i \<Longrightarrow> wi_parent i \<noteq> Some w"
proof
  assume f: "forest wm" "window_info wm w = Some i" "wi_parent i = Some w"
  then have "(w, w) \<in> below (children_of wm)" using forest_parent [OF f] by (auto simp: below_children)
  then show False using f(1) by (auto simp: forest_def acyclic_def)
qed

lemma erase_window_result:
  assumes "forest wm" "window_info wm w = Some i" "wi_parent i' = wi_parent i" "wi_children i' = wi_children i"
  shows "erase_window w i' wm = Some (ret () (wm\<lparr>window_info := without w (window_info wm)\<rparr>))"
proof -
  let ?orphan = "\<lambda>infos v. if v \<in> set (wi_children i) then map_option (\<lambda>i. i\<lparr>wi_parent := None\<rparr>) (infos v) else infos v"
  have kids: "v \<in> set (wi_children i) \<longleftrightarrow> wi_parent j = Some w" if "window_info wm v = Some j" for v j
    using forest_child [OF assms(1,2)] forest_parent [OF assms(1) that] that assms(2) by fastforce
  have par: "w \<in> set (wi_children j) \<longleftrightarrow> wi_parent i = Some v" if "window_info wm v = Some j" for v j
    using forest_child [OF assms(1) that] forest_parent [OF assms(1,2)] that assms(2) by fastforce
  have known: "set (wi_children i) \<subseteq> dom (window_info wm)" using forest_child [OF assms(1,2)] by auto
  show ?thesis
  proof (cases "wi_parent i")
    case None
    have "(?orphan (window_info wm))(w := None) = without w (window_info wm)"
    proof
      fix v show "((?orphan (window_info wm))(w := None)) v = without w (window_info wm) v"
        using kids par None by (cases "window_info wm v") (auto simp: without_def remove1_idem)
    qed
    then show ?thesis using None orphan_all [OF known] assms(3,4) by (simp add: erase_window_def)
  next
    case (Some p)
    obtain pi where pi: "window_info wm p = Some pi" "w \<in> set (wi_children pi)" using forest_parent [OF assms(1,2) Some] by blast
    let ?wm = "put_info p (remove_child w pi) wm"
    have "(?orphan (window_info ?wm))(w := None) = without w (window_info wm)"
    proof
      fix v show "((?orphan (window_info ?wm))(w := None)) v = without w (window_info wm) v"
        using kids par Some pi by (cases "window_info wm v") (auto simp: without_def remove1_idem remove_child_def)
    qed
    moreover have "set (wi_children i) \<subseteq> dom (window_info ?wm)" using known by auto
    ultimately show ?thesis using Some pi orphan_all [of "wi_children i" ?wm] assms(3,4)
      by (simp add: erase_window_def) (simp add: put_info_def)
  qed
qed

lemma without_Some:
  "without w infos v = Some j \<longleftrightarrow> v \<noteq> w \<and> (\<exists>i. infos v = Some i \<and>
     j = i\<lparr>wi_parent := (if wi_parent i = Some w then None else wi_parent i), wi_children := remove1 w (wi_children i)\<rparr>)"
  by (cases "infos v") (auto simp: without_def simp flip: eq_commute [of j])

lemma forest_without:
  assumes "forest wm"
  shows "forest (wm\<lparr>window_info := without w (window_info wm)\<rparr>)"
proof -
  let ?wm = "wm\<lparr>window_info := without w (window_info wm)\<rparr>"
  have "below (children_of ?wm) \<subseteq> below (children_of wm)"
    by (auto simp: below_children without_Some dest!: subsetD [OF set_remove1_subset])
  then have "acyclic (below (children_of ?wm))" using assms acyclic_subset by (auto simp: forest_def)
  moreover have "dom (window_info ?wm) \<subseteq> dom (window_info wm)" by (auto simp: without_Some)
  then have "finite (dom (window_info ?wm))" using assms finite_subset by (auto simp: forest_def)
  moreover have "distinct (wi_children j) \<and>
      (\<forall>c\<in>set (wi_children j). \<exists>ci. window_info ?wm c = Some ci \<and> wi_parent ci = Some v) \<and>
      (\<forall>p. wi_parent j = Some p \<longrightarrow> (\<exists>pi. window_info ?wm p = Some pi \<and> v \<in> set (wi_children pi)))"
    if j: "window_info ?wm v = Some j" for v j
  proof -
    obtain i where i: "v \<noteq> w" "window_info wm v = Some i"
      "j = i\<lparr>wi_parent := (if wi_parent i = Some w then None else wi_parent i), wi_children := remove1 w (wi_children i)\<rparr>"
      using j [simplified, unfolded without_Some] by blast
    have d: "distinct (wi_children i)" using assms i(2) by (auto simp: forest_def)
    show ?thesis
    proof (intro conjI ballI allI impI)
      show "distinct (wi_children j)" using d i(3) by simp
      show "\<exists>ci. window_info ?wm c = Some ci \<and> wi_parent ci = Some v" if "c \<in> set (wi_children j)" for c
      proof -
        have c: "c \<in> set (wi_children i)" "c \<noteq> w" using that i(3) d by simp_all
        then obtain ci where "window_info wm c = Some ci" "wi_parent ci = Some v" using forest_child [OF assms i(2)] by blast
        then show ?thesis using c(2) i(1) by (simp add: without_def)
      qed
      show "\<exists>pi. window_info ?wm p = Some pi \<and> v \<in> set (wi_children pi)" if "wi_parent j = Some p" for p
      proof -
        have p: "wi_parent i = Some p" "p \<noteq> w" using that i(3) by (auto split: if_splits)
        then obtain pi where "window_info wm p = Some pi" "v \<in> set (wi_children pi)" using forest_parent [OF assms i(2)] by blast
        then show ?thesis using p(2) i(1) by (simp add: without_def)
      qed
    qed
  qed
  ultimately show ?thesis unfolding forest_def by blast
qed

lemma layout_only_stays: "layout_only wm wm' \<Longrightarrow> stays wm \<Longrightarrow> stays wm'"
  using stays_links [OF _ layout_only_links] layout_only_fields(1) by blast

text \<open>The lists that hold windows, beside the recently used ones.\<close>

definition unlisted :: "application \<Rightarrow> window \<Rightarrow> 'u window_manager \<Rightarrow> bool" where
  "unlisted app w wm \<longleftrightarrow> w \<notin> set (fullscreen_surfaces wm) \<and> (\<forall>ws\<in>set (map attached_windows (display_areas wm)). w \<notin> set ws) \<and>
     w \<notin> snd ` set (workspaces_to_windows wm) \<and> (\<exists>ws. app_info wm app = Some ws \<and> w \<notin> set ws)"

lemma unlisted_stays:
  "layout_only wm wm' \<Longrightarrow> unlisted app w wm' = unlisted app w wm"
  "refocused wm wm' \<Longrightarrow> unlisted app w wm' = unlisted app w wm"
  unfolding unlisted_def using layout_only_fields [of wm wm'] refocused_fields [of wm wm'] by presburger+

text \<open>The bookkeeping of \<open>remove_window\<close> before the outputs are looked at.\<close>

definition struck_off :: "application \<Rightarrow> window \<Rightarrow> window list \<Rightarrow> 'u window_manager \<Rightarrow> 'u window_manager" where
  "struck_off app w ws wm =
     (let wm1 = fold (\<lambda>ws. call (Advise_removing_from_workspace ws [w])) (workspaces_containing w wm) wm;
          wm2 = call (Advise_delete_window w) (wm1\<lparr>workspaces_to_windows := filter (\<lambda>p. snd p \<noteq> w) (workspaces_to_windows wm1)\<rparr>)
      in detach_window w (wm2\<lparr>app_info := (app_info wm)(app := Some (remove1 w ws)), mru_active_windows := mru_erase w (mru_active_windows wm)\<rparr>))"

lemma fold_call: "fold (\<lambda>x. call (f x)) xs wm = wm\<lparr>calls := calls wm @ map f xs\<rparr>"
  by (induction xs arbitrary: wm) (simp_all add: call_def)

lemma struck_off_sel:
  "window_info (struck_off app w ws wm) = window_info wm" "mru_active_windows (struck_off app w ws wm) = removeAll w (mru_active_windows wm)"
  "fullscreen_surfaces (struck_off app w ws wm) = remove1 w (fullscreen_surfaces wm)"
  "map attached_windows (display_areas (struck_off app w ws wm)) = map (remove1 w) (map attached_windows (display_areas wm))"
  "workspaces_to_windows (struck_off app w ws wm) = filter (\<lambda>p. snd p \<noteq> w) (workspaces_to_windows wm)"
  "app_info (struck_off app w ws wm) = (app_info wm)(app := Some (remove1 w ws))"
  "window_application (struck_off app w ws wm) = window_application wm" "focused_session (struck_off app w ws wm) = focused_session wm"
  by (simp_all add: struck_off_def fold_call detach_window_def mru_erase_def Let_def call_def)

lemma remove_window_steps:
  assumes "app_info wm app = Some ws"
  shows "remove_window env next app w info wm =
    go_on (if wi_state info = State_attached \<and> exclusive_rect info \<noteq> None then update_windows_for_outputs env (struck_off app w ws wm)
           else Some (ret () (struck_off app w ws wm))) (\<lambda>_ s.
    go_on (erase_window w info (call (Destroy_surface w) s)) (\<lambda>_ s.
    if active_window wm = Some w then refocus next app (wi_parent info) (workspaces_containing w wm) s else Some (ret () s)))"
  using assms by (auto simp: remove_window_def remove_from_app_def struck_off_def fold_call Let_def)

lemma struck_off_ok:
  assumes "stays wm" "attached_ok wm"
  shows "stays (struck_off app w ws wm)" "attached_ok (struck_off app w ws wm)"
proof -
  show "stays (struck_off app w ws wm)"
    using assms(1) forest_same_windows [of "struck_off app w ws wm" wm] by (auto simp: stays_def struck_off_sel)
  show "attached_ok (struck_off app w ws wm)"
    using assms(2) unfolding attached_ok_alt struck_off_sel
    by (auto dest!: subsetD [OF set_remove1_subset])
qed

definition orderly :: "'u window_manager \<Rightarrow> bool" where
  "orderly wm \<longleftrightarrow> stays wm \<and> attached_ok wm \<and> distinct (fullscreen_surfaces wm) \<and>
     (\<forall>a\<in>set (display_areas wm). distinct (attached_windows a)) \<and> (\<forall>app ws. app_info wm app = Some ws \<longrightarrow> distinct ws)"

lemma struck_off_unlisted:
  assumes "orderly wm" "app_info wm app = Some ws"
  shows "unlisted app w (struck_off app w ws wm)"
  using assms unfolding unlisted_def struck_off_sel by (auto simp: orderly_def)

lemma remove_window_result:
  assumes "orderly wm" "app_info wm app = Some ws" "window_info wm w = Some i"
    and "focused_session wm \<in> S" "next_cycles next S (window_application wm ` (dom (window_info wm) - {w})) (dom (window_info wm) - {w})"
  shows "\<exists>wm'. remove_window env next app w i wm = Some (ret () wm') \<and> stays wm' \<and> unlisted app w wm' \<and>
    dom (window_info wm') = dom (window_info wm) - {w}"
proof -
  let ?s1 = "struck_off app w ws wm"
  have "stays wm" "attached_ok wm" using assms(1) by (simp_all add: orderly_def)
  note ok = struck_off_ok [OF this, of app w ws] struck_off_unlisted [OF assms(1,2), of w]
  have "\<exists>s2. (if wi_state i = State_attached \<and> exclusive_rect i \<noteq> None then update_windows_for_outputs env ?s1 else Some (ret () ?s1)) =
      Some (ret () s2) \<and> layout_only ?s1 s2"
    using update_windows_for_outputs_ends [of ?s1 env] ok(1,2) by (auto simp: stays_def)
  then obtain s2 where s2: "(if wi_state i = State_attached \<and> exclusive_rect i \<noteq> None then update_windows_for_outputs env ?s1 else Some (ret () ?s1)) =
      Some (ret () s2)" "layout_only ?s1 s2" by blast
  have st2: "stays s2" by (rule layout_only_stays [OF s2(2) ok(1)])
  obtain i2 where i2: "window_info s2 w = Some i2" "wi_parent i = wi_parent i2" "wi_children i = wi_children i2"
    using layout_only_info [OF s2(2), of w i] assms(3) unplaced_fields(1,2) by (metis struck_off_sel(1))
  let ?s3 = "call (Destroy_surface w) s2"
  let ?s4 = "?s3\<lparr>window_info := without w (window_info ?s3)\<rparr>"
  have f3: "forest ?s3" using st2 forest_same_windows [of ?s3 s2] by (simp add: stays_def)
  have "dom (without w (window_info s2)) = dom (window_info s2) - {w}" by (auto simp: without_def split: if_splits)
  then have dom4: "dom (window_info ?s4) = dom (window_info wm) - {w}"
    using same_links_dom [OF layout_only_links [OF s2(2)]] by (simp add: struck_off_sel)
  have "w \<notin> set (mru_active_windows s2)" using layout_only_fields(1) [OF s2(2)] by (simp add: struck_off_sel)
  then have "set (mru_active_windows ?s4) \<subseteq> dom (window_info ?s4)"
    using st2 same_links_dom [OF layout_only_links [OF s2(2)]] unfolding dom4 by (auto simp: stays_def struck_off_sel)
  then have st4: "stays ?s4" using forest_without [OF f3] by (simp add: stays_def)
  have "unlisted app w s2" using ok(3) unlisted_stays(1) [OF s2(2)] by simp
  then have un4: "unlisted app w ?s4" by (simp add: unlisted_def)
  have "can_cycle next S ?s4"
    using assms(4,5) layout_only_fields(9,10) [OF s2(2)] unfolding can_cycle_def dom4 by (simp add: struck_off_sel call_def)
  moreover have "p \<in> dom (window_info ?s4)" if "wi_parent i = Some p" for p
    using forest_parent [of wm w i p] forest_no_self_parent [of wm w i] assms(1,3) that unfolding dom4
    by (auto simp: orderly_def stays_def)
  ultimately have "\<exists>wm'. refocus next app (wi_parent i) (workspaces_containing w wm) ?s4 = Some (ret () wm') \<and> refocused ?s4 wm'"
    using st4 by (intro refocus_ends) auto
  then have "\<exists>wm'. (if active_window wm = Some w then refocus next app (wi_parent i) (workspaces_containing w wm) ?s4 else Some (ret () ?s4)) =
      Some (ret () wm') \<and> refocused ?s4 wm'" by auto
  then obtain wm' where wm': "(if active_window wm = Some w then refocus next app (wi_parent i) (workspaces_containing w wm) ?s4
      else Some (ret () ?s4)) = Some (ret () wm')" "refocused ?s4 wm'" by blast
  have "erase_window w i ?s3 = Some (ret () ?s4)" using i2(1) by (intro erase_window_result [OF f3 _ i2(2,3)]) simp
  then have "remove_window env next app w i wm = Some (ret () wm')"
    unfolding remove_window_steps [OF assms(2)] s2(1) go_on_simps by (simp only: go_on_simps wm'(1))
  then show ?thesis
    using refocused_stays [OF wm'(2) st4] unlisted_stays(2) [OF wm'(2)] un4 refocused_dom [OF wm'(2)] dom4 by auto
qed

section \<open>Properties\<close>

text \<open>
  C27: When the windows form a forest (which a window that is made its own parent breaks) and the recently used windows are known
  ones, changing the state of a known window to another one ends.  The window information and the surface agree on the new state
  afterwards, the surface is hidden exactly in the states hidden and minimized, and a window that is hidden or
  minimized is not the active window any more: the focus has gone elsewhere or nowhere.  Two cases are excluded: a
  window that is shown before it has content, and a hidden window that becomes minimized.
\<close>

theorem set_state_result:
  assumes "forest wm" "set (mru_active_windows wm) \<subseteq> dom (window_info wm)" "window_info wm w = Some i" "wi_state i \<noteq> st"
  shows "\<exists>wm'. set_state w st wm = Some (ret () wm') \<and>
    (surface_posted wm w \<or> st \<in> {State_hidden, State_minimized} \<longrightarrow>
       window_info wm' w = Some (i\<lparr>wi_state := st\<rparr>) \<and> surface_state wm' w = st \<and>
       surface_hidden wm' w = (st \<in> {State_hidden, State_minimized})) \<and>
    (st = State_hidden \<or> st = State_minimized \<and> surface_state wm w \<noteq> State_hidden \<longrightarrow> active_window wm' \<noteq> Some w)"
proof (cases "st = State_hidden \<or> st = State_minimized")
  case True
  have "stays wm" using assms(1,2) by (simp add: stays_def)
  from set_state_hides [OF this assms(3,4) True] True show ?thesis by auto
next
  case False
  have "stays wm" using assms(1,2) by (simp add: stays_def)
  from set_state_shows [OF this assms(3,4) False] False show ?thesis by auto
qed

theorem set_state_result_witness:
  "\<exists>wm'. set_state 2 State_hidden sample_wm = Some (ret () wm') \<and> active_window sample_wm = Some 2 \<and>
     active_window wm' \<noteq> Some 2 \<and> surface_hidden wm' 2"
proof -
  have "set (mru_active_windows sample_wm) \<subseteq> dom (window_info sample_wm)"
    "window_info sample_wm 2 = Some (plain_window\<lparr>wi_type := Type_dialog, wi_parent := Some 1\<rparr>)"
    "wi_state (plain_window\<lparr>wi_type := Type_dialog, wi_parent := Some 1\<rparr>) \<noteq> State_hidden"
    by (auto simp: sample_wm_def window_samples)
  from set_state_result [OF sample_wm_forest this] show ?thesis
    by (auto simp: sample_wm_def active_window_def mru_top_def find_last_def)
qed

end
