(* ===== verification/Session_Container.thy ===== *)
theory Session_Container
  imports Prelude
begin

text \<open>
  \<open>scene::SessionContainer\<close>: the sessions in the order in which they were opened, with the cyclic
  successor and predecessor that focus switching walks along.  A null session is \<open>None\<close>.
\<close>

type_synonym 's session_container = "'s list"

definition insert_session :: "'s \<Rightarrow> 's session_container \<Rightarrow> 's session_container" where
  "insert_session s apps = apps @ [s]"

definition remove_session_from :: "'s \<Rightarrow> 's session_container \<Rightarrow> ('s session_container, unit) outcome" where
  "remove_session_from s apps =
     (if s \<in> set apps then ret () (remove1 s apps) else throw (Logic_error ''Invalid Session'') apps)"

text \<open>The scan for the session and the step to the next element, wrapping around at the end; the first
  argument is the first element of the whole range.\<close>

fun next_in :: "'s \<Rightarrow> 's list \<Rightarrow> 's \<Rightarrow> exn + 's" where
  "next_in first [] s = Inl (Logic_error ''Invalid session'')"
| "next_in first [a] s = (if a = s then Inr first else Inl (Logic_error ''Invalid session''))"
| "next_in first (a # b # rest) s = (if a = s then Inr b else next_in first (b # rest) s)"

definition successor_of :: "'s option \<Rightarrow> 's session_container \<Rightarrow> exn + 's option" where
  "successor_of session apps = (case session of
     None \<Rightarrow> Inr (if apps \<noteq> [] then Some (last apps) else None)
   | Some s \<Rightarrow> map_sum id Some (next_in (hd apps) apps s))"

definition predecessor_of :: "'s option \<Rightarrow> 's session_container \<Rightarrow> exn + 's option" where
  "predecessor_of session apps = (case session of
     None \<Rightarrow> Inr (if apps \<noteq> [] then Some (hd apps) else None)
   | Some s \<Rightarrow> map_sum id Some (next_in (hd (rev apps)) (rev apps) s))"

section \<open>The cyclic order\<close>

lemma next_in_middle: "s \<notin> set xs \<Longrightarrow> next_in first (xs @ s # b # ys) s = Inr b"
proof (induction xs)
  case (Cons x xs)
  then show ?case by (cases "xs @ s # b # ys") auto
qed simp

lemma next_in_last: "s \<notin> set xs \<Longrightarrow> next_in first (xs @ [s]) s = Inr first"
proof (induction xs)
  case (Cons x xs)
  then show ?case by (cases "xs @ [s]") auto
qed simp

lemma next_in_absent: "s \<notin> set xs \<Longrightarrow> next_in first xs s = Inl (Logic_error ''Invalid session'')"
  by (induction first xs s rule: next_in.induct) auto

lemma successor_predecessor:
  assumes "distinct apps" "s \<in> set apps"
  shows "\<exists>t\<in>set apps. successor_of (Some s) apps = Inr (Some t) \<and> predecessor_of (Some t) apps = Inr (Some s)"
proof -
  obtain xs ys where apps: "apps = xs @ s # ys" using assms(2) by (meson split_list)
  with assms(1) have nin: "s \<notin> set xs" "s \<notin> set ys" by auto
  show ?thesis
  proof (cases ys)
    case (Cons b ys')
    have "next_in first (rev ys' @ b # s # rev xs) b = Inr s" for first
      using assms(1) apps Cons by (intro next_in_middle) auto
    then show ?thesis
      using apps Cons nin by (intro bexI [of _ b]) (auto simp: successor_of_def predecessor_of_def next_in_middle)
  next
    case Nil
    obtain t zs where zs: "apps = t # zs" using assms(2) by (cases apps) auto
    have "next_in s (rev zs @ [t]) t = Inr s"
      using assms(1) zs by (intro next_in_last) auto
    moreover have "hd (rev apps) = s" using apps Nil by simp
    ultimately have "predecessor_of (Some t) apps = Inr (Some s)"
      using zs by (simp add: predecessor_of_def)
    moreover have "next_in (hd apps) apps s = Inr (hd apps)"
      unfolding apps Nil by (rule next_in_last [OF nin(1)])
    then have "successor_of (Some s) apps = Inr (Some t)" using zs by (simp add: successor_of_def)
    ultimately show ?thesis using zs by auto
  qed
qed

section \<open>Properties\<close>

text \<open>The successor order of the open sessions is a cycle that the predecessor order walks
  backwards: from a session of the container the successor is again in the container and its
  predecessor is the session; a session that is not in the container is an error in both directions.\<close>
theorem session_cycle:
  assumes "distinct apps"
  shows "if s \<in> set apps
    then \<exists>t\<in>set apps. successor_of (Some s) apps = Inr (Some t) \<and> predecessor_of (Some t) apps = Inr (Some s)
    else successor_of (Some s) apps = Inl (Logic_error ''Invalid session'') \<and>
      predecessor_of (Some s) apps = Inl (Logic_error ''Invalid session'')"
  using successor_predecessor [OF assms] by (simp add: successor_of_def predecessor_of_def next_in_absent)

theorem session_cycle_witness:
  "successor_of (Some 3) [1::nat, 2, 3] = Inr (Some 1) \<and> predecessor_of (Some 1) [1::nat, 2, 3] = Inr (Some 3)"
  using session_cycle [of "[1::nat, 2, 3]" 3] by (simp add: successor_of_def predecessor_of_def)

end
