(* ===== verification/Abstract_Shell.thy ===== *)
theory Abstract_Shell
  imports Loops Geometry Window_Info Session_Container
begin

text \<open>
  \<open>shell::AbstractShell\<close> (\<open>src/server/shell/abstract_shell.cpp\<close>): which session and which surface have the
  focus, who is told, and how a client's request to change a surface is passed on; and
  \<open>shell::SurfaceSpecification\<close> (\<open>surface_specification.cpp\<close>), the request itself.

  The shell refers to sessions and surfaces by weak pointers, which are checked against the set of
  objects that still exist.  What it asks of surfaces (their parent, which the constructor of a surface sets for good, the confinement they ask for, their
  bounds) are arguments; in a run the last two change with what clients and the window manager do.  The focus state of the surfaces, the surfaces that its observer is registered with,
  the confinement of the seat and the focus of the input dispatcher, all of which only the shell writes
  in this code, are part of the state.
\<close>

section \<open>The specification of a change\<close>

record ('w, 'st, 'k) surface_specification =
  ss_top_left :: "point option"
  ss_width :: "int option"
  ss_height :: "int option"
  ss_pixel_format :: "nat option"
  ss_buffer_usage :: "nat option"
  ss_name :: "string option"
  ss_output_id :: "int option"
  ss_type :: "window_type option"
  ss_state :: "window_state option"
  ss_preferred_orientation :: "bits option"
  ss_parent_id :: "int option"
  ss_aux_rect :: "rectangle option"
  ss_edge_attachment :: "bits option"
  ss_placement_hints :: "bits option"
  ss_surface_placement_gravity :: "bits option"
  ss_aux_rect_placement_gravity :: "bits option"
  ss_aux_rect_placement_offset_x :: "int option"
  ss_aux_rect_placement_offset_y :: "int option"
  ss_min_width :: "int option"
  ss_min_height :: "int option"
  ss_max_width :: "int option"
  ss_max_height :: "int option"
  ss_width_inc :: "int option"
  ss_height_inc :: "int option"
  ss_min_aspect :: "aspect_ratio option"
  ss_max_aspect :: "aspect_ratio option"
  ss_streams :: "'st list option"
  ss_parent :: "'w option option"
  ss_input_shape :: "rectangle list option"
  ss_shell_chrome :: "shell_chrome_style option"
  ss_confine_pointer :: "pointer_confinement option"
  ss_cursor_image :: "'k option option"
  ss_stream_cursor :: "('st option \<times> displacement) option"
  ss_depth_layer :: "depth_layer option"
  ss_attached_edges :: "bits option"
  ss_exclusive_rect :: "rectangle option option"
  ss_application_id :: "string option"

definition spec_is_empty :: "('w, 'st, 'k) surface_specification \<Rightarrow> bool" where
  "spec_is_empty s \<longleftrightarrow>
     ss_top_left s = None \<and> ss_width s = None \<and> ss_height s = None \<and> ss_pixel_format s = None \<and>
     ss_buffer_usage s = None \<and> ss_name s = None \<and> ss_output_id s = None \<and> ss_type s = None \<and> ss_state s = None \<and>
     ss_preferred_orientation s = None \<and> ss_parent_id s = None \<and> ss_aux_rect s = None \<and>
     ss_edge_attachment s = None \<and> ss_min_width s = None \<and> ss_min_height s = None \<and> ss_max_width s = None \<and>
     ss_max_height s = None \<and> ss_width_inc s = None \<and> ss_height_inc s = None \<and> ss_min_aspect s = None \<and>
     ss_max_aspect s = None \<and> ss_streams s = None \<and> ss_parent s = None \<and> ss_input_shape s = None \<and>
     ss_shell_chrome s = None \<and> ss_depth_layer s = None \<and> ss_attached_edges s = None \<and>
     ss_exclusive_rect s = None \<and> ss_application_id s = None"

definition overwrite :: "'a option \<Rightarrow> 'a option \<Rightarrow> 'a option" where
  "overwrite old new = (case new of Some v \<Rightarrow> Some v | None \<Rightarrow> old)"

lemma overwrite_simps [simp]: "overwrite old None = old" "overwrite old (Some v) = Some v" "overwrite None new = new"
  by (simp_all add: overwrite_def split: option.split)

lemma overwrite_assoc [simp]: "overwrite (overwrite a b) c = overwrite a (overwrite b c)"
  by (simp add: overwrite_def split: option.split)

definition update_from ::
  "('w, 'st, 'k) surface_specification \<Rightarrow> ('w, 'st, 'k) surface_specification \<Rightarrow> ('w, 'st, 'k) surface_specification" where
  "update_from s t = \<lparr>
     ss_top_left = overwrite (ss_top_left s) (ss_top_left t), ss_width = overwrite (ss_width s) (ss_width t),
     ss_height = overwrite (ss_height s) (ss_height t), ss_pixel_format = overwrite (ss_pixel_format s) (ss_pixel_format t),
     ss_buffer_usage = overwrite (ss_buffer_usage s) (ss_buffer_usage t), ss_name = overwrite (ss_name s) (ss_name t),
     ss_output_id = overwrite (ss_output_id s) (ss_output_id t), ss_type = overwrite (ss_type s) (ss_type t),
     ss_state = overwrite (ss_state s) (ss_state t),
     ss_preferred_orientation = overwrite (ss_preferred_orientation s) (ss_preferred_orientation t),
     ss_parent_id = overwrite (ss_parent_id s) (ss_parent_id t), ss_aux_rect = overwrite (ss_aux_rect s) (ss_aux_rect t),
     ss_edge_attachment = overwrite (ss_edge_attachment s) (ss_edge_attachment t),
     ss_placement_hints = overwrite (ss_placement_hints s) (ss_placement_hints t),
     ss_surface_placement_gravity = overwrite (ss_surface_placement_gravity s) (ss_surface_placement_gravity t),
     ss_aux_rect_placement_gravity = overwrite (ss_aux_rect_placement_gravity s) (ss_aux_rect_placement_gravity t),
     ss_aux_rect_placement_offset_x = overwrite (ss_aux_rect_placement_offset_x s) (ss_aux_rect_placement_offset_x t),
     ss_aux_rect_placement_offset_y = overwrite (ss_aux_rect_placement_offset_y s) (ss_aux_rect_placement_offset_y t),
     ss_min_width = overwrite (ss_min_width s) (ss_min_width t), ss_min_height = overwrite (ss_min_height s) (ss_min_height t),
     ss_max_width = overwrite (ss_max_width s) (ss_max_width t), ss_max_height = overwrite (ss_max_height s) (ss_max_height t),
     ss_width_inc = overwrite (ss_width_inc s) (ss_width_inc t), ss_height_inc = overwrite (ss_height_inc s) (ss_height_inc t),
     ss_min_aspect = overwrite (ss_min_aspect s) (ss_min_aspect t), ss_max_aspect = overwrite (ss_max_aspect s) (ss_max_aspect t),
     ss_streams = overwrite (ss_streams s) (ss_streams t), ss_parent = overwrite (ss_parent s) (ss_parent t),
     ss_input_shape = overwrite (ss_input_shape s) (ss_input_shape t), ss_shell_chrome = overwrite (ss_shell_chrome s) (ss_shell_chrome t),
     ss_confine_pointer = overwrite (ss_confine_pointer s) (ss_confine_pointer t),
     ss_cursor_image = overwrite (ss_cursor_image s) (ss_cursor_image t),
     ss_stream_cursor = overwrite (ss_stream_cursor s) (ss_stream_cursor t),
     ss_depth_layer = overwrite (ss_depth_layer s) (ss_depth_layer t),
     ss_attached_edges = overwrite (ss_attached_edges s) (ss_attached_edges t),
     ss_exclusive_rect = overwrite (ss_exclusive_rect s) (ss_exclusive_rect t),
     ss_application_id = overwrite (ss_application_id s) (ss_application_id t)\<rparr>"

section \<open>Passing on a change\<close>

text \<open>The size of a window is that of its content and of the frame around it; clients ask for content sizes.\<close>

definition wm_relevant_mods ::
  "extent \<Rightarrow> extent \<Rightarrow> displacement \<Rightarrow> ('w, 'st, 'k) surface_specification \<Rightarrow> ('w, 'st, 'k) surface_specification" where
  "wm_relevant_mods window_sz content_sz offset mods =
     (let horiz_frame_padding = width window_sz - width content_sz;
          vert_frame_padding = height window_sz - height content_sz
      in mods\<lparr>ss_width := map_option (\<lambda>w. w + horiz_frame_padding) (ss_width mods),
              ss_height := map_option (\<lambda>h. h + vert_frame_padding) (ss_height mods),
              ss_max_width := map_option (\<lambda>w. w + horiz_frame_padding) (ss_max_width mods),
              ss_max_height := map_option (\<lambda>h. h + vert_frame_padding) (ss_max_height mods),
              ss_min_width := map_option (\<lambda>w. w + horiz_frame_padding) (ss_min_width mods),
              ss_min_height := map_option (\<lambda>h. h + vert_frame_padding) (ss_min_height mods),
              ss_aux_rect := map_option (\<lambda>r. r\<lparr>top_left := point_plus (top_left r) offset\<rparr>) (ss_aux_rect mods)\<rparr>)"

datatype ('w, 'st, 'k) modify_call =
    Configure_streams "'st list"
  | Wm_modify_surface "('w, 'st, 'k) surface_specification"
  | Surface_set_cursor_image "'k option"
  | Surface_set_cursor_stream 'st displacement
  | Seat_set_confinement_regions "rectangle list"
  | Seat_reset_confinement_regions

text \<open>
  The calls of \<open>modify_surface\<close> in order.  \<open>exists\<close> tells whether the stream of a cursor still exists;
  \<open>focused\<close> whether the surface is the focused one, and \<open>confined\<close> and \<open>bounds\<close> what the surface answers
  after the window manager has handled the change.
\<close>

definition modify_surface_calls ::
  "extent \<Rightarrow> extent \<Rightarrow> displacement \<Rightarrow> ('st \<Rightarrow> bool) \<Rightarrow> bool \<Rightarrow> pointer_confinement \<Rightarrow> rectangle \<Rightarrow>
   ('w, 'st, 'k) surface_specification \<Rightarrow> ('w, 'st, 'k) modify_call list" where
  "modify_surface_calls window_sz content_sz offset exists focused confined bounds mods =
     (let wm_mods = wm_relevant_mods window_sz content_sz offset mods;
          rest = wm_mods\<lparr>ss_streams := None\<rparr>
      in (case ss_streams wm_mods of Some l \<Rightarrow> [Configure_streams l] | None \<Rightarrow> []) @
         (if \<not> spec_is_empty rest then [Wm_modify_surface rest] else []) @
         (case ss_cursor_image mods of Some img \<Rightarrow> [Surface_set_cursor_image img] | None \<Rightarrow> []) @
         (case ss_stream_cursor mods of
            Some (stream, hotspot) \<Rightarrow>
              (case stream of
                 Some st \<Rightarrow> if exists st then [Surface_set_cursor_stream st hotspot] else [Surface_set_cursor_image None]
               | None \<Rightarrow> [Surface_set_cursor_image None])
          | None \<Rightarrow> []) @
         (if ss_confine_pointer mods \<noteq> None \<and> focused
          then if confined = Pointer_confined_to_window then [Seat_set_confinement_regions [bounds]]
               else [Seat_reset_confinement_regions]
          else []))"

section \<open>Focus\<close>

record ('s, 'w) shell =
  focus_session :: "'s option"
  focus_surface :: "'w option"
  notified_focus_surface :: "'w option"
  focused_surfaces :: "'w set"
  observed_surfaces :: "'w list"
  confinement_regions :: "rectangle list"
  input_focus :: "'w option"
  device_states_sent :: "'w list"
  coordinator_told :: "'s option list"

definition lock_weak :: "'a set \<Rightarrow> 'a option \<Rightarrow> 'a option" where
  "lock_weak alive p = (case p of Some x \<Rightarrow> if x \<in> alive then Some x else None | None \<Rightarrow> None)"

record 'w surface_facts =
  parent_of :: "'w \<Rightarrow> 'w option"
  confine_of :: "'w \<Rightarrow> pointer_confinement"
  bounds_of :: "'w \<Rightarrow> rectangle"

definition update_focused_surface_confined_region ::
  "'w surface_facts \<Rightarrow> 'w set \<Rightarrow> ('s, 'w) shell \<Rightarrow> ('s, 'w) shell" where
  "update_focused_surface_confined_region fs alive sh = (case lock_weak alive (focus_surface sh) of
     Some w \<Rightarrow> if confine_of fs w = Pointer_confined_to_window then sh\<lparr>confinement_regions := [bounds_of fs w]\<rparr> else sh
   | None \<Rightarrow> sh)"

definition notify_focus_locked ::
  "'w surface_facts \<Rightarrow> 'w set \<Rightarrow> 'w option \<Rightarrow> ('s, 'w) shell \<Rightarrow> ('s, 'w) shell option" where
  "notify_focus_locked fs alive surface sh =
     (let current_focus = lock_weak alive (notified_focus_surface sh) in
      Option.bind (chain (parent_of fs) surface) (\<lambda>up.
      Option.bind (chain (parent_of fs) current_focus) (\<lambda>current_focus_tree.
      let new_focus_tree = rev up in Some (
      if surface \<noteq> current_focus then
        let sh1 = sh\<lparr>notified_focus_surface := surface, confinement_regions := [],
                     focused_surfaces := focused_surfaces sh - set (filter (\<lambda>i. i \<notin> set new_focus_tree) current_focus_tree)\<rparr>;
            sh2 = (case current_focus of Some w \<Rightarrow> sh1\<lparr>observed_surfaces := remove1 w (observed_surfaces sh1)\<rparr> | None \<Rightarrow> sh1)
        in (case surface of
              Some w \<Rightarrow>
                let sh3 = (if confine_of fs w = Pointer_confined_to_window then sh2\<lparr>confinement_regions := [bounds_of fs w]\<rparr> else sh2)
                in sh3\<lparr>input_focus := Some w, device_states_sent := device_states_sent sh3 @ [w],
                       observed_surfaces := observed_surfaces sh3 @ [w],
                       focused_surfaces := focused_surfaces sh3 \<union> set (filter (\<lambda>i. i \<notin> set current_focus_tree) new_focus_tree)\<rparr>
            | None \<Rightarrow> sh2\<lparr>input_focus := None\<rparr>)
      else sh))))"

text \<open>
  The bounds of a surface change.  The shell's observer, where it is registered, updates the confinement on \<open>moved_to\<close> and \<open>content_resized_to\<close>.
\<close>

definition surface_bounds_changed ::
  "'w \<Rightarrow> rectangle \<Rightarrow> 'w set \<Rightarrow> 'w surface_facts \<Rightarrow> ('s, 'w) shell \<Rightarrow> 'w surface_facts \<times> ('s, 'w) shell" where
  "surface_bounds_changed w rect alive fs sh =
     (let fs' = fs\<lparr>bounds_of := (bounds_of fs)(w := rect)\<rparr>
      in (fs', if w \<in> set (observed_surfaces sh) then update_focused_surface_confined_region fs' alive sh else sh))"

text \<open>What a change of a surface does to the seat; \<open>fs\<close> is what the surface answers after the window manager has handled the change.\<close>

fun seat_call :: "('w, 'st, 'k) modify_call \<Rightarrow> ('s, 'w) shell \<Rightarrow> ('s, 'w) shell" where
  "seat_call (Seat_set_confinement_regions rs) sh = sh\<lparr>confinement_regions := rs\<rparr>"
| "seat_call Seat_reset_confinement_regions sh = sh\<lparr>confinement_regions := []\<rparr>"
| "seat_call _ sh = sh"

definition shell_modify_surface ::
  "extent \<Rightarrow> extent \<Rightarrow> displacement \<Rightarrow> ('st \<Rightarrow> bool) \<Rightarrow> 'w surface_facts \<Rightarrow> 'w set \<Rightarrow> 'w \<Rightarrow> ('w, 'st, 'k) surface_specification \<Rightarrow>
   ('s, 'w) shell \<Rightarrow> ('s, 'w) shell" where
  "shell_modify_surface window_sz content_sz offset exists fs alive w mods sh =
     fold seat_call (modify_surface_calls window_sz content_sz offset exists (lock_weak alive (focus_surface sh) = Some w)
       (confine_of fs w) (bounds_of fs w) mods) sh"

definition update_focus_locked :: "'s set \<Rightarrow> 's option \<Rightarrow> 'w option \<Rightarrow> ('s, 'w) shell \<Rightarrow> ('s, 'w) shell" where
  "update_focus_locked alive session surface sh =
     (let current_session = lock_weak alive (focus_session sh);
          sh1 = (if session \<noteq> current_session
                 then sh\<lparr>focus_session := session, coordinator_told := coordinator_told sh @ [session]\<rparr> else sh)
      in sh1\<lparr>focus_surface := surface\<rparr>)"

definition set_focus_to ::
  "'w surface_facts \<Rightarrow> 'w set \<Rightarrow> 's set \<Rightarrow> 's option \<Rightarrow> 'w option \<Rightarrow> ('s, 'w) shell \<Rightarrow> ('s, 'w) shell option" where
  "set_focus_to fs alive sessions session surface sh =
     map_option (update_focus_locked sessions session surface) (notify_focus_locked fs alive surface sh)"

section \<open>Moving the focus between sessions\<close>

text \<open>The loop that skips sessions without a surface, until it is back where it began.\<close>

partial_function (option) skip_empty ::
  "('s option \<Rightarrow> exn + 's option) \<Rightarrow> ('s \<Rightarrow> 'w option) \<Rightarrow> 's option \<Rightarrow> 's option \<Rightarrow> (exn + 's option) option" where
  "skip_empty next default_surface sentinel cur = (case cur of
     None \<Rightarrow> Some (Inr None)
   | Some s \<Rightarrow>
       if default_surface s \<noteq> None then Some (Inr (Some s))
       else (case next (Some s) of
               Inl e \<Rightarrow> Some (Inl e)
             | Inr t \<Rightarrow> if t = sentinel then Some (Inr t) else skip_empty next default_surface sentinel t))"

definition move_session_focus ::
  "('s option \<Rightarrow> exn + 's option) \<Rightarrow> ('s \<Rightarrow> 'w option) \<Rightarrow> 's set \<Rightarrow> ('s, 'w) shell \<Rightarrow> (('s, 'w) shell, unit) run" where
  "move_session_focus next default_surface sessions sh =
     (case next (lock_weak sessions (focus_session sh)) of
        Inl e \<Rightarrow> Some (throw e sh)
      | Inr first \<Rightarrow> Option.bind (skip_empty next default_surface first first) (\<lambda>r. case r of
          Inl e \<Rightarrow> Some (throw e sh)
        | Inr successor \<Rightarrow>
            let surface = Option.bind successor default_surface
            in Some (ret () (update_focus_locked sessions (if surface = None then None else successor) surface sh))))"

definition focus_next_session ::
  "'s session_container \<Rightarrow> ('s \<Rightarrow> 'w option) \<Rightarrow> 's set \<Rightarrow> ('s, 'w) shell \<Rightarrow> (('s, 'w) shell, unit) run" where
  "focus_next_session apps = move_session_focus (\<lambda>s. successor_of s apps)"

definition focus_prev_session ::
  "'s session_container \<Rightarrow> ('s \<Rightarrow> 'w option) \<Rightarrow> 's set \<Rightarrow> ('s, 'w) shell \<Rightarrow> (('s, 'w) shell, unit) run" where
  "focus_prev_session apps = move_session_focus (\<lambda>s. predecessor_of s apps)"

section \<open>Merging specifications\<close>

lemma update_from_sel [simp]:
  "ss_confine_pointer (update_from s t) = overwrite (ss_confine_pointer s) (ss_confine_pointer t)"
  "ss_width (update_from s t) = overwrite (ss_width s) (ss_width t)"
  "ss_height (update_from s t) = overwrite (ss_height s) (ss_height t)"
  by (simp_all add: update_from_def)

lemma update_from_assoc: "update_from (update_from s t) u = update_from s (update_from t u)"
  by (simp add: update_from_def)

lemma update_from_idem: "update_from s s = s"
  by (simp add: update_from_def overwrite_def split: option.split)

lemma overwrite_None_iff [simp]: "overwrite old new = None \<longleftrightarrow> old = None \<and> new = None"
  by (auto simp: overwrite_def split: option.split)

lemma update_from_empty_iff: "spec_is_empty (update_from s t) \<longleftrightarrow> spec_is_empty s \<and> spec_is_empty t"
  unfolding spec_is_empty_def update_from_def by (simp del: de_Morgan_conj) blast

text \<open>
  \<open>is_empty\<close> does not look at the pointer confinement: a request that asks for nothing else never reaches the
  window manager, which is what would store it in the surface.
\<close>

lemma confinement_alone_is_dropped:
  assumes "spec_is_empty mods" "ss_cursor_image mods = None" "ss_stream_cursor mods = None"
  shows "set (modify_surface_calls wsz csz off exists focused confined bounds (mods\<lparr>ss_confine_pointer := Some c\<rparr>)) \<subseteq>
    {Seat_set_confinement_regions [bounds], Seat_reset_confinement_regions}"
proof -
  have "spec_is_empty ((wm_relevant_mods wsz csz off (mods\<lparr>ss_confine_pointer := Some c\<rparr>))\<lparr>ss_streams := None\<rparr>)"
    "ss_streams (wm_relevant_mods wsz csz off (mods\<lparr>ss_confine_pointer := Some c\<rparr>)) = None"
    using assms(1) by (simp_all add: spec_is_empty_def wm_relevant_mods_def Let_def)
  then show ?thesis using assms(2,3) by (auto simp: modify_surface_calls_def Let_def)
qed

section \<open>The focus tree\<close>

definition focus_tree :: "'w surface_facts \<Rightarrow> 'w option \<Rightarrow> 'w set" where
  "focus_tree fs surface = {y. \<exists>x. surface = Some x \<and> (y, x) \<in> (links (parent_of fs))\<^sup>*}"

text \<open>\<open>moved\<close>: the focus went to another session without a notification, so the confinement may be that of another surface.\<close>

definition focus_inv :: "bool \<Rightarrow> 'w surface_facts \<Rightarrow> ('s, 'w) shell \<Rightarrow> bool" where
  "focus_inv moved fs sh \<longleftrightarrow> focused_surfaces sh = focus_tree fs (notified_focus_surface sh) \<and>
     input_focus sh = notified_focus_surface sh \<and>
     observed_surfaces sh = (case notified_focus_surface sh of None \<Rightarrow> [] | Some w \<Rightarrow> [w]) \<and>
     (\<not> moved \<longrightarrow> focus_surface sh = notified_focus_surface sh \<and>
        confinement_regions sh = (case notified_focus_surface sh of None \<Rightarrow> []
          | Some w \<Rightarrow> if confine_of fs w = Pointer_confined_to_window then [bounds_of fs w] else []))"

lemma set_focus_inv:
  assumes "wf (links (parent_of fs))" "focus_inv moved fs sh" "lock_weak alive (notified_focus_surface sh) = notified_focus_surface sh"
  shows "\<exists>sh'. set_focus_to fs alive sessions s w sh = Some sh' \<and> focus_inv (moved \<and> w = notified_focus_surface sh) fs sh' \<and>
    notified_focus_surface sh' = w \<and> focus_surface sh' = w"
proof -
  obtain up where up: "chain (parent_of fs) w = Some up" "set up = focus_tree fs w"
    using chain_ends [OF assms(1), of w] by (auto simp: focus_tree_def)
  obtain cur where cur: "chain (parent_of fs) (notified_focus_surface sh) = Some cur"
    "set cur = focus_tree fs (notified_focus_surface sh)"
    using chain_ends [OF assms(1), of "notified_focus_surface sh"] by (auto simp: focus_tree_def)
  show ?thesis
  proof (cases "w = notified_focus_surface sh")
    case True
    then show ?thesis using assms(2,3) up(1)
      by (simp add: set_focus_to_def notify_focus_locked_def update_focus_locked_def focus_inv_def Let_def)
  next
    case False
    have none: "focus_tree fs None = {}" by (simp add: focus_tree_def)
    from False assms(2) show ?thesis
      by (auto simp: set_focus_to_def notify_focus_locked_def update_focus_locked_def Let_def assms(3) up cur focus_inv_def none split: option.splits)
  qed
qed

lemma focus_inv_update_focus: "focus_inv moved fs sh \<Longrightarrow> focus_inv True fs (update_focus_locked sessions s w sh)"
  by (simp add: focus_inv_def update_focus_locked_def Let_def)

lemma focus_inv_weaken: "focus_inv moved fs sh \<Longrightarrow> focus_inv True fs sh"
  by (simp add: focus_inv_def)

lemma lock_weak_cases: "lock_weak alive p = p \<longleftrightarrow> (\<forall>x. p = Some x \<longrightarrow> x \<in> alive)"
  by (simp add: lock_weak_def split: option.split)

lemma bounds_changed_inv:
  assumes "focus_inv moved fs sh" "lock_weak alive (notified_focus_surface sh) = notified_focus_surface sh"
    and "surface_bounds_changed w rect alive fs sh = (fs', sh')"
  shows "focus_inv moved fs' sh'"
proof -
  have e: "fs' = fs\<lparr>bounds_of := (bounds_of fs)(w := rect)\<rparr>"
    "sh' = (if w \<in> set (observed_surfaces sh) then update_focused_surface_confined_region fs' alive sh else sh)"
    using assms(3) by (auto simp: surface_bounds_changed_def Let_def)
  have t: "focus_tree fs' = focus_tree fs" by (simp add: focus_tree_def fun_eq_iff e(1))
  have u: "focused_surfaces sh' = focused_surfaces sh" "input_focus sh' = input_focus sh" "observed_surfaces sh' = observed_surfaces sh"
    "notified_focus_surface sh' = notified_focus_surface sh" "focus_surface sh' = focus_surface sh"
    by (simp_all add: e(2) update_focused_surface_confined_region_def split: option.split)
  have "confinement_regions sh' = (case notified_focus_surface sh of None \<Rightarrow> []
      | Some x \<Rightarrow> if confine_of fs' x = Pointer_confined_to_window then [bounds_of fs' x] else [])" if m: "\<not> moved"
  proof (cases "notified_focus_surface sh")
    case None
    then show ?thesis using assms(1) m by (simp add: focus_inv_def e(2))
  next
    case (Some x)
    then have "lock_weak alive (focus_surface sh) = Some x" using assms(1,2) m by (simp add: focus_inv_def)
    then show ?thesis using assms(1) m Some by (simp add: focus_inv_def e update_focused_surface_confined_region_def)
  qed
  then show ?thesis using assms(1) by (simp add: focus_inv_def t u)
qed

text \<open>Of the calls of \<open>modify_surface\<close> only the last concerns the seat.\<close>

lemma modify_surface_eq:
  "shell_modify_surface wsz csz off exists fs alive w mods sh =
     (if ss_confine_pointer mods \<noteq> None \<and> lock_weak alive (focus_surface sh) = Some w
      then sh\<lparr>confinement_regions := if confine_of fs w = Pointer_confined_to_window then [bounds_of fs w] else []\<rparr> else sh)"
  by (auto simp: shell_modify_surface_def modify_surface_calls_def Let_def split: option.split)

lemma modify_surface_inv:
  assumes "focus_inv moved fs sh" "lock_weak alive (notified_focus_surface sh) = notified_focus_surface sh"
    and "fs' = fs\<lparr>confine_of := (confine_of fs)(w := c)\<rparr>" "ss_confine_pointer mods = None \<longrightarrow> c = confine_of fs w"
  shows "focus_inv moved fs' (shell_modify_surface wsz csz off exists fs' alive w mods sh)"
proof -
  have t: "focus_tree fs' = focus_tree fs" by (simp add: focus_tree_def fun_eq_iff assms(3))
  have "confine_of fs' = confine_of fs" if "ss_confine_pointer mods = None" using assms(3,4) that by simp
  then show ?thesis using assms(1,2) t unfolding modify_surface_eq
    by (auto simp: focus_inv_def assms(3) split: option.split)
qed

text \<open>A surface that has the notified focus moves while another session has been given the focus: the pointer is confined to a surface of that session.\<close>

lemma confined_to_the_other_session:
  assumes "observed_surfaces sh = [a]" "focus_surface sh = Some b" "b \<in> alive" "confine_of fs b = Pointer_confined_to_window" "a \<noteq> b"
  shows "confinement_regions (snd (surface_bounds_changed a rect alive fs sh)) = [bounds_of fs b]"
  using assms by (simp add: surface_bounds_changed_def update_focused_surface_confined_region_def lock_weak_def Let_def)

section \<open>The order of the sessions\<close>

lemma next_in_nth:
  assumes "distinct xs" "i < length xs"
  shows "next_in (hd xs) xs (xs ! i) = Inr (xs ! (Suc i mod length xs))"
proof -
  define ys zs where "ys = take i xs" and "zs = drop (Suc i) xs"
  have xs: "xs = ys @ xs ! i # zs" using assms(2) by (simp add: ys_def zs_def id_take_nth_drop)
  have "distinct (ys @ xs ! i # zs)" using assms(1) xs by metis
  then have nin: "xs ! i \<notin> set ys" by simp
  show ?thesis
  proof (cases zs)
    case (Cons z zs')
    then have len: "Suc i < length xs" by (cases "Suc i < length xs") (auto simp: zs_def)
    with Cons have "z = xs ! Suc i" by (metis zs_def Cons_nth_drop_Suc list.inject)
    moreover have "next_in (hd xs) (ys @ xs ! i # z # zs') (xs ! i) = Inr z" by (rule next_in_middle [OF nin])
    ultimately show ?thesis using xs Cons len by simp
  next
    case Nil
    then have len: "Suc i = length xs" using assms(2) by (simp add: zs_def)
    moreover have "next_in (hd xs) (ys @ [xs ! i]) (xs ! i) = Inr (hd xs)" by (rule next_in_last [OF nin])
    moreover have "hd xs = xs ! 0" using assms(2) by (cases xs) auto
    ultimately show ?thesis using xs Nil by simp
  qed
qed

lemma nth_rotate_Suc:
  assumes "xs \<noteq> []" "i < length xs"
  shows "rotate k xs ! (Suc i mod length xs) = xs ! (Suc ((i + k) mod length xs) mod length xs)"
  using assms by (simp add: nth_rotate mod_simps add.commute)

text \<open>From the session at the start of the rotated list the loop finds the first one with a surface.\<close>

lemma skip_empty_finds:
  assumes "distinct xs" "i < length xs" and n: "\<And>j. j < length xs \<Longrightarrow> next (Some (xs ! j)) = Inr (Some (xs ! (Suc j mod length xs)))"
  shows "skip_empty next default_surface (Some (xs ! 0)) (Some (xs ! i)) =
    Some (Inr (case List.find (\<lambda>s. default_surface s \<noteq> None) (drop i xs) of Some s \<Rightarrow> Some s | None \<Rightarrow> Some (xs ! 0)))"
  using assms(2)
proof (induction "length xs - i" arbitrary: i)
  case (Suc m)
  have d: "drop i xs = xs ! i # drop (Suc i) xs" using Suc.prems by (simp add: Cons_nth_drop_Suc)
  show ?case
  proof (cases "default_surface (xs ! i) = None \<and> Suc i < length xs")
    case True
    then have "xs ! Suc i \<noteq> xs ! 0" using nth_eq_iff_index_eq [OF assms(1), of "Suc i" 0] by (cases xs) auto
    with True show ?thesis
      using n [OF Suc.prems] Suc.hyps(1) [of "Suc i"] Suc.hyps(2) d by (subst skip_empty.simps) simp
  next
    case False
    then have "default_surface (xs ! i) \<noteq> None \<or> Suc i = length xs" using Suc.prems by auto
    then show ?thesis using n [OF Suc.prems] d by (subst skip_empty.simps) auto
  qed
qed simp

text \<open>The first session of a list that has a surface gets the focus.\<close>

definition focus_first :: "('s \<Rightarrow> 'w option) \<Rightarrow> 's set \<Rightarrow> 's list \<Rightarrow> ('s, 'w) shell \<Rightarrow> ('s, 'w) shell" where
  "focus_first default_surface sessions order sh =
     (let t = List.find (\<lambda>s. default_surface s \<noteq> None) order
      in update_focus_locked sessions t (Option.bind t default_surface) sh)"

lemma move_session_focus_finds:
  assumes "distinct xs" "k < length xs" "next (lock_weak sessions (focus_session sh)) = Inr (Some (xs ! k))"
    and n: "\<And>j. j < length xs \<Longrightarrow> next (Some (xs ! j)) = Inr (Some (xs ! (Suc j mod length xs)))"
  shows "move_session_focus next default_surface sessions sh =
    Some (ret () (focus_first default_surface sessions (rotate k xs) sh))"
proof -
  let ?ys = "rotate k xs"
  have ne: "xs \<noteq> []" using assms(2) by auto
  have y0: "?ys ! 0 = xs ! k" using assms(2) ne by (simp add: nth_rotate)
  have "next (Some (?ys ! j)) = Inr (Some (?ys ! (Suc j mod length ?ys)))" if "j < length ?ys" for j
  proof -
    have "?ys ! j = xs ! ((j + k) mod length xs)" using that ne by (simp add: nth_rotate add.commute)
    moreover have "(j + k) mod length xs < length xs" using ne by simp
    ultimately show ?thesis using n nth_rotate_Suc [OF ne, of j k] that by simp
  qed
  from skip_empty_finds [OF _ _ this, of 0 default_surface]
  have "skip_empty next default_surface (Some (xs ! k)) (Some (xs ! k)) =
    Some (Inr (case List.find (\<lambda>s. default_surface s \<noteq> None) ?ys of Some s \<Rightarrow> Some s | None \<Rightarrow> Some (xs ! k)))"
    using assms(1) ne by (simp add: y0 cong: option.case_cong)
  moreover have "default_surface (xs ! k) = None" if "List.find (\<lambda>s. default_surface s \<noteq> None) ?ys = None"
    using that assms(2) by (auto simp: find_None_iff)
  moreover have "default_surface s \<noteq> None" if "List.find (\<lambda>s. default_surface s \<noteq> None) ?ys = Some s" for s
    using that by (auto simp: find_Some_iff)
  ultimately show ?thesis
    using assms(3) by (auto simp: move_session_focus_def focus_first_def Let_def split: option.splits)
qed

section \<open>Reachable states of the shell\<close>

definition make_shell :: "('s, 'w) shell" where
  "make_shell = \<lparr>focus_session = None, focus_surface = None, notified_focus_surface = None, focused_surfaces = {},
     observed_surfaces = [], confinement_regions = [], input_focus = None, device_states_sent = [], coordinator_told = []\<rparr>"

text \<open>
  The steps of the shell and of the surfaces, in any order; the first argument tells whether the focus has gone to another session since the last
  notification of another surface.  A surface that has the focus is removed only after the focus has moved on.  Confinement is asked for through
  \<open>modify_surface\<close>: in the first steps of it the window manager, if the request reaches it, stores it in the surface; changes of the bounds that it makes there are steps of
  their own.  The streams and cursor images in a request are numbered.
\<close>

inductive shell_reachable :: "bool \<Rightarrow> 'w surface_facts \<Rightarrow> ('s, 'w) shell \<Rightarrow> bool" where
  start: "shell_reachable False fs make_shell"
| set_focus: "shell_reachable moved fs sh \<Longrightarrow> lock_weak alive (notified_focus_surface sh) = notified_focus_surface sh \<Longrightarrow>
    set_focus_to fs alive sessions s w sh = Some sh' \<Longrightarrow> shell_reachable (moved \<and> w = notified_focus_surface sh) fs sh'"
| next_session: "shell_reachable moved fs sh \<Longrightarrow> focus_next_session apps default_surface sessions sh = Some r \<Longrightarrow> shell_reachable True fs (state_of r)"
| prev_session: "shell_reachable moved fs sh \<Longrightarrow> focus_prev_session apps default_surface sessions sh = Some r \<Longrightarrow> shell_reachable True fs (state_of r)"
| bounds: "shell_reachable moved fs sh \<Longrightarrow> lock_weak alive (notified_focus_surface sh) = notified_focus_surface sh \<Longrightarrow>
    surface_bounds_changed w rect alive fs sh = (fs', sh') \<Longrightarrow> shell_reachable moved fs' sh'"
| modified: "shell_reachable moved fs sh \<Longrightarrow> lock_weak alive (notified_focus_surface sh) = notified_focus_surface sh \<Longrightarrow>
    fs' = fs\<lparr>confine_of := (confine_of fs)(w := c)\<rparr> \<Longrightarrow> (ss_confine_pointer mods = None \<longrightarrow> c = confine_of fs w) \<Longrightarrow>
    shell_reachable moved fs' (shell_modify_surface wsz csz off exists fs' alive w (mods :: ('w, nat, nat) surface_specification) sh)"

lemma move_session_focus_inv:
  "move_session_focus next default_surface sessions sh = Some r \<Longrightarrow> focus_inv moved fs sh \<Longrightarrow> focus_inv True fs (state_of r)"
proof -
  assume m: "move_session_focus next default_surface sessions sh = Some r" and inv: "focus_inv moved fs sh"
  note w = focus_inv_weaken [OF inv] focus_inv_update_focus [OF inv]
  show "focus_inv True fs (state_of r)"
  proof (cases "next (lock_weak sessions (focus_session sh))")
    case (Inl e)
    with m w show ?thesis by (auto simp: move_session_focus_def)
  next
    case (Inr first)
    with m obtain y where y: "skip_empty next default_surface first first = Some y"
      by (auto simp: move_session_focus_def bind_eq_Some_conv)
    with m w Inr show ?thesis by (cases y) (auto simp: move_session_focus_def Let_def)
  qed
qed

lemma shell_reachable_inv: "shell_reachable moved fs sh \<Longrightarrow> wf (links (parent_of fs)) \<longrightarrow> focus_inv moved fs sh"
proof (induction rule: shell_reachable.induct)
  case (start fs)
  show ?case by (simp add: focus_inv_def make_shell_def focus_tree_def)
next
  case (set_focus moved fs sh alive sessions s w sh')
  then show ?case using set_focus_inv [OF _ _ set_focus.hyps(2), of fs moved sessions s w] by auto
next
  case (bounds moved fs sh alive w rect fs' sh')
  have "parent_of fs' = parent_of fs" using bounds.hyps(3) by (auto simp: surface_bounds_changed_def Let_def)
  then show ?case using bounds_changed_inv [OF _ bounds.hyps(2,3)] bounds.IH by simp
next
  case (modified moved fs sh alive fs' w c mods wsz csz off exists)
  then show ?case using modify_surface_inv [OF _ modified.hyps(2,3,4)] by simp
qed (auto simp: focus_next_session_def focus_prev_session_def intro: move_session_focus_inv)

section \<open>Properties\<close>


definition sample_facts :: "nat surface_facts" where
  "sample_facts = \<lparr>parent_of = (\<lambda>w. if w = 2 then Some 1 else None), confine_of = (\<lambda>w. Pointer_unconfined),
     bounds_of = (\<lambda>w. Rectangle (Point 0 0) (Size 10 10))\<rparr>"

lemma sample_facts_wf: "wf (links (parent_of sample_facts))"
proof -
  have "links (parent_of sample_facts) \<subseteq> {(x, y). x < y}" by (auto simp: links_def sample_facts_def split: if_splits)
  then show ?thesis using wf_less wf_subset by blast
qed


text \<open>
  Moving the focus to the next or the previous session always ends.  The sessions are searched in their
  cyclic order from the one after (before) the focused session, and the first one that has a surface gets the
  focus with its default surface; when no session has one, nothing has the focus.  Without a focused session
  the search begins with the session opened last (first).
\<close>

theorem session_focus_moves_cyclically:
  assumes "distinct apps" "i < length apps"
  shows "(lock_weak sessions (focus_session sh) = Some (apps ! i) \<longrightarrow>
      focus_next_session apps default_surface sessions sh = Some (ret () (focus_first default_surface sessions (rotate (Suc i) apps) sh))) \<and>
    (lock_weak sessions (focus_session sh) = Some (rev apps ! i) \<longrightarrow>
      focus_prev_session apps default_surface sessions sh =
        Some (ret () (focus_first default_surface sessions (rotate (Suc i) (rev apps)) sh))) \<and>
    (lock_weak sessions (focus_session sh) = None \<longrightarrow>
      focus_next_session apps default_surface sessions sh =
        Some (ret () (focus_first default_surface sessions (rotate (length apps - 1) apps) sh)) \<and>
      focus_prev_session apps default_surface sessions sh =
        Some (ret () (focus_first default_surface sessions (rotate (length apps - 1) (rev apps)) sh)))"
proof -
  have n: "successor_of (Some (apps ! j)) apps = Inr (Some (apps ! (Suc j mod length apps)))" if "j < length apps" for j
    using next_in_nth [OF assms(1) that] by (simp add: successor_of_def)
  have p: "predecessor_of (Some (rev apps ! j)) apps = Inr (Some (rev apps ! (Suc j mod length (rev apps))))"
    if "j < length (rev apps)" for j
    using next_in_nth [of "rev apps" j] assms(1) that by (simp add: predecessor_of_def)
  have d: "distinct (rev apps)" and ne: "apps \<noteq> []" using assms by auto
  have l: "Suc i mod length apps < length apps" "length apps - 1 < length apps" using ne by simp_all
  have r: "rotate (Suc i mod length xs) xs = rotate (Suc i) xs" for xs :: "'a list" by (metis rotate_conv_mod)
  have l': "Suc i mod length apps < length (rev apps)" "length apps - 1 < length (rev apps)" using l by simp_all
  have none: "successor_of None apps = Inr (Some (apps ! (length apps - 1)))"
    "predecessor_of None apps = Inr (Some (rev apps ! (length apps - 1)))"
    using ne by (simp_all add: successor_of_def predecessor_of_def last_conv_nth rev_nth hd_conv_nth)
  note succ = move_session_focus_finds [OF assms(1) _ _ n, where default_surface = default_surface and sh = sh and sessions = sessions]
    and pred = move_session_focus_finds [OF d _ _ p, where default_surface = default_surface and sh = sh and sessions = sessions]
  show ?thesis
    unfolding focus_next_session_def focus_prev_session_def
  proof (intro conjI impI)
    assume f: "lock_weak sessions (focus_session sh) = Some (apps ! i)"
    show "move_session_focus (\<lambda>s. successor_of s apps) default_surface sessions sh =
        Some (ret () (focus_first default_surface sessions (rotate (Suc i) apps) sh))"
      using succ [OF l(1)] unfolding f n [OF assms(2)] r by simp
  next
    assume f: "lock_weak sessions (focus_session sh) = Some (rev apps ! i)"
    have "predecessor_of (Some (rev apps ! i)) apps = Inr (Some (rev apps ! (Suc i mod length apps)))"
      using p [of i] assms(2) by simp
    then show "move_session_focus (\<lambda>s. predecessor_of s apps) default_surface sessions sh =
        Some (ret () (focus_first default_surface sessions (rotate (Suc i) (rev apps)) sh))"
      using pred [OF l'(1)] r [of "rev apps"] unfolding f by simp
  next
    assume f: "lock_weak sessions (focus_session sh) = None"
    show "move_session_focus (\<lambda>s. successor_of s apps) default_surface sessions sh =
        Some (ret () (focus_first default_surface sessions (rotate (length apps - 1) apps) sh))"
      using succ [OF l(2)] unfolding f none by simp
    show "move_session_focus (\<lambda>s. predecessor_of s apps) default_surface sessions sh =
        Some (ret () (focus_first default_surface sessions (rotate (length apps - 1) (rev apps)) sh))"
      using pred [OF l'(2)] unfolding f none by simp
  qed
qed

theorem session_focus_moves_cyclically_witness:
  "focus_next_session [1, 2, 3 :: nat] (\<lambda>s. if s = 1 then Some 9 else None) {1, 2, 3} (make_shell\<lparr>focus_session := Some 2\<rparr>) =
   Some (ret () (make_shell\<lparr>focus_session := Some 1, focus_surface := Some (9 :: nat), coordinator_told := [Some 1]\<rparr>))"
  using session_focus_moves_cyclically [of "[1, 2, 3 :: nat]" 1 "{1, 2, 3}" "make_shell\<lparr>focus_session := Some 2\<rparr>"
      "\<lambda>s. if s = 1 then Some (9 :: nat) else None"]
  by (simp add: lock_weak_def focus_first_def update_focus_locked_def make_shell_def rotate1_def numeral_eq_Suc Let_def)

end
