(* ===== verification/Window_Shell.thy ===== *)
theory Window_Shell
  imports Window_Focus Abstract_Shell
begin

text \<open>
  The window manager on top of the shell.  The focus controller that \<open>BasicWindowManager\<close> calls is \<open>AbstractShell\<close>, whose
  \<open>focus_next_session\<close> walks along the sessions of the session container; with it, the search for a window that gets the focus when a
  window is removed goes round all applications and ends.
\<close>

section \<open>The shell as focus controller\<close>

text \<open>The session and the surface that have the focus after \<open>focus_next_session\<close>, when a given session had it before.  The sessions are
  open, so that the weak pointers to them lock.\<close>

definition shell_next :: "'s session_container \<Rightarrow> ('s \<Rightarrow> 'w option) \<Rightarrow> 's option \<Rightarrow> 's option \<times> 'w option" where
  "shell_next apps default_surface s =
     (case focus_next_session apps default_surface UNIV (make_shell\<lparr>focus_session := s\<rparr>) of
        Some r \<Rightarrow> (focus_session (state_of r), focus_surface (state_of r))
      | None \<Rightarrow> (s, None))"

text \<open>The session at which the walk begins: the one after the focused session, or the last one.\<close>

definition walk_start :: "'s session_container \<Rightarrow> 's option \<Rightarrow> nat \<Rightarrow> bool" where
  "walk_start apps s k \<longleftrightarrow> k < length apps \<and>
     (case s of None \<Rightarrow> k = length apps - 1 | Some a \<Rightarrow> \<exists>j < length apps. a = apps ! j \<and> k = Suc j mod length apps)"

lemma successor_nth:
  assumes "distinct apps" "j < length apps"
  shows "successor_of (Some (apps ! j)) apps = Inr (Some (apps ! (Suc j mod length apps)))"
  using next_in_nth [OF assms] by (simp add: successor_of_def)

lemma walk_start_successor:
  assumes "distinct apps" "walk_start apps s k"
  shows "successor_of s apps = Inr (Some (apps ! k))"
proof (cases s)
  case None
  then show ?thesis using assms(2) by (auto simp: walk_start_def successor_of_def last_conv_nth)
next
  case (Some a)
  then show ?thesis using assms successor_nth by (auto simp: walk_start_def)
qed

lemma walk_start_ex:
  assumes "apps \<noteq> []" "s = None \<or> s \<in> Some ` set apps"
  obtains k where "walk_start apps s k"
proof (cases s)
  case None
  then show thesis using assms(1) by (intro that [of "length apps - 1"]) (simp add: walk_start_def)
next
  case (Some a)
  then obtain j where "j < length apps" "a = apps ! j" using assms(2) by (auto simp: in_set_conv_nth)
  then show thesis using Some assms(1) by (intro that [of "Suc j mod length apps"]) (auto simp: walk_start_def)
qed

lemma shell_next_finds:
  assumes "distinct apps" "walk_start apps s k"
  shows "shell_next apps default_surface s =
    (let t = List.find (\<lambda>a. default_surface a \<noteq> None) (rotate k apps) in (t, Option.bind t default_surface))"
proof -
  have "lock_weak UNIV s = s" for s :: "'a option" by (cases s) (simp_all add: lock_weak_def)
  moreover have "k < length apps" using assms(2) by (simp add: walk_start_def)
  ultimately have "focus_next_session apps default_surface UNIV (make_shell\<lparr>focus_session := s\<rparr>) =
      Some (ret () (focus_first default_surface UNIV (rotate k apps) (make_shell\<lparr>focus_session := s\<rparr>)))"
    unfolding focus_next_session_def using walk_start_successor [OF assms] successor_nth [OF assms(1)]
    by (intro move_session_focus_finds [OF assms(1)]) simp_all
  then show ?thesis
    by (simp add: shell_next_def focus_first_def update_focus_locked_def Let_def \<open>\<And>s. lock_weak UNIV s = s\<close>)
qed

section \<open>The walk comes round\<close>

lemma find_rotate:
  assumes "k < length xs" "m < length xs" "P (xs ! ((k + m) mod length xs))"
  obtains j where "j \<le> m" "List.find P (rotate k xs) = Some (xs ! ((k + j) mod length xs))" "P (xs ! ((k + j) mod length xs))"
proof -
  have n: "rotate k xs ! i = xs ! ((k + i) mod length xs)" if "i < length xs" for i using that by (simp add: nth_rotate)
  define j where "j = (LEAST i. P (xs ! ((k + i) mod length xs)))"
  have j: "P (xs ! ((k + j) mod length xs))" unfolding j_def by (rule LeastI [of "\<lambda>i. P (xs ! ((k + i) mod length xs))", OF assms(3)])
  have le: "j \<le> m" unfolding j_def by (rule Least_le) (rule assms(3))
  have "\<not> P (rotate k xs ! i)" if "i < j" for i
    using not_less_Least [of i "\<lambda>i. P (xs ! ((k + i) mod length xs))"] that le assms(2) n [of i] unfolding j_def by auto
  then have "List.find P (rotate k xs) = Some (xs ! ((k + j) mod length xs))"
    using le assms(2) j n [of j] by (auto simp: find_Some_iff intro!: exI [of _ j])
  with le j show thesis by (intro that)
qed

lemma walk_reaches:
  assumes "distinct apps" "default_surface (apps ! ((k + m) mod length apps)) \<noteq> None" "m < length apps" "walk_start apps s k"
  shows "\<exists>n. ((\<lambda>s. fst (shell_next apps default_surface s)) ^^ Suc n) s = Some (apps ! ((k + m) mod length apps))"
  using assms(2-4)
proof (induction m arbitrary: s k rule: less_induct)
  case (less m)
  let ?next = "\<lambda>s. fst (shell_next apps default_surface s)" and ?l = "length apps"
  have k: "k < ?l" using less.prems(3) by (simp add: walk_start_def)
  obtain j where j: "j \<le> m" "List.find (\<lambda>a. default_surface a \<noteq> None) (rotate k apps) = Some (apps ! ((k + j) mod ?l))"
    using find_rotate [OF k less.prems(2), of "\<lambda>a. default_surface a \<noteq> None"] less.prems(1) by metis
  have step: "?next s = Some (apps ! ((k + j) mod ?l))" unfolding shell_next_finds [OF assms(1) less.prems(3)] by (simp add: j(2) Let_def del: not_None_eq)
  show ?case
  proof (cases "j = m")
    case True
    then show ?thesis using step by (intro exI [of _ 0]) simp
  next
    case False
    then have lt: "m - Suc j < m" "m - Suc j < ?l" using j(1) less.prems(2) by auto
    let ?k = "Suc ((k + j) mod ?l) mod ?l"
    have pos: "0 < ?l" using k by auto
    have "walk_start apps (?next s) ?k" unfolding step walk_start_def
      by (auto intro!: exI [of _ "(k + j) mod ?l"] mod_less_divisor pos simp del: mod_Suc_eq)
    moreover have "(?k + (m - Suc j)) mod ?l = (Suc (k + j) + (m - Suc j)) mod ?l" by (metis mod_Suc_eq mod_add_left_eq)
    then have "(?k + (m - Suc j)) mod ?l = (k + m) mod ?l" using False j(1) by simp
    ultimately obtain n where "(?next ^^ Suc n) (?next s) = Some (apps ! ((k + m) mod ?l))"
      using less.IH [OF lt(1) _ lt(2), of ?k "?next s"] less.prems(1) by auto
    then show ?thesis by (intro exI [of _ "Suc n"]) (simp only: funpow_Suc_right comp_def)
  qed
qed

text \<open>The focus goes round all open sessions that have a surface.\<close>

lemma shell_next_cycles:
  assumes "distinct apps" "\<forall>a\<in>A. a \<in> set apps \<and> default_surface a \<noteq> None" "\<forall>a w. default_surface a = Some w \<longrightarrow> w \<in> W" "apps \<noteq> []"
  shows "next_cycles (shell_next apps default_surface) (insert None (Some ` set apps)) A W"
proof -
  have start: "\<exists>k. walk_start apps s k" if "s \<in> insert None (Some ` set apps)" for s
    using walk_start_ex [OF assms(4), of s] that by blast
  have in_S: "fst (shell_next apps default_surface s) \<in> insert None (Some ` set apps) \<and> (\<forall>w. snd (shell_next apps default_surface s) = Some w \<longrightarrow> w \<in> W)"
    if "s \<in> insert None (Some ` set apps)" for s
  proof -
    from start [OF that] obtain k where "walk_start apps s k" by blast
    note found = shell_next_finds [OF assms(1) this, of default_surface]
    have "\<And>a. List.find (\<lambda>a. default_surface a \<noteq> None) (rotate k apps) = Some a \<Longrightarrow> a \<in> set apps"
      by (metis find_Some_iff nth_mem set_rotate)
    then show ?thesis using assms(3) unfolding found
      by (cases "List.find (\<lambda>a. default_surface a \<noteq> None) (rotate k apps)") (simp_all add: Let_def del: not_None_eq)
  qed
  moreover have "\<exists>n. ((\<lambda>s. fst (shell_next apps default_surface s)) ^^ Suc n) s = Some a"
    if s: "s \<in> insert None (Some ` set apps)" and a: "a \<in> A" for s a
  proof -
    from start [OF s] obtain k where k: "walk_start apps s k" by blast
    then have kl: "k < length apps" by (simp add: walk_start_def)
    obtain i where i: "i < length apps" "a = apps ! i" using assms(2) a by (auto simp: in_set_conv_nth)
    define m where "m = (i + length apps - k) mod length apps"
    have "(k + m) mod length apps = (k + (i + length apps - k)) mod length apps" by (simp add: m_def mod_simps)
    also have "\<dots> = i" using kl i(1) by simp
    finally have m: "(k + m) mod length apps = i" .
    have ml: "m < length apps" unfolding m_def using kl by (intro mod_less_divisor) auto
    show ?thesis using walk_reaches [OF assms(1) _ ml k, of default_surface] assms(2) a i(2) m by auto
  qed
  ultimately show ?thesis by (simp add: next_cycles_def)
qed

section \<open>Properties\<close>

text \<open>
  C6: Removing a window, with the shell as the focus controller, ends, also when the window was active and the focus has to go
  through all windows and applications to find another place, and leaves no trace of it: no information about it, no mention
  among the recently used, fullscreen or attached windows, in a workspace or in the list of its
  application, no window that has it as its parent or child, and it is not active.  All other windows are still there and still
  form trees.  Before, the window manager has to be orderly: the windows form a forest, the recently used, fullscreen and attached windows are
  known, no window is listed twice, and attached windows have a state that can be placed.  The sessions are open: the application and the
  owners of the other windows are in the session container, once, the focused session is too if there is one, and a session's default surface is one of
  the other windows, which every owner of one has.
\<close>

theorem removed_window_leaves_no_trace:
  assumes "orderly wm" "app_info wm app \<noteq> None" "window_info wm w \<noteq> None"
    and "distinct apps" "app \<in> set apps" "focused_session wm \<in> insert None (Some ` set apps)"
    and "\<forall>v\<in>dom (window_info wm) - {w}. window_application wm v \<in> set apps \<and> default_surface (window_application wm v) \<noteq> None"
    and "\<forall>a v. default_surface a = Some v \<longrightarrow> v \<in> dom (window_info wm) - {w}"
  shows "\<exists>wm'. remove_surface env (shell_next apps default_surface) app w wm = Some (ret () wm') \<and> dom (window_info wm') = dom (window_info wm) - {w} \<and>
    w \<notin> set (mru_active_windows wm') \<and> w \<notin> set (fullscreen_surfaces wm') \<and>
    (\<forall>a\<in>set (display_areas wm'). w \<notin> set (attached_windows a)) \<and> w \<notin> snd ` set (workspaces_to_windows wm') \<and>
    (\<exists>ws. app_info wm' app = Some ws \<and> w \<notin> set ws) \<and>
    (\<forall>v i. window_info wm' v = Some i \<longrightarrow> wi_parent i \<noteq> Some w \<and> w \<notin> set (wi_children i)) \<and>
    active_window wm' \<noteq> Some w \<and> forest wm'"
proof -
  obtain ws i where known: "app_info wm app = Some ws" "window_info wm w = Some i" using assms(2,3) by auto
  let ?next = "shell_next apps default_surface" and ?S = "insert None (Some ` set apps)"
  have cycles: "next_cycles ?next ?S (window_application wm ` (dom (window_info wm) - {w})) (dom (window_info wm) - {w})"
    using assms(4,5,7,8) by (intro shell_next_cycles) auto
  have l: "window_info (locker wm) = window_info wm" "app_info (locker wm) = app_info wm" "orderly (locker wm)"
    "window_application (locker wm) = window_application wm" "focused_session (locker wm) = focused_session wm"
    using assms(1) forest_same_windows [of "locker wm" wm] by (auto simp: locker_def orderly_def stays_def attached_ok_def)
  obtain wm' where wm': "remove_window env ?next app w i (locker wm) = Some (ret () wm')" "stays wm'" "unlisted app w wm'"
    "dom (window_info wm') = dom (window_info wm) - {w}"
    using remove_window_result [OF l(3), of app ws w i ?S ?next env] known assms(6) cycles unfolding l(1,2,4,5) by blast
  have "remove_surface env ?next app w wm = Some (ret () wm')"
    using wm'(1) known by (simp add: remove_surface_def l(1,2))
  moreover have "wi_parent j \<noteq> Some w \<and> w \<notin> set (wi_children j)" if "window_info wm' v = Some j" for v j
    using forest_parent [OF _ that, of w] forest_child [OF _ that, of w] wm'(2,4) by (auto simp: stays_def)
  moreover have "w \<notin> set (mru_active_windows wm')" using wm'(2,4) by (auto simp: stays_def)
  moreover from this have "active_window wm' \<noteq> Some w"
    by (auto simp: active_window_def mru_top_def dest: find_last_in_set)
  ultimately show ?thesis using wm'(2-4) unfolding unlisted_def stays_def by auto
qed

theorem removed_window_leaves_no_trace_witness:
  "\<exists>wm'. remove_surface sample_env (shell_next [7, 9] [7 \<mapsto> 1]) 7 2 sample_wm = Some (ret () wm') \<and>
     dom (window_info wm') = {1} \<and> active_window sample_wm = Some 2 \<and> active_window wm' \<noteq> Some 2"
proof -
  have o: "orderly sample_wm" using sample_wm_forest
    by (auto simp: orderly_def stays_def attached_ok_def) (auto simp: sample_wm_def split: if_splits)
  have d: "app_info sample_wm 7 \<noteq> None" "window_info sample_wm 2 \<noteq> None" "dom (window_info sample_wm) - {2} = {1}"
    and f: "focused_session sample_wm = Some 7" "window_application sample_wm 1 = 7"
    by (auto simp: sample_wm_def split: if_splits)
  have p: "distinct [7 :: nat, 9]" "7 \<in> set [7 :: nat, 9]" "focused_session sample_wm \<in> insert None (Some ` set [7, 9])"
    "\<forall>v\<in>dom (window_info sample_wm) - {2}. window_application sample_wm v \<in> set [7, 9] \<and> [7 \<mapsto> 1 :: nat] (window_application sample_wm v) \<noteq> None"
    "\<forall>a v. [7 \<mapsto> 1] a = Some v \<longrightarrow> v \<in> dom (window_info sample_wm) - {2}"
    unfolding d(3) using f by simp_all
  have act: "active_window sample_wm = Some 2" by (simp add: sample_wm_def active_window_def mru_top_def find_last_def)
  from removed_window_leaves_no_trace [OF o d(1,2) p, of sample_env] obtain wm' where
    "remove_surface sample_env (shell_next [7, 9] [7 \<mapsto> 1]) 7 2 sample_wm = Some (ret () wm')"
    "dom (window_info wm') = dom (window_info sample_wm) - {2}" "active_window wm' \<noteq> Some 2" by (elim exE conjE)
  with d(3) act show ?thesis by simp
qed

end
