(* ===== verification/Wayland_Surface.thy ===== *)
theory Wayland_Surface
  imports Loops Abstract_Shell
begin

text \<open>
  The surfaces of Wayland clients: \<open>src/server/frontend_wayland/wl_surface.cpp\<close> and \<open>wl_subcompositor.cpp\<close>, and the state of
  \<open>window_wl_surface_role.cpp\<close> and \<open>src/server/scene/surface_creation_parameters.cpp\<close>.  A client collects changes of a surface in its
  pending state and commits them; a surface may be a sub-surface of another one, and then its changes may wait for the parent's.

  Surfaces and sub-surfaces refer to each other, so they live in stores.  The functions that follow these references are partial: \<open>None\<close>
  stands for not returning, which circular references cause, and for reading a surface that does not exist any more.  A surface's stream has the
  number of the surface, and a stream specification, whose size is never set here, is a stream with its offset.  A buffer is only known by its size, an argument.  The shell's calls, the buffers given to the streams and the events to the
  client are recorded.
\<close>

section \<open>State\<close>

type_synonym wl_stream = "nat \<times> displacement"
type_synonym wl_spec = "(nat, wl_stream, unit) surface_specification"

text \<open>An unset \<open>st_buffer\<close> means no change, \<open>Some None\<close> the null buffer; likewise for the input shape.\<close>

record 'b wl_state =
  st_buffer :: "'b option option"
  st_offset :: "displacement option"
  st_input_shape :: "rectangle list option option"
  st_frame_callbacks :: "nat list"
  st_invalidated :: bool

datatype wl_role = Null_role | Sub_role nat | Window_role

record 'b wl_surface =
  wl_role_of :: wl_role
  wl_subsurface_of :: "nat option"
  wl_children :: "nat list"
  wl_pending :: "'b wl_state"
  wl_offset :: displacement
  wl_buffer_size :: "extent option"
  wl_frame_callbacks :: "nat list"
  wl_input_shape :: "rectangle list option"
  wl_destroyed :: bool

record 'b wl_subsurface =
  sub_parent :: nat
  sub_surface :: nat
  sub_synchronized :: bool
  cached_state :: "'b wl_state option"

record creation_parameters =
  cp_name :: string
  cp_size :: extent
  cp_top_left :: point
  cp_buffer_usage :: nat
  cp_pixel_format :: nat
  cp_input_mode :: nat
  cp_output_id :: int
  cp_state :: "window_state option"
  cp_type :: "window_type option"
  cp_preferred_orientation :: "bits option"
  cp_parent_id :: "int option"
  cp_content :: "nat option"
  cp_aux_rect :: "rectangle option"
  cp_edge_attachment :: "bits option"
  cp_placement_hints :: "bits option"
  cp_surface_placement_gravity :: "bits option"
  cp_aux_rect_placement_gravity :: "bits option"
  cp_aux_rect_placement_offset_x :: "int option"
  cp_aux_rect_placement_offset_y :: "int option"
  cp_parent :: "nat option"
  cp_min_width :: "int option"
  cp_min_height :: "int option"
  cp_max_width :: "int option"
  cp_max_height :: "int option"
  cp_width_inc :: "int option"
  cp_height_inc :: "int option"
  cp_min_aspect :: "aspect_ratio option"
  cp_max_aspect :: "aspect_ratio option"
  cp_input_shape :: "rectangle list option"
  cp_shell_chrome :: "shell_chrome_style option"
  cp_streams :: "wl_stream list option"
  cp_confine_pointer :: "pointer_confinement option"
  cp_depth_layer :: "depth_layer option"
  cp_attached_edges :: "bits option"
  cp_exclusive_rect :: "rectangle option"
  cp_application_id :: "string option"
  cp_server_side_decorated :: "bool option"

text \<open>The role of a surface that is a window; \<open>win_scene\<close> says whether its scene surface exists.\<close>

record wl_window =
  win_params :: creation_parameters
  win_scene :: bool
  pending_explicit_width :: "int option"
  pending_explicit_height :: "int option"
  committed_width_set_explicitly :: bool
  committed_height_set_explicitly :: bool
  committed_size :: "extent option"
  committed_min_size :: extent
  committed_max_size :: extent
  pending_changes :: "wl_spec option"

datatype 'b wl_call =
    Submit_buffer nat 'b
  | Frame_done nat
  | Destroy_buffer_stream nat
  | Shell_create_surface nat creation_parameters
  | Shell_modify_surface nat wl_spec
  | Shell_destroy_surface nat
  | Latest_client_size nat extent
  | Content_resized nat extent
  | Request_move nat
  | Request_resize nat nat

record 'b wl_world =
  surfaces :: "nat \<Rightarrow> 'b wl_surface"
  subsurfaces :: "nat \<Rightarrow> 'b wl_subsurface"
  windows :: "nat \<Rightarrow> wl_window"
  dead_callbacks :: "nat set"
  wl_calls :: "'b wl_call list"

definition note_calls :: "'b wl_call list \<Rightarrow> 'b wl_world \<Rightarrow> 'b wl_world" where
  "note_calls cs w = w\<lparr>wl_calls := wl_calls w @ cs\<rparr>"

definition on_surface :: "nat \<Rightarrow> ('b wl_surface \<Rightarrow> 'b wl_surface) \<Rightarrow> 'b wl_world \<Rightarrow> 'b wl_world" where
  "on_surface i f w = w\<lparr>surfaces := (surfaces w)(i := f (surfaces w i))\<rparr>"

definition on_subsurface :: "nat \<Rightarrow> ('b wl_subsurface \<Rightarrow> 'b wl_subsurface) \<Rightarrow> 'b wl_world \<Rightarrow> 'b wl_world" where
  "on_subsurface c f w = w\<lparr>subsurfaces := (subsurfaces w)(c := f (subsurfaces w c))\<rparr>"

section \<open>The state of a surface\<close>

definition empty_state :: "'b wl_state" where
  "empty_state = \<lparr>st_buffer = None, st_offset = None, st_input_shape = None, st_frame_callbacks = [], st_invalidated = False\<rparr>"

definition state_update_from :: "'b wl_state \<Rightarrow> 'b wl_state \<Rightarrow> 'b wl_state" where
  "state_update_from s source =
     \<lparr>st_buffer = overwrite (st_buffer s) (st_buffer source), st_offset = overwrite (st_offset s) (st_offset source),
      st_input_shape = overwrite (st_input_shape s) (st_input_shape source),
      st_frame_callbacks = st_frame_callbacks s @ st_frame_callbacks source, st_invalidated = (st_invalidated s \<or> st_invalidated source)\<rparr>"

definition surface_data_needs_refresh :: "'b wl_state \<Rightarrow> bool" where
  "surface_data_needs_refresh s \<longleftrightarrow> st_offset s \<noteq> None \<or> st_input_shape s \<noteq> None \<or> st_invalidated s"

definition make_wl_surface :: "'b wl_surface" where
  "make_wl_surface = \<lparr>wl_role_of = Null_role, wl_subsurface_of = None, wl_children = [], wl_pending = empty_state, wl_offset = Displacement 0 0,
     wl_buffer_size = None, wl_frame_callbacks = [], wl_input_shape = None, wl_destroyed = False\<rparr>"

section \<open>Walking the tree of sub-surfaces\<close>

partial_function (option) surface_synchronized :: "'b wl_world \<Rightarrow> nat \<Rightarrow> bool option" where
  "surface_synchronized w i =
     (if wl_destroyed (surfaces w i) then None
      else case wl_role_of (surfaces w i) of
             Sub_role c \<Rightarrow> if sub_synchronized (subsurfaces w c) then Some True else surface_synchronized w (sub_parent (subsurfaces w c))
           | _ \<Rightarrow> Some False)"

definition subsurface_synchronized :: "'b wl_world \<Rightarrow> nat \<Rightarrow> bool option" where
  "subsurface_synchronized w c =
     (if sub_synchronized (subsurfaces w c) then Some True else surface_synchronized w (sub_parent (subsurfaces w c)))"

partial_function (option) total_offset :: "'b wl_world \<Rightarrow> nat \<Rightarrow> displacement option" where
  "total_offset w i =
     (if wl_destroyed (surfaces w i) then None
      else case wl_role_of (surfaces w i) of
             Sub_role c \<Rightarrow> Option.bind (total_offset w (sub_parent (subsurfaces w c))) (\<lambda>d. Some (displacement_plus (wl_offset (surfaces w i)) d))
           | _ \<Rightarrow> Some (displacement_plus (wl_offset (surfaces w i)) (Displacement 0 0)))"

text \<open>The rectangle of a surface at an offset, and the parts of it that take input.\<close>

definition surface_rect_at :: "'b wl_surface \<Rightarrow> displacement \<Rightarrow> rectangle" where
  "surface_rect_at s d = Rectangle (point_plus (Point 0 0) d) (case wl_buffer_size s of Some z \<Rightarrow> z | None \<Rightarrow> Size 0 0)"

definition input_rects_at :: "'b wl_surface \<Rightarrow> displacement \<Rightarrow> rectangle list" where
  "input_rects_at s d =
     (case wl_input_shape s of
        Some rects \<Rightarrow> map (\<lambda>r. intersection_with (r\<lparr>top_left := point_plus (top_left r) d\<rparr>) (surface_rect_at s d)) rects
      | None \<Rightarrow> [surface_rect_at s d])"

partial_function (option) populate_surface_data ::
  "'b wl_world \<Rightarrow> nat \<Rightarrow> displacement \<Rightarrow> wl_stream list \<times> rectangle list \<Rightarrow> (wl_stream list \<times> rectangle list, unit) run" where
  "populate_surface_data w i parent_offset acc =
     (let offset = displacement_plus parent_offset (wl_offset (surfaces w i));
          (streams, shapes) = acc
      in run_each (\<lambda>c. populate_surface_data w (sub_surface (subsurfaces w c)) offset) (wl_children (surfaces w i))
           (streams @ [(i, offset)], shapes @ input_rects_at (surfaces w i) offset))"

text \<open>The first of the sub-surfaces, in the given order, that takes the input.\<close>

type_synonym wl_position = "point \<times> nat \<times> bool"

fun first_hit :: "('x \<Rightarrow> wl_position option) \<Rightarrow> 'x list \<Rightarrow> wl_position option option" where
  "first_hit f [] = Some None"
| "first_hit f (x # xs) = Option.bind (f x) (\<lambda>r. if snd (snd r) then Some (Some r) else first_hit f xs)"

lemma first_hit_mono [partial_function_mono]:
  assumes "\<And>x. mono_option (\<lambda>f. B x f)"
  shows "mono_option (\<lambda>f. first_hit (\<lambda>x. B x f) xs)"
proof (induction xs)
  case (Cons x xs)
  have "mono_option (\<lambda>f. if snd (snd r) then Some (Some r) else first_hit (\<lambda>x. B x f) xs)" for r
    using Cons by (cases "snd (snd r)") (simp_all add: option.const_mono)
  then show ?case unfolding first_hit.simps by (intro bind_mono assms)
qed (simp add: option.const_mono)

definition own_region_contains :: "'b wl_surface \<Rightarrow> point \<Rightarrow> bool" where
  "own_region_contains s p =
     (let surface_rect = Rectangle (Point 0 0) (case wl_buffer_size s of Some z \<Rightarrow> z | None \<Rightarrow> Size 0 0)
      in list_ex (\<lambda>r. contains_point (intersection_with r surface_rect) p)
           (case wl_input_shape s of Some rects \<Rightarrow> rects | None \<Rightarrow> [surface_rect]))"

partial_function (option) transform_point :: "'b wl_world \<Rightarrow> nat \<Rightarrow> point \<Rightarrow> wl_position option" where
  "transform_point w i p =
     (let q = point_minus p (wl_offset (surfaces w i))
      in Option.bind (first_hit (\<lambda>c. transform_point w (sub_surface (subsurfaces w c)) q) (rev (wl_children (surfaces w i))))
           (\<lambda>hit. case hit of Some r \<Rightarrow> Some r | None \<Rightarrow> Some (q, i, own_region_contains (surfaces w i) q)))"

text \<open>What the shell is told of a window: its streams and where they take input, when its scene surface exists.\<close>

definition empty_spec :: wl_spec where
  "empty_spec = \<lparr>ss_top_left = None, ss_width = None, ss_height = None, ss_pixel_format = None, ss_buffer_usage = None, ss_name = None,
     ss_output_id = None, ss_type = None, ss_state = None, ss_preferred_orientation = None, ss_parent_id = None, ss_aux_rect = None,
     ss_edge_attachment = None, ss_placement_hints = None, ss_surface_placement_gravity = None, ss_aux_rect_placement_gravity = None,
     ss_aux_rect_placement_offset_x = None, ss_aux_rect_placement_offset_y = None, ss_min_width = None, ss_min_height = None,
     ss_max_width = None, ss_max_height = None, ss_width_inc = None, ss_height_inc = None, ss_min_aspect = None, ss_max_aspect = None,
     ss_streams = None, ss_parent = None, ss_input_shape = None, ss_shell_chrome = None, ss_confine_pointer = None, ss_cursor_image = None,
     ss_stream_cursor = None, ss_depth_layer = None, ss_attached_edges = None, ss_exclusive_rect = None, ss_application_id = None\<rparr>"

definition surface_data :: "'b wl_world \<Rightarrow> nat \<Rightarrow> (wl_stream list \<times> rectangle list) option" where
  "surface_data w i = map_option state_of (populate_surface_data w i (Displacement 0 0) ([], []))"

definition populate_spec_with_surface_data :: "'b wl_world \<Rightarrow> nat \<Rightarrow> wl_spec \<Rightarrow> wl_spec option" where
  "populate_spec_with_surface_data w i spec =
     map_option (\<lambda>(streams, shapes). spec\<lparr>ss_streams := Some streams, ss_input_shape := Some shapes\<rparr>) (surface_data w i)"

definition refresh_window :: "nat \<Rightarrow> 'b wl_world \<Rightarrow> ('b wl_world, unit) run" where
  "refresh_window i w =
     (if win_scene (windows w i)
      then map_option (\<lambda>spec. ret () (note_calls [Shell_modify_surface i spec] w)) (populate_spec_with_surface_data w i empty_spec)
      else Some (ret () w))"

partial_function (option) refresh_surface_data_now :: "nat \<Rightarrow> 'b wl_world \<Rightarrow> ('b wl_world, unit) run" where
  "refresh_surface_data_now i w =
     (case wl_role_of (surfaces w i) of
        Null_role \<Rightarrow> Some (ret () w)
      | Window_role \<Rightarrow> refresh_window i w
      | Sub_role c \<Rightarrow>
          if wl_destroyed (surfaces w (sub_parent (subsurfaces w c))) then Some (ret () w)
          else refresh_surface_data_now (sub_parent (subsurfaces w c)) w)"

section \<open>Committing\<close>

definition answer_callback :: "nat \<Rightarrow> 'b wl_world \<Rightarrow> 'b wl_world" where
  "answer_callback cb w =
     (if cb \<in> dead_callbacks w then w else note_calls [Frame_done cb] (w\<lparr>dead_callbacks := insert cb (dead_callbacks w)\<rparr>))"

definition send_frame_callbacks :: "nat \<Rightarrow> 'b wl_world \<Rightarrow> 'b wl_world" where
  "send_frame_callbacks i w =
     on_surface i (\<lambda>s. s\<lparr>wl_frame_callbacks := []\<rparr>) (fold answer_callback (wl_frame_callbacks (surfaces w i)) w)"

text \<open>The part of \<open>WlSurface::commit\<close> before the sub-surfaces; the state is told when the surface's input area has changed with the buffer's size.\<close>

definition stage_state :: "nat \<Rightarrow> 'b wl_state \<Rightarrow> 'b wl_world \<Rightarrow> 'b wl_world" where
  "stage_state i state = on_surface i (\<lambda>s. s\<lparr>wl_frame_callbacks := wl_frame_callbacks s @ st_frame_callbacks state,
     wl_offset := (case st_offset state of Some d \<Rightarrow> d | None \<Rightarrow> wl_offset s),
     wl_input_shape := (case st_input_shape state of Some shape \<Rightarrow> shape | None \<Rightarrow> wl_input_shape s)\<rparr>)"

definition accept_state :: "('b \<Rightarrow> extent) \<Rightarrow> nat \<Rightarrow> 'b wl_state \<Rightarrow> 'b wl_world \<Rightarrow> 'b wl_state \<times> 'b wl_world" where
  "accept_state size_of i state w =
     (let w1 = stage_state i state w
      in case st_buffer state of
           Some None \<Rightarrow> (state, send_frame_callbacks i (on_surface i (\<lambda>s. s\<lparr>wl_buffer_size := None\<rparr>) w1))
         | Some (Some b) \<Rightarrow>
             (if wl_input_shape (surfaces w1 i) = None \<and> wl_buffer_size (surfaces w1 i) \<noteq> Some (size_of b)
              then state\<lparr>st_invalidated := True\<rparr> else state,
              note_calls [Submit_buffer i b] (on_surface i (\<lambda>s. s\<lparr>wl_buffer_size := Some (size_of b)\<rparr>) w1))
         | None \<Rightarrow> (state, send_frame_callbacks i w1))"

partial_function (option) surface_commit :: "('b \<Rightarrow> extent) \<Rightarrow> nat \<Rightarrow> 'b wl_state \<Rightarrow> 'b wl_world \<Rightarrow> ('b wl_world, 'b wl_state) run" where
  "surface_commit size_of i state w =
     (let (state', w1) = accept_state size_of i state w
      in go_on (run_each (\<lambda>c w. case cached_state (subsurfaces w c) of
                   None \<Rightarrow> Some (ret () w)
                 | Some cached \<Rightarrow>
                     Option.bind (subsurface_synchronized w c) (\<lambda>sync.
                       if sync
                       then go_on (surface_commit size_of (sub_surface (subsurfaces w c)) cached w)
                              (\<lambda>_ w. Some (ret () (on_subsurface c (\<lambda>s. s\<lparr>cached_state := None\<rparr>) w)))
                       else Some (ret () w)))
                 (wl_children (surfaces w1 i)) w1)
           (\<lambda>_ w2. Some (ret state' w2)))"

definition parent_has_committed :: "('b \<Rightarrow> extent) \<Rightarrow> nat \<Rightarrow> 'b wl_world \<Rightarrow> ('b wl_world, unit) run" where
  "parent_has_committed size_of c w =
     (case cached_state (subsurfaces w c) of
        None \<Rightarrow> Some (ret () w)
      | Some cached \<Rightarrow>
          Option.bind (subsurface_synchronized w c) (\<lambda>sync.
            if sync
            then go_on (surface_commit size_of (sub_surface (subsurfaces w c)) cached w)
                   (\<lambda>_ w. Some (ret () (on_subsurface c (\<lambda>s. s\<lparr>cached_state := None\<rparr>) w)))
            else Some (ret () w)))"

definition pending_invalidate_surface_data :: "nat \<Rightarrow> 'b wl_world \<Rightarrow> 'b wl_world" where
  "pending_invalidate_surface_data i = on_surface i (\<lambda>s. s\<lparr>wl_pending := (wl_pending s)\<lparr>st_invalidated := True\<rparr>\<rparr>)"

definition subsurface_refresh :: "nat \<Rightarrow> 'b wl_world \<Rightarrow> ('b wl_world, unit) run" where
  "subsurface_refresh c w =
     (if \<not> wl_destroyed (surfaces w (sub_parent (subsurfaces w c))) then refresh_surface_data_now (sub_parent (subsurfaces w c)) w
      else Some (ret () w))"

definition subsurface_commit :: "('b \<Rightarrow> extent) \<Rightarrow> nat \<Rightarrow> 'b wl_state \<Rightarrow> 'b wl_world \<Rightarrow> ('b wl_world, unit) run" where
  "subsurface_commit size_of c state w =
     (let cached = state_update_from (case cached_state (subsurfaces w c) of Some s \<Rightarrow> s | None \<Rightarrow> empty_state) state;
          w1 = on_subsurface c (\<lambda>s. s\<lparr>cached_state := Some cached\<rparr>) w;
          parent = sub_parent (subsurfaces w1 c)
      in Option.bind (subsurface_synchronized w1 c) (\<lambda>sync.
           if sync
           then Some (ret () (if surface_data_needs_refresh cached \<and> \<not> wl_destroyed (surfaces w1 parent)
                              then pending_invalidate_surface_data parent w1 else w1))
           else go_on (surface_commit size_of (sub_surface (subsurfaces w1 c)) cached w1) (\<lambda>cached' w2.
                go_on (if surface_data_needs_refresh cached' then subsurface_refresh c w2 else Some (ret () w2)) (\<lambda>_ w3.
                Some (ret () (on_subsurface c (\<lambda>s. s\<lparr>cached_state := None\<rparr>) w3))))))"

section \<open>Requests of a client\<close>

definition set_role :: "nat \<Rightarrow> wl_role \<Rightarrow> 'b wl_world \<Rightarrow> ('b wl_world, unit) outcome" where
  "set_role i r w =
     (if wl_role_of (surfaces w i) \<noteq> Null_role then throw (Runtime_error ''Surface already has a role'') w
      else ret () (on_surface i (\<lambda>s. s\<lparr>wl_role_of := r\<rparr>) w))"

definition clear_role :: "nat \<Rightarrow> 'b wl_world \<Rightarrow> 'b wl_world" where
  "clear_role i = on_surface i (\<lambda>s. s\<lparr>wl_role_of := Null_role\<rparr>)"

definition add_child :: "nat \<Rightarrow> nat \<Rightarrow> 'b wl_world \<Rightarrow> 'b wl_world" where
  "add_child parent c = on_surface parent (\<lambda>s. s\<lparr>wl_children := wl_children s @ [c]\<rparr>)"

text \<open>The deleter of the reference to the parent.\<close>

definition remove_child :: "nat \<Rightarrow> nat \<Rightarrow> 'b wl_world \<Rightarrow> 'b wl_world" where
  "remove_child parent c w =
     (if wl_destroyed (surfaces w parent) then w else on_surface parent (\<lambda>s. s\<lparr>wl_children := removeAll c (wl_children s)\<rparr>) w)"

text \<open>When the surface has a role already, the members that have been constructed are destroyed again.\<close>

definition get_subsurface :: "nat \<Rightarrow> nat \<Rightarrow> nat \<Rightarrow> 'b wl_world \<Rightarrow> ('b wl_world, unit) outcome" where
  "get_subsurface c i parent w =
     (let w1 = add_child parent c
            (on_subsurface c (\<lambda>_. \<lparr>sub_parent = parent, sub_surface = i, sub_synchronized = True, cached_state = None\<rparr>) w)
      in and_then (set_role i (Sub_role c) w1)
           (\<lambda>_ w2. ret () (pending_invalidate_surface_data i (on_surface i (\<lambda>s. s\<lparr>wl_subsurface_of := Some c\<rparr>) w2)))
           (remove_child parent c))"

definition destroy_subsurface :: "nat \<Rightarrow> 'b wl_world \<Rightarrow> ('b wl_world, unit) run" where
  "destroy_subsurface c w =
     (let i = sub_surface (subsurfaces w c);
          w1 = on_surface i (\<lambda>s. s\<lparr>wl_subsurface_of := None\<rparr>) (clear_role i w)
      in go_on (subsurface_refresh c w1) (\<lambda>_ w2. Some (ret () (remove_child (sub_parent (subsurfaces w2 c)) c w2))))"

definition set_pending_offset :: "nat \<Rightarrow> displacement option \<Rightarrow> 'b wl_world \<Rightarrow> 'b wl_world" where
  "set_pending_offset i d = on_surface i (\<lambda>s. s\<lparr>wl_pending := (wl_pending s)\<lparr>st_offset := d\<rparr>\<rparr>)"

definition set_position :: "nat \<Rightarrow> int \<Rightarrow> int \<Rightarrow> 'b wl_world \<Rightarrow> 'b wl_world" where
  "set_position c x y w = set_pending_offset (sub_surface (subsurfaces w c)) (Some (Displacement x y)) w"

definition set_sync :: "nat \<Rightarrow> bool \<Rightarrow> 'b wl_world \<Rightarrow> 'b wl_world" where
  "set_sync c sync = on_subsurface c (\<lambda>s. s\<lparr>sub_synchronized := sync\<rparr>)"

definition frame :: "nat \<Rightarrow> nat \<Rightarrow> 'b wl_world \<Rightarrow> 'b wl_world" where
  "frame i cb = on_surface i (\<lambda>s. s\<lparr>wl_pending := (wl_pending s)\<lparr>st_frame_callbacks := st_frame_callbacks (wl_pending s) @ [cb]\<rparr>\<rparr>)"

definition set_surface_input_region :: "nat \<Rightarrow> rectangle list option \<Rightarrow> 'b wl_world \<Rightarrow> 'b wl_world" where
  "set_surface_input_region i shape = on_surface i (\<lambda>s. s\<lparr>wl_pending := (wl_pending s)\<lparr>st_input_shape := Some shape\<rparr>\<rparr>)"

text \<open>Inserting before the first \<open>sibling\<close>, after it, and one place before it, in a list.\<close>

fun insert_after :: "'a \<Rightarrow> 'a \<Rightarrow> 'a list \<Rightarrow> 'a list" where
  "insert_after sibling x [] = []"
| "insert_after sibling x (y # ys) = (if y = sibling then y # x # ys else y # insert_after sibling x ys)"

definition insert_below :: "'a \<Rightarrow> 'a \<Rightarrow> 'a list \<Rightarrow> 'a list" where
  "insert_below sibling x ys =
     (let before = takeWhile (\<lambda>y. y \<noteq> sibling) ys; rest = dropWhile (\<lambda>y. y \<noteq> sibling) ys
      in if rest = [] then ys
         else if before = [] then x # ys
         else butlast before @ x # last before # rest)"

definition move_child :: "('a list \<Rightarrow> 'a list) \<Rightarrow> 'a \<Rightarrow> 'a option \<Rightarrow> 'a list \<Rightarrow> 'a list" where
  "move_child ins c sibling cs =
     (case sibling of
        None \<Rightarrow> cs
      | Some s \<Rightarrow> if c \<notin> set cs \<or> s \<notin> set cs then cs else ins (remove1 c cs))"

definition move_child_above_sibling :: "nat \<Rightarrow> nat \<Rightarrow> 'b wl_world \<Rightarrow> 'b wl_world" where
  "move_child_above_sibling c sibling w =
     (let sub = wl_subsurface_of (surfaces w sibling)
      in on_surface (sub_parent (subsurfaces w c)) (\<lambda>s. s\<lparr>wl_children := move_child (insert_after (the sub) c) c sub (wl_children s)\<rparr>) w)"

definition move_child_below_sibling :: "nat \<Rightarrow> nat \<Rightarrow> 'b wl_world \<Rightarrow> 'b wl_world" where
  "move_child_below_sibling c sibling w =
     (let sub = wl_subsurface_of (surfaces w sibling)
      in on_surface (sub_parent (subsurfaces w c)) (\<lambda>s. s\<lparr>wl_children := move_child (insert_below (the sub) c) c sub (wl_children s)\<rparr>) w)"

text \<open>Below a sibling that is not the lowest, the child goes one place lower than directly below.\<close>

lemma below_is_one_lower: "move_child_below_sibling 7 2 w = on_surface 0 (\<lambda>s. s\<lparr>wl_children := [7, 5, 6]\<rparr>) w"
  if "wl_subsurface_of (surfaces w 2) = Some 6" "sub_parent (subsurfaces w 7) = 0" "wl_children (surfaces w 0) = [5, 6, 7]"
  using that by (simp add: move_child_below_sibling_def move_child_def insert_below_def on_surface_def)

section \<open>Lemmas: what the shell is told and where input goes\<close>

definition child_links :: "'b wl_world \<Rightarrow> (nat \<times> nat) set" where
  "child_links w = {(sub_surface (subsurfaces w c), i) |c i. c \<in> set (wl_children (surfaces w i))}"

text \<open>The sub-surfaces form trees.\<close>

definition wl_forest :: "'b wl_world \<Rightarrow> bool" where
  "wl_forest w \<longleftrightarrow> wf (child_links w)"

lemma find_last_append: "find_last P (xs @ ys) = (case find_last P ys of Some y \<Rightarrow> Some y | None \<Rightarrow> find_last P xs)"
proof -
  have "find P (us @ vs) = (case find P us of Some y \<Rightarrow> Some y | None \<Rightarrow> find P vs)" for us vs by (induction us) auto
  then show ?thesis by (simp add: find_last_def split: option.split)
qed

lemma run_each_snoc: "run_each f (xs @ [x]) s = go_on (run_each f xs s) (\<lambda>_ s. f x s)"
proof (induction xs arbitrary: s)
  case Nil
  have "go_on m (\<lambda>_ s. Some (ret () s)) = m" for m :: "('a, unit) run"
    by (auto simp: go_on_def ret_def split: option.split sum.split)
  moreover have "run_each f [] = (\<lambda>s. Some (ret () s))" by (rule ext) simp
  ultimately show ?case by simp
next
  case (Cons a xs)
  then have "run_each f (xs @ [x]) = (\<lambda>s. go_on (run_each f xs s) (\<lambda>_ s. f x s))" by (intro ext)
  then show ?case by (simp add: go_on_assoc)
qed

definition takes_input :: "'b wl_world \<Rightarrow> point \<Rightarrow> wl_stream \<Rightarrow> bool" where
  "takes_input w p = (\<lambda>(j, d). p \<in> region (input_rects_at (surfaces w j) d))"

lemma shifted_pixels: "p \<in> pixels (r\<lparr>top_left := point_plus (top_left r) d\<rparr>) \<longleftrightarrow> point_minus p d \<in> pixels r"
  by (auto simp: mem_pixels geom_simps point_plus_def point_minus_def)

lemma own_region_at: "own_region_contains (surfaces w i) (point_minus p d) \<longleftrightarrow> takes_input w p (i, d)"
proof -
  have rect: "surface_rect_at s d = (Rectangle (Point 0 0) (rsize (surface_rect_at s d)))\<lparr>top_left := point_plus (Point 0 0) d\<rparr>" for s :: "'a wl_surface"
    by (simp add: surface_rect_at_def)
  have "p \<in> pixels (surface_rect_at s d) \<longleftrightarrow> point_minus p d \<in> pixels (Rectangle (Point 0 0) (rsize (surface_rect_at s d)))" for s :: "'a wl_surface"
    using shifted_pixels [of p "Rectangle (Point 0 0) (rsize (surface_rect_at s d))" d] rect [of s] by simp
  then show ?thesis
    by (auto simp: own_region_contains_def takes_input_def input_rects_at_def region_def contains_point_pixels pixels_intersection_with
        shifted_pixels list_ex_iff surface_rect_at_def Let_def split: option.splits)
qed

definition hit_at :: "'b wl_world \<Rightarrow> point \<Rightarrow> wl_stream list \<Rightarrow> wl_position option" where
  "hit_at w p xs = map_option (\<lambda>(j, d). (point_minus p d, j, True)) (find_last (takes_input w p) xs)"

abbreviation rects_of :: "'b wl_world \<Rightarrow> wl_stream list \<Rightarrow> rectangle list" where
  "rects_of w xs \<equiv> concat (map (\<lambda>(j, d). input_rects_at (surfaces w j) d) xs)"

lemma hit_at_append: "hit_at w p (xs @ ys) = (case hit_at w p ys of Some r \<Rightarrow> Some r | None \<Rightarrow> hit_at w p xs)"
  by (simp add: hit_at_def find_last_append split: option.split)

lemma point_minus_plus: "point_minus (point_minus p d) e = point_minus p (displacement_plus d e)"
  by (simp add: point_minus_def displacement_plus_def)

text \<open>Whatever is below a surface at an offset is added to the streams and the input areas, and decides who takes a point.\<close>

lemma tree_data:
  assumes "wl_forest w"
  shows "\<exists>xs. (\<forall>ss rs. populate_surface_data w i d (ss, rs) = Some (ret () (ss @ xs, rs @ rects_of w xs))) \<and>
    (\<forall>p. transform_point w i (point_minus p d) =
       Some (case hit_at w p xs of Some r \<Rightarrow> r | None \<Rightarrow> (point_minus p (displacement_plus d (wl_offset (surfaces w i))), i, False))) \<and>
    xs \<noteq> [] \<and> hd xs = (i, displacement_plus d (wl_offset (surfaces w i)))"
proof (induction i arbitrary: d rule: wf_induct_rule [OF assms [unfolded wl_forest_def]])
  case (1 i)
  let ?d = "displacement_plus d (wl_offset (surfaces w i))" and ?sub = "\<lambda>c. sub_surface (subsurfaces w c)"
  have "\<exists>xs. (\<forall>ss rs. run_each (\<lambda>c. populate_surface_data w (?sub c) ?d) cs (ss, rs) = Some (ret () (ss @ xs, rs @ rects_of w xs))) \<and>
      (\<forall>p. first_hit (\<lambda>c. transform_point w (?sub c) (point_minus p ?d)) (rev cs) = Some (hit_at w p xs))"
    if "set cs \<subseteq> set (wl_children (surfaces w i))" for cs
    using that
  proof (induction cs rule: rev_induct)
    case Nil
    show ?case by (intro exI [of _ "[]"]) (simp add: hit_at_def find_last_def)
  next
    case (snoc c cs)
    then obtain xs where xs: "\<And>ss rs. run_each (\<lambda>c. populate_surface_data w (?sub c) ?d) cs (ss, rs) = Some (ret () (ss @ xs, rs @ rects_of w xs))"
      "\<And>p. first_hit (\<lambda>c. transform_point w (?sub c) (point_minus p ?d)) (rev cs) = Some (hit_at w p xs)" by auto
    have "(?sub c, i) \<in> child_links w" using snoc.prems by (auto simp: child_links_def)
    from 1 [OF this, of ?d] obtain ys where
      ys: "\<And>ss rs. populate_surface_data w (?sub c) ?d (ss, rs) = Some (ret () (ss @ ys, rs @ rects_of w ys))"
        "\<And>p. transform_point w (?sub c) (point_minus p ?d) = Some (case hit_at w p ys of Some r \<Rightarrow> r
           | None \<Rightarrow> (point_minus p (displacement_plus ?d (wl_offset (surfaces w (?sub c)))), ?sub c, False))" by blast
    have "\<And>r. hit_at w p ys = Some r \<Longrightarrow> snd (snd r)" for p by (auto simp: hit_at_def)
    then have "first_hit (\<lambda>c. transform_point w (?sub c) (point_minus p ?d)) (rev (cs @ [c])) = Some (hit_at w p (xs @ ys))" for p
      by (auto simp: ys(2) xs(2) hit_at_append split: option.split)
    then show ?case using xs(1) ys(1) by (intro exI [of _ "xs @ ys"]) (simp add: run_each_snoc)
  qed
  from this [OF subset_refl] obtain xs where
    xs: "\<And>ss rs. run_each (\<lambda>c. populate_surface_data w (?sub c) ?d) (wl_children (surfaces w i)) (ss, rs) = Some (ret () (ss @ xs, rs @ rects_of w xs))"
      "\<And>p. first_hit (\<lambda>c. transform_point w (?sub c) (point_minus p ?d)) (rev (wl_children (surfaces w i))) = Some (hit_at w p xs)" by blast
  have "populate_surface_data w i d (ss, rs) = Some (ret () (ss @ (i, ?d) # xs, rs @ rects_of w ((i, ?d) # xs)))" for ss rs
    by (subst populate_surface_data.simps) (simp add: xs(1) Let_def)
  moreover have "transform_point w i (point_minus p d) =
      Some (case hit_at w p ((i, ?d) # xs) of Some r \<Rightarrow> r | None \<Rightarrow> (point_minus p ?d, i, False))" for p
  proof -
    have "hit_at w p ((i, ?d) # xs) =
        (case hit_at w p xs of Some r \<Rightarrow> Some r | None \<Rightarrow> if takes_input w p (i, ?d) then Some (point_minus p ?d, i, True) else None)"
      using hit_at_append [of w p "[(i, ?d)]" xs] by (auto simp: hit_at_def find_last_def split: option.split)
    moreover have "transform_point w i (point_minus p d) =
        Some (case hit_at w p xs of Some r \<Rightarrow> r | None \<Rightarrow> (point_minus p ?d, i, takes_input w p (i, ?d)))"
      by (subst transform_point.simps) (auto simp: point_minus_plus xs(2) own_region_at Let_def split: option.split)
    ultimately show ?thesis by (simp split: option.split)
  qed
  ultimately show ?case by (intro exI [of _ "(i, ?d) # xs"]) simp
qed

lemma surface_data_tree:
  assumes "wl_forest w"
  obtains xs where "surface_data w i = Some (xs, rects_of w xs)" "xs \<noteq> []" "hd xs = (i, wl_offset (surfaces w i))"
    "\<And>p. transform_point w i p = Some (case hit_at w p xs of Some r \<Rightarrow> r | None \<Rightarrow> (point_minus p (wl_offset (surfaces w i)), i, False))"
proof -
  have z: "point_minus p (Displacement 0 0) = p" "displacement_plus (Displacement 0 0) d = d" for p d
    by (simp_all add: point_minus_def displacement_plus_def)
  obtain xs where xs: "populate_surface_data w i (Displacement 0 0) ([], []) = Some (ret () (xs, rects_of w xs))" "xs \<noteq> []" "hd xs = (i, wl_offset (surfaces w i))"
    "\<And>p. transform_point w i p = Some (case hit_at w p xs of Some r \<Rightarrow> r | None \<Rightarrow> (point_minus p (wl_offset (surfaces w i)), i, False))"
    using tree_data [OF assms, of i "Displacement 0 0"] unfolding z by (metis append_Nil)
  from xs(1) have "surface_data w i = Some (xs, rects_of w xs)" by (simp add: surface_data_def)
  from that [OF this xs(2-4)] show thesis .
qed

section \<open>Lemmas: committing a tree\<close>

text \<open>Every sub-surface in a list of children belongs to that parent and is the role of its surface, which exists.\<close>

definition wl_links :: "'b wl_world \<Rightarrow> bool" where
  "wl_links w \<longleftrightarrow> (\<forall>i. distinct (wl_children (surfaces w i))) \<and>
     (\<forall>i c. c \<in> set (wl_children (surfaces w i)) \<longrightarrow> sub_parent (subsurfaces w c) = i \<and>
        wl_role_of (surfaces w (sub_surface (subsurfaces w c))) = Sub_role c \<and> \<not> wl_destroyed (surfaces w (sub_surface (subsurfaces w c))))"

text \<open>The references between surfaces and the modes of sub-surfaces, which a commit leaves alone.\<close>

definition same_links :: "'b wl_world \<Rightarrow> 'b wl_world \<Rightarrow> bool" where
  "same_links w v \<longleftrightarrow>
     (\<forall>i. wl_children (surfaces v i) = wl_children (surfaces w i) \<and> wl_role_of (surfaces v i) = wl_role_of (surfaces w i) \<and>
        wl_destroyed (surfaces v i) = wl_destroyed (surfaces w i)) \<and>
     (\<forall>c. sub_parent (subsurfaces v c) = sub_parent (subsurfaces w c) \<and> sub_surface (subsurfaces v c) = sub_surface (subsurfaces w c) \<and>
        sub_synchronized (subsurfaces v c) = sub_synchronized (subsurfaces w c))"

lemma same_links_refl [simp]: "same_links w w"
  by (simp add: same_links_def)

lemma wl_links_trans: "same_links w v \<Longrightarrow> same_links v u \<Longrightarrow> same_links w u"
  by (simp add: same_links_def)

lemma same_links_synchronized:
  "surface_synchronized w i = Some y \<Longrightarrow> \<forall>v. same_links w v \<longrightarrow> surface_synchronized v i = Some y"
proof (rule surface_synchronized.raw_induct [where P = "\<lambda>w i y. \<forall>v. same_links w v \<longrightarrow> surface_synchronized v i = Some y"], goal_cases)
  case (1 f w i y)
  then show ?case
    by (subst surface_synchronized.simps) (auto simp: same_links_def split: if_splits wl_role.splits)
qed

lemma same_links_inv:
  assumes "same_links w v"
  shows "wl_links v = wl_links w" "child_links v = child_links w" "surface_synchronized v = surface_synchronized w"
    "subsurface_synchronized v = subsurface_synchronized w"
proof -
  have "same_links v w" using assms by (simp add: same_links_def)
  with assms have "surface_synchronized v i = Some y \<longleftrightarrow> surface_synchronized w i = Some y" for i y
    using same_links_synchronized by blast
  then have s: "surface_synchronized v i = surface_synchronized w i" for i by (metis option.exhaust)
  then show "surface_synchronized v = surface_synchronized w" by (rule ext)
  show "wl_links v = wl_links w" "child_links v = child_links w" using assms by (simp_all add: same_links_def wl_links_def child_links_def)
  show "subsurface_synchronized v = subsurface_synchronized w"
    using assms s by (intro ext) (simp add: same_links_def subsurface_synchronized_def)
qed

text \<open>The surfaces that a commit of \<open>i\<close> reaches: a sub-surface goes along when it is synchronised and has something to apply.\<close>

definition commit_links :: "'b wl_world \<Rightarrow> (nat \<times> nat) set" where
  "commit_links w = {(sub_surface (subsurfaces w c), i) |c i. c \<in> set (wl_children (surfaces w i)) \<and> cached_state (subsurfaces w c) \<noteq> None \<and>
     subsurface_synchronized w c = Some True}"

definition goes_along :: "'b wl_world \<Rightarrow> nat \<Rightarrow> nat \<Rightarrow> bool" where
  "goes_along w i j \<longleftrightarrow> (j, i) \<in> (commit_links w)\<^sup>*"

definition cached_of :: "'b wl_world \<Rightarrow> nat \<Rightarrow> 'b wl_state option" where
  "cached_of w j = (case wl_role_of (surfaces w j) of Sub_role c \<Rightarrow> cached_state (subsurfaces w c) | _ \<Rightarrow> None)"

text \<open>What applying a state does to a surface.\<close>

definition applied :: "('b \<Rightarrow> extent) \<Rightarrow> 'b wl_state \<Rightarrow> 'b wl_surface \<Rightarrow> 'b wl_surface" where
  "applied size_of state s =
     (let s1 = s\<lparr>wl_offset := (case st_offset state of Some d \<Rightarrow> d | None \<Rightarrow> wl_offset s),
                 wl_input_shape := (case st_input_shape state of Some shape \<Rightarrow> shape | None \<Rightarrow> wl_input_shape s)\<rparr>
      in case st_buffer state of
           Some (Some b) \<Rightarrow> s1\<lparr>wl_buffer_size := Some (size_of b), wl_frame_callbacks := wl_frame_callbacks s @ st_frame_callbacks state\<rparr>
         | Some None \<Rightarrow> s1\<lparr>wl_buffer_size := None, wl_frame_callbacks := []\<rparr>
         | None \<Rightarrow> s1\<lparr>wl_frame_callbacks := []\<rparr>)"

lemma answer_frame:
  "surfaces (fold answer_callback cbs w) = surfaces w" "subsurfaces (fold answer_callback cbs w) = subsurfaces w"
  "windows (fold answer_callback cbs w) = windows w"
  "\<exists>cs. wl_calls (fold answer_callback cbs w) = wl_calls w @ map Frame_done cs"
proof (induction cbs arbitrary: w)
  case (Cons cb cbs)
  { case 1 show ?case by (simp add: Cons(1)) (simp add: answer_callback_def note_calls_def)
  next case 2 show ?case by (simp add: Cons(2)) (simp add: answer_callback_def note_calls_def)
  next case 3 show ?case by (simp add: Cons(3)) (simp add: answer_callback_def note_calls_def)
  next case 4
    obtain cs where "wl_calls (fold answer_callback cbs (answer_callback cb w)) = wl_calls (answer_callback cb w) @ map Frame_done cs"
      using Cons(4) by blast
    moreover have "wl_calls (answer_callback cb w) = wl_calls w @ map Frame_done (if cb \<in> dead_callbacks w then [] else [cb])"
      by (simp add: answer_callback_def note_calls_def)
    ultimately show ?case by (metis append.assoc fold_simps(2) map_append) }
qed (simp_all add: exI [of _ "[]"])

lemma send_frame_callbacks_frame:
  "surfaces (send_frame_callbacks i w) = (surfaces w)(i := (surfaces w i)\<lparr>wl_frame_callbacks := []\<rparr>)"
  "subsurfaces (send_frame_callbacks i w) = subsurfaces w" "windows (send_frame_callbacks i w) = windows w"
  "\<exists>cs. wl_calls (send_frame_callbacks i w) = wl_calls w @ map Frame_done cs"
  by (simp_all add: send_frame_callbacks_def on_surface_def answer_frame)

lemma accept_state_frame:
  "surfaces (snd (accept_state size_of i state w)) = (surfaces w)(i := applied size_of state (surfaces w i))"
  "subsurfaces (snd (accept_state size_of i state w)) = subsurfaces w" "windows (snd (accept_state size_of i state w)) = windows w"
  by (auto simp: accept_state_def stage_state_def applied_def on_surface_def note_calls_def send_frame_callbacks_frame Let_def fun_eq_iff
      split: option.split)

lemma accept_state_calls:
  "\<exists>cs. wl_calls (snd (accept_state size_of i state w)) = wl_calls w @ cs \<and>
     (\<forall>j b. Submit_buffer j b \<in> set cs \<longleftrightarrow> j = i \<and> st_buffer state = Some (Some b))"
proof (cases "\<exists>b. st_buffer state = Some (Some b)")
  case True
  then show ?thesis by (auto simp: accept_state_def stage_state_def on_surface_def note_calls_def Let_def)
next
  case False
  let ?v = "if st_buffer state = None then stage_state i state w else on_surface i (\<lambda>s. s\<lparr>wl_buffer_size := None\<rparr>) (stage_state i state w)"
  have "snd (accept_state size_of i state w) = send_frame_callbacks i ?v" "wl_calls ?v = wl_calls w"
    using False by (auto simp: accept_state_def stage_state_def on_surface_def Let_def split: option.splits)
  moreover obtain cs where "wl_calls (send_frame_callbacks i ?v) = wl_calls ?v @ map Frame_done cs" using send_frame_callbacks_frame(4) by blast
  ultimately show ?thesis using False by (intro exI [of _ "map Frame_done cs"]) auto
qed

text \<open>Sub-trees of different children have no surface in common.\<close>

lemma links_child:
  assumes "wl_links w" "c \<in> set (wl_children (surfaces w i))"
  shows "sub_parent (subsurfaces w c) = i" "wl_role_of (surfaces w (sub_surface (subsurfaces w c))) = Sub_role c"
    "\<not> wl_destroyed (surfaces w (sub_surface (subsurfaces w c)))"
    "surface_synchronized w (sub_surface (subsurfaces w c)) = subsurface_synchronized w c"
proof -
  show *: "sub_parent (subsurfaces w c) = i" "wl_role_of (surfaces w (sub_surface (subsurfaces w c))) = Sub_role c"
    "\<not> wl_destroyed (surfaces w (sub_surface (subsurfaces w c)))" using assms by (auto simp: wl_links_def)
  show "surface_synchronized w (sub_surface (subsurfaces w c)) = subsurface_synchronized w c"
    by (subst surface_synchronized.simps) (simp add: * subsurface_synchronized_def)
qed

lemma child_links_parent:
  assumes "wl_links w" "(j, i) \<in> child_links w" "(j, k) \<in> child_links w"
  shows "i = k"
proof -
  obtain c where c: "j = sub_surface (subsurfaces w c)" "c \<in> set (wl_children (surfaces w i))" using assms(2) by (auto simp: child_links_def)
  obtain c' where c': "j = sub_surface (subsurfaces w c')" "c' \<in> set (wl_children (surfaces w k))" using assms(3) by (auto simp: child_links_def)
  have "Sub_role c = Sub_role c'" using c(1) c'(1) links_child(2) [OF assms(1) c(2)] links_child(2) [OF assms(1) c'(2)] by simp
  then show ?thesis using links_child(1) [OF assms(1) c(2)] links_child(1) [OF assms(1) c'(2)] by simp
qed

lemma no_circle: "wl_forest w \<Longrightarrow> (j, i) \<in> child_links w \<Longrightarrow> (i, j) \<notin> (child_links w)\<^sup>*"
  by (metis rtrancl_into_trancl2 wf_acyclic acyclic_def wl_forest_def)

lemma disjoint_children:
  assumes "wl_links w" "wl_forest w" "c \<in> set (wl_children (surfaces w i))" "c' \<in> set (wl_children (surfaces w i))" "c \<noteq> c'"
    and "(j, sub_surface (subsurfaces w c)) \<in> (child_links w)\<^sup>*"
  shows "(j, sub_surface (subsurfaces w c')) \<notin> (child_links w)\<^sup>*"
proof
  let ?s = "\<lambda>c. sub_surface (subsurfaces w c)"
  assume "(j, ?s c') \<in> (child_links w)\<^sup>*"
  moreover have "single_valued (child_links w)" using child_links_parent [OF assms(1)] by (auto simp: single_valued_def)
  ultimately have or: "(?s c, ?s c') \<in> (child_links w)\<^sup>* \<or> (?s c', ?s c) \<in> (child_links w)\<^sup>*"
    using assms(6) by (rule_tac single_valued_confluent)
  have ne: "?s c \<noteq> ?s c'" using links_child(2) [OF assms(1,3)] links_child(2) [OF assms(1,4)] assms(5) by auto
  have no: False if "(?s a, ?s b) \<in> (child_links w)\<^sup>*" "?s a \<noteq> ?s b" "a \<in> set (wl_children (surfaces w i))" "b \<in> set (wl_children (surfaces w i))" for a b
  proof -
    from that(1,2) obtain x where x: "(?s a, x) \<in> child_links w" "(x, ?s b) \<in> (child_links w)\<^sup>*" by (meson converse_rtranclE)
    have "(?s a, i) \<in> child_links w" "(?s b, i) \<in> child_links w" using that(3,4) by (auto simp: child_links_def)
    moreover from this(1) have "x = i" using child_links_parent [OF assms(1) x(1)] by simp
    ultimately show False using x(2) no_circle [OF assms(2)] by blast
  qed
  show False using or
  proof
    assume "(?s c, ?s c') \<in> (child_links w)\<^sup>*"
    then show False using ne assms(3,4) by (rule no)
  next
    assume "(?s c', ?s c) \<in> (child_links w)\<^sup>*"
    then show False using ne [symmetric] assms(4,3) by (rule no)
  qed
qed

abbreviation ready :: "'b wl_world \<Rightarrow> nat \<Rightarrow> bool" where
  "ready w c \<equiv> cached_state (subsurfaces w c) \<noteq> None \<and> subsurface_synchronized w c = Some True"

text \<open>The surfaces that go along with one of the given children.\<close>

definition along :: "'b wl_world \<Rightarrow> nat list \<Rightarrow> nat \<Rightarrow> bool" where
  "along w cs j \<longleftrightarrow> (\<exists>c\<in>set cs. ready w c \<and> goes_along w (sub_surface (subsurfaces w c)) j)"

lemma commit_links_sub: "commit_links w \<subseteq> child_links w"
  by (auto simp: commit_links_def child_links_def)

lemma goes_along_down: "goes_along w i j \<Longrightarrow> (j, i) \<in> (child_links w)\<^sup>*"
  unfolding goes_along_def using rtrancl_mono [OF commit_links_sub] by blast

lemma goes_along_step: "goes_along w i j \<longleftrightarrow> j = i \<or> along w (wl_children (surfaces w i)) j"
  unfolding goes_along_def along_def
  by (subst rtrancl_unfold) (auto simp: commit_links_def)

text \<open>What a commit reaches below a surface depends on the sub-surfaces below it only.\<close>

lemma goes_along_cong:
  assumes "same_links w v" "\<And>j c. (j, i) \<in> (child_links w)\<^sup>* \<Longrightarrow> c \<in> set (wl_children (surfaces w j)) \<Longrightarrow>
      cached_state (subsurfaces v c) = cached_state (subsurfaces w c)"
  shows "goes_along v i j = goes_along w i j"
proof -
  have sub: "(j, i) \<in> F\<^sup>*" if "(j, i) \<in> E\<^sup>*" "\<And>a b. (b, i) \<in> L\<^sup>* \<Longrightarrow> (a, b) \<in> E \<Longrightarrow> (a, b) \<in> F" "E \<subseteq> L" for E F L :: "(nat \<times> nat) set"
    using that(1)
  proof (induction rule: converse_rtrancl_induct)
    case (step a b)
    moreover have "(b, i) \<in> L\<^sup>*" using step(2) that(3) rtrancl_mono by blast
    ultimately show ?case using that(2) by (meson converse_rtrancl_into_rtrancl)
  qed simp
  have "(a, b) \<in> commit_links w \<longleftrightarrow> (a, b) \<in> commit_links v" if "(b, i) \<in> (child_links w)\<^sup>*" for a b
    using that assms same_links_inv(4) [OF assms(1)] by (auto simp: commit_links_def same_links_def)
  moreover have "commit_links w \<subseteq> child_links w" "commit_links v \<subseteq> child_links w"
    using same_links_inv(2) [OF assms(1)] commit_links_sub by metis+
  ultimately show ?thesis unfolding goes_along_def by (meson sub)
qed

text \<open>What a commit of \<open>i\<close> with a state does to the world.\<close>

definition state_for :: "'b wl_world \<Rightarrow> nat \<Rightarrow> 'b wl_state \<Rightarrow> nat \<Rightarrow> 'b wl_state" where
  "state_for w i state j = (if j = i then state else the (cached_of w j))"

definition goes_with :: "'b wl_world \<Rightarrow> nat list \<Rightarrow> nat \<Rightarrow> bool" where
  "goes_with w cs c \<longleftrightarrow> along w cs (sub_surface (subsurfaces w c)) \<and> wl_role_of (surfaces w (sub_surface (subsurfaces w c))) = Sub_role c"

definition commits_to :: "('b \<Rightarrow> extent) \<Rightarrow> nat \<Rightarrow> 'b wl_state \<Rightarrow> 'b wl_world \<Rightarrow> 'b wl_world \<Rightarrow> bool" where
  "commits_to size_of i state w w' \<longleftrightarrow>
     (\<forall>j. surfaces w' j = (if goes_along w i j then applied size_of (state_for w i state j) (surfaces w j) else surfaces w j)) \<and>
     (\<forall>c. subsurfaces w' c =
        (if goes_with w (wl_children (surfaces w i)) c then (subsurfaces w c)\<lparr>cached_state := None\<rparr> else subsurfaces w c)) \<and>
     windows w' = windows w \<and>
     (\<exists>cs. wl_calls w' = wl_calls w @ cs \<and>
        (\<forall>j b. Submit_buffer j b \<in> set cs \<longleftrightarrow> goes_along w i j \<and> st_buffer (state_for w i state j) = Some (Some b)))"

text \<open>The same for some of its children, after the surface itself.\<close>

definition children_commit_to :: "('b \<Rightarrow> extent) \<Rightarrow> nat list \<Rightarrow> 'b wl_world \<Rightarrow> 'b wl_world \<Rightarrow> 'b wl_world \<Rightarrow> bool" where
  "children_commit_to size_of cs w w1 v \<longleftrightarrow>
     (\<forall>j. surfaces v j = (if along w cs j then applied size_of (the (cached_of w j)) (surfaces w j) else surfaces w1 j)) \<and>
     (\<forall>c. subsurfaces v c = (if goes_with w cs c then (subsurfaces w c)\<lparr>cached_state := None\<rparr> else subsurfaces w c)) \<and>
     windows v = windows w1 \<and>
     (\<exists>ds. wl_calls v = wl_calls w1 @ ds \<and>
        (\<forall>j b. Submit_buffer j b \<in> set ds \<longleftrightarrow> along w cs j \<and> st_buffer (the (cached_of w j)) = Some (Some b)))"

lemma applied_links [simp]:
  "wl_children (applied size_of state s) = wl_children s" "wl_role_of (applied size_of state s) = wl_role_of s"
  "wl_destroyed (applied size_of state s) = wl_destroyed s" "wl_subsurface_of (applied size_of state s) = wl_subsurface_of s"
  "wl_pending (applied size_of state s) = wl_pending s"
  by (simp_all add: applied_def Let_def split: option.split)

lemma commits_to_links: "commits_to size_of i state w w' \<Longrightarrow> same_links w w'"
  by (simp add: commits_to_def same_links_def)

lemma children_commit_links: "children_commit_to size_of cs w w1 v \<Longrightarrow> same_links w w1 \<Longrightarrow> same_links w v"
  by (simp add: children_commit_to_def same_links_def)

lemma along_down:
  assumes "along w cs j" "set cs \<subseteq> set (wl_children (surfaces w i))"
  shows "(j, i) \<in> (child_links w)\<^sup>+"
proof -
  obtain c where c: "c \<in> set cs" "goes_along w (sub_surface (subsurfaces w c)) j" using assms(1) by (auto simp: along_def)
  then have "(sub_surface (subsurfaces w c), i) \<in> child_links w" using assms(2) by (auto simp: child_links_def)
  with goes_along_down [OF c(2)] show ?thesis by (rule rtrancl_into_trancl1)
qed

lemma along_snoc: "along w (cs @ [c]) j \<longleftrightarrow> along w cs j \<or> ready w c \<and> goes_along w (sub_surface (subsurfaces w c)) j"
  by (auto simp: along_def)

text \<open>The sub-tree of a child that has not been visited yet is as it was.\<close>

lemma untouched_tree:
  assumes "wl_links w" "wl_forest w" "set cs \<subseteq> set (wl_children (surfaces w i))" "c \<in> set (wl_children (surfaces w i))" "c \<notin> set cs"
    and "(j, sub_surface (subsurfaces w c)) \<in> (child_links w)\<^sup>*"
  shows "\<not> along w cs j" "j \<noteq> i"
proof -
  show "\<not> along w cs j"
  proof
    assume "along w cs j"
    then obtain c' where "c' \<in> set cs" "goes_along w (sub_surface (subsurfaces w c')) j" by (auto simp: along_def)
    then show False using disjoint_children [OF assms(1,2) _ assms(4), of c' j] goes_along_down assms(3,5,6) by blast
  qed
  have "(sub_surface (subsurfaces w c), i) \<in> child_links w" using assms(4) by (auto simp: child_links_def)
  then show "j \<noteq> i" using assms(6) no_circle [OF assms(2)] by blast
qed

lemma along_children:
  assumes "wl_forest w"
  shows "along w (wl_children (surfaces w i)) j \<longleftrightarrow> goes_along w i j \<and> j \<noteq> i"
proof -
  have "\<not> along w (wl_children (surfaces w i)) i"
    using along_down [of w "wl_children (surfaces w i)" i i] assms wf_acyclic by (auto simp: wl_forest_def acyclic_def)
  then show ?thesis using goes_along_step [of w i j] by auto
qed

lemma surface_commit_eq:
  "surface_commit size_of i state w =
     go_on (run_each (parent_has_committed size_of) (wl_children (surfaces (snd (accept_state size_of i state w)) i)) (snd (accept_state size_of i state w)))
       (\<lambda>_ w2. Some (ret (fst (accept_state size_of i state w)) w2))"
  by (subst surface_commit.simps) (simp add: parent_has_committed_def [abs_def] split_beta)

lemma commit_child:
  assumes w: "wl_links w" "wl_forest w" "set cs \<subseteq> set (wl_children (surfaces w i))" "c \<in> set (wl_children (surfaces w i))" "c \<notin> set cs"
    and w1: "same_links w w1" "\<And>j. j \<noteq> i \<Longrightarrow> surfaces w1 j = surfaces w j"
    and v: "children_commit_to size_of cs w w1 v" and sync: "subsurface_synchronized w c \<noteq> None"
    and IH: "\<And>state u. same_links w u \<Longrightarrow> \<exists>state' u'. surface_commit size_of (sub_surface (subsurfaces w c)) state u = Some (ret state' u') \<and>
      commits_to size_of (sub_surface (subsurfaces w c)) state u u'"
  shows "\<exists>v'. parent_has_committed size_of c v = Some (ret () v') \<and> children_commit_to size_of (cs @ [c]) w w1 v'"
proof -
  let ?s = "\<lambda>c. sub_surface (subsurfaces w c)"
  have lv: "same_links w v" by (rule children_commit_links [OF v w1(1)])
  note un = untouched_tree [OF w]
  have subs: "subsurfaces v c' = subsurfaces w c'" if "(?s c', ?s c) \<in> (child_links w)\<^sup>*" for c'
    using v un(1) [OF that] by (simp add: children_commit_to_def goes_with_def)
  have c: "cached_state (subsurfaces v c) = cached_state (subsurfaces w c)" "subsurface_synchronized v c = subsurface_synchronized w c"
    using subs [of c] same_links_inv(4) [OF lv] by simp_all
  show ?thesis
  proof (cases "ready w c")
    case False
    then have "parent_has_committed size_of c v = Some (ret () v)"
      using c sync by (auto simp: parent_has_committed_def split: option.split)
    moreover have "along w (cs @ [c]) = along w cs" using False by (auto simp: along_snoc fun_eq_iff)
    ultimately show ?thesis using v by (simp add: children_commit_to_def goes_with_def)
  next
    case True
    then obtain state where state: "cached_state (subsurfaces w c) = Some state" by auto
    obtain state' u where u: "surface_commit size_of (?s c) state v = Some (ret state' u)" "commits_to size_of (?s c) state v u"
      using IH [OF lv] by blast
    let ?v = "on_subsurface c (\<lambda>s. s\<lparr>cached_state := None\<rparr>) u"
    have sv: "sub_surface (subsurfaces v c') = ?s c'" "wl_role_of (surfaces v j) = wl_role_of (surfaces w j)" for c' j
      using lv by (simp_all add: same_links_def)
    have run: "parent_has_committed size_of c v = Some (ret () ?v)"
      using c True state u(1) by (simp add: parent_has_committed_def sv)
    have G: "goes_along v (?s c) j = goes_along w (?s c) j" for j
    proof (rule goes_along_cong [OF lv])
      fix j c' assume "(j, ?s c) \<in> (child_links w)\<^sup>*" "c' \<in> set (wl_children (surfaces w j))"
      then have "(?s c', ?s c) \<in> (child_links w)\<^sup>*" by (auto simp: child_links_def intro: converse_rtrancl_into_rtrancl)
      then show "cached_state (subsurfaces v c') = cached_state (subsurfaces w c')" by (simp add: subs)
    qed
    have tree: "surfaces v j = surfaces w j \<and> state_for v (?s c) state j = the (cached_of w j)" if "goes_along w (?s c) j" for j
    proof -
      have d: "(j, ?s c) \<in> (child_links w)\<^sup>*" by (rule goes_along_down [OF that])
      have "surfaces v j = surfaces w j" using v un [OF d] w1(2) by (simp add: children_commit_to_def)
      moreover have "state_for v (?s c) state j = the (cached_of w j)"
      proof (cases "j = ?s c")
        case True
        then show ?thesis using state links_child(2) [OF w(1,4)] by (simp add: state_for_def cached_of_def)
      next
        case False
        with d obtain k where "(j, k) \<in> child_links w" by (meson converse_rtranclE)
        then obtain c' where "j = ?s c'" "wl_role_of (surfaces w j) = Sub_role c'" using links_child(2) [OF w(1)] by (auto simp: child_links_def)
        then show ?thesis using False d subs [of c'] by (simp add: state_for_def cached_of_def sv)
      qed
      ultimately show ?thesis ..
    qed
    have A: "along w (cs @ [c]) j \<longleftrightarrow> along w cs j \<or> goes_along w (?s c) j" for j using True by (simp add: along_snoc)
    have surf: "surfaces ?v j = (if along w (cs @ [c]) j then applied size_of (the (cached_of w j)) (surfaces w j) else surfaces w1 j)" for j
    proof (cases "goes_along w (?s c) j")
      case True
      have "surfaces ?v j = applied size_of (state_for v (?s c) state j) (surfaces v j)" using u(2) True by (simp add: commits_to_def on_subsurface_def G)
      then show ?thesis using True tree [OF True] by (simp add: A)
    next
      case False
      then have "surfaces ?v j = surfaces v j" using u(2) by (simp add: commits_to_def on_subsurface_def G)
      then show ?thesis using False v by (simp add: A children_commit_to_def)
    qed
    have sub: "subsurfaces ?v c' = (if goes_with w (cs @ [c]) c' then (subsurfaces w c')\<lparr>cached_state := None\<rparr> else subsurfaces w c')" for c'
    proof -
      have "wl_forest v" using w(2) same_links_inv(2) [OF lv] by (simp add: wl_forest_def)
      then have g: "goes_with v (wl_children (surfaces v (?s c))) c' \<longleftrightarrow>
          goes_along w (?s c) (?s c') \<and> ?s c' \<noteq> ?s c \<and> wl_role_of (surfaces w (?s c')) = Sub_role c'"
        by (simp add: goes_with_def along_children G sv)
      have old: "subsurfaces v c' = (if goes_with w cs c' then (subsurfaces w c')\<lparr>cached_state := None\<rparr> else subsurfaces w c')"
        using v unfolding children_commit_to_def by blast
      have gw: "goes_with w (cs @ [c]) c' \<longleftrightarrow> goes_with w cs c' \<or> goes_along w (?s c) (?s c') \<and> wl_role_of (surfaces w (?s c')) = Sub_role c'"
        by (auto simp: goes_with_def A)
      have new: "subsurfaces u c' = (if goes_with v (wl_children (surfaces v (?s c))) c' then (subsurfaces v c')\<lparr>cached_state := None\<rparr> else subsurfaces v c')"
        using u(2) unfolding commits_to_def by blast
      show ?thesis
      proof (cases "c' = c")
        case True
        have "goes_with w (cs @ [c]) c" using links_child(2) [OF w(1,4)] by (simp add: goes_with_def A goes_along_def)
        moreover have "subsurfaces u c = subsurfaces w c" using new g subs [of c] True by simp
        ultimately show ?thesis by (simp add: True on_subsurface_def)
      next
        case False
        then have "wl_role_of (surfaces w (?s c')) = Sub_role c' \<Longrightarrow> ?s c' \<noteq> ?s c" using links_child(2) [OF w(1,4)] by auto
        then have "goes_with v (wl_children (surfaces v (?s c))) c' \<longleftrightarrow> goes_along w (?s c) (?s c') \<and> wl_role_of (surfaces w (?s c')) = Sub_role c'"
          using g by blast
        then show ?thesis using False new old gw by (simp add: on_subsurface_def)
      qed
    qed
    have win: "windows ?v = windows w1" using u(2) v by (simp add: commits_to_def children_commit_to_def on_subsurface_def)
    obtain ds where ds: "wl_calls v = wl_calls w1 @ ds"
      "\<And>j b. Submit_buffer j b \<in> set ds \<longleftrightarrow> along w cs j \<and> st_buffer (the (cached_of w j)) = Some (Some b)"
      using v unfolding children_commit_to_def by blast
    obtain es where es: "wl_calls u = wl_calls v @ es"
      "\<And>j b. Submit_buffer j b \<in> set es \<longleftrightarrow> goes_along w (?s c) j \<and> st_buffer (state_for v (?s c) state j) = Some (Some b)"
      using u(2) unfolding commits_to_def G by blast
    have "Submit_buffer j b \<in> set (ds @ es) \<longleftrightarrow> along w (cs @ [c]) j \<and> st_buffer (the (cached_of w j)) = Some (Some b)" for j b
      using tree [of j] by (cases "goes_along w (?s c) j") (auto simp: A ds(2) es(2))
    moreover have "wl_calls ?v = wl_calls w1 @ ds @ es" by (simp add: on_subsurface_def ds(1) es(1))
    ultimately have "children_commit_to size_of (cs @ [c]) w w1 ?v"
      unfolding children_commit_to_def by (intro conjI allI surf sub win exI [of _ "ds @ es"])
    with run show ?thesis by blast
  qed
qed

lemma surface_commit_result:
  assumes "wl_links w" "wl_forest w" "surface_synchronized w i \<noteq> None"
  shows "\<exists>state' w'. surface_commit size_of i state w = Some (ret state' w') \<and> commits_to size_of i state w w' \<and>
    state' = fst (accept_state size_of i state w)"
proof -
  have "\<exists>state' u'. surface_commit size_of i state u = Some (ret state' u') \<and> commits_to size_of i state u u' \<and>
      state' = fst (accept_state size_of i state u)"
    if "same_links w u" "surface_synchronized u i \<noteq> None" for state u
    using that
  proof (induction i arbitrary: state u rule: wf_induct_rule [OF assms(2) [unfolded wl_forest_def]])
    case (1 i)
    have u: "wl_links u" "wl_forest u" "child_links u = child_links w"
      using assms(1,2) same_links_inv(1,2) [OF 1(2)] by (simp_all add: wl_forest_def)
    let ?u1 = "snd (accept_state size_of i state u)" and ?cs = "wl_children (surfaces u i)" and ?s = "\<lambda>c. sub_surface (subsurfaces u c)"
    have u1: "same_links u ?u1" "\<And>j. j \<noteq> i \<Longrightarrow> surfaces ?u1 j = surfaces u j" by (simp_all add: accept_state_frame same_links_def)
    have "\<exists>v. run_each (parent_has_committed size_of) cs ?u1 = Some (ret () v) \<and> children_commit_to size_of cs u ?u1 v"
      if "set cs \<subseteq> set ?cs" "distinct cs" for cs
      using that
    proof (induction cs rule: rev_induct)
      case Nil
      have "children_commit_to size_of [] u ?u1 ?u1" by (simp add: children_commit_to_def along_def goes_with_def accept_state_frame)
      then show ?case by simp
    next
      case (snoc c cs)
      then obtain v where v: "run_each (parent_has_committed size_of) cs ?u1 = Some (ret () v)" "children_commit_to size_of cs u ?u1 v" by auto
      have c: "c \<in> set ?cs" "c \<notin> set cs" "set cs \<subseteq> set ?cs" using snoc.prems by auto
      then have "(?s c, i) \<in> child_links u" by (auto simp: child_links_def)
      then have "(?s c, i) \<in> child_links w" by (simp add: u(3))
      have sync: "subsurface_synchronized u c \<noteq> None" using 1(3) links_child(1) [OF u(1) c(1)] by (auto simp: subsurface_synchronized_def)
      have "\<exists>state' t'. surface_commit size_of (?s c) st t = Some (ret state' t') \<and> commits_to size_of (?s c) st t t'" if "same_links u t" for st t
      proof -
        have "surface_synchronized t (?s c) \<noteq> None"
          using sync same_links_inv(3) [OF that] links_child(4) [OF u(1) c(1)] by simp
        then show ?thesis using 1(1) [OF \<open>(?s c, i) \<in> child_links w\<close>] wl_links_trans [OF 1(2) that] by blast
      qed
      then obtain v' where "parent_has_committed size_of c v = Some (ret () v')" "children_commit_to size_of (cs @ [c]) u ?u1 v'"
        using commit_child [OF u(1,2) c(3,1,2) u1 v(2) sync] by blast
      then show ?case using v(1) by (simp add: run_each_snoc)
    qed
    moreover have "distinct ?cs" using u(1) by (simp add: wl_links_def)
    ultimately obtain v where v: "run_each (parent_has_committed size_of) ?cs ?u1 = Some (ret () v)" "children_commit_to size_of ?cs u ?u1 v"
      by blast
    have "wl_children (surfaces ?u1 i) = ?cs" using u1(1) by (simp add: same_links_def)
    then have run: "surface_commit size_of i state u = Some (ret (fst (accept_state size_of i state u)) v)" by (simp add: surface_commit_eq v(1))
    have sf: "surfaces ?u1 = (surfaces u)(i := applied size_of state (surfaces u i))" by (rule accept_state_frame)
    have A: "along u ?cs j \<longleftrightarrow> goes_along u i j \<and> j \<noteq> i" for j by (rule along_children [OF u(2)])
    have self: "goes_along u i i" by (simp add: goes_along_def)
    have surf: "surfaces v j = (if goes_along u i j then applied size_of (state_for u i state j) (surfaces u j) else surfaces u j)" for j
    proof -
      have "surfaces v j = (if along u ?cs j then applied size_of (the (cached_of u j)) (surfaces u j) else surfaces ?u1 j)"
        using v(2) unfolding children_commit_to_def by blast
      then show ?thesis using self by (cases "j = i") (simp_all add: A state_for_def sf)
    qed
    have win: "windows v = windows u" using v(2) by (simp add: children_commit_to_def accept_state_frame)
    obtain ds where ds: "wl_calls ?u1 = wl_calls u @ ds" "\<And>j b. Submit_buffer j b \<in> set ds \<longleftrightarrow> j = i \<and> st_buffer state = Some (Some b)"
      using accept_state_calls [of size_of i state u] by blast
    obtain es where es: "wl_calls v = wl_calls ?u1 @ es"
      "\<And>j b. Submit_buffer j b \<in> set es \<longleftrightarrow> along u ?cs j \<and> st_buffer (the (cached_of u j)) = Some (Some b)"
      using v(2) unfolding children_commit_to_def by blast
    have calls: "wl_calls v = wl_calls u @ ds @ es" by (simp add: ds(1) es(1))
    have submits: "Submit_buffer j b \<in> set (ds @ es) \<longleftrightarrow> goes_along u i j \<and> st_buffer (state_for u i state j) = Some (Some b)" for j b
      using self by (cases "j = i") (simp_all add: ds(2) es(2) state_for_def A)
    have subs: "subsurfaces v c = (if goes_with u ?cs c then (subsurfaces u c)\<lparr>cached_state := None\<rparr> else subsurfaces u c)" for c
      using v(2) unfolding children_commit_to_def by blast
    have "commits_to size_of i state u v"
      unfolding commits_to_def by (intro conjI allI surf subs win exI [of _ "ds @ es"] calls submits)
    with run show ?case by blast
  qed
  from this [OF same_links_refl assms(3)] show ?thesis .
qed

end
