(* ===== verification/Wayland_Window.thy ===== *)
theory Wayland_Window
  imports Wayland_Surface
begin

text \<open>
  The role of a Wayland surface that is a window, \<open>src/server/frontend_wayland/window_wl_surface_role.cpp\<close>, with the parameters it creates the scene surface
  from (\<open>src/server/scene/surface_creation_parameters.cpp\<close>), and the requests of clients that go through the role of a surface.  Protocol extensions derive
  from this role; the ones of \<open>wl_shell\<close> and \<open>xdg_shell\<close> do nothing in \<open>handle_commit\<close>, so
  \<open>window_commit\<close> leaves that virtual call out; the one of \<open>layer_shell\<close> makes requests to the window there, as if they came before the commit.  The size that the shell grants a new surface, and whether a
  scene surface is visible and in which state, are arguments.  The \<open>wl_surface.enter\<close> events for the outputs are left out.
\<close>

section \<open>Parameters of a new surface\<close>

definition default_parameters :: creation_parameters where
  "default_parameters = \<lparr>cp_name = '''', cp_size = Size 0 0, cp_top_left = Point 0 0, cp_buffer_usage = 0, cp_pixel_format = 0, cp_input_mode = 0, cp_output_id = 0,
     cp_state = None, cp_type = None, cp_preferred_orientation = None, cp_parent_id = None, cp_content = None, cp_aux_rect = None, cp_edge_attachment = None,
     cp_placement_hints = None, cp_surface_placement_gravity = None, cp_aux_rect_placement_gravity = None,
     cp_aux_rect_placement_offset_x = None, cp_aux_rect_placement_offset_y = None, cp_parent = None, cp_min_width = None, cp_min_height = None,
     cp_max_width = None, cp_max_height = None, cp_width_inc = None, cp_height_inc = None, cp_min_aspect = None, cp_max_aspect = None,
     cp_input_shape = None, cp_shell_chrome = None, cp_streams = None, cp_confine_pointer = None, cp_depth_layer = None, cp_attached_edges = None,
     cp_exclusive_rect = None, cp_application_id = None, cp_server_side_decorated = None\<rparr>"

abbreviation or_keep :: "'a option \<Rightarrow> 'a \<Rightarrow> 'a" where
  "or_keep new old \<equiv> (case new of Some v \<Rightarrow> v | None \<Rightarrow> old)"

definition params_update_from :: "creation_parameters \<Rightarrow> wl_spec \<Rightarrow> creation_parameters" where
  "params_update_from p that = p\<lparr>
     cp_top_left := or_keep (ss_top_left that) (cp_top_left p),
     cp_size := (case (ss_width that, ss_height that) of (Some w, Some h) \<Rightarrow> Size w h | _ \<Rightarrow> cp_size p),
     cp_pixel_format := or_keep (ss_pixel_format that) (cp_pixel_format p),
     cp_buffer_usage := or_keep (ss_buffer_usage that) (cp_buffer_usage p),
     cp_name := or_keep (ss_name that) (cp_name p),
     cp_output_id := or_keep (ss_output_id that) (cp_output_id p),
     cp_type := overwrite (cp_type p) (ss_type that),
     cp_state := overwrite (cp_state p) (ss_state that),
     cp_preferred_orientation := overwrite (cp_preferred_orientation p) (ss_preferred_orientation that),
     cp_parent_id := overwrite (cp_parent_id p) (ss_parent_id that),
     cp_aux_rect := overwrite (cp_aux_rect p) (ss_aux_rect that),
     cp_edge_attachment := overwrite (cp_edge_attachment p) (ss_edge_attachment that),
     cp_placement_hints := overwrite (cp_placement_hints p) (ss_placement_hints that),
     cp_surface_placement_gravity := overwrite (cp_surface_placement_gravity p) (ss_surface_placement_gravity that),
     cp_aux_rect_placement_gravity := overwrite (cp_aux_rect_placement_gravity p) (ss_aux_rect_placement_gravity that),
     cp_aux_rect_placement_offset_x := overwrite (cp_aux_rect_placement_offset_x p) (ss_aux_rect_placement_offset_x that),
     cp_aux_rect_placement_offset_y := overwrite (cp_aux_rect_placement_offset_y p) (ss_aux_rect_placement_offset_y that),
     cp_min_width := overwrite (cp_min_width p) (ss_min_width that),
     cp_min_height := overwrite (cp_min_height p) (ss_min_height that),
     cp_max_width := overwrite (cp_max_width p) (ss_max_width that),
     cp_max_height := overwrite (cp_max_height p) (ss_max_height that),
     cp_width_inc := overwrite (cp_width_inc p) (ss_width_inc that),
     cp_height_inc := overwrite (cp_height_inc p) (ss_height_inc that),
     cp_min_aspect := overwrite (cp_min_aspect p) (ss_min_aspect that),
     cp_max_aspect := overwrite (cp_max_aspect p) (ss_max_aspect that),
     cp_streams := overwrite (cp_streams p) (ss_streams that),
     cp_parent := or_keep (ss_parent that) (cp_parent p),
     cp_input_shape := overwrite (cp_input_shape p) (ss_input_shape that),
     cp_shell_chrome := overwrite (cp_shell_chrome p) (ss_shell_chrome that),
     cp_confine_pointer := overwrite (cp_confine_pointer p) (ss_confine_pointer that),
     cp_depth_layer := overwrite (cp_depth_layer p) (ss_depth_layer that),
     cp_attached_edges := overwrite (cp_attached_edges p) (ss_attached_edges that),
     cp_exclusive_rect := or_keep (ss_exclusive_rect that) (cp_exclusive_rect p),
     cp_application_id := overwrite (cp_application_id p) (ss_application_id that)\<rparr>"

section \<open>The window\<close>

definition max_possible_size :: extent where
  "max_possible_size = Size int_max int_max"

definition make_wl_window :: wl_window where
  "make_wl_window = \<lparr>win_params = default_parameters\<lparr>cp_type := Some Type_freestyle\<rparr>, win_scene = False, pending_explicit_width = None,
     pending_explicit_height = None, committed_width_set_explicitly = False, committed_height_set_explicitly = False, committed_size = None,
     committed_min_size = Size 0 0, committed_max_size = max_possible_size, pending_changes = None\<rparr>"

definition on_window :: "nat \<Rightarrow> (wl_window \<Rightarrow> wl_window) \<Rightarrow> 'b wl_world \<Rightarrow> 'b wl_world" where
  "on_window i f w = w\<lparr>windows := (windows w)(i := f (windows w i))\<rparr>"

definition make_window :: "nat \<Rightarrow> 'b wl_world \<Rightarrow> ('b wl_world, unit) outcome" where
  "make_window i w = and_then (set_role i Window_role w) (\<lambda>_ w1. ret () (on_window i (\<lambda>_. make_wl_window) w1)) id"

definition destroy_window :: "nat \<Rightarrow> 'b wl_world \<Rightarrow> 'b wl_world" where
  "destroy_window i w =
     (let w1 = clear_role i w
      in if win_scene (windows w1 i) then on_window i (\<lambda>x. x\<lparr>win_scene := False\<rparr>) (note_calls [Shell_destroy_surface i] w1) else w1)"

text \<open>\<open>spec()\<close>: the changes that wait for the next commit, made when there are none.\<close>

definition waiting_spec :: "wl_window \<Rightarrow> wl_spec" where
  "waiting_spec x = (case pending_changes x of Some s \<Rightarrow> s | None \<Rightarrow> empty_spec)"

definition change_spec :: "(wl_spec \<Rightarrow> wl_spec) \<Rightarrow> wl_window \<Rightarrow> wl_window" where
  "change_spec f x = x\<lparr>pending_changes := Some (f (waiting_spec x))\<rparr>"

definition change_params :: "(creation_parameters \<Rightarrow> creation_parameters) \<Rightarrow> wl_window \<Rightarrow> wl_window" where
  "change_params f x = x\<lparr>win_params := f (win_params x)\<rparr>"

definition current_size :: "wl_window \<Rightarrow> extent option \<Rightarrow> extent" where
  "current_size x buffer =
     (let sz = (case committed_size x of Some z \<Rightarrow> z | None \<Rightarrow> Size 640 480)
      in case buffer of
           None \<Rightarrow> sz
         | Some b \<Rightarrow> Size (if committed_width_set_explicitly x then width sz else width b)
                          (if committed_height_set_explicitly x then height sz else height b))"

definition pending_size :: "wl_window \<Rightarrow> extent option \<Rightarrow> extent" where
  "pending_size x buffer =
     (let sz = current_size x buffer
      in Size (or_keep (pending_explicit_width x) (width sz)) (or_keep (pending_explicit_height x) (height sz)))"

definition adopt_params :: "creation_parameters \<Rightarrow> wl_window \<Rightarrow> wl_window" where
  "adopt_params params x = x\<lparr>win_params := params, win_scene := True,
     committed_min_size := Size (or_keep (cp_min_width params) (width (committed_min_size x))) (or_keep (cp_min_height params) (height (committed_min_size x))),
     committed_max_size := Size (or_keep (cp_max_width params) (width (committed_max_size x))) (or_keep (cp_max_height params) (height (committed_max_size x)))\<rparr>"

definition create_scene_surface :: "(creation_parameters \<Rightarrow> extent) \<Rightarrow> nat \<Rightarrow> 'b wl_world \<Rightarrow> ('b wl_world, unit) run" where
  "create_scene_surface granted i w =
     (if win_scene (windows w i) then Some (ret () w)
      else Option.bind (surface_data w i) (\<lambda>(streams, shapes).
        let params = (win_params (windows w i))\<lparr>cp_size := pending_size (windows w i) (wl_buffer_size (surfaces w i)),
                        cp_streams := Some streams, cp_input_shape := Some shapes\<rparr>;
            w1 = on_window i (adopt_params params) (note_calls [Shell_create_surface i params] w)
        in Some (ret () (if granted params \<noteq> cp_size params then note_calls [Content_resized i (granted params)] w1 else w1))))"

definition clear_pending_if_unchanged :: "'a option \<Rightarrow> 'a \<Rightarrow> 'a option \<times> 'a" where
  "clear_pending_if_unchanged pending cache =
     (case pending of None \<Rightarrow> (None, cache) | Some v \<Rightarrow> if v = cache then (None, cache) else (Some v, v))"

definition settle_limits :: "wl_window \<Rightarrow> wl_window" where
  "settle_limits x =
     (case pending_changes x of
        None \<Rightarrow> x
      | Some s \<Rightarrow>
          (let (min_w, c_min_w) = clear_pending_if_unchanged (ss_min_width s) (width (committed_min_size x));
               (min_h, c_min_h) = clear_pending_if_unchanged (ss_min_height s) (height (committed_min_size x));
               (max_w, c_max_w) = clear_pending_if_unchanged (ss_max_width s) (width (committed_max_size x));
               (max_h, c_max_h) = clear_pending_if_unchanged (ss_max_height s) (height (committed_max_size x))
           in x\<lparr>pending_changes := Some (s\<lparr>ss_min_width := min_w, ss_min_height := min_h, ss_max_width := max_w, ss_max_height := max_h\<rparr>),
                committed_min_size := Size c_min_w c_min_h, committed_max_size := Size c_max_w c_max_h\<rparr>))"

text \<open>The branch of \<open>commit\<close> for a window whose scene surface exists.\<close>

definition modify_scene_surface :: "nat \<Rightarrow> extent \<Rightarrow> bool \<Rightarrow> 'b wl_world \<Rightarrow> ('b wl_world, unit) run" where
  "modify_scene_surface i sz refresh w =
     (let w1 = (if committed_size (windows w i) \<noteq> Some sz
                then on_window i (change_spec (\<lambda>s. s\<lparr>ss_width := Some (width sz), ss_height := Some (height sz)\<rparr>)) w else w)
      in Option.bind (if refresh
                      then map_option (\<lambda>s. on_window i (change_spec (\<lambda>_. s)) w1) (populate_spec_with_surface_data w1 i (waiting_spec (windows w1 i)))
                      else Some w1) (\<lambda>w2.
         let w3 = on_window i settle_limits w2;
             w4 = (case pending_changes (windows w3 i) of
                     Some s \<Rightarrow> if \<not> spec_is_empty s then note_calls [Shell_modify_surface i s] w3 else w3
                   | None \<Rightarrow> w3)
         in Some (ret () (on_window i (\<lambda>x. x\<lparr>pending_changes := None\<rparr>) w4))))"

definition update_scene :: "(creation_parameters \<Rightarrow> extent) \<Rightarrow> nat \<Rightarrow> extent \<Rightarrow> bool \<Rightarrow> 'b wl_world \<Rightarrow> ('b wl_world, unit) run" where
  "update_scene granted i sz refresh w =
     (if win_scene (windows w i) then modify_scene_surface i sz refresh w else create_scene_surface granted i w)"

definition finish_commit :: "extent \<Rightarrow> wl_window \<Rightarrow> wl_window" where
  "finish_commit sz x = x\<lparr>committed_size := Some sz,
     committed_width_set_explicitly := (committed_width_set_explicitly x \<or> pending_explicit_width x \<noteq> None),
     committed_height_set_explicitly := (committed_height_set_explicitly x \<or> pending_explicit_height x \<noteq> None),
     pending_explicit_width := None, pending_explicit_height := None\<rparr>"

definition window_commit :: "('b \<Rightarrow> extent) \<Rightarrow> (creation_parameters \<Rightarrow> extent) \<Rightarrow> nat \<Rightarrow> 'b wl_state \<Rightarrow> 'b wl_world \<Rightarrow> ('b wl_world, unit) run" where
  "window_commit size_of granted i state w =
     go_on (surface_commit size_of i state w) (\<lambda>state' w1.
       let sz = pending_size (windows w1 i) (wl_buffer_size (surfaces w1 i))
       in go_on (update_scene granted i sz (surface_data_needs_refresh state') (note_calls [Latest_client_size i sz] w1)) (\<lambda>_ w2.
          Some (ret () (on_window i (finish_commit sz) w2))))"

section \<open>Requests that go to the window\<close>

definition change_window :: "nat \<Rightarrow> (wl_spec \<Rightarrow> wl_spec) \<Rightarrow> (creation_parameters \<Rightarrow> creation_parameters) \<Rightarrow> 'b wl_world \<Rightarrow> 'b wl_world" where
  "change_window i f g = on_window i (\<lambda>x. if win_scene x then change_spec f x else change_params g x)"

definition apply_spec :: "nat \<Rightarrow> wl_spec \<Rightarrow> 'b wl_world \<Rightarrow> 'b wl_world" where
  "apply_spec i new_spec w =
     change_window i (\<lambda>s. update_from s new_spec) (\<lambda>p. params_update_from p new_spec)
       (on_window i (\<lambda>x. x\<lparr>pending_explicit_width := overwrite (pending_explicit_width x) (ss_width new_spec),
          pending_explicit_height := overwrite (pending_explicit_height x) (ss_height new_spec)\<rparr>) w)"

definition set_pending_width :: "nat \<Rightarrow> int option \<Rightarrow> 'b wl_world \<Rightarrow> 'b wl_world" where
  "set_pending_width i wd = on_window i (\<lambda>x. x\<lparr>pending_explicit_width := wd\<rparr>)"

definition set_pending_height :: "nat \<Rightarrow> int option \<Rightarrow> 'b wl_world \<Rightarrow> 'b wl_world" where
  "set_pending_height i ht = on_window i (\<lambda>x. x\<lparr>pending_explicit_height := ht\<rparr>)"

definition set_title :: "nat \<Rightarrow> string \<Rightarrow> 'b wl_world \<Rightarrow> 'b wl_world" where
  "set_title i title = change_window i (\<lambda>s. s\<lparr>ss_name := Some title\<rparr>) (\<lambda>p. p\<lparr>cp_name := title\<rparr>)"

definition set_window_application_id :: "nat \<Rightarrow> string \<Rightarrow> 'b wl_world \<Rightarrow> 'b wl_world" where
  "set_window_application_id i app = change_window i (\<lambda>s. s\<lparr>ss_application_id := Some app\<rparr>) (\<lambda>p. p\<lparr>cp_application_id := Some app\<rparr>)"

definition initiate_interactive_move :: "nat \<Rightarrow> 'b wl_world \<Rightarrow> 'b wl_world" where
  "initiate_interactive_move i w = (if win_scene (windows w i) then note_calls [Request_move i] w else w)"

definition initiate_interactive_resize :: "nat \<Rightarrow> nat \<Rightarrow> 'b wl_world \<Rightarrow> 'b wl_world" where
  "initiate_interactive_resize i edge w = (if win_scene (windows w i) then note_calls [Request_resize i edge] w else w)"

definition set_window_parent :: "nat \<Rightarrow> nat option \<Rightarrow> 'b wl_world \<Rightarrow> 'b wl_world" where
  "set_window_parent i parent = change_window i
     (\<lambda>s. case parent of Some p \<Rightarrow> s\<lparr>ss_parent := Some (Some p)\<rparr> | None \<Rightarrow> s\<lparr>ss_parent := None\<rparr>) (\<lambda>p. p\<lparr>cp_parent := parent\<rparr>)"

definition set_max_size :: "nat \<Rightarrow> int \<Rightarrow> int \<Rightarrow> 'b wl_world \<Rightarrow> 'b wl_world" where
  "set_max_size i wd ht = change_window i
     (\<lambda>s. s\<lparr>ss_max_width := Some (if wd = 0 then width max_possible_size else wd), ss_max_height := Some (if ht = 0 then height max_possible_size else ht)\<rparr>)
     (\<lambda>p. p\<lparr>cp_max_width := (if wd = 0 then None else Some wd), cp_max_height := (if ht = 0 then None else Some ht)\<rparr>)"

definition set_min_size :: "nat \<Rightarrow> int \<Rightarrow> int \<Rightarrow> 'b wl_world \<Rightarrow> 'b wl_world" where
  "set_min_size i wd ht = change_window i
     (\<lambda>s. s\<lparr>ss_min_width := Some wd, ss_min_height := Some ht\<rparr>) (\<lambda>p. p\<lparr>cp_min_width := Some wd, cp_min_height := Some ht\<rparr>)"

text \<open>Requests for a state are not deferred to the next commit.\<close>

definition set_state_now :: "(creation_parameters \<Rightarrow> extent) \<Rightarrow> nat \<Rightarrow> window_state \<Rightarrow> 'b wl_world \<Rightarrow> ('b wl_world, unit) run" where
  "set_state_now granted i st w =
     (if win_scene (windows w i) then Some (ret () (note_calls [Shell_modify_surface i (empty_spec\<lparr>ss_state := Some st\<rparr>)] w))
      else create_scene_surface granted i (on_window i (change_params (\<lambda>p. p\<lparr>cp_state := Some st\<rparr>)) w))"

definition set_fullscreen :: "(creation_parameters \<Rightarrow> extent) \<Rightarrow> nat \<Rightarrow> int option \<Rightarrow> 'b wl_world \<Rightarrow> ('b wl_world, unit) run" where
  "set_fullscreen granted i out_id w =
     (if win_scene (windows w i)
      then Some (ret () (note_calls [Shell_modify_surface i (empty_spec\<lparr>ss_state := Some State_fullscreen, ss_output_id := out_id\<rparr>)] w))
      else create_scene_surface granted i
             (on_window i (change_params (\<lambda>p. p\<lparr>cp_state := Some State_fullscreen, cp_output_id := or_keep out_id (cp_output_id p)\<rparr>)) w))"

definition set_server_side_decorated :: "nat \<Rightarrow> bool \<Rightarrow> 'b wl_world \<Rightarrow> 'b wl_world" where
  "set_server_side_decorated i ssd =
     on_window i (\<lambda>x. if win_scene x then x else change_params (\<lambda>p. p\<lparr>cp_server_side_decorated := Some ssd\<rparr>) x)"

definition window_visibility :: "bool \<Rightarrow> window_state \<Rightarrow> nat \<Rightarrow> bool \<Rightarrow> 'b wl_world \<Rightarrow> 'b wl_world" where
  "window_visibility scene_visible scene_state i visible w =
     (if \<not> win_scene (windows w i) \<or> scene_visible = visible then w
      else if visible
      then if scene_state = State_hidden then on_window i (change_spec (\<lambda>s. s\<lparr>ss_state := Some State_restored\<rparr>)) w else w
      else if scene_state \<noteq> State_hidden then on_window i (change_spec (\<lambda>s. s\<lparr>ss_state := Some State_hidden\<rparr>)) w else w)"

section \<open>Requests that go through the role\<close>

definition attach :: "bool \<Rightarrow> window_state \<Rightarrow> nat \<Rightarrow> 'b option \<Rightarrow> 'b wl_world \<Rightarrow> 'b wl_world" where
  "attach scene_visible scene_state i buffer w =
     (let w1 = (case wl_role_of (surfaces w i) of Window_role \<Rightarrow> window_visibility scene_visible scene_state i (buffer \<noteq> None) w | _ \<Rightarrow> w)
      in on_surface i (\<lambda>s. s\<lparr>wl_pending := (wl_pending s)\<lparr>st_buffer := Some buffer\<rparr>\<rparr>) w1)"

definition take_pending :: "'b wl_surface \<Rightarrow> 'b wl_state" where
  "take_pending s =
     (let p = wl_pending s
      in p\<lparr>st_offset := (if st_offset p = Some (wl_offset s) then None else st_offset p),
           st_input_shape := (if st_input_shape p = Some (wl_input_shape s) then None else st_input_shape p)\<rparr>)"

definition commit :: "('b \<Rightarrow> extent) \<Rightarrow> (creation_parameters \<Rightarrow> extent) \<Rightarrow> nat \<Rightarrow> 'b wl_world \<Rightarrow> ('b wl_world, unit) run" where
  "commit size_of granted i w =
     (let state = take_pending (surfaces w i);
          w1 = on_surface i (\<lambda>s. s\<lparr>wl_pending := empty_state\<rparr>) w
      in case wl_role_of (surfaces w1 i) of
           Null_role \<Rightarrow> go_on (surface_commit size_of i state w1) (\<lambda>_ w2. Some (ret () w2))
         | Sub_role c \<Rightarrow> subsurface_commit size_of c state w1
         | Window_role \<Rightarrow> window_commit size_of granted i state w1)"

text \<open>The destructor; of the surface only the flag that it is destroyed remains.\<close>

definition destroy_surface :: "nat \<Rightarrow> 'b wl_world \<Rightarrow> ('b wl_world, unit) run" where
  "destroy_surface i w =
     (let w1 = on_surface i (\<lambda>s. s\<lparr>wl_destroyed := True\<rparr>) w
      in go_on (case wl_role_of (surfaces w1 i) of
                  Null_role \<Rightarrow> Some (ret () w1)
                | Sub_role c \<Rightarrow> destroy_subsurface c w1
                | Window_role \<Rightarrow> Some (ret () (destroy_window i w1)))
           (\<lambda>_ w2. Some (ret () (on_surface i (\<lambda>_. make_wl_surface\<lparr>wl_destroyed := True\<rparr>) (note_calls [Destroy_buffer_stream i] w2)))))"

section \<open>Runs of a server\<close>

text \<open>
  The requests of clients on objects that exist, in any order, with these exceptions.  A sub-surface object has a new number.  A surface does not become a sub-surface
  of itself or of a surface below it, and a sub-surface is not placed above or below itself: \<open>get_subsurface\<close> and the two placing requests accept both, and
  the walks over the sub-surfaces need not return then, or the sub-surface is lost.  A specification that is applied to an existing window leaves the size to the
  other requests; the only callers that give one a size are the constructors of pop-ups, whose window does not exist yet.  What \<open>handle_commit\<close> of a layer surface
  does before the commit reads the surface, a change of the specification and of the sizes, are requests of this kind.
\<close>

definition start_world :: "'b wl_world" where
  "start_world = \<lparr>surfaces = (\<lambda>_. make_wl_surface), subsurfaces = (\<lambda>_. \<lparr>sub_parent = 0, sub_surface = 0, sub_synchronized = True, cached_state = None\<rparr>),
     windows = (\<lambda>_. make_wl_window), dead_callbacks = {}, wl_calls = []\<rparr>"

abbreviation alive :: "'b wl_world \<Rightarrow> nat \<Rightarrow> bool" where
  "alive w i \<equiv> \<not> wl_destroyed (surfaces w i)"

abbreviation is_window :: "'b wl_world \<Rightarrow> nat \<Rightarrow> bool" where
  "is_window w i \<equiv> wl_role_of (surfaces w i) = Window_role"

abbreviation is_sub :: "'b wl_world \<Rightarrow> nat \<Rightarrow> bool" where
  "is_sub w c \<equiv> wl_role_of (surfaces w (sub_surface (subsurfaces w c))) = Sub_role c"

text \<open>Requests that only change what a window has waiting.\<close>

inductive window_request :: "nat \<Rightarrow> 'b wl_world \<Rightarrow> 'b wl_world \<Rightarrow> bool" where
  spec: "(win_scene (windows w i) \<Longrightarrow> ss_width s = None \<and> ss_height s = None) \<Longrightarrow> window_request i w (apply_spec i s w)"
| wd: "window_request i w (set_pending_width i (Some n) w)"
| ht: "window_request i w (set_pending_height i (Some n) w)"
| title: "window_request i w (set_title i str w)"
| app: "window_request i w (set_window_application_id i str w)"
| move: "window_request i w (initiate_interactive_move i w)"
| resize: "window_request i w (initiate_interactive_resize i edge w)"
| parent: "window_request i w (set_window_parent i p w)"
| maximum: "window_request i w (set_max_size i x y w)"
| minimum: "window_request i w (set_min_size i x y w)"
| decorated: "window_request i w (set_server_side_decorated i b w)"

inductive wl_run :: "('b \<Rightarrow> extent) \<Rightarrow> (creation_parameters \<Rightarrow> extent) \<Rightarrow> nat set \<Rightarrow> 'b wl_world \<Rightarrow> bool"
  for size_of :: "'b \<Rightarrow> extent" and granted :: "creation_parameters \<Rightarrow> extent" where
  start: "wl_run size_of granted {} start_world"
| subsurface: "wl_run size_of granted C w \<Longrightarrow> c \<notin> C \<Longrightarrow> alive w i \<Longrightarrow> alive w p \<Longrightarrow> (p, i) \<notin> (child_links w)\<^sup>* \<Longrightarrow>
    wl_run size_of granted (insert c C) (state_of (get_subsurface c i p w))"
| window: "wl_run size_of granted C w \<Longrightarrow> alive w i \<Longrightarrow> wl_run size_of granted C (state_of (make_window i w))"
| unsub: "wl_run size_of granted C w \<Longrightarrow> is_sub w c \<Longrightarrow> destroy_subsurface c w = Some (ret () w') \<Longrightarrow> wl_run size_of granted C w'"
| unwindow: "wl_run size_of granted C w \<Longrightarrow> is_window w i \<Longrightarrow> wl_run size_of granted C (destroy_window i w)"
| destroyed: "wl_run size_of granted C w \<Longrightarrow> alive w i \<Longrightarrow> destroy_surface i w = Some (ret () w') \<Longrightarrow> wl_run size_of granted C w'"
| position: "wl_run size_of granted C w \<Longrightarrow> is_sub w c \<Longrightarrow> wl_run size_of granted C (set_position c x y w)"
| above: "wl_run size_of granted C w \<Longrightarrow> is_sub w c \<Longrightarrow> wl_subsurface_of (surfaces w sib) \<noteq> Some c \<Longrightarrow> wl_run size_of granted C (move_child_above_sibling c sib w)"
| below: "wl_run size_of granted C w \<Longrightarrow> is_sub w c \<Longrightarrow> wl_subsurface_of (surfaces w sib) \<noteq> Some c \<Longrightarrow> wl_run size_of granted C (move_child_below_sibling c sib w)"
| mode: "wl_run size_of granted C w \<Longrightarrow> is_sub w c \<Longrightarrow> wl_run size_of granted C (set_sync c b w)"
| attached: "wl_run size_of granted C w \<Longrightarrow> alive w i \<Longrightarrow> wl_run size_of granted C (attach v st i b w)"
| framed: "wl_run size_of granted C w \<Longrightarrow> alive w i \<Longrightarrow> wl_run size_of granted C (frame i cb w)"
| region: "wl_run size_of granted C w \<Longrightarrow> alive w i \<Longrightarrow> wl_run size_of granted C (set_surface_input_region i r w)"
| offset: "wl_run size_of granted C w \<Longrightarrow> is_window w i \<Longrightarrow> wl_run size_of granted C (set_pending_offset i d w)"
| committed: "wl_run size_of granted C w \<Longrightarrow> alive w i \<Longrightarrow> commit size_of granted i w = Some (ret () w') \<Longrightarrow> wl_run size_of granted C w'"
| shown: "wl_run size_of granted C w \<Longrightarrow> alive w i \<Longrightarrow> wl_run size_of granted C (send_frame_callbacks i w)"
| requested: "wl_run size_of granted C w \<Longrightarrow> is_window w i \<Longrightarrow> window_request i w w' \<Longrightarrow> wl_run size_of granted C w'"
| state: "wl_run size_of granted C w \<Longrightarrow> is_window w i \<Longrightarrow> set_state_now granted i st w = Some (ret () w') \<Longrightarrow> wl_run size_of granted C w'"
| fullscreen: "wl_run size_of granted C w \<Longrightarrow> is_window w i \<Longrightarrow> set_fullscreen granted i out w = Some (ret () w') \<Longrightarrow> wl_run size_of granted C w'"

text \<open>What the references of every reachable world are like.\<close>

definition wl_inv :: "nat set \<Rightarrow> 'b wl_world \<Rightarrow> bool" where
  "wl_inv C w \<longleftrightarrow> wl_links w \<and> wl_forest w \<and>
     (\<forall>i c. wl_role_of (surfaces w i) = Sub_role c \<longrightarrow> c \<in> C \<and> sub_surface (subsurfaces w c) = i \<and>
        (wl_destroyed (surfaces w (sub_parent (subsurfaces w c))) \<or> c \<in> set (wl_children (surfaces w (sub_parent (subsurfaces w c)))))) \<and>
     (\<forall>i. set (wl_children (surfaces w i)) \<subseteq> C) \<and>
     (\<forall>i. wl_destroyed (surfaces w i) \<longrightarrow> wl_children (surfaces w i) = [] \<and> wl_role_of (surfaces w i) = Null_role)"

lemma same_links_wl_inv: "same_links w v \<Longrightarrow> wl_inv C v = wl_inv C w"
  using same_links_inv(1,2) [of w v] by (simp add: wl_inv_def wl_forest_def same_links_def)

lemma same_links_simps [simp]:
  "same_links w (note_calls cs w) " "same_links w (on_window i f w)" "same_links w (set_pending_offset i d w)"
  "same_links w (pending_invalidate_surface_data i w)" "same_links w (frame i cb w)" "same_links w (set_surface_input_region i r w)"
  "same_links w (set_position c x y w)" "same_links w (send_frame_callbacks i w)"
  by (simp_all add: same_links_def note_calls_def on_window_def set_pending_offset_def pending_invalidate_surface_data_def frame_def
      set_surface_input_region_def set_position_def on_surface_def send_frame_callbacks_frame)

section \<open>What the shell knows of a window\<close>

record shell_view =
  known_size :: extent
  known_min :: extent
  known_max :: extent

text \<open>A surface is created without limits unless the parameters give some, and a modification changes what it names.\<close>

fun see :: "nat \<Rightarrow> 'b wl_call \<Rightarrow> shell_view option \<Rightarrow> shell_view option" where
  "see i (Shell_create_surface j p) v =
     (if j = i then Some \<lparr>known_size = cp_size p, known_min = Size (or_keep (cp_min_width p) 0) (or_keep (cp_min_height p) 0),
        known_max = Size (or_keep (cp_max_width p) int_max) (or_keep (cp_max_height p) int_max)\<rparr> else v)"
| "see i (Shell_modify_surface j s) v =
     (if j = i then map_option (\<lambda>v. \<lparr>known_size = Size (or_keep (ss_width s) (width (known_size v))) (or_keep (ss_height s) (height (known_size v))),
        known_min = Size (or_keep (ss_min_width s) (width (known_min v))) (or_keep (ss_min_height s) (height (known_min v))),
        known_max = Size (or_keep (ss_max_width s) (width (known_max v))) (or_keep (ss_max_height s) (height (known_max v)))\<rparr>) v else v)"
| "see i (Shell_destroy_surface j) v = (if j = i then None else v)"
| "see i _ v = v"

definition shell_knows :: "'b wl_world \<Rightarrow> nat \<Rightarrow> shell_view option" where
  "shell_knows w i = fold (see i) (wl_calls w) None"

lemma shell_knows_simps [simp]:
  "shell_knows (note_calls [c] w) i = see i c (shell_knows w i)" "shell_knows (on_surface j f w) i = shell_knows w i"
  "shell_knows (on_subsurface k g w) i = shell_knows w i" "shell_knows (on_window j h w) i = shell_knows w i"
  "shell_knows (w\<lparr>dead_callbacks := D\<rparr>) i = shell_knows w i"
  by (simp_all add: shell_knows_def note_calls_def on_surface_def on_subsurface_def on_window_def)

lemma world_simps [simp]:
  "windows (note_calls cs w) = windows w" "surfaces (note_calls cs w) = surfaces w" "subsurfaces (note_calls cs w) = subsurfaces w"
  "windows (on_surface i f w) = windows w" "subsurfaces (on_surface i f w) = subsurfaces w"
  "surfaces (on_surface i f w) = (surfaces w)(i := f (surfaces w i))"
  "windows (on_subsurface c g w) = windows w" "surfaces (on_subsurface c g w) = surfaces w"
  "surfaces (on_window i h w) = surfaces w" "subsurfaces (on_window i h w) = subsurfaces w"
  "windows (on_window i h w) = (windows w)(i := h (windows w i))"
  by (simp_all add: note_calls_def on_surface_def on_subsurface_def on_window_def)

text \<open>Steps that leave the references, the windows and what the shell knows of sizes alone.\<close>

definition quiet :: "'b wl_world \<Rightarrow> 'b wl_world \<Rightarrow> bool" where
  "quiet w v \<longleftrightarrow> same_links w v \<and> windows v = windows w \<and> (\<forall>i. shell_knows v i = shell_knows w i)"

lemma quiet_refl [simp]: "quiet w w"
  by (simp add: quiet_def)

lemma quiet_trans: "quiet w v \<Longrightarrow> quiet v u \<Longrightarrow> quiet w u"
  using wl_links_trans [of w v u] by (simp add: quiet_def)

lemma quiet_steps [simp]:
  "quiet w (on_subsurface c (\<lambda>s. s\<lparr>cached_state := k\<rparr>) w)" "quiet w (pending_invalidate_surface_data i w)"
  "quiet w (set_pending_offset i d w)" "quiet w (frame i cb w)" "quiet w (set_surface_input_region i r w)" "quiet w (set_position c x y w)"
  "quiet w (on_surface i (\<lambda>s. s\<lparr>wl_pending := p s\<rparr>) w)"
  by (simp_all add: quiet_def pending_invalidate_surface_data_def set_pending_offset_def frame_def set_surface_input_region_def set_position_def)
    (simp_all add: same_links_def on_subsurface_def on_surface_def)

lemma answer_quiet: "quiet w (fold answer_callback cbs w)"
proof (induction cbs arbitrary: w)
  case (Cons cb cbs)
  have "quiet w (answer_callback cb w)" by (auto simp: quiet_def same_links_def answer_callback_def note_calls_def shell_knows_def)
  then show ?case using Cons [of "answer_callback cb w"] quiet_trans by (simp del: quiet_def) blast
qed simp

lemma send_frame_callbacks_quiet [simp]: "quiet w (send_frame_callbacks i w)"
proof -
  have "quiet w (fold answer_callback (wl_frame_callbacks (surfaces w i)) w)" by (rule answer_quiet)
  then show ?thesis unfolding send_frame_callbacks_def by (auto simp: quiet_def same_links_def on_surface_def shell_knows_def)
qed

lemma accept_state_quiet: "quiet w (snd (accept_state size_of i state w))"
proof -
  have st: "quiet w (stage_state i state w)"
    by (simp add: quiet_def stage_state_def) (simp add: same_links_def)
  have bs: "quiet v (on_surface i (\<lambda>s. s\<lparr>wl_buffer_size := z\<rparr>) v)" "quiet v (note_calls [Submit_buffer i b] v)" for v :: "'a wl_world" and z b
    by (simp_all add: quiet_def) (simp add: same_links_def)
  show ?thesis
  proof (cases "st_buffer state")
    case None
    then show ?thesis using quiet_trans [OF st send_frame_callbacks_quiet] by (simp add: accept_state_def Let_def)
  next
    case (Some bo)
    then show ?thesis
      using quiet_trans [OF quiet_trans [OF st bs(1)] bs(2)] quiet_trans [OF quiet_trans [OF st bs(1)] send_frame_callbacks_quiet]
      by (cases bo) (simp_all add: accept_state_def Let_def)
  qed
qed

lemma run_each_quiet:
  assumes "\<And>x w r. x \<in> set xs \<Longrightarrow> f x w = Some r \<Longrightarrow> \<exists>v. r = ret () v \<and> quiet w v" "run_each f xs w = Some r"
  shows "\<exists>v. r = ret () v \<and> quiet w v"
  using assms
proof (induction xs arbitrary: w)
  case (Cons x xs)
  then obtain q where q: "f x w = Some q" by (cases "f x w") simp_all
  with Cons.prems(1) obtain v where v: "q = ret () v" "quiet w v" by (meson list.set_intros(1))
  moreover have "run_each f xs v = Some r" using Cons.prems(2) q v(1) by simp
  with Cons.IH Cons.prems(1) obtain u where "r = ret () u" "quiet v u" by (meson list.set_intros(2))
  ultimately show ?case using quiet_trans by blast
qed auto

lemma surface_commit_quiet:
  "surface_commit size_of i state w = Some r \<Longrightarrow> \<exists>state' v. r = ret state' v \<and> quiet w v"
proof (rule surface_commit.raw_induct [where P = "\<lambda>size_of i state w r. \<exists>state' v. r = ret state' v \<and> quiet w v"], goal_cases)
  case (1 f size_of i state w r)
  let ?w1 = "snd (accept_state size_of i state w)"
  let ?step = "\<lambda>c w. case cached_state (subsurfaces w c) of None \<Rightarrow> Some (ret () w)
      | Some cached \<Rightarrow> Option.bind (subsurface_synchronized w c) (\<lambda>sync. if sync
          then go_on (f size_of (sub_surface (subsurfaces w c)) cached w) (\<lambda>_ w. Some (ret () (on_subsurface c (\<lambda>s. s\<lparr>cached_state := None\<rparr>) w)))
          else Some (ret () w))"
  have step: "\<exists>v. q = ret () v \<and> quiet u v" if "?step c u = Some q" for c u q
  proof (cases "\<exists>cached. cached_state (subsurfaces u c) = Some cached \<and> subsurface_synchronized u c = Some True")
    case True
    then obtain cached where c: "cached_state (subsurfaces u c) = Some cached" "subsurface_synchronized u c = Some True" by blast
    with that obtain p where p: "f size_of (sub_surface (subsurfaces u c)) cached u = Some p"
      by (cases "f size_of (sub_surface (subsurfaces u c)) cached u") simp_all
    with 1(2) obtain s' v where "p = ret s' v" "quiet u v" by blast
    then show ?thesis using that c p by (auto intro: quiet_trans [OF _ quiet_steps(1)])
  next
    case False
    with that show ?thesis by (auto split: option.splits bind_splits if_splits)
  qed
  obtain q where q: "run_each ?step (wl_children (surfaces ?w1 i)) ?w1 = Some q"
    using 1(3) by (cases "run_each ?step (wl_children (surfaces ?w1 i)) ?w1") (simp_all add: split_beta)
  have "\<exists>v. q = ret () v \<and> quiet ?w1 v" by (rule run_each_quiet [OF _ q]) (rule step)
  then obtain v where v: "q = ret () v" "quiet ?w1 v" by blast
  then have "r = ret (fst (accept_state size_of i state w)) v" using 1(3) q by (simp add: split_beta)
  then show ?case using v(2) accept_state_quiet quiet_trans by blast
qed

lemma nothing_noted: "\<exists>cs. ret () w = ret () (note_calls cs w) \<and> quiet w (note_calls cs w)"
  by (intro exI [of _ "[]"]) (simp add: note_calls_def)

lemma refresh_window_quiet:
  "refresh_window i w = Some r \<Longrightarrow> \<exists>cs. r = ret () (note_calls cs w) \<and> quiet w (note_calls cs w)"
proof -
  assume r: "refresh_window i w = Some r"
  show ?thesis
  proof (cases "win_scene (windows w i)")
    case True
    then obtain st sh where "r = ret () (note_calls [Shell_modify_surface i (empty_spec\<lparr>ss_streams := Some st, ss_input_shape := Some sh\<rparr>)] w)"
      using r by (auto simp: refresh_window_def populate_spec_with_surface_data_def)
    moreover have "see j (Shell_modify_surface i (empty_spec\<lparr>ss_streams := Some st, ss_input_shape := Some sh\<rparr>)) v = v" for j v
      by (cases v) (auto simp: empty_spec_def)
    ultimately show ?thesis by (intro exI [of _ "[Shell_modify_surface i (empty_spec\<lparr>ss_streams := Some st, ss_input_shape := Some sh\<rparr>)]"]) (simp add: quiet_def)
  next
    case False
    with r show ?thesis by (intro exI [of _ "[]"]) (simp add: refresh_window_def note_calls_def)
  qed
qed

lemma refresh_quiet:
  "refresh_surface_data_now i w = Some r \<Longrightarrow> \<exists>cs. r = ret () (note_calls cs w) \<and> quiet w (note_calls cs w)"
proof (rule refresh_surface_data_now.raw_induct [where P = "\<lambda>i w r. \<exists>cs. r = ret () (note_calls cs w) \<and> quiet w (note_calls cs w)"], goal_cases)
  case (1 f i w r)
  show ?case
  proof (cases "wl_role_of (surfaces w i)")
    case Window_role
    with 1(3) show ?thesis using refresh_window_quiet by simp
  next
    case (Sub_role c)
    show ?thesis
    proof (cases "wl_destroyed (surfaces w (sub_parent (subsurfaces w c)))")
      case True
      with 1(3) Sub_role have "r = ret () w" by simp
      then show ?thesis using nothing_noted [of w] by blast
    next
      case False
      with 1(3) Sub_role have "f (sub_parent (subsurfaces w c)) w = Some r" by simp
      then show ?thesis by (rule 1(2))
    qed
  next
    case Null_role
    with 1(3) have "r = ret () w" by simp
    then show ?thesis using nothing_noted [of w] by blast
  qed
qed

lemma subsurface_refresh_quiet:
  assumes "subsurface_refresh c w = Some r"
  shows "\<exists>cs. r = ret () (note_calls cs w) \<and> quiet w (note_calls cs w)"
proof (cases "alive w (sub_parent (subsurfaces w c))")
  case True
  with assms show ?thesis using refresh_quiet by (simp add: subsurface_refresh_def)
next
  case False
  with assms have "r = ret () w" by (simp add: subsurface_refresh_def)
  then show ?thesis using nothing_noted [of w] by blast
qed

lemma subsurface_commit_quiet:
  assumes "subsurface_commit size_of c state w = Some r"
  shows "\<exists>v. r = ret () v \<and> quiet w v"
proof -
  define cached where "cached = state_update_from (case cached_state (subsurfaces w c) of Some s \<Rightarrow> s | None \<Rightarrow> empty_state) state"
  define w1 where "w1 = on_subsurface c (\<lambda>s. s\<lparr>cached_state := Some cached\<rparr>) w"
  have q1: "quiet w w1" by (simp add: w1_def)
  obtain sync where sync: "subsurface_synchronized w1 c = Some sync"
    using assms by (cases "subsurface_synchronized w1 c") (simp_all add: subsurface_commit_def cached_def w1_def Let_def)
  show ?thesis
  proof (cases sync)
    case True
    then show ?thesis
      using assms sync q1 quiet_trans [OF q1 quiet_steps(2)] by (auto simp: subsurface_commit_def cached_def [symmetric] w1_def [symmetric] Let_def)
  next
    case False
    then have run: "go_on (surface_commit size_of (sub_surface (subsurfaces w1 c)) cached w1) (\<lambda>cached' w2.
        go_on (if surface_data_needs_refresh cached' then subsurface_refresh c w2 else Some (ret () w2))
          (\<lambda>_ w3. Some (ret () (on_subsurface c (\<lambda>s. s\<lparr>cached_state := None\<rparr>) w3)))) = Some r"
      using assms sync by (simp add: subsurface_commit_def cached_def [symmetric] w1_def [symmetric] Let_def)
    then obtain s' w2 where w2: "surface_commit size_of (sub_surface (subsurfaces w1 c)) cached w1 = Some (ret s' w2)" "quiet w1 w2"
      using surface_commit_quiet by (cases "surface_commit size_of (sub_surface (subsurfaces w1 c)) cached w1") fastforce+
    with run obtain w3 where "r = ret () (on_subsurface c (\<lambda>s. s\<lparr>cached_state := None\<rparr>) w3)" "quiet w2 w3"
      using subsurface_refresh_quiet [of c w2] by (cases "surface_data_needs_refresh s'"; cases "subsurface_refresh c w2") fastforce+
    then show ?thesis using quiet_trans [OF quiet_trans [OF quiet_trans [OF q1 w2(2)]] quiet_steps(1)] by blast
  qed
qed

section \<open>The references in every run\<close>

lemma wl_inv_quiet: "quiet w v \<Longrightarrow> wl_inv C v = wl_inv C w"
  by (simp add: quiet_def same_links_wl_inv)

lemma moved_children:
  assumes "distinct cs"
  shows "sib \<noteq> Some c \<Longrightarrow> distinct (move_child (insert_after (the sib) c) c sib cs) \<and> set (move_child (insert_after (the sib) c) c sib cs) = set cs"
    "sib \<noteq> Some c \<Longrightarrow> distinct (move_child (insert_below (the sib) c) c sib cs) \<and> set (move_child (insert_below (the sib) c) c sib cs) = set cs"
proof -
  have after: "s \<in> set xs \<Longrightarrow> distinct xs \<Longrightarrow> c \<notin> set xs \<Longrightarrow> distinct (insert_after s c xs) \<and> set (insert_after s c xs) = insert c (set xs)" for s and xs :: "'a list"
    by (induction xs) auto
  have before: "distinct (insert_below s c xs) \<and> set (insert_below s c xs) = insert c (set xs)"
    if "s \<in> set xs" "distinct xs" "c \<notin> set xs" for s and xs :: "'a list"
  proof -
    let ?b = "takeWhile (\<lambda>y. y \<noteq> s) xs" and ?r = "dropWhile (\<lambda>y. y \<noteq> s) xs"
    have xs: "xs = ?b @ ?r" "?r \<noteq> []" using that(1) by (simp_all add: dropWhile_eq_Nil_conv)
    have m: "mset (insert_below s c xs) = mset (c # xs)"
    proof (cases ?b rule: rev_cases)
      case (snoc ys y)
      have "insert_below s c xs = ys @ c # y # ?r" "xs = ys @ y # ?r"
        using snoc xs by (auto simp: insert_below_def Let_def)
      moreover have "mset (ys @ c # y # ?r) = mset (c # (ys @ y # ?r))" by simp
      ultimately show ?thesis by metis
    qed (use xs in \<open>simp add: insert_below_def Let_def\<close>)
    have "distinct (c # xs)" using that by simp
    then have "distinct (insert_below s c xs)" using mset_eq_imp_distinct_iff [OF m] by blast
    moreover have "set (insert_below s c xs) = set (c # xs)" by (rule mset_eq_setD [OF m])
    ultimately show ?thesis by simp
  qed
  show "sib \<noteq> Some c \<Longrightarrow> distinct (move_child (insert_after (the sib) c) c sib cs) \<and> set (move_child (insert_after (the sib) c) c sib cs) = set cs"
    using after [of "the sib" "remove1 c cs"] assms by (auto simp: move_child_def split: option.splits)
  show "sib \<noteq> Some c \<Longrightarrow> distinct (move_child (insert_below (the sib) c) c sib cs) \<and> set (move_child (insert_below (the sib) c) c sib cs) = set cs"
    using before [of "the sib" "remove1 c cs"] assms by (auto simp: move_child_def split: option.splits)
qed

lemma wl_invD:
  assumes "wl_inv C w"
  shows "wl_links w" "wl_forest w" "wl_role_of (surfaces w i) = Sub_role c \<Longrightarrow> c \<in> C" "wl_role_of (surfaces w i) = Sub_role c \<Longrightarrow> sub_surface (subsurfaces w c) = i"
    "wl_role_of (surfaces w i) = Sub_role c \<Longrightarrow> alive w (sub_parent (subsurfaces w c)) \<Longrightarrow> c \<in> set (wl_children (surfaces w (sub_parent (subsurfaces w c))))"
    "c \<in> set (wl_children (surfaces w i)) \<Longrightarrow> c \<in> C" "wl_destroyed (surfaces w i) \<Longrightarrow> wl_children (surfaces w i) = []"
    "wl_destroyed (surfaces w i) \<Longrightarrow> wl_role_of (surfaces w i) = Null_role" "distinct (wl_children (surfaces w i))"
  using assms by (auto simp: wl_inv_def wl_links_def)

text \<open>Steps that only take references away.\<close>

lemma wl_inv_less:
  assumes "wl_inv C w"
    and "\<And>c. sub_parent (subsurfaces v c) = sub_parent (subsurfaces w c) \<and> sub_surface (subsurfaces v c) = sub_surface (subsurfaces w c)"
    and "\<And>j. set (wl_children (surfaces v j)) \<subseteq> set (wl_children (surfaces w j)) \<and> distinct (wl_children (surfaces v j))"
    and "\<And>j c. c \<in> set (wl_children (surfaces v j)) \<Longrightarrow> wl_role_of (surfaces v (sub_surface (subsurfaces w c))) = Sub_role c \<and> alive v (sub_surface (subsurfaces w c))"
    and "\<And>j c. wl_role_of (surfaces v j) = Sub_role c \<Longrightarrow> wl_role_of (surfaces w j) = Sub_role c \<and>
      (wl_destroyed (surfaces v (sub_parent (subsurfaces w c))) \<or> c \<in> set (wl_children (surfaces v (sub_parent (subsurfaces w c)))))"
    and "\<And>j. wl_destroyed (surfaces v j) \<Longrightarrow> wl_children (surfaces v j) = [] \<and> wl_role_of (surfaces v j) = Null_role"
  shows "wl_inv C v"
proof -
  note D = wl_invD [OF assms(1)]
  have "child_links v \<subseteq> child_links w" using assms(2,3) by (auto simp: child_links_def) blast
  then have "wl_forest v" using D(2) by (auto simp: wl_forest_def intro: wf_subset)
  moreover have "wl_links v" unfolding wl_links_def using assms(2,3,4) links_child(1) [OF D(1)] by (metis subsetD)
  moreover have "set (wl_children (surfaces v j)) \<subseteq> C" for j using assms(3) [of j] D(6) by blast
  ultimately show ?thesis unfolding wl_inv_def using assms(2,5,6) D(3,4) by metis
qed

lemma sub_child:
  assumes "wl_inv C w" "wl_role_of (surfaces w i) = Sub_role c" "c' \<in> set (wl_children (surfaces w j))" "sub_surface (subsurfaces w c') = i"
  shows "c' = c" "j = sub_parent (subsurfaces w c)"
  using links_child(1,2) [OF wl_invD(1) [OF assms(1)] assms(3)] assms(2,4) by auto

lemma wl_inv_agree:
  assumes "wl_inv C w" "C \<subseteq> C'"
    and "\<And>j. wl_children (surfaces v j) = wl_children (surfaces w j) \<and> wl_role_of (surfaces v j) = wl_role_of (surfaces w j) \<and>
      wl_destroyed (surfaces v j) = wl_destroyed (surfaces w j)"
    and "\<And>c. c \<in> C \<Longrightarrow> sub_parent (subsurfaces v c) = sub_parent (subsurfaces w c) \<and> sub_surface (subsurfaces v c) = sub_surface (subsurfaces w c)"
  shows "wl_inv C' v"
proof -
  note D = wl_invD [OF assms(1)]
  have e: "wl_children (surfaces v j) = wl_children (surfaces w j)" "wl_role_of (surfaces v j) = wl_role_of (surfaces w j)"
    "wl_destroyed (surfaces v j) = wl_destroyed (surfaces w j)" for j using assms(3) by auto
  have c: "sub_parent (subsurfaces v c) = sub_parent (subsurfaces w c)" "sub_surface (subsurfaces v c) = sub_surface (subsurfaces w c)" if "c \<in> C" for c
    using assms(4) that by auto
  have "child_links v \<subseteq> child_links w" using c(2) D(6) by (fastforce simp: child_links_def e)
  then have "wl_forest v" using D(2) by (auto simp: wl_forest_def intro: wf_subset)
  moreover have "wl_links v" unfolding wl_links_def e
  proof (intro conjI allI impI)
    fix i k assume k: "k \<in> set (wl_children (surfaces w i))"
    then have "k \<in> C" by (rule D(6))
    then show "sub_parent (subsurfaces v k) = i" "wl_role_of (surfaces w (sub_surface (subsurfaces v k))) = Sub_role k"
      "\<not> wl_destroyed (surfaces w (sub_surface (subsurfaces v k)))" using links_child [OF D(1) k] by (simp_all add: c)
  qed (rule D(9))
  moreover have "k \<in> C' \<and> sub_surface (subsurfaces v k) = i \<and>
      (wl_destroyed (surfaces w (sub_parent (subsurfaces v k))) \<or> k \<in> set (wl_children (surfaces w (sub_parent (subsurfaces v k)))))"
    if "wl_role_of (surfaces w i) = Sub_role k" for i k
    using D(3,4,5) [OF that] assms(2) by (auto simp: c)
  moreover have "set (wl_children (surfaces w j)) \<subseteq> C'" for j using assms(2) D(6) by blast
  ultimately show ?thesis unfolding wl_inv_def e using D(7,8) by blast
qed

lemma get_subsurface_inv:
  assumes inv: "wl_inv C w" and new: "c \<notin> C" "alive w i" "alive w p" "(p, i) \<notin> (child_links w)\<^sup>*"
  shows "wl_inv (insert c C) (state_of (get_subsurface c i p w))"
proof -
  note D = wl_invD [OF inv]
  let ?v = "state_of (get_subsurface c i p w)"
  have fresh: "c \<notin> set (wl_children (surfaces w j))" "wl_role_of (surfaces w j) \<noteq> Sub_role c" for j using D(3,6) new(1) by blast+
  have subs: "c' \<noteq> c \<Longrightarrow> subsurfaces ?v c' = subsurfaces w c'" for c'
    by (cases "wl_role_of (surfaces w i) = Null_role")
      (auto simp: get_subsurface_def set_role_def add_child_def remove_child_def pending_invalidate_surface_data_def on_subsurface_def Let_def)
  have ip: "i \<noteq> p" using new(4) by auto
  show ?thesis
  proof (cases "wl_role_of (surfaces w i) = Null_role")
    case False
    have "surfaces ?v j = surfaces w j" for j
      using False new(3) fresh(1) [of p] by (auto simp: get_subsurface_def set_role_def add_child_def remove_child_def Let_def)
    moreover have "subsurfaces ?v c' = subsurfaces w c'" if "c' \<in> C" for c' using new(1) that by (intro subs) auto
    ultimately show ?thesis by (intro wl_inv_agree [OF inv]) auto
  next
    case True
    have v: "wl_children (surfaces ?v j) = (if j = p then wl_children (surfaces w p) @ [c] else wl_children (surfaces w j))"
      "wl_role_of (surfaces ?v j) = (if j = i then Sub_role c else wl_role_of (surfaces w j))" "wl_destroyed (surfaces ?v j) = wl_destroyed (surfaces w j)"
      "sub_parent (subsurfaces ?v c) = p" "sub_surface (subsurfaces ?v c) = i" for j
      using True ip by (simp_all add: get_subsurface_def set_role_def add_child_def pending_invalidate_surface_data_def Let_def on_subsurface_def)
    have old: "c' \<in> set (wl_children (surfaces w j)) \<Longrightarrow> c' \<noteq> c \<and> subsurfaces ?v c' = subsurfaces w c' \<and> sub_surface (subsurfaces w c') \<noteq> i" for c' j
      using fresh(1) [of j] subs [of c'] links_child(2) [OF D(1), of c' j] True by auto
    have "child_links ?v \<subseteq> insert (i, p) (child_links w)"
      using old by (auto simp: child_links_def v split: if_splits)
    moreover have "wf (insert (i, p) (child_links w))" using D(2) new(4) by (simp add: wl_forest_def)
    ultimately have "wl_forest ?v" by (auto simp: wl_forest_def intro: wf_subset)
    moreover have "wl_links ?v"
    proof -
      have "sub_parent (subsurfaces ?v c') = j \<and> wl_role_of (surfaces ?v (sub_surface (subsurfaces ?v c'))) = Sub_role c' \<and>
          alive ?v (sub_surface (subsurfaces ?v c'))" if "c' \<in> set (wl_children (surfaces ?v j))" for c' j
      proof (cases "c' = c")
        case True
        with that fresh(1) [of j] have "j = p" by (auto simp: v split: if_splits)
        with True show ?thesis using new(2) by (simp add: v)
      next
        case False
        with that have c': "c' \<in> set (wl_children (surfaces w j))" by (auto simp: v split: if_splits)
        then show ?thesis using old [OF c'] links_child [OF D(1) c'] by (simp add: v)
      qed
      moreover have "distinct (wl_children (surfaces ?v j))" for j using D(9) [of j] fresh(1) [of p] by (auto simp: v)
      ultimately show ?thesis by (simp add: wl_links_def)
    qed
    moreover have "c' \<in> insert c C \<and> sub_surface (subsurfaces ?v c') = j \<and>
        (wl_destroyed (surfaces ?v (sub_parent (subsurfaces ?v c'))) \<or> c' \<in> set (wl_children (surfaces ?v (sub_parent (subsurfaces ?v c')))))"
      if "wl_role_of (surfaces ?v j) = Sub_role c'" for j c'
    proof (cases "j = i")
      case True
      with that have c': "c' = c" by (simp add: v)
      show ?thesis unfolding c' using True by (simp add: v)
    next
      case False
      with that have r: "wl_role_of (surfaces w j) = Sub_role c'" by (simp add: v)
      then have "c' \<noteq> c" using fresh(2) by auto
      then show ?thesis using D(3,4,5) [OF r] subs [of c'] by (auto simp: v)
    qed
    moreover have "set (wl_children (surfaces ?v j)) \<subseteq> insert c C" for j using D(6) [of _ j] by (auto simp: v dest: D(6))
    moreover have "wl_destroyed (surfaces ?v j) \<Longrightarrow> wl_children (surfaces ?v j) = [] \<and> wl_role_of (surfaces ?v j) = Null_role" for j
      using D(7,8) [of j] new(2,3) by (auto simp: v)
    ultimately show ?thesis by (simp add: wl_inv_def)
  qed
qed

lemma set_sync_inv: "wl_inv C w \<Longrightarrow> wl_inv C (set_sync c b w)"
  by (rule wl_inv_agree [OF _ subset_refl]) (auto simp: set_sync_def on_subsurface_def)

lemma move_child_inv:
  assumes inv: "wl_inv C w" and "wl_subsurface_of (surfaces w sib) \<noteq> Some c"
  shows "wl_inv C (move_child_above_sibling c sib w)" "wl_inv C (move_child_below_sibling c sib w)"
proof -
  note D = wl_invD [OF inv]
  have m: "wl_inv C (on_surface p (\<lambda>s. s\<lparr>wl_children := f (wl_children s)\<rparr>) w)"
    if "\<And>cs. distinct cs \<Longrightarrow> distinct (f cs) \<and> set (f cs) = set cs" for p f
  proof -
    let ?v = "on_surface p (\<lambda>s. s\<lparr>wl_children := f (wl_children s)\<rparr>) w"
    have v: "distinct (wl_children (surfaces ?v j))" "set (wl_children (surfaces ?v j)) = set (wl_children (surfaces w j))"
      "wl_role_of (surfaces ?v j) = wl_role_of (surfaces w j)" "wl_destroyed (surfaces ?v j) = wl_destroyed (surfaces w j)" for j
      using that [OF D(9) [of p]] D(9) [of j] by simp_all
    have "wl_destroyed (surfaces w j) \<Longrightarrow> wl_children (surfaces ?v j) = []" for j using D(7) [of j] v(2) [of j] by simp
    moreover have "wl_destroyed (surfaces w (sub_parent (subsurfaces w c))) \<or> c \<in> set (wl_children (surfaces w (sub_parent (subsurfaces w c))))"
      if "wl_role_of (surfaces w j) = Sub_role c" for j c using D(5) [OF that] by blast
    ultimately show ?thesis using v D(8) links_child(2,3) [OF D(1)] by (intro wl_inv_less [OF inv]) (auto simp del: world_simps(6))
  qed
  show "wl_inv C (move_child_above_sibling c sib w)"
    unfolding move_child_above_sibling_def Let_def by (rule m) (rule moved_children(1) [OF _ assms(2)])
  show "wl_inv C (move_child_below_sibling c sib w)"
    unfolding move_child_below_sibling_def Let_def by (rule m) (rule moved_children(2) [OF _ assms(2)])
qed

lemma window_role_inv:
  assumes inv: "wl_inv C w"
  shows "alive w i \<Longrightarrow> wl_inv C (state_of (make_window i w))" "is_window w i \<Longrightarrow> wl_inv C (destroy_window i w)"
proof -
  note D = wl_invD [OF inv]
  have r: "wl_inv C v" if "\<And>j. surfaces v j = (if j = i then (surfaces w i)\<lparr>wl_role_of := r\<rparr> else surfaces w j)" "subsurfaces v = subsurfaces w"
    "wl_role_of (surfaces w i) \<in> {Null_role, Window_role}" "r \<in> {Null_role, Window_role}" "alive w i \<or> r = Null_role" for v r
  proof (rule wl_inv_less [OF inv])
    fix j c assume "c \<in> set (wl_children (surfaces v j))"
    then have c: "c \<in> set (wl_children (surfaces w j))" using that(1) [of j] by (auto split: if_splits)
    have "sub_surface (subsurfaces w c) \<noteq> i" using links_child(2) [OF D(1) c] that(3) by auto
    then show "wl_role_of (surfaces v (sub_surface (subsurfaces w c))) = Sub_role c \<and> alive v (sub_surface (subsurfaces w c))"
      using links_child(2,3) [OF D(1) c] by (simp add: that(1))
  next
    fix j c assume "wl_role_of (surfaces v j) = Sub_role c"
    then have "wl_role_of (surfaces w j) = Sub_role c" using that(1) [of j] that(4) by (auto split: if_splits)
    then show "wl_role_of (surfaces w j) = Sub_role c \<and>
        (wl_destroyed (surfaces v (sub_parent (subsurfaces w c))) \<or> c \<in> set (wl_children (surfaces v (sub_parent (subsurfaces w c)))))"
      using D(5) by (auto simp: that(1))
  next
    fix j assume "wl_destroyed (surfaces v j)"
    then show "wl_children (surfaces v j) = [] \<and> wl_role_of (surfaces v j) = Null_role" using D(7,8) that(1) [of j] that(5) by (auto split: if_splits)
  qed (use that(1,2) D(9) in \<open>auto\<close>)
  show "alive w i \<Longrightarrow> wl_inv C (state_of (make_window i w))"
    using inv by (cases "wl_role_of (surfaces w i) = Null_role") (auto simp: make_window_def set_role_def intro: r)
  show "is_window w i \<Longrightarrow> wl_inv C (destroy_window i w)"
    by (rule r [of _ Null_role]) (auto simp: destroy_window_def clear_role_def Let_def)
qed

lemma destroy_subsurface_eq:
  assumes "destroy_subsurface c w = Some r"
  shows "\<exists>cs. r = ret () (remove_child (sub_parent (subsurfaces w c)) c (note_calls cs
      (on_surface (sub_surface (subsurfaces w c)) (\<lambda>s. s\<lparr>wl_role_of := Null_role, wl_subsurface_of := None\<rparr>) w))) \<and> (\<forall>i. shell_knows (state_of r) i = shell_knows w i)"
proof -
  let ?w1 = "on_surface (sub_surface (subsurfaces w c)) (\<lambda>s. s\<lparr>wl_role_of := Null_role, wl_subsurface_of := None\<rparr>) w"
  have w1: "on_surface (sub_surface (subsurfaces w c)) (\<lambda>s. s\<lparr>wl_subsurface_of := None\<rparr>) (clear_role (sub_surface (subsurfaces w c)) w) = ?w1"
    by (simp add: clear_role_def on_surface_def)
  obtain q where q: "subsurface_refresh c ?w1 = Some q" using assms by (cases "subsurface_refresh c ?w1") (simp_all add: destroy_subsurface_def w1 Let_def)
  with subsurface_refresh_quiet obtain cs where cs: "q = ret () (note_calls cs ?w1)" "quiet ?w1 (note_calls cs ?w1)" by blast
  have "r = ret () (remove_child (sub_parent (subsurfaces w c)) c (note_calls cs ?w1))" using assms q cs(1) by (simp add: destroy_subsurface_def w1 Let_def)
  moreover have "shell_knows (remove_child p c (note_calls cs ?w1)) i = shell_knows w i" for p i
    using cs(2) by (auto simp: quiet_def remove_child_def)
  ultimately show ?thesis by (intro exI [of _ cs]) simp
qed

lemma remove_child_surfaces:
  "surfaces (remove_child p c w) j = (if j = p \<and> alive w p then (surfaces w j)\<lparr>wl_children := removeAll c (wl_children (surfaces w j))\<rparr> else surfaces w j)"
  "subsurfaces (remove_child p c w) = subsurfaces w" "windows (remove_child p c w) = windows w"
  by (auto simp: remove_child_def)

lemma destroy_subsurface_inv:
  assumes inv: "wl_inv C w" and "wl_role_of (surfaces w i) = Sub_role c"
    and v: "\<And>j. surfaces v j = (let s = (if j = i then (surfaces w i)\<lparr>wl_role_of := Null_role, wl_subsurface_of := None\<rparr> else surfaces w j)
        in if j = sub_parent (subsurfaces w c) \<and> alive w j then s\<lparr>wl_children := removeAll c (wl_children s)\<rparr> else s)" "subsurfaces v = subsurfaces w"
  shows "wl_inv C v"
proof -
  note D = wl_invD [OF inv]
  have e: "wl_destroyed (surfaces v j) = wl_destroyed (surfaces w j)" "wl_role_of (surfaces v j) = (if j = i then Null_role else wl_role_of (surfaces w j))"
    "set (wl_children (surfaces v j)) = set (wl_children (surfaces w j)) - {c}" "distinct (wl_children (surfaces v j))" for j
  proof -
    show "wl_destroyed (surfaces v j) = wl_destroyed (surfaces w j)" "wl_role_of (surfaces v j) = (if j = i then Null_role else wl_role_of (surfaces w j))"
      "distinct (wl_children (surfaces v j))" using D(9) [of j] by (auto simp: v(1) distinct_removeAll Let_def)
    have "c \<notin> set (wl_children (surfaces w j))" if "\<not> (j = sub_parent (subsurfaces w c) \<and> alive w j)"
      using that links_child(1) [OF D(1), of c j] D(7) [of j] by auto
    then show "set (wl_children (surfaces v j)) = set (wl_children (surfaces w j)) - {c}" by (auto simp: v(1) Let_def)
  qed
  show ?thesis
  proof (rule wl_inv_less [OF inv])
    fix j c' assume "c' \<in> set (wl_children (surfaces v j))"
    then have c': "c' \<in> set (wl_children (surfaces w j))" "c' \<noteq> c" by (auto simp: e)
    then have "sub_surface (subsurfaces w c') \<noteq> i" using sub_child(1) [OF inv assms(2) c'(1)] by blast
    then show "wl_role_of (surfaces v (sub_surface (subsurfaces w c'))) = Sub_role c' \<and> alive v (sub_surface (subsurfaces w c'))"
      using links_child(2,3) [OF D(1) c'(1)] by (simp add: e)
  next
    fix j c' assume "wl_role_of (surfaces v j) = Sub_role c'"
    then have r: "wl_role_of (surfaces w j) = Sub_role c'" "j \<noteq> i" by (auto simp: e split: if_splits)
    then have "c' \<noteq> c" using D(4) [OF r(1)] D(4) [OF assms(2)] by auto
    then show "wl_role_of (surfaces w j) = Sub_role c' \<and>
        (wl_destroyed (surfaces v (sub_parent (subsurfaces w c'))) \<or> c' \<in> set (wl_children (surfaces v (sub_parent (subsurfaces w c')))))"
      using D(5) [OF r(1)] r(1) by (auto simp: e)
  next
    fix j assume "wl_destroyed (surfaces v j)"
    then have d: "wl_children (surfaces w j) = []" "wl_role_of (surfaces w j) = Null_role" using D(7,8) e(1) by blast+
    then show "wl_children (surfaces v j) = [] \<and> wl_role_of (surfaces v j) = Null_role" using e(2,3) [of j] by simp
  qed (auto simp: v(2) e)
qed

text \<open>A surface without a role that is destroyed.\<close>

lemma blank_surface_inv:
  assumes inv: "wl_inv C w" and "wl_role_of (surfaces w i) \<in> {Null_role, Window_role}"
    and v: "\<And>j. j \<noteq> i \<Longrightarrow> surfaces v j = surfaces w j" "surfaces v i = make_wl_surface\<lparr>wl_destroyed := True\<rparr>" "subsurfaces v = subsurfaces w"
  shows "wl_inv C v"
proof -
  note D = wl_invD [OF inv]
  have i: "wl_children (surfaces v i) = []" "wl_role_of (surfaces v i) = Null_role" "wl_destroyed (surfaces v i)"
    by (simp_all add: v(2) make_wl_surface_def)
  show ?thesis
  proof (rule wl_inv_less [OF inv])
    fix j c assume "c \<in> set (wl_children (surfaces v j))"
    then have c: "c \<in> set (wl_children (surfaces w j))" using v(1) [of j] i(1) by (cases "j = i") auto
    have "sub_surface (subsurfaces w c) \<noteq> i" using links_child(2) [OF D(1) c] assms(2) by auto
    then show "wl_role_of (surfaces v (sub_surface (subsurfaces w c))) = Sub_role c \<and> alive v (sub_surface (subsurfaces w c))"
      using links_child(2,3) [OF D(1) c] by (simp add: v(1))
  next
    fix j c assume "wl_role_of (surfaces v j) = Sub_role c"
    then have r: "wl_role_of (surfaces w j) = Sub_role c" using v(1) [of j] i(2) by (cases "j = i") auto
    show "wl_role_of (surfaces w j) = Sub_role c \<and>
        (wl_destroyed (surfaces v (sub_parent (subsurfaces w c))) \<or> c \<in> set (wl_children (surfaces v (sub_parent (subsurfaces w c)))))"
      using r D(5) [OF r] i(3) v(1) by (cases "sub_parent (subsurfaces w c) = i") auto
  next
    fix j assume "wl_destroyed (surfaces v j)"
    then show "wl_children (surfaces v j) = [] \<and> wl_role_of (surfaces v j) = Null_role" using D(7,8) v(1) [of j] i by (cases "j = i") auto
  next
    fix j show "set (wl_children (surfaces v j)) \<subseteq> set (wl_children (surfaces w j)) \<and> distinct (wl_children (surfaces v j))"
      using v(1) [of j] i(1) D(9) [of j] by (cases "j = i") auto
  qed (simp add: v(3))
qed

lemma destroy_surface_inv:
  assumes inv: "wl_inv C w" and "alive w i" "destroy_surface i w = Some (ret () v)"
  shows "wl_inv C v"
proof -
  let ?w1 = "on_surface i (\<lambda>s. s\<lparr>wl_destroyed := True\<rparr>) w"
  let ?blank = "\<lambda>w :: 'a wl_world. on_surface i (\<lambda>_. make_wl_surface\<lparr>wl_destroyed := True\<rparr>) (note_calls [Destroy_buffer_stream i] w)"
  show ?thesis
  proof (cases "wl_role_of (surfaces w i)")
    case Null_role
    then have "v = ?blank ?w1" using assms(3) by (simp add: destroy_surface_def Let_def)
    then show ?thesis using Null_role by (intro blank_surface_inv [OF inv, of i]) auto
  next
    case Window_role
    then have "v = ?blank (destroy_window i ?w1)" using assms(3) by (simp add: destroy_surface_def Let_def)
    then show ?thesis using Window_role
      by (intro blank_surface_inv [OF inv, of i]) (auto simp: destroy_window_def clear_role_def Let_def)
  next
    case (Sub_role c)
    note D = wl_invD [OF inv]
    have c: "sub_surface (subsurfaces w c) = i" by (rule D(4) [OF Sub_role])
    let ?p = "sub_parent (subsurfaces w c)"
    have ip: "?p \<noteq> i"
    proof
      assume "?p = i"
      then have "c \<in> set (wl_children (surfaces w i))" using D(5) [OF Sub_role] assms(2) by simp
      then have "(i, i) \<in> child_links w" unfolding child_links_def using c by blast
      then show False using no_circle [OF D(2)] by blast
    qed
    have "\<exists>u. destroy_subsurface c ?w1 = Some (ret () u) \<and> v = ?blank u"
      using assms(3) Sub_role by (auto simp: destroy_surface_def Let_def go_on_ret_iff)
    then obtain u where u: "destroy_subsurface c ?w1 = Some (ret () u)" "v = ?blank u" by blast
    obtain cs where "u = remove_child ?p c (note_calls cs (on_surface i (\<lambda>s. s\<lparr>wl_role_of := Null_role, wl_subsurface_of := None\<rparr>) ?w1))"
      using destroy_subsurface_eq [OF u(1)] c by auto
    then have us: "surfaces u j = (if j = ?p \<and> alive w ?p then (surfaces w j)\<lparr>wl_children := removeAll c (wl_children (surfaces w j))\<rparr> else surfaces w j)"
      "subsurfaces u = subsurfaces w" if "j \<noteq> i" for j
      using that ip by (simp_all add: remove_child_surfaces)
    let ?t = "remove_child ?p c (on_surface i (\<lambda>s. s\<lparr>wl_role_of := Null_role, wl_subsurface_of := None\<rparr>) w)"
    have ts: "surfaces ?t j = (if j = i then (surfaces w i)\<lparr>wl_role_of := Null_role, wl_subsurface_of := None\<rparr>
        else if j = ?p \<and> alive w ?p then (surfaces w j)\<lparr>wl_children := removeAll c (wl_children (surfaces w j))\<rparr> else surfaces w j)" "subsurfaces ?t = subsurfaces w" for j
      using ip by (simp_all add: remove_child_surfaces)
    have "wl_inv C ?t"
    proof (rule destroy_subsurface_inv [OF inv Sub_role])
      fix j show "surfaces ?t j = (let s = if j = i then (surfaces w i)\<lparr>wl_role_of := Null_role, wl_subsurface_of := None\<rparr> else surfaces w j
          in if j = ?p \<and> alive w j then s\<lparr>wl_children := removeAll c (wl_children s)\<rparr> else s)"
        unfolding ts(1) Let_def using ip by (cases "j = i"; cases "j = ?p") simp_all
    qed (rule ts(2))
    moreover have "wl_role_of (surfaces ?t i) = Null_role" unfolding ts(1) by simp
    moreover have "subsurfaces v = subsurfaces ?t" using us(2) [OF ip] by (simp add: u(2) ts(2))
    moreover have "surfaces v j = surfaces ?t j" if "j \<noteq> i" for j using that us(1) [OF that] by (simp add: u(2) ts(1))
    moreover have "surfaces v i = make_wl_surface\<lparr>wl_destroyed := True\<rparr>" by (simp add: u(2))
    ultimately show ?thesis by (intro blank_surface_inv [of C ?t i v]) simp_all
  qed
qed

lemma create_scene_surface_links: "create_scene_surface granted i w = Some (ret () v) \<Longrightarrow> surfaces v = surfaces w \<and> subsurfaces v = subsurfaces w"
  by (auto simp: create_scene_surface_def Let_def split: if_splits bind_splits)

lemma modify_scene_surface_links: "modify_scene_surface i sz b w = Some (ret () v) \<Longrightarrow> surfaces v = surfaces w \<and> subsurfaces v = subsurfaces w"
  by (auto simp: modify_scene_surface_def Let_def split: if_splits bind_splits option.splits)

lemma same_surfaces_links: "surfaces v = surfaces w \<and> subsurfaces v = subsurfaces w \<Longrightarrow> same_links w v"
  by (simp add: same_links_def)

text \<open>What a window's commit consists of, after the commit of the surface.\<close>

lemma window_commit_steps:
  assumes "window_commit size_of granted i state w = Some (ret () v)"
  obtains state' w1 sz w2 where "surface_commit size_of i state w = Some (ret state' w1)" "quiet w w1" "sz = pending_size (windows w1 i) (wl_buffer_size (surfaces w1 i))"
    "update_scene granted i sz (surface_data_needs_refresh state') (note_calls [Latest_client_size i sz] w1) = Some (ret () w2)" "v = on_window i (finish_commit sz) w2"
proof -
  from assms obtain state' w1 w2 where r: "surface_commit size_of i state w = Some (ret state' w1)"
    "update_scene granted i (pending_size (windows w1 i) (wl_buffer_size (surfaces w1 i))) (surface_data_needs_refresh state')
       (note_calls [Latest_client_size i (pending_size (windows w1 i) (wl_buffer_size (surfaces w1 i)))] w1) = Some (ret () w2)"
    "v = on_window i (finish_commit (pending_size (windows w1 i) (wl_buffer_size (surfaces w1 i)))) w2"
    unfolding window_commit_def go_on_ret_iff Let_def by auto
  have "quiet w w1" using surface_commit_quiet [OF r(1)] by auto
  with r show thesis by (intro that [OF r(1) _ refl]) 
qed

lemma update_scene_links: "update_scene granted i sz b w = Some (ret () v) \<Longrightarrow> surfaces v = surfaces w \<and> subsurfaces v = subsurfaces w"
  using create_scene_surface_links modify_scene_surface_links by (fastforce simp: update_scene_def split: if_splits)

lemma commit_links:
  assumes "commit size_of granted i w = Some (ret () v)"
  shows "same_links w v"
proof -
  let ?w1 = "on_surface i (\<lambda>s. s\<lparr>wl_pending := empty_state\<rparr>) w" and ?state = "take_pending (surfaces w i)"
  have q: "same_links w ?w1" using quiet_steps(7) [of w i "\<lambda>_. empty_state"] by (simp add: quiet_def)
  show ?thesis
  proof (cases "wl_role_of (surfaces w i)")
    case Null_role
    then obtain s' where "surface_commit size_of i ?state ?w1 = Some (ret s' v)" using assms by (auto simp: commit_def Let_def go_on_ret_iff)
    from surface_commit_quiet [OF this] show ?thesis using wl_links_trans [OF q] by (auto simp: quiet_def)
  next
    case (Sub_role c)
    then have "subsurface_commit size_of c ?state ?w1 = Some (ret () v)" using assms by (simp add: commit_def Let_def)
    from subsurface_commit_quiet [OF this] show ?thesis using wl_links_trans [OF q] by (auto simp: quiet_def)
  next
    case Window_role
    then have "window_commit size_of granted i ?state ?w1 = Some (ret () v)" using assms by (simp add: commit_def Let_def)
    then obtain state' w1 sz w2 where "surface_commit size_of i ?state ?w1 = Some (ret state' w1)" and a: "quiet ?w1 w1" and "sz = pending_size (windows w1 i) (wl_buffer_size (surfaces w1 i))"
      and b: "update_scene granted i sz (surface_data_needs_refresh state') (note_calls [Latest_client_size i sz] w1) = Some (ret () w2)" "v = on_window i (finish_commit sz) w2"
      by (rule window_commit_steps)
    have "same_links w1 v" using update_scene_links [OF b(1)] by (intro same_surfaces_links) (simp add: b(2))
    then show ?thesis using wl_links_trans [OF q] wl_links_trans a unfolding quiet_def by blast
  qed
qed

end
