(* ===== verification/Wayland_Runs.thy ===== *)
theory Wayland_Runs
  imports Wayland_Window
begin

text \<open>
  What holds in every run of requests on Wayland surfaces: the sub-surfaces form trees, the shell knows of every window what the role has committed, commits
  return, they apply to the surfaces that go along, and input goes by the streams and the input shape that the shell has been told of.
\<close>

section \<open>The window in every run\<close>

text \<open>Sizes are not among the changes that wait: they are given when they are committed.\<close>

definition no_size_waits :: "wl_window \<Rightarrow> bool" where
  "no_size_waits x \<longleftrightarrow> (\<forall>s. pending_changes x = Some s \<longrightarrow> ss_width s = None \<and> ss_height s = None)"

text \<open>What the shell knows of a window is what the role has committed.\<close>

definition win_ok :: "'b wl_world \<Rightarrow> nat \<Rightarrow> bool" where
  "win_ok w i \<longleftrightarrow> (let x = windows w i in
     if win_scene x
     then is_window w i \<and> (\<exists>v. shell_knows w i = Some v \<and> known_min v = committed_min_size x \<and> known_max v = committed_max_size x \<and>
            (\<forall>z. committed_size x = Some z \<longrightarrow> known_size v = z)) \<and>
          no_size_waits x
     else is_window w i \<longrightarrow> committed_min_size x = Size 0 0 \<and> committed_max_size x = max_possible_size \<and> committed_size x = None \<and> pending_changes x = None)"

lemma win_ok_cong:
  "(is_window v i \<longleftrightarrow> is_window w i) \<Longrightarrow> windows v i = windows w i \<Longrightarrow> shell_knows v i = shell_knows w i \<Longrightarrow> win_ok v i = win_ok w i"
  by (simp add: win_ok_def)

lemma win_ok_noted: "see j c (shell_knows w j) = shell_knows w j \<Longrightarrow> win_ok (note_calls [c] w) j = win_ok w j"
  by (rule win_ok_cong) simp_all

lemma win_ok_quiet: "quiet w v \<Longrightarrow> win_ok v i = win_ok w i"
  by (rule win_ok_cong) (simp_all add: quiet_def same_links_def)

text \<open>Changes of what waits for the next commit.\<close>

definition only_waits :: "(wl_window \<Rightarrow> wl_window) \<Rightarrow> bool" where
  "only_waits f \<longleftrightarrow> (\<forall>x. win_scene (f x) = win_scene x \<and> committed_min_size (f x) = committed_min_size x \<and> committed_max_size (f x) = committed_max_size x \<and>
     committed_size (f x) = committed_size x \<and> (\<not> win_scene x \<longrightarrow> pending_changes (f x) = pending_changes x) \<and>
     (no_size_waits x \<longrightarrow> no_size_waits (f x)))"

lemma only_waits_ok:
  assumes "only_waits f" "win_ok w j"
  shows "win_ok (on_window i f w) j"
proof (cases "j = i")
  case False
  then show ?thesis using assms(2) by (subst win_ok_cong [where w = w]) simp_all
next
  case True
  let ?x = "windows w i"
  have f: "win_scene (f ?x) = win_scene ?x" "committed_min_size (f ?x) = committed_min_size ?x" "committed_max_size (f ?x) = committed_max_size ?x"
    "committed_size (f ?x) = committed_size ?x" "\<not> win_scene ?x \<Longrightarrow> pending_changes (f ?x) = pending_changes ?x"
    "no_size_waits ?x \<Longrightarrow> no_size_waits (f ?x)" using assms(1) unfolding only_waits_def by blast+
  then show ?thesis using assms(2) True by (cases "win_scene ?x") (simp_all add: win_ok_def Let_def)
qed

lemma only_waits_change:
  assumes "\<And>s. ss_width s = None \<and> ss_height s = None \<Longrightarrow> ss_width (f s) = None \<and> ss_height (f s) = None"
  shows "only_waits (\<lambda>x. if win_scene x then change_spec f x else change_params g x)"
    "only_waits (\<lambda>x. if win_scene x then change_spec f x else x)"
proof -
  have w: "ss_width (f (waiting_spec x)) = None \<and> ss_height (f (waiting_spec x)) = None"
    if "no_size_waits x" for x
  proof (rule assms)
    show "ss_width (waiting_spec x) = None \<and> ss_height (waiting_spec x) = None"
      using that by (cases "pending_changes x") (simp_all add: no_size_waits_def waiting_spec_def empty_spec_def)
  qed
  have s: "no_size_waits x \<Longrightarrow> no_size_waits (change_spec f x)" "no_size_waits (change_params g x) = no_size_waits x" "win_scene (change_spec f x) = win_scene x" "win_scene (change_params g x) = win_scene x"
    "committed_size (change_spec f x) = committed_size x" "committed_min_size (change_spec f x) = committed_min_size x" "committed_max_size (change_spec f x) = committed_max_size x"
    "committed_size (change_params g x) = committed_size x" "committed_min_size (change_params g x) = committed_min_size x" "committed_max_size (change_params g x) = committed_max_size x"
    "pending_changes (change_params g x) = pending_changes x" for x
    using w [of x] by (simp_all add: change_spec_def change_params_def no_size_waits_def)
  show "only_waits (\<lambda>x. if win_scene x then change_spec f x else change_params g x)" "only_waits (\<lambda>x. if win_scene x then change_spec f x else x)"
    unfolding only_waits_def by (simp_all add: s)
qed

lemma window_request_ok:
  assumes "window_request i w v" "\<forall>j. win_ok w j"
  shows "win_ok v j \<and> same_links w v"
  using assms
proof (induction rule: window_request.induct)
  case (spec w i s)
  let ?w1 = "on_window i (\<lambda>x. x\<lparr>pending_explicit_width := overwrite (pending_explicit_width x) (ss_width s), pending_explicit_height := overwrite (pending_explicit_height x) (ss_height s)\<rparr>) w"
  have w1: "win_ok ?w1 j" for j using spec by (intro only_waits_ok) (auto simp: only_waits_def no_size_waits_def)
  show ?case
  proof (cases "win_scene (windows w i)")
    case True
    have "only_waits (\<lambda>x. if win_scene x then change_spec (\<lambda>t. update_from t s) x else change_params (\<lambda>p. params_update_from p s) x)"
      using spec(1) [OF True] by (intro only_waits_change) (simp add: update_from_def)
    then show ?thesis using w1 by (simp add: apply_spec_def change_window_def only_waits_ok same_links_def)
  next
    case False
    then have "apply_spec i s w = on_window i (change_params (\<lambda>p. params_update_from p s)) ?w1" by (simp add: apply_spec_def change_window_def on_window_def)
    moreover have "only_waits (change_params (\<lambda>p. params_update_from p s))" by (auto simp: only_waits_def change_params_def no_size_waits_def)
    ultimately show ?thesis using w1 by (simp add: only_waits_ok same_links_def)
  qed
next
  case (wd i w n)
  then show ?case by (auto simp: set_pending_width_def only_waits_def no_size_waits_def intro!: only_waits_ok)
next
  case (ht i w n)
  then show ?case by (auto simp: set_pending_height_def only_waits_def no_size_waits_def intro!: only_waits_ok)
next
  case (title i w str)
  then show ?case unfolding set_title_def change_window_def by (auto intro!: only_waits_ok only_waits_change)
next
  case (app i w str)
  then show ?case unfolding set_window_application_id_def change_window_def by (auto intro!: only_waits_ok only_waits_change)
next
  case (move i w)
  then show ?case by (simp add: initiate_interactive_move_def win_ok_noted)
next
  case (resize i w edge)
  then show ?case by (simp add: initiate_interactive_resize_def win_ok_noted)
next
  case (parent i w p)
  then show ?case unfolding set_window_parent_def change_window_def by (auto intro!: only_waits_ok only_waits_change split: option.split)
next
  case (maximum i w x y)
  then show ?case unfolding set_max_size_def change_window_def by (auto intro!: only_waits_ok only_waits_change)
next
  case (minimum i w x y)
  then show ?case unfolding set_min_size_def change_window_def by (auto intro!: only_waits_ok only_waits_change)
next
  case (decorated i w b)
  then show ?case unfolding set_server_side_decorated_def by (auto simp: only_waits_def change_params_def no_size_waits_def intro!: only_waits_ok)
qed

lemma create_scene_surface_eq:
  fixes w :: "'a wl_world"
  assumes "create_scene_surface granted i w = Some (ret () v)" "\<not> win_scene (windows w i)"
  obtains params where "cp_size params = pending_size (windows w i) (wl_buffer_size (surfaces w i))" "windows v = windows (on_window i (adopt_params params) w)"
    "surfaces v = surfaces w" "\<And>j. shell_knows v j = see j (Shell_create_surface i params :: 'a wl_call) (shell_knows w j)"
proof -
  obtain streams shapes where d: "surface_data w i = Some (streams, shapes)" using assms by (auto simp: create_scene_surface_def split: bind_splits)
  let ?p = "(win_params (windows w i))\<lparr>cp_size := pending_size (windows w i) (wl_buffer_size (surfaces w i)), cp_streams := Some streams, cp_input_shape := Some shapes\<rparr>"
  have v: "v = (if granted ?p \<noteq> cp_size ?p then note_calls [Content_resized i (granted ?p)] (on_window i (adopt_params ?p) (note_calls [Shell_create_surface i ?p] w))
      else on_window i (adopt_params ?p) (note_calls [Shell_create_surface i ?p] w))"
    using assms(1) unfolding create_scene_surface_def d if_not_P [OF assms(2)] Let_def by simp
  show thesis by (rule that [of ?p]) (simp_all add: v)
qed

lemma create_scene_surface_ok:
  fixes w :: "'a wl_world"
  assumes "create_scene_surface granted i w = Some (ret () v)" "is_window w i" "\<forall>j. win_ok w j" "\<not> win_scene (windows w i)"
    and "f = id \<or> f = finish_commit (pending_size (windows w i) (wl_buffer_size (surfaces w i)))"
  shows "win_ok (on_window i f v) j"
proof -
  let ?x = "windows w i"
  have x: "committed_min_size ?x = Size 0 0" "committed_max_size ?x = max_possible_size" "committed_size ?x = None" "pending_changes ?x = None"
    using assms(2,3,4) unfolding win_ok_def Let_def by metis+
  obtain params where p: "cp_size params = pending_size (windows w i) (wl_buffer_size (surfaces w i))" "windows v = windows (on_window i (adopt_params params) w)"
    "surfaces v = surfaces w" "\<And>j. shell_knows v j = see j (Shell_create_surface i params :: 'a wl_call) (shell_knows w j)"
    using create_scene_surface_eq [OF assms(1,4)] by blast
  show ?thesis
  proof (cases "j = i")
    case True
    let ?y = "f (adopt_params params ?x)"
    have w: "windows (on_window i f v) i = ?y" using p(2) by simp
    have f: "win_scene (f x) = win_scene x" "pending_changes (f x) = pending_changes x" "committed_min_size (f x) = committed_min_size x"
      "committed_max_size (f x) = committed_max_size x" "committed_size (f x) = committed_size x \<or> committed_size (f x) = Some (cp_size params)" for x
      using assms(5) p(1) by (auto simp: finish_commit_def)
    have z: "committed_size ?y = None \<or> committed_size ?y = Some (cp_size params)"
      using f(5) [of "adopt_params params ?x"] unfolding adopt_params_def by (simp add: x)
    have y: "win_scene ?y" "no_size_waits ?y"
      "committed_min_size ?y = Size (or_keep (cp_min_width params) 0) (or_keep (cp_min_height params) 0)"
      "committed_max_size ?y = Size (or_keep (cp_max_width params) int_max) (or_keep (cp_max_height params) int_max)"
      by (simp_all add: x f(1-4) no_size_waits_def adopt_params_def max_possible_size_def split: option.split)
    show ?thesis unfolding True win_ok_def Let_def w using assms(2) p(3) y z by (auto simp: p(4))
  next
    case False
    then show ?thesis using assms(3) p by (subst win_ok_cong [where w = w]) simp_all
  qed
qed

lemma settle_limits_committed:
  assumes "pending_changes x = Some s"
  shows "\<exists>s'. pending_changes (settle_limits x) = Some s' \<and> ss_width s' = ss_width s \<and> ss_height s' = ss_height s \<and>
    committed_min_size (settle_limits x) = Size (or_keep (ss_min_width s') (width (committed_min_size x))) (or_keep (ss_min_height s') (height (committed_min_size x))) \<and>
    committed_max_size (settle_limits x) = Size (or_keep (ss_max_width s') (width (committed_max_size x))) (or_keep (ss_max_height s') (height (committed_max_size x))) \<and>
    win_scene (settle_limits x) = win_scene x \<and> committed_size (settle_limits x) = committed_size x"
  using assms by (auto simp: settle_limits_def clear_pending_if_unchanged_def Let_def split: option.splits if_splits)

lemma empty_spec_view: "spec_is_empty s \<Longrightarrow> see i (Shell_modify_surface j s) v = v"
  by (cases v) (auto simp: spec_is_empty_def)


lemma populated_spec:
  "populate_spec_with_surface_data w i s = Some s' \<Longrightarrow> ss_width s' = ss_width s \<and> ss_height s' = ss_height s"
  by (auto simp: populate_spec_with_surface_data_def split: bind_splits)

lemma modify_scene_surface_eq:
  fixes w :: "'a wl_world"
  assumes "modify_scene_surface i sz b w = Some (ret () v)" "no_size_waits (windows w i)"
  obtains x where "win_scene x = win_scene (windows w i)" "committed_min_size x = committed_min_size (windows w i)" "committed_max_size x = committed_max_size (windows w i)"
    "\<And>s. pending_changes x = Some s \<Longrightarrow> if committed_size (windows w i) = Some sz then ss_width s = None \<and> ss_height s = None else ss_width s = Some (width sz) \<and> ss_height s = Some (height sz)"
    "committed_size (windows w i) \<noteq> Some sz \<Longrightarrow> pending_changes x \<noteq> None" "windows v = (windows w)(i := (settle_limits x)\<lparr>pending_changes := None\<rparr>)" "surfaces v = surfaces w"
    "\<And>j. shell_knows v j = (case pending_changes (settle_limits x) of None \<Rightarrow> shell_knows w j | Some s \<Rightarrow> see j (Shell_modify_surface i s :: 'a wl_call) (shell_knows w j))"
proof -
  let ?x = "windows w i"
  define x1 where "x1 = (if committed_size ?x \<noteq> Some sz then change_spec (\<lambda>s. s\<lparr>ss_width := Some (width sz), ss_height := Some (height sz)\<rparr>) ?x else ?x)"
  define w1 where "w1 = on_window i (\<lambda>_. x1) w"
  have w1: "(if committed_size ?x \<noteq> Some sz then on_window i (change_spec (\<lambda>s. s\<lparr>ss_width := Some (width sz), ss_height := Some (height sz)\<rparr>)) w else w) = w1"
    by (simp add: w1_def x1_def on_window_def)
  have ws: "ss_width (waiting_spec ?x) = None" "ss_height (waiting_spec ?x) = None"
    using assms(2) by (auto simp: waiting_spec_def no_size_waits_def empty_spec_def split: option.split)
  have sz: "if committed_size ?x = Some sz then ss_width s = None \<and> ss_height s = None else ss_width s = Some (width sz) \<and> ss_height s = Some (height sz)"
    if "s = waiting_spec x1" for s using that ws by (simp add: x1_def waiting_spec_def change_spec_def)
  obtain x where x: "win_scene x = win_scene x1" "committed_min_size x = committed_min_size x1" "committed_max_size x = committed_max_size x1"
      "\<And>s. pending_changes x = Some s \<Longrightarrow> ss_width s = ss_width (waiting_spec x1) \<and> ss_height s = ss_height (waiting_spec x1)"
      "pending_changes x1 \<noteq> None \<Longrightarrow> pending_changes x \<noteq> None"
      "(if b then map_option (\<lambda>s. on_window i (change_spec (\<lambda>_. s)) w1) (populate_spec_with_surface_data w1 i (waiting_spec (windows w1 i))) else Some w1) = Some (on_window i (\<lambda>_. x) w)"
  proof (cases b)
    case True
    then obtain s where s: "populate_spec_with_surface_data w1 i (waiting_spec (windows w1 i)) = Some s"
      using assms(1) unfolding modify_scene_surface_def Let_def w1 by (auto split: bind_splits)
    show thesis
      by (rule that [of "change_spec (\<lambda>_. s) x1"]) (use populated_spec [OF s] True s in \<open>simp_all add: w1_def change_spec_def on_window_def\<close>)
  next
    case False
    show thesis by (rule that [of x1]) (use False in \<open>simp_all add: w1_def waiting_spec_def\<close>)
  qed
  have v: "v = on_window i (\<lambda>x. x\<lparr>pending_changes := None\<rparr>) (case pending_changes (settle_limits x) of
      Some s \<Rightarrow> if \<not> spec_is_empty s then note_calls [Shell_modify_surface i s] (on_window i settle_limits (on_window i (\<lambda>_. x) w)) else on_window i settle_limits (on_window i (\<lambda>_. x) w)
    | None \<Rightarrow> on_window i settle_limits (on_window i (\<lambda>_. x) w))"
    using assms(1) unfolding modify_scene_surface_def Let_def w1 x(6) by simp
  show thesis
  proof (rule that [of x])
    show "shell_knows v j = (case pending_changes (settle_limits x) of None \<Rightarrow> shell_knows w j | Some s \<Rightarrow> see j (Shell_modify_surface i s :: 'a wl_call) (shell_knows w j))" for j
    proof -
      have "see j (Shell_modify_surface i s :: 'a wl_call) (shell_knows w j) = shell_knows w j" if "spec_is_empty s" for s by (rule empty_spec_view [OF that])
      then show ?thesis by (simp add: v del: see.simps split: option.split)
    qed
    show "windows v = (windows w)(i := (settle_limits x)\<lparr>pending_changes := None\<rparr>)" "surfaces v = surfaces w"
      by (simp_all add: v fun_eq_iff split: option.split)
    show "if committed_size ?x = Some sz then ss_width s = None \<and> ss_height s = None else ss_width s = Some (width sz) \<and> ss_height s = Some (height sz)"
      if "pending_changes x = Some s" for s using x(4) [OF that] sz [OF refl] by simp
    show "pending_changes x \<noteq> None" if "committed_size ?x \<noteq> Some sz"
      using that by (intro x(5)) (simp add: x1_def change_spec_def)
  qed (simp_all add: x(1-3) x1_def change_spec_def)
qed

lemma extent_exhaust: "Size (width s) (height s) = s"
  by (cases s) simp

lemma modify_scene_surface_ok:
  fixes w :: "'a wl_world"
  assumes "modify_scene_surface i sz b w = Some (ret () v)" "is_window w i" "\<forall>j. win_ok w j" "win_scene (windows w i)"
  shows "win_ok (on_window i (finish_commit sz) v) j"
proof -
  let ?x = "windows w i"
  obtain known where k: "shell_knows w i = Some known" "known_min known = committed_min_size ?x" "known_max known = committed_max_size ?x"
      "\<And>z. committed_size ?x = Some z \<Longrightarrow> known_size known = z" and n: "no_size_waits ?x"
    using assms(3,4) unfolding win_ok_def Let_def by (metis (no_types, lifting))
  obtain x where x: "win_scene x = win_scene ?x" "committed_min_size x = committed_min_size ?x" "committed_max_size x = committed_max_size ?x"
    "\<And>s. pending_changes x = Some s \<Longrightarrow> if committed_size ?x = Some sz then ss_width s = None \<and> ss_height s = None else ss_width s = Some (width sz) \<and> ss_height s = Some (height sz)"
    "committed_size ?x \<noteq> Some sz \<Longrightarrow> pending_changes x \<noteq> None" and v: "windows v = (windows w)(i := (settle_limits x)\<lparr>pending_changes := None\<rparr>)" "surfaces v = surfaces w"
    "\<And>j. shell_knows v j = (case pending_changes (settle_limits x) of None \<Rightarrow> shell_knows w j | Some s \<Rightarrow> see j (Shell_modify_surface i s :: 'a wl_call) (shell_knows w j))"
    using modify_scene_surface_eq [OF assms(1) n] by metis
  show ?thesis
  proof (cases "j = i")
    case True
    have f: "win_scene (finish_commit sz y) = win_scene y" "pending_changes (finish_commit sz y) = pending_changes y" "committed_min_size (finish_commit sz y) = committed_min_size y"
      "committed_max_size (finish_commit sz y) = committed_max_size y" "committed_size (finish_commit sz y) = Some sz" for y
      by (simp_all add: finish_commit_def)
    have w: "windows (on_window i (finish_commit sz) v) i = finish_commit sz ((settle_limits x)\<lparr>pending_changes := None\<rparr>)" using v(1) by simp
    have "win_scene (settle_limits x) \<and> (\<exists>known'. shell_knows v i = Some known' \<and> known_min known' = committed_min_size (settle_limits x) \<and>
        known_max known' = committed_max_size (settle_limits x) \<and> known_size known' = sz)"
    proof (cases "pending_changes x")
      case None
      then show ?thesis using k x assms(4) by (auto simp: v(3) settle_limits_def)
    next
      case (Some s)
      obtain s' where s': "pending_changes (settle_limits x) = Some s'" "ss_width s' = ss_width s" "ss_height s' = ss_height s"
          "committed_min_size (settle_limits x) = Size (or_keep (ss_min_width s') (width (committed_min_size x))) (or_keep (ss_min_height s') (height (committed_min_size x)))"
          "committed_max_size (settle_limits x) = Size (or_keep (ss_max_width s') (width (committed_max_size x))) (or_keep (ss_max_height s') (height (committed_max_size x)))"
          "win_scene (settle_limits x) = win_scene x"
        using settle_limits_committed [OF Some] by blast
      show ?thesis using x(4) [OF Some] k by (auto simp: v(3) s' x(1-3) assms(4) extent_exhaust split: if_splits option.split)
    qed
    then show ?thesis using assms(2) unfolding True win_ok_def Let_def w by (simp add: f v(2) no_size_waits_def)
  next
    case False
    then show ?thesis using assms(3) v by (subst win_ok_cong [where w = w]) (simp_all split: option.split)
  qed
qed

lemma finish_other:
  assumes "win_ok v j" "j \<noteq> i"
  shows "win_ok (on_window i f v) j"
  using assms by (subst win_ok_cong [where w = v]) simp_all

lemma window_commit_ok:
  assumes "window_commit size_of granted i state w = Some (ret () v)" "is_window w i" "\<forall>j. win_ok w j"
  shows "win_ok v j"
proof -
  obtain state' w1 sz w2 where c: "surface_commit size_of i state w = Some (ret state' w1)" "quiet w w1" "sz = pending_size (windows w1 i) (wl_buffer_size (surfaces w1 i))"
    "update_scene granted i sz (surface_data_needs_refresh state') (note_calls [Latest_client_size i sz] w1) = Some (ret () w2)" "v = on_window i (finish_commit sz) w2"
    by (rule window_commit_steps [OF assms(1)])
  let ?w = "note_calls [Latest_client_size i sz] w1"
  have ok: "\<forall>j. win_ok ?w j" using assms(3) win_ok_quiet [OF c(2)] by (simp add: win_ok_noted)
  have win: "is_window ?w i" using assms(2) c(2) by (simp add: quiet_def same_links_def)
  show ?thesis
  proof (cases "win_scene (windows ?w i)")
    case True
    then show ?thesis using modify_scene_surface_ok [OF _ win ok True] c(4) unfolding c(5) update_scene_def by simp
  next
    case False
    then have "create_scene_surface granted i ?w = Some (ret () w2)" using c(4) by (simp add: update_scene_def)
    from create_scene_surface_ok [OF this win ok False] show ?thesis unfolding c(5) by (simp add: c(3))
  qed
qed

lemma commit_ok:
  assumes "commit size_of granted i w = Some (ret () v)" "\<forall>j. win_ok w j"
  shows "win_ok v j"
proof -
  let ?w1 = "on_surface i (\<lambda>s. s\<lparr>wl_pending := empty_state\<rparr>) w" and ?state = "take_pending (surfaces w i)"
  have ok: "\<forall>j. win_ok ?w1 j" using assms(2) win_ok_quiet [OF quiet_steps(7) [of w i "\<lambda>_. empty_state"]] by simp
  show ?thesis
  proof (cases "wl_role_of (surfaces w i)")
    case Null_role
    then obtain s' where "surface_commit size_of i ?state ?w1 = Some (ret s' v)" using assms by (auto simp: commit_def Let_def go_on_ret_iff)
    from surface_commit_quiet [OF this] show ?thesis using ok win_ok_quiet by auto
  next
    case (Sub_role c)
    then have "subsurface_commit size_of c ?state ?w1 = Some (ret () v)" using assms by (simp add: commit_def Let_def)
    from subsurface_commit_quiet [OF this] show ?thesis using ok win_ok_quiet by auto
  next
    case Window_role
    then have "window_commit size_of granted i ?state ?w1 = Some (ret () v)" using assms by (simp add: commit_def Let_def)
    from window_commit_ok [OF this _ ok] show ?thesis using Window_role by simp
  qed
qed

lemma win_ok_roles:
  assumes "win_ok w j" "windows v j = windows w j" "shell_knows v j = shell_knows w j" "is_window w j \<Longrightarrow> is_window v j" "is_window v j \<Longrightarrow> is_window w j"
  shows "win_ok v j"
  using assms win_ok_cong [of v j w] by blast

lemma win_ok_no_window: "win_ok w j \<Longrightarrow> \<not> is_window w j \<Longrightarrow> \<not> win_scene (windows w j)"
  by (auto simp: win_ok_def Let_def)

lemma no_window_ok: "\<not> is_window v j \<Longrightarrow> \<not> win_scene (windows v j) \<Longrightarrow> win_ok v j"
  by (simp add: win_ok_def Let_def)

lemma make_window_ok:
  assumes "\<forall>j. win_ok w j"
  shows "win_ok (state_of (make_window i w)) j"
proof (cases "wl_role_of (surfaces w i) = Null_role")
  case True
  let ?v = "on_window i (\<lambda>_. make_wl_window) (on_surface i (\<lambda>s. s\<lparr>wl_role_of := Window_role\<rparr>) w)"
  have "state_of (make_window i w) = ?v" using True by (simp add: make_window_def set_role_def)
  moreover have "win_ok ?v j"
  proof (cases "j = i")
    case True
    then show ?thesis by (simp add: win_ok_def make_wl_window_def)
  next
    case False
    then show ?thesis by (intro win_ok_roles [OF assms [rule_format]]) auto
  qed
  ultimately show ?thesis by simp
qed (use assms in \<open>simp add: make_window_def set_role_def\<close>)

lemma destroy_window_ok:
  assumes "\<forall>j. win_ok w j"
  shows "win_ok (destroy_window i w) j \<and> windows (destroy_window i w) i = (windows w i)\<lparr>win_scene := False\<rparr>"
proof
  show "windows (destroy_window i w) i = (windows w i)\<lparr>win_scene := False\<rparr>" by (simp add: destroy_window_def Let_def clear_role_def)
  then show "win_ok (destroy_window i w) j"
  proof (cases "j = i")
    case True
    with \<open>windows (destroy_window i w) i = _\<close> show ?thesis by (intro no_window_ok) (simp_all add: destroy_window_def Let_def clear_role_def)
  next
    case False
    then show ?thesis by (intro win_ok_roles [OF assms [rule_format]]) (simp_all add: destroy_window_def Let_def clear_role_def split: if_splits)
  qed
qed

lemma destroy_subsurface_ok:
  assumes "destroy_subsurface c w = Some (ret () v)" "\<not> is_window w (sub_surface (subsurfaces w c))" "\<forall>j. win_ok w j"
  shows "win_ok v j"
proof -
  obtain cs where v: "v = remove_child (sub_parent (subsurfaces w c)) c (note_calls cs
      (on_surface (sub_surface (subsurfaces w c)) (\<lambda>s. s\<lparr>wl_role_of := Null_role, wl_subsurface_of := None\<rparr>) w))" "shell_knows v j = shell_knows w j"
    using destroy_subsurface_eq [OF assms(1)] by auto
  have "windows v = windows w" unfolding v(1) by (simp add: remove_child_surfaces)
  moreover have "is_window v j = is_window w j" unfolding v(1) using assms(2) by (simp add: remove_child_surfaces)
  ultimately show ?thesis by (intro win_ok_roles [OF assms(3) [rule_format]]) (simp_all add: v(2))
qed

lemma blank_ok:
  assumes "\<forall>j. win_ok w j" "\<not> win_scene (windows w i)"
  shows "win_ok (on_surface i (\<lambda>_. make_wl_surface\<lparr>wl_destroyed := True\<rparr>) (note_calls [Destroy_buffer_stream i] w)) j"
proof (cases "j = i")
  case True
  then show ?thesis using assms(2) by (intro no_window_ok) (simp_all add: make_wl_surface_def)
next
  case False
  then show ?thesis by (intro win_ok_roles [OF assms(1) [rule_format]]) simp_all
qed

lemma destroy_surface_ok:
  assumes inv: "wl_inv C w" and ok: "\<forall>j. win_ok w j" and "destroy_surface i w = Some (ret () v)"
  shows "win_ok v j"
proof -
  let ?w1 = "on_surface i (\<lambda>s. s\<lparr>wl_destroyed := True\<rparr>) w"
  have ok1: "\<forall>j. win_ok ?w1 j" by (intro allI win_ok_roles [OF ok [rule_format]]) (auto split: if_splits)
  obtain u where u: "v = on_surface i (\<lambda>_. make_wl_surface\<lparr>wl_destroyed := True\<rparr>) (note_calls [Destroy_buffer_stream i] u)"
    "(case wl_role_of (surfaces w i) of Null_role \<Rightarrow> u = ?w1 | Sub_role c \<Rightarrow> destroy_subsurface c ?w1 = Some (ret () u) | Window_role \<Rightarrow> u = destroy_window i ?w1)"
    using assms(3) by (auto simp: destroy_surface_def Let_def go_on_ret_iff split: wl_role.splits)
  have "(\<forall>j. win_ok u j) \<and> \<not> win_scene (windows u i)"
  proof (cases "wl_role_of (surfaces w i)")
    case Null_role
    then show ?thesis using u(2) ok1 win_ok_no_window [of w i] ok by simp
  next
    case Window_role
    then have "u = destroy_window i ?w1" using u(2) by simp
    then show ?thesis using destroy_window_ok [OF ok1, of i] by simp
  next
    case (Sub_role c)
    then have d: "destroy_subsurface c ?w1 = Some (ret () u)" using u(2) by simp
    have "sub_surface (subsurfaces w c) = i" by (rule wl_invD(4) [OF inv Sub_role])
    then have "\<forall>j. win_ok u j" using destroy_subsurface_ok [OF d _ ok1] Sub_role by simp
    moreover have "windows u = windows w" using destroy_subsurface_eq [OF d] by (auto simp: remove_child_surfaces)
    ultimately show ?thesis using win_ok_no_window [of w i] ok Sub_role by simp
  qed
  then show ?thesis unfolding u(1) using blank_ok by blast
qed

lemma get_subsurface_ok:
  assumes "\<forall>j. win_ok w j"
  shows "win_ok (state_of (get_subsurface c i p w)) j"
proof -
  let ?w1 = "on_surface p (\<lambda>s. s\<lparr>wl_children := wl_children s @ [c]\<rparr>) (on_subsurface c (\<lambda>_. \<lparr>sub_parent = p, sub_surface = i, sub_synchronized = True, cached_state = None\<rparr>) w)"
  have k: "shell_knows (pending_invalidate_surface_data i v) j = shell_knows v j" "windows (pending_invalidate_surface_data i v) = windows v"
    "is_window (pending_invalidate_surface_data i v) k = is_window v k" for v :: "'a wl_world" and k
    by (simp_all add: pending_invalidate_surface_data_def)
  show ?thesis
    by (intro win_ok_roles [OF assms [rule_format]]) (auto simp: get_subsurface_def set_role_def add_child_def remove_child_def Let_def k split: if_splits)
qed

lemma move_child_ok:
  assumes "\<forall>j. win_ok w j"
  shows "win_ok (move_child_above_sibling c sib w) j" "win_ok (move_child_below_sibling c sib w) j"
  by (intro win_ok_roles [OF assms [rule_format]]; auto simp: move_child_above_sibling_def move_child_below_sibling_def Let_def split: if_splits)+

lemma set_sync_ok:
  assumes "\<forall>j. win_ok w j"
  shows "win_ok (set_sync c b w) j"
  by (intro win_ok_roles [OF assms [rule_format]]) (simp_all add: set_sync_def)

lemma window_visibility_ok: "\<forall>j. win_ok w j \<Longrightarrow> win_ok (window_visibility v st i b w) j \<and> same_links w (window_visibility v st i b w)"
proof -
  assume ok: "\<forall>j. win_ok w j"
  have c: "win_ok (on_window i (change_spec f) w) j" if "win_scene (windows w i)" "\<And>s. ss_width (f s) = ss_width s \<and> ss_height (f s) = ss_height s" for f
  proof -
    have "on_window i (change_spec f) w = on_window i (\<lambda>x. if win_scene x then change_spec f x else x) w" using that(1) by (simp add: on_window_def)
    moreover have "win_ok (on_window i (\<lambda>x. if win_scene x then change_spec f x else x) w) j"
      by (rule only_waits_ok [OF only_waits_change(2)]) (use ok that(2) in simp_all)
    ultimately show ?thesis by simp
  qed
  show ?thesis using ok c by (simp add: window_visibility_def same_links_def)
qed

lemma attach_ok:
  assumes "\<forall>j. win_ok w j"
  shows "win_ok (attach v st i b w) j \<and> same_links w (attach v st i b w)"
proof -
  define u where "u = (case wl_role_of (surfaces w i) of Window_role \<Rightarrow> window_visibility v st i (b \<noteq> None) w | _ \<Rightarrow> w)"
  have u: "win_ok u j" "same_links w u" using window_visibility_ok [OF assms] assms by (simp_all add: u_def same_links_def split: wl_role.split)
  have a: "attach v st i b w = on_surface i (\<lambda>s. s\<lparr>wl_pending := (wl_pending s)\<lparr>st_buffer := Some b\<rparr>\<rparr>) u" by (simp add: attach_def u_def)
  have q: "quiet u (attach v st i b w)" unfolding a by (rule quiet_steps(7))
  then show ?thesis using u win_ok_quiet [OF q] wl_links_trans [OF u(2)] by (simp add: quiet_def)
qed

lemma create_now_ok:
  assumes "create_scene_surface granted i (on_window i (change_params f) w) = Some (ret () v)" "\<not> win_scene (windows w i)" "is_window w i" "\<forall>j. win_ok w j"
  shows "win_ok v j \<and> same_links w v"
proof
  let ?w = "on_window i (change_params f) w"
  have "only_waits (change_params f)" by (simp add: only_waits_def change_params_def no_size_waits_def)
  then have "\<forall>j. win_ok ?w j" using assms(4) only_waits_ok by blast
  then have "win_ok (on_window i id v) j" using assms(2,3) by (intro create_scene_surface_ok [OF assms(1)]) (simp_all add: change_params_def)
  moreover have "on_window i id v = v" by (simp add: on_window_def)
  ultimately show "win_ok v j" by simp
  show "same_links w v" using create_scene_surface_links [OF assms(1)] by (intro same_surfaces_links) simp
qed

lemma modify_now_ok:
  assumes "ss_width s = None" "ss_height s = None" "ss_min_width s = None" "ss_min_height s = None" "ss_max_width s = None" "ss_max_height s = None" "win_ok w j"
  shows "win_ok (note_calls [Shell_modify_surface i s] w) j"
proof (rule iffD2 [OF win_ok_noted])
  show "see j (Shell_modify_surface i s) (shell_knows w j) = shell_knows w j"
    using assms(1-6) by (cases "shell_knows w j") (simp_all add: extent_exhaust)
qed (rule assms(7))

lemma set_state_now_ok:
  assumes "set_state_now granted i st w = Some (ret () v)" "is_window w i" "\<forall>j. win_ok w j"
  shows "win_ok v j \<and> same_links w v"
  using assms create_now_ok [OF _ _ assms(2,3)] modify_now_ok [of "empty_spec\<lparr>ss_state := Some st\<rparr>" w j i]
  unfolding set_state_now_def by (cases "win_scene (windows w i)") (auto simp: empty_spec_def)

lemma set_fullscreen_ok:
  assumes "set_fullscreen granted i out_id w = Some (ret () v)" "is_window w i" "\<forall>j. win_ok w j"
  shows "win_ok v j \<and> same_links w v"
  using assms create_now_ok [OF _ _ assms(2,3)] modify_now_ok [of "empty_spec\<lparr>ss_state := Some State_fullscreen, ss_output_id := out_id\<rparr>" w j i]
  unfolding set_fullscreen_def by (cases "win_scene (windows w i)") (auto simp: empty_spec_def)

lemma start_ok: "wl_inv {} start_world \<and> win_ok start_world j"
proof -
  have "child_links (start_world :: 'a wl_world) = {}" by (simp add: child_links_def start_world_def make_wl_surface_def)
  then show ?thesis by (simp add: wl_inv_def wl_links_def wl_forest_def win_ok_def start_world_def make_wl_surface_def make_wl_window_def)
qed

lemma quiet_ok: "wl_inv C w \<and> (\<forall>j. win_ok w j) \<Longrightarrow> quiet w v \<Longrightarrow> wl_inv C v \<and> (\<forall>j. win_ok v j)"
  by (simp add: wl_inv_quiet win_ok_quiet)

lemma links_ok: "wl_inv C w \<Longrightarrow> same_links w v \<Longrightarrow> \<forall>j. win_ok v j \<Longrightarrow> wl_inv C v \<and> (\<forall>j. win_ok v j)"
  by (simp add: same_links_wl_inv)

lemma unsub_inv:
  assumes "wl_inv C w" "is_sub w c" "destroy_subsurface c w = Some (ret () v)"
  shows "wl_inv C v"
proof -
  let ?i = "sub_surface (subsurfaces w c)"
  obtain cs where v: "v = remove_child (sub_parent (subsurfaces w c)) c (note_calls cs (on_surface ?i (\<lambda>s. s\<lparr>wl_role_of := Null_role, wl_subsurface_of := None\<rparr>) w))"
    using destroy_subsurface_eq [OF assms(3)] by auto
  have "surfaces v j = (let s = (if j = ?i then (surfaces w ?i)\<lparr>wl_role_of := Null_role, wl_subsurface_of := None\<rparr> else surfaces w j)
      in if j = sub_parent (subsurfaces w c) \<and> alive w j then s\<lparr>wl_children := removeAll c (wl_children s)\<rparr> else s)" for j
    unfolding v remove_child_surfaces Let_def by auto
  moreover have "subsurfaces v = subsurfaces w" unfolding v remove_child_surfaces by simp
  ultimately show ?thesis by (rule destroy_subsurface_inv [OF assms(1,2)])
qed

lemma wl_run_ok: "wl_run size_of granted C w \<Longrightarrow> wl_inv C w \<and> (\<forall>j. win_ok w j)"
proof (induction rule: wl_run.induct)
  case start
  then show ?case using start_ok by blast
next
  case (subsurface C w c i p)
  then show ?case using get_subsurface_inv get_subsurface_ok by blast
next
  case (window C w i)
  then show ?case using window_role_inv(1) make_window_ok by blast
next
  case (unsub C w c w')
  then have "wl_inv C w'" "\<forall>j. win_ok w' j" using unsub_inv [OF _ unsub.hyps(2,3)] destroy_subsurface_ok [OF unsub.hyps(3)] by simp_all
  then show ?case by simp
next
  case (unwindow C w i)
  then show ?case using window_role_inv(2) destroy_window_ok by blast
next
  case (destroyed C w i w')
  then show ?case using destroy_surface_inv destroy_surface_ok by blast
next
  case (position C w c x y)
  then show ?case by (intro quiet_ok [OF _ quiet_steps(6)]) simp
next
  case (above C w c sib)
  then show ?case using move_child_inv(1) move_child_ok(1) by blast
next
  case (below C w c sib)
  then show ?case using move_child_inv(2) move_child_ok(2) by blast
next
  case (mode C w c b)
  then show ?case using set_sync_inv set_sync_ok by blast
next
  case (attached C w i v st b)
  then show ?case using attach_ok by (intro links_ok [of C w]) blast+
next
  case (framed C w i cb)
  then show ?case by (intro quiet_ok [OF _ quiet_steps(4)]) simp
next
  case (region C w i r)
  then show ?case by (intro quiet_ok [OF _ quiet_steps(5)]) simp
next
  case (offset C w i d)
  then show ?case by (intro quiet_ok [OF _ quiet_steps(3)]) simp
next
  case (committed C w i w')
  then show ?case using commit_ok commit_links by (intro links_ok [of C w]) blast+
next
  case (shown C w i)
  then show ?case by (intro quiet_ok [OF _ send_frame_callbacks_quiet]) simp
next
  case (requested C w i w')
  then show ?case using window_request_ok by (intro links_ok [of C w]) blast+
next
  case (state C w i st w')
  then show ?case using set_state_now_ok by (intro links_ok [of C w]) blast+
next
  case (fullscreen C w i out_id w')
  then show ?case using set_fullscreen_ok by (intro links_ok [of C w]) blast+
qed

section \<open>Two small runs\<close>

text \<open>Runs to try the theorems on: a surface with a synchronised sub-surface that has committed a buffer, and a window with a width to commit.  A buffer is its size.\<close>

definition square :: "nat \<Rightarrow> extent" where
  "square b = Size (int b) (int b)"

definition tree_world :: "nat wl_world" where
  "tree_world = attach True State_restored 3 (Some 5) (state_of (get_subsurface 4 3 2 start_world))"

definition waiting_world :: "nat wl_world" where
  "waiting_world = (case commit square cp_size 3 tree_world of Some r \<Rightarrow> state_of r | None \<Rightarrow> tree_world)"

definition window_world :: "nat wl_world" where
  "window_world = set_pending_width 0 (Some 7) (state_of (make_window 0 start_world))"

lemmas world_defs = start_world_def make_wl_surface_def empty_state_def get_subsurface_def add_child_def set_role_def
  pending_invalidate_surface_data_def on_surface_def on_subsurface_def on_window_def

lemma tree_world_run: "wl_run square cp_size {4} tree_world"
proof -
  have "child_links (start_world :: nat wl_world) = {}" by (simp add: child_links_def start_world_def make_wl_surface_def)
  then have "wl_run square cp_size (insert 4 {}) (state_of (get_subsurface 4 3 2 (start_world :: nat wl_world)))"
    by (intro wl_run.subsurface wl_run.start) (simp_all add: start_world_def make_wl_surface_def)
  then show ?thesis unfolding tree_world_def by (intro wl_run.attached) (simp_all add: world_defs Let_def)
qed

lemma tree_world_surfaces:
  "wl_role_of (surfaces tree_world 3) = Sub_role 4" "alive tree_world 3" "sub_synchronized (subsurfaces tree_world 4)" "sub_surface (subsurfaces tree_world 4) = 3"
  "alive tree_world 2" "wl_role_of (surfaces tree_world 2) = Null_role" "wl_children (surfaces tree_world 2) = [4]"
  "st_buffer (take_pending (surfaces tree_world 3)) = Some (Some 5)"
  by (simp_all add: tree_world_def attach_def take_pending_def world_defs Let_def)

lemma synchronised_commit:
  assumes "wl_role_of (surfaces w i) = Sub_role c" "sub_synchronized (subsurfaces w c)"
  shows "\<exists>v cached. commit size_of granted i w = Some (ret () v) \<and> cached_state (subsurfaces v c) =
    Some (state_update_from cached (take_pending (surfaces w i)))"
proof -
  define w1 where "w1 = on_surface i (\<lambda>s. s\<lparr>wl_pending := empty_state\<rparr>) w"
  define cached where "cached = state_update_from (case cached_state (subsurfaces w1 c) of Some s \<Rightarrow> s | None \<Rightarrow> empty_state) (take_pending (surfaces w i))"
  define w2 where "w2 = on_subsurface c (\<lambda>s. s\<lparr>cached_state := Some cached\<rparr>) w1"
  have w2: "cached_state (subsurfaces w2 c) = Some cached" "sub_synchronized (subsurfaces w2 c)"
    using assms(2) by (simp_all add: w2_def w1_def on_subsurface_def)
  have c: "commit size_of granted i w = subsurface_commit size_of c (take_pending (surfaces w i)) w1" using assms(1) by (simp add: commit_def Let_def w1_def)
  obtain b where "subsurface_commit size_of c (take_pending (surfaces w i)) w1 =
      Some (ret () (if b then pending_invalidate_surface_data (sub_parent (subsurfaces w2 c)) w2 else w2))"
    unfolding subsurface_commit_def cached_def [symmetric] w2_def [symmetric] Let_def subsurface_synchronized_def if_P [OF w2(2)] by simp
  moreover have "cached_state (subsurfaces (if b then pending_invalidate_surface_data p w2 else w2) c) = Some cached" for p
    using w2(1) by (simp add: pending_invalidate_surface_data_def)
  ultimately show ?thesis unfolding c cached_def by blast
qed

lemma waiting_world_step:
  "commit square cp_size 3 tree_world = Some (ret () waiting_world)"
  "\<exists>cached. cached_state (subsurfaces waiting_world 4) = Some (state_update_from cached (take_pending (surfaces tree_world 3)))"
  using synchronised_commit [OF tree_world_surfaces(1,3), of square cp_size] by (auto simp: waiting_world_def)

lemma waiting_world_surfaces:
  "wl_role_of (surfaces waiting_world 3) = Sub_role 4" "sub_synchronized (subsurfaces waiting_world 4)" "sub_surface (subsurfaces waiting_world 4) = 3"
  "alive waiting_world 2" "wl_role_of (surfaces waiting_world 2) = Null_role" "wl_children (surfaces waiting_world 2) = [4]"
  using commit_links [OF waiting_world_step(1)] tree_world_surfaces by (simp_all add: same_links_def)

lemma waiting_world_run: "wl_run square cp_size {4} waiting_world"
  by (rule wl_run.committed [OF tree_world_run tree_world_surfaces(2) waiting_world_step(1)])

lemma window_world_run: "wl_run square cp_size {} window_world"
proof -
  have "wl_run square cp_size {} (state_of (make_window 0 (start_world :: nat wl_world)))"
    by (intro wl_run.window wl_run.start) (simp add: start_world_def make_wl_surface_def)
  moreover have "is_window (state_of (make_window 0 (start_world :: nat wl_world))) 0" by (simp add: make_window_def world_defs)
  ultimately show ?thesis unfolding window_world_def by (rule wl_run.requested [OF _ _ window_request.wd])
qed

section \<open>Walking up the tree\<close>

lemma run_finite: "wl_run size_of granted C w \<Longrightarrow> finite C"
  by (induction rule: wl_run.induct) simp_all

lemma climb_induct:
  assumes inv: "wl_inv C w" "finite C" and step: "\<And>i. (\<And>p. (i, p) \<in> child_links w \<Longrightarrow> P p) \<Longrightarrow> P i"
  shows "P i"
proof -
  have "child_links w \<subseteq> (\<lambda>c. (sub_surface (subsurfaces w c), sub_parent (subsurfaces w c))) ` C"
    using links_child(1) [OF wl_invD(1) [OF inv(1)]] wl_invD(6) [OF inv(1)] by (fastforce simp: child_links_def)
  then have "finite (child_links w)" using inv(2) finite_subset by blast
  then have "wf ((child_links w)\<inverse>)"
    using wl_invD(2) [OF inv(1)] by (simp add: finite_acyclic_wf_converse wf_acyclic wl_forest_def)
  then show ?thesis by (induction i rule: wf_induct_rule) (use step in blast)
qed

lemma refresh_window_returns: "wl_forest w \<Longrightarrow> \<exists>v. refresh_window i w = Some (ret () v)"
  by (rule surface_data_tree [of w i]) (auto simp: refresh_window_def populate_spec_with_surface_data_def)

lemma refresh_returns:
  assumes inv: "wl_inv C w" "finite C"
  shows "\<exists>v. refresh_surface_data_now i w = Some (ret () v)"
proof (induction i rule: climb_induct [OF inv])
  case (1 i)
  show ?case
  proof (cases "wl_role_of (surfaces w i)")
    case (Sub_role c)
    let ?p = "sub_parent (subsurfaces w c)"
    show ?thesis
    proof (cases "alive w ?p")
      case True
      have "(i, ?p) \<in> child_links w" using wl_invD(4,5) [OF inv(1) Sub_role] True by (auto simp: child_links_def)
      with 1 show ?thesis by (subst refresh_surface_data_now.simps) (simp add: Sub_role True)
    qed (subst refresh_surface_data_now.simps, simp add: Sub_role)
  qed (subst refresh_surface_data_now.simps, simp add: refresh_window_returns [OF wl_invD(2) [OF inv(1)]])+
qed

lemma subsurface_commit_returns:
  assumes inv: "wl_inv C w" "finite C" and "wl_role_of (surfaces w i) = Sub_role c" "alive w i" "surface_synchronized w i \<noteq> None"
  shows "\<exists>v. subsurface_commit size_of c state w = Some (ret () v)"
proof -
  define cached where "cached = state_update_from (case cached_state (subsurfaces w c) of Some s \<Rightarrow> s | None \<Rightarrow> empty_state) state"
  define w1 where "w1 = on_subsurface c (\<lambda>s. s\<lparr>cached_state := Some cached\<rparr>) w"
  have q1: "quiet w w1" by (simp add: w1_def)
  then have l1: "same_links w w1" by (simp add: quiet_def)
  have inv1: "wl_inv C w1" using inv(1) wl_inv_quiet [OF q1] by simp
  have i: "sub_surface (subsurfaces w1 c) = i" using wl_invD(4) [OF inv(1) assms(3)] l1 by (simp add: same_links_def)
  have s1: "surface_synchronized w1 i \<noteq> None" using assms(5) same_links_inv(3) [OF l1] by simp
  have "subsurface_synchronized w1 c = surface_synchronized w1 i"
    unfolding subsurface_synchronized_def by (subst (2) surface_synchronized.simps) (use assms(3,4) l1 in \<open>simp add: same_links_def\<close>)
  then obtain sync where sync: "subsurface_synchronized w1 c = Some sync" using s1 by auto
  obtain s2 w2 where w2: "surface_commit size_of i cached w1 = Some (ret s2 w2)"
    using surface_commit_result [OF wl_invD(1,2) [OF inv1] s1] by blast
  then have "quiet w1 w2" using surface_commit_quiet by fastforce
  then have "wl_inv C w2" using inv1 wl_inv_quiet by blast
  then obtain w3 where "(if surface_data_needs_refresh s2 then subsurface_refresh c w2 else Some (ret () w2)) = Some (ret () w3)"
    using refresh_returns [OF _ inv(2), of w2] by (fastforce simp: subsurface_refresh_def)
  then show ?thesis using sync w2 unfolding subsurface_commit_def cached_def [symmetric] Let_def w1_def [symmetric] i by (cases sync) simp_all
qed

lemma on_window_forest [simp]: "wl_forest (on_window i f w) = wl_forest w" "wl_forest (note_calls cs w) = wl_forest w"
  by (simp_all add: wl_forest_def child_links_def)

lemma populate_returns:
  assumes "wl_forest w"
  shows "\<exists>s'. populate_spec_with_surface_data w i s = Some s'"
  by (rule surface_data_tree [OF assms, of i]) (simp add: populate_spec_with_surface_data_def)

lemma update_scene_returns:
  assumes "wl_forest w"
  shows "\<exists>v. update_scene granted i sz b w = Some (ret () v)"
proof (cases "win_scene (windows w i)")
  case True
  define w1 where "w1 = (if committed_size (windows w i) \<noteq> Some sz
      then on_window i (change_spec (\<lambda>s. s\<lparr>ss_width := Some (width sz), ss_height := Some (height sz)\<rparr>)) w else w)"
  have "wl_forest w1" using assms by (simp add: w1_def)
  then obtain s where s: "populate_spec_with_surface_data w1 i (waiting_spec (windows w1 i)) = Some s" using populate_returns by blast
  show ?thesis unfolding update_scene_def if_P [OF True] modify_scene_surface_def w1_def [symmetric] Let_def s by (cases b) simp_all
next
  case False
  obtain xs where "surface_data w i = Some (xs, rects_of w xs)" by (rule surface_data_tree [OF assms])
  then show ?thesis using False by (simp add: update_scene_def create_scene_surface_def Let_def)
qed

lemma window_commit_returns:
  assumes "wl_inv C w" "is_window w i"
  shows "\<exists>v. window_commit size_of granted i state w = Some (ret () v)"
proof -
  note D = wl_invD [OF assms(1)]
  have "alive w i" using D(8) [of i] assms(2) by auto
  then have "surface_synchronized w i \<noteq> None" by (subst surface_synchronized.simps) (simp add: assms(2))
  then obtain s' w1 where w1: "surface_commit size_of i state w = Some (ret s' w1)" using surface_commit_result [OF D(1,2)] by blast
  then have "quiet w w1" using surface_commit_quiet by fastforce
  then have "wl_inv C w1" using assms(1) wl_inv_quiet by blast
  then have "wl_forest w1" by (rule wl_invD(2))
  then have "\<exists>v. update_scene granted i sz b (note_calls cs w1) = Some (ret () v)" for sz b cs by (intro update_scene_returns) simp
  then show ?thesis unfolding window_commit_def w1 go_on_ret_iff Let_def by (metis (no_types, lifting))
qed

text \<open>A surface that is a desynchronised sub-surface of itself: the run is excluded by the rule for new sub-surfaces, and the code does not refuse it.\<close>

lemma own_parent_does_not_return:
  assumes "wl_role_of (surfaces w i) = Sub_role c" "\<not> sub_synchronized (subsurfaces w c)" "sub_parent (subsurfaces w c) = i"
  shows "surface_synchronized w i = None"
proof -
  have "surface_synchronized v j = Some y \<Longrightarrow> v = w \<Longrightarrow> j \<noteq> i" for v j y
    by (rule surface_synchronized.raw_induct [where P = "\<lambda>v j y. v = w \<longrightarrow> j \<noteq> i", THEN mp]) (use assms in \<open>auto split: if_splits; blast\<close>)
  then show ?thesis by (cases "surface_synchronized w i") auto
qed

text \<open>in every run in which the sub-surfaces form trees (no surface is made a sub-surface of itself or of a surface below it, which the code does not check,
  and none is placed beside itself), the commit of an existing surface whose ancestors, as far as the search for a synchronised one goes, still exist
  returns and raises no error, whatever the surface and the sub-surfaces below it have waiting.  Without trees it need not return, and the ancestors are read
  without a check that they exist.\<close>

theorem commit_returns:
  assumes "wl_run size_of granted C w" "alive w i" "surface_synchronized w i \<noteq> None"
  shows "\<exists>v. commit size_of granted i w = Some (ret () v)"
proof -
  let ?w1 = "on_surface i (\<lambda>s. s\<lparr>wl_pending := empty_state\<rparr>) w" and ?state = "take_pending (surfaces w i)"
  have q: "quiet w ?w1" by (rule quiet_steps(7))
  have inv: "wl_inv C ?w1" "finite C" using wl_run_ok [OF assms(1)] wl_inv_quiet [OF q] run_finite [OF assms(1)] by simp_all
  have s: "surface_synchronized ?w1 i \<noteq> None" using assms(3) same_links_inv(3) [of w ?w1] q by (simp add: quiet_def)
  show ?thesis
  proof (cases "wl_role_of (surfaces w i)")
    case Null_role
    obtain s' v where "surface_commit size_of i ?state ?w1 = Some (ret s' v)" using surface_commit_result [OF wl_invD(1,2) [OF inv(1)] s] by blast
    then show ?thesis using Null_role by (simp add: commit_def Let_def)
  next
    case (Sub_role c)
    then show ?thesis using subsurface_commit_returns [OF inv, of i c] assms(2) s by (simp add: commit_def Let_def)
  next
    case Window_role
    then show ?thesis using window_commit_returns [OF inv(1), of i] by (simp add: commit_def Let_def)
  qed
qed

theorem commit_returns_witness: "\<exists>v. commit square cp_size 3 tree_world = Some (ret () v)"
proof (rule commit_returns [OF tree_world_run tree_world_surfaces(2)])
  show "surface_synchronized tree_world 3 \<noteq> None" by (subst surface_synchronized.simps) (simp add: tree_world_surfaces)
qed

section \<open>The size of a window\<close>

lemma settle_limits_fields [simp]:
  "pending_explicit_width (settle_limits x) = pending_explicit_width x" "pending_explicit_height (settle_limits x) = pending_explicit_height x"
  "committed_width_set_explicitly (settle_limits x) = committed_width_set_explicitly x"
  "committed_height_set_explicitly (settle_limits x) = committed_height_set_explicitly x"
  by (simp_all add: settle_limits_def clear_pending_if_unchanged_def Let_def split_beta split: option.split)

definition explicit_of :: "wl_window \<Rightarrow> int option \<times> int option \<times> bool \<times> bool" where
  "explicit_of x = (pending_explicit_width x, pending_explicit_height x, committed_width_set_explicitly x, committed_height_set_explicitly x)"

lemma update_scene_explicit:
  assumes "update_scene granted i sz b w = Some (ret () v)"
  shows "explicit_of (windows v i) = explicit_of (windows w i)"
proof (cases "win_scene (windows w i)")
  case True
  then show ?thesis using assms
    by (auto simp: update_scene_def modify_scene_surface_def Let_def explicit_of_def change_spec_def split: bind_splits if_splits option.splits)
next
  case False
  then have "create_scene_surface granted i w = Some (ret () v)" using assms by (simp add: update_scene_def)
  then show ?thesis by (elim create_scene_surface_eq [OF _ False]) (simp add: explicit_of_def adopt_params_def)
qed

lemma size_after_commit:
  assumes "explicit_of y = explicit_of x"
  shows "current_size (finish_commit (pending_size x buffer) y) buffer = pending_size x buffer"
  using assms by (auto simp: explicit_of_def current_size_def pending_size_def finish_commit_def Let_def split: option.split)

lemma update_scene_waits:
  assumes "update_scene granted i sz b w = Some (ret () v)" "win_ok w i" "is_window w i"
  shows "win_scene (windows v i) \<and> pending_changes (windows v i) = None"
proof (cases "win_scene (windows w i)")
  case True
  then have n: "no_size_waits (windows w i)" using assms(2) by (simp add: win_ok_def Let_def)
  have "modify_scene_surface i sz b w = Some (ret () v)" using assms(1) True by (simp add: update_scene_def)
  then show ?thesis
  proof (rule modify_scene_surface_eq [OF _ n], goal_cases)
    case (1 x)
    have "win_scene (settle_limits x) = win_scene x" by (simp add: settle_limits_def Let_def split_beta split: option.split)
    then show ?case using 1 True by simp
  qed
next
  case False
  then have "create_scene_surface granted i w = Some (ret () v)" using assms(1) by (simp add: update_scene_def)
  moreover have "pending_changes (windows w i) = None" using assms(2,3) False by (simp add: win_ok_def Let_def)
  ultimately show ?thesis by (elim create_scene_surface_eq [OF _ False]) (simp add: adopt_params_def)
qed

text \<open>C18: in every run, the commit of a window returns, and afterwards nothing waits and the shell knows the window with the size that the role
  computes from the buffer and the sizes that were set, and with the limits that the role has committed.\<close>

theorem committed_window_is_known:
  assumes "wl_run size_of granted C w" "is_window w i"
  shows "\<exists>v known. commit size_of granted i w = Some (ret () v) \<and> shell_knows v i = Some known \<and> pending_changes (windows v i) = None \<and>
    known_size known = current_size (windows v i) (wl_buffer_size (surfaces v i)) \<and>
    known_min known = committed_min_size (windows v i) \<and> known_max known = committed_max_size (windows v i) \<and>
    width (known_size known) = or_keep (pending_explicit_width (windows w i)) (width (current_size (windows w i) (wl_buffer_size (surfaces v i)))) \<and>
    height (known_size known) = or_keep (pending_explicit_height (windows w i)) (height (current_size (windows w i) (wl_buffer_size (surfaces v i))))"
proof -
  let ?w1 = "on_surface i (\<lambda>s. s\<lparr>wl_pending := empty_state\<rparr>) w" and ?state = "take_pending (surfaces w i)"
  have q: "quiet w ?w1" by (rule quiet_steps(7))
  have ok: "wl_inv C w" "\<forall>j. win_ok w j" using wl_run_ok [OF assms(1)] by simp_all
  then have ok1: "wl_inv C ?w1" "\<forall>j. win_ok ?w1 j" using wl_inv_quiet [OF q] win_ok_quiet [OF q] by simp_all
  have win: "is_window ?w1 i" using assms(2) by simp
  obtain v where v: "window_commit size_of granted i ?state ?w1 = Some (ret () v)" using window_commit_returns [OF ok1(1) win] by blast
  then have c: "commit size_of granted i w = Some (ret () v)" using assms(2) by (simp add: commit_def Let_def)
  obtain state' u sz u2 where s: "surface_commit size_of i ?state ?w1 = Some (ret state' u)" "quiet ?w1 u" "sz = pending_size (windows u i) (wl_buffer_size (surfaces u i))"
    "update_scene granted i sz (surface_data_needs_refresh state') (note_calls [Latest_client_size i sz] u) = Some (ret () u2)" "v = on_window i (finish_commit sz) u2"
    by (rule window_commit_steps [OF v])
  have u: "windows u = windows w" "is_window u i" using s(2) win by (simp_all add: quiet_def same_links_def)
  have okn: "win_ok (note_calls [Latest_client_size i sz] u) i" using ok1(2) win_ok_quiet [OF s(2)] by (simp add: win_ok_noted)
  have w: "win_scene (windows u2 i)" "pending_changes (windows u2 i) = None" using update_scene_waits [OF s(4) okn] u(2) by simp_all
  have e: "explicit_of (windows u2 i) = explicit_of (windows w i)" using update_scene_explicit [OF s(4)] by (simp add: u(1))
  have b: "surfaces v = surfaces u" using update_scene_links [OF s(4)] by (simp add: s(5))
  have x: "windows v i = finish_commit sz (windows u2 i)" by (simp add: s(5))
  have cs: "committed_size (windows v i) = Some sz" "win_scene (windows v i)" "pending_changes (windows v i) = None" using w by (simp_all add: x finish_commit_def)
  have sz: "current_size (windows v i) (wl_buffer_size (surfaces v i)) = sz"
    using size_after_commit [OF e, of "wl_buffer_size (surfaces u i)"] unfolding x b s(3) u(1) .
  have "win_ok v i" by (rule commit_ok [OF c ok(2)])
  then obtain known where k: "shell_knows v i = Some known" "known_min known = committed_min_size (windows v i)"
      "known_max known = committed_max_size (windows v i)" "known_size known = sz"
    using cs(1,2) unfolding win_ok_def Let_def by auto
  have "width sz = or_keep (pending_explicit_width (windows w i)) (width (current_size (windows w i) (wl_buffer_size (surfaces v i))))"
    "height sz = or_keep (pending_explicit_height (windows w i)) (height (current_size (windows w i) (wl_buffer_size (surfaces v i))))"
    unfolding s(3) u(1) b by (simp_all add: pending_size_def Let_def)
  with c k cs(3) sz show ?thesis by (intro exI conjI) auto
qed

theorem committed_window_is_known_witness:
  "\<exists>v known. commit square cp_size 0 window_world = Some (ret () v) \<and> shell_knows v 0 = Some known \<and> width (known_size known) = 7"
proof -
  have "is_window window_world 0" "pending_explicit_width (windows window_world 0) = Some 7"
    by (simp_all add: window_world_def set_pending_width_def make_window_def world_defs)
  then show ?thesis using committed_window_is_known [OF window_world_run, of 0] by auto
qed

section \<open>Commits and input in every run\<close>

text \<open>C19: in every run in which the sub-surfaces form trees (no surface is made a sub-surface of itself or of a surface below it, and none is placed beside
  itself; the code checks neither), and for a surface whose ancestors, as far as the search for a synchronised one goes, still exist: committing a state to the
  surface returns, applies the state there, applies what waits at every synchronised sub-surface that is reached
  through others that have something waiting, and changes no other surface; what waited is gone, and the buffers of exactly these states are submitted.\<close>

theorem commit_reaches_what_waits:
  assumes "wl_run size_of granted C w" "surface_synchronized w i \<noteq> None"
  shows "\<exists>state' v. surface_commit size_of i state w = Some (ret state' v) \<and>
    (\<forall>j. surfaces v j = (if j = i then applied size_of state (surfaces w j)
       else if goes_along w i j then applied size_of (the (cached_of w j)) (surfaces w j) else surfaces w j)) \<and>
    (\<forall>j. j \<noteq> i \<longrightarrow> cached_of v j = (if goes_along w i j then None else cached_of w j)) \<and>
    (\<exists>cs. wl_calls v = wl_calls w @ cs \<and> (\<forall>j b. Submit_buffer j b \<in> set cs \<longleftrightarrow>
       (if j = i then st_buffer state = Some (Some b) else goes_along w i j \<and> st_buffer (the (cached_of w j)) = Some (Some b))))"
proof -
  have inv: "wl_inv C w" using wl_run_ok [OF assms(1)] by simp
  note D = wl_invD [OF inv]
  obtain state' v where v: "surface_commit size_of i state w = Some (ret state' v)" "commits_to size_of i state w v"
    using surface_commit_result [OF D(1,2) assms(2)] by blast
  have self: "goes_along w i i" by (simp add: goes_along_def)
  have "surfaces v j = (if j = i then applied size_of state (surfaces w j)
       else if goes_along w i j then applied size_of (the (cached_of w j)) (surfaces w j) else surfaces w j)" for j
    using v(2) self by (simp add: commits_to_def state_for_def)
  moreover have "cached_of v j = (if goes_along w i j then None else cached_of w j)" if "j \<noteq> i" for j
  proof (cases "wl_role_of (surfaces w j)")
    case (Sub_role c)
    have "sub_surface (subsurfaces w c) = j" by (rule D(4) [OF Sub_role])
    then have "goes_with w (wl_children (surfaces w i)) c \<longleftrightarrow> goes_along w i j"
      using along_children [OF D(2), of i j] that Sub_role by (simp add: goes_with_def)
    then show ?thesis using v(2) Sub_role commits_to_links [OF v(2)] by (simp add: cached_of_def commits_to_def same_links_def)
  qed (use commits_to_links [OF v(2)] in \<open>simp_all add: cached_of_def same_links_def\<close>)
  moreover obtain cs where "wl_calls v = wl_calls w @ cs"
      "\<And>j b. Submit_buffer j b \<in> set cs \<longleftrightarrow> goes_along w i j \<and> st_buffer (state_for w i state j) = Some (Some b)"
    using v(2) unfolding commits_to_def by blast
  then have "\<exists>cs. wl_calls v = wl_calls w @ cs \<and> (\<forall>j b. Submit_buffer j b \<in> set cs \<longleftrightarrow>
       (if j = i then st_buffer state = Some (Some b) else goes_along w i j \<and> st_buffer (the (cached_of w j)) = Some (Some b)))"
    using self by (intro exI [of _ cs]) (simp add: state_for_def)
  ultimately show ?thesis using v(1) by blast
qed

theorem commit_reaches_what_waits_witness:
  "\<exists>state' v. surface_commit square 2 empty_state waiting_world = Some (ret state' v) \<and> wl_buffer_size (surfaces v 3) = Some (Size 5 5)"
proof -
  note w = waiting_world_surfaces
  obtain cached where c: "cached_state (subsurfaces waiting_world 4) = Some (state_update_from cached (take_pending (surfaces tree_world 3)))"
    using waiting_world_step(2) by blast
  have s: "surface_synchronized waiting_world 2 \<noteq> None" by (subst surface_synchronized.simps) (simp add: w)
  have "(3, 2) \<in> commit_links waiting_world" unfolding commit_links_def using w c by (auto simp: subsurface_synchronized_def intro!: exI [of _ 4] exI [of _ 2])
  then have g: "goes_along waiting_world 2 3" by (simp add: goes_along_def)
  have "st_buffer (the (cached_of waiting_world 3)) = Some (Some 5)"
    using tree_world_surfaces(8) by (simp add: cached_of_def w c state_update_from_def)
  then have "wl_buffer_size (applied square (the (cached_of waiting_world 3)) x) = Some (Size 5 5)" for x :: "nat wl_surface"
    by (simp add: applied_def square_def Let_def)
  then show ?thesis using commit_reaches_what_waits [OF waiting_world_run s, of empty_state] g by fastforce
qed

text \<open>What the shell was told last of the streams and the input shape of a window.\<close>

fun hear :: "nat \<Rightarrow> 'b wl_call \<Rightarrow> wl_stream list option \<times> rectangle list option \<Rightarrow> wl_stream list option \<times> rectangle list option" where
  "hear i (Shell_create_surface j p) v = (if j = i then (cp_streams p, cp_input_shape p) else v)"
| "hear i (Shell_modify_surface j s) v = (if j = i then (overwrite (fst v) (ss_streams s), overwrite (snd v) (ss_input_shape s)) else v)"
| "hear i (Shell_destroy_surface j) v = (if j = i then (None, None) else v)"
| "hear i _ v = v"

definition told :: "'b wl_world \<Rightarrow> nat \<Rightarrow> wl_stream list option \<times> rectangle list option" where
  "told w i = fold (hear i) (wl_calls w) (None, None)"

lemma told_simps [simp]: "told (note_calls [c] w) i = hear i c (told w i)" "told (on_window j h w) i = told w i"
  by (simp_all add: told_def note_calls_def on_window_def)

text \<open>The data of a window are computed from the surfaces and sub-surfaces only.\<close>

lemma run_each_weaken:
  assumes "run_each f xs a = Some y" "\<And>x a y. f x a = Some y \<Longrightarrow> g x a = Some y"
  shows "run_each g xs a = Some y"
  using assms(1)
proof (induction xs arbitrary: a)
  case (Cons x xs)
  then obtain r where r: "f x a = Some r" by (cases "f x a") simp_all
  then have "g x a = Some r" by (rule assms(2))
  with r Cons show ?case by (cases r; cases "fst r") (auto simp: go_on_def)
qed simp

lemma populate_surface_data_cong:
  "populate_surface_data w i d acc = Some y \<Longrightarrow>
    \<forall>v. surfaces v = surfaces w \<and> subsurfaces v = subsurfaces w \<longrightarrow> populate_surface_data v i d acc = Some y"
proof (rule populate_surface_data.raw_induct [where P = "\<lambda>w i d acc y.
    \<forall>v. surfaces v = surfaces w \<and> subsurfaces v = subsurfaces w \<longrightarrow> populate_surface_data v i d acc = Some y"], goal_cases)
  case (1 f w i d acc y)
  show ?case
  proof (intro allI impI)
    fix v :: "'a wl_world"
    assume v: "surfaces v = surfaces w \<and> subsurfaces v = subsurfaces w"
    obtain ss rs where acc: "acc = (ss, rs)" by (cases acc)
    let ?d = "displacement_plus d (wl_offset (surfaces w i))"
    have "run_each (\<lambda>c. f w (sub_surface (subsurfaces w c)) ?d) (wl_children (surfaces w i))
        (ss @ [(i, ?d)], rs @ input_rects_at (surfaces w i) ?d) = Some y" using 1(3) by (simp add: acc Let_def)
    then have "run_each (\<lambda>c. populate_surface_data v (sub_surface (subsurfaces w c)) ?d) (wl_children (surfaces w i))
        (ss @ [(i, ?d)], rs @ input_rects_at (surfaces w i) ?d) = Some y"
      by (rule run_each_weaken) (use 1(2) v in blast)
    then show "populate_surface_data v i d acc = Some y" by (subst populate_surface_data.simps) (simp add: acc v Let_def)
  qed
qed

lemma surface_data_cong:
  assumes "surface_data w i = Some y" "surfaces v = surfaces w" "subsurfaces v = subsurfaces w"
  shows "surface_data v i = Some y"
proof -
  obtain r where r: "populate_surface_data w i (Displacement 0 0) ([], []) = Some r" "y = state_of r" using assms(1) by (auto simp: surface_data_def)
  with populate_surface_data_cong [OF r(1)] assms(2,3) have "populate_surface_data v i (Displacement 0 0) ([], []) = Some r" by blast
  then show ?thesis by (simp add: surface_data_def r(2))
qed

lemma settled_data:
  assumes "pending_changes x = Some s"
  shows "\<exists>s'. pending_changes (settle_limits x) = Some s' \<and> ss_streams s' = ss_streams s \<and> ss_input_shape s' = ss_input_shape s"
  using assms by (auto simp: settle_limits_def clear_pending_if_unchanged_def Let_def split: option.splits if_splits)

text \<open>A commit that creates the window, or that has to refresh its data, tells the shell the data of the surfaces as they are.\<close>

lemma update_scene_tells:
  assumes "update_scene granted i sz b w = Some (ret () v)" "\<not> win_scene (windows w i) \<or> b" "surface_data w i = Some (streams, shapes)"
  shows "told v i = (Some streams, Some shapes)"
proof (cases "win_scene (windows w i)")
  case True
  then have b: b using assms(2) by simp
  define w1 where "w1 = (if committed_size (windows w i) \<noteq> Some sz
      then on_window i (change_spec (\<lambda>s. s\<lparr>ss_width := Some (width sz), ss_height := Some (height sz)\<rparr>)) w else w)"
  define s where "s = (waiting_spec (windows w1 i))\<lparr>ss_streams := Some streams, ss_input_shape := Some shapes\<rparr>"
  define w3 where "w3 = on_window i settle_limits (on_window i (change_spec (\<lambda>_. s)) w1)"
  have "surface_data w1 i = Some (streams, shapes)" by (rule surface_data_cong [OF assms(3)]) (simp_all add: w1_def)
  then have p: "populate_spec_with_surface_data w1 i (waiting_spec (windows w1 i)) = Some s" by (simp add: populate_spec_with_surface_data_def s_def)
  obtain s' where s': "pending_changes (windows w3 i) = Some s'" "ss_streams s' = Some streams" "ss_input_shape s' = Some shapes"
    using settled_data [of "change_spec (\<lambda>_. s) (windows w1 i)" s] by (auto simp: w3_def change_spec_def s_def)
  have "\<not> spec_is_empty s'" using s'(2) by (simp add: spec_is_empty_def)
  then have "v = on_window i (\<lambda>x. x\<lparr>pending_changes := None\<rparr>) (note_calls [Shell_modify_surface i s'] w3)"
    using assms(1) s'(1) True b p unfolding update_scene_def modify_scene_surface_def Let_def w1_def [symmetric] w3_def by simp
  then show ?thesis using s' by (simp add: overwrite_def)
next
  case False
  then have "create_scene_surface granted i w = Some (ret () v)" using assms(1) by (simp add: update_scene_def)
  then show ?thesis using False assms(3) by (auto simp: create_scene_surface_def Let_def split: if_splits)
qed

text \<open>The commits that tell the shell of the streams and the input shape: the first one of a window, and those for which the state of the surface has an offset,
  an input region, a note that a sub-surface has changed, or a buffer of another size while the whole surface takes input.\<close>

definition tells_data :: "('b \<Rightarrow> extent) \<Rightarrow> nat \<Rightarrow> 'b wl_world \<Rightarrow> bool" where
  "tells_data size_of i w \<longleftrightarrow> \<not> win_scene (windows w i) \<or>
     surface_data_needs_refresh (fst (accept_state size_of i (take_pending (surfaces w i)) (on_surface i (\<lambda>s. s\<lparr>wl_pending := empty_state\<rparr>) w)))"



end
