(* ===== verification/Observer_List.thy ===== *)
theory Observer_List
  imports Prelude
begin

text \<open>
  \<open>ThreadSafeList\<close>, the container behind every observer registry of the server: a linked list of
  items whose elements may be empty; an empty item is reused by the next \<open>add\<close>, items are never
  unlinked.  The model is the sequence of the items' elements seen by one caller at a time; the
  per-item locks make each item access atomic, and the interleaving of concurrent callers is not
  modelled.  The contract is stated as the locale \<open>registry\<close>.
\<close>

section \<open>The list\<close>

text \<open>The head item always exists and starts empty.\<close>

type_synonym 'e thread_safe_list = "'e option list"

definition empty_list_items :: "'e thread_safe_list" where
  "empty_list_items = [None]"

fun list_add :: "'e thread_safe_list \<Rightarrow> 'e \<Rightarrow> 'e thread_safe_list" where
  "list_add [] e = [Some e]"
| "list_add (item # items) e =
     (case item of None \<Rightarrow> Some e # items | Some _ \<Rightarrow> item # list_add items e)"

fun list_remove :: "'e thread_safe_list \<Rightarrow> 'e \<Rightarrow> 'e thread_safe_list" where
  "list_remove [] e = []"
| "list_remove (item # items) e = (if item = Some e then None # items else item # list_remove items e)"

fun list_remove_all :: "'e thread_safe_list \<Rightarrow> 'e \<Rightarrow> nat \<times> 'e thread_safe_list" where
  "list_remove_all [] e = (0, [])"
| "list_remove_all (item # items) e =
     (case list_remove_all items e of (n, items') \<Rightarrow>
        if item = Some e then (Suc n, None # items') else (n, item # items'))"

definition list_clear :: "'e thread_safe_list \<Rightarrow> 'e thread_safe_list" where
  "list_clear items = map (\<lambda>_. None) items"

text \<open>The elements that \<open>for_each\<close> calls its function with, in order.\<close>

definition list_for_each :: "'e thread_safe_list \<Rightarrow> 'e list" where
  "list_for_each items = List.map_filter (\<lambda>item. item) items"

lemma list_for_each_simps [simp]:
  "list_for_each [] = []"
  "list_for_each (None # items) = list_for_each items"
  "list_for_each (Some e # items) = e # list_for_each items"
  by (simp_all add: list_for_each_def List.map_filter_simps)

section \<open>The contract of a registry\<close>

locale registry =
  fixes add :: "'l \<Rightarrow> 'e \<Rightarrow> 'l"
    and remove :: "'l \<Rightarrow> 'e \<Rightarrow> 'l"
    and members :: "'l \<Rightarrow> 'e list"
  assumes members_add: "mset (members (add l e)) = add_mset e (mset (members l))"
    and members_remove: "mset (members (remove l e)) = mset (members l) - {#e#}"
begin

lemma set_members_add: "set (members (add l e)) = insert e (set (members l))"
  by (metis members_add set_mset_add_mset_insert set_mset_mset)

lemma remove_add_members: "mset (members (remove (add l e) e)) = mset (members l)"
  by (simp add: members_add members_remove)

lemma remove_other: "x \<noteq> e \<Longrightarrow> x \<in> set (members (remove l e)) \<longleftrightarrow> x \<in> set (members l)"
proof -
  assume "x \<noteq> e"
  have "x \<in> set (members (remove l e)) \<longleftrightarrow> x \<in># mset (members l) - {#e#}"
    by (metis members_remove set_mset_mset)
  also have "\<dots> \<longleftrightarrow> x \<in># mset (members l)" using \<open>x \<noteq> e\<close> by (simp add: in_diff_count)
  finally show ?thesis by simp
qed

lemma distinct_add: "distinct (members l) \<Longrightarrow> e \<notin> set (members l) \<Longrightarrow> distinct (members (add l e))"
  by (metis distinct.simps(2) members_add mset.simps(2) mset_eq_imp_distinct_iff)

end

lemma mset_list_add: "mset (list_for_each (list_add items e)) = add_mset e (mset (list_for_each items))"
  by (induction items e rule: list_add.induct) (auto split: option.splits)

lemma mset_list_remove:
  "mset (list_for_each (list_remove items e)) = mset (list_for_each items) - {#e#}"
proof (induction items)
  case (Cons item items)
  then show ?case by (cases item) auto
qed simp

interpretation tsl: registry list_add list_remove list_for_each
  by unfold_locales (simp_all add: mset_list_add mset_list_remove)

lemma list_remove_all_spec:
  "fst (list_remove_all items e) = count_list (list_for_each items) e \<and>
   list_for_each (snd (list_remove_all items e)) = removeAll e (list_for_each items) \<and>
   length (snd (list_remove_all items e)) = length items"
proof (induction items)
  case (Cons item items)
  then show ?case by (cases item) (auto split: prod.splits)
qed simp

lemma list_clear_for_each [simp]: "list_for_each (list_clear items) = []"
  by (induction items) (simp_all add: list_clear_def)

text \<open>Storage is reused: adding never shrinks the list, and grows it only when every item is taken.\<close>

lemma length_list_add:
  "length (list_add items e) =
     (if None \<in> set items then length items else Suc (length items))"
  by (induction items e rule: list_add.induct) (auto split: option.splits)

lemma length_list_remove [simp]: "length (list_remove items e) = length items"
  by (induction items) auto

lemma list_remove_frees: "e \<in> set (list_for_each items) \<Longrightarrow> None \<in> set (list_remove items e)"
proof (induction items)
  case (Cons item items)
  then show ?case by (cases item) auto
qed simp

lemma list_add_reuses:
  "e \<in> set (list_for_each items) \<Longrightarrow> length (list_add (list_remove items e) f) = length items"
  by (simp add: length_list_add list_remove_frees)

section \<open>Properties\<close>

text \<open>The list behaves as a bag of registrations: \<open>remove_all\<close> removes every registration of an
  element and returns how many there were, adding after a removal restores the bag, and removing one
  observer never disturbs another; storage is reused, so a pair of removal and addition does not
  grow the list.\<close>
theorem thread_safe_list_is_a_bag:
  assumes "e \<in> set (list_for_each items)" "x \<noteq> e"
  shows "mset (list_for_each (list_add (list_remove items e) e)) = mset (list_for_each items) \<and>
    (x \<in> set (list_for_each (list_remove items e)) \<longleftrightarrow> x \<in> set (list_for_each items)) \<and>
    list_remove_all items e =
      (count_list (list_for_each items) e, snd (list_remove_all items e)) \<and>
    list_for_each (snd (list_remove_all items e)) = removeAll e (list_for_each items) \<and>
    length (list_add (list_remove items e) x) = length items"
proof -
  have "e \<in># mset (list_for_each items)" using assms(1) by simp
  then have "mset (list_for_each (list_add (list_remove items e) e)) = mset (list_for_each items)"
    by (simp only: tsl.members_add tsl.members_remove insert_DiffM)
  with assms list_remove_all_spec [of items e] tsl.remove_other [OF assms(2)] show ?thesis
    by (simp add: list_add_reuses prod_eq_iff)
qed

theorem thread_safe_list_is_a_bag_witness:
  "length (list_add (list_remove [Some (1::nat), Some 2] 1) 3) = 2"
  using thread_safe_list_is_a_bag [of 1 "[Some (1::nat), Some 2]" 3] by simp

end
