(* ===== verification/Input_Devices.thy ===== *)
theory Input_Devices
  imports Observer_List "HOL-Library.Word" Complex_Main
begin

unbundle bit_operations_syntax

text \<open>
  Input devices as the rest of the server sees them: \<open>src/common/input\<close> (the configuration records), \<open>src/server/input/default_device.cpp\<close>
  (a device with its configuration and the queue of settings that the input thread applies to the hardware) and
  \<open>src/server/input/default_input_device_hub.cpp\<close> (the hub that registers devices, gives them identifiers, remembers the configuration of devices that
  went away and tells its observers).  A \<open>DefaultDevice\<close> is shared by the hub's two lists and by observers, so the hub has a store of them and the
  lists hold addresses.  The input platform's device is its information and settings; the key mapper, the seat, the server's status listener, the
  multiplexer and the hardware are recorded calls.
\<close>

section \<open>Configurations\<close>

record keymap =
  km_model :: string
  km_layout :: string
  km_variant :: string
  km_options :: string

definition default_keymap :: keymap where
  "default_keymap = \<lparr>km_model = ''pc105+inet'', km_layout = ''us'', km_variant = '''', km_options = ''''\<rparr>"

datatype handedness = Handedness_right | Handedness_left
datatype acceleration = Acceleration_none | Acceleration_adaptive
datatype mapping_mode = Mapping_to_output | Mapping_to_display_wall

record pointer_config =
  pc_handedness :: handedness
  pc_acceleration :: acceleration
  pc_bias :: rat
  pc_horizontal_scale :: rat
  pc_vertical_scale :: rat

record touchpad_config =
  tc_click_mode :: "32 word"
  tc_scroll_mode :: "32 word"
  tc_scroll_button :: int
  tc_tap_to_click :: bool
  tc_middle_emulation :: bool
  tc_disable_with_mouse :: bool
  tc_disable_while_typing :: bool

record touchscreen_config =
  sc_output_id :: "32 word"
  sc_mapping_mode :: mapping_mode

record pointer_settings =
  ps_handedness :: handedness
  ps_bias :: rat
  ps_acceleration :: acceleration
  ps_horizontal_scale :: rat
  ps_vertical_scale :: rat

record touchpad_settings =
  tp_click_mode :: "32 word"
  tp_scroll_mode :: "32 word"
  tp_scroll_button :: int
  tp_tap_to_click :: bool
  tp_disable_while_typing :: bool
  tp_disable_with_mouse :: bool
  tp_middle_emulation :: bool

record touchscreen_settings =
  tss_output_id :: "32 word"
  tss_mapping_mode :: mapping_mode

definition no_scroll_button :: int where
  "no_scroll_button = 0"

definition button_down_scroll :: "32 word" where
  "button_down_scroll = 4"

definition keyboard_capability :: "32 word" where
  "keyboard_capability = 4"

definition contains_capability :: "32 word \<Rightarrow> 32 word \<Rightarrow> bool" where
  "contains_capability caps c \<longleftrightarrow> caps AND c = c"

record device_info =
  di_name :: string
  di_unique_id :: string
  di_capabilities :: "32 word"

text \<open>The stored and the client's form of a device, and of all devices.\<close>

record mir_input_device =
  mi_id :: nat
  mi_caps :: "32 word"
  mi_name :: string
  mi_unique_id :: string
  mi_pointer :: "pointer_config option"
  mi_touchpad :: "touchpad_config option"
  mi_keyboard :: "keymap option"
  mi_touchscreen :: "touchscreen_config option"

definition mir_input_device_eq :: "mir_input_device \<Rightarrow> mir_input_device \<Rightarrow> bool" where
  "mir_input_device_eq a b \<longleftrightarrow> mi_id a = mi_id b \<and> mi_name a = mi_name b \<and> mi_caps a = mi_caps b \<and> mi_pointer a = mi_pointer b \<and>
     mi_keyboard a = mi_keyboard b \<and> mi_touchpad a = mi_touchpad b \<and> mi_touchscreen a = mi_touchscreen b"

type_synonym mir_input_config = "mir_input_device list"

definition add_device_config :: "mir_input_device \<Rightarrow> mir_input_config \<Rightarrow> mir_input_config" where
  "add_device_config conf c = c @ [conf]"

definition get_device_config_by_id :: "nat \<Rightarrow> mir_input_config \<Rightarrow> mir_input_device option" where
  "get_device_config_by_id i c = find (\<lambda>d. mi_id d = i) c"

definition remove_device_by_id :: "nat \<Rightarrow> mir_input_config \<Rightarrow> mir_input_config" where
  "remove_device_by_id i c = filter (\<lambda>d. mi_id d \<noteq> i) c"

section \<open>A device\<close>

text \<open>The device of the input platform: its identity, its information and the settings it reports.\<close>

record input_device =
  dev_key :: nat
  dev_info :: device_info
  dev_pointer :: "pointer_settings option"
  dev_touchpad :: "touchpad_settings option"
  dev_touchscreen :: "touchscreen_settings option"

datatype setting =
    Pointer_setting pointer_settings
  | Touchpad_setting touchpad_settings
  | Touchscreen_setting touchscreen_settings

text \<open>The queue \<open>actions\<close> is \<open>None\<close> once the device is disabled.\<close>

record default_device =
  dd_id :: nat
  dd_device :: nat
  dd_info :: device_info
  dd_pointer :: "pointer_settings option"
  dd_touchpad :: "touchpad_settings option"
  dd_keyboard :: "keymap option"
  dd_touchscreen :: "touchscreen_settings option"
  dd_actions :: "setting list option"

definition pointer_configuration :: "default_device \<Rightarrow> pointer_config option" where
  "pointer_configuration d = map_option (\<lambda>s.
     \<lparr>pc_handedness = ps_handedness s, pc_acceleration = ps_acceleration s, pc_bias = ps_bias s,
      pc_horizontal_scale = ps_horizontal_scale s, pc_vertical_scale = ps_vertical_scale s\<rparr>) (dd_pointer d)"

definition make_touchpad_config ::
  "32 word \<Rightarrow> 32 word \<Rightarrow> int \<Rightarrow> bool \<Rightarrow> bool \<Rightarrow> bool \<Rightarrow> bool \<Rightarrow> touchpad_config" where
  "make_touchpad_config click_mode scroll_mode button tap typing mouse middle =
     \<lparr>tc_click_mode = click_mode, tc_scroll_mode = scroll_mode, tc_scroll_button = button, tc_tap_to_click = tap,
      tc_middle_emulation = middle, tc_disable_with_mouse = mouse, tc_disable_while_typing = typing\<rparr>"

definition touchpad_configuration :: "default_device \<Rightarrow> touchpad_config option" where
  "touchpad_configuration d = map_option (\<lambda>s.
     make_touchpad_config (tp_click_mode s) (tp_scroll_mode s) (tp_scroll_button s) (tp_tap_to_click s)
       (tp_disable_while_typing s) (tp_disable_with_mouse s) (tp_middle_emulation s)) (dd_touchpad d)"

definition touchscreen_configuration :: "default_device \<Rightarrow> touchscreen_config option" where
  "touchscreen_configuration d = map_option (\<lambda>s. \<lparr>sc_output_id = tss_output_id s, sc_mapping_mode = tss_mapping_mode s\<rparr>) (dd_touchscreen d)"

definition enqueue_setting :: "setting \<Rightarrow> default_device \<Rightarrow> default_device" where
  "enqueue_setting s d = d\<lparr>dd_actions := map_option (\<lambda>q. q @ [s]) (dd_actions d)\<rparr>"

definition set_pointer_configuration :: "pointer_config \<Rightarrow> default_device \<Rightarrow> default_device" where
  "set_pointer_configuration conf d =
     (let settings = \<lparr>ps_handedness = pc_handedness conf, ps_bias = pc_bias conf, ps_acceleration = pc_acceleration conf,
                      ps_horizontal_scale = pc_horizontal_scale conf, ps_vertical_scale = pc_vertical_scale conf\<rparr>
      in enqueue_setting (Pointer_setting settings) (d\<lparr>dd_pointer := Some settings\<rparr>))"

definition set_touchpad_configuration :: "touchpad_config \<Rightarrow> default_device \<Rightarrow> default_device" where
  "set_touchpad_configuration conf d =
     (let settings = \<lparr>tp_click_mode = tc_click_mode conf, tp_scroll_mode = tc_scroll_mode conf, tp_scroll_button = tc_scroll_button conf,
                      tp_tap_to_click = tc_tap_to_click conf, tp_disable_while_typing = tc_disable_while_typing conf,
                      tp_disable_with_mouse = tc_disable_with_mouse conf, tp_middle_emulation = tc_middle_emulation conf\<rparr>
      in enqueue_setting (Touchpad_setting settings) (d\<lparr>dd_touchpad := Some settings\<rparr>))"

definition set_touchscreen_configuration :: "touchscreen_config \<Rightarrow> default_device \<Rightarrow> default_device" where
  "set_touchscreen_configuration conf d =
     (let settings = \<lparr>tss_output_id = sc_output_id conf, tss_mapping_mode = sc_mapping_mode conf\<rparr>
      in enqueue_setting (Touchscreen_setting settings) (d\<lparr>dd_touchscreen := Some settings\<rparr>))"

text \<open>
  The keyboard's configuration goes to the key mapper: the result has the keymaps the mapper is given for the device.  Reading the unset
  optional of a device without a keyboard is a fatal error, which ends the server, and here \<open>None\<close>.
\<close>

definition set_keyboard_configuration :: "keymap \<Rightarrow> default_device \<Rightarrow> (keymap list \<times> default_device) option" where
  "set_keyboard_configuration conf d =
     (if dd_actions d = None then Some ([], d)
      else case dd_keyboard d of
             None \<Rightarrow> None
           | Some k \<Rightarrow> if k \<noteq> conf then Some ([conf], d\<lparr>dd_keyboard := Some conf\<rparr>) else Some ([], d))"

definition make_device :: "nat \<Rightarrow> input_device \<Rightarrow> keymap list \<times> default_device" where
  "make_device i dev =
     (let d = \<lparr>dd_id = i, dd_device = dev_key dev, dd_info = dev_info dev, dd_pointer = dev_pointer dev, dd_touchpad = dev_touchpad dev,
               dd_keyboard = None, dd_touchscreen = dev_touchscreen dev, dd_actions = Some []\<rparr>
      in if contains_capability (di_capabilities (dev_info dev)) keyboard_capability
         then ([default_keymap], d\<lparr>dd_keyboard := Some default_keymap\<rparr>) else ([], d))"

definition make_restored_device :: "mir_input_device \<Rightarrow> input_device \<Rightarrow> (keymap list \<times> default_device) option" where
  "make_restored_device conf dev =
     (let (ks, d) = make_device (mi_id conf) dev;
          d1 = (case mi_touchpad conf of Some c \<Rightarrow> set_touchpad_configuration c d | None \<Rightarrow> d)
      in case (case mi_keyboard conf of Some c \<Rightarrow> set_keyboard_configuration c d1 | None \<Rightarrow> Some ([], d1)) of
           None \<Rightarrow> None
         | Some (ks', d2) \<Rightarrow>
             (let d3 = (case mi_pointer conf of Some c \<Rightarrow> set_pointer_configuration c d2 | None \<Rightarrow> d2);
                  d4 = (case mi_touchscreen conf of Some c \<Rightarrow> set_touchscreen_configuration c d3 | None \<Rightarrow> d3)
              in Some (ks @ ks', d4)))"

definition device_config :: "default_device \<Rightarrow> mir_input_device" where
  "device_config d =
     \<lparr>mi_id = dd_id d, mi_caps = di_capabilities (dd_info d), mi_name = di_name (dd_info d), mi_unique_id = di_unique_id (dd_info d),
      mi_pointer = pointer_configuration d, mi_touchpad = touchpad_configuration d, mi_keyboard = dd_keyboard d,
      mi_touchscreen = touchscreen_configuration d\<rparr>"

definition disable_queue :: "default_device \<Rightarrow> default_device" where
  "disable_queue d = d\<lparr>dd_actions := None\<rparr>"

section \<open>Lemmas\<close>

definition enabled :: "default_device \<Rightarrow> bool" where
  "enabled d \<longleftrightarrow> dd_actions d \<noteq> None"

abbreviation has_keyboard :: "device_info \<Rightarrow> bool" where
  "has_keyboard info \<equiv> contains_capability (di_capabilities info) keyboard_capability"

lemma set_configuration_frame [simp]:
  "dd_id (set_pointer_configuration c d) = dd_id d" "dd_id (set_touchpad_configuration tc d) = dd_id d" "dd_id (set_touchscreen_configuration sc d) = dd_id d"
  "dd_info (set_pointer_configuration c d) = dd_info d" "dd_info (set_touchpad_configuration tc d) = dd_info d" "dd_info (set_touchscreen_configuration sc d) = dd_info d"
  "dd_device (set_pointer_configuration c d) = dd_device d" "dd_device (set_touchpad_configuration tc d) = dd_device d"
  "dd_device (set_touchscreen_configuration sc d) = dd_device d"
  "dd_keyboard (set_pointer_configuration c d) = dd_keyboard d" "dd_keyboard (set_touchpad_configuration tc d) = dd_keyboard d"
  "dd_keyboard (set_touchscreen_configuration sc d) = dd_keyboard d"
  "enabled (set_pointer_configuration c d) = enabled d" "enabled (set_touchpad_configuration tc d) = enabled d"
  "enabled (set_touchscreen_configuration sc d) = enabled d" "enabled (d\<lparr>dd_keyboard := k\<rparr>) = enabled d"
  by (simp_all add: enabled_def set_pointer_configuration_def set_touchpad_configuration_def set_touchscreen_configuration_def enqueue_setting_def Let_def)

lemma set_configuration_get [simp]:
  "pointer_configuration (set_pointer_configuration c d) = Some c"
  "pointer_configuration (set_touchpad_configuration tc d) = pointer_configuration d"
  "pointer_configuration (set_touchscreen_configuration sc d) = pointer_configuration d"
  "touchpad_configuration (set_pointer_configuration c d) = touchpad_configuration d"
  "touchpad_configuration (set_touchpad_configuration tc d) = Some tc"
  "touchpad_configuration (set_touchscreen_configuration sc d) = touchpad_configuration d"
  "touchscreen_configuration (set_pointer_configuration c d) = touchscreen_configuration d"
  "touchscreen_configuration (set_touchpad_configuration tc d) = touchscreen_configuration d"
  "touchscreen_configuration (set_touchscreen_configuration sc d) = Some sc"
  by (simp_all add: set_pointer_configuration_def set_touchpad_configuration_def set_touchscreen_configuration_def enqueue_setting_def
      pointer_configuration_def touchpad_configuration_def touchscreen_configuration_def make_touchpad_config_def Let_def)

lemma set_keyboard_eq:
  "set_keyboard_configuration conf d =
     (if enabled d
      then case dd_keyboard d of None \<Rightarrow> None | Some k \<Rightarrow> Some (if k = conf then [] else [conf], d\<lparr>dd_keyboard := Some conf\<rparr>)
      else Some ([], d))"
  by (auto simp: set_keyboard_configuration_def enabled_def split: option.splits)

lemma keyboard_update_get [simp]:
  "pointer_configuration (d\<lparr>dd_keyboard := k\<rparr>) = pointer_configuration d" "touchpad_configuration (d\<lparr>dd_keyboard := k\<rparr>) = touchpad_configuration d"
  "touchscreen_configuration (d\<lparr>dd_keyboard := k\<rparr>) = touchscreen_configuration d"
  by (simp_all add: pointer_configuration_def touchpad_configuration_def touchscreen_configuration_def)

lemma make_device_frame [simp]:
  "dd_id (snd (make_device i dev)) = i" "dd_device (snd (make_device i dev)) = dev_key dev" "dd_info (snd (make_device i dev)) = dev_info dev"
  "enabled (snd (make_device i dev))"
  "dd_keyboard (snd (make_device i dev)) = (if has_keyboard (dev_info dev) then Some default_keymap else None)"
  "dd_pointer (snd (make_device i dev)) = dev_pointer dev" "dd_touchpad (snd (make_device i dev)) = dev_touchpad dev"
  "dd_touchscreen (snd (make_device i dev)) = dev_touchscreen dev"
  by (simp_all add: make_device_def Let_def enabled_def)

text \<open>The server ends when a device comes back without the keyboard that its stored configuration has.\<close>

lemma make_restored_device_fatal:
  "make_restored_device conf dev = None \<longleftrightarrow> mi_keyboard conf \<noteq> None \<and> \<not> has_keyboard (dev_info dev)"
  by (auto simp: make_restored_device_def Let_def split_beta set_keyboard_eq split: option.splits)

lemma make_restored_device_eq:
  assumes "mi_keyboard conf = None \<or> has_keyboard (dev_info dev)"
  shows "\<exists>r. make_restored_device conf dev = Some r \<and> dd_id (snd r) = mi_id conf \<and> dd_device (snd r) = dev_key dev \<and> dd_info (snd r) = dev_info dev \<and>
    enabled (snd r) \<and> dd_keyboard (snd r) = (case mi_keyboard conf of Some k \<Rightarrow> Some k | None \<Rightarrow> if has_keyboard (dev_info dev) then Some default_keymap else None) \<and>
    (mi_pointer conf \<noteq> None \<longrightarrow> pointer_configuration (snd r) = mi_pointer conf) \<and>
    (mi_touchpad conf \<noteq> None \<longrightarrow> touchpad_configuration (snd r) = mi_touchpad conf) \<and>
    (mi_touchscreen conf \<noteq> None \<longrightarrow> touchscreen_configuration (snd r) = mi_touchscreen conf)"
  using assms
  by (cases "mi_touchpad conf"; cases "mi_keyboard conf"; cases "mi_pointer conf"; cases "mi_touchscreen conf")
    (simp_all add: make_restored_device_def Let_def split_beta set_keyboard_eq)

end
