(* ===== verification/Input_Hub.thy ===== *)
theory Input_Hub
  imports Input_Devices
begin

text \<open>
  The hub of the input devices, \<open>src/server/input/default_input_device_hub.cpp\<close>: the input platforms add and remove devices, other parts of the
  server observe and configure them.
\<close>

section \<open>State\<close>

text \<open>Devices and queues are named by the address of their \<open>DefaultDevice\<close>; the seat and the key mapper go by the device's identifier.\<close>

datatype 'o hub_call =
    Device_added 'o nat
  | Device_changed 'o nat
  | Device_removed 'o nat
  | Changes_complete 'o
  | Ready_for_user_input
  | Stop_receiving_input
  | Seat_add_device nat
  | Seat_remove_device nat
  | Add_watch nat
  | Remove_watch nat
  | Start_device nat
  | Stop_device nat
  | Set_keymap_for_device nat keymap
  | Apply_settings nat setting

record registered_device =
  rd_device :: nat
  rd_id :: nat
  rd_handle :: nat
  rd_seat :: bool

record 'o input_hub =
  objects :: "default_device list"
  devices :: "registered_device list"
  handles :: "nat list"
  hub_observers :: "'o thread_safe_list"
  device_queue :: "'o list"
  changed_devices :: "nat list option"
  stored_devices :: "mir_input_device list"
  device_id_generator :: nat
  hub_ready :: bool
  hub_undefined :: bool
  hub_calls :: "'o hub_call list"

definition make_hub :: "'o input_hub" where
  "make_hub = \<lparr>objects = [], devices = [], handles = [], hub_observers = empty_list_items, device_queue = [], changed_devices = None,
     stored_devices = [], device_id_generator = 0, hub_ready = False, hub_undefined = False, hub_calls = []\<rparr>"

definition invoke :: "'o hub_call list \<Rightarrow> 'o input_hub \<Rightarrow> 'o input_hub" where
  "invoke cs h = h\<lparr>hub_calls := hub_calls h @ cs\<rparr>"

definition tell_hub_observers :: "('o \<Rightarrow> 'o hub_call list) \<Rightarrow> 'o input_hub \<Rightarrow> 'o input_hub" where
  "tell_hub_observers f h = invoke (concat (map f (list_for_each (hub_observers h)))) h"

definition update_object :: "nat \<Rightarrow> (default_device \<Rightarrow> default_device) \<Rightarrow> 'o input_hub \<Rightarrow> 'o input_hub" where
  "update_object a f h = h\<lparr>objects := (objects h)[a := f (objects h ! a)]\<rparr>"

section \<open>Adding and removing devices\<close>

definition store_device_config :: "default_device \<Rightarrow> 'o input_hub \<Rightarrow> 'o input_hub" where
  "store_device_config d h = h\<lparr>stored_devices := stored_devices h @ [device_config d]\<rparr>"

text \<open>All stored configurations with the identifier are removed, and the last one is returned.\<close>

definition get_stored_device_config :: "string \<Rightarrow> 'o input_hub \<Rightarrow> mir_input_device option \<times> 'o input_hub" where
  "get_stored_device_config uid h =
     (find_last (\<lambda>c. uid = mi_unique_id c) (stored_devices h),
      h\<lparr>stored_devices := filter (\<lambda>c. uid \<noteq> mi_unique_id c) (stored_devices h)\<rparr>)"

definition create_new_device_id :: "'o input_hub \<Rightarrow> nat \<times> 'o input_hub" where
  "create_new_device_id h = (device_id_generator h + 1, h\<lparr>device_id_generator := device_id_generator h + 1\<rparr>)"

definition restore_or_create_device :: "input_device \<Rightarrow> 'o input_hub \<Rightarrow> (nat \<times> 'o input_hub) option" where
  "restore_or_create_device dev h =
     (let (conf, h1) = get_stored_device_config (di_unique_id (dev_info dev)) h;
          (made, h2) = (case conf of
                          Some c \<Rightarrow> (make_restored_device c dev, h1)
                        | None \<Rightarrow> (let (i, h') = create_new_device_id h1 in (Some (make_device i dev), h')))
      in case made of
           None \<Rightarrow> None
         | Some (ks, d) \<Rightarrow>
             Some (length (objects h2), invoke (map (Set_keymap_for_device (dd_id d)) ks) (h2\<lparr>objects := objects h2 @ [d]\<rparr>)))"

definition add_device_handle :: "nat \<Rightarrow> 'o input_hub \<Rightarrow> 'o input_hub" where
  "add_device_handle a h =
     (let h1 = h\<lparr>handles := handles h @ [a]\<rparr>;
          h2 = tell_hub_observers (\<lambda>ob. [Device_added ob a, Changes_complete ob]) h1
      in if \<not> hub_ready h2 then (invoke [Ready_for_user_input] h2)\<lparr>hub_ready := True\<rparr> else h2)"

definition remove_device_handle :: "nat \<Rightarrow> 'o input_hub \<Rightarrow> 'o input_hub" where
  "remove_device_handle i h =
     (let removed = filter (\<lambda>a. dd_id (objects h ! a) = i) (handles h)
      in if removed = [] then h
         else let h1 = h\<lparr>handles := filter (\<lambda>a. dd_id (objects h ! a) \<noteq> i) (handles h)\<rparr>;
                  h2 = fold (\<lambda>a. tell_hub_observers (\<lambda>ob. [Device_removed ob a, Changes_complete ob])) removed h1
              in if hub_ready h2 \<and> handles h2 = [] then invoke [Stop_receiving_input] (h2\<lparr>hub_ready := False\<rparr>) else h2)"

text \<open>\<open>RegisteredDevice::start\<close> and \<open>stop\<close>; the queue of the device is known to the multiplexer while it is started.\<close>

definition start_device :: "registered_device \<Rightarrow> 'o input_hub \<Rightarrow> registered_device \<times> 'o input_hub" where
  "start_device rd h = (rd\<lparr>rd_seat := True\<rparr>, invoke [Add_watch (rd_handle rd), Start_device (rd_device rd)] h)"

definition stop_device :: "registered_device \<Rightarrow> 'o input_hub \<Rightarrow> 'o input_hub" where
  "stop_device rd h =
     invoke [Stop_device (rd_device rd)] (update_object (rd_handle rd) disable_queue (invoke [Remove_watch (rd_handle rd)] h))"

definition add_device :: "input_device option \<Rightarrow> 'o input_hub \<Rightarrow> ('o input_hub, unit) outcome option" where
  "add_device device h =
     (case device of
        None \<Rightarrow> Some (throw (Invalid_argument ''Invalid input device'') h)
      | Some dev \<Rightarrow>
          if list_ex (\<lambda>rd. rd_device rd = dev_key dev) (devices h)
          then Some (throw (Logic_error ''Input device already managed by server'') h)
          else case restore_or_create_device dev h of
                 None \<Rightarrow> None
               | Some (a, h1) \<Rightarrow>
                   (let i = dd_id (objects h1 ! a);
                        rd = \<lparr>rd_device = dev_key dev, rd_id = i, rd_handle = a, rd_seat = False\<rparr>;
                        h2 = add_device_handle a (h1\<lparr>devices := devices h1 @ [rd]\<rparr>);
                        h3 = invoke [Seat_add_device i] h2;
                        (rd', h4) = start_device rd h3
                    in Some (ret () (h4\<lparr>devices := (devices h4)[length (devices h1) := rd']\<rparr>))))"

text \<open>What the predicate of \<open>remove_if\<close> does for the item that matches.\<close>

definition release_device :: "registered_device \<Rightarrow> 'o input_hub \<Rightarrow> 'o input_hub" where
  "release_device rd h =
     (let h1 = store_device_config (objects h ! rd_handle rd) h;
          h2 = (if rd_seat rd then stop_device rd (invoke [Seat_remove_device (dd_id (objects h1 ! rd_handle rd))] h1) else h1)
      in remove_device_handle (rd_id rd) h2)"

definition remove_device :: "input_device option \<Rightarrow> 'o input_hub \<Rightarrow> ('o input_hub, unit) outcome" where
  "remove_device device h =
     (case device of
        None \<Rightarrow> throw (Invalid_argument ''Invalid input device'') h
      | Some dev \<Rightarrow>
          (let matching = filter (\<lambda>rd. rd_device rd = dev_key dev) (devices h);
               h1 = fold release_device matching h
           in if matching = [] then throw (Logic_error ''Input device not managed by server'') h1
              else ret () (h1\<lparr>devices := filter (\<lambda>rd. rd_device rd \<noteq> dev_key dev) (devices h1)\<rparr>)))"

section \<open>Events of a device\<close>

text \<open>What a registered device hands on to its seat: \<open>None\<close> when it is not started and the event is dropped.\<close>

datatype sink_event = Input_event | Input_device_state_event | Other_event

definition handle_input :: "sink_event \<Rightarrow> registered_device \<Rightarrow> exn + bool" where
  "handle_input ev rd =
     (if ev = Other_event then Inl (Invalid_argument ''Invalid input event received from device'') else Inr (rd_seat rd))"

definition sink_query :: "registered_device \<Rightarrow> 'a \<Rightarrow> exn + 'a" where
  "sink_query rd x = (if \<not> rd_seat rd then Inl (Runtime_error ''Device not started and has no seat assigned'') else Inr x)"

section \<open>Observers\<close>

definition add_hub_observer :: "'o \<Rightarrow> 'o input_hub \<Rightarrow> 'o input_hub" where
  "add_hub_observer ob h = h\<lparr>device_queue := device_queue h @ [ob]\<rparr>"

definition process_device_queue :: "'o input_hub \<Rightarrow> 'o input_hub" where
  "process_device_queue h =
     (case device_queue h of
        [] \<Rightarrow> h
      | ob # obs \<Rightarrow>
          (let h1 = invoke (map (Device_added ob) (handles h) @ [Changes_complete ob]) (h\<lparr>device_queue := obs\<rparr>)
           in h1\<lparr>hub_observers := list_add (hub_observers h1) ob\<rparr>))"

definition remove_hub_observer :: "'o \<Rightarrow> 'o input_hub \<Rightarrow> 'o input_hub" where
  "remove_hub_observer ob h = h\<lparr>hub_observers := list_remove (hub_observers h) ob\<rparr>"

section \<open>Configuring devices\<close>

text \<open>
  While changes are collected the device is looked up without a check for the end of the list; for a device that is not registered any more
  that is undefined behaviour, which the flag records.
\<close>

definition device_changed :: "nat \<Rightarrow> 'o input_hub \<Rightarrow> 'o input_hub" where
  "device_changed a h =
     (case changed_devices h of
        Some cs \<Rightarrow> if a \<in> set (handles h) then h\<lparr>changed_devices := Some (cs @ [a])\<rparr> else h\<lparr>hub_undefined := True\<rparr>
      | None \<Rightarrow> if a \<in> set (handles h) then tell_hub_observers (\<lambda>ob. [Device_changed ob a, Changes_complete ob]) h else h)"

definition emit_changed_devices :: "'o input_hub \<Rightarrow> 'o input_hub" where
  "emit_changed_devices h =
     (let devices_to_notify = (case changed_devices h of Some cs \<Rightarrow> cs | None \<Rightarrow> [])
      in tell_hub_observers (\<lambda>ob. map (Device_changed ob) devices_to_notify @ [Changes_complete ob]) (h\<lparr>changed_devices := None\<rparr>))"

definition apply_pointer_configuration :: "nat \<Rightarrow> pointer_config \<Rightarrow> 'o input_hub \<Rightarrow> ('o input_hub, unit) outcome" where
  "apply_pointer_configuration a conf h =
     (if dd_pointer (objects h ! a) = None then throw (Invalid_argument ''Cannot apply a pointer configuration'') h
      else if pc_bias conf < -1 \<or> pc_bias conf > 1 then throw (Invalid_argument ''Cursor acceleration bias out of range'') h
      else ret () (device_changed a (update_object a (set_pointer_configuration conf) h)))"

definition apply_touchpad_configuration :: "nat \<Rightarrow> touchpad_config \<Rightarrow> 'o input_hub \<Rightarrow> ('o input_hub, unit) outcome" where
  "apply_touchpad_configuration a conf h =
     (if dd_touchpad (objects h ! a) = None then throw (Invalid_argument ''Cannot apply a touchpad configuration'') h
      else if tc_scroll_mode conf AND button_down_scroll \<noteq> 0 \<and> tc_scroll_button conf = no_scroll_button
      then throw (Invalid_argument ''No scroll button configured'') h
      else ret () (device_changed a (update_object a (set_touchpad_configuration conf) h)))"

definition apply_touchscreen_configuration :: "nat \<Rightarrow> touchscreen_config \<Rightarrow> 'o input_hub \<Rightarrow> ('o input_hub, unit) outcome" where
  "apply_touchscreen_configuration a conf h =
     (if dd_touchscreen (objects h ! a) = None then throw (Invalid_argument ''Cannot apply a touchscreen configuration'') h
      else ret () (device_changed a (update_object a (set_touchscreen_configuration conf) h)))"

definition apply_keyboard_configuration :: "nat \<Rightarrow> keymap \<Rightarrow> 'o input_hub \<Rightarrow> ('o input_hub, unit) outcome option" where
  "apply_keyboard_configuration a conf h =
     (let d = objects h ! a
      in if \<not> contains_capability (di_capabilities (dd_info d)) keyboard_capability
         then Some (throw (Invalid_argument ''Cannot apply a keyboard configuration'') h)
         else case set_keyboard_configuration conf d of
                None \<Rightarrow> None
              | Some (ks, d') \<Rightarrow>
                  Some (ret () (device_changed a (invoke (map (Set_keymap_for_device (dd_id d)) ks) (update_object a (\<lambda>_. d') h)))))"

text \<open>The input thread runs the first action of a device's queue.\<close>

definition run_device_action :: "nat \<Rightarrow> 'o input_hub \<Rightarrow> 'o input_hub" where
  "run_device_action a h =
     (case dd_actions (objects h ! a) of
        Some (s # ss) \<Rightarrow> invoke [Apply_settings (dd_device (objects h ! a)) s] (update_object a (\<lambda>d. d\<lparr>dd_actions := Some ss\<rparr>) h)
      | _ \<Rightarrow> h)"

fun for_each_handle ::
  "(nat \<Rightarrow> 'o input_hub \<Rightarrow> ('o input_hub, unit) outcome option) \<Rightarrow> nat list \<Rightarrow> 'o input_hub \<Rightarrow> ('o input_hub, unit) outcome option" where
  "for_each_handle callback [] h = Some (ret () h)"
| "for_each_handle callback (a # as) h =
     (case callback a h of
        None \<Rightarrow> None
      | Some (Inl e, h') \<Rightarrow> Some (Inl e, h')
      | Some (Inr _, h') \<Rightarrow> for_each_handle callback as h')"

definition for_each_mutable_input_device ::
  "(nat \<Rightarrow> 'o input_hub \<Rightarrow> ('o input_hub, unit) outcome option) \<Rightarrow> 'o input_hub \<Rightarrow> ('o input_hub, unit) outcome option" where
  "for_each_mutable_input_device callback h =
     (let h1 = h\<lparr>changed_devices := Some []\<rparr>
      in case for_each_handle callback (handles h1) h1 of
           None \<Rightarrow> None
         | Some (Inl e, h2) \<Rightarrow> Some (Inl e, h2)
         | Some (Inr _, h2) \<Rightarrow> Some (ret () (emit_changed_devices h2)))"

section \<open>What observers know\<close>

fun observer_of :: "'o hub_call \<Rightarrow> 'o option" where
  "observer_of (Device_added ob a) = Some ob"
| "observer_of (Device_changed ob a) = Some ob"
| "observer_of (Device_removed ob a) = Some ob"
| "observer_of (Changes_complete ob) = Some ob"
| "observer_of _ = None"

fun absorb :: "'o hub_call \<Rightarrow> nat list \<Rightarrow> nat list" where
  "absorb (Device_added ob a) ds = ds @ [a]"
| "absorb (Device_removed ob a) ds = filter (\<lambda>b. b \<noteq> a) ds"
| "absorb _ ds = ds"

definition told :: "'o \<Rightarrow> 'o input_hub \<Rightarrow> 'o hub_call list" where
  "told ob h = filter (\<lambda>c. observer_of c = Some ob) (hub_calls h)"

definition knows :: "'o \<Rightarrow> 'o input_hub \<Rightarrow> nat list" where
  "knows ob h = fold absorb (told ob h) []"

definition members :: "'o input_hub \<Rightarrow> 'o list" where
  "members h = list_for_each (hub_observers h)"

text \<open>A message to observers names only the observer it goes to.\<close>

definition addressed :: "('o \<Rightarrow> 'o hub_call list) \<Rightarrow> bool" where
  "addressed f \<longleftrightarrow> (\<forall>ob. \<forall>c\<in>set (f ob). observer_of c = Some ob)"

lemma addressed_simps [simp]:
  "addressed (\<lambda>ob. [Device_added ob a, Changes_complete ob])" "addressed (\<lambda>ob. [Device_removed ob a, Changes_complete ob])"
  "addressed (\<lambda>ob. [Device_changed ob a, Changes_complete ob])" "addressed (\<lambda>ob. map (Device_changed ob) as @ [Changes_complete ob])"
  by (auto simp: addressed_def)

lemma told_concat:
  assumes "addressed f" "distinct obs"
  shows "filter (\<lambda>c. observer_of c = Some ob) (concat (map f obs)) = (if ob \<in> set obs then f ob else [])"
  using assms(2)
proof (induction obs)
  case (Cons x obs)
  have "filter (\<lambda>c. observer_of c = Some ob) (f x) = (if ob = x then f x else [])"
    using assms(1) by (auto simp: addressed_def filter_id_conv filter_empty_conv)
  with Cons show ?case by auto
qed simp

lemma invoke_frame [simp]:
  "objects (invoke cs h) = objects h" "devices (invoke cs h) = devices h" "handles (invoke cs h) = handles h"
  "hub_observers (invoke cs h) = hub_observers h" "device_queue (invoke cs h) = device_queue h" "changed_devices (invoke cs h) = changed_devices h"
  "stored_devices (invoke cs h) = stored_devices h" "device_id_generator (invoke cs h) = device_id_generator h"
  "hub_ready (invoke cs h) = hub_ready h" "hub_undefined (invoke cs h) = hub_undefined h" "hub_calls (invoke cs h) = hub_calls h @ cs"
  by (simp_all add: invoke_def)

lemma invoke_nothing [simp]: "invoke [] h = h"
  by (simp add: invoke_def)

lemma tell_frame [simp]:
  "objects (tell_hub_observers f h) = objects h" "devices (tell_hub_observers f h) = devices h" "handles (tell_hub_observers f h) = handles h"
  "hub_observers (tell_hub_observers f h) = hub_observers h" "device_queue (tell_hub_observers f h) = device_queue h"
  "changed_devices (tell_hub_observers f h) = changed_devices h" "stored_devices (tell_hub_observers f h) = stored_devices h"
  "device_id_generator (tell_hub_observers f h) = device_id_generator h" "hub_ready (tell_hub_observers f h) = hub_ready h"
  "hub_undefined (tell_hub_observers f h) = hub_undefined h"
  "hub_calls (tell_hub_observers f h) = hub_calls h @ concat (map f (members h))"
  by (simp_all add: tell_hub_observers_def members_def)

section \<open>Invariants\<close>

definition devices_inv :: "'o input_hub \<Rightarrow> bool" where
  "devices_inv h \<longleftrightarrow> map rd_handle (devices h) = handles h \<and> distinct (handles h) \<and> (\<forall>a\<in>set (handles h). a < length (objects h)) \<and>
     (\<forall>rd\<in>set (devices h). rd_seat rd \<and> rd_id rd = dd_id (objects h ! rd_handle rd) \<and> rd_device rd = dd_device (objects h ! rd_handle rd)) \<and>
     distinct (map rd_device (devices h)) \<and> distinct (map rd_id (devices h) @ map mi_id (stored_devices h)) \<and>
     (\<forall>i\<in>set (map rd_id (devices h) @ map mi_id (stored_devices h)). 1 \<le> i \<and> i \<le> device_id_generator h) \<and>
     (hub_ready h \<longleftrightarrow> handles h \<noteq> []) \<and>
     (\<forall>a<length (objects h). (enabled (objects h ! a) \<longleftrightarrow> a \<in> set (handles h)) \<and>
        (dd_keyboard (objects h ! a) = None \<longleftrightarrow> \<not> has_keyboard (dd_info (objects h ! a))))"

definition observers_inv :: "'o set \<Rightarrow> 'o input_hub \<Rightarrow> bool" where
  "observers_inv used h \<longleftrightarrow> distinct (members h @ device_queue h) \<and> set (members h @ device_queue h) \<subseteq> used \<and>
     (\<forall>ob\<in>set (members h). knows ob h = handles h \<and> told ob h \<noteq> [] \<and> last (told ob h) = Changes_complete ob) \<and>
     (\<forall>ob. ob \<notin> used \<or> ob \<in> set (device_queue h) \<longrightarrow> told ob h = [])"

lemma devices_inv_only [simp]:
  "devices_inv (h\<lparr>hub_calls := cs\<rparr>) = devices_inv h" "devices_inv (h\<lparr>changed_devices := ch\<rparr>) = devices_inv h"
  "devices_inv (h\<lparr>hub_undefined := u\<rparr>) = devices_inv h" "devices_inv (h\<lparr>hub_observers := obs\<rparr>) = devices_inv h"
  "devices_inv (h\<lparr>device_queue := q\<rparr>) = devices_inv h"
  by (simp_all add: devices_inv_def)

lemma devices_inv_calls [simp]: "devices_inv (invoke cs h) = devices_inv h" "devices_inv (tell_hub_observers f h) = devices_inv h"
  by (simp_all add: invoke_def tell_hub_observers_def)

text \<open>Objects may change their settings, not their identity.\<close>

definition same_device :: "default_device \<Rightarrow> default_device \<Rightarrow> bool" where
  "same_device d d' \<longleftrightarrow> dd_id d' = dd_id d \<and> dd_device d' = dd_device d \<and> dd_info d' = dd_info d \<and> enabled d' = enabled d \<and>
     (dd_keyboard d' = None \<longleftrightarrow> dd_keyboard d = None)"

lemma update_object_frame [simp]:
  "devices (update_object a f h) = devices h" "handles (update_object a f h) = handles h"
  "hub_observers (update_object a f h) = hub_observers h" "device_queue (update_object a f h) = device_queue h"
  "changed_devices (update_object a f h) = changed_devices h" "stored_devices (update_object a f h) = stored_devices h"
  "device_id_generator (update_object a f h) = device_id_generator h" "hub_ready (update_object a f h) = hub_ready h"
  "hub_undefined (update_object a f h) = hub_undefined h" "hub_calls (update_object a f h) = hub_calls h"
  "objects (update_object a f h) = (objects h)[a := f (objects h ! a)]" "members (update_object a f h) = members h"
  by (simp_all add: update_object_def members_def)

lemma devices_inv_update:
  assumes "devices_inv h" "same_device (objects h ! a) (f (objects h ! a))"
  shows "devices_inv (update_object a f h)"
proof -
  have "same_device (objects h ! b) ((objects h)[a := f (objects h ! a)] ! b)" for b
    using assms(2) by (cases "a < length (objects h) \<and> b = a") (auto simp: list_update_beyond same_device_def not_less)
  then show ?thesis using assms(1) by (simp add: devices_inv_def same_device_def cong del: image_cong_simp)
qed

section \<open>Operations and the invariants\<close>

lemma devices_invD:
  assumes "devices_inv h"
  shows "map rd_handle (devices h) = handles h" "distinct (handles h)" "a \<in> set (handles h) \<Longrightarrow> a < length (objects h)"
    "rd \<in> set (devices h) \<Longrightarrow> rd_seat rd" "rd \<in> set (devices h) \<Longrightarrow> dd_id (objects h ! rd_handle rd) = rd_id rd"
    "rd \<in> set (devices h) \<Longrightarrow> dd_device (objects h ! rd_handle rd) = rd_device rd"
    "distinct (map rd_device (devices h))" "distinct (map rd_id (devices h))" "distinct (map mi_id (stored_devices h))"
    "rd \<in> set (devices h) \<Longrightarrow> c \<in> set (stored_devices h) \<Longrightarrow> rd_id rd \<noteq> mi_id c"
    "rd \<in> set (devices h) \<Longrightarrow> 1 \<le> rd_id rd \<and> rd_id rd \<le> device_id_generator h"
    "c \<in> set (stored_devices h) \<Longrightarrow> 1 \<le> mi_id c \<and> mi_id c \<le> device_id_generator h"
    "hub_ready h \<longleftrightarrow> handles h \<noteq> []" "b < length (objects h) \<Longrightarrow> enabled (objects h ! b) \<longleftrightarrow> b \<in> set (handles h)"
    "b < length (objects h) \<Longrightarrow> dd_keyboard (objects h ! b) = None \<longleftrightarrow> \<not> has_keyboard (dd_info (objects h ! b))"
  using assms unfolding devices_inv_def by (simp_all, auto)

lemma restore_or_create_device_spec:
  assumes "restore_or_create_device dev h = Some (a, h1)" "devices_inv h"
  obtains d ks where "a = length (objects h)" "objects h1 = objects h @ [d]" "enabled d" "dd_device d = dev_key dev" "dd_info d = dev_info dev"
    "dd_keyboard d = None \<longleftrightarrow> \<not> has_keyboard (dev_info dev)" "dd_id d \<notin> rd_id ` set (devices h)" "dd_id d \<notin> mi_id ` set (stored_devices h1)"
    "1 \<le> dd_id d" "dd_id d \<le> device_id_generator h1" "device_id_generator h \<le> device_id_generator h1"
    "stored_devices h1 = filter (\<lambda>c. di_unique_id (dev_info dev) \<noteq> mi_unique_id c) (stored_devices h)"
    "devices h1 = devices h" "handles h1 = handles h" "hub_observers h1 = hub_observers h" "device_queue h1 = device_queue h"
    "changed_devices h1 = changed_devices h" "hub_ready h1 = hub_ready h" "hub_undefined h1 = hub_undefined h"
    "hub_calls h1 = hub_calls h @ map (Set_keymap_for_device (dd_id d)) ks"
proof (cases "find_last (\<lambda>c. di_unique_id (dev_info dev) = mi_unique_id c) (stored_devices h)")
  case None
  let ?d = "snd (make_device (device_id_generator h + 1) dev)" and ?ks = "fst (make_device (device_id_generator h + 1) dev)"
  have "dd_id ?d \<notin> rd_id ` set (devices h)" "dd_id ?d \<notin> mi_id ` set (stored_devices h)"
    using devices_invD(11,12) [OF assms(2)] by fastforce+
  moreover have "a = length (objects h)" "h1 = invoke (map (Set_keymap_for_device (dd_id ?d)) ?ks)
      (h\<lparr>stored_devices := filter (\<lambda>c. di_unique_id (dev_info dev) \<noteq> mi_unique_id c) (stored_devices h),
         device_id_generator := device_id_generator h + 1, objects := objects h @ [?d]\<rparr>)"
    using None assms(1) by (simp_all add: restore_or_create_device_def get_stored_device_config_def create_new_device_id_def split_beta Let_def)
  ultimately show ?thesis by (intro that [of ?d ?ks]) (simp_all add: image_iff)
next
  case (Some c)
  then have c: "c \<in> set (stored_devices h)" "di_unique_id (dev_info dev) = mi_unique_id c" using find_last_in_set by fastforce+
  obtain ks d where r: "make_restored_device c dev = Some (ks, d)"
    using Some assms(1) by (auto simp: restore_or_create_device_def get_stored_device_config_def split: option.splits)
  have "mi_keyboard c = None \<or> has_keyboard (dev_info dev)" using r make_restored_device_fatal [of c dev] by auto
  from make_restored_device_eq [OF this] r have d: "dd_id d = mi_id c" "dd_device d = dev_key dev" "dd_info d = dev_info dev" "enabled d"
    "dd_keyboard d = None \<longleftrightarrow> \<not> has_keyboard (dev_info dev)"
    using \<open>mi_keyboard c = None \<or> has_keyboard (dev_info dev)\<close> by (auto split: option.splits)
  have "inj_on mi_id (set (stored_devices h))" using devices_invD(9) [OF assms(2)] by (simp add: distinct_map)
  then have "dd_id d \<notin> mi_id ` {x \<in> set (stored_devices h). mi_unique_id c \<noteq> mi_unique_id x}"
    using c(1) d(1) by (auto dest: inj_onD)
  moreover have "dd_id d \<notin> rd_id ` set (devices h)" "1 \<le> dd_id d" "dd_id d \<le> device_id_generator h"
    using devices_invD(10) [OF assms(2) _ c(1)] devices_invD(12) [OF assms(2) c(1)] d(1) by force+
  moreover have "a = length (objects h)" "h1 = invoke (map (Set_keymap_for_device (dd_id d)) ks)
      (h\<lparr>stored_devices := filter (\<lambda>c. di_unique_id (dev_info dev) \<noteq> mi_unique_id c) (stored_devices h), objects := objects h @ [d]\<rparr>)"
    using Some assms(1) r by (simp_all add: restore_or_create_device_def get_stored_device_config_def Let_def)
  ultimately show ?thesis using d c(2) by (intro that [of d ks]) simp_all
qed

lemma filter_keymap_calls [simp]: "filter (\<lambda>c. observer_of c = Some ob) (map (Set_keymap_for_device i) ks) = []"
  by (simp add: filter_empty_conv)

lemma restore_or_create_device_frame:
  assumes "restore_or_create_device dev h = Some (a, h1)"
  obtains i ks where "hub_calls h1 = hub_calls h @ map (Set_keymap_for_device i) ks" "handles h1 = handles h" "hub_observers h1 = hub_observers h"
    "device_queue h1 = device_queue h" "devices h1 = devices h" "hub_ready h1 = hub_ready h"
proof -
  obtain st g d ks where "h1 = invoke (map (Set_keymap_for_device (dd_id d)) ks)
      (h\<lparr>stored_devices := st, device_id_generator := g, objects := objects h @ [d]\<rparr>)"
  proof (cases "find_last (\<lambda>c. di_unique_id (dev_info dev) = mi_unique_id c) (stored_devices h)")
    case None
    then show ?thesis
      using assms by (intro that [of "snd (make_device (device_id_generator h + 1) dev)" "fst (make_device (device_id_generator h + 1) dev)" "device_id_generator h + 1"
          "filter (\<lambda>c. di_unique_id (dev_info dev) \<noteq> mi_unique_id c) (stored_devices h)"])
        (simp add: restore_or_create_device_def get_stored_device_config_def create_new_device_id_def Let_def split_beta)
  next
    case (Some c)
    then show ?thesis
      using assms by (cases "make_restored_device c dev")
        (auto simp: restore_or_create_device_def get_stored_device_config_def Let_def intro: that [of _ _ "device_id_generator h"])
  qed
  then show ?thesis by (intro that [of "dd_id d" ks]) simp_all
qed

text \<open>An operation that sends each observer a complete message about the change of the handles keeps them informed.\<close>

lemma observers_inv_message:
  assumes "observers_inv used h" "hub_calls h' = hub_calls h @ cs" "hub_observers h' = hub_observers h" "device_queue h' = device_queue h"
    and "\<And>ob. filter (\<lambda>c. observer_of c = Some ob) cs = (if ob \<in> set (members h) then f ob else [])"
    and "\<And>ob. fold absorb (f ob) (handles h) = handles h'" "\<And>ob. f ob \<noteq> [] \<Longrightarrow> last (f ob) = Changes_complete ob"
  shows "observers_inv used h'"
proof -
  have m: "members h' = members h" by (simp add: members_def assms(3))
  have t: "told ob h' = told ob h @ (if ob \<in> set (members h) then f ob else [])" for ob
    by (simp add: told_def assms(2,5))
  have "knows ob h' = handles h' \<and> told ob h' \<noteq> [] \<and> last (told ob h') = Changes_complete ob" if "ob \<in> set (members h)" for ob
    using assms(1) that assms(6) [of ob] assms(7) [of ob] by (cases "f ob = []") (auto simp: t knows_def observers_inv_def)
  moreover have "told ob h' = []" if "ob \<notin> used \<or> ob \<in> set (device_queue h)" for ob
    using assms(1) that by (auto simp: t observers_inv_def)
  ultimately show ?thesis using assms(1) by (auto simp: observers_inv_def m assms(4))
qed

lemma members_only [simp]: "members (h\<lparr>devices := ds\<rparr>) = members h" "members (h\<lparr>handles := hs\<rparr>) = members h" "members (h\<lparr>objects := os\<rparr>) = members h"
  "members (h\<lparr>device_queue := q\<rparr>) = members h" "members (h\<lparr>hub_ready := r\<rparr>) = members h" "members (h\<lparr>stored_devices := st\<rparr>) = members h"
  "members (h\<lparr>changed_devices := ch\<rparr>) = members h" "members (h\<lparr>hub_calls := cs\<rparr>) = members h" "members (h\<lparr>hub_undefined := u\<rparr>) = members h"
  "members (invoke cs h) = members h" "members (tell_hub_observers f h) = members h"
  by (simp_all add: members_def)

lemma add_device_handle_frame [simp]:
  "objects (add_device_handle a h) = objects h" "devices (add_device_handle a h) = devices h" "handles (add_device_handle a h) = handles h @ [a]"
  "hub_observers (add_device_handle a h) = hub_observers h" "device_queue (add_device_handle a h) = device_queue h"
  "changed_devices (add_device_handle a h) = changed_devices h" "stored_devices (add_device_handle a h) = stored_devices h"
  "device_id_generator (add_device_handle a h) = device_id_generator h" "hub_ready (add_device_handle a h)"
  "hub_undefined (add_device_handle a h) = hub_undefined h"
  "hub_calls (add_device_handle a h) = hub_calls h @ concat (map (\<lambda>ob. [Device_added ob a, Changes_complete ob]) (members h)) @
     (if hub_ready h then [] else [Ready_for_user_input])"
  by (simp_all add: add_device_handle_def Let_def)

lemma add_device_result:
  assumes "add_device (Some dev) h = Some out" "devices_inv h"
  obtains (twice) "dev_key dev \<in> rd_device ` set (devices h)" "out = throw (Logic_error ''Input device already managed by server'') h"
  | (added) a h1 H where "dev_key dev \<notin> rd_device ` set (devices h)" "restore_or_create_device dev h = Some (a, h1)" "out = ret () H"
      "objects H = objects h1" "handles H = handles h1 @ [a]" "hub_ready H"
      "devices H = devices h1 @ [\<lparr>rd_device = dev_key dev, rd_id = dd_id (objects h1 ! a), rd_handle = a, rd_seat = True\<rparr>]"
      "stored_devices H = stored_devices h1" "device_id_generator H = device_id_generator h1" "hub_observers H = hub_observers h1"
      "device_queue H = device_queue h1" "changed_devices H = changed_devices h1" "hub_undefined H = hub_undefined h1"
      "hub_calls H = hub_calls h1 @ concat (map (\<lambda>ob. [Device_added ob a, Changes_complete ob]) (members h1)) @
         (if hub_ready h1 then [] else [Ready_for_user_input]) @ [Seat_add_device (dd_id (objects h1 ! a)), Add_watch a, Start_device (dev_key dev)]"
proof (cases "list_ex (\<lambda>rd. rd_device rd = dev_key dev) (devices h)")
  case True
  then show ?thesis using assms(1) by (intro twice) (auto simp: add_device_def list_ex_iff intro: rev_image_eqI)
next
  case False
  then obtain a h1 where r: "restore_or_create_device dev h = Some (a, h1)"
    using assms(1) by (auto simp: add_device_def split: option.splits)
  show ?thesis
    using assms(1) False r
    by (intro added [of a h1 "state_of out"])
      (auto simp: add_device_def start_device_def Let_def list_ex_iff)
qed

lemma add_device_devices_inv:
  assumes "add_device (Some dev) h = Some out" "devices_inv h"
  shows "devices_inv (state_of out)"
  using assms
proof (cases rule: add_device_result)
  case twice
  then show ?thesis using assms(2) by simp
next
  case (added a h1 H)
  from restore_or_create_device_spec [OF added(2) assms(2)] obtain d ks where d: "a = length (objects h)" "objects h1 = objects h @ [d]" "enabled d"
    "dd_device d = dev_key dev" "dd_info d = dev_info dev" "dd_keyboard d = None \<longleftrightarrow> \<not> has_keyboard (dev_info dev)"
    "dd_id d \<notin> rd_id ` set (devices h)" "dd_id d \<notin> mi_id ` set (stored_devices h1)"
    "1 \<le> dd_id d" "dd_id d \<le> device_id_generator h1" "device_id_generator h \<le> device_id_generator h1"
    "stored_devices h1 = filter (\<lambda>c. di_unique_id (dev_info dev) \<noteq> mi_unique_id c) (stored_devices h)" "devices h1 = devices h" "handles h1 = handles h" by metis
  note D = devices_invD [OF assms(2)]
  have lt: "rd_handle rd < length (objects h)" if "rd \<in> set (devices h)" for rd using D(1,3) that by (metis imageI list.set_map)
  have fresh: "a \<notin> set (handles h)" using D(3) d(1) by blast
  show ?thesis
    unfolding devices_inv_def
  proof (intro conjI)
    show "map rd_handle (devices (state_of out)) = handles (state_of out)" using D(1) added(3,5,7) d(13,14) by simp
    show "distinct (handles (state_of out))" using D(2) fresh added(3,5) d(14) by simp
    show "\<forall>a\<in>set (handles (state_of out)). a < length (objects (state_of out))" using D(3) added(3-5) d(1,2,14) by (auto intro: less_SucI)
    show "\<forall>rd\<in>set (devices (state_of out)). rd_seat rd \<and> rd_id rd = dd_id (objects (state_of out) ! rd_handle rd) \<and>
        rd_device rd = dd_device (objects (state_of out) ! rd_handle rd)"
      using D(4,5,6) lt added(3,4,7) d(1,2,4,13) by (auto simp: nth_append)
    show "distinct (map rd_device (devices (state_of out)))" using D(7) added(1,3,7) d(13) by auto
    have st: "c \<in> set (stored_devices h)" if "c \<in> set (stored_devices h1)" for c using that d(12) by simp
    have "distinct (map mi_id (stored_devices h1))" using D(9) d(12) by (simp add: distinct_map_filter)
    then show "distinct (map rd_id (devices (state_of out)) @ map mi_id (stored_devices (state_of out)))"
      using D(8) D(10) [OF _ st] d(1,2,7,8,13) added(3,7,8) by (auto simp: image_iff)
    show "\<forall>i\<in>set (map rd_id (devices (state_of out)) @ map mi_id (stored_devices (state_of out))). 1 \<le> i \<and> i \<le> device_id_generator (state_of out)"
      using le_trans [OF _ d(11)] D(11) D(12) [OF st] d(1,2,9,10,13) added(3,7-9) by auto
    show "hub_ready (state_of out) = (handles (state_of out) \<noteq> [])" using added(3,5,6) by simp
    show "\<forall>b<length (objects (state_of out)). enabled (objects (state_of out) ! b) = (b \<in> set (handles (state_of out))) \<and>
        (dd_keyboard (objects (state_of out) ! b) = None) = (\<not> has_keyboard (dd_info (objects (state_of out) ! b)))"
      using D(14,15) fresh added(3-5) d(1-3,5,6,14) by (auto simp: nth_append less_Suc_eq)
  qed
qed

lemma add_device_observers_inv:
  assumes "add_device (Some dev) h = Some out" "devices_inv h" "observers_inv used h"
  shows "observers_inv used (state_of out)"
  using assms(1,2)
proof (cases rule: add_device_result)
  case twice
  then show ?thesis using assms(3) by simp
next
  case (added a h1 H)
  obtain i ks where d: "hub_calls h1 = hub_calls h @ map (Set_keymap_for_device i) ks" and
    r: "handles h1 = handles h" "hub_observers h1 = hub_observers h" "device_queue h1 = device_queue h"
    using restore_or_create_device_frame [OF added(2)] by metis
  have m: "members h1 = members h" by (simp add: members_def r(2))
  have dist: "distinct (members h)" using assms(3) by (simp add: observers_inv_def)
  show ?thesis
    by (rule observers_inv_message [OF assms(3), where f = "\<lambda>ob. [Device_added ob a, Changes_complete ob]"])
      (use added(3,5,10,11,14) r(1-3) d m dist in \<open>auto simp: told_concat\<close>)
qed

lemma filter_eq_single: "distinct xs \<Longrightarrow> x \<in> set xs \<Longrightarrow> filter (\<lambda>y. y = x) xs = [x]"
  by (induction xs) (auto simp: filter_empty_conv)

lemma device_by_id:
  assumes "devices_inv h" "rd \<in> set (devices h)" "a \<in> set (handles h)"
  shows "dd_id (objects h ! a) = rd_id rd \<longleftrightarrow> a = rd_handle rd"
proof -
  obtain rd' where rd': "rd' \<in> set (devices h)" "a = rd_handle rd'" using devices_invD(1) [OF assms(1)] assms(3) by (metis (no_types) imageE list.set_map)
  have "inj_on rd_id (set (devices h))" using devices_invD(8) [OF assms(1)] by (simp add: distinct_map)
  then show ?thesis using rd' assms(2) devices_invD(5) [OF assms(1)] by (metis inj_onD)
qed

lemma remove_device_handle_eq:
  assumes "set (handles h) \<noteq> {}" "distinct (handles h)" "b \<in> set (handles h)"
    and "\<And>a. a \<in> set (handles h) \<Longrightarrow> dd_id (objects h ! a) = i \<longleftrightarrow> a = b" "hub_ready h"
  defines "H \<equiv> remove_device_handle i h"
  shows "handles H = filter (\<lambda>a. a \<noteq> b) (handles h)" "objects H = objects h" "devices H = devices h" "stored_devices H = stored_devices h"
    "device_id_generator H = device_id_generator h" "hub_observers H = hub_observers h" "device_queue H = device_queue h"
    "changed_devices H = changed_devices h" "hub_undefined H = hub_undefined h" "hub_ready H \<longleftrightarrow> handles H \<noteq> []"
    "hub_calls H = hub_calls h @ concat (map (\<lambda>ob. [Device_removed ob b, Changes_complete ob]) (members h)) @
       (if handles H = [] then [Stop_receiving_input] else [])"
proof -
  have 1: "filter (\<lambda>a. dd_id (objects h ! a) = i) (handles h) = [b]"
    using filter_eq_single [OF assms(2,3)] assms(4) by (simp cong: filter_cong)
  have 2: "filter (\<lambda>a. dd_id (objects h ! a) \<noteq> i) (handles h) = filter (\<lambda>a. a \<noteq> b) (handles h)"
    using assms(4) by (simp cong: filter_cong)
  show "handles H = filter (\<lambda>a. a \<noteq> b) (handles h)" "objects H = objects h" "devices H = devices h" "stored_devices H = stored_devices h"
    "device_id_generator H = device_id_generator h" "hub_observers H = hub_observers h" "device_queue H = device_queue h"
    "changed_devices H = changed_devices h" "hub_undefined H = hub_undefined h" "hub_ready H \<longleftrightarrow> handles H \<noteq> []"
    "hub_calls H = hub_calls h @ concat (map (\<lambda>ob. [Device_removed ob b, Changes_complete ob]) (members h)) @
       (if handles H = [] then [Stop_receiving_input] else [])"
    using assms(5) by (simp_all add: H_def remove_device_handle_def 1 2 Let_def)
qed

lemma remove_device_result:
  assumes "devices_inv h"
  obtains (unknown) "dev_key dev \<notin> rd_device ` set (devices h)" "remove_device (Some dev) h = throw (Logic_error ''Input device not managed by server'') h"
  | (removed) rd H where "rd \<in> set (devices h)" "rd_device rd = dev_key dev" "remove_device (Some dev) h = ret () H"
      "objects H = (objects h)[rd_handle rd := disable_queue (objects h ! rd_handle rd)]" "handles H = filter (\<lambda>a. a \<noteq> rd_handle rd) (handles h)"
      "devices H = filter (\<lambda>x. rd_device x \<noteq> dev_key dev) (devices h)" "stored_devices H = stored_devices h @ [device_config (objects h ! rd_handle rd)]"
      "device_id_generator H = device_id_generator h" "hub_observers H = hub_observers h" "device_queue H = device_queue h"
      "changed_devices H = changed_devices h" "hub_undefined H = hub_undefined h" "hub_ready H \<longleftrightarrow> handles H \<noteq> []"
      "hub_calls H = hub_calls h @ [Seat_remove_device (rd_id rd), Remove_watch (rd_handle rd), Stop_device (dev_key dev)] @
         concat (map (\<lambda>ob. [Device_removed ob (rd_handle rd), Changes_complete ob]) (members h)) @ (if handles H = [] then [Stop_receiving_input] else [])"
proof (cases "dev_key dev \<in> rd_device ` set (devices h)")
  case False
  then have "filter (\<lambda>rd. rd_device rd = dev_key dev) (devices h) = []" by (simp add: filter_empty_conv) (metis image_eqI)
  then show ?thesis using False by (intro unknown) (simp_all add: remove_device_def)
next
  case True
  then obtain rd where rd: "rd \<in> set (devices h)" "rd_device rd = dev_key dev" by auto
  note D = devices_invD [OF assms]
  have "inj_on rd_device (set (devices h))" using D(7) by (simp add: distinct_map)
  then have "filter (\<lambda>x. rd_device x = dev_key dev) (devices h) = filter (\<lambda>x. x = rd) (devices h)"
    using rd by (intro filter_cong refl) (metis inj_onD)
  then have match: "filter (\<lambda>x. rd_device x = dev_key dev) (devices h) = [rd]"
    using filter_eq_single [OF _ rd(1)] D(7) by (simp add: distinct_map)
  let ?h1 = "stop_device rd (invoke [Seat_remove_device (rd_id rd)] (store_device_config (objects h ! rd_handle rd) h))"
  have h1: "release_device rd h = remove_device_handle (rd_id rd) ?h1"
    using D(4,5) [OF rd(1)] by (simp add: release_device_def store_device_config_def Let_def)
  have a: "rd_handle rd \<in> set (handles h)" using D(1) rd(1) by (metis image_eqI list.set_map)
  have ids: "dd_id (objects ?h1 ! b) = dd_id (objects h ! b)" for b
    by (cases "b = rd_handle rd \<and> b < length (objects h)")
      (auto simp: stop_device_def store_device_config_def disable_queue_def list_update_beyond not_less)
  have same: "handles ?h1 = handles h" "members ?h1 = members h" "hub_ready ?h1 = hub_ready h"
    by (simp_all add: stop_device_def store_device_config_def)
  note R = remove_device_handle_eq [of ?h1 "rd_handle rd" "rd_id rd"]
  have pre: "set (handles ?h1) \<noteq> {}" "distinct (handles ?h1)" "rd_handle rd \<in> set (handles ?h1)" "hub_ready ?h1"
    "\<And>b. b \<in> set (handles ?h1) \<Longrightarrow> dd_id (objects ?h1 ! b) = rd_id rd \<longleftrightarrow> b = rd_handle rd"
    using a D(2,13) device_by_id [OF assms rd(1)] by (auto simp: same ids)
  note R = R [OF pre(1-3,5,4)]
  show ?thesis
    by (rule removed [of rd "(release_device rd h)\<lparr>devices := filter (\<lambda>x. rd_device x \<noteq> dev_key dev) (devices h)\<rparr>"])
      (use rd match R in \<open>simp_all add: remove_device_def h1 same, simp_all add: stop_device_def store_device_config_def\<close>)
qed

lemma remove_device_devices_inv:
  assumes "devices_inv h"
  shows "devices_inv (state_of (remove_device (Some dev) h))"
proof (cases rule: remove_device_result [OF assms, of dev])
  case 1
  then show ?thesis using assms by simp
next
  case (2 rd H)
  note D = devices_invD [OF assms]
  have a: "rd_handle rd \<in> set (handles h)" "rd_handle rd < length (objects h)" using D(1,3) 2(1) by (metis image_eqI list.set_map)+
  have inj: "inj_on rd_device (set (devices h))" "inj_on rd_handle (set (devices h))" "inj_on rd_id (set (devices h))"
    using D(1,2,7,8) by (auto simp: distinct_map dest: arg_cong [of _ _ distinct])
  have same: "rd_device x = dev_key dev \<longleftrightarrow> x = rd" "rd_handle x = rd_handle rd \<longleftrightarrow> x = rd" "rd_id x = rd_id rd \<longleftrightarrow> x = rd" if "x \<in> set (devices h)" for x
    using inj that 2(1,2) by (metis inj_onD)+
  have dev: "devices H = filter (\<lambda>x. x \<noteq> rd) (devices h)" using 2(6) same(1) by (simp cong: filter_cong)
  have ident: "dd_id (objects H ! b) = dd_id (objects h ! b)" "dd_device (objects H ! b) = dd_device (objects h ! b)" "dd_info (objects H ! b) = dd_info (objects h ! b)"
    "dd_keyboard (objects H ! b) = dd_keyboard (objects h ! b)" "enabled (objects H ! b) \<longleftrightarrow> b \<noteq> rd_handle rd \<and> enabled (objects h ! b)" for b
    using 2(4) a(2) by (cases "b = rd_handle rd"; simp add: disable_queue_def enabled_def)+
  have new: "mi_id (device_config (objects h ! rd_handle rd)) = rd_id rd" using D(5) 2(1) by (simp add: device_config_def)
  show ?thesis
    unfolding devices_inv_def 2(3) outcome_sel
  proof (intro conjI)
    have "filter (\<lambda>x. x \<noteq> rd) (devices h) = filter ((\<lambda>a. a \<noteq> rd_handle rd) \<circ> rd_handle) (devices h)"
      using same(2) by (intro filter_cong) auto
    then show "map rd_handle (devices H) = handles H" using 2(5) by (simp add: dev filter_map D(1) [symmetric])
    show "distinct (handles H)" "\<forall>a\<in>set (handles H). a < length (objects H)" using D(2,3) 2(4,5) by simp_all
    show "\<forall>rd\<in>set (devices H). rd_seat rd \<and> rd_id rd = dd_id (objects H ! rd_handle rd) \<and> rd_device rd = dd_device (objects H ! rd_handle rd)"
      using D(4-6) by (simp add: dev ident)
    show "distinct (map rd_device (devices H))" using D(7) by (simp add: dev distinct_map_filter)
    show "distinct (map rd_id (devices H) @ map mi_id (stored_devices H))"
      using D(8,9) D(10) 2(1,7) by (auto simp: dev distinct_map_filter image_iff new) (metis same(3))
    show "\<forall>i\<in>set (map rd_id (devices H) @ map mi_id (stored_devices H)). 1 \<le> i \<and> i \<le> device_id_generator H"
      using D(11,12) 2(1,7,8) new by (auto simp: dev)
    show "hub_ready H = (handles H \<noteq> [])" by (rule 2(13))
    show "\<forall>a<length (objects H). enabled (objects H ! a) = (a \<in> set (handles H)) \<and>
        (dd_keyboard (objects H ! a) = None) = (\<not> has_keyboard (dd_info (objects H ! a)))"
      using D(14,15) 2(5) arg_cong [OF 2(4), of length] by (auto simp: ident)
  qed
qed

lemma remove_device_observers_inv:
  assumes "devices_inv h" "observers_inv used h"
  shows "observers_inv used (state_of (remove_device (Some dev) h))"
proof (cases rule: remove_device_result [OF assms(1), of dev])
  case 1
  then show ?thesis using assms by simp
next
  case (2 rd H)
  have dist: "distinct (members h)" using assms(2) by (simp add: observers_inv_def)
  show ?thesis
    by (rule observers_inv_message [OF assms(2), where f = "\<lambda>ob. [Device_removed ob (rd_handle rd), Changes_complete ob]"])
      (use 2(3,5,9,10,14) dist in \<open>auto simp: told_concat\<close>)
qed

text \<open>Configuring a device.\<close>

lemma device_changed_inv:
  assumes "devices_inv h" "observers_inv used h"
  shows "devices_inv (device_changed a h)" "observers_inv used (device_changed a h)"
proof -
  show "devices_inv (device_changed a h)" using assms(1) by (simp add: device_changed_def split: option.split)
  have dist: "distinct (members h)" using assms(2) by (simp add: observers_inv_def)
  show "observers_inv used (device_changed a h)"
  proof (cases "changed_devices h = None \<and> a \<in> set (handles h)")
    case True
    then show ?thesis
      using dist by (intro observers_inv_message [OF assms(2), where f = "\<lambda>ob. [Device_changed ob a, Changes_complete ob]"])
        (auto simp: device_changed_def told_concat)
  next
    case False
    then show ?thesis
      by (intro observers_inv_message [OF assms(2), where f = "\<lambda>ob. []" and cs = "[]"]) (auto simp: device_changed_def split: option.split)
  qed
qed

lemma observers_inv_quiet:
  assumes "observers_inv used h" "hub_calls h' = hub_calls h @ cs" "\<forall>c\<in>set cs. observer_of c = None" "hub_observers h' = hub_observers h"
    "device_queue h' = device_queue h" "handles h' = handles h"
  shows "observers_inv used h'"
  by (rule observers_inv_message [OF assms(1,2,4,5), where f = "\<lambda>ob. []"]) (use assms(3,6) in \<open>auto simp: filter_empty_conv\<close>)

datatype device_request =
    Pointer_request pointer_config
  | Touchpad_request touchpad_config
  | Touchscreen_request touchscreen_config
  | Keyboard_request keymap

fun apply_request :: "nat \<Rightarrow> device_request \<Rightarrow> 'o input_hub \<Rightarrow> ('o input_hub, unit) outcome option" where
  "apply_request a (Pointer_request c) h = Some (apply_pointer_configuration a c h)"
| "apply_request a (Touchpad_request c) h = Some (apply_touchpad_configuration a c h)"
| "apply_request a (Touchscreen_request c) h = Some (apply_touchscreen_configuration a c h)"
| "apply_request a (Keyboard_request k) h = apply_keyboard_configuration a k h"

fun apply_requests :: "device_request list \<Rightarrow> nat \<Rightarrow> 'o input_hub \<Rightarrow> ('o input_hub, unit) outcome option" where
  "apply_requests [] a h = Some (ret () h)"
| "apply_requests (r # rs) a h =
     (case apply_request a r h of
        None \<Rightarrow> None
      | Some (Inl e, h') \<Rightarrow> Some (Inl e, h')
      | Some (Inr _, h') \<Rightarrow> apply_requests rs a h')"

lemma same_device_set [simp]:
  "same_device d (set_pointer_configuration c d)" "same_device d (set_touchpad_configuration tc d)" "same_device d (set_touchscreen_configuration sc d)"
  "same_device d (d\<lparr>dd_keyboard := Some k\<rparr>) \<longleftrightarrow> dd_keyboard d \<noteq> None" "same_device d d"
  by (auto simp: same_device_def)

lemma configured_inv:
  assumes "devices_inv h" "observers_inv used h" "same_device (objects h ! a) (f (objects h ! a))" "\<forall>c\<in>set cs. observer_of c = None"
  defines "H \<equiv> device_changed a (invoke cs (update_object a f h))"
  shows "devices_inv H \<and> observers_inv used H"
proof -
  have "devices_inv (invoke cs (update_object a f h))" using devices_inv_update [where a = a and f = f, OF assms(1,3)] by simp
  moreover have "observers_inv used (invoke cs (update_object a f h))"
    by (rule observers_inv_quiet [OF assms(2) _ assms(4)]) simp_all
  ultimately show ?thesis unfolding H_def by (simp add: device_changed_inv)
qed

lemma apply_request_inv:
  assumes "devices_inv h" "observers_inv used h" "a < length (objects h)"
  shows "\<exists>out. apply_request a r h = Some out \<and> devices_inv (state_of out) \<and> observers_inv used (state_of out) \<and>
    length (objects (state_of out)) = length (objects h) \<and> handles (state_of out) = handles h"
proof -
  have len: "length (objects (device_changed b h')) = length (objects h')" "handles (device_changed b h') = handles h'" for b and h' :: "'a input_hub"
    by (simp_all add: device_changed_def split: option.split)
  note inv = configured_inv [where a = a and cs = "[]", OF assms(1,2), simplified]
  show ?thesis
  proof (cases r)
    case (Keyboard_request k)
    let ?d = "objects h ! a"
    have kb: "has_keyboard (dd_info ?d) \<longleftrightarrow> dd_keyboard ?d \<noteq> None" using devices_invD(15) [OF assms(1,3)] by simp
    show ?thesis
    proof (cases "dd_keyboard ?d")
      case None
      then show ?thesis using kb assms(1,2) by (simp add: Keyboard_request apply_keyboard_configuration_def)
    next
      case (Some l)
      then obtain ks d' where d': "set_keyboard_configuration k ?d = Some (ks, d')" "same_device ?d d'"
        by (cases "enabled ?d") (auto simp: set_keyboard_eq)
      let ?cs = "map (Set_keymap_for_device (dd_id ?d)) ks"
      have "\<forall>c\<in>set ?cs. observer_of c = None" by simp
      from configured_inv [where a = a and f = "\<lambda>_. d'" and cs = ?cs, OF assms(1,2) d'(2) this]
      show ?thesis using kb Some d'(1) by (simp add: Keyboard_request apply_keyboard_configuration_def len Let_def)
    qed
  qed (use assms(1,2) inv in \<open>auto simp: apply_pointer_configuration_def apply_touchpad_configuration_def apply_touchscreen_configuration_def len\<close>)
qed

lemma apply_requests_inv:
  assumes "devices_inv h" "observers_inv used h" "a < length (objects h)"
  shows "\<exists>out. apply_requests rs a h = Some out \<and> devices_inv (state_of out) \<and> observers_inv used (state_of out) \<and>
    length (objects (state_of out)) = length (objects h) \<and> handles (state_of out) = handles h"
  using assms
proof (induction rs arbitrary: h)
  case (Cons r rs)
  from apply_request_inv [OF Cons.prems, of r] obtain res h1 where 1: "apply_request a r h = Some (res, h1)" "devices_inv h1" "observers_inv used h1"
    "length (objects h1) = length (objects h)" "handles h1 = handles h" by (auto simp: state_of_def)
  then show ?case using Cons.IH [of h1] Cons.prems(3) by (cases res) (auto simp: state_of_def)
qed (simp add: ret_def state_of_def)

lemma for_each_handle_inv:
  assumes "devices_inv h" "observers_inv used h" "\<forall>a\<in>set as. a < length (objects h)"
  shows "\<exists>out. for_each_handle (\<lambda>a. apply_requests (rs a) a) as h = Some out \<and> devices_inv (state_of out) \<and> observers_inv used (state_of out) \<and>
    length (objects (state_of out)) = length (objects h) \<and> handles (state_of out) = handles h"
  using assms
proof (induction as arbitrary: h)
  case (Cons a as)
  from apply_requests_inv [OF Cons.prems(1,2), of a "rs a"] Cons.prems(3) obtain res h1 where
    1: "apply_requests (rs a) a h = Some (res, h1)" "devices_inv h1" "observers_inv used h1"
    "length (objects h1) = length (objects h)" "handles h1 = handles h" by (auto simp: state_of_def)
  then show ?case using Cons.IH [of h1] Cons.prems(3) by (cases res) (auto simp: state_of_def)
qed (simp add: ret_def state_of_def)

lemma emit_changed_devices_inv:
  assumes "devices_inv h" "observers_inv used h"
  shows "devices_inv (emit_changed_devices h)" "observers_inv used (emit_changed_devices h)"
proof -
  show "devices_inv (emit_changed_devices h)" using assms(1) by (simp add: emit_changed_devices_def)
  have quiet: "fold absorb (map (Device_changed ob) cs) ds = ds" for ob cs ds by (induction cs arbitrary: ds) auto
  have "distinct (members h)" using assms(2) by (simp add: observers_inv_def)
  then show "observers_inv used (emit_changed_devices h)"
    by (intro observers_inv_message [OF assms(2), where f = "\<lambda>ob. map (Device_changed ob) (case changed_devices h of Some cs \<Rightarrow> cs | None \<Rightarrow> []) @ [Changes_complete ob]"])
      (auto simp: emit_changed_devices_def told_concat quiet)
qed

lemma for_each_mutable_inv:
  assumes "devices_inv h" "observers_inv used h"
  shows "\<exists>out. for_each_mutable_input_device (\<lambda>a. apply_requests (rs a) a) h = Some out \<and> devices_inv (state_of out) \<and> observers_inv used (state_of out)"
proof -
  let ?h = "h\<lparr>changed_devices := Some []\<rparr>"
  have "devices_inv ?h" using assms(1) by simp
  moreover have "observers_inv used ?h" by (rule observers_inv_quiet [OF assms(2), where cs = "[]"]) simp_all
  moreover have "\<forall>a\<in>set (handles ?h). a < length (objects ?h)" using devices_invD(3) [OF assms(1)] by simp
  ultimately obtain res h1 where "for_each_handle (\<lambda>a. apply_requests (rs a) a) (handles ?h) ?h = Some (res, h1)" "devices_inv h1" "observers_inv used h1"
    using for_each_handle_inv [of ?h used "handles ?h" rs] by (auto simp: state_of_def)
  then show ?thesis
    using emit_changed_devices_inv [of h1 used] by (cases res) (auto simp: for_each_mutable_input_device_def Let_def state_of_def ret_def)
qed

section \<open>Runs of the hub\<close>

text \<open>
  Everything that may happen to the hub, in any order.  Observers are distinct objects, each added once.  A device is configured by anyone who
  holds it, which may be after it is gone; the last condition of \<open>configured\<close> excludes the undefined lookup.
\<close>

inductive hub_run :: "'o set \<Rightarrow> 'o input_hub \<Rightarrow> bool" where
  start: "hub_run {} make_hub"
| added: "hub_run used h \<Longrightarrow> add_device dev h = Some out \<Longrightarrow> hub_run used (state_of out)"
| removed: "hub_run used h \<Longrightarrow> hub_run used (state_of (remove_device dev h))"
| observed: "hub_run used h \<Longrightarrow> ob \<notin> used \<Longrightarrow> hub_run (insert ob used) (add_hub_observer ob h)"
| processed: "hub_run used h \<Longrightarrow> hub_run used (process_device_queue h)"
| unobserved: "hub_run used h \<Longrightarrow> hub_run used (remove_hub_observer ob h)"
| configured: "hub_run used h \<Longrightarrow> apply_request a r h = Some out \<Longrightarrow> a < length (objects h) \<Longrightarrow>
    a \<in> set (handles h) \<or> changed_devices h = None \<Longrightarrow> hub_run used (state_of out)"
| configured_all: "hub_run used h \<Longrightarrow> for_each_mutable_input_device (\<lambda>a. apply_requests (rs a) a) h = Some out \<Longrightarrow> hub_run used (state_of out)"
| dispatched: "hub_run used h \<Longrightarrow> a < length (objects h) \<Longrightarrow> hub_run used (run_device_action a h)"

lemma add_remove_none [simp]:
  "add_device None h = Some (throw (Invalid_argument ''Invalid input device'') h)" "remove_device None h = throw (Invalid_argument ''Invalid input device'') h"
  by (simp_all add: add_device_def remove_device_def)

lemma observed_inv:
  assumes "observers_inv used h" "ob \<notin> used"
  shows "observers_inv (insert ob used) (add_hub_observer ob h)"
  using assms by (auto simp: observers_inv_def add_hub_observer_def members_def told_def knows_def)

lemma processed_inv:
  assumes "observers_inv used h"
  shows "observers_inv used (process_device_queue h)"
proof (cases "device_queue h")
  case Nil
  then show ?thesis using assms by (simp add: process_device_queue_def)
next
  case (Cons ob obs)
  let ?H = "process_device_queue h"
  have m: "set (members ?H) = insert ob (set (members h))" "distinct (members h) \<Longrightarrow> ob \<notin> set (members h) \<Longrightarrow> distinct (members ?H)"
    using tsl.set_members_add [of "hub_observers h" ob] tsl.distinct_add [of "hub_observers h" ob]
    by (simp_all add: Cons process_device_queue_def Let_def members_def)
  have q: "device_queue ?H = obs" "handles ?H = handles h" by (simp_all add: Cons process_device_queue_def Let_def)
  have old: "told ob h = []" "ob \<notin> set (members h)" using assms Cons by (auto simp: observers_inv_def)
  have t: "told x ?H = told x h @ (if x = ob then map (Device_added ob) (handles h) @ [Changes_complete ob] else [])" for x
    by (auto simp: told_def Cons process_device_queue_def Let_def filter_empty_conv filter_id_conv)
  have "fold absorb (map (Device_added ob) ds) acc = acc @ ds" for ds acc by (induction ds arbitrary: acc) auto
  then have "knows ob ?H = handles h" "last (told ob ?H) = Changes_complete ob" "told ob ?H \<noteq> []" by (simp_all add: knows_def t old)
  moreover have "knows x ?H = knows x h" "told x ?H = told x h" if "x \<in> set (members h)" for x using that old(2) by (auto simp: knows_def t)
  moreover have "told x ?H = []" if "x \<notin> used \<or> x \<in> set obs" for x using that assms Cons by (auto simp: t observers_inv_def)
  ultimately show ?thesis using assms m old(2) Cons by (auto simp: observers_inv_def q)
qed

lemma unobserved_inv:
  assumes "observers_inv used h"
  shows "observers_inv used (remove_hub_observer ob h)"
proof -
  let ?H = "remove_hub_observer ob h"
  have m: "mset (members ?H) = mset (members h) - {#ob#}"
    by (simp add: remove_hub_observer_def members_def mset_list_remove)
  have "distinct (members ?H)" "set (members ?H) \<subseteq> set (members h)"
    using assms m by (metis distinct_append distinct_remove1 mset_eq_imp_distinct_iff mset_remove1 observers_inv_def)
      (metis m in_diffD set_mset_mset subsetI)
  then show ?thesis using assms by (auto simp: observers_inv_def remove_hub_observer_def told_def knows_def members_def)
qed

lemma hub_run_inv:
  assumes "hub_run used h"
  shows "devices_inv h \<and> observers_inv used h"
  using assms
proof (induction rule: hub_run.induct)
  case start
  show ?case by (simp add: devices_inv_def observers_inv_def make_hub_def members_def told_def empty_list_items_def)
next
  case (added used h dev out)
  then show ?case by (cases dev) (auto simp: add_device_devices_inv add_device_observers_inv)
next
  case (removed used h dev)
  then show ?case by (cases dev) (auto simp: remove_device_devices_inv remove_device_observers_inv)
next
  case (observed used h ob)
  then show ?case using observed_inv [of used h ob] by (simp add: add_hub_observer_def)
next
  case (processed used h)
  then show ?case using processed_inv [of used h] by (simp add: process_device_queue_def Let_def split: list.split)
next
  case (unobserved used h ob)
  then show ?case using unobserved_inv [of used h ob] by (simp add: remove_hub_observer_def)
next
  case (configured used h a r out)
  then show ?case using apply_request_inv [of h used a r] by auto
next
  case (configured_all used h rs out)
  then show ?case using for_each_mutable_inv [of h used rs] by auto
next
  case (dispatched used h a)
  have "devices_inv (run_device_action a h)"
    using dispatched.IH devices_inv_update [of h a "\<lambda>d. d\<lparr>dd_actions := Some ss\<rparr>" for ss]
    by (auto simp: run_device_action_def same_device_def enabled_def split: option.splits list.splits)
  moreover have "observers_inv used (run_device_action a h)"
    using dispatched.IH
    by (auto simp: run_device_action_def split: option.splits list.splits
        intro: observers_inv_quiet [of used h _ "[Apply_settings (dd_device (objects h ! a)) s]" for s])
  ultimately show ?case ..
qed

section \<open>What the seat and the server know\<close>

fun server_absorb :: "'o hub_call \<Rightarrow> nat list \<times> bool \<Rightarrow> nat list \<times> bool" where
  "server_absorb (Seat_add_device i) (ids, r) = (ids @ [i], r)"
| "server_absorb (Seat_remove_device i) (ids, r) = (filter (\<lambda>j. j \<noteq> i) ids, r)"
| "server_absorb Ready_for_user_input (ids, r) = (ids, True)"
| "server_absorb Stop_receiving_input (ids, r) = (ids, False)"
| "server_absorb _ v = v"

text \<open>The devices of the seat, and whether the server has announced that there is input.\<close>

definition server_view :: "'o input_hub \<Rightarrow> nat list \<times> bool" where
  "server_view h = fold server_absorb (hub_calls h) ([], False)"

definition server_inv :: "'o input_hub \<Rightarrow> bool" where
  "server_inv h \<longleftrightarrow> server_view h = (map rd_id (devices h), hub_ready h)"

lemma server_absorb_quiet [simp]:
  "fold server_absorb (map (Device_added ob) as) v = v" "fold server_absorb (map (Device_changed ob) as) v = v"
  "fold server_absorb (map (Set_keymap_for_device i) ks) v = v"
proof -
  show "fold server_absorb (map (Device_added ob) as) v = v" by (induction as) simp_all
  show "fold server_absorb (map (Device_changed ob) as) v = v" by (induction as) simp_all
  show "fold server_absorb (map (Set_keymap_for_device i) ks) v = v" by (induction ks) simp_all
qed

lemma server_absorb_messages:
  assumes "\<And>ob v. fold server_absorb (f ob) v = v"
  shows "fold server_absorb (concat (map f obs)) v = v"
  by (induction obs) (simp_all add: assms)

lemma server_inv_quiet:
  assumes "server_inv h" "hub_calls h' = hub_calls h @ cs" "\<And>v. fold server_absorb cs v = v" "devices h' = devices h" "hub_ready h' = hub_ready h"
  shows "server_inv h'"
  using assms by (simp add: server_inv_def server_view_def)

lemma device_changed_quiet:
  "server_inv h \<Longrightarrow> server_inv (device_changed a h)"
  by (rule server_inv_quiet [of h _ "if changed_devices h = None \<and> a \<in> set (handles h)
        then concat (map (\<lambda>ob. [Device_changed ob a, Changes_complete ob]) (members h)) else []"])
    (auto simp: device_changed_def server_absorb_messages split: option.split)

lemma apply_request_server_inv:
  assumes "server_inv h" "apply_request a r h = Some out"
  shows "server_inv (state_of out)"
proof -
  have 1: "server_inv (invoke cs (update_object a f h))" if "\<And>v. fold server_absorb cs v = v" for cs f
    by (rule server_inv_quiet [OF assms(1) _ that]) simp_all
  have 2: "server_inv (device_changed a (update_object a f h))" for f using 1 [of "[]" f] device_changed_quiet by simp
  have 3: "server_inv (device_changed a (invoke (map (Set_keymap_for_device i) ks) (update_object a f h)))" for i ks f
    using 1 [of "map (Set_keymap_for_device i) ks" f] device_changed_quiet by simp
  show ?thesis
    using assms 2 3
    by (cases r) (auto simp: apply_pointer_configuration_def apply_touchpad_configuration_def apply_touchscreen_configuration_def
        apply_keyboard_configuration_def Let_def split: if_splits option.splits)
qed

lemma apply_requests_server_inv:
  "server_inv h \<Longrightarrow> apply_requests rs a h = Some out \<Longrightarrow> server_inv (state_of out)"
proof (induction rs arbitrary: h)
  case (Cons r rs)
  then show ?case using apply_request_server_inv [of h a r] by (fastforce simp: state_of_def split: option.splits sum.splits)
qed (auto)

lemma for_each_handle_server_inv:
  "server_inv h \<Longrightarrow> for_each_handle (\<lambda>a. apply_requests (rs a) a) as h = Some out \<Longrightarrow> server_inv (state_of out)"
proof (induction as arbitrary: h)
  case (Cons a as)
  then show ?case using apply_requests_server_inv [of h "rs a" a] by (fastforce simp: state_of_def split: option.splits sum.splits)
qed (auto)

lemma for_each_mutable_server_inv:
  assumes "server_inv h" "for_each_mutable_input_device (\<lambda>a. apply_requests (rs a) a) h = Some out"
  shows "server_inv (state_of out)"
proof -
  have emit: "server_inv (emit_changed_devices h')" if "server_inv h'" for h' :: "'a input_hub"
    by (rule server_inv_quiet [OF that, of _ "concat (map (\<lambda>ob. map (Device_changed ob) (case changed_devices h' of Some cs \<Rightarrow> cs | None \<Rightarrow> []) @ [Changes_complete ob]) (members h'))"])
      (auto simp: emit_changed_devices_def server_absorb_messages)
  have "server_inv (h\<lparr>changed_devices := Some []\<rparr>)" using assms(1) by (simp add: server_inv_def server_view_def)
  with for_each_handle_server_inv [OF this] assms(2) emit show ?thesis
    by (fastforce simp: for_each_mutable_input_device_def Let_def state_of_def ret_def split: option.splits sum.splits)
qed

lemma add_device_server_inv:
  assumes "devices_inv h" "server_inv h" "add_device (Some dev) h = Some out"
  shows "server_inv (state_of out)"
  using assms(3,1)
proof (cases rule: add_device_result)
  case twice
  then show ?thesis using assms(2) by simp
next
  case (added a h1 H)
  show ?thesis
  proof (rule restore_or_create_device_frame [OF added(2)])
    fix i ks
    assume r: "hub_calls h1 = hub_calls h @ map (Set_keymap_for_device i) ks" "devices h1 = devices h" "hub_ready h1 = hub_ready h"
    have "server_view H = (map rd_id (devices h) @ [dd_id (objects h1 ! a)], True)"
      using assms(2) by (simp add: server_inv_def server_view_def added(14) r server_absorb_messages)
    then show ?thesis using added(3,6,7) r(2) by (simp add: server_inv_def)
  qed
qed

lemma remove_device_server_inv:
  assumes "devices_inv h" "server_inv h"
  shows "server_inv (state_of (remove_device (Some dev) h))"
proof (cases rule: remove_device_result [OF assms(1), of dev])
  case 1
  then show ?thesis using assms(2) by simp
next
  case (2 rd H)
  have "inj_on rd_device (set (devices h))" "inj_on rd_id (set (devices h))" using devices_invD(7,8) [OF assms(1)] by (simp_all add: distinct_map)
  then have "rd_device x \<noteq> dev_key dev \<longleftrightarrow> rd_id x \<noteq> rd_id rd" if "x \<in> set (devices h)" for x
    using 2(1,2) that by (metis inj_onD)
  then have "filter (\<lambda>j. j \<noteq> rd_id rd) (map rd_id (devices h)) = map rd_id (devices H)"
    by (simp add: 2(6) filter_map comp_def cong: filter_cong)
  moreover have "server_view H = (filter (\<lambda>j. j \<noteq> rd_id rd) (map rd_id (devices h)), hub_ready h \<and> handles H \<noteq> [])"
    using assms(2) by (simp add: server_inv_def server_view_def 2(14) server_absorb_messages)
  moreover have "hub_ready h" using devices_invD(1,13) [OF assms(1)] 2(1) by auto
  ultimately show ?thesis using 2(3,13) by (simp add: server_inv_def)
qed

lemma hub_run_server_inv:
  assumes "hub_run used h"
  shows "server_inv h"
  using assms
proof (induction rule: hub_run.induct)
  case start
  show ?case by (simp add: server_inv_def server_view_def make_hub_def)
next
  case (added used h dev out)
  then show ?case using add_device_server_inv [of h _ out] hub_run_inv [of used h] by (cases dev) auto
next
  case (removed used h dev)
  then show ?case using remove_device_server_inv [of h] hub_run_inv [of used h] by (cases dev) auto
next
  case (processed used h)
  then show ?case
    by (intro server_inv_quiet [OF processed.IH, of _ "case device_queue h of [] \<Rightarrow> [] | ob # obs \<Rightarrow> map (Device_added ob) (handles h) @ [Changes_complete ob]"])
      (auto simp: process_device_queue_def Let_def split: list.split)
next
  case (configured used h a r out)
  then show ?case using apply_request_server_inv by blast
next
  case (configured_all used h rs out)
  then show ?case using for_each_mutable_server_inv by blast
next
  case (dispatched used h a)
  then show ?case
    by (intro server_inv_quiet [OF dispatched.IH, of _ "case dd_actions (objects h ! a) of Some (s # ss) \<Rightarrow> [Apply_settings (dd_device (objects h ! a)) s] | _ \<Rightarrow> []"])
      (auto simp: run_device_action_def split: option.split list.split)
qed (auto simp: server_inv_def server_view_def add_hub_observer_def remove_hub_observer_def)

section \<open>Devices that come back\<close>

lemma restored_from:
  assumes "find_last (\<lambda>c. di_unique_id (dev_info dev) = mi_unique_id c) (stored_devices h) = Some c" "mi_keyboard c = None \<or> has_keyboard (dev_info dev)"
  shows "\<exists>r h1. make_restored_device c dev = Some r \<and> restore_or_create_device dev h = Some (length (objects h), h1) \<and>
    objects h1 = objects h @ [snd r] \<and> devices h1 = devices h"
proof -
  obtain r where r: "make_restored_device c dev = Some r" using make_restored_device_eq [OF assms(2)] by blast
  then show ?thesis using assms(1) by (simp add: restore_or_create_device_def get_stored_device_config_def split_beta)
qed

lemma add_device_restores:
  assumes "devices_inv h" "find_last (\<lambda>c. di_unique_id (dev_info dev) = mi_unique_id c) (stored_devices h) = Some c" "mi_keyboard c = None \<or> has_keyboard (dev_info dev)"
    and "dev_key dev \<notin> rd_device ` set (devices h)"
  shows "\<exists>r H. make_restored_device c dev = Some r \<and> add_device (Some dev) h = Some (ret () H) \<and> last (handles H) = length (objects h) \<and>
    objects H ! length (objects h) = snd r"
proof -
  obtain r h1 where r: "make_restored_device c dev = Some r" "restore_or_create_device dev h = Some (length (objects h), h1)"
    "objects h1 = objects h @ [snd r]"
    using restored_from [OF assms(2,3)] by blast
  have "\<not> list_ex (\<lambda>rd. rd_device rd = dev_key dev) (devices h)" using assms(4) by (simp add: list_ex_iff) (metis image_eqI)
  then have out: "add_device (Some dev) h = Some (the (add_device (Some dev) h))" using r(2) by (simp add: add_device_def Let_def split_beta)
  from out assms(1) show ?thesis
  proof (cases rule: add_device_result)
    case twice
    then show ?thesis using assms(4) by blast
  next
    case (added a h1' H)
    then show ?thesis using r out by (intro exI [of _ r] exI [of _ H]) (simp add: nth_append)
  qed
qed

text \<open>The configuration a device reports is the one it is made from again.\<close>

lemma restored_config:
  assumes "make_restored_device (device_config d) dev = Some r" "dev_info dev = dd_info d" "dd_keyboard d = None \<longleftrightarrow> \<not> has_keyboard (dd_info d)"
    and "dev_pointer dev = None \<longleftrightarrow> dd_pointer d = None" "dev_touchpad dev = None \<longleftrightarrow> dd_touchpad d = None"
    and "dev_touchscreen dev = None \<longleftrightarrow> dd_touchscreen d = None"
  shows "device_config (snd r) = device_config d"
proof -
  have kb: "mi_keyboard (device_config d) = None \<or> has_keyboard (dev_info dev)" using assms(2,3) by (simp add: device_config_def)
  note R = make_restored_device_eq [OF kb, unfolded assms(1) option.inject, simplified]
  have conf: "mi_pointer (device_config d) = pointer_configuration d" "mi_touchpad (device_config d) = touchpad_configuration d"
    "mi_touchscreen (device_config d) = touchscreen_configuration d" "mi_keyboard (device_config d) = dd_keyboard d" "mi_id (device_config d) = dd_id d"
    by (simp_all add: device_config_def)
  have none: "pointer_configuration d = None \<longleftrightarrow> dd_pointer d = None" "touchpad_configuration d = None \<longleftrightarrow> dd_touchpad d = None"
    "touchscreen_configuration d = None \<longleftrightarrow> dd_touchscreen d = None" for d
    by (simp_all add: pointer_configuration_def touchpad_configuration_def touchscreen_configuration_def)
  have keep: "dd_pointer (snd r) = None" if "dd_pointer d = None"
    using assms(1,4) that none(1) [of d]
    by (auto simp: make_restored_device_def Let_def split_beta conf set_keyboard_eq set_touchpad_configuration_def set_touchscreen_configuration_def
        enqueue_setting_def split: option.splits if_splits)
  have keep2: "dd_touchpad (snd r) = None" if "dd_touchpad d = None"
    using assms(1,5) that none(2) [of d]
    by (auto simp: make_restored_device_def Let_def split_beta conf set_keyboard_eq set_pointer_configuration_def set_touchscreen_configuration_def
        enqueue_setting_def split: option.splits if_splits)
  have keep3: "dd_touchscreen (snd r) = None" if "dd_touchscreen d = None"
    using assms(1,6) that none(3) [of d]
    by (auto simp: make_restored_device_def Let_def split_beta conf set_keyboard_eq set_pointer_configuration_def set_touchpad_configuration_def
        enqueue_setting_def split: option.splits if_splits)
  have "pointer_configuration (snd r) = pointer_configuration d"
    using R keep none(1) [of d] none(1) [of "snd r"] by (cases "dd_pointer d = None") (auto simp: conf)
  moreover have "touchpad_configuration (snd r) = touchpad_configuration d"
    using R keep2 none(2) [of d] none(2) [of "snd r"] by (cases "dd_touchpad d = None") (auto simp: conf)
  moreover have "touchscreen_configuration (snd r) = touchscreen_configuration d"
    using R keep3 none(3) [of d] none(3) [of "snd r"] by (cases "dd_touchscreen d = None") (auto simp: conf)
  moreover have "dd_keyboard (snd r) = dd_keyboard d" using R assms(2,3) by (auto simp: conf split: option.splits)
  ultimately show ?thesis using R assms(2) by (simp add: device_config_def)
qed

text \<open>What may happen while a device is away: everything, except that a device with its unique identifier arrives.\<close>

inductive meanwhile :: "string \<Rightarrow> 'o set \<Rightarrow> 'o input_hub \<Rightarrow> 'o set \<Rightarrow> 'o input_hub \<Rightarrow> bool"
  for uid :: string and used0 :: "'o set" and h0 :: "'o input_hub" where
  none: "meanwhile uid used0 h0 used0 h0"
| added: "meanwhile uid used0 h0 used h \<Longrightarrow> (\<And>d. dev = Some d \<Longrightarrow> di_unique_id (dev_info d) \<noteq> uid) \<Longrightarrow> add_device dev h = Some out \<Longrightarrow>
    meanwhile uid used0 h0 used (state_of out)"
| removed: "meanwhile uid used0 h0 used h \<Longrightarrow> meanwhile uid used0 h0 used (state_of (remove_device dev h))"
| observed: "meanwhile uid used0 h0 used h \<Longrightarrow> ob \<notin> used \<Longrightarrow> meanwhile uid used0 h0 (insert ob used) (add_hub_observer ob h)"
| processed: "meanwhile uid used0 h0 used h \<Longrightarrow> meanwhile uid used0 h0 used (process_device_queue h)"
| unobserved: "meanwhile uid used0 h0 used h \<Longrightarrow> meanwhile uid used0 h0 used (remove_hub_observer ob h)"
| configured: "meanwhile uid used0 h0 used h \<Longrightarrow> apply_request a r h = Some out \<Longrightarrow> a < length (objects h) \<Longrightarrow>
    a \<in> set (handles h) \<or> changed_devices h = None \<Longrightarrow> meanwhile uid used0 h0 used (state_of out)"
| configured_all: "meanwhile uid used0 h0 used h \<Longrightarrow> for_each_mutable_input_device (\<lambda>a. apply_requests (rs a) a) h = Some out \<Longrightarrow>
    meanwhile uid used0 h0 used (state_of out)"
| dispatched: "meanwhile uid used0 h0 used h \<Longrightarrow> a < length (objects h) \<Longrightarrow> meanwhile uid used0 h0 used (run_device_action a h)"

text \<open>Which devices there are, what they are and what is remembered of others; configuring a device leaves that alone.\<close>

definition same_inventory :: "'o input_hub \<Rightarrow> 'o input_hub \<Rightarrow> bool" where
  "same_inventory h h' \<longleftrightarrow> devices h' = devices h \<and> stored_devices h' = stored_devices h \<and> map dd_info (objects h') = map dd_info (objects h)"

lemma same_inventory_trans: "same_inventory h h1 \<Longrightarrow> same_inventory h1 h2 \<Longrightarrow> same_inventory h h2"
  by (simp add: same_inventory_def)

lemma map_update_same: "f y = f (xs ! a) \<Longrightarrow> map f (xs[a := y]) = map f xs"
  by (cases "a < length xs") (simp_all add: map_update list_update_same_conv list_update_beyond)

lemma same_inventory_update [simp]:
  "dd_info (f (objects h ! a)) = dd_info (objects h ! a) \<Longrightarrow> same_inventory h (update_object a f h)" "same_inventory h h" "same_inventory h (invoke cs h)"
  "same_inventory h (device_changed a h)" "same_inventory h (emit_changed_devices h)" "same_inventory h (h\<lparr>changed_devices := ch\<rparr>)"
  by (simp_all add: same_inventory_def map_update_same device_changed_def emit_changed_devices_def Let_def split: option.split)

lemma kept_info [simp]:
  "dd_info (set_pointer_configuration c d) = dd_info d" "dd_info (set_touchpad_configuration tc d) = dd_info d" "dd_info (set_touchscreen_configuration sc d) = dd_info d"
  using same_device_set unfolding same_device_def by blast+

lemma configured_inventory:
  "dd_info (f (objects h ! a)) = dd_info (objects h ! a) \<Longrightarrow> same_inventory h (device_changed a (invoke cs (update_object a f h)))"
  by (meson same_inventory_trans same_inventory_update)

lemma apply_request_inventory:
  assumes "apply_request a r h = Some out"
  shows "same_inventory h (state_of out)"
proof (cases r)
  case (Keyboard_request k)
  have "dd_info d' = dd_info (objects h ! a)" if "set_keyboard_configuration k (objects h ! a) = Some (ks, d')" for ks d'
    using that by (auto simp: set_keyboard_configuration_def split: if_splits option.splits)
  then show ?thesis using assms configured_inventory [of "\<lambda>_. d'" h a for d']
    by (auto simp: Keyboard_request apply_keyboard_configuration_def Let_def split: if_splits option.splits)
qed (use assms configured_inventory [of _ h a "[]"] in
  \<open>auto simp: apply_pointer_configuration_def apply_touchpad_configuration_def apply_touchscreen_configuration_def split: if_splits\<close>)

lemma apply_requests_inventory: "apply_requests rs a h = Some out \<Longrightarrow> same_inventory h (state_of out)"
proof (induction rs arbitrary: h)
  case (Cons r rs)
  then show ?case using apply_request_inventory [of a r h]
    by (fastforce simp: state_of_def split: option.splits sum.splits intro: same_inventory_trans)
qed auto

lemma for_each_handle_inventory: "for_each_handle (\<lambda>a. apply_requests (rs a) a) as h = Some out \<Longrightarrow> same_inventory h (state_of out)"
proof (induction as arbitrary: h)
  case (Cons a as)
  then show ?case using apply_requests_inventory [of "rs a" a h]
    by (fastforce simp: state_of_def split: option.splits sum.splits intro: same_inventory_trans)
qed auto

lemma for_each_mutable_inventory:
  assumes "for_each_mutable_input_device (\<lambda>a. apply_requests (rs a) a) h = Some out"
  shows "same_inventory h (state_of out)"
proof -
  let ?h = "h\<lparr>changed_devices := Some []\<rparr>"
  obtain res h1 where f: "for_each_handle (\<lambda>a. apply_requests (rs a) a) (handles ?h) ?h = Some (res, h1)"
      "state_of out = h1 \<or> state_of out = emit_changed_devices h1"
    using assms by (auto simp: for_each_mutable_input_device_def Let_def state_of_def ret_def split: option.splits sum.splits)
  have "same_inventory ?h h1" using for_each_handle_inventory [OF f(1)] by (simp add: state_of_def)
  then have "same_inventory h h1" by (rule same_inventory_trans [rotated]) simp
  then show ?thesis using f(2) same_inventory_trans same_inventory_update(5) by metis
qed

text \<open>Nothing that is connected has the unique identifier, and what is remembered for it last is this.\<close>

definition remembered :: "string \<Rightarrow> mir_input_device \<Rightarrow> 'o input_hub \<Rightarrow> bool" where
  "remembered uid c h \<longleftrightarrow> (\<forall>rd\<in>set (devices h). di_unique_id (dd_info (objects h ! rd_handle rd)) \<noteq> uid) \<and>
     find_last (\<lambda>c. uid = mi_unique_id c) (stored_devices h) = Some c"

lemma remembered_same:
  assumes "remembered uid c h" "same_inventory h h'" "devices_inv h"
  shows "remembered uid c h'"
proof -
  have "dd_info (objects h' ! rd_handle rd) = dd_info (objects h ! rd_handle rd)" if "rd \<in> set (devices h)" for rd
  proof -
    have "rd_handle rd < length (objects h)" using devices_invD(1,3) [OF assms(3)] that by (metis image_eqI list.set_map)
    moreover have "map dd_info (objects h') = map dd_info (objects h)" using assms(2) by (simp add: same_inventory_def)
    ultimately show ?thesis by (metis length_map nth_map)
  qed
  then show ?thesis using assms(1,2) by (simp add: remembered_def same_inventory_def)
qed

lemma find_last_snoc: "find_last P (xs @ [x]) = (if P x then Some x else find_last P xs)"
  by (simp add: find_last_def)

lemma find_last_filter: "(\<And>x. P x \<Longrightarrow> Q x) \<Longrightarrow> find_last P (filter Q xs) = find_last P xs"
proof (induction xs rule: rev_induct)
  case Nil
  show ?case by simp
next
  case (snoc x xs)
  then show ?case by (cases "Q x") (auto simp: find_last_snoc)
qed

lemma remembered_added:
  assumes "remembered uid c h" "devices_inv h" "add_device (Some dev) h = Some out" "di_unique_id (dev_info dev) \<noteq> uid"
  shows "remembered uid c (state_of out)"
  using assms(3,2)
proof (cases rule: add_device_result)
  case twice
  then show ?thesis using assms(1) by simp
next
  case (added a h1 H)
  obtain d where d: "a = length (objects h)" "objects h1 = objects h @ [d]" "dd_info d = dev_info dev" "devices h1 = devices h"
      "stored_devices h1 = filter (\<lambda>c. di_unique_id (dev_info dev) \<noteq> mi_unique_id c) (stored_devices h)"
    by (rule restore_or_create_device_spec [OF added(2) assms(2)]) blast
  have "rd_handle rd < length (objects h)" if "rd \<in> set (devices h)" for rd
    using devices_invD(1,3) [OF assms(2)] that by (metis image_eqI list.set_map)
  moreover have "find_last (\<lambda>c. uid = mi_unique_id c) (stored_devices H) = find_last (\<lambda>c. uid = mi_unique_id c) (stored_devices h)"
    unfolding added(8) d(5) using assms(4) by (intro find_last_filter) blast
  ultimately show ?thesis using assms(1,4) added(3,4,7) d(1-4) by (auto simp: remembered_def nth_append)
qed

lemma remembered_removed:
  assumes "remembered uid c h" "devices_inv h"
  shows "remembered uid c (state_of (remove_device (Some dev) h))"
proof (cases rule: remove_device_result [OF assms(2), of dev])
  case 1
  then show ?thesis using assms(1) by simp
next
  case (2 rd H)
  have i: "dd_info (objects H ! b) = dd_info (objects h ! b)" for b
    by (cases "b = rd_handle rd \<and> b < length (objects h)") (auto simp: 2(4) disable_queue_def list_update_beyond not_less)
  have "mi_unique_id (device_config (objects h ! rd_handle rd)) \<noteq> uid" using assms(1) 2(1) by (simp add: remembered_def device_config_def)
  then show ?thesis using assms(1) by (auto simp: remembered_def 2(3,6,7) i find_last_snoc)
qed

lemma remembered_step:
  assumes "hub_run used h \<and> remembered uid c h" "same_inventory h h'"
  shows "remembered uid c h'"
  using assms remembered_same [of uid c h h'] hub_run_inv [of used h] by simp

lemma meanwhile_remembered:
  assumes "meanwhile uid used0 h0 used h" "hub_run used0 h0" "remembered uid c h0"
  shows "hub_run used h \<and> remembered uid c h"
  using assms(1)
proof (induction rule: meanwhile.induct)
  case none
  then show ?case using assms(2,3) by simp
next
  case (added used h dev out)
  have inv: "devices_inv h" using hub_run_inv [OF conjunct1 [OF added.IH]] by simp
  have "remembered uid c (state_of out)"
  proof (cases dev)
    case (Some d)
    then show ?thesis using remembered_added [OF conjunct2 [OF added.IH] inv] added.hyps(2,3) by simp
  next
    case None
    then have "out = throw (Invalid_argument ''Invalid input device'') h" using added.hyps(3) by simp
    then show ?thesis using added.IH by simp
  qed
  then show ?case using hub_run.added [OF conjunct1 [OF added.IH] added.hyps(3)] by simp
next
  case (removed used h dev)
  have inv: "devices_inv h" using hub_run_inv [OF conjunct1 [OF removed.IH]] by simp
  have "remembered uid c (state_of (remove_device dev h))" using remembered_removed [OF conjunct2 [OF removed.IH] inv] removed.IH by (cases dev) simp_all
  then show ?case using hub_run.removed [OF conjunct1 [OF removed.IH]] by simp
next
  case (observed used h ob)
  have "same_inventory h (add_hub_observer ob h)" by (simp add: same_inventory_def add_hub_observer_def)
  then show ?case using hub_run.observed [OF conjunct1 [OF observed.IH] observed.hyps(2)] remembered_step [OF observed.IH] by simp
next
  case (processed used h)
  have "same_inventory h (process_device_queue h)" by (simp add: same_inventory_def process_device_queue_def Let_def split: list.split)
  then show ?case using hub_run.processed [OF conjunct1 [OF processed.IH]] remembered_step [OF processed.IH] by simp
next
  case (unobserved used h ob)
  have "same_inventory h (remove_hub_observer ob h)" by (simp add: same_inventory_def remove_hub_observer_def)
  then show ?case using hub_run.unobserved [OF conjunct1 [OF unobserved.IH]] remembered_step [OF unobserved.IH] by simp
next
  case (configured used h a r out)
  show ?case
    using hub_run.configured [OF conjunct1 [OF configured.IH] configured.hyps(2-4)] remembered_step [OF configured.IH apply_request_inventory [OF configured.hyps(2)]]
    by simp
next
  case (configured_all used h rs out)
  show ?case
    using hub_run.configured_all [OF conjunct1 [OF configured_all.IH] configured_all.hyps(2)]
      remembered_step [OF configured_all.IH for_each_mutable_inventory [OF configured_all.hyps(2)]] by simp
next
  case (dispatched used h a)
  have "same_inventory h (run_device_action a h)"
    by (simp add: same_inventory_def run_device_action_def map_update_same split: option.split list.split)
  then show ?case using hub_run.dispatched [OF conjunct1 [OF dispatched.IH] dispatched.hyps(2)] remembered_step [OF dispatched.IH] by simp
qed

section \<open>Properties\<close>

text \<open>
  C21: Observers of the input devices always know exactly the devices the hub has, in the hub's order: whatever devices come and go, however they are
  configured and whenever an observer is added, what it has been told adds up to the hub's devices, and ends with the completion of the changes.
\<close>

theorem observers_know_the_devices:
  assumes "hub_run used h" "ob \<in> set (members h)"
  shows "knows ob h = handles h \<and> last (told ob h) = Changes_complete ob"
  using hub_run_inv [OF assms(1)] assms(2) by (simp add: observers_inv_def)

definition sample_mouse :: input_device where
  "sample_mouse = \<lparr>dev_key = 3, dev_info = \<lparr>di_name = ''mouse'', di_unique_id = ''usb-3'', di_capabilities = 2\<rparr>,
     dev_pointer = Some \<lparr>ps_handedness = Handedness_right, ps_bias = 0, ps_acceleration = Acceleration_adaptive, ps_horizontal_scale = 1, ps_vertical_scale = 1\<rparr>,
     dev_touchpad = None, dev_touchscreen = None\<rparr>"

definition sample_keyboard :: input_device where
  "sample_keyboard = \<lparr>dev_key = 4, dev_info = \<lparr>di_name = ''keys'', di_unique_id = ''usb-4'', di_capabilities = 4\<rparr>,
     dev_pointer = None, dev_touchpad = None, dev_touchscreen = None\<rparr>"

definition sample_hub :: "nat input_hub" where
  "sample_hub = process_device_queue (add_hub_observer 9 (state_of (the (add_device (Some sample_keyboard) (state_of (the (add_device (Some sample_mouse) make_hub)))))))"

lemma sample_hub_run: "hub_run {9} sample_hub"
proof -
  have 1: "add_device (Some sample_mouse) (make_hub :: nat input_hub) = Some (the (add_device (Some sample_mouse) make_hub))"
    by (simp add: add_device_def restore_or_create_device_def get_stored_device_config_def create_new_device_id_def make_hub_def find_last_def
        split_beta Let_def)
  let ?h = "state_of (the (add_device (Some sample_mouse) (make_hub :: nat input_hub)))"
  have st: "stored_devices ?h = []" "devices ?h \<noteq> [] \<and> rd_device (hd (devices ?h)) = 3 \<and> length (devices ?h) = 1" by code_simp+
  then have "list_ex (\<lambda>rd. rd_device rd = dev_key sample_keyboard) (devices ?h) = False"
    by (cases "devices ?h") (simp_all add: sample_keyboard_def)
  then have 2: "add_device (Some sample_keyboard) ?h = Some (the (add_device (Some sample_keyboard) ?h))"
    using st(1) by (simp add: add_device_def restore_or_create_device_def get_stored_device_config_def create_new_device_id_def find_last_def
        split_beta Let_def)
  from hub_run.added [OF hub_run.added [OF hub_run.start 1] 2]
  show ?thesis unfolding sample_hub_def by (intro hub_run.processed hub_run.observed) simp_all
qed

theorem observers_know_the_devices_witness:
  "members sample_hub = [9] \<and> handles sample_hub = [0, 1] \<and> knows 9 sample_hub = handles sample_hub"
proof -
  have "members sample_hub = [9]" "handles sample_hub = [0, 1]" by code_simp+
  then show ?thesis using observers_know_the_devices [OF sample_hub_run, of 9] by simp
qed

text \<open>
  In every run the hub's devices, its handles, the seat's devices and the announcement that input is available agree, and no two devices, connected or
  remembered, have the same identifier.  Exactly the connected devices have a queue of settings.
\<close>

theorem hub_identifies_its_devices:
  assumes "hub_run used h"
  shows "map rd_handle (devices h) = handles h \<and> server_view h = (map rd_id (devices h), devices h \<noteq> []) \<and>
    distinct (map rd_id (devices h) @ map mi_id (stored_devices h)) \<and> distinct (map rd_device (devices h)) \<and>
    (\<forall>a < length (objects h). enabled (objects h ! a) \<longleftrightarrow> a \<in> set (handles h))"
proof -
  have inv: "devices_inv h" using hub_run_inv [OF assms] by blast
  moreover have "handles h = [] \<longleftrightarrow> devices h = []" using devices_invD(1) [OF inv] by auto
  ultimately show ?thesis using hub_run_server_inv [OF assms] by (simp add: server_inv_def devices_inv_def cong del: image_cong_simp)
qed

theorem hub_identifies_its_devices_witness:
  "map rd_id (devices sample_hub) = [1, 2] \<and> server_view sample_hub = ([1, 2], True)"
proof -
  have "map rd_id (devices sample_hub) = [1, 2]" by code_simp
  then show ?thesis using hub_identifies_its_devices [OF sample_hub_run] by auto
qed

text \<open>
  C29: A device that is unplugged and comes back, with the same information and the same kinds of settings, gets the identifier and the
  configuration it had when it was unplugged, although the hub makes a new object for it, whatever happens to the hub and to the other devices in between.  The
  condition is that its unique identifier is its own: no other device that is connected when it is unplugged has it, and none with it arrives in between
  (the hub keeps one configuration for each unique identifier, the last one).  As in all runs, no device that is gone is configured while changes are being
  collected, which the code leaves undefined.
\<close>

theorem reconnected_device_is_restored:
  assumes "hub_run used h" "rd \<in> set (devices h)" "rd_device rd = dev_key dev" "d = objects h ! rd_handle rd"
    and "\<And>rd'. rd' \<in> set (devices h) \<Longrightarrow> rd' \<noteq> rd \<Longrightarrow> di_unique_id (dd_info (objects h ! rd_handle rd')) \<noteq> di_unique_id (dd_info d)"
    and "meanwhile (di_unique_id (dd_info d)) used (state_of (remove_device (Some dev) h)) used' h'"
    and "dev_info dev' = dd_info d" "dev_key dev' \<notin> rd_device ` set (devices h')"
    and "dev_pointer dev' = None \<longleftrightarrow> dd_pointer d = None" "dev_touchpad dev' = None \<longleftrightarrow> dd_touchpad d = None"
    and "dev_touchscreen dev' = None \<longleftrightarrow> dd_touchscreen d = None"
  shows "\<exists>H. add_device (Some dev') h' = Some (ret () H) \<and>
    last (handles H) = length (objects h') \<and> device_config (objects H ! length (objects h')) = device_config d"
proof (cases rule: remove_device_result [OF hub_run_inv [OF assms(1), THEN conjunct1], of dev])
  case 1
  then show ?thesis using assms(2,3) by (metis image_eqI)
next
  case (2 rd' H)
  let ?uid = "di_unique_id (dd_info d)"
  have inv: "devices_inv h" using hub_run_inv [OF assms(1)] by blast
  have inj: "inj_on rd_device (set (devices h))" using devices_invD(7) [OF inv] by (simp add: distinct_map)
  then have rd': "rd' = rd" using 2(1,2) assms(2,3) by (metis inj_onD)
  have "rd_handle rd \<in> set (handles h)" using devices_invD(1) [OF inv] assms(2) by (metis image_eqI list.set_map)
  from devices_invD(15) [OF inv devices_invD(3) [OF inv this]] have kb: "dd_keyboard d = None \<longleftrightarrow> \<not> has_keyboard (dd_info d)"
    unfolding assms(4) .
  have i: "dd_info (objects H ! b) = dd_info (objects h ! b)" for b
    by (cases "b = rd_handle rd' \<and> b < length (objects h)") (auto simp: 2(4) disable_queue_def list_update_beyond not_less)
  have u: "mi_unique_id (device_config d) = ?uid" by (simp add: device_config_def)
  have st: "stored_devices H = stored_devices h @ [device_config d]" using 2(7) rd' assms(4) by simp
  have "remembered ?uid (device_config d) H"
    unfolding remembered_def st find_last_snoc i 2(6) using assms(3,5) u by auto
  moreover have "hub_run used H" using hub_run.removed [OF assms(1), of "Some dev"] 2(3) by simp
  moreover have "meanwhile ?uid used H used' h'" using assms(6) 2(3) by simp
  ultimately have h': "hub_run used' h'" "remembered ?uid (device_config d) h'" using meanwhile_remembered by blast+
  have f: "find_last (\<lambda>c. di_unique_id (dev_info dev') = mi_unique_id c) (stored_devices h') = Some (device_config d)"
    using h'(2) assms(7) by (simp add: remembered_def)
  have "mi_keyboard (device_config d) = None \<or> has_keyboard (dev_info dev')" using assms(7) kb by (simp add: device_config_def)
  then obtain r H' where r: "make_restored_device (device_config d) dev' = Some r" "add_device (Some dev') h' = Some (ret () H')"
    "last (handles H') = length (objects h')" "objects H' ! length (objects h') = snd r"
    using add_device_restores [OF _ f _ assms(8)] hub_run_inv [OF h'(1)] by blast
  then show ?thesis using restored_config [OF r(1) assms(7) kb assms(9-11)] by (intro exI [of _ H']) simp
qed

theorem reconnected_device_is_restored_witness:
  "\<exists>H. add_device (Some (sample_mouse\<lparr>dev_key := 8\<rparr>))
       (state_of (remove_device (Some sample_keyboard) (state_of (remove_device (Some sample_mouse) sample_hub)))) = Some (ret () H) \<and>
     dd_id (objects H ! 2) = 1"
proof -
  let ?rd = "\<lparr>rd_device = 3, rd_id = 1, rd_handle = 0, rd_seat = True\<rparr>" and ?d = "objects sample_hub ! 0"
  let ?h = "state_of (remove_device (Some sample_keyboard) (state_of (remove_device (Some sample_mouse) sample_hub)))"
  have ds: "devices sample_hub = [?rd, \<lparr>rd_device = 4, rd_id = 2, rd_handle = 1, rd_seat = True\<rparr>]" "length (objects ?h) = 2" "devices ?h = []"
    "dd_info ?d = dev_info sample_mouse" "dd_touchpad ?d = None" "dd_touchscreen ?d = None" "dd_pointer ?d = dev_pointer sample_mouse" "dd_id ?d = 1"
    "dd_info (objects sample_hub ! 1) = dev_info sample_keyboard"
    by code_simp+
  have m: "meanwhile (di_unique_id (dd_info ?d)) {9} (state_of (remove_device (Some sample_mouse) sample_hub)) {9} ?h"
    by (intro meanwhile.removed meanwhile.none)
  have u: "di_unique_id (dd_info (objects sample_hub ! rd_handle rd)) \<noteq> di_unique_id (dd_info ?d)" if "rd \<in> set (devices sample_hub)" "rd \<noteq> ?rd" for rd
  proof -
    have "rd_handle rd = 1" using that by (auto simp: ds(1))
    then show ?thesis unfolding ds(4) by (simp only: ds(9)) (simp add: sample_mouse_def sample_keyboard_def)
  qed
  have "\<exists>H. add_device (Some (sample_mouse\<lparr>dev_key := 8\<rparr>)) ?h = Some (ret () H) \<and>
      last (handles H) = length (objects ?h) \<and> device_config (objects H ! length (objects ?h)) = device_config ?d"
    by (rule reconnected_device_is_restored [OF sample_hub_run _ _ _ u m]) (simp_all add: ds, simp_all add: sample_mouse_def)
  then show ?thesis by (auto simp: ds device_config_def)
qed

text \<open>A device that comes back without its keyboard ends the server, although the constructor means to ignore settings that do not fit.\<close>

lemma lost_keyboard_is_fatal:
  assumes "stored_devices h = older @ [c]" "mi_unique_id c = di_unique_id (dev_info dev)" "mi_keyboard c \<noteq> None" "\<not> has_keyboard (dev_info dev)"
    and "dev_key dev \<notin> rd_device ` set (devices h)"
  shows "add_device (Some dev) h = None"
proof -
  have "find_last (\<lambda>c. di_unique_id (dev_info dev) = mi_unique_id c) (stored_devices h) = Some c"
    using assms(1,2) unfolding find_last_Some_iff by (intro exI [of _ older] exI [of _ "[]"]) simp
  moreover have "\<not> list_ex (\<lambda>rd. rd_device rd = dev_key dev) (devices h)" using assms(5) by (auto simp: list_ex_iff image_iff)
  ultimately show ?thesis
    using make_restored_device_fatal [of c dev] assms(3,4)
    by (simp add: add_device_def restore_or_create_device_def get_stored_device_config_def)
qed

text \<open>After a configuration that a device refused, changes of devices are collected for good and no observer is told of them.\<close>

lemma refused_configuration_silences_changes:
  assumes "for_each_mutable_input_device callback h = Some (Inl e, h1)"
    and "\<And>a h h' r. callback a h = Some (r, h') \<Longrightarrow> changed_devices h \<noteq> None \<Longrightarrow> changed_devices h' \<noteq> None"
  shows "hub_calls (device_changed a h1) = hub_calls h1"
proof -
  have "changed_devices h' \<noteq> None" if "for_each_handle callback as g = Some (r, h')" "changed_devices g \<noteq> None" for as g r h'
    using that
  proof (induction as arbitrary: g)
    case (Cons b as)
    then show ?case using assms(2) by (fastforce split: option.splits sum.splits)
  qed (simp add: ret_def)
  then have "changed_devices h1 \<noteq> None" using assms(1) by (fastforce simp: for_each_mutable_input_device_def ret_def Let_def split: option.splits sum.splits)
  then show ?thesis by (auto simp: device_changed_def)
qed

end
