(* ===== verification/Input_Config.thy ===== *)
theory Input_Config
  imports Input_Hub
begin

text \<open>
  \<open>src/server/input/config_changer.cpp\<close>: the input configurations of the sessions and of the server, applied to the devices of the hub as the focus
  moves.  The tracker that observes the hub collects the added and removed devices until the hub says that the changes are complete.
\<close>

section \<open>State\<close>

datatype 's config_note =
    Pause_for_config
  | Continue_after_config
  | Send_input_config 's mir_input_config
  | Send_input_error 's

record ('s, 'o) config_changer =
  cc_hub :: "'o input_hub"
  cc_base :: mir_input_config
  cc_base_applied :: bool
  cc_focused :: "'s option"
  cc_map :: "'s \<rightharpoonup> mir_input_config"
  cc_sessions :: "'s list"
  cc_added :: "nat list"
  cc_removed :: "nat list"
  cc_log :: "'s config_note list"

definition make_config_changer :: "'o input_hub \<Rightarrow> ('s, 'o) config_changer" where
  "make_config_changer h = \<lparr>cc_hub = h, cc_base = [], cc_base_applied = True, cc_focused = None, cc_map = (\<lambda>_. None), cc_sessions = [],
     cc_added = [], cc_removed = [], cc_log = []\<rparr>"

definition note_config :: "'s config_note list \<Rightarrow> ('s, 'o) config_changer \<Rightarrow> ('s, 'o) config_changer" where
  "note_config ns c = c\<lparr>cc_log := cc_log c @ ns\<rparr>"

section \<open>Applying a configuration\<close>

text \<open>The next step runs unless the one before threw or ended the server.\<close>

definition followed_by :: "('st, unit) outcome option \<Rightarrow> ('st \<Rightarrow> ('st, unit) outcome option) \<Rightarrow> ('st, unit) outcome option" where
  "followed_by m f = (case m of None \<Rightarrow> None | Some (Inl e, h) \<Rightarrow> Some (Inl e, h) | Some (Inr _, h) \<Rightarrow> f h)"

definition apply_device_config :: "mir_input_device option \<Rightarrow> nat \<Rightarrow> 'o input_hub \<Rightarrow> ('o input_hub, unit) outcome option" where
  "apply_device_config config a h =
     (case config of
        None \<Rightarrow> Some (ret () h)
      | Some c \<Rightarrow>
          followed_by (case (mi_pointer c, pointer_configuration (objects h ! a)) of
                         (Some p, Some _) \<Rightarrow> Some (apply_pointer_configuration a p h) | _ \<Rightarrow> Some (ret () h)) (\<lambda>h1.
          followed_by (case (mi_touchpad c, touchpad_configuration (objects h1 ! a)) of
                         (Some p, Some _) \<Rightarrow> Some (apply_touchpad_configuration a p h1) | _ \<Rightarrow> Some (ret () h1)) (\<lambda>h2.
          followed_by (case (mi_touchscreen c, touchscreen_configuration (objects h2 ! a)) of
                         (Some p, Some _) \<Rightarrow> Some (apply_touchscreen_configuration a p h2) | _ \<Rightarrow> Some (ret () h2)) (\<lambda>h3.
          case (mi_keyboard c, dd_keyboard (objects h3 ! a)) of
            (Some p, Some _) \<Rightarrow> apply_keyboard_configuration a p h3 | _ \<Rightarrow> Some (ret () h3)))))"

definition apply_config :: "mir_input_config \<Rightarrow> ('s, 'o) config_changer \<Rightarrow> (('s, 'o) config_changer, unit) outcome option" where
  "apply_config config c =
     (let c1 = note_config [Pause_for_config] c
      in case for_each_mutable_input_device (\<lambda>a h. apply_device_config (get_device_config_by_id (dd_id (objects h ! a)) config) a h) (cc_hub c1) of
           None \<Rightarrow> None
         | Some (Inl e, h) \<Rightarrow> Some (throw e (c1\<lparr>cc_hub := h\<rparr>))
         | Some (Inr _, h) \<Rightarrow> Some (ret () (note_config [Continue_after_config] (c1\<lparr>cc_hub := h, cc_base_applied := False\<rparr>))))"

definition apply_config_at_session :: "mir_input_config \<Rightarrow> 's \<Rightarrow> ('s, 'o) config_changer \<Rightarrow> (('s, 'o) config_changer, unit) outcome option" where
  "apply_config_at_session config s c =
     (case apply_config config c of
        None \<Rightarrow> None
      | Some (Inr _, c') \<Rightarrow> Some (ret () (note_config [Send_input_config s config] c'))
      | Some (Inl (Invalid_argument m), c') \<Rightarrow> Some (ret () (note_config [Send_input_error s] c'))
      | Some (Inl e, c') \<Rightarrow> Some (throw e c'))"

definition apply_base_config :: "('s, 'o) config_changer \<Rightarrow> (('s, 'o) config_changer, unit) outcome option" where
  "apply_base_config c = followed_by (apply_config (cc_base c) c) (\<lambda>c'. Some (ret () (c'\<lparr>cc_base_applied := True\<rparr>)))"

definition send_base_config_to_all_sessions :: "('s, 'o) config_changer \<Rightarrow> ('s, 'o) config_changer" where
  "send_base_config_to_all_sessions c = note_config (map (\<lambda>s. Send_input_config s (cc_base c)) (cc_sessions c)) c"

section \<open>Requests and the focus\<close>

definition configure :: "'s \<Rightarrow> mir_input_config \<Rightarrow> ('s, 'o) config_changer \<Rightarrow> (('s, 'o) config_changer, unit) outcome option" where
  "configure s config c =
     (let c1 = c\<lparr>cc_map := (cc_map c)(s \<mapsto> config)\<rparr>
      in if cc_focused c1 \<noteq> Some s then Some (ret () c1) else apply_config_at_session config s c1)"

definition set_base_configuration :: "mir_input_config \<Rightarrow> ('s, 'o) config_changer \<Rightarrow> (('s, 'o) config_changer, unit) outcome option" where
  "set_base_configuration config c =
     followed_by (apply_base_config (c\<lparr>cc_base := config\<rparr>)) (\<lambda>c'. Some (ret () (send_base_config_to_all_sessions c')))"

definition focus_change_handler :: "'s \<Rightarrow> ('s, 'o) config_changer \<Rightarrow> (('s, 'o) config_changer, unit) outcome option" where
  "focus_change_handler s c =
     (let c1 = c\<lparr>cc_focused := Some s\<rparr>
      in case cc_map c1 s of
           Some config \<Rightarrow> apply_config_at_session config s c1
         | None \<Rightarrow> if \<not> cc_base_applied c1
                   then followed_by (apply_base_config c1) (\<lambda>c'. Some (ret () (send_base_config_to_all_sessions c')))
                   else Some (ret () c1))"

definition no_focus_handler :: "('s, 'o) config_changer \<Rightarrow> (('s, 'o) config_changer, unit) outcome option" where
  "no_focus_handler c =
     (let c1 = c\<lparr>cc_focused := None\<rparr> in if \<not> cc_base_applied c1 then apply_base_config c1 else Some (ret () c1))"

definition session_stopping_handler :: "'s \<Rightarrow> ('s, 'o) config_changer \<Rightarrow> ('s, 'o) config_changer" where
  "session_stopping_handler s c = c\<lparr>cc_map := (cc_map c)(s := None)\<rparr>"

section \<open>Devices that come and go\<close>

definition devices_updated :: "nat list \<Rightarrow> nat list \<Rightarrow> ('s, 'o) config_changer \<Rightarrow> ('s, 'o) config_changer" where
  "devices_updated added removed c =
     (let update = (\<lambda>conf. fold (\<lambda>a. add_device_config (device_config (objects (cc_hub c) ! a))) added (fold remove_device_by_id removed conf))
      in send_base_config_to_all_sessions (c\<lparr>cc_base := update (cc_base c), cc_map := (\<lambda>s. map_option update (cc_map c s))\<rparr>))"

fun track :: "'o hub_call \<Rightarrow> ('s, 'o) config_changer \<Rightarrow> ('s, 'o) config_changer" where
  "track (Device_added ob a) c = c\<lparr>cc_added := cc_added c @ [a]\<rparr>"
| "track (Device_removed ob a) c = c\<lparr>cc_removed := cc_removed c @ [dd_id (objects (cc_hub c) ! a)]\<rparr>"
| "track (Changes_complete ob) c =
     (let c1 = (if cc_added c \<noteq> [] \<or> cc_removed c \<noteq> [] then devices_updated (cc_added c) (cc_removed c) c else c)
      in c1\<lparr>cc_added := [], cc_removed := []\<rparr>)"
| "track _ c = c"

section \<open>What an accepted configuration does\<close>

definition configured_as :: "mir_input_device option \<Rightarrow> default_device \<Rightarrow> default_device \<Rightarrow> bool" where
  "configured_as conf d d' \<longleftrightarrow> same_device d d' \<and>
     pointer_configuration d' = (case conf of Some c \<Rightarrow> if mi_pointer c \<noteq> None \<and> dd_pointer d \<noteq> None then mi_pointer c else pointer_configuration d
                                 | None \<Rightarrow> pointer_configuration d) \<and>
     touchpad_configuration d' = (case conf of Some c \<Rightarrow> if mi_touchpad c \<noteq> None \<and> dd_touchpad d \<noteq> None then mi_touchpad c else touchpad_configuration d
                                  | None \<Rightarrow> touchpad_configuration d) \<and>
     touchscreen_configuration d' = (case conf of Some c \<Rightarrow> if mi_touchscreen c \<noteq> None \<and> dd_touchscreen d \<noteq> None then mi_touchscreen c else touchscreen_configuration d
                                     | None \<Rightarrow> touchscreen_configuration d) \<and>
     dd_keyboard d' = (case conf of Some c \<Rightarrow> if mi_keyboard c \<noteq> None \<and> dd_keyboard d \<noteq> None then mi_keyboard c else dd_keyboard d | None \<Rightarrow> dd_keyboard d)"

lemma objects_device_changed [simp]: "objects (device_changed a h) = objects h" "handles (device_changed a h) = handles h"
  by (simp_all add: device_changed_def split: option.split)

lemma configuration_unset [simp]:
  "pointer_configuration d = None \<longleftrightarrow> dd_pointer d = None" "touchpad_configuration d = None \<longleftrightarrow> dd_touchpad d = None"
  "touchscreen_configuration d = None \<longleftrightarrow> dd_touchscreen d = None"
  by (simp_all add: pointer_configuration_def touchpad_configuration_def touchscreen_configuration_def)

lemma followed_by_ret:
  assumes "followed_by m f = Some (ret () h')"
  obtains h1 where "m = Some (ret () h1)" "f h1 = Some (ret () h')"
  using assms by (cases m) (auto simp: followed_by_def ret_def split: sum.splits prod.splits)

text \<open>A step of the configuration changes the one device, in the one respect it is about.\<close>

lemma pointer_step:
  assumes "(case (new, pointer_configuration (objects h ! a)) of
      (Some p, Some _) \<Rightarrow> Some (apply_pointer_configuration a p h) | _ \<Rightarrow> Some (ret () h)) = Some (ret () h1)" "d = objects h ! a"
  obtains d1 where "objects h1 = (objects h)[a := d1]" "handles h1 = handles h" "same_device d d1"
    "pointer_configuration d1 = (if new \<noteq> None \<and> pointer_configuration d \<noteq> None then new else pointer_configuration d)"
    "touchpad_configuration d1 = touchpad_configuration d" "touchscreen_configuration d1 = touchscreen_configuration d" "dd_keyboard d1 = dd_keyboard d"
proof (cases "new \<noteq> None \<and> pointer_configuration d \<noteq> None")
  case True
  then show ?thesis
    using assms by (intro that [of "set_pointer_configuration (the new) d"])
      (auto simp: apply_pointer_configuration_def split: if_splits simp del: configuration_unset)
next
  case False
  then have "h1 = h" using assms by (auto split: option.splits simp del: configuration_unset)
  then show ?thesis using False assms(2) by (intro that [of d]) (auto simp del: configuration_unset)
qed

lemma touchpad_step:
  assumes "(case (new, touchpad_configuration (objects h ! a)) of
      (Some p, Some _) \<Rightarrow> Some (apply_touchpad_configuration a p h) | _ \<Rightarrow> Some (ret () h)) = Some (ret () h1)" "d = objects h ! a"
  obtains d1 where "objects h1 = (objects h)[a := d1]" "handles h1 = handles h" "same_device d d1" "pointer_configuration d1 = pointer_configuration d"
    "touchpad_configuration d1 = (if new \<noteq> None \<and> touchpad_configuration d \<noteq> None then new else touchpad_configuration d)"
    "touchscreen_configuration d1 = touchscreen_configuration d" "dd_keyboard d1 = dd_keyboard d"
proof (cases "new \<noteq> None \<and> touchpad_configuration d \<noteq> None")
  case True
  then show ?thesis
    using assms by (intro that [of "set_touchpad_configuration (the new) d"])
      (auto simp: apply_touchpad_configuration_def split: if_splits simp del: configuration_unset)
next
  case False
  then have "h1 = h" using assms by (auto split: option.splits simp del: configuration_unset)
  then show ?thesis using False assms(2) by (intro that [of d]) (auto simp del: configuration_unset)
qed

lemma touchscreen_step:
  assumes "(case (new, touchscreen_configuration (objects h ! a)) of
      (Some p, Some _) \<Rightarrow> Some (apply_touchscreen_configuration a p h) | _ \<Rightarrow> Some (ret () h)) = Some (ret () h1)" "d = objects h ! a"
  obtains d1 where "objects h1 = (objects h)[a := d1]" "handles h1 = handles h" "same_device d d1" "pointer_configuration d1 = pointer_configuration d"
    "touchpad_configuration d1 = touchpad_configuration d"
    "touchscreen_configuration d1 = (if new \<noteq> None \<and> touchscreen_configuration d \<noteq> None then new else touchscreen_configuration d)" "dd_keyboard d1 = dd_keyboard d"
proof (cases "new \<noteq> None \<and> touchscreen_configuration d \<noteq> None")
  case True
  then show ?thesis
    using assms by (intro that [of "set_touchscreen_configuration (the new) d"])
      (auto simp: apply_touchscreen_configuration_def split: if_splits simp del: configuration_unset)
next
  case False
  then have "h1 = h" using assms by (auto split: option.splits simp del: configuration_unset)
  then show ?thesis using False assms(2) by (intro that [of d]) (auto simp del: configuration_unset)
qed

lemma keyboard_step:
  assumes "(case (new, dd_keyboard (objects h ! a)) of
      (Some p, Some _) \<Rightarrow> apply_keyboard_configuration a p h | _ \<Rightarrow> Some (ret () h)) = Some (ret () h1)" "d = objects h ! a" "enabled d"
  obtains d1 where "objects h1 = (objects h)[a := d1]" "handles h1 = handles h" "same_device d d1" "pointer_configuration d1 = pointer_configuration d"
    "touchpad_configuration d1 = touchpad_configuration d" "touchscreen_configuration d1 = touchscreen_configuration d"
    "dd_keyboard d1 = (if new \<noteq> None \<and> dd_keyboard d \<noteq> None then new else dd_keyboard d)"
proof (cases "new \<noteq> None \<and> dd_keyboard d \<noteq> None")
  case True
  then show ?thesis
    using assms by (intro that [of "d\<lparr>dd_keyboard := new\<rparr>"])
      (auto simp: apply_keyboard_configuration_def set_keyboard_eq Let_def split: if_splits)
next
  case False
  then have "h1 = h" using assms by (auto split: option.splits simp del: configuration_unset)
  then show ?thesis using False assms(2) by (intro that [of d]) auto
qed

lemma same_device_trans: "same_device d d1 \<Longrightarrow> same_device d1 d2 \<Longrightarrow> same_device d d2"
  by (simp add: same_device_def)

lemma apply_device_config_changes:
  assumes "apply_device_config conf a h = Some (ret () h')" "a < length (objects h)" "enabled (objects h ! a)"
  shows "\<exists>d'. objects h' = (objects h)[a := d'] \<and> handles h' = handles h \<and> configured_as conf (objects h ! a) d'"
proof (cases conf)
  case None
  then show ?thesis using assms(1) by (intro exI [of _ "objects h ! a"]) (simp add: apply_device_config_def configured_as_def)
next
  case (Some c)
  from assms(1) obtain h1 h2 h3 where
    steps: "(case (mi_pointer c, pointer_configuration (objects h ! a)) of
          (Some p, Some _) \<Rightarrow> Some (apply_pointer_configuration a p h) | _ \<Rightarrow> Some (ret () h)) = Some (ret () h1)"
       "(case (mi_touchpad c, touchpad_configuration (objects h1 ! a)) of
          (Some p, Some _) \<Rightarrow> Some (apply_touchpad_configuration a p h1) | _ \<Rightarrow> Some (ret () h1)) = Some (ret () h2)"
       "(case (mi_touchscreen c, touchscreen_configuration (objects h2 ! a)) of
          (Some p, Some _) \<Rightarrow> Some (apply_touchscreen_configuration a p h2) | _ \<Rightarrow> Some (ret () h2)) = Some (ret () h3)"
       "(case (mi_keyboard c, dd_keyboard (objects h3 ! a)) of
          (Some p, Some _) \<Rightarrow> apply_keyboard_configuration a p h3 | _ \<Rightarrow> Some (ret () h3)) = Some (ret () h')"
    unfolding apply_device_config_def Some option.case by (elim followed_by_ret) blast
  obtain d1 where d1: "objects h1 = (objects h)[a := d1]" "handles h1 = handles h" "same_device (objects h ! a) d1"
    "pointer_configuration d1 = (if mi_pointer c \<noteq> None \<and> pointer_configuration (objects h ! a) \<noteq> None then mi_pointer c else pointer_configuration (objects h ! a))"
    "touchpad_configuration d1 = touchpad_configuration (objects h ! a)" "touchscreen_configuration d1 = touchscreen_configuration (objects h ! a)"
    "dd_keyboard d1 = dd_keyboard (objects h ! a)"
    by (rule pointer_step [OF steps(1) refl])
  have o1: "objects h1 ! a = d1" using d1(1) assms(2) by simp
  obtain d2 where d2: "objects h2 = (objects h1)[a := d2]" "handles h2 = handles h1" "same_device d1 d2" "pointer_configuration d2 = pointer_configuration d1"
    "touchpad_configuration d2 = (if mi_touchpad c \<noteq> None \<and> touchpad_configuration d1 \<noteq> None then mi_touchpad c else touchpad_configuration d1)"
    "touchscreen_configuration d2 = touchscreen_configuration d1" "dd_keyboard d2 = dd_keyboard d1"
    by (rule touchpad_step [OF steps(2) refl, unfolded o1])
  have o2: "objects h2 ! a = d2" using d1(1) d2(1) assms(2) by simp
  obtain d3 where d3: "objects h3 = (objects h2)[a := d3]" "handles h3 = handles h2" "same_device d2 d3" "pointer_configuration d3 = pointer_configuration d2"
    "touchpad_configuration d3 = touchpad_configuration d2"
    "touchscreen_configuration d3 = (if mi_touchscreen c \<noteq> None \<and> touchscreen_configuration d2 \<noteq> None then mi_touchscreen c else touchscreen_configuration d2)"
    "dd_keyboard d3 = dd_keyboard d2"
    by (rule touchscreen_step [OF steps(3) refl, unfolded o2])
  have o3: "objects h3 ! a = d3" using d1(1) d2(1) d3(1) assms(2) by simp
  have same: "same_device (objects h ! a) d3" using d1(3) d2(3) d3(3) same_device_trans by blast
  then have "enabled d3" using assms(3) by (simp add: same_device_def)
  then have "enabled (objects h3 ! a)" by (simp add: o3)
  obtain d4 where d4: "objects h' = (objects h3)[a := d4]" "handles h' = handles h3" "same_device d3 d4" "pointer_configuration d4 = pointer_configuration d3"
    "touchpad_configuration d4 = touchpad_configuration d3" "touchscreen_configuration d4 = touchscreen_configuration d3"
    "dd_keyboard d4 = (if mi_keyboard c \<noteq> None \<and> dd_keyboard d3 \<noteq> None then mi_keyboard c else dd_keyboard d3)"
    by (rule keyboard_step [OF steps(4) refl \<open>enabled (objects h3 ! a)\<close>, unfolded o3])
  have "configured_as conf (objects h ! a) d4"
    using same_device_trans [OF same d4(3)] d1(4-7) d2(4-7) d3(4-7) d4(4-7) by (simp add: configured_as_def Some)
  moreover have "objects h' = (objects h)[a := d4]" "handles h' = handles h" using d1(1,2) d2(1,2) d3(1,2) d4(1,2) by simp_all
  ultimately show ?thesis by blast
qed

lemma for_each_configures:
  assumes "for_each_handle (\<lambda>a h. apply_device_config (f (dd_id (objects h ! a))) a h) as h = Some (ret () h')" "distinct as"
    and "\<forall>a\<in>set as. a < length (objects h) \<and> enabled (objects h ! a)"
  shows "handles h' = handles h \<and> length (objects h') = length (objects h) \<and>
    (\<forall>a < length (objects h). if a \<in> set as then configured_as (f (dd_id (objects h ! a))) (objects h ! a) (objects h' ! a) else objects h' ! a = objects h ! a)"
  using assms
proof (induction as arbitrary: h)
  case (Cons b as)
  from Cons.prems(1) obtain h1 where h1: "apply_device_config (f (dd_id (objects h ! b))) b h = Some (ret () h1)"
    "for_each_handle (\<lambda>a h. apply_device_config (f (dd_id (objects h ! a))) a h) as h1 = Some (ret () h')"
    by (auto simp: ret_def split: option.splits sum.splits)
  obtain d' where d': "objects h1 = (objects h)[b := d']" "handles h1 = handles h" "configured_as (f (dd_id (objects h ! b))) (objects h ! b) d'"
    using apply_device_config_changes [OF h1(1)] Cons.prems(3) by auto
  have "objects h1 ! a = objects h ! a" if "a \<noteq> b" for a using that d'(1) by simp
  then have "objects h1 ! a = objects h ! a" if "a \<in> set as" for a using that Cons.prems(2) by (metis distinct.simps(2))
  moreover have "\<forall>a\<in>set as. a < length (objects h1) \<and> enabled (objects h1 ! a)"
    using Cons.prems(2,3) d'(1) by (metis distinct.simps(2) length_list_update list.set_intros(2) nth_list_update_neq)
  note Cons.IH [OF h1(2) _ this]
  ultimately show ?case using Cons.prems(2,3) d' by auto
qed simp

text \<open>
  C30: When a configuration has been applied, every device the configuration knows has the settings it gives for the capabilities the device has, and keeps the others; devices
  that it does not know keep their settings.  Input was paused and goes on again.
\<close>

theorem accepted_configuration_is_in_force:
  assumes "hub_run used (cc_hub c)" "apply_config config c = Some (ret () c')"
  shows "handles (cc_hub c') = handles (cc_hub c) \<and> cc_log c' = cc_log c @ [Pause_for_config, Continue_after_config] \<and> \<not> cc_base_applied c' \<and>
    (\<forall>a\<in>set (handles (cc_hub c)). configured_as (get_device_config_by_id (dd_id (objects (cc_hub c) ! a)) config) (objects (cc_hub c) ! a) (objects (cc_hub c') ! a))"
proof -
  let ?h = "cc_hub c" and ?f = "\<lambda>i. get_device_config_by_id i config"
  have inv: "devices_inv ?h" using hub_run_inv [OF assms(1)] by blast
  obtain h1 where h1: "for_each_handle (\<lambda>a h. apply_device_config (?f (dd_id (objects h ! a))) a h) (handles ?h) (?h\<lparr>changed_devices := Some []\<rparr>) = Some (ret () h1)"
    "c' = note_config [Continue_after_config] ((note_config [Pause_for_config] c)\<lparr>cc_hub := emit_changed_devices h1, cc_base_applied := False\<rparr>)"
    using assms(2) by (auto simp: apply_config_def for_each_mutable_input_device_def note_config_def ret_def throw_def Let_def split: option.splits sum.splits)
  have "\<forall>a\<in>set (handles ?h). a < length (objects ?h) \<and> enabled (objects ?h ! a)" using devices_invD(3,14) [OF inv] by blast
  then show ?thesis
    using for_each_configures [where f = ?f, OF h1(1)] devices_invD(2) [OF inv]
    by (auto simp: h1(2) note_config_def emit_changed_devices_def)
qed

definition sample_input_config :: mir_input_config where
  "sample_input_config = [(device_config (objects sample_hub ! 0))\<lparr>mi_pointer := Some
     \<lparr>pc_handedness = Handedness_left, pc_acceleration = Acceleration_none, pc_bias = 1, pc_horizontal_scale = 1, pc_vertical_scale = 2\<rparr>\<rparr>]"

theorem accepted_configuration_is_in_force_witness:
  "map_option pc_handedness (pointer_configuration (objects (cc_hub (state_of (the (apply_config sample_input_config
     (make_config_changer sample_hub :: (nat, nat) config_changer))))) ! 0)) = Some Handedness_left"
proof -
  let ?c = "make_config_changer sample_hub :: (nat, nat) config_changer"
  have "apply_config sample_input_config ?c \<noteq> None \<and> result_of (the (apply_config sample_input_config ?c)) = Inr ()" by code_simp
  then have ok: "apply_config sample_input_config ?c = Some (ret () (state_of (the (apply_config sample_input_config ?c))))"
    by (cases "apply_config sample_input_config ?c") (auto simp: ret_def state_of_def result_of_def prod_eq_iff)
  have h: "hub_run {9} (cc_hub ?c)" using sample_hub_run by (simp add: make_config_changer_def)
  have "handles sample_hub = [0, 1]" "dd_pointer (objects sample_hub ! 0) \<noteq> None" "dd_id (objects sample_hub ! 0) = 1" by code_simp+
  then show ?thesis
    using accepted_configuration_is_in_force [OF h ok]
    by (auto simp: make_config_changer_def configured_as_def sample_input_config_def get_device_config_by_id_def device_config_def)
qed

text \<open>A configuration that a device refuses leaves the input paused: nothing lets it go on again.\<close>

lemma refused_configuration_leaves_input_paused:
  assumes "apply_config config c = Some (throw e c')"
  shows "cc_log c' = cc_log c @ [Pause_for_config]" "cc_base_applied c' = cc_base_applied c"
  using assms by (auto simp: apply_config_def note_config_def ret_def throw_def Let_def split: option.splits sum.splits)

lemma refused_session_configuration_leaves_input_paused:
  assumes "apply_config config c = Some (throw (Invalid_argument m) c')"
  shows "\<exists>c''. apply_config_at_session config s c = Some (ret () c'') \<and> cc_log c'' = cc_log c @ [Pause_for_config, Send_input_error s]"
  using refused_configuration_leaves_input_paused [OF assms] assms by (simp add: apply_config_at_session_def note_config_def throw_def)

text \<open>Applying a configuration never ends the server: the keyboard is configured only when the device has one.\<close>

lemma followed_by_total: "m \<noteq> None \<Longrightarrow> (\<And>h. f h \<noteq> None) \<Longrightarrow> followed_by m f \<noteq> None"
  by (auto simp: followed_by_def split: sum.split)

lemma keyboard_step_total:
  "(case (new, dd_keyboard (objects h ! a)) of (Some p, Some _) \<Rightarrow> apply_keyboard_configuration a p h | _ \<Rightarrow> Some (ret () h)) \<noteq> None"
  by (auto simp: apply_keyboard_configuration_def set_keyboard_eq Let_def split: option.split)

lemma other_step_total: "(case (new, old) of (Some p, Some _) \<Rightarrow> Some (g p) | _ \<Rightarrow> Some r) \<noteq> None"
  by (auto split: option.split)

lemma apply_device_config_total: "apply_device_config conf a h \<noteq> None"
proof (cases conf)
  case (Some c)
  show ?thesis
    unfolding apply_device_config_def Some option.case
    by (intro followed_by_total keyboard_step_total other_step_total)
qed (simp add: apply_device_config_def)

lemma for_each_handle_total:
  assumes "\<And>a h. callback a h \<noteq> None"
  shows "for_each_handle callback as h \<noteq> None"
proof (induction as arbitrary: h)
  case (Cons a as)
  then show ?case using assms [of a h] by (auto split: option.splits sum.splits)
qed simp

lemma apply_config_total: "apply_config config c \<noteq> None"
  using for_each_handle_total [OF apply_device_config_total]
  by (auto simp: apply_config_def for_each_mutable_input_device_def Let_def split: option.splits sum.splits)

end
