(* ===== verification/Buffer_Vault.thy ===== *)
theory Buffer_Vault
  imports Geometry
begin

text \<open>
  The client's store of buffers, \<open>src/client/buffer_vault.cpp\<close>, with the queue of allocations it waits for,
  \<open>src/client/buffer_factory.cpp\<close>.  A buffer is with the server, free in the vault, with the application,
  or in the vault with content.  The buffers the connection knows are a map from identifiers to sizes, \<open>None\<close> when
  the connection is gone.  What the vault asks of the server and does for its callers is recorded in
  order.  The counters are natural numbers: the invariant below has each of them positive where it is decreased.
\<close>

section \<open>State\<close>

datatype owner = Owner_server | Owner_self | Owner_content_producer | Owner_self_with_content

datatype vault_event =
    Allocate extent | Free int | Submit int
  | Set_value nat int | Broken_promise nat
  | Expect_result | Run_callback nat | Result_received

record vault =
  buffers :: "(int \<times> owner) list"
  promises :: "nat list"
  buffer_size :: extent
  disconnected :: bool
  being_destroyed :: bool
  current_buffer_count :: nat
  needed_buffer_count :: nat
  initial_buffer_count :: nat
  last_received_id :: int
  swap_interval :: int
  deferred_cb :: "nat option"
  allocation_requests :: "extent list"
  surface_map :: "(int \<Rightarrow> extent option) option"
  events :: "vault_event list"

text \<open>The ordered map from identifiers to owners.\<close>

fun put_owner :: "int \<Rightarrow> owner \<Rightarrow> (int \<times> owner) list \<Rightarrow> (int \<times> owner) list" where
  "put_owner i ow [] = [(i, ow)]"
| "put_owner i ow ((j, ow') # bs) =
     (if i < j then (i, ow) # (j, ow') # bs else if i = j then (i, ow) # bs else (j, ow') # put_owner i ow bs)"

definition erase_owner :: "int \<Rightarrow> (int \<times> owner) list \<Rightarrow> (int \<times> owner) list" where
  "erase_owner i bs = filter (\<lambda>b. fst b \<noteq> i) bs"

definition emit :: "vault_event \<Rightarrow> vault \<Rightarrow> vault" where
  "emit e v = v\<lparr>events := events v @ [e]\<rparr>"

section \<open>Buffers come and go\<close>

definition alloc_buffer :: "extent \<Rightarrow> vault \<Rightarrow> vault" where
  "alloc_buffer sz v = emit (Allocate sz) (v\<lparr>allocation_requests := allocation_requests v @ [sz]\<rparr>)"

definition free_buffer :: "int \<Rightarrow> vault \<Rightarrow> vault" where
  "free_buffer i v = (emit (Free i) v)\<lparr>surface_map := map_option (\<lambda>m. m(i := None)) (surface_map v)\<rparr>"

definition realloc_buffer :: "int \<Rightarrow> extent \<Rightarrow> vault \<Rightarrow> vault" where
  "realloc_buffer i sz v = alloc_buffer sz (free_buffer i v)"

definition make_vault :: "(int \<Rightarrow> extent option) option \<Rightarrow> extent \<Rightarrow> nat \<Rightarrow> vault" where
  "make_vault m sz n = (alloc_buffer sz ^^ n) \<lparr>buffers = [], promises = [], buffer_size = sz, disconnected = False, being_destroyed = False,
     current_buffer_count = n, needed_buffer_count = n, initial_buffer_count = n, last_received_id = 0, swap_interval = 1,
     deferred_cb = None, allocation_requests = [], surface_map = m, events = []\<rparr>"

definition checked_buffer_from_map :: "vault \<Rightarrow> int \<Rightarrow> exn + extent" where
  "checked_buffer_from_map v i = (case surface_map v of
     None \<Rightarrow> Inl (Logic_error ''connection resources lost; cannot access buffer'')
   | Some m \<Rightarrow> (case m i of Some sz \<Rightarrow> Inr sz | None \<Rightarrow> Inl (Logic_error ''no buffer in map'')))"

text \<open>The search for a free buffer of the right size; \<open>ok\<close> is the last conjunct of the condition.\<close>

fun find_free :: "vault \<Rightarrow> (int \<Rightarrow> bool) \<Rightarrow> (int \<times> owner) list \<Rightarrow> exn + int option" where
  "find_free v ok [] = Inr None"
| "find_free v ok ((i, ow) # bs) =
     (if ow = Owner_self then
        (case checked_buffer_from_map v i of
           Inl e \<Rightarrow> Inl e
         | Inr sz \<Rightarrow> if sz = buffer_size v \<and> ok i then Inr (Some i) else find_free v ok bs)
      else find_free v ok bs)"

definition available_buffer :: "vault \<Rightarrow> exn + int option" where
  "available_buffer v = (case find_free v (\<lambda>i. i \<noteq> last_received_id v) (buffers v) of
     Inr None \<Rightarrow> find_free v (\<lambda>i. True) (buffers v) | r \<Rightarrow> r)"

section \<open>The application's side\<close>

text \<open>The loop that takes free buffers of a wrong size out of the vault; it collects their identifiers.\<close>

fun clean_up :: "(int \<times> owner) list \<Rightarrow> int list \<Rightarrow> vault \<Rightarrow> (vault, int list) outcome" where
  "clean_up [] free_ids v = ret free_ids v"
| "clean_up ((i, ow) # bs) free_ids v =
     (case checked_buffer_from_map v i of
        Inl e \<Rightarrow> throw e v
      | Inr sz \<Rightarrow>
          if ow = Owner_self \<and> sz \<noteq> buffer_size v
          then clean_up bs (free_ids @ [i])
                 (v\<lparr>current_buffer_count := current_buffer_count v - 1, buffers := erase_owner i (buffers v)\<rparr>)
          else clean_up bs free_ids v)"

definition withdraw :: "nat \<Rightarrow> vault \<Rightarrow> (vault, unit) outcome" where
  "withdraw promise v =
     (if disconnected v then throw (Logic_error ''server_disconnected'') v
      else and_then (clean_up (buffers v) [] v) (\<lambda>free_ids v.
        case available_buffer v of
          Inl e \<Rightarrow> throw e v
        | Inr (Some i) \<Rightarrow>
            ret () (fold free_buffer free_ids (emit (Set_value promise i) (v\<lparr>buffers := put_owner i Owner_content_producer (buffers v)\<rparr>)))
        | Inr None \<Rightarrow>
            (let v1 = v\<lparr>promises := promises v @ [promise]\<rparr>
             in ret () (fold free_buffer free_ids
                  (if current_buffer_count v1 < needed_buffer_count v1
                   then alloc_buffer (buffer_size v1) (v1\<lparr>current_buffer_count := current_buffer_count v1 + 1\<rparr>) else v1)))) id)"

definition deposit :: "int \<Rightarrow> vault \<Rightarrow> (vault, unit) outcome" where
  "deposit i v =
     (if map_of (buffers v) i \<noteq> Some Owner_content_producer then throw (Logic_error ''buffer cannot be deposited'') v
      else let v1 = v\<lparr>buffers := put_owner i Owner_self_with_content (buffers v)\<rparr>
           in case checked_buffer_from_map v1 i of Inl e \<Rightarrow> throw e v1 | Inr _ \<Rightarrow> ret () v1)"

definition wire_transfer_outbound :: "int \<Rightarrow> nat \<Rightarrow> vault \<Rightarrow> (vault, unit) outcome" where
  "wire_transfer_outbound i done_cb v =
     (if map_of (buffers v) i \<noteq> Some Owner_self_with_content then throw (Logic_error ''buffer cannot be transferred'') v
      else let v1 = emit (Submit i) (v\<lparr>buffers := put_owner i Owner_server (buffers v)\<rparr>)
           in if disconnected v1 then throw (Logic_error ''server_disconnected'') v1
              else (case available_buffer v1 of
                      Inl e \<Rightarrow> throw e v1
                    | Inr (Some _) \<Rightarrow> ret () (emit (Run_callback done_cb) v1)
                    | Inr None \<Rightarrow> ret () ((emit Expect_result v1)\<lparr>deferred_cb := Some done_cb\<rparr>)))"

section \<open>The server's side\<close>

definition trigger_callback :: "vault \<Rightarrow> vault" where
  "trigger_callback v = (case deferred_cb v of
     None \<Rightarrow> v | Some cb \<Rightarrow> emit Result_received (emit (Run_callback cb) (v\<lparr>deferred_cb := None\<rparr>)))"

text \<open>The last part of \<open>wire_transfer_inbound\<close>: a free buffer goes to the caller who has waited longest.\<close>

definition hand_over :: "int \<Rightarrow> vault \<Rightarrow> vault" where
  "hand_over i v = trigger_callback (case promises v of
     [] \<Rightarrow> v
   | p # ps \<Rightarrow> emit (Set_value p i) (v\<lparr>buffers := put_owner i Owner_content_producer (buffers v), promises := ps\<rparr>))"

definition wire_transfer_inbound :: "int \<Rightarrow> vault \<Rightarrow> (vault, unit) outcome" where
  "wire_transfer_inbound i v0 =
     (if being_destroyed v0 then ret () v0
      else let v = v0\<lparr>last_received_id := i\<rparr>
      in case checked_buffer_from_map v i of
           Inl e \<Rightarrow> throw e v
         | Inr inbound_size \<Rightarrow>
             (case map_of (buffers v) i of
                None \<Rightarrow>
                  if inbound_size \<noteq> buffer_size v then ret () (realloc_buffer i (buffer_size v) v)
                  else ret () (hand_over i (v\<lparr>buffers := put_owner i Owner_self (buffers v)\<rparr>))
              | Some _ \<Rightarrow>
                  (let should_decrease_count = current_buffer_count v > needed_buffer_count v
                   in if buffer_size v \<noteq> inbound_size \<or> should_decrease_count
                      then let v1 = v\<lparr>buffers := erase_owner i (buffers v)\<rparr>;
                               v2 = (if should_decrease_count then v1\<lparr>current_buffer_count := current_buffer_count v1 - 1\<rparr> else v1);
                               v3 = free_buffer i v2
                           in ret () (if should_decrease_count then v3 else alloc_buffer (buffer_size v3) v3)
                      else ret () (hand_over i (v\<lparr>buffers := put_owner i Owner_self (buffers v)\<rparr>)))))"

definition disconnect :: "vault \<Rightarrow> vault" where
  "disconnect v = trigger_callback ((fold (\<lambda>p. emit (Broken_promise p)) (promises v) v)\<lparr>disconnected := True, promises := []\<rparr>)"

text \<open>
  \<open>BufferFactory::generate_buffer\<close> and what follows: a buffer that was asked for arrives, the connection learns
  of it, and its callback is \<open>wire_transfer_inbound\<close>.
\<close>

definition generate_buffer :: "extent \<Rightarrow> vault \<Rightarrow> (vault, unit) outcome" where
  "generate_buffer sz v =
     (if sz \<notin> set (allocation_requests v) then throw (Logic_error ''unrequested buffer received'') v
      else ret () (v\<lparr>allocation_requests := remove1 sz (allocation_requests v)\<rparr>))"

definition buffer_arrives :: "int \<Rightarrow> extent \<Rightarrow> vault \<Rightarrow> (vault, unit) outcome" where
  "buffer_arrives i sz v = and_then (generate_buffer sz v) (\<lambda>_ v.
     wire_transfer_inbound i (v\<lparr>surface_map := map_option (\<lambda>m. m(i \<mapsto> sz)) (surface_map v)\<rparr>)) id"

text \<open>The destructor; the promises are broken with the members.\<close>

definition destroy_vault :: "vault \<Rightarrow> vault" where
  "destroy_vault v = (fold (\<lambda>p. emit (Broken_promise p)) (promises v) v)\<lparr>promises := [], being_destroyed := True, allocation_requests := [],
     surface_map := map_option (\<lambda>m i. if i \<in> fst ` set (buffers v) then None else m i) (surface_map v)\<rparr>"

section \<open>Size and interval\<close>

definition set_size :: "extent \<Rightarrow> vault \<Rightarrow> vault" where
  "set_size sz v = v\<lparr>buffer_size := sz\<rparr>"

text \<open>The loop that gives up free buffers; each round takes the first one.\<close>

fun give_up :: "(int \<times> owner) list \<Rightarrow> vault \<Rightarrow> vault" where
  "give_up [] v = v"
| "give_up ((i, ow) # bs) v =
     (if current_buffer_count v > needed_buffer_count v
      then if ow = Owner_self
           then give_up bs (free_buffer i (v\<lparr>current_buffer_count := current_buffer_count v - 1, buffers := erase_owner i (buffers v)\<rparr>))
           else give_up bs v
      else v)"

definition set_interval :: "int \<Rightarrow> vault \<Rightarrow> vault" where
  "set_interval i v =
     (if i = swap_interval v then v
      else let v1 = v\<lparr>swap_interval := i\<rparr>
      in if i = 0
         then alloc_buffer (buffer_size v1) (v1\<lparr>current_buffer_count := current_buffer_count v1 + 1, needed_buffer_count := needed_buffer_count v1 + 1\<rparr>)
         else give_up (buffers v1) (v1\<lparr>needed_buffer_count := initial_buffer_count v1\<rparr>))"

section \<open>The ordered map\<close>

abbreviation ids :: "vault \<Rightarrow> int set" where
  "ids v \<equiv> fst ` set (buffers v)"

definition ordered :: "(int \<times> owner) list \<Rightarrow> bool" where
  "ordered bs \<longleftrightarrow> sorted_wrt (<) (map fst bs)"

lemma ordered_distinct: "ordered bs \<Longrightarrow> distinct (map fst bs)"
  unfolding ordered_def by (simp add: strict_sorted_iff)

lemma keys_put [simp]: "fst ` set (put_owner i ow bs) = insert i (fst ` set bs)"
  by (induction i ow bs rule: put_owner.induct) auto

lemma ordered_put: "ordered bs \<Longrightarrow> ordered (put_owner i ow bs)"
proof (induction i ow bs rule: put_owner.induct)
  case (2 i ow j ow' bs)
  have "fst ` set (put_owner i ow bs) = insert i (fst ` set bs)" by simp
  then have "set (map fst (put_owner i ow bs)) = insert i (set (map fst bs))" by simp
  with 2 show ?case by (auto simp: ordered_def)
qed (simp add: ordered_def)

lemma map_of_put: "ordered bs \<Longrightarrow> map_of (put_owner i ow bs) = (map_of bs)(i \<mapsto> ow)"
proof (induction i ow bs rule: put_owner.induct)
  case (2 i ow j ow' bs)
  have "map_of bs i = None" if "i < j"
    using 2(2) that by (auto simp: ordered_def map_of_eq_None_iff)
  with 2 show ?case by (auto simp: ordered_def fun_eq_iff)
qed simp

lemma put_twice [simp]: "put_owner i b (put_owner i a bs) = put_owner i b bs"
  by (induction i a bs rule: put_owner.induct) auto

lemma ordered_erase: "ordered bs \<Longrightarrow> ordered (erase_owner i bs)"
  unfolding ordered_def erase_owner_def
  by (induction bs) auto

lemma map_of_erase: "map_of (erase_owner i bs) = (map_of bs)(i := None)"
  by (induction bs) (auto simp: erase_owner_def fun_eq_iff)

lemma keys_erase [simp]: "fst ` set (erase_owner i bs) = fst ` set bs - {i}"
  by (auto simp: erase_owner_def)

lemma length_put: "ordered bs \<Longrightarrow> length (put_owner i ow bs) = (if i \<in> fst ` set bs then length bs else Suc (length bs))"
  by (induction i ow bs rule: put_owner.induct) (auto simp: ordered_def)

lemma length_erase: "ordered bs \<Longrightarrow> length (erase_owner i bs) = (if i \<in> fst ` set bs then length bs - 1 else length bs)"
proof (induction bs)
  case (Cons b bs)
  have "erase_owner i bs = bs" if "i \<notin> fst ` set bs" using that by (auto simp: erase_owner_def filter_id_conv)
  moreover have "fst b \<notin> fst ` set bs" using ordered_distinct [OF Cons.prems] by auto
  moreover have "Suc (length bs - 1) = length bs" if "i \<in> fst ` set bs" using that by (cases bs) auto
  ultimately show ?case using Cons by (auto simp: erase_owner_def ordered_def)
qed (simp add: erase_owner_def)

section \<open>The invariant\<close>

definition resolved :: "vault_event list \<Rightarrow> nat list" where
  "resolved es = concat (map (\<lambda>e. case e of Set_value p i \<Rightarrow> [p] | Broken_promise p \<Rightarrow> [p] | _ \<Rightarrow> []) es)"

lemma resolved_simps [simp]:
  "resolved [] = []" "resolved (es @ fs) = resolved es @ resolved fs" "resolved (Set_value p i # es) = p # resolved es"
  "resolved (Broken_promise p # es) = p # resolved es" "resolved (Allocate sz # es) = resolved es" "resolved (Free i # es) = resolved es"
  "resolved (Submit i # es) = resolved es" "resolved (Expect_result # es) = resolved es" "resolved (Run_callback cb # es) = resolved es"
  "resolved (Result_received # es) = resolved es" "resolved (map Free is) = []" "resolved (map Broken_promise ps) = ps"
  by (simp_all add: resolved_def concat_eq_Nil_conv comp_def)

text \<open>Every promise made so far, in order: those resolved and those still waiting.\<close>

definition asked :: "vault \<Rightarrow> nat list" where
  "asked v = resolved (events v) @ promises v"

definition known :: "vault \<Rightarrow> bool" where
  "known v \<longleftrightarrow> (\<exists>m. surface_map v = Some m \<and> ids v \<subseteq> dom m)"

definition none_free :: "vault \<Rightarrow> bool" where
  "none_free v \<longleftrightarrow> (\<forall>i. map_of (buffers v) i \<noteq> Some Owner_self)"

definition vault_inv :: "vault \<Rightarrow> bool" where
  "vault_inv v \<longleftrightarrow> ordered (buffers v) \<and> known v \<and> current_buffer_count v = length (buffers v) + length (allocation_requests v) \<and>
     1 \<le> initial_buffer_count v \<and> initial_buffer_count v \<le> needed_buffer_count v \<and>
     (promises v \<noteq> [] \<longrightarrow> none_free v \<and> 1 \<le> current_buffer_count v) \<and> (disconnected v \<longrightarrow> promises v = []) \<and> \<not> being_destroyed v"

lemma checked_known: "known v \<Longrightarrow> i \<in> ids v \<Longrightarrow> \<exists>m sz. surface_map v = Some m \<and> m i = Some sz \<and> checked_buffer_from_map v i = Inr sz"
  by (auto simp: known_def checked_buffer_from_map_def)

lemma find_free_spec:
  assumes "known v" "fst ` set bs \<subseteq> ids v"
  shows "(find_free v ok bs = Inr None \<and> (\<forall>(i, ow)\<in>set bs. ow = Owner_self \<and> ok i \<longrightarrow> checked_buffer_from_map v i \<noteq> Inr (buffer_size v))) \<or>
    (\<exists>i. find_free v ok bs = Inr (Some i) \<and> (i, Owner_self) \<in> set bs \<and> checked_buffer_from_map v i = Inr (buffer_size v))"
  using assms(2)
proof (induction bs)
  case (Cons b bs)
  obtain i ow where b: "b = (i, ow)" by fastforce
  then have "i \<in> ids v" using Cons.prems by simp
  with checked_known [OF assms(1)] obtain sz where "checked_buffer_from_map v i = Inr sz" by blast
  with Cons b show ?case by (auto split: if_splits)
qed simp

lemma available_spec:
  assumes "known v" "ordered (buffers v)"
  shows "(available_buffer v = Inr None \<and> (\<forall>i. map_of (buffers v) i = Some Owner_self \<longrightarrow> checked_buffer_from_map v i \<noteq> Inr (buffer_size v))) \<or>
    (\<exists>i. available_buffer v = Inr (Some i) \<and> map_of (buffers v) i = Some Owner_self \<and> checked_buffer_from_map v i = Inr (buffer_size v))"
proof -
  have mem: "(i, ow) \<in> set (buffers v) \<longleftrightarrow> map_of (buffers v) i = Some ow" for i ow
    using ordered_distinct [OF assms(2)] by simp
  show ?thesis
    using find_free_spec [OF assms(1) subset_refl, of "\<lambda>i. i \<noteq> last_received_id v"]
      find_free_spec [OF assms(1) subset_refl, of "\<lambda>i. True"]
    by (auto simp: available_buffer_def mem)
qed

lemma fold_free:
  "fold free_buffer is v = v\<lparr>events := events v @ map Free is, surface_map := map_option (\<lambda>m i. if i \<in> set is then None else m i) (surface_map v)\<rparr>"
proof (induction "is" arbitrary: v)
  case Nil
  show ?case by (cases "surface_map v") (simp_all add: option.map_ident)
next
  case (Cons i "is")
  then show ?case by (cases "surface_map v") (auto simp: free_buffer_def emit_def fun_eq_iff)
qed

text \<open>A free buffer whose size is not the one wanted now.\<close>

definition misfit :: "vault \<Rightarrow> int \<times> owner \<Rightarrow> bool" where
  "misfit v b \<longleftrightarrow> snd b = Owner_self \<and> checked_buffer_from_map v (fst b) \<noteq> Inr (buffer_size v)"

definition without_ids :: "int set \<Rightarrow> nat \<Rightarrow> vault \<Rightarrow> vault" where
  "without_ids I n v = v\<lparr>current_buffer_count := current_buffer_count v - n, buffers := filter (\<lambda>b. fst b \<notin> I) (buffers v)\<rparr>"

lemma clean_up_eq:
  assumes "\<And>i. i \<in> fst ` set bs \<Longrightarrow> \<exists>sz. checked_buffer_from_map v i = Inr sz"
  shows "clean_up bs fr v = ret (fr @ map fst (filter (misfit v) bs)) (without_ids (fst ` set (filter (misfit v) bs)) (length (filter (misfit v) bs)) v)"
  using assms
proof (induction bs arbitrary: fr v)
  case Nil
  then show ?case by (simp add: without_ids_def)
next
  case (Cons b bs)
  obtain i ow where b: "b = (i, ow)" by fastforce
  obtain sz where sz: "checked_buffer_from_map v i = Inr sz" using Cons.prems [of i] b by auto
  let ?v = "v\<lparr>current_buffer_count := current_buffer_count v - 1, buffers := erase_owner i (buffers v)\<rparr>"
  have same: "checked_buffer_from_map ?v = checked_buffer_from_map v" "misfit ?v = misfit v"
    by (simp_all add: checked_buffer_from_map_def misfit_def fun_eq_iff)
  show ?case
  proof (cases "misfit v b")
    case True
    have "\<exists>sz. checked_buffer_from_map ?v j = Inr sz" if "j \<in> fst ` set bs" for j
      unfolding same(1) using Cons.prems [of j] that by simp
    note IH = Cons.IH [of ?v "fr @ [i]", OF this, unfolded same(2)]
    have "clean_up (b # bs) fr v = clean_up bs (fr @ [i]) ?v" using True sz b by (auto simp: misfit_def)
    with IH True b show ?thesis by (auto simp: without_ids_def erase_owner_def intro!: filter_cong)
  next
    case False
    from Cons.IH [of v fr] Cons.prems show ?thesis using False sz b by (auto simp: misfit_def)
  qed
qed

lemma emit_sel [simp]:
  "buffers (emit e v) = buffers v" "promises (emit e v) = promises v" "buffer_size (emit e v) = buffer_size v"
  "disconnected (emit e v) = disconnected v" "being_destroyed (emit e v) = being_destroyed v"
  "current_buffer_count (emit e v) = current_buffer_count v" "needed_buffer_count (emit e v) = needed_buffer_count v"
  "initial_buffer_count (emit e v) = initial_buffer_count v" "allocation_requests (emit e v) = allocation_requests v"
  "surface_map (emit e v) = surface_map v" "events (emit e v) = events v @ [e]" "deferred_cb (emit e v) = deferred_cb v"
  "last_received_id (emit e v) = last_received_id v" "swap_interval (emit e v) = swap_interval v"
  by (simp_all add: emit_def)

lemma inv_fold_free:
  assumes "vault_inv v" "set is \<inter> ids v = {}"
  shows "vault_inv (fold free_buffer is v) \<and> asked (fold free_buffer is v) = asked v"
proof -
  obtain m where m: "surface_map v = Some m" "ids v \<subseteq> dom m" using assms(1) by (auto simp: vault_inv_def known_def)
  have "ids v \<subseteq> dom (\<lambda>i. if i \<in> set is then None else m i)" using m(2) assms(2) by (auto simp: dom_def)
  then have "known (fold free_buffer is v)" using m by (simp add: known_def fold_free)
  with assms(1) show ?thesis by (auto simp: fold_free vault_inv_def none_free_def asked_def)
qed

lemma inv_free: "vault_inv v \<Longrightarrow> i \<notin> ids v \<Longrightarrow> vault_inv (free_buffer i v) \<and> asked (free_buffer i v) = asked v"
  using inv_fold_free [of v "[i]"] by simp

lemma inv_alloc:
  "vault_inv v \<Longrightarrow> vault_inv (alloc_buffer sz (v\<lparr>current_buffer_count := current_buffer_count v + 1\<rparr>)) \<and>
     asked (alloc_buffer sz (v\<lparr>current_buffer_count := current_buffer_count v + 1\<rparr>)) = asked v"
  by (auto simp: alloc_buffer_def vault_inv_def known_def none_free_def asked_def)

lemma vault_inv_put:
  assumes "vault_inv v" "i \<in> ids v" "ow = Owner_self \<longrightarrow> promises v = []"
  shows "vault_inv (v\<lparr>buffers := put_owner i ow (buffers v)\<rparr>)"
proof -
  have "known (v\<lparr>buffers := put_owner i ow (buffers v)\<rparr>)"
    using assms(1,2) by (simp add: vault_inv_def known_def insert_absorb)
  with assms show ?thesis
    by (auto simp: vault_inv_def none_free_def length_put ordered_put map_of_put simp del: length_greater_0_conv)
qed

lemma inv_emit [simp]: "vault_inv (emit e v) = vault_inv v"
  by (simp add: vault_inv_def known_def none_free_def)

lemma inv_quiet [simp]:
  "vault_inv (v\<lparr>deferred_cb := cb\<rparr>) = vault_inv v" "vault_inv (v\<lparr>last_received_id := i\<rparr>) = vault_inv v"
  "vault_inv (v\<lparr>buffer_size := sz\<rparr>) = vault_inv v" "vault_inv (v\<lparr>swap_interval := n\<rparr>) = vault_inv v"
  by (simp_all add: vault_inv_def known_def none_free_def)

lemma asked_quiet [simp]:
  "asked (v\<lparr>deferred_cb := cb\<rparr>) = asked v" "asked (v\<lparr>last_received_id := i\<rparr>) = asked v" "asked (v\<lparr>buffer_size := sz\<rparr>) = asked v"
  "asked (v\<lparr>swap_interval := n\<rparr>) = asked v" "asked (v\<lparr>buffers := bs\<rparr>) = asked v" "asked (v\<lparr>current_buffer_count := c\<rparr>) = asked v"
  "asked (v\<lparr>needed_buffer_count := c\<rparr>) = asked v"
  by (simp_all add: asked_def)

lemma ordered_filter: "ordered bs \<Longrightarrow> ordered (filter P bs)"
  unfolding ordered_def by (induction bs) auto

lemma map_of_filter_None: "distinct (map fst bs) \<Longrightarrow> map_of (filter P bs) i = Some ow \<Longrightarrow> map_of bs i = Some ow \<and> P (i, ow)"
proof -
  assume d: "distinct (map fst bs)" and m: "map_of (filter P bs) i = Some ow"
  from map_of_SomeD [OF m] have "(i, ow) \<in> set bs" "P (i, ow)" by auto
  with d show ?thesis by simp
qed

text \<open>What taking out the misfits leaves.\<close>

lemma inv_clean:
  assumes "vault_inv v"
  defines "bad \<equiv> filter (misfit v) (buffers v)"
  defines "v1 \<equiv> without_ids (fst ` set bad) (length bad) v"
  shows "clean_up (buffers v) [] v = ret (map fst bad) v1" "asked v1 = asked v" "fst ` set bad \<inter> ids v1 = {}"
    "ordered (buffers v1)" "known v1" "current_buffer_count v1 = length (buffers v1) + length (allocation_requests v1)"
    "map_of (buffers v1) i = Some Owner_self \<Longrightarrow> checked_buffer_from_map v1 i = Inr (buffer_size v1) \<and> map_of (buffers v) i = Some Owner_self"
proof -
  have o: "ordered (buffers v)" "known v" and d: "distinct (map fst (buffers v))"
    using assms(1) ordered_distinct by (auto simp: vault_inv_def)
  show "clean_up (buffers v) [] v = ret (map fst bad) v1"
    unfolding bad_def v1_def using clean_up_eq [of "buffers v" v "[]"] checked_known [OF o(2)] by (metis append_Nil)
  have "misfit v b" if b: "b \<in> set (buffers v)" "fst b \<in> fst ` set bad" for b
  proof -
    obtain c where c: "c \<in> set (buffers v)" "misfit v c" "fst c = fst b" using b(2) by (auto simp: bad_def)
    then have "c = b" using eq_key_imp_eq_value [OF d, of "fst b" "snd b" "snd c"] b(1) by (metis prod.collapse)
    with c(2) show ?thesis by simp
  qed
  then have keep: "buffers v1 = filter (\<lambda>b. \<not> misfit v b) (buffers v)"
    by (auto simp: v1_def without_ids_def bad_def intro!: filter_cong)
  show "ordered (buffers v1)" unfolding keep by (rule ordered_filter [OF o(1)])
  show "fst ` set bad \<inter> ids v1 = {}" by (force simp: v1_def without_ids_def)
  have "ids v1 \<subseteq> ids v" "surface_map v1 = surface_map v" by (auto simp: v1_def without_ids_def)
  then show "known v1" using o(2) unfolding known_def by (metis subset_trans)
  show "asked v1 = asked v" by (simp add: v1_def without_ids_def asked_def)
  have "length (buffers v) = length bad + length (buffers v1)"
    unfolding keep bad_def by (simp add: sum_length_filter_compl)
  then show "current_buffer_count v1 = length (buffers v1) + length (allocation_requests v1)"
    using assms(1) by (simp add: v1_def without_ids_def vault_inv_def)
  show "checked_buffer_from_map v1 i = Inr (buffer_size v1) \<and> map_of (buffers v) i = Some Owner_self" if "map_of (buffers v1) i = Some Owner_self"
    using map_of_filter_None [OF d that [unfolded keep]]
    by (simp add: misfit_def v1_def without_ids_def checked_buffer_from_map_def)
qed


section \<open>Every operation keeps the invariant\<close>

text \<open>What an operation that cannot fail does to the promises made: nothing is lost, \<open>new\<close> are added.\<close>

definition keeps :: "nat list \<Rightarrow> vault \<Rightarrow> vault \<Rightarrow> bool" where
  "keeps new v v' \<longleftrightarrow> vault_inv v' \<and> asked v' = asked v @ new"

lemma withdraw_keeps:
  assumes "vault_inv v" "\<not> disconnected v"
  obtains v' where "withdraw p v = ret () v'" "keeps [p] v v'" "disconnected v' = disconnected v"
proof -
  define bad where "bad = filter (misfit v) (buffers v)"
  define v1 where "v1 = without_ids (fst ` set bad) (length bad) v"
  note c = inv_clean [OF assms(1), folded bad_def, folded v1_def]
  have fix1: "promises v1 = promises v" "needed_buffer_count v1 = needed_buffer_count v" "initial_buffer_count v1 = initial_buffer_count v"
    "disconnected v1 = disconnected v" "being_destroyed v1 = being_destroyed v" "events v1 = events v"
    by (simp_all add: v1_def without_ids_def)
  have nf: "promises v \<noteq> [] \<Longrightarrow> none_free v1" using assms(1) c(7) by (auto simp: vault_inv_def none_free_def)
  consider i where "available_buffer v1 = Inr (Some i)" "map_of (buffers v1) i = Some Owner_self"
    | "available_buffer v1 = Inr None" "none_free v1"
    using available_spec [OF c(5,4)] c(7) by (auto simp: none_free_def)
  then show ?thesis
  proof cases
    case 1
    then have i: "i \<in> ids v1" by (force dest: map_of_SomeD)
    have none: "promises v = []" using nf 1(2) by (auto simp: none_free_def)
    let ?v = "emit (Set_value p i) (v1\<lparr>buffers := put_owner i Owner_content_producer (buffers v1)\<rparr>)"
    have "vault_inv v1" using assms(1) c none fix1 by (simp add: vault_inv_def)
    then have "vault_inv ?v" using vault_inv_put i by simp
    moreover have "asked ?v = asked v @ [p]" using none fix1 by (simp add: asked_def)
    moreover have "set (map fst bad) \<inter> ids ?v = {}" using c(3) i by auto
    ultimately have "keeps [p] v (fold free_buffer (map fst bad) ?v)" using inv_fold_free by (simp add: keeps_def)
    moreover have "withdraw p v = ret () (fold free_buffer (map fst bad) ?v)" using assms(2) c(1) 1(1) by (simp add: withdraw_def)
    moreover have "disconnected (fold free_buffer (map fst bad) ?v) = disconnected v" using fix1 by (simp add: fold_free)
    ultimately show ?thesis using that by blast
  next
    case 2
    let ?u = "v1\<lparr>promises := promises v1 @ [p]\<rparr>"
    let ?v = "if current_buffer_count v1 < needed_buffer_count v1
      then alloc_buffer (buffer_size v1) (?u\<lparr>current_buffer_count := current_buffer_count v1 + 1\<rparr>) else ?u"
    have "vault_inv ?v" using assms c(4-6) fix1 2(2)
      by (auto simp: vault_inv_def known_def none_free_def alloc_buffer_def)
    moreover have "asked ?v = asked v @ [p]" using fix1 by (simp add: asked_def alloc_buffer_def)
    moreover have "set (map fst bad) \<inter> ids ?v = {}" using c(3) by (auto simp: alloc_buffer_def)
    ultimately have "keeps [p] v (fold free_buffer (map fst bad) ?v)" using inv_fold_free by (simp add: keeps_def)
    moreover have "withdraw p v = ret () (fold free_buffer (map fst bad) ?v)" using assms(2) c(1) 2(1) by (simp add: withdraw_def Let_def)
    moreover have "disconnected (fold free_buffer (map fst bad) ?v) = disconnected v" using fix1 by (simp add: fold_free alloc_buffer_def)
    ultimately show ?thesis using that by blast
  qed
qed

lemma deposit_keeps:
  assumes "vault_inv v" "map_of (buffers v) i = Some Owner_content_producer"
  obtains v' where "deposit i v = ret () v'" "keeps [] v v'" "map_of (buffers v') i = Some Owner_self_with_content"
proof -
  let ?v = "v\<lparr>buffers := put_owner i Owner_self_with_content (buffers v)\<rparr>"
  have i: "i \<in> ids v" using assms(2) by (force dest: map_of_SomeD)
  have "vault_inv ?v" using vault_inv_put [OF assms(1) i] by simp
  moreover have "ordered (buffers v)" "known ?v" using assms(1) calculation by (simp_all add: vault_inv_def)
  moreover obtain sz where "checked_buffer_from_map ?v i = Inr sz" using checked_known [of ?v i] calculation by auto
  ultimately show ?thesis using that assms(2) by (simp add: deposit_def keeps_def map_of_put)
qed

lemma trigger_keeps [simp]: "vault_inv (trigger_callback v) = vault_inv v" "asked (trigger_callback v) = asked v"
  "disconnected (trigger_callback v) = disconnected v" "buffers (trigger_callback v) = buffers v" "promises (trigger_callback v) = promises v"
  "deferred_cb (trigger_callback v) = None"
  by (auto simp: trigger_callback_def asked_def split: option.split)

lemma outbound_keeps:
  assumes "vault_inv v" "map_of (buffers v) i = Some Owner_self_with_content"
  obtains (connected) v' where "\<not> disconnected v" "wire_transfer_outbound i cb v = ret () v'" "keeps [] v v'" "disconnected v' = disconnected v"
  | (gone) v' where "disconnected v" "wire_transfer_outbound i cb v = throw (Logic_error ''server_disconnected'') v'" "keeps [] v v'"
      "disconnected v' = disconnected v"
proof -
  let ?v = "emit (Submit i) (v\<lparr>buffers := put_owner i Owner_server (buffers v)\<rparr>)"
  have i: "i \<in> ids v" using assms(2) by (force dest: map_of_SomeD)
  have inv: "vault_inv ?v" using vault_inv_put [OF assms(1) i] by simp
  have ask: "asked ?v = asked v" by (simp add: asked_def)
  show ?thesis
  proof (cases "disconnected v")
    case True
    show ?thesis by (rule gone [of ?v]) (use True assms(2) inv ask in \<open>auto simp: wire_transfer_outbound_def keeps_def\<close>)
  next
    case False
    have kv: "known ?v" "ordered (buffers ?v)" using inv by (simp_all add: vault_inv_def)
    obtain r where r: "available_buffer ?v = Inr r" using available_spec [OF kv] by blast
    show ?thesis
      by (rule connected [of "case r of Some _ \<Rightarrow> emit (Run_callback cb) ?v | None \<Rightarrow> (emit Expect_result ?v)\<lparr>deferred_cb := Some cb\<rparr>"])
        (use False assms(2) inv ask r in \<open>auto simp: wire_transfer_outbound_def keeps_def asked_def split: option.split\<close>)
  qed
qed

lemma hand_over_keeps:
  assumes "vault_inv v" "i \<in> ids v"
  shows "keeps [] v (hand_over i (v\<lparr>buffers := put_owner i Owner_self (buffers v)\<rparr>))"
proof (cases "promises v")
  case Nil
  with assms show ?thesis using vault_inv_put by (simp add: hand_over_def keeps_def)
next
  case (Cons p ps)
  have o: "ordered (buffers v)" using assms(1) by (simp add: vault_inv_def)
  have "vault_inv (v\<lparr>buffers := put_owner i Owner_content_producer (buffers v)\<rparr>)" using vault_inv_put assms by simp
  then have "vault_inv (v\<lparr>buffers := put_owner i Owner_content_producer (buffers v), promises := ps\<rparr>)"
    using Cons by (auto simp: vault_inv_def known_def none_free_def)
  moreover have "asked (emit (Set_value p i) (v\<lparr>buffers := put_owner i Owner_content_producer (buffers v), promises := ps\<rparr>)) = asked v"
    using Cons by (simp add: asked_def)
  ultimately show ?thesis using Cons by (simp add: hand_over_def keeps_def)
qed

lemma fold_broken: "fold (\<lambda>p. emit (Broken_promise p)) ps v = v\<lparr>events := events v @ map Broken_promise ps\<rparr>"
  by (induction ps arbitrary: v) (simp_all add: emit_def)

lemma disconnect_keeps: "vault_inv v \<Longrightarrow> keeps [] v (disconnect v)"
proof -
  assume i: "vault_inv v"
  note f = fold_broken
  let ?w = "(fold (\<lambda>p. emit (Broken_promise p)) (promises v) v)\<lparr>disconnected := True, promises := []\<rparr>"
  have "vault_inv ?w" using i by (simp add: f vault_inv_def known_def)
  moreover have "asked ?w = asked v" by (simp add: f asked_def)
  ultimately show ?thesis by (simp add: disconnect_def keeps_def)
qed

text \<open>A buffer the vault holds leaves it: for good, or to be replaced by one of the right size.\<close>

lemma known_erase: "known v \<Longrightarrow> known (free_buffer i (v\<lparr>buffers := erase_owner i (buffers v)\<rparr>))"
  by (force simp: known_def free_buffer_def dom_def)

lemma length_erase_Suc:
  assumes "ordered bs" "i \<in> fst ` set bs"
  shows "Suc (length (erase_owner i bs)) = length bs"
proof -
  have "length bs \<noteq> 0" using assms(2) by auto
  then show ?thesis using length_erase [OF assms(1), of i] assms(2) by simp
qed

lemma none_free_erase: "none_free v \<Longrightarrow> none_free (v\<lparr>buffers := erase_owner i (buffers v)\<rparr>)"
  by (auto simp: none_free_def map_of_erase)

lemma give_up_keeps_one:
  assumes "vault_inv v" "i \<in> ids v" "current_buffer_count v > needed_buffer_count v"
  shows "keeps [] v (free_buffer i (v\<lparr>current_buffer_count := current_buffer_count v - 1, buffers := erase_owner i (buffers v)\<rparr>))"
proof -
  have "known (free_buffer i (v\<lparr>current_buffer_count := current_buffer_count v - 1, buffers := erase_owner i (buffers v)\<rparr>))"
    using known_erase [of "v\<lparr>current_buffer_count := current_buffer_count v - 1\<rparr>" i] assms(1) by (simp add: vault_inv_def known_def)
  moreover have "Suc (length (erase_owner i (buffers v))) = length (buffers v)"
    using assms by (intro length_erase_Suc) (simp_all add: vault_inv_def)
  ultimately show ?thesis
    using assms none_free_erase [of v i] by (auto simp: keeps_def vault_inv_def free_buffer_def asked_def ordered_erase none_free_def)
qed

lemma replace_keeps:
  assumes "vault_inv v" "i \<in> ids v"
  shows "keeps [] v (alloc_buffer sz (free_buffer i (v\<lparr>buffers := erase_owner i (buffers v)\<rparr>)))"
proof -
  have "known (alloc_buffer sz (free_buffer i (v\<lparr>buffers := erase_owner i (buffers v)\<rparr>)))"
    using known_erase [of v i] assms(1) by (simp add: vault_inv_def known_def alloc_buffer_def)
  moreover have "Suc (length (erase_owner i (buffers v))) = length (buffers v)"
    using assms by (intro length_erase_Suc) (simp_all add: vault_inv_def)
  ultimately show ?thesis
    using assms none_free_erase [of v i]
    by (auto simp: keeps_def vault_inv_def free_buffer_def alloc_buffer_def asked_def ordered_erase none_free_def)
qed

lemma upd_swap: "v\<lparr>buffers := bs, current_buffer_count := c\<rparr> = v\<lparr>current_buffer_count := c, buffers := bs\<rparr>"
  by simp

lemma keeps_received: "keeps new (v\<lparr>last_received_id := i\<rparr>) v' = keeps new v v'"
  by (simp add: keeps_def)

lemma inbound_keeps:
  assumes "vault_inv v" "i \<in> ids v"
  obtains v' where "wire_transfer_inbound i v = ret () v'" "keeps [] v v'"
proof -
  let ?v = "v\<lparr>last_received_id := i\<rparr>"
  obtain sz where sz: "checked_buffer_from_map ?v i = Inr sz"
    using checked_known [of ?v i] assms by (auto simp: vault_inv_def known_def)
  obtain ow where ow: "map_of (buffers v) i = Some ow" using assms(2) by (metis map_of_eq_None_iff not_None_eq)
  have inv: "vault_inv ?v" "i \<in> ids ?v" using assms by simp_all
  consider "current_buffer_count v > needed_buffer_count v" | "\<not> current_buffer_count v > needed_buffer_count v" "buffer_size v \<noteq> sz"
    | "\<not> current_buffer_count v > needed_buffer_count v" "buffer_size v = sz" by blast
  then show ?thesis
  proof cases
    case 1
    with assms(1) sz ow give_up_keeps_one [OF inv] that show ?thesis
      by (simp add: wire_transfer_inbound_def vault_inv_def keeps_received Let_def upd_swap)
  next
    case 2
    with assms(1) sz ow replace_keeps [OF inv, of "buffer_size v"] that show ?thesis
      by (simp add: wire_transfer_inbound_def vault_inv_def keeps_received Let_def free_buffer_def)
  next
    case 3
    with assms(1) sz ow hand_over_keeps [OF inv] that show ?thesis
      by (simp add: wire_transfer_inbound_def vault_inv_def keeps_received Let_def)
  qed
qed

text \<open>A buffer that was asked for arrives: it is kept when its size is still wanted, and sent back for another otherwise.\<close>

lemma arrives_keeps:
  assumes "vault_inv v" "i \<notin> ids v" "sz \<in> set (allocation_requests v)"
  obtains v' where "buffer_arrives i sz v = ret () v'" "keeps [] v v'"
proof -
  obtain m where m: "surface_map v = Some m" "ids v \<subseteq> dom m" using assms(1) by (auto simp: vault_inv_def known_def)
  let ?r = "remove1 sz (allocation_requests v)"
  let ?v = "v\<lparr>allocation_requests := ?r, surface_map := Some (m(i \<mapsto> sz)), last_received_id := i\<rparr>"
  have no: "map_of (buffers v) i = None" using assms(2) by (simp add: map_of_eq_None_iff)
  have len: "Suc (length ?r) = length (allocation_requests v)"
    using length_pos_if_in_set [OF assms(3)] assms(3) by (simp add: length_remove1)
  have eq: "buffer_arrives i sz v = (if sz \<noteq> buffer_size v then ret () (realloc_buffer i (buffer_size v) ?v)
      else ret () (hand_over i (?v\<lparr>buffers := put_owner i Owner_self (buffers v)\<rparr>)))"
    using assms(1,3) m(1) no
    by (simp add: buffer_arrives_def generate_buffer_def wire_transfer_inbound_def vault_inv_def checked_buffer_from_map_def)
  show ?thesis
  proof (cases "sz = buffer_size v")
    case False
    let ?w = "realloc_buffer i (buffer_size v) ?v"
    have "ids v \<subseteq> dom (m(i := None))" using m(2) assms(2) by (auto simp: dom_fun_upd)
    then have "known ?w" by (simp add: known_def realloc_buffer_def free_buffer_def alloc_buffer_def)
    then have "keeps [] v ?w" using assms(1) len
      by (auto simp: keeps_def vault_inv_def none_free_def realloc_buffer_def free_buffer_def alloc_buffer_def asked_def)
    with False that eq show ?thesis by simp
  next
    case True
    let ?u = "?v\<lparr>buffers := put_owner i Owner_content_producer (buffers v)\<rparr>"
    have "known ?u" using m by (simp add: known_def subset_insertI2)
    then have "vault_inv ?u" using assms len
      by (auto simp: vault_inv_def none_free_def ordered_put map_of_put length_put)
    then have "keeps [] ?u (hand_over i (?u\<lparr>buffers := put_owner i Owner_self (buffers ?u)\<rparr>))"
      by (rule hand_over_keeps) simp
    then have "keeps [] ?u (hand_over i (?v\<lparr>buffers := put_owner i Owner_self (buffers v)\<rparr>))" by simp
    moreover have "asked ?u = asked v" by (simp add: asked_def)
    ultimately have "keeps [] v (hand_over i (?v\<lparr>buffers := put_owner i Owner_self (buffers v)\<rparr>))" by (simp add: keeps_def)
    with True that eq show ?thesis by simp
  qed
qed

lemma give_up_keeps: "vault_inv v \<Longrightarrow> set bs \<subseteq> set (buffers v) \<Longrightarrow> distinct (map fst bs) \<Longrightarrow> keeps [] v (give_up bs v)"
proof (induction bs v rule: give_up.induct)
  case (2 i ow bs v)
  let ?v = "free_buffer i (v\<lparr>current_buffer_count := current_buffer_count v - 1, buffers := erase_owner i (buffers v)\<rparr>)"
  show ?case
  proof (cases "current_buffer_count v > needed_buffer_count v \<and> ow = Owner_self")
    case True
    have "i \<in> ids v" using 2(4) by force
    then have k: "keeps [] v ?v" using give_up_keeps_one 2(3) True by blast
    moreover have "set bs \<subseteq> set (buffers ?v)" using 2(4,5) by (force simp: free_buffer_def erase_owner_def)
    ultimately show ?thesis using 2(1,5) True by (simp add: keeps_def)
  next
    case False
    with 2 show ?thesis by (auto simp: keeps_def)
  qed
qed (simp add: keeps_def)

lemma interval_keeps: "vault_inv v \<Longrightarrow> keeps [] v (set_interval n v)"
proof -
  assume inv: "vault_inv v"
  show ?thesis
  proof (cases "n = 0 \<or> n = swap_interval v")
    case True
    with inv show ?thesis by (auto simp: set_interval_def keeps_def alloc_buffer_def vault_inv_def known_def none_free_def asked_def)
  next
    case False
    let ?v = "v\<lparr>swap_interval := n, needed_buffer_count := initial_buffer_count v\<rparr>"
    have "vault_inv ?v" using inv by (auto simp: vault_inv_def known_def none_free_def)
    moreover have "distinct (map fst (buffers v))" using inv ordered_distinct by (simp add: vault_inv_def)
    ultimately have "keeps [] ?v (give_up (buffers v) ?v)" using give_up_keeps [of ?v "buffers v"] by simp
    with False show ?thesis by (simp add: set_interval_def keeps_def Let_def)
  qed
qed

section \<open>Runs of a connected vault\<close>

text \<open>
  The calls on a vault, from the application, from the server and from the connection, the loss of the connection's resources, which the vault holds weakly, and
  its destruction.  The server returns only buffers it was sent, and a buffer that arrives is new and of a size that was asked for: this
  is the protocol between the two.  Once its destruction has begun, only callbacks of buffers that are still on their way reach the vault.  \<open>permitted\<close> says both.
\<close>

datatype vault_call =
    Withdraw nat | Deposit int | Outbound int nat | Set_size extent | Set_interval int
  | Returned int | Arrives int extent | Disconnected | Resources_lost | Destroyed

fun perform :: "vault_call \<Rightarrow> vault \<Rightarrow> (vault, unit) outcome" where
  "perform (Withdraw p) v = withdraw p v"
| "perform (Deposit i) v = deposit i v"
| "perform (Outbound i cb) v = wire_transfer_outbound i cb v"
| "perform (Set_size sz) v = ret () (set_size sz v)"
| "perform (Set_interval n) v = ret () (set_interval n v)"
| "perform (Returned i) v = wire_transfer_inbound i v"
| "perform (Arrives i sz) v = buffer_arrives i sz v"
| "perform Disconnected v = ret () (disconnect v)"
| "perform Resources_lost v = ret () (v\<lparr>surface_map := None\<rparr>)"
| "perform Destroyed v = ret () (destroy_vault v)"

fun permitted :: "vault_call \<Rightarrow> vault \<Rightarrow> bool" where
  "permitted (Returned i) v = (being_destroyed v \<or> map_of (buffers v) i = Some Owner_server)"
| "permitted (Arrives i sz) v = (\<not> being_destroyed v \<and> i \<notin> ids v \<and> sz \<in> set (allocation_requests v))"
| "permitted Resources_lost v = True"
| "permitted c v = (\<not> being_destroyed v)"

text \<open>
  The failures: a withdrawal or a submission after the connection is gone, a deposit of a buffer the application does not hold, a submission of a buffer without
  content, and, when the connection's resources are lost, every call that looks a buffer up in them.
\<close>

abbreviation resources_lost :: exn where
  "resources_lost \<equiv> Logic_error ''connection resources lost; cannot access buffer''"

fun misuse :: "vault_call \<Rightarrow> vault \<Rightarrow> exn option" where
  "misuse (Withdraw p) v =
     (if disconnected v then Some (Logic_error ''server_disconnected'')
      else if surface_map v = None \<and> buffers v \<noteq> [] then Some resources_lost else None)"
| "misuse (Deposit i) v =
     (if map_of (buffers v) i \<noteq> Some Owner_content_producer then Some (Logic_error ''buffer cannot be deposited'')
      else if surface_map v = None then Some resources_lost else None)"
| "misuse (Outbound i cb) v =
     (if map_of (buffers v) i \<noteq> Some Owner_self_with_content then Some (Logic_error ''buffer cannot be transferred'')
      else if disconnected v then Some (Logic_error ''server_disconnected'')
      else if surface_map v = None \<and> list_ex (\<lambda>b. snd b = Owner_self) (buffers v) then Some resources_lost else None)"
| "misuse (Returned i) v = (if \<not> being_destroyed v \<and> surface_map v = None then Some resources_lost else None)"
| "misuse (Arrives i sz) v = (if surface_map v = None then Some resources_lost else None)"
| "misuse c v = None"

fun promised :: "vault_call \<Rightarrow> (vault, unit) outcome \<Rightarrow> nat list" where
  "promised (Withdraw p) r = (case result_of r of Inr _ \<Rightarrow> [p] | Inl _ \<Rightarrow> [])"
| "promised c r = []"

inductive vault_run :: "nat list \<Rightarrow> vault \<Rightarrow> bool" where
  start: "1 \<le> n \<Longrightarrow> vault_run [] (make_vault (Some m) sz n)"
| call: "vault_run ps v \<Longrightarrow> permitted c v \<Longrightarrow> vault_run (ps @ promised c (perform c v)) (state_of (perform c v))"

lemma make_vault_inv: "1 \<le> n \<Longrightarrow> vault_inv (make_vault (Some m) sz n) \<and> asked (make_vault (Some m) sz n) = []"
proof -
  assume n: "1 \<le> n"
  have a: "(alloc_buffer sz ^^ k) v = v\<lparr>allocation_requests := allocation_requests v @ replicate k sz, events := events v @ replicate k (Allocate sz)\<rparr>" for k v
    by (induction k) (simp_all add: alloc_buffer_def emit_def replicate_append_same flip: replicate_Suc)
  have "resolved (replicate k (Allocate sz)) = []" for k by (induction k) simp_all
  with n show ?thesis by (simp add: make_vault_def a vault_inv_def ordered_def known_def asked_def)
qed

lemma call_keeps:
  assumes "vault_inv v" "permitted c v" "c \<noteq> Resources_lost" "c \<noteq> Destroyed"
  shows "keeps (promised c (perform c v)) v (state_of (perform c v)) \<and>
    result_of (perform c v) = (case misuse c v of None \<Rightarrow> Inr () | Some e \<Rightarrow> Inl e)"
proof -
  have m: "surface_map v \<noteq> None" "\<not> being_destroyed v" using assms(1) by (auto simp: vault_inv_def known_def)
  show ?thesis
proof (cases c)
  case (Withdraw p)
  show ?thesis
  proof (cases "disconnected v")
    case True
    with assms(1) Withdraw show ?thesis by (simp add: withdraw_def keeps_def)
  next
    case False
    obtain v' where "withdraw p v = ret () v'" "keeps [p] v v'" by (rule withdraw_keeps [OF assms(1) False])
    with Withdraw False m show ?thesis by simp
  qed
next
  case (Deposit i)
  show ?thesis
  proof (cases "map_of (buffers v) i = Some Owner_content_producer")
    case True
    obtain v' where "deposit i v = ret () v'" "keeps [] v v'" by (rule deposit_keeps [OF assms(1) True])
    with Deposit True m show ?thesis by simp
  qed (use assms(1) Deposit in \<open>simp add: deposit_def keeps_def\<close>)
next
  case (Outbound i cb)
  show ?thesis
  proof (cases "map_of (buffers v) i = Some Owner_self_with_content")
    case True
    with assms(1) show ?thesis by (rule outbound_keeps [of v i cb]) (use Outbound True m in simp_all)
  qed (use assms(1) Outbound in \<open>simp add: wire_transfer_outbound_def keeps_def\<close>)
next
  case (Returned i)
  then have "map_of (buffers v) i = Some Owner_server" using assms(2) m by simp
  then have "i \<in> ids v" by (force dest: map_of_SomeD)
  with assms(1) obtain v' where "wire_transfer_inbound i v = ret () v'" "keeps [] v v'" by (rule inbound_keeps)
  with Returned m show ?thesis by simp
next
  case (Arrives i sz)
  then have "i \<notin> ids v" "sz \<in> set (allocation_requests v)" using assms(2) by simp_all
  with assms(1) obtain v' where "buffer_arrives i sz v = ret () v'" "keeps [] v v'" by (rule arrives_keeps)
  with Arrives m show ?thesis by simp
qed (use assms(1,3,4) interval_keeps disconnect_keeps in \<open>auto simp: set_size_def keeps_def\<close>)
qed

text \<open>When the connection's resources are lost, nothing can be looked up, and what the calls do is simple.\<close>

definition lost_inv :: "vault \<Rightarrow> bool" where
  "lost_inv v \<longleftrightarrow> surface_map v = None \<and> ordered (buffers v) \<and> \<not> being_destroyed v"

lemma find_free_lost:
  "surface_map v = None \<Longrightarrow> find_free v ok bs = (if list_ex (\<lambda>b. snd b = Owner_self) bs then Inl resources_lost else Inr None)"
  by (induction bs) (auto simp: checked_buffer_from_map_def)

lemma available_lost:
  "surface_map v = None \<Longrightarrow> available_buffer v = (if list_ex (\<lambda>b. snd b = Owner_self) (buffers v) then Inl resources_lost else Inr None)"
  by (simp add: available_buffer_def find_free_lost)

lemma submitted_free:
  assumes "ordered bs" "map_of bs i = Some Owner_self_with_content"
  shows "list_ex (\<lambda>b. snd b = Owner_self) (put_owner i Owner_server bs) = list_ex (\<lambda>b. snd b = Owner_self) bs"
proof -
  have free: "list_ex (\<lambda>b. snd b = Owner_self) cs \<longleftrightarrow> (\<exists>j. map_of cs j = Some Owner_self)" if "ordered cs" for cs
    using ordered_distinct [OF that] by (force simp: list_ex_iff)
  have "map_of (put_owner i Owner_server bs) j = Some Owner_self \<longleftrightarrow> map_of bs j = Some Owner_self" for j
    using assms by (simp add: map_of_put)
  then show ?thesis using free [OF assms(1)] free [OF ordered_put [OF assms(1)]] by simp
qed

lemma give_up_lost: "lost_inv v \<Longrightarrow> lost_inv (give_up bs v) \<and> asked (give_up bs v) = asked v"
proof (induction bs v rule: give_up.induct)
  case (2 i ow bs v)
  have "lost_inv (free_buffer i (v\<lparr>current_buffer_count := n, buffers := erase_owner i (buffers v)\<rparr>))" for n
    using "2.prems" by (simp add: lost_inv_def free_buffer_def ordered_erase)
  moreover have "asked (free_buffer i (v\<lparr>current_buffer_count := n, buffers := erase_owner i (buffers v)\<rparr>)) = asked v" for n
    by (simp add: asked_def free_buffer_def)
  ultimately show ?case using 2 by simp
qed simp

lemma lost_call:
  assumes "lost_inv v" "permitted c v" "c \<noteq> Destroyed"
  shows "lost_inv (state_of (perform c v)) \<and> asked (state_of (perform c v)) = asked v @ promised c (perform c v) \<and>
    result_of (perform c v) = (case misuse c v of None \<Rightarrow> Inr () | Some e \<Rightarrow> Inl e)"
proof -
  have l: "surface_map v = None" "ordered (buffers v)" "\<not> being_destroyed v" using assms(1) by (simp_all add: lost_inv_def)
  show ?thesis
  proof (cases c)
    case (Withdraw p)
    show ?thesis
    proof (cases "buffers v")
      case Nil
      then show ?thesis using l Withdraw
        by (simp add: withdraw_def available_buffer_def lost_inv_def asked_def alloc_buffer_def Let_def)
    next
      case (Cons b bs)
      then show ?thesis using l Withdraw by (cases b) (simp add: withdraw_def checked_buffer_from_map_def lost_inv_def)
    qed
  next
    case (Deposit i)
    then show ?thesis using l by (simp add: deposit_def checked_buffer_from_map_def lost_inv_def asked_def ordered_put)
  next
    case (Outbound i cb)
    show ?thesis
    proof (cases "map_of (buffers v) i = Some Owner_self_with_content")
      case True
      then show ?thesis using l Outbound submitted_free [OF l(2) True]
        by (simp add: wire_transfer_outbound_def available_lost lost_inv_def asked_def ordered_put Let_def)
    qed (use l Outbound in \<open>simp add: wire_transfer_outbound_def lost_inv_def\<close>)
  next
    case (Set_interval n)
    have "lost_inv (v\<lparr>swap_interval := n, needed_buffer_count := k\<rparr>)" "asked (v\<lparr>swap_interval := n, needed_buffer_count := k\<rparr>) = asked v" for k
      using l by (simp_all add: lost_inv_def asked_def)
    then show ?thesis using l Set_interval give_up_lost by (simp add: set_interval_def lost_inv_def asked_def alloc_buffer_def Let_def)
  next
    case (Returned i)
    then show ?thesis using l by (simp add: wire_transfer_inbound_def checked_buffer_from_map_def lost_inv_def asked_def)
  next
    case (Arrives i sz)
    then show ?thesis using l assms(2)
      by (simp add: buffer_arrives_def generate_buffer_def wire_transfer_inbound_def checked_buffer_from_map_def lost_inv_def asked_def)
  next
    case Disconnected
    have "surface_map (trigger_callback w) = surface_map w" "being_destroyed (trigger_callback w) = being_destroyed w" for w
      by (simp_all add: trigger_callback_def split: option.split)
    then show ?thesis using l Disconnected by (simp add: disconnect_def fold_broken lost_inv_def) (simp add: asked_def)
  qed (use l assms(3) in \<open>simp_all add: lost_inv_def set_size_def asked_def\<close>)
qed

text \<open>In a run the vault is in order, or has lost the connection's resources, or is being destroyed.\<close>

definition run_inv :: "vault \<Rightarrow> bool" where
  "run_inv v \<longleftrightarrow> vault_inv v \<or> lost_inv v \<or> being_destroyed v"

lemma destroyed_asked: "asked (destroy_vault v) = asked v" "being_destroyed (destroy_vault v)"
  by (simp_all add: destroy_vault_def fold_broken asked_def)

lemma call_run:
  assumes "run_inv v" "permitted c v"
  shows "run_inv (state_of (perform c v)) \<and> asked (state_of (perform c v)) = asked v @ promised c (perform c v) \<and>
    result_of (perform c v) = (case misuse c v of None \<Rightarrow> Inr () | Some e \<Rightarrow> Inl e)"
proof (cases "being_destroyed v")
  case True
  then show ?thesis using assms(2) by (cases c) (auto simp: run_inv_def wire_transfer_inbound_def asked_def)
next
  case False
  consider "c = Resources_lost" | "c = Destroyed" | "c \<noteq> Resources_lost" "c \<noteq> Destroyed" by blast
  then show ?thesis
  proof cases
    case 1
    then show ?thesis using assms(1) False by (auto simp: run_inv_def lost_inv_def vault_inv_def asked_def)
  next
    case 2
    then show ?thesis by (simp add: destroyed_asked run_inv_def)
  next
    case 3
    then show ?thesis using call_keeps [of v c] lost_call [of v c] assms False by (auto simp: run_inv_def keeps_def)
  qed
qed

lemma vault_run_inv: "vault_run ps v \<Longrightarrow> run_inv v \<and> asked v = ps"
proof (induction rule: vault_run.induct)
  case (start n m sz)
  then show ?case using make_vault_inv by (simp add: run_inv_def)
next
  case (call ps v c)
  then show ?case using call_run [of v c] by simp
qed

text \<open>A run used as a witness: one buffer is asked for and arrives, the first withdrawal gets it and the second waits.\<close>

definition sample_size :: extent where
  "sample_size = \<lparr>width = 4, height = 3\<rparr>"

definition sample_start :: vault where
  "sample_start = make_vault (Some (\<lambda>_. None)) sample_size 1"

definition sample_arrived :: vault where
  "sample_arrived = state_of (perform (Arrives 7 sample_size) sample_start)"

definition sample_taken :: vault where
  "sample_taken = state_of (perform (Withdraw 3) sample_arrived)"

definition sample_waiting :: vault where
  "sample_waiting = state_of (perform (Withdraw 4) sample_taken)"

lemma sample_arrived_run: "vault_run [] sample_arrived"
proof -
  have "vault_run [] sample_start" unfolding sample_start_def by (rule vault_run.start) simp
  moreover have "permitted (Arrives 7 sample_size) sample_start" by code_simp
  ultimately show ?thesis unfolding sample_arrived_def using vault_run.call by fastforce
qed

lemma sample_run: "vault_run [3, 4] sample_waiting"
proof -
  have "promised (Withdraw 3) (perform (Withdraw 3) sample_arrived) = [3]" "\<not> being_destroyed sample_arrived" by code_simp+
  then have "vault_run [3] sample_taken" using vault_run.call [OF sample_arrived_run, of "Withdraw 3"] by (simp add: sample_taken_def)
  moreover have "promised (Withdraw 4) (perform (Withdraw 4) sample_taken) = [4]" "\<not> being_destroyed sample_taken" by code_simp+
  ultimately show ?thesis using vault_run.call [of "[3]" sample_taken "Withdraw 4"] by (simp add: sample_waiting_def)
qed

text \<open>
  C5: Whatever the application, the server and the connection do, every withdrawal the vault accepted is answered
  exactly once and in order: the promises resolved so far, with a buffer or by the loss of the connection or the end of the vault, followed
  by the promises that still wait, are the accepted withdrawals.
\<close>

theorem withdrawals_are_answered_in_order:
  assumes "vault_run ps v"
  shows "resolved (events v) @ promises v = ps"
  using vault_run_inv [OF assms] by (simp add: asked_def)

theorem withdrawals_are_answered_in_order_witness:
  "vault_run [3, 4] sample_waiting \<and> resolved (events sample_waiting) @ promises sample_waiting = [3, 4]"
  using withdrawals_are_answered_in_order [OF sample_run] sample_run by simp

text \<open>
  In every run, until the connection's resources are lost or the vault is destroyed, the vault's count of buffers is the buffers it has plus those it waits for.  When a withdrawal waits,
  no buffer is free and at least one is on its way or in use; when the connection is gone none waits.
\<close>

theorem vault_accounts_for_its_buffers:
  assumes "vault_run ps v" "surface_map v \<noteq> None" "\<not> being_destroyed v"
  shows "current_buffer_count v = length (buffers v) + length (allocation_requests v) \<and>
    (promises v \<noteq> [] \<longrightarrow> (\<forall>i. map_of (buffers v) i \<noteq> Some Owner_self) \<and> 1 \<le> length (buffers v) + length (allocation_requests v)) \<and>
    (disconnected v \<longrightarrow> promises v = []) \<and> distinct (map fst (buffers v))"
proof -
  have "vault_inv v" using vault_run_inv [OF assms(1)] assms(2,3) by (auto simp: run_inv_def lost_inv_def)
  then show ?thesis using ordered_distinct by (auto simp: vault_inv_def none_free_def)
qed

theorem vault_accounts_for_its_buffers_witness:
  "promises sample_waiting = [4] \<and> current_buffer_count sample_waiting = length (buffers sample_waiting) + length (allocation_requests sample_waiting)
     \<and> (\<forall>i. map_of (buffers sample_waiting) i \<noteq> Some Owner_self)"
proof -
  have "promises sample_waiting = [4]" "surface_map sample_waiting \<noteq> None" "\<not> being_destroyed sample_waiting" by code_simp+
  then show ?thesis using vault_accounts_for_its_buffers [OF sample_run] by simp
qed



end
