(* ===== verification/Display_Configuration.thy ===== *)
theory Display_Configuration
  imports Geometry Complex_Main
begin

text \<open>
  The description of the outputs of a display, \<open>src/platform/graphics/display_configuration.cpp\<close>, the policies that arrange
  them (\<open>src/server/graphics/default_display_configuration_policy.cpp\<close>, \<open>src/miral/display_configuration_option.cpp\<close>), their
  grouping into shared buffers (\<open>src/platform/graphics/overlapping_output_grouping.cpp\<close>), the layout and the output
  properties the scene asks for (\<open>src/server/shell/graphics_display_layout.cpp\<close>, \<open>src/server/scene/output_properties_cache.cpp\<close>).
  Gamma curves, subpixel order and the EDID block are carried data and left out.  Sizes of modes are converted to \<open>float\<close>
  and rounded by the code, which is exact for every size below $2^{24}$; scales and refresh rates are rationals.
\<close>

section \<open>Pixel formats\<close>

datatype pixel_format =
    Format_invalid | Format_abgr_8888 | Format_xbgr_8888 | Format_argb_8888 | Format_xrgb_8888 | Format_bgr_888
  | Format_rgb_888 | Format_rgb_565 | Format_rgba_5551 | Format_rgba_4444 | Format_rgba_10101002

text \<open>
  The table \<open>detail\<close>, indexed by the format: the format of the row, and the bits of its channels.  The initialiser has
  no row for the last format, so that row is zero.
\<close>

fun detail :: "pixel_format \<Rightarrow> pixel_format \<times> int \<times> int \<times> int \<times> int" where
  "detail Format_invalid = (Format_invalid, 0, 0, 0, 0)"
| "detail Format_abgr_8888 = (Format_abgr_8888, 8, 8, 8, 8)"
| "detail Format_xbgr_8888 = (Format_xbgr_8888, 8, 8, 8, 0)"
| "detail Format_argb_8888 = (Format_argb_8888, 8, 8, 8, 8)"
| "detail Format_xrgb_8888 = (Format_xrgb_8888, 8, 8, 8, 0)"
| "detail Format_bgr_888 = (Format_bgr_888, 8, 8, 8, 0)"
| "detail Format_rgb_888 = (Format_rgb_888, 8, 8, 8, 0)"
| "detail Format_rgb_565 = (Format_rgb_565, 5, 6, 5, 0)"
| "detail Format_rgba_5551 = (Format_rgba_5551, 5, 5, 5, 1)"
| "detail Format_rgba_4444 = (Format_rgba_4444, 4, 4, 4, 4)"
| "detail Format_rgba_10101002 = (Format_invalid, 0, 0, 0, 0)"

definition valid_pixel_format :: "pixel_format \<Rightarrow> bool" where
  "valid_pixel_format f \<longleftrightarrow> f \<noteq> Format_invalid \<and> fst (detail f) = f"

definition red_channel_depth :: "pixel_format \<Rightarrow> int" where
  "red_channel_depth f = (if valid_pixel_format f then case detail f of (_, r, _, _, _) \<Rightarrow> r else 0)"

definition green_channel_depth :: "pixel_format \<Rightarrow> int" where
  "green_channel_depth f = (if valid_pixel_format f then case detail f of (_, _, g, _, _) \<Rightarrow> g else 0)"

definition blue_channel_depth :: "pixel_format \<Rightarrow> int" where
  "blue_channel_depth f = (if valid_pixel_format f then case detail f of (_, _, _, b, _) \<Rightarrow> b else 0)"

definition alpha_channel_depth :: "pixel_format \<Rightarrow> int" where
  "alpha_channel_depth f = (if valid_pixel_format f then case detail f of (_, _, _, _, a) \<Rightarrow> a else 0)"

definition contains_alpha :: "pixel_format \<Rightarrow> bool" where
  "contains_alpha f \<longleftrightarrow> alpha_channel_depth f \<noteq> 0"

lemma ten_bit_format_has_no_row: "\<not> valid_pixel_format Format_rgba_10101002" "\<not> contains_alpha Format_rgba_10101002"
  by (simp_all add: valid_pixel_format_def contains_alpha_def alpha_channel_depth_def)

lemma other_formats_have_rows: "f \<noteq> Format_invalid \<Longrightarrow> f \<noteq> Format_rgba_10101002 \<Longrightarrow> valid_pixel_format f"
  by (cases f) (simp_all add: valid_pixel_format_def)

section \<open>Outputs\<close>

datatype power_mode = Power_on | Power_standby | Power_suspend | Power_off

datatype orientation = Orientation_normal | Orientation_left | Orientation_inverted | Orientation_right

record card =
  card_id :: int
  max_simultaneous_outputs :: nat

record output_mode =
  mode_size :: extent
  vrefresh_hz :: rat

record display_output =
  out_id :: int
  out_card :: int
  out_type :: int
  pixel_formats :: "pixel_format list"
  modes :: "output_mode list"
  preferred_mode_index :: nat
  physical_size_mm :: extent
  out_connected :: bool
  out_used :: bool
  out_top_left :: point
  current_mode_index :: nat
  current_format :: pixel_format
  out_power :: power_mode
  out_orientation :: orientation
  out_scale :: rat
  form_factor :: int
  custom_logical_size :: "extent option"

record display_config =
  cards :: "card list"
  outputs :: "display_output list"

text \<open>\<open>operator==\<close> compares what the code lists; the format and the power mode of an output are not among it.\<close>

definition output_eq :: "display_output \<Rightarrow> display_output \<Rightarrow> bool" where
  "output_eq a b \<longleftrightarrow> out_id a = out_id b \<and> out_card a = out_card b \<and> out_type a = out_type b \<and> physical_size_mm a = physical_size_mm b \<and>
     preferred_mode_index a = preferred_mode_index b \<and> out_connected a = out_connected b \<and> out_used a = out_used b \<and>
     out_top_left a = out_top_left b \<and> out_orientation a = out_orientation b \<and> current_mode_index a = current_mode_index b \<and>
     length (modes a) = length (modes b) \<and> custom_logical_size a = custom_logical_size b \<and> out_scale a = out_scale b \<and>
     form_factor a = form_factor b \<and> list_all2 (=) (modes a) (modes b)"

definition config_eq :: "display_config \<Rightarrow> display_config \<Rightarrow> bool" where
  "config_eq a b \<longleftrightarrow> cards a = cards b \<and> list_all2 output_eq (outputs a) (outputs b)"

definition extents_of :: "output_mode list \<Rightarrow> nat \<Rightarrow> orientation \<Rightarrow> point \<Rightarrow> rectangle" where
  "extents_of ms i ori p =
     (if i \<ge> length ms then empty_rectangle
      else let s = mode_size (ms ! i)
           in if ori = Orientation_normal \<or> ori = Orientation_inverted then Rectangle p s
              else Rectangle p (Size (height s) (width s)))"

definition extents :: "display_output \<Rightarrow> rectangle" where
  "extents out = (case custom_logical_size out of
     Some s \<Rightarrow> Rectangle (out_top_left out) s
   | None \<Rightarrow> extents_of (modes out) (current_mode_index out) (out_orientation out) (out_top_left out))"

text \<open>The matrix of an orientation, by columns.\<close>

fun transformation :: "orientation \<Rightarrow> int \<times> int \<times> int \<times> int" where
  "transformation Orientation_normal = (1, 0, 0, 1)"
| "transformation Orientation_left = (0, 1, -1, 0)"
| "transformation Orientation_inverted = (-1, 0, 0, -1)"
| "transformation Orientation_right = (0, -1, 1, 0)"

definition output_valid :: "display_output \<Rightarrow> bool" where
  "output_valid out =
     (if \<not> out_connected out then \<not> out_used out
      else if current_format out \<notin> set (pixel_formats out) then False
      else if out_used out \<and> current_mode_index out \<ge> length (modes out) then False
      else case custom_logical_size out of
             Some s \<Rightarrow> if width s = 0 \<or> height s = 0 then False else True
           | None \<Rightarrow> True)"

definition config_valid :: "display_config \<Rightarrow> bool" where
  "config_valid conf = foldl (\<lambda>all_valid out. if \<not> output_valid out then False else all_valid) True (outputs conf)"

section \<open>Policies\<close>

definition select_mode_index :: "nat \<Rightarrow> output_mode list \<Rightarrow> nat" where
  "select_mode_index i ms = (if ms = [] then 2 ^ 64 - 1 else if i \<ge> length ms then 0 else i)"

definition select_opaque_format :: "pixel_format \<Rightarrow> pixel_format list \<Rightarrow> pixel_format" where
  "select_opaque_format format formats =
     (if \<not> contains_alpha format \<and> format \<in> set formats then format
      else case find (Not \<circ> contains_alpha) formats of
        Some f \<Rightarrow> f
      | None \<Rightarrow> if format \<in> set formats then format
                else (case formats of f # _ \<Rightarrow> f | [] \<Rightarrow> Format_invalid))"

definition clone_output :: "display_output \<Rightarrow> display_output" where
  "clone_output out =
     (if \<not> out_connected out \<or> modes out = [] then out\<lparr>out_used := False, out_power := Power_on\<rparr>
      else out\<lparr>out_used := True, out_top_left := Point 0 0,
             current_mode_index := select_mode_index (preferred_mode_index out) (modes out),
             current_format := select_opaque_format (current_format out) (pixel_formats out),
             out_power := Power_on, out_orientation := Orientation_normal\<rparr>)"

definition clone_policy :: "display_config \<Rightarrow> display_config" where
  "clone_policy conf = conf\<lparr>outputs := map clone_output (outputs conf)\<rparr>"

fun side_by_side_outputs :: "int \<Rightarrow> display_output list \<Rightarrow> display_output list" where
  "side_by_side_outputs max_x [] = []"
| "side_by_side_outputs max_x (out # outs) =
     (if out_connected out \<and> length (modes out) > 0
      then let out' = out\<lparr>out_used := True, out_top_left := Point max_x 0,
                 current_mode_index := select_mode_index (preferred_mode_index out) (modes out),
                 out_power := Power_on, out_orientation := Orientation_normal\<rparr>
           in out' # side_by_side_outputs (max_x + width (rsize (extents out'))) outs
      else out\<lparr>out_used := False, out_power := Power_off\<rparr> # side_by_side_outputs max_x outs)"

definition side_by_side_policy :: "display_config \<Rightarrow> display_config" where
  "side_by_side_policy conf = conf\<lparr>outputs := side_by_side_outputs 0 (outputs conf)\<rparr>"

fun single_outputs :: "bool \<Rightarrow> display_output list \<Rightarrow> display_output list" where
  "single_outputs done_flag [] = []"
| "single_outputs done_flag (out # outs) =
     (if \<not> done_flag \<and> out_connected out \<and> length (modes out) > 0
      then out\<lparr>out_used := True, out_top_left := Point 0 0,
             current_mode_index := select_mode_index (preferred_mode_index out) (modes out), out_power := Power_on\<rparr>
           # single_outputs True outs
      else out\<lparr>out_used := False, out_power := Power_off\<rparr> # single_outputs done_flag outs)"

definition single_policy :: "display_config \<Rightarrow> display_config" where
  "single_policy conf = conf\<lparr>outputs := single_outputs False (outputs conf)\<rparr>"

text \<open>\<open>miral::PixelFormatSelector\<close> chooses a format after another policy; its own test for alpha is narrower.\<close>

definition has_8888_alpha :: "pixel_format \<Rightarrow> bool" where
  "has_8888_alpha f \<longleftrightarrow> f = Format_abgr_8888 \<or> f = Format_argb_8888"

definition format_selector :: "(display_config \<Rightarrow> display_config) \<Rightarrow> bool \<Rightarrow> display_config \<Rightarrow> display_config" where
  "format_selector base_policy with_alpha conf =
     (let conf' = base_policy conf
      in conf'\<lparr>outputs := map (\<lambda>out.
           if \<not> out_connected out \<or> \<not> out_used out then out
           else case find (\<lambda>f. has_8888_alpha f = with_alpha) (pixel_formats out) of
                  None \<Rightarrow> out | Some f \<Rightarrow> out\<lparr>current_format := f\<rparr>) (outputs conf')\<rparr>)"

section \<open>Groups of overlapping outputs\<close>

type_synonym output_group = "display_output list"

definition group_bounding_rectangle :: "output_group \<Rightarrow> rectangle" where
  "group_bounding_rectangle g = bounding_rectangle (map extents g)"

definition overlaps_output :: "display_output \<Rightarrow> display_output \<Rightarrow> bool" where
  "overlaps_output conf_output conf_o \<longleftrightarrow> overlaps (extents conf_o) (extents conf_output) \<and>
     transformation (out_orientation conf_o) = transformation (out_orientation conf_output)"

text \<open>A set of outputs that are equal when their identifiers are; the order of its elements is not used.\<close>

definition insert_output :: "display_output \<Rightarrow> output_group \<Rightarrow> output_group" where
  "insert_output out g = (if \<exists>o'\<in>set g. out_id o' = out_id out then g else g @ [out])"

fun unite :: "nat list \<Rightarrow> output_group list \<Rightarrow> output_group \<Rightarrow> output_group list \<times> output_group" where
  "unite [] groups new_group = (groups, new_group)"
| "unite (i # is) groups new_group =
     unite is (take i groups @ drop (Suc i) groups) (fold insert_output (groups ! i) new_group)"

definition add_output :: "display_output \<Rightarrow> output_group list \<Rightarrow> output_group list" where
  "add_output conf_output groups =
     (let overlapping_groups = filter (\<lambda>i. list_ex (overlaps_output conf_output) (groups ! i)) (rev [0..<length groups])
      in if length overlapping_groups > 0
         then let (groups', new_group) = unite overlapping_groups groups []
              in groups' @ [insert_output conf_output new_group]
         else groups @ [[conf_output]])"

definition output_active :: "display_output \<Rightarrow> bool" where
  "output_active out \<longleftrightarrow> out_connected out \<and> out_used out \<and> out_power out = Power_on \<and> current_mode_index out < length (modes out)"

definition output_grouping :: "display_config \<Rightarrow> output_group list" where
  "output_grouping conf = fold (\<lambda>out groups. if output_active out then add_output out groups else groups) (outputs conf) []"

section \<open>Layout and properties of outputs\<close>

text \<open>The screens are the view areas of the display's buffers, in the order the display gives them.\<close>

fun get_output_loop :: "rectangle \<Rightarrow> rectangle list \<Rightarrow> rectangle \<Rightarrow> int \<Rightarrow> rectangle" where
  "get_output_loop rect [] best max_area = best"
| "get_output_loop rect (screen # screens) best max_area =
     (let overlap = intersection_with rect screen;
          area = width (rsize overlap) * height (rsize overlap)
      in if area > max_area then get_output_loop rect screens screen area
         else get_output_loop rect screens best max_area)"

definition get_output_for :: "rectangle list \<Rightarrow> rectangle \<Rightarrow> rectangle" where
  "get_output_for screens rect = get_output_loop rect screens rect (-1)"

definition clip_to_output :: "rectangle list \<Rightarrow> rectangle \<Rightarrow> rectangle" where
  "clip_to_output screens rect =
     (let out = get_output_for screens rect
      in if width (rsize out) > 0 \<and> height (rsize out) > 0 \<and> width (rsize rect) > 0 \<and> height (rsize rect) > 0
         then let rs = rectangles_add [] out;
                  tl_closed = confine rs (top_left rect);
                  br_closed = confine rs (point_minus (bottom_right rect) (Displacement 1 1))
              in Rectangle tl_closed (as_size (displacement_plus (point_diff br_closed tl_closed) (Displacement 1 1)))
         else rect\<lparr>rsize := Size 0 0\<rparr>)"

definition size_to_output :: "rectangle list \<Rightarrow> rectangle \<Rightarrow> rectangle" where
  "size_to_output screens rect = get_output_for screens rect"

definition place_in_output :: "display_config \<Rightarrow> int \<Rightarrow> rectangle \<Rightarrow> bool \<times> rectangle" where
  "place_in_output conf i rect = foldl (\<lambda>(placed, r) out.
     if out_id out = i \<and> current_mode_index out < length (modes out)
     then (True, Rectangle (out_top_left out) (rsize (extents out))) else (placed, r)) (False, rect) (outputs conf)"

text \<open>
  The resolution of an output in dots per inch, rounded down.  The code computes the quotient of two square roots and 25.4 in floating point; here it is exact.
  The physical size may be reported as zero: then the quotient is infinite and its conversion to an integer is not defined.
\<close>

function isqrt :: "nat \<Rightarrow> nat" where
  "isqrt n = (if n = 0 then 0 else let r = 2 * isqrt (n div 4) in if (r + 1) * (r + 1) \<le> n then r + 1 else r)"
  by auto
termination by (relation "measure id") auto

declare isqrt.simps [simp del]

definition calculate_dpi :: "extent \<Rightarrow> extent \<Rightarrow> int option" where
  "calculate_dpi resolution s =
     (let mm2 = height s * height s + width s * width s;
          px2 = height resolution * height resolution + width resolution * width resolution
      in if mm2 = 0 then None else Some (int (isqrt (nat ((px2 * 16129) div (mm2 * 25))))))"

record output_properties =
  prop_extents :: rectangle
  prop_dpi :: "int option"
  prop_scale :: rat
  prop_refresh_rate :: rat
  prop_form_factor :: int
  prop_id :: int

definition update_from :: "display_config \<Rightarrow> output_properties list" where
  "update_from conf = map (\<lambda>out. \<lparr>prop_extents = extents out,
       prop_dpi = calculate_dpi (mode_size (modes out ! current_mode_index out)) (physical_size_mm out), prop_scale = out_scale out,
       prop_refresh_rate = vrefresh_hz (modes out ! current_mode_index out), prop_form_factor = form_factor out, prop_id = out_id out\<rparr>)
     (filter (\<lambda>out. current_mode_index out < length (modes out)) (outputs conf))"

definition properties_for :: "output_properties list option \<Rightarrow> rectangle \<Rightarrow> output_properties option" where
  "properties_for cache rect = (case cache of
     None \<Rightarrow> None
   | Some props \<Rightarrow> foldl (\<lambda>m p. if overlaps (prop_extents p) rect
       then (case m of None \<Rightarrow> Some p | Some q \<Rightarrow> if prop_scale p > prop_scale q then Some p else m) else m) None props)"

section \<open>Equality, validity and the policies\<close>

lemma transformation_inject [simp]: "transformation a = transformation b \<longleftrightarrow> a = b"
  by (cases a; cases b) simp_all

lemma config_valid_iff: "config_valid conf \<longleftrightarrow> (\<forall>out\<in>set (outputs conf). output_valid out)"
proof -
  have "foldl (\<lambda>all_valid out. if \<not> output_valid out then False else all_valid) b outs \<longleftrightarrow> b \<and> (\<forall>out\<in>set outs. output_valid out)" for b outs
    by (induction outs arbitrary: b) auto
  then show ?thesis by (simp add: config_valid_def)
qed

lemma find_SomeD: "find P xs = Some x \<Longrightarrow> x \<in> set xs \<and> P x"
  by (metis find_Some_iff nth_mem)

lemma select_opaque_format_in: "formats \<noteq> [] \<Longrightarrow> select_opaque_format f formats \<in> set formats"
  by (cases formats) (auto simp: select_opaque_format_def split: option.split dest!: find_SomeD)

lemma select_opaque_format_opaque:
  assumes "g \<in> set formats" "\<not> contains_alpha g"
  shows "\<not> contains_alpha (select_opaque_format f formats)"
proof -
  from assms obtain h where "find (Not \<circ> contains_alpha) formats = Some h" by (cases "find (Not \<circ> contains_alpha) formats") (auto simp: find_None_iff)
  with find_SomeD [OF this] show ?thesis by (simp add: select_opaque_format_def)
qed

lemma select_mode_index_less [simp]: "select_mode_index i ms < length ms \<longleftrightarrow> ms \<noteq> []" "length ms \<le> select_mode_index i ms \<longleftrightarrow> ms = []"
  by (auto simp: select_mode_index_def)

text \<open>An output that can be driven, and what a policy must not break.\<close>

definition output_usable :: "display_output \<Rightarrow> bool" where
  "output_usable out \<longleftrightarrow> out_connected out \<and> modes out \<noteq> []"

definition output_sane :: "display_output \<Rightarrow> bool" where
  "output_sane out \<longleftrightarrow> (out_connected out \<longrightarrow> current_format out \<in> set (pixel_formats out)) \<and>
     (case custom_logical_size out of None \<Rightarrow> True | Some s \<Rightarrow> 0 < width s \<and> 0 < height s) \<and>
     (\<forall>m\<in>set (modes out). 0 \<le> width (mode_size m) \<and> 0 \<le> height (mode_size m))"

lemma clone_output_valid: "output_sane out \<Longrightarrow> output_valid (clone_output out) \<and> out_used (clone_output out) = output_usable out"
  by (auto simp: output_sane_def output_valid_def clone_output_def output_usable_def 
      intro!: select_opaque_format_in split: option.splits)

lemma driven_valid:
  "output_sane out \<Longrightarrow> out_connected out \<Longrightarrow> modes out \<noteq> [] \<Longrightarrow>
     output_valid (out\<lparr>out_used := True, out_top_left := p, current_mode_index := select_mode_index i (modes out), out_power := m, out_orientation := r\<rparr>)"
  "output_sane out \<Longrightarrow> out_connected out \<Longrightarrow> modes out \<noteq> [] \<Longrightarrow>
     output_valid (out\<lparr>out_used := True, out_top_left := p, current_mode_index := select_mode_index i (modes out), out_power := m\<rparr>)"
  by (auto simp: output_sane_def output_valid_def split: option.splits)

lemma idle_valid: "output_sane out \<Longrightarrow> output_valid (out\<lparr>out_used := False, out_power := m\<rparr>)"
  by (auto simp: output_sane_def output_valid_def split: option.splits)

lemma side_by_side_valid:
  "\<forall>out\<in>set outs. output_sane out \<Longrightarrow>
     (\<forall>out\<in>set (side_by_side_outputs x outs). output_valid out) \<and> map out_used (side_by_side_outputs x outs) = map output_usable outs"
  by (induction x outs rule: side_by_side_outputs.induct) (simp_all add: driven_valid idle_valid output_usable_def Let_def)

lemma single_valid:
  "\<forall>out\<in>set outs. output_sane out \<Longrightarrow>
     (\<forall>out\<in>set (single_outputs d outs). output_valid out) \<and>
     length (filter out_used (single_outputs d outs)) = (if \<not> d \<and> (\<exists>out\<in>set outs. output_usable out) then 1 else 0)"
  by (induction d outs rule: single_outputs.induct) (auto simp: driven_valid idle_valid output_usable_def split: if_splits)

lemma extents_nonneg: "output_sane out \<Longrightarrow> nonneg_size (extents out)"
  by (auto simp: output_sane_def extents_def extents_of_def nonneg_size_def empty_rectangle_def Let_def split: option.splits)

lemma extents_left: "current_mode_index out < length (modes out) \<Longrightarrow> left (extents out) = px (out_top_left out)"
  by (auto simp: extents_def extents_of_def edges Let_def split: option.splits)

text \<open>What comes later in the row is to the right.\<close>

lemma side_by_side_right:
  "\<forall>out\<in>set outs. output_sane out \<Longrightarrow> out' \<in> set (side_by_side_outputs x outs) \<Longrightarrow> out_used out' \<Longrightarrow> x \<le> left (extents out')"
proof (induction x outs rule: side_by_side_outputs.induct)
  case (2 x out outs)
  let ?o = "out\<lparr>out_used := True, out_top_left := Point x 0,
      current_mode_index := select_mode_index (preferred_mode_index out) (modes out), out_power := Power_on, out_orientation := Orientation_normal\<rparr>"
  have sane: "\<forall>out\<in>set outs. output_sane out" using 2(3) by simp
  show ?case
  proof (cases "out_connected out \<and> length (modes out) > 0")
    case True
    have "left (extents ?o) = x" using True extents_left [of ?o] by simp
    moreover have "nonneg_size (extents ?o)" using 2(3) by (intro extents_nonneg) (simp add: output_sane_def)
    ultimately show ?thesis using 2(1) [OF True refl sane] 2(4,5) True by (auto simp: Let_def nonneg_size_def)
  next
    case False
    with 2 show ?thesis by auto
  qed
qed simp

lemma side_by_side_disjoint:
  "\<forall>out\<in>set outs. output_sane out \<Longrightarrow>
     sorted_wrt (\<lambda>a b. out_used a \<and> out_used b \<longrightarrow> \<not> overlaps (extents a) (extents b)) (side_by_side_outputs x outs)"
proof (induction x outs rule: side_by_side_outputs.induct)
  case (2 x out outs)
  let ?o = "out\<lparr>out_used := True, out_top_left := Point x 0,
      current_mode_index := select_mode_index (preferred_mode_index out) (modes out), out_power := Power_on, out_orientation := Orientation_normal\<rparr>"
  have sane: "\<forall>out\<in>set outs. output_sane out" using 2(3) by simp
  show ?case
  proof (cases "out_connected out \<and> length (modes out) > 0")
    case True
    have l: "left (extents ?o) = x" using True extents_left [of ?o] by simp
    have "\<not> overlaps (extents ?o) (extents b)"
      if "b \<in> set (side_by_side_outputs (x + width (rsize (extents ?o))) outs)" "out_used b" for b
      using side_by_side_right [OF sane that] l by (auto simp: overlaps_def edges)
    then show ?thesis using 2(1) [OF True refl sane] True by (auto simp: Let_def)
  next
    case False
    with 2 show ?thesis by auto
  qed
qed simp

section \<open>Groups are the connected components\<close>

lemma overlaps_commute: "overlaps r s \<longleftrightarrow> overlaps s r"
  by (auto simp: overlaps_def)

lemma overlaps_output_commute: "overlaps_output a b \<longleftrightarrow> overlaps_output b a"
  by (auto simp: overlaps_output_def overlaps_commute)

abbreviation joins :: "display_output \<Rightarrow> output_group \<Rightarrow> bool" where
  "joins out g \<equiv> list_ex (overlaps_output out) g"

text \<open>Erasing groups from the last index down leaves the others where they were.\<close>

lemma unite_eq:
  "n \<le> length gs \<Longrightarrow> unite (filter (\<lambda>i. Q (gs ! i)) (rev [0..<n])) gs ng =
     (filter (\<lambda>g. \<not> Q g) (take n gs) @ drop n gs, fold (fold insert_output) (rev (filter Q (take n gs))) ng)"
proof (induction n arbitrary: gs ng)
  case (Suc n)
  have n: "n < length gs" using Suc.prems by simp
  have last: "take (Suc n) gs = take n gs @ [gs ! n]" using n by (rule take_Suc_conv_app_nth)
  show ?case
  proof (cases "Q (gs ! n)")
    case True
    define hs where "hs = take n gs @ drop (Suc n) gs"
    have hs: "n \<le> length hs" "take n hs = take n gs" "drop n hs = drop (Suc n) gs" using n by (simp_all add: hs_def)
    have "filter (\<lambda>i. Q (gs ! i)) (rev [0..<n]) = filter (\<lambda>i. Q (hs ! i)) (rev [0..<n])"
      using n by (intro filter_cong) (auto simp: hs_def nth_append)
    then show ?thesis using Suc.IH [OF hs(1)] True last n by (simp add: hs hs_def [symmetric])
  next
    case False
    have "gs ! n # drop (Suc n) gs = drop n gs" using n by (rule Cons_nth_drop_Suc)
    then show ?thesis using Suc.IH [of gs ng] False last n by simp
  qed
qed simp

lemma set_insert_output: "inj_on out_id (insert x (set g)) \<Longrightarrow> set (insert_output x g) = insert x (set g)"
  by (auto simp: insert_output_def inj_on_def)

lemma set_fold_insert:
  "inj_on out_id (set xs \<union> set g) \<Longrightarrow> set (fold insert_output xs g) = set xs \<union> set g"
proof (induction xs arbitrary: g)
  case (Cons x xs)
  have "set (insert_output x g) = insert x (set g)"
    using Cons.prems by (auto simp: insert_output_def inj_on_def)
  moreover from this have "inj_on out_id (set xs \<union> set (insert_output x g))" using Cons.prems by (simp add: insert_commute Un_commute)
  ultimately show ?case using Cons.IH by simp
qed simp

lemma set_fold_fold_insert:
  "inj_on out_id (\<Union> (set ` set gs) \<union> set g) \<Longrightarrow> set (fold (fold insert_output) gs g) = \<Union> (set ` set gs) \<union> set g"
proof (induction gs arbitrary: g)
  case (Cons h gs)
  have "set (fold insert_output h g) = set h \<union> set g"
    using Cons.prems by (intro set_fold_insert) (auto intro: inj_on_subset)
  moreover from this have "inj_on out_id (\<Union> (set ` set gs) \<union> set (fold insert_output h g))"
    using Cons.prems by (simp add: Un_ac)
  ultimately show ?case using Cons.IH by auto
qed simp

lemma distinct_insert: "distinct (map out_id g) \<Longrightarrow> distinct (map out_id (insert_output out g))"
  by (auto simp: insert_output_def)

lemma distinct_fold_insert: "distinct (map out_id g) \<Longrightarrow> distinct (map out_id (fold insert_output xs g))"
  by (induction xs arbitrary: g) (simp_all add: distinct_insert)

lemma add_output_eq:
  assumes "inj_on out_id (insert out (\<Union> (set ` set gs)))"
  obtains ng where "add_output out gs = filter (\<lambda>g. \<not> joins out g) gs @ [ng]" "set ng = insert out (\<Union> (set ` set (filter (joins out) gs)))"
    "distinct (map out_id ng)"
proof -
  let ?idx = "filter (\<lambda>i. joins out (gs ! i)) (rev [0..<length gs])"
  let ?old = "fold (fold insert_output) (rev (filter (joins out) gs)) []"
  have u: "unite ?idx gs [] = (filter (\<lambda>g. \<not> joins out g) gs, ?old)" using unite_eq [of "length gs" gs "joins out" "[]"] by simp
  have none: "?idx = [] \<longleftrightarrow> filter (joins out) gs = []" by (auto simp: filter_empty_conv all_set_conv_all_nth)
  have "inj_on out_id (\<Union> (set ` set (rev (filter (joins out) gs))) \<union> set [])" using assms by (rule inj_on_subset) auto
  from set_fold_fold_insert [OF this] have old: "set ?old = \<Union> (set ` set (filter (joins out) gs))" by simp
  then have new: "set (insert_output out ?old) = insert out (\<Union> (set ` set (filter (joins out) gs)))"
    using set_insert_output [of out ?old] inj_on_subset [OF assms, of "insert out (set ?old)"] by auto
  have d: "distinct (map out_id (fold (fold insert_output) hs g))" if "distinct (map out_id g)" for hs g
    using that by (induction hs arbitrary: g) (simp_all add: distinct_fold_insert)
  show ?thesis
  proof (cases "filter (joins out) gs = []")
    case True
    then have "filter (\<lambda>g. \<not> joins out g) gs = gs" by (auto simp: filter_empty_conv filter_id_conv)
    then show ?thesis using that [of "[out]"] True none by (auto simp: add_output_def Let_def)
  next
    case False
    then show ?thesis using that [of "insert_output out ?old"] u new none d [of "[]"] distinct_insert by (simp add: add_output_def Let_def)
  qed
qed

text \<open>The relation whose classes the groups should be.\<close>

definition linked :: "display_output set \<Rightarrow> (display_output \<times> display_output) set" where
  "linked A = {(a, b). a \<in> A \<and> b \<in> A \<and> overlaps_output a b}"

definition same_group :: "output_group list \<Rightarrow> display_output \<Rightarrow> display_output \<Rightarrow> bool" where
  "same_group gs a b \<longleftrightarrow> (\<exists>g\<in>set gs. a \<in> set g \<and> b \<in> set g)"

definition grouped :: "display_output set \<Rightarrow> output_group list \<Rightarrow> bool" where
  "grouped A gs \<longleftrightarrow> \<Union> (set ` set gs) = A \<and> distinct (concat gs) \<and> [] \<notin> set gs \<and>
     (\<forall>g\<in>set gs. \<forall>a\<in>set g. \<forall>b\<in>A. overlaps_output a b \<longrightarrow> b \<in> set g) \<and>
     (\<forall>g\<in>set gs. \<forall>a\<in>set g. \<forall>b\<in>set g. (a, b) \<in> (linked A)\<^sup>*)"

lemma grouped_union: "grouped A gs \<Longrightarrow> \<Union> (set ` set gs) = A"
  by (simp add: grouped_def)

lemma grouped_closed: "grouped A gs \<Longrightarrow> g \<in> set gs \<Longrightarrow> a \<in> set g \<Longrightarrow> b \<in> A \<Longrightarrow> overlaps_output a b \<Longrightarrow> b \<in> set g"
  by (simp add: grouped_def)

lemma grouped_connected: "grouped A gs \<Longrightarrow> g \<in> set gs \<Longrightarrow> a \<in> set g \<Longrightarrow> b \<in> set g \<Longrightarrow> (a, b) \<in> (linked A)\<^sup>*"
  by (simp add: grouped_def)

lemma grouped_distinct: "grouped A gs \<Longrightarrow> distinct (concat gs) \<and> [] \<notin> set gs"
  by (simp add: grouped_def)

lemma linked_sym: "sym ((linked A)\<^sup>*)"
  by (rule sym_rtrancl) (auto simp: sym_def linked_def overlaps_output_commute)

lemma linked_mono: "(a, b) \<in> (linked A)\<^sup>* \<Longrightarrow> A \<subseteq> B \<Longrightarrow> (a, b) \<in> (linked B)\<^sup>*"
  using rtrancl_mono [of "linked A" "linked B"] by (auto simp: linked_def)

lemma distinct_concat_filter: "distinct (concat gs) \<Longrightarrow> distinct (concat (filter P gs))"
  by (induction gs) auto

text \<open>In a list of groups without repetition two groups that differ are disjoint.\<close>

lemma concat_filter_disjoint:
  assumes "distinct (concat gs)"
  shows "set (concat (filter P gs)) \<inter> set (concat (filter (\<lambda>g. \<not> P g) gs)) = {}"
  using assms
proof (induction gs)
  case (Cons g gs)
  then have "set g \<inter> set (concat gs) = {}" by auto
  moreover have "set (concat (filter Q gs)) \<subseteq> set (concat gs)" for Q by auto
  ultimately have "set g \<inter> set (concat (filter Q gs)) = {}" for Q by blast
  with Cons show ?case by auto
qed simp

lemma add_output_grouped:
  assumes "grouped A gs" "inj_on out_id (insert out A)" "out \<notin> A"
  shows "grouped (insert out A) (add_output out gs)"
proof -
  note A = grouped_union [OF assms(1)] and cl = grouped_closed [OF assms(1)] and co = grouped_connected [OF assms(1)]
    and d = conjunct1 [OF grouped_distinct [OF assms(1)]] conjunct2 [OF grouped_distinct [OF assms(1)]]
  from assms(2) A have inj: "inj_on out_id (insert out (\<Union> (set ` set gs)))" by simp
  from add_output_eq [OF inj] obtain ng where ng: "add_output out gs = filter (\<lambda>g. \<not> joins out g) gs @ [ng]"
    "set ng = insert out (\<Union> (set ` set (filter (joins out) gs)))" "distinct (map out_id ng)" .
  have jo: "joins out g \<longleftrightarrow> (\<exists>y\<in>set g. overlaps_output out y)" for g by (simp add: list_ex_iff)
  have union: "\<Union> (set ` set (add_output out gs)) = insert out A" using ng(1,2) A by auto
  have "set ng \<inter> set (concat (filter (\<lambda>g. \<not> joins out g) gs)) = {}"
    using concat_filter_disjoint [OF d(1), of "joins out"] ng(2) A assms(3) by auto
  then have dist: "distinct (concat (add_output out gs))"
    using ng distinct_concat_filter [OF d(1)] by (auto simp: distinct_map)
  have closed: "b \<in> set g" if g: "g \<in> set (add_output out gs)" "a \<in> set g" "b \<in> insert out A" "overlaps_output a b" for g a b
  proof (cases "g \<in> set gs \<and> \<not> joins out g")
    case True
    then have "b \<noteq> out" using g(2,4) overlaps_output_commute jo by blast
    then show ?thesis using cl True g by blast
  next
    case False
    then have [simp]: "g = ng" using g(1) ng(1) by auto
    show ?thesis
    proof (cases "a = out")
      case True
      then show ?thesis using g(3,4) A jo ng(2) by fastforce
    next
      case False
      then obtain h where h: "h \<in> set gs" "joins out h" "a \<in> set h" using g(2) ng(2) by auto
      then show ?thesis using cl [OF h(1,3)] g(3,4) ng(2) by auto
    qed
  qed
  have hub: "(a, out) \<in> (linked (insert out A))\<^sup>*" if a: "a \<in> set ng" for a
  proof (cases "a = out")
    case False
    then obtain h where "h \<in> set gs" "joins out h" "a \<in> set h" using a ng(2) by auto
    then obtain y where h: "h \<in> set gs" "a \<in> set h" "y \<in> set h" "overlaps_output out y" using jo by blast
    then have "(y, out) \<in> linked (insert out A)" using A overlaps_output_commute by (auto simp: linked_def)
    moreover have "(a, y) \<in> (linked (insert out A))\<^sup>*" using co [OF h(1-3)] linked_mono by blast
    ultimately show ?thesis by (rule rtrancl_into_rtrancl [rotated])
  qed simp
  have conn: "(a, b) \<in> (linked (insert out A))\<^sup>*" if g: "g \<in> set (add_output out gs)" "a \<in> set g" "b \<in> set g" for g a b
  proof (cases "g = ng")
    case True
    then show ?thesis using hub [of a] hub [of b] g symD [OF linked_sym] by (meson rtrancl_trans)
  next
    case False
    then show ?thesis using co g ng(1) linked_mono [of a b A "insert out A"] by auto
  qed
  have "[] \<notin> set (add_output out gs)" using d(2) ng(1,2) by auto
  with union dist closed conn show ?thesis unfolding grouped_def by blast
qed

lemma grouped_same:
  assumes "grouped A gs" "a \<in> A"
  shows "same_group gs a b \<longleftrightarrow> (a, b) \<in> (linked A)\<^sup>*"
proof
  show "same_group gs a b \<Longrightarrow> (a, b) \<in> (linked A)\<^sup>*" using grouped_connected [OF assms(1)] unfolding same_group_def by blast
  assume "(a, b) \<in> (linked A)\<^sup>*"
  then show "same_group gs a b"
  proof (induction rule: rtrancl_induct)
    case base
    then show ?case using assms(2) grouped_union [OF assms(1)] unfolding same_group_def by blast
  next
    case (step y z)
    then obtain g where g: "g \<in> set gs" "a \<in> set g" "y \<in> set g" by (auto simp: same_group_def)
    moreover have "z \<in> A" "overlaps_output y z" using step(2) by (simp_all add: linked_def)
    then have "z \<in> set g" using grouped_closed [OF assms(1) g(1,3)] by blast
    ultimately show ?case by (auto simp: same_group_def)
  qed
qed

lemma output_grouping_grouped:
  assumes "distinct (map out_id (outputs conf))"
  shows "grouped (set (filter output_active (outputs conf))) (output_grouping conf)"
proof -
  have eq: "output_grouping conf = fold add_output (filter output_active (outputs conf)) []"
  proof -
    have "(\<lambda>out groups. if output_active out then add_output out groups else groups) = (\<lambda>x. if output_active x then add_output x else id)"
      by (simp add: fun_eq_iff)
    then show ?thesis by (simp add: output_grouping_def fold_filter)
  qed
  have "grouped (A \<union> set outs) (fold add_output outs gs)"
    if "grouped A gs" "inj_on out_id (A \<union> set outs)" "A \<inter> set outs = {}" "distinct outs" for A outs gs
    using that
  proof (induction outs arbitrary: A gs)
    case (Cons x outs)
    have "inj_on out_id (insert x A)" using Cons.prems(2) by (rule inj_on_subset) auto
    with Cons.prems have "grouped (insert x A) (add_output x gs)" by (intro add_output_grouped) simp_all
    moreover have "insert x A \<union> set outs = A \<union> set (x # outs)" by auto
    ultimately show ?case using Cons.IH [of "insert x A" "add_output x gs"] Cons.prems by simp
  qed simp
  note run = this [of "{}" "[]" "filter output_active (outputs conf)"]
  have "inj_on out_id (set (filter output_active (outputs conf)))"
    using assms inj_on_subset [of out_id "set (outputs conf)" "set (filter output_active (outputs conf))"] by (simp add: distinct_map)
  moreover have "grouped {} []" by (simp add: grouped_def)
  moreover have "distinct (outputs conf)" using assms by (simp add: distinct_map)
  ultimately show ?thesis using run unfolding eq by simp
qed

section \<open>Layout\<close>

lemma isqrt_spec: "isqrt n * isqrt n \<le> n \<and> n < (isqrt n + 1) * (isqrt n + 1)"
proof (induction n rule: isqrt.induct)
  case (1 n)
  show ?case
  proof (cases "n = 0")
    case False
    define q where "q = isqrt (n div 4)"
    from 1 [OF False] have "q * q \<le> n div 4" "n div 4 < (q + 1) * (q + 1)" by (simp_all add: q_def)
    then have "4 * (q * q) \<le> n" "n < 4 * ((q + 1) * (q + 1))" by linarith+
    then show ?thesis using False by (simp add: isqrt.simps [of n] q_def [symmetric] Let_def algebra_simps)
  qed (simp add: isqrt.simps)
qed

lemma confine_single:
  assumes "point_in_range p" "rect_in_range r" "has_area r"
  shows "confine [r] p = confined_to r p"
proof (cases "p \<in> pixels r")
  case True
  then have "confine [r] p = p" by (intro confine_inside) simp
  moreover have "confined_to r p = p" using True by (cases p) (auto simp: confined_to_def mem_pixels edges bottom_right_coords clamp_def Let_def)
  ultimately show ?thesis by simp
next
  case False
  have "dist2 (confined_to r p) p < length_squared (Displacement int_max int_max)"
    using assms confined_to_in by (intro dist2_in_range) auto
  with False assms(3) show ?thesis by (simp add: confine_def contains_point_pixels has_area_def displacement_less_def Let_def)
qed

abbreviation overlap_area :: "rectangle \<Rightarrow> rectangle \<Rightarrow> int" where
  "overlap_area rect r \<equiv> width (rsize (intersection_with rect r)) * height (rsize (intersection_with rect r))"

lemma overlap_area_nonneg: "0 \<le> overlap_area rect r"
  by (auto simp: intersection_with_def empty_rectangle_def Let_def)

lemma get_output_loop_spec:
  "get_output_loop rect screens best m = best \<and> (\<forall>s\<in>set screens. overlap_area rect s \<le> m) \<or>
   (\<exists>s\<in>set screens. get_output_loop rect screens best m = s \<and> m < overlap_area rect s \<and> (\<forall>t\<in>set screens. overlap_area rect t \<le> overlap_area rect s))"
proof (induction screens arbitrary: best m)
  case (Cons s screens)
  from Cons.IH [of s "overlap_area rect s"] Cons.IH [of best m] show ?case by (force simp: Let_def)
qed simp

lemma get_output_for_spec:
  assumes "screens \<noteq> []"
  shows "get_output_for screens rect \<in> set screens \<and> (\<forall>t\<in>set screens. overlap_area rect t \<le> overlap_area rect (get_output_for screens rect))"
proof -
  obtain s where "s \<in> set screens" using assms by fastforce
  then have "\<not> (\<forall>s\<in>set screens. overlap_area rect s \<le> -1)" using overlap_area_nonneg [of rect s] by fastforce
  then show ?thesis using get_output_loop_spec [of rect screens rect "-1"] by (auto simp: get_output_for_def)
qed

lemma clip_to_output_corners:
  assumes "rect_in_range rect" "point_in_range (bottom_right rect)" "has_area rect" "out = get_output_for screens rect" "rect_in_range out" "has_area out"
  defines "r \<equiv> clip_to_output screens rect"
  shows "left r = clamp (left rect) (left out) (right out - 1) \<and> right r - 1 = clamp (right rect - 1) (left out) (right out - 1) \<and>
    top_y r = clamp (top_y rect) (top_y out) (bottom out - 1) \<and> bottom r - 1 = clamp (bottom rect - 1) (top_y out) (bottom out - 1)"
proof -
  have "point_in_range (top_left rect)" using assms(1) by (simp add: rect_in_range_def)
  then have a: "confine [out] (top_left rect) = confined_to out (top_left rect)" using assms(5,6) confine_single by blast
  have "point_in_range (point_minus (bottom_right rect) (Displacement 1 1))"
    using assms(1-3) by (auto simp: point_in_range_def rect_in_range_def has_area_def point_minus_def bottom_right_coords edges)
  then have "confine [out] (point_minus (bottom_right rect) (Displacement 1 1)) = confined_to out (point_minus (bottom_right rect) (Displacement 1 1))"
    using assms(5,6) confine_single by blast
  then show ?thesis using a assms(3,4,6)
    by (simp add: r_def clip_to_output_def rectangles_add_def has_area_def edges Let_def as_size_def displacement_plus_def point_diff_def
        confined_to_coords point_minus_def bottom_right_coords)
qed

lemma rectangle_eqI: "left r = left s \<Longrightarrow> right r = right s \<Longrightarrow> top_y r = top_y s \<Longrightarrow> bottom r = bottom s \<Longrightarrow> r = (s :: rectangle)"
  by (simp add: edges)

lemma clamp_bounds: "mn \<le> mx \<Longrightarrow> mn \<le> clamp v mn mx \<and> clamp v mn mx \<le> mx"
  by (auto simp: clamp_def)

lemma clamp_above: "mn \<le> v \<Longrightarrow> clamp v mn mx = min v mx"
  by (simp add: clamp_def max_absorb1)

lemma clamp_below: "v \<le> mx \<Longrightarrow> mn \<le> mx \<Longrightarrow> clamp v mn mx = max v mn"
  by (simp add: clamp_def)

lemma min_minus_one: "min (a - 1) (b - 1) = min a b - (1 :: int)"
  by (simp add: min_def)

text \<open>The edges of the common part of two rectangles that overlap.\<close>

lemma overlaps_edges: "overlaps r s \<Longrightarrow> left s < right r \<and> left r < right s \<and> top_y s < bottom r \<and> top_y r < bottom s"
  by (auto simp: overlaps_def)

lemma intersection_edges:
  assumes "overlaps r s" "has_area r" "has_area s"
  shows "left (intersection_with r s) = max (left r) (left s)" "right (intersection_with r s) = min (right r) (right s)"
    "top_y (intersection_with r s) = max (top_y r) (top_y s)" "bottom (intersection_with r s) = min (bottom r) (bottom s)"
proof -
  have "max (left r) (left s) < min (right r) (right s)" "max (top_y r) (top_y s) < min (bottom r) (bottom s)"
    using overlaps_edges [OF assms(1)] assms(2,3) by (simp_all add: has_area_def edges)
  then have "intersection_with r s = Rectangle (Point (max (left r) (left s)) (max (top_y r) (top_y s)))
      (Size (min (right r) (right s) - max (left r) (left s)) (min (bottom r) (bottom s) - max (top_y r) (top_y s)))"
    by (simp only: intersection_with_def Let_def if_P conj_absorb if_True simp_thms)
  then show "left (intersection_with r s) = max (left r) (left s)" "right (intersection_with r s) = min (right r) (right s)"
    "top_y (intersection_with r s) = max (top_y r) (top_y s)" "bottom (intersection_with r s) = min (bottom r) (bottom s)"
    by (simp_all only: edges rectangle.simps point.simps extent.simps)
qed

lemma properties_fold:
  defines "step rect \<equiv> (\<lambda>m p. if overlaps (prop_extents p) rect
       then (case m of None \<Rightarrow> Some p | Some q \<Rightarrow> if prop_scale p > prop_scale q then Some p else m) else m)"
  shows "case foldl (step rect) m props of
      None \<Rightarrow> m = None \<and> (\<forall>p\<in>set props. \<not> overlaps (prop_extents p) rect)
    | Some q \<Rightarrow> (m = Some q \<or> q \<in> set props \<and> overlaps (prop_extents q) rect) \<and> (\<forall>p. m = Some p \<longrightarrow> prop_scale p \<le> prop_scale q) \<and>
        (\<forall>p\<in>set props. overlaps (prop_extents p) rect \<longrightarrow> prop_scale p \<le> prop_scale q)"
proof (induction props arbitrary: m)
  case (Cons p props)
  from Cons.IH [of "step rect m p"] show ?case by (fastforce simp: step_def split: option.splits if_splits)
qed (auto split: option.split)

section \<open>Properties\<close>

text \<open>A laptop panel with two external outputs, one of which overlaps both of the others.\<close>

definition sample_output :: "int \<Rightarrow> int \<Rightarrow> display_output" where
  "sample_output i x = \<lparr>out_id = i, out_card = 0, out_type = 0, pixel_formats = [Format_argb_8888, Format_xrgb_8888],
     modes = [\<lparr>mode_size = Size 1920 1080, vrefresh_hz = 60\<rparr>], preferred_mode_index = 0, physical_size_mm = Size 300 200,
     out_connected = True, out_used = True, out_top_left = Point x 0, current_mode_index = 0, current_format = Format_xrgb_8888,
     out_power = Power_on, out_orientation = Orientation_normal, out_scale = 1, form_factor = 0, custom_logical_size = None\<rparr>"

definition sample_config :: display_config where
  "sample_config = \<lparr>cards = [], outputs = [sample_output 1 0, sample_output 2 1920, sample_output 3 100]\<rparr>"

text \<open>
  C11: When the outputs of a configuration have different identifiers, the groups of outputs are the connected components of the active
  outputs, where two outputs are connected when their areas overlap and they have the same transformation.  Every active output is
  in exactly one group, and no group is empty.
\<close>

theorem groups_are_connected_components:
  assumes "distinct (map out_id (outputs conf))"
  defines "active \<equiv> set (filter output_active (outputs conf))"
  shows "set (concat (output_grouping conf)) = active \<and> distinct (concat (output_grouping conf)) \<and> [] \<notin> set (output_grouping conf) \<and>
    (\<forall>a\<in>active. \<forall>b\<in>active. same_group (output_grouping conf) a b \<longleftrightarrow> (a, b) \<in> (linked active)\<^sup>*)"
proof -
  note g = output_grouping_grouped [OF assms(1), folded active_def]
  from grouped_union [OF g] grouped_distinct [OF g] grouped_same [OF g] show ?thesis by auto
qed

theorem groups_are_connected_components_witness:
  "set (concat (output_grouping sample_config)) = set (filter output_active (outputs sample_config)) \<and>
   distinct (map out_id (outputs sample_config)) \<and> map (map out_id) (output_grouping sample_config) = [[2, 1, 3]]"
proof -
  have d: "distinct (map out_id (outputs sample_config))" by (simp add: sample_config_def sample_output_def)
  have "map (map out_id) (output_grouping sample_config) = [[2, 1, 3]]" by code_simp
  with d groups_are_connected_components [OF d] show ?thesis by simp
qed

text \<open>
  From outputs whose formats and sizes make sense every policy makes a valid configuration.  The side-by-side and the clone policy use exactly the
  connected outputs that have a mode; the side-by-side policy lets no two of them overlap; the single policy uses one of them when there is one.
\<close>

theorem policies_make_valid_configurations:
  assumes "\<forall>out\<in>set (outputs conf). output_sane out"
  shows "config_valid (clone_policy conf) \<and> config_valid (side_by_side_policy conf) \<and> config_valid (single_policy conf) \<and>
    map out_used (outputs (clone_policy conf)) = map output_usable (outputs conf) \<and>
    map out_used (outputs (side_by_side_policy conf)) = map output_usable (outputs conf) \<and>
    sorted_wrt (\<lambda>a b. out_used a \<and> out_used b \<longrightarrow> \<not> overlaps (extents a) (extents b)) (outputs (side_by_side_policy conf)) \<and>
    length (filter out_used (outputs (single_policy conf))) = (if \<exists>out\<in>set (outputs conf). output_usable out then 1 else 0)"
  using side_by_side_valid [OF assms, of 0] single_valid [OF assms, of False] side_by_side_disjoint [OF assms, of 0] clone_output_valid assms
  by (auto simp: config_valid_iff clone_policy_def side_by_side_policy_def single_policy_def)

theorem policies_make_valid_configurations_witness:
  "config_valid (side_by_side_policy sample_config) \<and>
   map (\<lambda>out. px (out_top_left out)) (outputs (side_by_side_policy sample_config)) = [0, 1920, 3840]"
proof -
  have "\<forall>out\<in>set (outputs sample_config). output_sane out" by (simp add: sample_config_def sample_output_def output_sane_def)
  from policies_make_valid_configurations [OF this] have "config_valid (side_by_side_policy sample_config)" by blast
  moreover have "map (\<lambda>out. px (out_top_left out)) (outputs (side_by_side_policy sample_config)) = [0, 1920, 3840]" by code_simp
  ultimately show ?thesis by blast
qed

text \<open>
  Clipping a rectangle to the output it covers most gives a rectangle inside that output, and the common part of the two
  when they have one.
\<close>

theorem clipping_keeps_the_visible_part:
  assumes "rect_in_range rect" "point_in_range (bottom_right rect)" "has_area rect" "screens \<noteq> []" "\<forall>s\<in>set screens. rect_in_range s \<and> has_area s"
  shows "\<exists>out\<in>set screens. (\<forall>s\<in>set screens. overlap_area rect s \<le> overlap_area rect out) \<and>
    contains_rect out (clip_to_output screens rect) \<and> (overlaps rect out \<longrightarrow> clip_to_output screens rect = intersection_with rect out)"
proof -
  define out where "out = get_output_for screens rect"
  have out: "out \<in> set screens" "\<forall>s\<in>set screens. overlap_area rect s \<le> overlap_area rect out"
    using get_output_for_spec [OF assms(4)] by (simp_all add: out_def)
  have area: "rect_in_range out" "has_area out" using out(1) assms(5) by auto
  note c = clip_to_output_corners [OF assms(1-3) out_def area]
  have "contains_rect out (clip_to_output screens rect)"
  proof -
    have "left out \<le> right out - 1" "top_y out \<le> bottom out - 1" using area(2) by (simp_all add: has_area_def edges)
    note b = clamp_bounds [OF this(1)] clamp_bounds [OF this(2)]
    show ?thesis unfolding contains_rect_edges using c b(1) [of "left rect"] b(1) [of "right rect - 1"] b(2) [of "top_y rect"] b(2) [of "bottom rect - 1"]
      by linarith
  qed
  moreover have "clip_to_output screens rect = intersection_with rect out" if o: "overlaps rect out"
  proof -
    have "left out \<le> right out - 1" "top_y out \<le> bottom out - 1" using area(2) by (simp_all add: has_area_def edges)
    then show ?thesis
      using c overlaps_edges [OF o] by (intro rectangle_eqI) (simp_all add: intersection_edges [OF o assms(3) area(2)] clamp_above clamp_below min_minus_one)
  qed
  ultimately show ?thesis using out by blast
qed

theorem clipping_keeps_the_visible_part_witness:
  "clip_to_output [Rectangle (Point 0 0) (Size 100 100)] (Rectangle (Point 90 90) (Size 20 30)) = Rectangle (Point 90 90) (Size 10 10)"
proof -
  let ?s = "Rectangle (Point 0 0) (Size 100 100)" and ?r = "Rectangle (Point 90 90) (Size 20 30)"
  have "overlaps ?r ?s" by code_simp
  moreover have "intersection_with ?r ?s = Rectangle (Point 90 90) (Size 10 10)" by code_simp
  ultimately show ?thesis using clipping_keeps_the_visible_part [of ?r "[?s]"]
    by (simp add: rect_in_range_def point_in_range_def has_area_def bottom_right_coords edges)
qed

text \<open>
  The properties reported for an area are those of an output that overlaps it and has the largest scale of the outputs that do; there are
  none exactly when no output of the configuration overlaps it.
\<close>

theorem properties_are_of_the_largest_scale:
  "case properties_for (Some (update_from conf)) rect of
     None \<Rightarrow> \<forall>p\<in>set (update_from conf). \<not> overlaps (prop_extents p) rect
   | Some q \<Rightarrow> q \<in> set (update_from conf) \<and> overlaps (prop_extents q) rect \<and>
       (\<forall>p\<in>set (update_from conf). overlaps (prop_extents p) rect \<longrightarrow> prop_scale p \<le> prop_scale q)"
  using properties_fold [where rect = rect and m = None and props = "update_from conf"] by (auto simp: properties_for_def split: option.splits)

theorem properties_are_of_the_largest_scale_witness:
  "map_option prop_id (properties_for (Some (update_from sample_config)) (Rectangle (Point 2500 0) (Size 9 9))) = Some 2 \<and>
   (case properties_for (Some (update_from sample_config)) (Rectangle (Point 2500 0) (Size 9 9)) of
      None \<Rightarrow> False | Some q \<Rightarrow> overlaps (prop_extents q) (Rectangle (Point 2500 0) (Size 9 9)))"
proof -
  have "map_option prop_id (properties_for (Some (update_from sample_config)) (Rectangle (Point 2500 0) (Size 9 9))) = Some 2"
    by (simp add: properties_for_def update_from_def sample_config_def sample_output_def overlaps_def edges extents_def extents_of_def)
  with properties_are_of_the_largest_scale [of sample_config "Rectangle (Point 2500 0) (Size 9 9)"] show ?thesis by (auto split: option.splits)
qed

end
