(* ===== verification/Display_Changer.thy ===== *)
theory Display_Changer
  imports Display_Configuration
begin

text \<open>
  The mediator that decides which configuration the display shows, \<open>src/server/scene/mediating_display_changer.cpp\<close>.  Calls on it queue
  actions that the main loop runs one at a time; sessions are held weakly, so the sessions still alive are part of the state.  The display is
  a parameter: what it does with a configuration is given by two functions, and \<open>display_contract\<close> is what its interface promises.  The arrangement
  policy is a parameter too.  What observers, sessions and the compositor are told is recorded in order.  An exception that leaves an
  action is the result of the action.
\<close>

section \<open>State\<close>

record display_driver =
  drv_apply_if_preserves :: "display_config \<Rightarrow> display_config \<Rightarrow> (exn + bool) \<times> display_config"
  drv_configure :: "display_config \<Rightarrow> display_config \<Rightarrow> exn option \<times> display_config"

datatype 's change_action =
    Apply_session_config 's display_config
  | Unapply_session_config 's
  | Apply_preview 's display_config
  | Revert_preview 's
  | Hardware_change display_config
  | Focus_change 's
  | No_focus
  | Session_stopping 's
  | Set_base display_config

datatype 's change_note =
    Initial_configuration display_config
  | Session_configuration_applied 's display_config
  | Session_configuration_removed 's
  | Configuration_applied display_config
  | Configuration_failed display_config exn
  | Catastrophic_error display_config exn
  | Base_configuration_updated display_config
  | Updated_for_session 's display_config
  | Send_error 's
  | Compositor_stop
  | Compositor_start

record 's changer =
  base_configuration :: display_config
  base_configuration_applied :: bool
  config_map :: "'s \<Rightarrow> display_config option"
  focused_session :: "'s option"
  preview_timeout :: "('s \<times> bool) option"
  currently_previewing :: "'s option"
  shown :: display_config
  action_queue :: "'s change_action list"
  processing_paused :: bool
  live :: "'s set"
  container :: "'s list"
  change_log :: "'s change_note list"

definition tell :: "'s change_note \<Rightarrow> 's changer \<Rightarrow> 's changer" where
  "tell n ch = ch\<lparr>change_log := change_log ch @ [n]\<rparr>"

definition enqueue :: "'s change_action \<Rightarrow> 's changer \<Rightarrow> 's changer" where
  "enqueue a ch = ch\<lparr>action_queue := action_queue ch @ [a]\<rparr>"

text \<open>\<open>weak_ptr::lock\<close>.\<close>

definition lock :: "'s option \<Rightarrow> 's changer \<Rightarrow> 's option" where
  "lock w ch = (case w of Some s \<Rightarrow> if s \<in> live ch then Some s else None | None \<Rightarrow> None)"

definition make_changer :: "display_config \<Rightarrow> 's changer" where
  "make_changer conf = \<lparr>base_configuration = conf, base_configuration_applied = True, config_map = (\<lambda>_. None), focused_session = None,
     preview_timeout = None, currently_previewing = None, shown = conf, action_queue = [], processing_paused = False, live = {}, container = [],
     change_log = [Initial_configuration conf]\<rparr>"

section \<open>Applying a configuration\<close>

definition configuration_has_new_outputs_enabled :: "display_config \<Rightarrow> display_config \<Rightarrow> bool" where
  "configuration_has_new_outputs_enabled existing updated =
     (let currently_enabled_outputs = map out_id (filter out_used (outputs existing))
      in list_ex (\<lambda>out. out_used out \<and> out_id out \<notin> set currently_enabled_outputs) (outputs updated))"

text \<open>\<open>display->configure\<close> between stopping and starting the compositor, which is started on every way out.\<close>

definition configure_display :: "display_driver \<Rightarrow> display_config \<Rightarrow> 's changer \<Rightarrow> ('s changer, unit) outcome" where
  "configure_display drv conf ch =
     (case drv_configure drv (shown ch) conf of
        (None, now) \<Rightarrow> ret () (tell Compositor_start ((tell Compositor_stop ch)\<lparr>shown := now\<rparr>))
      | (Some e, now) \<Rightarrow> throw e (tell Compositor_start ((tell Compositor_stop ch)\<lparr>shown := now\<rparr>)))"

definition try_config :: "display_driver \<Rightarrow> display_config \<Rightarrow> 's changer \<Rightarrow> ('s changer, unit) outcome" where
  "try_config drv conf ch =
     (if configuration_has_new_outputs_enabled (shown ch) conf then configure_display drv conf ch
      else case drv_apply_if_preserves drv (shown ch) conf of
        (Inl e, now) \<Rightarrow> throw e (ch\<lparr>shown := now\<rparr>)
      | (Inr True, now) \<Rightarrow> ret () (ch\<lparr>shown := now\<rparr>)
      | (Inr False, now) \<Rightarrow> configure_display drv conf (ch\<lparr>shown := now\<rparr>))"

definition apply_config :: "display_driver \<Rightarrow> display_config \<Rightarrow> 's changer \<Rightarrow> ('s changer, unit) outcome" where
  "apply_config drv conf ch =
     (let existing_configuration = shown ch
      in case try_config drv conf ch of
           (Inr _, ch1) \<Rightarrow> ret () ((tell (Configuration_applied conf) ch1)\<lparr>base_configuration_applied := False\<rparr>)
         | (Inl e, ch1) \<Rightarrow>
             (case configure_display drv existing_configuration ch1 of
                (Inr _, ch2) \<Rightarrow> throw e (tell (Configuration_failed conf e) ch2)
              | (Inl e', ch2) \<Rightarrow> throw e' (tell (Catastrophic_error existing_configuration e') ch2)))"

definition apply_base_config :: "display_driver \<Rightarrow> 's changer \<Rightarrow> ('s changer, unit) outcome" where
  "apply_base_config drv ch =
     and_then (apply_config drv (base_configuration ch) ch) (\<lambda>_ ch1. ret () (ch1\<lparr>base_configuration_applied := True\<rparr>)) id"

text \<open>\<open>try { ... } catch (std::exception const&) { session->send_error(...); }\<close>\<close>

definition or_send_error :: "'s \<Rightarrow> ('s changer, unit) outcome \<Rightarrow> ('s changer, unit) outcome" where
  "or_send_error s r = (case r of (Inl e, ch) \<Rightarrow> ret () (tell (Send_error s) ch) | (Inr _, ch) \<Rightarrow> ret () ch)"

definition send_config_to_all_sessions :: "display_config \<Rightarrow> 's changer \<Rightarrow> 's changer" where
  "send_config_to_all_sessions conf ch = fold (\<lambda>s. tell (Updated_for_session s conf)) (container ch) ch"

section \<open>Calls\<close>

abbreviation bad_display_config :: exn where
  "bad_display_config \<equiv> Runtime_error ''Invalid or inconsistent display configuration''"

definition configure :: "'s \<Rightarrow> display_config \<Rightarrow> 's changer \<Rightarrow> ('s changer, unit) outcome" where
  "configure s conf ch =
     (if \<not> config_valid conf then throw bad_display_config ch
      else let ch1 = tell (Session_configuration_applied s conf) (ch\<lparr>config_map := (config_map ch)(s \<mapsto> conf)\<rparr>)
           in if Some s \<noteq> lock (focused_session ch1) ch1 then ret () ch1
              else ret () (enqueue (Apply_session_config s conf) ch1))"

definition remove_session_configuration :: "'s \<Rightarrow> 's changer \<Rightarrow> 's changer" where
  "remove_session_configuration s ch =
     (let ch1 = (if config_map ch s \<noteq> None
                 then tell (Session_configuration_removed s) (ch\<lparr>config_map := (config_map ch)(s := None)\<rparr>) else ch)
      in if Some s \<noteq> lock (focused_session ch1) ch1 then ch1
         else enqueue (Unapply_session_config s) ch1)"

definition preview_base_configuration :: "'s \<Rightarrow> display_config \<Rightarrow> 's changer \<Rightarrow> ('s changer, unit) outcome" where
  "preview_base_configuration s conf ch =
     (if \<not> config_valid conf then throw bad_display_config ch
      else if preview_timeout ch \<noteq> None then throw (Runtime_error ''Base display configuration already in progress'') ch
      else ret () (enqueue (Apply_preview s conf) (ch\<lparr>preview_timeout := Some (s, True), currently_previewing := Some s\<rparr>)))"

definition set_base_configuration :: "display_config \<Rightarrow> 's changer \<Rightarrow> ('s changer, unit) outcome" where
  "set_base_configuration conf ch =
     (if \<not> config_valid conf then throw bad_display_config ch else ret () (enqueue (Set_base conf) ch))"

definition confirm_base_configuration :: "display_config \<Rightarrow> 's changer \<Rightarrow> ('s changer, unit) outcome" where
  "confirm_base_configuration conf ch = set_base_configuration conf (ch\<lparr>preview_timeout := None, currently_previewing := None\<rparr>)"

text \<open>\<open>Alarm::cancel\<close> is true when the alarm had not been triggered.\<close>

definition cancel_base_configuration_preview :: "'s \<Rightarrow> 's changer \<Rightarrow> ('s changer, unit) outcome" where
  "cancel_base_configuration_preview s ch =
     (case preview_timeout ch of
        None \<Rightarrow> throw (Runtime_error ''No base display configuration preview in progress'') ch
      | Some (_, pending) \<Rightarrow>
          if lock (currently_previewing ch) ch \<noteq> Some s
          then throw (Runtime_error ''No base display configuration preview in progress'') ch
          else let ch1 = ch\<lparr>preview_timeout := None, currently_previewing := None\<rparr>
               in ret () (if pending then enqueue (Revert_preview s) ch1 else ch1))"

definition configure_for_hardware_change :: "display_config \<Rightarrow> 's changer \<Rightarrow> 's changer" where
  "configure_for_hardware_change conf ch = enqueue (Hardware_change conf) ch"

definition pause_display_config_processing :: "'s changer \<Rightarrow> 's changer" where
  "pause_display_config_processing ch = ch\<lparr>processing_paused := True\<rparr>"

definition resume_display_config_processing :: "'s changer \<Rightarrow> 's changer" where
  "resume_display_config_processing ch = ch\<lparr>processing_paused := False\<rparr>"

definition handle_focus_change :: "'s \<Rightarrow> 's changer \<Rightarrow> 's changer" where
  "handle_focus_change s ch = enqueue (Focus_change s) ch"

definition handle_no_focus :: "'s changer \<Rightarrow> 's changer" where
  "handle_no_focus ch = enqueue No_focus ch"

definition handle_session_stopping :: "'s \<Rightarrow> 's changer \<Rightarrow> 's changer" where
  "handle_session_stopping s ch = enqueue (Session_stopping s) ch"

section \<open>Actions\<close>

definition focus_change_handler :: "display_driver \<Rightarrow> 's \<Rightarrow> 's changer \<Rightarrow> ('s changer, unit) outcome" where
  "focus_change_handler drv s ch =
     (let ch1 = ch\<lparr>focused_session := Some s\<rparr>
      in case config_map ch1 s of
           Some conf \<Rightarrow> or_send_error s (apply_config drv conf ch1)
         | None \<Rightarrow> if \<not> base_configuration_applied ch1 then apply_base_config drv ch1 else ret () ch1)"

definition no_focus_handler :: "display_driver \<Rightarrow> 's changer \<Rightarrow> ('s changer, unit) outcome" where
  "no_focus_handler drv ch =
     (let ch1 = ch\<lparr>focused_session := None\<rparr>
      in if \<not> base_configuration_applied ch1 then apply_base_config drv ch1 else ret () ch1)"

definition session_stopping_handler :: "'s \<Rightarrow> 's changer \<Rightarrow> 's changer" where
  "session_stopping_handler s ch = ch\<lparr>config_map := (config_map ch)(s := None)\<rparr>"

text \<open>The revert of a preview, by its alarm or by a cancellation.\<close>

definition revert_preview :: "display_driver \<Rightarrow> 's \<Rightarrow> 's changer \<Rightarrow> ('s changer, unit) outcome" where
  "revert_preview drv s ch =
     (if s \<in> live ch
      then and_then (apply_base_config drv ch) (\<lambda>_ ch1. ret () (tell (Updated_for_session s (base_configuration ch1)) ch1)) id
      else ret () ch)"

definition hardware_change :: "display_driver \<Rightarrow> (display_config \<Rightarrow> display_config) \<Rightarrow> display_config \<Rightarrow> 's changer \<Rightarrow> 's changer" where
  "hardware_change drv policy conf ch =
     (let existing_configuration = base_configuration ch;
          ch1 = ch\<lparr>base_configuration := policy conf\<rparr>;
          ch2 = (if base_configuration_applied ch1
                 then case apply_base_config drv ch1 of
                        (Inr _, ch') \<Rightarrow> tell (Base_configuration_updated (base_configuration ch')) ch'
                      | (Inl e, ch') \<Rightarrow> ch'\<lparr>base_configuration := existing_configuration\<rparr>
                 else ch1);
          ch3 = ch2\<lparr>config_map := (\<lambda>_. None)\<rparr>
      in send_config_to_all_sessions (base_configuration ch3) ch3)"

fun run_action :: "display_driver \<Rightarrow> (display_config \<Rightarrow> display_config) \<Rightarrow> 's change_action \<Rightarrow> 's changer \<Rightarrow> ('s changer, unit) outcome" where
  "run_action drv policy (Apply_session_config s conf) ch =
     (if s \<in> live ch \<and> lock (focused_session ch) ch = Some s then or_send_error s (apply_config drv conf ch) else ret () ch)"
| "run_action drv policy (Unapply_session_config s) ch =
     (if s \<in> live ch then or_send_error s (apply_base_config drv ch) else ret () ch)"
| "run_action drv policy (Apply_preview s conf) ch =
     (if s \<in> live ch
      then (case apply_config drv conf ch of
              (Inr _, ch1) \<Rightarrow> ret () (tell (Updated_for_session s conf) ch1)
            | (Inl (Runtime_error m), ch1) \<Rightarrow> ret () (tell (Send_error s) ch1)
            | (Inl e, ch1) \<Rightarrow> throw e ch1)
      else ret () ch)"
| "run_action drv policy (Revert_preview s) ch = revert_preview drv s ch"
| "run_action drv policy (Hardware_change conf) ch = ret () (hardware_change drv policy conf ch)"
| "run_action drv policy (Focus_change s) ch = (if s \<in> live ch then focus_change_handler drv s ch else ret () ch)"
| "run_action drv policy No_focus ch = no_focus_handler drv ch"
| "run_action drv policy (Session_stopping s) ch = (if s \<in> live ch then ret () (session_stopping_handler s ch) else ret () ch)"
| "run_action drv policy (Set_base conf) ch =
     (let ch1 = ch\<lparr>base_configuration := conf\<rparr>
      in and_then (if base_configuration_applied ch1 then apply_base_config drv ch1 else ret () ch1)
           (\<lambda>_ ch2. ret () (send_config_to_all_sessions conf (tell (Base_configuration_updated conf) ch2))) id)"

definition process_action :: "display_driver \<Rightarrow> (display_config \<Rightarrow> display_config) \<Rightarrow> 's changer \<Rightarrow> ('s changer, unit) outcome" where
  "process_action drv policy ch =
     (if processing_paused ch then ret () ch
      else case action_queue ch of
        [] \<Rightarrow> ret () ch
      | a # as \<Rightarrow> run_action drv policy a (ch\<lparr>action_queue := as\<rparr>))"

text \<open>The alarm of a preview goes off once.\<close>

definition preview_alarm :: "display_driver \<Rightarrow> 's changer \<Rightarrow> ('s changer, unit) outcome" where
  "preview_alarm drv ch =
     (case preview_timeout ch of
        Some (s, True) \<Rightarrow> revert_preview drv s (ch\<lparr>preview_timeout := Some (s, False)\<rparr>)
      | _ \<Rightarrow> ret () ch)"

section \<open>What the display promises, and what applying a configuration does\<close>

definition display_contract :: "display_driver \<Rightarrow> bool" where
  "display_contract drv \<longleftrightarrow>
     (\<forall>cur conf now. drv_configure drv cur conf = (None, now) \<longrightarrow> now = conf) \<and>
     (\<forall>cur conf now. drv_apply_if_preserves drv cur conf = (Inr True, now) \<longrightarrow> now = conf) \<and>
     (\<forall>cur conf now. drv_apply_if_preserves drv cur conf = (Inr False, now) \<longrightarrow> now = cur)"

fun catastrophic :: "'s change_note \<Rightarrow> bool" where
  "catastrophic (Catastrophic_error _ _) = True"
| "catastrophic _ = False"

definition calm :: "'s changer \<Rightarrow> bool" where
  "calm ch \<longleftrightarrow> \<not> list_ex catastrophic (change_log ch)"

lemma calm_tell [simp]: "calm (tell n ch) \<longleftrightarrow> calm ch \<and> \<not> catastrophic n"
  by (auto simp: calm_def tell_def)

lemma tell_sel [simp]:
  "base_configuration (tell n ch) = base_configuration ch" "base_configuration_applied (tell n ch) = base_configuration_applied ch"
  "config_map (tell n ch) = config_map ch" "focused_session (tell n ch) = focused_session ch" "preview_timeout (tell n ch) = preview_timeout ch"
  "currently_previewing (tell n ch) = currently_previewing ch" "shown (tell n ch) = shown ch" "action_queue (tell n ch) = action_queue ch"
  "processing_paused (tell n ch) = processing_paused ch" "live (tell n ch) = live ch" "container (tell n ch) = container ch"
  "change_log (tell n ch) = change_log ch @ [n]"
  by (simp_all add: tell_def)

lemma calm_update [simp]:
  "calm (ch\<lparr>base_configuration := c\<rparr>) = calm ch" "calm (ch\<lparr>base_configuration_applied := b\<rparr>) = calm ch" "calm (ch\<lparr>config_map := m\<rparr>) = calm ch"
  "calm (ch\<lparr>focused_session := f\<rparr>) = calm ch" "calm (ch\<lparr>preview_timeout := t\<rparr>) = calm ch" "calm (ch\<lparr>currently_previewing := f\<rparr>) = calm ch"
  "calm (ch\<lparr>shown := c\<rparr>) = calm ch" "calm (ch\<lparr>action_queue := q\<rparr>) = calm ch" "calm (ch\<lparr>processing_paused := b\<rparr>) = calm ch"
  "calm (ch\<lparr>live := l\<rparr>) = calm ch" "calm (ch\<lparr>container := l'\<rparr>) = calm ch"
  by (simp_all add: calm_def)

lemma configure_display_cases:
  assumes "display_contract drv"
  obtains (accepted) "configure_display drv conf ch = ret () (ch\<lparr>shown := conf, change_log := change_log ch @ [Compositor_stop, Compositor_start]\<rparr>)"
  | (refused) e now where "configure_display drv conf ch = throw e (ch\<lparr>shown := now, change_log := change_log ch @ [Compositor_stop, Compositor_start]\<rparr>)"
proof -
  obtain r now where r: "drv_configure drv (shown ch) conf = (r, now)" by fastforce
  show ?thesis
  proof (cases r)
    case None
    then have "now = conf" using assms r by (auto simp: display_contract_def)
    then show ?thesis using accepted r None by (simp add: configure_display_def tell_def)
  next
    case (Some e)
    then show ?thesis using refused r by (simp add: configure_display_def tell_def)
  qed
qed

text \<open>Applying ends in one of three ways: it succeeds, it is rolled back, or the roll back fails too.\<close>

lemma try_config_cases:
  assumes "display_contract drv"
  obtains (accepted) l where "try_config drv conf ch = ret () (ch\<lparr>shown := conf, change_log := change_log ch @ l\<rparr>)" "set l \<subseteq> {Compositor_stop, Compositor_start}"
  | (refused) e now l where "try_config drv conf ch = throw e (ch\<lparr>shown := now, change_log := change_log ch @ l\<rparr>)" "set l \<subseteq> {Compositor_stop, Compositor_start}"
proof -
  obtain r now where r: "drv_apply_if_preserves drv (shown ch) conf = (r, now)" by fastforce
  have full: ?thesis if t: "try_config drv conf ch = configure_display drv conf ch"
  proof (cases rule: configure_display_cases [OF assms, of conf ch])
    case 1
    then show ?thesis using t accepted [of "[Compositor_stop, Compositor_start]"] by simp
  next
    case (2 e now)
    then show ?thesis using t refused [of e "[Compositor_stop, Compositor_start]" now] by simp
  qed
  consider "configuration_has_new_outputs_enabled (shown ch) conf" | e where "\<not> configuration_has_new_outputs_enabled (shown ch) conf" "r = Inl e"
    | "\<not> configuration_has_new_outputs_enabled (shown ch) conf" "r = Inr True" | "\<not> configuration_has_new_outputs_enabled (shown ch) conf" "r = Inr False"
    by (cases r) auto
  then show ?thesis
  proof cases
    case 1
    then show ?thesis by (intro full) (simp add: try_config_def)
  next
    case (2 e)
    then show ?thesis using r refused [of e "[]" now] by (simp add: try_config_def)
  next
    case 3
    then have "now = conf" using assms r by (auto simp: display_contract_def)
    then show ?thesis using 3 r accepted [of "[]"] by (simp add: try_config_def)
  next
    case 4
    then have "now = shown ch" using assms r by (auto simp: display_contract_def)
    then show ?thesis using 4 r by (intro full) (simp add: try_config_def)
  qed
qed

lemma apply_config_cases:
  assumes "display_contract drv"
  obtains (applied) l where "apply_config drv conf ch = ret () (ch\<lparr>shown := conf, base_configuration_applied := False, change_log := change_log ch @ l\<rparr>)"
      "\<not> list_ex catastrophic l" "Configuration_applied conf \<in> set l" "\<And>s. Send_error s \<notin> set l"
  | (rolled_back) l e where "apply_config drv conf ch = throw e (ch\<lparr>change_log := change_log ch @ l\<rparr>)"
      "\<not> list_ex catastrophic l" "Configuration_failed conf e \<in> set l"
  | (catastrophe) l e now where "apply_config drv conf ch = throw e (ch\<lparr>shown := now, change_log := change_log ch @ l\<rparr>)" "list_ex catastrophic l"
proof -
  have quiet: "\<not> list_ex catastrophic l" if "set l \<subseteq> {Compositor_stop, Compositor_start :: 'a change_note}" for l
    using that by (auto simp: list_ex_iff)
  show ?thesis
  proof (cases rule: try_config_cases [OF assms, of conf ch])
    case (1 l)
    then have "Send_error s \<notin> set l" for s by auto
    with 1 show ?thesis using applied [of "l @ [Configuration_applied conf]"] quiet [OF 1(2)] by (simp add: apply_config_def ret_def tell_def)
  next
    case (2 e now l)
    note tried = 2
    let ?ch = "ch\<lparr>shown := now, change_log := change_log ch @ l\<rparr>"
    show ?thesis
    proof (cases rule: configure_display_cases [OF assms, of "shown ch" ?ch])
      case 1
      then show ?thesis
        using rolled_back [of e "l @ [Compositor_stop, Compositor_start, Configuration_failed conf e]"] tried(1) quiet [OF tried(2)]
        by (simp add: apply_config_def ret_def throw_def tell_def)
    next
      case (2 e' now')
      then show ?thesis
        using catastrophe [of e' "l @ [Compositor_stop, Compositor_start, Catastrophic_error (shown ch) e']" now'] tried(1)
        by (simp add: apply_config_def throw_def tell_def)
    qed
  qed
qed

lemma or_send_error_simps: "or_send_error s (ret () ch) = ret () ch" "or_send_error s (throw e ch) = ret () (tell (Send_error s) ch)"
  by (simp_all add: or_send_error_def ret_def throw_def)

text \<open>The display takes a configuration: it can apply it as it is, or is configured with it.\<close>

definition accepts :: "display_driver \<Rightarrow> display_config \<Rightarrow> display_config \<Rightarrow> bool" where
  "accepts drv cur conf \<longleftrightarrow>
     (if configuration_has_new_outputs_enabled cur conf then fst (drv_configure drv cur conf) = None
      else case drv_apply_if_preserves drv cur conf of
        (Inl e, now) \<Rightarrow> False
      | (Inr True, now) \<Rightarrow> True
      | (Inr False, now) \<Rightarrow> fst (drv_configure drv now conf) = None)"

lemma apply_config_accepts: "(\<exists>ch1. apply_config drv conf ch = ret () ch1) \<longleftrightarrow> accepts drv (shown ch) conf"
proof -
  have "(\<exists>ch1. configure_display drv conf ch = (Inr (), ch1)) \<longleftrightarrow> fst (drv_configure drv (shown ch) conf) = None" for ch :: "'a changer"
    by (auto simp: configure_display_def ret_def throw_def split: prod.split option.split)
  then have "(\<exists>ch1. try_config drv conf ch = (Inr (), ch1)) \<longleftrightarrow> accepts drv (shown ch) conf"
    by (auto simp: try_config_def accepts_def ret_def throw_def split: prod.split sum.split bool.split)
  moreover have "(\<exists>ch1. apply_config drv conf ch = ret () ch1) \<longleftrightarrow> (\<exists>ch1. try_config drv conf ch = (Inr (), ch1))"
    by (auto simp: apply_config_def ret_def throw_def Let_def split: prod.split sum.split)
  ultimately show ?thesis by simp
qed

section \<open>The configuration marked as applied is the one shown\<close>

definition changer_inv :: "'s changer \<Rightarrow> bool" where
  "changer_inv ch \<longleftrightarrow> (calm ch \<longrightarrow> base_configuration_applied ch \<longrightarrow> shown ch = base_configuration ch)"

lemma calm_append: "calm (ch\<lparr>change_log := change_log ch @ l\<rparr>) \<longleftrightarrow> calm ch \<and> \<not> list_ex catastrophic l"
  by (auto simp: calm_def)

lemma inv_append: "changer_inv ch \<Longrightarrow> changer_inv (ch\<lparr>change_log := change_log ch @ l\<rparr>)"
  by (auto simp: changer_inv_def calm_append)

lemma inv_tell: "changer_inv ch \<Longrightarrow> changer_inv (tell n ch)"
  by (auto simp: changer_inv_def)

lemma inv_update [simp]:
  "changer_inv (ch\<lparr>config_map := m\<rparr>) = changer_inv ch" "changer_inv (ch\<lparr>focused_session := f\<rparr>) = changer_inv ch"
  "changer_inv (ch\<lparr>preview_timeout := t\<rparr>) = changer_inv ch" "changer_inv (ch\<lparr>currently_previewing := f\<rparr>) = changer_inv ch"
  "changer_inv (ch\<lparr>action_queue := q\<rparr>) = changer_inv ch" "changer_inv (ch\<lparr>processing_paused := b\<rparr>) = changer_inv ch"
  "changer_inv (ch\<lparr>live := l\<rparr>) = changer_inv ch" "changer_inv (ch\<lparr>container := l'\<rparr>) = changer_inv ch"
  by (simp_all add: changer_inv_def)

lemma send_config_eq:
  "send_config_to_all_sessions conf ch = ch\<lparr>change_log := change_log ch @ map (\<lambda>s. Updated_for_session s conf) (container ch)\<rparr>"
proof -
  have "fold (\<lambda>s. tell (Updated_for_session s conf)) ss ch = ch\<lparr>change_log := change_log ch @ map (\<lambda>s. Updated_for_session s conf) ss\<rparr>" for ss
    by (induction ss arbitrary: ch) (simp_all add: tell_def)
  then show ?thesis by (simp add: send_config_to_all_sessions_def)
qed

lemma inv_send: "changer_inv ch \<Longrightarrow> changer_inv (send_config_to_all_sessions conf ch)"
  by (simp add: send_config_eq inv_append)

lemma apply_config_inv: "display_contract drv \<Longrightarrow> changer_inv ch \<Longrightarrow> changer_inv (state_of (apply_config drv conf ch))"
  by (rule apply_config_cases [of drv conf ch]) (auto simp: changer_inv_def calm_def)

text \<open>Applying the base configuration; \<open>b\<close> is the configuration to go back to in the base when it fails.\<close>

lemma apply_base_config_cases:
  assumes "display_contract drv"
  obtains (applied) l where "apply_base_config drv ch = ret () (ch\<lparr>shown := base_configuration ch, base_configuration_applied := True, change_log := change_log ch @ l\<rparr>)"
      "\<not> list_ex catastrophic l"
  | (rolled_back) l e where "apply_base_config drv ch = throw e (ch\<lparr>change_log := change_log ch @ l\<rparr>)" "\<not> list_ex catastrophic l"
  | (catastrophe) l e now where "apply_base_config drv ch = throw e (ch\<lparr>shown := now, change_log := change_log ch @ l\<rparr>)" "list_ex catastrophic l"
proof (cases rule: apply_config_cases [OF assms, of "base_configuration ch" ch])
  case (1 l)
  then show ?thesis using applied [of l] by (simp add: apply_base_config_def)
next
  case (2 l e)
  then show ?thesis using rolled_back [of e l] by (simp add: apply_base_config_def)
next
  case (3 l e now)
  then show ?thesis using catastrophe [of e l now] by (simp add: apply_base_config_def)
qed

lemma apply_base_config_inv: "display_contract drv \<Longrightarrow> changer_inv ch \<Longrightarrow> changer_inv (state_of (apply_base_config drv ch))"
  by (rule apply_base_config_cases [of drv ch]) (auto simp: changer_inv_def calm_def)

lemma apply_base_config_done:
  "display_contract drv \<Longrightarrow> apply_base_config drv ch = (Inr u, ch') \<Longrightarrow> changer_inv ch'"
  by (rule apply_base_config_cases [of drv ch]) (auto simp: changer_inv_def calm_def ret_def throw_def)

lemma or_send_error_inv: "changer_inv (state_of r) \<Longrightarrow> changer_inv (state_of (or_send_error s r))"
  by (auto simp: or_send_error_def state_of_def ret_def inv_tell split: prod.splits sum.splits)

lemma hardware_change_inv:
  assumes "display_contract drv" "changer_inv ch"
  shows "changer_inv (hardware_change drv policy conf ch)"
proof -
  let ?ch = "ch\<lparr>base_configuration := policy conf\<rparr>"
  have "changer_inv (case apply_base_config drv ?ch of
      (Inr _, ch') \<Rightarrow> tell (Base_configuration_updated (base_configuration ch')) ch' | (Inl e, ch') \<Rightarrow> ch'\<lparr>base_configuration := base_configuration ch\<rparr>)"
    by (rule apply_base_config_cases [OF assms(1), of ?ch]) (use assms(2) in \<open>auto simp: ret_def throw_def changer_inv_def calm_def\<close>)
  moreover have "changer_inv ?ch" if "\<not> base_configuration_applied ch" using that by (simp add: changer_inv_def)
  ultimately show ?thesis by (auto simp: hardware_change_def Let_def intro!: inv_send)
qed

lemma revert_preview_inv:
  assumes "display_contract drv" "changer_inv ch" "revert_preview drv s ch = (Inr u, ch')"
  shows "changer_inv ch'"
  by (rule apply_base_config_cases [OF assms(1), of ch])
    (use assms(2,3) in \<open>auto simp: revert_preview_def ret_def throw_def changer_inv_def calm_def and_then_def split: if_splits\<close>)

lemma run_action_inv:
  assumes "display_contract drv" "changer_inv ch" "run_action drv policy a ch = (Inr u, ch')"
  shows "changer_inv ch'"
proof (cases a)
  case (Apply_session_config s conf)
  have "changer_inv (state_of (or_send_error s (apply_config drv conf ch)))"
    using assms(1,2) by (intro or_send_error_inv apply_config_inv)
  then show ?thesis using assms(2,3) Apply_session_config by (auto simp: ret_def state_of_def split: if_splits)
next
  case (Unapply_session_config s)
  have "changer_inv (state_of (or_send_error s (apply_base_config drv ch)))"
    using assms(1,2) by (intro or_send_error_inv apply_base_config_inv)
  then show ?thesis using assms(2,3) Unapply_session_config by (auto simp: ret_def state_of_def split: if_splits)
next
  case (Apply_preview s conf)
  have "changer_inv (state_of (apply_config drv conf ch))" using assms(1,2) by (rule apply_config_inv)
  then show ?thesis using assms(2,3) Apply_preview
    by (auto simp: ret_def throw_def state_of_def inv_tell split: if_splits prod.splits sum.splits exn.splits)
next
  case (Focus_change s)
  let ?ch = "ch\<lparr>focused_session := Some s\<rparr>"
  have "changer_inv (state_of (or_send_error s (apply_config drv conf ?ch)))" for conf
    using assms(1,2) by (intro or_send_error_inv apply_config_inv) simp_all
  then have "changer_inv ch'" if "or_send_error s (apply_config drv conf ?ch) = (Inr u, ch')" for conf
    using that by (metis snd_conv state_of_def)
  moreover have "changer_inv (state_of (apply_base_config drv ?ch))" using assms(1,2) by (intro apply_base_config_inv) simp_all
  ultimately show ?thesis using assms(2,3) Focus_change
    by (auto simp: focus_change_handler_def ret_def state_of_def Let_def split: if_splits option.splits)
next
  case No_focus
  have "changer_inv (state_of (apply_base_config drv (ch\<lparr>focused_session := None\<rparr>)))" using assms(1,2) by (intro apply_base_config_inv) simp_all
  then show ?thesis using assms(2,3) No_focus
    by (auto simp: no_focus_handler_def ret_def state_of_def Let_def split: if_splits)
next
  case (Set_base conf)
  let ?ch = "ch\<lparr>base_configuration := conf\<rparr>"
  have "changer_inv ch1" if "apply_base_config drv ?ch = (Inr (), ch1)" for ch1 using apply_base_config_done [OF assms(1) that] .
  moreover have "changer_inv ?ch" if "\<not> base_configuration_applied ch" using that by (simp add: changer_inv_def)
  ultimately show ?thesis using assms(3) Set_base
    by (auto simp: and_then_def ret_def Let_def intro!: inv_send inv_tell split: if_splits prod.splits sum.splits)
qed (use assms revert_preview_inv hardware_change_inv in \<open>auto simp: ret_def session_stopping_handler_def split: if_splits\<close>)

section \<open>Runs\<close>

text \<open>What may happen: calls from the frontend, the shell and the hardware, sessions that come and go, and the main loop's work.
  An exception that leaves the main loop ends the run.\<close>

inductive changer_run :: "display_driver \<Rightarrow> (display_config \<Rightarrow> display_config) \<Rightarrow> 's changer \<Rightarrow> bool"
  for drv :: display_driver and policy :: "display_config \<Rightarrow> display_config" where
  start: "changer_run drv policy (make_changer conf)"
| configure: "changer_run drv policy ch \<Longrightarrow> changer_run drv policy (state_of (configure s conf ch))"
| remove: "changer_run drv policy ch \<Longrightarrow> changer_run drv policy (remove_session_configuration s ch)"
| preview: "changer_run drv policy ch \<Longrightarrow> changer_run drv policy (state_of (preview_base_configuration s conf ch))"
| confirm: "changer_run drv policy ch \<Longrightarrow> changer_run drv policy (state_of (confirm_base_configuration conf ch))"
| cancel: "changer_run drv policy ch \<Longrightarrow> changer_run drv policy (state_of (cancel_base_configuration_preview s ch))"
| set_base: "changer_run drv policy ch \<Longrightarrow> changer_run drv policy (state_of (set_base_configuration conf ch))"
| hardware: "changer_run drv policy ch \<Longrightarrow> changer_run drv policy (configure_for_hardware_change conf ch)"
| pause: "changer_run drv policy ch \<Longrightarrow> changer_run drv policy (pause_display_config_processing ch)"
| resume: "changer_run drv policy ch \<Longrightarrow> changer_run drv policy (resume_display_config_processing ch)"
| focus: "changer_run drv policy ch \<Longrightarrow> changer_run drv policy (handle_focus_change s ch)"
| no_focus: "changer_run drv policy ch \<Longrightarrow> changer_run drv policy (handle_no_focus ch)"
| stopping: "changer_run drv policy ch \<Longrightarrow> changer_run drv policy (handle_session_stopping s ch)"
| sessions: "changer_run drv policy ch \<Longrightarrow> changer_run drv policy (ch\<lparr>live := l, container := c\<rparr>)"
| process: "changer_run drv policy ch \<Longrightarrow> process_action drv policy ch = ret () ch' \<Longrightarrow> changer_run drv policy ch'"
| alarm: "changer_run drv policy ch \<Longrightarrow> preview_alarm drv ch = ret () ch' \<Longrightarrow> changer_run drv policy ch'"

lemmas call_defs = configure_def remove_session_configuration_def preview_base_configuration_def confirm_base_configuration_def set_base_configuration_def
  cancel_base_configuration_preview_def configure_for_hardware_change_def pause_display_config_processing_def resume_display_config_processing_def
  handle_focus_change_def handle_no_focus_def handle_session_stopping_def enqueue_def

lemma changer_run_inv:
  assumes "changer_run drv policy ch" "display_contract drv"
  shows "changer_inv ch"
  using assms(1)
proof (induction rule: changer_run.induct)
  case (start conf)
  show ?case by (simp add: changer_inv_def make_changer_def)
next
  case (process ch ch')
  then show ?case using run_action_inv [OF assms(2), of "ch\<lparr>action_queue := tl (action_queue ch)\<rparr>" policy "hd (action_queue ch)" "()" ch']
    by (auto simp: process_action_def ret_def split: if_splits list.splits)
next
  case (alarm ch ch')
  then show ?case using revert_preview_inv [OF assms(2), where ch = "ch\<lparr>preview_timeout := t\<rparr>" for t]
    by (auto simp: preview_alarm_def ret_def split: option.splits bool.splits)
qed (auto simp: call_defs inv_tell Let_def split: option.splits if_splits)

section \<open>What previews leave behind\<close>

text \<open>A preview that is confirmed is the base configuration and is shown, but is not marked as applied; the next change of
  the hardware is then not shown.\<close>

lemma confirmed_preview_is_not_marked:
  assumes "display_contract drv" "s \<in> live ch" "apply_config drv conf ch = ret () ch1"
  obtains ch2 ch3 where "run_action drv policy (Apply_preview s conf) ch = ret () ch2" "run_action drv policy (Set_base conf) ch2 = ret () ch3"
    "shown ch3 = conf" "base_configuration ch3 = conf" "\<not> base_configuration_applied ch3"
    "shown (hardware_change drv policy conf' ch3) = conf" "base_configuration (hardware_change drv policy conf' ch3) = policy conf'"
proof -
  have "shown ch1 = conf" "\<not> base_configuration_applied ch1"
    using apply_config_cases [OF assms(1), of conf ch] assms(3) by (metis (no_types, lifting) changer.select_convs(2,7) changer.surjective changer.update_convs(2,7,12) ret_throw_eq)+
  moreover have r: "run_action drv policy (Apply_preview s conf) ch = ret () (tell (Updated_for_session s conf) ch1)"
    using assms(2,3) by (simp add: ret_def)
  ultimately show ?thesis
    by (intro that [OF r, of "send_config_to_all_sessions conf (tell (Base_configuration_updated conf) ((tell (Updated_for_session s conf) ch1)\<lparr>base_configuration := conf\<rparr>))"])
      (simp_all add: hardware_change_def send_config_eq Let_def)
qed

text \<open>The alarm of a preview reverts it but leaves the preview in progress, so the next preview is refused.\<close>

lemma expired_preview_blocks_the_next:
  assumes "display_contract drv" "preview_timeout ch = Some (s, True)" "preview_alarm drv ch = ret () ch'" "config_valid conf"
  shows "preview_base_configuration t conf ch' = throw (Runtime_error ''Base display configuration already in progress'') ch'"
proof -
  have "preview_timeout ch' = Some (s, False)"
    by (rule apply_base_config_cases [OF assms(1), of "ch\<lparr>preview_timeout := Some (s, False)\<rparr>"])
      (use assms(2,3) in \<open>auto simp: preview_alarm_def revert_preview_def split: if_splits\<close>)
  with assms(4) show ?thesis by (simp add: preview_base_configuration_def)
qed

text \<open>Removing a session's configuration shows the base configuration even when another session has the focus by the time
  the action runs.\<close>

lemma removal_ignores_the_focus:
  assumes "s \<in> live ch" "apply_base_config drv ch = ret () ch'"
  shows "run_action drv policy (Unapply_session_config s) ch = ret () ch'"
  using assms by (simp add: or_send_error_def ret_def)

text \<open>A display that accepts every configuration but the one with no outputs, and always has to be configured anew.\<close>

definition sample_driver :: display_driver where
  "sample_driver = \<lparr>drv_apply_if_preserves = (\<lambda>cur conf. (Inr False, cur)),
     drv_configure = (\<lambda>cur conf. if outputs conf = [] then (Some (Runtime_error ''no outputs''), cur) else (None, conf))\<rparr>"

lemma sample_driver_contract: "display_contract sample_driver"
  by (auto simp: display_contract_def sample_driver_def)

definition other_config :: display_config where
  "other_config = clone_policy sample_config"

text \<open>A session with a configuration of its own, about to be focused.\<close>

definition sample_changer :: "nat changer" where
  "sample_changer = state_of (configure 7 other_config ((make_changer sample_config)\<lparr>live := {7}, container := [7]\<rparr>))"

lemma sample_changer_run: "changer_run sample_driver id sample_changer"
  unfolding sample_changer_def by (intro changer_run.configure changer_run.sessions changer_run.start)

lemma other_config_valid: "config_valid other_config"
  by (simp add: other_config_def config_valid_iff clone_policy_def sample_config_def sample_output_def clone_output_def output_valid_def
      select_mode_index_def select_opaque_format_def contains_alpha_def alpha_channel_depth_def valid_pixel_format_def)

lemma sample_changer_eq:
  "config_map sample_changer = [7 \<mapsto> other_config]" "live sample_changer = {7}" "shown sample_changer = sample_config"
  "base_configuration sample_changer = sample_config" "base_configuration_applied sample_changer"
  "change_log sample_changer = [Initial_configuration sample_config, Session_configuration_applied 7 other_config]"
  by (simp_all add: sample_changer_def configure_def other_config_valid make_changer_def lock_def tell_def Let_def)

section \<open>Properties\<close>

text \<open>
  C10: Whatever sessions, the shell, the hardware and the main loop do, when the mediator believes that the base configuration is applied it is the
  one the display shows, unless a configuration could neither be applied nor rolled back.
\<close>

theorem base_configuration_is_shown_when_marked:
  assumes "changer_run drv policy ch" "display_contract drv" "calm ch" "base_configuration_applied ch"
  shows "shown ch = base_configuration ch"
  using changer_run_inv [OF assms(1,2)] assms(3,4) by (simp add: changer_inv_def)

theorem base_configuration_is_shown_when_marked_witness:
  "base_configuration_applied sample_changer \<and> shown sample_changer = base_configuration sample_changer"
  using base_configuration_is_shown_when_marked [OF sample_changer_run sample_driver_contract]
  by (simp add: sample_changer_eq calm_def)

text \<open>
  C28: When the focus goes to a session and no catastrophic error occurs, what happens depends only on whether the display takes the configuration that is then
  due, the session's own if it has one and the base configuration otherwise.  If the display takes it, or if nothing is to be changed because the base configuration is due and is
  applied already, the display shows it and the session is sent no error.  If the display refuses it, the display shows what it showed before and the failure
  is reported; the session receives an error when the configuration was its own, and the exception leaves the action when it was the base configuration.
\<close>

theorem focus_shows_the_sessions_configuration:
  fixes ch :: "'s changer" and s :: 's and drv :: display_driver
  assumes "changer_run drv policy ch" "display_contract drv" "s \<in> live ch"
  defines "r \<equiv> run_action drv policy (Focus_change s) ch"
    and "due \<equiv> (case config_map ch s of Some conf \<Rightarrow> conf | None \<Rightarrow> base_configuration ch)"
  assumes "calm (state_of r)"
  shows "focused_session (state_of r) = Some s \<and>
    (if config_map ch s = None \<and> base_configuration_applied ch \<or> accepts drv (shown ch) due
     then result_of r = Inr () \<and> shown (state_of r) = due \<and>
       (\<exists>l. change_log (state_of r) = change_log ch @ l \<and> Send_error s \<notin> set l)
     else shown (state_of r) = shown ch \<and>
       (\<exists>l e. change_log (state_of r) = change_log ch @ l \<and> Configuration_failed due e \<in> set l \<and>
          (if config_map ch s = None then result_of r = Inl e else result_of r = Inr () \<and> last l = Send_error s)))"
proof (cases "config_map ch s = None \<and> base_configuration_applied ch")
  case True
  then have e: "r = ret () (ch\<lparr>focused_session := Some s\<rparr>)" using assms(3) by (simp add: r_def focus_change_handler_def Let_def)
  then have "shown ch = base_configuration ch" using changer_run_inv [OF assms(1,2)] True assms(6) by (simp add: changer_inv_def)
  with True e show ?thesis by (simp add: due_def)
next
  case False
  let ?ch = "ch\<lparr>focused_session := Some s\<rparr>"
  have e: "r = (if config_map ch s = None then and_then (apply_config drv due ?ch) (\<lambda>_ ch1. ret () (ch1\<lparr>base_configuration_applied := True\<rparr>)) id
      else or_send_error s (apply_config drv due ?ch))"
    using False assms(3) by (auto simp: r_def due_def focus_change_handler_def apply_base_config_def Let_def split: option.split)
  show ?thesis
  proof (cases rule: apply_config_cases [OF assms(2), of due ?ch])
    case (1 l)
    then have "accepts drv (shown ch) due" using apply_config_accepts [of drv due ?ch] by auto
    moreover have "Send_error s \<notin> set l" by (rule 1(4))
    ultimately show ?thesis using 1(1) False by (simp add: e or_send_error_simps)
  next
    case (2 l x)
    then have "\<not> accepts drv (shown ch) due" using apply_config_accepts [of drv due ?ch] by auto
    then show ?thesis using 2 False by (auto simp: e or_send_error_simps)
  next
    case (3 l x now)
    then have "\<not> calm (state_of r)" by (simp add: e or_send_error_simps calm_def)
    with assms(6) show ?thesis by simp
  qed
qed

theorem focus_shows_the_sessions_configuration_witness:
  "shown (state_of (run_action sample_driver id (Focus_change 7) sample_changer)) = other_config \<and>
   result_of (run_action sample_driver id (Focus_change 7) sample_changer) = Inr ()"
proof -
  let ?r = "run_action sample_driver id (Focus_change 7) sample_changer"
  have out: "outputs other_config \<noteq> []" by (simp add: other_config_def clone_policy_def sample_config_def)
  then have "calm (state_of ?r)"
    by (simp add: focus_change_handler_def sample_changer_eq or_send_error_def apply_config_def try_config_def configure_display_def sample_driver_def
        ret_def state_of_def tell_def calm_def Let_def)
  moreover have "accepts sample_driver sample_config other_config" using out by (simp add: accepts_def sample_driver_def)
  moreover have "7 \<in> live sample_changer" by (simp add: sample_changer_eq)
  ultimately show ?thesis using focus_shows_the_sessions_configuration [OF sample_changer_run sample_driver_contract, of 7] by (simp add: sample_changer_eq)
qed

text \<open>
  Applying a configuration either makes the display show it, or fails and leaves what the display shows and what the mediator believes as they were,
  with the failure reported, or fails with a catastrophic error reported.  The base configuration and the sessions' configurations stay as
  they were in every case.
\<close>

theorem failed_configuration_is_rolled_back:
  fixes ch :: "'s changer" and conf :: display_config
  assumes "display_contract drv"
  defines "ch' \<equiv> state_of (apply_config drv conf ch)"
  shows "base_configuration ch' = base_configuration ch \<and> config_map ch' = config_map ch \<and>
    (case result_of (apply_config drv conf ch) of
       Inr _ \<Rightarrow> shown ch' = conf \<and> \<not> base_configuration_applied ch' \<and> Configuration_applied conf \<in> set (change_log ch')
     | Inl e \<Rightarrow>
         shown ch' = shown ch \<and> base_configuration_applied ch' = base_configuration_applied ch \<and> Configuration_failed conf e \<in> set (change_log ch') \<or>
         list_ex catastrophic (change_log ch'))"
  unfolding ch'_def by (rule apply_config_cases [OF assms(1), of conf ch]) auto

theorem failed_configuration_is_rolled_back_witness:
  "result_of (apply_config sample_driver \<lparr>cards = [], outputs = []\<rparr> (make_changer sample_config :: nat changer)) = Inl (Runtime_error ''no outputs'') \<and>
   shown (state_of (apply_config sample_driver \<lparr>cards = [], outputs = []\<rparr> (make_changer sample_config :: nat changer))) = sample_config"
proof -
  let ?a = "apply_config sample_driver \<lparr>cards = [], outputs = []\<rparr> (make_changer sample_config :: nat changer)"
  have "result_of ?a = Inl (Runtime_error ''no outputs'')" "\<not> list_ex catastrophic (change_log (state_of ?a))"
    by (simp_all add: apply_config_def try_config_def configure_display_def sample_driver_def sample_config_def configuration_has_new_outputs_enabled_def
        make_changer_def throw_def ret_def tell_def Let_def result_of_def state_of_def)
  moreover have "shown (make_changer sample_config :: nat changer) = sample_config" by (simp add: make_changer_def)
  ultimately show ?thesis
    using failed_configuration_is_rolled_back [OF sample_driver_contract, of "\<lparr>cards = [], outputs = []\<rparr>" "make_changer sample_config :: nat changer"] by simp
qed

end
