(* ===== verification/Decoration.thy ===== *)
theory Decoration
  imports Window_Info "HOL-Library.AList"
begin

text \<open>
  The server-side decorations of a window: their geometry, \<open>src/server/shell/decoration/window.cpp\<close>, and the input they react to,
  \<open>src/server/shell/decoration/input.cpp\<close>.  The twelve widgets of a decoration are numbered in the order the code creates them; a pointer
  and any number of touches are over at most one widget each.  What the decoration is asked to do is recorded in order.  Drawing is left out.
\<close>

section \<open>Geometry\<close>

record static_geometry =
  sg_titlebar_height :: int
  sg_side_border_width :: int
  sg_bottom_border_height :: int
  sg_resize_corner_input_size :: extent
  sg_button_width :: int
  sg_padding_between_buttons :: int

datatype border_type = Border_full | Border_titlebar | Border_none

fun border_type_for :: "window_type \<Rightarrow> window_state \<Rightarrow> border_type" where
  "border_type_for ty st =
     (if ty \<in> {Type_normal, Type_utility, Type_dialog, Type_freestyle, Type_satellite}
      then case st of
          State_unknown \<Rightarrow> Border_full | State_restored \<Rightarrow> Border_full
        | State_maximized \<Rightarrow> Border_titlebar | State_vertmaximized \<Rightarrow> Border_titlebar | State_horizmaximized \<Rightarrow> Border_titlebar
        | State_minimized \<Rightarrow> Border_none | State_fullscreen \<Rightarrow> Border_none | State_hidden \<Rightarrow> Border_none | State_attached \<Rightarrow> Border_none
      else Border_none)"

record deco_window =
  dw_geometry :: static_geometry
  dw_size :: extent
  dw_border :: border_type

definition make_deco_window :: "static_geometry \<Rightarrow> extent \<Rightarrow> window_type \<Rightarrow> window_state \<Rightarrow> deco_window" where
  "make_deco_window g s ty st = \<lparr>dw_geometry = g, dw_size = s, dw_border = border_type_for ty st\<rparr>"

definition titlebar_width :: "deco_window \<Rightarrow> int" where
  "titlebar_width w = (case dw_border w of Border_full \<Rightarrow> width (dw_size w) | Border_titlebar \<Rightarrow> width (dw_size w) | Border_none \<Rightarrow> 0)"

definition titlebar_height :: "deco_window \<Rightarrow> int" where
  "titlebar_height w = (case dw_border w of
     Border_full \<Rightarrow> sg_titlebar_height (dw_geometry w) | Border_titlebar \<Rightarrow> sg_titlebar_height (dw_geometry w) | Border_none \<Rightarrow> 0)"

definition side_border_width :: "deco_window \<Rightarrow> int" where
  "side_border_width w = (case dw_border w of Border_full \<Rightarrow> sg_side_border_width (dw_geometry w) | Border_titlebar \<Rightarrow> 0 | Border_none \<Rightarrow> 0)"

definition bottom_border_width :: "deco_window \<Rightarrow> int" where
  "bottom_border_width w = titlebar_width w"

definition bottom_border_height :: "deco_window \<Rightarrow> int" where
  "bottom_border_height w = (case dw_border w of Border_full \<Rightarrow> sg_bottom_border_height (dw_geometry w) | Border_titlebar \<Rightarrow> 0 | Border_none \<Rightarrow> 0)"

definition side_border_height :: "deco_window \<Rightarrow> int" where
  "side_border_height w = (case dw_border w of
     Border_full \<Rightarrow> height (dw_size w) - titlebar_height w - bottom_border_height w | Border_titlebar \<Rightarrow> 0 | Border_none \<Rightarrow> 0)"

definition titlebar_rect :: "deco_window \<Rightarrow> rectangle" where
  "titlebar_rect w = Rectangle (Point 0 0) (Size (titlebar_width w) (titlebar_height w))"

definition left_border_rect :: "deco_window \<Rightarrow> rectangle" where
  "left_border_rect w = Rectangle (Point 0 (titlebar_height w)) (Size (side_border_width w) (side_border_height w))"

definition right_border_rect :: "deco_window \<Rightarrow> rectangle" where
  "right_border_rect w = Rectangle (Point (width (dw_size w) - side_border_width w) (titlebar_height w)) (Size (side_border_width w) (side_border_height w))"

definition bottom_border_rect :: "deco_window \<Rightarrow> rectangle" where
  "bottom_border_rect w = Rectangle (Point 0 (height (dw_size w) - bottom_border_height w)) (Size (bottom_border_width w) (bottom_border_height w))"

definition button_rect :: "deco_window \<Rightarrow> nat \<Rightarrow> rectangle" where
  "button_rect w n =
     (let titlebar = titlebar_rect w;
          g = dw_geometry w;
          x = right titlebar - side_border_width w - int n * (sg_button_width g + sg_padding_between_buttons g) - sg_button_width g
      in Rectangle (Point x (top_y titlebar)) (Size (sg_button_width g) (height (rsize titlebar))))"

section \<open>Widgets\<close>

datatype button_state = Button_up | Button_hovered | Button_down

datatype button_function = Close_button | Maximize_button | Minimize_button

datatype resize_edge = Edge_none | Edge_west | Edge_east | Edge_north | Edge_south | Edge_northwest | Edge_northeast | Edge_southwest | Edge_southeast

text \<open>A widget is a button or an edge; the edge \<open>Edge_none\<close> is the title bar, which moves the window.\<close>

datatype widget_kind = Button_widget button_function | Edge_widget resize_edge

record widget =
  wd_kind :: widget_kind
  wd_rect :: rectangle
  wd_state :: button_state

record device =
  dev_location :: point
  dev_pressed :: bool
  dev_active :: "nat option"

datatype deco_request =
    Input_state_updated | Request_close | Request_toggle_maximize | Request_minimize
  | Request_move int | Request_resize int resize_edge | Set_cursor string

record input_manager =
  im_widgets :: "widget list"
  im_shape :: "rectangle list"
  im_event_timestamp :: int
  im_previous_up :: int
  im_cursor_name :: string
  im_pointer :: "device option"
  im_touches :: "(int \<times> device) list"
  im_requests :: "deco_request list"

definition spawn :: "deco_request \<Rightarrow> input_manager \<Rightarrow> input_manager" where
  "spawn r m = m\<lparr>im_requests := im_requests m @ [r]\<rparr>"

definition resize_edge_rect :: "deco_window \<Rightarrow> resize_edge \<Rightarrow> rectangle" where
  "resize_edge_rect w e =
     (let corner = sg_resize_corner_input_size (dw_geometry w) in case e of
        Edge_none \<Rightarrow> titlebar_rect w
      | Edge_north \<Rightarrow> (titlebar_rect w)\<lparr>rsize := (rsize (titlebar_rect w))\<lparr>height := bottom_border_height w\<rparr>\<rparr>
      | Edge_south \<Rightarrow> bottom_border_rect w
      | Edge_west \<Rightarrow> left_border_rect w
      | Edge_east \<Rightarrow> right_border_rect w
      | Edge_northwest \<Rightarrow> Rectangle (Point 0 0) corner
      | Edge_northeast \<Rightarrow> Rectangle (Point (width (dw_size w) - width corner) 0) corner
      | Edge_southwest \<Rightarrow> Rectangle (Point 0 (height (dw_size w) - height corner)) corner
      | Edge_southeast \<Rightarrow> Rectangle (Point (width (dw_size w) - width corner) (height (dw_size w) - height corner)) corner)"

fun update_rects :: "deco_window \<Rightarrow> nat \<Rightarrow> widget list \<Rightarrow> widget list" where
  "update_rects w button_index [] = []"
| "update_rects w button_index (wd # wds) =
     (case wd_kind wd of
        Button_widget _ \<Rightarrow> wd\<lparr>wd_rect := button_rect w button_index\<rparr> # update_rects w (button_index + 1) wds
      | Edge_widget e \<Rightarrow> wd\<lparr>wd_rect := resize_edge_rect w e\<rparr> # update_rects w button_index wds)"

definition input_shape_of :: "deco_window \<Rightarrow> rectangle list" where
  "input_shape_of w = (case dw_border w of
     Border_full \<Rightarrow> [titlebar_rect w, left_border_rect w, right_border_rect w, bottom_border_rect w]
   | Border_titlebar \<Rightarrow> [titlebar_rect w]
   | Border_none \<Rightarrow> [empty_rectangle])"

definition update_window_state :: "deco_window \<Rightarrow> input_manager \<Rightarrow> input_manager" where
  "update_window_state w m = m\<lparr>im_widgets := update_rects w 0 (im_widgets m), im_shape := input_shape_of w\<rparr>"

definition cursor_name_for :: "resize_edge \<Rightarrow> string" where
  "cursor_name_for e = (case e of
     Edge_north \<Rightarrow> ''ns-resize'' | Edge_south \<Rightarrow> ''ns-resize''
   | Edge_east \<Rightarrow> ''ew-resize'' | Edge_west \<Rightarrow> ''ew-resize''
   | Edge_northeast \<Rightarrow> ''ne-resize'' | Edge_southwest \<Rightarrow> ''ne-resize''
   | Edge_northwest \<Rightarrow> ''se-resize'' | Edge_southeast \<Rightarrow> ''se-resize''
   | Edge_none \<Rightarrow> ''default'')"

definition set_cursor :: "resize_edge \<Rightarrow> input_manager \<Rightarrow> input_manager" where
  "set_cursor e m =
     (let cursor_name = cursor_name_for e
      in if cursor_name \<noteq> im_cursor_name m then spawn (Set_cursor cursor_name) (m\<lparr>im_cursor_name := cursor_name\<rparr>) else m)"

definition widget_kinds :: "widget_kind list" where
  "widget_kinds = [Button_widget Close_button, Button_widget Maximize_button, Button_widget Minimize_button,
     Edge_widget Edge_northwest, Edge_widget Edge_northeast, Edge_widget Edge_southwest, Edge_widget Edge_southeast,
     Edge_widget Edge_north, Edge_widget Edge_south, Edge_widget Edge_west, Edge_widget Edge_east, Edge_widget Edge_none]"

definition make_input_manager :: "deco_window \<Rightarrow> input_manager" where
  "make_input_manager w = update_window_state w (set_cursor Edge_none
     \<lparr>im_widgets = map (\<lambda>k. \<lparr>wd_kind = k, wd_rect = empty_rectangle, wd_state = Button_up\<rparr>) widget_kinds, im_shape = [],
      im_event_timestamp = 0, im_previous_up = 0, im_cursor_name = [], im_pointer = None, im_touches = [], im_requests = []\<rparr>)"

section \<open>What a widget does\<close>

definition widget_at :: "point \<Rightarrow> input_manager \<Rightarrow> nat option" where
  "widget_at p m = find (\<lambda>i. contains_point (wd_rect (im_widgets m ! i)) p) [0..<length (im_widgets m)]"

definition set_state :: "nat \<Rightarrow> button_state \<Rightarrow> input_manager \<Rightarrow> input_manager" where
  "set_state i st m = m\<lparr>im_widgets := (im_widgets m)[i := (im_widgets m ! i)\<lparr>wd_state := st\<rparr>]\<rparr>"

definition widget_enter :: "nat \<Rightarrow> input_manager \<Rightarrow> input_manager" where
  "widget_enter i m =
     (let m1 = set_state i Button_hovered m
      in spawn Input_state_updated (case wd_kind (im_widgets m1 ! i) of Edge_widget e \<Rightarrow> set_cursor e m1 | Button_widget _ \<Rightarrow> m1))"

definition widget_leave :: "nat \<Rightarrow> input_manager \<Rightarrow> input_manager" where
  "widget_leave i m = spawn Input_state_updated (set_cursor Edge_none (set_state i Button_up m))"

definition widget_down :: "nat \<Rightarrow> input_manager \<Rightarrow> input_manager" where
  "widget_down i m = spawn Input_state_updated (set_state i Button_down m)"

definition double_click_threshold :: int where
  "double_click_threshold = 250000000"

definition widget_up :: "nat \<Rightarrow> input_manager \<Rightarrow> input_manager" where
  "widget_up i m =
     (let wd = im_widgets m ! i;
          m1 = (if wd_state wd = Button_down
                then let m2 = (if im_previous_up m > 0 \<and> im_event_timestamp m - im_previous_up m \<le> double_click_threshold
                                  \<and> wd_kind wd = Edge_widget Edge_none
                               then spawn Request_toggle_maximize m else m)
                     in (case wd_kind wd of
                           Button_widget Close_button \<Rightarrow> spawn Request_close m2
                         | Button_widget Maximize_button \<Rightarrow> spawn Request_toggle_maximize m2
                         | Button_widget Minimize_button \<Rightarrow> spawn Request_minimize m2
                         | Edge_widget _ \<Rightarrow> m2)
                else m)
      in spawn Input_state_updated (set_state i Button_hovered m1))"

definition widget_drag :: "nat \<Rightarrow> input_manager \<Rightarrow> input_manager" where
  "widget_drag i m =
     (let wd = im_widgets m ! i;
          m1 = (if wd_state wd = Button_down
                then set_state i Button_up (case wd_kind wd of
                       Edge_widget e \<Rightarrow>
                         if e = Edge_none then spawn (Request_move (im_event_timestamp m)) m
                         else spawn (Request_resize (im_event_timestamp m) e) m
                     | Button_widget _ \<Rightarrow> spawn (Request_move (im_event_timestamp m)) m)
                else m)
      in spawn Input_state_updated m1)"

section \<open>Devices\<close>

definition process_enter :: "device \<Rightarrow> input_manager \<Rightarrow> device \<times> input_manager" where
  "process_enter d m =
     (let d1 = d\<lparr>dev_active := widget_at (dev_location d) m\<rparr>
      in (d1, case dev_active d1 of Some i \<Rightarrow> widget_enter i m | None \<Rightarrow> m))"

definition process_leave :: "device \<Rightarrow> input_manager \<Rightarrow> device \<times> input_manager" where
  "process_leave d m = (case dev_active d of Some i \<Rightarrow> (d\<lparr>dev_active := None\<rparr>, widget_leave i m) | None \<Rightarrow> (d, m))"

definition process_down :: "device \<Rightarrow> input_manager \<Rightarrow> device \<times> input_manager" where
  "process_down d m = (d, case dev_active d of Some i \<Rightarrow> widget_down i m | None \<Rightarrow> m)"

definition process_up :: "device \<Rightarrow> input_manager \<Rightarrow> device \<times> input_manager" where
  "process_up d m = (d, (case dev_active d of Some i \<Rightarrow> widget_up i m | None \<Rightarrow> m)\<lparr>im_previous_up := im_event_timestamp m\<rparr>)"

definition process_move :: "device \<Rightarrow> input_manager \<Rightarrow> device \<times> input_manager" where
  "process_move d m =
     (let new_widget = widget_at (dev_location d) m
      in if new_widget \<noteq> dev_active d
         then let m1 = (case dev_active d of Some i \<Rightarrow> widget_leave i m | None \<Rightarrow> m)
              in (d\<lparr>dev_active := new_widget\<rparr>, case new_widget of Some i \<Rightarrow> widget_enter i m1 | None \<Rightarrow> m1)
         else (d, m))"

definition process_drag :: "device \<Rightarrow> input_manager \<Rightarrow> device \<times> input_manager" where
  "process_drag d m =
     (let new_widget = widget_at (dev_location d) m;
          m1 = (case dev_active d of
                  Some i \<Rightarrow> let m2 = widget_drag i m in if new_widget \<noteq> dev_active d then widget_leave i m2 else m2
                | None \<Rightarrow> m)
      in (d\<lparr>dev_active := new_widget\<rparr>,
          case new_widget of Some i \<Rightarrow> if dev_active d \<noteq> new_widget then widget_enter i m1 else m1 | None \<Rightarrow> m1))"

section \<open>Events\<close>

text \<open>The three parts of \<open>pointer_event\<close>: the pointer appears, moves, and has its button pressed or released.\<close>

definition pointer_appears :: "point \<Rightarrow> bool \<Rightarrow> input_manager \<Rightarrow> device \<times> input_manager" where
  "pointer_appears location pressed m = (case im_pointer m of
     None \<Rightarrow> process_enter \<lparr>dev_location = location, dev_pressed = pressed, dev_active = None\<rparr> m
   | Some d \<Rightarrow> (d, m))"

definition pointer_moves :: "point \<Rightarrow> device \<times> input_manager \<Rightarrow> device \<times> input_manager" where
  "pointer_moves location r =
     (if dev_location (fst r) \<noteq> location
      then let d = (fst r)\<lparr>dev_location := location\<rparr> in if dev_pressed d then process_drag d (snd r) else process_move d (snd r)
      else r)"

definition pointer_presses :: "bool \<Rightarrow> device \<times> input_manager \<Rightarrow> device \<times> input_manager" where
  "pointer_presses pressed r =
     (if dev_pressed (fst r) \<noteq> pressed
      then let d = (fst r)\<lparr>dev_pressed := pressed\<rparr> in if pressed then process_down d (snd r) else process_up d (snd r)
      else r)"

definition pointer_event :: "int \<Rightarrow> point \<Rightarrow> bool \<Rightarrow> input_manager \<Rightarrow> input_manager" where
  "pointer_event timestamp location pressed m0 =
     (let m = m0\<lparr>im_event_timestamp := timestamp\<rparr>;
          (d, m1) = pointer_presses pressed (pointer_moves location (pointer_appears location pressed m))
      in m1\<lparr>im_pointer := Some d\<rparr>)"

definition pointer_leave :: "int \<Rightarrow> input_manager \<Rightarrow> input_manager" where
  "pointer_leave timestamp m0 =
     (let m = m0\<lparr>im_event_timestamp := timestamp\<rparr>
      in (case im_pointer m of Some d \<Rightarrow> snd (process_leave d m) | None \<Rightarrow> m)\<lparr>im_pointer := None\<rparr>)"

definition touch_event :: "int \<Rightarrow> int \<Rightarrow> point \<Rightarrow> input_manager \<Rightarrow> input_manager" where
  "touch_event i timestamp location m0 =
     (let m = m0\<lparr>im_event_timestamp := timestamp\<rparr>;
          (d1, m1) = (case map_of (im_touches m) i of
              None \<Rightarrow> let (d, m') = process_enter \<lparr>dev_location = location, dev_pressed = False, dev_active = None\<rparr> m
                      in process_down (d\<lparr>dev_pressed := True\<rparr>) m'
            | Some d \<Rightarrow> (d, m));
          (d2, m2) = (if dev_location d1 \<noteq> location then process_drag (d1\<lparr>dev_location := location\<rparr>) m1 else (d1, m1))
      in m2\<lparr>im_touches := AList.update i d2 (im_touches m2)\<rparr>)"

definition touch_up :: "int \<Rightarrow> int \<Rightarrow> input_manager \<Rightarrow> input_manager" where
  "touch_up i timestamp m0 =
     (let m = m0\<lparr>im_event_timestamp := timestamp\<rparr>
      in case map_of (im_touches m) i of
           Some d \<Rightarrow> let (d1, m1) = process_up d m; (d2, m2) = process_leave d1 m1 in m2\<lparr>im_touches := AList.delete i (im_touches m2)\<rparr>
         | None \<Rightarrow> m)"

section \<open>The decoration's surface\<close>

text \<open>
  \<open>src/server/shell/decoration/basic_decoration.cpp\<close>: the surface that carries the decoration is changed only where the window or the
  input state did.  The window's focus and name only matter to the drawing of the buffers.
\<close>

record input_state =
  is_buttons :: "(button_function \<times> button_state \<times> rectangle) list"
  is_shape :: "rectangle list"

definition input_state_of :: "input_manager \<Rightarrow> input_state" where
  "input_state_of m = \<lparr>is_buttons = concat (map (\<lambda>wd. case wd_kind wd of Button_widget f \<Rightarrow> [(f, wd_state wd, wd_rect wd)] | Edge_widget _ \<Rightarrow> []) (im_widgets m)),
     is_shape = im_shape m\<rparr>"

datatype deco_stream = Titlebar_stream | Left_border_stream | Right_border_stream | Bottom_border_stream

record decoration =
  dc_window :: deco_window
  dc_input :: input_manager
  dc_input_state :: input_state
  dc_margins :: "int \<times> int \<times> int \<times> int"
  dc_surface_size :: extent
  dc_surface_shape :: "rectangle list"
  dc_surface_streams :: "(deco_stream \<times> displacement \<times> extent) list"

definition window_updated :: "deco_window option \<Rightarrow> deco_window \<Rightarrow> (deco_window \<Rightarrow> deco_window \<Rightarrow> bool) list \<Rightarrow> bool" where
  "window_updated old current comparisons = (case old of None \<Rightarrow> True | Some w \<Rightarrow> list_ex (\<lambda>same. \<not> same w current) comparisons)"

abbreviation same_by :: "('w \<Rightarrow> 'a) \<Rightarrow> 'w \<Rightarrow> 'w \<Rightarrow> bool" where
  "same_by getter a b \<equiv> getter a = getter b"

definition emplace :: "deco_stream \<Rightarrow> rectangle \<Rightarrow> (deco_stream \<times> displacement \<times> extent) list" where
  "emplace st r = (if width (rsize r) > 0 \<and> height (rsize r) > 0
     then [(st, Displacement (px (top_left r)) (py (top_left r)), rsize r)] else [])"

definition streams_of :: "deco_window \<Rightarrow> (deco_stream \<times> displacement \<times> extent) list" where
  "streams_of w = (case dw_border w of
     Border_full \<Rightarrow> emplace Titlebar_stream (titlebar_rect w) @ emplace Left_border_stream (left_border_rect w) @
       emplace Right_border_stream (right_border_rect w) @ emplace Bottom_border_stream (bottom_border_rect w)
   | Border_titlebar \<Rightarrow> emplace Titlebar_stream (titlebar_rect w)
   | Border_none \<Rightarrow> [])"

definition update :: "deco_window option \<Rightarrow> input_state option \<Rightarrow> decoration \<Rightarrow> decoration" where
  "update previous_window previous_input dc =
     (let w = dc_window dc;
          dc1 = (if window_updated previous_window w [same_by titlebar_height, same_by side_border_width, same_by bottom_border_height]
                 then dc\<lparr>dc_margins := (titlebar_height w, side_border_width w, bottom_border_height w, side_border_width w)\<rparr> else dc);
          dc2 = (if window_updated previous_window w [same_by dw_size] then dc1\<lparr>dc_surface_size := dw_size w\<rparr> else dc1);
          dc3 = (if (case previous_input of None \<Rightarrow> True | Some old \<Rightarrow> is_shape old \<noteq> is_shape (dc_input_state dc2))
                 then dc2\<lparr>dc_surface_shape := is_shape (dc_input_state dc2)\<rparr> else dc2)
      in if window_updated previous_window w [same_by dw_border, same_by titlebar_rect, same_by left_border_rect, same_by right_border_rect, same_by bottom_border_rect]
         then dc3\<lparr>dc_surface_streams := streams_of w\<rparr> else dc3)"

definition make_decoration :: "deco_window \<Rightarrow> decoration" where
  "make_decoration w =
     (let m = make_input_manager w
      in update None None \<lparr>dc_window = w, dc_input = m, dc_input_state = input_state_of m, dc_margins = (0, 0, 0, 0),
           dc_surface_size = dw_size w, dc_surface_shape = [], dc_surface_streams = []\<rparr>)"

definition window_state_updated :: "deco_window \<Rightarrow> decoration \<Rightarrow> decoration" where
  "window_state_updated w dc =
     (let m = update_window_state w (dc_input dc)
      in update (Some (dc_window dc)) (Some (dc_input_state dc)) (dc\<lparr>dc_window := w, dc_input := m, dc_input_state := input_state_of m\<rparr>))"

definition input_state_updated :: "decoration \<Rightarrow> decoration" where
  "input_state_updated dc =
     update (Some (dc_window dc)) (Some (dc_input_state dc)) (dc\<lparr>dc_input_state := input_state_of (dc_input dc)\<rparr>)"

text \<open>The state a window is asked to take by \<open>request_toggle_maximize\<close>.\<close>

definition request_toggle_maximize :: "window_state \<Rightarrow> window_state" where
  "request_toggle_maximize st = (if st = State_maximized then State_restored else State_maximized)"

section \<open>What the helpers leave alone\<close>

lemma spawn_sel [simp]:
  "im_widgets (spawn r m) = im_widgets m" "im_pointer (spawn r m) = im_pointer m" "im_touches (spawn r m) = im_touches m"
  "im_event_timestamp (spawn r m) = im_event_timestamp m" "im_previous_up (spawn r m) = im_previous_up m" "im_requests (spawn r m) = im_requests m @ [r]"
  by (simp_all add: spawn_def)

lemma set_state_sel [simp]:
  "im_pointer (set_state i st m) = im_pointer m" "im_touches (set_state i st m) = im_touches m" "im_requests (set_state i st m) = im_requests m"
  "im_event_timestamp (set_state i st m) = im_event_timestamp m" "length (im_widgets (set_state i st m)) = length (im_widgets m)"
  by (simp_all add: set_state_def)

lemma set_cursor_sel [simp]:
  "im_widgets (set_cursor e m) = im_widgets m" "im_pointer (set_cursor e m) = im_pointer m" "im_touches (set_cursor e m) = im_touches m"
  by (simp_all add: set_cursor_def Let_def)

text \<open>The devices stay as they are while a widget reacts.\<close>

definition keeps_devices :: "(input_manager \<Rightarrow> input_manager) \<Rightarrow> bool" where
  "keeps_devices f \<longleftrightarrow> (\<forall>m. im_pointer (f m) = im_pointer m \<and> im_touches (f m) = im_touches m \<and> length (im_widgets (f m)) = length (im_widgets m))"

lemma widget_keeps_devices:
  "keeps_devices (widget_enter i)" "keeps_devices (widget_leave i)" "keeps_devices (widget_down i)" "keeps_devices (widget_up i)" "keeps_devices (widget_drag i)"
  by (auto simp: keeps_devices_def widget_enter_def widget_leave_def widget_down_def widget_up_def widget_drag_def Let_def
      split: widget_kind.splits button_function.splits)

lemmas widget_devices [simp] = widget_keeps_devices [unfolded keeps_devices_def, rule_format, THEN conjunct1]
  widget_keeps_devices [unfolded keeps_devices_def, rule_format, THEN conjunct2, THEN conjunct1]
  widget_keeps_devices [unfolded keeps_devices_def, rule_format, THEN conjunct2, THEN conjunct2]

lemmas process_defs = process_enter_def process_leave_def process_down_def process_up_def process_move_def process_drag_def

lemma process_devices [simp]:
  "im_pointer (snd (process_enter d m)) = im_pointer m" "im_touches (snd (process_enter d m)) = im_touches m"
  "im_pointer (snd (process_leave d m)) = im_pointer m" "im_touches (snd (process_leave d m)) = im_touches m"
  "im_pointer (snd (process_down d m)) = im_pointer m" "im_touches (snd (process_down d m)) = im_touches m"
  "im_pointer (snd (process_up d m)) = im_pointer m" "im_touches (snd (process_up d m)) = im_touches m"
  "im_pointer (snd (process_move d m)) = im_pointer m" "im_touches (snd (process_move d m)) = im_touches m"
  "im_pointer (snd (process_drag d m)) = im_pointer m" "im_touches (snd (process_drag d m)) = im_touches m"
  by (auto simp: process_defs Let_def split: option.split)

section \<open>A highlighted widget has a device over it\<close>

definition highlights :: "nat set \<Rightarrow> input_manager \<Rightarrow> bool" where
  "highlights A m \<longleftrightarrow> (\<forall>i < length (im_widgets m). wd_state (im_widgets m ! i) \<noteq> Button_up \<longrightarrow> i \<in> A)"

abbreviation over :: "device \<Rightarrow> nat set" where
  "over d \<equiv> set_option (dev_active d)"

lemma highlights_spawn [simp]: "highlights A (spawn r m) = highlights A m" "highlights A (set_cursor e m) = highlights A m"
  "highlights A (m\<lparr>im_previous_up := t\<rparr>) = highlights A m" "highlights A (m\<lparr>im_event_timestamp := t\<rparr>) = highlights A m"
  "highlights A (m\<lparr>im_pointer := q\<rparr>) = highlights A m" "highlights A (m\<lparr>im_touches := q'\<rparr>) = highlights A m"
  by (simp_all add: highlights_def)

lemma highlights_set_state: "highlights (insert i A) m \<Longrightarrow> highlights (insert i A) (set_state i st m)"
  by (auto simp: highlights_def set_state_def nth_list_update)

lemma highlights_set_up:
  assumes "highlights (insert i A) m"
  shows "highlights A (set_state i Button_up m)"
  unfolding highlights_def
proof (intro allI impI)
  fix j
  assume j: "j < length (im_widgets (set_state i Button_up m))" "wd_state (im_widgets (set_state i Button_up m) ! j) \<noteq> Button_up"
  then have "j \<noteq> i" by (auto simp: set_state_def)
  with j assms show "j \<in> A" by (auto simp: highlights_def set_state_def)
qed

lemma highlights_mono: "highlights A m \<Longrightarrow> A \<subseteq> B \<Longrightarrow> highlights B m"
  by (auto simp: highlights_def)

lemma highlights_widgets:
  "highlights A m \<Longrightarrow> highlights (insert i A) (widget_enter i m)"
  "highlights (insert i A) m \<Longrightarrow> highlights A (widget_leave i m)"
  "highlights (insert i A) m \<Longrightarrow> highlights (insert i A) (widget_down i m)"
  "highlights (insert i A) m \<Longrightarrow> highlights (insert i A) (widget_up i m)"
  "highlights (insert i A) m \<Longrightarrow> highlights (insert i A) (widget_drag i m)"
  using highlights_mono [of A m "insert i A"]
  by (auto simp: widget_enter_def widget_leave_def widget_down_def widget_up_def widget_drag_def Let_def
      intro!: highlights_set_state highlights_set_up split: widget_kind.split button_function.split)

lemma highlights_process:
  "highlights (over d \<union> A) m \<Longrightarrow> highlights A (snd (process_leave d m))"
  "highlights (over d \<union> A) m \<Longrightarrow> highlights (over d \<union> A) (snd (process_down d m))"
  "highlights (over d \<union> A) m \<Longrightarrow> highlights (over d \<union> A) (snd (process_up d m))"
  "highlights (over d \<union> A) m \<Longrightarrow> highlights (over (fst (process_move d m)) \<union> A) (snd (process_move d m))"
  "highlights (over d \<union> A) m \<Longrightarrow> highlights (over (fst (process_drag d m)) \<union> A) (snd (process_drag d m))"
  "highlights A m \<Longrightarrow> highlights (over (fst (process_enter d m)) \<union> A) (snd (process_enter d m))"
  by (cases "dev_active d"; auto simp: process_defs Let_def intro!: highlights_widgets split: option.split)+

lemma process_same_device [simp]: "fst (process_down d m) = d" "fst (process_up d m) = d"
  by (simp_all add: process_defs)

definition touch_over :: "(int \<times> device) list \<Rightarrow> nat set" where
  "touch_over ts = (\<Union>(i, d)\<in>set ts. over d)"

definition pointer_over :: "device option \<Rightarrow> nat set" where
  "pointer_over q = (case q of Some d \<Rightarrow> over d | None \<Rightarrow> {})"

definition deco_inv :: "input_manager \<Rightarrow> bool" where
  "deco_inv m \<longleftrightarrow> highlights (pointer_over (im_pointer m) \<union> touch_over (im_touches m)) m \<and> distinct (map fst (im_touches m))"

lemma touch_over_update:
  "distinct (map fst ts) \<Longrightarrow> map_of ts i = Some d \<Longrightarrow> touch_over ts = over d \<union> touch_over (AList.delete i ts)"
  "distinct (map fst ts) \<Longrightarrow> touch_over (AList.update i d' ts) = over d' \<union> touch_over (AList.delete i ts)"
proof -
  assume d: "distinct (map fst ts)"
  have eq: "touch_over ts = (\<Union>i\<in>dom (map_of ts). over (the (map_of ts i)))" if "distinct (map fst ts)" for ts
    using that by (force simp: touch_over_def dom_def)
  have upd: "distinct (map fst (AList.update i d' ts))" and del: "distinct (map fst (AList.delete i ts))"
    using d by (simp_all add: distinct_update distinct_delete)
  show "touch_over (AList.update i d' ts) = over d' \<union> touch_over (AList.delete i ts)"
    unfolding eq [OF upd] eq [OF del] by (auto simp: update_conv' delete_conv' split: if_splits)
  show "touch_over ts = over d \<union> touch_over (AList.delete i ts)" if "map_of ts i = Some d"
    unfolding eq [OF d] eq [OF del] using that by (auto simp: delete_conv' split: if_splits)
qed

lemma pointer_event_inv:
  assumes "deco_inv m"
  shows "deco_inv (pointer_event t p pr m)"
proof -
  let ?m = "m\<lparr>im_event_timestamp := t\<rparr>" and ?T = "touch_over (im_touches m)"
  define r1 where "r1 = pointer_appears p pr ?m"
  define r2 where "r2 = pointer_moves p r1"
  define r3 where "r3 = pointer_presses pr r2"
  have eq: "pointer_event t p pr m = (snd r3)\<lparr>im_pointer := Some (fst r3)\<rparr>"
    by (simp add: pointer_event_def r1_def r2_def r3_def split_beta Let_def)
  have t: "im_touches (snd r1) = im_touches m" "im_touches (snd r2) = im_touches (snd r1)" "im_touches (snd r3) = im_touches (snd r2)"
    by (auto simp: r1_def r2_def r3_def pointer_appears_def pointer_moves_def pointer_presses_def Let_def split: option.split)
  have 1: "highlights (over (fst r1) \<union> ?T) (snd r1)"
    using assms highlights_process(6) [of ?T ?m] by (auto simp: r1_def pointer_appears_def deco_inv_def pointer_over_def split: option.splits)
  have 2: "highlights (over (fst r2) \<union> ?T) (snd r2)"
    using 1 highlights_process(4,5) [of "(fst r1)\<lparr>dev_location := p\<rparr>" ?T "snd r1"] by (auto simp: r2_def pointer_moves_def Let_def)
  have 3: "highlights (over (fst r3) \<union> ?T) (snd r3)"
    using 2 highlights_process(2,3) [of "(fst r2)\<lparr>dev_pressed := pr\<rparr>" ?T "snd r2"] by (auto simp: r3_def pointer_presses_def Let_def)
  show ?thesis using 3 t assms unfolding eq by (simp add: deco_inv_def pointer_over_def)
qed

lemma pointer_leave_inv: "deco_inv m \<Longrightarrow> deco_inv (pointer_leave t m)"
  using highlights_process(1) [of "the (im_pointer m)" "touch_over (im_touches m)" "m\<lparr>im_event_timestamp := t\<rparr>"]
  by (auto simp: deco_inv_def pointer_leave_def pointer_over_def split: option.splits)

lemma touch_event_inv:
  assumes "deco_inv m"
  shows "deco_inv (touch_event i t p m)"
proof -
  let ?m = "m\<lparr>im_event_timestamp := t\<rparr>" and ?A = "touch_over (AList.delete i (im_touches m)) \<union> pointer_over (im_pointer m)"
  let ?new = "\<lparr>dev_location = p, dev_pressed = False, dev_active = None\<rparr>"
  define r0 where "r0 = process_enter ?new ?m"
  define r1 where "r1 = (case map_of (im_touches ?m) i of None \<Rightarrow> process_down ((fst r0)\<lparr>dev_pressed := True\<rparr>) (snd r0) | Some d \<Rightarrow> (d, ?m))"
  define r2 where "r2 = (if dev_location (fst r1) \<noteq> p then process_drag ((fst r1)\<lparr>dev_location := p\<rparr>) (snd r1) else r1)"
  have eq: "touch_event i t p m = (snd r2)\<lparr>im_touches := AList.update i (fst r2) (im_touches (snd r2))\<rparr>"
    unfolding touch_event_def r2_def r1_def r0_def Let_def split_beta by (cases "map_of (im_touches m) i") simp_all
  have t: "im_touches (snd r2) = im_touches m" "im_pointer (snd r2) = im_pointer m"
    by (auto simp: r0_def r1_def r2_def split: option.split)
  have d: "distinct (map fst (im_touches m))" using assms by (simp add: deco_inv_def)
  have 1: "highlights (over (fst r1) \<union> ?A) (snd r1)"
  proof (cases "map_of (im_touches m) i")
    case None
    then have "AList.delete i (im_touches m) = im_touches m" by (metis delete_conv' fun_upd_idem map_of_eq_None_iff delete_id)
    then have "highlights (over (fst r0) \<union> ?A) (snd r0)"
      using assms highlights_process(6) [of ?A ?m ?new] by (simp add: r0_def deco_inv_def Un_commute)
    then show ?thesis using None highlights_process(2) [of "(fst r0)\<lparr>dev_pressed := True\<rparr>" ?A "snd r0"] by (simp add: r1_def)
  next
    case (Some d')
    then show ?thesis using assms touch_over_update(1) [OF d Some] by (simp add: r1_def deco_inv_def Un_ac)
  qed
  have 2: "highlights (over (fst r2) \<union> ?A) (snd r2)"
    using 1 highlights_process(5) [of "(fst r1)\<lparr>dev_location := p\<rparr>" ?A "snd r1"] by (auto simp: r2_def)
  show ?thesis using 2 t d touch_over_update(2) [OF d, of i "fst r2"] unfolding eq by (simp add: deco_inv_def distinct_update Un_ac)
qed

lemma touch_up_inv:
  assumes "deco_inv m"
  shows "deco_inv (touch_up i t m)"
proof (cases "map_of (im_touches m) i")
  case None
  then show ?thesis using assms by (simp add: touch_up_def deco_inv_def)
next
  case (Some d)
  let ?m = "m\<lparr>im_event_timestamp := t\<rparr>" and ?A = "touch_over (AList.delete i (im_touches m)) \<union> pointer_over (im_pointer m)"
  have dd: "distinct (map fst (im_touches m))" using assms by (simp add: deco_inv_def)
  have "highlights (over d \<union> ?A) ?m" using assms touch_over_update(1) [OF dd Some] by (simp add: deco_inv_def Un_ac)
  from highlights_process(1) [OF highlights_process(3) [OF this]] have 2: "highlights ?A (snd (process_leave d (snd (process_up d ?m))))" .
  have "touch_up i t m = (snd (process_leave d (snd (process_up d ?m))))\<lparr>im_touches := AList.delete i (im_touches m)\<rparr>"
    using Some by (simp add: touch_up_def Let_def split_beta)
  then show ?thesis using 2 dd by (simp add: deco_inv_def distinct_delete Un_commute)
qed

lemma update_rects_state: "map wd_state (update_rects w n wds) = map wd_state wds" "map wd_kind (update_rects w n wds) = map wd_kind wds"
  by (induction w n wds rule: update_rects.induct) (auto split: widget_kind.split)

lemma update_window_state_inv: "deco_inv m \<Longrightarrow> deco_inv (update_window_state w m)"
proof -
  assume inv: "deco_inv m"
  have len: "length (update_rects w 0 (im_widgets m)) = length (im_widgets m)" using map_eq_imp_length_eq [OF update_rects_state(1)] .
  then have "wd_state (update_rects w 0 (im_widgets m) ! i) = wd_state (im_widgets m ! i)" if "i < length (im_widgets m)" for i
    using that update_rects_state(1) [of w 0 "im_widgets m"] by (metis nth_map)
  with inv len show ?thesis by (simp add: deco_inv_def highlights_def update_window_state_def)
qed

inductive deco_run :: "input_manager \<Rightarrow> bool" where
  start: "deco_run (make_input_manager w)"
| window: "deco_run m \<Longrightarrow> deco_run (update_window_state w m)"
| pointer: "deco_run m \<Longrightarrow> deco_run (pointer_event t p pr m)"
| leave: "deco_run m \<Longrightarrow> deco_run (pointer_leave t m)"
| touch: "deco_run m \<Longrightarrow> deco_run (touch_event i t p m)"
| up: "deco_run m \<Longrightarrow> deco_run (touch_up i t m)"

lemma deco_run_inv: "deco_run m \<Longrightarrow> deco_inv m"
proof (induction rule: deco_run.induct)
  case (start w)
  have "deco_inv (set_cursor Edge_none \<lparr>im_widgets = map (\<lambda>k. \<lparr>wd_kind = k, wd_rect = empty_rectangle, wd_state = Button_up\<rparr>) widget_kinds, im_shape = [],
      im_event_timestamp = 0, im_previous_up = 0, im_cursor_name = [], im_pointer = None, im_touches = [], im_requests = []\<rparr>)"
    by (simp add: deco_inv_def highlights_def)
  then show ?case unfolding make_input_manager_def by (rule update_window_state_inv)
qed (simp_all add: update_window_state_inv pointer_event_inv pointer_leave_inv touch_event_inv touch_up_inv)

section \<open>When a window is asked to close\<close>

definition closes :: "input_manager \<Rightarrow> nat" where
  "closes m = count_list (im_requests m) Request_close"

definition pressed_close :: "nat option \<Rightarrow> input_manager \<Rightarrow> bool" where
  "pressed_close a m \<longleftrightarrow> (case a of Some i \<Rightarrow> wd_state (im_widgets m ! i) = Button_down \<and> wd_kind (im_widgets m ! i) = Button_widget Close_button | None \<Rightarrow> False)"

lemma closes_spawn [simp]: "closes (spawn r m) = closes m + (if r = Request_close then 1 else 0)"
  by (simp add: closes_def)

lemma closes_quiet [simp]:
  "closes (set_state i st m) = closes m" "closes (set_cursor e m) = closes m" "closes (m\<lparr>im_event_timestamp := t\<rparr>) = closes m"
  "closes (m\<lparr>im_previous_up := t\<rparr>) = closes m" "closes (m\<lparr>im_pointer := q\<rparr>) = closes m" "closes (m\<lparr>im_touches := q'\<rparr>) = closes m"
  by (auto simp: closes_def set_cursor_def Let_def spawn_def)

lemma closes_widgets [simp]:
  "closes (widget_enter i m) = closes m" "closes (widget_leave i m) = closes m" "closes (widget_down i m) = closes m" "closes (widget_drag i m) = closes m"
  "closes (widget_up i m) = closes m + (if pressed_close (Some i) m then 1 else 0)"
  by (auto simp: widget_enter_def widget_leave_def widget_down_def widget_drag_def widget_up_def pressed_close_def Let_def
      split: widget_kind.split button_function.split)

lemma closes_process [simp]:
  "closes (snd (process_enter d m)) = closes m" "closes (snd (process_leave d m)) = closes m" "closes (snd (process_down d m)) = closes m"
  "closes (snd (process_move d m)) = closes m" "closes (snd (process_drag d m)) = closes m"
  "closes (snd (process_up d m)) = closes m + (if pressed_close (dev_active d) m then 1 else 0)"
  by (auto simp: process_defs Let_def split: option.split) (auto simp: pressed_close_def)

text \<open>Once a device has been dragged the widget under it is not pressed.\<close>

lemma not_down_after:
  "wd_state (im_widgets (widget_enter i m) ! i) = Button_down \<Longrightarrow> i \<ge> length (im_widgets m)"
  "wd_state (im_widgets (widget_drag i m) ! i) = Button_down \<Longrightarrow> i \<ge> length (im_widgets m)"
proof -
  have set_same: "wd_state (im_widgets (set_state i st m) ! i) = st" if "i < length (im_widgets m)" for st m
    using that by (simp add: set_state_def)
  show "wd_state (im_widgets (widget_enter i m) ! i) = Button_down \<Longrightarrow> i \<ge> length (im_widgets m)"
    using set_same [of m Button_hovered] by (force simp: widget_enter_def Let_def split: widget_kind.splits)
  show "wd_state (im_widgets (widget_drag i m) ! i) = Button_down \<Longrightarrow> i \<ge> length (im_widgets m)"
    by (rule ccontr) (auto simp: widget_drag_def Let_def set_same split: if_splits widget_kind.splits)
qed

lemma widget_at_less: "widget_at p m = Some i \<Longrightarrow> i < length (im_widgets m)"
  by (auto simp: widget_at_def find_Some_iff)

lemma dragged_not_pressed: "\<not> pressed_close (dev_active (fst (process_drag d m))) (snd (process_drag d m))"
proof (cases "widget_at (dev_location d) m")
  case (Some j)
  note j = widget_at_less [OF Some]
  show ?thesis
  proof (cases "dev_active d = Some j")
    case True
    then show ?thesis using Some j not_down_after(2) [of j m] by (auto simp: process_drag_def pressed_close_def Let_def)
  next
    case False
    then show ?thesis using Some j by (auto simp: process_drag_def pressed_close_def Let_def split: option.split dest!: not_down_after(1))
  qed
qed (simp add: process_drag_def pressed_close_def)

lemma dragged_pressed [simp]: "dev_pressed (fst (process_drag d m)) = dev_pressed d" "dev_pressed (fst (process_move d m)) = dev_pressed d"
  "dev_pressed (fst (process_enter d m)) = dev_pressed d" "dev_location (fst (process_enter d m)) = dev_location d"
  by (simp_all add: process_defs Let_def)

section \<open>The surface follows the window\<close>

definition deco_synced :: "decoration \<Rightarrow> bool" where
  "deco_synced dc \<longleftrightarrow> dc_margins dc = (titlebar_height (dc_window dc), side_border_width (dc_window dc), bottom_border_height (dc_window dc), side_border_width (dc_window dc)) \<and>
     dc_surface_size dc = dw_size (dc_window dc) \<and> dc_surface_shape dc = input_shape_of (dc_window dc) \<and>
     dc_surface_streams dc = streams_of (dc_window dc) \<and> is_shape (dc_input_state dc) = input_shape_of (dc_window dc) \<and>
     im_shape (dc_input dc) = input_shape_of (dc_window dc)"

lemma streams_of_cong:
  "dw_border a = dw_border b \<Longrightarrow> titlebar_rect a = titlebar_rect b \<Longrightarrow> left_border_rect a = left_border_rect b \<Longrightarrow>
     right_border_rect a = right_border_rect b \<Longrightarrow> bottom_border_rect a = bottom_border_rect b \<Longrightarrow> streams_of a = streams_of b"
  by (simp add: streams_of_def split: border_type.split)

lemma update_frame:
  "dc_window (update pw pi dc) = dc_window dc" "dc_input (update pw pi dc) = dc_input dc" "dc_input_state (update pw pi dc) = dc_input_state dc"
  by (simp_all add: update_def Let_def)

lemma update_full: "deco_synced (make_decoration w)"
  by (simp add: make_decoration_def update_def window_updated_def deco_synced_def input_state_of_def make_input_manager_def update_window_state_def Let_def)

lemma window_state_updated_synced:
  assumes "deco_synced dc"
  shows "deco_synced (window_state_updated w dc)"
proof -
  have "dc_surface_streams dc = streams_of w" if "dw_border (dc_window dc) = dw_border w" "titlebar_rect (dc_window dc) = titlebar_rect w"
    "left_border_rect (dc_window dc) = left_border_rect w" "right_border_rect (dc_window dc) = right_border_rect w" "bottom_border_rect (dc_window dc) = bottom_border_rect w"
    using streams_of_cong [OF that] assms by (simp add: deco_synced_def)
  then show ?thesis using assms
    by (simp add: window_state_updated_def update_def window_updated_def deco_synced_def input_state_of_def update_window_state_def Let_def)
qed

lemma input_state_updated_synced: "deco_synced dc \<Longrightarrow> deco_synced (input_state_updated dc)"
  by (simp add: input_state_updated_def update_def window_updated_def deco_synced_def input_state_of_def Let_def)

text \<open>Input only reaches the input manager; the decoration hears of it later.\<close>

inductive decoration_run :: "decoration \<Rightarrow> bool" where
  created: "decoration_run (make_decoration w)"
| window_changed: "decoration_run dc \<Longrightarrow> decoration_run (window_state_updated w dc)"
| input_noticed: "decoration_run dc \<Longrightarrow> decoration_run (input_state_updated dc)"
| pointer_input: "decoration_run dc \<Longrightarrow> decoration_run (dc\<lparr>dc_input := pointer_event t p pr (dc_input dc)\<rparr>)"
| pointer_gone: "decoration_run dc \<Longrightarrow> decoration_run (dc\<lparr>dc_input := pointer_leave t (dc_input dc)\<rparr>)"
| touch_input: "decoration_run dc \<Longrightarrow> decoration_run (dc\<lparr>dc_input := touch_event i t p (dc_input dc)\<rparr>)"
| touch_lifted: "decoration_run dc \<Longrightarrow> decoration_run (dc\<lparr>dc_input := touch_up i t (dc_input dc)\<rparr>)"

lemma shape_quiet [simp]: "im_shape (spawn r m) = im_shape m" "im_shape (set_state i st m) = im_shape m" "im_shape (set_cursor e m) = im_shape m"
  by (simp_all add: spawn_def set_state_def set_cursor_def Let_def)

lemma shape_widgets [simp]:
  "im_shape (widget_enter i m) = im_shape m" "im_shape (widget_leave i m) = im_shape m" "im_shape (widget_down i m) = im_shape m"
  "im_shape (widget_up i m) = im_shape m" "im_shape (widget_drag i m) = im_shape m"
  by (auto simp: widget_enter_def widget_leave_def widget_down_def widget_drag_def widget_up_def Let_def split: widget_kind.split button_function.split)

lemma shape_process [simp]:
  "im_shape (snd (process_enter d m)) = im_shape m" "im_shape (snd (process_leave d m)) = im_shape m" "im_shape (snd (process_down d m)) = im_shape m"
  "im_shape (snd (process_up d m)) = im_shape m" "im_shape (snd (process_move d m)) = im_shape m" "im_shape (snd (process_drag d m)) = im_shape m"
  by (auto simp: process_defs Let_def split: option.split)

lemma shape_events [simp]:
  "im_shape (pointer_event t p pr m) = im_shape m" "im_shape (pointer_leave t m) = im_shape m" "im_shape (touch_event i t p m) = im_shape m"
  "im_shape (touch_up i t m) = im_shape m"
proof -
  show "im_shape (pointer_event t p pr m) = im_shape m"
    by (auto simp: pointer_event_def pointer_presses_def pointer_moves_def pointer_appears_def split_beta Let_def split: option.split)
  show "im_shape (pointer_leave t m) = im_shape m" by (cases "im_pointer m") (simp_all add: pointer_leave_def Let_def)
  show "im_shape (touch_event i t p m) = im_shape m" by (cases "map_of (im_touches m) i") (simp_all add: touch_event_def split_beta Let_def)
  show "im_shape (touch_up i t m) = im_shape m" by (cases "map_of (im_touches m) i") (simp_all add: touch_up_def split_beta Let_def)
qed

lemma decoration_run_synced: "decoration_run dc \<Longrightarrow> deco_synced dc"
proof (induction rule: decoration_run.induct)
  case (created w)
  show ?case by (rule update_full)
qed (simp_all add: window_state_updated_synced input_state_updated_synced, simp_all add: deco_synced_def)

text \<open>A window of 200 by 100 whose close button has been pressed.\<close>

definition sample_window :: deco_window where
  "sample_window = make_deco_window \<lparr>sg_titlebar_height = 24, sg_side_border_width = 6, sg_bottom_border_height = 6,
     sg_resize_corner_input_size = Size 16 16, sg_button_width = 24, sg_padding_between_buttons = 6\<rparr> (Size 200 100) Type_normal State_restored"

definition sample_pressed :: input_manager where
  "sample_pressed = pointer_event 20 (Point 180 12) True (pointer_event 10 (Point 180 12) False (make_input_manager sample_window))"

lemma sample_pressed_run: "deco_run sample_pressed"
  unfolding sample_pressed_def by (intro deco_run.pointer deco_run.start)

section \<open>Properties\<close>

text \<open>
  Whatever the pointer, the touches and the window do, a widget of a decoration that is shown as hovered or pressed has the pointer or a touch over it.
\<close>

theorem highlighted_widgets_have_a_device:
  assumes "deco_run m" "i < length (im_widgets m)" "wd_state (im_widgets m ! i) \<noteq> Button_up"
  shows "(\<exists>d. im_pointer m = Some d \<and> dev_active d = Some i) \<or> (\<exists>(k, d)\<in>set (im_touches m). dev_active d = Some i)"
  using deco_run_inv [OF assms(1)] assms(2,3) by (auto simp: deco_inv_def highlights_def pointer_over_def touch_over_def split: option.splits)

theorem highlighted_widgets_have_a_device_witness:
  "wd_state (im_widgets sample_pressed ! 0) = Button_down \<and> map_option dev_active (im_pointer sample_pressed) = Some (Some 0)"
proof -
  have s: "0 < length (im_widgets sample_pressed)" "wd_state (im_widgets sample_pressed ! 0) = Button_down" "im_touches sample_pressed = []"
    by code_simp+
  then have "wd_state (im_widgets sample_pressed ! 0) \<noteq> Button_up" by simp
  from highlighted_widgets_have_a_device [OF sample_pressed_run s(1) this] s show ?thesis by auto
qed

text \<open>
  An event of the pointer asks a window to close exactly when it releases the button, without having moved, over the close button that it pressed; a
  touch asks it to close exactly when it is lifted from the close button it pressed.  No other event does.
\<close>

theorem closing_takes_a_still_click:
  "closes (pointer_event t p pr m) = closes m +
     (case im_pointer m of
        Some d \<Rightarrow> if dev_pressed d \<and> \<not> pr \<and> dev_location d = p \<and> pressed_close (dev_active d) m then 1 else 0
      | None \<Rightarrow> 0) \<and>
   closes (touch_up i t m) = closes m + (case map_of (im_touches m) i of Some d \<Rightarrow> if pressed_close (dev_active d) m then 1 else 0 | None \<Rightarrow> 0) \<and>
   closes (touch_event i t p m) = closes m \<and> closes (pointer_leave t m) = closes m \<and> closes (update_window_state w m) = closes m"
proof (intro conjI)
  have quiet: "pressed_close a (m\<lparr>im_event_timestamp := t\<rparr>) = pressed_close a m" for a by (simp add: pressed_close_def cong: option.case_cong)
  let ?m = "m\<lparr>im_event_timestamp := t\<rparr>"
  show "closes (pointer_event t p pr m) = closes m +
     (case im_pointer m of
        Some d \<Rightarrow> if dev_pressed d \<and> \<not> pr \<and> dev_location d = p \<and> pressed_close (dev_active d) m then 1 else 0 | None \<Rightarrow> 0)"
    by (cases "im_pointer m")
      (auto simp: pointer_event_def pointer_presses_def pointer_moves_def pointer_appears_def split_beta Let_def dragged_not_pressed quiet)
  show "closes (touch_up i t m) = closes m + (case map_of (im_touches m) i of Some d \<Rightarrow> if pressed_close (dev_active d) m then 1 else 0 | None \<Rightarrow> 0)"
    by (auto simp: touch_up_def split_beta Let_def quiet split: option.split)
  show "closes (touch_event i t p m) = closes m" by (cases "map_of (im_touches m) i") (auto simp: touch_event_def split_beta Let_def)
  show "closes (pointer_leave t m) = closes m" by (cases "im_pointer m") (auto simp: pointer_leave_def Let_def)
  show "closes (update_window_state w m) = closes m" by (simp add: update_window_state_def closes_def)
qed

theorem closing_takes_a_still_click_witness:
  "closes (pointer_event 30 (Point 180 12) False sample_pressed) = 1 \<and> closes (pointer_event 30 (Point 181 12) False sample_pressed) = 0"
proof -
  have s: "closes sample_pressed = 0" "im_pointer sample_pressed = Some \<lparr>dev_location = Point 180 12, dev_pressed = True, dev_active = Some 0\<rparr>"
    "pressed_close (Some 0) sample_pressed" by code_simp+
  show ?thesis using closing_takes_a_still_click [of 30 "Point 180 12" False sample_pressed] closing_takes_a_still_click [of 30 "Point 181 12" False sample_pressed] s
    by simp
qed

text \<open>
  The input shape of a full decoration is the frame around the content: it has every pixel of the window that is not in the content area, and none
  of the content area.
\<close>

theorem decoration_frames_the_content:
  assumes "dw_border w = Border_full" "g = dw_geometry w" "0 \<le> sg_titlebar_height g" "0 \<le> sg_bottom_border_height g" "0 \<le> sg_side_border_width g"
    "sg_titlebar_height g + sg_bottom_border_height g \<le> height (dw_size w)" "2 * sg_side_border_width g \<le> width (dw_size w)"
  shows "region (input_shape_of w) = pixels (Rectangle (Point 0 0) (dw_size w)) -
    pixels (Rectangle (Point (sg_side_border_width g) (sg_titlebar_height g))
      (Size (width (dw_size w) - 2 * sg_side_border_width g) (height (dw_size w) - sg_titlebar_height g - sg_bottom_border_height g)))"
proof -
  have "x \<in> region (input_shape_of w) \<longleftrightarrow> x \<in> pixels (Rectangle (Point 0 0) (dw_size w)) -
    pixels (Rectangle (Point (sg_side_border_width g) (sg_titlebar_height g))
      (Size (width (dw_size w) - 2 * sg_side_border_width g) (height (dw_size w) - sg_titlebar_height g - sg_bottom_border_height g)))" for x
    using assms(3-7) unfolding assms(2)
    by (simp add: input_shape_of_def titlebar_rect_def left_border_rect_def right_border_rect_def bottom_border_rect_def titlebar_width_def titlebar_height_def
        side_border_width_def side_border_height_def bottom_border_width_def bottom_border_height_def assms(1) mem_pixels edges) linarith
  then show ?thesis by blast
qed

theorem decoration_frames_the_content_witness:
  "region (input_shape_of sample_window) = pixels (Rectangle (Point 0 0) (Size 200 100)) - pixels (Rectangle (Point 6 24) (Size 188 70))"
proof -
  have "dw_border sample_window = Border_full" by code_simp
  from decoration_frames_the_content [OF this refl] show ?thesis by (simp add: sample_window_def make_deco_window_def)
qed

text \<open>
  C23: A decoration changes only the parts of its surface that its window or its input changed, and still the surface is at every moment what a full refresh
  would make it: its size, its streams and its input shape are those of the window's decoration, and so are the margins the window has been given.
\<close>

theorem decoration_surface_follows_the_window:
  assumes "decoration_run dc"
  shows "dc_surface_size dc = dw_size (dc_window dc) \<and> dc_surface_shape dc = input_shape_of (dc_window dc) \<and> dc_surface_streams dc = streams_of (dc_window dc) \<and>
    dc_margins dc = (titlebar_height (dc_window dc), side_border_width (dc_window dc), bottom_border_height (dc_window dc), side_border_width (dc_window dc))"
  using decoration_run_synced [OF assms] by (simp add: deco_synced_def)

theorem decoration_surface_follows_the_window_witness:
  "map fst (dc_surface_streams (make_decoration sample_window)) = [Titlebar_stream, Left_border_stream, Right_border_stream, Bottom_border_stream] \<and>
   dc_surface_streams (window_state_updated (sample_window\<lparr>dw_border := Border_none\<rparr>) (make_decoration sample_window)) = []"
proof -
  have "map fst (streams_of sample_window) = [Titlebar_stream, Left_border_stream, Right_border_stream, Bottom_border_stream]" by code_simp
  moreover have "dc_window (make_decoration sample_window) = sample_window" by (simp add: make_decoration_def update_frame Let_def)
  moreover have "dc_window (window_state_updated (sample_window\<lparr>dw_border := Border_none\<rparr>) (make_decoration sample_window)) = sample_window\<lparr>dw_border := Border_none\<rparr>"
    by (simp add: window_state_updated_def update_frame Let_def)
  ultimately show ?thesis
    using decoration_surface_follows_the_window [OF decoration_run.created [of sample_window]]
      decoration_surface_follows_the_window [OF decoration_run.window_changed [OF decoration_run.created [of sample_window], of "sample_window\<lparr>dw_border := Border_none\<rparr>"]]
    by (simp add: streams_of_def)
qed

end
