(* ===== verification/Anr_Detector.thy ===== *)
theory Anr_Detector
  imports Observer_List
begin

text \<open>
  \<open>scene::TimeoutApplicationNotRespondingDetector\<close>: pings the registered sessions once per period and
  flags the ones that have not answered the previous ping.  \<open>sessions\<close> is an unordered map; the model
  is the association list of its entries in the order in which an iteration visits them, and a new
  entry goes to the front (no lemma depends on the order).  The alarm is its pending flag:
  \<open>reschedule_in\<close> makes it pending, and when it goes off it stops being pending and calls
  \<open>handle_ping_cycle\<close>.  Calls are run one at a time, as under \<open>session_mutex\<close>.
\<close>

section \<open>State\<close>

record anr_context =
  replied_since_last_ping :: bool
  flagged_as_unresponsive :: bool

definition new_context :: anr_context where
  "new_context = \<lparr>replied_since_last_ping = True, flagged_as_unresponsive = False\<rparr>"

record ('s, 'o) anr_detector =
  anr_sessions :: "('s \<times> anr_context) list"
  anr_observers :: "'o thread_safe_list"
  alarm_pending :: bool

definition new_detector :: "('s, 'o) anr_detector" where
  "new_detector = \<lparr>anr_sessions = [], anr_observers = empty_list_items, alarm_pending = False\<rparr>"

text \<open>What the detector does to others: it pings a session, or tells an observer about one.\<close>

datatype ('s, 'o) anr_effect =
    Ping 's
  | Session_unresponsive 'o 's
  | Session_now_responsive 'o 's

section \<open>Operations\<close>

definition tell_unresponsive :: "'o thread_safe_list \<Rightarrow> 's \<Rightarrow> ('s, 'o) anr_effect list" where
  "tell_unresponsive obs s = map (\<lambda>ob. Session_unresponsive ob s) (list_for_each obs)"

definition tell_now_responsive :: "'o thread_safe_list \<Rightarrow> 's \<Rightarrow> ('s, 'o) anr_effect list" where
  "tell_now_responsive obs s = map (\<lambda>ob. Session_now_responsive ob s) (list_for_each obs)"

definition store_context :: "'s \<Rightarrow> anr_context \<Rightarrow> ('s \<times> anr_context) list \<Rightarrow> ('s \<times> anr_context) list" where
  "store_context s c ss =
     (if s \<in> fst ` set ss then map (\<lambda>(k, v). if k = s then (k, c) else (k, v)) ss else (s, c) # ss)"

definition register_session :: "'s \<Rightarrow> ('s, 'o) anr_detector \<Rightarrow> ('s, 'o) anr_detector" where
  "register_session s d =
     (let d1 = d\<lparr>anr_sessions := store_context s new_context (anr_sessions d)\<rparr>;
          alarm_needs_schedule = \<not> alarm_pending d1
      in if alarm_needs_schedule then d1\<lparr>alarm_pending := True\<rparr> else d1)"

definition unregister_session :: "'s \<Rightarrow> ('s, 'o) anr_detector \<Rightarrow> ('s, 'o) anr_detector" where
  "unregister_session s d = d\<lparr>anr_sessions := filter (\<lambda>e. fst e \<noteq> s) (anr_sessions d)\<rparr>"

definition pong_received ::
  "'s \<Rightarrow> ('s, 'o) anr_detector \<Rightarrow> (('s, 'o) anr_detector, ('s, 'o) anr_effect list) outcome" where
  "pong_received s d =
     (case map_of (anr_sessions d) s of
        None \<Rightarrow> throw (Out_of_range ''sessions.at'') d
      | Some ctx \<Rightarrow>
          let needs_now_responsive_notification = flagged_as_unresponsive ctx;
              ctx' = ctx\<lparr>flagged_as_unresponsive := False, replied_since_last_ping := True\<rparr>;
              alarm_needs_rescheduling = \<not> alarm_pending d;
              d1 = d\<lparr>anr_sessions := store_context s ctx' (anr_sessions d)\<rparr>
          in ret (if needs_now_responsive_notification then tell_now_responsive (anr_observers d) s else [])
               (if alarm_needs_rescheduling then d1\<lparr>alarm_pending := True\<rparr> else d1))"

definition register_anr_observer ::
  "'o \<Rightarrow> ('s, 'o) anr_detector \<Rightarrow> ('s, 'o) anr_detector \<times> ('s, 'o) anr_effect list" where
  "register_anr_observer ob d =
     (d\<lparr>anr_observers := list_add (anr_observers d) ob\<rparr>,
      map (\<lambda>e. Session_unresponsive ob (fst e)) (filter (\<lambda>e. flagged_as_unresponsive (snd e)) (anr_sessions d)))"

definition unregister_anr_observer :: "'o \<Rightarrow> ('s, 'o) anr_detector \<Rightarrow> ('s, 'o) anr_detector" where
  "unregister_anr_observer ob d = d\<lparr>anr_observers := list_remove (anr_observers d) ob\<rparr>"

text \<open>One entry of the loop under the lock.\<close>

definition newly_unresponsive :: "anr_context \<Rightarrow> bool" where
  "newly_unresponsive c \<longleftrightarrow> \<not> replied_since_last_ping c \<and> \<not> flagged_as_unresponsive c"

definition needs_ping :: "anr_context \<Rightarrow> bool" where
  "needs_ping c \<longleftrightarrow> replied_since_last_ping c"

definition cycle_context :: "anr_context \<Rightarrow> anr_context" where
  "cycle_context c =
     (if newly_unresponsive c then c\<lparr>flagged_as_unresponsive := True\<rparr>
      else if needs_ping c then c\<lparr>replied_since_last_ping := False\<rparr>
      else c)"

text \<open>The alarm has gone off and calls this; it is no longer pending.\<close>

definition handle_ping_cycle :: "('s, 'o) anr_detector \<Rightarrow> ('s, 'o) anr_detector \<times> ('s, 'o) anr_effect list" where
  "handle_ping_cycle d =
     (let ss = anr_sessions d;
          pings = map (\<lambda>e. Ping (fst e)) (filter (\<lambda>e. \<not> newly_unresponsive (snd e) \<and> needs_ping (snd e)) ss);
          unresponsive_sessions_temporary = map fst (filter (\<lambda>e. newly_unresponsive (snd e)) ss);
          needs_rearm = (pings \<noteq> []);
          d1 = d\<lparr>anr_sessions := map (\<lambda>(s, c). (s, cycle_context c)) ss, alarm_pending := False\<rparr>
      in (if needs_rearm then d1\<lparr>alarm_pending := True\<rparr> else d1,
          pings @ concat (map (tell_unresponsive (anr_observers d)) unresponsive_sessions_temporary)))"

section \<open>Runs\<close>

datatype ('s, 'o) anr_event =
    Register 's | Unregister 's | Pong 's | Add_observer 'o | Remove_observer 'o | Alarm

text \<open>The alarm goes off only while it is pending.\<close>

fun anr_step :: "('s, 'o) anr_event \<Rightarrow> ('s, 'o) anr_detector \<Rightarrow> ('s, 'o) anr_detector" where
  "anr_step (Register s) d = register_session s d"
| "anr_step (Unregister s) d = unregister_session s d"
| "anr_step (Pong s) d = state_of (pong_received s d)"
| "anr_step (Add_observer ob) d = fst (register_anr_observer ob d)"
| "anr_step (Remove_observer ob) d = unregister_anr_observer ob d"
| "anr_step Alarm d = (if alarm_pending d then fst (handle_ping_cycle d) else d)"

definition anr_run :: "('s, 'o) anr_event list \<Rightarrow> ('s, 'o) anr_detector" where
  "anr_run es = fold anr_step es new_detector"

text \<open>
  The invariant: one entry per session, a flagged session has not replied since its ping, and the
  alarm is pending as long as some session is not flagged.
\<close>

definition anr_inv :: "('s, 'o) anr_detector \<Rightarrow> bool" where
  "anr_inv d \<longleftrightarrow> distinct (map fst (anr_sessions d)) \<and>
     (\<forall>e\<in>set (anr_sessions d). (flagged_as_unresponsive (snd e) \<longrightarrow> \<not> replied_since_last_ping (snd e)) \<and>
        (\<not> flagged_as_unresponsive (snd e) \<longrightarrow> alarm_pending d))"

lemma map_of_map_keep:
  "s \<notin> fst ` set ss \<Longrightarrow> map (\<lambda>(k, v). if k = s then (k, c) else (k, v)) ss = ss"
  by (induction ss) (auto split: if_splits)

lemma map_of_filter_other: "k \<noteq> s \<Longrightarrow> map_of (filter (\<lambda>e. fst e \<noteq> k) ss) s = map_of ss s"
  by (induction ss) auto

lemma store_context_keys:
  "map fst (store_context s c ss) = (if s \<in> fst ` set ss then map fst ss else s # map fst ss)"
  by (auto simp: store_context_def)

lemma store_context_elems: "e \<in> set (store_context s c ss) \<Longrightarrow> e = (s, c) \<or> e \<in> set ss"
  by (auto simp: store_context_def split: if_splits)

lemma anr_inv_new [simp]: "anr_inv new_detector"
  by (simp add: anr_inv_def new_detector_def)

lemma anr_inv_store:
  assumes "anr_inv d" "\<not> flagged_as_unresponsive c"
  shows "anr_inv (d\<lparr>anr_sessions := store_context s c (anr_sessions d), alarm_pending := True\<rparr>)"
    and "alarm_pending d \<Longrightarrow> anr_inv (d\<lparr>anr_sessions := store_context s c (anr_sessions d)\<rparr>)"
  using assms by (auto simp: anr_inv_def store_context_keys dest!: store_context_elems)

lemma anr_inv_register [inv_intros]: "anr_inv d \<Longrightarrow> anr_inv (register_session s d)"
  by (auto simp: register_session_def Let_def new_context_def intro!: anr_inv_store)

lemma anr_inv_unregister [inv_intros]: "anr_inv d \<Longrightarrow> anr_inv (unregister_session s d)"
  by (auto simp: anr_inv_def unregister_session_def distinct_map_filter)

lemma anr_inv_pong [inv_intros]: "anr_inv d \<Longrightarrow> anr_inv (state_of (pong_received s d))"
  by (auto simp: pong_received_def Let_def split: option.splits intro!: anr_inv_store)

lemma anr_inv_cycle [inv_intros]: "anr_inv d \<Longrightarrow> anr_inv (fst (handle_ping_cycle d))"
  by (auto simp: anr_inv_def handle_ping_cycle_def Let_def cycle_context_def newly_unresponsive_def
      needs_ping_def filter_empty_conv comp_def case_prod_beta split: if_splits)

lemma anr_inv_observers [inv_intros]:
  "anr_inv d \<Longrightarrow> anr_inv (fst (register_anr_observer ob d))"
  "anr_inv d \<Longrightarrow> anr_inv (unregister_anr_observer ob d)"
  by (simp_all add: anr_inv_def register_anr_observer_def unregister_anr_observer_def)

lemma anr_inv_step: "anr_inv d \<Longrightarrow> anr_inv (anr_step e d)"
  by (cases e) (auto intro: inv_intros)

lemma anr_inv_steps: "anr_inv d \<Longrightarrow> anr_inv (fold anr_step es d)"
  by (induction es arbitrary: d) (auto intro: anr_inv_step)

lemma anr_inv_run: "anr_inv (anr_run es)"
  by (simp add: anr_run_def anr_inv_steps)

lemma map_of_cycle:
  "map_of (anr_sessions (fst (handle_ping_cycle d))) s = map_option cycle_context (map_of (anr_sessions d) s)"
  by (simp add: handle_ping_cycle_def Let_def map_of_map comp_def)

lemma cycle_reports:
  assumes "distinct (map fst (anr_sessions d))" "map_of (anr_sessions d) s = Some c"
  shows "Session_unresponsive ob s \<in> set (snd (handle_ping_cycle d)) \<longleftrightarrow>
           newly_unresponsive c \<and> ob \<in> set (list_for_each (anr_observers d))"
    and "Ping s \<in> set (snd (handle_ping_cycle d)) \<longleftrightarrow> replied_since_last_ping c"
  using assms
  by (auto simp: handle_ping_cycle_def Let_def tell_unresponsive_def needs_ping_def newly_unresponsive_def
      image_iff map_of_eq_Some_iff dest: map_of_SomeD eq_key_imp_eq_value)

text \<open>Events that are not about a session keep its entry, apart from the ping cycle.\<close>

definition concerns :: "'s \<Rightarrow> ('s, 'o) anr_event \<Rightarrow> bool" where
  "concerns s e \<longleftrightarrow> e = Register s \<or> e = Unregister s \<or> e = Pong s"

lemma map_of_store_context: "map_of (store_context s c ss) = (map_of ss)(s \<mapsto> c)"
proof (cases "s \<in> fst ` set ss")
  case True
  then have "map_of (map (\<lambda>(k, v). if k = s then (k, c) else (k, v)) ss) = (map_of ss)(s \<mapsto> c)"
  proof (induction ss)
    case (Cons e ss)
    then show ?case by (cases "s \<in> fst ` set ss") (auto simp: fun_eq_iff map_of_map_keep split: prod.splits)
  qed simp
  with True show ?thesis by (simp add: store_context_def)
qed (simp add: store_context_def)

lemma step_keeps_session:
  assumes "\<not> concerns s e" "e \<noteq> Alarm"
  shows "map_of (anr_sessions (anr_step e d)) s = map_of (anr_sessions d) s"
  using assms by (cases e) (auto simp: concerns_def register_session_def unregister_session_def pong_received_def
      register_anr_observer_def unregister_anr_observer_def map_of_store_context map_of_filter_other Let_def
      split: option.splits)

lemma replied_cycle: "\<not> replied_since_last_ping c \<Longrightarrow> \<not> replied_since_last_ping (cycle_context c)"
  by (simp add: cycle_context_def needs_ping_def)

lemma anr_run_alarms: "anr_run (es @ Alarm # mid @ [Alarm]) = anr_step Alarm (fold anr_step mid (anr_step Alarm (anr_run es)))"
  by (simp add: anr_run_def del: anr_step.simps)

text \<open>A session that owes a reply keeps owing it until an event concerns it.\<close>

definition owes_reply :: "'s \<Rightarrow> ('s, 'o) anr_detector \<Rightarrow> bool" where
  "owes_reply s d \<longleftrightarrow> (\<exists>c. map_of (anr_sessions d) s = Some c \<and> \<not> replied_since_last_ping c)"

lemma owes_reply_step: "owes_reply s d \<Longrightarrow> \<not> concerns s e \<Longrightarrow> owes_reply s (anr_step e d)"
  by (cases "e = Alarm")
    (auto simp: owes_reply_def step_keeps_session map_of_cycle replied_cycle)

lemma owes_reply_steps: "owes_reply s d \<Longrightarrow> \<forall>e\<in>set es. \<not> concerns s e \<Longrightarrow> owes_reply s (fold anr_step es d)"
  by (induction es arbitrary: d) (auto intro: owes_reply_step)

lemma alarm_owes_reply:
  assumes "anr_inv d" "map_of (anr_sessions d) s = Some c"
  shows "owes_reply s (anr_step Alarm d)"
proof (cases "alarm_pending d")
  case True
  then show ?thesis using assms by (auto simp: owes_reply_def map_of_cycle cycle_context_def newly_unresponsive_def needs_ping_def)
next
  case False
  then have "flagged_as_unresponsive c" "\<not> replied_since_last_ping c"
    using assms map_of_SomeD [OF assms(2)] by (auto simp: anr_inv_def)
  then show ?thesis using False assms(2) by (simp add: owes_reply_def)
qed

lemma alarm_flags:
  assumes "anr_inv d" "owes_reply s d"
  shows "\<exists>c. map_of (anr_sessions (anr_step Alarm d)) s = Some c \<and> flagged_as_unresponsive c"
proof -
  obtain c where c: "map_of (anr_sessions d) s = Some c" "\<not> replied_since_last_ping c"
    using assms(2) by (auto simp: owes_reply_def)
  show ?thesis
  proof (cases "alarm_pending d")
    case True
    then show ?thesis using c by (auto simp: map_of_cycle cycle_context_def newly_unresponsive_def needs_ping_def)
  next
    case False
    then have "flagged_as_unresponsive c" using assms(1) map_of_SomeD [OF c(1)] by (auto simp: anr_inv_def)
    then show ?thesis using False c by simp
  qed
qed

section \<open>Properties\<close>

text \<open>
  C37: Whatever happened before, a registered session that does not answer is flagged: when the alarm has
  gone off twice with no pong, registration or removal of the session in between (anything else may
  happen, other alarms too), the session is flagged as unresponsive.  At any time a ping
  cycle reports a session to an observer exactly if the session is registered, has not replied
  since its ping and was not reported before, and the observer is registered; it pings exactly the sessions that have replied;
  and a pong of a registered session clears the flag and reports it responsive to every observer if it was flagged.
\<close>

theorem silent_session_is_flagged:
  assumes "map_of (anr_sessions (anr_run es)) s = Some c" and "\<forall>e\<in>set mid. \<not> concerns s e"
  shows "(\<exists>c'. map_of (anr_sessions (anr_run (es @ Alarm # mid @ [Alarm]))) s = Some c' \<and> flagged_as_unresponsive c') \<and>
    (Session_unresponsive ob s \<in> set (snd (handle_ping_cycle (anr_run es))) \<longleftrightarrow>
       \<not> replied_since_last_ping c \<and> \<not> flagged_as_unresponsive c \<and> ob \<in> set (list_for_each (anr_observers (anr_run es)))) \<and>
    (Ping s \<in> set (snd (handle_ping_cycle (anr_run es))) \<longleftrightarrow> replied_since_last_ping c) \<and>
    (\<exists>told d'. pong_received s (anr_run es) = ret told d' \<and> map_of (anr_sessions d') s = Some new_context \<and>
       alarm_pending d' \<and>
       told = (if flagged_as_unresponsive c
               then map (\<lambda>ob. Session_now_responsive ob s) (list_for_each (anr_observers (anr_run es))) else []))"
proof (intro conjI)
  let ?d = "anr_run es"
  have inv: "anr_inv ?d" by (rule anr_inv_run)
  have "owes_reply s (fold anr_step mid (anr_step Alarm ?d))"
    using alarm_owes_reply [OF inv assms(1)] assms(2) by (rule owes_reply_steps)
  then show "\<exists>c'. map_of (anr_sessions (anr_run (es @ Alarm # mid @ [Alarm]))) s = Some c' \<and> flagged_as_unresponsive c'"
    unfolding anr_run_alarms by (rule alarm_flags [OF anr_inv_steps [OF anr_inv_step [OF inv]]])
  show "Session_unresponsive ob s \<in> set (snd (handle_ping_cycle ?d)) \<longleftrightarrow>
       \<not> replied_since_last_ping c \<and> \<not> flagged_as_unresponsive c \<and> ob \<in> set (list_for_each (anr_observers ?d))"
    using inv cycle_reports(1) [OF _ assms(1)] by (simp add: anr_inv_def newly_unresponsive_def)
  show "Ping s \<in> set (snd (handle_ping_cycle ?d)) \<longleftrightarrow> replied_since_last_ping c"
    using inv cycle_reports(2) [OF _ assms(1)] by (simp add: anr_inv_def)
  show "\<exists>told d'. pong_received s ?d = ret told d' \<and> map_of (anr_sessions d') s = Some new_context \<and> alarm_pending d' \<and>
       told = (if flagged_as_unresponsive c
               then map (\<lambda>ob. Session_now_responsive ob s) (list_for_each (anr_observers ?d)) else [])"
    using assms(1) by (auto simp: pong_received_def Let_def map_of_store_context new_context_def tell_now_responsive_def)
qed

theorem silent_session_is_flagged_witness:
  "\<exists>c'. map_of (anr_sessions (anr_run [Register (1::nat), Add_observer ''o'', Alarm, Register 2, Alarm])) 1 = Some c' \<and>
     flagged_as_unresponsive c'"
  using silent_session_is_flagged [of "[Register (1::nat), Add_observer ''o'']" 1 new_context "[Register 2]"]
  by (simp add: anr_run_def new_detector_def register_session_def store_context_def Let_def concerns_def
      register_anr_observer_def)

end
