(* ===== verification/Application_Session.thy ===== *)
theory Application_Session
  imports Session_Container Anr_Detector Window_Info
begin

text \<open>
  Sessions: the surfaces and buffer streams of one client, \<open>src/server/scene/application_session.cpp\<close>, and the manager that opens, focuses and closes
  sessions, \<open>src/server/scene/session_manager.cpp\<close>, over the session container and the detector of sessions that do not respond.  A surface
  that the surface factory makes is an argument of the operation that asks for it.  What the surface stack, the surfaces and the listeners are told is
  recorded in order.
\<close>

section \<open>One session\<close>

datatype ('w, 'b) session_note =
    Factory_create 'w "('b option \<times> displacement \<times> extent option) list"
  | Stack_add 'w | Stack_remove 'w
  | Add_observer 'w | Observer_moved_to 'w
  | Surface_created 'w | Destroying_surface 'w
  | Stream_created 'b | Stream_destroyed 'b
  | Configure_state 'w window_state | Configure_type 'w window_type | Configure_orientation 'w int
  | Set_input_region 'w "rectangle list" | Set_depth_layer 'w int | Set_application_id 'w string
  | Set_streams 'w "('b \<times> displacement \<times> extent option) list"
  | Hide 'w | Show 'w

record 'b creation_params =
  cp_content :: "'b option"
  cp_size :: extent
  cp_streams :: "('b option \<times> displacement \<times> extent option) list option"
  cp_state :: "window_state option"
  cp_type :: "window_type option"
  cp_orientation :: "int option"
  cp_input_shape :: "rectangle list option"
  cp_depth_layer :: "int option"
  cp_application_id :: "string option"

record ('w, 'b) app_session =
  as_surfaces :: "'w list"
  as_content :: "'w \<Rightarrow> 'b option option"
  as_streams :: "'b set"
  as_notes :: "('w, 'b) session_note list"

definition make_session :: "('w, 'b) app_session" where
  "make_session = \<lparr>as_surfaces = [], as_content = (\<lambda>_. None), as_streams = {}, as_notes = []\<rparr>"

definition report :: "('w, 'b) session_note list \<Rightarrow> ('w, 'b) app_session \<Rightarrow> ('w, 'b) app_session" where
  "report ns s = s\<lparr>as_notes := as_notes s @ ns\<rparr>"

text \<open>The attributes of a new surface that the parameters set.\<close>

definition configured :: "'w \<Rightarrow> 'b creation_params \<Rightarrow> ('w, 'b) session_note list" where
  "configured w params =
     (case cp_state params of Some x \<Rightarrow> [Configure_state w x] | None \<Rightarrow> []) @
     (case cp_type params of Some x \<Rightarrow> [Configure_type w x] | None \<Rightarrow> []) @
     (case cp_orientation params of Some x \<Rightarrow> [Configure_orientation w x] | None \<Rightarrow> []) @
     (case cp_input_shape params of Some x \<Rightarrow> [Set_input_region w x] | None \<Rightarrow> []) @
     (case cp_depth_layer params of Some x \<Rightarrow> [Set_depth_layer w x] | None \<Rightarrow> []) @
     (case cp_application_id params of Some x \<Rightarrow> [Set_application_id w x] | None \<Rightarrow> [])"

definition create_surface :: "'w \<Rightarrow> 'b creation_params \<Rightarrow> bool \<Rightarrow> ('w, 'b) app_session \<Rightarrow> (('w, 'b) app_session, 'w) outcome" where
  "create_surface w params observer s =
     (if cp_content params = None \<and> (case cp_streams params of None \<Rightarrow> True | Some l \<Rightarrow> l = [])
      then throw (Logic_error ''surface must have content'') s
      else let buffer_stream = (case cp_content params of Some b \<Rightarrow> Some b | None \<Rightarrow> fst (hd (the (cp_streams params))));
               streams = (case cp_content params of Some b \<Rightarrow> [(Some b, Displacement 0 0, Some (cp_size params))] | None \<Rightarrow> the (cp_streams params));
               s1 = report ([Factory_create w streams, Stack_add w] @ (if observer then [Add_observer w] else [])) s;
               s2 = s1\<lparr>as_surfaces := as_surfaces s1 @ [w], as_content := (as_content s1)(w \<mapsto> buffer_stream)\<rparr>;
               s3 = report ((if observer then [Observer_moved_to w] else []) @ [Surface_created w]) s2
           in ret w (report (configured w params) s3))"

definition destroy_surface :: "'w \<Rightarrow> ('w, 'b) app_session \<Rightarrow> (('w, 'b) app_session, unit) outcome" where
  "destroy_surface w s =
     (if as_content s w = None \<or> w \<notin> set (as_surfaces s) then throw (Runtime_error ''Invalid surface'') s
      else let s1 = report [Destroying_surface w] s
           in ret () (report [Stack_remove w] (s1\<lparr>as_content := (as_content s1)(w := None), as_surfaces := remove1 w (as_surfaces s1)\<rparr>)))"

definition destroy_session :: "('w, 'b) app_session \<Rightarrow> ('w, 'b) app_session" where
  "destroy_session s = fold (\<lambda>w. report [Destroying_surface w, Stack_remove w]) (as_surfaces s) s"

definition can_take_focus :: "window_type \<Rightarrow> bool" where
  "can_take_focus ty \<longleftrightarrow> ty \<in> {Type_normal, Type_utility, Type_dialog, Type_satellite, Type_freestyle, Type_menu, Type_inputmethod}"

text \<open>\<open>std::find_if\<close> over positions: the end of the range when nothing is found.\<close>

definition find_if :: "(nat \<Rightarrow> bool) \<Rightarrow> nat \<Rightarrow> nat \<Rightarrow> nat" where
  "find_if P start stop = (case find P [start..<stop] of Some i \<Rightarrow> i | None \<Rightarrow> stop)"

definition surface_after :: "('w \<Rightarrow> window_type) \<Rightarrow> 'w \<Rightarrow> ('w, 'b) app_session \<Rightarrow> exn + 'w option" where
  "surface_after type_of before s =
     (let ws = as_surfaces s;
          n = length ws;
          found = find_if (\<lambda>i. ws ! i = before) 0 n
      in if found = n then Inl (Runtime_error ''surface_after: surface is not a member of this session'')
         else let current = Suc found;
                  focusable = (\<lambda>i. can_take_focus (type_of (ws ! i)));
                  next1 = find_if focusable current n;
                  next2 = (if next1 = n then find_if focusable 0 current else next1)
              in if next2 = n then Inr None else Inr (Some (ws ! next2)))"

definition default_surface :: "('w, 'b) app_session \<Rightarrow> 'w option" where
  "default_surface s = (case as_surfaces s of w # _ \<Rightarrow> Some w | [] \<Rightarrow> None)"

text \<open>
  A snapshot is taken of the content of the first surface.  The contents are weak pointers: \<open>live\<close> says which streams still exist.  Looking an entry up
  makes an empty one when there is none.
\<close>

datatype 'b snapshot_request = Snapshot_of 'b | Empty_snapshot

definition take_snapshot :: "('b \<Rightarrow> bool) \<Rightarrow> ('w, 'b) app_session \<Rightarrow> (('w, 'b) app_session, 'b snapshot_request) outcome" where
  "take_snapshot live s =
     (case find (\<lambda>w. default_surface s = Some w) (as_surfaces s) of
        None \<Rightarrow> ret Empty_snapshot s
      | Some w \<Rightarrow>
          (let s1 = (if as_content s w = None then s\<lparr>as_content := (as_content s)(w \<mapsto> None)\<rparr> else s)
           in case the (as_content s1 w) of
                Some b \<Rightarrow> if live b then ret (Snapshot_of b) s1
                          else throw (Logic_error ''Buffer was dropped without being removed from default_content_map'') s1
              | None \<Rightarrow> throw (Logic_error ''Buffer was dropped without being removed from default_content_map'') s1))"

definition hide :: "('w, 'b) app_session \<Rightarrow> ('w, 'b) app_session" where
  "hide s = report (map Hide (as_surfaces s)) s"

definition show_surfaces :: "('w, 'b) app_session \<Rightarrow> ('w, 'b) app_session" where
  "show_surfaces s = report (map Show (as_surfaces s)) s"

definition create_buffer_stream :: "'b \<Rightarrow> ('w, 'b) app_session \<Rightarrow> ('w, 'b) app_session" where
  "create_buffer_stream b s = (let s1 = report [Stream_created b] s in s1\<lparr>as_streams := insert b (as_streams s1)\<rparr>)"

definition destroy_buffer_stream :: "'b \<Rightarrow> ('w, 'b) app_session \<Rightarrow> (('w, 'b) app_session, unit) outcome" where
  "destroy_buffer_stream b s =
     (if b \<notin> as_streams s then throw (Runtime_error ''cannot destroy stream: Invalid BufferStream'') s
      else let s1 = report [Stream_destroyed b] s in ret () (s1\<lparr>as_streams := as_streams s1 - {b}\<rparr>))"

definition configure_streams :: "'w \<Rightarrow> ('b option \<times> displacement \<times> extent option) list \<Rightarrow> ('w, 'b) app_session \<Rightarrow> ('w, 'b) app_session" where
  "configure_streams w streams s =
     report [Set_streams w (concat (map (\<lambda>(b, d, sz). case b of Some b' \<Rightarrow> [(b', d, sz)] | None \<Rightarrow> []) streams))] s"

definition has_buffer_stream :: "'b \<Rightarrow> ('w, 'b) app_session \<Rightarrow> bool" where
  "has_buffer_stream b s \<longleftrightarrow> b \<in> as_streams s"

section \<open>The session manager\<close>

datatype 's manager_note =
    Starting 's | Stopping 's | Focused 's | Unfocused
  | Sink_focus_change 's | Sink_no_focus | Sink_session_stopping 's

record 's session_manager =
  app_container :: "'s session_container"
  anr :: "('s, unit) anr_detector"
  sm_notes :: "'s manager_note list"

definition make_manager :: "'s session_manager" where
  "make_manager = \<lparr>app_container = [], anr = new_detector, sm_notes = []\<rparr>"

definition inform :: "'s manager_note \<Rightarrow> 's session_manager \<Rightarrow> 's session_manager" where
  "inform n m = m\<lparr>sm_notes := sm_notes m @ [n]\<rparr>"

definition open_session :: "'s \<Rightarrow> 's session_manager \<Rightarrow> 's session_manager" where
  "open_session s m =
     (let m1 = inform (Starting s) (m\<lparr>app_container := insert_session s (app_container m)\<rparr>)
      in m1\<lparr>anr := register_session s (anr m1)\<rparr>)"

definition set_focus_to_session :: "'s \<Rightarrow> 's session_manager \<Rightarrow> 's session_manager" where
  "set_focus_to_session s m = inform (Focused s) (inform (Sink_focus_change s) m)"

definition unset_focus :: "'s session_manager \<Rightarrow> 's session_manager" where
  "unset_focus m = inform Unfocused (inform Sink_no_focus m)"

definition close_session :: "'s \<Rightarrow> 's session_manager \<Rightarrow> ('s session_manager, unit) outcome" where
  "close_session s m =
     (let m1 = inform (Stopping s) (inform (Sink_session_stopping s) (m\<lparr>anr := unregister_session s (anr m)\<rparr>))
      in case remove_session_from s (app_container m1) of
           (Inl e, c) \<Rightarrow> throw e (m1\<lparr>app_container := c\<rparr>)
         | (Inr _, c) \<Rightarrow> ret () (m1\<lparr>app_container := c\<rparr>))"

text \<open>The destructor closes a copy of the container's list; an exception would end the program, as it is \<open>noexcept\<close>.\<close>

fun close_all :: "'s list \<Rightarrow> 's session_manager \<Rightarrow> ('s session_manager, unit) outcome" where
  "close_all [] m = ret () m"
| "close_all (s # ss) m = and_then (close_session s m) (\<lambda>_ m1. close_all ss m1) id"

definition destroy_manager :: "'s session_manager \<Rightarrow> ('s session_manager, unit) outcome" where
  "destroy_manager m = close_all (app_container m) m"

section \<open>The session's surfaces\<close>

lemma report_sel [simp]:
  "as_surfaces (report ns s) = as_surfaces s" "as_content (report ns s) = as_content s" "as_streams (report ns s) = as_streams s"
  "as_notes (report ns s) = as_notes s @ ns"
  by (simp_all add: report_def)

text \<open>What the notes to the surface stack leave on it.\<close>

fun stacked :: "('w, 'b) session_note list \<Rightarrow> 'w list" where
  "stacked [] = []"
| "stacked (Stack_add w # ns) = w # stacked ns"
| "stacked (n # ns) = stacked ns"

fun unstacked :: "('w, 'b) session_note list \<Rightarrow> 'w list" where
  "unstacked [] = []"
| "unstacked (Stack_remove w # ns) = w # unstacked ns"
| "unstacked (n # ns) = unstacked ns"

lemma stacked_append [simp]: "stacked (ms @ ns) = stacked ms @ stacked ns" "unstacked (ms @ ns) = unstacked ms @ unstacked ns"
  by (induction ms rule: stacked.induct; simp) (induction ms rule: unstacked.induct; simp)

lemma stacked_map [simp]: "stacked (map Hide ws) = []" "unstacked (map Hide ws) = []" "stacked (map Show ws) = []" "unstacked (map Show ws) = []"
  by (induction ws) simp_all

lemma stacked_configured [simp]: "stacked (configured w params) = []" "unstacked (configured w params) = []"
  by (simp_all add: configured_def split: option.split)

text \<open>The first of the streams that each surface was made with.\<close>

fun made_with :: "('w, 'b) session_note list \<Rightarrow> 'w \<Rightarrow> 'b option option" where
  "made_with [] = (\<lambda>_. None)"
| "made_with (Factory_create w streams # ns) = (\<lambda>v. case made_with ns v of None \<Rightarrow> if v = w then Some (fst (hd streams)) else None | x \<Rightarrow> x)"
| "made_with (n # ns) = made_with ns"

lemma made_with_append: "made_with (ms @ ns) v = (case made_with ns v of None \<Rightarrow> made_with ms v | x \<Rightarrow> x)"
  by (induction ms rule: made_with.induct) (simp_all split: option.split)

lemma made_with_map [simp]: "made_with (map Hide ws) v = None" "made_with (map Show ws) v = None"
  by (induction ws) simp_all

lemma made_with_configured [simp]: "made_with (configured w params) v = None"
  by (simp add: configured_def made_with_append split: option.split)

definition session_inv :: "('w, 'b) app_session \<Rightarrow> bool" where
  "session_inv s \<longleftrightarrow> distinct (as_surfaces s) \<and> dom (as_content s) = set (as_surfaces s) \<and>
     (\<forall>w\<in>set (as_surfaces s). as_content s w = made_with (as_notes s) w) \<and>
     mset (stacked (as_notes s)) = mset (unstacked (as_notes s)) + mset (as_surfaces s)"

text \<open>A surface the factory makes is new.\<close>

inductive session_run :: "('w, 'b) app_session \<Rightarrow> bool" where
  start: "session_run make_session"
| create: "session_run s \<Longrightarrow> w \<notin> set (as_surfaces s) \<Longrightarrow> session_run (state_of (create_surface w params ob s))"
| destroy: "session_run s \<Longrightarrow> session_run (state_of (destroy_surface w s))"
| stream: "session_run s \<Longrightarrow> session_run (create_buffer_stream b s)"
| unstream: "session_run s \<Longrightarrow> session_run (state_of (destroy_buffer_stream b s))"
| streams: "session_run s \<Longrightarrow> session_run (configure_streams w l s)"
| snapshot: "session_run s \<Longrightarrow> session_run (state_of (take_snapshot live s))"
| hidden: "session_run s \<Longrightarrow> session_run (hide s)"
| visible: "session_run s \<Longrightarrow> session_run (show_surfaces s)"

lemma has_content: "session_inv s \<Longrightarrow> w \<in> set (as_surfaces s) \<Longrightarrow> as_content s w \<noteq> None"
  by (metis domIff session_inv_def)

lemma take_snapshot_result:
  assumes "session_inv s"
  shows "take_snapshot live s = (case as_surfaces s of
      [] \<Rightarrow> ret Empty_snapshot s
    | w # _ \<Rightarrow> (case the (as_content s w) of
        Some b \<Rightarrow> if live b then ret (Snapshot_of b) s else throw (Logic_error ''Buffer was dropped without being removed from default_content_map'') s
      | None \<Rightarrow> throw (Logic_error ''Buffer was dropped without being removed from default_content_map'') s))"
proof (cases "as_surfaces s")
  case (Cons w ws)
  then obtain c where "as_content s w = Some c" using has_content [OF assms, of w] by auto
  with Cons show ?thesis by (simp add: take_snapshot_def default_surface_def Let_def)
qed (simp add: take_snapshot_def)

lemma take_snapshot_state: "session_inv s \<Longrightarrow> state_of (take_snapshot live s) = s"
  by (simp add: take_snapshot_result split: list.split option.split)

lemma session_run_inv: "session_run s \<Longrightarrow> session_inv s"
proof (induction rule: session_run.induct)
  case (create s w params ob)
  then show ?case by (auto simp: create_surface_def session_inv_def Let_def made_with_append split: option.split)
next
  case (snapshot s live)
  then show ?case by (simp add: take_snapshot_state)
next
  case (destroy s w)
  show ?case
  proof (cases "as_content s w = None \<or> w \<notin> set (as_surfaces s)")
    case False
    then have "add_mset w (mset (as_surfaces s) - {#w#}) = mset (as_surfaces s)" by simp
    with destroy.IH False show ?thesis by (auto simp: destroy_surface_def session_inv_def Let_def made_with_append)
  qed (use destroy.IH in \<open>simp add: destroy_surface_def\<close>)
qed (auto simp: make_session_def session_inv_def create_buffer_stream_def destroy_buffer_stream_def configure_streams_def hide_def show_surfaces_def Let_def made_with_append)

lemma destroy_session_notes:
  "stacked (as_notes (destroy_session s)) = stacked (as_notes s)" "unstacked (as_notes (destroy_session s)) = unstacked (as_notes s) @ as_surfaces s"
proof -
  have "stacked (as_notes (fold (\<lambda>w. report [Destroying_surface w, Stack_remove w]) ws s)) = stacked (as_notes s)"
    "unstacked (as_notes (fold (\<lambda>w. report [Destroying_surface w, Stack_remove w]) ws s)) = unstacked (as_notes s) @ ws" for ws and s :: "('a, 'b) app_session"
    by (induction ws arbitrary: s) simp_all
  then show "stacked (as_notes (destroy_session s)) = stacked (as_notes s)" "unstacked (as_notes (destroy_session s)) = unstacked (as_notes s) @ as_surfaces s"
    by (simp_all add: destroy_session_def)
qed

section \<open>The surface after another\<close>

lemma find_map: "find P (map f xs) = map_option f (find (P \<circ> f) xs)"
  by (induction xs) simp_all

lemma find_member: "find P xs = Some x \<Longrightarrow> x \<in> set xs \<and> P x"
  by (metis find_Some_iff nth_mem)

lemma map_nth_range: "stop \<le> length ws \<Longrightarrow> map ((!) ws) [start..<stop] = take (stop - start) (drop start ws)"
  by (rule nth_equalityI) auto

text \<open>A search over positions is a search over the part of the list.\<close>

lemma find_if_find:
  assumes "stop \<le> length ws"
  shows "find_if (\<lambda>i. P (ws ! i)) start stop = stop \<and> find P (take (stop - start) (drop start ws)) = None \<or>
    find_if (\<lambda>i. P (ws ! i)) start stop < stop \<and> find P (take (stop - start) (drop start ws)) = Some (ws ! find_if (\<lambda>i. P (ws ! i)) start stop)"
proof -
  have eq: "find P (take (stop - start) (drop start ws)) = map_option ((!) ws) (find (\<lambda>i. P (ws ! i)) [start..<stop])"
    using find_map [of P "(!) ws" "[start..<stop]"] by (simp add: map_nth_range [OF assms] comp_def)
  show ?thesis
  proof (cases "find (\<lambda>i. P (ws ! i)) [start..<stop]")
    case (Some i)
    then have "i < stop" using find_member by fastforce
    with Some eq show ?thesis by (simp add: find_if_def)
  qed (simp add: eq find_if_def)
qed

lemma find_append: "find P (xs @ ys) = (case find P xs of Some x \<Rightarrow> Some x | None \<Rightarrow> find P ys)"
  by (induction xs) simp_all

lemma surface_after_stranger:
  assumes "w \<notin> set (as_surfaces s)"
  shows "surface_after type_of w s = Inl (Runtime_error ''surface_after: surface is not a member of this session'')"
proof -
  have "find (\<lambda>i. as_surfaces s ! i = w) [0..<length (as_surfaces s)] = None"
    using assms by (auto simp: find_None_iff in_set_conv_nth)
  then show ?thesis by (simp add: surface_after_def find_if_def)
qed

lemma surface_after_cases:
  fixes type_of :: "'w \<Rightarrow> window_type" and s :: "('w, 'b) app_session"
  assumes "distinct (as_surfaces s)" "i < length (as_surfaces s)" "before = as_surfaces s ! i"
  defines "ws \<equiv> as_surfaces s" and "P \<equiv> can_take_focus \<circ> type_of"
  shows "surface_after type_of before s =
    (case find P (drop (Suc i) ws @ take (Suc i) ws) of
       Some w \<Rightarrow> Inr (Some w)
     | None \<Rightarrow> Inr (if Suc i < length ws then Some (ws ! Suc i) else None))"
proof -
  let ?n = "length ws"
  have found: "find_if (\<lambda>j. ws ! j = before) 0 ?n = i"
  proof -
    have "find_if (\<lambda>j. ws ! j = before) 0 ?n < ?n" "ws ! find_if (\<lambda>j. ws ! j = before) 0 ?n = before"
      using find_if_find [of ?n ws "\<lambda>w. w = before" 0] assms(2,3) by (auto simp: ws_def find_None_iff dest: find_member)
    then show ?thesis using assms(1-3) by (simp add: ws_def nth_eq_iff_index_eq)
  qed
  have sa: "surface_after type_of before s =
      (let next1 = find_if (\<lambda>j. P (ws ! j)) (Suc i) ?n; next2 = (if next1 = ?n then find_if (\<lambda>j. P (ws ! j)) 0 (Suc i) else next1)
       in if next2 = ?n then Inr None else Inr (Some (ws ! next2)))"
    using found assms(2) by (simp add: surface_after_def ws_def P_def Let_def)
  have a: "find_if (\<lambda>j. P (ws ! j)) (Suc i) ?n = ?n \<and> find P (drop (Suc i) ws) = None \<or>
      find_if (\<lambda>j. P (ws ! j)) (Suc i) ?n < ?n \<and> find P (drop (Suc i) ws) = Some (ws ! find_if (\<lambda>j. P (ws ! j)) (Suc i) ?n)"
    using find_if_find [of ?n ws P "Suc i"] by simp
  have b: "find_if (\<lambda>j. P (ws ! j)) 0 (Suc i) = Suc i \<and> find P (take (Suc i) ws) = None \<or>
      find_if (\<lambda>j. P (ws ! j)) 0 (Suc i) < Suc i \<and> find P (take (Suc i) ws) = Some (ws ! find_if (\<lambda>j. P (ws ! j)) 0 (Suc i))"
    using find_if_find [of "Suc i" ws P 0] assms(2) by (simp add: ws_def)
  from a b assms(2) show ?thesis unfolding sa find_append by (auto simp: ws_def Let_def split: option.split)
qed

section \<open>The manager's sessions\<close>

definition manager_inv :: "'s session_manager \<Rightarrow> bool" where
  "manager_inv m \<longleftrightarrow> distinct (app_container m) \<and> fst ` set (anr_sessions (anr m)) = set (app_container m)"

inductive manager_run :: "'s session_manager \<Rightarrow> bool" where
  start: "manager_run make_manager"
| opened: "manager_run m \<Longrightarrow> s \<notin> set (app_container m) \<Longrightarrow> manager_run (open_session s m)"
| focused: "manager_run m \<Longrightarrow> manager_run (set_focus_to_session s m)"
| unfocused: "manager_run m \<Longrightarrow> manager_run (unset_focus m)"
| closed: "manager_run m \<Longrightarrow> manager_run (state_of (close_session s m))"

lemma inform_sel [simp]: "app_container (inform n m) = app_container m" "anr (inform n m) = anr m"
  by (simp_all add: inform_def)

lemma registered_ids: "fst ` set (anr_sessions (register_session s d)) = insert s (fst ` set (anr_sessions d))"
  by (force simp: register_session_def store_context_def Let_def)

lemma close_session_eq:
  "s \<in> set (app_container m) \<Longrightarrow> close_session s m =
     ret () ((inform (Stopping s) (inform (Sink_session_stopping s) (m\<lparr>anr := unregister_session s (anr m)\<rparr>)))\<lparr>app_container := remove1 s (app_container m)\<rparr>)"
  by (simp add: close_session_def remove_session_from_def Let_def ret_def)

lemma close_session_inv: "manager_inv m \<Longrightarrow> manager_inv (state_of (close_session s m))"
proof (cases "s \<in> set (app_container m)")
  case True
  moreover assume "manager_inv m"
  ultimately show ?thesis by (force simp: close_session_eq manager_inv_def unregister_session_def)
next
  case False
  moreover assume "manager_inv m"
  ultimately have "filter (\<lambda>e. fst e \<noteq> s) (anr_sessions (anr m)) = anr_sessions (anr m)" by (force simp: filter_id_conv manager_inv_def)
  with False \<open>manager_inv m\<close> show ?thesis
    by (simp add: close_session_def remove_session_from_def manager_inv_def unregister_session_def Let_def throw_def state_of_def)
qed

lemma manager_run_inv: "manager_run m \<Longrightarrow> manager_inv m"
proof (induction rule: manager_run.induct)
  case (opened m s)
  then show ?case by (simp add: manager_inv_def open_session_def insert_session_def registered_ids Let_def)
qed (simp_all add: close_session_inv, simp_all add: manager_inv_def make_manager_def new_detector_def set_focus_to_session_def unset_focus_def)

lemma close_all_empties:
  "manager_inv m \<Longrightarrow> app_container m = ss \<Longrightarrow> \<exists>m'. close_all ss m = ret () m' \<and> app_container m' = [] \<and> anr_sessions (anr m') = []"
proof (induction ss arbitrary: m)
  case Nil
  then show ?case by (simp add: manager_inv_def)
next
  case (Cons s ss)
  have "s \<in> set (app_container m)" using Cons.prems(2) by simp
  note eq = close_session_eq [OF this]
  have "app_container (state_of (close_session s m)) = ss" using Cons.prems(2) by (simp add: eq)
  from Cons.IH [OF close_session_inv [OF Cons.prems(1), of s] this] show ?case by (simp add: eq)
qed

text \<open>A session with three surfaces.\<close>

definition sample_params :: "nat creation_params" where
  "sample_params = \<lparr>cp_content = Some 9, cp_size = Size 4 3, cp_streams = None, cp_state = Some State_restored, cp_type = None, cp_orientation = None,
     cp_input_shape = None, cp_depth_layer = None, cp_application_id = None\<rparr>"

definition sample_session :: "(nat, nat) app_session" where
  "sample_session = state_of (create_surface 3 sample_params False (state_of (create_surface 2 sample_params False (state_of (create_surface 1 sample_params True make_session)))))"

lemma sample_surfaces: "as_surfaces sample_session = [1, 2, 3]"
  by (simp add: sample_session_def create_surface_def sample_params_def make_session_def Let_def)

lemma sample_session_run: "session_run sample_session"
  unfolding sample_session_def
  by (intro session_run.create session_run.start) (simp_all add: create_surface_def sample_params_def make_session_def Let_def)

section \<open>Properties\<close>

text \<open>
  C24: A session owns its surfaces: whatever it is asked to do, no surface is there twice, exactly its surfaces have an entry for their content, the entry is
  the first of the streams that the surface was made with (none, if that stream did not exist any more), and the surfaces it
  put on the stack and did not take off are exactly its surfaces.  Destroying a surface it does not have is an error and changes nothing.  A snapshot is one of the
  content of the first surface as long as that stream exists, it is an error when the stream is gone, and empty without surfaces.  The end of
  the session takes all its surfaces off the stack.  It is assumed that the factory makes new surfaces.
\<close>

theorem session_owns_its_surfaces:
  assumes "session_run s"
  shows "distinct (as_surfaces s) \<and> dom (as_content s) = set (as_surfaces s) \<and>
    (w \<in> set (as_surfaces s) \<longrightarrow> as_content s w = made_with (as_notes s) w) \<and>
    take_snapshot live s = (case as_surfaces s of
        [] \<Rightarrow> ret Empty_snapshot s
      | v # _ \<Rightarrow> (case the (made_with (as_notes s) v) of
          Some b \<Rightarrow> if live b then ret (Snapshot_of b) s else throw (Logic_error ''Buffer was dropped without being removed from default_content_map'') s
        | None \<Rightarrow> throw (Logic_error ''Buffer was dropped without being removed from default_content_map'') s)) \<and>
    mset (stacked (as_notes s)) = mset (unstacked (as_notes s)) + mset (as_surfaces s) \<and>
    (w \<notin> set (as_surfaces s) \<longrightarrow> destroy_surface w s = throw (Runtime_error ''Invalid surface'') s) \<and>
    (w \<in> set (as_surfaces s) \<longrightarrow> as_surfaces (state_of (destroy_surface w s)) = remove1 w (as_surfaces s)) \<and>
    mset (stacked (as_notes (destroy_session s))) = mset (unstacked (as_notes (destroy_session s)))"
proof -
  have inv: "session_inv s" using assms by (rule session_run_inv)
  then have "destroy_surface w s = throw (Runtime_error ''Invalid surface'') s" if "w \<notin> set (as_surfaces s)"
    using that by (simp add: destroy_surface_def)
  moreover have "as_surfaces (state_of (destroy_surface w s)) = remove1 w (as_surfaces s)" if w: "w \<in> set (as_surfaces s)"
  proof -
    have "as_content s w \<noteq> None" by (rule has_content [OF inv w])
    with w show ?thesis by (auto simp: destroy_surface_def Let_def)
  qed
  moreover have "as_content s v = made_with (as_notes s) v" if "as_surfaces s = v # ws" for v ws using inv that by (simp add: session_inv_def)
  then have "take_snapshot live s = (case as_surfaces s of
      [] \<Rightarrow> ret Empty_snapshot s
    | v # _ \<Rightarrow> (case the (made_with (as_notes s) v) of
        Some b \<Rightarrow> if live b then ret (Snapshot_of b) s else throw (Logic_error ''Buffer was dropped without being removed from default_content_map'') s
      | None \<Rightarrow> throw (Logic_error ''Buffer was dropped without being removed from default_content_map'') s))"
    by (simp add: take_snapshot_result [OF inv] split: list.split)
  ultimately show ?thesis using inv by (simp add: session_inv_def destroy_session_notes)
qed

theorem session_owns_its_surfaces_witness:
  "destroy_surface 7 sample_session = throw (Runtime_error ''Invalid surface'') sample_session \<and> as_surfaces (state_of (destroy_surface 2 sample_session)) = [1, 3] \<and>
   take_snapshot (\<lambda>b. b = 9) sample_session = ret (Snapshot_of 9) sample_session"
proof -
  have "the (made_with (as_notes sample_session) 1) = Some 9"
    by (simp add: sample_session_def create_surface_def sample_params_def make_session_def report_def Let_def configured_def)
  then show ?thesis
    using session_owns_its_surfaces [OF sample_session_run, of 7 "\<lambda>b. b = 9"] session_owns_its_surfaces [OF sample_session_run, of 2] by (simp add: sample_surfaces)
qed

text \<open>
  The surface after one of a session's surfaces is the next one, in cyclic order and ending with the surface itself, that can take the focus.  When no surface of
  the session can, the result is the surface that follows, although it cannot take the focus, and nothing when the surface is the last; a surface
  of another session is an error.
\<close>

theorem surface_after_is_the_next_focusable:
  fixes type_of :: "'w \<Rightarrow> window_type" and s :: "('w, 'b) app_session"
  assumes "session_run s" "i < length (as_surfaces s)"
  shows "surface_after type_of (as_surfaces s ! i) s =
    (case find (can_take_focus \<circ> type_of) (drop (Suc i) (as_surfaces s) @ take (Suc i) (as_surfaces s)) of
       Some w \<Rightarrow> Inr (Some w)
     | None \<Rightarrow> Inr (if Suc i < length (as_surfaces s) then Some (as_surfaces s ! Suc i) else None)) \<and>
    (w \<notin> set (as_surfaces s) \<longrightarrow>
       surface_after type_of w s = Inl (Runtime_error ''surface_after: surface is not a member of this session''))"
  using surface_after_cases [OF _ assms(2) refl] surface_after_stranger [of w s type_of] session_run_inv [OF assms(1)] by (simp add: session_inv_def)

theorem surface_after_is_the_next_focusable_witness:
  "surface_after (\<lambda>w. if w = 2 then Type_tip else Type_normal) 1 sample_session = Inr (Some 3) \<and>
   surface_after (\<lambda>w. Type_tip) 1 sample_session = Inr (Some 2) \<and> \<not> can_take_focus Type_tip"
  using surface_after_is_the_next_focusable [OF sample_session_run, of 0 "\<lambda>w. if w = 2 then Type_tip else Type_normal"]
    surface_after_is_the_next_focusable [OF sample_session_run, of 0 "\<lambda>w. Type_tip"]
  by (simp add: sample_surfaces can_take_focus_def)

text \<open>
  Exactly the open sessions are watched for not responding, and the end of the manager closes every session without an error.
\<close>

theorem open_sessions_are_watched:
  assumes "manager_run m"
  shows "fst ` set (anr_sessions (anr m)) = set (app_container m) \<and>
    (\<exists>m'. destroy_manager m = ret () m' \<and> app_container m' = [] \<and> anr_sessions (anr m') = [])"
  using manager_run_inv [OF assms] close_all_empties [of m] by (simp add: destroy_manager_def manager_inv_def)

theorem open_sessions_are_watched_witness:
  "fst ` set (anr_sessions (anr (open_session 5 (open_session (4 :: nat) make_manager)))) = {4, 5}"
proof -
  have "manager_run (open_session 5 (open_session (4 :: nat) make_manager))"
    by (intro manager_run.opened manager_run.start) (simp_all add: make_manager_def open_session_def insert_session_def Let_def)
  from open_sessions_are_watched [OF this] show ?thesis by (auto simp: make_manager_def open_session_def insert_session_def Let_def)
qed

end
