(* ===== verification/Schedules.thy ===== *)
theory Schedules
  imports Prelude
begin

text \<open>
  The buffer schedules of the compositor: the interface \<open>Schedule\<close> of \<open>schedule.h\<close> as a locale, and
  its two implementations \<open>QueueingSchedule\<close> and \<open>DroppingSchedule\<close>.  A buffer is known by its
  \<open>shared_ptr\<close>, here a value of the type variable \<open>'b\<close>; the only caller that schedules buffers,
  \<open>Stream::submit_buffer\<close>, rejects null pointers first, so an entry of a schedule is never null.
  An operation runs under the schedule's mutex and is one atomic step.
\<close>

section \<open>The two implementations\<close>

type_synonym 'b queueing_schedule = "'b list"
type_synonym 'b dropping_schedule = "'b option"

definition queueing_schedule :: "'b queueing_schedule \<Rightarrow> 'b \<Rightarrow> 'b queueing_schedule" where
  "queueing_schedule queue buffer =
     (if buffer \<in> set queue then remove1 buffer queue @ [buffer] else queue @ [buffer])"

definition queueing_num_scheduled :: "'b queueing_schedule \<Rightarrow> nat" where
  "queueing_num_scheduled queue = length queue"

fun queueing_next_buffer :: "'b queueing_schedule \<Rightarrow> ('b queueing_schedule, 'b) outcome" where
  "queueing_next_buffer [] = throw (Logic_error ''no buffer scheduled'') []"
| "queueing_next_buffer (buffer # queue) = ret buffer queue"

definition dropping_schedule :: "'b dropping_schedule \<Rightarrow> 'b \<Rightarrow> 'b dropping_schedule" where
  "dropping_schedule the_only_buffer buffer = Some buffer"

definition dropping_num_scheduled :: "'b dropping_schedule \<Rightarrow> nat" where
  "dropping_num_scheduled the_only_buffer = (if the_only_buffer \<noteq> None then 1 else 0)"

fun dropping_next_buffer :: "'b dropping_schedule \<Rightarrow> ('b dropping_schedule, 'b) outcome" where
  "dropping_next_buffer None = throw (Logic_error ''no buffer scheduled'') None"
| "dropping_next_buffer (Some buffer) = ret buffer None"

text \<open>A pointer to \<open>Schedule\<close> points to an object of either class; its virtual calls dispatch on
  the class.\<close>

datatype 'b schedule =
    QueueingSchedule "'b queueing_schedule"
  | DroppingSchedule "'b dropping_schedule"

fun schedule_buffer :: "'b schedule \<Rightarrow> 'b \<Rightarrow> 'b schedule" where
  "schedule_buffer (QueueingSchedule q) b = QueueingSchedule (queueing_schedule q b)"
| "schedule_buffer (DroppingSchedule d) b = DroppingSchedule (dropping_schedule d b)"

fun num_scheduled :: "'b schedule \<Rightarrow> nat" where
  "num_scheduled (QueueingSchedule q) = queueing_num_scheduled q"
| "num_scheduled (DroppingSchedule d) = dropping_num_scheduled d"

fun next_buffer :: "'b schedule \<Rightarrow> ('b schedule, 'b) outcome" where
  "next_buffer (QueueingSchedule q) =
     and_then (queueing_next_buffer q) (\<lambda>b q'. ret b (QueueingSchedule q')) QueueingSchedule"
| "next_buffer (DroppingSchedule d) =
     and_then (dropping_next_buffer d) (\<lambda>b d'. ret b (DroppingSchedule d')) DroppingSchedule"

section \<open>What a client may rely on\<close>

text \<open>\<open>pending\<close> is the abstract content: the buffers in the order \<open>next_buffer\<close> hands them out.\<close>

locale buffer_schedule =
  fixes sched :: "'s \<Rightarrow> 'b \<Rightarrow> 's"
    and num :: "'s \<Rightarrow> nat"
    and nxt :: "'s \<Rightarrow> ('s, 'b) outcome"
    and pending :: "'s \<Rightarrow> 'b list"
  assumes num_pending: "num s = length (pending s)"
    and nxt_none: "pending s = [] \<Longrightarrow> nxt s = throw (Logic_error ''no buffer scheduled'') s"
    and nxt_pop: "pending s = b # bs \<Longrightarrow> \<exists>s'. nxt s = ret b s' \<and> pending s' = bs"
    and sched_last: "pending (sched s b) \<noteq> [] \<and> last (pending (sched s b)) = b"
    and sched_only: "set (pending (sched s b)) \<subseteq> insert b (set (pending s))"
    and sched_distinct: "distinct (pending s) \<Longrightarrow> distinct (pending (sched s b))"
begin

lemma nxt_throws_iff: "(\<exists>e. result_of (nxt s) = Inl e) \<longleftrightarrow> num s = 0"
proof (cases "pending s")
  case Nil
  then show ?thesis by (simp add: num_pending nxt_none)
next
  case (Cons b bs)
  with nxt_pop obtain s' where "nxt s = ret b s'" by blast
  with Cons show ?thesis by (simp add: num_pending)
qed

lemma nxt_decreases: "0 < num s \<Longrightarrow> num (state_of (nxt s)) < num s"
proof -
  assume "0 < num s"
  then obtain b bs where "pending s = b # bs" by (cases "pending s") (auto simp: num_pending)
  with nxt_pop obtain s' where "nxt s = ret b s'" "pending s' = bs" by blast
  with \<open>pending s = b # bs\<close> show ?thesis by (simp add: num_pending)
qed

lemma nxt_pending: "pending (state_of (nxt s)) = tl (pending s)"
proof (cases "pending s")
  case Nil
  then show ?thesis by (simp add: nxt_none)
next
  case (Cons b bs)
  with nxt_pop obtain s' where "nxt s = ret b s'" "pending s' = bs" by blast
  with Cons show ?thesis by simp
qed

lemma sched_in: "b \<in> set (pending (sched s b))"
  using sched_last [of s b] last_in_set by metis

lemma sched_num_pos: "0 < num (sched s b)"
  using sched_last by (simp add: num_pending)

end

definition dropping_pending :: "'b dropping_schedule \<Rightarrow> 'b list" where
  "dropping_pending d = (case d of None \<Rightarrow> [] | Some b \<Rightarrow> [b])"

interpretation queueing: buffer_schedule queueing_schedule queueing_num_scheduled queueing_next_buffer "\<lambda>q. q"
  by unfold_locales
    (auto simp: queueing_schedule_def queueing_num_scheduled_def dest: in_set_remove1)

interpretation dropping: buffer_schedule dropping_schedule dropping_num_scheduled dropping_next_buffer dropping_pending
  by unfold_locales
    (auto simp: dropping_schedule_def dropping_num_scheduled_def dropping_pending_def
      split: option.splits)

fun pending :: "'b schedule \<Rightarrow> 'b list" where
  "pending (QueueingSchedule q) = q"
| "pending (DroppingSchedule d) = dropping_pending d"

interpretation virtual: buffer_schedule schedule_buffer num_scheduled next_buffer pending
proof (unfold_locales, goal_cases)
  case (1 s)
  then show ?case
    by (cases s) (simp_all add: queueing.num_pending dropping.num_pending)
next
  case (2 s)
  then show ?case
    by (cases s) (auto simp: dropping_pending_def split: option.splits)
next
  case (3 s b bs)
  then show ?case
    by (cases s) (auto simp: dropping_pending_def split: option.splits)
next
  case (4 s b)
  then show ?case
    by (cases s) (simp_all add: queueing.sched_last dropping.sched_last)
next
  case (5 s b)
  then show ?case
    by (cases s) (simp_all add: queueing.sched_only dropping.sched_only)
next
  case (6 s b)
  then show ?case
    by (cases s) (simp_all add: queueing.sched_distinct dropping.sched_distinct)
qed

lemma pending_queueing_schedule:
  "distinct q \<Longrightarrow> queueing_schedule q b = removeAll b q @ [b]"
  by (simp add: queueing_schedule_def distinct_remove1_removeAll)

lemma next_buffer_decreases:
  "(Inr b, s') = next_buffer s \<Longrightarrow> 0 < num_scheduled s \<Longrightarrow> num_scheduled s' < num_scheduled s"
  using virtual.nxt_decreases [of s] by (metis snd_conv state_of_def)

section \<open>Emptying a schedule\<close>

text \<open>The loop \<open>while (schedule->num_scheduled()) v.emplace_back(schedule->next_buffer());\<close>.\<close>

function drain :: "'b schedule \<Rightarrow> ('b schedule, 'b list) outcome" where
  "drain s =
     (if num_scheduled s = 0 then ret [] s
      else case next_buffer s of
             (Inl e, s') \<Rightarrow> throw e s'
           | (Inr b, s') \<Rightarrow> and_then (drain s') (\<lambda>bs s''. ret (b # bs) s'') (\<lambda>s''. s''))"
  by pat_completeness auto
termination
  by (relation "measure num_scheduled") (auto intro: next_buffer_decreases)

declare drain.simps [simp del]

fun emptied :: "'b schedule \<Rightarrow> 'b schedule" where
  "emptied (QueueingSchedule q) = QueueingSchedule []"
| "emptied (DroppingSchedule d) = DroppingSchedule None"

lemma pending_emptied [simp]: "pending (emptied s) = []"
  by (cases s) (simp_all add: dropping_pending_def)

lemma emptied_next: "emptied (state_of (next_buffer s)) = emptied s"
  by (cases s) (auto elim!: queueing_next_buffer.elims dropping_next_buffer.elims
      simp: and_then_def state_of_def ret_def throw_def split: sum.splits prod.splits)

lemma pending_Nil_emptied: "pending s = [] \<Longrightarrow> emptied s = s"
  by (cases s) (auto simp: dropping_pending_def split: option.splits)

lemma drain_pending: "drain s = ret (pending s) (emptied s)"
proof (induction s rule: drain.induct)
  case (1 s)
  show ?case
  proof (cases "pending s")
    case Nil
    then show ?thesis
      by (simp add: drain.simps [of s] virtual.num_pending pending_Nil_emptied)
  next
    case (Cons b bs)
    then obtain s' where s': "next_buffer s = ret b s'" "pending s' = bs"
      using virtual.nxt_pop [OF Cons] by blast
    have "emptied s' = emptied s"
      using emptied_next [of s] s' by simp
    moreover have n: "num_scheduled s \<noteq> 0" using Cons by (simp add: virtual.num_pending)
    moreover have "drain s' = ret (pending s') (emptied s')"
      using "1.IH" [OF n] s' by (simp add: ret_def)
    ultimately show ?thesis
      using Cons s' by (subst drain.simps) (simp add: ret_def and_then_def)
  qed
qed

lemma pending_foldl_queueing:
  "distinct (q @ bs) \<Longrightarrow>
   foldl schedule_buffer (QueueingSchedule q) bs = QueueingSchedule (q @ bs)"
  by (induction bs arbitrary: q) (auto simp: queueing_schedule_def)

lemma pending_foldl_dropping:
  "foldl schedule_buffer (DroppingSchedule d) bs = DroppingSchedule (if bs = [] then d else Some (last bs))"
  by (induction bs arbitrary: d) (auto simp: dropping_schedule_def)

end
