(* ===== verification/Arbiter.thy ===== *)
theory Arbiter
  imports Schedules
begin

text \<open>
  \<open>MultiMonitorArbiter\<close>: hands the current buffer of a stream to every compositor and advances to the
  next scheduled buffer only when a compositor asks that has already used the current one.  The
  arbiter and the stream that owns it hold pointers to the same schedule, so schedules live in a
  store indexed by address and an operation of the arbiter returns the store it leaves behind.
  Compositor ids are the opaque \<open>void const*\<close> of the source, values of the type variable \<open>'c\<close>.
\<close>

type_synonym 'b schedule_store = "nat \<Rightarrow> 'b schedule"

record ('b, 'c) arbiter =
  current_buffer :: "'b option"
  current_buffer_users :: "'c option list"
  arbiter_schedule :: nat

type_synonym ('b, 'c) arbiter_state = "'b schedule_store \<times> ('b, 'c) arbiter"

definition make_arbiter :: "nat \<Rightarrow> ('b, 'c) arbiter" where
  "make_arbiter sched = \<lparr>current_buffer = None, current_buffer_users = [], arbiter_schedule = sched\<rparr>"

fun add_user :: "'c option list \<Rightarrow> 'c \<Rightarrow> 'c option list" where
  "add_user [] i = [Some i]"
| "add_user (slot # slots) i = (if slot = None then Some i # slots else slot # add_user slots i)"

definition add_current_buffer_user :: "('b, 'c) arbiter \<Rightarrow> 'c \<Rightarrow> ('b, 'c) arbiter" where
  "add_current_buffer_user a i = a\<lparr>current_buffer_users := add_user (current_buffer_users a) i\<rparr>"

definition is_user_of_current_buffer :: "('b, 'c) arbiter \<Rightarrow> 'c \<Rightarrow> bool" where
  "is_user_of_current_buffer a i \<longleftrightarrow>
     list_ex (\<lambda>slot. case slot of Some u \<Rightarrow> u = i | None \<Rightarrow> False) (current_buffer_users a)"

definition clear_current_users :: "('b, 'c) arbiter \<Rightarrow> ('b, 'c) arbiter" where
  "clear_current_users a = a\<lparr>current_buffer_users := map (\<lambda>_. None) (current_buffer_users a)\<rparr>"

text \<open>\<open>current_buffer = schedule->next_buffer(); clear_current_users();\<close>\<close>

definition take_next_buffer :: "('b, 'c) arbiter_state \<Rightarrow> (('b, 'c) arbiter_state, unit) outcome" where
  "take_next_buffer st = (case st of (h, a) \<Rightarrow>
     and_then (next_buffer (h (arbiter_schedule a)))
       (\<lambda>b s'. ret () (h(arbiter_schedule a := s'), clear_current_users (a\<lparr>current_buffer := Some b\<rparr>)))
       (\<lambda>s'. (h(arbiter_schedule a := s'), a)))"

definition compositor_acquire :: "'c \<Rightarrow> ('b, 'c) arbiter_state \<Rightarrow> (('b, 'c) arbiter_state, 'b) outcome" where
  "compositor_acquire i st = (case st of (h, a) \<Rightarrow>
     and_then
       (if current_buffer a = None \<or> is_user_of_current_buffer a i
        then if num_scheduled (h (arbiter_schedule a)) > 0 then take_next_buffer st else ret () st
        else ret () st)
       (\<lambda>_ (h', a'). case current_buffer a' of
          None \<Rightarrow> throw (Logic_error ''no buffer to give to compositor'') (h', a')
        | Some b \<Rightarrow> ret b (h', add_current_buffer_user a' i))
       (\<lambda>st'. st'))"

definition snapshot_acquire :: "('b, 'c) arbiter_state \<Rightarrow> (('b, 'c) arbiter_state, 'b) outcome" where
  "snapshot_acquire st = (case st of (h, a) \<Rightarrow>
     and_then
       (if current_buffer a = None
        then if num_scheduled (h (arbiter_schedule a)) > 0 then take_next_buffer st
             else throw (Logic_error ''no buffer to give to snapshotter'') st
        else ret () st)
       (\<lambda>_ (h', a'). ret (the (current_buffer a')) (h', a'))
       (\<lambda>st'. st'))"

definition set_schedule :: "nat \<Rightarrow> ('b, 'c) arbiter \<Rightarrow> ('b, 'c) arbiter" where
  "set_schedule new_schedule a = a\<lparr>arbiter_schedule := new_schedule\<rparr>"

definition buffer_ready_for :: "'c \<Rightarrow> ('b, 'c) arbiter_state \<Rightarrow> bool" where
  "buffer_ready_for i st = (case st of (h, a) \<Rightarrow>
     if num_scheduled (h (arbiter_schedule a)) > 0 then True
     else if current_buffer a \<noteq> None \<and> \<not> is_user_of_current_buffer a i then True
     else False)"

definition advance_schedule :: "('b, 'c) arbiter_state \<Rightarrow> (('b, 'c) arbiter_state, unit) outcome" where
  "advance_schedule st = (case st of (h, a) \<Rightarrow>
     if num_scheduled (h (arbiter_schedule a)) > 0 then take_next_buffer st else ret () st)"

section \<open>Users of the current buffer\<close>

abbreviation arbiter_pending :: "('b, 'c) arbiter_state \<Rightarrow> 'b list" where
  "arbiter_pending st \<equiv> pending (fst st (arbiter_schedule (snd st)))"

definition users :: "('b, 'c) arbiter \<Rightarrow> 'c set" where
  "users a = {i. Some i \<in> set (current_buffer_users a)}"

lemma is_user_iff: "is_user_of_current_buffer a i \<longleftrightarrow> i \<in> users a"
  by (force simp: is_user_of_current_buffer_def users_def list_ex_iff split: option.splits)

lemma set_add_user: "Some j \<in> set (add_user us i) \<longleftrightarrow> j = i \<or> Some j \<in> set us"
  by (induction us i rule: add_user.induct) auto

lemma users_add [simp]: "users (add_current_buffer_user a i) = insert i (users a)"
  by (auto simp: users_def add_current_buffer_user_def set_add_user)

lemma users_clear [simp]: "users (clear_current_users a) = {}"
  by (auto simp: users_def clear_current_users_def)

lemma arbiter_update_sel [simp]:
  "current_buffer (add_current_buffer_user a i) = current_buffer a"
  "arbiter_schedule (add_current_buffer_user a i) = arbiter_schedule a"
  "current_buffer (clear_current_users a) = current_buffer a"
  "arbiter_schedule (clear_current_users a) = arbiter_schedule a"
  by (simp_all add: add_current_buffer_user_def clear_current_users_def)

lemma take_next_buffer_pop:
  assumes "pending (h (arbiter_schedule a)) = b # bs"
  shows "\<exists>s'. pending s' = bs \<and>
    take_next_buffer (h, a) =
      ret () (h(arbiter_schedule a := s'), clear_current_users (a\<lparr>current_buffer := Some b\<rparr>))"
  using virtual.nxt_pop [OF assms] by (auto simp: take_next_buffer_def)

section \<open>Behaviour of an acquisition\<close>

text \<open>Whether a request by \<open>i\<close> moves on to the next scheduled buffer.\<close>

definition advances_for :: "'c \<Rightarrow> ('b, 'c) arbiter_state \<Rightarrow> bool" where
  "advances_for i st \<longleftrightarrow>
     (current_buffer (snd st) = None \<or> i \<in> users (snd st)) \<and> arbiter_pending st \<noteq> []"

lemma compositor_acquire_advance:
  assumes "advances_for i (h, a)"
  shows "\<exists>h' a'. compositor_acquire i (h, a) = ret (hd (arbiter_pending (h, a))) (h', a') \<and>
    current_buffer a' = Some (hd (arbiter_pending (h, a))) \<and> users a' = {i} \<and>
    arbiter_schedule a' = arbiter_schedule a \<and>
    arbiter_pending (h', a') = tl (arbiter_pending (h, a)) \<and>
    (\<forall>k. k \<noteq> arbiter_schedule a \<longrightarrow> h' k = h k)"
proof -
  obtain b bs where p: "pending (h (arbiter_schedule a)) = b # bs"
    using assms by (cases "pending (h (arbiter_schedule a))") (auto simp: advances_for_def)
  with take_next_buffer_pop [of h a b bs] obtain s' where "pending s' = bs"
    "take_next_buffer (h, a) =
      ret () (h(arbiter_schedule a := s'), clear_current_users (a\<lparr>current_buffer := Some b\<rparr>))"
    by blast
  with assms p show ?thesis
    by (auto simp: compositor_acquire_def advances_for_def is_user_iff virtual.num_pending)
qed

lemma compositor_acquire_stay:
  assumes "\<not> advances_for i (h, a)"
  shows "compositor_acquire i (h, a) =
    (case current_buffer a of
       None \<Rightarrow> throw (Logic_error ''no buffer to give to compositor'') (h, a)
     | Some b \<Rightarrow> ret b (h, add_current_buffer_user a i))"
  using assms
  by (auto simp: compositor_acquire_def advances_for_def is_user_iff virtual.num_pending
      split: option.splits)

lemma compositor_acquire_fails_iff:
  "(\<exists>e. result_of (compositor_acquire i (h, a)) = Inl e) \<longleftrightarrow>
   current_buffer a = None \<and> arbiter_pending (h, a) = []"
proof (cases "advances_for i (h, a)")
  case True
  with compositor_acquire_advance [OF True] show ?thesis
    by (auto simp: advances_for_def)
next
  case False
  then show ?thesis
    by (auto simp: compositor_acquire_stay advances_for_def split: option.splits)
qed

lemma buffer_ready_iff:
  "buffer_ready_for i (h, a) \<longleftrightarrow>
     arbiter_pending (h, a) \<noteq> [] \<or> (current_buffer a \<noteq> None \<and> i \<notin> users a)"
  by (auto simp: buffer_ready_for_def is_user_iff virtual.num_pending)

text \<open>The result of an acquisition is always the buffer that is current afterwards, and the
  requester is one of its users.\<close>

lemma compositor_acquire_current:
  assumes "compositor_acquire i (h, a) = ret b (h', a')"
  shows "current_buffer a' = Some b \<and> i \<in> users a' \<and> arbiter_schedule a' = arbiter_schedule a"
proof (cases "advances_for i (h, a)")
  case True
  from compositor_acquire_advance [OF True] assms show ?thesis by auto
next
  case False
  with assms show ?thesis by (auto simp: compositor_acquire_stay split: option.splits)
qed

text \<open>A compositor that has taken the current buffer and finds nothing scheduled is not told that a
  buffer is ready.\<close>

lemma buffer_not_ready_after_acquire:
  assumes "compositor_acquire i (h, a) = ret b (h', a')" "arbiter_pending (h', a') = []"
  shows "\<not> buffer_ready_for i (h', a')"
  using compositor_acquire_current [OF assms(1)] assms(2) by (auto simp: buffer_ready_iff)

lemma compositor_acquire_pending:
  "arbiter_pending (state_of (compositor_acquire i (h, a))) =
     (if advances_for i (h, a) then tl (arbiter_pending (h, a)) else arbiter_pending (h, a))"
proof (cases "advances_for i (h, a)")
  case True
  from compositor_acquire_advance [OF True] True show ?thesis by auto
next
  case False
  then show ?thesis by (auto simp: compositor_acquire_stay split: option.splits)
qed

section \<open>One compositor sees the scheduled buffers in order\<close>

text \<open>\<open>n\<close> requests in a row by the same compositor.\<close>

fun acquire_n :: "nat \<Rightarrow> 'c \<Rightarrow> ('b, 'c) arbiter_state \<Rightarrow> (exn + 'b) list \<times> ('b, 'c) arbiter_state" where
  "acquire_n 0 i st = ([], st)"
| "acquire_n (Suc n) i st =
     (let r = compositor_acquire i st; (rs, st') = acquire_n n i (state_of r)
      in (result_of r # rs, st'))"

lemma acquire_n_pending:
  assumes "current_buffer (snd st) = None \<or> i \<in> users (snd st)" "n \<le> length (arbiter_pending st)"
  shows "fst (acquire_n n i st) = map Inr (take n (arbiter_pending st))"
  using assms
proof (induction n arbitrary: st)
  case (Suc n)
  obtain h a where st: "st = (h, a)" by (cases st)
  have adv: "advances_for i (h, a)"
    using Suc.prems st by (auto simp: advances_for_def)
  from compositor_acquire_advance [OF adv] obtain h' a' where step:
    "compositor_acquire i (h, a) = ret (hd (arbiter_pending (h, a))) (h', a')" "users a' = {i}"
    "arbiter_pending (h', a') = tl (arbiter_pending (h, a))" by blast
  have "fst (acquire_n n i (h', a')) = map Inr (take n (arbiter_pending (h', a')))"
    using Suc.prems st step by (intro Suc.IH) auto
  moreover have "take (Suc n) (arbiter_pending (h, a)) =
      hd (arbiter_pending (h, a)) # take n (tl (arbiter_pending (h, a)))"
    using adv by (cases "arbiter_pending (h, a)") (auto simp: advances_for_def)
  ultimately show ?case
    using step by (simp add: st split_def Let_def)
qed simp

text \<open>Requests that cannot advance add one more slot each, also for a compositor that is already a
  user.\<close>

lemma length_add_user_full: "\<forall>s\<in>set us. s \<noteq> None \<Longrightarrow> length (add_user us i) = Suc (length us)"
  by (induction us i rule: add_user.induct) auto

lemma add_user_full: "\<forall>s\<in>set us. s \<noteq> None \<Longrightarrow> \<forall>s\<in>set (add_user us i). s \<noteq> None"
  by (induction us i rule: add_user.induct) auto

lemma acquire_n_grows:
  assumes "arbiter_pending st = []" "current_buffer (snd st) = Some b"
    "\<forall>s\<in>set (current_buffer_users (snd st)). s \<noteq> None"
  shows "length (current_buffer_users (snd (snd (acquire_n n i st)))) =
    length (current_buffer_users (snd st)) + n"
  using assms
proof (induction n arbitrary: st)
  case (Suc n)
  obtain h a where st: "st = (h, a)" by (cases st)
  have "\<not> advances_for i (h, a)" using Suc.prems st by (simp add: advances_for_def)
  then have step: "compositor_acquire i st = ret b (h, add_current_buffer_user a i)"
    using Suc.prems by (simp add: st compositor_acquire_stay)
  have "length (current_buffer_users (snd (snd (acquire_n n i (h, add_current_buffer_user a i))))) =
      length (current_buffer_users (add_current_buffer_user a i)) + n"
    using Suc.prems Suc.IH [of "(h, add_current_buffer_user a i)"] st
    by (simp add: add_current_buffer_user_def add_user_full)
  then show ?case
    using Suc.prems st step
    by (simp add: split_def Let_def add_current_buffer_user_def length_add_user_full)
qed simp

section \<open>Properties\<close>

text \<open>C3: A compositor that is up to date (it has used the current buffer, or there is none yet) and
  asks for a buffer as many times as there are buffers scheduled gets all of them, in the order in
  which they were scheduled, and no request throws.\<close>
theorem compositor_receives_buffers_in_order:
  assumes "current_buffer a = None \<or> is_user_of_current_buffer a i"
    and "n \<le> num_scheduled (h (arbiter_schedule a))"
  shows "fst (acquire_n n i (h, a)) = map Inr (take n (arbiter_pending (h, a)))"
  using assms acquire_n_pending [of "(h, a)" i n] by (simp add: is_user_iff virtual.num_pending)

theorem compositor_receives_buffers_in_order_witness:
  "fst (acquire_n 3 (7::nat) (\<lambda>_. QueueingSchedule [10::nat, 11, 12], make_arbiter 0)) = [Inr 10, Inr 11, Inr 12]"
  using compositor_receives_buffers_in_order [of "make_arbiter 0 :: (nat, nat) arbiter" 7 3 "\<lambda>_. QueueingSchedule [10, 11, 12]"]
  by (simp add: make_arbiter_def queueing_num_scheduled_def)

text \<open>A successful acquisition returns the buffer that is current afterwards and records the
  requester as a user of it; it moves to the next scheduled buffer exactly when there is one and
  the requester had used the current one (or none was current), so no other compositor loses a
  frame that this one has not seen; afterwards the requester is told a buffer is ready only while
  some are scheduled.\<close>
theorem compositor_acquire_contract:
  assumes "compositor_acquire i (h, a) = ret b (h', a')"
  shows "current_buffer a' = Some b \<and> is_user_of_current_buffer a' i \<and>
    (if (current_buffer a = None \<or> is_user_of_current_buffer a i) \<and> arbiter_pending (h, a) \<noteq> []
     then b = hd (arbiter_pending (h, a)) \<and> arbiter_pending (h', a') = tl (arbiter_pending (h, a)) \<and> users a' = {i}
     else current_buffer a = Some b \<and> arbiter_pending (h', a') = arbiter_pending (h, a) \<and>
       users a' = insert i (users a)) \<and>
    (buffer_ready_for i (h', a') \<longleftrightarrow> 0 < num_scheduled (h' (arbiter_schedule a')))"
proof (cases "advances_for i (h, a)")
  case True
  with compositor_acquire_advance [OF True] assms show ?thesis
    by (auto simp: advances_for_def is_user_iff buffer_ready_iff virtual.num_pending)
next
  case False
  then have "current_buffer a = Some b" "h' = h" "a' = add_current_buffer_user a i"
    using assms by (auto simp: compositor_acquire_stay split: option.splits)
  with False show ?thesis
    by (auto simp: advances_for_def is_user_iff buffer_ready_iff virtual.num_pending)
qed

theorem compositor_acquire_contract_witness:
  "\<not> buffer_ready_for (7::nat) (\<lambda>_. QueueingSchedule [],
     \<lparr>current_buffer = Some (10::nat), current_buffer_users = [Some 8, Some 7], arbiter_schedule = 0\<rparr>)"
proof -
  have "compositor_acquire 7 (\<lambda>_. QueueingSchedule [],
      \<lparr>current_buffer = Some 10, current_buffer_users = [Some 8], arbiter_schedule = 0\<rparr>) =
    ret 10 (\<lambda>_. QueueingSchedule [],
      \<lparr>current_buffer = Some (10::nat), current_buffer_users = [Some 8, Some (7::nat)], arbiter_schedule = 0\<rparr>)"
    by (simp add: compositor_acquire_def is_user_of_current_buffer_def add_current_buffer_user_def)
  from compositor_acquire_contract [OF this] show ?thesis by (simp add: queueing_num_scheduled_def)
qed

text \<open>An acquisition throws exactly when there is neither a current buffer nor a scheduled one;
  in particular a compositor that was told a buffer is ready always gets one.\<close>
theorem compositor_acquire_throws_iff:
  "((\<exists>e. result_of (compositor_acquire i (h, a)) = Inl e) \<longleftrightarrow>
      current_buffer a = None \<and> num_scheduled (h (arbiter_schedule a)) = 0) \<and>
   (buffer_ready_for i (h, a) \<longrightarrow> (\<exists>b. result_of (compositor_acquire i (h, a)) = Inr b))"
proof -
  have "(\<exists>b. result_of (compositor_acquire i (h, a)) = Inr b) \<longleftrightarrow>
      \<not> (\<exists>e. result_of (compositor_acquire i (h, a)) = Inl e)"
    by (cases "result_of (compositor_acquire i (h, a))") auto
  then show ?thesis
    unfolding compositor_acquire_fails_iff by (auto simp: buffer_ready_iff virtual.num_pending)
qed

theorem compositor_acquire_throws_iff_witness:
  "\<exists>b. result_of (compositor_acquire (7::nat) (\<lambda>_. DroppingSchedule (Some (3::nat)), make_arbiter 0)) = Inr b"
  using compositor_acquire_throws_iff [of "7::nat" "\<lambda>_. DroppingSchedule (Some (3::nat))" "make_arbiter 0"]
  by (simp add: buffer_ready_for_def make_arbiter_def dropping_num_scheduled_def)

text \<open>A compositor that keeps acquiring while nothing new is scheduled is entered as a user of
  the current buffer again on every acquisition, so the vector of users grows by one slot each
  time.\<close>
theorem idle_acquisitions_grow_the_users:
  assumes "num_scheduled (h (arbiter_schedule a)) = 0" "current_buffer a = Some b"
    and "None \<notin> set (current_buffer_users a)"
  shows "length (current_buffer_users (snd (snd (acquire_n n i (h, a))))) =
    length (current_buffer_users a) + n"
proof -
  have "\<forall>s\<in>set (current_buffer_users a). s \<noteq> None" using assms(3) by metis
  with acquire_n_grows [of "(h, a)" b n i] assms(1,2) show ?thesis
    by (simp add: virtual.num_pending)
qed

theorem idle_acquisitions_grow_the_users_witness:
  "length (current_buffer_users (snd (snd (acquire_n 1000 (7::nat) (\<lambda>_. QueueingSchedule [],
     \<lparr>current_buffer = Some (10::nat), current_buffer_users = [Some 7], arbiter_schedule = 0\<rparr>))))) = 1001"
  using idle_acquisitions_grow_the_users
    [of "\<lambda>_. QueueingSchedule []" "\<lparr>current_buffer = Some 10, current_buffer_users = [Some 7], arbiter_schedule = 0\<rparr>" 10 1000 7]
  by (simp add: queueing_num_scheduled_def)

end
