(* ===== verification/Stream_Model.thy ===== *)
theory Stream_Model
  imports Arbiter Geometry
begin

text \<open>
  \<open>compositor::Stream\<close>: buffers submitted by a client are queued (or, with frame dropping, replace
  each other) and are handed to compositors by the arbiter.  The stream and its arbiter share one
  schedule object; the central invariant is that they agree on which one, in every state that the
  operations can reach.  The size and pixel format of a buffer are virtual functions of
  \<open>graphics::Buffer\<close> and enter as the parameters \<open>bsize\<close> and \<open>bformat\<close>; the frame callback is known by
  a number, and \<open>submit_buffer\<close> returns the call it makes.
\<close>

datatype schedule_mode = Queueing | Dropping

record ('b, 'c) stream =
  schedules :: "'b schedule_store"
  next_address :: nat
  schedule_mode :: schedule_mode
  stream_schedule :: nat
  arbiter :: "('b, 'c) arbiter"
  stream_size :: extent
  pixel_format :: nat
  first_frame_posted :: bool
  frame_callback :: nat

definition make_stream :: "extent \<Rightarrow> nat \<Rightarrow> ('b, 'c) stream" where
  "make_stream sz pf =
     \<lparr>schedules = (\<lambda>_. QueueingSchedule []), next_address = 1,
      schedule_mode = Queueing, stream_schedule = 0, arbiter = make_arbiter 0,
      stream_size = sz, pixel_format = pf, first_frame_posted = False, frame_callback = 0\<rparr>"

definition submit_buffer ::
  "('b \<Rightarrow> extent) \<Rightarrow> ('b \<Rightarrow> nat) \<Rightarrow> 'b option \<Rightarrow> ('b, 'c) stream \<Rightarrow>
   (('b, 'c) stream, nat \<times> extent) outcome" where
  "submit_buffer bsize bformat buffer s = (case buffer of
     None \<Rightarrow> throw (Invalid_argument ''cannot submit null buffer'') s
   | Some b \<Rightarrow>
       let a = stream_schedule s;
           s' = s\<lparr>first_frame_posted := True, pixel_format := bformat b, stream_size := bsize b,
                 schedules := (schedules s)(a := schedule_buffer (schedules s a) b)\<rparr>
       in ret (frame_callback s', bsize b) s')"

text \<open>Running an arbiter operation inside the stream writes back the store and the arbiter.\<close>

definition on_arbiter ::
  "(('b, 'c) arbiter_state \<Rightarrow> (('b, 'c) arbiter_state, 'a) outcome) \<Rightarrow> ('b, 'c) stream \<Rightarrow>
   (('b, 'c) stream, 'a) outcome" where
  "on_arbiter f s =
     (case f (schedules s, arbiter s) of (r, (h, a)) \<Rightarrow> (r, s\<lparr>schedules := h, arbiter := a\<rparr>))"

definition with_most_recent_buffer_do :: "('b, 'c) stream \<Rightarrow> (('b, 'c) stream, 'b) outcome" where
  "with_most_recent_buffer_do s = on_arbiter snapshot_acquire s"

definition set_frame_posted_callback :: "nat \<Rightarrow> ('b, 'c) stream \<Rightarrow> ('b, 'c) stream" where
  "set_frame_posted_callback cb s = s\<lparr>frame_callback := cb\<rparr>"

definition lock_compositor_buffer :: "'c \<Rightarrow> ('b, 'c) stream \<Rightarrow> (('b, 'c) stream, 'b) outcome" where
  "lock_compositor_buffer i s = on_arbiter (compositor_acquire i) s"

definition transition_schedule :: "'b schedule \<Rightarrow> ('b, 'c) stream \<Rightarrow> (('b, 'c) stream, unit) outcome" where
  "transition_schedule new_schedule s =
     (let old = stream_schedule s; new = next_address s in
      and_then (drain (schedules s old))
        (\<lambda>transferred_buffers emptied_schedule.
           ret () (s\<lparr>schedules := (schedules s)(old := emptied_schedule,
                                  new := foldl schedule_buffer new_schedule transferred_buffers),
                     next_address := Suc new,
                     stream_schedule := new,
                     arbiter := set_schedule new (arbiter s)\<rparr>))
        (\<lambda>sch. s\<lparr>schedules := (schedules s)(old := sch)\<rparr>))"

definition allow_framedropping :: "bool \<Rightarrow> ('b, 'c) stream \<Rightarrow> (('b, 'c) stream, unit) outcome" where
  "allow_framedropping dropping s =
     (if dropping \<and> schedule_mode s = Queueing
      then and_then (transition_schedule (DroppingSchedule None) s)
             (\<lambda>_ s'. ret () (s'\<lparr>schedule_mode := Dropping\<rparr>)) (\<lambda>s'. s')
      else if \<not> dropping \<and> schedule_mode s = Dropping
      then and_then (transition_schedule (QueueingSchedule []) s)
             (\<lambda>_ s'. ret () (s'\<lparr>schedule_mode := Queueing\<rparr>)) (\<lambda>s'. s')
      else ret () s)"

definition framedropping :: "('b, 'c) stream \<Rightarrow> bool" where
  "framedropping s \<longleftrightarrow> schedule_mode s = Dropping"

definition buffers_ready_for_compositor :: "'c \<Rightarrow> ('b, 'c) stream \<Rightarrow> int" where
  "buffers_ready_for_compositor i s =
     (if buffer_ready_for i (schedules s, arbiter s) then 1 else 0)"

definition drop_old_buffers :: "('b, 'c) stream \<Rightarrow> (('b, 'c) stream, unit) outcome" where
  "drop_old_buffers s =
     (let a = stream_schedule s in
      and_then (drain (schedules s a))
        (\<lambda>transferred_buffers emptied_schedule.
           let sch = (if transferred_buffers \<noteq> []
                      then schedule_buffer emptied_schedule (last transferred_buffers)
                      else emptied_schedule)
           in on_arbiter advance_schedule (s\<lparr>schedules := (schedules s)(a := sch)\<rparr>))
        (\<lambda>sch. s\<lparr>schedules := (schedules s)(a := sch)\<rparr>))"

definition has_submitted_buffer :: "('b, 'c) stream \<Rightarrow> bool" where
  "has_submitted_buffer s = first_frame_posted s"

section \<open>Reachable streams\<close>

datatype ('b, 'c) stream_op =
    Submit "'b option"
  | Snapshot
  | Set_callback nat
  | Lock_buffer 'c
  | Allow_framedropping bool
  | Drop_old

fun stream_exec ::
  "('b \<Rightarrow> extent) \<Rightarrow> ('b \<Rightarrow> nat) \<Rightarrow> ('b, 'c) stream_op \<Rightarrow> ('b, 'c) stream \<Rightarrow> ('b, 'c) stream" where
  "stream_exec bs bf (Submit b) s = state_of (submit_buffer bs bf b s)"
| "stream_exec bs bf Snapshot s = state_of (with_most_recent_buffer_do s)"
| "stream_exec bs bf (Set_callback c) s = set_frame_posted_callback c s"
| "stream_exec bs bf (Lock_buffer i) s = state_of (lock_compositor_buffer i s)"
| "stream_exec bs bf (Allow_framedropping d) s = state_of (allow_framedropping d s)"
| "stream_exec bs bf Drop_old s = state_of (drop_old_buffers s)"

inductive stream_reachable :: "('b \<Rightarrow> extent) \<Rightarrow> ('b \<Rightarrow> nat) \<Rightarrow> ('b, 'c) stream \<Rightarrow> bool"
  for bs bf where
  start: "stream_reachable bs bf (make_stream sz pf)"
| step: "stream_reachable bs bf s \<Longrightarrow> stream_reachable bs bf (stream_exec bs bf op s)"

fun mode_matches :: "schedule_mode \<Rightarrow> 'b schedule \<Rightarrow> bool" where
  "mode_matches Queueing (QueueingSchedule q) = True"
| "mode_matches Dropping (DroppingSchedule d) = True"
| "mode_matches _ _ = False"

text \<open>The buffers waiting in the stream, oldest first.\<close>

abbreviation stream_pending :: "('b, 'c) stream \<Rightarrow> 'b list" where
  "stream_pending s \<equiv> pending (schedules s (stream_schedule s))"

definition stream_inv :: "('b, 'c) stream \<Rightarrow> bool" where
  "stream_inv s \<longleftrightarrow>
     arbiter_schedule (arbiter s) = stream_schedule s \<and>
     stream_schedule s < next_address s \<and>
     mode_matches (schedule_mode s) (schedules s (stream_schedule s)) \<and>
     distinct (stream_pending s)"

lemma mode_matches_ops [simp]:
  "mode_matches m (schedule_buffer sch b) = mode_matches m sch"
  "mode_matches m (emptied sch) = mode_matches m sch"
  by (cases m; cases sch; simp)+

lemma mode_matches_next [simp]: "mode_matches m (state_of (next_buffer sch)) = mode_matches m sch"
  by (metis emptied_next mode_matches_ops(2))

lemma take_next_buffer_state:
  "state_of (take_next_buffer (h, a)) =
     (h(arbiter_schedule a := state_of (next_buffer (h (arbiter_schedule a)))),
      case next_buffer (h (arbiter_schedule a)) of
        (Inl e, _) \<Rightarrow> a
      | (Inr b, _) \<Rightarrow> clear_current_users (a\<lparr>current_buffer := Some b\<rparr>))"
  by (auto simp: take_next_buffer_def and_then_def state_of_def ret_def split: sum.splits prod.splits)

text \<open>An arbiter operation only pops from its own schedule: the part of its behaviour the stream
  invariant needs.\<close>

definition arbiter_safe ::
  "(('b, 'c) arbiter_state \<Rightarrow> (('b, 'c) arbiter_state, 'a) outcome) \<Rightarrow> bool" where
  "arbiter_safe f \<longleftrightarrow> (\<forall>h a r h' a'. f (h, a) = (r, (h', a')) \<longrightarrow>
     arbiter_schedule a' = arbiter_schedule a \<and>
     (h' = h \<or> h' = h(arbiter_schedule a := state_of (next_buffer (h (arbiter_schedule a))))))"

lemma take_next_buffer_safeD:
  assumes "take_next_buffer (h, a) = (r, (h', a'))"
  shows "arbiter_schedule a' = arbiter_schedule a \<and>
    h' = h(arbiter_schedule a := state_of (next_buffer (h (arbiter_schedule a))))"
  using assms take_next_buffer_state [of h a]
  by (auto simp: state_of_def split: sum.splits prod.splits)

lemma compositor_acquire_safe: "arbiter_safe (compositor_acquire i)"
  by (auto simp: arbiter_safe_def compositor_acquire_def and_then_def ret_def throw_def
      split: sum.splits prod.splits option.splits if_splits dest!: take_next_buffer_safeD)

lemma snapshot_acquire_safe: "arbiter_safe snapshot_acquire"
  by (auto simp: arbiter_safe_def snapshot_acquire_def and_then_def ret_def throw_def
      split: sum.splits prod.splits option.splits if_splits dest!: take_next_buffer_safeD)

lemma advance_schedule_safe: "arbiter_safe advance_schedule"
  by (auto simp: arbiter_safe_def advance_schedule_def ret_def
      split: if_splits dest!: take_next_buffer_safeD)

lemmas arbiter_ops_safe = compositor_acquire_safe snapshot_acquire_safe advance_schedule_safe

lemma stream_inv_on_arbiter:
  assumes "arbiter_safe f" "stream_inv s"
  shows "stream_inv (state_of (on_arbiter f s))"
proof -
  obtain r h a where f: "f (schedules s, arbiter s) = (r, (h, a))" by (metis prod.exhaust)
  then have "arbiter_schedule a = arbiter_schedule (arbiter s) \<and>
      (h = schedules s \<or> h = (schedules s)(arbiter_schedule (arbiter s) :=
        state_of (next_buffer (schedules s (arbiter_schedule (arbiter s))))))"
    using assms(1) unfolding arbiter_safe_def by blast
  then show ?thesis
    using assms(2) f
    by (auto simp: stream_inv_def on_arbiter_def state_of_def [of "(_, _)"] virtual.nxt_pending distinct_tl)
qed

lemma stream_inv_submit: "stream_inv s \<Longrightarrow> stream_inv (state_of (submit_buffer bs bf b s))"
  by (auto simp: stream_inv_def submit_buffer_def Let_def virtual.sched_distinct split: option.splits)

lemma transition_schedule_eq:
  "transition_schedule new s = ret ()
     (s\<lparr>schedules := (schedules s)(stream_schedule s := emptied (schedules s (stream_schedule s)),
          next_address s := foldl schedule_buffer new (stream_pending s)),
        next_address := Suc (next_address s), stream_schedule := next_address s,
        arbiter := set_schedule (next_address s) (arbiter s)\<rparr>)"
  by (simp add: transition_schedule_def drain_pending Let_def)

lemma allow_framedropping_pending:
  assumes "stream_inv s"
  shows "stream_inv (state_of (allow_framedropping d s)) \<and>
    result_of (allow_framedropping d s) = Inr () \<and>
    framedropping (state_of (allow_framedropping d s)) = d \<and>
    stream_pending (state_of (allow_framedropping d s)) =
      (if d \<and> \<not> framedropping s \<and> stream_pending s \<noteq> [] then [last (stream_pending s)]
       else stream_pending s)"
proof -
  have "distinct (stream_pending s)" using assms by (simp add: stream_inv_def)
  with assms show ?thesis
    by (cases "schedule_mode s"; cases d)
      (auto simp: allow_framedropping_def transition_schedule_eq stream_inv_def set_schedule_def
        framedropping_def pending_foldl_dropping pending_foldl_queueing dropping_pending_def)
qed

lemma drop_old_buffers_eq:
  "drop_old_buffers s =
     (let a = stream_schedule s; e = emptied (schedules s a);
          sch = (if stream_pending s \<noteq> [] then schedule_buffer e (last (stream_pending s)) else e)
      in on_arbiter advance_schedule (s\<lparr>schedules := (schedules s)(a := sch)\<rparr>))"
  by (simp add: drop_old_buffers_def drain_pending Let_def)

lemma pending_schedule_emptied [simp]: "pending (schedule_buffer (emptied sch) b) = [b]"
  by (cases sch) (auto simp: queueing_schedule_def dropping_schedule_def dropping_pending_def)

lemma stream_inv_drop_old: "stream_inv s \<Longrightarrow> stream_inv (state_of (drop_old_buffers s))"
  unfolding drop_old_buffers_eq Let_def
  by (rule stream_inv_on_arbiter [OF advance_schedule_safe]) (auto simp: stream_inv_def)

lemma drop_old_buffers_current:
  assumes "stream_inv s" "stream_pending s \<noteq> []"
  shows "drop_old_buffers s = ret () (state_of (drop_old_buffers s)) \<and>
    current_buffer (arbiter (state_of (drop_old_buffers s))) = Some (last (stream_pending s)) \<and>
    stream_pending (state_of (drop_old_buffers s)) = [] \<and>
    users (arbiter (state_of (drop_old_buffers s))) = {}"
proof -
  let ?a = "stream_schedule s" and ?b = "last (stream_pending s)"
  let ?h = "(schedules s)(?a := schedule_buffer (emptied (schedules s ?a)) ?b)"
  have a: "arbiter_schedule (arbiter s) = ?a" using assms(1) by (simp add: stream_inv_def)
  have "pending (?h (arbiter_schedule (arbiter s))) = ?b # []" by (simp add: a)
  from take_next_buffer_pop [of ?h "arbiter s", OF this] obtain s' where "pending s' = []"
    "take_next_buffer (?h, arbiter s) =
       ret () (?h(?a := s'), clear_current_users ((arbiter s)\<lparr>current_buffer := Some ?b\<rparr>))"
    by (auto simp: a)
  then show ?thesis
    using assms(2) a
    by (simp add: drop_old_buffers_eq Let_def on_arbiter_def advance_schedule_def
        virtual.num_pending) (simp add: ret_def state_of_def)
qed

lemma stream_inv_make: "stream_inv (make_stream sz pf)"
  by (simp add: stream_inv_def make_stream_def make_arbiter_def)

lemma stream_inv_exec: "stream_inv s \<Longrightarrow> stream_inv (stream_exec bs bf op s)"
proof (cases op)
  case (Set_callback c)
  then show "stream_inv s \<Longrightarrow> ?thesis"
    by (simp add: stream_inv_def set_frame_posted_callback_def)
next
  case (Allow_framedropping d)
  then show "stream_inv s \<Longrightarrow> ?thesis" using allow_framedropping_pending by auto
qed (simp_all add: stream_inv_submit stream_inv_drop_old stream_inv_on_arbiter arbiter_ops_safe
    with_most_recent_buffer_do_def lock_compositor_buffer_def)

lemma stream_reachable_inv: "stream_reachable bs bf s \<Longrightarrow> stream_inv s"
  by (induction rule: stream_reachable.induct) (auto intro: stream_inv_make stream_inv_exec)

section \<open>Properties\<close>

text \<open>C2: In every state a stream can reach by any sequence of its operations, it and its arbiter
  use the same schedule object, the class of that object is the one the mode names, and no buffer
  is waiting twice.\<close>
theorem reachable_stream_consistent:
  assumes "stream_reachable bs bf s"
  shows "arbiter_schedule (arbiter s) = stream_schedule s \<and>
    mode_matches (schedule_mode s) (schedules s (stream_schedule s)) \<and>
    distinct (pending (schedules s (stream_schedule s)))"
  using stream_reachable_inv [OF assms] by (simp add: stream_inv_def)

theorem reachable_stream_consistent_witness:
  "arbiter_schedule (arbiter (stream_exec (\<lambda>_::nat. Size 1 1) (\<lambda>_. 0) (Allow_framedropping True)
     (stream_exec (\<lambda>_. Size 1 1) (\<lambda>_. 0) (Submit (Some 5)) (make_stream (Size 1 1) 0) :: (nat, nat) stream))) = 1"
proof -
  let ?s = "stream_exec (\<lambda>_::nat. Size 1 1) (\<lambda>_. 0) (Allow_framedropping True)
     (stream_exec (\<lambda>_. Size 1 1) (\<lambda>_. 0) (Submit (Some 5)) (make_stream (Size 1 1) 0) :: (nat, nat) stream)"
  have "stream_reachable (\<lambda>_. Size 1 1) (\<lambda>_. 0) ?s" by (intro stream_reachable.intros)
  from reachable_stream_consistent [OF this] show ?thesis
    by (simp add: allow_framedropping_def submit_buffer_def make_stream_def transition_schedule_eq)
qed

text \<open>Switching frame dropping on or off on a reachable stream succeeds, sets the mode, and
  loses no waiting buffer except what frame dropping means: when it is switched on, only the newest
  waiting buffer remains.\<close>
theorem framedropping_transition:
  assumes "stream_reachable bs bf s"
  shows "result_of (allow_framedropping d s) = Inr () \<and>
    framedropping (state_of (allow_framedropping d s)) = d \<and>
    stream_pending (state_of (allow_framedropping d s)) =
      (if d \<and> \<not> framedropping s \<and> stream_pending s \<noteq> [] then [last (stream_pending s)]
       else stream_pending s)"
  using allow_framedropping_pending [OF stream_reachable_inv [OF assms], of d] by simp

theorem framedropping_transition_witness:
  "framedropping (state_of (allow_framedropping True (make_stream (Size 4 4) 0 :: (nat, nat) stream)))"
  using framedropping_transition [OF stream_reachable.start, of True] by blast

text \<open>Dropping old buffers on a reachable stream with waiting buffers makes the newest of them
  the current buffer, with no users yet, and leaves none waiting.\<close>
theorem drop_old_buffers_keeps_newest:
  assumes "stream_reachable bs bf s" "stream_pending s \<noteq> []"
  shows "result_of (drop_old_buffers s) = Inr () \<and>
    current_buffer (arbiter (state_of (drop_old_buffers s))) = Some (last (stream_pending s)) \<and>
    stream_pending (state_of (drop_old_buffers s)) = [] \<and>
    users (arbiter (state_of (drop_old_buffers s))) = {}"
  using drop_old_buffers_current [OF stream_reachable_inv [OF assms(1)] assms(2)]
  by (metis outcome_sel(3))

theorem drop_old_buffers_keeps_newest_witness:
  "current_buffer (arbiter (state_of (drop_old_buffers
     (stream_exec (\<lambda>_. Size 1 1) (\<lambda>_. 0) (Submit (Some 6))
       (stream_exec (\<lambda>_. Size 1 1) (\<lambda>_. 0) (Submit (Some (5::nat))) (make_stream (Size 1 1) 0) :: (nat, nat) stream))))) = Some 6"
proof -
  let ?s = "stream_exec (\<lambda>_. Size 1 1) (\<lambda>_. 0) (Submit (Some 6))
       (stream_exec (\<lambda>_. Size 1 1) (\<lambda>_. 0) (Submit (Some (5::nat))) (make_stream (Size 1 1) 0) :: (nat, nat) stream)"
  have "stream_reachable (\<lambda>_. Size 1 1) (\<lambda>_. 0) ?s" by (intro stream_reachable.intros)
  moreover have "stream_pending ?s = [5, 6]"
    by (simp add: submit_buffer_def make_stream_def queueing_schedule_def)
  ultimately show ?thesis using drop_old_buffers_keeps_newest [of _ _ ?s] by simp
qed

end
