(* ===== verification/Occlusion.thy ===== *)
theory Occlusion
  imports Geometry "HOL-Library.Sublist" Complex_Main
begin

text \<open>
  \<open>compositor/occlusion.cpp\<close>: before a display is composited, the scene elements that opaque elements
  above them hide completely are taken out of the list.  A renderable enters by the values of the
  virtual functions that the code calls: its transformation (the sixteen entries of the \<open>mat4\<close>),
  its screen position, its clip area, its alpha and whether it is shaped.  Single precision values are
  rational numbers, and the code only compares them.  The filter never asks for the clip area, to which
  the renderer cuts what it draws (\<open>src/renderers/gl/renderer.cpp\<close>, \<open>Renderer::draw\<close>).  The main lemma is
  that the picture does not change: at every point of the display that no clip area cuts out of an opaque
  element, the stack of elements that contribute is the same after filtering.
\<close>

record renderable =
  transformation :: "rat list"
  screen_position :: rectangle
  renderable_clip :: "rectangle option"
  alpha :: rat
  shaped :: bool

definition identity_mat4 :: "rat list" where
  "identity_mat4 = [1,0,0,0, 0,1,0,0, 0,0,1,0, 0,0,0,1]"

definition renderable_is_occluded ::
  "renderable \<Rightarrow> rectangle \<Rightarrow> rectangle list \<Rightarrow> bool \<times> rectangle list" where
  "renderable_is_occluded r area coverage =
     (if transformation r \<noteq> identity_mat4 then (False, coverage)
      else let clipped_window = intersection_with (screen_position r) area in
        if clipped_window = empty_rectangle then (True, coverage)
        else let occluded = list_ex (\<lambda>c. contains_rect c clipped_window) coverage in
          (occluded,
           if \<not> occluded \<and> alpha r = 1 \<and> \<not> shaped r then coverage @ [clipped_window] else coverage))"

text \<open>The reverse iteration of \<open>filter_occlusions_from\<close>: the first argument is what the reverse
  iterator still has to visit, topmost first; the elements it leaves in the list and the ones it
  moves to \<open>occluded\<close> are both rebuilt from the back.\<close>

fun filter_loop ::
  "('e \<Rightarrow> renderable) \<Rightarrow> rectangle \<Rightarrow> 'e list \<Rightarrow> rectangle list \<Rightarrow> 'e list \<Rightarrow> 'e list \<Rightarrow> 'e list \<times> 'e list" where
  "filter_loop rend area [] coverage occluded elements = (occluded, elements)"
| "filter_loop rend area (e # es) coverage occluded elements =
     (case renderable_is_occluded (rend e) area coverage of
        (True, coverage') \<Rightarrow> filter_loop rend area es coverage' (e # occluded) elements
      | (False, coverage') \<Rightarrow> filter_loop rend area es coverage' occluded (e # elements))"

text \<open>The result is the pair of the returned sequence and the elements left in place.\<close>

definition filter_occlusions_from ::
  "('e \<Rightarrow> renderable) \<Rightarrow> 'e list \<Rightarrow> rectangle \<Rightarrow> 'e list \<times> 'e list" where
  "filter_occlusions_from rend elements area = filter_loop rend area (rev elements) [] [] []"

section \<open>Nothing is lost and the order is kept\<close>

lemma filter_loop_split:
  "\<exists>oc el. filter_loop rend area es cov occluded elements = (oc @ occluded, el @ elements) \<and>
     mset oc + mset el = mset es \<and> subseq oc (rev es) \<and> subseq el (rev es)"
proof (induction es arbitrary: cov occluded elements)
  case Nil
  then show ?case by simp
next
  case (Cons e es)
  obtain b cov' where b: "renderable_is_occluded (rend e) area cov = (b, cov')" by (metis prod.exhaust)
  obtain oc el where IH: "filter_loop rend area es cov' (if b then e # occluded else occluded)
        (if b then elements else e # elements) =
        (oc @ (if b then e # occluded else occluded), el @ (if b then elements else e # elements))"
      "mset oc + mset el = mset es" "subseq oc (rev es)" "subseq el (rev es)"
    using Cons.IH by blast
  have "subseq (xs @ [e]) (rev es @ [e])" "subseq xs (rev es @ [e])" if "subseq xs (rev es)" for xs
    using that by (auto intro: list_emb_append_mono subseq_rev_drop_many list_emb_append2)
  with b IH show ?case
    by (cases b)
      (auto intro!: exI [of _ "if b then oc @ [e] else oc"] exI [of _ "if b then el else el @ [e]"])
qed

section \<open>The picture is unchanged\<close>

definition opaque :: "renderable \<Rightarrow> bool" where
  "opaque r \<longleftrightarrow> transformation r = identity_mat4 \<and> alpha r = 1 \<and> \<not> shaped r"

text \<open>Where an untransformed element is drawn: at its screen position, cut to its clip area.\<close>

definition shown_at :: "renderable \<Rightarrow> point \<Rightarrow> bool" where
  "shown_at r p \<longleftrightarrow> p \<in> pixels (screen_position r) \<and> (\<forall>c. renderable_clip r = Some c \<longrightarrow> p \<in> pixels c)"

text \<open>The clip area takes the point out of the screen position of an opaque element.\<close>

definition cut_out_at :: "renderable \<Rightarrow> point \<Rightarrow> bool" where
  "cut_out_at r p \<longleftrightarrow> opaque r \<and> p \<in> pixels (screen_position r) \<and> \<not> shown_at r p"

text \<open>The elements that contribute at a point, topmost first: the scan stops at an opaque one.
  \<open>covers\<close> says where an element draws, which is known of the untransformed ones.\<close>

fun appearance :: "('e \<Rightarrow> renderable) \<Rightarrow> ('e \<Rightarrow> point \<Rightarrow> bool) \<Rightarrow> 'e list \<Rightarrow> point \<Rightarrow> 'e list" where
  "appearance rend covers [] p = []"
| "appearance rend covers (e # es) p =
     (if covers e p then e # (if opaque (rend e) then [] else appearance rend covers es p)
      else appearance rend covers es p)"

definition picture :: "('e \<Rightarrow> renderable) \<Rightarrow> ('e \<Rightarrow> point \<Rightarrow> bool) \<Rightarrow> 'e list \<Rightarrow> point \<Rightarrow> 'e list" where
  "picture rend covers elements p = appearance rend covers (rev elements) p"

definition draws_in_place :: "('e \<Rightarrow> renderable) \<Rightarrow> ('e \<Rightarrow> point \<Rightarrow> bool) \<Rightarrow> bool" where
  "draws_in_place rend covers \<longleftrightarrow>
     (\<forall>e p. transformation (rend e) = identity_mat4 \<longrightarrow>
        covers e p = shown_at (rend e) p)"

lemma appearance_append:
  "appearance rend covers (xs @ ys) p =
     (if \<exists>x\<in>set xs. covers x p \<and> opaque (rend x) then appearance rend covers xs p
      else appearance rend covers xs p @ appearance rend covers ys p)"
  by (induction xs) auto

text \<open>Every rectangle of the coverage comes from an opaque element that was kept.\<close>

definition coverage_from :: "('e \<Rightarrow> renderable) \<Rightarrow> rectangle \<Rightarrow> 'e list \<Rightarrow> rectangle list \<Rightarrow> bool" where
  "coverage_from rend area kept coverage \<longleftrightarrow>
     (\<forall>c\<in>set coverage. \<exists>k\<in>set kept. opaque (rend k) \<and> c = intersection_with (screen_position (rend k)) area)"

lemma occluded_is_covered:
  assumes "renderable_is_occluded (rend e) area coverage = (True, coverage')"
    and "coverage_from rend area kept coverage" "draws_in_place rend covers"
    and "p \<in> pixels area" "covers e p" "\<forall>k\<in>set kept. \<not> cut_out_at (rend k) p"
  shows "\<exists>k\<in>set kept. covers k p \<and> opaque (rend k)"
proof -
  let ?w = "intersection_with (screen_position (rend e)) area"
  have t: "transformation (rend e) = identity_mat4"
    using assms(1) by (auto simp: renderable_is_occluded_def split: if_splits)
  then have p: "p \<in> pixels ?w"
    using assms(3-5) by (simp add: draws_in_place_def shown_at_def pixels_intersection_with)
  then have "?w \<noteq> empty_rectangle"
    by (metis empty_iff intersection_with_empty_iff pixels_intersection_with)
  then obtain c where "c \<in> set coverage" "contains_rect c ?w"
    using assms(1) t by (auto simp: renderable_is_occluded_def Let_def list_ex_iff)
  then obtain k where k: "k \<in> set kept" "opaque (rend k)"
      "contains_rect (intersection_with (screen_position (rend k)) area) ?w"
    using assms(2) by (auto simp: coverage_from_def)
  then have "p \<in> pixels (screen_position (rend k))"
    using p contains_rect_pixels by (fastforce simp: pixels_intersection_with)
  with k assms(3,6) show ?thesis by (auto simp: draws_in_place_def cut_out_at_def opaque_def)
qed

lemma coverage_from_kept:
  assumes "renderable_is_occluded (rend e) area coverage = (False, coverage')"
    and "coverage_from rend area kept coverage"
  shows "coverage_from rend area (e # kept) coverage'"
  using assms
  by (auto simp: renderable_is_occluded_def coverage_from_def Let_def opaque_def split: if_splits)

lemma coverage_unchanged:
  "renderable_is_occluded r area coverage = (True, coverage') \<Longrightarrow> coverage' = coverage"
  by (auto simp: renderable_is_occluded_def Let_def split: if_splits)

lemma filter_loop_picture:
  assumes "draws_in_place rend covers" "p \<in> pixels area"
    and "coverage_from rend area elements coverage" "\<forall>e\<in>set elements \<union> set es. \<not> cut_out_at (rend e) p"
  shows "picture rend covers (snd (filter_loop rend area es coverage occluded elements)) p =
    appearance rend covers (rev elements @ es) p"
  using assms(3,4)
proof (induction es arbitrary: coverage occluded elements)
  case Nil
  then show ?case by (simp add: picture_def)
next
  case (Cons e es)
  obtain b cov' where b: "renderable_is_occluded (rend e) area coverage = (b, cov')" by (metis prod.exhaust)
  show ?case
  proof (cases b)
    case True
    then have "covers e p \<Longrightarrow> \<exists>k\<in>set (rev elements). covers k p \<and> opaque (rend k)"
      using occluded_is_covered [of rend e area coverage cov' elements covers p] b Cons.prems assms(1,2)
      by auto
    then have "appearance rend covers (rev elements @ e # es) p =
        appearance rend covers (rev elements @ es) p"
      by (auto simp: appearance_append)
    moreover have "cov' = coverage" using True b by (simp add: coverage_unchanged)
    ultimately show ?thesis
      using True b Cons.IH [OF Cons.prems(1), of "e # occluded"] Cons.prems(2) by simp
  next
    case False
    with b have "coverage_from rend area (e # elements) cov'"
      using coverage_from_kept Cons.prems(1) by fastforce
    from Cons.IH [OF this] False b Cons.prems(2) show ?thesis by simp
  qed
qed

lemma filter_occlusions_picture:
  assumes "draws_in_place rend covers" "p \<in> pixels area" "\<forall>e\<in>set elements. \<not> cut_out_at (rend e) p"
  shows "picture rend covers (snd (filter_occlusions_from rend elements area)) p =
    picture rend covers elements p"
  using filter_loop_picture [OF assms(1,2), of "[]" "[]" "rev elements" "[]"] assms(3)
  by (simp add: filter_occlusions_from_def picture_def coverage_from_def)

text \<open>An element outside the display area is always reported as occluded.\<close>

lemma renderable_outside_occluded:
  assumes "transformation r = identity_mat4" "pixels (screen_position r) \<inter> pixels area = {}"
  shows "fst (renderable_is_occluded r area coverage)"
  using assms by (simp add: renderable_is_occluded_def Let_def intersection_with_empty_iff)

section \<open>Properties\<close>

text \<open>C4: Filtering occlusions does not change the picture: at every point of the display area that no clip
  area cuts out of an opaque element of the scene, the elements that contribute to it (from the top down to the
  first opaque one) are the same in the filtered list as in the original one.  The condition is needed, because the
  filter does not look at clip areas (\<open>clipped_element_hides_what_it_does_not_cover\<close>).\<close>
theorem occlusion_filter_keeps_the_picture:
  assumes "draws_in_place rend covers" "p \<in> pixels area" "\<forall>e\<in>set elements. \<not> cut_out_at (rend e) p"
  shows "picture rend covers (snd (filter_occlusions_from rend elements area)) p =
    picture rend covers elements p"
  by (rule filter_occlusions_picture [OF assms])

text \<open>A small opaque element below a large one whose clip area leaves its left half.\<close>

definition small_element :: renderable where
  "small_element = \<lparr>transformation = identity_mat4, screen_position = Rectangle (Point 2 2) (Size 5 5), renderable_clip = None,
     alpha = 1, shaped = False\<rparr>"

definition large_element :: renderable where
  "large_element = \<lparr>transformation = identity_mat4, screen_position = Rectangle (Point 0 0) (Size 9 9),
     renderable_clip = Some (Rectangle (Point 0 0) (Size 4 9)), alpha = 1, shaped = False\<rparr>"

lemma small_is_taken_out:
  "filter_occlusions_from (\<lambda>e. e) [small_element, large_element] (Rectangle (Point 0 0) (Size 20 20)) = ([small_element], [large_element])"
  by (simp add: filter_occlusions_from_def renderable_is_occluded_def intersection_with_def Let_def small_element_def large_element_def
      geom_simps contains_rect_def empty_rectangle_def)

theorem occlusion_filter_keeps_the_picture_witness:
  "snd (filter_occlusions_from (\<lambda>e. e) [small_element, large_element] (Rectangle (Point 0 0) (Size 20 20))) = [large_element] \<and>
   picture (\<lambda>e. e) shown_at (snd (filter_occlusions_from (\<lambda>e. e) [small_element, large_element] (Rectangle (Point 0 0) (Size 20 20)))) (Point 3 3) =
   picture (\<lambda>e. e) shown_at [small_element, large_element] (Point 3 3)"
proof
  show "snd (filter_occlusions_from (\<lambda>e. e) [small_element, large_element] (Rectangle (Point 0 0) (Size 20 20))) = [large_element]"
    by (simp add: small_is_taken_out)
qed (rule occlusion_filter_keeps_the_picture;
    simp add: draws_in_place_def cut_out_at_def shown_at_def small_element_def large_element_def mem_pixels geom_simps)

text \<open>Where the clip area cuts the large element away, the small one should be seen, but it was taken out.\<close>

lemma clipped_element_hides_what_it_does_not_cover:
  "picture (\<lambda>e. e) shown_at [small_element, large_element] (Point 6 6) = [small_element]"
  "picture (\<lambda>e. e) shown_at (snd (filter_occlusions_from (\<lambda>e. e) [small_element, large_element] (Rectangle (Point 0 0) (Size 20 20)))) (Point 6 6) = []"
  by (simp_all add: small_is_taken_out picture_def shown_at_def opaque_def)
    (simp_all add: small_element_def large_element_def mem_pixels geom_simps)

text \<open>The filter splits the scene: every element is either returned as occluded or left in
  place, none is lost or duplicated, and both lists keep the stacking order.\<close>
theorem occlusion_filter_splits_the_scene:
  "mset (fst (filter_occlusions_from rend elements area)) +
     mset (snd (filter_occlusions_from rend elements area)) = mset elements \<and>
   subseq (fst (filter_occlusions_from rend elements area)) elements \<and>
   subseq (snd (filter_occlusions_from rend elements area)) elements"
  using filter_loop_split [of rend area "rev elements" "[]" "[]" "[]"]
  by (auto simp: filter_occlusions_from_def)

end
