(* ===== verification/Rendering_Tracker.thy ===== *)
theory Rendering_Tracker
  imports Prelude
begin

text \<open>
  \<open>scene::RenderingTracker\<close>: remembers in which compositors a surface is occluded and tells the
  surface when it becomes exposed or is occluded everywhere.  An operation returns the visibility
  it configures on the surface, if any; nothing is configured once the surface is gone
  (\<open>surface_alive\<close> is the outcome of locking the weak pointer).
\<close>

datatype visibility = Visibility_occluded | Visibility_exposed

record 'c tracker =
  surface_alive :: bool
  occlusions :: "'c set"
  active :: "'c set"

definition make_tracker :: "'c tracker" where
  "make_tracker = \<lparr>surface_alive = True, occlusions = {}, active = {}\<rparr>"

definition occluded_in_all_active_compositors :: "'c tracker \<Rightarrow> bool" where
  "occluded_in_all_active_compositors t \<longleftrightarrow> occlusions t = active t"

definition configure_visibility :: "'c tracker \<Rightarrow> visibility \<Rightarrow> visibility option" where
  "configure_visibility t v = (if surface_alive t then Some v else None)"

definition remove_occlusions_for_inactive_compositors :: "'c tracker \<Rightarrow> 'c tracker" where
  "remove_occlusions_for_inactive_compositors t = t\<lparr>occlusions := active t \<inter> occlusions t\<rparr>"

definition is_active_compositor :: "'c tracker \<Rightarrow> 'c \<Rightarrow> bool" where
  "is_active_compositor t cid \<longleftrightarrow> cid \<in> active t"

abbreviation no_active_compositor :: exn where
  "no_active_compositor \<equiv> Logic_error ''No active compositor with supplied id''"

definition rendered_in :: "'c \<Rightarrow> 'c tracker \<Rightarrow> ('c tracker, visibility option) outcome" where
  "rendered_in cid t =
     (if \<not> is_active_compositor t cid then throw no_active_compositor t
      else let t' = t\<lparr>occlusions := occlusions t - {cid}\<rparr>
           in ret (configure_visibility t' Visibility_exposed) t')"

definition occluded_in :: "'c \<Rightarrow> 'c tracker \<Rightarrow> ('c tracker, visibility option) outcome" where
  "occluded_in cid t =
     (if \<not> is_active_compositor t cid then throw no_active_compositor t
      else let t' = t\<lparr>occlusions := insert cid (occlusions t)\<rparr>
           in ret (if occluded_in_all_active_compositors t'
                   then configure_visibility t' Visibility_occluded else None) t')"

definition active_compositors :: "'c set \<Rightarrow> 'c tracker \<Rightarrow> 'c tracker \<times> visibility option" where
  "active_compositors cids t =
     (let t' = remove_occlusions_for_inactive_compositors (t\<lparr>active := cids\<rparr>)
      in (t', if occluded_in_all_active_compositors t'
              then configure_visibility t' Visibility_occluded else None))"

definition is_exposed_in :: "'c \<Rightarrow> 'c tracker \<Rightarrow> exn + bool" where
  "is_exposed_in cid t =
     (if \<not> is_active_compositor t cid then Inl no_active_compositor
      else if occlusions t = {} then Inr True
      else Inr (cid \<notin> occlusions t))"

section \<open>Invariant\<close>

definition tracker_inv :: "'c tracker \<Rightarrow> bool" where
  "tracker_inv t \<longleftrightarrow> occlusions t \<subseteq> active t"

lemma tracker_inv_make [inv_intros]: "tracker_inv make_tracker"
  by (simp add: tracker_inv_def make_tracker_def)

lemma tracker_inv_ops [inv_intros]:
  "tracker_inv t \<Longrightarrow> tracker_inv (state_of (rendered_in cid t))"
  "tracker_inv t \<Longrightarrow> tracker_inv (state_of (occluded_in cid t))"
  "tracker_inv (fst (active_compositors cids t))"
  by (auto simp: tracker_inv_def rendered_in_def occluded_in_def active_compositors_def Let_def
      is_active_compositor_def remove_occlusions_for_inactive_compositors_def)

lemma active_active_compositors [simp]: "active (fst (active_compositors cids t)) = cids"
  by (simp add: active_compositors_def remove_occlusions_for_inactive_compositors_def Let_def)

lemma occlusions_active_compositors [simp]:
  "occlusions (fst (active_compositors cids t)) = cids \<inter> occlusions t"
  by (simp add: active_compositors_def remove_occlusions_for_inactive_compositors_def Let_def)

lemma is_exposed_in_eq:
  "is_exposed_in cid t =
     (if cid \<in> active t then Inr (cid \<notin> occlusions t) else Inl no_active_compositor)"
  by (auto simp: is_exposed_in_def is_active_compositor_def)

section \<open>The visibility a client is told\<close>

datatype 'c tracker_op =
    Rendered 'c
  | Occluded 'c
  | Set_active "'c set"

fun tracker_exec :: "'c tracker_op \<Rightarrow> 'c tracker \<times> visibility option \<Rightarrow> 'c tracker \<times> visibility option" where
  "tracker_exec (Rendered c) (t, v) =
     (case rendered_in c t of (Inr (Some w), t') \<Rightarrow> (t', Some w) | (_, t') \<Rightarrow> (t', v))"
| "tracker_exec (Occluded c) (t, v) =
     (case occluded_in c t of (Inr (Some w), t') \<Rightarrow> (t', Some w) | (_, t') \<Rightarrow> (t', v))"
| "tracker_exec (Set_active cs) (t, v) =
     (case active_compositors cs t of (t', Some w) \<Rightarrow> (t', Some w) | (t', None) \<Rightarrow> (t', v))"

text \<open>A live surface that is occluded in every compositor has been told so, unless nothing was ever
  configured.\<close>

definition told_truth :: "'c tracker \<times> visibility option \<Rightarrow> bool" where
  "told_truth tv \<longleftrightarrow> (case tv of (t, v) \<Rightarrow>
     surface_alive t \<longrightarrow> occlusions t = active t \<longrightarrow> v \<noteq> Some Visibility_exposed)"

lemma told_truth_exec:
  assumes "told_truth tv" "tracker_inv (fst tv)"
  shows "told_truth (tracker_exec op tv) \<and> tracker_inv (fst (tracker_exec op tv))"
proof -
  obtain t v where tv: "tv = (t, v)" by (cases tv)
  show ?thesis
    using assms
    by (cases op)
      (auto simp: tv told_truth_def tracker_inv_def rendered_in_def occluded_in_def ret_def throw_def
        active_compositors_def configure_visibility_def occluded_in_all_active_compositors_def
        remove_occlusions_for_inactive_compositors_def is_active_compositor_def Let_def
        split: option.splits)
qed

lemma told_truth_run:
  "told_truth (fold tracker_exec ops (make_tracker, None)) \<and>
   tracker_inv (fst (fold tracker_exec ops (make_tracker, None)))"
proof (induction ops rule: rev_induct)
  case Nil
  then show ?case by (simp add: told_truth_def tracker_inv_make)
next
  case (snoc op ops)
  with told_truth_exec [of "fold tracker_exec ops (make_tracker, None)" op] show ?case by simp
qed

section \<open>Properties\<close>

text \<open>After any sequence of tracker operations, the compositors a surface is occluded in are
  active ones, and a live surface that is occluded in every active compositor is not left with the
  information that it is exposed.\<close>
theorem occluded_surface_is_told:
  assumes "tv = fold tracker_exec ops (make_tracker, None)"
  shows "occlusions (fst tv) \<subseteq> active (fst tv) \<and>
    (surface_alive (fst tv) \<and> occluded_in_all_active_compositors (fst tv) \<longrightarrow>
       snd tv \<noteq> Some Visibility_exposed)"
proof -
  have "told_truth tv" "tracker_inv (fst tv)" using told_truth_run assms by auto
  then show ?thesis
    by (cases tv) (auto simp: told_truth_def tracker_inv_def occluded_in_all_active_compositors_def)
qed

theorem occluded_surface_is_told_witness:
  "snd (fold tracker_exec [Set_active {1::nat, 2}, Rendered 1, Occluded 1, Occluded 2] (make_tracker, None))
     \<noteq> Some Visibility_exposed"
proof -
  have "surface_alive (fst (fold tracker_exec [Set_active {1::nat, 2}, Rendered 1, Occluded 1, Occluded 2] (make_tracker, None)))"
    "occluded_in_all_active_compositors
       (fst (fold tracker_exec [Set_active {1::nat, 2}, Rendered 1, Occluded 1, Occluded 2] (make_tracker, None)))"
    by code_simp+
  with occluded_surface_is_told [OF refl] show ?thesis by blast
qed

end
