(* ===== verification/Surface_Stack.thy ===== *)
theory Surface_Stack
  imports Rendering_Tracker Observer_List Geometry
begin

text \<open>
  \<open>scene::SurfaceStack\<close>: the stacking order of all surfaces, as one vector of surfaces per depth
  layer, together with a rendering tracker per surface and the registered compositors.  Surfaces
  are objects of another class; what the stack asks of them (depth layer, visibility, input area,
  renderables, buffers ready) is a \<open>surface_view\<close>, the values of those virtual functions at the time
  of the call.  Operations return the notifications they send, one per registered observer, and the
  visibility that trackers configure on surfaces.  Reports to \<open>SceneReport\<close> are logging only.
\<close>

section \<open>Depth layers\<close>

fun mir_depth_layer_get_index :: "depth_layer \<Rightarrow> nat" where
  "mir_depth_layer_get_index Layer_background = 0"
| "mir_depth_layer_get_index Layer_below = 1"
| "mir_depth_layer_get_index Layer_application = 2"
| "mir_depth_layer_get_index Layer_always_on_top = 3"
| "mir_depth_layer_get_index Layer_above = 4"
| "mir_depth_layer_get_index Layer_overlay = 5"

text \<open>Depth layers are ordered as their indices are.\<close>

lemma depth_index_inject: "mir_depth_layer_get_index a = mir_depth_layer_get_index b \<longleftrightarrow> a = b"
  by (cases a; cases b) simp_all

instantiation depth_layer :: linorder
begin

definition less_eq_depth_layer :: "depth_layer \<Rightarrow> depth_layer \<Rightarrow> bool" where
  "a \<le> b \<longleftrightarrow> mir_depth_layer_get_index a \<le> mir_depth_layer_get_index b"

definition less_depth_layer :: "depth_layer \<Rightarrow> depth_layer \<Rightarrow> bool" where
  "a < b \<longleftrightarrow> mir_depth_layer_get_index a < mir_depth_layer_get_index b"

instance
  by standard (auto simp: less_eq_depth_layer_def less_depth_layer_def depth_index_inject)

end

lemma sorted_depths: "sorted (map f xs) = sorted (map (mir_depth_layer_get_index \<circ> f) xs)"
  by (simp add: sorted_wrt_map less_eq_depth_layer_def)

section \<open>State\<close>

record ('s, 'c, 'r) surface_view =
  depth_of :: "'s \<Rightarrow> depth_layer"
  visible :: "'s \<Rightarrow> bool"
  input_area_contains :: "'s \<Rightarrow> point \<Rightarrow> bool"
  generate_renderables :: "'s \<Rightarrow> 'c \<Rightarrow> 'r list"
  buffers_ready :: "'s \<Rightarrow> 'c \<Rightarrow> int"

record ('s, 'c, 'r, 'o) surface_stack =
  surface_layers :: "'s list list"
  rendering_trackers :: "'s \<rightharpoonup> 'c tracker"
  registered_compositors :: "'c set"
  overlays :: "'r list"
  scene_changed :: bool
  observers :: "'o thread_safe_list"

datatype 's scene_event =
    Surface_added 's
  | Surface_removed 's
  | Surfaces_reordered
  | Scene_changed
  | Surface_exists 's
  | End_observation

datatype ('s, 'r) scene_element =
    Surface_element 's 'r
  | Overlay_element 'r

definition make_surface_stack :: "('s, 'c, 'r, 'o) surface_stack" where
  "make_surface_stack = \<lparr>surface_layers = [], rendering_trackers = Map.empty,
     registered_compositors = {}, overlays = [], scene_changed = False, observers = empty_list_items\<rparr>"

text \<open>\<open>Observers\<close> forwards every notification to each registered observer.\<close>

definition notify :: "('s, 'c, 'r, 'o) surface_stack \<Rightarrow> 's scene_event \<Rightarrow> ('o \<times> 's scene_event) list" where
  "notify st ev = map (\<lambda>ob. (ob, ev)) (list_for_each (observers st))"

section \<open>Compositor side\<close>

definition scene_elements_for ::
  "('s, 'c, 'r) surface_view \<Rightarrow> 'c \<Rightarrow> ('s, 'c, 'r, 'o) surface_stack \<Rightarrow>
   ('s, 'r) scene_element list \<times> ('s, 'c, 'r, 'o) surface_stack" where
  "scene_elements_for view cid st =
     (concat (map (\<lambda>layer. concat (map (\<lambda>s.
         if visible view s then map (Surface_element s) (generate_renderables view s cid) else [])
         layer)) (surface_layers st))
      @ map Overlay_element (overlays st),
      st\<lparr>scene_changed := False\<rparr>)"

text \<open>
  A scene element of a surface tells the surface's tracker that the compositor has drawn it or found it
  hidden; the result is the visibility that the tracker configures on the surface.  An element that
  outlives its surface's place in the stack keeps a tracker that the stack no longer owns, which has no
  effect on the stack.
\<close>

definition tell_tracker ::
  "('c tracker \<Rightarrow> ('c tracker, visibility option) outcome) \<Rightarrow> 's \<Rightarrow> ('s, 'c, 'r, 'o) surface_stack \<Rightarrow>
   (('s, 'c, 'r, 'o) surface_stack, ('s \<times> visibility) list) outcome" where
  "tell_tracker f s st = (case rendering_trackers st s of
     None \<Rightarrow> ret [] st
   | Some t \<Rightarrow> and_then (f t)
       (\<lambda>v t'. ret (case v of None \<Rightarrow> [] | Some w \<Rightarrow> [(s, w)])
                  (st\<lparr>rendering_trackers := (rendering_trackers st)(s \<mapsto> t')\<rparr>))
       (\<lambda>t'. st\<lparr>rendering_trackers := (rendering_trackers st)(s \<mapsto> t')\<rparr>))"

definition element_rendered ::
  "'c \<Rightarrow> ('s, 'r) scene_element \<Rightarrow> ('s, 'c, 'r, 'o) surface_stack \<Rightarrow>
   (('s, 'c, 'r, 'o) surface_stack, ('s \<times> visibility) list) outcome" where
  "element_rendered cid e st = (case e of
     Surface_element s r \<Rightarrow> tell_tracker (rendered_in cid) s st
   | Overlay_element r \<Rightarrow> ret [] st)"

definition element_occluded ::
  "'c \<Rightarrow> ('s, 'r) scene_element \<Rightarrow> ('s, 'c, 'r, 'o) surface_stack \<Rightarrow>
   (('s, 'c, 'r, 'o) surface_stack, ('s \<times> visibility) list) outcome" where
  "element_occluded cid e st = (case e of
     Surface_element s r \<Rightarrow> tell_tracker (occluded_in cid) s st
   | Overlay_element r \<Rightarrow> ret [] st)"

fun element_renderable :: "('s, 'r) scene_element \<Rightarrow> 'r" where
  "element_renderable (Surface_element s r) = r"
| "element_renderable (Overlay_element r) = r"

fun frames_pending_loop ::
  "('s, 'c, 'r) surface_view \<Rightarrow> 'c \<Rightarrow> ('s \<rightharpoonup> 'c tracker) \<Rightarrow> 's list \<Rightarrow> int \<Rightarrow> exn + int" where
  "frames_pending_loop view cid trackers [] result = Inr result"
| "frames_pending_loop view cid trackers (s # ss) result =
     (if visible view s then
        (case trackers s of
           None \<Rightarrow> frames_pending_loop view cid trackers ss result
         | Some t \<Rightarrow>
             (case is_exposed_in cid t of
                Inl e \<Rightarrow> Inl e
              | Inr exposed \<Rightarrow>
                  frames_pending_loop view cid trackers ss
                    (if exposed then (let ready = buffers_ready view s cid in
                       if ready > result then ready else result) else result)))
      else frames_pending_loop view cid trackers ss result)"

definition frames_pending ::
  "('s, 'c, 'r) surface_view \<Rightarrow> 'c \<Rightarrow> ('s, 'c, 'r, 'o) surface_stack \<Rightarrow> exn + int" where
  "frames_pending view cid st =
     frames_pending_loop view cid (rendering_trackers st) (concat (surface_layers st))
       (if scene_changed st then 1 else 0)"

definition update_rendering_tracker_compositors ::
  "('s, 'c, 'r, 'o) surface_stack \<Rightarrow> ('s, 'c, 'r, 'o) surface_stack \<times> ('s \<rightharpoonup> visibility)" where
  "update_rendering_tracker_compositors st =
     (st\<lparr>rendering_trackers := (\<lambda>s. map_option (fst \<circ> active_compositors (registered_compositors st))
                                    (rendering_trackers st s))\<rparr>,
      \<lambda>s. Option.bind (rendering_trackers st s) (snd \<circ> active_compositors (registered_compositors st)))"

definition register_compositor ::
  "'c \<Rightarrow> ('s, 'c, 'r, 'o) surface_stack \<Rightarrow> ('s, 'c, 'r, 'o) surface_stack \<times> ('s \<rightharpoonup> visibility)" where
  "register_compositor cid st =
     update_rendering_tracker_compositors
       (st\<lparr>registered_compositors := insert cid (registered_compositors st)\<rparr>)"

definition unregister_compositor ::
  "'c \<Rightarrow> ('s, 'c, 'r, 'o) surface_stack \<Rightarrow> ('s, 'c, 'r, 'o) surface_stack \<times> ('s \<rightharpoonup> visibility)" where
  "unregister_compositor cid st =
     update_rendering_tracker_compositors
       (st\<lparr>registered_compositors := registered_compositors st - {cid}\<rparr>)"

section \<open>Overlays\<close>

definition emit_scene_changed ::
  "('s, 'c, 'r, 'o) surface_stack \<Rightarrow> ('s, 'c, 'r, 'o) surface_stack \<times> ('o \<times> 's scene_event) list" where
  "emit_scene_changed st =
     (let st' = st\<lparr>scene_changed := True\<rparr> in (st', notify st' Scene_changed))"

definition add_input_visualization ::
  "'r \<Rightarrow> ('s, 'c, 'r, 'o) surface_stack \<Rightarrow> ('s, 'c, 'r, 'o) surface_stack \<times> ('o \<times> 's scene_event) list" where
  "add_input_visualization overlay st = emit_scene_changed (st\<lparr>overlays := overlays st @ [overlay]\<rparr>)"

definition remove_input_visualization ::
  "'r \<Rightarrow> ('s, 'c, 'r, 'o) surface_stack \<Rightarrow>
   (('s, 'c, 'r, 'o) surface_stack, ('o \<times> 's scene_event) list) outcome" where
  "remove_input_visualization overlay st =
     (if overlay \<notin> set (overlays st)
      then throw (Runtime_error ''Attempt to remove an overlay which was never added or which has been previously removed'') st
      else case emit_scene_changed (st\<lparr>overlays := remove1 overlay (overlays st)\<rparr>) of
             (st', evs) \<Rightarrow> ret evs st')"

section \<open>Stacking order\<close>

definition insert_at_layer :: "nat \<Rightarrow> 's \<Rightarrow> 's list list \<Rightarrow> 's list list" where
  "insert_at_layer depth_index s layers =
     (let layers' = (if length layers \<le> depth_index
                     then layers @ replicate (depth_index + 1 - length layers) [] else layers)
      in layers'[depth_index := layers' ! depth_index @ [s]])"

definition insert_surface_at_top_of_depth_layer ::
  "('s, 'c, 'r) surface_view \<Rightarrow> 's \<Rightarrow> 's list list \<Rightarrow> 's list list" where
  "insert_surface_at_top_of_depth_layer view s layers =
     insert_at_layer (mir_depth_layer_get_index (depth_of view s)) s layers"

definition create_rendering_tracker_for ::
  "'s \<Rightarrow> ('s, 'c, 'r, 'o) surface_stack \<Rightarrow> ('s, 'c, 'r, 'o) surface_stack \<times> visibility option" where
  "create_rendering_tracker_for s st =
     (case active_compositors (registered_compositors st) make_tracker of
        (t, v) \<Rightarrow> (st\<lparr>rendering_trackers := (rendering_trackers st)(s \<mapsto> t)\<rparr>, v))"

definition add_surface ::
  "('s, 'c, 'r) surface_view \<Rightarrow> 's \<Rightarrow> ('s, 'c, 'r, 'o) surface_stack \<Rightarrow>
   ('s, 'c, 'r, 'o) surface_stack \<times> visibility option \<times> ('o \<times> 's scene_event) list" where
  "add_surface view s st =
     (case create_rendering_tracker_for s
             (st\<lparr>surface_layers := insert_surface_at_top_of_depth_layer view s (surface_layers st)\<rparr>) of
        (st', v) \<Rightarrow> (st', v, notify st' (Surface_added s)))"

text \<open>The loops of \<open>remove_surface\<close> and \<open>raise\<close> look through the layers for the first one that
  holds the surface.\<close>

fun erase_first :: "'s \<Rightarrow> 's list list \<Rightarrow> 's list list option" where
  "erase_first s [] = None"
| "erase_first s (layer # layers) =
     (if s \<in> set layer then Some (remove1 s layer # layers)
      else map_option (Cons layer) (erase_first s layers))"

definition remove_surface ::
  "'s \<Rightarrow> ('s, 'c, 'r, 'o) surface_stack \<Rightarrow> ('s, 'c, 'r, 'o) surface_stack \<times> ('o \<times> 's scene_event) list" where
  "remove_surface s st = (case erase_first s (surface_layers st) of
     None \<Rightarrow> (st, [])
   | Some layers \<Rightarrow>
       let st' = st\<lparr>surface_layers := layers,
                   rendering_trackers := (rendering_trackers st)(s := None)\<rparr>
       in (st', notify st' (Surface_removed s)))"

definition surface_at ::
  "('s, 'c, 'r) surface_view \<Rightarrow> point \<Rightarrow> ('s, 'c, 'r, 'o) surface_stack \<Rightarrow> 's option" where
  "surface_at view cursor st =
     List.find (\<lambda>s. input_area_contains view s cursor) (concat (map rev (rev (surface_layers st))))"

definition stack_for_each :: "('s, 'c, 'r, 'o) surface_stack \<Rightarrow> 's list" where
  "stack_for_each st = concat (surface_layers st)"

definition raise_surface ::
  "('s, 'c, 'r) surface_view \<Rightarrow> 's \<Rightarrow> ('s, 'c, 'r, 'o) surface_stack \<Rightarrow>
   (('s, 'c, 'r, 'o) surface_stack, ('o \<times> 's scene_event) list) outcome" where
  "raise_surface view s st = (case erase_first s (surface_layers st) of
     None \<Rightarrow> throw (Runtime_error ''Invalid surface'') st
   | Some layers \<Rightarrow>
       let st' = st\<lparr>surface_layers := insert_surface_at_top_of_depth_layer view s layers\<rparr>
       in ret (notify st' Surfaces_reordered) st')"

text \<open>One round of the loop of \<open>raise(SurfaceSet)\<close>, for the layer at index \<open>i\<close>.\<close>

definition raise_in_layer ::
  "('s, 'c, 'r) surface_view \<Rightarrow> 's set \<Rightarrow> nat \<Rightarrow> 's list list \<times> bool \<Rightarrow> 's list list \<times> bool" where
  "raise_in_layer view ss i acc = (case acc of (layers, reordered) \<Rightarrow>
     let old_layer = layers ! i;
         to_raise = filter (\<lambda>s. s \<in> ss) old_layer;
         layers' = fold (insert_surface_at_top_of_depth_layer view) to_raise
                     (layers[i := filter (\<lambda>s. s \<notin> ss) old_layer])
     in (layers', reordered \<or> old_layer \<noteq> layers' ! i))"

definition raise_set ::
  "('s, 'c, 'r) surface_view \<Rightarrow> 's set \<Rightarrow> ('s, 'c, 'r, 'o) surface_stack \<Rightarrow>
   ('s, 'c, 'r, 'o) surface_stack \<times> ('o \<times> 's scene_event) list" where
  "raise_set view ss st =
     (case fold (raise_in_layer view ss) [0..<length (surface_layers st)] (surface_layers st, False) of
        (layers, reordered) \<Rightarrow>
          let st' = st\<lparr>surface_layers := layers\<rparr>
          in (st', if reordered then notify st' Surfaces_reordered else []))"

text \<open>The stack observes its surfaces: a surface whose depth layer changes goes to the top of the
  new one.  The view is the one after the change.\<close>

definition depth_layer_set_to ::
  "('s, 'c, 'r) surface_view \<Rightarrow> 's \<Rightarrow> ('s, 'c, 'r, 'o) surface_stack \<Rightarrow>
   (('s, 'c, 'r, 'o) surface_stack, ('o \<times> 's scene_event) list) outcome" where
  "depth_layer_set_to view s st = raise_surface view s st"

section \<open>Observers\<close>

definition add_observer ::
  "'o \<Rightarrow> ('s, 'c, 'r, 'o) surface_stack \<Rightarrow> ('s, 'c, 'r, 'o) surface_stack \<times> ('o \<times> 's scene_event) list" where
  "add_observer ob st =
     (st\<lparr>observers := list_add (observers st) ob\<rparr>,
      map (\<lambda>s. (ob, Surface_exists s)) (concat (surface_layers st)))"

text \<open>\<open>None\<close> is an observer that has been destroyed.\<close>

definition remove_observer ::
  "'o option \<Rightarrow> ('s, 'c, 'r, 'o) surface_stack \<Rightarrow>
   (('s, 'c, 'r, 'o) surface_stack, ('o \<times> 's scene_event) list) outcome" where
  "remove_observer ob st = (case ob of
     None \<Rightarrow> throw (Logic_error ''Invalid observer (destroyed)'') st
   | Some p \<Rightarrow> ret [(p, End_observation)] (st\<lparr>observers := list_remove (observers st) p\<rparr>))"


section \<open>Layers as a function of the depth index\<close>

text \<open>A layer beyond the end of the outer vector is an empty one that has not been created yet.\<close>

definition layer_at :: "'s list list \<Rightarrow> nat \<Rightarrow> 's list" where
  "layer_at layers i = (if i < length layers then layers ! i else [])"

lemma layer_at_Nil [simp]: "layer_at [] i = []"
  by (simp add: layer_at_def)

lemma layer_at_Cons [simp]:
  "layer_at (l # ls) 0 = l" "layer_at (l # ls) (Suc i) = layer_at ls i"
  by (simp_all add: layer_at_def)

lemma in_concat_layers: "s \<in> set (concat layers) \<longleftrightarrow> (\<exists>i. s \<in> set (layer_at layers i))"
proof (induction layers)
  case (Cons l ls)
  have "(\<exists>i. s \<in> set (layer_at (l # ls) i)) \<longleftrightarrow> s \<in> set l \<or> (\<exists>i. s \<in> set (layer_at ls i))"
    by (metis layer_at_Cons nat.exhaust)
  with Cons show ?case by simp
qed simp

lemma layer_at_update:
  "i < length layers \<Longrightarrow> layer_at (layers[i := l]) j = (if j = i then l else layer_at layers j)"
  by (simp add: layer_at_def nth_list_update)

lemma layers_eqI: "length ls = length ms \<Longrightarrow> (\<And>i. layer_at ls i = layer_at ms i) \<Longrightarrow> ls = ms"
  by (rule nth_equalityI) (simp_all add: layer_at_def, metis)

lemma layer_at_insert:
  "layer_at (insert_at_layer d s layers) i =
     (if i = d then layer_at layers d @ [s] else layer_at layers i)"
  by (auto simp: layer_at_def insert_at_layer_def Let_def nth_append nth_list_update)

lemma erase_first_None: "erase_first s layers = None \<longleftrightarrow> s \<notin> set (concat layers)"
  by (induction layers) auto

lemma erase_first_Some:
  assumes "erase_first s layers = Some layers'"
    and "\<And>i j. s \<in> set (layer_at layers i) \<Longrightarrow> s \<in> set (layer_at layers j) \<Longrightarrow> i = j"
  shows "length layers' = length layers \<and> (\<forall>i. layer_at layers' i = remove1 s (layer_at layers i))"
  using assms
proof (induction layers arbitrary: layers')
  case (Cons l ls)
  show ?case
  proof (cases "s \<in> set l")
    case True
    have "s \<notin> set (layer_at ls j)" for j
      using Cons.prems(2) [of 0 "Suc j"] True by auto
    then have "layer_at layers' i = remove1 s (layer_at (l # ls) i)" for i
      using Cons.prems(1) True by (cases i) (auto simp: remove1_idem)
    with Cons.prems(1) True show ?thesis by auto
  next
    case False
    then obtain ls' where ls': "erase_first s ls = Some ls'" "layers' = l # ls'"
      using Cons.prems(1) by auto
    have "length ls' = length ls \<and> (\<forall>i. layer_at ls' i = remove1 s (layer_at ls i))"
      using Cons.prems(2) [of "Suc _" "Suc _"] by (intro Cons.IH ls'(1)) auto
    with ls' False show ?thesis
      by (auto simp: remove1_idem split: nat.split) (metis layer_at_Cons nat.exhaust remove1_idem)
  qed
qed simp

section \<open>Invariant of the layers\<close>

definition layers_inv :: "('s \<Rightarrow> depth_layer) \<Rightarrow> 's list list \<Rightarrow> bool" where
  "layers_inv depth layers \<longleftrightarrow> (\<forall>i. distinct (layer_at layers i) \<and>
     (\<forall>s\<in>set (layer_at layers i). mir_depth_layer_get_index (depth s) = i))"

lemma layers_inv_D:
  assumes "layers_inv depth layers"
  shows "distinct (layer_at layers i)"
    and "s \<in> set (layer_at layers i) \<Longrightarrow> mir_depth_layer_get_index (depth s) = i"
  using assms by (auto simp: layers_inv_def)

lemma layers_inv_unique:
  "layers_inv depth layers \<Longrightarrow> s \<in> set (layer_at layers i) \<Longrightarrow> s \<in> set (layer_at layers j) \<Longrightarrow> i = j"
  using layers_inv_D(2) by metis

lemma erase_first_inv:
  assumes "layers_inv depth layers" "erase_first s layers = Some layers'"
  shows "length layers' = length layers" "layer_at layers' i = removeAll s (layer_at layers i)"
proof -
  have "length layers' = length layers \<and> (\<forall>i. layer_at layers' i = remove1 s (layer_at layers i))"
    by (rule erase_first_Some [OF assms(2)]) (rule layers_inv_unique [OF assms(1)])
  with layers_inv_D(1) [OF assms(1)] show "length layers' = length layers"
    "layer_at layers' i = removeAll s (layer_at layers i)"
    by (simp_all add: distinct_remove1_removeAll)
qed

text \<open>The stacking order never puts a lower depth layer above a higher one.\<close>

lemma layers_inv_sorted:
  assumes "layers_inv depth layers"
  shows "sorted (map (mir_depth_layer_get_index \<circ> depth) (concat layers)) \<and> distinct (concat layers)"
proof -
  have "sorted (map (mir_depth_layer_get_index \<circ> depth) (concat ls)) \<and> distinct (concat ls)"
    if "\<forall>i. distinct (layer_at ls i) \<and>
      (\<forall>s\<in>set (layer_at ls i). mir_depth_layer_get_index (depth s) = n + i)" for ls and n :: nat
    using that
  proof (induction ls arbitrary: n)
    case (Cons l ls)
    have l: "distinct l" "\<forall>s\<in>set l. mir_depth_layer_get_index (depth s) = n"
      using Cons.prems [rule_format, of 0] by auto
    have ls: "\<forall>i. distinct (layer_at ls i) \<and>
        (\<forall>s\<in>set (layer_at ls i). mir_depth_layer_get_index (depth s) = Suc n + i)"
    proof
      fix i
      show "distinct (layer_at ls i) \<and>
        (\<forall>s\<in>set (layer_at ls i). mir_depth_layer_get_index (depth s) = Suc n + i)"
        using Cons.prems [rule_format, of "Suc i"] by simp
    qed
    then have gt: "\<forall>s\<in>set (concat ls). n < mir_depth_layer_get_index (depth s)"
      by (auto simp only: in_concat_layers)
    have "sorted (map (mir_depth_layer_get_index \<circ> depth) l)"
      using l(2) by (induction l) auto
    moreover have "set l \<inter> set (concat ls) = {}"
      using l(2) gt by (metis (no_types, lifting) disjoint_iff less_irrefl)
    moreover have "\<forall>s\<in>set l. \<forall>t\<in>set (concat ls).
        mir_depth_layer_get_index (depth s) \<le> mir_depth_layer_get_index (depth t)"
      using l(2) gt less_imp_le by metis
    ultimately show ?case
      using l(1) Cons.IH [OF ls] by (simp add: sorted_append comp_def del: set_concat)
  qed simp
  from this [of layers 0] assms show ?thesis by (simp add: layers_inv_def)
qed

section \<open>Raising\<close>

lemma raise_surface_layers:
  assumes "layers_inv depth (surface_layers st)" "s \<in> set (concat (surface_layers st))"
  shows "\<exists>st'. raise_surface view s st = ret (notify st' Surfaces_reordered) st' \<and>
    st' = st\<lparr>surface_layers := surface_layers st'\<rparr> \<and>
    (\<forall>i. layer_at (surface_layers st') i = removeAll s (layer_at (surface_layers st) i) @
       (if i = mir_depth_layer_get_index (depth_of view s) then [s] else []))"
proof -
  obtain layers where e: "erase_first s (surface_layers st) = Some layers"
    using assms(2) erase_first_None by (metis not_None_eq)
  show ?thesis
    using erase_first_inv(2) [OF assms(1) e]
    by (auto simp: raise_surface_def e Let_def insert_surface_at_top_of_depth_layer_def layer_at_insert)
qed

lemma layers_inv_raise:
  assumes "layers_inv depth layers" "\<forall>t. t \<noteq> s \<longrightarrow> depth' t = depth t"
    and "\<forall>i. layer_at layers' i = removeAll s (layer_at layers i) @
      (if i = mir_depth_layer_get_index (depth' s) then [s] else [])"
  shows "layers_inv depth' layers'"
  using assms by (auto simp: layers_inv_def distinct_removeAll)

lemma layer_at_fold_insert:
  assumes "\<forall>s\<in>set xs. mir_depth_layer_get_index (depth_of view s) = d" "d < length layers"
  shows "length (fold (insert_surface_at_top_of_depth_layer view) xs layers) = length layers \<and>
    layer_at (fold (insert_surface_at_top_of_depth_layer view) xs layers) i =
     (if i = d then layer_at layers d @ xs else layer_at layers i)"
  using assms
proof (induction xs arbitrary: layers)
  case (Cons s xs)
  have "length (insert_surface_at_top_of_depth_layer view s layers) = length layers"
    using Cons.prems by (simp add: insert_surface_at_top_of_depth_layer_def insert_at_layer_def Let_def)
  with Cons show ?case
    by (simp add: insert_surface_at_top_of_depth_layer_def layer_at_insert)
qed simp

definition raised :: "'s set \<Rightarrow> 's list \<Rightarrow> 's list" where
  "raised ss layer = filter (\<lambda>s. s \<notin> ss) layer @ filter (\<lambda>s. s \<in> ss) layer"

lemma raise_in_layer_spec:
  assumes "\<forall>s\<in>set (layer_at layers i). mir_depth_layer_get_index (depth_of view s) = i"
    and "i < length layers" "raise_in_layer view ss i (layers, b) = (layers', b')"
  shows "length layers' = length layers \<and>
    (\<forall>j. layer_at layers' j = (if j = i then raised ss (layer_at layers i) else layer_at layers j)) \<and>
    (b' \<longleftrightarrow> b \<or> layer_at layers i \<noteq> raised ss (layer_at layers i))"
proof -
  let ?ls = "layers[i := filter (\<lambda>s. s \<notin> ss) (layers ! i)]"
  let ?f = "fold (insert_surface_at_top_of_depth_layer view) (filter (\<lambda>s. s \<in> ss) (layers ! i)) ?ls"
  have "length ?f = length ?ls \<and> layer_at ?f j =
      (if j = i then layer_at ?ls i @ filter (\<lambda>s. s \<in> ss) (layers ! i) else layer_at ?ls j)" for j
    using assms(1,2) by (intro layer_at_fold_insert) (auto simp: layer_at_def)
  moreover have i: "layers ! i = layer_at layers i" using assms(2) by (simp add: layer_at_def)
  ultimately have f: "length ?f = length layers"
      "\<forall>j. layer_at ?f j = (if j = i then raised ss (layer_at layers i) else layer_at layers j)"
    using assms(2) by (simp_all add: layer_at_update raised_def)
  moreover have "?f ! i = raised ss (layers ! i)"
    using f assms(2) by (metis layer_at_def)
  moreover have "layers' = ?f" "b' \<longleftrightarrow> b \<or> layers ! i \<noteq> ?f ! i"
    using assms(3) by (auto simp: raise_in_layer_def Let_def)
  ultimately show ?thesis by (simp add: i)
qed

lemma raise_loop_spec:
  assumes "\<forall>i. \<forall>s\<in>set (layer_at layers i). mir_depth_layer_get_index (depth_of view s) = i"
    and "n \<le> length layers"
    and "fold (raise_in_layer view ss) [0..<n] (layers, False) = (layers', b)"
  shows "length layers' = length layers \<and>
    (\<forall>j. layer_at layers' j = (if j < n then raised ss (layer_at layers j) else layer_at layers j)) \<and>
    (b \<longleftrightarrow> (\<exists>j<n. layer_at layers j \<noteq> raised ss (layer_at layers j)))"
  using assms(2,3)
proof (induction n arbitrary: layers' b)
  case (Suc n)
  obtain ls c where ls: "fold (raise_in_layer view ss) [0..<n] (layers, False) = (ls, c)"
    by (metis prod.exhaust)
  from Suc.IH [OF _ ls] Suc.prems(1) have IH: "length ls = length layers"
    "\<forall>j. layer_at ls j = (if j < n then raised ss (layer_at layers j) else layer_at layers j)"
    "c \<longleftrightarrow> (\<exists>j<n. layer_at layers j \<noteq> raised ss (layer_at layers j))" by auto
  have "raise_in_layer view ss n (ls, c) = (layers', b)"
    using Suc.prems(2) ls by simp
  from raise_in_layer_spec [OF _ _ this] IH assms(1) Suc.prems(1) show ?case
    by (auto simp: less_Suc_eq)
qed simp

lemma raise_set_layers:
  assumes "layers_inv (depth_of view) (surface_layers st)"
  shows "\<exists>st'. raise_set view ss st =
      (st', if st' = st then [] else notify st' Surfaces_reordered) \<and>
    st' = st\<lparr>surface_layers := surface_layers st'\<rparr> \<and>
    (\<forall>i. layer_at (surface_layers st') i = raised ss (layer_at (surface_layers st) i))"
proof -
  let ?L = "surface_layers st"
  obtain ls b where ls: "fold (raise_in_layer view ss) [0..<length ?L] (?L, False) = (ls, b)"
    by (metis prod.exhaust)
  have spec: "length ls = length ?L"
    "\<forall>j. layer_at ls j = (if j < length ?L then raised ss (layer_at ?L j) else layer_at ?L j)"
    "b \<longleftrightarrow> (\<exists>j<length ?L. layer_at ?L j \<noteq> raised ss (layer_at ?L j))"
    using raise_loop_spec [OF _ order_refl ls] assms by (auto simp: layers_inv_def)
  have r: "layer_at ls j = raised ss (layer_at ?L j)" for j
    using spec(2) by (simp add: layer_at_def raised_def)
  have "ls = ?L \<longleftrightarrow> (\<forall>j. layer_at ?L j = raised ss (layer_at ?L j))"
    using layers_eqI [OF spec(1)] r by metis
  moreover have "layer_at ?L j = raised ss (layer_at ?L j)" if "\<not> j < length ?L" for j
    using that by (simp add: layer_at_def raised_def)
  ultimately have b: "b \<longleftrightarrow> ls \<noteq> ?L" using spec(3) by blast
  have "(st\<lparr>surface_layers := ls\<rparr> = st) = (ls = ?L)"
    by (metis surface_stack.select_convs(1) surface_stack.surjective surface_stack.update_convs(1))
  with b r ls show ?thesis
    by (intro exI [of _ "st\<lparr>surface_layers := ls\<rparr>"]) (simp add: raise_set_def Let_def)
qed

lemma layers_inv_raised:
  "layers_inv depth layers \<Longrightarrow> \<forall>i. layer_at layers' i = raised ss (layer_at layers i) \<Longrightarrow>
   layers_inv depth layers'"
  by (auto simp: layers_inv_def raised_def)


section \<open>Invariant of the stack\<close>

definition trackers_inv :: "('s, 'c, 'r, 'o) surface_stack \<Rightarrow> bool" where
  "trackers_inv st \<longleftrightarrow> dom (rendering_trackers st) = set (concat (surface_layers st)) \<and>
     (\<forall>s t. rendering_trackers st s = Some t \<longrightarrow>
        tracker_inv t \<and> active t = registered_compositors st)"

definition stack_inv :: "('s \<Rightarrow> depth_layer) \<Rightarrow> ('s, 'c, 'r, 'o) surface_stack \<Rightarrow> bool" where
  "stack_inv depth st \<longleftrightarrow> layers_inv depth (surface_layers st) \<and> trackers_inv st"

lemma stack_inv_make: "stack_inv depth make_surface_stack"
  by (simp add: stack_inv_def layers_inv_def trackers_inv_def make_surface_stack_def)

lemma trackers_inv_update:
  assumes "dom (rendering_trackers st) = set (concat (surface_layers st))"
  shows "trackers_inv (fst (update_rendering_tracker_compositors st))"
proof -
  have "dom (\<lambda>s. map_option f (rendering_trackers st s)) = dom (rendering_trackers st)"
    for f :: "'b tracker \<Rightarrow> 'b tracker" by (auto simp: dom_def)
  with assms show ?thesis
    by (auto simp: trackers_inv_def update_rendering_tracker_compositors_def tracker_inv_ops(3))
qed

lemma stack_inv_compositors:
  assumes "stack_inv depth st"
  shows "stack_inv depth (fst (register_compositor cid st))"
    and "stack_inv depth (fst (unregister_compositor cid st))"
proof -
  have "trackers_inv (fst (register_compositor cid st))" "trackers_inv (fst (unregister_compositor cid st))"
    using assms unfolding register_compositor_def unregister_compositor_def
    by (intro trackers_inv_update; simp add: stack_inv_def trackers_inv_def)+
  moreover have "surface_layers (fst (register_compositor cid st)) = surface_layers st"
    "surface_layers (fst (unregister_compositor cid st)) = surface_layers st"
    by (simp_all add: register_compositor_def unregister_compositor_def
        update_rendering_tracker_compositors_def)
  ultimately show "stack_inv depth (fst (register_compositor cid st))"
    "stack_inv depth (fst (unregister_compositor cid st))"
    using assms by (simp_all add: stack_inv_def)
qed

lemma add_surface_eq:
  "fst (add_surface view s st) = st\<lparr>
     surface_layers := insert_surface_at_top_of_depth_layer view s (surface_layers st),
     rendering_trackers := (rendering_trackers st)
       (s \<mapsto> fst (active_compositors (registered_compositors st) make_tracker))\<rparr>"
  by (simp add: add_surface_def create_rendering_tracker_for_def split: prod.split)

lemma set_concat_insert:
  "set (concat (insert_surface_at_top_of_depth_layer view s layers)) = insert s (set (concat layers))"
proof (rule set_eqI)
  fix t
  let ?d = "mir_depth_layer_get_index (depth_of view s)"
  have "t \<in> set (layer_at (insert_at_layer ?d s layers) i) \<longleftrightarrow>
      (t = s \<and> i = ?d) \<or> t \<in> set (layer_at layers i)" for i
    by (auto simp: layer_at_insert)
  then show "t \<in> set (concat (insert_surface_at_top_of_depth_layer view s layers)) \<longleftrightarrow>
      t \<in> insert s (set (concat layers))"
    by (auto simp: in_concat_layers insert_surface_at_top_of_depth_layer_def simp del: set_concat)
qed

lemma stack_inv_add:
  assumes "stack_inv (depth_of view) st" "s \<notin> set (concat (surface_layers st))"
  shows "stack_inv (depth_of view) (fst (add_surface view s st))"
proof -
  have "\<forall>i. s \<notin> set (layer_at (surface_layers st) i)"
    using assms(2) in_concat_layers by metis
  then have "layers_inv (depth_of view) (insert_surface_at_top_of_depth_layer view s (surface_layers st))"
    using assms(1)
    by (auto simp: stack_inv_def layers_inv_def insert_surface_at_top_of_depth_layer_def layer_at_insert)
  moreover have "trackers_inv (fst (add_surface view s st))"
    using assms(1)
    by (auto simp: stack_inv_def trackers_inv_def add_surface_eq set_concat_insert tracker_inv_ops(3)
        simp del: set_concat)
  ultimately show ?thesis by (simp add: stack_inv_def add_surface_eq)
qed

lemma set_concat_erase:
  assumes "layers_inv depth layers" "erase_first s layers = Some layers'"
  shows "set (concat layers') = set (concat layers) - {s}"
  using erase_first_inv(2) [OF assms] by (intro set_eqI) (auto simp: in_concat_layers simp del: set_concat)

lemma stack_inv_remove: "stack_inv depth st \<Longrightarrow> stack_inv depth (fst (remove_surface s st))"
proof (cases "erase_first s (surface_layers st)")
  case (Some layers)
  assume inv: "stack_inv depth st"
  then have l: "layers_inv depth (surface_layers st)" by (simp add: stack_inv_def)
  from erase_first_inv(2) [OF this Some] have "layers_inv depth layers"
    using l by (auto simp: layers_inv_def distinct_removeAll)
  with inv set_concat_erase [OF l Some] show ?thesis
    by (auto simp: stack_inv_def trackers_inv_def remove_surface_def Some Let_def simp del: set_concat)
qed (simp add: remove_surface_def)

lemma set_concat_layer_at_cong:
  assumes "\<And>i. set (layer_at ls i) - {s} = set (layer_at ms i) - {s}"
    and "s \<in> set (concat ls)" "s \<in> set (concat ms)"
  shows "set (concat ls) = set (concat ms)"
proof -
  have "x \<in> set (concat ls) \<longleftrightarrow> x \<in> set (concat ms)" if "x \<noteq> s" for x
    using assms(1) that unfolding in_concat_layers by blast
  with assms(2,3) show ?thesis by (intro set_eqI) metis
qed

lemma stack_inv_raise:
  assumes "stack_inv depth st" "\<forall>t. t \<noteq> s \<longrightarrow> depth_of view t = depth t"
    and "s \<in> set (concat (surface_layers st))"
  shows "stack_inv (depth_of view) (state_of (raise_surface view s st))"
proof -
  have l: "layers_inv depth (surface_layers st)" using assms(1) by (simp add: stack_inv_def)
  from raise_surface_layers [OF this assms(3), of view] obtain st' where st':
    "raise_surface view s st = ret (notify st' Surfaces_reordered) st'"
    "st' = st\<lparr>surface_layers := surface_layers st'\<rparr>"
    "\<forall>i. layer_at (surface_layers st') i = removeAll s (layer_at (surface_layers st) i) @
       (if i = mir_depth_layer_get_index (depth_of view s) then [s] else [])" by blast
  have "s \<in> set (concat (surface_layers st'))"
    using st'(3) unfolding in_concat_layers by auto
  then have "set (concat (surface_layers st')) = set (concat (surface_layers st))"
    using st'(3) assms(3) by (intro set_concat_layer_at_cong [where s = s]) auto
  moreover have "rendering_trackers st' = rendering_trackers st"
    "registered_compositors st' = registered_compositors st"
    by (subst st'(2), simp)+
  ultimately have "trackers_inv st'"
    using assms(1) by (simp add: stack_inv_def trackers_inv_def del: set_concat)
  with st' layers_inv_raise [OF l assms(2) st'(3)] show ?thesis by (simp add: stack_inv_def)
qed

lemma stack_inv_raise_absent:
  "s \<notin> set (concat (surface_layers st)) \<Longrightarrow> state_of (raise_surface view s st) = st"
  by (simp add: raise_surface_def erase_first_None [THEN iffD2] del: set_concat)

lemma stack_inv_raise_set:
  assumes "stack_inv (depth_of view) st"
  shows "stack_inv (depth_of view) (fst (raise_set view ss st))"
proof -
  have l: "layers_inv (depth_of view) (surface_layers st)" using assms by (simp add: stack_inv_def)
  from raise_set_layers [OF this, of ss] obtain st' where st':
    "fst (raise_set view ss st) = st'" "st' = st\<lparr>surface_layers := surface_layers st'\<rparr>"
    "\<forall>i. layer_at (surface_layers st') i = raised ss (layer_at (surface_layers st) i)" by auto
  have "set (concat (surface_layers st')) = set (concat (surface_layers st))"
    using st'(3) by (intro set_eqI) (auto simp: in_concat_layers raised_def simp del: set_concat)
  moreover have "rendering_trackers st' = rendering_trackers st"
    "registered_compositors st' = registered_compositors st"
    by (subst st'(2), simp)+
  ultimately show ?thesis
    using assms layers_inv_raised [OF l st'(3)] st'(1)
    by (simp add: stack_inv_def trackers_inv_def del: set_concat)
qed

lemmas stack_inv_ops = stack_inv_compositors stack_inv_add stack_inv_remove stack_inv_raise_set

section \<open>Reachable scenes\<close>

text \<open>The depth of a surface is changed by the surface, which then notifies the stack; a surface that
  is not in the stack is not observed.  Callers add a surface once.\<close>

inductive scene_reachable ::
  "('s, 'c, 'r) surface_view \<Rightarrow> ('s, 'c, 'r, 'o) surface_stack \<Rightarrow> bool" where
  start: "scene_reachable view make_surface_stack"
| add: "scene_reachable view st \<Longrightarrow> s \<notin> set (stack_for_each st) \<Longrightarrow>
    scene_reachable view (fst (add_surface view s st))"
| remove: "scene_reachable view st \<Longrightarrow> scene_reachable view (fst (remove_surface s st))"
| raise: "scene_reachable view st \<Longrightarrow> scene_reachable view (state_of (raise_surface view s st))"
| raise_all: "scene_reachable view st \<Longrightarrow> scene_reachable view (fst (raise_set view ss st))"
| register: "scene_reachable view st \<Longrightarrow> scene_reachable view (fst (register_compositor c st))"
| unregister: "scene_reachable view st \<Longrightarrow> scene_reachable view (fst (unregister_compositor c st))"
| elements: "scene_reachable view st \<Longrightarrow> scene_reachable view (snd (scene_elements_for view c st))"
| rendered: "scene_reachable view st \<Longrightarrow> scene_reachable view (state_of (element_rendered c e st))"
| occluded: "scene_reachable view st \<Longrightarrow> scene_reachable view (state_of (element_occluded c e st))"
| changed: "scene_reachable view st \<Longrightarrow> scene_reachable view (fst (emit_scene_changed st))"
| add_overlay: "scene_reachable view st \<Longrightarrow> scene_reachable view (fst (add_input_visualization r st))"
| remove_overlay: "scene_reachable view st \<Longrightarrow> scene_reachable view (state_of (remove_input_visualization r st))"
| observe: "scene_reachable view st \<Longrightarrow> scene_reachable view (fst (add_observer ob st))"
| unobserve: "scene_reachable view st \<Longrightarrow> scene_reachable view (state_of (remove_observer ob' st))"
| set_depth: "scene_reachable view st \<Longrightarrow> s \<in> set (stack_for_each st) \<Longrightarrow>
    view' = view\<lparr>depth_of := (depth_of view)(s := d)\<rparr> \<Longrightarrow>
    scene_reachable view' (state_of (depth_layer_set_to view' s st))"
| other_view: "scene_reachable view st \<Longrightarrow>
    (\<forall>s\<in>set (stack_for_each st). depth_of view' s = depth_of view s) \<Longrightarrow> scene_reachable view' st"

lemma stack_inv_fields:
  "stack_inv depth (st\<lparr>scene_changed := b\<rparr>) = stack_inv depth st"
  "stack_inv depth (st\<lparr>overlays := rs\<rparr>) = stack_inv depth st"
  "stack_inv depth (st\<lparr>observers := obs\<rparr>) = stack_inv depth st"
  by (simp_all add: stack_inv_def trackers_inv_def)

lemma stack_inv_depth_cong:
  assumes "stack_inv depth st" "\<forall>s\<in>set (stack_for_each st). depth' s = depth s"
  shows "stack_inv depth' st"
proof -
  have "s \<in> set (layer_at (surface_layers st) i) \<Longrightarrow> depth' s = depth s" for s i
    using assms(2) unfolding stack_for_each_def using in_concat_layers by metis
  with assms(1) show ?thesis by (auto simp: stack_inv_def layers_inv_def)
qed

lemma stack_inv_tell_tracker:
  assumes "stack_inv depth st"
    and "\<And>t. tracker_inv t \<Longrightarrow> tracker_inv (state_of (f t)) \<and> active (state_of (f t)) = active t"
  shows "stack_inv depth (state_of (tell_tracker f s st))"
proof (cases "rendering_trackers st s")
  case None
  then show ?thesis using assms(1) by (simp add: tell_tracker_def)
next
  case (Some t)
  have "state_of (tell_tracker f s st) =
      st\<lparr>rendering_trackers := (rendering_trackers st)(s \<mapsto> state_of (f t))\<rparr>"
    using Some by (cases "f t"; cases "fst (f t)") (auto simp: tell_tracker_def and_then_def state_of_def ret_def)
  moreover have "tracker_inv (state_of (f t)) \<and> active (state_of (f t)) = registered_compositors st"
    using assms Some by (auto simp: stack_inv_def trackers_inv_def)
  ultimately show ?thesis
    using assms(1) Some by (auto simp: stack_inv_def trackers_inv_def simp del: set_concat)
qed

lemma active_rendered_occluded [simp]:
  "active (state_of (rendered_in c t)) = active t" "active (state_of (occluded_in c t)) = active t"
  by (simp_all add: rendered_in_def occluded_in_def Let_def)

lemma stack_inv_element:
  "stack_inv depth st \<Longrightarrow> stack_inv depth (state_of (element_rendered c e st))"
  "stack_inv depth st \<Longrightarrow> stack_inv depth (state_of (element_occluded c e st))"
  by (cases e; simp add: element_rendered_def element_occluded_def stack_inv_tell_tracker tracker_inv_ops)+

lemma scene_reachable_inv: "scene_reachable view st \<Longrightarrow> stack_inv (depth_of view) st"
proof (induction rule: scene_reachable.induct)
  case (add view st s)
  then show ?case by (simp add: stack_for_each_def stack_inv_add del: set_concat)
next
  case (raise view st s)
  then show ?case
    using stack_inv_raise stack_inv_raise_absent by (metis (no_types, lifting))
next
  case (elements view st c)
  then show ?case by (simp add: scene_elements_for_def stack_inv_fields)
next
  case (changed view st)
  then show ?case by (simp add: emit_scene_changed_def Let_def stack_inv_fields)
next
  case (add_overlay view st r)
  then show ?case by (simp add: add_input_visualization_def emit_scene_changed_def Let_def stack_inv_fields)
next
  case (remove_overlay view st r)
  then show ?case by (simp add: remove_input_visualization_def emit_scene_changed_def Let_def stack_inv_fields)
next
  case (observe view st ob)
  then show ?case by (simp add: add_observer_def stack_inv_fields)
next
  case (unobserve view st ob')
  then show ?case by (simp add: remove_observer_def stack_inv_fields split: option.split)
next
  case (set_depth view st s view' d)
  then show ?case
    unfolding depth_layer_set_to_def stack_for_each_def by (intro stack_inv_raise) auto
next
  case (other_view view st view')
  then show ?case by (blast intro: stack_inv_depth_cong)
qed (simp_all add: stack_inv_make stack_inv_ops stack_inv_element)

section \<open>Queries\<close>

lemma surface_at_topmost:
  "surface_at view p st = find_last (\<lambda>s. input_area_contains view s p) (concat (surface_layers st))"
  by (simp add: surface_at_def find_last_def rev_concat rev_map)

text \<open>A surface counts for a compositor when it is visible and its tracker says it is exposed there.\<close>

definition exposed_to ::
  "('s, 'c, 'r) surface_view \<Rightarrow> 'c \<Rightarrow> ('s \<rightharpoonup> 'c tracker) \<Rightarrow> 's \<Rightarrow> bool" where
  "exposed_to view cid trackers s \<longleftrightarrow>
     visible view s \<and> (case trackers s of None \<Rightarrow> False | Some t \<Rightarrow> cid \<notin> occlusions t)"

lemma frames_pending_loop_Max:
  assumes "\<forall>s t. trackers s = Some t \<longrightarrow> cid \<in> active t"
  shows "frames_pending_loop view cid trackers ss r =
    Inr (fold (\<lambda>s. max (buffers_ready view s cid)) (filter (exposed_to view cid trackers) ss) r)"
proof (induction ss arbitrary: r)
  case (Cons s ss)
  have m: "(if a > r then a else r) = max a r" for a :: int by (simp add: max_def)
  show ?case
    using assms Cons.IH
    by (cases "trackers s") (auto simp: exposed_to_def is_exposed_in_eq Let_def m)
qed simp

lemma fold_max_bounds:
  fixes r :: int
  shows "r \<le> fold (\<lambda>s. max (f s)) xs r \<and> (\<forall>s\<in>set xs. f s \<le> fold (\<lambda>s. max (f s)) xs r) \<and>
    (fold (\<lambda>s. max (f s)) xs r = r \<or> (\<exists>s\<in>set xs. fold (\<lambda>s. max (f s)) xs r = f s))"
proof (induction xs arbitrary: r)
  case (Cons x xs)
  from Cons [of "max (f x) r"] show ?case by (auto simp: max_def split: if_splits)
qed simp

lemma frames_pending_ok:
  assumes "stack_inv depth st" "cid \<in> registered_compositors st"
  shows "\<exists>n. frames_pending view cid st = Inr n \<and>
    (\<forall>s\<in>set (stack_for_each st). exposed_to view cid (rendering_trackers st) s \<longrightarrow>
       buffers_ready view s cid \<le> n) \<and>
    (n = (if scene_changed st then 1 else 0) \<or>
     (\<exists>s\<in>set (stack_for_each st). exposed_to view cid (rendering_trackers st) s \<and>
        n = buffers_ready view s cid)) \<and> (scene_changed st \<longrightarrow> 1 \<le> n) \<and> 0 \<le> n"
proof -
  have "\<forall>s t. rendering_trackers st s = Some t \<longrightarrow> cid \<in> active t"
    using assms by (auto simp: stack_inv_def trackers_inv_def)
  then show ?thesis
    using fold_max_bounds [of "if scene_changed st then 1 else 0" "\<lambda>s. buffers_ready view s cid"
        "filter (exposed_to view cid (rendering_trackers st)) (concat (surface_layers st))"]
    by (auto simp: frames_pending_def frames_pending_loop_Max stack_for_each_def simp del: set_concat
        split: if_splits)
qed

section \<open>A sample scene\<close>

text \<open>Three surfaces, the first in the overlay layer, and one compositor; the witnesses use it.\<close>

definition sample_view :: "(nat, nat, nat) surface_view" where
  "sample_view = \<lparr>depth_of = (\<lambda>s. if s = 1 then Layer_overlay else Layer_application),
     visible = (\<lambda>_. True), input_area_contains = (\<lambda>s _. s \<noteq> 1),
     generate_renderables = (\<lambda>s _. [s]), buffers_ready = (\<lambda>s _. int s)\<rparr>"

definition sample_scene :: "(nat, nat, nat, nat) surface_stack" where
  "sample_scene = fst (add_surface sample_view 3 (fst (add_surface sample_view 2
     (fst (add_surface sample_view 1 (fst (register_compositor 7 make_surface_stack)))))))"

lemma sample_scene_eq:
  "surface_layers sample_scene = [[], [], [2, 3], [], [], [1]]"
  "registered_compositors sample_scene = {7}"
  "rendering_trackers sample_scene 2 = Some \<lparr>surface_alive = True, occlusions = {}, active = {7}\<rparr>"
  by (simp_all add: sample_scene_def add_surface_eq insert_surface_at_top_of_depth_layer_def
      insert_at_layer_def register_compositor_def update_rendering_tracker_compositors_def
      make_surface_stack_def sample_view_def Let_def numeral_eq_Suc active_compositors_def
      remove_occlusions_for_inactive_compositors_def make_tracker_def)

lemma sample_scene_reachable: "scene_reachable sample_view sample_scene"
  unfolding sample_scene_def
  by (intro scene_reachable.intros)
    (simp_all add: stack_for_each_def add_surface_eq insert_surface_at_top_of_depth_layer_def
      insert_at_layer_def register_compositor_def update_rendering_tracker_compositors_def
      make_surface_stack_def sample_view_def Let_def numeral_eq_Suc)

section \<open>Properties\<close>

text \<open>C15: In every scene that the stack's operations can reach, when no surface is added while it is in
  the stack and surfaces tell the stack when their depth changes, the stacking order is sorted by
  depth layer, no surface occurs twice, and exactly the stacked surfaces have a rendering tracker,
  whose active compositors are the registered ones.\<close>
theorem scene_sorted_by_depth:
  assumes "scene_reachable view st"
  shows "sorted (map (depth_of view) (stack_for_each st)) \<and>
    distinct (stack_for_each st) \<and>
    dom (rendering_trackers st) = set (stack_for_each st) \<and>
    (\<forall>s t. rendering_trackers st s = Some t \<longrightarrow> active t = registered_compositors st)"
  using scene_reachable_inv [OF assms] layers_inv_sorted
  by (auto simp: stack_inv_def trackers_inv_def stack_for_each_def sorted_depths simp del: set_concat)

theorem scene_sorted_by_depth_witness:
  "stack_for_each sample_scene = [2, 3, 1] \<and>
   sorted (map (depth_of sample_view) (stack_for_each sample_scene))"
  using scene_sorted_by_depth [OF sample_scene_reachable] sample_scene_eq by (simp add: stack_for_each_def)

text \<open>Raising a surface of a reachable scene moves it to the top of its depth layer, leaves the
  relative order of all other surfaces alone and tells every observer; raising a surface that is
  not in the scene throws and changes nothing.\<close>
theorem raise_moves_to_top_of_layer:
  assumes "scene_reachable view st"
  shows "if s \<in> set (stack_for_each st)
    then \<exists>st'. raise_surface view s st = ret (notify st' Surfaces_reordered) st' \<and>
      (\<forall>i. layer_at (surface_layers st') i = removeAll s (layer_at (surface_layers st) i) @
        (if i = mir_depth_layer_get_index (depth_of view s) then [s] else []))
    else raise_surface view s st = throw (Runtime_error ''Invalid surface'') st"
  using scene_reachable_inv [OF assms] raise_surface_layers [of "depth_of view" st s view]
  by (auto simp: stack_inv_def stack_for_each_def raise_surface_def erase_first_None [THEN iffD2]
      simp del: set_concat)

theorem raise_moves_to_top_of_layer_witness:
  "\<exists>st'. raise_surface sample_view 2 sample_scene = ret (notify st' Surfaces_reordered) st' \<and>
     layer_at (surface_layers st') 2 = [3, 2]"
proof -
  have "2 \<in> set (stack_for_each sample_scene)" "layer_at (surface_layers sample_scene) 2 = [2, 3]"
    by (simp_all add: stack_for_each_def sample_scene_eq layer_at_def)
  with raise_moves_to_top_of_layer [OF sample_scene_reachable, of 2] show ?thesis
    by (auto simp: sample_view_def)
qed

text \<open>Raising a set of surfaces puts the raised ones above the others inside each depth layer
  and keeps the order among the raised and among the others; observers are told only when the order
  changed.\<close>
theorem raise_set_is_stable:
  assumes "scene_reachable view st"
  shows "\<exists>st'. raise_set view ss st = (st', if st' = st then [] else notify st' Surfaces_reordered) \<and>
    (\<forall>i. layer_at (surface_layers st') i =
       filter (\<lambda>s. s \<notin> ss) (layer_at (surface_layers st) i) @
       filter (\<lambda>s. s \<in> ss) (layer_at (surface_layers st) i))"
  using scene_reachable_inv [OF assms] raise_set_layers [of view st ss]
  unfolding stack_inv_def raised_def by blast

theorem raise_set_is_stable_witness:
  "layer_at (surface_layers (fst (raise_set sample_view {1, 2} sample_scene))) 2 = [3, 2]"
proof -
  have "layer_at (surface_layers sample_scene) 2 = [2, 3]"
    by (simp add: sample_scene_eq layer_at_def)
  with raise_set_is_stable [OF sample_scene_reachable, of "{1, 2}"] show ?thesis by auto
qed

text \<open>The surface under the cursor is the topmost one whose input area contains it: no surface
  above it in the stacking order does.\<close>
theorem surface_at_is_topmost:
  "surface_at view cursor st = Some s \<longleftrightarrow>
     (\<exists>below above. stack_for_each st = below @ s # above \<and> input_area_contains view s cursor \<and>
        (\<forall>t\<in>set above. \<not> input_area_contains view t cursor))"
  unfolding surface_at_topmost find_last_Some_iff stack_for_each_def by blast

theorem surface_at_is_topmost_witness:
  "surface_at sample_view (Point 0 0) sample_scene = Some 3"
  unfolding surface_at_is_topmost
  by (intro exI [of _ "[2]"] exI [of _ "[1]"]) (simp add: stack_for_each_def sample_scene_eq sample_view_def)

text \<open>On a reachable scene the number of pending frames of a registered compositor is computed
  without an exception: it is the largest number of ready buffers among the visible surfaces that
  are exposed to the compositor, or 1 if the scene changed and none has more.\<close>
theorem frames_pending_is_maximum:
  assumes "scene_reachable view st" "cid \<in> registered_compositors st"
  shows "\<exists>n. frames_pending view cid st = Inr n \<and>
    (\<forall>s\<in>set (stack_for_each st). exposed_to view cid (rendering_trackers st) s \<longrightarrow>
       buffers_ready view s cid \<le> n) \<and>
    (n = (if scene_changed st then 1 else 0) \<or>
     (\<exists>s\<in>set (stack_for_each st). exposed_to view cid (rendering_trackers st) s \<and>
        n = buffers_ready view s cid)) \<and> (scene_changed st \<longrightarrow> 1 \<le> n) \<and> 0 \<le> n"
  by (rule frames_pending_ok [OF scene_reachable_inv [OF assms(1)] assms(2)])

theorem frames_pending_is_maximum_witness:
  "\<exists>n. frames_pending sample_view 7 sample_scene = Inr n \<and> 2 \<le> n"
proof -
  have "7 \<in> registered_compositors sample_scene" "2 \<in> set (stack_for_each sample_scene)"
    "exposed_to sample_view 7 (rendering_trackers sample_scene) 2" "buffers_ready sample_view 2 7 = 2"
    by (simp_all add: sample_scene_eq stack_for_each_def exposed_to_def sample_view_def)
  with frames_pending_is_maximum [OF sample_scene_reachable] show ?thesis by metis
qed

end
