(* ===== verification/Compositing.thy ===== *)
theory Compositing
  imports Surface_Stack Occlusion
begin

text \<open>
  \<open>DefaultDisplayBufferCompositor::composite\<close>, where the scene, the occlusion filter and the rendering
  trackers meet: the elements that the filter takes out of the scene are told that they are occluded,
  the others that they are rendered, and the renderables of the others go to the display buffer's
  overlay or to the renderer.  The display buffer's answer to \<open>overlay\<close> is an argument; the report is
  logging only.
\<close>

section \<open>One frame\<close>

datatype ('m, 'r) frame =
    Overlaid "'r list"
  | Drawn 'm rectangle "'r list"

fun frame_renderables :: "('m, 'r) frame \<Rightarrow> 'r list" where
  "frame_renderables (Overlaid rs) = rs"
| "frame_renderables (Drawn m area rs) = rs"

text \<open>A loop that calls every element in turn; a throw ends it.\<close>

fun tell_elements ::
  "('e \<Rightarrow> 's \<Rightarrow> ('s, 'n list) outcome) \<Rightarrow> 'e list \<Rightarrow> 's \<Rightarrow> ('s, 'n list) outcome" where
  "tell_elements f [] st = ret [] st"
| "tell_elements f (e # es) st =
     and_then (f e st) (\<lambda>ns st'. and_then (tell_elements f es st') (\<lambda>ns' st''. ret (ns @ ns') st'') id) id"

definition composite ::
  "('r \<Rightarrow> renderable) \<Rightarrow> rectangle \<Rightarrow> 'm \<Rightarrow> ('r list \<Rightarrow> bool) \<Rightarrow> 'c \<Rightarrow> ('s, 'r) scene_element list \<Rightarrow>
   ('s, 'c, 'r, 'o) surface_stack \<Rightarrow>
   (('s, 'c, 'r, 'o) surface_stack, ('s \<times> visibility) list \<times> ('m, 'r) frame) outcome" where
  "composite rend view_area transform overlay cid elements st =
     (let (occlusions, scene_elements) = filter_occlusions_from (rend \<circ> element_renderable) elements view_area in
      and_then (tell_elements (element_occluded cid) occlusions st) (\<lambda>ns st1.
      and_then (tell_elements (element_rendered cid) scene_elements st1) (\<lambda>ns' st2.
        let renderable_list = map element_renderable scene_elements in
        ret (ns @ ns', if overlay renderable_list then Overlaid renderable_list
                       else Drawn transform view_area renderable_list) st2) id) id)"

section \<open>What the elements tell the trackers\<close>

fun of_surface :: "'s \<Rightarrow> ('s, 'r) scene_element \<Rightarrow> bool" where
  "of_surface s (Surface_element s' r) \<longleftrightarrow> s = s'"
| "of_surface s (Overlay_element r) \<longleftrightarrow> False"

text \<open>The compositor is active in every tracker of the stack.\<close>

definition knows_compositor :: "'c \<Rightarrow> ('s, 'c, 'r, 'o) surface_stack \<Rightarrow> bool" where
  "knows_compositor cid st \<longleftrightarrow> (\<forall>s t. rendering_trackers st s = Some t \<longrightarrow> cid \<in> active t)"

definition occlude_tracker :: "'c \<Rightarrow> 'c tracker \<Rightarrow> 'c tracker" where
  "occlude_tracker cid t = t\<lparr>occlusions := insert cid (occlusions t)\<rparr>"

definition render_tracker :: "'c \<Rightarrow> 'c tracker \<Rightarrow> 'c tracker" where
  "render_tracker cid t = t\<lparr>occlusions := occlusions t - {cid}\<rparr>"

lemma tracker_calls:
  assumes "cid \<in> active t"
  shows "occluded_in cid t = ret (if occlusions (occlude_tracker cid t) = active t \<and> surface_alive t
           then Some Visibility_occluded else None) (occlude_tracker cid t)"
    and "rendered_in cid t = ret (if surface_alive t then Some Visibility_exposed else None) (render_tracker cid t)"
  using assms by (auto simp: occluded_in_def rendered_in_def is_active_compositor_def occlude_tracker_def
      render_tracker_def configure_visibility_def occluded_in_all_active_compositors_def Let_def)

text \<open>Telling a list of elements applies one change to the tracker of each surface that has an element in it.\<close>

definition change_trackers ::
  "('c tracker \<Rightarrow> 'c tracker) \<Rightarrow> ('s, 'r) scene_element list \<Rightarrow> ('s, 'c, 'r, 'o) surface_stack \<Rightarrow> ('s, 'c, 'r, 'o) surface_stack" where
  "change_trackers f es st = st\<lparr>rendering_trackers := (\<lambda>s. map_option (\<lambda>t. if \<exists>e\<in>set es. of_surface s e then f t else t)
     (rendering_trackers st s))\<rparr>"

lemma trackers_eqI:
  assumes "\<And>s. F s = G s"
  shows "st\<lparr>rendering_trackers := F\<rparr> = st\<lparr>rendering_trackers := G\<rparr>"
  using assms by presburger

lemma change_trackers_Nil [simp]: "change_trackers f [] st = st"
  by (simp add: change_trackers_def option.map_ident)

lemma change_trackers_Cons:
  assumes "\<And>t. f (f t) = f t"
  shows "change_trackers f es (change_trackers f [e] st) = change_trackers f (e # es) st"
proof -
  have "map_option (\<lambda>t. if \<exists>e\<in>set es. of_surface s e then f t else t)
      (map_option (\<lambda>t. if \<exists>e'\<in>set [e]. of_surface s e' then f t else t) (rendering_trackers st s)) =
    map_option (\<lambda>t. if \<exists>e'\<in>set (e # es). of_surface s e' then f t else t) (rendering_trackers st s)" for s
    by (cases "rendering_trackers st s") (simp_all add: assms)
  then show ?thesis by (simp add: change_trackers_def)
qed

lemma knows_compositor_change:
  "(\<And>t. active (f t) = active t) \<Longrightarrow> knows_compositor cid st \<Longrightarrow> knows_compositor cid (change_trackers f es st)"
  by (auto simp: knows_compositor_def change_trackers_def split: if_splits)

lemma change_tracker_surface:
  assumes "rendering_trackers st s = Some t"
  shows "st\<lparr>rendering_trackers := (rendering_trackers st)(s \<mapsto> f t)\<rparr> = change_trackers f [Surface_element s r] st"
  unfolding change_trackers_def using assms by (intro trackers_eqI) (auto simp: option.map_ident)

lemma change_tracker_none:
  "rendering_trackers st s = None \<Longrightarrow> change_trackers f [Surface_element s r] st = st"
  "change_trackers f [Overlay_element r] st = st"
proof -
  show "change_trackers f [Overlay_element r] st = st"
    by (simp add: change_trackers_def option.map_ident)
  assume "rendering_trackers st s = None"
  then have "map_option (\<lambda>t. if \<exists>e\<in>set [Surface_element s r]. of_surface s' e then f t else t)
      (rendering_trackers st s') = rendering_trackers st s'" for s'
    by (cases "s' = s") (simp_all add: option.map_ident)
  then show "change_trackers f [Surface_element s r] st = st" by (simp add: change_trackers_def)
qed

lemma change_trackers_at:
  "rendering_trackers (change_trackers f es st) s =
     map_option (\<lambda>t. if \<exists>e\<in>set es. of_surface s e then f t else t) (rendering_trackers st s)"
  by (simp add: change_trackers_def)

definition tracked :: "('s, 'c, 'r, 'o) surface_stack \<Rightarrow> ('c tracker \<Rightarrow> bool) \<Rightarrow> 's \<Rightarrow> bool" where
  "tracked st P s \<longleftrightarrow> (case rendering_trackers st s of None \<Rightarrow> False | Some t \<Rightarrow> P t)"

definition has_element :: "('s, 'r) scene_element list \<Rightarrow> 's \<Rightarrow> bool" where
  "has_element es s \<longleftrightarrow> (\<exists>e\<in>set es. of_surface s e)"

lemma has_element_simps [simp]:
  "has_element [] s = False" "has_element (e # es) s \<longleftrightarrow> of_surface s e \<or> has_element es s"
  by (simp_all add: has_element_def)

lemma has_element_of_scene:
  assumes "visible view s" "r \<in> set (generate_renderables view s cid)" "s \<in> set (stack_for_each st)"
  shows "has_element (fst (scene_elements_for view cid st)) s"
  unfolding has_element_def
proof
  show "Surface_element s r \<in> set (fst (scene_elements_for view cid st))"
    using assms by (auto simp: scene_elements_for_def stack_for_each_def)
qed simp

lemma tracked_change: "(\<And>t. P (f t) = P t) \<Longrightarrow> tracked (change_trackers f es st) P = tracked st P"
  by (auto simp: tracked_def change_trackers_at fun_eq_iff split: option.splits)

text \<open>
  A call on a tracker that always changes it by \<open>g\<close> and configures the visibility \<open>v\<close> on the surface
  when \<open>P\<close> holds: what a loop of such calls does and whom it notifies.
\<close>

lemma tell_elements_spec:
  assumes E: "\<And>s r st. E (Surface_element s r) st = tell_tracker h s st" "\<And>r st. E (Overlay_element r) st = ret [] st"
    and h: "\<And>t. cid \<in> active t \<Longrightarrow> h t = ret (if P t then Some v else None) (g t)"
    and g: "\<And>t. g (g t) = g t" "\<And>t. active (g t) = active t" "\<And>t. P (g t) = P t"
    and k: "knows_compositor cid st"
  shows "\<exists>ns. tell_elements E es st = ret ns (change_trackers g es st) \<and>
    set ns = {(s, v) | s. has_element es s \<and> tracked st P s}"
  using k
proof (induction es arbitrary: st)
  case (Cons e es)
  let ?st = "change_trackers g [e] st"
  have "\<exists>ns. E e st = ret ns ?st \<and> set ns = {(s, v) | s. of_surface s e \<and> tracked st P s}"
  proof (cases e)
    case (Surface_element s r)
    show ?thesis
    proof (cases "rendering_trackers st s")
      case None
      then show ?thesis using Surface_element by (simp add: E tell_tracker_def change_tracker_none tracked_def)
    next
      case (Some t)
      then have "h t = ret (if P t then Some v else None) (g t)" using Cons.prems by (auto simp: knows_compositor_def h)
      then show ?thesis
        using Surface_element Some change_tracker_surface [OF Some, of g r] by (auto simp: E tell_tracker_def tracked_def)
    qed
  qed (simp add: E change_tracker_none)
  then obtain ns where ns: "E e st = ret ns ?st"
    "set ns = {(s, v) | s. of_surface s e \<and> tracked st P s}" by blast
  obtain ns' where ns': "tell_elements E es ?st = ret ns' (change_trackers g es ?st)"
    "set ns' = {(s, v) | s. has_element es s \<and> tracked ?st P s}"
    using Cons.IH [OF knows_compositor_change [OF g(2) Cons.prems]] by blast
  have "set ns' = {(s, v) | s. has_element es s \<and> tracked st P s}" unfolding ns'(2) by (simp add: tracked_change g)
  with ns ns'(1) show ?case by (auto simp: change_trackers_Cons g)
qed simp

definition hidden_everywhere :: "'c \<Rightarrow> 'c tracker \<Rightarrow> bool" where
  "hidden_everywhere cid t \<longleftrightarrow> insert cid (occlusions t) = active t \<and> surface_alive t"

lemma tell_occluded:
  assumes "knows_compositor cid st"
  shows "\<exists>ns. tell_elements (element_occluded cid) es st = ret ns (change_trackers (occlude_tracker cid) es st) \<and>
    set ns = {(s, Visibility_occluded) | s. has_element es s \<and> tracked st (hidden_everywhere cid) s}"
  by (rule tell_elements_spec [where h = "occluded_in cid", OF _ _ _ _ _ _ assms])
    (simp_all add: element_occluded_def tracker_calls occlude_tracker_def hidden_everywhere_def)

lemma tell_rendered:
  assumes "knows_compositor cid st"
  shows "\<exists>ns. tell_elements (element_rendered cid) es st = ret ns (change_trackers (render_tracker cid) es st) \<and>
    set ns = {(s, Visibility_exposed) | s. has_element es s \<and> tracked st surface_alive s}"
  by (rule tell_elements_spec [where h = "rendered_in cid", OF _ _ _ _ _ _ assms])
    (simp_all add: element_rendered_def tracker_calls render_tracker_def)

section \<open>The frame\<close>

lemma filter_loop_map:
  "map_prod (map f) (map f) (filter_loop (rend \<circ> f) area es cov oc el) =
     filter_loop rend area (map f es) cov (map f oc) (map f el)"
  by (induction es arbitrary: cov oc el) (auto split: prod.split bool.split)

lemma filter_occlusions_map:
  "map f (snd (filter_occlusions_from (rend \<circ> f) es area)) = snd (filter_occlusions_from rend (map f es) area)"
proof -
  have "snd (map_prod (map f) (map f) (filter_loop (rend \<circ> f) area (rev es) [] [] [])) =
      snd (filter_loop rend area (map f (rev es)) [] [] [])"
    using filter_loop_map [of f rend area "rev es" "[]" "[]" "[]"] by simp
  then show ?thesis by (simp add: filter_occlusions_from_def rev_map)
qed

text \<open>The occluded and the drawn elements of a frame.\<close>

definition frame_split :: "('r \<Rightarrow> renderable) \<Rightarrow> rectangle \<Rightarrow> ('s, 'r) scene_element list \<Rightarrow>
    ('s, 'r) scene_element list \<times> ('s, 'r) scene_element list" where
  "frame_split rend area elements = filter_occlusions_from (rend \<circ> element_renderable) elements area"

lemma composite_eq:
  assumes "knows_compositor cid st" "frame_split rend area elements = (oc, el)"
  shows "\<exists>ns fr. composite rend area transform overlay cid elements st =
      ret (ns, fr) (change_trackers (render_tracker cid) el (change_trackers (occlude_tracker cid) oc st)) \<and>
    frame_renderables fr = map element_renderable el \<and>
    set ns = {(s, Visibility_occluded) | s. has_element oc s \<and> tracked st (hidden_everywhere cid) s} \<union>
      {(s, Visibility_exposed) | s. has_element el s \<and> tracked st surface_alive s}"
proof -
  let ?st = "change_trackers (occlude_tracker cid) oc st"
  obtain ns where "tell_elements (element_occluded cid) oc st = ret ns ?st \<and>
    set ns = {(s, Visibility_occluded) | s. has_element oc s \<and> tracked st (hidden_everywhere cid) s}"
    by (rule exE [OF tell_occluded [OF assms(1)]])
  note ns = this [THEN conjunct1] this [THEN conjunct2]
  have k: "knows_compositor cid ?st" using assms by (intro knows_compositor_change) (simp add: occlude_tracker_def)
  obtain ns' where "tell_elements (element_rendered cid) el ?st = ret ns' (change_trackers (render_tracker cid) el ?st) \<and>
    set ns' = {(s, Visibility_exposed) | s. has_element el s \<and> tracked ?st surface_alive s}"
    by (rule exE [OF tell_rendered [OF k]])
  note ns' = this [THEN conjunct1] this [THEN conjunct2]
  have "set ns' = {(s, Visibility_exposed) | s. has_element el s \<and> tracked st surface_alive s}"
    unfolding ns'(2) by (simp add: tracked_change occlude_tracker_def)
  then have n: "set (ns @ ns') = {(s, Visibility_occluded) | s. has_element oc s \<and> tracked st (hidden_everywhere cid) s} \<union>
      {(s, Visibility_exposed) | s. has_element el s \<and> tracked st surface_alive s}"
    using ns(2) by (simp only: set_append)
  let ?fr = "if overlay (map element_renderable el) then Overlaid (map element_renderable el)
    else Drawn transform area (map element_renderable el)"
  have "composite rend area transform overlay cid elements st = ret (ns @ ns', ?fr) (change_trackers (render_tracker cid) el ?st)"
    using assms(2) by (simp add: composite_def frame_split_def ns(1) ns'(1) Let_def)
  moreover have "frame_renderables ?fr = map element_renderable el" by simp
  ultimately show ?thesis using n by (intro exI [of _ "ns @ ns'"] exI [of _ ?fr] conjI)
qed

lemma composite_trackers:
  assumes "rendering_trackers st s = Some t"
  shows "\<exists>t'. rendering_trackers (change_trackers (render_tracker cid) el (change_trackers (occlude_tracker cid) oc st)) s = Some t' \<and>
    active t' = active t \<and> occlusions t' - {cid} = occlusions t - {cid} \<and>
    (cid \<in> occlusions t' \<longleftrightarrow> \<not> has_element el s \<and> (has_element oc s \<or> cid \<in> occlusions t))"
  using assms by (auto simp: change_trackers_at has_element_def render_tracker_def occlude_tracker_def)

lemma frame_split_elements:
  assumes "frame_split rend area elements = (oc, el)"
  shows "has_element elements s \<longleftrightarrow> has_element oc s \<or> has_element el s"
proof -
  have "mset oc + mset el = mset elements"
    using filter_loop_split [of "rend \<circ> element_renderable" area "rev elements" "[]" "[]" "[]"] assms
    by (auto simp: frame_split_def filter_occlusions_from_def)
  then have "set elements = set oc \<union> set el" by (metis set_mset_mset set_mset_union)
  then show ?thesis by (auto simp: has_element_def)
qed

lemma scene_elements_frame:
  "snd (scene_elements_for view cid st) = st\<lparr>scene_changed := False\<rparr>"
  by (simp add: scene_elements_for_def)

lemma reachable_knows_compositor:
  assumes "scene_reachable view st" "cid \<in> registered_compositors st"
  shows "knows_compositor cid st"
  using scene_reachable_inv [OF assms(1)] assms(2) by (auto simp: stack_inv_def trackers_inv_def knows_compositor_def)

lemma tell_elements_keeps:
  assumes "\<And>e st. R st \<Longrightarrow> R (state_of (f e st))" "R st"
  shows "R (state_of (tell_elements f es st))"
  using assms(2)
proof (induction es arbitrary: st)
  case (Cons e es)
  obtain x st' where x: "f e st = (x, st')" by fastforce
  then have "R st'" using assms(1) [OF Cons.prems, of e] by (simp add: state_of_def)
  then have "R (state_of (tell_elements f es st'))" by (rule Cons.IH)
  then show ?case
    using x \<open>R st'\<close> by (cases x; cases "tell_elements f es st'"; cases "fst (tell_elements f es st')")
      (auto simp: and_then_def state_of_def ret_def)
qed simp

lemma composite_reachable:
  assumes "scene_reachable view st"
  shows "scene_reachable view (state_of (composite rend area transform overlay cid elements st))"
proof -
  obtain oc el where f: "filter_occlusions_from (rend \<circ> element_renderable) elements area = (oc, el)" by fastforce
  obtain x st1 where x: "tell_elements (element_occluded cid) oc st = (x, st1)" by fastforce
  obtain y st2 where y: "tell_elements (element_rendered cid) el st1 = (y, st2)" by fastforce
  have "scene_reachable view st1"
    using tell_elements_keeps [of "scene_reachable view" "element_occluded cid", OF scene_reachable.occluded assms, of oc] x
    by (simp add: state_of_def)
  moreover from this have "scene_reachable view st2"
    using tell_elements_keeps [of "scene_reachable view" "element_rendered cid", OF scene_reachable.rendered, of st1 el] y
    by (simp add: state_of_def)
  ultimately show ?thesis
    by (cases x; cases y) (simp_all add: composite_def f x y and_then_def Let_def ret_def state_of_def)
qed

text \<open>
  A surface with one element hidden and another one drawn, on the only compositor, is configured as
  occluded and then as exposed in every frame.
\<close>

lemma partly_hidden_surface_is_told_both:
  assumes "knows_compositor cid st" "frame_split rend area elements = (oc, el)"
    and "has_element oc s" "has_element el s"
    and "rendering_trackers st s = Some t" "surface_alive t" "active t = {cid}" "tracker_inv t"
  shows "\<exists>ns fr st'. composite rend area transform overlay cid elements st = ret (ns, fr) st' \<and>
    (s, Visibility_occluded) \<in> set ns \<and> (s, Visibility_exposed) \<in> set ns"
proof -
  have "tracked st (hidden_everywhere cid) s" "tracked st surface_alive s"
    using assms(5-8) by (auto simp: tracked_def hidden_everywhere_def tracker_inv_def)
  with composite_eq [OF assms(1,2), of transform overlay] assms(3,4) show ?thesis by (elim exE conjE) auto
qed

end
