(* ===== verification/Input_Events.thy ===== *)
theory Input_Events
  imports Geometry Complex_Main "HOL-Library.Word"
begin

unbundle bit_operations_syntax

text \<open>
  The input events that travel through the server, as the accessor functions of \<open>mir_toolkit\<close> show
  them, the event builders of \<open>src/client/events/event_builders.cpp\<close> that the input components call,
  and the modifier tables of \<open>input_modifier_utils.cpp\<close>.  Coordinates are single precision values:
  rational numbers here, and a computed value goes through the rounding function \<open>rnd\<close>, an argument
  of every definition that computes with them.
\<close>

section \<open>Events\<close>

datatype touch_action = Touch_up | Touch_down | Touch_change

record touch_point =
  tp_id :: int
  tp_action :: touch_action
  tp_tooltype :: nat
  tp_x :: rat
  tp_y :: rat
  tp_pressure :: rat
  tp_major :: rat
  tp_minor :: rat

record touch_event =
  device_id :: int
  event_time :: int
  modifiers :: "32 word"
  points :: "touch_point list"

datatype keyboard_action = Key_up | Key_down | Key_repeat

record keyboard_event =
  key_device :: int
  key_time :: int
  key_cookie :: "nat list"
  key_action :: keyboard_action
  key_code :: "32 word"
  scan_code :: int
  key_modifiers :: "32 word"

datatype pointer_action = Button_up | Button_down | Pointer_enter | Pointer_leave | Pointer_motion

record pointer_event =
  pointer_device :: int
  pointer_time :: int
  pointer_modifiers :: "32 word"
  pointer_cookie :: "nat list"
  pointer_action :: pointer_action
  pointer_buttons :: "32 word"
  pointer_x :: rat
  pointer_y :: rat
  relative_x :: rat
  relative_y :: rat
  vscroll :: rat
  hscroll :: rat
  dnd_handle :: "nat list"

text \<open>\<open>Other\<close> stands for every event that is not an input event.\<close>

datatype 'e event =
    Key keyboard_event
  | Touch touch_event
  | Pointer pointer_event
  | Other 'e

section \<open>Event builders\<close>

definition make_key_event ::
  "int \<Rightarrow> int \<Rightarrow> nat list \<Rightarrow> keyboard_action \<Rightarrow> 32 word \<Rightarrow> int \<Rightarrow> 32 word \<Rightarrow> keyboard_event" where
  "make_key_event dev timestamp cookie act key scan mods =
     \<lparr>key_device = dev, key_time = timestamp, key_cookie = cookie, key_action = act, key_code = key,
      scan_code = scan, key_modifiers = mods\<rparr>"

definition make_pointer_event ::
  "int \<Rightarrow> int \<Rightarrow> nat list \<Rightarrow> 32 word \<Rightarrow> pointer_action \<Rightarrow> 32 word \<Rightarrow> rat \<Rightarrow> rat \<Rightarrow> rat \<Rightarrow> rat \<Rightarrow>
   rat \<Rightarrow> rat \<Rightarrow> pointer_event" where
  "make_pointer_event dev timestamp cookie mods act buttons x y hs vs rx ry =
     \<lparr>pointer_device = dev, pointer_time = timestamp, pointer_modifiers = mods,
      pointer_cookie = cookie, pointer_action = act, pointer_buttons = buttons,
      pointer_x = x, pointer_y = y, relative_x = rx, relative_y = ry, vscroll = vs, hscroll = hs,
      dnd_handle = []\<rparr>"

definition transform_pointer :: "(rat \<Rightarrow> rat) \<Rightarrow> displacement \<Rightarrow> pointer_event \<Rightarrow> pointer_event" where
  "transform_pointer rnd movement pev =
     pev\<lparr>pointer_x := rnd (pointer_x pev - of_int (dx movement)),
         pointer_y := rnd (pointer_y pev - of_int (dy movement))\<rparr>"

definition transform_touch :: "(rat \<Rightarrow> rat) \<Rightarrow> displacement \<Rightarrow> touch_event \<Rightarrow> touch_event" where
  "transform_touch rnd movement tev =
     tev\<lparr>points := map (\<lambda>p. p\<lparr>tp_x := rnd (tp_x p - of_int (dx movement)),
                             tp_y := rnd (tp_y p - of_int (dy movement))\<rparr>) (points tev)\<rparr>"

fun transform_positions :: "(rat \<Rightarrow> rat) \<Rightarrow> displacement \<Rightarrow> 'e event \<Rightarrow> 'e event" where
  "transform_positions rnd movement (Pointer pev) = Pointer (transform_pointer rnd movement pev)"
| "transform_positions rnd movement (Touch tev) = Touch (transform_touch rnd movement tev)"
| "transform_positions rnd movement (Key kev) = Key kev"
| "transform_positions rnd movement (Other e) = Other e"

fun set_drag_and_drop_handle_of :: "nat list \<Rightarrow> 'e event \<Rightarrow> 'e event" where
  "set_drag_and_drop_handle_of handle (Pointer pev) = Pointer (pev\<lparr>dnd_handle := handle\<rparr>)"
| "set_drag_and_drop_handle_of handle ev = ev"

fun set_cursor_position_of :: "rat \<Rightarrow> rat \<Rightarrow> 'e event \<Rightarrow> exn + 'e event" where
  "set_cursor_position_of x y (Pointer pev) = Inr (Pointer (pev\<lparr>pointer_x := x, pointer_y := y\<rparr>))"
| "set_cursor_position_of x y ev =
     Inl (Invalid_argument ''Cursor position is only valid for pointer events.'')"

fun set_button_state_of :: "32 word \<Rightarrow> 'e event \<Rightarrow> exn + 'e event" where
  "set_button_state_of buttons (Pointer pev) = Inr (Pointer (pev\<lparr>pointer_buttons := buttons\<rparr>))"
| "set_button_state_of buttons ev =
     Inl (Invalid_argument ''Updating button state is only valid for pointer events.'')"

text \<open>A \<open>Point\<close> built from two \<open>float\<close> values truncates them towards zero.\<close>

definition trunc_rat :: "rat \<Rightarrow> int" where
  "trunc_rat r = (if 0 \<le> r then \<lfloor>r\<rfloor> else \<lceil>r\<rceil>)"

definition point_at :: "rat \<Rightarrow> rat \<Rightarrow> point" where
  "point_at x y = Point (trunc_rat x) (trunc_rat y)"

lemma trunc_rat_of_int [simp]: "trunc_rat (of_int n) = n"
  by (simp add: trunc_rat_def)

section \<open>Modifiers\<close>

definition modifier_none :: "32 word" where "modifier_none = 0x1"
definition modifier_alt :: "32 word" where "modifier_alt = 0x2"
definition modifier_alt_left :: "32 word" where "modifier_alt_left = 0x4"
definition modifier_alt_right :: "32 word" where "modifier_alt_right = 0x8"
definition modifier_shift :: "32 word" where "modifier_shift = 0x10"
definition modifier_shift_left :: "32 word" where "modifier_shift_left = 0x20"
definition modifier_shift_right :: "32 word" where "modifier_shift_right = 0x40"
definition modifier_ctrl :: "32 word" where "modifier_ctrl = 0x200"
definition modifier_ctrl_left :: "32 word" where "modifier_ctrl_left = 0x400"
definition modifier_ctrl_right :: "32 word" where "modifier_ctrl_right = 0x800"
definition modifier_meta :: "32 word" where "modifier_meta = 0x1000"
definition modifier_meta_left :: "32 word" where "modifier_meta_left = 0x2000"
definition modifier_meta_right :: "32 word" where "modifier_meta_right = 0x4000"
definition modifier_caps_lock :: "32 word" where "modifier_caps_lock = 0x8000"
definition modifier_num_lock :: "32 word" where "modifier_num_lock = 0x10000"
definition modifier_scroll_lock :: "32 word" where "modifier_scroll_lock = 0x20000"

lemmas modifier_defs = modifier_none_def modifier_alt_def modifier_alt_left_def modifier_alt_right_def
  modifier_shift_def modifier_shift_left_def modifier_shift_right_def modifier_ctrl_def
  modifier_ctrl_left_def modifier_ctrl_right_def modifier_meta_def modifier_meta_left_def
  modifier_meta_right_def modifier_caps_lock_def modifier_num_lock_def modifier_scroll_lock_def

text \<open>Scan codes of \<open>linux/input.h\<close>.\<close>

abbreviation key_capslock :: int where "key_capslock \<equiv> 58"
abbreviation key_numlock :: int where "key_numlock \<equiv> 69"
abbreviation key_scrolllock :: int where "key_scrolllock \<equiv> 70"

definition to_modifiers :: "int \<Rightarrow> 32 word" where
  "to_modifiers scan =
     (if scan = 56 then modifier_alt_left
      else if scan = 100 then modifier_alt_right
      else if scan = 97 then modifier_ctrl_right
      else if scan = 29 then modifier_ctrl_left
      else if scan = key_capslock then modifier_caps_lock
      else if scan = 125 then modifier_meta_left
      else if scan = 126 then modifier_meta_right
      else if scan = key_scrolllock then modifier_scroll_lock
      else if scan = key_numlock then modifier_num_lock
      else if scan = 42 then modifier_shift_left
      else if scan = 54 then modifier_shift_right
      else 0)"

text \<open>One of the four conditional statements of \<open>expand_modifiers\<close>.\<close>

definition expand_pair :: "32 word \<Rightarrow> 32 word \<Rightarrow> 32 word \<Rightarrow> 32 word \<Rightarrow> 32 word" where
  "expand_pair lft rgt both m = (if m AND lft \<noteq> 0 \<or> m AND rgt \<noteq> 0 then m OR both else m)"

definition expand_modifiers :: "32 word \<Rightarrow> 32 word" where
  "expand_modifiers m0 =
     (if m0 = 0 then modifier_none
      else let
        m1 = expand_pair modifier_alt_left modifier_alt_right modifier_alt m0;
        m2 = expand_pair modifier_ctrl_left modifier_ctrl_right modifier_ctrl m1;
        m3 = expand_pair modifier_shift_left modifier_shift_right modifier_shift m2
      in expand_pair modifier_meta_left modifier_meta_right modifier_meta m3)"

text \<open>The bits of the expansion, one by one: a combined bit is set when either side is, all other bits
  are kept.\<close>

lemma and_bit_nonzero: "m AND (2 ^ n :: 32 word) \<noteq> 0 \<longleftrightarrow> bit m n"
  by (simp add: bit_iff_and_push_bit_not_eq_0 push_bit_eq_mult)

lemma bit_expand_pair:
  assumes "k < 32"
  shows "bit (expand_pair (2 ^ l) (2 ^ r) (2 ^ k) m) i \<longleftrightarrow> bit m i \<or> (i = k \<and> (bit m l \<or> bit m r))"
  using assms unfolding expand_pair_def and_bit_nonzero by (auto simp: bit_or_iff bit_exp_iff)

lemma bit_expand_pairs:
  "bit (expand_pair modifier_alt_left modifier_alt_right modifier_alt m) i \<longleftrightarrow>
     bit m i \<or> (i = 1 \<and> (bit m 2 \<or> bit m 3))"
  "bit (expand_pair modifier_ctrl_left modifier_ctrl_right modifier_ctrl m) i \<longleftrightarrow>
     bit m i \<or> (i = 9 \<and> (bit m 10 \<or> bit m 11))"
  "bit (expand_pair modifier_shift_left modifier_shift_right modifier_shift m) i \<longleftrightarrow>
     bit m i \<or> (i = 4 \<and> (bit m 5 \<or> bit m 6))"
  "bit (expand_pair modifier_meta_left modifier_meta_right modifier_meta m) i \<longleftrightarrow>
     bit m i \<or> (i = 12 \<and> (bit m 13 \<or> bit m 14))"
  using bit_expand_pair [of 1 2 3 m i] bit_expand_pair [of 9 10 11 m i]
    bit_expand_pair [of 4 5 6 m i] bit_expand_pair [of 12 13 14 m i]
  by (simp_all add: modifier_defs)

lemma expand_modifiers_bits:
  assumes "m \<noteq> 0"
  shows "bit (expand_modifiers m) i \<longleftrightarrow> bit m i \<or>
    (i = 1 \<and> (bit m 2 \<or> bit m 3)) \<or> (i = 9 \<and> (bit m 10 \<or> bit m 11)) \<or>
    (i = 4 \<and> (bit m 5 \<or> bit m 6)) \<or> (i = 12 \<and> (bit m 13 \<or> bit m 14))"
  using assms by (auto simp: expand_modifiers_def bit_expand_pairs Let_def)

lemma expand_modifiers_nonzero: "expand_modifiers m \<noteq> 0"
proof (cases "m = 0")
  case False
  then obtain i where "bit m i" by (metis bit_eqI bit_0_eq bot_apply bot_bool_def)
  then have "bit (expand_modifiers m) i" using expand_modifiers_bits [OF False] by blast
  then show ?thesis by (metis bit_0_eq bot_apply bot_bool_def)
qed (simp add: expand_modifiers_def modifier_none_def)

lemma expand_modifiers_idem: "expand_modifiers (expand_modifiers m) = expand_modifiers m"
proof (cases "m = 0")
  case True
  have "(1 :: 32 word) \<noteq> 0" by simp
  then show ?thesis
    using True by (simp add: expand_modifiers_def expand_pair_def modifier_defs)
next
  case False
  show ?thesis
    by (rule bit_word_eqI)
      (auto simp: expand_modifiers_bits [OF expand_modifiers_nonzero] expand_modifiers_bits [OF False])
qed

section \<open>Properties\<close>

text \<open>Expanding modifiers sets a combined bit exactly when it or one of its sides was set and keeps
  every other bit; no modifier at all becomes the \<open>none\<close> bit, and expanding twice changes nothing.\<close>
theorem expand_modifiers_combines_sides:
  "(bit (expand_modifiers m) i \<longleftrightarrow> (if m = 0 then i = 0 else bit m i \<or>
     (i = 1 \<and> (bit m 2 \<or> bit m 3)) \<or> (i = 9 \<and> (bit m 10 \<or> bit m 11)) \<or>
     (i = 4 \<and> (bit m 5 \<or> bit m 6)) \<or> (i = 12 \<and> (bit m 13 \<or> bit m 14)))) \<and>
   expand_modifiers (expand_modifiers m) = expand_modifiers m"
proof (cases "m = 0")
  case True
  then show ?thesis
    using expand_modifiers_idem [of m]
    by (simp add: expand_modifiers_def [of 0] modifier_none_def bit_1_iff)
next
  case False
  then show ?thesis using expand_modifiers_bits [OF False] expand_modifiers_idem by simp
qed

end
