(* ===== verification/Touch_Validator.thy ===== *)
theory Touch_Validator
  imports Input_Events
begin

text \<open>
  \<open>input::Validator\<close>: repairs the stream of touch events of each device before it reaches the
  dispatcher.  A dispatched touch event must not lose a touch point that was not released, and must
  not contain a touch point that never came down; the validator inserts the missing releases and
  the missing downs.  Coordinates are single precision values, which the code copies and never
  computes with; they are rational numbers here.
\<close>

section \<open>Events\<close>

record contact_state =
  touch_id :: int
  action :: touch_action
  tooltype :: nat
  contact_x :: rat
  contact_y :: rat
  pressure :: rat
  touch_major :: rat
  touch_minor :: rat
  orientation :: rat

text \<open>What the validator passes on: an event it received, or one built by \<open>make_event\<close> from
  contacts of its own.\<close>

datatype 'e dispatched =
    Passed "'e event"
  | Made int int "32 word" "contact_state list"

type_synonym validator_state = "int \<Rightarrow> contact_state list"

section \<open>Operations\<close>

definition contact_of :: "touch_point \<Rightarrow> contact_state" where
  "contact_of p = \<lparr>touch_id = tp_id p, action = tp_action p, tooltype = tp_tooltype p,
     contact_x = tp_x p, contact_y = tp_y p, pressure = tp_pressure p,
     touch_major = tp_major p, touch_minor = tp_minor p, orientation = 0\<rparr>"

definition get_contact_state :: "touch_event \<Rightarrow> contact_state list" where
  "get_contact_state ev = map contact_of (points ev)"

text \<open>The loop over \<open>missing_up\<close>: the contact found is marked as released in place, the whole state
  is dispatched, and the contact is erased.\<close>

fun mark_up :: "int \<Rightarrow> contact_state list \<Rightarrow> contact_state list" where
  "mark_up i [] = []"
| "mark_up i (c # cs) = (if touch_id c = i then c\<lparr>action := Touch_up\<rparr> # cs else c # mark_up i cs)"

fun erase_contact :: "int \<Rightarrow> contact_state list \<Rightarrow> contact_state list" where
  "erase_contact i [] = []"
| "erase_contact i (c # cs) = (if touch_id c = i then cs else c # erase_contact i cs)"

fun release_missing :: "int list \<Rightarrow> contact_state list \<Rightarrow> contact_state list list \<times> contact_state list" where
  "release_missing [] last_state = ([], last_state)"
| "release_missing (i # ids) last_state =
     (case release_missing ids (erase_contact i last_state) of
        (out, final) \<Rightarrow> (mark_up i last_state # out, final))"

text \<open>The loop over \<open>missing_down\<close>: a copy of the new contact is appended as coming down, the state
  is dispatched, and the appended contact continues as changing.\<close>

fun press_missing ::
  "contact_state list \<Rightarrow> int list \<Rightarrow> contact_state list \<Rightarrow> contact_state list list \<times> contact_state list" where
  "press_missing new_event [] last_state = ([], last_state)"
| "press_missing new_event (i # ids) last_state =
     (case List.find (\<lambda>c. touch_id c = i) new_event of
        None \<Rightarrow> press_missing new_event ids last_state
      | Some c \<Rightarrow>
          (case press_missing new_event ids (last_state @ [c\<lparr>action := Touch_change\<rparr>]) of
             (out, final) \<Rightarrow> ((last_state @ [c\<lparr>action := Touch_down\<rparr>]) # out, final)))"

definition ensure_stream_validity ::
  "contact_state list \<Rightarrow> contact_state list \<Rightarrow> contact_state list list \<times> contact_state list" where
  "ensure_stream_validity new_event last_state =
     (let expected = set (map touch_id last_state);
          in_next_event = set (map touch_id new_event);
          changed_in_next_event = set (map touch_id (filter (\<lambda>c. action c \<noteq> Touch_down) new_event));
          missing_up = sorted_list_of_set (expected - in_next_event);
          missing_down = sorted_list_of_set (changed_in_next_event - expected);
          (out1, last1) = release_missing missing_up last_state;
          (out2, last2) = press_missing new_event missing_down last1
      in (out1 @ out2, last2))"

text \<open>What is remembered of a dispatched event: released contacts are dropped, a contact that came
  down continues as changing.\<close>

definition settle :: "contact_state list \<Rightarrow> contact_state list" where
  "settle new_state =
     filter (\<lambda>c. action c \<noteq> Touch_up)
       (map (\<lambda>c. if action c = Touch_down then c\<lparr>action := Touch_change\<rparr> else c) new_state)"

definition handle_touch_event :: "touch_event \<Rightarrow> validator_state \<Rightarrow> 'e dispatched list \<times> validator_state" where
  "handle_touch_event ev last_event_by_device =
     (let i = device_id ev;
          new_state = get_contact_state ev;
          (out, _) = ensure_stream_validity new_state (last_event_by_device i)
      in (map (\<lambda>contacts. Made i (uint (modifiers ev)) (modifiers ev) contacts) out @ [Passed (Touch ev)],
          last_event_by_device(i := settle new_state)))"

fun validate_and_dispatch :: "'e event \<Rightarrow> validator_state \<Rightarrow> 'e dispatched list \<times> validator_state" where
  "validate_and_dispatch (Touch ev) st = handle_touch_event ev st"
| "validate_and_dispatch ev st = ([Passed ev], st)"

fun validate_all :: "'e event list \<Rightarrow> validator_state \<Rightarrow> 'e dispatched list" where
  "validate_all [] st = []"
| "validate_all (ev # evs) st =
     (case validate_and_dispatch ev st of (out, st') \<Rightarrow> out @ validate_all evs st')"

section \<open>Validity of a stream of contacts\<close>

text \<open>The two requirements of the source, for the set of touch points that are down: all of them are
  present, and every other contact is coming down.\<close>

definition live_after :: "contact_state list \<Rightarrow> int set" where
  "live_after cs = touch_id ` {c \<in> set cs. action c \<noteq> Touch_up}"

definition valid_next :: "int set \<Rightarrow> contact_state list \<Rightarrow> bool" where
  "valid_next live cs \<longleftrightarrow>
     live \<subseteq> touch_id ` set cs \<and> (\<forall>c\<in>set cs. touch_id c \<notin> live \<longrightarrow> action c = Touch_down)"

fun valid_stream :: "int set \<Rightarrow> contact_state list list \<Rightarrow> bool" where
  "valid_stream live [] = True"
| "valid_stream live (cs # css) = (valid_next live cs \<and> valid_stream (live_after cs) css)"

text \<open>The touch events that reach the dispatcher for one device.\<close>

fun contacts_for :: "int \<Rightarrow> 'e dispatched \<Rightarrow> contact_state list option" where
  "contacts_for d (Passed (Touch ev)) = (if device_id ev = d then Some (get_contact_state ev) else None)"
| "contacts_for d (Passed _) = None"
| "contacts_for d (Made i tm md cs) = (if i = d then Some cs else None)"

definition device_stream :: "int \<Rightarrow> 'e dispatched list \<Rightarrow> contact_state list list" where
  "device_stream d out = List.map_filter (contacts_for d) out"

lemma device_stream_simps [simp]:
  "device_stream d [] = []" "device_stream d (xs @ ys) = device_stream d xs @ device_stream d ys"
  by (simp_all add: device_stream_def List.map_filter_def)

section \<open>The inserted releases\<close>

text \<open>Between events the remembered contacts are all changing and have different ids.\<close>

definition settled :: "contact_state list \<Rightarrow> bool" where
  "settled cs \<longleftrightarrow> distinct (map touch_id cs) \<and> (\<forall>c\<in>set cs. action c = Touch_change)"

lemma touch_id_mark_up [simp]: "map touch_id (mark_up i cs) = map touch_id cs"
  by (induction i cs rule: mark_up.induct) auto

lemma ids_mark_up [simp]: "touch_id ` set (mark_up i cs) = touch_id ` set cs"
  by (metis list.set_map touch_id_mark_up)

lemma erase_contact_filter:
  "distinct (map touch_id cs) \<Longrightarrow> erase_contact i cs = filter (\<lambda>c. touch_id c \<noteq> i) cs"
proof (induction i cs rule: erase_contact.induct)
  case (2 i c cs)
  then show ?case by (force simp: image_iff intro!: filter_True [symmetric])
qed simp

lemma mark_up_map:
  "distinct (map touch_id cs) \<Longrightarrow>
   mark_up i cs = map (\<lambda>c. if touch_id c = i then c\<lparr>action := Touch_up\<rparr> else c) cs"
proof (induction i cs rule: mark_up.induct)
  case (2 i c cs)
  then show ?case by (force simp: image_iff intro!: map_idI [symmetric])
qed simp

lemma settled_erase: "settled cs \<Longrightarrow> settled (erase_contact i cs)"
  by (auto simp: settled_def erase_contact_filter distinct_map_filter)

lemma live_mark_up:
  assumes "settled cs"
  shows "live_after (mark_up i cs) = touch_id ` set cs - {i}"
proof -
  have d: "distinct (map touch_id cs)" and ch: "\<forall>c\<in>set cs. action c = Touch_change"
    using assms by (simp_all add: settled_def)
  have "(x \<in> live_after (mark_up i cs)) \<longleftrightarrow> (x \<in> touch_id ` set cs \<and> x \<noteq> i)" for x
    unfolding live_after_def mark_up_map [OF d] using ch by (force simp: image_iff)
  then show ?thesis by blast
qed

lemma live_settled: "settled cs \<Longrightarrow> live_after cs = touch_id ` set cs"
  by (auto simp: settled_def live_after_def)

lemma live_after_snoc:
  "live_after (cs @ [c]) = live_after cs \<union> (if action c = Touch_up then {} else {touch_id c})"
  by (auto simp: live_after_def)

lemma ids_erase: "settled cs \<Longrightarrow> touch_id ` set (erase_contact i cs) = touch_id ` set cs - {i}"
  by (auto simp: settled_def erase_contact_filter)

lemma release_missing_valid:
  assumes "settled cs" "release_missing ids cs = (out, final)"
  shows "settled final \<and> touch_id ` set final = touch_id ` set cs - set ids \<and>
    (valid_stream (touch_id ` set cs) (out @ rest) \<longleftrightarrow> valid_stream (touch_id ` set final) rest)"
  using assms
proof (induction ids arbitrary: cs out)
  case (Cons i ids)
  obtain out' where out': "release_missing ids (erase_contact i cs) = (out', final)"
    "out = mark_up i cs # out'" using Cons.prems(2) by (auto split: prod.splits)
  have "valid_next (touch_id ` set cs) (mark_up i cs)"
    unfolding valid_next_def by (metis ids_mark_up imageI order_refl)
  with Cons.IH [OF settled_erase [OF Cons.prems(1)] out'(1)] Cons.prems(1) show ?case
    by (auto simp: out'(2) ids_erase live_mark_up)
qed auto

section \<open>The inserted downs\<close>

lemma press_missing_valid:
  assumes "settled cs" "press_missing new_event ids cs = (out, final)"
    and "distinct ids" "set ids \<inter> touch_id ` set cs = {}" "set ids \<subseteq> touch_id ` set new_event"
  shows "settled final \<and> touch_id ` set final = touch_id ` set cs \<union> set ids \<and>
    (valid_stream (touch_id ` set cs) (out @ rest) \<longleftrightarrow> valid_stream (touch_id ` set final) rest)"
  using assms
proof (induction ids arbitrary: cs out)
  case (Cons i ids)
  obtain c where c: "List.find (\<lambda>c. touch_id c = i) new_event = Some c" "touch_id c = i"
    using Cons.prems(5) by (cases "List.find (\<lambda>c. touch_id c = i) new_event")
      (auto simp: find_None_iff find_Some_iff)
  let ?cs = "cs @ [c\<lparr>action := Touch_change\<rparr>]"
  obtain out' where out': "press_missing new_event ids ?cs = (out', final)"
    "out = (cs @ [c\<lparr>action := Touch_down\<rparr>]) # out'" using Cons.prems(2) c by (auto split: prod.splits)
  have s: "settled ?cs" using Cons.prems c by (auto simp: settled_def)
  have ids: "touch_id ` set ?cs = insert i (touch_id ` set cs)" using c by auto
  have "live_after (cs @ [c\<lparr>action := Touch_down\<rparr>]) = insert i (touch_id ` set cs)"
    using Cons.prems(1) c by (simp add: live_after_snoc live_settled)
  moreover have "valid_next (touch_id ` set cs) (cs @ [c\<lparr>action := Touch_down\<rparr>])"
    by (auto simp: valid_next_def)
  moreover have "settled final \<and> touch_id ` set final = touch_id ` set ?cs \<union> set ids \<and>
    (valid_stream (touch_id ` set ?cs) (out' @ rest) \<longleftrightarrow> valid_stream (touch_id ` set final) rest)"
  proof (rule Cons.IH [OF s out'(1)])
    show "distinct ids" using Cons.prems(3) by simp
    show "set ids \<inter> touch_id ` set ?cs = {}"
      unfolding ids using Cons.prems(3,4) by (simp add: disjoint_iff)
    show "set ids \<subseteq> touch_id ` set new_event" using Cons.prems(5) by simp
  qed
  ultimately show ?case
    unfolding ids out'(2) by simp
qed auto

section \<open>One event\<close>

lemma ensure_stream_validity_spec:
  assumes "settled last_state" "ensure_stream_validity new_event last_state = (out, final)"
  shows "valid_stream (touch_id ` set last_state) (out @ new_event # rest) \<longleftrightarrow>
    valid_stream (live_after new_event) rest"
proof -
  let ?E = "touch_id ` set last_state" and ?N = "touch_id ` set new_event"
  let ?C = "touch_id ` {c \<in> set new_event. action c \<noteq> Touch_down}"
  obtain out1 last1 where r: "release_missing (sorted_list_of_set (?E - ?N)) last_state = (out1, last1)"
    by (metis prod.exhaust)
  obtain out2 last2 where p: "press_missing new_event (sorted_list_of_set (?C - ?E)) last1 = (out2, last2)"
    by (metis prod.exhaust)
  have o: "out = out1 @ out2" using assms(2) r p by (simp add: ensure_stream_validity_def Let_def)
  have one: "settled last1" "touch_id ` set last1 = ?E \<inter> ?N"
    "valid_stream ?E (out1 @ xs) \<longleftrightarrow> valid_stream (touch_id ` set last1) xs" for xs
    using release_missing_valid [OF assms(1) r] by auto
  have "set (sorted_list_of_set (?C - ?E)) \<inter> touch_id ` set last1 = {}"
    "set (sorted_list_of_set (?C - ?E)) \<subseteq> ?N" using one(2) by auto
  from press_missing_valid [OF one(1) p _ this]
  have two: "settled last2" "touch_id ` set last2 = (?E \<inter> ?N) \<union> (?C - ?E)"
    "valid_stream (touch_id ` set last1) (out2 @ xs) \<longleftrightarrow> valid_stream (touch_id ` set last2) xs" for xs
    using one(2) by simp_all
  have "valid_next (touch_id ` set last2) new_event"
    unfolding valid_next_def two(2) by auto
  then show ?thesis by (simp add: o one(3) two(3))
qed

definition continue_contact :: "contact_state \<Rightarrow> contact_state" where
  "continue_contact c = (if action c = Touch_down then c\<lparr>action := Touch_change\<rparr> else c)"

lemma continue_contact_simps [simp]:
  "touch_id (continue_contact c) = touch_id c"
  "action (continue_contact c) = (if action c = Touch_down then Touch_change else action c)"
  by (simp_all add: continue_contact_def)

lemma settle_alt: "settle cs = map continue_contact (filter (\<lambda>c. action c \<noteq> Touch_up) cs)"
  unfolding settle_def by (induction cs) (simp_all add: continue_contact_def)

lemma settle_settled: "distinct (map touch_id cs) \<Longrightarrow> settled (settle cs)"
  unfolding settled_def settle_alt
  by (auto simp: comp_def distinct_map_filter) (metis touch_action.exhaust)+

lemma live_after_settle: "touch_id ` set (settle cs) = live_after cs"
  unfolding settle_alt live_after_def by (simp add: image_image)

text \<open>An event that is valid after the last one is passed on alone.\<close>

lemma ensure_stream_validity_valid:
  assumes "settled last_state" "valid_next (touch_id ` set last_state) new_event"
  shows "ensure_stream_validity new_event last_state = ([], last_state)"
proof -
  have e: "touch_id ` set last_state - touch_id ` set new_event = {}"
    and c: "touch_id ` {c \<in> set new_event. action c \<noteq> Touch_down} - touch_id ` set last_state = {}"
    using assms(2) by (auto simp: valid_next_def)
  show ?thesis unfolding ensure_stream_validity_def Let_def set_map set_filter e c by simp
qed

section \<open>Whole streams\<close>

definition well_formed_input :: "'e event \<Rightarrow> bool" where
  "well_formed_input ev = (case ev of Touch t \<Rightarrow> distinct (map tp_id (points t)) | _ \<Rightarrow> True)"

lemma touch_ids_get_contact_state: "map touch_id (get_contact_state ev) = map tp_id (points ev)"
  by (simp add: get_contact_state_def contact_of_def comp_def)

lemma validate_all_valid:
  assumes "\<forall>ev\<in>set evs. well_formed_input ev" "\<forall>i. settled (st i)"
  shows "valid_stream (touch_id ` set (st d)) (device_stream d (validate_all evs st))"
  using assms
proof (induction evs arbitrary: st)
  case (Cons ev evs)
  show ?case
  proof (cases ev)
    case (Touch t)
    let ?n = "get_contact_state t"
    let ?st = "st(device_id t := settle ?n)"
    obtain out final where o: "ensure_stream_validity ?n (st (device_id t)) = (out, final)"
      by (metis prod.exhaust)
    have "distinct (map touch_id ?n)"
      using Cons.prems(1) Touch by (simp add: well_formed_input_def touch_ids_get_contact_state)
    then have "\<forall>i. settled (?st i)" using Cons.prems(2) settle_settled by simp
    then have IH: "valid_stream (touch_id ` set (?st d)) (device_stream d (validate_all evs ?st))"
      using Cons.prems(1) by (intro Cons.IH) auto
    have made: "device_stream d (map (Made (device_id t) a b) out) = (if device_id t = d then out else [])"
      for a b by (induction out) (auto simp: device_stream_def List.map_filter_def)
    have passed: "device_stream d (Passed (Touch t) # xs) =
        (if device_id t = d then [?n] else []) @ device_stream d xs" for xs :: "'a dispatched list"
      by (simp add: device_stream_def List.map_filter_def)
    have eq: "validate_all (ev # evs) st = map (Made (device_id t) (uint (modifiers t)) (modifiers t)) out
        @ [Passed (Touch t)] @ validate_all evs ?st"
      using o by (simp add: Touch handle_touch_event_def Let_def)
    show ?thesis
      using IH ensure_stream_validity_spec [OF _ o] Cons.prems(2)
      by (auto simp: eq made passed live_after_settle
          simp del: validate_all.simps split: if_splits)
  qed (use Cons in \<open>simp_all add: device_stream_def List.map_filter_def\<close>)
qed simp

section \<open>Properties\<close>

text \<open>C14: Whatever sequence of events arrives (each with different ids for its touch points), the
  touch events dispatched for a device form a valid stream: no touch point vanishes without being
  released and none appears without coming down.\<close>
theorem dispatched_touches_are_valid:
  assumes "\<forall>ev\<in>set evs. well_formed_input ev"
  shows "valid_stream {} (device_stream d (validate_all evs (\<lambda>_. [])))"
  using validate_all_valid [OF assms, of "\<lambda>_. []" d] by (simp add: settled_def)

theorem dispatched_touches_are_valid_witness:
  "let p = (\<lambda>i a. \<lparr>tp_id = i, tp_action = a, tp_tooltype = 0, tp_x = 0, tp_y = 0, tp_pressure = 0, tp_major = 0, tp_minor = 0\<rparr>);
       e1 = \<lparr>device_id = 1, event_time = 0, modifiers = 0, points = [p 5 Touch_change]\<rparr>;
       e2 = \<lparr>device_id = 1, event_time = 0, modifiers = 0, points = [p 6 Touch_down]\<rparr>
   in valid_stream {} (device_stream 1 (validate_all [Touch e1, Touch e2] (\<lambda>_. []) :: nat dispatched list)) \<and>
      length (device_stream 1 (validate_all [Touch e1, Touch e2] (\<lambda>_. []) :: nat dispatched list)) = 4"
  unfolding Let_def
proof (rule conjI, rule dispatched_touches_are_valid)
qed (simp add: well_formed_input_def, code_simp)

text \<open>The validator is transparent for valid input: a touch event that is a valid successor of
  what the device last sent is passed on unchanged and nothing is inserted.\<close>
theorem valid_touches_pass_unchanged:
  assumes "settled (st (device_id ev))"
    and "valid_next (touch_id ` set (st (device_id ev))) (get_contact_state ev)"
  shows "fst (validate_and_dispatch (Touch ev) st) = [Passed (Touch ev)]"
  using ensure_stream_validity_valid [OF assms] by (simp add: handle_touch_event_def Let_def)

theorem valid_touches_pass_unchanged_witness:
  "fst (validate_and_dispatch (Touch \<lparr>device_id = 1, event_time = 0, modifiers = 0,
      points = [\<lparr>tp_id = 5, tp_action = Touch_down, tp_tooltype = 0, tp_x = 0, tp_y = 0, tp_pressure = 0, tp_major = 0, tp_minor = 0\<rparr>]\<rparr>)
      (\<lambda>_. [])) =
   [Passed (Touch \<lparr>device_id = 1, event_time = 0, modifiers = 0,
      points = [\<lparr>tp_id = 5, tp_action = Touch_down, tp_tooltype = 0, tp_x = 0, tp_y = 0, tp_pressure = 0, tp_major = 0, tp_minor = 0\<rparr>]\<rparr>) :: nat dispatched]"
  by (rule valid_touches_pass_unchanged)
    (simp_all add: settled_def valid_next_def get_contact_state_def contact_of_def)

end
