(* ===== verification/Seat_Tracker.thy ===== *)
theory Seat_Tracker
  imports Input_Events
begin

unbundle bit_operations_syntax

text \<open>
  \<open>input::SeatInputDeviceTracker\<close>: the state of one seat, gathered from its devices: a cursor
  position confined to the outputs, one button state for all pointing devices, the touch spots and
  the pressed keys.  The calls to collaborators (dispatcher, touch visualizer, cursor listener, key
  mapper, seat observer) are returned in the order in which they are made; the key mapper's effect on
  an event and its modifier queries are parameters.  \<open>device_data\<close> is an \<open>unordered_map\<close>: a list of
  entries with different ids, in the iteration order of the container, which the standard leaves
  open; a new entry is put at the end.
\<close>

section \<open>State\<close>

record spot =
  spot_center :: point
  spot_pressure :: rat

record device_data =
  dev_buttons :: "32 word"
  dev_spots :: "spot list"
  dev_scan_codes :: "int list"

record seat =
  cursor_x :: rat
  cursor_y :: rat
  seat_buttons :: "32 word"
  devices :: "(int \<times> device_data) list"
  seat_spots :: "spot list"
  confined_region :: rectangles
  input_region :: rectangles

datatype 'e seat_call =
    Dispatch "'e event"
  | Observe_event "'e event"
  | Map_event "'e event"
  | Clear_keymap int
  | Set_mapper_keys int "int list"
  | Visualize_touches "spot list"
  | Cursor_moved rat rat
  | Observe_added int
  | Observe_removed int
  | Observe_keys int "int list"
  | Observe_pointer int "32 word"
  | Observe_cursor rat rat
  | Observe_confinement rectangles
  | Observe_confinement_reset

definition new_device :: device_data where
  "new_device = \<lparr>dev_buttons = 0, dev_spots = [], dev_scan_codes = []\<rparr>"

definition make_seat :: seat where
  "make_seat = \<lparr>cursor_x = 0, cursor_y = 0, seat_buttons = 0, devices = [], seat_spots = [],
     confined_region = [], input_region = []\<rparr>"

definition find_device :: "int \<Rightarrow> seat \<Rightarrow> device_data option" where
  "find_device i s = map_of (devices s) i"

definition put_device :: "int \<Rightarrow> device_data \<Rightarrow> seat \<Rightarrow> seat" where
  "put_device i d s = s\<lparr>devices := map (\<lambda>(k, v). (k, if k = i then d else v)) (devices s)\<rparr>"

section \<open>Operations on one device\<close>

definition update_button_state :: "32 word \<Rightarrow> device_data \<Rightarrow> bool \<times> device_data" where
  "update_button_state button_state d =
     (if dev_buttons d = button_state then (False, d) else (True, d\<lparr>dev_buttons := button_state\<rparr>))"

definition update_device_spots :: "touch_event \<Rightarrow> device_data \<Rightarrow> device_data" where
  "update_device_spots ev d = d\<lparr>dev_spots :=
     map (\<lambda>p. \<lparr>spot_center = point_at (tp_x p) (tp_y p), spot_pressure = tp_pressure p\<rparr>)
       (filter (\<lambda>p. tp_action p \<noteq> Touch_up) (points ev))\<rparr>"

definition update_scan_codes :: "keyboard_event \<Rightarrow> device_data \<Rightarrow> device_data" where
  "update_scan_codes ev d =
     (if key_action ev = Key_down then d\<lparr>dev_scan_codes := dev_scan_codes d @ [scan_code ev]\<rparr>
      else if key_action ev = Key_up then d\<lparr>dev_scan_codes := removeAll (scan_code ev) (dev_scan_codes d)\<rparr>
      else d)"

definition allowed_scan_code_action :: "keyboard_event \<Rightarrow> device_data \<Rightarrow> bool" where
  "allowed_scan_code_action ev d =
     (let found = (scan_code ev \<in> set (dev_scan_codes d))
      in (key_action ev = Key_down \<and> \<not> found) \<or> (key_action ev \<noteq> Key_down \<and> found))"

section \<open>Operations of the seat\<close>

definition update_states :: "seat \<Rightarrow> seat" where
  "update_states s = s\<lparr>seat_buttons := foldl (\<lambda>acc item. acc OR dev_buttons (snd item)) 0 (devices s)\<rparr>"

definition update_spots :: "seat \<Rightarrow> seat \<times> 'e seat_call list" where
  "update_spots s = (let sp = concat (map (dev_spots \<circ> snd) (devices s))
                     in (s\<lparr>seat_spots := sp\<rparr>, [Visualize_touches sp]))"

definition add_device :: "int \<Rightarrow> seat \<Rightarrow> seat \<times> 'e seat_call list" where
  "add_device i s =
     (if find_device i s = None then s\<lparr>devices := devices s @ [(i, new_device)]\<rparr> else s,
      [Observe_added i])"

definition remove_device :: "int \<Rightarrow> seat \<Rightarrow> (seat, 'e seat_call list) outcome" where
  "remove_device i s = (case find_device i s of
     None \<Rightarrow> throw (Logic_error ''Modifier for unknown device changed'') s
   | Some d \<Rightarrow>
       let s1 = s\<lparr>devices := filter (\<lambda>(k, v). k \<noteq> i) (devices s)\<rparr>;
           s2 = (if dev_buttons d \<noteq> 0 then update_states s1 else s1);
           (s3, calls) = (if dev_spots d \<noteq> [] then update_spots s2 else (s2, []))
       in ret (Clear_keymap i # calls @ [Observe_removed i]) s3)"

definition filter_input_event :: "'e event \<Rightarrow> seat \<Rightarrow> bool" where
  "filter_input_event ev s = (case ev of
     Key kev \<Rightarrow> (case find_device (key_device kev) s of
        None \<Rightarrow> True
      | Some d \<Rightarrow> \<not> allowed_scan_code_action kev d)
   | _ \<Rightarrow> False)"

definition confine_function :: "seat \<Rightarrow> point \<Rightarrow> point" where
  "confine_function s p = confine (confined_region s) (confine (input_region s) p)"

definition confine_pointer :: "(rat \<Rightarrow> rat) \<Rightarrow> seat \<Rightarrow> seat" where
  "confine_pointer rnd s =
     (let old = point_at (cursor_x s) (cursor_y s);
          confined = confine_function s old;
          s1 = (if px confined \<noteq> px old then s\<lparr>cursor_x := rnd (of_int (px confined))\<rparr> else s)
      in if py confined \<noteq> py old then s1\<lparr>cursor_y := rnd (of_int (py confined))\<rparr> else s1)"

definition update_cursor :: "(rat \<Rightarrow> rat) \<Rightarrow> pointer_event \<Rightarrow> seat \<Rightarrow> seat \<times> 'e seat_call list" where
  "update_cursor rnd ev s =
     (let s' = confine_pointer rnd (s\<lparr>cursor_x := rnd (cursor_x s + relative_x ev),
                                   cursor_y := rnd (cursor_y s + relative_y ev)\<rparr>)
      in (s', [Cursor_moved (cursor_x s') (cursor_y s')]))"

fun event_device :: "'e event \<Rightarrow> int option" where
  "event_device (Key kev) = Some (key_device kev)"
| "event_device (Touch tev) = Some (device_id tev)"
| "event_device (Pointer pev) = Some (pointer_device pev)"
| "event_device (Other e) = None"

definition update_seat_properties ::
  "(rat \<Rightarrow> rat) \<Rightarrow> 'e event \<Rightarrow> seat \<Rightarrow> (seat, 'e seat_call list) outcome" where
  "update_seat_properties rnd ev s =
     (case Option.bind (event_device ev) (\<lambda>i. find_device i s) of
        None \<Rightarrow> throw (Logic_error ''Event of unknown device received'') s
      | Some d \<Rightarrow>
          (case ev of
             Key kev \<Rightarrow> ret [] (put_device (key_device kev) (update_scan_codes kev d) s)
           | Touch tev \<Rightarrow>
               (case update_spots (put_device (device_id tev) (update_device_spots tev d) s) of
                  (s', calls) \<Rightarrow> ret calls s')
           | Pointer pev \<Rightarrow>
               (case update_cursor rnd pev s of (s1, calls) \<Rightarrow>
                  (case update_button_state (pointer_buttons pev) d of
                     (True, d') \<Rightarrow> ret calls (update_states (put_device (pointer_device pev) d' s1))
                   | (False, _) \<Rightarrow> ret calls s1))
           | Other e \<Rightarrow> ret [] s))"

definition seat_dispatch ::
  "(rat \<Rightarrow> rat) \<Rightarrow> ('e event \<Rightarrow> 'e event) \<Rightarrow> 'e event \<Rightarrow> seat \<Rightarrow> (seat, 'e seat_call list) outcome" where
  "seat_dispatch rnd mapper ev s = (case ev of
     Other e \<Rightarrow> ret [Dispatch ev, Observe_event ev] s
   | _ \<Rightarrow>
       if filter_input_event ev s then ret [] s
       else and_then (update_seat_properties rnd ev s)
         (\<lambda>calls s'.
            let mapped = mapper ev;
                final = (case mapped of
                    Pointer pev \<Rightarrow> Pointer (pev\<lparr>pointer_x := cursor_x s', pointer_y := cursor_y s',
                                              pointer_buttons := seat_buttons s'\<rparr>)
                  | _ \<Rightarrow> mapped)
            in ret (calls @ [Map_event ev, Dispatch final, Observe_event final]) s')
         (\<lambda>s'. s'))"

definition cursor_position :: "seat \<Rightarrow> point" where
  "cursor_position s = point_at (cursor_x s) (cursor_y s)"

definition button_state :: "seat \<Rightarrow> 32 word" where
  "button_state s = seat_buttons s"

definition set_confinement_regions :: "rectangles \<Rightarrow> seat \<Rightarrow> seat \<times> 'e seat_call list" where
  "set_confinement_regions regions s =
     (s\<lparr>confined_region := regions\<rparr>, [Observe_confinement regions])"

definition reset_confinement_regions :: "seat \<Rightarrow> seat \<times> 'e seat_call list" where
  "reset_confinement_regions s =
     (s\<lparr>confined_region := rectangles_clear (confined_region s)\<rparr>, [Observe_confinement_reset])"

definition update_outputs :: "rectangles \<Rightarrow> seat \<Rightarrow> seat" where
  "update_outputs output_regions s = s\<lparr>input_region := output_regions\<rparr>"

definition set_key_state :: "int \<Rightarrow> int list \<Rightarrow> seat \<Rightarrow> seat \<times> 'e seat_call list" where
  "set_key_state i codes s =
     (case find_device i s of
        None \<Rightarrow> s
      | Some d \<Rightarrow> put_device i (d\<lparr>dev_scan_codes := codes\<rparr>) s,
      [Set_mapper_keys i codes, Observe_keys i codes])"

definition set_pointer_state :: "int \<Rightarrow> 32 word \<Rightarrow> seat \<Rightarrow> seat \<times> 'e seat_call list" where
  "set_pointer_state i buttons s =
     (case find_device i s of
        None \<Rightarrow> s
      | Some d \<Rightarrow> put_device i (snd (update_button_state buttons d)) s,
      [Observe_pointer i buttons])"

definition set_cursor_position :: "rat \<Rightarrow> rat \<Rightarrow> seat \<Rightarrow> seat \<times> 'e seat_call list" where
  "set_cursor_position x y s = (s\<lparr>cursor_x := x, cursor_y := y\<rparr>, [Observe_cursor x y])"

text \<open>\<open>create_device_state\<close>: a lock key that is active but not held is reported as pressed twice.\<close>

record device_report =
  report_id :: int
  pressed_keys :: "int list"
  report_buttons :: "32 word"

definition lock_keys :: "32 word \<Rightarrow> int list \<Rightarrow> int list" where
  "lock_keys lock_state codes =
     (let locked = (\<lambda>modifier key. if lock_state AND modifier \<noteq> 0 \<and> key \<notin> set codes then [key, key] else [])
      in locked modifier_caps_lock key_capslock @ locked modifier_num_lock key_numlock
         @ locked modifier_scroll_lock key_scrolllock)"

definition create_device_state ::
  "(int \<Rightarrow> 32 word) \<Rightarrow> 32 word \<Rightarrow> int \<Rightarrow> seat \<Rightarrow> int \<times> 32 word \<times> 32 word \<times> rat \<times> rat \<times> device_report list" where
  "create_device_state device_modifiers mapper_modifiers now s =
     (now, seat_buttons s, mapper_modifiers, cursor_x s, cursor_y s,
      map (\<lambda>(i, d). \<lparr>report_id = i,
             pressed_keys = dev_scan_codes d @ lock_keys (device_modifiers i) (dev_scan_codes d),
             report_buttons = dev_buttons d\<rparr>) (devices s))"

section \<open>The seat reflects its devices\<close>

abbreviation all_buttons :: "(int \<times> device_data) list \<Rightarrow> 32 word" where
  "all_buttons ds \<equiv> foldl (\<lambda>acc item. acc OR dev_buttons (snd item)) 0 ds"

abbreviation all_spots :: "(int \<times> device_data) list \<Rightarrow> spot list" where
  "all_spots ds \<equiv> concat (map (dev_spots \<circ> snd) ds)"

definition seat_inv :: "seat \<Rightarrow> bool" where
  "seat_inv s \<longleftrightarrow> distinct (map fst (devices s)) \<and>
     (\<forall>(i, d)\<in>set (devices s). distinct (dev_scan_codes d)) \<and>
     seat_spots s = all_spots (devices s)"

definition buttons_inv :: "seat \<Rightarrow> bool" where
  "buttons_inv s \<longleftrightarrow> seat_buttons s = all_buttons (devices s)"

lemma bit_foldl_or:
  "bit (foldl (\<lambda>acc item. acc OR dev_buttons (snd item)) w ds) n \<longleftrightarrow>
     bit w n \<or> (\<exists>(i, d)\<in>set ds. bit (dev_buttons d) n)"
  by (induction ds arbitrary: w) (auto simp: bit_or_iff)

lemma bit_all_buttons: "bit (all_buttons ds) n \<longleftrightarrow> (\<exists>(i, d)\<in>set ds. bit (dev_buttons d) n)"
  by (simp add: bit_foldl_or)

lemma all_buttons_cong:
  "(\<And>n. (\<exists>(i, d)\<in>set ds. bit (dev_buttons d) n) = (\<exists>(i, d)\<in>set ds'. bit (dev_buttons d) n)) \<Longrightarrow>
   all_buttons ds = all_buttons ds'"
  by (rule bit_word_eqI) (simp only: bit_all_buttons)

lemma devices_put [simp]:
  "devices (put_device i d s) = map (\<lambda>(k, v). (k, if k = i then d else v)) (devices s)"
  "seat_buttons (put_device i d s) = seat_buttons s" "seat_spots (put_device i d s) = seat_spots s"
  "cursor_x (put_device i d s) = cursor_x s" "cursor_y (put_device i d s) = cursor_y s"
  "confined_region (put_device i d s) = confined_region s" "input_region (put_device i d s) = input_region s"
  by (simp_all add: put_device_def)

lemma map_fst_put [simp]: "map fst (map (\<lambda>(k, v). (k, if k = i then d else v)) ds) = map fst ds"
  by (induction ds) auto

lemma find_device_put: "find_device i s \<noteq> None \<Longrightarrow> find_device j (put_device i d s) =
    (if j = i then Some d else find_device j s)"
proof -
  have "map_of (map (\<lambda>(k, v). (k, if k = i then d else v)) ds) j =
      (if j = i then map_option (\<lambda>_. d) (map_of ds j) else map_of ds j)" for ds
    by (induction ds) auto
  then show "find_device i s \<noteq> None \<Longrightarrow> ?thesis" by (auto simp: find_device_def)
qed

lemma find_device_in: "find_device i s = Some d \<Longrightarrow> (i, d) \<in> set (devices s)"
  by (simp add: find_device_def map_of_SomeD)

lemma find_device_None: "find_device i s = None \<longleftrightarrow> i \<notin> set (map fst (devices s))"
  by (simp add: find_device_def map_of_eq_None_iff)

lemma map_put_same:
  assumes "find_device i s = Some d" "distinct (map fst (devices s))" "f d' = f d"
  shows "map (f \<circ> snd) (devices (put_device i d' s)) = map (f \<circ> snd) (devices s)"
proof -
  have "v = d" if "(i, v) \<in> set (devices s)" for v
    using that assms(1,2) by (auto simp: find_device_def)
  with assms(3) show ?thesis by auto
qed

lemma all_buttons_map: "all_buttons ds = foldl (OR) 0 (map (dev_buttons \<circ> snd) ds)"
  by (simp add: foldl_map)

lemma inv_put:
  assumes "seat_inv s" "find_device i s = Some d" "dev_spots d' = dev_spots d"
    and "distinct (dev_scan_codes d')"
  shows "seat_inv (put_device i d' s)"
proof -
  have "all_spots (devices (put_device i d' s)) = all_spots (devices s)"
    using map_put_same [of i s d dev_spots d'] assms by (simp only: seat_inv_def)
  moreover have "\<forall>(k, v)\<in>set (devices (put_device i d' s)). distinct (dev_scan_codes v)"
    using assms(1,4) by (auto simp: seat_inv_def)
  ultimately show ?thesis
    using assms(1) by (simp only: seat_inv_def devices_put(3) map_fst_put devices_put(1))
qed

lemma buttons_put_same:
  assumes "buttons_inv s" "seat_inv s" "find_device i s = Some d" "dev_buttons d' = dev_buttons d"
  shows "buttons_inv (put_device i d' s)"
  using map_put_same [of i s d dev_buttons d'] assms
  by (simp only: seat_inv_def buttons_inv_def all_buttons_map devices_put(2))

text \<open>Steps that do not touch the devices keep both invariants.\<close>

lemma inv_cong:
  assumes "devices s' = devices s" "seat_spots s' = seat_spots s"
  shows "seat_inv s' = seat_inv s" "seat_buttons s' = seat_buttons s \<Longrightarrow> buttons_inv s' = buttons_inv s"
  using assms by (simp_all add: seat_inv_def buttons_inv_def)

lemma confine_pointer_sel [simp]:
  "devices (confine_pointer rnd s) = devices s" "seat_spots (confine_pointer rnd s) = seat_spots s"
  "seat_buttons (confine_pointer rnd s) = seat_buttons s"
  "confined_region (confine_pointer rnd s) = confined_region s"
  "input_region (confine_pointer rnd s) = input_region s"
  by (simp_all add: confine_pointer_def Let_def)

lemma update_cursor_sel [simp]:
  "devices (fst (update_cursor rnd ev s)) = devices s"
  "seat_spots (fst (update_cursor rnd ev s)) = seat_spots s"
  "seat_buttons (fst (update_cursor rnd ev s)) = seat_buttons s"
  by (simp_all add: update_cursor_def Let_def)

lemma update_states_inv:
  "seat_inv (update_states s) = seat_inv s" "buttons_inv (update_states s)"
  by (simp_all add: update_states_def seat_inv_def buttons_inv_def)

lemma fst_update_spots: "fst (update_spots s) = s\<lparr>seat_spots := all_spots (devices s)\<rparr>"
  by (simp add: update_spots_def Let_def)

lemma update_spots_inv:
  assumes "distinct (map fst (devices s))" "\<forall>(i, d)\<in>set (devices s). distinct (dev_scan_codes d)"
  shows "seat_inv (s\<lparr>seat_spots := all_spots (devices s)\<rparr>)"
    "buttons_inv (s\<lparr>seat_spots := all_spots (devices s)\<rparr>) = buttons_inv s"
  using assms by (simp_all add: seat_inv_def buttons_inv_def)

lemma distinct_update_scan_codes:
  assumes "distinct (dev_scan_codes d)" "allowed_scan_code_action ev d"
  shows "distinct (dev_scan_codes (update_scan_codes ev d))"
  using assms
  by (auto simp: update_scan_codes_def allowed_scan_code_action_def Let_def distinct_removeAll)

lemma update_scan_codes_sel [simp]:
  "dev_spots (update_scan_codes ev d) = dev_spots d" "dev_buttons (update_scan_codes ev d) = dev_buttons d"
  by (simp_all add: update_scan_codes_def)

section \<open>Sequences of operations\<close>

datatype 'e seat_op =
    Add_device int
  | Remove_device int
  | Dispatch_event "'e event"
  | Set_confinement rectangles
  | Reset_confinement
  | Update_outputs rectangles
  | Set_keys int "int list"
  | Set_pointer int "32 word"
  | Set_cursor rat rat

fun seat_exec :: "(rat \<Rightarrow> rat) \<Rightarrow> ('e event \<Rightarrow> 'e event) \<Rightarrow> 'e seat_op \<Rightarrow> seat \<Rightarrow> seat" where
  "seat_exec rnd mapper (Add_device i) s = fst (add_device i s :: seat \<times> unit seat_call list)"
| "seat_exec rnd mapper (Remove_device i) s = state_of (remove_device i s :: (seat, unit seat_call list) outcome)"
| "seat_exec rnd mapper (Dispatch_event ev) s = state_of (seat_dispatch rnd mapper ev s)"
| "seat_exec rnd mapper (Set_confinement rs) s = fst (set_confinement_regions rs s :: seat \<times> unit seat_call list)"
| "seat_exec rnd mapper Reset_confinement s = fst (reset_confinement_regions s :: seat \<times> unit seat_call list)"
| "seat_exec rnd mapper (Update_outputs rs) s = update_outputs rs s"
| "seat_exec rnd mapper (Set_keys i codes) s = fst (set_key_state i codes s :: seat \<times> unit seat_call list)"
| "seat_exec rnd mapper (Set_pointer i b) s = fst (set_pointer_state i b s :: seat \<times> unit seat_call list)"
| "seat_exec rnd mapper (Set_cursor x y) s = fst (set_cursor_position x y s :: seat \<times> unit seat_call list)"

lemma state_seat_dispatch:
  "state_of (seat_dispatch rnd mapper ev s) =
     (if filter_input_event ev s \<or> event_device ev = None then s
      else state_of (update_seat_properties rnd ev s))"
proof -
  have "state_of (and_then m (\<lambda>c s'. ret (f c s') s') (\<lambda>s'. s')) = state_of m"
    for m :: "(seat, 'a seat_call list) outcome" and f :: "_ \<Rightarrow> seat \<Rightarrow> 'a seat_call list"
    by (simp add: and_then_def state_of_def ret_def split: prod.split sum.split)
  then show ?thesis
    by (cases ev) (simp_all add: seat_dispatch_def filter_input_event_def Let_def)
qed

lemma inv_update_seat_properties:
  assumes "seat_inv s" "\<not> filter_input_event ev s"
  shows "seat_inv (state_of (update_seat_properties rnd ev s)) \<and>
    (buttons_inv s \<longrightarrow> buttons_inv (state_of (update_seat_properties rnd ev s)))"
proof (cases "Option.bind (event_device ev) (\<lambda>i. find_device i s)")
  case (Some d)
  show ?thesis
  proof (cases ev)
    case (Key kev)
    with Some assms have d: "find_device (key_device kev) s = Some d" "allowed_scan_code_action kev d"
      by (auto simp: filter_input_event_def)
    moreover have "distinct (dev_scan_codes d)"
      using assms(1) find_device_in [OF d(1)] by (auto simp: seat_inv_def)
    ultimately show ?thesis
      using Key Some assms(1) inv_put [of s "key_device kev" d] buttons_put_same [of s "key_device kev" d]
      by (simp add: update_seat_properties_def distinct_update_scan_codes del: devices_put)
  next
    case (Touch tev)
    with Some have d: "find_device (device_id tev) s = Some d" by simp
    let ?s = "put_device (device_id tev) (update_device_spots tev d) s"
    have "distinct (dev_scan_codes d)" using assms(1) find_device_in [OF d] by (auto simp: seat_inv_def)
    then have "\<forall>(i, d)\<in>set (devices ?s). distinct (dev_scan_codes d)"
      using assms(1) by (auto simp: seat_inv_def update_device_spots_def)
    moreover have "distinct (map fst (devices ?s))"
      using assms(1) unfolding seat_inv_def devices_put map_fst_put by blast
    moreover have "buttons_inv s \<Longrightarrow> buttons_inv ?s"
      using buttons_put_same [OF _ assms(1) d] by (simp add: update_device_spots_def del: devices_put)
    ultimately show ?thesis
      using Touch Some update_spots_inv [of ?s]
      by (simp add: update_seat_properties_def update_spots_def Let_def)
  next
    case (Pointer pev)
    with Some have d: "find_device (pointer_device pev) s = Some d" by simp
    obtain s1 and calls :: "'a seat_call list" where c: "update_cursor rnd pev s = (s1, calls)" by (metis prod.exhaust)
    have s1: "devices s1 = devices s" "seat_spots s1 = seat_spots s" "seat_buttons s1 = seat_buttons s"
      using update_cursor_sel [of rnd pev s] c by (metis fst_conv)+
    then have i1: "seat_inv s1" "buttons_inv s1 = buttons_inv s" "find_device (pointer_device pev) s1 = Some d"
      using assms(1) inv_cong [of s1 s] d by (simp_all add: find_device_def)
    have "distinct (dev_scan_codes d)" using assms(1) find_device_in [OF d] by (auto simp: seat_inv_def)
    then have "seat_inv (put_device (pointer_device pev) (d\<lparr>dev_buttons := pointer_buttons pev\<rparr>) s1)"
      using inv_put [OF i1(1,3)] by simp
    then show ?thesis
      using Pointer Some c i1
      by (simp add: update_seat_properties_def update_button_state_def update_states_inv)
  next
    case (Other e)
    with Some show ?thesis by simp
  qed
qed (use assms in \<open>simp add: update_seat_properties_def\<close>)

lemma inv_remove_device:
  assumes "seat_inv s" "s' = state_of (remove_device i s :: (seat, 'e seat_call list) outcome)"
  shows "seat_inv s' \<and> (buttons_inv s \<longrightarrow> buttons_inv s')"
proof (cases "find_device i s")
  case (Some d)
  let ?f = "filter (\<lambda>(k, v). k \<noteq> i) (devices s)" and ?s1 = "s\<lparr>devices := filter (\<lambda>(k, v). k \<noteq> i) (devices s)\<rparr>"
  have only: "v = d" if "(i, v) \<in> set (devices s)" for v
    using that Some assms by (auto simp: find_device_def seat_inv_def)
  have f: "distinct (map fst ?f)" "\<forall>(k, v)\<in>set ?f. distinct (dev_scan_codes v)"
    using assms by (auto simp: seat_inv_def distinct_map_filter)
  have keep: "concat (map g ?f) = concat (map g (devices s))" if "\<And>v. (i, v) \<in> set (devices s) \<Longrightarrow> g (i, v) = []"
    for g :: "int \<times> device_data \<Rightarrow> spot list"
  proof -
    have "concat (map g (filter (\<lambda>(k, v). k \<noteq> i) ds)) = concat (map g ds)" if "\<And>v. (i, v) \<in> set ds \<Longrightarrow> g (i, v) = []" for ds
      using that by (induction ds) auto
    with that show ?thesis by blast
  qed
  have sp: "dev_spots d = [] \<Longrightarrow> all_spots ?f = all_spots (devices s)"
    by (rule keep) (use only in auto)
  have bt: "dev_buttons d = 0 \<Longrightarrow> all_buttons ?f = all_buttons (devices s)"
    using only by (intro all_buttons_cong) (fastforce simp: image_iff)
  define s2 where "s2 = (if dev_buttons d \<noteq> 0 then update_states ?s1 else ?s1)"
  have s2: "devices s2 = ?f" "seat_spots s2 = seat_spots s"
    by (simp_all add: s2_def update_states_def)
  have b2: "buttons_inv s \<Longrightarrow> buttons_inv s2"
    using bt by (auto simp: s2_def update_states_inv) (simp add: buttons_inv_def)
  have i2: "dev_spots d = [] \<Longrightarrow> seat_inv s2"
    using f sp s2 assms by (simp add: seat_inv_def)
  have "s' = (if dev_spots d \<noteq> [] then s2\<lparr>seat_spots := all_spots (devices s2)\<rparr> else s2)"
    by (simp add: assms(2) remove_device_def Some Let_def s2_def update_spots_def)
  then show ?thesis
    using b2 i2 f s2 update_spots_inv [of s2] by auto
qed (use assms in \<open>simp add: remove_device_def\<close>)

text \<open>The operations after which the invariants hold again: \<open>set_key_state\<close> must be given each key once,
  and \<open>set_pointer_state\<close> does not recompute the buttons of the seat.\<close>

fun orderly_op :: "'e seat_op \<Rightarrow> bool" where
  "orderly_op (Set_keys i codes) = distinct codes"
| "orderly_op (Set_pointer i b) = False"
| "orderly_op _ = True"

lemma seat_exec_inv:
  assumes "orderly_op op" "seat_inv s" "buttons_inv s"
  shows "seat_inv (seat_exec rnd mapper op s) \<and> buttons_inv (seat_exec rnd mapper op s)"
proof (cases op)
  case (Add_device i)
  with assms show ?thesis
    by (auto simp: add_device_def find_device_None seat_inv_def buttons_inv_def new_device_def)
next
  case (Remove_device i)
  with assms inv_remove_device [OF assms(2) refl, of i] show ?thesis by simp
next
  case (Dispatch_event ev)
  with assms inv_update_seat_properties [of s ev rnd] show ?thesis by (simp add: state_seat_dispatch)
next
  case (Set_keys i codes)
  show ?thesis
  proof (cases "find_device i s")
    case (Some d)
    with Set_keys assms inv_put [OF assms(2) Some] buttons_put_same [OF assms(3,2) Some] show ?thesis
      by (simp add: set_key_state_def del: devices_put)
  qed (use Set_keys assms in \<open>simp add: set_key_state_def\<close>)
qed (use assms in \<open>simp_all add: set_confinement_regions_def reset_confinement_regions_def
    update_outputs_def set_cursor_position_def seat_inv_def buttons_inv_def\<close>)

lemma seat_run_inv:
  assumes "\<forall>op\<in>set ops. orderly_op op"
  shows "seat_inv (fold (seat_exec rnd mapper) ops make_seat) \<and>
    buttons_inv (fold (seat_exec rnd mapper) ops make_seat)"
  using assms
proof (induction ops rule: rev_induct)
  case Nil
  then show ?case by (simp add: make_seat_def seat_inv_def buttons_inv_def)
next
  case (snoc op ops)
  then show ?case using seat_exec_inv [of op] by simp
qed

section \<open>Where the cursor can be\<close>

text \<open>Coordinates that single precision represents exactly.\<close>

definition exact_coords :: "point \<Rightarrow> bool" where
  "exact_coords p \<longleftrightarrow> \<bar>px p\<bar> \<le> 2 ^ 24 \<and> \<bar>py p\<bar> \<le> 2 ^ 24"

definition rounds_integers_exactly :: "(rat \<Rightarrow> rat) \<Rightarrow> bool" where
  "rounds_integers_exactly rnd \<longleftrightarrow> (\<forall>n. \<bar>n\<bar> \<le> 2 ^ 24 \<longrightarrow> rnd (of_int n) = of_int n)"

definition usable_region :: "rectangles \<Rightarrow> bool" where
  "usable_region rs \<longleftrightarrow> (\<forall>r\<in>set rs. rect_in_range r) \<and> (\<forall>p\<in>region rs. exact_coords p)"

lemma confine_region_or_same:
  assumes "usable_region rs" "point_in_range p"
  shows "confine rs p \<in> region rs \<or> (region rs = {} \<and> confine rs p = p)"
  using assms confine_nearest [of p rs] confine_no_area [of rs p] by (auto simp: usable_region_def)

lemma confine_function_in:
  assumes "usable_region (input_region s)" "usable_region (confined_region s)" "point_in_range p"
  shows "if region (confined_region s) \<noteq> {} then confine_function s p \<in> region (confined_region s)
    else if region (input_region s) \<noteq> {} then confine_function s p \<in> region (input_region s)
    else confine_function s p = p"
proof -
  let ?q = "confine (input_region s) p"
  have q: "?q \<in> region (input_region s) \<or> (region (input_region s) = {} \<and> ?q = p)"
    by (rule confine_region_or_same [OF assms(1,3)])
  then have "point_in_range ?q"
    using assms(1,3) by (auto simp: usable_region_def exact_coords_def point_in_range_def)
  from confine_region_or_same [OF assms(2) this] q show ?thesis
    by (auto simp: confine_function_def)
qed

lemma cursor_confine_pointer:
  assumes "rounds_integers_exactly rnd"
    and "confine_function s (cursor_position s) = cursor_position s \<or>
      exact_coords (confine_function s (cursor_position s))"
  shows "cursor_position (confine_pointer rnd s) = confine_function s (cursor_position s)"
proof -
  let ?c = "confine_function s (cursor_position s)"
  have r: "rnd (of_int (px ?c)) = of_int (px ?c) \<and> rnd (of_int (py ?c)) = of_int (py ?c)"
    if "exact_coords ?c" using that assms(1) by (simp add: exact_coords_def rounds_integers_exactly_def)
  show ?thesis
  proof (cases "?c = cursor_position s")
    case True
    then have "confine_pointer rnd s = s"
      by (simp add: confine_pointer_def cursor_position_def Let_def)
    with True show ?thesis by simp
  next
    case False
    with assms(2) r have "rnd (of_int (px ?c)) = of_int (px ?c)" "rnd (of_int (py ?c)) = of_int (py ?c)"
      by auto
    then show ?thesis
      unfolding confine_pointer_def Let_def cursor_position_def point_at_def
      by (auto simp: point.equality)
  qed
qed

lemma cursor_update_cursor:
  assumes "rounds_integers_exactly rnd" "usable_region (input_region s)" "usable_region (confined_region s)"
    and "point_in_range (point_at (rnd (cursor_x s + relative_x ev)) (rnd (cursor_y s + relative_y ev)))"
    and "s' = fst (update_cursor rnd ev s :: seat \<times> 'e seat_call list)"
  shows "if region (confined_region s) \<noteq> {} then cursor_position s' \<in> region (confined_region s)
    else if region (input_region s) \<noteq> {} then cursor_position s' \<in> region (input_region s)
    else cursor_position s' = point_at (rnd (cursor_x s + relative_x ev)) (rnd (cursor_y s + relative_y ev))"
proof -
  define s1 where "s1 = s\<lparr>cursor_x := rnd (cursor_x s + relative_x ev), cursor_y := rnd (cursor_y s + relative_y ev)\<rparr>"
  have p: "cursor_position s1 = point_at (rnd (cursor_x s + relative_x ev)) (rnd (cursor_y s + relative_y ev))"
    and reg: "input_region s1 = input_region s" "confined_region s1 = confined_region s"
    by (simp_all add: cursor_position_def s1_def)
  have c: "if region (confined_region s) \<noteq> {} then confine_function s1 (cursor_position s1) \<in> region (confined_region s)
    else if region (input_region s) \<noteq> {} then confine_function s1 (cursor_position s1) \<in> region (input_region s)
    else confine_function s1 (cursor_position s1) = cursor_position s1"
    unfolding p by (rule confine_function_in [of s1, unfolded reg, OF assms(2-4)])
  then have "confine_function s1 (cursor_position s1) = cursor_position s1 \<or>
      exact_coords (confine_function s1 (cursor_position s1))"
    using assms(2,3) by (auto simp: usable_region_def split: if_splits)
  from cursor_confine_pointer [OF assms(1) this]
  have "cursor_position s' = confine_function s1 (cursor_position s1)"
    by (simp add: assms(5) update_cursor_def Let_def s1_def)
  with c p show ?thesis by (simp only:)
qed

section \<open>Properties\<close>

text \<open>C12: After any sequence of seat operations (keys set explicitly are given once each, and the
  pointer state is not set behind the seat's back), the seat's button state is the union of the
  buttons held on its devices, its touch spots are those of its devices, and no device holds a key
  twice.\<close>
theorem seat_reflects_its_devices:
  assumes "\<forall>op\<in>set ops. orderly_op op" "s = fold (seat_exec rnd mapper) ops make_seat"
  shows "(bit (button_state s) n \<longleftrightarrow> (\<exists>(i, d)\<in>set (devices s). bit (dev_buttons d) n)) \<and>
    seat_spots s = concat (map (dev_spots \<circ> snd) (devices s)) \<and>
    distinct (map fst (devices s)) \<and>
    (find_device i s = Some d \<longrightarrow> distinct (dev_scan_codes d))"
proof -
  have inv: "seat_inv s" "buttons_inv s" using seat_run_inv [OF assms(1)] assms(2) by auto
  then have "distinct (dev_scan_codes d)" if "find_device i s = Some d"
    using find_device_in [OF that] by (auto simp: seat_inv_def)
  with inv show ?thesis
    unfolding button_state_def by (simp add: buttons_inv_def bit_all_buttons) (simp add: seat_inv_def)
qed

theorem seat_reflects_its_devices_witness:
  "bit (button_state (fold (seat_exec id id)
     [Add_device 1, Dispatch_event (Pointer (make_pointer_event 1 0 [] 0 Button_down 4 0 0 0 0 0 0) :: unit event)]
     make_seat)) 2"
proof -
  let ?ops = "[Add_device 1, Dispatch_event (Pointer (make_pointer_event 1 0 [] 0 Button_down 4 0 0 0 0 0 0))] :: unit seat_op list"
  have "devices (fold (seat_exec id id) ?ops make_seat) = [(1, new_device\<lparr>dev_buttons := 4\<rparr>)]"
    by (simp add: add_device_def state_seat_dispatch filter_input_event_def make_pointer_event_def
        update_seat_properties_def find_device_def make_seat_def update_cursor_def Let_def
        update_button_state_def update_states_def new_device_def)
  moreover have "bit (4 :: 32 word) 2" by simp
  ultimately show ?thesis
    using seat_reflects_its_devices [of ?ops, OF _ refl, of id id 2] by simp
qed

text \<open>Setting the pointer state of a device directly records the buttons on the device but leaves
  the button state of the seat as it was, so the seat can report buttons that no device holds.\<close>
theorem set_pointer_state_leaves_seat_buttons:
  "button_state (fst (set_pointer_state i b s)) = button_state s \<and>
   (\<exists>s :: seat. seat_inv s \<and> buttons_inv s \<and>
     \<not> buttons_inv (fst (set_pointer_state 1 1 s :: seat \<times> unit seat_call list)))"
proof
  show "button_state (fst (set_pointer_state i b s)) = button_state s"
    by (simp add: button_state_def set_pointer_state_def split: option.split)
  let ?s = "make_seat\<lparr>devices := [(1, new_device)]\<rparr>"
  have "seat_inv ?s" "buttons_inv ?s" "\<not> buttons_inv (fst (set_pointer_state 1 1 ?s :: seat \<times> unit seat_call list))"
    by (simp_all add: seat_inv_def buttons_inv_def make_seat_def new_device_def set_pointer_state_def
        find_device_def put_device_def update_button_state_def)
  then show "\<exists>s :: seat. seat_inv s \<and> buttons_inv s \<and>
     \<not> buttons_inv (fst (set_pointer_state 1 1 s :: seat \<times> unit seat_call list))" by blast
qed

text \<open>Moving the pointer keeps the cursor on screen: after a pointer event the cursor lies in the
  confinement region if that has any area, and otherwise on one of the outputs if there are any; the
  regions are realistic screens, whose coordinates single precision represents exactly.\<close>
theorem cursor_stays_confined:
  assumes "rounds_integers_exactly rnd" "usable_region (input_region s)" "usable_region (confined_region s)"
    and "point_in_range (point_at (rnd (cursor_x s + relative_x ev)) (rnd (cursor_y s + relative_y ev)))"
    and "region (confined_region s) \<union> region (input_region s) \<noteq> {}"
  shows "cursor_position (fst (update_cursor rnd ev s :: seat \<times> 'e seat_call list)) \<in>
    (if region (confined_region s) \<noteq> {} then region (confined_region s) else region (input_region s))"
  using cursor_update_cursor [OF assms(1-4) refl, where 'e = 'e] assms(5) by (auto split: if_splits)

theorem cursor_stays_confined_witness:
  "cursor_position (fst (update_cursor (\<lambda>r. r) (make_pointer_event 1 0 [] 0 Pointer_motion 0 0 0 0 0 5000 1)
     (make_seat\<lparr>input_region := [Rectangle (Point 0 0) (Size 1920 1080)]\<rparr>) :: seat \<times> unit seat_call list)) \<in>
   region [Rectangle (Point 0 0) (Size 1920 1080)]"
proof -
  let ?s = "make_seat\<lparr>input_region := [Rectangle (Point 0 0) (Size 1920 1080)]\<rparr>"
  let ?e = "make_pointer_event 1 0 [] 0 Pointer_motion 0 0 0 0 0 5000 1"
  have r: "region (input_region ?s) \<noteq> {}" "region (confined_region ?s) = {}"
    using pixels_empty_iff [of "Rectangle (Point 0 0) (Size 1920 1080)"] by (simp_all add: has_area_def make_seat_def)
  have "point_at (cursor_x ?s + relative_x ?e) (cursor_y ?s + relative_y ?e) = Point 5000 1"
    by (simp add: make_seat_def make_pointer_event_def point_at_def trunc_rat_def)
  then have "point_in_range (point_at (cursor_x ?s + relative_x ?e) (cursor_y ?s + relative_y ?e))"
    by (simp add: point_in_range_def)
  moreover have "usable_region (input_region ?s)" "usable_region (confined_region ?s)"
    by (auto simp: usable_region_def rect_in_range_def point_in_range_def exact_coords_def mem_pixels
        geom_simps make_seat_def)
  ultimately show ?thesis
    using cursor_stays_confined [of "\<lambda>r. r" ?s ?e, where 'e = unit] r
    by (simp add: rounds_integers_exactly_def)
qed

text \<open>Key events are consistent per device: an event passes the filter exactly when it presses a
  key that is up or concerns a key that is down, and the keys held afterwards are what the event says.\<close>
theorem key_filter_tracks_pressed_keys:
  assumes "find_device (key_device ev) s = Some d"
  shows "(filter_input_event (Key ev :: 'e event) s \<longleftrightarrow>
      (key_action ev = Key_down) = (scan_code ev \<in> set (dev_scan_codes d))) \<and>
    (\<exists>d'. find_device (key_device ev) (state_of (seat_dispatch rnd mapper (Key ev :: 'e event) s)) = Some d' \<and>
      set (dev_scan_codes d') =
       (case key_action ev of Key_down \<Rightarrow> insert (scan_code ev) (set (dev_scan_codes d))
        | Key_up \<Rightarrow> set (dev_scan_codes d) - {scan_code ev}
        | Key_repeat \<Rightarrow> set (dev_scan_codes d)))"
  using assms find_device_put [of "key_device ev" s "key_device ev"]
  by (auto simp: state_seat_dispatch filter_input_event_def allowed_scan_code_action_def Let_def
      update_seat_properties_def update_scan_codes_def split: keyboard_action.split)

theorem key_filter_tracks_pressed_keys_witness:
  "filter_input_event (Key (make_key_event 1 0 [] Key_down 0 30 0) :: unit event)
     (make_seat\<lparr>devices := [(1, new_device\<lparr>dev_scan_codes := [30]\<rparr>)]\<rparr>)"
  using key_filter_tracks_pressed_keys [of "make_key_event 1 0 [] Key_down 0 30 0"
      "make_seat\<lparr>devices := [(1, new_device\<lparr>dev_scan_codes := [30]\<rparr>)]\<rparr>" "new_device\<lparr>dev_scan_codes := [30]\<rparr>",
      where 'e = unit]
  by (simp add: make_key_event_def find_device_def)

end
