(* ===== verification/Key_Repeat.thy ===== *)
theory Key_Repeat
  imports Input_Events
begin

text \<open>
  \<open>input::KeyRepeatDispatcher\<close>: passes events on to the next dispatcher and synthesizes repeats of
  the keys that are held.  Every held key of a device has an alarm that carries what the repeat event
  needs; destroying the entry cancels the alarm.  The clock reading \<open>now\<close> (nanoseconds; alarms are
  given in milliseconds), the cookie authority and the answer of the next dispatcher are parameters.
  The calls to the next dispatcher are returned in order.
\<close>

section \<open>State\<close>

record repeat_alarm =
  alarm_key_code :: "32 word"
  alarm_modifiers :: "32 word"
  alarm_due :: int

type_synonym keyboard_state = "int \<rightharpoonup> repeat_alarm"

record key_repeat =
  repeat_enabled :: bool
  repeat_timeout :: int
  repeat_delay :: int
  disable_repeat_on_touchscreen :: bool
  touch_button_device :: "int option"
  repeat_state_by_device :: "int \<rightharpoonup> keyboard_state"

definition make_key_repeat :: "bool \<Rightarrow> int \<Rightarrow> int \<Rightarrow> bool \<Rightarrow> key_repeat" where
  "make_key_repeat enabled timeout delay disable_touch =
     \<lparr>repeat_enabled = enabled, repeat_timeout = timeout, repeat_delay = delay,
      disable_repeat_on_touchscreen = disable_touch, touch_button_device = None,
      repeat_state_by_device = Map.empty\<rparr>"

section \<open>Operations\<close>

definition set_touch_button_device :: "int \<Rightarrow> key_repeat \<Rightarrow> key_repeat" where
  "set_touch_button_device i st = st\<lparr>touch_button_device := Some i\<rparr>"

definition remove_repeat_device :: "int \<Rightarrow> key_repeat \<Rightarrow> key_repeat" where
  "remove_repeat_device i st =
     (let st' = st\<lparr>repeat_state_by_device := (repeat_state_by_device st)(i := None)\<rparr>
      in if touch_button_device st' = Some i then st'\<lparr>touch_button_device := None\<rparr> else st')"

text \<open>The observer that \<open>set_input_device_hub\<close> registers.\<close>

definition device_added :: "string \<Rightarrow> int \<Rightarrow> key_repeat \<Rightarrow> key_repeat" where
  "device_added name i st = (if name = ''mtk-tpd'' then set_touch_button_device i st else st)"

definition device_removed :: "int \<Rightarrow> key_repeat \<Rightarrow> key_repeat" where
  "device_removed i st = remove_repeat_device i st"

definition ensure_state_for_device :: "int \<Rightarrow> key_repeat \<Rightarrow> keyboard_state \<times> key_repeat" where
  "ensure_state_for_device i st = (case repeat_state_by_device st i of
     Some ks \<Rightarrow> (ks, st)
   | None \<Rightarrow> (Map.empty, st\<lparr>repeat_state_by_device := (repeat_state_by_device st)(i \<mapsto> Map.empty)\<rparr>))"

text \<open>The lambda \<open>clone_event\<close>.\<close>

definition clone_event :: "(int \<Rightarrow> nat list) \<Rightarrow> int \<Rightarrow> int \<Rightarrow> int \<Rightarrow> 32 word \<Rightarrow> 32 word \<Rightarrow> keyboard_event" where
  "clone_event make_cookie now dev scan key mods =
     make_key_event dev now (make_cookie now) Key_repeat key scan mods"

abbreviation nanoseconds :: "int \<Rightarrow> int" where
  "nanoseconds milliseconds \<equiv> milliseconds * 1000000"

text \<open>The result is whether the event has been handled, and the event sent instead.\<close>

definition handle_key_input ::
  "(int \<Rightarrow> nat list) \<Rightarrow> int \<Rightarrow> keyboard_event \<Rightarrow> key_repeat \<Rightarrow> (bool \<times> keyboard_event list) \<times> key_repeat" where
  "handle_key_input make_cookie now kev st =
     (let dev = key_device kev; scan = scan_code kev;
          (device_state, st1) = ensure_state_for_device dev st;
          store = (\<lambda>ks. st1\<lparr>repeat_state_by_device := (repeat_state_by_device st1)(dev \<mapsto> ks)\<rparr>)
      in case key_action kev of
           Key_up \<Rightarrow>
             if device_state scan = None then ((False, []), st1)
             else ((False, []), store (device_state(scan := None)))
         | Key_down \<Rightarrow>
             if device_state scan \<noteq> None
             then ((True, [clone_event make_cookie now dev scan (key_code kev) (key_modifiers kev)]), st1)
             else ((False, []), store (device_state(scan \<mapsto>
                     \<lparr>alarm_key_code = key_code kev, alarm_modifiers = key_modifiers kev,
                      alarm_due = now + nanoseconds (repeat_timeout st)\<rparr>)))
         | Key_repeat \<Rightarrow> ((False, []), st1))"

definition repeat_dispatch ::
  "('e event \<Rightarrow> bool) \<Rightarrow> (int \<Rightarrow> nat list) \<Rightarrow> int \<Rightarrow> 'e event \<Rightarrow> key_repeat \<Rightarrow>
   (bool \<times> 'e event list) \<times> key_repeat" where
  "repeat_dispatch next_dispatch make_cookie now ev st =
     (let pass = (\<lambda>st'. ((next_dispatch ev, [ev]), st'))
      in if \<not> repeat_enabled st then pass st
         else case ev of
           Key kev \<Rightarrow>
             if disable_repeat_on_touchscreen st \<and> touch_button_device st = Some (key_device kev) then pass st
             else (case handle_key_input make_cookie now kev st of
                     ((handled, made), st') \<Rightarrow>
                        if \<not> handled then pass st' else ((True, map Key made), st'))
         | _ \<Rightarrow> pass st)"

text \<open>The callback of an alarm: it sends the repeat and schedules itself again.\<close>

definition alarm_fires ::
  "(int \<Rightarrow> nat list) \<Rightarrow> int \<Rightarrow> int \<Rightarrow> int \<Rightarrow> key_repeat \<Rightarrow> keyboard_event list \<times> key_repeat" where
  "alarm_fires make_cookie now dev scan st =
     (case Option.bind (repeat_state_by_device st dev) (\<lambda>ks. ks scan) of
        None \<Rightarrow> ([], st)
      | Some al \<Rightarrow>
          ([clone_event make_cookie now dev scan (alarm_key_code al) (alarm_modifiers al)],
           st\<lparr>repeat_state_by_device := (repeat_state_by_device st)
               (dev := map_option (\<lambda>ks. ks(scan \<mapsto> al\<lparr>alarm_due := now + nanoseconds (repeat_delay st)\<rparr>))
                         (repeat_state_by_device st dev))\<rparr>))"

definition repeat_stop :: "key_repeat \<Rightarrow> key_repeat" where
  "repeat_stop st = st\<lparr>repeat_state_by_device := Map.empty\<rparr>"

section \<open>The held keys\<close>

definition alarm_of :: "key_repeat \<Rightarrow> int \<Rightarrow> int \<Rightarrow> repeat_alarm option" where
  "alarm_of st dev scan = Option.bind (repeat_state_by_device st dev) (\<lambda>ks. ks scan)"

definition held :: "key_repeat \<Rightarrow> (int \<times> int) set" where
  "held st = {(dev, scan). alarm_of st dev scan \<noteq> None}"

datatype 'e repeat_step =
    Receive int "'e event"
  | Fire int int int
  | Device_added string int
  | Device_removed int
  | Stop

fun repeat_exec ::
  "('e event \<Rightarrow> bool) \<Rightarrow> (int \<Rightarrow> nat list) \<Rightarrow> 'e repeat_step \<Rightarrow> key_repeat \<Rightarrow> key_repeat" where
  "repeat_exec nd mc (Receive now ev) st = snd (repeat_dispatch nd mc now ev st)"
| "repeat_exec nd mc (Fire now dev scan) st = snd (alarm_fires mc now dev scan st)"
| "repeat_exec nd mc (Device_added name i) st = device_added name i st"
| "repeat_exec nd mc (Device_removed i) st = device_removed i st"
| "repeat_exec nd mc Stop st = repeat_stop st"

text \<open>What the held keys should be, from the events alone.\<close>

definition repeats_key :: "key_repeat \<Rightarrow> keyboard_event \<Rightarrow> bool" where
  "repeats_key st kev \<longleftrightarrow> repeat_enabled st \<and>
     \<not> (disable_repeat_on_touchscreen st \<and> touch_button_device st = Some (key_device kev))"

fun held_after :: "key_repeat \<Rightarrow> 'e repeat_step \<Rightarrow> (int \<times> int) set \<Rightarrow> (int \<times> int) set" where
  "held_after st (Receive now (Key kev)) H =
     (if repeats_key st kev then
        (case key_action kev of
           Key_down \<Rightarrow> insert (key_device kev, scan_code kev) H
         | Key_up \<Rightarrow> H - {(key_device kev, scan_code kev)}
         | Key_repeat \<Rightarrow> H)
      else H)"
| "held_after st (Device_removed i) H = {(dev, scan) \<in> H. dev \<noteq> i}"
| "held_after st Stop H = {}"
| "held_after st _ H = H"

lemma alarm_of_ensure:
  assumes "ensure_state_for_device i st = (ks, st')"
  shows "repeat_state_by_device st' i = Some ks" "alarm_of st' = alarm_of st" "ks scan = alarm_of st i scan"
  using assms by (auto simp: ensure_state_for_device_def alarm_of_def fun_eq_iff split: option.splits)

lemma alarm_of_store:
  "alarm_of (st\<lparr>repeat_state_by_device := (repeat_state_by_device st)(i \<mapsto> ks)\<rparr>) dev scan =
     (if dev = i then ks scan else alarm_of st dev scan)"
  by (simp add: alarm_of_def)

lemma handle_key_input_alarm:
  "alarm_of (snd (handle_key_input mc now kev st)) dev scan =
     (if dev = key_device kev \<and> scan = scan_code kev then
        (case key_action kev of
           Key_up \<Rightarrow> None
         | Key_down \<Rightarrow> (case alarm_of st dev scan of
              Some al \<Rightarrow> Some al
            | None \<Rightarrow> Some \<lparr>alarm_key_code = key_code kev, alarm_modifiers = key_modifiers kev,
                            alarm_due = now + nanoseconds (repeat_timeout st)\<rparr>)
         | Key_repeat \<Rightarrow> alarm_of st dev scan)
      else alarm_of st dev scan)"
proof -
  obtain ks st1 where e: "ensure_state_for_device (key_device kev) st = (ks, st1)" by (metis prod.exhaust)
  note e' = alarm_of_ensure [OF e]
  show ?thesis
    using e' by (auto simp: handle_key_input_def Let_def e alarm_of_store split: keyboard_action.split option.split)
qed

lemma handle_key_input_handled:
  "fst (handle_key_input mc now kev st) =
     (if key_action kev = Key_down \<and> alarm_of st (key_device kev) (scan_code kev) \<noteq> None
      then (True, [clone_event mc now (key_device kev) (scan_code kev) (key_code kev) (key_modifiers kev)])
      else (False, []))"
proof -
  obtain ks st1 where e: "ensure_state_for_device (key_device kev) st = (ks, st1)" by (metis prod.exhaust)
  note e' = alarm_of_ensure [OF e]
  show ?thesis
    using e' by (auto simp: handle_key_input_def Let_def e split: keyboard_action.split)
qed

lemma alarm_of_fires:
  "alarm_of (snd (alarm_fires mc now dev scan st)) d c =
     (if d = dev \<and> c = scan then
        map_option (\<lambda>al. al\<lparr>alarm_due := now + nanoseconds (repeat_delay st)\<rparr>) (alarm_of st d c)
      else alarm_of st d c)"
  by (cases "repeat_state_by_device st dev") (auto simp: alarm_fires_def alarm_of_def split: option.splits)

lemma snd_repeat_dispatch:
  "snd (repeat_dispatch nd mc now ev st) =
     (case ev of Key kev \<Rightarrow> if repeats_key st kev then snd (handle_key_input mc now kev st) else st
      | _ \<Rightarrow> st)"
  by (auto simp: repeat_dispatch_def repeats_key_def Let_def split: event.split prod.split)

lemma held_exec: "held (repeat_exec nd mc step st) = held_after st step (held st)"
proof (cases step)
  case (Receive now ev)
  then show ?thesis
    by (cases ev) (auto simp: snd_repeat_dispatch held_def handle_key_input_alarm
        split: keyboard_action.splits option.splits if_splits)
next
  case (Fire now dev scan)
  then show ?thesis by (auto simp: held_def alarm_of_fires)
next
  case (Device_added name i)
  then show ?thesis by (simp add: held_def alarm_of_def device_added_def set_touch_button_device_def)
next
  case (Device_removed i)
  then show ?thesis
    by (auto simp: held_def alarm_of_def device_removed_def remove_repeat_device_def Let_def split: if_splits)
next
  case Stop
  then show ?thesis by (simp add: held_def alarm_of_def repeat_stop_def)
qed

lemma repeat_config [simp]:
  "repeat_enabled (repeat_exec nd mc step st) = repeat_enabled st"
  "repeat_timeout (repeat_exec nd mc step st) = repeat_timeout st"
  "repeat_delay (repeat_exec nd mc step st) = repeat_delay st"
proof -
  have h: "repeat_enabled (snd (handle_key_input mc now kev st)) = repeat_enabled st \<and>
    repeat_timeout (snd (handle_key_input mc now kev st)) = repeat_timeout st \<and>
    repeat_delay (snd (handle_key_input mc now kev st)) = repeat_delay st" for now kev
    by (auto simp: handle_key_input_def ensure_state_for_device_def Let_def
        split: keyboard_action.split option.split)
  show "repeat_enabled (repeat_exec nd mc step st) = repeat_enabled st"
    "repeat_timeout (repeat_exec nd mc step st) = repeat_timeout st"
    "repeat_delay (repeat_exec nd mc step st) = repeat_delay st"
    using h by (cases step; auto simp: snd_repeat_dispatch alarm_fires_def device_added_def
        set_touch_button_device_def device_removed_def remove_repeat_device_def repeat_stop_def Let_def
        split: event.split option.split)+
qed

section \<open>Properties\<close>

text \<open>C16: The keys that repeat are exactly the keys that are held: whatever happens (key events, alarms
  firing, devices coming and going, stopping), the set of keys with an alarm changes as the abstract
  machine of held keys prescribes.\<close>
theorem repeat_alarms_refine_held_keys:
  "held (repeat_exec nd mc step st) = held_after st step (held st)"
  by (rule held_exec)

text \<open>Once a key is released no repeat of it is sent: its alarm is gone, and a firing of it that
  was still under way sends nothing.\<close>
theorem repeats_stop_at_release:
  assumes "repeats_key st (make_key_event dev now0 ck Key_up kc scan mods)"
  shows "fst (alarm_fires mc now dev scan (repeat_exec nd mc
      (Receive now0 (Key (make_key_event dev now0 ck Key_up kc scan mods))) st)) = []"
    (is "fst (alarm_fires mc now dev scan ?st) = []")
proof -
  have "alarm_of ?st dev scan = None"
    using assms by (simp add: snd_repeat_dispatch handle_key_input_alarm make_key_event_def)
  then show ?thesis by (simp add: alarm_fires_def alarm_of_def)
qed

theorem repeats_stop_at_release_witness:
  "fst (alarm_fires (\<lambda>_. []) 9 1 30 (repeat_exec (\<lambda>_. True) (\<lambda>_. [])
     (Receive 5 (Key (make_key_event 1 5 [] Key_up 97 30 0) :: unit event)) (make_key_repeat True 500 50 True))) = []"
  by (rule repeats_stop_at_release) (simp add: repeats_key_def make_key_repeat_def)

text \<open>A key that goes down and is not held yet is passed on and its first repeat is due after the
  repeat timeout; each firing sends one repeat event of that key and moves the due time by the
  repeat delay; a second press of a held key is replaced by a repeat event.\<close>
theorem repeat_timing:
  fixes nd :: "'e event \<Rightarrow> bool"
  assumes "repeats_key st kev" "key_action kev = Key_down"
  shows "if (key_device kev, scan_code kev) \<in> held st
    then repeat_dispatch nd mc now (Key kev) st =
      ((True, [Key (make_key_event (key_device kev) now (mc now) Key_repeat (key_code kev)
          (scan_code kev) (key_modifiers kev))]), snd (repeat_dispatch nd mc now (Key kev) st))
    else fst (repeat_dispatch nd mc now (Key kev) st) = (nd (Key kev), [Key kev]) \<and>
      alarm_of (snd (repeat_dispatch nd mc now (Key kev) st)) (key_device kev) (scan_code kev) =
        Some \<lparr>alarm_key_code = key_code kev, alarm_modifiers = key_modifiers kev,
          alarm_due = now + nanoseconds (repeat_timeout st)\<rparr> \<and>
      map_option alarm_due (alarm_of (snd (alarm_fires mc later (key_device kev) (scan_code kev)
        (snd (repeat_dispatch nd mc now (Key kev) st)))) (key_device kev) (scan_code kev)) =
        Some (later + nanoseconds (repeat_delay st))"
proof -
  have d: "repeat_dispatch nd mc now (Key kev) st =
      (case handle_key_input mc now kev st of
         ((handled, made), st') \<Rightarrow> if \<not> handled then ((nd (Key kev), [Key kev]), st') else ((True, map Key made), st'))"
    using assms(1) by (auto simp: repeat_dispatch_def repeats_key_def Let_def)
  have delay: "repeat_delay (snd (repeat_dispatch nd mc now (Key kev) st)) = repeat_delay st"
    using repeat_config(3) [of nd mc "Receive now (Key kev)" st] by simp
  show ?thesis
    using assms handle_key_input_handled [of mc now kev st] handle_key_input_alarm [of mc now kev st]
    by (auto simp: d delay [unfolded d] alarm_of_fires held_def clone_event_def split: prod.splits)
qed

theorem repeat_timing_witness:
  "fst (repeat_dispatch (\<lambda>_. False) (\<lambda>_. []) 7 (Key (make_key_event 1 5 [] Key_down 97 30 0) :: unit event)
     (make_key_repeat True 500 50 True)) = (False, [Key (make_key_event 1 5 [] Key_down 97 30 0)])"
  using repeat_timing [of "make_key_repeat True 500 50 True" "make_key_event 1 5 [] Key_down 97 30 0"
      "\<lambda>_ :: unit event. False" "\<lambda>_. []" 7]
  by (simp add: repeats_key_def make_key_repeat_def make_key_event_def held_def alarm_of_def)

end
