(* ===== verification/Surface_Dispatcher.thy ===== *)
theory Surface_Dispatcher
  imports Input_Events
begin

unbundle bit_operations_syntax

text \<open>
  \<open>input::SurfaceInputDispatcher\<close>: delivers input events to surfaces.  Keys go to the focused surface,
  a pointer or touch gesture stays with the surface on which it started, and the surface under the
  pointer is told when the pointer enters and leaves it.  The scene is a parameter of each step: the
  surfaces from bottom to top, their input areas and bounds, and which surface objects still exist
  (the focus is a weak pointer).  Calls of \<open>consume\<close> are returned in order.
\<close>

section \<open>State\<close>

record 's input_scene =
  scene_surfaces :: "'s list"
  input_area :: "'s \<Rightarrow> point \<Rightarrow> bool"
  input_bounds :: "'s \<Rightarrow> rectangle"
  exists_surface :: "'s \<Rightarrow> bool"

record 's pointer_input_state =
  current_target :: "'s option"
  gesture_owner :: "'s option"

record 's dispatcher =
  pointer_state_by_id :: "int \<rightharpoonup> 's pointer_input_state"
  touch_state_by_id :: "int \<rightharpoonup> 's option"
  last_pointer_event :: "pointer_event option"
  focus_surface :: "'s option"
  drag_and_drop_handle :: "nat list"
  started :: bool

type_synonym ('s, 'e) deliveries = "('s \<times> 'e event) list"

definition make_dispatcher :: "'s dispatcher" where
  "make_dispatcher = \<lparr>pointer_state_by_id = Map.empty, touch_state_by_id = Map.empty,
     last_pointer_event = None, focus_surface = None, drag_and_drop_handle = [], started = False\<rparr>"

definition no_pointer_state :: "'s pointer_input_state" where
  "no_pointer_state = \<lparr>current_target = None, gesture_owner = None\<rparr>"

section \<open>Delivery\<close>

definition offset_of :: "'s input_scene \<Rightarrow> 's \<Rightarrow> displacement" where
  "offset_of scene s = (let tl = top_left (input_bounds scene s) in Displacement (px tl) (py tl))"

definition with_handle :: "nat list \<Rightarrow> 'e event \<Rightarrow> 'e event" where
  "with_handle handle ev = (if handle \<noteq> [] then set_drag_and_drop_handle_of handle ev else ev)"

definition deliver_without_relative_motion ::
  "(rat \<Rightarrow> rat) \<Rightarrow> 's input_scene \<Rightarrow> 's \<Rightarrow> pointer_event \<Rightarrow> nat list \<Rightarrow> 's \<times> 'e event" where
  "deliver_without_relative_motion rnd scene surface pev handle =
     (let to_deliver = make_pointer_event (pointer_device pev) (pointer_time pev) (pointer_cookie pev)
            (pointer_modifiers pev) (pointer_action pev) (pointer_buttons pev)
            (pointer_x pev) (pointer_y pev) 0 0 0 0
      in (surface, with_handle handle (transform_positions rnd (offset_of scene surface) (Pointer to_deliver))))"

definition deliver :: "(rat \<Rightarrow> rat) \<Rightarrow> 's input_scene \<Rightarrow> 's \<Rightarrow> 'e event \<Rightarrow> nat list \<Rightarrow> 's \<times> 'e event" where
  "deliver rnd scene surface ev handle =
     (surface, transform_positions rnd (offset_of scene surface) (with_handle handle ev))"

definition send_enter_exit_event ::
  "(rat \<Rightarrow> rat) \<Rightarrow> 's input_scene \<Rightarrow> nat list \<Rightarrow> 's \<Rightarrow> pointer_event \<Rightarrow> pointer_action \<Rightarrow> 's \<times> 'e event" where
  "send_enter_exit_event rnd scene handle surface pev act =
     (let tl = top_left (input_bounds scene surface);
          event = make_pointer_event (pointer_device pev) (pointer_time pev) [] (pointer_modifiers pev)
            act (pointer_buttons pev)
            (rnd (pointer_x pev - of_int (px tl))) (rnd (pointer_y pev - of_int (py tl)))
            (hscroll pev) (vscroll pev) (relative_x pev) (relative_y pev)
      in (surface, with_handle handle (Pointer event)))"

text \<open>The loop of \<open>find_target_surface\<close> goes from bottom to top and keeps the last surface that
  contains the point.\<close>

definition find_target_surface :: "'s input_scene \<Rightarrow> point \<Rightarrow> 's option" where
  "find_target_surface scene p =
     foldl (\<lambda>top_target s. if input_area scene s p then Some s else top_target) None (scene_surfaces scene)"

section \<open>Reactions to changes of the scene\<close>

definition forget :: "'s \<Rightarrow> 's option \<Rightarrow> 's option" where
  "forget s target = (if target = Some s then None else target)"

definition surface_removed :: "'s input_scene \<Rightarrow> 's \<Rightarrow> 's dispatcher \<Rightarrow> 's dispatcher" where
  "surface_removed scene s st =
     st\<lparr>focus_surface := (if focus_surface st = Some s \<and> exists_surface scene s then None else focus_surface st),
        pointer_state_by_id := (\<lambda>i. map_option (\<lambda>ps. ps\<lparr>current_target := forget s (current_target ps),
              gesture_owner := forget s (gesture_owner ps)\<rparr>) (pointer_state_by_id st i)),
        touch_state_by_id := (\<lambda>i. map_option (forget s) (touch_state_by_id st i))\<rparr>"

definition ensure_pointer_state :: "int \<Rightarrow> 's dispatcher \<Rightarrow> 's pointer_input_state \<times> 's dispatcher" where
  "ensure_pointer_state i st = (case pointer_state_by_id st i of
     Some ps \<Rightarrow> (ps, st)
   | None \<Rightarrow> (no_pointer_state,
       st\<lparr>pointer_state_by_id := (pointer_state_by_id st)(i \<mapsto> no_pointer_state)\<rparr>))"

definition ensure_touch_state :: "int \<Rightarrow> 's dispatcher \<Rightarrow> 's option \<times> 's dispatcher" where
  "ensure_touch_state i st = (case touch_state_by_id st i of
     Some owner \<Rightarrow> (owner, st)
   | None \<Rightarrow> (None, st\<lparr>touch_state_by_id := (touch_state_by_id st)(i \<mapsto> None)\<rparr>))"

definition set_pointer_input_state :: "int \<Rightarrow> 's pointer_input_state \<Rightarrow> 's dispatcher \<Rightarrow> 's dispatcher" where
  "set_pointer_input_state i ps st = st\<lparr>pointer_state_by_id := (pointer_state_by_id st)(i \<mapsto> ps)\<rparr>"

text \<open>The leave and enter events of a scene change are built from the last pointer event, with the
  current time and neither modifiers nor relative motion.\<close>

definition scene_change_event :: "int \<Rightarrow> pointer_event \<Rightarrow> pointer_action \<Rightarrow> 32 word \<Rightarrow> pointer_event" where
  "scene_change_event now pev act buttons =
     make_pointer_event (pointer_device pev) now [] 0 act buttons (pointer_x pev) (pointer_y pev) 0 0 0 0"

definition dispatch_scene_change_enter_exit_events ::
  "(rat \<Rightarrow> rat) \<Rightarrow> 's input_scene \<Rightarrow> nat list \<Rightarrow> int \<Rightarrow> pointer_event \<Rightarrow> 's option \<Rightarrow> 's option \<Rightarrow>
   bool \<times> ('s, 'e) deliveries" where
  "dispatch_scene_change_enter_exit_events rnd scene handle now pev current target =
     (if current \<noteq> target then
        (True,
         (case current of None \<Rightarrow> [] | Some s \<Rightarrow>
            [send_enter_exit_event rnd scene handle s
               (scene_change_event now pev Pointer_leave (pointer_buttons pev)) Pointer_leave])
         @ (case target of None \<Rightarrow> [] | Some s \<Rightarrow>
            [send_enter_exit_event rnd scene handle s
               (scene_change_event now pev Pointer_enter (pointer_buttons pev)) Pointer_enter]))
      else (False, []))"

definition send_motion_event_to_moved_surface ::
  "(rat \<Rightarrow> rat) \<Rightarrow> 's input_scene \<Rightarrow> nat list \<Rightarrow> int \<Rightarrow> pointer_event \<Rightarrow> 's option \<Rightarrow> 's option \<Rightarrow> 's \<Rightarrow>
   ('s, 'e) deliveries" where
  "send_motion_event_to_moved_surface rnd scene handle now pev current target moved =
     (if target = Some moved \<and> current = target
      then [deliver_without_relative_motion rnd scene moved
              (scene_change_event now pev Pointer_motion 0) handle]
      else [])"

definition surface_moved ::
  "(rat \<Rightarrow> rat) \<Rightarrow> 's input_scene \<Rightarrow> int \<Rightarrow> 's \<Rightarrow> 's dispatcher \<Rightarrow> ('s, 'e) deliveries \<times> 's dispatcher" where
  "surface_moved rnd scene now moved st = (case last_pointer_event st of
     None \<Rightarrow> ([], st)
   | Some pev \<Rightarrow>
       let i = pointer_device pev;
           (ps, st1) = ensure_pointer_state i st;
           target = find_target_surface scene (point_at (pointer_x pev) (pointer_y pev)) in
       if gesture_owner ps \<noteq> None then ([], st1)
       else let (changed, out) = dispatch_scene_change_enter_exit_events rnd scene
                  (drag_and_drop_handle st1) now pev (current_target ps) target in
         if changed then (out, set_pointer_input_state i (ps\<lparr>current_target := target\<rparr>) st1)
         else (send_motion_event_to_moved_surface rnd scene (drag_and_drop_handle st1) now pev
                 (current_target ps) target moved, st1))"

definition surface_resized ::
  "(rat \<Rightarrow> rat) \<Rightarrow> 's input_scene \<Rightarrow> int \<Rightarrow> 's dispatcher \<Rightarrow> ('s, 'e) deliveries \<times> 's dispatcher" where
  "surface_resized rnd scene now st = (case last_pointer_event st of
     None \<Rightarrow> ([], st)
   | Some pev \<Rightarrow>
       let i = pointer_device pev;
           (ps, st1) = ensure_pointer_state i st;
           target = find_target_surface scene (point_at (pointer_x pev) (pointer_y pev));
           (changed, out) = dispatch_scene_change_enter_exit_events rnd scene
                  (drag_and_drop_handle st1) now pev (current_target ps) target
       in if changed then (out, set_pointer_input_state i (ps\<lparr>current_target := target\<rparr>) st1)
          else (out, st1))"

definition device_reset :: "int \<Rightarrow> 's dispatcher \<Rightarrow> 's dispatcher" where
  "device_reset i st =
     (if \<not> started st then st
      else st\<lparr>pointer_state_by_id := (pointer_state_by_id st)(i := None),
             touch_state_by_id := (touch_state_by_id st)(i := None)\<rparr>)"

section \<open>Dispatching events\<close>

definition dispatch_key ::
  "'s input_scene \<Rightarrow> keyboard_event \<Rightarrow> 's dispatcher \<Rightarrow> (bool \<times> ('s, 'e) deliveries) \<times> 's dispatcher" where
  "dispatch_key scene kev st =
     (if \<not> started st then ((False, []), st)
      else case focus_surface st of
        None \<Rightarrow> ((False, []), st)
      | Some s \<Rightarrow> if exists_surface scene s then ((True, [(s, Key kev)]), st) else ((False, []), st))"

definition pressed_buttons :: "pointer_event \<Rightarrow> 32 word list" where
  "pressed_buttons pev = filter (\<lambda>button. pointer_buttons pev AND button \<noteq> 0) [1, 2, 4, 8, 16]"

definition is_gesture_terminator :: "pointer_event \<Rightarrow> bool" where
  "is_gesture_terminator pev \<longleftrightarrow> pressed_buttons pev = [] \<and> pointer_action pev = Button_up"

text \<open>The statements that both branches of \<open>dispatch_pointer\<close> use when the target changes.\<close>

definition change_target ::
  "(rat \<Rightarrow> rat) \<Rightarrow> 's input_scene \<Rightarrow> nat list \<Rightarrow> pointer_event \<Rightarrow> 's option \<Rightarrow> 's option \<Rightarrow> ('s, 'e) deliveries" where
  "change_target rnd scene handle pev current target =
     (case current of None \<Rightarrow> [] | Some s \<Rightarrow> [send_enter_exit_event rnd scene handle s pev Pointer_leave])
     @ (case target of None \<Rightarrow> [] | Some s \<Rightarrow> [send_enter_exit_event rnd scene handle s pev Pointer_enter])"

definition dispatch_pointer ::
  "(rat \<Rightarrow> rat) \<Rightarrow> 's input_scene \<Rightarrow> pointer_event \<Rightarrow> 's dispatcher \<Rightarrow>
   (bool \<times> ('s, 'e) deliveries) \<times> 's dispatcher" where
  "dispatch_pointer rnd scene pev st =
     (let i = pointer_device pev; act = pointer_action pev; handle = drag_and_drop_handle st;
          (ps, st1) = ensure_pointer_state i (st\<lparr>last_pointer_event := Some pev\<rparr>);
          target = find_target_surface scene (point_at (pointer_x pev) (pointer_y pev))
      in case gesture_owner ps of
           Some owner \<Rightarrow>
             let out = [deliver rnd scene owner (Pointer pev) handle];
                 terminated = is_gesture_terminator pev;
                 ps1 = (if terminated then ps\<lparr>gesture_owner := None\<rparr> else ps)
             in if (terminated \<or> handle \<noteq> []) \<and> current_target ps1 \<noteq> target
                then ((True, out @ change_target rnd scene handle pev (current_target ps1) target),
                      set_pointer_input_state i
                        (let ps2 = ps1\<lparr>current_target := target\<rparr>
                         in if \<not> terminated then ps2\<lparr>gesture_owner := target\<rparr> else ps2) st1)
                else ((True, out), set_pointer_input_state i ps1 st1)
         | None \<Rightarrow>
             if act = Button_up then ((False, []), st1)
             else
               let sent = (current_target ps \<noteq> target);
                   out = (if sent then change_target rnd scene handle pev (current_target ps) target else []);
                   ps1 = ps\<lparr>current_target := target\<rparr>
               in case target of
                    None \<Rightarrow> ((sent, out), set_pointer_input_state i ps1 st1)
                  | Some s \<Rightarrow>
                      let ps2 = (if act = Button_down then ps1\<lparr>gesture_owner := target\<rparr> else ps1);
                          rest = (if sent then (if act \<noteq> Pointer_motion
                                    then [deliver_without_relative_motion rnd scene s pev handle] else [])
                                  else [deliver rnd scene s (Pointer pev) handle])
                      in ((True, out @ rest), set_pointer_input_state i ps2 st1))"

definition is_gesture_start :: "touch_event \<Rightarrow> bool" where
  "is_gesture_start tev \<longleftrightarrow> list_all (\<lambda>p. tp_action p = Touch_down) (points tev)"

definition is_gesture_end :: "touch_event \<Rightarrow> bool" where
  "is_gesture_end tev \<longleftrightarrow> list_all (\<lambda>p. tp_action p = Touch_up) (points tev)"

text \<open>The position is read from the contact at index 0 of the event's contact array, whose entries are
  zero beyond the contacts of the event.\<close>

definition first_contact :: "touch_event \<Rightarrow> point" where
  "first_contact tev = (case points tev of [] \<Rightarrow> point_at 0 0 | p # _ \<Rightarrow> point_at (tp_x p) (tp_y p))"

definition dispatch_touch ::
  "(rat \<Rightarrow> rat) \<Rightarrow> 's input_scene \<Rightarrow> touch_event \<Rightarrow> 's dispatcher \<Rightarrow>
   (bool \<times> ('s, 'e) deliveries) \<times> 's dispatcher" where
  "dispatch_touch rnd scene tev st =
     (let i = device_id tev;
          (owner0, st1) = ensure_touch_state i st;
          owner = (if is_gesture_start tev then find_target_surface scene (first_contact tev) else owner0);
          store = (\<lambda>w. st1\<lparr>touch_state_by_id := (touch_state_by_id st1)(i \<mapsto> w)\<rparr>)
      in case owner of
           None \<Rightarrow> ((False, []), store None)
         | Some s \<Rightarrow>
             ((True, [deliver rnd scene s (Touch tev) (drag_and_drop_handle st1)]),
              store (if is_gesture_end tev then None else owner)))"

fun dispatch ::
  "(rat \<Rightarrow> rat) \<Rightarrow> 's input_scene \<Rightarrow> 'e event \<Rightarrow> 's dispatcher \<Rightarrow>
   ('s dispatcher, bool \<times> ('s, 'e) deliveries) outcome" where
  "dispatch rnd scene (Key kev) st = (case dispatch_key scene kev st of (r, st') \<Rightarrow> ret r st')"
| "dispatch rnd scene (Touch tev) st = (case dispatch_touch rnd scene tev st of (r, st') \<Rightarrow> ret r st')"
| "dispatch rnd scene (Pointer pev) st = (case dispatch_pointer rnd scene pev st of (r, st') \<Rightarrow> ret r st')"
| "dispatch rnd scene (Other e) st = throw (Logic_error ''InputDispatcher got an unexpected event type'') st"

definition dispatcher_start :: "'s dispatcher \<Rightarrow> 's dispatcher" where
  "dispatcher_start st = st\<lparr>started := True\<rparr>"

definition dispatcher_stop :: "'s dispatcher \<Rightarrow> 's dispatcher" where
  "dispatcher_stop st = st\<lparr>pointer_state_by_id := Map.empty, touch_state_by_id := Map.empty,
     last_pointer_event := None, started := False\<rparr>"

definition set_focus :: "'s \<Rightarrow> 's dispatcher \<Rightarrow> 's dispatcher" where
  "set_focus target st = st\<lparr>focus_surface := Some target\<rparr>"

definition clear_focus :: "'s dispatcher \<Rightarrow> 's dispatcher" where
  "clear_focus st = st\<lparr>focus_surface := None\<rparr>"

definition set_drag_and_drop_handle :: "nat list \<Rightarrow> 's dispatcher \<Rightarrow> 's dispatcher" where
  "set_drag_and_drop_handle handle st = st\<lparr>drag_and_drop_handle := handle\<rparr>"

definition clear_drag_and_drop_handle :: "'s dispatcher \<Rightarrow> 's dispatcher" where
  "clear_drag_and_drop_handle st = st\<lparr>drag_and_drop_handle := []\<rparr>"

section \<open>The surface under a point\<close>

lemma find_target_surface_top:
  "find_target_surface scene p = find_last (\<lambda>s. input_area scene s p) (scene_surfaces scene)"
proof -
  have "foldl (\<lambda>top s. if P s then Some s else top) t ss =
      (case find_last P ss of None \<Rightarrow> t | Some s \<Rightarrow> Some s)" for P :: "'a \<Rightarrow> bool" and t ss
    by (induction ss rule: rev_induct) (auto simp: find_last_def)
  from this [of "\<lambda>s. input_area scene s p" None "scene_surfaces scene"] show ?thesis
    by (simp add: find_target_surface_def split: option.splits)
qed

lemma find_target_in_scene: "find_target_surface scene p = Some s \<Longrightarrow> s \<in> set (scene_surfaces scene)"
  unfolding find_target_surface_top by (simp add: find_last_in_set)

section \<open>Crossings\<close>

text \<open>A client may expect that it is entered before anything else of the pointer reaches it, and left
  before another surface is entered; the owner of a gesture keeps receiving its events.  The function
  checks this for one device and yields the surface that the pointer is in at the end, or nothing if
  the rule is broken.\<close>

fun crossing :: "int \<Rightarrow> 's option \<Rightarrow> 's option \<Rightarrow> ('s, 'e) deliveries \<Rightarrow> 's option option" where
  "crossing d owner cur [] = Some cur"
| "crossing d owner cur ((s, Pointer pev) # out) =
     (if pointer_device pev = d then
        (case pointer_action pev of
           Pointer_enter \<Rightarrow> if cur = None then crossing d owner (Some s) out else None
         | Pointer_leave \<Rightarrow> if cur = Some s then crossing d owner None out else None
         | _ \<Rightarrow> if cur = Some s \<or> owner = Some s then crossing d owner cur out else None)
      else crossing d owner cur out)"
| "crossing d owner cur (_ # out) = crossing d owner cur out"

definition pointer_state :: "int \<Rightarrow> 's dispatcher \<Rightarrow> 's pointer_input_state" where
  "pointer_state i st = (case pointer_state_by_id st i of None \<Rightarrow> no_pointer_state | Some ps \<Rightarrow> ps)"

lemma ensure_pointer_stateD:
  assumes "ensure_pointer_state i st = (ps, st1)"
  shows "ps = pointer_state i st" "pointer_state j st1 = pointer_state j st"
    "drag_and_drop_handle st1 = drag_and_drop_handle st"
    "touch_state_by_id st1 = touch_state_by_id st" "focus_surface st1 = focus_surface st"
  using assms by (auto simp: ensure_pointer_state_def pointer_state_def split: option.splits if_splits)

lemma pointer_state_set [simp]:
  "pointer_state j (set_pointer_input_state i ps st) = (if j = i then ps else pointer_state j st)"
  "touch_state_by_id (set_pointer_input_state i ps st) = touch_state_by_id st"
  "focus_surface (set_pointer_input_state i ps st) = focus_surface st"
  by (simp_all add: set_pointer_input_state_def pointer_state_def)

lemma pointer_state_last [simp]: "pointer_state j (st\<lparr>last_pointer_event := e\<rparr>) = pointer_state j st"
  by (simp add: pointer_state_def)

lemma with_handle_pointer: "\<exists>p. with_handle h (Pointer pev) = Pointer p \<and>
    pointer_device p = pointer_device pev \<and> pointer_action p = pointer_action pev"
  by (auto simp: with_handle_def)

lemma crossing_send:
  "crossing d owner cur (send_enter_exit_event rnd scene h s pev Pointer_enter # out) =
     (if pointer_device pev = d then if cur = None then crossing d owner (Some s) out else None
      else crossing d owner cur out)"
  "crossing d owner cur (send_enter_exit_event rnd scene h s pev Pointer_leave # out) =
     (if pointer_device pev = d then if cur = Some s then crossing d owner None out else None
      else crossing d owner cur out)"
  by (simp_all add: send_enter_exit_event_def with_handle_def make_pointer_event_def Let_def)

lemma crossing_deliver:
  assumes "pointer_action pev \<noteq> Pointer_enter" "pointer_action pev \<noteq> Pointer_leave"
  shows "crossing d owner cur (deliver rnd scene s (Pointer pev) h # out) =
      (if pointer_device pev = d \<and> cur \<noteq> Some s \<and> owner \<noteq> Some s then None else crossing d owner cur out)"
    and "crossing d owner cur (deliver_without_relative_motion rnd scene s pev h # out) =
      (if pointer_device pev = d \<and> cur \<noteq> Some s \<and> owner \<noteq> Some s then None else crossing d owner cur out)"
  using assms
  by (auto simp: deliver_def deliver_without_relative_motion_def with_handle_def transform_pointer_def
      make_pointer_event_def Let_def split: pointer_action.split)

lemma crossing_change_target:
  "current \<noteq> target \<Longrightarrow>
   crossing d owner (if pointer_device pev = d then current else cur)
     (change_target rnd scene h pev current target @ out) =
   crossing d owner (if pointer_device pev = d then target else cur) out"
  by (auto simp: change_target_def crossing_send split: option.splits)

lemma scene_change_crossing:
  assumes "dispatch_scene_change_enter_exit_events rnd scene h now pev current target = (changed, out)"
  shows "changed \<longleftrightarrow> current \<noteq> target"
    "crossing d owner (if pointer_device pev = d then current else cur) out =
     Some (if pointer_device pev = d then target else cur)"
  using assms
  by (auto simp: dispatch_scene_change_enter_exit_events_def crossing_send scene_change_event_def
      make_pointer_event_def split: option.splits if_splits)

lemma crossing_change_target_cases:
  "current \<noteq> target \<Longrightarrow> pointer_device pev = d \<Longrightarrow>
   crossing d owner current (change_target rnd scene h pev current target @ out) = crossing d owner target out"
  "current \<noteq> target \<Longrightarrow> pointer_device pev \<noteq> d \<Longrightarrow>
   crossing d owner cur (change_target rnd scene h pev current target @ out) = crossing d owner cur out"
  using crossing_change_target [of current target d owner pev] by auto

lemma dispatch_pointer_crossing:
  assumes "pointer_action pev \<noteq> Pointer_enter" "pointer_action pev \<noteq> Pointer_leave"
    and "dispatch_pointer rnd scene pev st = ((r, out), st')"
  shows "crossing d (gesture_owner (pointer_state d st)) (current_target (pointer_state d st)) out =
    Some (current_target (pointer_state d st'))"
proof -
  let ?i = "pointer_device pev" and ?st0 = "st\<lparr>last_pointer_event := Some pev\<rparr>"
  obtain ps st1 where e: "ensure_pointer_state ?i ?st0 = (ps, st1)" by (metis prod.exhaust)
  have ps: "ps = pointer_state ?i st" and st1: "pointer_state j st1 = pointer_state j st" for j
    using ensure_pointer_stateD(1,2) [OF e] by simp_all
  show ?thesis
  proof (cases "gesture_owner ps")
    case None
    then show ?thesis
      using assms(3) ps [symmetric] st1 [of d, symmetric]
      by (auto simp: dispatch_pointer_def Let_def e crossing_change_target_cases crossing_deliver [OF assms(1,2)]
          crossing_change_target_cases [where out = "[]", simplified]
          split: if_splits option.splits)
  next
    case (Some owner)
    then show ?thesis
      using assms(3) ps [symmetric] st1 [of d, symmetric]
      by (auto simp: dispatch_pointer_def Let_def e crossing_deliver [OF assms(1,2)]
          crossing_change_target_cases [where out = "[]", simplified]
          split: if_splits)
  qed
qed

lemma surface_moved_crossing:
  assumes "surface_moved rnd scene now moved st = (out, st')"
  shows "crossing d (gesture_owner (pointer_state d st)) (current_target (pointer_state d st)) out =
    Some (current_target (pointer_state d st'))"
proof (cases "last_pointer_event st")
  case (Some pev)
  let ?i = "pointer_device pev" and ?t = "find_target_surface scene (point_at (pointer_x pev) (pointer_y pev))"
  obtain ps st1 where e: "ensure_pointer_state ?i st = (ps, st1)" by (metis prod.exhaust)
  have ps: "ps = pointer_state ?i st" and st1: "pointer_state j st1 = pointer_state j st" for j
    using ensure_pointer_stateD(1,2) [OF e] by simp_all
  obtain ch o1 where c: "dispatch_scene_change_enter_exit_events rnd scene (drag_and_drop_handle st1) now pev
      (current_target ps) ?t = (ch, o1 :: ('a, 'b) deliveries)" by (metis prod.exhaust)
  note cross = scene_change_crossing [OF c]
  show ?thesis
  proof (cases "gesture_owner ps = None \<and> ch")
    case True
    then have "out = o1" "st' = set_pointer_input_state ?i (ps\<lparr>current_target := ?t\<rparr>) st1"
      using assms Some c by (auto simp: surface_moved_def Let_def e)
    then show ?thesis
      using cross(2) [of d "gesture_owner (pointer_state d st)" "current_target (pointer_state d st)"] ps st1
      by (auto split: if_splits)
  next
    case False
    then have "st' = st1" "out = [] \<or> (\<exists>s. current_target ps = Some s \<and>
        out = [deliver_without_relative_motion rnd scene s (scene_change_event now pev Pointer_motion 0) (drag_and_drop_handle st1)])"
      using assms Some c
      by (auto simp: surface_moved_def send_motion_event_to_moved_surface_def Let_def e split: if_splits)
    then show ?thesis
      using ps st1 by (auto simp: crossing_deliver scene_change_event_def make_pointer_event_def)
  qed
qed (use assms in \<open>simp add: surface_moved_def\<close>)

lemma surface_resized_crossing:
  assumes "surface_resized rnd scene now st = (out, st')"
  shows "crossing d (gesture_owner (pointer_state d st)) (current_target (pointer_state d st)) out =
    Some (current_target (pointer_state d st'))"
proof (cases "last_pointer_event st")
  case (Some pev)
  let ?i = "pointer_device pev" and ?t = "find_target_surface scene (point_at (pointer_x pev) (pointer_y pev))"
  obtain ps st1 where e: "ensure_pointer_state ?i st = (ps, st1)" by (metis prod.exhaust)
  have ps: "ps = pointer_state ?i st" and st1: "pointer_state j st1 = pointer_state j st" for j
    using ensure_pointer_stateD(1,2) [OF e] by simp_all
  obtain ch o1 where c: "dispatch_scene_change_enter_exit_events rnd scene (drag_and_drop_handle st1) now pev
      (current_target ps) ?t = (ch, o1 :: ('a, 'b) deliveries)" by (metis prod.exhaust)
  note cross = scene_change_crossing [OF c]
  have "out = o1" "st' = (if ch then set_pointer_input_state ?i (ps\<lparr>current_target := ?t\<rparr>) st1 else st1)"
    using assms Some c by (auto simp: surface_resized_def Let_def e split: if_splits)
  then show ?thesis
    using cross(1) cross(2) [of d "gesture_owner (pointer_state d st)" "current_target (pointer_state d st)"] ps st1
    by (auto split: if_splits)
qed (use assms in \<open>simp add: surface_resized_def\<close>)

section \<open>Surfaces that are gone\<close>

text \<open>The surfaces that the dispatcher can deliver to without looking at the scene.\<close>

definition knows :: "'s dispatcher \<Rightarrow> 's \<Rightarrow> bool" where
  "knows st s \<longleftrightarrow> focus_surface st = Some s \<or>
     (\<exists>i. current_target (pointer_state i st) = Some s \<or> gesture_owner (pointer_state i st) = Some s) \<or>
     (\<exists>i. touch_state_by_id st i = Some (Some s))"

datatype ('s, 'e) dispatcher_step =
    Event "'e event"
  | Moved int 's
  | Resized int
  | Removed 's
  | Reset int
  | Start_dispatching
  | Stop_dispatching
  | Focus 's
  | Clear_focus
  | Set_handle "nat list"
  | Clear_handle

fun dispatcher_exec ::
  "(rat \<Rightarrow> rat) \<Rightarrow> 's input_scene \<Rightarrow> ('s, 'e) dispatcher_step \<Rightarrow> 's dispatcher \<Rightarrow>
   ('s, 'e) deliveries \<times> 's dispatcher" where
  "dispatcher_exec rnd scene (Event ev) st =
     (case dispatch rnd scene ev st of (Inr (_, out), st') \<Rightarrow> (out, st') | (Inl _, st') \<Rightarrow> ([], st'))"
| "dispatcher_exec rnd scene (Moved now s) st = surface_moved rnd scene now s st"
| "dispatcher_exec rnd scene (Resized now) st = surface_resized rnd scene now st"
| "dispatcher_exec rnd scene (Removed s) st = ([], surface_removed scene s st)"
| "dispatcher_exec rnd scene (Reset i) st = ([], device_reset i st)"
| "dispatcher_exec rnd scene Start_dispatching st = ([], dispatcher_start st)"
| "dispatcher_exec rnd scene Stop_dispatching st = ([], dispatcher_stop st)"
| "dispatcher_exec rnd scene (Focus s) st = ([], set_focus s st)"
| "dispatcher_exec rnd scene Clear_focus st = ([], clear_focus st)"
| "dispatcher_exec rnd scene (Set_handle h) st = ([], set_drag_and_drop_handle h st)"
| "dispatcher_exec rnd scene Clear_handle st = ([], clear_drag_and_drop_handle st)"

lemma fst_deliveries [simp]:
  "fst (deliver rnd scene s ev h) = s" "fst (deliver_without_relative_motion rnd scene s pev h) = s"
  "fst (send_enter_exit_event rnd scene h s pev act) = s"
  by (simp_all add: deliver_def deliver_without_relative_motion_def send_enter_exit_event_def Let_def)

definition unreached :: "'s \<Rightarrow> ('s, 'e) deliveries \<Rightarrow> bool" where
  "unreached s out \<longleftrightarrow> s \<notin> set (map fst out)"

lemma unreached_simps [simp]:
  "unreached s []" "unreached s (x # out) \<longleftrightarrow> fst x \<noteq> s \<and> unreached s out"
  "unreached s (out @ out') \<longleftrightarrow> unreached s out \<and> unreached s out'"
  by (auto simp: unreached_def)

lemma unreached_change_target [simp]:
  "unreached s (change_target rnd scene h pev current target) \<longleftrightarrow> current \<noteq> Some s \<and> target \<noteq> Some s"
  by (auto simp: change_target_def split: option.splits)

lemma unreached_scene_change:
  "dispatch_scene_change_enter_exit_events rnd scene h now pev current target = (ch, out) \<Longrightarrow>
   current \<noteq> Some s \<Longrightarrow> target \<noteq> Some s \<Longrightarrow> unreached s out"
  by (auto simp: dispatch_scene_change_enter_exit_events_def split: option.splits if_splits)

lemma ensure_touch_stateD:
  assumes "ensure_touch_state i st = (w, st1)"
  shows "w = None \<or> touch_state_by_id st i = Some w"
    "touch_state_by_id st1 j = Some (Some s) \<longleftrightarrow> touch_state_by_id st j = Some (Some s)"
    "pointer_state_by_id st1 = pointer_state_by_id st" "focus_surface st1 = focus_surface st"
  using assms by (auto simp: ensure_touch_state_def split: option.splits if_splits)

lemma dispatch_touch_unknown:
  assumes "\<not> knows st s" "s \<notin> set (scene_surfaces scene)"
    and "dispatch_touch rnd scene tev st = ((r, out), st')"
  shows "unreached s out \<and> \<not> knows st' s"
proof -
  obtain w st1 where e: "ensure_touch_state (device_id tev) st = (w, st1)" by (metis prod.exhaust)
  have t: "find_target_surface scene p \<noteq> Some s" for p using assms(2) find_target_in_scene by metis
  have w: "w \<noteq> Some s" using ensure_touch_stateD(1) [OF e] assms(1) by (auto simp: knows_def)
  have k: "\<not> knows (st1\<lparr>touch_state_by_id := (touch_state_by_id st1)(device_id tev \<mapsto> w')\<rparr>) s"
    if "w' \<noteq> Some s" for w'
    using that assms(1) ensure_touch_stateD(2-4) [OF e] by (auto simp: knows_def pointer_state_def)
  show ?thesis
    using assms(3) w t [of "first_contact tev"] k
    by (cases "is_gesture_start tev"; cases "is_gesture_end tev")
      (auto simp: dispatch_touch_def Let_def e split: option.splits)
qed

lemma dispatch_pointer_unknown:
  assumes "\<not> knows st s" "s \<notin> set (scene_surfaces scene)"
    and "dispatch_pointer rnd scene pev st = ((r, out), st')"
  shows "unreached s out \<and> \<not> knows st' s"
proof -
  let ?i = "pointer_device pev" and ?st0 = "st\<lparr>last_pointer_event := Some pev\<rparr>"
  obtain ps st1 where e: "ensure_pointer_state ?i ?st0 = (ps, st1)" by (metis prod.exhaust)
  note e' = ensure_pointer_stateD [OF e, simplified]
  have t: "find_target_surface scene (point_at (pointer_x pev) (pointer_y pev)) \<noteq> Some s"
    using assms(2) find_target_in_scene by metis
  have k: "gesture_owner ps \<noteq> Some s" "current_target ps \<noteq> Some s" "\<not> knows st1 s"
    using assms(1) e' by (auto simp: knows_def)
  have k': "\<not> knows (set_pointer_input_state ?i ps' st1) s"
    if "gesture_owner ps' \<noteq> Some s" "current_target ps' \<noteq> Some s" for ps'
    using k(3) that by (auto simp: knows_def)
  show ?thesis
    using assms(3) k t k'
    by (cases "gesture_owner ps")
      (auto simp: dispatch_pointer_def Let_def e split: option.splits if_splits)
qed

lemma scene_change_unknown:
  assumes "\<not> knows st s" "s \<notin> set (scene_surfaces scene)"
  shows "surface_moved rnd scene now moved st = (out, st') \<Longrightarrow> unreached s out \<and> \<not> knows st' s"
    and "surface_resized rnd scene now st = (out, st') \<Longrightarrow> unreached s out \<and> \<not> knows st' s"
proof -
  have t: "find_target_surface scene p \<noteq> Some s" for p using assms(2) find_target_in_scene by metis
  have k: "current_target ps \<noteq> Some s \<and> \<not> knows st1 s \<and>
      (\<forall>tg. tg \<noteq> Some s \<longrightarrow> \<not> knows (set_pointer_input_state i (ps\<lparr>current_target := tg\<rparr>) st1) s)"
    if "ensure_pointer_state i st = (ps, st1)" for i ps st1
    using assms(1) ensure_pointer_stateD [OF that] by (auto simp: knows_def)
  show "surface_moved rnd scene now moved st = (out, st') \<Longrightarrow> unreached s out \<and> \<not> knows st' s"
    using assms(1) t
    by (auto simp: surface_moved_def send_motion_event_to_moved_surface_def Let_def
        split: option.splits prod.splits if_splits dest: k intro: unreached_scene_change)
  show "surface_resized rnd scene now st = (out, st') \<Longrightarrow> unreached s out \<and> \<not> knows st' s"
    using assms(1) t
    by (auto simp: surface_resized_def Let_def
        split: option.splits prod.splits if_splits dest: k intro: unreached_scene_change)
qed

lemma dispatcher_exec_unknown:
  assumes "\<not> knows st s" "s \<notin> set (scene_surfaces scene)" "step \<noteq> Focus s"
    and "dispatcher_exec rnd scene step st = (out, st')"
  shows "unreached s out \<and> \<not> knows st' s"
proof (cases step)
  case (Event ev)
  show ?thesis
  proof (cases ev)
    case (Key kev)
    then show ?thesis
      using assms Event by (auto simp: dispatch_key_def ret_def knows_def split: option.splits if_splits)
  next
    case (Touch tev)
    then show ?thesis
      using assms(4) Event
      by (auto simp: ret_def split: prod.splits dest: dispatch_touch_unknown [OF assms(1,2)])
  next
    case (Pointer pev)
    then show ?thesis
      using assms(4) Event
      by (auto simp: ret_def split: prod.splits dest: dispatch_pointer_unknown [OF assms(1,2)])
  next
    case (Other e)
    with assms Event show ?thesis by (auto simp: throw_def)
  qed
next
  case (Removed t)
  then show ?thesis
    using assms(1,4) by (auto simp: surface_removed_def knows_def forget_def pointer_state_def
        no_pointer_state_def split: option.splits if_splits)
next
  case (Reset i)
  then show ?thesis
    using assms(1,4) by (auto simp: device_reset_def knows_def pointer_state_def no_pointer_state_def
        split: option.splits if_splits)
next
  case Stop_dispatching
  then show ?thesis
    using assms(1,4) by (auto simp: dispatcher_stop_def knows_def pointer_state_def no_pointer_state_def)
next
  case (Moved now t)
  then show ?thesis using assms(4) by (auto dest: scene_change_unknown(1) [OF assms(1,2)])
next
  case (Resized now)
  then show ?thesis using assms(4) by (auto dest: scene_change_unknown(2) [OF assms(1,2)])
qed (use assms in \<open>auto simp: knows_def pointer_state_def
    dispatcher_start_def set_focus_def clear_focus_def set_drag_and_drop_handle_def
    clear_drag_and_drop_handle_def\<close>)

lemma surface_removed_unknown:
  "exists_surface scene s \<Longrightarrow> \<not> knows (surface_removed scene s st) s"
  by (auto simp: surface_removed_def knows_def forget_def pointer_state_def no_pointer_state_def
      split: option.splits if_splits)

text \<open>A run of the dispatcher; each step sees the scene of its time.\<close>

fun dispatcher_run ::
  "(rat \<Rightarrow> rat) \<Rightarrow> ('s input_scene \<times> ('s, 'e) dispatcher_step) list \<Rightarrow> 's dispatcher \<Rightarrow>
   ('s, 'e) deliveries \<times> 's dispatcher" where
  "dispatcher_run rnd [] st = ([], st)"
| "dispatcher_run rnd ((scene, step) # steps) st =
     (case dispatcher_exec rnd scene step st of (out, st') \<Rightarrow>
        (case dispatcher_run rnd steps st' of (out', st'') \<Rightarrow> (out @ out', st'')))"

lemma dispatcher_run_unknown:
  assumes "\<not> knows st s" "\<forall>(scene, step)\<in>set steps. s \<notin> set (scene_surfaces scene) \<and> step \<noteq> Focus s"
  shows "unreached s (fst (dispatcher_run rnd steps st))"
  using assms
proof (induction steps arbitrary: st)
  case (Cons x steps)
  obtain scene step where x: "x = (scene, step)" by (cases x)
  obtain out st' where e: "dispatcher_exec rnd scene step st = (out, st')" by (metis prod.exhaust)
  have "unreached s out \<and> \<not> knows st' s"
    using Cons.prems x by (intro dispatcher_exec_unknown [OF _ _ _ e]) auto
  moreover from this have "unreached s (fst (dispatcher_run rnd steps st'))"
    using Cons.prems by (intro Cons.IH) auto
  ultimately show ?case by (simp add: x e split: prod.split) (metis fst_conv)
qed simp

section \<open>Properties\<close>

text \<open>C13: Enter and leave events are balanced for each pointing device: whatever a pointer event, a
  moved surface or a resized surface makes the dispatcher deliver, a surface is entered only after the
  previous one was left, is left only if it was entered, and other pointer events reach only the
  surface that was entered or the owner of the gesture; afterwards the dispatcher's current target is
  the surface the client side believes the pointer is in.\<close>
theorem pointer_crossings_are_balanced:
  assumes "case step of Event (Pointer pev) \<Rightarrow> pointer_action pev \<noteq> Pointer_enter \<and> pointer_action pev \<noteq> Pointer_leave
      | Moved now s \<Rightarrow> True | Resized now \<Rightarrow> True | _ \<Rightarrow> False"
    and "dispatcher_exec rnd scene step st = (out, st')"
  shows "crossing d (gesture_owner (pointer_state d st)) (current_target (pointer_state d st)) out =
    Some (current_target (pointer_state d st'))"
  using assms
proof (cases step)
  case (Event ev)
  with assms obtain pev r where "ev = Pointer pev" "dispatch_pointer rnd scene pev st = ((r, out), st')"
    "pointer_action pev \<noteq> Pointer_enter" "pointer_action pev \<noteq> Pointer_leave"
    by (cases ev) (auto simp: ret_def split: prod.splits)
  then show ?thesis by (auto intro: dispatch_pointer_crossing)
qed (auto intro: surface_moved_crossing surface_resized_crossing)

theorem pointer_crossings_are_balanced_witness:
  "let scene = \<lparr>scene_surfaces = [1::nat, 2], input_area = (\<lambda>_ _. True),
       input_bounds = (\<lambda>_. Rectangle (Point 0 0) (Size 9 9)), exists_surface = (\<lambda>_. True)\<rparr>;
     step = Event (Pointer (make_pointer_event 5 0 [] 0 Pointer_motion 0 3 3 0 0 1 1)) :: (nat, unit) dispatcher_step
   in crossing 5 None None (fst (dispatcher_exec id scene step make_dispatcher)) = Some (Some 2)"
proof -
  define scene where "scene = \<lparr>scene_surfaces = [1::nat, 2], input_area = (\<lambda>_ _. True),
       input_bounds = (\<lambda>_. Rectangle (Point 0 0) (Size 9 9)), exists_surface = (\<lambda>_. True)\<rparr>"
  define step where "step = (Event (Pointer (make_pointer_event 5 0 [] 0 Pointer_motion 0 3 3 0 0 1 1)) :: (nat, unit) dispatcher_step)"
  obtain out st' where e: "dispatcher_exec id scene step make_dispatcher = (out, st')" by (metis prod.exhaust)
  have "current_target (pointer_state 5 st') = Some 2"
    using e by (auto simp: step_def scene_def make_dispatcher_def dispatch_pointer_def
        ensure_pointer_state_def no_pointer_state_def find_target_surface_def make_pointer_event_def
        ret_def Let_def pointer_state_def set_pointer_input_state_def split: prod.splits)
  moreover have "crossing 5 (gesture_owner (pointer_state 5 make_dispatcher))
      (current_target (pointer_state 5 make_dispatcher)) out = Some (current_target (pointer_state 5 st'))"
    using pointer_crossings_are_balanced [of step id scene make_dispatcher out st' 5] e
    by (simp add: step_def make_pointer_event_def)
  ultimately show ?thesis
    unfolding Let_def scene_def [symmetric] step_def [symmetric]
    by (simp add: e) (simp add: pointer_state_def make_dispatcher_def no_pointer_state_def)
qed

text \<open>C36: A surface that was removed from the scene receives nothing any more: no event of any run that
  follows reaches it, as long as it is not in the scene again and is not given the focus again.\<close>
theorem removed_surface_receives_nothing:
  assumes "exists_surface scene s"
    and "\<forall>(scene, step)\<in>set steps. s \<notin> set (scene_surfaces scene) \<and> step \<noteq> Focus s"
  shows "s \<notin> set (map fst (fst (dispatcher_run rnd steps (surface_removed scene s st))))"
  using dispatcher_run_unknown [OF surface_removed_unknown [OF assms(1)] assms(2), of rnd st]
  by (simp add: unreached_def)

theorem removed_surface_receives_nothing_witness:
  "let scene = \<lparr>scene_surfaces = [2::nat], input_area = (\<lambda>_ _. True),
       input_bounds = (\<lambda>_. Rectangle (Point 0 0) (Size 9 9)), exists_surface = (\<lambda>_. True)\<rparr>
   in 1 \<notin> set (map fst (fst (dispatcher_run id
        [(scene, Event (Key (make_key_event 1 0 [] Key_down 0 30 0) :: unit event))]
        (surface_removed scene 1 (set_focus 1 (dispatcher_start make_dispatcher))))))"
  unfolding Let_def by (rule removed_surface_receives_nothing) simp_all

text \<open>A gesture stays with the surface on which it started: while a device's gesture has an owner
  and no drag and drop is going on, a pointer event goes to the owner alone, wherever the pointer is,
  and the owner changes only when the gesture ends.\<close>
theorem gesture_stays_with_its_owner:
  assumes "gesture_owner (pointer_state (pointer_device pev) st) = Some s" "drag_and_drop_handle st = []"
    and "dispatch_pointer rnd scene pev st = ((r, out), st')"
  shows "r \<and> hd out = deliver rnd scene s (Pointer pev) [] \<and>
    (if is_gesture_terminator pev then gesture_owner (pointer_state (pointer_device pev) st') = None
     else out = [deliver rnd scene s (Pointer pev) []] \<and>
       gesture_owner (pointer_state (pointer_device pev) st') = Some s)"
proof -
  let ?i = "pointer_device pev" and ?st0 = "st\<lparr>last_pointer_event := Some pev\<rparr>"
  obtain ps st1 where e: "ensure_pointer_state ?i ?st0 = (ps, st1)" by (metis prod.exhaust)
  have "gesture_owner ps = Some s" using ensure_pointer_stateD(1) [OF e] assms(1) by simp
  then show ?thesis
    using assms(2,3) by (auto simp: dispatch_pointer_def Let_def e split: if_splits)
qed

theorem gesture_stays_with_its_owner_witness:
  "let scene = \<lparr>scene_surfaces = [1::nat, 2], input_area = (\<lambda>_ _. True),
       input_bounds = (\<lambda>_. Rectangle (Point 0 0) (Size 9 9)), exists_surface = (\<lambda>_. True)\<rparr>;
     pev = make_pointer_event 5 0 [] 0 Pointer_motion 1 3 3 0 0 1 1;
     st = make_dispatcher\<lparr>pointer_state_by_id := [5 \<mapsto> \<lparr>current_target = Some 1, gesture_owner = Some 1\<rparr>]\<rparr>
   in snd (fst (dispatch_pointer id scene pev st)) = [deliver id scene 1 (Pointer pev :: unit event) []]"
proof -
  define scene where "scene = \<lparr>scene_surfaces = [1::nat, 2], input_area = (\<lambda>_ _. True),
       input_bounds = (\<lambda>_. Rectangle (Point 0 0) (Size 9 9)), exists_surface = (\<lambda>_. True)\<rparr>"
  define pev where "pev = make_pointer_event 5 0 [] 0 Pointer_motion 1 3 3 0 0 1 1"
  define st where "st = make_dispatcher\<lparr>pointer_state_by_id := [5 \<mapsto> \<lparr>current_target = Some (1::nat), gesture_owner = Some 1\<rparr>]\<rparr>"
  obtain r st' and out :: "(nat, unit) deliveries" where e: "dispatch_pointer id scene pev st = ((r, out), st')"
    by (metis prod.exhaust)
  have "gesture_owner (pointer_state (pointer_device pev) st) = Some 1" "drag_and_drop_handle st = []"
    "\<not> is_gesture_terminator pev"
    by (simp_all add: pointer_state_def st_def pev_def make_pointer_event_def make_dispatcher_def is_gesture_terminator_def)
  with gesture_stays_with_its_owner [OF _ _ e, of 1] e show ?thesis
    unfolding Let_def scene_def [symmetric] st_def [symmetric] pev_def [symmetric] by simp
qed

text \<open>The end of a gesture looks at five of the eight buttons only: when a gesture is under way with
  the side, extra or task button still held and the primary button is released, the gesture ends, and
  the release of the remaining button is then dropped, although its press was delivered.\<close>
theorem release_of_side_button_is_dropped:
  assumes "gesture_owner (pointer_state d st) = Some s" "drag_and_drop_handle st = []"
    and "pointer_device up1 = d" "pointer_action up1 = Button_up" "pointer_buttons up1 AND 31 = 0"
    and "pointer_device up2 = d" "pointer_action up2 = Button_up"
  shows "dispatch_pointer rnd scene up2 (snd (dispatch_pointer rnd scene up1 st :: (bool \<times> ('s, 'e) deliveries) \<times> 's dispatcher)) =
    ((False, []) :: bool \<times> ('s, 'e) deliveries,
     snd (dispatch_pointer rnd scene up2 (snd (dispatch_pointer rnd scene up1 st :: (bool \<times> ('s, 'e) deliveries) \<times> 's dispatcher)) ::
       (bool \<times> ('s, 'e) deliveries) \<times> 's dispatcher))"
proof -
  have "pressed_buttons up1 = []"
  proof -
    have "pointer_buttons up1 AND b = 0" if "b \<in> set [1, 2, 4, 8, 16]" for b
    proof -
      have "b = 31 AND b" using that by auto
      then have "pointer_buttons up1 AND b = (pointer_buttons up1 AND 31) AND b" by (metis and.assoc)
      with assms(5) show ?thesis by simp
    qed
    then show ?thesis by (simp add: pressed_buttons_def)
  qed
  then have ends: "is_gesture_terminator up1" using assms(4) by (simp add: is_gesture_terminator_def)
  obtain r out st1 where e1: "dispatch_pointer rnd scene up1 st = ((r, out :: ('s, 'e) deliveries), st1)"
    by (metis prod.exhaust)
  let ?st0 = "st\<lparr>last_pointer_event := Some up1\<rparr>"
  obtain ps sx where e: "ensure_pointer_state d ?st0 = (ps, sx)" by (metis prod.exhaust)
  have "gesture_owner ps = Some s" using ensure_pointer_stateD(1) [OF e] assms(1) by simp
  then have "gesture_owner (pointer_state d st1) = None"
    using e1 ends assms(2,3) by (auto simp: dispatch_pointer_def Let_def e split: if_splits)
  moreover obtain ps' sy where e': "ensure_pointer_state d (st1\<lparr>last_pointer_event := Some up2\<rparr>) = (ps', sy)"
    by (metis prod.exhaust)
  ultimately have "gesture_owner ps' = None" using ensure_pointer_stateD(1) [OF e'] by simp
  then show ?thesis
    using assms(6,7) by (simp add: e1 dispatch_pointer_def [of rnd scene up2] Let_def e')
qed

theorem release_of_side_button_is_dropped_witness:
  "let scene = \<lparr>scene_surfaces = [1::nat], input_area = (\<lambda>_ _. True),
       input_bounds = (\<lambda>_. Rectangle (Point 0 0) (Size 9 9)), exists_surface = (\<lambda>_. True)\<rparr>;
     st = make_dispatcher\<lparr>pointer_state_by_id := [5 \<mapsto> \<lparr>current_target = Some 1, gesture_owner = Some 1\<rparr>]\<rparr>;
     up1 = make_pointer_event 5 0 [] 0 Button_up 32 3 3 0 0 0 0;
     up2 = make_pointer_event 5 1 [] 0 Button_up 0 3 3 0 0 0 0
   in fst (dispatch_pointer id scene up2
        (snd (dispatch_pointer id scene up1 st :: (bool \<times> (nat, unit) deliveries) \<times> nat dispatcher))) =
      (False, [] :: (nat, unit) deliveries)"
proof -
  define scene where "scene = \<lparr>scene_surfaces = [1::nat], input_area = (\<lambda>_ _. True),
       input_bounds = (\<lambda>_. Rectangle (Point 0 0) (Size 9 9)), exists_surface = (\<lambda>_. True)\<rparr>"
  define st where "st = make_dispatcher\<lparr>pointer_state_by_id := [5 \<mapsto> \<lparr>current_target = Some (1::nat), gesture_owner = Some 1\<rparr>]\<rparr>"
  define up1 where "up1 = make_pointer_event 5 0 [] 0 Button_up 32 3 3 0 0 0 0"
  define up2 where "up2 = make_pointer_event 5 1 [] 0 Button_up 0 3 3 0 0 0 0"
  have "gesture_owner (pointer_state 5 st) = Some 1" "drag_and_drop_handle st = []"
    "pointer_device up1 = 5" "pointer_action up1 = Button_up" "pointer_buttons up1 AND 31 = 0"
    "pointer_device up2 = 5" "pointer_action up2 = Button_up"
    by (simp_all add: st_def up1_def up2_def make_pointer_event_def pointer_state_def make_dispatcher_def)
  from release_of_side_button_is_dropped [OF this, where 'e = unit, of id scene] show ?thesis
    unfolding Let_def scene_def [symmetric] st_def [symmetric] up1_def [symmetric] up2_def [symmetric]
    by (metis fst_conv)
qed

end
