(* ===== verification/Prompt_Sessions.thy ===== *)
theory Prompt_Sessions
  imports Session_Container "HOL-Library.Word"
begin

text \<open>
  Prompt sessions: \<open>PromptSessionContainer\<close> (which sessions take part in which prompt session, and how),
  \<open>PromptSessionImpl\<close> (the state of one prompt session) and \<open>PromptSessionManagerImpl\<close>, which drives
  both.  Prompt sessions are known by their addresses (the type variable \<open>'p\<close>, ordered like pointers),
  sessions by theirs (\<open>'s\<close>); \<open>alive\<close> says which sessions still exist, that is, for which a weak
  pointer can be locked.  The calls to the listener and to the sessions are returned in order.
\<close>

section \<open>The container\<close>

datatype participant_type = Helper | Application | Prompt_provider

fun type_rank :: "participant_type \<Rightarrow> nat" where
  "type_rank Helper = 0"
| "type_rank Application = 1"
| "type_rank Prompt_provider = 2"

record ('p, 's) participant =
  in_session :: 'p
  member_session :: 's
  member_type :: participant_type
  insert_order :: "32 word"

text \<open>The multi-index container is the list of its elements in the order of insertion; the indices are
  orders of traversal.  \<open>insertion_order\<close> is the global counter.\<close>

record ('p, 's) prompt_container =
  prompt_sessions :: "'p set"
  participants :: "('p, 's) participant list"
  insertion_order :: "32 word"

definition empty_container :: "('p, 's) prompt_container" where
  "empty_container = \<lparr>prompt_sessions = {}, participants = [], insertion_order = 0\<rparr>"

definition insert_prompt_session :: "'p \<Rightarrow> ('p, 's) prompt_container \<Rightarrow> ('p, 's) prompt_container" where
  "insert_prompt_session p c = c\<lparr>prompt_sessions := insert p (prompt_sessions c)\<rparr>"

definition remove_prompt_session :: "'p \<Rightarrow> ('p, 's) prompt_container \<Rightarrow> ('p, 's) prompt_container" where
  "remove_prompt_session p c =
     c\<lparr>participants := filter (\<lambda>x. in_session x \<noteq> p) (participants c),
       prompt_sessions := prompt_sessions c - {p}\<rparr>"

definition same_key :: "'p \<Rightarrow> 's \<Rightarrow> participant_type \<Rightarrow> ('p, 's) participant \<Rightarrow> bool" where
  "same_key p s ty x \<longleftrightarrow> member_session x = s \<and> member_type x = ty \<and> in_session x = p"

definition insert_participant ::
  "('s \<Rightarrow> bool) \<Rightarrow> 'p \<Rightarrow> 's \<Rightarrow> participant_type \<Rightarrow> ('p, 's) prompt_container \<Rightarrow>
   (('p, 's) prompt_container, bool) outcome" where
  "insert_participant alive p s ty c =
     (if p \<notin> prompt_sessions c then throw (Runtime_error ''Prompt Session does not exist'') c
      else if alive s then
        let x = \<lparr>in_session = p, member_session = s, member_type = ty, insert_order = insertion_order c\<rparr>;
            c' = c\<lparr>insertion_order := insertion_order c + 1\<rparr>
        in if list_ex (same_key p s ty) (participants c') then ret False c'
           else ret True (c'\<lparr>participants := participants c' @ [x]\<rparr>)
      else ret False c)"

definition remove_participant ::
  "'p \<Rightarrow> 's \<Rightarrow> participant_type \<Rightarrow> ('p, 's) prompt_container \<Rightarrow> bool \<times> ('p, 's) prompt_container" where
  "remove_participant p s ty c =
     (if \<not> list_ex (same_key p s ty) (participants c) then (False, c)
      else (True, c\<lparr>participants := filter (\<lambda>x. \<not> same_key p s ty x) (participants c)\<rparr>))"

definition participants_in :: "'p \<Rightarrow> ('p, 's) prompt_container \<Rightarrow> ('s \<times> participant_type) list" where
  "participants_in p c =
     map (\<lambda>x. (member_session x, member_type x))
       (sort_key insert_order (filter (\<lambda>x. in_session x = p) (participants c)))"

text \<open>The index by session orders by session, type and prompt session.\<close>

definition prompt_sessions_with ::
  "'s \<Rightarrow> ('p :: linorder, 's) prompt_container \<Rightarrow> ('p \<times> participant_type) list" where
  "prompt_sessions_with s c =
     map (\<lambda>x. (in_session x, member_type x))
       (filter (\<lambda>x. in_session x \<in> prompt_sessions c)
         (sort_key (type_rank \<circ> member_type)
           (sort_key in_session (filter (\<lambda>x. member_session x = s) (participants c)))))"

definition prompt_sessions_with_type ::
  "'s \<Rightarrow> participant_type \<Rightarrow> ('p :: linorder, 's) prompt_container \<Rightarrow> 'p list" where
  "prompt_sessions_with_type s ty c =
     map in_session (filter (\<lambda>x. in_session x \<in> prompt_sessions c)
       (sort_key in_session (filter (\<lambda>x. member_session x = s \<and> member_type x = ty) (participants c))))"

section \<open>One prompt session\<close>

datatype prompt_state = Stopped | Started | Suspended

datatype ('p, 's) prompt_call =
    Session_start 's
  | Session_stop 's
  | Session_suspend 's
  | Session_resume 's
  | Starting 'p
  | Stopping 'p
  | Suspending 'p
  | Resuming 'p
  | Provider_added 'p 's
  | Provider_removed 'p 's

definition tell_helper :: "('s \<Rightarrow> ('p, 's) prompt_call) \<Rightarrow> 's option \<Rightarrow> ('p, 's) prompt_call list" where
  "tell_helper call helper = (case helper of None \<Rightarrow> [] | Some s \<Rightarrow> [call s])"

definition prompt_start :: "'s option \<Rightarrow> prompt_state \<Rightarrow> ('p, 's) prompt_call list \<times> prompt_state" where
  "prompt_start helper st = (if st = Stopped then (tell_helper Session_start helper, Started) else ([], st))"

definition prompt_stop :: "'s option \<Rightarrow> prompt_state \<Rightarrow> ('p, 's) prompt_call list \<times> prompt_state" where
  "prompt_stop helper st = (if st \<noteq> Stopped then (tell_helper Session_stop helper, Stopped) else ([], st))"

definition prompt_suspend :: "'s option \<Rightarrow> prompt_state \<Rightarrow> ('p, 's) prompt_call list \<times> prompt_state" where
  "prompt_suspend helper st = (if st = Started then (tell_helper Session_suspend helper, Suspended) else ([], st))"

definition prompt_resume :: "'s option \<Rightarrow> prompt_state \<Rightarrow> ('p, 's) prompt_call list \<times> prompt_state" where
  "prompt_resume helper st = (if st = Suspended then (tell_helper Session_resume helper, Started) else ([], st))"

section \<open>The manager\<close>

record ('p, 's) manager =
  container :: "('p, 's) prompt_container"
  prompt_states :: "'p \<Rightarrow> prompt_state"

definition make_manager :: "('p, 's) manager" where
  "make_manager = \<lparr>container = empty_container, prompt_states = (\<lambda>_. Stopped)\<rparr>"

text \<open>\<open>application_for\<close> and \<open>helper_for\<close>: the last participant of the type, if its session exists.\<close>

definition last_member ::
  "('s \<Rightarrow> bool) \<Rightarrow> participant_type \<Rightarrow> 'p \<Rightarrow> ('p, 's) manager \<Rightarrow> 's option" where
  "last_member alive ty p m =
     (case find_last (\<lambda>(s, t). t = ty) (participants_in p (container m)) of
        None \<Rightarrow> None
      | Some (s, t) \<Rightarrow> if alive s then Some s else None)"

definition application_for :: "('s \<Rightarrow> bool) \<Rightarrow> 'p \<Rightarrow> ('p, 's) manager \<Rightarrow> 's option" where
  "application_for alive p m = last_member alive Application p m"

definition helper_for :: "('s \<Rightarrow> bool) \<Rightarrow> 'p \<Rightarrow> ('p, 's) manager \<Rightarrow> 's option" where
  "helper_for alive p m = last_member alive Helper p m"

definition providers_in :: "('s \<Rightarrow> bool) \<Rightarrow> 'p \<Rightarrow> ('p, 's) manager \<Rightarrow> 's list" where
  "providers_in alive p m =
     map fst (filter (\<lambda>(s, t). t = Prompt_provider \<and> alive s) (participants_in p (container m)))"

fun remove_providers ::
  "'p \<Rightarrow> 's list \<Rightarrow> ('p, 's) prompt_container \<Rightarrow> ('p, 's) prompt_call list \<times> ('p, 's) prompt_container" where
  "remove_providers p [] c = ([], c)"
| "remove_providers p (s # ss) c =
     (case remove_participant p s Prompt_provider c of (removed, c1) \<Rightarrow>
        (case remove_providers p ss c1 of (calls, c2) \<Rightarrow>
           ((if removed then [Provider_removed p s] else []) @ calls, c2)))"

definition stop_prompt_session_locked ::
  "('s \<Rightarrow> bool) \<Rightarrow> 'p \<Rightarrow> ('p, 's) manager \<Rightarrow> ('p, 's) prompt_call list \<times> ('p, 's) manager" where
  "stop_prompt_session_locked alive p m =
     (let (calls1, c1) = remove_providers p (providers_in alive p m) (container m);
          m1 = m\<lparr>container := c1\<rparr>;
          (calls2, st) = prompt_stop (helper_for alive p m1) (prompt_states m1 p)
      in (calls1 @ calls2 @ [Stopping p],
          m1\<lparr>prompt_states := (prompt_states m1)(p := st), container := remove_prompt_session p c1\<rparr>))"

fun remove_session_loop ::
  "('s \<Rightarrow> bool) \<Rightarrow> 's \<Rightarrow> ('p \<times> participant_type) list \<Rightarrow> ('p, 's) manager \<Rightarrow>
   ('p, 's) prompt_call list \<times> ('p, 's) manager" where
  "remove_session_loop alive s [] m = ([], m)"
| "remove_session_loop alive s ((p, ty) # ps) m =
     (let (calls1, m1) =
        (if ty = Helper then stop_prompt_session_locked alive p m
         else case remove_participant p s ty (container m) of (removed, c) \<Rightarrow>
           (if removed \<and> ty = Prompt_provider then [Provider_removed p s] else [], m\<lparr>container := c\<rparr>));
        (calls2, m2) = remove_session_loop alive s ps m1
      in (calls1 @ calls2, m2))"

definition remove_session ::
  "('s \<Rightarrow> bool) \<Rightarrow> 's \<Rightarrow> ('p :: linorder, 's) manager \<Rightarrow> ('p, 's) prompt_call list \<times> ('p, 's) manager" where
  "remove_session alive s m = remove_session_loop alive s (prompt_sessions_with s (container m)) m"

definition stop_prompt_session ::
  "('s \<Rightarrow> bool) \<Rightarrow> 'p \<Rightarrow> ('p, 's) manager \<Rightarrow> ('p, 's) prompt_call list \<times> ('p, 's) manager" where
  "stop_prompt_session alive p m = stop_prompt_session_locked alive p m"

definition suspend_prompt_session ::
  "('s \<Rightarrow> bool) \<Rightarrow> 'p \<Rightarrow> ('p, 's) manager \<Rightarrow> ('p, 's) prompt_call list \<times> ('p, 's) manager" where
  "suspend_prompt_session alive p m =
     (case prompt_suspend (helper_for alive p m) (prompt_states m p) of (calls, st) \<Rightarrow>
        (calls @ [Suspending p], m\<lparr>prompt_states := (prompt_states m)(p := st)\<rparr>))"

definition resume_prompt_session ::
  "('s \<Rightarrow> bool) \<Rightarrow> 'p \<Rightarrow> ('p, 's) manager \<Rightarrow> ('p, 's) prompt_call list \<times> ('p, 's) manager" where
  "resume_prompt_session alive p m =
     (case prompt_resume (helper_for alive p m) (prompt_states m p) of (calls, st) \<Rightarrow>
        (calls @ [Resuming p], m\<lparr>prompt_states := (prompt_states m)(p := st)\<rparr>))"

text \<open>The new prompt session is the object \<open>p\<close> that \<open>make_shared\<close> returns; \<open>pid_of\<close> is the process
  of a session.  The last session of the container with the process id wins.\<close>

definition start_prompt_session_for ::
  "('s \<Rightarrow> bool) \<Rightarrow> ('s \<Rightarrow> nat) \<Rightarrow> 's session_container \<Rightarrow> 'p \<Rightarrow> 's \<Rightarrow> nat \<Rightarrow> ('p, 's) manager \<Rightarrow>
   (('p, 's) manager, ('p, 's) prompt_call list) outcome" where
  "start_prompt_session_for alive pid_of apps p session application_pid m0 =
     (let m = m0\<lparr>prompt_states := (prompt_states m0)(p := Stopped)\<rparr> in
      case find_last (\<lambda>s. pid_of s = application_pid) apps of
        None \<Rightarrow> throw (Runtime_error ''Could not identify application session'') m
      | Some application \<Rightarrow>
          and_then (insert_participant alive p session Helper (insert_prompt_session p (container m)))
            (\<lambda>valid c1.
               if \<not> valid then throw (Runtime_error ''Could not set prompt session helper'') (m\<lparr>container := c1\<rparr>)
               else let (calls, st) = prompt_start (Some session) (prompt_states m p) in
                 and_then (insert_participant alive p application Application c1)
                   (\<lambda>_ c2. ret (calls @ [Starting p])
                              (m\<lparr>container := c2, prompt_states := (prompt_states m)(p := st)\<rparr>))
                   (\<lambda>c2. m\<lparr>container := c2, prompt_states := (prompt_states m)(p := st)\<rparr>))
            (\<lambda>c1. m\<lparr>container := c1\<rparr>))"

definition add_prompt_provider ::
  "('s \<Rightarrow> bool) \<Rightarrow> 'p \<Rightarrow> 's \<Rightarrow> ('p, 's) manager \<Rightarrow> (('p, 's) manager, ('p, 's) prompt_call list) outcome" where
  "add_prompt_provider alive p provider m =
     and_then (insert_participant alive p provider Prompt_provider (container m))
       (\<lambda>added c. ret (if added then [Provider_added p provider] else []) (m\<lparr>container := c\<rparr>))
       (\<lambda>c. m\<lparr>container := c\<rparr>)"

section \<open>Invariant\<close>

definition key_of :: "('p, 's) participant \<Rightarrow> 's \<times> participant_type \<times> 'p" where
  "key_of x = (member_session x, member_type x, in_session x)"

definition container_inv :: "('p, 's) prompt_container \<Rightarrow> bool" where
  "container_inv c \<longleftrightarrow> distinct (map key_of (participants c)) \<and>
     in_session ` set (participants c) \<subseteq> prompt_sessions c"

lemma same_key_of: "same_key p s ty x \<longleftrightarrow> key_of x = (s, ty, p)"
  by (auto simp: same_key_def key_of_def)

lemma container_inv_insert_prompt: "container_inv c \<Longrightarrow> container_inv (insert_prompt_session p c)"
  by (auto simp: container_inv_def insert_prompt_session_def)

lemma container_inv_remove_prompt: "container_inv c \<Longrightarrow> container_inv (remove_prompt_session p c)"
  by (auto simp: container_inv_def remove_prompt_session_def distinct_map_filter)

lemma container_inv_insert:
  "container_inv c \<Longrightarrow> container_inv (state_of (insert_participant alive p s ty c))"
  by (auto simp: container_inv_def insert_participant_def Let_def list_ex_iff same_key_of)
    (auto simp: key_of_def)

lemma container_inv_remove: "container_inv c \<Longrightarrow> container_inv (snd (remove_participant p s ty c))"
  by (auto simp: container_inv_def remove_participant_def distinct_map_filter)

lemma participants_remove:
  "participants (snd (remove_participant p s ty c)) = filter (\<lambda>x. \<not> same_key p s ty x) (participants c)"
  by (auto simp: remove_participant_def list_ex_iff intro!: filter_True [symmetric])

lemma prompt_sessions_remove [simp]:
  "prompt_sessions (snd (remove_participant p s ty c)) = prompt_sessions c"
  by (simp add: remove_participant_def)

lemma remove_providers_spec:
  "remove_providers p ss c = (calls, c') \<Longrightarrow>
   participants c' = filter (\<lambda>x. \<not> (\<exists>s\<in>set ss. same_key p s Prompt_provider x)) (participants c) \<and>
   prompt_sessions c' = prompt_sessions c"
proof (induction ss arbitrary: c calls c')
  case (Cons s ss)
  obtain b c1 where r: "remove_participant p s Prompt_provider c = (b, c1)" by (metis prod.exhaust)
  obtain calls2 c2 where r2: "remove_providers p ss c1 = (calls2, c2)" by (metis prod.exhaust)
  have "participants c1 = filter (\<lambda>x. \<not> same_key p s Prompt_provider x) (participants c)"
    "prompt_sessions c1 = prompt_sessions c"
    using participants_remove [of p s Prompt_provider c] prompt_sessions_remove [of p s Prompt_provider c] r by simp_all
  with Cons.IH [OF r2] Cons.prems r r2 show ?case by (auto intro: filter_cong)
qed simp

lemma stop_prompt_session_spec:
  assumes "stop_prompt_session_locked alive p m = (calls, m')"
  shows "participants (container m') = filter (\<lambda>x. in_session x \<noteq> p) (participants (container m))"
    "prompt_sessions (container m') = prompt_sessions (container m) - {p}"
    "prompt_states m' = (prompt_states m)(p := Stopped)"
proof -
  obtain calls1 c1 where r: "remove_providers p (providers_in alive p m) (container m) = (calls1, c1)"
    by (metis prod.exhaust)
  have "filter (\<lambda>x. in_session x \<noteq> p) (participants c1) = filter (\<lambda>x. in_session x \<noteq> p) (participants (container m))"
    using remove_providers_spec [OF r] by (auto simp: same_key_def intro: filter_cong)
  moreover have "prompt_sessions c1 = prompt_sessions (container m)" using remove_providers_spec [OF r] by simp
  moreover have "container m' = remove_prompt_session p c1" and st: "prompt_states m' = (prompt_states m)(p := Stopped)"
    using assms r by (auto simp: stop_prompt_session_locked_def Let_def prompt_stop_def split: if_splits)
  ultimately show "participants (container m') = filter (\<lambda>x. in_session x \<noteq> p) (participants (container m))"
    "prompt_sessions (container m') = prompt_sessions (container m) - {p}"
    "prompt_states m' = (prompt_states m)(p := Stopped)"
    by (simp_all add: remove_prompt_session_def)
qed

text \<open>What the loop of \<open>remove_session\<close> leaves: of the pairs it visits, a helped prompt session loses
  all its participants, another one loses this session.\<close>

lemma remove_session_loop_spec:
  assumes "remove_session_loop alive s ps m = (calls, m')"
  shows "participants (container m') = filter (\<lambda>x. \<not> ((in_session x, Helper) \<in> set ps \<or>
      (member_session x = s \<and> member_type x \<noteq> Helper \<and> (in_session x, member_type x) \<in> set ps))) (participants (container m)) \<and>
    prompt_sessions (container m') = prompt_sessions (container m) - {p. (p, Helper) \<in> set ps} \<and>
    prompt_states m' = (\<lambda>p. if (p, Helper) \<in> set ps then Stopped else prompt_states m p)"
  using assms
proof (induction ps arbitrary: m calls)
  case (Cons x ps)
  obtain p ty where x: "x = (p, ty)" by (cases x)
  show ?case
  proof (cases "ty = Helper")
    case True
    obtain calls1 m1 where r: "stop_prompt_session_locked alive p m = (calls1, m1)" by (metis prod.exhaust)
    obtain calls2 where "remove_session_loop alive s ps m1 = (calls2, m')"
      using Cons.prems True x r by (auto simp: Let_def split: prod.splits)
    from Cons.IH [OF this] stop_prompt_session_spec [OF r] show ?thesis
      using x True by (auto simp: fun_eq_iff intro: filter_cong)
  next
    case False
    obtain b c where r: "remove_participant p s ty (container m) = (b, c)" by (metis prod.exhaust)
    have c: "participants c = filter (\<lambda>x. \<not> same_key p s ty x) (participants (container m))"
      "prompt_sessions c = prompt_sessions (container m)"
      using participants_remove [of p s ty "container m"] prompt_sessions_remove [of p s ty "container m"] r by simp_all
    obtain calls2 where "remove_session_loop alive s ps (m\<lparr>container := c\<rparr>) = (calls2, m')"
      using Cons.prems False x r by (auto simp: Let_def split: prod.splits)
    from Cons.IH [OF this] c show ?thesis
      using x False by (auto simp: fun_eq_iff same_key_def intro: filter_cong)
  qed
qed simp

lemma set_prompt_sessions_with:
  assumes "container_inv c"
  shows "set (prompt_sessions_with s c) = {(in_session x, member_type x) | x. x \<in> set (participants c) \<and> member_session x = s}"
  using assms by (auto simp: prompt_sessions_with_def container_inv_def)

definition helps :: "'s \<Rightarrow> 'p \<Rightarrow> ('p, 's) prompt_container \<Rightarrow> bool" where
  "helps s p c \<longleftrightarrow> list_ex (same_key p s Helper) (participants c)"

lemma remove_session_spec:
  assumes "container_inv (container m)" "remove_session alive s m = (calls, m')"
  shows "participants (container m') =
      filter (\<lambda>x. member_session x \<noteq> s \<and> \<not> helps s (in_session x) (container m)) (participants (container m))"
    "prompt_sessions (container m') = {p \<in> prompt_sessions (container m). \<not> helps s p (container m)}"
    "prompt_states m' = (\<lambda>p. if helps s p (container m) then Stopped else prompt_states m p)"
proof -
  let ?ps = "prompt_sessions_with s (container m)"
  note loop = remove_session_loop_spec [OF assms(2) [unfolded remove_session_def]]
  have h: "(p, Helper) \<in> set ?ps \<longleftrightarrow> helps s p (container m)" for p
    by (auto simp: set_prompt_sessions_with [OF assms(1)] helps_def list_ex_iff same_key_def)
  have t: "(in_session x, member_type x) \<in> set ?ps" if "x \<in> set (participants (container m))" "member_session x = s" for x
    using that by (auto simp: set_prompt_sessions_with [OF assms(1)])
  have "((in_session x, Helper) \<in> set ?ps \<or>
      (member_session x = s \<and> member_type x \<noteq> Helper \<and> (in_session x, member_type x) \<in> set ?ps)) \<longleftrightarrow>
      \<not> (member_session x \<noteq> s \<and> \<not> helps s (in_session x) (container m))"
    if "x \<in> set (participants (container m))" for x
    using t [OF that] h by (cases "member_type x") auto
  then show "participants (container m') =
      filter (\<lambda>x. member_session x \<noteq> s \<and> \<not> helps s (in_session x) (container m)) (participants (container m))"
    using loop by (auto intro: filter_cong)
  show "prompt_sessions (container m') = {p \<in> prompt_sessions (container m). \<not> helps s p (container m)}"
    "prompt_states m' = (\<lambda>p. if helps s p (container m) then Stopped else prompt_states m p)"
    using loop h by auto
qed

section \<open>Running prompt sessions\<close>

definition helpers :: "'p \<Rightarrow> ('p, 's) prompt_container \<Rightarrow> ('p, 's) participant list" where
  "helpers p c = filter (\<lambda>x. in_session x = p \<and> member_type x = Helper) (participants c)"

text \<open>The prompt sessions in the container are the ones that run, and each has one helper.\<close>

definition manager_inv :: "('p, 's) manager \<Rightarrow> bool" where
  "manager_inv m \<longleftrightarrow> container_inv (container m) \<and>
     (\<forall>p. p \<in> prompt_sessions (container m) \<longleftrightarrow> prompt_states m p \<noteq> Stopped) \<and>
     (\<forall>p\<in>prompt_sessions (container m). length (helpers p (container m)) = 1)"

text \<open>The requests that reach the manager; a caller holds the sessions that it passes, so they are
  alive, and a new prompt session is a new object.\<close>

inductive manager_reachable :: "('p :: linorder, 's) manager \<Rightarrow> bool" where
  start: "manager_reachable make_manager"
| started: "manager_reachable m \<Longrightarrow> p \<notin> prompt_sessions (container m) \<Longrightarrow> alive session \<Longrightarrow>
    manager_reachable (state_of (start_prompt_session_for alive pid_of apps p session pid m))"
| provider: "manager_reachable m \<Longrightarrow> manager_reachable (state_of (add_prompt_provider alive p s m))"
| stopped: "manager_reachable m \<Longrightarrow> manager_reachable (snd (stop_prompt_session alive p m))"
| suspended: "manager_reachable m \<Longrightarrow> manager_reachable (snd (suspend_prompt_session alive p m))"
| resumed: "manager_reachable m \<Longrightarrow> manager_reachable (snd (resume_prompt_session alive p m))"
| removed: "manager_reachable m \<Longrightarrow> manager_reachable (snd (remove_session alive s m))"

lemma insert_participant_cases:
  assumes "p \<in> prompt_sessions c" "insert_participant alive p s ty c = (r, c')"
  shows "prompt_sessions c' = prompt_sessions c" "container_inv c \<Longrightarrow> container_inv c'"
    "ty \<noteq> Helper \<Longrightarrow> helpers q c' = helpers q c" "\<exists>b. r = Inr b"
proof -
  show "container_inv c \<Longrightarrow> container_inv c'"
    using container_inv_insert [of c alive p s ty] assms(2) by (simp add: state_of_def)
qed (use assms in \<open>auto simp: insert_participant_def Let_def ret_def throw_def helpers_def split: if_splits\<close>)

lemma insert_helper:
  assumes "container_inv c" "p \<notin> prompt_sessions c" "alive s"
  shows "\<exists>c'. insert_participant alive p s Helper (insert_prompt_session p c) = ret True c' \<and>
    prompt_sessions c' = insert p (prompt_sessions c) \<and> container_inv c' \<and>
    (\<forall>q. length (helpers q c') = (if q = p then 1 else length (helpers q c)))"
proof -
  let ?c = "insert_prompt_session p c"
  have nop: "\<forall>x\<in>set (participants c). in_session x \<noteq> p"
    using assms(1,2) by (auto simp: container_inv_def)
  then have "\<not> list_ex (same_key p s Helper) (participants c)" by (auto simp: list_ex_iff same_key_def)
  moreover have "helpers p c = []" using nop by (auto simp: helpers_def filter_empty_conv)
  moreover have "container_inv (state_of (insert_participant alive p s Helper ?c))"
    by (intro container_inv_insert container_inv_insert_prompt assms(1))
  ultimately show ?thesis
    using assms(3)
    by (auto simp: insert_participant_def insert_prompt_session_def Let_def helpers_def)
qed

lemma manager_inv_start:
  assumes "manager_inv m" "p \<notin> prompt_sessions (container m)" "alive session"
  shows "manager_inv (state_of (start_prompt_session_for alive pid_of apps p session pid m))"
proof (cases "find_last (\<lambda>s. pid_of s = pid) apps")
  case None
  with assms show ?thesis by (auto simp: start_prompt_session_for_def manager_inv_def Let_def)
next
  case (Some app)
  have inv: "container_inv (container m)" using assms(1) by (simp add: manager_inv_def)
  from insert_helper [OF inv assms(2), of alive, OF assms(3)] obtain c1 where
    c1: "insert_participant alive p session Helper (insert_prompt_session p (container m)) = ret True c1"
      "prompt_sessions c1 = insert p (prompt_sessions (container m))" "container_inv c1"
      "\<forall>q. length (helpers q c1) = (if q = p then 1 else length (helpers q (container m)))" by blast
  obtain r c2 where i: "insert_participant alive p app Application c1 = (r, c2)" by (metis prod.exhaust)
  have p: "p \<in> prompt_sessions c1" using c1(2) by simp
  note c2 = insert_participant_cases [OF p i]
  obtain b where r: "r = Inr b" using c2(4) by blast
  have "state_of (start_prompt_session_for alive pid_of apps p session pid m) =
      m\<lparr>container := c2, prompt_states := (prompt_states m)(p := Started)\<rparr>"
    by (simp add: start_prompt_session_for_def Some c1(1) Let_def prompt_start_def i r)
      (simp add: and_then_def state_of_def ret_def)
  then show ?thesis
    using assms(1) c1 c2 by (auto simp: manager_inv_def)
qed

lemma helpers_remove_session:
  assumes "container_inv (container m)" "remove_session alive s m = (calls, m')" "\<not> helps s p (container m)"
  shows "helpers p (container m') = helpers p (container m)"
proof -
  have "member_session x \<noteq> s" if "x \<in> set (participants (container m))" "in_session x = p" "member_type x = Helper" for x
    using that assms(3) by (auto simp: helps_def list_ex_iff same_key_def)
  with assms(3) show ?thesis
    unfolding helpers_def remove_session_spec(1) [OF assms(1,2)] by (auto intro: filter_cong)
qed

lemma manager_inv_remove_session:
  assumes "manager_inv m"
  shows "manager_inv (snd (remove_session alive s m))"
proof -
  obtain calls m' where r: "remove_session alive s m = (calls, m')" by (metis prod.exhaust)
  have c: "container_inv (container m)" using assms by (simp add: manager_inv_def)
  note spec = remove_session_spec [OF c r]
  have "container_inv (container m')"
    using c unfolding container_inv_def spec(1,2) by (auto simp: distinct_map_filter)
  with assms spec helpers_remove_session [OF c r] show ?thesis by (auto simp: manager_inv_def r)
qed

lemma manager_inv_stop:
  assumes "manager_inv m"
  shows "manager_inv (snd (stop_prompt_session alive p m))"
proof -
  obtain calls m' where r: "stop_prompt_session_locked alive p m = (calls, m')" by (metis prod.exhaust)
  note spec = stop_prompt_session_spec [OF r]
  have "helpers q (container m') = helpers q (container m)" if "q \<noteq> p" for q
    using that by (auto simp: helpers_def spec(1) intro: filter_cong)
  moreover have "container_inv (container m')"
    using assms by (auto simp: manager_inv_def container_inv_def spec(1,2) distinct_map_filter)
  ultimately show ?thesis
    using assms spec by (auto simp: manager_inv_def stop_prompt_session_def r)
qed

lemma manager_inv_provider:
  assumes "manager_inv m"
  shows "manager_inv (state_of (add_prompt_provider alive p s m))"
proof (cases "p \<in> prompt_sessions (container m)")
  case True
  obtain r c where i: "insert_participant alive p s Prompt_provider (container m) = (r, c)" by (metis prod.exhaust)
  note ic = insert_participant_cases [OF True i]
  obtain b where "r = Inr b" using ic(4) by blast
  with assms ic i show ?thesis
    by (auto simp: add_prompt_provider_def and_then_def ret_def state_of_def manager_inv_def)
next
  case False
  with assms show ?thesis by (simp add: add_prompt_provider_def insert_participant_def)
qed

lemma manager_reachable_inv: "manager_reachable m \<Longrightarrow> manager_inv m"
proof (induction rule: manager_reachable.induct)
  case start
  show ?case by (simp add: manager_inv_def make_manager_def empty_container_def container_inv_def)
next
  case (suspended m alive p)
  then show ?case
    by (auto simp: suspend_prompt_session_def prompt_suspend_def manager_inv_def split: prod.splits if_splits)
next
  case (resumed m alive p)
  then show ?case
    by (auto simp: resume_prompt_session_def prompt_resume_def manager_inv_def split: prod.splits if_splits)
qed (simp_all add: manager_inv_start manager_inv_provider manager_inv_stop manager_inv_remove_session)

section \<open>Properties\<close>

text \<open>C17: Whatever requests reach the manager, the prompt sessions in its container are exactly the ones
  that are started or suspended, each of them has exactly one helper, every participant belongs to a
  prompt session of the container, and no session takes part twice in the same role.\<close>
theorem prompt_sessions_are_the_running_ones:
  assumes "manager_reachable m"
  shows "(p \<in> prompt_sessions (container m) \<longleftrightarrow> prompt_states m p \<noteq> Stopped) \<and>
    (p \<in> prompt_sessions (container m) \<longrightarrow> length (helpers p (container m)) = 1) \<and>
    in_session ` set (participants (container m)) \<subseteq> prompt_sessions (container m) \<and>
    distinct (map key_of (participants (container m)))"
  using manager_reachable_inv [OF assms] by (auto simp: manager_inv_def container_inv_def)

theorem prompt_sessions_are_the_running_ones_witness:
  "length (helpers 1 (container (state_of (start_prompt_session_for (\<lambda>_. True) id [5::nat] (1::nat) 6 5
     make_manager)))) = 1"
proof -
  let ?m = "state_of (start_prompt_session_for (\<lambda>_. True) id [5::nat] (1::nat) 6 5 make_manager)"
  have "manager_reachable ?m"
    by (intro manager_reachable.intros) (simp_all add: make_manager_def empty_container_def)
  moreover have "1 \<in> prompt_sessions (container ?m)"
    by (simp add: start_prompt_session_for_def make_manager_def empty_container_def find_last_def
        insert_participant_def insert_prompt_session_def Let_def prompt_start_def same_key_def)
  ultimately show ?thesis using prompt_sessions_are_the_running_ones [of ?m 1] by blast
qed

text \<open>When a session goes away, it takes part in no prompt session any more; the prompt sessions it
  helped are stopped and lose all their participants; nothing else changes.\<close>
theorem remove_session_cleans_up:
  assumes "manager_reachable m"
  shows "participants (container (snd (remove_session alive s m))) =
      filter (\<lambda>x. member_session x \<noteq> s \<and> \<not> helps s (in_session x) (container m)) (participants (container m)) \<and>
    prompt_sessions (container (snd (remove_session alive s m))) =
      {p \<in> prompt_sessions (container m). \<not> helps s p (container m)} \<and>
    prompt_states (snd (remove_session alive s m)) =
      (\<lambda>p. if helps s p (container m) then Stopped else prompt_states m p)"
proof -
  have inv: "container_inv (container m)" using manager_reachable_inv [OF assms] by (simp add: manager_inv_def)
  obtain calls m' where r: "remove_session alive s m = (calls, m')" by (metis prod.exhaust)
  from remove_session_spec [OF inv r] show ?thesis by (simp add: r)
qed

theorem remove_session_cleans_up_witness:
  "prompt_sessions (container (snd (remove_session (\<lambda>_. True) 6 (state_of
     (start_prompt_session_for (\<lambda>_. True) id [5::nat] (1::nat) 6 5 make_manager))))) = {}"
proof -
  let ?m = "state_of (start_prompt_session_for (\<lambda>_. True) id [5::nat] (1::nat) 6 5 make_manager)"
  have "manager_reachable ?m"
    by (intro manager_reachable.intros) (simp_all add: make_manager_def empty_container_def)
  moreover have "prompt_sessions (container ?m) = {1}" "helps 6 1 (container ?m)"
    by (simp_all add: start_prompt_session_for_def make_manager_def empty_container_def find_last_def
        insert_participant_def insert_prompt_session_def Let_def prompt_start_def same_key_def helps_def)
  ultimately show ?thesis using remove_session_cleans_up [of ?m "\<lambda>_. True" 6] by auto
qed

end
