(* ===== verification/Basic_Surface.thy ===== *)
theory Basic_Surface
  imports Stream_Model Observer_List Window_Info Occlusion
begin

unbundle bit_operations_syntax

text \<open>
  \<open>scene::BasicSurface\<close> (\<open>src/server/scene/basic_surface.cpp\<close>): a surface of the scene with its
  position and size, its attributes, the buffer streams it shows, its input region and its cursor.  Every
  operation returns the notifications that it sends to the registered surface observers, in order.

  Streams are shared objects: a surface knows them by their address in a store of streams, and the
  operations that act on its streams change the store.  The frame callback installed on a stream is
  known by a number: 0 is the function that does nothing, and each surface has two callbacks of its own,
  one for its layers and one for its cursor stream.  Attributes are the integers of the C enumerations.
  Single precision values are rationals, which the code only stores.  Reports are logging only.
\<close>

section \<open>State\<close>

datatype reception_mode = Reception_normal | Receives_all_input

datatype window_attrib =
    Attrib_type | Attrib_state | Attrib_swapinterval | Attrib_focus | Attrib_dpi | Attrib_visibility
  | Attrib_preferred_orientation | Attrib_other int

abbreviation mir_window_types :: int where "mir_window_types \<equiv> 10"
abbreviation mir_window_states :: int where "mir_window_states \<equiv> 9"
abbreviation focus_state_unfocused :: int where "focus_state_unfocused \<equiv> 0"
abbreviation focus_state_focused :: int where "focus_state_focused \<equiv> 1"
abbreviation visibility_occluded :: int where "visibility_occluded \<equiv> 0"
abbreviation visibility_exposed :: int where "visibility_exposed \<equiv> 1"

record stream_info =
  si_stream :: nat
  si_displacement :: displacement
  si_size :: "extent option"

record margins =
  margin_top :: int
  margin_left :: int
  margin_bottom :: int
  margin_right :: int

record cursor_adapter =
  adapter_stream :: "nat option"
  adapter_hotspot :: displacement

record ('k, 'o) basic_surface =
  surface_id :: nat
  surface_name :: string
  surface_rect :: rectangle
  transformation_matrix :: "rat list"
  surface_alpha :: rat
  hidden :: bool
  input_mode :: reception_mode
  custom_input_rectangles :: "rectangle list"
  surface_buffer_stream :: nat
  cursor_image_of :: "'k option"
  surface_parent :: "nat option"
  layers :: "stream_info list"
  type_attrib :: int
  state_attrib :: int
  swapinterval :: int
  focus_attrib :: int
  dpi_attrib :: int
  visibility_attrib :: int
  pref_orientation_mode :: int
  confine_pointer_state :: pointer_confinement
  cursor_stream_adapter :: cursor_adapter
  surface_depth :: depth_layer
  clip_area :: "rectangle option"
  application_id :: string
  surface_margins :: margins
  surface_observers :: "'o thread_safe_list"

datatype ('k, 'e) surface_event =
    Attrib_changed window_attrib int
  | Window_resized_to extent
  | Content_resized_to extent
  | Moved_to point
  | Hidden_set_to bool
  | Frame_posted int extent
  | Alpha_set_to rat
  | Orientation_set_to int
  | Transformation_set_to "rat list"
  | Reception_mode_set_to reception_mode
  | Cursor_image_set_to 'k
  | Cursor_image_removed
  | Client_surface_close_requested
  | Keymap_changed int string string string string
  | Renamed string
  | Placed_relative rectangle
  | Input_consumed 'e
  | Start_drag_and_drop "nat list"
  | Depth_layer_set_to depth_layer
  | Application_id_set_to string

type_synonym ('b, 'c) stream_store = "nat \<Rightarrow> ('b, 'c) stream"
type_synonym ('k, 'o, 'b, 'c) surface_state = "('k, 'o) basic_surface \<times> ('b, 'c) stream_store"
type_synonym ('k, 'e, 'o) surface_notes = "('o \<times> ('k, 'e) surface_event) list"

text \<open>\<open>SurfaceObservers\<close> forwards every event to each registered observer.\<close>

definition tell_observers :: "('k, 'o) basic_surface \<Rightarrow> ('k, 'e) surface_event \<Rightarrow> ('k, 'e, 'o) surface_notes" where
  "tell_observers s ev = map (\<lambda>ob. (ob, ev)) (list_for_each (surface_observers s))"

section \<open>Construction\<close>

definition surface_callback :: "nat \<Rightarrow> nat" where
  "surface_callback i = 2 * i + 1"

definition cursor_callback :: "nat \<Rightarrow> nat" where
  "cursor_callback i = 2 * i + 2"

text \<open>The loops that install one callback on the stream of every layer.\<close>

definition set_callbacks :: "nat \<Rightarrow> stream_info list \<Rightarrow> ('b, 'c) stream_store \<Rightarrow> ('b, 'c) stream_store" where
  "set_callbacks cb ls h = fold (\<lambda>l h. h(si_stream l := set_frame_posted_callback cb (h (si_stream l)))) ls h"

definition default_stream :: "stream_info list \<Rightarrow> exn + nat" where
  "default_stream ls = (if ls = [] then Inl (Logic_error ''Surface must have content'') else Inr (si_stream (hd ls)))"

definition make_basic_surface ::
  "nat \<Rightarrow> string \<Rightarrow> rectangle \<Rightarrow> nat option \<Rightarrow> pointer_confinement \<Rightarrow> stream_info list \<Rightarrow> 'k option \<Rightarrow>
   ('b, 'c) stream_store \<Rightarrow> exn + ('k, 'o, 'b, 'c) surface_state" where
  "make_basic_surface i nm rect par cps ls cursor h =
     (case default_stream ls of Inl e \<Rightarrow> Inl e
      | Inr st \<Rightarrow> Inr
         (\<lparr>surface_id = i, surface_name = nm, surface_rect = rect, transformation_matrix = identity_mat4,
           surface_alpha = 1, hidden = False, input_mode = Reception_normal, custom_input_rectangles = [],
           surface_buffer_stream = st, cursor_image_of = cursor, surface_parent = par, layers = ls,
           type_attrib = 0, state_attrib = 1, swapinterval = 1, focus_attrib = focus_state_unfocused,
           dpi_attrib = 0, visibility_attrib = visibility_occluded, pref_orientation_mode = 15,
           confine_pointer_state = cps,
           cursor_stream_adapter = \<lparr>adapter_stream = None, adapter_hotspot = Displacement 0 0\<rparr>,
           surface_depth = Layer_application, clip_area = None, application_id = [],
           surface_margins = \<lparr>margin_top = 0, margin_left = 0, margin_bottom = 0, margin_right = 0\<rparr>,
           surface_observers = empty_list_items\<rparr>,
          set_callbacks (surface_callback i) ls h))"

definition destroy_surface :: "('k, 'o) basic_surface \<Rightarrow> ('b, 'c) stream_store \<Rightarrow> ('b, 'c) stream_store" where
  "destroy_surface s h = set_callbacks 0 (layers s) h"

section \<open>Geometry\<close>

definition content_size :: "('k, 'o) basic_surface \<Rightarrow> extent" where
  "content_size s = (let m = surface_margins s; sz = rsize (surface_rect s) in
     Size (max (width sz - margin_left m - margin_right m) 1)
          (max (height sz - margin_top m - margin_bottom m) 1))"

definition content_offset :: "('k, 'o) basic_surface \<Rightarrow> displacement" where
  "content_offset s = Displacement (margin_left (surface_margins s)) (margin_top (surface_margins s))"

definition content_top_left :: "('k, 'o) basic_surface \<Rightarrow> point" where
  "content_top_left s = point_plus (top_left (surface_rect s))
     (Displacement (margin_left (surface_margins s)) (margin_top (surface_margins s)))"

definition move_to :: "point \<Rightarrow> ('k, 'o) basic_surface \<Rightarrow> ('k, 'o) basic_surface \<times> ('k, 'e, 'o) surface_notes" where
  "move_to p s = (let s' = s\<lparr>surface_rect := (surface_rect s)\<lparr>top_left := p\<rparr>\<rparr> in (s', tell_observers s' (Moved_to p)))"

definition resize :: "extent \<Rightarrow> ('k, 'o) basic_surface \<Rightarrow> ('k, 'o) basic_surface \<times> ('k, 'e, 'o) surface_notes" where
  "resize desired_size s =
     (let new_size = Size (if width desired_size \<le> 0 then 1 else width desired_size)
                          (if height desired_size \<le> 0 then 1 else height desired_size)
      in if new_size \<noteq> rsize (surface_rect s)
         then let s' = s\<lparr>surface_rect := (surface_rect s)\<lparr>rsize := new_size\<rparr>\<rparr>
              in (s', tell_observers s' (Window_resized_to new_size) @ tell_observers s' (Content_resized_to (content_size s')))
         else (s, []))"

definition set_window_margins ::
  "int \<Rightarrow> int \<Rightarrow> int \<Rightarrow> int \<Rightarrow> ('k, 'o) basic_surface \<Rightarrow> ('k, 'o) basic_surface \<times> ('k, 'e, 'o) surface_notes" where
  "set_window_margins top0 left0 bottom0 right0 s =
     (let m = \<lparr>margin_top = max top0 0, margin_left = max left0 0, margin_bottom = max bottom0 0, margin_right = max right0 0\<rparr>
      in if m \<noteq> surface_margins s
         then let s' = s\<lparr>surface_margins := m\<rparr> in (s', tell_observers s' (Content_resized_to (content_size s')))
         else (s, []))"

definition set_clip_area :: "rectangle option \<Rightarrow> ('k, 'o) basic_surface \<Rightarrow> ('k, 'o) basic_surface" where
  "set_clip_area area s = s\<lparr>clip_area := area\<rparr>"

section \<open>Visibility and input\<close>

definition set_hidden :: "bool \<Rightarrow> ('k, 'o) basic_surface \<Rightarrow> ('k, 'o) basic_surface \<times> ('k, 'e, 'o) surface_notes" where
  "set_hidden hide s = (let s' = s\<lparr>hidden := hide\<rparr> in (s', tell_observers s' (Hidden_set_to hide)))"

definition hide_surface :: "('k, 'o) basic_surface \<Rightarrow> ('k, 'o) basic_surface \<times> ('k, 'e, 'o) surface_notes" where
  "hide_surface s = set_hidden True s"

definition show_surface :: "('k, 'o) basic_surface \<Rightarrow> ('k, 'o) basic_surface \<times> ('k, 'e, 'o) surface_notes" where
  "show_surface s = set_hidden False s"

definition surface_visible :: "('k, 'o, 'b, 'c) surface_state \<Rightarrow> bool" where
  "surface_visible sh = (case sh of (s, h) \<Rightarrow>
     \<not> hidden s \<and> list_ex (\<lambda>l. has_submitted_buffer (h (si_stream l))) (layers s))"

definition input_bounds :: "('k, 'o) basic_surface \<Rightarrow> rectangle" where
  "input_bounds s = Rectangle (content_top_left s) (content_size s)"

definition set_input_region :: "rectangle list \<Rightarrow> ('k, 'o) basic_surface \<Rightarrow> ('k, 'o) basic_surface" where
  "set_input_region rs s = s\<lparr>custom_input_rectangles := rs\<rparr>"

definition surface_input_area_contains :: "point \<Rightarrow> ('k, 'o, 'b, 'c) surface_state \<Rightarrow> bool" where
  "surface_input_area_contains p sh = (case sh of (s, h) \<Rightarrow>
     if \<not> surface_visible (s, h) then False
     else if (case clip_area s of Some c \<Rightarrow> \<not> contains_point c p | None \<Rightarrow> False) then False
     else if custom_input_rectangles s = []
     then contains_point (Rectangle (content_top_left s) (content_size s)) p
     else let d = point_diff p (content_top_left s); local_point = Point (dx d) (dy d)
          in list_ex (\<lambda>r. contains_point r local_point) (custom_input_rectangles s))"

definition set_reception_mode :: "reception_mode \<Rightarrow> ('k, 'o) basic_surface \<Rightarrow> ('k, 'o) basic_surface \<times> ('k, 'e, 'o) surface_notes" where
  "set_reception_mode m s = (let s' = s\<lparr>input_mode := m\<rparr> in (s', tell_observers s' (Reception_mode_set_to m)))"

definition consume :: "'e \<Rightarrow> ('k, 'o) basic_surface \<Rightarrow> ('k, 'e, 'o) surface_notes" where
  "consume ev s = tell_observers s (Input_consumed ev)"

definition set_confine_pointer_state :: "pointer_confinement \<Rightarrow> ('k, 'o) basic_surface \<Rightarrow> ('k, 'o) basic_surface" where
  "set_confine_pointer_state st s = s\<lparr>confine_pointer_state := st\<rparr>"

section \<open>Attributes\<close>

definition surface_set_type :: "int \<Rightarrow> ('k, 'o) basic_surface \<Rightarrow> (('k, 'o) basic_surface, ('k, 'e, 'o) surface_notes) outcome" where
  "surface_set_type t s =
     (if t < 0 \<or> t \<ge> mir_window_types then throw (Logic_error ''Invalid surface type.'') s
      else if type_attrib s \<noteq> t
      then let s' = s\<lparr>type_attrib := t\<rparr> in ret (tell_observers s' (Attrib_changed Attrib_type t)) s'
      else ret [] s)"

definition surface_set_state :: "int \<Rightarrow> ('k, 'o) basic_surface \<Rightarrow> (('k, 'o) basic_surface, ('k, 'e, 'o) surface_notes) outcome" where
  "surface_set_state v s =
     (if v < 0 \<or> v \<ge> mir_window_states then throw (Logic_error ''Invalid surface state.'') s
      else if state_attrib s \<noteq> v
      then let s' = s\<lparr>state_attrib := v\<rparr> in ret (tell_observers s' (Attrib_changed Attrib_state v)) s'
      else ret [] s)"

definition set_focus_state :: "int \<Rightarrow> ('k, 'o) basic_surface \<Rightarrow> (('k, 'o) basic_surface, ('k, 'e, 'o) surface_notes) outcome" where
  "set_focus_state v s =
     (if v \<noteq> focus_state_focused \<and> v \<noteq> focus_state_unfocused then throw (Logic_error ''Invalid focus state.'') s
      else if focus_attrib s \<noteq> v
      then let s' = s\<lparr>focus_attrib := v\<rparr> in ret (tell_observers s' (Attrib_changed Attrib_focus v)) s'
      else ret [] s)"

definition set_dpi :: "int \<Rightarrow> ('k, 'o) basic_surface \<Rightarrow> (('k, 'o) basic_surface, ('k, 'e, 'o) surface_notes) outcome" where
  "set_dpi v s =
     (if v < 0 then throw (Logic_error ''Invalid DPI value'') s
      else if dpi_attrib s \<noteq> v
      then let s' = s\<lparr>dpi_attrib := v\<rparr> in ret (tell_observers s' (Attrib_changed Attrib_dpi v)) s'
      else ret [] s)"

definition set_preferred_orientation ::
  "int \<Rightarrow> ('k, 'o) basic_surface \<Rightarrow> (('k, 'o) basic_surface, ('k, 'e, 'o) surface_notes) outcome" where
  "set_preferred_orientation v s =
     (if v AND 15 = 0 then throw (Logic_error ''Invalid orientation mode'') s
      else if pref_orientation_mode s \<noteq> v
      then let s' = s\<lparr>pref_orientation_mode := v\<rparr>
           in ret (tell_observers s' (Attrib_changed Attrib_preferred_orientation v)) s'
      else ret [] s)"

text \<open>Calling an operation on the stream of each layer in turn; a throw ends the loop.\<close>

fun on_layers ::
  "(('b, 'c) stream \<Rightarrow> (('b, 'c) stream, unit) outcome) \<Rightarrow> stream_info list \<Rightarrow> ('b, 'c) stream_store \<Rightarrow>
   (('b, 'c) stream_store, unit) outcome" where
  "on_layers f [] h = ret () h"
| "on_layers f (l # ls) h =
     and_then (f (h (si_stream l))) (\<lambda>_ st. on_layers f ls (h(si_stream l := st))) (\<lambda>st. h(si_stream l := st))"

definition set_swap_interval ::
  "int \<Rightarrow> ('k, 'o, 'b, 'c) surface_state \<Rightarrow> (('k, 'o, 'b, 'c) surface_state, ('k, 'e, 'o) surface_notes) outcome" where
  "set_swap_interval v sh = (case sh of (s, h) \<Rightarrow>
     if v < 0 then throw (Logic_error ''Invalid swapinterval'') (s, h)
     else if swapinterval s \<noteq> v
     then let s' = s\<lparr>swapinterval := v\<rparr> in
          and_then (on_layers (allow_framedropping (v = 0)) (layers s') h)
            (\<lambda>_ h'. ret (tell_observers s' (Attrib_changed Attrib_swapinterval v)) (s', h')) (\<lambda>h'. (s', h'))
     else ret [] (s, h))"

definition set_visibility ::
  "int \<Rightarrow> ('k, 'o, 'b, 'c) surface_state \<Rightarrow> (('k, 'o, 'b, 'c) surface_state, ('k, 'e, 'o) surface_notes) outcome" where
  "set_visibility v sh = (case sh of (s, h) \<Rightarrow>
     if v \<noteq> visibility_occluded \<and> v \<noteq> visibility_exposed then throw (Logic_error ''Invalid visibility value'') (s, h)
     else if visibility_attrib s \<noteq> v
     then let s' = s\<lparr>visibility_attrib := v\<rparr> in
          and_then (if v = visibility_exposed then on_layers drop_old_buffers (layers s') h else ret () h)
            (\<lambda>_ h'. ret (tell_observers s' (Attrib_changed Attrib_visibility v)) (s', h')) (\<lambda>h'. (s', h'))
     else ret [] (s, h))"

text \<open>An operation on the surface alone leaves the streams as they are.\<close>

definition on_surface ::
  "(('k, 'o) basic_surface \<Rightarrow> (('k, 'o) basic_surface, 'a) outcome) \<Rightarrow> ('k, 'o, 'b, 'c) surface_state \<Rightarrow>
   (('k, 'o, 'b, 'c) surface_state, 'a) outcome" where
  "on_surface f sh = (case sh of (s, h) \<Rightarrow> case f s of (r, s') \<Rightarrow> (r, (s', h)))"

text \<open>\<open>configure\<close> returns the value that the attribute now has, with the notifications it sent.\<close>

definition configure ::
  "window_attrib \<Rightarrow> int \<Rightarrow> ('k, 'o, 'b, 'c) surface_state \<Rightarrow>
   (('k, 'o, 'b, 'c) surface_state, int \<times> ('k, 'e, 'o) surface_notes) outcome" where
  "configure attrib value sh =
     and_then (case attrib of
         Attrib_type \<Rightarrow> on_surface (surface_set_type value) sh
       | Attrib_state \<Rightarrow> on_surface (surface_set_state value) sh
       | Attrib_focus \<Rightarrow> on_surface (set_focus_state value) sh
       | Attrib_swapinterval \<Rightarrow> set_swap_interval value sh
       | Attrib_dpi \<Rightarrow> on_surface (set_dpi value) sh
       | Attrib_visibility \<Rightarrow> set_visibility value sh
       | Attrib_preferred_orientation \<Rightarrow> on_surface (set_preferred_orientation value) sh
       | Attrib_other n \<Rightarrow> throw (Logic_error ''Invalid surface attribute.'') sh)
     (\<lambda>ns sh'. ret (value, ns) sh') id"

definition query :: "window_attrib \<Rightarrow> ('k, 'o) basic_surface \<Rightarrow> exn + int" where
  "query attrib s = (case attrib of
       Attrib_type \<Rightarrow> Inr (type_attrib s)
     | Attrib_state \<Rightarrow> Inr (state_attrib s)
     | Attrib_swapinterval \<Rightarrow> Inr (swapinterval s)
     | Attrib_focus \<Rightarrow> Inr (focus_attrib s)
     | Attrib_dpi \<Rightarrow> Inr (dpi_attrib s)
     | Attrib_visibility \<Rightarrow> Inr (visibility_attrib s)
     | Attrib_preferred_orientation \<Rightarrow> Inr (pref_orientation_mode s)
     | Attrib_other n \<Rightarrow> Inl (Logic_error ''Invalid surface attribute.''))"

section \<open>Other properties of the surface\<close>

definition set_alpha :: "rat \<Rightarrow> ('k, 'o) basic_surface \<Rightarrow> ('k, 'o) basic_surface \<times> ('k, 'e, 'o) surface_notes" where
  "set_alpha a s = (let s' = s\<lparr>surface_alpha := a\<rparr> in (s', tell_observers s' (Alpha_set_to a)))"

definition set_orientation :: "int \<Rightarrow> ('k, 'o) basic_surface \<Rightarrow> ('k, 'e, 'o) surface_notes" where
  "set_orientation v s = tell_observers s (Orientation_set_to v)"

definition set_transformation :: "rat list \<Rightarrow> ('k, 'o) basic_surface \<Rightarrow> ('k, 'o) basic_surface \<times> ('k, 'e, 'o) surface_notes" where
  "set_transformation t s = (let s' = s\<lparr>transformation_matrix := t\<rparr> in (s', tell_observers s' (Transformation_set_to t)))"

definition rename_surface :: "string \<Rightarrow> ('k, 'o) basic_surface \<Rightarrow> ('k, 'o) basic_surface \<times> ('k, 'e, 'o) surface_notes" where
  "rename_surface title s =
     (if surface_name s \<noteq> title then let s' = s\<lparr>surface_name := title\<rparr> in (s', tell_observers s' (Renamed title)) else (s, []))"

definition set_depth_layer :: "depth_layer \<Rightarrow> ('k, 'o) basic_surface \<Rightarrow> ('k, 'o) basic_surface \<times> ('k, 'e, 'o) surface_notes" where
  "set_depth_layer d s = (let s' = s\<lparr>surface_depth := d\<rparr> in (s', tell_observers s' (Depth_layer_set_to d)))"

definition set_application_id :: "string \<Rightarrow> ('k, 'o) basic_surface \<Rightarrow> ('k, 'o) basic_surface \<times> ('k, 'e, 'o) surface_notes" where
  "set_application_id i s =
     (if application_id s \<noteq> i then let s' = s\<lparr>application_id := i\<rparr> in (s', tell_observers s' (Application_id_set_to i)) else (s, []))"

definition request_client_surface_close :: "('k, 'o) basic_surface \<Rightarrow> ('k, 'e, 'o) surface_notes" where
  "request_client_surface_close s = tell_observers s Client_surface_close_requested"

definition set_keymap :: "int \<Rightarrow> string \<Rightarrow> string \<Rightarrow> string \<Rightarrow> string \<Rightarrow> ('k, 'o) basic_surface \<Rightarrow> ('k, 'e, 'o) surface_notes" where
  "set_keymap i model lay variant opts s = tell_observers s (Keymap_changed i model lay variant opts)"

definition placed_relative :: "rectangle \<Rightarrow> ('k, 'o) basic_surface \<Rightarrow> ('k, 'e, 'o) surface_notes" where
  "placed_relative r s = tell_observers s (Placed_relative r)"

definition start_drag_and_drop :: "nat list \<Rightarrow> ('k, 'o) basic_surface \<Rightarrow> ('k, 'e, 'o) surface_notes" where
  "start_drag_and_drop handle s = tell_observers s (Start_drag_and_drop handle)"

definition surface_add_observer :: "'o \<Rightarrow> ('k, 'o) basic_surface \<Rightarrow> ('k, 'o) basic_surface" where
  "surface_add_observer ob s = s\<lparr>surface_observers := list_add (surface_observers s) ob\<rparr>"

text \<open>The argument is the outcome of locking the weak pointer to the observer.\<close>

definition surface_remove_observer :: "'o option \<Rightarrow> ('k, 'o) basic_surface \<Rightarrow> (('k, 'o) basic_surface, unit) outcome" where
  "surface_remove_observer ob s = (case ob of
     None \<Rightarrow> throw (Runtime_error ''Invalid observer (previously destroyed)'') s
   | Some o' \<Rightarrow> ret () (s\<lparr>surface_observers := list_remove (surface_observers s) o'\<rparr>))"

section \<open>Streams and rendering\<close>

definition set_streams ::
  "stream_info list \<Rightarrow> ('k, 'o, 'b, 'c) surface_state \<Rightarrow> ('k, 'o, 'b, 'c) surface_state \<times> ('k, 'e, 'o) surface_notes" where
  "set_streams ls sh = (case sh of (s, h) \<Rightarrow>
     let h1 = set_callbacks 0 (layers s) h;
         s' = s\<lparr>layers := ls\<rparr>;
         h2 = set_callbacks (surface_callback (surface_id s)) ls h1
     in ((s', h2), tell_observers s' (Moved_to (top_left (surface_rect s')))))"

definition surface_buffers_ready :: "'c \<Rightarrow> ('k, 'o, 'b, 'c) surface_state \<Rightarrow> int" where
  "surface_buffers_ready i sh = (case sh of (s, h) \<Rightarrow>
     fold (\<lambda>l max_buf. max max_buf (buffers_ready_for_compositor i (h (si_stream l)))) (layers s) 0)"

text \<open>
  A \<open>SurfaceSnapshot\<close>: the renderable that the occlusion filter and the renderer see, and the stream that
  buffers are taken from.  \<open>has_alpha\<close> is \<open>mg::contains_alpha\<close> of a pixel format.
\<close>

record snapshot =
  snapshot_renderable :: renderable
  snapshot_stream :: nat

definition make_snapshot ::
  "(nat \<Rightarrow> bool) \<Rightarrow> ('k, 'o) basic_surface \<Rightarrow> ('b, 'c) stream_store \<Rightarrow> stream_info \<Rightarrow> snapshot" where
  "make_snapshot has_alpha s h l =
     (let sz = (case si_size l of Some z \<Rightarrow> z | None \<Rightarrow> stream_size (h (si_stream l)))
      in \<lparr>snapshot_renderable = \<lparr>transformation = transformation_matrix s,
             screen_position = Rectangle (point_plus (content_top_left s) (si_displacement l)) sz,
             renderable_clip = clip_area s, alpha = surface_alpha s, shaped = has_alpha (pixel_format (h (si_stream l)))\<rparr>,
          snapshot_stream = si_stream l\<rparr>)"

definition surface_generate_renderables :: "(nat \<Rightarrow> bool) \<Rightarrow> ('k, 'o, 'b, 'c) surface_state \<Rightarrow> snapshot list" where
  "surface_generate_renderables has_alpha sh = (case sh of (s, h) \<Rightarrow>
     if (case clip_area s of Some c \<Rightarrow> \<not> overlaps (surface_rect s) c | None \<Rightarrow> False) then []
     else map (make_snapshot has_alpha s h) (filter (\<lambda>l. has_submitted_buffer (h (si_stream l))) (layers s)))"

definition snapshot_swap_interval :: "('b, 'c) stream_store \<Rightarrow> snapshot \<Rightarrow> nat" where
  "snapshot_swap_interval h sn = (if framedropping (h (snapshot_stream sn)) then 0 else 1)"

section \<open>The cursor\<close>

definition remove_cursor_image :: "('k, 'o) basic_surface \<Rightarrow> ('k, 'o) basic_surface \<times> ('k, 'e, 'o) surface_notes" where
  "remove_cursor_image s = (let s' = s\<lparr>cursor_image_of := None\<rparr> in (s', tell_observers s' Cursor_image_removed))"

text \<open>
  \<open>read_image\<close> is the construction of a cursor image from the pixels of a buffer, which throws when they
  cannot be read.
\<close>

definition set_cursor_from_buffer ::
  "('b \<Rightarrow> displacement \<Rightarrow> exn + 'k) \<Rightarrow> 'b \<Rightarrow> displacement \<Rightarrow> ('k, 'o) basic_surface \<Rightarrow>
   (('k, 'o) basic_surface, ('k, 'e, 'o) surface_notes) outcome" where
  "set_cursor_from_buffer read_image b hotspot s = (case read_image b hotspot of
     Inl e \<Rightarrow> throw e s
   | Inr img \<Rightarrow> let s' = s\<lparr>cursor_image_of := Some img\<rparr> in ret (tell_observers s' (Cursor_image_set_to img)) s')"

text \<open>The adapter that copies the buffers of a stream to the cursor; \<open>cid\<close> is its compositor id.\<close>

definition adapter_reset :: "('k, 'o, 'b, 'c) surface_state \<Rightarrow> ('k, 'o, 'b, 'c) surface_state" where
  "adapter_reset sh = (case sh of (s, h) \<Rightarrow> (case adapter_stream (cursor_stream_adapter s) of
     None \<Rightarrow> (s, h)
   | Some st \<Rightarrow> (s\<lparr>cursor_stream_adapter := (cursor_stream_adapter s)\<lparr>adapter_stream := None\<rparr>\<rparr>,
                 h(st := set_frame_posted_callback 0 (h st)))))"

definition post_cursor_image_from_current_buffer ::
  "('b \<Rightarrow> displacement \<Rightarrow> exn + 'k) \<Rightarrow> 'c \<Rightarrow> nat \<Rightarrow> ('k, 'o, 'b, 'c) surface_state \<Rightarrow>
   (('k, 'o, 'b, 'c) surface_state, ('k, 'e, 'o) surface_notes) outcome" where
  "post_cursor_image_from_current_buffer read_image cid st sh = (case sh of (s, h) \<Rightarrow>
     if has_submitted_buffer (h st)
     then and_then (lock_compositor_buffer cid (h st))
            (\<lambda>b st'. and_then (set_cursor_from_buffer read_image b (adapter_hotspot (cursor_stream_adapter s)) s)
               (\<lambda>ns s'. ret ns (s', h(st := st'))) (\<lambda>s'. (s', h(st := st'))))
            (\<lambda>st'. (s, h(st := st')))
     else case remove_cursor_image s of (s', ns) \<Rightarrow> ret ns (s', h))"

definition set_cursor_stream ::
  "('b \<Rightarrow> displacement \<Rightarrow> exn + 'k) \<Rightarrow> 'c \<Rightarrow> nat \<Rightarrow> displacement \<Rightarrow> ('k, 'o, 'b, 'c) surface_state \<Rightarrow>
   (('k, 'o, 'b, 'c) surface_state, ('k, 'e, 'o) surface_notes) outcome" where
  "set_cursor_stream read_image cid new_stream new_hotspot sh = (case sh of (s, h) \<Rightarrow>
     let ad = cursor_stream_adapter s in
     if adapter_stream ad = Some new_stream \<and> adapter_hotspot ad = new_hotspot then ret [] (s, h)
     else
       let h' = (if adapter_stream ad \<noteq> Some new_stream
                 then let h1 = (case adapter_stream ad of None \<Rightarrow> h | Some st \<Rightarrow> h(st := set_frame_posted_callback 0 (h st)))
                      in h1(new_stream := set_frame_posted_callback (cursor_callback (surface_id s)) (h1 new_stream))
                 else h)
       in post_cursor_image_from_current_buffer read_image cid new_stream
            (s\<lparr>cursor_stream_adapter := \<lparr>adapter_stream = Some new_stream, adapter_hotspot = new_hotspot\<rparr>\<rparr>, h'))"

definition set_cursor_image ::
  "'k option \<Rightarrow> ('k, 'o, 'b, 'c) surface_state \<Rightarrow> ('k, 'o, 'b, 'c) surface_state \<times> ('k, 'e, 'o) surface_notes" where
  "set_cursor_image new_image sh = (case adapter_reset sh of (s, h) \<Rightarrow>
     let s' = s\<lparr>cursor_image_of := new_image\<rparr>
     in ((s', h), tell_observers s' (case new_image of Some img \<Rightarrow> Cursor_image_set_to img | None \<Rightarrow> Cursor_image_removed)))"

text \<open>What the callbacks of a surface do when a stream posts a frame of the given size.\<close>

definition frame_posted ::
  "('b \<Rightarrow> displacement \<Rightarrow> exn + 'k) \<Rightarrow> 'c \<Rightarrow> nat \<Rightarrow> extent \<Rightarrow> ('k, 'o, 'b, 'c) surface_state \<Rightarrow>
   (('k, 'o, 'b, 'c) surface_state, ('k, 'e, 'o) surface_notes) outcome" where
  "frame_posted read_image cid cb sz sh = (case sh of (s, h) \<Rightarrow>
     if cb = surface_callback (surface_id s) then ret (tell_observers s (Frame_posted 1 sz)) (s, h)
     else if cb = cursor_callback (surface_id s)
     then (case adapter_stream (cursor_stream_adapter s) of
             None \<Rightarrow> ret [] (s, h)
           | Some st \<Rightarrow> post_cursor_image_from_current_buffer read_image cid st (s, h))
     else ret [] (s, h))"

section \<open>All operations\<close>

datatype 'k surface_op =
    Move point | Resize extent | Margins int int int int | Clip "rectangle option" | Hide bool
  | Region "rectangle list" | Reception reception_mode | Confine pointer_confinement
  | Configure window_attrib int | Alpha rat | Transform "rat list" | Rename string | Depth depth_layer
  | App_id string | Streams "stream_info list" | Cursor "'k option" | Cursor_stream nat displacement

definition keep_store :: "('b, 'c) stream_store \<Rightarrow> 's \<times> 'n \<Rightarrow> ('s \<times> ('b, 'c) stream_store) \<times> 'n" where
  "keep_store h r = ((fst r, h), snd r)"

definition run_notes :: "('s, 'n list) outcome \<Rightarrow> 's \<times> 'n list" where
  "run_notes r = (state_of r, case result_of r of Inl e \<Rightarrow> [] | Inr ns \<Rightarrow> ns)"

fun surface_exec ::
  "('b \<Rightarrow> displacement \<Rightarrow> exn + 'k) \<Rightarrow> 'c \<Rightarrow> 'k surface_op \<Rightarrow> ('k, 'o, 'b, 'c) surface_state \<Rightarrow>
   ('k, 'o, 'b, 'c) surface_state \<times> ('k, 'e, 'o) surface_notes" where
  "surface_exec ri cid (Move p) (s, h) = keep_store h (move_to p s)"
| "surface_exec ri cid (Resize sz) (s, h) = keep_store h (resize sz s)"
| "surface_exec ri cid (Margins t l b r) (s, h) = keep_store h (set_window_margins t l b r s)"
| "surface_exec ri cid (Clip c) (s, h) = ((set_clip_area c s, h), [])"
| "surface_exec ri cid (Hide b) (s, h) = keep_store h (set_hidden b s)"
| "surface_exec ri cid (Region rs) (s, h) = ((set_input_region rs s, h), [])"
| "surface_exec ri cid (Reception m) (s, h) = keep_store h (set_reception_mode m s)"
| "surface_exec ri cid (Confine c) (s, h) = ((set_confine_pointer_state c s, h), [])"
| "surface_exec ri cid (Configure a v) (s, h) =
     run_notes (and_then (configure a v (s, h)) (\<lambda>r sh. ret (snd r) sh) id)"
| "surface_exec ri cid (Alpha a) (s, h) = keep_store h (set_alpha a s)"
| "surface_exec ri cid (Transform t) (s, h) = keep_store h (set_transformation t s)"
| "surface_exec ri cid (Rename n) (s, h) = keep_store h (rename_surface n s)"
| "surface_exec ri cid (Depth d) (s, h) = keep_store h (set_depth_layer d s)"
| "surface_exec ri cid (App_id i) (s, h) = keep_store h (set_application_id i s)"
| "surface_exec ri cid (Streams ls) (s, h) = set_streams ls (s, h)"
| "surface_exec ri cid (Cursor i) (s, h) = set_cursor_image i (s, h)"
| "surface_exec ri cid (Cursor_stream st d) (s, h) = run_notes (set_cursor_stream ri cid st d (s, h))"

section \<open>What an observer knows\<close>

text \<open>The picture of a surface that an observer can keep by following the events it is sent.\<close>

record 'k mirror =
  m_position :: point
  m_window_size :: extent
  m_content_size :: extent
  m_hidden :: bool
  m_alpha :: rat
  m_transformation :: "rat list"
  m_reception :: reception_mode
  m_name :: string
  m_depth :: depth_layer
  m_application_id :: string
  m_cursor :: "'k option"
  m_attribs :: "window_attrib \<Rightarrow> int"

fun apply_event :: "('k, 'e) surface_event \<Rightarrow> 'k mirror \<Rightarrow> 'k mirror" where
  "apply_event (Attrib_changed a v) m = m\<lparr>m_attribs := (m_attribs m)(a := v)\<rparr>"
| "apply_event (Window_resized_to z) m = m\<lparr>m_window_size := z\<rparr>"
| "apply_event (Content_resized_to z) m = m\<lparr>m_content_size := z\<rparr>"
| "apply_event (Moved_to p) m = m\<lparr>m_position := p\<rparr>"
| "apply_event (Hidden_set_to b) m = m\<lparr>m_hidden := b\<rparr>"
| "apply_event (Alpha_set_to a) m = m\<lparr>m_alpha := a\<rparr>"
| "apply_event (Transformation_set_to t) m = m\<lparr>m_transformation := t\<rparr>"
| "apply_event (Reception_mode_set_to r) m = m\<lparr>m_reception := r\<rparr>"
| "apply_event (Cursor_image_set_to k) m = m\<lparr>m_cursor := Some k\<rparr>"
| "apply_event Cursor_image_removed m = m\<lparr>m_cursor := None\<rparr>"
| "apply_event (Renamed n) m = m\<lparr>m_name := n\<rparr>"
| "apply_event (Depth_layer_set_to d) m = m\<lparr>m_depth := d\<rparr>"
| "apply_event (Application_id_set_to i) m = m\<lparr>m_application_id := i\<rparr>"
| "apply_event _ m = m"

definition mirror_of :: "('k, 'o) basic_surface \<Rightarrow> 'k mirror" where
  "mirror_of s = \<lparr>m_position = top_left (surface_rect s), m_window_size = rsize (surface_rect s),
     m_content_size = content_size s, m_hidden = hidden s, m_alpha = surface_alpha s,
     m_transformation = transformation_matrix s, m_reception = input_mode s, m_name = surface_name s,
     m_depth = surface_depth s, m_application_id = application_id s, m_cursor = cursor_image_of s,
     m_attribs = (\<lambda>a. case query a s of Inr v \<Rightarrow> v | Inl e \<Rightarrow> 0)\<rparr>"

definition events_for :: "'o \<Rightarrow> ('k, 'e, 'o) surface_notes \<Rightarrow> ('k, 'e) surface_event list" where
  "events_for ob ns = map snd (filter (\<lambda>n. fst n = ob) ns)"

definition follow :: "'o \<Rightarrow> ('k, 'e, 'o) surface_notes \<Rightarrow> 'k mirror \<Rightarrow> 'k mirror" where
  "follow ob ns m = fold apply_event (events_for ob ns) m"

definition observed_by :: "'o \<Rightarrow> ('k, 'o) basic_surface \<Rightarrow> bool" where
  "observed_by ob s \<longleftrightarrow> ob \<in> set (list_for_each (surface_observers s))"

lemma observed_by_observers: "surface_observers s' = surface_observers s \<Longrightarrow> observed_by ob s \<Longrightarrow> observed_by ob s'"
  by (simp add: observed_by_def)

lemma apply_event_twice: "apply_event ev (apply_event ev m) = apply_event ev m"
  by (cases ev) simp_all

lemma follow_simps [simp]:
  "follow ob [] m = m" "follow ob (ns @ ns') m = follow ob ns' (follow ob ns m)"
  by (simp_all add: follow_def events_for_def)

lemma follow_tell [simp]:
  assumes "observed_by ob s"
  shows "follow ob (tell_observers s ev) m = apply_event ev m"
proof -
  have "fold apply_event (map snd (filter (\<lambda>n. fst n = ob) (map (\<lambda>o'. (o', ev)) obs))) m =
      (if ob \<in> set obs then apply_event ev m else m)" for obs
    by (induction obs arbitrary: m) (auto simp: apply_event_twice)
  then show ?thesis using assms by (simp add: follow_def events_for_def tell_observers_def observed_by_def)
qed

text \<open>Updates that observers do not see.\<close>

lemma mirror_of_unseen [simp]:
  "mirror_of (s\<lparr>clip_area := c\<rparr>) = mirror_of s"
  "mirror_of (s\<lparr>custom_input_rectangles := rs\<rparr>) = mirror_of s"
  "mirror_of (s\<lparr>confine_pointer_state := cp\<rparr>) = mirror_of s"
  "mirror_of (s\<lparr>layers := ls\<rparr>) = mirror_of s"
  "mirror_of (s\<lparr>cursor_stream_adapter := ca\<rparr>) = mirror_of s"
  by (simp_all add: mirror_of_def content_size_def query_def Let_def cong: window_attrib.case_cong)

section \<open>Streams of the layers\<close>

definition streams_ok :: "('b, 'c) stream_store \<Rightarrow> bool" where
  "streams_ok h \<longleftrightarrow> (\<forall>i. stream_inv (h i))"

lemma drop_old_buffers_returns:
  assumes "stream_inv st"
  shows "\<exists>st'. drop_old_buffers st = ret () st' \<and> stream_inv st'"
proof -
  have "\<exists>st'. drop_old_buffers st = ret () st'"
  proof (cases "stream_pending st = []")
    case True
    have "arbiter_schedule (arbiter st) = stream_schedule st" using assms by (simp add: stream_inv_def)
    then have "advance_schedule ((schedules st)(stream_schedule st := emptied (schedules st (stream_schedule st))), arbiter st) =
        ret () ((schedules st)(stream_schedule st := emptied (schedules st (stream_schedule st))), arbiter st)"
      by (simp add: advance_schedule_def virtual.num_pending)
    then show ?thesis using True by (simp add: drop_old_buffers_eq Let_def on_arbiter_def ret_def)
  next
    case False
    then show ?thesis using drop_old_buffers_current [OF assms] by blast
  qed
  then show ?thesis using stream_inv_drop_old [OF assms] by auto
qed

lemma allow_framedropping_returns:
  assumes "stream_inv st"
  shows "\<exists>st'. allow_framedropping d st = ret () st' \<and> stream_inv st' \<and> framedropping st' = d"
  using allow_framedropping_pending [OF assms, of d]
  by (cases "allow_framedropping d st") (auto simp: ret_def state_of_def result_of_def)

text \<open>
  A loop of calls that each return and establish \<open>P\<close>: it returns, keeps all streams consistent, and
  every stream of a layer ends with \<open>P\<close>.
\<close>

lemma on_layers_returns:
  assumes f: "\<And>st. stream_inv st \<Longrightarrow> \<exists>st'. f st = ret () st' \<and> stream_inv st' \<and> P st'"
    and "streams_ok h"
  shows "\<exists>h'. on_layers f ls h = ret () h' \<and> streams_ok h' \<and>
    (\<forall>i. (i \<in> si_stream ` set ls \<longrightarrow> P (h' i)) \<and> (i \<notin> si_stream ` set ls \<longrightarrow> h' i = h i))"
  using assms(2)
proof (induction ls arbitrary: h)
  case (Cons l ls)
  obtain st' where st': "f (h (si_stream l)) = ret () st'" "stream_inv st'" "P st'"
    using f Cons.prems by (auto simp: streams_ok_def)
  then have "streams_ok (h(si_stream l := st'))" using Cons.prems by (simp add: streams_ok_def)
  from Cons.IH [OF this] obtain h' where h': "on_layers f ls (h(si_stream l := st')) = ret () h'" "streams_ok h'"
    "\<forall>i. (i \<in> si_stream ` set ls \<longrightarrow> P (h' i)) \<and> (i \<notin> si_stream ` set ls \<longrightarrow> h' i = (h(si_stream l := st')) i)" by blast
  then show ?case using st' by (auto simp: fun_upd_def) metis
qed simp

lemma streams_ok_callback:
  "streams_ok h \<Longrightarrow> streams_ok (h(i := set_frame_posted_callback cb (h i)))"
  by (auto simp: streams_ok_def set_frame_posted_callback_def stream_inv_def)

lemma streams_ok_callbacks: "streams_ok h \<Longrightarrow> streams_ok (set_callbacks cb ls h)"
  unfolding set_callbacks_def by (induction ls arbitrary: h) (auto intro: streams_ok_callback)

section \<open>Configuring attributes\<close>

text \<open>
  The values that the setters accept.  For the preferred orientation that is every value with at least one of the four orientation bits, a value of
  the enumeration or not.
\<close>

definition valid_attrib :: "window_attrib \<Rightarrow> int \<Rightarrow> bool" where
  "valid_attrib a v = (case a of
       Attrib_type \<Rightarrow> 0 \<le> v \<and> v < mir_window_types
     | Attrib_state \<Rightarrow> 0 \<le> v \<and> v < mir_window_states
     | Attrib_swapinterval \<Rightarrow> 0 \<le> v
     | Attrib_focus \<Rightarrow> v = focus_state_focused \<or> v = focus_state_unfocused
     | Attrib_dpi \<Rightarrow> 0 \<le> v
     | Attrib_visibility \<Rightarrow> v = visibility_occluded \<or> v = visibility_exposed
     | Attrib_preferred_orientation \<Rightarrow> v AND 15 \<noteq> 0
     | Attrib_other n \<Rightarrow> False)"

definition put_attrib :: "window_attrib \<Rightarrow> int \<Rightarrow> ('k, 'o) basic_surface \<Rightarrow> ('k, 'o) basic_surface" where
  "put_attrib a v s = (case a of
       Attrib_type \<Rightarrow> s\<lparr>type_attrib := v\<rparr>
     | Attrib_state \<Rightarrow> s\<lparr>state_attrib := v\<rparr>
     | Attrib_swapinterval \<Rightarrow> s\<lparr>swapinterval := v\<rparr>
     | Attrib_focus \<Rightarrow> s\<lparr>focus_attrib := v\<rparr>
     | Attrib_dpi \<Rightarrow> s\<lparr>dpi_attrib := v\<rparr>
     | Attrib_visibility \<Rightarrow> s\<lparr>visibility_attrib := v\<rparr>
     | Attrib_preferred_orientation \<Rightarrow> s\<lparr>pref_orientation_mode := v\<rparr>
     | Attrib_other n \<Rightarrow> s)"


lemma on_surface_pair:
  "on_surface f (s, h) = and_then (f s) (\<lambda>r s'. ret r (s', h)) (\<lambda>s'. (s', h))"
  by (cases "f s"; cases "fst (f s)") (auto simp: on_surface_def and_then_def ret_def)

lemmas attrib_setters = surface_set_type_def surface_set_state_def set_focus_state_def set_dpi_def
  set_preferred_orientation_def set_swap_interval_def set_visibility_def

lemma configure_invalid:
  assumes "\<not> valid_attrib a v"
  shows "\<exists>msg. configure a v sh = throw (Logic_error msg) sh"
  using assms by (cases sh; cases a) (auto simp: configure_def valid_attrib_def on_surface_pair attrib_setters)

lemma query_put:
  "valid_attrib a v \<Longrightarrow> query b (put_attrib a v s) = (if b = a then Inr v else query b s)"
  by (cases a; cases b) (auto simp: query_def put_attrib_def valid_attrib_def)

lemma put_attrib_same: "query a s = Inr v \<Longrightarrow> put_attrib a v s = s"
  by (cases a) (auto simp: query_def put_attrib_def)

lemma put_attrib_keeps [simp]:
  "surface_observers (put_attrib a v s) = surface_observers s" "layers (put_attrib a v s) = layers s"
  "surface_rect (put_attrib a v s) = surface_rect s" "content_size (put_attrib a v s) = content_size s"
  by (cases a; simp add: put_attrib_def content_size_def)+

lemma tell_observers_put [simp]: "tell_observers (put_attrib a v s) ev = tell_observers s ev"
  by (simp add: tell_observers_def)

text \<open>What a valid value does: the attribute is stored, observers are told if it changed, and a change of
  the swap interval or to exposed also acts on the streams.\<close>

lemma configure_valid:
  assumes "valid_attrib a v" "streams_ok h"
  shows "\<exists>h'. configure a v (s, h) =
      ret (v, if query a s = Inr v then [] else tell_observers s (Attrib_changed a v)) (put_attrib a v s, h') \<and>
    streams_ok h' \<and>
    (\<forall>i. i \<notin> si_stream ` set (layers s) \<longrightarrow> h' i = h i) \<and>
    (a = Attrib_swapinterval \<and> query a s \<noteq> Inr v \<longrightarrow> (\<forall>i\<in>si_stream ` set (layers s). framedropping (h' i) = (v = 0)))"
proof (cases "query a s = Inr v")
  case True
  then have "configure a v (s, h) = ret (v, []) (put_attrib a v s, h)"
    using assms(1) put_attrib_same [OF True]
    by (cases a) (simp_all add: configure_def valid_attrib_def on_surface_pair attrib_setters query_def)
  then show ?thesis using True assms(2) by auto
next
  case False
  show ?thesis
  proof (cases "a = Attrib_swapinterval \<or> a = Attrib_visibility \<and> v = visibility_exposed")
    case False
    then have "configure a v (s, h) = ret (v, tell_observers (put_attrib a v s) (Attrib_changed a v)) (put_attrib a v s, h)"
      using assms(1) \<open>query a s \<noteq> Inr v\<close>
      by (cases a) (simp_all add: configure_def valid_attrib_def on_surface_pair attrib_setters query_def put_attrib_def Let_def)
    then show ?thesis using assms(2) False \<open>query a s \<noteq> Inr v\<close> by auto
  next
    case True
    let ?P = "\<lambda>st. a = Attrib_swapinterval \<longrightarrow> framedropping st = (v = 0)"
    let ?f = "if a = Attrib_swapinterval then allow_framedropping (v = 0) else drop_old_buffers"
    have "\<exists>st'. ?f st = ret () st' \<and> stream_inv st' \<and> ?P st'" if "stream_inv st" for st
      using drop_old_buffers_returns [OF that] allow_framedropping_returns [OF that] by auto
    from on_layers_returns [of ?f ?P, OF this assms(2)] obtain h' where h': "on_layers ?f (layers s) h = ret () h'" "streams_ok h'"
      "\<forall>i. (i \<in> si_stream ` set (layers s) \<longrightarrow> ?P (h' i)) \<and> (i \<notin> si_stream ` set (layers s) \<longrightarrow> h' i = h i)" by blast
    have "configure a v (s, h) = ret (v, tell_observers (put_attrib a v s) (Attrib_changed a v)) (put_attrib a v s, h')"
      using True assms(1) \<open>query a s \<noteq> Inr v\<close> h'(1)
      by (auto simp: configure_def valid_attrib_def set_swap_interval_def set_visibility_def query_def put_attrib_def Let_def)
    then show ?thesis using h'(2,3) \<open>query a s \<noteq> Inr v\<close> by auto
  qed
qed

lemma mirror_put:
  assumes "valid_attrib a v"
  shows "mirror_of (put_attrib a v s) = apply_event (Attrib_changed a v) (mirror_of s)"
proof -
  have "(\<lambda>b. case query b (put_attrib a v s) of Inr v \<Rightarrow> v | Inl e \<Rightarrow> 0) =
      (\<lambda>b. case query b s of Inr v \<Rightarrow> v | Inl e \<Rightarrow> 0)(a := v)"
    by (auto simp: query_put [OF assms] fun_eq_iff)
  then show ?thesis
    unfolding mirror_of_def by (cases a) (simp_all add: put_attrib_def content_size_def)
qed

lemma mirror_put_same: "query a s = Inr v \<Longrightarrow> mirror_of (put_attrib a v s) = mirror_of s"
  by (simp add: put_attrib_same)

section \<open>Observers see every change\<close>

lemma mirror_updates:
  "mirror_of (s\<lparr>hidden := b\<rparr>) = (mirror_of s)\<lparr>m_hidden := b\<rparr>"
  "mirror_of (s\<lparr>surface_alpha := a\<rparr>) = (mirror_of s)\<lparr>m_alpha := a\<rparr>"
  "mirror_of (s\<lparr>transformation_matrix := t\<rparr>) = (mirror_of s)\<lparr>m_transformation := t\<rparr>"
  "mirror_of (s\<lparr>input_mode := m\<rparr>) = (mirror_of s)\<lparr>m_reception := m\<rparr>"
  "mirror_of (s\<lparr>surface_name := n\<rparr>) = (mirror_of s)\<lparr>m_name := n\<rparr>"
  "mirror_of (s\<lparr>surface_depth := d\<rparr>) = (mirror_of s)\<lparr>m_depth := d\<rparr>"
  "mirror_of (s\<lparr>application_id := i\<rparr>) = (mirror_of s)\<lparr>m_application_id := i\<rparr>"
  "mirror_of (s\<lparr>cursor_image_of := c\<rparr>) = (mirror_of s)\<lparr>m_cursor := c\<rparr>"
  "mirror_of (s\<lparr>surface_rect := (surface_rect s)\<lparr>top_left := p\<rparr>\<rparr>) = (mirror_of s)\<lparr>m_position := p\<rparr>"
  "mirror_of (s\<lparr>surface_margins := mm\<rparr>) = (mirror_of s)\<lparr>m_content_size := content_size (s\<lparr>surface_margins := mm\<rparr>)\<rparr>"
  "mirror_of (s\<lparr>surface_rect := (surface_rect s)\<lparr>rsize := z\<rparr>\<rparr>) =
     (mirror_of s)\<lparr>m_window_size := z, m_content_size := content_size (s\<lparr>surface_rect := (surface_rect s)\<lparr>rsize := z\<rparr>\<rparr>)\<rparr>"
  by (simp_all add: mirror_of_def content_size_def query_def Let_def cong: window_attrib.case_cong)


text \<open>What an operation owes to an observer: the picture it keeps by following the events stays the surface.\<close>

definition reports_to ::
  "'o \<Rightarrow> ('k, 'o) basic_surface \<Rightarrow> ('k, 'o, 'b, 'c) surface_state \<times> ('k, 'e, 'o) surface_notes \<Rightarrow> bool" where
  "reports_to ob s r \<longleftrightarrow> mirror_of (fst (fst r)) = follow ob (snd r) (mirror_of s) \<and>
     surface_observers (fst (fst r)) = surface_observers s \<and> streams_ok (snd (fst r))"

lemma reports_to_tell:
  assumes "observed_by ob s" "surface_observers s' = surface_observers s" "streams_ok h"
    "mirror_of s' = apply_event ev (mirror_of s)"
  shows "reports_to ob s ((s', h), tell_observers s' ev)"
  using assms observed_by_observers [OF assms(2,1)] by (simp add: reports_to_def)

lemma reports_to_nothing:
  "mirror_of s' = mirror_of s \<Longrightarrow> surface_observers s' = surface_observers s \<Longrightarrow> streams_ok h \<Longrightarrow>
   reports_to ob s ((s', h), [])"
  by (simp add: reports_to_def)

lemma reports_to_move: "observed_by ob s \<Longrightarrow> streams_ok h \<Longrightarrow> reports_to ob s (keep_store h (move_to p s))"
  by (simp add: keep_store_def move_to_def Let_def reports_to_tell mirror_updates)

lemma reports_to_resize:
  assumes "observed_by ob s" "streams_ok h"
  shows "reports_to ob s (keep_store h (resize sz s))"
  using assms
  by (simp add: keep_store_def resize_def Let_def reports_to_nothing)
    (simp add: reports_to_def mirror_updates observed_by_def)

lemma reports_to_margins:
  assumes "observed_by ob s" "streams_ok h"
  shows "reports_to ob s (keep_store h (set_window_margins t l b r s))"
  using assms by (simp add: keep_store_def set_window_margins_def Let_def reports_to_nothing reports_to_tell mirror_updates)

lemma reports_to_configure:
  assumes "observed_by ob s" "streams_ok h"
  shows "reports_to ob s (run_notes (and_then (configure a v (s, h)) (\<lambda>r sh. ret (snd r) sh) id) ::
    (('k, 'o) basic_surface \<times> _) \<times> ('k, 'e, 'o) surface_notes)"
proof (cases "valid_attrib a v")
  case True
  from configure_valid [OF True assms(2), of s] obtain h' where
    "configure a v (s, h) = ret (v, if query a s = Inr v then [] else
       (tell_observers s (Attrib_changed a v) :: ('k, 'e, 'o) surface_notes)) (put_attrib a v s, h')"
    "streams_ok h'" by blast
  then show ?thesis
    using assms(1) mirror_put [OF True, of s] mirror_put_same [of a s v]
    by (simp add: reports_to_def run_notes_def ret_def and_then_def state_of_def result_of_def)
next
  case False
  from configure_invalid [OF False, of "(s, h)"] obtain msg where
    "configure a v (s, h) = (throw (Logic_error msg) (s, h) :: (_, int \<times> ('k, 'e, 'o) surface_notes) outcome)" by blast
  then show ?thesis
    using assms(2) by (simp add: run_notes_def reports_to_nothing throw_def and_then_def state_of_def result_of_def)
qed

lemma reports_to_post_cursor:
  assumes "observed_by ob s" "streams_ok h"
  shows "reports_to ob s (run_notes (post_cursor_image_from_current_buffer ri cid st (s, h)))"
proof -
  have ok: "streams_ok (h(st := state_of (lock_compositor_buffer cid (h st))))"
    using assms(2) by (simp add: streams_ok_def lock_compositor_buffer_def stream_inv_on_arbiter compositor_acquire_safe)
  obtain r st' where l: "lock_compositor_buffer cid (h st) = (r, st')" by fastforce
  show ?thesis
    using assms ok
    by (cases r) (auto simp: post_cursor_image_from_current_buffer_def l remove_cursor_image_def set_cursor_from_buffer_def
        and_then_def ret_def throw_def run_notes_def Let_def state_of_def result_of_def mirror_updates
        intro!: reports_to_tell reports_to_nothing split: sum.split)
qed

lemma reports_to_adapter:
  "reports_to ob (s\<lparr>cursor_stream_adapter := ad\<rparr>) r \<Longrightarrow> reports_to ob s r"
  by (simp add: reports_to_def)

lemma reports_to_cursor_stream:
  assumes "observed_by ob s" "streams_ok h"
  shows "reports_to ob s (run_notes (set_cursor_stream ri cid st d (s, h)) :: _ \<times> ('k, 'e, 'o) surface_notes)"
proof (cases "adapter_stream (cursor_stream_adapter s) = Some st \<and> adapter_hotspot (cursor_stream_adapter s) = d")
  case True
  then show ?thesis using assms
    by (simp add: set_cursor_stream_def run_notes_def ret_def state_of_def result_of_def reports_to_nothing)
next
  case False
  let ?s = "s\<lparr>cursor_stream_adapter := \<lparr>adapter_stream = Some st, adapter_hotspot = d\<rparr>\<rparr>"
  define h1 where "h1 = (case adapter_stream (cursor_stream_adapter s) of None \<Rightarrow> h
    | Some st \<Rightarrow> h(st := set_frame_posted_callback 0 (h st)))"
  define h2 where "h2 = (if adapter_stream (cursor_stream_adapter s) \<noteq> Some st
    then h1(st := set_frame_posted_callback (cursor_callback (surface_id s)) (h1 st)) else h)"
  have "streams_ok h1" using assms(2) by (auto simp: h1_def intro: streams_ok_callback split: option.split)
  then have "streams_ok h2" using assms(2) by (auto simp: h2_def intro: streams_ok_callback)
  moreover have "observed_by ob ?s" using assms(1) by (simp add: observed_by_def)
  ultimately have "reports_to ob s (run_notes (post_cursor_image_from_current_buffer ri cid st (?s, h2)) ::
      _ \<times> ('k, 'e, 'o) surface_notes)"
    by (intro reports_to_adapter [OF reports_to_post_cursor])
  then show ?thesis
    unfolding set_cursor_stream_def prod.case Let_def if_not_P [OF False] h1_def h2_def .
qed

lemma reports_to_cursor_image:
  assumes "observed_by ob s" "streams_ok h"
  shows "reports_to ob s (set_cursor_image img (s, h))"
  using assms
  by (auto simp: set_cursor_image_def adapter_reset_def Let_def mirror_updates streams_ok_callback
      intro!: reports_to_tell split: option.splits)

lemma reports_to_streams:
  assumes "observed_by ob s" "streams_ok h"
  shows "reports_to ob s (set_streams ls (s, h))"
proof -
  have "mirror_of (s\<lparr>layers := ls\<rparr>) = apply_event (Moved_to (top_left (surface_rect s))) (mirror_of s)"
    unfolding mirror_of_unseen by (simp add: mirror_of_def)
  then show ?thesis using assms by (auto simp: set_streams_def Let_def intro!: reports_to_tell streams_ok_callbacks)
qed

lemma surface_exec_reports:
  assumes "observed_by ob s" "streams_ok h"
  shows "reports_to ob s (surface_exec ri cid op (s, h))"
proof (cases op)
  case (Move p)
  with assms show ?thesis by (simp add: reports_to_move)
next
  case (Resize sz)
  with assms show ?thesis by (simp add: reports_to_resize)
next
  case (Margins t l b r)
  with assms show ?thesis by (simp add: reports_to_margins)
next
  case (Rename n)
  with assms show ?thesis
    by (simp add: keep_store_def rename_surface_def Let_def reports_to_nothing reports_to_tell mirror_updates)
next
  case (App_id i)
  with assms show ?thesis
    by (simp add: keep_store_def set_application_id_def Let_def reports_to_nothing reports_to_tell mirror_updates)
qed (use assms in \<open>simp_all add: reports_to_configure
    reports_to_streams reports_to_cursor_image reports_to_cursor_stream reports_to_nothing
    keep_store_def set_hidden_def set_reception_mode_def set_alpha_def set_transformation_def set_depth_layer_def
    set_clip_area_def set_input_region_def set_confine_pointer_state_def Let_def reports_to_tell mirror_updates\<close>)

fun surface_run ::
  "('b \<Rightarrow> displacement \<Rightarrow> exn + 'k) \<Rightarrow> 'c \<Rightarrow> 'k surface_op list \<Rightarrow> ('k, 'o, 'b, 'c) surface_state \<Rightarrow>
   ('k, 'o, 'b, 'c) surface_state \<times> ('k, 'e, 'o) surface_notes" where
  "surface_run ri cid [] sh = (sh, [])"
| "surface_run ri cid (op # ops) sh =
     (let (sh1, ns1) = surface_exec ri cid op sh; (sh2, ns2) = surface_run ri cid ops sh1 in (sh2, ns1 @ ns2))"

lemma surface_run_reports:
  fixes s :: "('k, 'o) basic_surface"
  shows "observed_by ob s \<Longrightarrow> streams_ok h \<Longrightarrow>
    reports_to ob s (surface_run ri cid ops (s, h) :: _ \<times> ('k, 'e, 'o) surface_notes)"
proof (induction ops arbitrary: s h)
  case (Cons op ops)
  obtain s1 h1 and ns1 :: "('k, 'e, 'o) surface_notes" where e: "surface_exec ri cid op (s, h) = ((s1, h1), ns1)"
    by (metis prod.collapse)
  have "reports_to ob s ((s1, h1), ns1)"
    unfolding e [symmetric] by (rule surface_exec_reports [OF Cons.prems])
  then have r: "mirror_of s1 = follow ob ns1 (mirror_of s)" "surface_observers s1 = surface_observers s" "streams_ok h1"
    by (simp_all add: reports_to_def)
  have "reports_to ob s1 (surface_run ri cid ops (s1, h1) :: _ \<times> ('k, 'e, 'o) surface_notes)"
    by (rule Cons.IH [OF observed_by_observers [OF r(2) Cons.prems(1)] r(3)])
  with e r show ?case by (simp add: reports_to_def case_prod_unfold Let_def)
qed (simp add: reports_to_nothing)

section \<open>Values stay in range\<close>

definition surface_wf :: "('k, 'o) basic_surface \<Rightarrow> bool" where
  "surface_wf s \<longleftrightarrow> (\<forall>a v. query a s = Inr v \<longrightarrow> valid_attrib a v) \<and>
     (let m = surface_margins s in 0 \<le> margin_top m \<and> 0 \<le> margin_left m \<and> 0 \<le> margin_bottom m \<and> 0 \<le> margin_right m)"

lemma surface_wf_unaffected [simp]:
  "surface_wf (s\<lparr>surface_rect := r\<rparr>) = surface_wf s" "surface_wf (s\<lparr>hidden := b\<rparr>) = surface_wf s"
  "surface_wf (s\<lparr>clip_area := c\<rparr>) = surface_wf s" "surface_wf (s\<lparr>custom_input_rectangles := rs\<rparr>) = surface_wf s"
  "surface_wf (s\<lparr>input_mode := m\<rparr>) = surface_wf s" "surface_wf (s\<lparr>confine_pointer_state := cp\<rparr>) = surface_wf s"
  "surface_wf (s\<lparr>surface_alpha := al\<rparr>) = surface_wf s" "surface_wf (s\<lparr>transformation_matrix := t\<rparr>) = surface_wf s"
  "surface_wf (s\<lparr>surface_name := n\<rparr>) = surface_wf s" "surface_wf (s\<lparr>surface_depth := d\<rparr>) = surface_wf s"
  "surface_wf (s\<lparr>application_id := i\<rparr>) = surface_wf s" "surface_wf (s\<lparr>layers := ls\<rparr>) = surface_wf s"
  "surface_wf (s\<lparr>cursor_image_of := k\<rparr>) = surface_wf s" "surface_wf (s\<lparr>cursor_stream_adapter := ca\<rparr>) = surface_wf s"
  by (simp_all add: surface_wf_def query_def cong: window_attrib.case_cong)

lemma surface_wf_margins:
  "surface_wf s \<Longrightarrow> surface_wf (s\<lparr>surface_margins := \<lparr>margin_top = max t 0, margin_left = max l 0,
     margin_bottom = max b 0, margin_right = max r 0\<rparr>\<rparr>)"
  by (auto simp: surface_wf_def query_def cong: window_attrib.case_cong)

lemma surface_wf_put: "surface_wf s \<Longrightarrow> valid_attrib a v \<Longrightarrow> surface_wf (put_attrib a v s)"
  by (auto simp: surface_wf_def query_put split: if_splits) (cases a; simp add: put_attrib_def)+

lemma surface_wf_make:
  "make_basic_surface i nm rect par cps ls cursor h = Inr (s, h') \<Longrightarrow> surface_wf s"
  by (auto simp: make_basic_surface_def surface_wf_def query_def valid_attrib_def split: sum.splits window_attrib.splits)

lemma state_of_and_then_ret [simp]: "state_of (and_then r (\<lambda>a. ret (f a)) id) = state_of r"
  by (cases r; cases "fst r") (auto simp: and_then_def ret_def state_of_def)

lemma state_of_and_then_pair [simp]:
  "state_of (and_then r (\<lambda>_ h. ret ns (s, h)) (\<lambda>h. (s, h))) = (s, state_of r)"
  by (cases r; cases "fst r") (auto simp: and_then_def ret_def state_of_def)

lemma configure_stores:
  assumes "valid_attrib a v"
  shows "fst (state_of (configure a v (s, h))) = put_attrib a v s"
  using assms
  by (cases a) (auto simp: configure_def valid_attrib_def on_surface_pair attrib_setters put_attrib_def Let_def)

lemma surface_wf_configure:
  assumes "surface_wf s"
  shows "surface_wf (fst (state_of (configure a v (s, h))))"
proof (cases "valid_attrib a v")
  case True
  then show ?thesis using surface_wf_put [OF assms True] by (simp add: configure_stores)
next
  case False
  then show ?thesis using assms
    by (cases a) (auto simp: configure_def valid_attrib_def on_surface_pair attrib_setters)
qed

lemma surface_wf_post_cursor:
  "surface_wf s \<Longrightarrow> surface_wf (fst (state_of (post_cursor_image_from_current_buffer ri cid st (s, h))))"
  by (cases "lock_compositor_buffer cid (h st)")
    (auto simp: post_cursor_image_from_current_buffer_def remove_cursor_image_def set_cursor_from_buffer_def
      and_then_def ret_def throw_def Let_def state_of_def split: sum.split)

lemma surface_wf_cursor_stream:
  "surface_wf s \<Longrightarrow> surface_wf (fst (state_of (set_cursor_stream ri cid st d (s, h))))"
  by (auto simp: set_cursor_stream_def Let_def intro!: surface_wf_post_cursor)

lemma surface_exec_wf:
  assumes "surface_wf s"
  shows "surface_wf (fst (fst (surface_exec ri cid op (s, h))))"
  using assms
  by (cases op) (auto simp: keep_store_def run_notes_def move_to_def resize_def set_window_margins_def set_hidden_def
      set_reception_mode_def set_alpha_def set_transformation_def rename_surface_def set_depth_layer_def
      set_application_id_def set_clip_area_def set_input_region_def set_confine_pointer_state_def set_streams_def
      set_cursor_image_def adapter_reset_def Let_def surface_wf_configure surface_wf_cursor_stream surface_wf_margins
      split: option.splits)

lemma surface_run_wf: "surface_wf (fst sh) \<Longrightarrow> surface_wf (fst (fst (surface_run ri cid ops sh)))"
proof (induction ops arbitrary: sh)
  case (Cons op ops)
  then have "surface_wf (fst (fst (surface_exec ri cid op sh)))" by (metis surface_exec_wf prod.collapse)
  from Cons.IH [OF this] show ?case by (simp add: case_prod_unfold Let_def)
qed simp

section \<open>Input and rendering\<close>

definition margins_fit :: "('k, 'o) basic_surface \<Rightarrow> bool" where
  "margins_fit s \<longleftrightarrow> (let m = surface_margins s; sz = rsize (surface_rect s) in
     margin_left m + margin_right m < width sz \<and> margin_top m + margin_bottom m < height sz)"

lemma content_inside_window:
  assumes "surface_wf s" "margins_fit s"
  shows "pixels (input_bounds s) \<subseteq> pixels (surface_rect s)"
  using assms by (auto simp: pixels_def input_bounds_def content_top_left_def content_size_def surface_wf_def margins_fit_def
      point_plus_def Let_def geom_simps)

lemma input_area_in_content:
  assumes "surface_input_area_contains p (s, h)" "custom_input_rectangles s = []"
  shows "p \<in> pixels (input_bounds s)" "case clip_area s of None \<Rightarrow> True | Some c \<Rightarrow> p \<in> pixels c"
    "\<not> hidden s" "\<exists>l\<in>set (layers s). has_submitted_buffer (h (si_stream l))"
  using assms by (auto simp: surface_input_area_contains_def input_bounds_def contains_point_pixels surface_visible_def
      list_ex_iff split: if_splits option.splits)

lemma shared_pixel_overlaps: "p \<in> pixels r \<Longrightarrow> p \<in> pixels r' \<Longrightarrow> overlaps r r'"
  by (auto simp: overlaps_def pixels_def geom_simps)

lemma input_area_is_drawn:
  assumes "surface_input_area_contains p (s, h)" "custom_input_rectangles s = []" "surface_wf s" "margins_fit s"
  shows "surface_generate_renderables has_alpha (s, h) \<noteq> []"
  using input_area_in_content [OF assms(1,2)] content_inside_window [OF assms(3,4)]
  by (auto simp: surface_generate_renderables_def filter_empty_conv split: option.splits dest: shared_pixel_overlaps)

section \<open>Properties\<close>

section \<open>Properties\<close>

definition sample_store :: "(nat, nat) stream_store" where
  "sample_store i = make_stream (Size 10 10) 1"

definition sample_surface :: "(nat, nat) basic_surface" where
  "sample_surface = surface_add_observer 5 (fst (projr (make_basic_surface 1 ''window'' (Rectangle (Point 0 0) (Size 10 10)) None Pointer_unconfined
     [\<lparr>si_stream = 0, si_displacement = Displacement 0 0, si_size = None\<rparr>] None sample_store)))"

lemma sample_store_ok: "streams_ok sample_store"
  by (simp add: streams_ok_def sample_store_def stream_inv_make)

lemma sample_surface_observed: "observed_by 5 sample_surface"
  by (simp add: sample_surface_def observed_by_def surface_add_observer_def make_basic_surface_def default_stream_def
      empty_list_items_def)

text \<open>
  C8: Every observer of a surface can rebuild the surface from the events it is sent.  Whatever operations
  run, including ones that throw, following the notifications in order takes the observer's picture
  (position, window and content size, visibility, alpha, transformation, input mode, name, depth layer,
  application id, cursor and all attributes) to that of the surface afterwards, and the streams stay
  consistent.
\<close>

theorem observers_see_every_change:
  assumes "observed_by ob s" "streams_ok h" "surface_run read_image cid ops (s, h) = ((s', h'), ns)"
  shows "mirror_of s' = follow ob ns (mirror_of s) \<and> observed_by ob s' \<and> streams_ok h'"
proof -
  have "reports_to ob s ((s', h'), ns)"
    unfolding assms(3) [symmetric] by (rule surface_run_reports [OF assms(1,2)])
  then show ?thesis using observed_by_observers [OF _ assms(1), of s'] by (simp add: reports_to_def)
qed

theorem observers_see_every_change_witness:
  "\<exists>s' h' ns. surface_run (\<lambda>b d. Inr b) 0 [Move (Point 3 4), Configure Attrib_focus 1, Resize (Size 0 7)] (sample_surface, sample_store)
     = ((s', h'), ns :: (nat, nat, nat) surface_notes) \<and> mirror_of s' = follow 5 ns (mirror_of sample_surface)"
proof -
  obtain s' h' and ns :: "(nat, nat, nat) surface_notes" where
    r: "surface_run (\<lambda>b d. Inr b) 0 [Move (Point 3 4), Configure Attrib_focus 1, Resize (Size 0 7)] (sample_surface, sample_store)
      = ((s', h'), ns)"
    by (metis prod.collapse)
  from observers_see_every_change [OF sample_surface_observed sample_store_ok r] r show ?thesis by blast
qed

text \<open>
  Configuring an attribute and querying it is a round trip: a valid value is returned and stored, no
  other attribute changes, and observers are told exactly when the value changed; setting a new swap
  interval turns framedropping of the streams of all layers on if it is 0 and off if not, and leaves other
  streams alone.  An invalid value throws and changes nothing.
\<close>

theorem configure_query_roundtrip:
  fixes s :: "('k, 'o) basic_surface"
  assumes "streams_ok h"
  shows "(if valid_attrib a v
     then \<exists>s' h'. configure a v (s, h) =
            ret (v, if query a s = Inr v then [] else tell_observers s (Attrib_changed a v) :: ('k, 'e, 'o) surface_notes) (s', h') \<and>
          query a s' = Inr v \<and> (\<forall>b. b \<noteq> a \<longrightarrow> query b s' = query b s) \<and>
          (\<forall>i. i \<notin> si_stream ` set (layers s) \<longrightarrow> h' i = h i) \<and>
          (a = Attrib_swapinterval \<and> query a s \<noteq> Inr v \<longrightarrow>
             (\<forall>i\<in>si_stream ` set (layers s). framedropping (h' i) = (v = 0)))
     else \<exists>msg. configure a v (s, h) = throw (Logic_error msg) (s, h))"
proof (cases "valid_attrib a v")
  case True
  obtain h' where "configure a v (s, h) = ret (v, if query a s = Inr v then [] else
      tell_observers s (Attrib_changed a v) :: ('k, 'e, 'o) surface_notes) (put_attrib a v s, h')"
    "\<forall>i. i \<notin> si_stream ` set (layers s) \<longrightarrow> h' i = h i"
    "a = Attrib_swapinterval \<and> query a s \<noteq> Inr v \<longrightarrow> (\<forall>i\<in>si_stream ` set (layers s). framedropping (h' i) = (v = 0))"
    using configure_valid [OF True assms, of s] by blast
  with True show ?thesis
    by (simp only: if_True) (intro exI [of _ "put_attrib a v s"] exI [of _ h'] conjI, simp_all add: query_put)
next
  case False
  then show ?thesis using configure_invalid [OF False, of "(s, h)"] by simp
qed

theorem configure_query_roundtrip_witness:
  "\<exists>s' h'. configure Attrib_swapinterval 0 (sample_surface, sample_store) =
     ret (0, tell_observers sample_surface (Attrib_changed Attrib_swapinterval 0)) (s', h') \<and> framedropping (h' 0)"
  using configure_query_roundtrip [OF sample_store_ok, of Attrib_swapinterval 0 sample_surface]
  by (auto simp: valid_attrib_def query_def sample_surface_def surface_add_observer_def make_basic_surface_def
      default_stream_def)

text \<open>A preferred orientation that is no value of the enumeration is accepted and returned.\<close>

lemma orientation_outside_the_enumeration:
  "\<exists>s' h' ns. configure Attrib_preferred_orientation 17 (s, h) = ret (17, ns) (s', h') \<and> query Attrib_preferred_orientation s' = Inr 17"
  by (auto simp: configure_def on_surface_pair set_preferred_orientation_def query_def Let_def)

text \<open>
  C38: A surface is well typed at all times: whatever operations run after its construction, its type, state, focus and visibility
  are values of their enumerations, the swap interval and the resolution are not negative, the preferred orientation has at least one of the four orientation
  bits (the code does not require that it is a value of its enumeration), window margins are not negative and the content has at
  least one pixel.
\<close>

theorem surface_values_stay_in_range:
  assumes "make_basic_surface i nm rect par cps ls cursor h0 = Inr (s, h)"
    and "surface_run read_image cid ops (s, h) = ((s', h'), ns)"
  shows "(\<forall>a v. query a s' = Inr v \<longrightarrow> valid_attrib a v) \<and>
    0 \<le> margin_top (surface_margins s') \<and> 0 \<le> margin_left (surface_margins s') \<and>
    0 \<le> margin_bottom (surface_margins s') \<and> 0 \<le> margin_right (surface_margins s') \<and>
    1 \<le> width (content_size s') \<and> 1 \<le> height (content_size s')"
proof -
  have "surface_wf (fst (fst ((s', h'), ns)))"
    unfolding assms(2) [symmetric] by (rule surface_run_wf) (simp add: surface_wf_make [OF assms(1)])
  then show ?thesis by (simp add: surface_wf_def Let_def content_size_def)
qed

theorem surface_values_stay_in_range_witness:
  "\<exists>s h. make_basic_surface 1 ''window'' (Rectangle (Point 0 0) (Size 10 10)) None Pointer_unconfined
     [\<lparr>si_stream = 0, si_displacement = Displacement 0 0, si_size = None\<rparr>] None sample_store =
       Inr (s :: (nat, nat) basic_surface, h) \<and>
     0 \<le> margin_left (surface_margins (fst (fst
       (surface_run (\<lambda>b d. Inr b) 0 [Margins 8 (-3) 9 0] (s, h) :: _ \<times> (nat, nat, nat) surface_notes))))"
proof -
  obtain s h where m: "make_basic_surface 1 ''window'' (Rectangle (Point 0 0) (Size 10 10)) None Pointer_unconfined
     [\<lparr>si_stream = 0, si_displacement = Displacement 0 0, si_size = None\<rparr>] None sample_store =
       Inr (s :: (nat, nat) basic_surface, h)"
    by (simp add: make_basic_surface_def default_stream_def)
  obtain s' h' and ns :: "(nat, nat, nat) surface_notes" where
    r: "surface_run (\<lambda>b d. Inr b) 0 [Margins 8 (-3) 9 0] (s, h) = ((s', h'), ns)"
    by (metis prod.collapse)
  show ?thesis
    using surface_values_stay_in_range [OF m r] m r by (intro exI [of _ s] exI [of _ h]) simp
qed

end
