(* ===== verification/Input_Visuals.thy ===== *)
theory Input_Visuals
  imports Surface_Stack Basic_Surface Input_Events
begin

unbundle bit_operations_syntax

text \<open>
  What the user sees of the input, and the filters in front of the dispatchers: \<open>src/server/input/cursor_controller.cpp\<close>,
  \<open>touchspot_controller.cpp\<close>, \<open>event_filter_chain_dispatcher.cpp\<close> and \<open>vt_filter.cpp\<close>.
\<close>

section \<open>The cursor\<close>

datatype 'i cursor_call = Show_cursor 'i | Hide_cursor | Move_cursor point

record 'i cursor_controller =
  default_cursor_image :: "'i option"
  current_cursor :: "'i option"
  cursor_location :: point
  cursor_calls :: "'i cursor_call list"

definition make_cursor_controller :: "'i option \<Rightarrow> 'i cursor_controller" where
  "make_cursor_controller img = \<lparr>default_cursor_image = img, current_cursor = img, cursor_location = Point 0 0, cursor_calls = []\<rparr>"

text \<open>\<open>image_size\<close> is the size of a cursor image, \<open>image_of\<close> the image a surface asks for.\<close>

definition is_empty_image :: "('i \<Rightarrow> extent) \<Rightarrow> 'i \<Rightarrow> bool" where
  "is_empty_image image_size img \<longleftrightarrow> width (image_size img) = 0 \<or> height (image_size img) = 0"

definition topmost_surface_containing_point ::
  "('s, 'c, 'r) surface_view \<Rightarrow> point \<Rightarrow> ('s, 'c, 'r, 'o) surface_stack \<Rightarrow> 's option" where
  "topmost_surface_containing_point view p st =
     fold (\<lambda>s top. if input_area_contains view s p then Some s else top) (stack_for_each st) None"

definition set_cursor_image_locked :: "('i \<Rightarrow> extent) \<Rightarrow> 'i option \<Rightarrow> 'i cursor_controller \<Rightarrow> 'i cursor_controller" where
  "set_cursor_image_locked image_size new_image cc =
     (if current_cursor cc = new_image then cc
      else let cc1 = cc\<lparr>current_cursor := new_image\<rparr>
           in cc1\<lparr>cursor_calls := cursor_calls cc1 @
                [case new_image of Some img \<Rightarrow> if \<not> is_empty_image image_size img then Show_cursor img else Hide_cursor | None \<Rightarrow> Hide_cursor]\<rparr>)"

definition update_cursor_image ::
  "('i \<Rightarrow> extent) \<Rightarrow> ('s \<Rightarrow> 'i option) \<Rightarrow> ('s, 'c, 'r) surface_view \<Rightarrow> ('s, 'c, 'r, 'o) surface_stack \<Rightarrow> 'i cursor_controller \<Rightarrow> 'i cursor_controller" where
  "update_cursor_image image_size image_of view st cc =
     (case topmost_surface_containing_point view (cursor_location cc) st of
        Some s \<Rightarrow> set_cursor_image_locked image_size (image_of s) cc
      | None \<Rightarrow> set_cursor_image_locked image_size (default_cursor_image cc) cc)"

definition cursor_moved_to ::
  "('i \<Rightarrow> extent) \<Rightarrow> ('s \<Rightarrow> 'i option) \<Rightarrow> ('s, 'c, 'r) surface_view \<Rightarrow> ('s, 'c, 'r, 'o) surface_stack \<Rightarrow> rat \<Rightarrow> rat \<Rightarrow> 'i cursor_controller \<Rightarrow> 'i cursor_controller" where
  "cursor_moved_to image_size image_of view st abs_x abs_y cc =
     (let new_location = point_at abs_x abs_y;
          cc1 = update_cursor_image image_size image_of view st (cc\<lparr>cursor_location := new_location\<rparr>)
      in cc1\<lparr>cursor_calls := cursor_calls cc1 @ [Move_cursor new_location]\<rparr>)"

text \<open>The events of a surface and of the scene that the controller's observers react to; the flag says whether a frame was posted before.\<close>

fun surface_event_updates :: "bool \<Rightarrow> ('k, 'e) surface_event \<Rightarrow> bool" where
  "surface_event_updates posted (Content_resized_to sz) = True"
| "surface_event_updates posted (Moved_to p) = True"
| "surface_event_updates posted (Hidden_set_to b) = True"
| "surface_event_updates posted (Frame_posted n sz) = (\<not> posted)"
| "surface_event_updates posted (Alpha_set_to a) = True"
| "surface_event_updates posted (Transformation_set_to t) = True"
| "surface_event_updates posted (Reception_mode_set_to m) = True"
| "surface_event_updates posted (Cursor_image_set_to i) = True"
| "surface_event_updates posted Cursor_image_removed = True"
| "surface_event_updates posted _ = False"

section \<open>Touch spots\<close>

text \<open>A spot is the renderable at an index of the controller's vector; the scene has other overlays too.\<close>

datatype 'x overlay = Spot nat | Other_overlay 'x

record touchspot_controller =
  spot_positions :: "point list"
  spots_enabled :: bool
  renderables_in_use :: nat

definition make_touchspot_controller :: touchspot_controller where
  "make_touchspot_controller = \<lparr>spot_positions = [], spots_enabled = False, renderables_in_use = 0\<rparr>"

text \<open>Half of the spot's size is converted to an integer towards zero.\<close>

definition move_center_to :: "extent \<Rightarrow> point \<Rightarrow> point" where
  "move_center_to spot p = Point (px p - width spot div 2) (py p - height spot div 2)"

type_synonym ('s, 'c, 'x, 'o) spot_stack = "('s, 'c, 'x overlay, 'o) surface_stack"

definition place_spot ::
  "extent \<Rightarrow> point list \<Rightarrow> nat \<Rightarrow> nat \<Rightarrow> point list \<times> ('s, 'c, 'x, 'o) spot_stack \<Rightarrow> point list \<times> ('s, 'c, 'x, 'o) spot_stack" where
  "place_spot spot touches in_use i = (\<lambda>(ps, st).
     (ps[i := move_center_to spot (touches ! i)], if i \<ge> in_use then fst (add_input_visualization (Spot i) st) else st))"

fun remove_spots :: "nat list \<Rightarrow> ('s, 'c, 'x, 'o) spot_stack \<Rightarrow> (('s, 'c, 'x, 'o) spot_stack, unit) outcome" where
  "remove_spots [] st = ret () st"
| "remove_spots (i # is) st = and_then (remove_input_visualization (Spot i) st) (\<lambda>_ st'. remove_spots is st') id"

definition visualize_touches ::
  "extent \<Rightarrow> point list \<Rightarrow> touchspot_controller \<times> ('s, 'c, 'x, 'o) spot_stack \<Rightarrow> (touchspot_controller \<times> ('s, 'c, 'x, 'o) spot_stack, unit) outcome" where
  "visualize_touches spot touches = (\<lambda>(tc, st).
     let num_touches = (if spots_enabled tc then length touches else 0);
         ps0 = spot_positions tc @ replicate (num_touches - length (spot_positions tc)) (Point 0 0);
         (ps, st1) = fold (place_spot spot touches (renderables_in_use tc)) [0..<num_touches] (ps0, st);
         tc1 = tc\<lparr>spot_positions := ps\<rparr>
     in and_then (remove_spots [num_touches..<renderables_in_use tc] st1)
          (\<lambda>_ st2. ret () (tc1\<lparr>renderables_in_use := num_touches\<rparr>, if num_touches > 0 then fst (emit_scene_changed st2) else st2))
          (\<lambda>st2. (tc1, st2)))"

definition enable_spots :: "touchspot_controller \<Rightarrow> touchspot_controller" where
  "enable_spots tc = tc\<lparr>spots_enabled := True\<rparr>"

definition disable_spots :: "touchspot_controller \<Rightarrow> touchspot_controller" where
  "disable_spots tc = tc\<lparr>spots_enabled := False\<rparr>"

section \<open>Filters\<close>

text \<open>
  Filters are weak references: \<open>alive\<close> says which can still be locked.  The result says whether a filter took the event, and has the filters that
  are left and the ones that were asked, in order.
\<close>

fun filter_chain_handle :: "('f \<Rightarrow> bool) \<Rightarrow> ('f \<Rightarrow> 'e \<Rightarrow> bool) \<Rightarrow> 'e \<Rightarrow> 'f list \<Rightarrow> bool \<times> 'f list \<times> 'f list" where
  "filter_chain_handle alive handle event [] = (False, [], [])"
| "filter_chain_handle alive handle event (f # fs) =
     (if \<not> alive f then filter_chain_handle alive handle event fs
      else if handle f event then (True, f # fs, [f])
      else let (taken, rest, asked) = filter_chain_handle alive handle event fs in (taken, f # rest, f # asked))"

definition append_filter :: "'f \<Rightarrow> 'f list \<Rightarrow> 'f list" where
  "append_filter f fs = fs @ [f]"

definition prepend_filter :: "'f \<Rightarrow> 'f list \<Rightarrow> 'f list" where
  "prepend_filter f fs = f # fs"

definition filter_chain_dispatch ::
  "('f \<Rightarrow> bool) \<Rightarrow> ('f \<Rightarrow> 'e \<Rightarrow> bool) \<Rightarrow> ('e \<Rightarrow> bool) \<Rightarrow> 'e \<Rightarrow> 'f list \<Rightarrow> bool \<times> 'f list" where
  "filter_chain_dispatch alive handle next_dispatch event fs =
     (let (taken, rest, asked) = filter_chain_handle alive handle event fs
      in (if \<not> taken then next_dispatch event else True, rest))"

text \<open>The terminal to switch to, when the event is the key combination for it.\<close>

definition vt_of_scan_code :: "int \<Rightarrow> int option" where
  "vt_of_scan_code code =
     (if 59 \<le> code \<and> code \<le> 68 then Some (code - 58) else if code = 87 then Some 11 else if code = 88 then Some 12 else None)"

definition vt_filter_handle :: "'e event \<Rightarrow> int option" where
  "vt_filter_handle event =
     (case event of
        Key ev \<Rightarrow> if key_action ev = Key_down \<and> key_modifiers ev AND modifier_alt \<noteq> 0 \<and> key_modifiers ev AND modifier_ctrl \<noteq> 0
                  then vt_of_scan_code (scan_code ev) else None
      | _ \<Rightarrow> None)"

section \<open>Lemmas\<close>

lemma fold_last_match: "fold (\<lambda>s top. if P s then Some s else top) xs a = (case find_last P xs of Some s \<Rightarrow> Some s | None \<Rightarrow> a)"
  by (induction xs rule: rev_induct) (auto simp: find_last_def)

lemma topmost_is_surface_at: "topmost_surface_containing_point view p st = surface_at view p st"
  by (simp add: topmost_surface_containing_point_def fold_last_match surface_at_topmost stack_for_each_def split: option.split)

definition visible_image :: "('i \<Rightarrow> extent) \<Rightarrow> 'i option \<Rightarrow> 'i option" where
  "visible_image image_size img = (case img of Some i \<Rightarrow> if is_empty_image image_size i then None else Some i | None \<Rightarrow> None)"

fun cursor_after :: "'i option \<Rightarrow> 'i cursor_call \<Rightarrow> 'i option" where
  "cursor_after shown (Show_cursor i) = Some i"
| "cursor_after shown Hide_cursor = None"
| "cursor_after shown (Move_cursor p) = shown"

text \<open>What the display shows after the controller's calls; the server shows the default image before it has a controller.\<close>

definition cursor_shown :: "('i \<Rightarrow> extent) \<Rightarrow> 'i cursor_controller \<Rightarrow> 'i option" where
  "cursor_shown image_size cc = fold (\<lambda>c shown. cursor_after shown c) (cursor_calls cc) (visible_image image_size (default_cursor_image cc))"

lemma set_cursor_image_locked_shows:
  fixes img :: "'i option"
  assumes "cursor_shown image_size cc = visible_image image_size (current_cursor cc)"
  defines "cc' \<equiv> set_cursor_image_locked image_size img cc"
  shows "current_cursor cc' = img" "cursor_shown image_size cc' = visible_image image_size img" "cursor_location cc' = cursor_location cc"
    "default_cursor_image cc' = default_cursor_image cc"
  using assms(1) by (auto simp: cc'_def set_cursor_image_locked_def cursor_shown_def visible_image_def Let_def split: option.split)

definition wanted_image :: "('s \<Rightarrow> 'i option) \<Rightarrow> ('s, 'c, 'r) surface_view \<Rightarrow> ('s, 'c, 'r, 'o) surface_stack \<Rightarrow> 'i cursor_controller \<Rightarrow> 'i option" where
  "wanted_image image_of view st cc =
     (case surface_at view (cursor_location cc) st of Some s \<Rightarrow> image_of s | None \<Rightarrow> default_cursor_image cc)"

lemma update_cursor_image_shows:
  fixes image_of :: "'s \<Rightarrow> 'i option" and view :: "('s, 'c, 'r) surface_view" and st :: "('s, 'c, 'r, 'o) surface_stack"
  assumes "cursor_shown image_size cc = visible_image image_size (current_cursor cc)"
  defines "cc' \<equiv> update_cursor_image image_size image_of view st cc"
  shows "current_cursor cc' = wanted_image image_of view st cc" "cursor_shown image_size cc' = visible_image image_size (wanted_image image_of view st cc)"
    "cursor_location cc' = cursor_location cc" "default_cursor_image cc' = default_cursor_image cc"
  by (simp_all add: cc'_def update_cursor_image_def topmost_is_surface_at wanted_image_def set_cursor_image_locked_shows [OF assms(1)] split: option.split)

text \<open>
  The controller at work.  The run has the scene as it is: it is made with an empty scene, and each change of the scene that its observers hear of and each
  movement of the pointer may find a different one.
\<close>

inductive cursor_run ::
  "('i \<Rightarrow> extent) \<Rightarrow> 'i option \<Rightarrow> ('s \<Rightarrow> 'i option) \<Rightarrow> ('s, 'c, 'r) surface_view \<Rightarrow> ('s, 'c, 'r, 'o) surface_stack \<Rightarrow> 'i cursor_controller \<Rightarrow> bool"
  for image_size img where
  start: "stack_for_each st = [] \<Longrightarrow> cursor_run image_size img image_of view st (make_cursor_controller img)"
| changed: "cursor_run image_size img image_of0 view0 st0 cc \<Longrightarrow>
    cursor_run image_size img image_of view st (update_cursor_image image_size image_of view st cc)"
| moved: "cursor_run image_size img image_of view st cc \<Longrightarrow>
    cursor_run image_size img image_of view st (cursor_moved_to image_size image_of view st x y cc)"

lemma moved_shows:
  fixes image_of :: "'s \<Rightarrow> 'i option" and view :: "('s, 'c, 'r) surface_view" and st :: "('s, 'c, 'r, 'o) surface_stack" and x y :: rat
  assumes "cursor_shown image_size cc = visible_image image_size (current_cursor cc)"
  defines "cc' \<equiv> cursor_moved_to image_size image_of view st x y cc" and "there \<equiv> cc\<lparr>cursor_location := point_at x y\<rparr>"
  shows "current_cursor cc' = wanted_image image_of view st there" "cursor_shown image_size cc' = visible_image image_size (wanted_image image_of view st there)"
    "cursor_location cc' = point_at x y" "default_cursor_image cc' = default_cursor_image cc"
proof -
  have a: "cursor_shown image_size there = visible_image image_size (current_cursor there)" using assms(1) by (simp add: there_def cursor_shown_def)
  note U = update_cursor_image_shows [OF a, of image_of view st]
  show "current_cursor cc' = wanted_image image_of view st there" "cursor_location cc' = point_at x y" "default_cursor_image cc' = default_cursor_image cc"
    using U(1,3,4) by (simp_all add: cc'_def there_def cursor_moved_to_def Let_def)
  show "cursor_shown image_size cc' = visible_image image_size (wanted_image image_of view st there)"
    using U(2) by (simp add: cc'_def there_def cursor_moved_to_def Let_def cursor_shown_def)
qed

lemma wanted_cong: "cursor_location cc' = cursor_location cc \<Longrightarrow> default_cursor_image cc' = default_cursor_image cc \<Longrightarrow>
    wanted_image image_of view st cc' = wanted_image image_of view st cc"
  by (simp add: wanted_image_def split: option.split)

lemma cursor_run_shows:
  assumes "cursor_run image_size img image_of view st cc"
  shows "cursor_shown image_size cc = visible_image image_size (current_cursor cc) \<and> current_cursor cc = wanted_image image_of view st cc"
  using assms
proof induction
  case (start st image_of view)
  then have "surface_at view p st = None" for p unfolding surface_at_topmost stack_for_each_def by (simp only:) (simp add: find_last_def)
  then show ?case by (simp add: make_cursor_controller_def cursor_shown_def wanted_image_def)
next
  case (changed image_of0 view0 st0 cc image_of view st)
  then have "cursor_shown image_size cc = visible_image image_size (current_cursor cc)" by blast
  note U = update_cursor_image_shows [OF this, of image_of view st]
  then show ?case using wanted_cong [OF U(3,4), of image_of view st] by simp
next
  case (moved image_of view st cc x y)
  then have "cursor_shown image_size cc = visible_image image_size (current_cursor cc)" by blast
  note U = moved_shows [OF this, of image_of view st x y]
  then show ?case using wanted_cong [of "cursor_moved_to image_size image_of view st x y cc" "cc\<lparr>cursor_location := point_at x y\<rparr>" image_of view st] by simp
qed

text \<open>Every operation of a surface but two tells an observer when it changes where the surface takes input or its cursor.\<close>

definition tells_the_cursor :: "'o \<Rightarrow> ('k, 'e, 'o) surface_notes \<Rightarrow> bool" where
  "tells_the_cursor ob ns \<longleftrightarrow> (\<exists>ev. (ob, ev) \<in> set ns \<and> surface_event_updates True ev)"

lemma tells_tell [simp]: "ob \<in> set (list_for_each (surface_observers s)) \<Longrightarrow> tells_the_cursor ob (tell_observers s ev @ ns) \<longleftrightarrow>
    surface_event_updates True ev \<or> tells_the_cursor ob ns"
  "ob \<in> set (list_for_each (surface_observers s)) \<Longrightarrow> tells_the_cursor ob (tell_observers s ev) \<longleftrightarrow> surface_event_updates True ev"
  by (auto simp: tells_the_cursor_def tell_observers_def)

definition same_input :: "('k, 'o, 'b, 'c) surface_state \<Rightarrow> ('k, 'o, 'b, 'c) surface_state \<Rightarrow> bool" where
  "same_input sh sh' \<longleftrightarrow> cursor_image_of (fst sh') = cursor_image_of (fst sh) \<and>
     (\<forall>p. surface_input_area_contains p sh' \<longleftrightarrow> surface_input_area_contains p sh)"

lemma same_inputI:
  assumes "surface_rect s' = surface_rect s" "surface_margins s' = surface_margins s" "hidden s' = hidden s" "clip_area s' = clip_area s"
    "custom_input_rectangles s' = custom_input_rectangles s" "layers s' = layers s" "cursor_image_of s' = cursor_image_of s"
    "\<forall>i. has_submitted_buffer (h' i) = has_submitted_buffer (h i)"
  shows "same_input (s, h) (s', h')"
  by (simp add: same_input_def surface_input_area_contains_def surface_visible_def content_top_left_def content_offset_def content_size_def assms)

lemma on_layers_posted:
  assumes "\<And>st. first_frame_posted (state_of (f st)) = first_frame_posted st"
  shows "first_frame_posted (state_of (on_layers f ls h) i) = first_frame_posted (h i)"
proof (induction ls arbitrary: h)
  case (Cons l ls)
  obtain r st where f: "f (h (si_stream l)) = (r, st)" by fastforce
  with assms [of "h (si_stream l)"] have "first_frame_posted st = first_frame_posted (h (si_stream l))" by (simp add: state_of_def)
  then have "first_frame_posted ((h(si_stream l := st)) i) = first_frame_posted (h i)" by simp
  then show ?case using Cons.IH [of "h(si_stream l := st)"] by (cases r) (simp_all add: f and_then_def state_of_def del: fun_upd_apply)
qed simp

lemma stream_ops_posted:
  "first_frame_posted (state_of (allow_framedropping b st)) = first_frame_posted st"
  "first_frame_posted (state_of (drop_old_buffers st)) = first_frame_posted st"
  "first_frame_posted (state_of (lock_compositor_buffer i st)) = first_frame_posted st"
proof -
  have arb: "first_frame_posted (state_of (on_arbiter f st)) = first_frame_posted st" for f st
    by (auto simp: on_arbiter_def and_then_def state_of_def split: prod.splits sum.splits)
  have tr: "first_frame_posted (state_of (transition_schedule sch st)) = first_frame_posted st" for sch st
    by (auto simp: transition_schedule_def and_then_def state_of_def ret_def Let_def split: prod.splits sum.splits)
  show "first_frame_posted (state_of (allow_framedropping b st)) = first_frame_posted st"
    using tr [of "DroppingSchedule None" st] tr [of "QueueingSchedule []" st]
    by (auto simp: allow_framedropping_def and_then_def state_of_def ret_def split: prod.splits sum.splits)
  show "first_frame_posted (state_of (drop_old_buffers st)) = first_frame_posted st"
    unfolding drop_old_buffers_def and_then_def Let_def by (auto simp: arb state_of_def [of "(_, _)"] split: prod.splits sum.splits)
  show "first_frame_posted (state_of (lock_compositor_buffer i st)) = first_frame_posted st" by (simp add: lock_compositor_buffer_def arb)
qed

lemma same_input_frame:
  "same_input (s, h) (s\<lparr>input_mode := m\<rparr>, h)" "same_input (s, h) (s\<lparr>surface_alpha := a\<rparr>, h)" "same_input (s, h) (s\<lparr>transformation_matrix := t\<rparr>, h)"
  "same_input (s, h) (s\<lparr>surface_name := n\<rparr>, h)" "same_input (s, h) (s\<lparr>surface_depth := d\<rparr>, h)" "same_input (s, h) (s\<lparr>application_id := i\<rparr>, h)"
  "same_input (s, h) (s\<lparr>confine_pointer_state := c\<rparr>, h)" "same_input (s, h) (s, h)"
  by (simp_all add: same_inputI)

lemma surface_attribute_same_input:
  "same_input (s, h) (state_of (on_surface (surface_set_type v) (s, h)))" "same_input (s, h) (state_of (on_surface (surface_set_state v) (s, h)))"
  "same_input (s, h) (state_of (on_surface (set_focus_state v) (s, h)))" "same_input (s, h) (state_of (on_surface (set_dpi v) (s, h)))"
  "same_input (s, h) (state_of (on_surface (set_preferred_orientation v) (s, h)))"
  by (auto simp: on_surface_pair surface_set_type_def surface_set_state_def set_focus_state_def set_dpi_def set_preferred_orientation_def Let_def intro!: same_inputI)

lemma stream_attribute_same_input:
  "same_input (s, h) (state_of (set_swap_interval v (s, h)))" "same_input (s, h) (state_of (set_visibility v (s, h)))"
proof -
  show "same_input (s, h) (state_of (set_swap_interval v (s, h)))"
    using on_layers_posted [OF stream_ops_posted(1) [of "v = 0"], of "layers s" h]
    by (cases "on_layers (allow_framedropping (v = 0)) (layers s) h"; cases "fst (on_layers (allow_framedropping (v = 0)) (layers s) h)")
      (auto simp: set_swap_interval_def and_then_def Let_def has_submitted_buffer_def state_of_def ret_def throw_def intro!: same_inputI)
  show "same_input (s, h) (state_of (set_visibility v (s, h)))"
    using on_layers_posted [OF stream_ops_posted(2), of "layers s" h]
    by (cases "on_layers drop_old_buffers (layers s) h"; cases "fst (on_layers drop_old_buffers (layers s) h)")
      (auto simp: set_visibility_def and_then_def Let_def has_submitted_buffer_def state_of_def ret_def throw_def intro!: same_inputI)
qed

lemma configure_same_input: "same_input (s, h) (state_of (configure a v (s, h)))"
  unfolding configure_def state_of_and_then_ret
  by (cases a) (simp_all add: surface_attribute_same_input stream_attribute_same_input same_input_frame)

lemma posted_same_input:
  assumes "\<not> tells_the_cursor ob ns" "ob \<in> set (list_for_each (surface_observers s))"
    and "run_notes (post_cursor_image_from_current_buffer ri cid st (s, h)) = (sh', ns)"
  shows "same_input (s, h) sh'"
proof (cases "has_submitted_buffer (h st)")
  case False
  then show ?thesis
    using assms by (auto simp: post_cursor_image_from_current_buffer_def run_notes_def remove_cursor_image_def Let_def)
next
  case True
  obtain r st' where l: "lock_compositor_buffer cid (h st) = (r, st')" by fastforce
  have p: "first_frame_posted st' = first_frame_posted (h st)" using stream_ops_posted(3) [of cid "h st"] by (simp add: l state_of_def)
  show ?thesis
    using assms True p
    by (cases r; cases "ri (projr r) (adapter_hotspot (cursor_stream_adapter s))")
      (auto simp: post_cursor_image_from_current_buffer_def run_notes_def l and_then_def set_cursor_from_buffer_def Let_def ret_def throw_def state_of_def
        result_of_def has_submitted_buffer_def intro!: same_inputI split: if_splits)
qed

lemma set_callbacks_posted: "first_frame_posted (set_callbacks cb ls h i) = first_frame_posted (h i)"
  unfolding set_callbacks_def by (induction ls arbitrary: h) (auto simp: set_frame_posted_callback_def)

lemma surface_op_tells_the_cursor:
  fixes ns :: "('k, 'e, 'o) surface_notes"
  assumes "surface_exec ri cid op (s, h) = (sh', ns)" "ob \<in> set (list_for_each (surface_observers s))"
    and "\<And>c. op \<noteq> Clip c" "\<And>rs. op \<noteq> Region rs" "\<not> tells_the_cursor ob ns"
  shows "same_input (s, h) sh'"
proof (cases op)
  case (Configure a v)
  then show ?thesis
    using assms(1) configure_same_input [of s h a v] by (auto simp: run_notes_def state_of_and_then_ret)
next
  case (Cursor_stream st d)
  show ?thesis
  proof (cases "adapter_stream (cursor_stream_adapter s) = Some st \<and> adapter_hotspot (cursor_stream_adapter s) = d")
    case True
    then show ?thesis using assms(1) Cursor_stream by (auto simp: set_cursor_stream_def run_notes_def same_input_frame)
  next
    case False
    let ?s = "s\<lparr>cursor_stream_adapter := \<lparr>adapter_stream = Some st, adapter_hotspot = d\<rparr>\<rparr>"
    obtain h1 where h1: "set_cursor_stream ri cid st d (s, h) =
        (post_cursor_image_from_current_buffer ri cid st (?s, h1) :: (_, ('k, 'e, 'o) surface_notes) outcome)"
      "\<forall>i. first_frame_posted (h1 i) = first_frame_posted (h i)"
      using False by (auto simp: set_cursor_stream_def Let_def set_frame_posted_callback_def split: option.splits)
    have "same_input (?s, h1) sh'"
      using assms(1,2,5) h1(1) Cursor_stream by (intro posted_same_input [where ob = ob and ns = ns and ri = ri and cid = cid and st = st]) auto
    moreover have "same_input (s, h) (?s, h1)" using h1(2) by (intro same_inputI) (simp_all add: has_submitted_buffer_def)
    ultimately show ?thesis by (simp add: same_input_def)
  qed
qed (use assms in \<open>auto simp: keep_store_def move_to_def resize_def set_window_margins_def set_hidden_def set_reception_mode_def set_alpha_def
    set_transformation_def rename_surface_def set_depth_layer_def set_application_id_def set_streams_def set_cursor_image_def set_confine_pointer_state_def adapter_reset_def
    Let_def same_input_frame split: if_splits option.splits\<close>)

text \<open>Touch spots.\<close>

fun is_spot :: "'x overlay \<Rightarrow> bool" where
  "is_spot (Spot i) = True"
| "is_spot (Other_overlay x) = False"

definition spots_inv :: "touchspot_controller \<times> ('s, 'c, 'x, 'o) spot_stack \<Rightarrow> bool" where
  "spots_inv = (\<lambda>(tc, st). renderables_in_use tc \<le> length (spot_positions tc) \<and> filter is_spot (overlays st) = map Spot [0..<renderables_in_use tc])"

lemma visualization_frame [simp]:
  "overlays (fst (add_input_visualization v st)) = overlays st @ [v]" "surface_layers (fst (add_input_visualization v st)) = surface_layers st"
  "overlays (fst (emit_scene_changed st)) = overlays st" "surface_layers (fst (emit_scene_changed st)) = surface_layers st"
  by (simp_all add: add_input_visualization_def emit_scene_changed_def Let_def)

lemma place_spots:
  fixes st :: "('s, 'c, 'x, 'o) spot_stack"
  assumes "n \<le> length ps"
  shows "\<exists>ps' st'. fold (place_spot spot touches in_use) [0..<n] (ps, st) = (ps', st') \<and> length ps' = length ps \<and>
    (\<forall>i < n. ps' ! i = move_center_to spot (touches ! i)) \<and> overlays st' = overlays st @ map Spot [in_use..<n] \<and> surface_layers st' = surface_layers st"
  using assms
proof (induction n)
  case (Suc n)
  then obtain ps' and st' :: "('s, 'c, 'x, 'o) spot_stack" where IH: "fold (place_spot spot touches in_use) [0..<n] (ps, st) = (ps', st')" "length ps' = length ps"
    "\<forall>i < n. ps' ! i = move_center_to spot (touches ! i)" "overlays st' = overlays st @ map Spot [in_use..<n]" "surface_layers st' = surface_layers st" by auto
  have step: "place_spot spot touches in_use n (ps', st') =
      (ps'[n := move_center_to spot (touches ! n)], if n \<ge> in_use then fst (add_input_visualization (Spot n) st') else st')" by (simp add: place_spot_def)
  show ?case using IH Suc.prems by (auto simp: step nth_list_update less_Suc_eq)
qed simp

lemma filter_spot_remove1: "filter is_spot (remove1 (Spot i) xs) = remove1 (Spot i) (filter is_spot xs)"
  by (induction xs) auto

lemma filter_other_remove1: "filter (\<lambda>v. \<not> is_spot v) (remove1 (Spot i) xs) = filter (\<lambda>v. \<not> is_spot v) xs"
  by (induction xs) auto

lemma remove_spots_returns:
  fixes st :: "('s, 'c, 'x, 'o) spot_stack"
  assumes "filter is_spot (overlays st) = map Spot (keep @ is)" "distinct (keep @ is)"
  shows "\<exists>st'. remove_spots is st = ret () st' \<and> filter is_spot (overlays st') = map Spot keep \<and>
    filter (\<lambda>v. \<not> is_spot v) (overlays st') = filter (\<lambda>v. \<not> is_spot v) (overlays st) \<and> surface_layers st' = surface_layers st"
  using assms
proof (induction "is" arbitrary: st)
  case (Cons i "is")
  have "Spot i \<in> set (filter is_spot (overlays st))" unfolding Cons.prems(1) by simp
  then have i: "Spot i \<in> set (overlays st)" by simp
  let ?st = "fst (emit_scene_changed (st\<lparr>overlays := remove1 (Spot i) (overlays st)\<rparr>))"
  have "filter is_spot (overlays ?st) = map Spot (keep @ is)"
    using Cons.prems by (simp add: filter_spot_remove1 remove1_append image_iff)
  then obtain st' where "remove_spots is ?st = ret () st'" "filter is_spot (overlays st') = map Spot keep"
    "filter (\<lambda>v. \<not> is_spot v) (overlays st') = filter (\<lambda>v. \<not> is_spot v) (overlays ?st)" "surface_layers st' = surface_layers ?st"
    using Cons.IH [of ?st] Cons.prems(2) by auto
  then show ?case using i by (auto simp: remove_input_visualization_def filter_other_remove1 split_beta)
qed simp

lemma visualize_touches_spec:
  fixes st :: "('s, 'c, 'x, 'o) spot_stack" and touches :: "point list"
  assumes "spots_inv (tc, st)"
  defines "n \<equiv> if spots_enabled tc then length touches else 0"
  shows "\<exists>tc' st'. visualize_touches spot touches (tc, st) = ret () (tc', st') \<and> spots_inv (tc', st') \<and> renderables_in_use tc' = n \<and>
    (\<forall>i < n. spot_positions tc' ! i = move_center_to spot (touches ! i)) \<and>
    filter (\<lambda>v. \<not> is_spot v) (overlays st') = filter (\<lambda>v. \<not> is_spot v) (overlays st) \<and> surface_layers st' = surface_layers st"
proof -
  let ?u = "renderables_in_use tc" and ?ps = "spot_positions tc @ replicate (n - length (spot_positions tc)) (Point 0 0)"
  have len: "n \<le> length ?ps" by simp
  obtain ps1 and st1 :: "('s, 'c, 'x, 'o) spot_stack" where 1: "fold (place_spot spot touches ?u) [0..<n] (?ps, st) = (ps1, st1)" "length ps1 = length ?ps"
    "\<forall>i < n. ps1 ! i = move_center_to spot (touches ! i)" "overlays st1 = overlays st @ map Spot [?u..<n]" "surface_layers st1 = surface_layers st"
    using place_spots [OF len, of spot touches ?u st] by auto
  have "[0..<?u] @ [?u..<n] = [0..<n] @ [n..<?u]" 
    using upt_add_eq_append [of 0 ?u "n - ?u"] upt_add_eq_append [of 0 n "?u - n"] by (cases "?u \<le> n") auto
  then have "filter is_spot (overlays st1) = map Spot ([0..<n] @ [n..<?u])"
    using assms(1) 1(4) by (simp add: spots_inv_def map_append [symmetric] comp_def del: map_append) 
  moreover have "distinct ([0..<n] @ [n..<?u])" by auto
  ultimately obtain st2 where 2: "remove_spots [n..<?u] st1 = ret () st2" "filter is_spot (overlays st2) = map Spot [0..<n]"
    "filter (\<lambda>v. \<not> is_spot v) (overlays st2) = filter (\<lambda>v. \<not> is_spot v) (overlays st1)" "surface_layers st2 = surface_layers st1"
    using remove_spots_returns by blast
  have "filter (\<lambda>v. \<not> is_spot v) (overlays st1) = filter (\<lambda>v. \<not> is_spot v) (overlays st)" by (simp add: 1(4) filter_empty_conv)
  then show ?thesis
    using 1 2 len by (auto simp: visualize_touches_def n_def [symmetric] Let_def spots_inv_def)
qed

text \<open>Filters.\<close>

lemma filter_chain_spec:
  "filter_chain_handle alive handle event fs = (taken, rest, asked) \<Longrightarrow>
     (taken \<longleftrightarrow> (\<exists>f\<in>set fs. alive f \<and> handle f event)) \<and> filter alive rest = filter alive fs \<and>
     (\<not> taken \<longrightarrow> rest = filter alive fs \<and> asked = filter alive fs) \<and>
     (taken \<longrightarrow> asked \<noteq> [] \<and> handle (last asked) event \<and> (\<forall>f\<in>set (butlast asked). \<not> handle f event) \<and> (\<exists>later. filter alive fs = asked @ later))"
proof (induction fs arbitrary: taken rest asked)
  case (Cons f fs)
  obtain t r q where e: "filter_chain_handle alive handle event fs = (t, r, q)" by (metis prod_cases3)
  show ?case using Cons.IH [OF e] Cons.prems by (auto simp: e split: if_splits)
qed simp

section \<open>Properties\<close>

text \<open>
  C22: The cursor on the display is always the one of the scene: whenever the controller has heard of a change of the scene or the pointer has moved, the display shows the image
  that the topmost surface under the pointer asks for, the default image where there is no surface, and no cursor when the image is empty or the surface wants none.
\<close>

theorem cursor_follows_the_scene:
  assumes "cursor_run image_size img image_of view st cc"
  shows "cursor_shown image_size cc = visible_image image_size
    (case surface_at view (cursor_location cc) st of Some s \<Rightarrow> image_of s | None \<Rightarrow> default_cursor_image cc)"
  using cursor_run_shows [OF assms] by (simp add: wanted_image_def)

definition empty_spot_stack :: "(nat, nat, nat, nat) spot_stack" where
  "empty_spot_stack = make_surface_stack"

definition sample_stack_view :: "(nat, nat, nat) surface_view" where
  "sample_stack_view = \<lparr>depth_of = (\<lambda>_. Layer_application), visible = (\<lambda>_. True), input_area_contains = (\<lambda>s p. True),
     generate_renderables = (\<lambda>s c. []), buffers_ready = (\<lambda>s c. 0)\<rparr>"

theorem cursor_follows_the_scene_witness:
  "cursor_shown (\<lambda>i. Size 8 8) (update_cursor_image (\<lambda>i. Size 8 8) (\<lambda>s. Some (s + 50)) sample_stack_view
     (fst (add_surface sample_stack_view 2 (make_surface_stack :: (nat, nat, nat, nat) surface_stack))) (make_cursor_controller (Some 7))) = Some (52 :: nat)"
proof -
  let ?st = "make_surface_stack :: (nat, nat, nat, nat) surface_stack"
  have "cursor_run (\<lambda>i :: nat. Size 8 8) (Some 7) (\<lambda>s. Some (s + 50)) sample_stack_view ?st (make_cursor_controller (Some 7))"
    by (rule cursor_run.start) (simp add: stack_for_each_def make_surface_stack_def)
  from cursor_follows_the_scene [OF cursor_run.changed [OF this, of "\<lambda>s. Some (s + 50)" sample_stack_view "fst (add_surface sample_stack_view 2 ?st)"]]
  show ?thesis
    by (simp add: surface_at_def add_surface_def make_surface_stack_def insert_surface_at_top_of_depth_layer_def insert_at_layer_def
        create_rendering_tracker_for_def sample_stack_view_def numeral_eq_Suc Let_def visible_image_def is_empty_image_def split: prod.split)
qed

text \<open>
  The controller hears of every change that matters: an operation on a surface that tells the controller's observer of the surface nothing to react to changes neither where the
  surface takes input nor its cursor image.  The exceptions are setting the input region and the clip area, which tell no observer.
\<close>

theorem surface_operations_reach_the_cursor:
  fixes ns :: "('k, 'e, 'o) surface_notes"
  assumes "surface_exec ri cid op (s, h) = (sh', ns)" "ob \<in> set (list_for_each (surface_observers s))"
    and "\<nexists>c. op = Clip c" "\<nexists>rs. op = Region rs" "\<not> tells_the_cursor ob ns"
  shows "cursor_image_of (fst sh') = cursor_image_of s \<and> (surface_input_area_contains p sh' \<longleftrightarrow> surface_input_area_contains p (s, h))"
  using surface_op_tells_the_cursor [OF assms(1,2) _ _ assms(5)] assms(3,4) by (auto simp: same_input_def)

theorem surface_operations_reach_the_cursor_witness:
  "cursor_image_of (fst (fst (surface_exec (\<lambda>b d. Inr 0) 0 (Rename ''x'') (surface_add_observer 5 sample_surface, sample_store) ::
     (nat, nat, nat, nat) surface_state \<times> (nat, nat, nat) surface_notes))) = cursor_image_of sample_surface"
proof -
  let ?s = "surface_add_observer 5 sample_surface"
  let ?r = "surface_exec (\<lambda>b d. Inr 0) 0 (Rename ''x'') (?s, sample_store) :: (nat, nat, nat, nat) surface_state \<times> (nat, nat, nat) surface_notes"
  have ob: "5 \<in> set (list_for_each (surface_observers ?s))"
    using tsl.set_members_add [of "surface_observers sample_surface" 5] by (simp add: surface_add_observer_def)
  have "\<not> tells_the_cursor 5 (snd ?r)" by (auto simp: rename_surface_def keep_store_def tells_the_cursor_def tell_observers_def Let_def)
  from surface_operations_reach_the_cursor [OF prod.collapse [symmetric] ob _ _ this] show ?thesis by (simp add: surface_add_observer_def)
qed

text \<open>The exceptions are real: after a change of its input region a surface may take input at a point where it did not, and nobody is told.\<close>

lemma input_region_is_not_told:
  "surface_exec ri cid (Region rs) (s, h) = ((s\<lparr>custom_input_rectangles := rs\<rparr>, h), [])"
  by (simp add: set_input_region_def)

text \<open>
  C31: The touch spots in the scene are the touches: showing touches never fails, and afterwards the scene has one spot for each touch, centred on it, or none when spots are disabled;
  the other overlays and the surfaces stay as they are.
\<close>

theorem touch_spots_show_the_touches:
  fixes st :: "('s, 'c, 'x, 'o) spot_stack"
  assumes "spots_inv (tc, st)"
  shows "\<exists>tc' st'. visualize_touches spot touches (tc, st) = ret () (tc', st') \<and> spots_inv (tc', st') \<and>
    filter is_spot (overlays st') = map Spot [0..<if spots_enabled tc then length touches else 0] \<and>
    (spots_enabled tc \<longrightarrow> (\<forall>i < length touches. spot_positions tc' ! i = move_center_to spot (touches ! i))) \<and>
    filter (\<lambda>v. \<not> is_spot v) (overlays st') = filter (\<lambda>v. \<not> is_spot v) (overlays st) \<and> surface_layers st' = surface_layers st"
  using visualize_touches_spec [OF assms, of spot touches] by (auto simp: spots_inv_def)

theorem touch_spots_show_the_touches_witness:
  "\<exists>tc' st'. visualize_touches (Size 64 64) [Point 100 50, Point 7 9] (enable_spots make_touchspot_controller, empty_spot_stack) = ret () (tc', st') \<and>
     filter is_spot (overlays st') = [Spot 0, Spot 1] \<and> spot_positions tc' ! 0 = Point 68 18"
proof -
  have inv: "spots_inv (enable_spots make_touchspot_controller, empty_spot_stack)"
    by (simp add: spots_inv_def enable_spots_def make_touchspot_controller_def empty_spot_stack_def make_surface_stack_def)
  have on: "spots_enabled (enable_spots make_touchspot_controller)" by (simp add: enable_spots_def)
  obtain tc' st' where "visualize_touches (Size 64 64) [Point 100 50, Point 7 9] (enable_spots make_touchspot_controller, empty_spot_stack) = ret () (tc', st')"
    "filter is_spot (overlays st') = map Spot [0..<2]" "\<forall>i < 2. spot_positions tc' ! i = move_center_to (Size 64 64) ([Point 100 50, Point 7 9] ! i)"
    using touch_spots_show_the_touches [OF inv, of "Size 64 64" "[Point 100 50, Point 7 9]"] on by (auto simp: numeral_2_eq_2)
  moreover have "[0..<2] = [0, 1 :: nat]" by (simp add: numeral_2_eq_2)
  moreover have "spot_positions tc' ! 0 = move_center_to (Size 64 64) (Point 100 50)" using calculation(3) by (simp only: zero_less_numeral nth_Cons_0)
  ultimately show ?thesis by (intro exI [of _ tc'] exI [of _ st']) (simp add: move_center_to_def)
qed

text \<open>
  An event goes on to the dispatchers exactly when no living filter takes it.  Filters are asked in order up to the first that takes the event, and filters that have died are dropped, none
  else is lost.
\<close>

theorem filters_come_before_dispatchers:
  "(fst (filter_chain_dispatch alive handle next_dispatch event fs) \<longleftrightarrow>
      (\<exists>f\<in>set fs. alive f \<and> handle f event) \<or> next_dispatch event) \<and>
   filter alive (snd (filter_chain_dispatch alive handle next_dispatch event fs)) = filter alive fs \<and>
   (case filter_chain_handle alive handle event fs of (taken, rest, asked) \<Rightarrow>
      if taken then asked \<noteq> [] \<and> handle (last asked) event \<and> (\<forall>f\<in>set (butlast asked). \<not> handle f event) \<and> (\<exists>later. filter alive fs = asked @ later)
      else asked = filter alive fs)"
proof -
  obtain t r q where e: "filter_chain_handle alive handle event fs = (t, r, q)" by (cases "filter_chain_handle alive handle event fs")
  have d: "filter_chain_dispatch alive handle next_dispatch event fs = (t \<or> next_dispatch event, r)" by (simp add: filter_chain_dispatch_def e)
  show ?thesis
  proof (cases t)
    case True
    then show ?thesis unfolding d e using filter_chain_spec [OF e] by simp
  next
    case False
    then show ?thesis unfolding d e using filter_chain_spec [OF e] by (auto simp del: filter.simps)
  qed
qed

theorem filters_come_before_dispatchers_witness:
  "fst (filter_chain_dispatch (\<lambda>f. f \<noteq> 1) (\<lambda>f ev. f = ev) (\<lambda>ev. False) 3 [1, 2, 3 :: nat])"
  using filters_come_before_dispatchers [of "\<lambda>f. f \<noteq> 1" "\<lambda>f ev. f = ev" "\<lambda>ev. False" 3 "[1, 2, 3 :: nat]"] by simp

text \<open>Only Ctrl-Alt with a function key switches terminals, and each function key to its own.\<close>

lemma vt_filter_switches:
  "vt_filter_handle (Key ev) = Some n \<Longrightarrow> 1 \<le> n \<and> n \<le> 12 \<and> key_action ev = Key_down \<and> key_modifiers ev AND modifier_alt \<noteq> 0 \<and> key_modifiers ev AND modifier_ctrl \<noteq> 0"
  by (auto simp: vt_filter_handle_def vt_of_scan_code_def split: if_splits)

end
