(* ===== verification/Spec2Isabelle.thy ===== *)
theory Spec2Isabelle
  imports
    Window_Shell Wayland_Surface Wayland_Window Wayland_Runs Input_Devices Input_Hub Input_Config
    Buffer_Vault Display_Configuration Display_Changer Decoration Application_Session
    Geometry Schedules Arbiter Stream_Model Occlusion Observer_List Rendering_Tracker Surface_Stack
    Compositing Input_Events Touch_Validator Seat_Tracker Key_Repeat Surface_Dispatcher
    Session_Container Prompt_Sessions Anr_Detector Window_Info Window_Placement Basic_Surface
    Loops Abstract_Shell Window_Trees Workspaces Window_Manager Window_Focus Input_Visuals
begin

text \<open>
  A verification library for Mir, a display server: the part of the server that decides which buffer
  is shown, which surface is on top, which surface gets an input event, where a window is placed and
  how the outputs are configured, and the part of the client library that manages a client's buffers.

  \<^bold>\<open>Parts of the program and their theories.\<close>  File names are relative to the repository.

  \<^item> \<open>Prelude\<close>: exceptions as values (an operation that throws keeps the changes it made before),
    truncating division, list idioms of the standard library.
  \<^item> \<open>Geometry\<close>: \<open>include/core/mir/geometry\<close>, \<open>src/core/geometry/rectangle.cpp\<close> and
    \<open>rectangles.cpp\<close>.  A rectangle denotes a set of pixels; containment, overlap, intersection, bounding
    box and confinement are proved against that set, and the arithmetic is proved to stay in range.
  \<^item> \<open>Schedules\<close>, \<open>Arbiter\<close>, \<open>Stream_Model\<close>: \<open>src/server/compositor/queueing_schedule.cpp\<close>,
    \<open>dropping_schedule.cpp\<close>, \<open>multi_monitor_arbiter.cpp\<close>, \<open>stream.cpp\<close>.  A client submits buffers to a
    stream; its schedule keeps the ones not shown yet; the arbiter hands the current one to every
    compositor and moves on when a compositor that has seen it asks again.  The contract of a schedule
    is the locale \<open>buffer_schedule\<close>, interpreted for the queueing and the dropping schedule and for
    the virtual call through their common base class; the arbiter and the stream rest on it.  The
    stream and its arbiter share schedule objects by reference, so the model has a store of schedules.
  \<^item> \<open>Occlusion\<close>: \<open>src/server/compositor/occlusion.cpp\<close>.  What the filter removes is invisible: the
    picture painted from the remaining elements is the same.
  \<^item> \<open>Observer_List\<close>: \<open>src/include/common/mir/thread_safe_list.h\<close>, the container behind every observer
    registry.  Its contract is the locale \<open>registry\<close>.
  \<^item> \<open>Rendering_Tracker\<close>, \<open>Surface_Stack\<close>: \<open>src/server/scene/rendering_tracker.cpp\<close> and
    \<open>surface_stack.cpp\<close>.  The stacking order by depth layer, hit tests, raising one surface or a set of
    them, what each compositor draws, and which surfaces are told that they are hidden.
  \<^item> \<open>Compositing\<close>: \<open>src/server/compositor/default_display_buffer_compositor.cpp\<close>, where the scene, the
    occlusion filter and the rendering trackers meet in one frame.
  \<^item> \<open>Input_Events\<close>: the events the input components exchange, from \<open>src/common/events\<close>,
    \<open>src/client/events/event_builders.cpp\<close> and \<open>src/server/input/input_modifier_utils.cpp\<close>.
  \<^item> \<open>Touch_Validator\<close>, \<open>Seat_Tracker\<close>, \<open>Key_Repeat\<close>, \<open>Surface_Dispatcher\<close>:
    \<open>src/server/input/validator.cpp\<close>, \<open>seat_input_device_tracker.cpp\<close>, \<open>key_repeat_dispatcher.cpp\<close> and
    \<open>surface_input_dispatcher.cpp\<close>, in the order an event passes through them: the stream of touch
    contacts is made consistent, the seat combines the state of its devices and confines the cursor,
    held keys repeat, and the event reaches the focused surface, the surface under the pointer or the
    owner of the gesture.
  \<^item> \<open>Input_Devices\<close>, \<open>Input_Hub\<close>, \<open>Input_Config\<close>: \<open>src/common/input\<close>,
    \<open>src/server/input/default_device.cpp\<close>, \<open>default_input_device_hub.cpp\<close> and \<open>config_changer.cpp\<close>: a
    device with its configuration, the hub that identifies and remembers devices and tells its observers,
    and the configuration of all devices by the base configuration or by the focused session's.
  \<^item> \<open>Input_Visuals\<close>: \<open>src/server/input/cursor_controller.cpp\<close>, \<open>touchspot_controller.cpp\<close>,
    \<open>event_filter_chain_dispatcher.cpp\<close> and \<open>vt_filter.cpp\<close>: what the display shows of pointer and touches
    over the scene, and the filters an event passes before the dispatchers.
  \<^item> \<open>Session_Container\<close>, \<open>Prompt_Sessions\<close>, \<open>Anr_Detector\<close>: \<open>src/server/scene/session_container.cpp\<close>,
    \<open>prompt_session_container.cpp\<close>, \<open>prompt_session_impl.cpp\<close>, \<open>prompt_session_manager_impl.cpp\<close> and
    \<open>timeout_application_not_responding_detector.cpp\<close>.
  \<^item> \<open>Application_Session\<close>: \<open>src/server/scene/application_session.cpp\<close> and \<open>session_manager.cpp\<close>, the
    surfaces and streams a client owns and the sessions the server has open.
  \<^item> \<open>Basic_Surface\<close>: \<open>src/server/scene/basic_surface.cpp\<close>, the surface itself, with its attributes,
    streams, input area, renderables and observers.
  \<^item> \<open>Window_Info\<close>, \<open>Window_Placement\<close>: \<open>src/miral/window_info.cpp\<close>, \<open>mru_window_list.cpp\<close> and the
    placement computations of \<open>basic_window_manager.cpp\<close>.
  \<^item> \<open>Loops\<close>, \<open>Window_Trees\<close>, \<open>Workspaces\<close>, \<open>Window_Manager\<close>, \<open>Window_Focus\<close>: the rest of
    \<open>basic_window_manager.cpp\<close>.  \<open>Loops\<close> has the generic walks along links that may be circular and the
    conditions under which they end; \<open>Window_Trees\<close> the windows with their parents and children, raising,
    moving and activating a tree; \<open>Workspaces\<close> the windows of a workspace; \<open>Window_Manager\<close> the display
    areas, the states and the requests of clients; \<open>Window_Focus\<close> what removing a window or changing
    its state does to the focus.
  \<^item> \<open>Window_Shell\<close>: the window manager with \<open>AbstractShell\<close> as its focus controller, for the removal of a window.
  \<^item> \<open>Abstract_Shell\<close>: \<open>src/server/shell/abstract_shell.cpp\<close> and \<open>surface_specification.cpp\<close>, the focus of
    sessions and surfaces above a window manager.
  \<^item> \<open>Decoration\<close>: \<open>src/server/shell/decoration\<close>, the frame the server draws around a window: its
    geometry, its buttons and edges and the input they get, and the updates of its surface.
  \<^item> \<open>Display_Configuration\<close>, \<open>Display_Changer\<close>: the outputs and the policies that configure them, from
    \<open>src/server/graphics\<close> and \<open>src/platform/graphics\<close>, the display layout and output properties, and
    \<open>src/server/scene/mediating_display_changer.cpp\<close>, which decides between the configurations of the
    focused session, of the shell and of the hardware.
  \<^item> \<open>Wayland_Surface\<close>, \<open>Wayland_Window\<close>, \<open>Wayland_Runs\<close>: \<open>src/server/frontend_wayland/wl_surface.cpp\<close>,
    \<open>wl_subcompositor.cpp\<close>, \<open>window_wl_surface_role.cpp\<close> and \<open>src/server/scene/surface_creation_parameters.cpp\<close>: the
    surfaces of Wayland clients with what they have pending, the trees of sub-surfaces whose changes wait for
    their parents', and the windows, which tell the shell what was committed; and what holds in every run of requests.
  \<^item> \<open>Buffer_Vault\<close>: \<open>src/client/buffer_vault.cpp\<close> and \<open>buffer_factory.cpp\<close>, the buffers a client draws in.

  \<^bold>\<open>How the code is translated.\<close>  A class is a record of its data members, a member function is a
  function from the record and its arguments to the results, the new record and the calls it makes on
  other objects, in their order.  Every throw is a value of \<open>exn\<close>, and a fatal error of the server is
  \<open>None\<close>.  Calls under a mutex are atomic; the order in which calls arrive is arbitrary, as an
  inductive set of reachable states or as an arbitrary list of operations.  What a component asks of
  objects of other classes (a surface's bounds, the compositing policy, a key map, the clock) is an
  argument.  Signed integers are unbounded, because their overflow has no meaning in C++, with range
  lemmas where values are computed, and with the conversion written out where a longer value is made an \<open>int\<close> (the rounding of \<open>constrain_resize\<close>); bit masks are words or bit sets.  Floating-point positions are
  rationals or rounded by a parameter.  Loops over a sequence are structural
  recursions.  The walks of the window manager along parents, children and sessions, and those over Wayland
  sub-surfaces, which would not end on circular links, are \<open>partial_function (option)\<close>, where \<open>None\<close> stands for not returning, and the
  theorems prove that they return on every forest of windows or surfaces.  No fuel is used.

  \<^bold>\<open>What the theorems show.\<close>  For the compositing side: reachable streams are consistent, compositors
  get every scheduled buffer in order, changing the mode loses no more than the mode prescribes, the
  occlusion filter changes no pixel that no element's clip area cuts out of it.  For the scene: the scene is drawn by depth layer, raising is to
  the top of the layer and stable, hit tests find the topmost surface, and a surface hidden everywhere
  is told so.  For input: dispatched touch streams are valid, the seat reflects its devices, the
  cursor stays in its region, repeat alarms exist exactly for held keys, pointer enter and leave events
  are balanced, a gesture stays with its surface, and a removed surface gets nothing; observers of the
  devices know exactly the devices of the hub, a device that comes back, whatever happened in between, gets its configuration back, an
  accepted configuration is in force, the cursor is the one of the surface below it and the touch spots
  are the touches.  For sessions:
  the prompt sessions in the container are the running ones, and silent applications are flagged.  A
  session owns its surfaces.  For windows: constrained sizes keep limits, increments and the dragged
  edge's opposite, relative placement falls back in the order of the hints and slides onto the output,
  application zones stay clear of exclusive rectangles, trees are raised and moved as a whole, the focus
  goes to a window that can have it, a removed window leaves no trace and changes of the outputs are
  survived; these hold as long as the parents of the windows form a forest (which a client can break, \<open>window_can_become_its_own_parent\<close>) and, for the outputs, as long as the sets of attached
  windows are in order, and each theorem says so.  A decoration's surface follows its window, and only a still click closes a window.  For
  displays: groups of outputs are the connected components of overlapping outputs, policies make valid
  configurations, the mediator knows what is shown and rolls back what the display refuses.  For
  Wayland clients: as long as the sub-surfaces form trees, a commit returns, applies to exactly the sub-surfaces that wait for it and leaves the shell with the
  size and the limits that were committed, and after a commit that tells the shell of streams and input shape input goes by what it was told.  For
  clients: the vault answers withdrawals in order, until its end, and fails only in the cases listed.  Some theorems record where the code does not do what it means to:
  \<open>idle_acquisitions_grow_the_users\<close>, \<open>set_pointer_state_leaves_seat_buttons\<close>,
  \<open>release_of_side_button_is_dropped\<close>, \<open>increment_rounding_exceeds_maximum\<close>,
  \<open>increment_rounding_overflows\<close>, \<open>resize_hint_gives_negative_width\<close>, \<open>below_is_one_lower\<close>, \<open>own_parent_does_not_return\<close>,
  \<open>clipped_element_hides_what_it_does_not_cover\<close>, \<open>confined_to_the_other_session\<close>, \<open>orientation_outside_the_enumeration\<close> and \<open>partly_hidden_surface_is_told_both\<close>.  The properties are
  stated in the section at the end of each component's theory; the one on a whole frame, which spans
  the scene, the filter and the trackers, is at the end of this one.

  \<^bold>\<open>Not modelled.\<close>  Interleavings inside one call, memory management, logging reports, the drawing code,
  the main loop over GLib, graphics and input platforms, the wire protocols of the frontends, which
  translate between libwayland, protobuf or xcb and the operations above (of the Wayland frontend: the shell, seat and output
  objects, destroy listeners and the import of buffers), and of the client library
  everything but its buffers.
\<close>

section \<open>A frame of the scene\<close>

definition sample_renderable :: "nat \<Rightarrow> renderable" where
  "sample_renderable n = \<lparr>transformation = identity_mat4, screen_position = Rectangle (Point (int n) 0) (Size 10 10),
     renderable_clip = None, alpha = 1, shaped = False\<rparr>"

text \<open>
  C1: Compositing a frame of any reachable scene, on any registered compositor, does not throw and
  leaves a reachable scene.  What goes to the screen looks exactly like the whole scene in its stacking
  order, with the overlays on top, at every point of the display that no clip area cuts out of an opaque
  element (the occlusion filter ignores clip areas).  A surface with elements in the frame is recorded as exposed to
  this compositor if and only if one of its elements was drawn, and what is recorded for
  other compositors stays.
\<close>

theorem frame_shows_the_scene:
  assumes "scene_reachable view st" "cid \<in> registered_compositors st" "draws_in_place rend covers"
    and "elements = fst (scene_elements_for view cid st)" "st1 = snd (scene_elements_for view cid st)"
  shows "\<exists>ns fr st2. composite rend area transform overlay cid elements st1 = ret (ns, fr) st2 \<and>
    scene_reachable view st2 \<and>
    (p \<in> pixels area \<and> (\<forall>e\<in>set elements. \<not> cut_out_at (rend (element_renderable e)) p) \<longrightarrow>
       picture rend covers (frame_renderables fr) p = picture rend covers (map element_renderable elements) p) \<and>
    (rendering_trackers st s = Some t \<longrightarrow>
       (\<exists>t'. rendering_trackers st2 s = Some t' \<and> occlusions t' - {cid} = occlusions t - {cid} \<and>
          (has_element elements s \<longrightarrow> (cid \<in> occlusions t' \<longleftrightarrow> \<not> has_element (snd (frame_split rend area elements)) s))))"
proof -
  obtain oc el where f: "frame_split rend area elements = (oc, el)" by fastforce
  have st1: "st1 = st\<lparr>scene_changed := False\<rparr>" using assms(5) by (simp add: scene_elements_frame)
  have r: "scene_reachable view st1" using assms(1,5) by (simp add: scene_reachable.elements)
  have k: "knows_compositor cid st1" by (rule reachable_knows_compositor [OF r]) (simp add: st1 assms(2))
  let ?st2 = "change_trackers (render_tracker cid) el (change_trackers (occlude_tracker cid) oc st1)"
  obtain ns fr where c: "composite rend area transform overlay cid elements st1 = ret (ns, fr) ?st2"
    "frame_renderables fr = map element_renderable el"
    using composite_eq [OF k f, of transform overlay] by (elim exE conjE) (rule that)
  have "scene_reachable view ?st2" using composite_reachable [OF r, of rend area transform overlay cid elements] c by simp
  moreover have "frame_renderables fr = snd (filter_occlusions_from rend (map element_renderable elements) area)"
    using c(2) f filter_occlusions_map [of element_renderable rend elements area] by (simp add: frame_split_def)
  moreover have "rendering_trackers st s = Some t \<Longrightarrow> \<exists>t'. rendering_trackers ?st2 s = Some t' \<and>
      occlusions t' - {cid} = occlusions t - {cid} \<and> (has_element elements s \<longrightarrow> (cid \<in> occlusions t' \<longleftrightarrow> \<not> has_element el s))"
    using composite_trackers [of st1 s t cid el oc] frame_split_elements [OF f, of s] by (auto simp: st1)
  ultimately show ?thesis
    using c(1) f filter_occlusions_picture [OF assms(3), of p area "map element_renderable elements"]
    by (intro exI [of _ ns] exI [of _ fr] exI [of _ ?st2]) auto
qed

text \<open>The sample scene with an overlay above its surfaces.\<close>

definition overlaid_scene :: "(nat, nat, nat, nat) surface_stack" where
  "overlaid_scene = fst (add_input_visualization 8 sample_scene)"

theorem frame_shows_the_scene_witness:
  "\<exists>ns fr st2. composite sample_renderable (Rectangle (Point 0 0) (Size 20 20)) () (\<lambda>_. False) 7
     (fst (scene_elements_for sample_view 7 overlaid_scene)) (snd (scene_elements_for sample_view 7 overlaid_scene)) = ret (ns, fr) st2 \<and>
     picture sample_renderable (\<lambda>r. shown_at (sample_renderable r)) (frame_renderables fr) (Point 9 5) =
     picture sample_renderable (\<lambda>r. shown_at (sample_renderable r))
       (map element_renderable (fst (scene_elements_for sample_view 7 overlaid_scene))) (Point 9 5)"
proof -
  have "scene_reachable sample_view overlaid_scene" unfolding overlaid_scene_def by (rule scene_reachable.add_overlay [OF sample_scene_reachable])
  moreover have "Point 9 5 \<in> pixels (Rectangle (Point 0 0) (Size 20 20))" by (simp add: mem_pixels geom_simps)
  moreover have "7 \<in> registered_compositors overlaid_scene"
    by (simp add: overlaid_scene_def add_input_visualization_def emit_scene_changed_def sample_scene_eq Let_def)
  moreover have "draws_in_place sample_renderable (\<lambda>r. shown_at (sample_renderable r))" by (simp add: draws_in_place_def)
  moreover have "\<not> cut_out_at (sample_renderable n) q" for n q by (simp add: cut_out_at_def shown_at_def sample_renderable_def)
  ultimately show ?thesis
    using frame_shows_the_scene [where cid = 7 and rend = sample_renderable and st = overlaid_scene and view = sample_view
        and covers = "\<lambda>r. shown_at (sample_renderable r)" and p = "Point 9 5"
        and area = "Rectangle (Point 0 0) (Size 20 20)" and overlay = "\<lambda>_. False" and transform = "()"]
    by blast
qed

section \<open>Surfaces in the scene\<close>

text \<open>The scene's view of a store of surfaces: the virtual functions of \<open>Surface\<close> as \<open>BasicSurface\<close> has them.\<close>

definition basic_view ::
  "(nat \<Rightarrow> bool) \<Rightarrow> (nat \<Rightarrow> ('k, 'o) basic_surface) \<Rightarrow> ('b, 'c) stream_store \<Rightarrow> (nat, 'c, snapshot) surface_view" where
  "basic_view has_alpha ss h = \<lparr>depth_of = (\<lambda>i. surface_depth (ss i)), visible = (\<lambda>i. surface_visible (ss i, h)),
     input_area_contains = (\<lambda>i p. surface_input_area_contains p (ss i, h)),
     generate_renderables = (\<lambda>i c. surface_generate_renderables has_alpha (ss i, h)),
     buffers_ready = (\<lambda>i c. surface_buffers_ready c (ss i, h))\<rparr>"

text \<open>Where a surface takes input: the content, or the rectangles that the client has set, cut to the clip area.\<close>

definition input_region :: "('k, 'o) basic_surface \<Rightarrow> point set" where
  "input_region s = {p. (\<forall>c. clip_area s = Some c \<longrightarrow> p \<in> pixels c) \<and>
     (if custom_input_rectangles s = [] then p \<in> pixels (input_bounds s)
      else \<exists>r\<in>set (custom_input_rectangles s).
             Point (px p - px (content_top_left s)) (py p - py (content_top_left s)) \<in> pixels r)}"

lemma input_region_contains:
  "surface_input_area_contains p (s, h) \<longleftrightarrow> surface_visible (s, h) \<and> p \<in> input_region s"
  by (auto simp: surface_input_area_contains_def input_region_def input_bounds_def contains_point_pixels list_ex_iff
      point_diff_def Let_def split: option.splits)


definition sample_submitted :: "(nat, nat) stream_store" where
  "sample_submitted i = state_of (submit_buffer (\<lambda>b. Size 10 10) (\<lambda>b. 1) (Some 4) (sample_store i))"

definition sample_pair :: "(nat, nat, snapshot, nat) surface_stack" where
  "sample_pair = fst (Surface_Stack.add_surface (basic_view (\<lambda>f. False) (\<lambda>i. sample_surface) sample_submitted) 2 make_surface_stack)"

lemma sample_surface_fields:
  "surface_wf sample_surface" "margins_fit sample_surface" "custom_input_rectangles sample_surface = []"
  "surface_input_area_contains (Point 5 5) (sample_surface, sample_submitted)" "surface_depth sample_surface = Layer_application"
  by (auto simp: sample_surface_def surface_add_observer_def make_basic_surface_def default_stream_def surface_wf_def query_def
      valid_attrib_def margins_fit_def surface_input_area_contains_def surface_visible_def has_submitted_buffer_def
      sample_submitted_def sample_store_def make_stream_def submit_buffer_def content_top_left_def content_size_def
      contains_point_def geom_simps point_plus_def Let_def split: window_attrib.splits)


text \<open>
  A client that asks for a content size gets it: the shell adds the window's frame to the requested
  size, and resizing the surface to the result gives the content exactly that size, with the frame
  unchanged.
\<close>

theorem requested_content_size_is_honoured:
  fixes s :: "('k, 'o) basic_surface"
  assumes "surface_wf s" "margins_fit s" "ss_width mods = Some w" "ss_height mods = Some h" "1 \<le> w" "1 \<le> h"
    and "wm_mods = wm_relevant_mods (rsize (surface_rect s)) (content_size s) (content_offset s) mods"
  shows "\<exists>ww wh. ss_width wm_mods = Some ww \<and> ss_height wm_mods = Some wh \<and>
    (let s' = fst (resize (Size ww wh) s :: _ \<times> ('k, 'e, 'o) surface_notes) in content_size s' = Size w h \<and> rsize (surface_rect s') = Size ww wh \<and>
       surface_margins s' = surface_margins s \<and> margins_fit s')"
proof -
  let ?m = "surface_margins s"
  let ?ww = "w + margin_left ?m + margin_right ?m" and ?wh = "h + margin_top ?m + margin_bottom ?m"
  have fit: "ss_width wm_mods = Some ?ww" "ss_height wm_mods = Some ?wh"
    using assms by (auto simp: wm_relevant_mods_def content_size_def margins_fit_def Let_def max_def)
  have pos: "0 < ?ww" "0 < ?wh" using assms(1,5,6) by (auto simp: surface_wf_def Let_def)
  have eq: "rsize (surface_rect (fst (resize (Size ?ww ?wh) s :: _ \<times> ('k, 'e, 'o) surface_notes))) = Size ?ww ?wh"
    "surface_margins (fst (resize (Size ?ww ?wh) s :: _ \<times> ('k, 'e, 'o) surface_notes)) = ?m"
    using pos by (auto simp: resize_def Let_def)
  then show ?thesis
    using fit assms(5,6)
    by - (rule exI [of _ ?ww], rule exI [of _ ?wh], simp add: Let_def content_size_def margins_fit_def)
qed

definition framed_surface :: "(nat, nat) basic_surface" where
  "framed_surface = sample_surface\<lparr>surface_margins := \<lparr>margin_top = 3, margin_left = 1, margin_bottom = 1, margin_right = 1\<rparr>\<rparr>"

definition empty_request :: "(nat, nat, nat) surface_specification" where
  "empty_request = \<lparr>ss_top_left = None, ss_width = None, ss_height = None, ss_pixel_format = None, ss_buffer_usage = None,
     ss_name = None, ss_output_id = None, ss_type = None, ss_state = None, ss_preferred_orientation = None, ss_parent_id = None,
     ss_aux_rect = None, ss_edge_attachment = None, ss_placement_hints = None, ss_surface_placement_gravity = None,
     ss_aux_rect_placement_gravity = None, ss_aux_rect_placement_offset_x = None, ss_aux_rect_placement_offset_y = None,
     ss_min_width = None, ss_min_height = None, ss_max_width = None, ss_max_height = None, ss_width_inc = None,
     ss_height_inc = None, ss_min_aspect = None, ss_max_aspect = None, ss_streams = None, ss_parent = None,
     ss_input_shape = None, ss_shell_chrome = None, ss_confine_pointer = None, ss_cursor_image = None,
     ss_stream_cursor = None, ss_depth_layer = None, ss_attached_edges = None, ss_exclusive_rect = None,
     ss_application_id = None\<rparr>"

theorem requested_content_size_is_honoured_witness:
  "\<exists>ww wh. content_size (fst (resize (Size ww wh) framed_surface :: _ \<times> (nat, nat, nat) surface_notes)) = Size 20 30"
proof -
  have "surface_wf framed_surface" "margins_fit framed_surface"
    by (auto simp: framed_surface_def sample_surface_def surface_add_observer_def make_basic_surface_def default_stream_def
        surface_wf_def query_def valid_attrib_def margins_fit_def Let_def split: window_attrib.splits)
  from requested_content_size_is_honoured [OF this _ _ _ _ refl,
      where mods = "empty_request\<lparr>ss_width := Some 20, ss_height := Some 30\<rparr>" and w = 20 and h = 30]
  show ?thesis by (auto simp: Let_def)
qed

section \<open>Raising a window in the scene\<close>

text \<open>The scene after the calls of the window manager on the surfaces of its windows.\<close>

definition stack_after ::
  "(nat, 'c, 'r) surface_view \<Rightarrow> wm_call list \<Rightarrow> (nat, 'c, 'r, 'o) surface_stack \<Rightarrow> (nat, 'c, 'r, 'o) surface_stack" where
  "stack_after view cs st = fold (\<lambda>c st. case c of Raise ws \<Rightarrow> fst (raise_set view (set ws) st) | _ \<Rightarrow> st) cs st"

lemma stack_after_raise_calls:
  fixes st :: "(nat, 'c, 'r, 'o) surface_stack"
  assumes "layers_inv (depth_of view) (surface_layers st)" "forest wm" "v \<in> dom (window_info wm)"
  shows "layers_inv (depth_of view) (surface_layers (stack_after view (raise_calls wm v) st)) \<and>
    (\<forall>i. layer_at (surface_layers (stack_after view (raise_calls wm v) st)) i = raised (tree wm v) (layer_at (surface_layers st) i))"
proof -
  obtain st' :: "(nat, 'c, 'r, 'o) surface_stack" where "fst (raise_set view (tree wm v) st) = st'"
    "\<forall>i. layer_at (surface_layers st') i = raised (tree wm v) (layer_at (surface_layers st) i)"
    using raise_set_layers [OF assms(1), of "tree wm v"] by (metis fst_conv)
  then show ?thesis
    using layers_inv_raised [OF assms(1)] by (simp add: stack_after_def raise_calls_def tree_order_set [OF assms(2,3)])
qed

lemma stack_after_ancestors:
  fixes st :: "(nat, 'c, 'r, 'o) surface_stack"
  assumes "layers_inv (depth_of view) (surface_layers st)" "forest wm" "\<forall>v\<in>set vs. v \<in> dom (window_info wm) \<and> T \<subseteq> tree wm v"
  shows "layers_inv (depth_of view) (surface_layers (stack_after view (concat (map (raise_calls wm) vs)) st)) \<and>
    (\<forall>i. filter (\<lambda>s. s \<in> T) (layer_at (surface_layers (stack_after view (concat (map (raise_calls wm) vs)) st)) i) =
       filter (\<lambda>s. s \<in> T) (layer_at (surface_layers st) i) \<and>
       set (layer_at (surface_layers (stack_after view (concat (map (raise_calls wm) vs)) st)) i) = set (layer_at (surface_layers st) i))"
  using assms(1,3)
proof (induction vs arbitrary: st)
  case (Cons v vs)
  let ?st = "stack_after view (raise_calls wm v) st"
  have v: "v \<in> dom (window_info wm)" "T \<subseteq> tree wm v" using Cons.prems(2) by simp_all
  note one = stack_after_raise_calls [OF Cons.prems(1) assms(2) v(1)]
  have "filter (\<lambda>s. s \<in> T) (raised (tree wm v) xs) = filter (\<lambda>s. s \<in> T) xs \<and> set (raised (tree wm v) xs) = set xs" for xs
  proof -
    have "filter (\<lambda>s. s \<in> T) (filter (\<lambda>s. s \<notin> tree wm v) xs) = []" using v(2) by (auto simp: filter_empty_conv)
    moreover have "filter (\<lambda>s. s \<in> T) (filter (\<lambda>s. s \<in> tree wm v) xs) = filter (\<lambda>s. s \<in> T) xs"
      using v(2) by (simp, metis (no_types, lifting) filter_cong subsetD)
    ultimately show ?thesis by (auto simp: raised_def)
  qed
  moreover have "stack_after view (concat (map (raise_calls wm) (v # vs))) st = stack_after view (concat (map (raise_calls wm) vs)) ?st"
    by (simp add: stack_after_def)
  ultimately show ?case using Cons.IH [of ?st] Cons.prems(2) one by simp
qed (simp add: stack_after_def)

text \<open>
  C9: Raising a window raises its tree.  When the parents and children of the windows form a forest (a window that is made
  its own parent breaks this, see \<open>window_can_become_its_own_parent\<close>), then in every reachable scene the window manager's walk over the tree of a known window ends, and once the
  scene has carried out its calls, in every depth layer the windows of the tree are above all others, in
  the order they had before, and no window has left its layer or been lost.
\<close>

theorem raised_tree_is_on_top:
  fixes st :: "(nat, 'c, 'r, 'o) surface_stack"
  assumes "scene_reachable view st" "forest wm" "w \<in> dom (window_info wm)"
  shows "\<exists>new. raise_tree w wm = Some (ret () (wm\<lparr>calls := calls wm @ new\<rparr>)) \<and>
    (\<forall>i. \<exists>below. layer_at (surface_layers (stack_after view new st)) i =
         below @ filter (\<lambda>s. s \<in> tree wm w) (layer_at (surface_layers st) i) \<and>
       set below = set (layer_at (surface_layers st) i) - tree wm w)"
proof -
  have inv: "layers_inv (depth_of view) (surface_layers st)" using scene_reachable_inv [OF assms(1)] by (simp add: stack_inv_def)
  obtain up where up: "chain (parent_window wm) (Some w) = Some up"
    "raise_tree w wm = Some (ret () (wm\<lparr>calls := calls wm @ concat (map (raise_calls wm) (rev up))\<rparr>))"
    using raise_tree_in [OF forest_wf_parents [OF assms(2)] refl assms(2,3)] by blast
  have "set up = {v. (v, w) \<in> (links (parent_window wm))\<^sup>*}"
    using chain_ends [OF forest_wf_parents [OF assms(2)], of "Some w"] up(1) by simp
  then have ups: "set up = {v. (w, v) \<in> (below (children_of wm))\<^sup>*}"
    by (simp add: links_parents [OF assms(2)] rtrancl_converse)
  obtain rest where rest: "up = w # rest"
    using up(1) by (auto simp: bind_eq_Some_conv)
  have "v \<in> dom (window_info wm) \<and> tree wm w \<subseteq> tree wm v" if "v \<in> set (rev rest)" for v
  proof -
    have v: "(w, v) \<in> (below (children_of wm))\<^sup>*" using ups that rest by auto
    then have "v = w \<or> v \<in> dom (window_info wm)" by (cases rule: rtranclE) (auto simp: below_children)
    with v assms(3) show ?thesis by (auto simp: tree_def)
  qed
  from stack_after_ancestors [OF inv assms(2), of "rev rest" "tree wm w"] this
  have mid: "layers_inv (depth_of view) (surface_layers (stack_after view (concat (map (raise_calls wm) (rev rest))) st))"
    "filter (\<lambda>s. s \<in> tree wm w) (layer_at (surface_layers (stack_after view (concat (map (raise_calls wm) (rev rest))) st)) i) =
       filter (\<lambda>s. s \<in> tree wm w) (layer_at (surface_layers st) i)"
    "set (layer_at (surface_layers (stack_after view (concat (map (raise_calls wm) (rev rest))) st)) i) = set (layer_at (surface_layers st) i)" for i
    by blast+
  let ?mid = "stack_after view (concat (map (raise_calls wm) (rev rest))) st"
  have "stack_after view (concat (map (raise_calls wm) (rev up))) st = stack_after view (raise_calls wm w) ?mid"
    by (simp add: stack_after_def rest)
  then have "layer_at (surface_layers (stack_after view (concat (map (raise_calls wm) (rev up))) st)) i =
      filter (\<lambda>s. s \<notin> tree wm w) (layer_at (surface_layers ?mid) i) @ filter (\<lambda>s. s \<in> tree wm w) (layer_at (surface_layers st) i)" for i
    using stack_after_raise_calls [OF mid(1) assms(2,3)] mid(2) by (simp add: raised_def)
  moreover have "set (filter (\<lambda>s. s \<notin> tree wm w) (layer_at (surface_layers ?mid) i)) = set (layer_at (surface_layers st) i) - tree wm w" for i
    using mid(3) by auto
  ultimately show ?thesis using up(2) by blast
qed

theorem raised_tree_is_on_top_witness:
  "\<exists>new. raise_tree 2 sample_wm = Some (ret () (sample_wm\<lparr>calls := calls sample_wm @ new\<rparr>)) \<and>
     (\<exists>below. layer_at (surface_layers (stack_after sample_view new sample_scene)) 2 = below @ [2] \<and> set below = {3})"
proof -
  have "window_info sample_wm 2 = Some (plain_window\<lparr>wi_type := Type_dialog, wi_parent := Some 1\<rparr>)" by (simp add: sample_wm_def)
  from tree_unfold [OF this] have "tree sample_wm 2 = {2}" by (simp add: window_samples)
  moreover have "2 \<in> dom (window_info sample_wm)" by (simp add: sample_wm_def)
  from raised_tree_is_on_top [OF sample_scene_reachable sample_wm_forest this] obtain new where
    new: "raise_tree 2 sample_wm = Some (ret () (sample_wm\<lparr>calls := calls sample_wm @ new\<rparr>))"
    "\<exists>below. layer_at (surface_layers (stack_after sample_view new sample_scene)) 2 =
       below @ filter (\<lambda>s. s \<in> tree sample_wm 2) (layer_at (surface_layers sample_scene) 2) \<and>
       set below = set (layer_at (surface_layers sample_scene) 2) - tree sample_wm 2" by blast
  moreover have "layer_at (surface_layers sample_scene) 2 = [2, 3]" by (simp add: layer_at_def sample_scene_eq)
  ultimately have "\<exists>below. layer_at (surface_layers (stack_after sample_view new sample_scene)) 2 = below @ [2] \<and> set below = {3}"
    by auto
  with new(1) show ?thesis by blast
qed

end
